(* ===== verification/Go_Float.thy ===== *)
theory Go_Float
  imports Complex_Main "HOL-Library.Log_Nat"
begin

text \<open>
  Go's \<^verbatim>\<open>float64\<close> and \<^verbatim>\<open>float32\<close> arithmetic, as far as the modelled code uses it. A finite
  floating-point value is the rational number it denotes; every operation is the exact operation
  followed by one rounding to 53 (respectively 24) significant bits, to nearest, ties to even, which
  is what IEEE 754 and the Go specification prescribe. Rounding is a definition here, not an
  idealisation: \<open>1.2 * 1440\<close> is \<open>1728\<close> in the program only because the product rounds up, and
  \<open>kLow_needs_rounding\<close> below records that. Not modelled: exponent overflow, subnormals, infinities
  and NaN (no modelled quantity reaches them), and the fusion of \<open>x * y + z\<close> that the Go
  specification allows an implementation on some architectures.
\<close>

section \<open>Rounding to a given precision\<close>

text \<open>\<open>flog2 x\<close> is the binary exponent of a positive \<open>x\<close>; \<open>rhe\<close> rounds to the nearest integer,
  ties to even; \<open>rnd p\<close> rounds to \<open>p\<close> significant bits.\<close>

definition flog2 :: "rat \<Rightarrow> int" where
  "flog2 x = (let (n, d) = quotient_of x; e = bitlen n - bitlen d
     in if 2 powi e \<le> x then e else e - 1)"

definition rhe :: "rat \<Rightarrow> int" where
  "rhe x = (let f = \<lfloor>x\<rfloor>; r = x - of_int f in
     if r < 1 / 2 then f else if 1 / 2 < r then f + 1 else if even f then f else f + 1)"

definition rnd :: "nat \<Rightarrow> rat \<Rightarrow> rat" where
  "rnd p x = (if x = 0 then 0 else
     let u = 2 powi (flog2 \<bar>x\<bar> - int p + 1) in of_int (rhe (x / u)) * u)"

definition f64 :: "rat \<Rightarrow> rat" where "f64 x = rnd 53 x"
definition f32 :: "rat \<Rightarrow> rat" where "f32 x = rnd 24 x"

definition add64 :: "rat \<Rightarrow> rat \<Rightarrow> rat" where "add64 x y = f64 (x + y)"
definition sub64 :: "rat \<Rightarrow> rat \<Rightarrow> rat" where "sub64 x y = f64 (x - y)"
definition mul64 :: "rat \<Rightarrow> rat \<Rightarrow> rat" where "mul64 x y = f64 (x * y)"
definition div64 :: "rat \<Rightarrow> rat \<Rightarrow> rat" where "div64 x y = f64 (x / y)"
definition int64f :: "int \<Rightarrow> rat" where "int64f i = f64 (of_int i)"

definition add32 :: "rat \<Rightarrow> rat \<Rightarrow> rat" where "add32 x y = f32 (x + y)"
definition sub32 :: "rat \<Rightarrow> rat \<Rightarrow> rat" where "sub32 x y = f32 (x - y)"
definition mul32 :: "rat \<Rightarrow> rat \<Rightarrow> rat" where "mul32 x y = f32 (x * y)"
definition div32 :: "rat \<Rightarrow> rat \<Rightarrow> rat" where "div32 x y = f32 (x / y)"

text \<open>The conversion \<^verbatim>\<open>int64(x)\<close> drops the fraction (towards zero).\<close>

definition trunc :: "rat \<Rightarrow> int" where
  "trunc x = (if 0 \<le> x then \<lfloor>x\<rfloor> else \<lceil>x\<rceil>)"

lemma kLow_needs_rounding:
  "f64 (6 / 5) * 1440 < 1728" "mul64 (f64 (6 / 5)) 1440 = 1728"
  by code_simp+

section \<open>Laws of rounding\<close>

lemma bitlen_bounds_rat:
  assumes "0 < (n::int)"
  shows "2 powi (bitlen n - 1) \<le> (of_int n :: rat)" and "(of_int n :: rat) < 2 powi (bitlen n)"
proof -
  have b: "2 ^ nat (bitlen n - 1) \<le> n" "n < 2 ^ nat (bitlen n)"
    using bitlen_bounds[OF assms] by auto
  have p: "0 \<le> bitlen n - 1"
    using assms bitlen_eq_zero_iff[of n] bitlen_nonneg[of n] by linarith
  have "(of_int (2 ^ nat (bitlen n - 1)) :: rat) \<le> of_int n" using b(1) of_int_le_iff by blast
  then show "2 powi (bitlen n - 1) \<le> (of_int n :: rat)" using p by (simp add: power_int_def)
  have "(of_int n :: rat) < of_int (2 ^ nat (bitlen n))" using b(2) of_int_less_iff by blast
  then show "(of_int n :: rat) < 2 powi (bitlen n)" using p by (simp add: power_int_def)
qed

lemma flog2_bounds:
  assumes "0 < x"
  shows "2 powi flog2 x \<le> x" and "x < 2 powi (flog2 x + 1)"
proof -
  obtain n d where q: "quotient_of x = (n, d)" by fastforce
  have d: "0 < d" using quotient_of_denom_pos[OF q] .
  have x: "x = of_int n / of_int d" using quotient_of_div[OF q] .
  have n: "0 < n" using assms d x by (simp add: zero_less_divide_iff)
  let ?e = "bitlen n - bitlen d"
  have dpos: "0 < (of_int d :: rat)" using d by simp
  have "x < 2 powi bitlen n / of_int d"
    using bitlen_bounds_rat(2)[OF n] dpos by (simp add: x divide_strict_right_mono)
  also have "\<dots> \<le> 2 powi bitlen n / 2 powi (bitlen d - 1)"
    using bitlen_bounds_rat(1)[OF d] dpos by (intro divide_left_mono) auto
  also have "\<dots> = 2 powi (?e + 1)"
    by (simp add: power_int_diff[symmetric] algebra_simps)
  finally have up: "x < 2 powi (?e + 1)" .
  have "2 powi (?e - 1) = 2 powi (bitlen n - 1) / (2 powi (bitlen d) :: rat)"
    by (simp add: power_int_diff[symmetric] algebra_simps)
  also have "\<dots> \<le> of_int n / 2 powi bitlen d"
    using bitlen_bounds_rat(1)[OF n] by (intro divide_right_mono) auto
  also have "\<dots> \<le> x"
    unfolding x using bitlen_bounds_rat(2)[OF d] dpos n by (intro divide_left_mono) auto
  finally have lo: "2 powi (?e - 1) \<le> x" .
  show "2 powi flog2 x \<le> x" "x < 2 powi (flog2 x + 1)"
    using lo up by (auto simp: flog2_def q Let_def not_le)
qed

lemma flog2_mono: "0 < x \<Longrightarrow> x \<le> y \<Longrightarrow> flog2 x \<le> flog2 y"
proof (rule ccontr)
  assume h: "0 < x" "x \<le> y" "\<not> flog2 x \<le> flog2 y"
  then have "y < 2 powi (flog2 y + 1)" "2 powi flog2 x \<le> x"
    using flog2_bounds[of x] flog2_bounds[of y] by auto
  moreover have "(2::rat) powi (flog2 y + 1) \<le> 2 powi flog2 x"
    using h(3) by (intro power_int_increasing) auto
  ultimately show False using h(2) by linarith
qed

lemma rhe_mono: "x \<le> y \<Longrightarrow> rhe x \<le> rhe y"
proof -
  assume le: "x \<le> y"
  then have fl: "\<lfloor>x\<rfloor> \<le> \<lfloor>y\<rfloor>" by (rule floor_mono)
  show ?thesis
  proof (cases "\<lfloor>x\<rfloor> = \<lfloor>y\<rfloor>")
    case True
    with le show ?thesis by (auto simp: rhe_def Let_def)
  next
    case False
    have "rhe x \<le> \<lfloor>x\<rfloor> + 1" "\<lfloor>y\<rfloor> \<le> rhe y" by (auto simp: rhe_def Let_def)
    with False fl show ?thesis by linarith
  qed
qed

lemma rhe_of_int [simp]: "rhe (of_int i) = i"
  by (simp add: rhe_def)

lemma rhe_uminus: "rhe (- x) = - rhe x"
proof (cases "x \<in> \<int>")
  case True
  then obtain i where "x = of_int i" by (auto elim: Ints_cases)
  then show ?thesis by (metis of_int_minus rhe_of_int)
next
  case False
  then have f: "\<lfloor>- x\<rfloor> = - \<lfloor>x\<rfloor> - 1"
    by (metis ceiling_altdef ceiling_def floor_of_int Ints_of_int add.inverse_inverse minus_diff_eq
        diff_minus_eq_add uminus_add_conv_diff add.commute)
  show ?thesis by (auto simp: rhe_def Let_def f)
qed

lemma rnd_0 [simp]: "rnd p 0 = 0"
  by (simp add: rnd_def)

lemma rnd_uminus: "rnd p (- x) = - rnd p x"
  by (simp add: rnd_def Let_def rhe_uminus)


text \<open>A value is representable with \<open>p\<close> bits when it is a \<open>p\<close>-bit integer scaled by a power of
  two; rounding yields such values and keeps them.\<close>

definition repr :: "nat \<Rightarrow> rat \<Rightarrow> bool" where
  "repr p x \<longleftrightarrow> (\<exists>m k. x = of_int m * 2 powi k \<and> \<bar>m\<bar> \<le> 2 ^ p)"

lemma ulp_scale: "(2::rat) powi e = of_int (2 ^ k) * 2 powi (e - int k)"
proof -
  have "(2::rat) powi (int k + (e - int k)) = 2 powi int k * 2 powi (e - int k)"
    by (rule power_int_add) simp
  then show ?thesis by simp
qed

lemma rnd_pos_bounds:
  assumes "0 < x" and "0 < p"
  shows "2 powi flog2 x \<le> rnd p x" and "rnd p x \<le> 2 powi (flog2 x + 1)"
proof -
  define u :: rat where "u = 2 powi (flog2 x - int p + 1)"
  have u: "0 < u" by (simp add: u_def)
  have lo: "2 powi flog2 x = of_int (2 ^ (p - 1)) * u" and hi: "2 powi (flog2 x + 1) = of_int (2 ^ p) * u"
    using assms(2) ulp_scale[of "flog2 x" "p - 1"] ulp_scale[of "flog2 x + 1" p]
    by (simp_all add: u_def of_nat_diff algebra_simps)
  have "of_int (2 ^ (p - 1)) \<le> x / u" "x / u \<le> of_int (2 ^ p)"
    using flog2_bounds[OF assms(1)] u unfolding lo hi by (auto simp: field_simps)
  then have "2 ^ (p - 1) \<le> rhe (x / u)" "rhe (x / u) \<le> 2 ^ p"
    by (metis rhe_mono rhe_of_int)+
  moreover have "rnd p x = of_int (rhe (x / u)) * u" using assms(1) by (simp add: rnd_def u_def Let_def)
  ultimately show "2 powi flog2 x \<le> rnd p x" "rnd p x \<le> 2 powi (flog2 x + 1)"
    unfolding lo hi using u by (metis mult_le_cancel_right_pos of_int_le_iff)+
qed

lemma rnd_mono_pos:
  assumes "0 < x" and "x \<le> y" and "0 < p"
  shows "rnd p x \<le> rnd p y"
proof (cases "flog2 x = flog2 y")
  case True
  have u: "0 < (2::rat) powi (flog2 y - int p + 1)" by simp
  then have "rhe (x / 2 powi (flog2 y - int p + 1)) \<le> rhe (y / 2 powi (flog2 y - int p + 1))"
    using assms(2) by (intro rhe_mono divide_right_mono) auto
  then show ?thesis using assms True u by (auto simp: rnd_def Let_def intro: mult_right_mono)
next
  case False
  then have "flog2 x + 1 \<le> flog2 y" using flog2_mono[OF assms(1,2)] by linarith
  then have "(2::rat) powi (flog2 x + 1) \<le> 2 powi flog2 y" by (intro power_int_increasing) auto
  then show ?thesis
    using rnd_pos_bounds(2)[of x p] rnd_pos_bounds(1)[of y p] assms by linarith
qed

lemma rnd_pos: "0 < x \<Longrightarrow> 0 < p \<Longrightarrow> 0 < rnd p x"
  using rnd_pos_bounds(1)[of x p] by (metis less_le_trans zero_less_numeral zero_less_power_int)

lemma rnd_mono:
  assumes "x \<le> y" and "0 < p"
  shows "rnd p x \<le> rnd p y"
proof -
  consider "0 < x" | "x \<le> 0" "0 \<le> y" | "y < 0" by linarith
  then show ?thesis
  proof cases
    case 1
    then show ?thesis using rnd_mono_pos assms by blast
  next
    case 2
    have "rnd p x \<le> 0" using rnd_pos[of "- x" p] 2 assms(2) by (cases "x = 0") (auto simp: rnd_uminus)
    moreover have "0 \<le> rnd p y" using rnd_pos[of y p] 2 assms(2) by (cases "y = 0") auto
    ultimately show ?thesis by linarith
  next
    case 3
    then show ?thesis using rnd_mono_pos[of "- y" "- x" p] assms by (simp add: rnd_uminus)
  qed
qed

lemma rnd_nonneg: "0 \<le> x \<Longrightarrow> 0 < p \<Longrightarrow> 0 \<le> rnd p x"
  using rnd_mono[of 0 x p] by simp

lemma rnd_exact_scaled:
  assumes "x = of_int m * 2 powi k" and "\<bar>m\<bar> < 2 ^ p" and "0 < p"
  shows "rnd p x = x"
proof (cases "x = 0")
  case False
  define e where "e = flog2 \<bar>x\<bar> - int p + 1"
  have a: "0 < \<bar>x\<bar>" using False by simp
  have "\<bar>x\<bar> = of_int \<bar>m\<bar> * 2 powi k" using assms(1) by (simp add: abs_mult power_int_abs)
  also have "\<dots> < of_int (2 ^ p) * 2 powi k"
    using assms(2) by (intro mult_strict_right_mono) (simp_all only: of_int_less_iff, simp)
  also have "\<dots> = 2 powi (int p + k)" by (simp add: power_int_add)
  finally have "2 powi flog2 \<bar>x\<bar> < (2::rat) powi (int p + k)" using flog2_bounds(1)[OF a] by linarith
  then have "flog2 \<bar>x\<bar> < int p + k"
    by (metis not_le order_less_irrefl order_less_le_trans power_int_increasing one_le_numeral)
  then have "e \<le> k" by (simp add: e_def)
  then have "x / 2 powi e = of_int (m * 2 ^ nat (k - e))"
    using ulp_scale[of k "nat (k - e)"] by (simp add: assms(1))
  then have "rhe (x / 2 powi e) = m * 2 ^ nat (k - e)" by (metis rhe_of_int)
  then show ?thesis
    using False \<open>e \<le> k\<close> ulp_scale[of k "nat (k - e)"]
    by (simp add: rnd_def Let_def e_def[symmetric]) (simp add: assms(1))
qed simp

lemma rnd_exact:
  assumes "repr p x" and "0 < p"
  shows "rnd p x = x"
proof -
  obtain m k where m: "x = of_int m * 2 powi k" "\<bar>m\<bar> \<le> 2 ^ p" using assms(1) by (auto simp: repr_def)
  show ?thesis
  proof (cases "\<bar>m\<bar> = 2 ^ p")
    case False
    then have "\<bar>m\<bar> < 2 ^ p" using m(2) by linarith
    then show ?thesis using rnd_exact_scaled[OF m(1)] assms(2) by blast
  next
    case True
    have two: "(2::int) ^ p = 2 ^ (p - 1) * 2" using assms(2) by (simp add: power_eq_if)
    then have "m = sgn m * 2 ^ (p - 1) * 2" using True by (auto simp: sgn_if abs_if split: if_splits)
    then have "(of_int m :: rat) = of_int (sgn m * 2 ^ (p - 1)) * 2"
      by (metis of_int_mult of_int_numeral)
    then have "x = of_int (sgn m * 2 ^ (p - 1)) * 2 powi (k + 1)"
      using m(1) by (simp add: power_int_add_1)
    moreover have "\<bar>sgn m * 2 ^ (p - 1)\<bar> < 2 ^ p"
      unfolding two by (simp add: abs_mult abs_sgn_eq)
    ultimately show ?thesis using rnd_exact_scaled assms(2) by blast
  qed
qed

lemma repr_of_int: "\<bar>i\<bar> \<le> 2 ^ p \<Longrightarrow> repr p (of_int i)"
  unfolding repr_def by (rule exI[of _ i], rule exI[of _ 0]) simp

lemma repr_rnd: "0 < p \<Longrightarrow> repr p (rnd p x)"
proof -
  assume p: "0 < p"
  have pos: "repr p (rnd p y)" if "0 < y" for y
  proof -
    define u :: rat where "u = 2 powi (flog2 y - int p + 1)"
    have u: "0 < u" by (simp add: u_def)
    have r: "rnd p y = of_int (rhe (y / u)) * u" using that by (simp add: rnd_def u_def Let_def)
    have "2 powi (flog2 y + 1) = of_int (2 ^ p) * u"
      using ulp_scale[of "flog2 y + 1" p] by (simp add: u_def algebra_simps)
    then have "rhe (y / u) \<le> 2 ^ p"
      using rnd_pos_bounds(2)[OF that p] u by (metis mult_le_cancel_right_pos of_int_le_iff r)
    moreover have "0 \<le> rhe (y / u)"
      using rnd_pos[OF that p] u r by (metis less_eq_rat_def linorder_not_less mult_nonneg_nonpos2 of_int_0_le_iff nle_le mult.commute)
    ultimately show ?thesis unfolding repr_def r u_def by force
  qed
  have neg: "repr p (- z)" if "repr p z" for z
    using that unfolding repr_def by (metis abs_minus_cancel mult_minus_left of_int_minus)
  consider "x = 0" | "0 < x" | "0 < - x" by linarith
  then show ?thesis
  proof cases
    case 1
    then show ?thesis using repr_of_int[of 0 p] by simp
  next
    case 2
    then show ?thesis by (rule pos)
  next
    case 3
    then show ?thesis using neg[OF pos[OF 3]] by (simp add: rnd_uminus)
  qed
qed


text \<open>The relative error of a rounding is at most half a unit in the last place; scaling by two is exact.\<close>

lemma rhe_err: "\<bar>of_int (rhe x) - x\<bar> \<le> 1 / 2"
proof -
  have "of_int \<lfloor>x\<rfloor> \<le> x" "x < of_int \<lfloor>x\<rfloor> + 1" by linarith+
  then show ?thesis by (auto simp: rhe_def Let_def)
qed

lemma rnd_err:
  assumes "0 < p"
  shows "\<bar>rnd p x - x\<bar> \<le> \<bar>x\<bar> * 2 powi (- int p)"
proof (cases "x = 0")
  case False
  define u :: rat where "u = 2 powi (flog2 \<bar>x\<bar> - int p + 1)"
  have u: "0 < u" by (simp add: u_def)
  have r: "rnd p x = of_int (rhe (x / u)) * u" using False by (simp only: rnd_def Let_def u_def if_False)
  have e: "rnd p x - x = (of_int (rhe (x / u)) - x / u) * u" using u unfolding r
    by (simp add: left_diff_distrib)
  have "\<bar>rnd p x - x\<bar> \<le> 1 / 2 * u"
    unfolding e abs_mult using rhe_err[of "x / u"] u by (intro mult_mono) auto
  also have "1 / 2 * u = 2 powi flog2 \<bar>x\<bar> * 2 powi (- int p)"
    unfolding u_def by (simp add: power_int_add power_int_diff power_int_minus divide_simps)
  also have "\<dots> \<le> \<bar>x\<bar> * 2 powi (- int p)"
    using flog2_bounds(1)[of "\<bar>x\<bar>"] False by (intro mult_right_mono) auto
  finally show ?thesis .
qed simp

lemma flog2_double: "0 < x \<Longrightarrow> flog2 (2 * x) = flog2 x + 1"
proof -
  assume x: "0 < x"
  have a: "2 powi flog2 x \<le> x" "x < 2 powi (flog2 x + 1)" using flog2_bounds[OF x] by auto
  have b: "2 powi flog2 (2 * x) \<le> 2 * x" "2 * x < 2 powi (flog2 (2 * x) + 1)" using flog2_bounds[of "2 * x"] x by auto
  have up: "(2::rat) powi (k + 1) = 2 * 2 powi k" for k by (simp add: power_int_add)
  have lt: "(2::rat) powi i < 2 powi j \<Longrightarrow> i < j" for i j
    by (metis not_le order_less_irrefl order_less_le_trans power_int_increasing one_le_numeral)
  have "(2::rat) powi flog2 (2 * x) < 2 powi (flog2 x + 1 + 1)" using a(2) b(1) up[of "flog2 x + 1"] by linarith
  moreover have "(2::rat) powi (flog2 x + 1) < 2 powi (flog2 (2 * x) + 1)" using a(1) b(2) up[of "flog2 x"] by linarith
  ultimately show ?thesis using lt[of "flog2 (2 * x)"] lt[of "flog2 x + 1"] by fastforce
qed

lemma rnd_double: "rnd p (2 * x) = 2 * rnd p x"
proof (cases "x = 0")
  case False
  have f: "flog2 \<bar>2 * x\<bar> = flog2 \<bar>x\<bar> + 1" using flog2_double[of "\<bar>x\<bar>"] False by (simp add: abs_mult)
  define u :: rat where "u = 2 powi (flog2 \<bar>x\<bar> - int p + 1)"
  have "(2::rat) powi (flog2 \<bar>2 * x\<bar> - int p + 1) = 2 * u" unfolding f u_def
    using power_int_add[of "2::rat" 1 "flog2 \<bar>x\<bar> - int p + 1"] by (simp add: algebra_simps)
  then show ?thesis using False by (simp add: rnd_def Let_def u_def[symmetric])
qed simp

section \<open>The two formats\<close>

text \<open>What the component proofs use: both roundings are monotone, keep the sign, are odd, and are
  the identity on representable values, in particular on integers up to \<open>2 ^ 53\<close>.\<close>

lemma f64_mono: "x \<le> y \<Longrightarrow> f64 x \<le> f64 y"
  by (simp add: f64_def rnd_mono)

lemma f64_0 [simp]: "f64 0 = 0"
  by (simp add: f64_def)

lemma f64_uminus: "f64 (- x) = - f64 x"
  by (simp add: f64_def rnd_uminus)

lemma f64_nonneg: "0 \<le> x \<Longrightarrow> 0 \<le> f64 x"
  by (simp add: f64_def rnd_nonneg)

lemma f64_nonpos: "x \<le> 0 \<Longrightarrow> f64 x \<le> 0"
  using f64_mono[of x 0] by simp

lemma f64_idem [simp]: "f64 (f64 x) = f64 x"
  by (simp add: f64_def rnd_exact repr_rnd)

lemma f64_of_int: "\<bar>i\<bar> \<le> 2 ^ 53 \<Longrightarrow> f64 (of_int i) = of_int i"
  by (simp add: f64_def rnd_exact repr_of_int)

lemma f64_numeral: "numeral n \<le> (2::int) ^ 53 \<Longrightarrow> f64 (numeral n) = numeral n"
  using f64_of_int[of "numeral n"] by simp

lemma f64_le_of_int: "x \<le> of_int i \<Longrightarrow> \<bar>i\<bar> \<le> 2 ^ 53 \<Longrightarrow> f64 x \<le> of_int i"
  using f64_mono[of x "of_int i"] f64_of_int[of i] by simp

lemma f64_ge_of_int: "of_int i \<le> x \<Longrightarrow> \<bar>i\<bar> \<le> 2 ^ 53 \<Longrightarrow> of_int i \<le> f64 x"
  using f64_mono[of "of_int i" x] f64_of_int[of i] by simp

lemma f32_mono: "x \<le> y \<Longrightarrow> f32 x \<le> f32 y"
  by (simp add: f32_def rnd_mono)

lemma f32_0 [simp]: "f32 0 = 0"
  by (simp add: f32_def)

lemma f32_nonneg: "0 \<le> x \<Longrightarrow> 0 \<le> f32 x"
  by (simp add: f32_def rnd_nonneg)

lemma f32_idem [simp]: "f32 (f32 x) = f32 x"
  by (simp add: f32_def rnd_exact repr_rnd)

lemma f32_of_int: "\<bar>i\<bar> \<le> 2 ^ 24 \<Longrightarrow> f32 (of_int i) = of_int i"
  by (simp add: f32_def rnd_exact repr_of_int)

lemma trunc_of_int [simp]: "trunc (of_int i) = i"
  by (simp add: trunc_def)

lemma trunc_mono: "x \<le> y \<Longrightarrow> trunc x \<le> trunc y"
proof -
  assume le: "x \<le> y"
  show ?thesis
  proof (cases "x < 0 \<and> 0 \<le> y")
    case True
    then have "\<lceil>x\<rceil> \<le> 0" "0 \<le> \<lfloor>y\<rfloor>" by (simp_all add: ceiling_le_iff)
    then have "\<lceil>x\<rceil> \<le> \<lfloor>y\<rfloor>" by (rule order_trans)
    with True show ?thesis by (auto simp: trunc_def)
  next
    case False
    with le show ?thesis by (auto simp: trunc_def floor_mono ceiling_mono)
  qed
qed

lemma trunc_nonneg: "0 \<le> x \<Longrightarrow> 0 \<le> trunc x"
  by (simp add: trunc_def)

lemma trunc_le: "0 \<le> x \<Longrightarrow> of_int (trunc x) \<le> x"
  by (simp add: trunc_def)

section \<open>Errors and signs\<close>

lemma pow24: "(2::rat) powi (- int 24) = 1 / 16777216" by (simp add: power_int_def power_divide)
lemma pow53: "(2::rat) powi (- int 53) = 1 / 9007199254740992" by (simp add: power_int_def power_divide)

lemma f32_err: "\<bar>f32 x - x\<bar> \<le> \<bar>x\<bar> / 16777216"
  using rnd_err[of 24 x] unfolding f32_def pow24 by simp

lemma f64_err: "\<bar>f64 x - x\<bar> \<le> \<bar>x\<bar> / 9007199254740992"
  using rnd_err[of 53 x] unfolding f64_def pow53 by simp

lemma f32_uminus: "f32 (- x) = - f32 x"
  by (simp add: f32_def rnd_uminus)

lemma f32_nonpos: "x \<le> 0 \<Longrightarrow> f32 x \<le> 0"
  using f32_mono[of x 0] by simp

lemma f32_abs: "f32 \<bar>x\<bar> = \<bar>f32 x\<bar>"
  by (cases "0 \<le> x") (simp_all add: f32_uminus f32_nonneg f32_nonpos)

lemma f32_le_of_int: "x \<le> of_int i \<Longrightarrow> \<bar>i\<bar> \<le> 2 ^ 24 \<Longrightarrow> f32 x \<le> of_int i"
  using f32_mono[of x "of_int i"] f32_of_int[of i] by simp

lemma f32_ge_of_int: "of_int i \<le> x \<Longrightarrow> \<bar>i\<bar> \<le> 2 ^ 24 \<Longrightarrow> of_int i \<le> f32 x"
  using f32_mono[of "of_int i" x] f32_of_int[of i] by simp

end
