(* ===== verification/Lasa_Prelude.thy ===== *)
theory Lasa_Prelude
  imports Go_Float "HOL-Library.Signed_Division"
begin

text \<open>
  Shared vocabulary of the development: Go's integer division, Go's slices and \<^verbatim>\<open>copy\<close> as
  functions on lists, the frame view of an interleaved sample buffer, and the collections of
  rewrite rules the component proofs use.
\<close>

section \<open>Collections\<close>

named_theorems go_defs "definitions of the Go primitives"
named_theorems frame_simps "rewriting of frames through slice operations"

section \<open>Integer division as Go has it\<close>

text \<open>\<^verbatim>\<open>a / b\<close> and \<^verbatim>\<open>a % b\<close> truncate towards zero: \<open>sdiv\<close> and \<open>smod\<close> of the library. On the
  non-negative values the modelled code divides they agree with \<open>div\<close> and \<open>mod\<close>.\<close>

lemma sdiv_nonneg: "0 \<le> a \<Longrightarrow> 0 < b \<Longrightarrow> a sdiv b = a div (b::int)"
  by (cases "a = 0") (simp_all add: signed_divide_int_def)

lemma smod_nonneg: "0 \<le> a \<Longrightarrow> 0 < b \<Longrightarrow> a smod b = a mod (b::int)"
  by (cases "a = 0") (simp_all add: signed_modulo_int_def)

section \<open>Slices\<close>

text \<open>\<^verbatim>\<open>xs[i:j]\<close>, \<^verbatim>\<open>copy(dst[off:], src)\<close> (which moves as many elements as both sides have) and
  \<^verbatim>\<open>clear(xs)\<close>.\<close>

definition slice :: "'a list \<Rightarrow> nat \<Rightarrow> nat \<Rightarrow> 'a list" where
  "slice xs i j = take (j - i) (drop i xs)"

definition copy_at :: "'a list \<Rightarrow> nat \<Rightarrow> 'a list \<Rightarrow> 'a list" where
  "copy_at dst off src =
     (let m = min (length src) (length dst - off) in take off dst @ take m src @ drop (off + m) dst)"

definition clear_slice :: "rat list \<Rightarrow> rat list" where
  "clear_slice xs = replicate (length xs) 0"

lemma length_slice [simp]: "length (slice xs i j) = min (j - i) (length xs - i)"
  by (simp add: slice_def)

lemma slice_full [simp]: "slice xs 0 (length xs) = xs"
  by (simp add: slice_def)

lemma length_copy_at [simp]: "off \<le> length dst \<Longrightarrow> length (copy_at dst off src) = length dst"
  by (simp add: copy_at_def Let_def)

lemma length_clear_slice [simp]: "length (clear_slice xs) = length xs"
  by (simp add: clear_slice_def)

lemma copy_at_fits:
  "off + length src \<le> length dst \<Longrightarrow> copy_at dst off src = take off dst @ src @ drop (off + length src) dst"
proof -
  assume "off + length src \<le> length dst"
  then have "min (length src) (length dst - off) = length src" by arith
  then show ?thesis by (simp add: copy_at_def)
qed

section \<open>Frames of an interleaved buffer\<close>

text \<open>Audio buffers are interleaved: frame \<open>i\<close> of an \<open>nc\<close>-channel buffer is the \<open>nc\<close> samples from
  index \<open>i * nc\<close>. \<open>frames\<close> is a whole buffer as the list of its complete frames.\<close>

definition frame :: "nat \<Rightarrow> 'a list \<Rightarrow> nat \<Rightarrow> 'a list" where
  "frame nc xs i = take nc (drop (i * nc) xs)"

definition frames :: "nat \<Rightarrow> 'a list \<Rightarrow> 'a list list" where
  "frames nc xs = map (frame nc xs) [0..<length xs div nc]"

lemma length_frames [simp]: "length (frames nc xs) = length xs div nc"
  by (simp add: frames_def)

lemma nth_frames [simp]: "i < length xs div nc \<Longrightarrow> frames nc xs ! i = frame nc xs i"
  by (simp add: frames_def)

lemma frame_bound: "i < length xs div nc \<Longrightarrow> i * nc + nc \<le> length xs"
proof -
  assume "i < length xs div nc"
  then have "(i + 1) * nc \<le> length xs div nc * nc" by (intro mult_right_mono) auto
  also have "\<dots> \<le> length xs" by simp
  finally show ?thesis by (simp add: algebra_simps)
qed

lemma length_frame: "i < length xs div nc \<Longrightarrow> length (frame nc xs i) = nc"
  using frame_bound[of i xs nc] by (simp add: frame_def)

lemma frame_take [frame_simps]: "i < m \<Longrightarrow> frame nc (take (m * nc) xs) i = frame nc xs i"
proof -
  assume "i < m"
  then have "(i + 1) * nc \<le> m * nc" by (intro mult_right_mono) auto
  then show ?thesis by (simp add: frame_def drop_take algebra_simps)
qed

lemma frame_drop [frame_simps]: "frame nc (drop (k * nc) xs) i = frame nc xs (k + i)"
  by (simp add: frame_def algebra_simps)

lemma frame_slice [frame_simps]: "i < m - k \<Longrightarrow> frame nc (slice xs (k * nc) (m * nc)) i = frame nc xs (k + i)"
  using frame_take[of i "m - k" nc "drop (k * nc) xs"]
  by (simp add: slice_def diff_mult_distrib[symmetric] frame_drop)

lemma frame_append_left: "i < m \<Longrightarrow> length xs = m * nc \<Longrightarrow> frame nc (xs @ ys) i = frame nc xs i"
  using frame_take[of i m nc "xs @ ys"] by simp

lemma frame_append_right: "m \<le> i \<Longrightarrow> length xs = m * nc \<Longrightarrow> frame nc (xs @ ys) i = frame nc ys (i - m)"
proof -
  assume a: "m \<le> i" "length xs = m * nc"
  then have "i * nc = m * nc + (i - m) * nc" by (simp add: distrib_right[symmetric])
  with a show ?thesis by (simp add: frame_def)
qed

text \<open>Copying whole frames to a frame boundary replaces exactly those frames.\<close>

lemma frame_copy_at:
  assumes "length src = m * nc" and "(k + m) * nc \<le> length dst"
  shows "frame nc (copy_at dst (k * nc) src) i =
    (if k \<le> i \<and> i < k + m then frame nc src (i - k) else frame nc dst i)"
proof -
  have fits: "k * nc + length src \<le> length dst" using assms by (simp add: algebra_simps)
  have c: "copy_at dst (k * nc) src = take (k * nc) dst @ src @ drop ((k + m) * nc) dst"
    using copy_at_fits[OF fits] assms(1) by (simp add: algebra_simps)
  have tk: "length (take (k * nc) dst) = k * nc" using fits by simp
  consider "i < k" | "k \<le> i" "i < k + m" | "k + m \<le> i" by linarith
  then show ?thesis
  proof cases
    case 1
    then show ?thesis unfolding c frame_append_left[OF 1 tk] by (simp add: frame_take)
  next
    case 2
    have "i - k < m" using 2 by simp
    from frame_append_left[OF this assms(1)] show ?thesis
      unfolding c frame_append_right[OF 2(1) tk] using 2 by simp
  next
    case 3
    then have "k \<le> i" "m \<le> i - k" by auto
    then show ?thesis
      unfolding c frame_append_right[OF \<open>k \<le> i\<close> tk] frame_append_right[OF \<open>m \<le> i - k\<close> assms(1)] frame_drop
      using 3 by simp
  qed
qed

lemma frames_eq_concat: "xs = concat fs \<Longrightarrow> (\<And>f. f \<in> set fs \<Longrightarrow> length f = nc) \<Longrightarrow> i < length fs \<Longrightarrow>
  frame nc xs i = fs ! i"
proof (induction fs arbitrary: xs i)
  case (Cons f fs)
  have l: "length f = 1 * nc" using Cons.prems by simp
  show ?case
  proof (cases i)
    case 0
    then show ?thesis using Cons.prems l by (simp add: frame_def)
  next
    case (Suc j)
    then have "frame nc (f @ concat fs) i = frame nc (concat fs) (i - 1)"
      by (intro frame_append_right[OF _ l]) simp
    then show ?thesis using Cons Suc by simp
  qed
qed simp

lemma concat_frames: "nc dvd length xs \<Longrightarrow> concat (frames nc xs) = xs"
proof -
  have "concat (map (frame nc xs) [0..<m]) = take (m * nc) xs" for m
    by (induction m) (simp_all add: frame_def take_add[symmetric] add.commute)
  then show "nc dvd length xs \<Longrightarrow> ?thesis" by (simp add: frames_def)
qed

end
