(* ===== verification/Jitter_Control.thy ===== *)
theory Jitter_Control
  imports Lasa_Prelude "HOL-Library.Multiset"
begin

text \<open>
  The per-window decision layer of the jitter buffer (\<^verbatim>\<open>src/engine/buffers/jitter_buffer.go\<close> up to
  \<^verbatim>\<open>FECFloor\<close>, its order-statistic helpers, and the alternative laws of
  \<^verbatim>\<open>src/engine/jitterlab/v4_variants.go\<close>): tuning constants, the window estimate and the geometry a
  controller decides against, the four controllers, and the statistics of a sensing window. The
  contract between the buffer and a controller is the locale \<open>servo\<close>; every law of the repository
  is an instance of it.
\<close>

section \<open>Tuning constants\<close>

definition v4WindowSec :: rat where "v4WindowSec = 2"
definition v4WidthHistory :: nat where "v4WidthHistory = 10"
definition v4WidthRank :: nat where "v4WidthRank = 3"
definition v4FreezeMs :: rat where "v4FreezeMs = 40"
definition v4NarrowStepMs :: rat where "v4NarrowStepMs = 1 / 2"
definition v4KLow :: rat where "v4KLow = f64 (6 / 5)"
definition v4KHigh :: rat where "v4KHigh = 3 / 2"
definition v4WidthLowMax :: rat where "v4WidthLowMax = 30"
definition v4WidthHighMax :: rat where "v4WidthHighMax = 60"
definition v4DeadbandMs :: rat where "v4DeadbandMs = 1 / 4"
definition v4GainPerSec :: rat where "v4GainPerSec = f64 (1 / 100)"
definition v4RateCapPerSec :: rat where "v4RateCapPerSec = 20"
definition v4FFClampPerSec :: rat where "v4FFClampPerSec = 22"
definition v4MaxDebt :: rat where "v4MaxDebt = 3 / 2"

lemmas v4_consts = v4WindowSec_def v4WidthHistory_def v4WidthRank_def v4FreezeMs_def
  v4NarrowStepMs_def v4KLow_def v4KHigh_def v4WidthLowMax_def v4WidthHighMax_def v4DeadbandMs_def
  v4GainPerSec_def v4RateCapPerSec_def v4FFClampPerSec_def v4MaxDebt_def

section \<open>What a controller sees and decides\<close>

record WindowEstimate =
  MedianRaw :: int
  MinRaw :: int
  MaxRaw :: int
  WidthLow :: int
  WidthHigh :: int
  SlopeFPS :: rat
  HorizonSec :: rat

record ServoGeometry =
  Setpoint :: int
  Deadband :: int
  Theta :: int
  GainPerSec :: rat
  RateCapPerSec :: rat
  FFClampPerSec :: rat

definition softClamp :: "rat \<Rightarrow> rat \<Rightarrow> rat" where
  "softClamp v c = (if v > c \<or> v < - c then div64 (mul64 c c) v else v)"

definition clampRate :: "rat \<Rightarrow> rat \<Rightarrow> rat" where
  "clampRate v rcap = (if v > rcap then rcap else if v < - rcap then - rcap else v)"

text \<open>The implementers of the Go interface \<^verbatim>\<open>Controller\<close>; a stateful one returns its new state.\<close>

datatype Controller =
    PServo
  | PAnchorOnly (Gain: rat)
  | PIServo (KP: rat) (KI: rat) (pi_i: rat)
  | RateOnly

text \<open>The macro-trim test all laws share: even the window minimum stayed displaced.\<close>

definition displaced :: "WindowEstimate \<Rightarrow> ServoGeometry \<Rightarrow> bool" where
  "displaced est geo \<longleftrightarrow> MinRaw est - Setpoint geo > Theta geo"

definition PServo_Decide :: "WindowEstimate \<Rightarrow> ServoGeometry \<Rightarrow> rat \<times> int" where
  "PServo_Decide est geo = (if displaced est geo then (0, MedianRaw est - Setpoint geo) else
     let ff = softClamp (SlopeFPS est) (FFClampPerSec geo);
         e = MedianRaw est - Setpoint geo;
         p = (if e > Deadband geo then mul64 (GainPerSec geo) (int64f (e - Deadband geo)) else 0)
     in (clampRate (add64 p ff) (RateCapPerSec geo), 0))"

definition PAnchorOnly_Decide :: "rat \<Rightarrow> WindowEstimate \<Rightarrow> ServoGeometry \<Rightarrow> rat \<times> int" where
  "PAnchorOnly_Decide gain est geo = (if displaced est geo then (0, MedianRaw est - Setpoint geo) else
     let g = (if gain = 0 then f64 (1 / 5) else gain);
         e = MedianRaw est - Setpoint geo
     in if e > Deadband geo
        then (clampRate (mul64 g (int64f (e - Deadband geo))) (RateCapPerSec geo), 0)
        else if e < - Deadband geo
        then (clampRate (mul64 (- g) (int64f (- e - Deadband geo))) (RateCapPerSec geo), 0)
        else (0, 0))"

definition PIServo_Decide ::
  "rat \<Rightarrow> rat \<Rightarrow> rat \<Rightarrow> WindowEstimate \<Rightarrow> ServoGeometry \<Rightarrow> (rat \<times> int) \<times> rat" where
  "PIServo_Decide kp0 ki0 i est geo =
    (if displaced est geo then ((0, MedianRaw est - Setpoint geo), i) else
     let kp = (if kp0 = 0 then f64 (1 / 100) else kp0);
         ki = (if ki0 = 0 then f64 (1 / 200) else ki0);
         e = int64f (MedianRaw est - Setpoint geo);
         i1 = add64 i (mul64 ki e);
         i2 = (if i1 > FFClampPerSec geo then FFClampPerSec geo
               else if i1 < - FFClampPerSec geo then - FFClampPerSec geo else i1);
         p = (if e > int64f (Deadband geo) then mul64 kp (sub64 e (int64f (Deadband geo)))
              else if e < - int64f (Deadband geo) then mul64 kp (add64 e (int64f (Deadband geo)))
              else 0)
     in ((clampRate (add64 p i2) (RateCapPerSec geo), 0), i2))"

definition RateOnly_Decide :: "WindowEstimate \<Rightarrow> ServoGeometry \<Rightarrow> rat \<times> int" where
  "RateOnly_Decide est geo = (if displaced est geo then (0, MedianRaw est - Setpoint geo) else
     (clampRate (softClamp (SlopeFPS est) (FFClampPerSec geo)) (RateCapPerSec geo), 0))"

fun Decide :: "Controller \<Rightarrow> WindowEstimate \<Rightarrow> ServoGeometry \<Rightarrow> (rat \<times> int) \<times> Controller" where
  "Decide PServo est geo = (PServo_Decide est geo, PServo)"
| "Decide (PAnchorOnly gain) est geo = (PAnchorOnly_Decide gain est geo, PAnchorOnly gain)"
| "Decide (PIServo kp ki i) est geo =
    (case PIServo_Decide kp ki i est geo of (out, i') \<Rightarrow> (out, PIServo kp ki i'))"
| "Decide RateOnly est geo = (RateOnly_Decide est geo, RateOnly)"

section \<open>Quality levels and the redundancy floor\<close>

text \<open>Durations are nanosecond counts, as \<^verbatim>\<open>time.Duration\<close> has them.\<close>

definition millisecond :: int where "millisecond = 1000000"
definition second_ns :: int where "second_ns = 1000000000"

definition QualityLevel :: "int \<Rightarrow> int \<times> rat \<times> int" where
  "QualityLevel level =
    (if level \<le> 0 then (0, 1, 0)
     else if level = 1 then (50 * millisecond, 4, 500 * millisecond)
     else (150 * millisecond, 8, 400 * millisecond))"

definition FECFloor :: "int \<Rightarrow> int \<Rightarrow> int" where
  "FECFloor maxOffset writerFrame =
    (if maxOffset \<le> 0 then 0 else 2 * (maxOffset + 2) * writerFrame)"

section \<open>Statistics of a window\<close>

text \<open>\<^verbatim>\<open>slices.Sort\<close> is the library's \<open>sort\<close>. The three functions index a sorted or ranked buffer that
  the callers keep non-empty, by the invariant of the theory of the buffer.\<close>

definition winStats :: "int list \<Rightarrow> int \<times> int \<times> int" where
  "winStats buf = (let s = sort buf; n = length s in (s ! (n div 2), s ! 0, s ! (n - 1)))"

definition median3 :: "int \<Rightarrow> int \<Rightarrow> int \<Rightarrow> int" where
  "median3 a b c = (let (a, b) = (if a > b then (b, a) else (a, b));
      b = (if b > c then c else b) in max a b)"

function gcd_loop :: "int \<Rightarrow> int \<Rightarrow> int" where
  "gcd_loop a b = (if b \<noteq> 0 then gcd_loop b (a smod b) else a)"
  by auto

termination
proof (relation "measure (\<lambda>(a, b). nat \<bar>b\<bar>)", simp)
  fix a b :: int
  assume b: "b \<noteq> 0"
  have "\<bar>a smod b\<bar> < \<bar>b\<bar>"
    using b by (simp add: signed_modulo_int_def abs_mult sgn_if)
  then show "((b, a smod b), (a, b)) \<in> measure (\<lambda>(a, b). nat \<bar>b\<bar>)" using b by simp
qed

declare gcd_loop.simps [simp del]

text \<open>\<^verbatim>\<open>rankNth\<close> keeps the \<open>n\<close> largest values seen in a descending array, by insertion; \<open>top_insert\<close>
  is its inner loop (\<^verbatim>\<open>copy(top[i+1:n], top[i:n-1])\<close> drops the last element). The array has eight cells: \<open>None\<close> is
  the panic of an index outside it, for a rank above eight or an empty history.\<close>

fun top_insert :: "int \<Rightarrow> int list \<Rightarrow> int list" where
  "top_insert v [] = []"
| "top_insert v (t # ts) = (if v > t then v # butlast (t # ts) else t # top_insert v ts)"

definition rankNth :: "int list \<Rightarrow> nat \<Rightarrow> int option" where
  "rankNth h n = (let n = (if length h < n then length h else n) in
     if n = 0 \<or> n > 8 then None
     else let top = foldl (\<lambda>top v. top_insert v top) (replicate n (- (2 ^ 62))) h in Some (top ! (n - 1)))"

section \<open>The controller contract\<close>

locale servo =
  fixes decide :: "'c \<Rightarrow> WindowEstimate \<Rightarrow> ServoGeometry \<Rightarrow> (rat \<times> int) \<times> 'c"
  assumes trim_evidence: "fst (decide c est geo) = (rate, trim) \<Longrightarrow> trim \<noteq> 0 \<Longrightarrow>
      displaced est geo \<and> trim = MedianRaw est - Setpoint geo \<and> rate = 0"
    and rate_capped: "fst (decide c est geo) = (rate, trim) \<Longrightarrow> 0 \<le> RateCapPerSec geo \<Longrightarrow>
      \<bar>rate\<bar> \<le> RateCapPerSec geo"
    and displaced_trims: "displaced est geo \<Longrightarrow> fst (decide c est geo) = (0, MedianRaw est - Setpoint geo)"
begin

text \<open>A trim is taken exactly when the whole window sits above the threshold, is then positive, and
  puts the window's median at the setpoint.\<close>

lemma trim_positive:
  assumes "fst (decide c est geo) = (rate, trim)" "0 \<le> Theta geo" "MinRaw est \<le> MedianRaw est"
  shows "(0 < trim) = displaced est geo"
    and "0 < trim \<Longrightarrow> MedianRaw est - trim = Setpoint geo"
proof -
  show "(0 < trim) = displaced est geo"
  proof
    show "0 < trim \<Longrightarrow> displaced est geo" using trim_evidence[OF assms(1)] by simp
    assume d: "displaced est geo"
    then have "trim = MedianRaw est - Setpoint geo" using displaced_trims assms(1) by simp
    then show "0 < trim" using d assms(2,3) by (simp add: displaced_def)
  qed
  show "0 < trim \<Longrightarrow> MedianRaw est - trim = Setpoint geo" using trim_evidence[OF assms(1)] by simp
qed

lemma trim_not_negative:
  assumes "fst (decide c est geo) = (rate, trim)" "0 \<le> Theta geo" "MinRaw est \<le> MedianRaw est"
  shows "0 \<le> trim"
  using trim_evidence[OF assms(1)] assms(2,3) by (cases "trim = 0") (auto simp: displaced_def)

text \<open>The clamp the buffer applies to the returned rate changes nothing.\<close>

lemma reclamp:
  assumes "fst (decide c est geo) = (rate, trim)" "0 \<le> RateCapPerSec geo"
  shows "clampRate rate (RateCapPerSec geo) = rate"
  using rate_capped[OF assms] by (auto simp: clampRate_def)

end

lemma clampRate_bound: "0 \<le> c \<Longrightarrow> \<bar>clampRate v c\<bar> \<le> c"
  by (auto simp: clampRate_def)

lemmas decide_defs = PServo_Decide_def PAnchorOnly_Decide_def PIServo_Decide_def RateOnly_Decide_def

interpretation pservo: servo "\<lambda>(c::unit) est geo. (PServo_Decide est geo, c)"
  by unfold_locales (auto simp: decide_defs Let_def clampRate_bound split: if_splits)

interpretation panchor: servo "\<lambda>(c::rat) est geo. (PAnchorOnly_Decide c est geo, c)"
  by unfold_locales (auto simp: decide_defs Let_def clampRate_bound split: if_splits)

interpretation piservo: servo "\<lambda>(kp, ki, i) est geo.
    (case PIServo_Decide kp ki i est geo of (out, i') \<Rightarrow> (out, (kp, ki, i')))"
  by unfold_locales (auto simp: decide_defs Let_def clampRate_bound split: if_splits)

interpretation rateonly: servo "\<lambda>(c::unit) est geo. (RateOnly_Decide est geo, c)"
  by unfold_locales (auto simp: decide_defs Let_def clampRate_bound split: if_splits)

lemma fst_Decide_PI [simp]:
  "fst (Decide (PIServo kp ki i) est geo) = fst (PIServo_Decide kp ki i est geo)"
  by (simp split: prod.splits)

interpretation ctl: servo Decide
proof
  fix c est geo rate trim
  assume f: "fst (Decide c est geo) = (rate, trim)"
  show "trim \<noteq> 0 \<Longrightarrow> displaced est geo \<and> trim = MedianRaw est - Setpoint geo \<and> rate = 0"
    using f pservo.trim_evidence panchor.trim_evidence piservo.trim_evidence[of "(KP c, KI c, pi_i c)"]
      rateonly.trim_evidence
    by (cases c) (fastforce split: prod.splits)+
  show "0 \<le> RateCapPerSec geo \<Longrightarrow> \<bar>rate\<bar> \<le> RateCapPerSec geo"
    using f pservo.rate_capped panchor.rate_capped piservo.rate_capped[of "(KP c, KI c, pi_i c)"]
      rateonly.rate_capped
    by (cases c) (fastforce split: prod.splits)+
next
  fix c est geo
  assume "displaced est geo"
  then show "fst (Decide c est geo) = (0, MedianRaw est - Setpoint geo)"
    by (cases c) (simp_all add: decide_defs)
qed

section \<open>Bounds of the feed-forward clamp\<close>

lemma softClamp_bound:
  assumes "0 < c" "f64 c = c" "f64 (c * c) = c * c"
  shows "\<bar>softClamp v c\<bar> \<le> c"
proof -
  have m: "mul64 c c = c * c" using assms(3) by (simp add: mul64_def)
  have nc: "f64 (- c) = - c" using f64_uminus[of c] assms(2) by simp
  consider "v > c" | "v < - c" | "\<not> v > c" "\<not> v < - c" by blast
  then show ?thesis
  proof cases
    case 1
    have "c * c / v \<le> c" "0 \<le> c * c / v" using 1 assms(1) by (auto simp: divide_le_eq)
    then have "f64 (c * c / v) \<le> c" "0 \<le> f64 (c * c / v)"
      using f64_mono[of "c * c / v" c] f64_nonneg assms(2) by auto
    then show ?thesis using 1 by (simp add: softClamp_def div64_def m)
  next
    case 2
    have v: "v < 0" using 2 assms(1) by linarith
    have "c * c \<le> - v * c" using 2 assms(1) by (intro mult_right_mono) auto
    then have "- c \<le> c * c / v" using v by (simp add: neg_le_divide_eq mult.commute)
    moreover have "c * c / v \<le> 0" using v by (simp add: divide_le_0_iff)
    ultimately have "- c \<le> f64 (c * c / v)" "f64 (c * c / v) \<le> 0"
      using f64_mono[of "- c" "c * c / v"] f64_nonpos nc by auto
    then show ?thesis using 2 by (simp add: softClamp_def div64_def m)
  next
    case 3
    then show ?thesis by (simp add: softClamp_def abs_le_iff)
  qed
qed

section \<open>Correctness of the order statistics\<close>

lemma gcd_loop_correct: "0 \<le> a \<Longrightarrow> 0 \<le> b \<Longrightarrow> gcd_loop a b = gcd a b"
proof (induction a b rule: gcd_loop.induct)
  case (1 a b)
  show ?case
  proof (cases "b = 0")
    case True
    then show ?thesis using 1 by (simp add: gcd_loop.simps)
  next
    case False
    then have "a smod b = a mod b" using 1 by (intro smod_nonneg) auto
    then show ?thesis using 1 False
      by (subst gcd_loop.simps) (simp add: gcd_red_int[symmetric])
  qed
qed

lemma median3_sort: "median3 a b c = sort [a, b, c] ! 1"
  by (auto simp: median3_def)

lemma winStats_min_median_max:
  assumes "buf \<noteq> []" "winStats buf = (med, lo, hi)"
  shows "lo = Min (set buf)" "hi = Max (set buf)" "med \<in> set buf" "lo \<le> med" "med \<le> hi"
proof -
  let ?s = "sort buf"
  have n: "0 < length ?s" using assms(1) by simp
  have e: "med = ?s ! (length buf div 2)" "lo = ?s ! 0" "hi = ?s ! (length buf - 1)"
    using assms(2) by (auto simp: winStats_def Let_def)
  have mono: "i \<le> j \<Longrightarrow> j < length buf \<Longrightarrow> ?s ! i \<le> ?s ! j" for i j
    by (intro sorted_nth_mono) auto
  have mem: "?s ! i \<in> set buf" if "i < length buf" for i
    using nth_mem[of i ?s] that by simp
  have bnd: "?s ! 0 \<le> x \<and> x \<le> ?s ! (length buf - 1)" if x: "x \<in> set buf" for x
  proof -
    have "x \<in> set ?s" using x by simp
    then obtain i where "i < length ?s" "?s ! i = x" unfolding in_set_conv_nth by blast
    then show ?thesis using mono[of 0 i] mono[of i "length buf - 1"] by auto
  qed
  show "lo = Min (set buf)" unfolding e
    using bnd mem[of 0] assms(1) by (intro Min_eqI[symmetric]) auto
  show "hi = Max (set buf)" unfolding e
    using bnd mem[of "length buf - 1"] assms(1) by (intro Max_eqI[symmetric]) auto
  show m: "med \<in> set buf" unfolding e using assms(1) by (intro mem) (cases buf; auto)
  show "lo \<le> med" "med \<le> hi" using bnd[OF m] e by auto
qed

text \<open>The rank filter against a sorted reference: the array holds the \<open>n\<close> largest values seen.\<close>

abbreviation ins_desc :: "int \<Rightarrow> int list \<Rightarrow> int list" where "ins_desc \<equiv> insort_key uminus"

lemma desc_unique:
  assumes "sorted_wrt (\<ge>) xs" "sorted_wrt (\<ge>) ys" "mset xs = mset (ys :: int list)"
  shows "xs = ys"
proof -
  have "sorted (rev xs)" "sorted (rev ys)" "mset (rev xs) = mset (rev ys)"
    using assms by (auto simp: sorted_wrt_rev)
  then have "rev xs = rev ys" by (metis properties_for_sort)
  then show ?thesis by simp
qed

lemma sorted_ins_desc: "sorted_wrt (\<ge>) xs \<Longrightarrow> sorted_wrt (\<ge>) (ins_desc v xs)"
  by (induction xs) (auto simp: set_insort_key)

lemma top_insert_ins:
  "sorted_wrt (\<ge>) xs \<Longrightarrow> top_insert v xs = take (length xs) (ins_desc v xs)"
proof (induction xs)
  case (Cons t ts)
  have "v = t \<Longrightarrow> top_insert v ts = take (length ts) (v # ts)"
    using Cons by (cases ts) (auto simp: take_Cons')
  then show ?case using Cons by (auto simp: butlast_conv_take)
qed simp

lemma take_ins_take: "take n (ins_desc v (take n xs)) = take n (ins_desc v xs)"
  by (induction xs arbitrary: n) (auto simp: take_Cons')

lemma foldl_ins_desc:
  assumes "sorted_wrt (\<ge>) acc"
  shows "sorted_wrt (\<ge>) (foldl (\<lambda>t v. ins_desc v t) acc h)"
    and "mset (foldl (\<lambda>t v. ins_desc v t) acc h) = mset acc + mset h"
    and "n \<le> length acc \<Longrightarrow> foldl (\<lambda>t v. top_insert v t) (take n acc) h =
      take n (foldl (\<lambda>t v. ins_desc v t) acc h)"
  using assms
proof (induction h arbitrary: acc)
  case (Cons v h)
  { case 1 then show ?case using Cons by (simp add: sorted_ins_desc) }
  { case 2 then show ?case using Cons by (simp add: sorted_ins_desc) }
  { case 3
    have "sorted_wrt (\<ge>) (take n acc)" using 3(2) by (metis append_take_drop_id sorted_wrt_append)
    then have "top_insert v (take n acc) = take n (ins_desc v acc)"
      using top_insert_ins[of "take n acc" v] 3 by (simp add: take_ins_take min_absorb2)
    then show ?case using Cons 3 by (simp add: sorted_ins_desc) }
qed simp_all

lemma rankNth_rev_sort:
  assumes n: "1 \<le> n" "min n (length h) \<le> 8" and h: "h \<noteq> []" and big: "\<And>v. v \<in> set h \<Longrightarrow> - (2 ^ 62) < v"
  shows "rankNth h n = Some (rev (sort h) ! (min n (length h) - 1))"
proof -
  define k where "k = min n (length h)"
  let ?m = "- (2 ^ 62) :: int"
  have k: "1 \<le> k" "k \<le> length h" "k \<le> 8" using n h by (auto simp: k_def Suc_le_eq)
  have acc: "sorted_wrt (\<ge>) (replicate k ?m)" by (simp add: sorted_wrt_iff_nth_less)
  let ?f = "foldl (\<lambda>t v. ins_desc v t) (replicate k ?m) h"
  have "sorted_wrt (\<ge>) (rev (sort h) @ replicate k ?m)"
    using acc big by (force simp: sorted_wrt_append sorted_wrt_rev)
  then have f: "?f = rev (sort h) @ replicate k ?m"
    using foldl_ins_desc(1,2)[OF acc, of h] by (intro desc_unique) auto
  have "foldl (\<lambda>t v. top_insert v t) (replicate k ?m) h = take k ?f"
    using foldl_ins_desc(3)[OF acc, of k h] by simp
  also have "\<dots> = take k (rev (sort h))" using f k by simp
  finally have top: "foldl (\<lambda>t v. top_insert v t) (replicate k ?m) h = take k (rev (sort h))" .
  have "(if length h < n then length h else n) = k" by (simp add: k_def)
  then have "rankNth h n = Some (take k (rev (sort h)) ! (k - 1))"
    unfolding rankNth_def Let_def top[symmetric] using k(1,3) by simp
  then show ?thesis using k(1) unfolding k_def[symmetric] by simp
qed

text \<open>Fewer than \<open>n\<close> entries lie above the \<open>n\<close>-th highest.\<close>

lemma rankNth_excludes:
  assumes n: "1 \<le> n" "n \<le> length h" "n \<le> 8" and big: "\<And>v. v \<in> set h \<Longrightarrow> - (2 ^ 62) < v"
    and few: "length (filter (\<lambda>v. B < v) h) < n"
  shows "\<exists>v\<le>B. rankNth h n = Some v"
proof (rule ccontr)
  let ?d = "rev (sort h)"
  have h: "h \<noteq> []" using n by auto
  assume "\<not> (\<exists>v\<le>B. rankNth h n = Some v)"
  then have gt: "B < ?d ! (n - 1)" using rankNth_rev_sort[OF n(1) _ h big] n by (simp add: min_absorb1 not_le)
  have "sorted_wrt (\<ge>) ?d" by (simp add: sorted_wrt_rev)
  then have "?d ! (n - 1) \<le> ?d ! i" if "i < n" for i
    using that n by (cases "i = n - 1") (auto simp: sorted_wrt_iff_nth_less)
  then have "\<forall>i<n. B < ?d ! i" using gt by fastforce
  then have "filter (\<lambda>v. B < v) (take n ?d) = take n ?d"
    using n by (auto simp: filter_id_conv in_set_conv_nth)
  then have "n \<le> length (filter (\<lambda>v. B < v) ?d)"
    using n by (metis append_take_drop_id filter_append length_append length_rev length_sort
        length_take min_absorb2 le_add1)
  also have "\<dots> = length (filter (\<lambda>v. B < v) h)"
    by (metis mset_filter mset_rev mset_sort size_mset)
  finally show False using few by simp
qed

lemma rankNth_mem:
  assumes "1 \<le> n" "n \<le> 8" "h \<noteq> []" "\<And>v. v \<in> set h \<Longrightarrow> - (2 ^ 62) < v"
  shows "\<exists>v\<in>set h. rankNth h n = Some v"
proof -
  have b: "min n (length h) - 1 < length (rev (sort h))" "min n (length h) \<le> 8" using assms(1-3) by (cases h; simp)+
  from nth_mem[OF b(1)] show ?thesis using rankNth_rev_sort[OF assms(1) b(2) assms(3,4)] by simp
qed

section \<open>Properties\<close>

text \<open>C16. Every controller of the repository keeps the servo contract: the rate stays within the cap;
  a trim is taken exactly when the whole window sat more than the threshold above the setpoint; it
  then puts the window's median on the setpoint and the rate is zero.\<close>

theorem Decide_contract:
  assumes "Decide c est geo = ((rate, trim), c')" "0 \<le> RateCapPerSec geo" "0 \<le> Theta geo" "MinRaw est \<le> MedianRaw est"
  shows "\<bar>rate\<bar> \<le> RateCapPerSec geo \<and> 0 \<le> trim \<and> (0 < trim) = displaced est geo \<and>
    (0 < trim \<longrightarrow> rate = 0 \<and> MedianRaw est - trim = Setpoint geo)"
proof -
  have f: "fst (Decide c est geo) = (rate, trim)" using assms(1) by simp
  show ?thesis
    using ctl.rate_capped[OF f assms(2)] ctl.trim_positive[OF f assms(3,4)] ctl.trim_not_negative[OF f assms(3,4)]
      ctl.trim_evidence[OF f] by auto
qed

theorem Decide_contract_witness:
  "let est = \<lparr> MedianRaw = 900, MinRaw = 850, MaxRaw = 950, WidthLow = 0, WidthHigh = 0, SlopeFPS = 0, HorizonSec = 0 \<rparr>;
       geo = \<lparr> Setpoint = 480, Deadband = 12, Theta = 280, GainPerSec = 0, RateCapPerSec = 20, FFClampPerSec = 22 \<rparr>;
       ((rate, trim), _) = Decide (PAnchorOnly 0) est geo
   in \<bar>rate\<bar> \<le> 20 \<and> trim = 420"
proof -
  let ?est = "\<lparr> MedianRaw = 900, MinRaw = 850, MaxRaw = 950, WidthLow = 0, WidthHigh = 0, SlopeFPS = 0, HorizonSec = 0 \<rparr>"
  let ?geo = "\<lparr> Setpoint = 480, Deadband = 12, Theta = 280, GainPerSec = 0, RateCapPerSec = 20, FFClampPerSec = 22 \<rparr>"
  obtain rate trim c where d: "Decide (PAnchorOnly 0) ?est ?geo = ((rate, trim), c)" by (metis prod.collapse)
  from Decide_contract[OF this] have "\<bar>rate\<bar> \<le> 20 \<and> trim = 420" by (simp add: displaced_def)
  then show ?thesis unfolding Let_def d by simp
qed



text \<open>The rank filter ignores a one-off event: when at most two of the windows in the history exceed
  \<open>B\<close>, and the history has three, the effective width does not exceed \<open>B\<close>.\<close>

theorem rank_filter_ignores_one_event:
  assumes "v4WidthRank \<le> length h" "\<forall>v\<in>set h. 0 \<le> v" "length (filter (\<lambda>v. B < v) h) \<le> 2"
  shows "\<exists>v\<le>B. rankNth h v4WidthRank = Some v"
  using assms by (intro rankNth_excludes) (auto simp: v4WidthRank_def)

theorem rank_filter_ignores_one_event_witness: "\<exists>v\<le>7. rankNth [5, 90, 7, 80, 6] v4WidthRank = Some v"
  using rank_filter_ignores_one_event[of "[5, 90, 7, 80, 6]" 7] by (simp add: v4WidthRank_def)

text \<open>The shipped feed-forward clamp bounds every slope, however large, by 22 frames a second.\<close>

theorem softClamp_shipped: "\<bar>softClamp v v4FFClampPerSec\<bar> \<le> v4FFClampPerSec"
proof (rule softClamp_bound)
  show "f64 v4FFClampPerSec = v4FFClampPerSec" "f64 (v4FFClampPerSec * v4FFClampPerSec) = v4FFClampPerSec * v4FFClampPerSec"
    by (simp_all add: v4FFClampPerSec_def f64_numeral)
qed (simp add: v4FFClampPerSec_def)

end
