(* ===== verification/Jitter_Ring.thy ===== *)
theory Jitter_Ring
  imports Jitter_Control
begin

text \<open>
  The sample ring of the jitter buffer (\<^verbatim>\<open>src/engine/buffers/jitter_buffer.go\<close>, \<^verbatim>\<open>writeToRing\<close> to
  \<^verbatim>\<open>spliceDrop\<close>): copying frames in and out across the wrap, the discontinuity measure and the two
  one-frame splices. Positions are absolute and non-negative; the slot of a position is its
  remainder modulo the capacity. The locale \<open>frame_ring\<close> is what a client of any such ring relies on:
  after any sequence of writes, the last \<open>capacity\<close> frames of the written stream are still there.
\<close>

section \<open>Copying in and out\<close>

definition writeToRing :: "int \<Rightarrow> nat \<Rightarrow> rat list \<Rightarrow> rat list \<Rightarrow> int \<Rightarrow> int \<Rightarrow> rat list" where
  "writeToRing capacity nc data src wp nFrames =
    (let startFrame = wp smod capacity in
     if startFrame + nFrames \<le> capacity
     then copy_at data (nat startFrame * nc) (take (nat nFrames * nc) src)
     else let first = capacity - startFrame;
              data1 = copy_at data (nat startFrame * nc) (take (nat first * nc) src)
          in copy_at data1 0 (slice src (nat first * nc) (nat nFrames * nc)))"

definition readFromRing :: "int \<Rightarrow> nat \<Rightarrow> rat list \<Rightarrow> rat list \<Rightarrow> int \<Rightarrow> int \<Rightarrow> rat list" where
  "readFromRing capacity nc data dst rp nFrames =
    (let startFrame = rp smod capacity in
     if startFrame + nFrames \<le> capacity
     then copy_at dst 0 (slice data (nat startFrame * nc) (nat (startFrame + nFrames) * nc))
     else let first = capacity - startFrame;
              dst1 = copy_at dst 0 (drop (nat startFrame * nc) data)
          in copy_at dst1 (nat first * nc) (take (nat (nFrames - first) * nc) data))"

section \<open>Splices\<close>

text \<open>The samples of the frame at a ring position, as the code slices them:
  \<^verbatim>\<open>b.data[(p % capacity)*nc : (p % capacity)*nc + nc]\<close>.\<close>

definition ringFrame :: "int \<Rightarrow> nat \<Rightarrow> rat list \<Rightarrow> int \<Rightarrow> rat list" where
  "ringFrame capacity nc data p = frame nc data (nat (p smod capacity))"

text \<open>The discontinuity between two frames and their average, sample by sample in float32.\<close>

definition frameDist :: "rat list \<Rightarrow> rat list \<Rightarrow> rat" where
  "frameDist f g = foldl (\<lambda>d (a, b). let x = sub32 a b in add32 d (if x < 0 then - x else x)) 0 (zip f g)"

definition avgFrame :: "rat list \<Rightarrow> rat list \<Rightarrow> rat list" where
  "avgFrame f g = map (\<lambda>(a, b). mul32 (add32 a b) (1 / 2)) (zip f g)"

definition frameDiff :: "int \<Rightarrow> nat \<Rightarrow> rat list \<Rightarrow> int \<Rightarrow> int \<Rightarrow> rat" where
  "frameDiff capacity nc data p q = frameDist (ringFrame capacity nc data p) (ringFrame capacity nc data q)"

text \<open>The search loop both splices run: the last index of a minimal discontinuity. \<^verbatim>\<open>best < 0\<close> marks
  the first iteration.\<close>

definition cutStep :: "(int \<Rightarrow> rat) \<Rightarrow> int \<times> rat \<Rightarrow> int \<Rightarrow> int \<times> rat" where
  "cutStep diff cb i = (case cb of (cutAt, best) \<Rightarrow>
     let d = diff i in if best < 0 \<or> d \<le> best then (i, d) else (cutAt, best))"

definition spliceDrop :: "int \<Rightarrow> nat \<Rightarrow> rat list \<Rightarrow> rat list \<Rightarrow> int \<Rightarrow> int \<Rightarrow> rat list" where
  "spliceDrop capacity nc data dst rp nFrames =
    (let cutAt = fst (foldl (cutStep (\<lambda>i. frameDiff capacity nc data (rp + i) (rp + i + 1))) (0, - 1)
                 [0..nFrames - 1])
     in foldl (\<lambda>dst j.
          let src = (if j > cutAt then rp + j + 1 else rp + j)
          in copy_at dst (nat j * nc)
              (if j = cutAt
               then avgFrame (ringFrame capacity nc data src) (ringFrame capacity nc data (src + 1))
               else ringFrame capacity nc data src))
        dst [0..nFrames - 1])"

definition spliceInsert :: "int \<Rightarrow> nat \<Rightarrow> rat list \<Rightarrow> rat list \<Rightarrow> int \<Rightarrow> int \<Rightarrow> rat list" where
  "spliceInsert capacity nc data dst rp nFrames =
    (let cutAt = fst (foldl (cutStep (\<lambda>i. frameDiff capacity nc data (rp + i - 1) (rp + i))) (1, - 1)
                 [1..nFrames - 1])
     in foldl (\<lambda>dst j.
          let src = (if j > cutAt then rp + j - 1 else rp + j)
          in copy_at dst (nat j * nc)
              (if j = cutAt
               then avgFrame (ringFrame capacity nc data (rp + cutAt - 1)) (ringFrame capacity nc data (rp + cutAt))
               else ringFrame capacity nc data src))
        dst [0..nFrames - 1])"

section \<open>What the copies do to each frame\<close>

lemma smod_slot: "0 < (cap::int) \<Longrightarrow> 0 \<le> p \<Longrightarrow> p smod cap = p mod cap"
  by (rule smod_nonneg)

lemma slot_bounds: "0 < (cap::int) \<Longrightarrow> 0 \<le> p \<Longrightarrow> 0 \<le> p smod cap \<and> p smod cap < cap"
  by (simp add: smod_slot)

text \<open>Distance from \<open>wp\<close> to a slot, going upwards around the ring.\<close>

lemma slot_distance:
  assumes "0 < (cap::int)" "0 \<le> i" "i < cap" "s = wp mod cap"
  shows "(i - wp) mod cap = (if s \<le> i then i - s else i - s + cap)"
proof -
  have s: "0 \<le> s" "s < cap" using assms by auto
  have "(i - wp) mod cap = (i - s) mod cap" using assms by (simp add: mod_diff_right_eq)
  also have "\<dots> = (if s \<le> i then i - s else i - s + cap)"
    using s assms(2,3) mod_add_self2[of "i - s" cap] by (auto simp del: mod_add_self2)
  finally show ?thesis .
qed

lemma slot_advance:
  assumes "0 \<le> s" "s < (cap::int)" "0 \<le> j" "j \<le> cap"
  shows "(s + j) mod cap = (if s + j < cap then s + j else s + j - cap)"
proof (cases "s + j < cap")
  case False
  have "(s + j) mod cap = (s + j - cap) mod cap" by simp
  also have "\<dots> = s + j - cap" using False assms by (intro mod_pos_pos_trivial) auto
  finally show ?thesis using False by simp
qed (use assms in simp)

lemma length_writeToRing:
  assumes "0 < cap" "length data = nat cap * nc" "0 \<le> wp"
  shows "length (writeToRing cap nc data src wp n) = length data"
proof -
  have "nat (wp smod cap) * nc \<le> length data"
    using slot_bounds[OF assms(1,3)] by (simp add: assms(2) nat_mono)
  then show ?thesis by (simp add: writeToRing_def Let_def)
qed

lemma frame_writeToRing:
  assumes cap: "0 < cap" and len: "length data = nat cap * nc" and wp: "0 \<le> wp"
    and n: "0 \<le> n" "n \<le> cap" and src: "nat n * nc \<le> length src" and i: "i < nat cap"
  shows "frame nc (writeToRing cap nc data src wp n) i =
    (if (int i - wp) mod cap < n then frame nc src (nat ((int i - wp) mod cap)) else frame nc data i)"
proof -
  define s where "s = wp smod cap"
  have sm: "s = wp mod cap" and s: "0 \<le> s" "s < cap"
    using cap wp slot_bounds[OF cap wp] by (auto simp: s_def smod_slot)
  have dist: "(int i - wp) mod cap = (if s \<le> int i then int i - s else int i - s + cap)"
    using slot_distance[OF cap _ _ sm] i by simp
  show ?thesis
  proof (cases "s + n \<le> cap")
    case True
    have l: "length (take (nat n * nc) src) = nat n * nc" using src by simp
    have "(nat s + nat n) * nc \<le> length data"
      using True s n len by (simp add: nat_add_distrib[symmetric] nat_mono)
    from frame_copy_at[OF l this]
    have "frame nc (writeToRing cap nc data src wp n) i =
      (if nat s \<le> i \<and> i < nat s + nat n then frame nc (take (nat n * nc) src) (i - nat s) else frame nc data i)"
      using True by (simp add: writeToRing_def s_def[symmetric] Let_def)
    then show ?thesis using dist s n True i
      by (auto simp: frame_take nat_diff_distrib' split: if_splits)
  next
    case False
    let ?f = "cap - s"
    let ?d1 = "copy_at data (nat s * nc) (take (nat ?f * nc) src)"
    have fn: "?f < n" using False by simp
    have fl: "nat ?f * nc \<le> nat n * nc" using fn by (simp add: nat_mono)
    have l1: "length (take (nat ?f * nc) src) = nat ?f * nc"
      using le_trans[OF fl src] by (simp only: length_take min_absorb2)
    have b1: "(nat s + nat ?f) * nc \<le> length data"
      using s len by (simp add: nat_add_distrib[symmetric])
    have ld1: "length ?d1 = length data" using b1 by (simp add: algebra_simps)
    have l2: "length (slice src (nat ?f * nc) (nat n * nc)) = (nat n - nat ?f) * nc"
      using diff_le_mono[OF src, of "nat ?f * nc"]
      by (simp only: length_slice diff_mult_distrib min_absorb1)
    have b2: "(0 + (nat n - nat ?f)) * nc \<le> length ?d1"
      using n s ld1 len fn by (simp add: nat_le_iff le_diff_conv)
    have e: "frame nc (writeToRing cap nc data src wp n) i =
      (if i < nat n - nat ?f then frame nc (slice src (nat ?f * nc) (nat n * nc)) i
       else frame nc ?d1 i)"
      using frame_copy_at[OF l2 b2, of i] False by (simp add: writeToRing_def s_def[symmetric] Let_def)
    have e1: "frame nc ?d1 i =
      (if nat s \<le> i \<and> i < nat s + nat ?f then frame nc (take (nat ?f * nc) src) (i - nat s) else frame nc data i)"
      using frame_copy_at[OF l1 b1] .
    have top: "nat s + nat ?f = nat cap" using s by simp
    show ?thesis
    proof (cases "int i < n - ?f")
      case True
      then have "int i < s" using n by linarith
      moreover have "nat ((int i - s) + cap) = nat ?f + i" using s by simp
      moreover have "i < nat n - nat ?f" using True s fn by linarith
      ultimately show ?thesis using True dist fn s unfolding e by (simp add: frame_slice)
    next
      case F: False
      then have ni: "\<not> i < nat n - nat ?f" using s fn by linarith
      show ?thesis
      proof (cases "s \<le> int i")
        case True
        then have "i - nat s < nat ?f" "nat s \<le> i" "nat (int i - s) = i - nat s" using i s by auto
        moreover have "int i - s < n" using i fn by linarith
        ultimately show ?thesis unfolding e e1 using ni dist True i top fn
          by (simp add: frame_take)
      next
        case G: False
        then show ?thesis unfolding e e1 using ni dist F by auto
      qed
    qed
  qed
qed

lemma length_readFromRing: "length (readFromRing cap nc data dst rp n) = length dst"
  if "0 < cap" "0 \<le> rp" "length dst = nat n * nc" "n \<le> cap"
proof -
  have "nat (cap - rp smod cap) * nc \<le> length dst" if "\<not> rp smod cap + n \<le> cap"
    using that \<open>length dst = _\<close> by (simp add: nat_mono)
  then show ?thesis by (simp add: readFromRing_def Let_def)
qed

lemma frame_readFromRing:
  assumes cap: "0 < cap" and len: "length data = nat cap * nc" and rp: "0 \<le> rp"
    and n: "0 \<le> n" "n \<le> cap" and dst: "length dst = nat n * nc" and j: "j < nat n"
  shows "frame nc (readFromRing cap nc data dst rp n) j = ringFrame cap nc data (rp + int j)"
proof -
  define s where "s = rp smod cap"
  have sm: "s = rp mod cap" and s: "0 \<le> s" "s < cap"
    using cap rp slot_bounds[OF cap rp] by (auto simp: s_def smod_slot)
  have "(rp + int j) smod cap = (s + int j) mod cap"
    using cap rp sm by (simp add: smod_slot mod_add_left_eq)
  then have slot: "(rp + int j) smod cap = (if s + int j < cap then s + int j else s + int j - cap)"
    using slot_advance[OF s, of "int j"] j n by simp
  show ?thesis
  proof (cases "s + n \<le> cap")
    case True
    let ?src = "slice data (nat s * nc) (nat (s + n) * nc)"
    have t: "nat (s + n) = nat s + nat n" using s n by simp
    have "(nat s + nat n) * nc \<le> length data" using True s n len by (simp add: t[symmetric] nat_mono)
    then have l: "length ?src = nat n * nc" using t by (simp add: algebra_simps)
    have "frame nc (readFromRing cap nc data dst rp n) j = frame nc ?src j"
      using frame_copy_at[OF l, of 0 dst j] dst j True by (simp add: readFromRing_def s_def[symmetric] Let_def)
    also have "\<dots> = frame nc data (nat s + j)" using j t by (simp add: frame_slice)
    finally have "frame nc (readFromRing cap nc data dst rp n) j = frame nc data (nat s + j)" .
    moreover have "s + int j < cap" using j True by linarith
    ultimately show ?thesis using slot s by (simp add: ringFrame_def nat_add_distrib)
  next
    case False
    let ?f = "cap - s"
    have l1: "length (drop (nat s * nc) data) = nat ?f * nc"
      using s len by (simp add: nat_diff_distrib diff_mult_distrib)
    let ?d1 = "copy_at dst 0 (drop (nat s * nc) data)"
    have b1: "(0 + nat ?f) * nc \<le> length dst" using dst False s by (simp add: nat_mono)
    have ld1: "length ?d1 = nat n * nc" using dst by simp
    have l2: "length (take (nat (n - ?f) * nc) data) = nat (n - ?f) * nc"
      using len n s by (simp add: min_absorb2 nat_mono mult_right_mono)
    have "nat ?f + nat (n - ?f) = nat n" using s False n by simp
    then have b2: "(nat ?f + nat (n - ?f)) * nc \<le> length ?d1" using ld1 by simp
    have "frame nc (readFromRing cap nc data dst rp n) j =
      (if nat ?f \<le> j then frame nc data (j - nat ?f) else frame nc data (nat s + j))"
      using frame_copy_at[OF l2 b2, of j] frame_copy_at[OF l1 b1, of j] j False
        \<open>nat ?f + nat (n - ?f) = nat n\<close>
      by (auto simp: readFromRing_def s_def[symmetric] Let_def frame_take frame_drop)
    moreover have "nat ?f \<le> j \<Longrightarrow> nat (s + int j - cap) = j - nat ?f" using s by linarith
    ultimately show ?thesis using slot s
      by (auto simp: ringFrame_def nat_add_distrib nat_le_iff)
  qed
qed

section \<open>The splices frame by frame\<close>

lemma frameDist_nonneg: "0 \<le> frameDist f g"
proof -
  define st where "st = (\<lambda>d (a, b). let x = sub32 a b in add32 d (if x < 0 then - x else x))"
  have st: "0 \<le> d \<Longrightarrow> 0 \<le> st d p" for d and p :: "rat \<times> rat"
    by (cases p) (simp add: st_def add32_def f32_nonneg Let_def)
  have "0 \<le> d \<Longrightarrow> 0 \<le> foldl st d ps" for d ps
    by (induction ps arbitrary: d) (simp_all add: st)
  from this[of 0 "zip f g"] show ?thesis by (simp add: frameDist_def st_def)
qed

text \<open>The search returns the last index whose discontinuity is minimal.\<close>

lemma cutStep_search:
  assumes d: "\<And>i. 0 \<le> diff i" and ab: "a \<le> b"
  shows "\<exists>c. foldl (cutStep diff) (c0, - 1) [a..b] = (c, diff c) \<and> a \<le> c \<and> c \<le> b \<and>
    (\<forall>i. a \<le> i \<and> i \<le> b \<longrightarrow> diff c \<le> diff i) \<and> (\<forall>i. c < i \<and> i \<le> b \<longrightarrow> diff c < diff i)"
  using ab
proof (induction b rule: int_ge_induct)
  case base
  then show ?case by (auto simp: cutStep_def)
next
  case (step b)
  then obtain c where c: "foldl (cutStep diff) (c0, - 1) [a..b] = (c, diff c)" "a \<le> c" "c \<le> b"
    "\<forall>i. a \<le> i \<and> i \<le> b \<longrightarrow> diff c \<le> diff i" "\<forall>i. c < i \<and> i \<le> b \<longrightarrow> diff c < diff i" by blast
  have u: "[a..b + 1] = [a..b] @ [b + 1]" using step by (simp add: upto_rec2)
  have lt: "i \<le> b + 1 \<longleftrightarrow> i \<le> b \<or> i = b + 1" for i by auto
  have nd: "\<not> diff c < 0" using d[of c] by simp
  have f: "foldl (cutStep diff) (c0, - 1) [a..b + 1] =
      (if diff (b + 1) \<le> diff c then (b + 1, diff (b + 1)) else (c, diff c))"
    unfolding u by (simp add: c(1)) (simp add: cutStep_def nd)
  show ?case
  proof (cases "diff (b + 1) \<le> diff c")
    case True
    have "diff (b + 1) \<le> diff i" if "a \<le> i" "i \<le> b" for i using c(4) that True by fastforce
    then show ?thesis using c(2,3) True by (auto simp: f lt)
  next
    case False
    then show ?thesis using c(2-) by (intro exI[of _ c]) (auto simp: f lt)
  qed
qed

text \<open>Writing frame after frame into \<open>dst\<close> leaves frame \<open>j\<close> at place \<open>j\<close>.\<close>

lemma frame_foldl_copy:
  assumes "\<And>j. 0 \<le> j \<Longrightarrow> j < int m \<Longrightarrow> length (g j) = nc" "m * nc \<le> length dst"
  shows "length (foldl (\<lambda>dst j. copy_at dst (nat j * nc) (g j)) dst [0..int m - 1]) = length dst \<and>
    (\<forall>i. frame nc (foldl (\<lambda>dst j. copy_at dst (nat j * nc) (g j)) dst [0..int m - 1]) i =
      (if i < m then g (int i) else frame nc dst i))"
  using assms
proof (induction m)
  case (Suc m)
  let ?F = "foldl (\<lambda>dst j. copy_at dst (nat j * nc) (g j)) dst"
  have u: "[0..int (Suc m) - 1] = [0..int m - 1] @ [int m]" by (simp add: upto_rec2)
  have IH: "length (?F [0..int m - 1]) = length dst"
    "\<And>i. frame nc (?F [0..int m - 1]) i = (if i < m then g (int i) else frame nc dst i)"
    using Suc by auto
  have l: "length (g (int m)) = 1 * nc" using Suc.prems by simp
  have b: "(m + 1) * nc \<le> length (?F [0..int m - 1])" using IH(1) Suc.prems(2) by simp
  have "frame nc (g (int m)) 0 = g (int m)" using l by (simp add: frame_def)
  moreover have F: "?F [0..int (Suc m) - 1] = copy_at (?F [0..int m - 1]) (m * nc) (g (int m))"
    unfolding u by simp
  moreover have "m * nc \<le> length (?F [0..int m - 1])" using b by simp
  ultimately show ?case using frame_copy_at[OF l b] IH unfolding F
    by (auto simp: less_Suc_eq)
qed simp

lemma length_ringFrame:
  assumes "0 < cap" "length data = nat cap * nc" "0 \<le> p"
  shows "length (ringFrame cap nc data p) = nc"
proof -
  have "nat (p smod cap) < nat cap" using slot_bounds[OF assms(1,3)] by simp
  then have "(nat (p smod cap) + 1) * nc \<le> nat cap * nc" by (intro mult_right_mono) auto
  then show ?thesis using assms(2) by (simp add: ringFrame_def frame_def algebra_simps)
qed

lemma length_avgFrame: "length (avgFrame f g) = min (length f) (length g)"
  by (simp add: avgFrame_def)

lemma spliceDrop_frames:
  assumes cap: "0 < cap" and len: "length data = nat cap * nc" and rp: "0 \<le> rp"
    and n: "1 \<le> n" and dst: "length dst = nat n * nc"
  shows "\<exists>c. 0 \<le> c \<and> c < n \<and>
    (\<forall>i. 0 \<le> i \<and> i < n \<longrightarrow>
       frameDiff cap nc data (rp + c) (rp + c + 1) \<le> frameDiff cap nc data (rp + i) (rp + i + 1)) \<and>
    length (spliceDrop cap nc data dst rp n) = length dst \<and>
    (\<forall>j<nat n. frame nc (spliceDrop cap nc data dst rp n) j =
       (if int j < c then ringFrame cap nc data (rp + int j)
        else if int j = c then avgFrame (ringFrame cap nc data (rp + c)) (ringFrame cap nc data (rp + c + 1))
        else ringFrame cap nc data (rp + int j + 1)))"
proof -
  define diff where "diff = (\<lambda>i. frameDiff cap nc data (rp + i) (rp + i + 1))"
  have "\<And>i. 0 \<le> diff i" by (simp add: diff_def frameDiff_def frameDist_nonneg)
  from cutStep_search[of diff 0 "n - 1" 0, OF this] obtain c where
    c: "foldl (cutStep diff) (0, - 1) [0..n - 1] = (c, diff c)" "0 \<le> c" "c < n"
      "\<forall>i. 0 \<le> i \<and> i < n \<longrightarrow> diff c \<le> diff i" using n by auto
  define g where "g = (\<lambda>j. let src = (if j > c then rp + j + 1 else rp + j) in
     (if j = c then avgFrame (ringFrame cap nc data src) (ringFrame cap nc data (src + 1))
      else ringFrame cap nc data src))"
  have gl: "length (g j) = nc" if "0 \<le> j" for j
    using that c(2) rp length_ringFrame[OF cap len]
    by (simp add: g_def Let_def length_avgFrame)
  have sd: "spliceDrop cap nc data dst rp n = foldl (\<lambda>dst j. copy_at dst (nat j * nc) (g j)) dst [0..n - 1]"
    using c(1) by (simp add: spliceDrop_def diff_def g_def Let_def)
  have "nat n * nc \<le> length dst" using dst by simp
  from frame_foldl_copy[of "nat n" g nc dst, OF gl this]
  have "length (spliceDrop cap nc data dst rp n) = length dst"
    "\<forall>j<nat n. frame nc (spliceDrop cap nc data dst rp n) j = g (int j)"
    using n sd by auto
  then show ?thesis using c by (intro exI[of _ c]) (auto simp: g_def diff_def Let_def)
qed

lemma spliceInsert_frames:
  assumes cap: "0 < cap" and len: "length data = nat cap * nc" and rp: "0 \<le> rp"
    and n: "2 \<le> n" and dst: "length dst = nat n * nc"
  shows "\<exists>c. 1 \<le> c \<and> c < n \<and>
    (\<forall>i. 1 \<le> i \<and> i < n \<longrightarrow>
       frameDiff cap nc data (rp + c - 1) (rp + c) \<le> frameDiff cap nc data (rp + i - 1) (rp + i)) \<and>
    length (spliceInsert cap nc data dst rp n) = length dst \<and>
    (\<forall>j<nat n. frame nc (spliceInsert cap nc data dst rp n) j =
       (if int j < c then ringFrame cap nc data (rp + int j)
        else if int j = c then avgFrame (ringFrame cap nc data (rp + c - 1)) (ringFrame cap nc data (rp + c))
        else ringFrame cap nc data (rp + int j - 1)))"
proof -
  define diff where "diff = (\<lambda>i. frameDiff cap nc data (rp + i - 1) (rp + i))"
  have "\<And>i. 0 \<le> diff i" by (simp add: diff_def frameDiff_def frameDist_nonneg)
  from cutStep_search[of diff 1 "n - 1" 1, OF this] obtain c where
    c: "foldl (cutStep diff) (1, - 1) [1..n - 1] = (c, diff c)" "1 \<le> c" "c < n"
      "\<forall>i. 1 \<le> i \<and> i < n \<longrightarrow> diff c \<le> diff i" using n by auto
  define g where "g = (\<lambda>j. let src = (if j > c then rp + j - 1 else rp + j) in
     (if j = c then avgFrame (ringFrame cap nc data (rp + c - 1)) (ringFrame cap nc data (rp + c))
      else ringFrame cap nc data src))"
  have gl: "length (g j) = nc" if "0 \<le> j" for j
    using that c(2) rp length_ringFrame[OF cap len]
    by (simp add: g_def Let_def length_avgFrame)
  have sd: "spliceInsert cap nc data dst rp n = foldl (\<lambda>dst j. copy_at dst (nat j * nc) (g j)) dst [0..n - 1]"
    using c(1) by (simp add: spliceInsert_def diff_def g_def Let_def)
  have "nat n * nc \<le> length dst" using dst by simp
  from frame_foldl_copy[of "nat n" g nc dst, OF gl this]
  have "length (spliceInsert cap nc data dst rp n) = length dst"
    "\<forall>j<nat n. frame nc (spliceInsert cap nc data dst rp n) j = g (int j)"
    using n sd by auto
  then show ?thesis using c by (intro exI[of _ c]) (auto simp: g_def diff_def Let_def)
qed

section \<open>The contract of a frame ring\<close>

text \<open>\<open>wr\<close> appends the frames \<open>payload\<close> of a written block at position \<open>wpos\<close>; \<open>peek\<close> is the frame
  a reader finds at an absolute position. The laws say what one write does to what a reader finds.\<close>

locale frame_ring =
  fixes wr :: "'s \<Rightarrow> 'w \<Rightarrow> 's"
    and payload :: "'s \<Rightarrow> 'w \<Rightarrow> 'f list"
    and peek :: "'s \<Rightarrow> int \<Rightarrow> 'f"
    and wpos :: "'s \<Rightarrow> int"
    and rcap :: "'s \<Rightarrow> int"
    and ok :: "'s \<Rightarrow> bool"
  assumes ok_wr: "ok s \<Longrightarrow> ok (wr s x)"
    and rcap_wr: "rcap (wr s x) = rcap s"
    and wpos_wr: "ok s \<Longrightarrow> wpos (wr s x) = wpos s + int (length (payload s x))"
    and payload_fits: "ok s \<Longrightarrow> int (length (payload s x)) \<le> rcap s"
    and wpos_nonneg: "ok s \<Longrightarrow> 0 \<le> wpos s"
    and peek_new: "ok s \<Longrightarrow> wpos s \<le> p \<Longrightarrow> p < wpos s + int (length (payload s x)) \<Longrightarrow>
      peek (wr s x) p = payload s x ! nat (p - wpos s)"
    and peek_old: "ok s \<Longrightarrow> 0 \<le> p \<Longrightarrow> wpos s + int (length (payload s x)) - rcap s \<le> p \<Longrightarrow> p < wpos s \<Longrightarrow>
      peek (wr s x) p = peek s p"
begin

text \<open>\<open>holds s S\<close>: the stream written so far is \<open>S\<close> and its last \<open>rcap\<close> frames can be read back.\<close>

definition holds :: "'s \<Rightarrow> 'f list \<Rightarrow> bool" where
  "holds s S \<longleftrightarrow> wpos s = int (length S) \<and>
    (\<forall>p. 0 \<le> p \<longrightarrow> wpos s - rcap s \<le> p \<longrightarrow> p < wpos s \<longrightarrow> peek s p = S ! nat p)"

lemma holds_wr:
  assumes "ok s" "holds s S"
  shows "holds (wr s x) (S @ payload s x)"
  unfolding holds_def
proof (intro conjI allI impI)
  show "wpos (wr s x) = int (length (S @ payload s x))"
    using assms wpos_wr by (simp add: holds_def)
  fix p assume p: "0 \<le> p" "wpos (wr s x) - rcap (wr s x) \<le> p" "p < wpos (wr s x)"
  have S: "wpos s = int (length S)" using assms(2) by (simp add: holds_def)
  show "peek (wr s x) p = (S @ payload s x) ! nat p"
  proof (cases "p < wpos s")
    case True
    then have "peek (wr s x) p = peek s p"
      using p peek_old[OF assms(1) p(1)] wpos_wr[OF assms(1)] rcap_wr by simp
    also have "\<dots> = S ! nat p"
      using assms p True wpos_wr[OF assms(1), of x] rcap_wr by (simp add: holds_def)
    finally show ?thesis using True S p(1) by (simp add: nth_append nat_less_iff)
  next
    case False
    then have "peek (wr s x) p = payload s x ! nat (p - wpos s)"
      using p peek_new[OF assms(1)] wpos_wr[OF assms(1)] by simp
    moreover have "nat (p - wpos s) = nat p - length S" "\<not> nat p < length S" using False S by auto
    ultimately show ?thesis by (simp add: nth_append)
  qed
qed

text \<open>The stream a sequence of writes appends.\<close>

primrec written :: "'s \<Rightarrow> 'w list \<Rightarrow> 'f list" where
  "written s [] = []"
| "written s (x # xs) = payload s x @ written (wr s x) xs"

lemma holds_writes:
  assumes "ok s" "holds s S"
  shows "ok (foldl wr s xs) \<and> holds (foldl wr s xs) (S @ written s xs)"
  using assms
proof (induction xs arbitrary: s S)
  case (Cons x xs)
  from Cons.IH[OF ok_wr[OF Cons.prems(1)] holds_wr[OF Cons.prems]] show ?case by simp
qed simp

end

text \<open>A ring whose payloads do not depend on the state: the stream is the concatenation of the blocks.\<close>

locale uniform_ring = frame_ring +
  assumes payload_wr: "payload (wr s x) = payload s"
begin

lemma written_concat: "written s xs = concat (map (payload s) xs)"
  by (induction xs arbitrary: s) (simp_all add: payload_wr)

end

end
