(* ===== verification/Jitter_Buffer.thy ===== *)
theory Jitter_Buffer
  imports Jitter_Ring
begin

text \<open>
  The jitter buffer itself (\<^verbatim>\<open>src/engine/buffers/jitter_buffer.go\<close>): configuration, construction,
  \<^verbatim>\<open>Write\<close>, \<^verbatim>\<open>Read\<close> with its sensing window and servo, and the observer views. The state is one
  record; an atomic is a field of it, because each position is stored by one side only (the writer
  stores \<open>jb_writePos\<close>, the reader everything else) and a call is one step. The lap race the source
  accepts, a writer overwriting slots a stalled reader is reading, is outside this model.
  Positions, ticks and counters are mathematical integers: at 48 kHz an int64 frame position lasts
  six million years.
\<close>

section \<open>Configuration and state\<close>

record JitterBufferConfig =
  SampleRate :: int
  NumChannels :: int
  WriterFrameSize :: int
  ReaderFrameSize :: int
  Safety :: int
  WriterFrames :: int
  ReaderFrames :: int
  Floor :: int
  Robustness :: rat
  Capacity :: int
  ControllerOverride :: "Controller option"

record JitterBuffer =
  jb_capacity :: int
  jb_w :: int
  jb_r :: int
  jb_s :: int
  jb_nc :: int
  jb_sr :: int
  jb_ctrl :: Controller
  jb_windowReads :: int
  jb_freezeReads :: int
  jb_narrowStep :: rat
  jb_spBase :: int
  jb_flDecl :: int
  jb_kLow :: rat
  jb_kHigh :: rat
  jb_wlCap :: int
  jb_deadband :: int
  jb_gain :: rat
  jb_rateCap :: rat
  jb_ffClamp :: rat
  jb_ffDeadZone :: int
  jb_theta :: int
  jb_spMax :: int
  jb_writePos :: int
  jb_readPos :: int
  jb_data :: "rat list"
  jb_started :: bool
  jb_tick :: int
  jb_lastWp :: int
  jb_gapRun :: int
  jb_frozen :: bool
  jb_rawBuf :: "int list"
  jb_virtBuf :: "int list"
  jb_wlHist :: "int list"
  jb_whHist :: "int list"
  jb_histLen :: nat
  jb_histPos :: nat
  jb_ffTicks :: "int list"
  jb_ffVals :: "int list"
  jb_wl :: rat
  jb_wh :: rat
  jb_rate :: rat
  jb_debt :: rat
  jb_pendingTrim :: int
  jb_setpoint :: int
  jb_curWL :: int
  jb_curWH :: int
  jb_curRate :: rat
  jb_curFrozen :: bool
  jb_underruns :: int
  jb_laps :: int
  jb_overruns :: int
  jb_trims :: int
  jb_dropped :: int
  jb_inserted :: int

section \<open>Construction\<close>

definition msToFrames :: "int \<Rightarrow> rat \<Rightarrow> int" where
  "msToFrames sr ms = trunc (div64 (mul64 ms (int64f sr)) 1000)"

definition durToFrames :: "int \<Rightarrow> int \<Rightarrow> int" where
  "durToFrames sr d = d * sr sdiv second_ns"

text \<open>The local variables of \<^verbatim>\<open>NewJitterBuffer\<close>, one definition each.\<close>

definition cfg_sr :: "JitterBufferConfig \<Rightarrow> int" where
  "cfg_sr cfg = (if SampleRate cfg = 0 then 48000 else SampleRate cfg)"

definition cfg_nc :: "JitterBufferConfig \<Rightarrow> int" where
  "cfg_nc cfg = (if NumChannels cfg = 0 then 1 else NumChannels cfg)"

definition cfg_w :: "JitterBufferConfig \<Rightarrow> int" where
  "cfg_w cfg = (if WriterFrames cfg = 0 then durToFrames (cfg_sr cfg) (WriterFrameSize cfg) else WriterFrames cfg)"

definition cfg_r :: "JitterBufferConfig \<Rightarrow> int" where
  "cfg_r cfg = (if ReaderFrames cfg = 0 then durToFrames (cfg_sr cfg) (ReaderFrameSize cfg) else ReaderFrames cfg)"

definition cfg_s :: "JitterBufferConfig \<Rightarrow> int" where
  "cfg_s cfg = (let s = durToFrames (cfg_sr cfg) (Safety cfg) in if s = 0 then msToFrames (cfg_sr cfg) 1 else s)"

definition cfg_kappa :: "JitterBufferConfig \<Rightarrow> rat" where
  "cfg_kappa cfg = (if Robustness cfg < 1 then 1 else Robustness cfg)"

definition cfg_ctrl :: "JitterBufferConfig \<Rightarrow> Controller" where
  "cfg_ctrl cfg = (case ControllerOverride cfg of None \<Rightarrow> PServo | Some c \<Rightarrow> c)"

definition cfg_spBase :: "JitterBufferConfig \<Rightarrow> int" where
  "cfg_spBase cfg = max (cfg_r cfg + cfg_s cfg) (cfg_r cfg + cfg_w cfg)"

definition cfg_flDecl :: "JitterBufferConfig \<Rightarrow> int" where
  "cfg_flDecl cfg = durToFrames (cfg_sr cfg) (Floor cfg)"

definition cfg_kLow :: "JitterBufferConfig \<Rightarrow> rat" where
  "cfg_kLow cfg = mul64 v4KLow (cfg_kappa cfg)"

definition cfg_kHigh :: "JitterBufferConfig \<Rightarrow> rat" where
  "cfg_kHigh cfg = mul64 v4KHigh (cfg_kappa cfg)"

definition cfg_wlCap :: "JitterBufferConfig \<Rightarrow> int" where
  "cfg_wlCap cfg = trunc (mul64 (int64f (msToFrames (cfg_sr cfg) v4WidthLowMax)) (cfg_kappa cfg))"

definition cfg_whCap :: "JitterBufferConfig \<Rightarrow> int" where
  "cfg_whCap cfg = trunc (mul64 (int64f (msToFrames (cfg_sr cfg) v4WidthHighMax)) (cfg_kappa cfg))"

text \<open>\<^verbatim>\<open>spMax\<close> as first computed; an explicit capacity may lower it below.\<close>

definition cfg_spMax0 :: "JitterBufferConfig \<Rightarrow> int" where
  "cfg_spMax0 cfg = max (cfg_spBase cfg + trunc (mul64 (cfg_kLow cfg) (int64f (cfg_wlCap cfg)))) (cfg_flDecl cfg)"

definition cfg_ffDeadZone :: "JitterBufferConfig \<Rightarrow> int" where
  "cfg_ffDeadZone cfg = (let z = gcd_loop (cfg_w cfg) (cfg_r cfg) sdiv 2 in if z < 1 then 1 else z)"

definition cfg_theta :: "JitterBufferConfig \<Rightarrow> int" where
  "cfg_theta cfg = cfg_w cfg + trunc (v4RateCapPerSec * v4WindowSec)"

definition cfg_capacity :: "JitterBufferConfig \<Rightarrow> int" where
  "cfg_capacity cfg = (let c = durToFrames (cfg_sr cfg) (Capacity cfg) in
     if c = 0 then 2 * (cfg_spMax0 cfg + trunc (mul64 (cfg_kHigh cfg) (int64f (cfg_whCap cfg))))
                   + 2 * max (cfg_w cfg) (cfg_r cfg)
     else c)"

definition cfg_spMax :: "JitterBufferConfig \<Rightarrow> int" where
  "cfg_spMax cfg = (let reserve = 4 * max (cfg_w cfg) (cfg_r cfg) in
     if cfg_spMax0 cfg > cfg_capacity cfg - reserve
     then max (cfg_spBase cfg) (cfg_capacity cfg - reserve) else cfg_spMax0 cfg)"

definition cfg_windowReads :: "JitterBufferConfig \<Rightarrow> int" where
  "cfg_windowReads cfg = trunc (div64 (mul64 v4WindowSec (int64f (cfg_sr cfg))) (int64f (cfg_r cfg)))"

text \<open>\<^verbatim>\<open>NewJitterBuffer\<close> panics on a non-positive frame size, and \<^verbatim>\<open>make\<close> panics on a negative length.
  The sort scratch buffer \<^verbatim>\<open>sortBuf\<close> is not part of the state: \<^verbatim>\<open>winStats\<close> overwrites it on every call.\<close>

definition NewJitterBuffer :: "JitterBufferConfig \<Rightarrow> string + JitterBuffer" where
  "NewJitterBuffer cfg =
    (if cfg_w cfg \<le> 0 \<or> cfg_r cfg \<le> 0
     then Inl ''JitterBuffer: writer and reader frame sizes must be > 0''
     else if cfg_capacity cfg * cfg_nc cfg < 0 \<or> cfg_windowReads cfg < 0
     then Inl ''makeslice: len out of range''
     else Inr \<lparr> jb_capacity = cfg_capacity cfg, jb_w = cfg_w cfg, jb_r = cfg_r cfg, jb_s = cfg_s cfg,
       jb_nc = cfg_nc cfg, jb_sr = cfg_sr cfg, jb_ctrl = cfg_ctrl cfg,
       jb_windowReads = cfg_windowReads cfg,
       jb_freezeReads = max 8 (msToFrames (cfg_sr cfg) v4FreezeMs sdiv cfg_r cfg),
       jb_narrowStep = div64 (int64f (msToFrames (cfg_sr cfg) v4NarrowStepMs)) (cfg_kappa cfg),
       jb_spBase = cfg_spBase cfg, jb_flDecl = cfg_flDecl cfg, jb_kLow = cfg_kLow cfg,
       jb_kHigh = cfg_kHigh cfg, jb_wlCap = cfg_wlCap cfg,
       jb_deadband = msToFrames (cfg_sr cfg) v4DeadbandMs, jb_gain = v4GainPerSec,
       jb_rateCap = v4RateCapPerSec, jb_ffClamp = v4FFClampPerSec, jb_ffDeadZone = cfg_ffDeadZone cfg,
       jb_theta = cfg_theta cfg, jb_spMax = cfg_spMax cfg,
       jb_writePos = 0, jb_readPos = 0, jb_data = replicate (nat (cfg_capacity cfg * cfg_nc cfg)) 0,
       jb_started = False, jb_tick = 0, jb_lastWp = 0, jb_gapRun = 0, jb_frozen = False,
       jb_rawBuf = [], jb_virtBuf = [],
       jb_wlHist = replicate v4WidthHistory 0, jb_whHist = replicate v4WidthHistory 0,
       jb_histLen = 0, jb_histPos = 0, jb_ffTicks = [], jb_ffVals = [],
       jb_wl = 0, jb_wh = 0, jb_rate = 0, jb_debt = 0, jb_pendingTrim = 0,
       jb_setpoint = min (max (cfg_spBase cfg) (cfg_flDecl cfg)) (cfg_spMax cfg),
       jb_curWL = 0, jb_curWH = 0, jb_curRate = 0, jb_curFrozen = False,
       jb_underruns = 0, jb_laps = 0, jb_overruns = 0, jb_trims = 0, jb_dropped = 0, jb_inserted = 0 \<rparr>)"

section \<open>Write\<close>

definition clipped :: "JitterBuffer \<Rightarrow> rat list \<Rightarrow> rat list \<times> int" where
  "clipped b src = (let nFrames = int (length src) sdiv jb_nc b in
     if nFrames > jb_capacity b
     then (drop (nat (nFrames - jb_capacity b) * nat (jb_nc b)) src, jb_capacity b)
     else (src, nFrames))"

definition Write :: "JitterBuffer \<Rightarrow> rat list \<Rightarrow> JitterBuffer" where
  "Write b src = (if int (length src) sdiv jb_nc b = 0 then b else
     let (src, nFrames) = clipped b src; wp = jb_writePos b
     in b \<lparr> jb_data := writeToRing (jb_capacity b) (nat (jb_nc b)) (jb_data b) src wp nFrames,
            jb_writePos := wp + nFrames \<rparr>)"

section \<open>The sensing window\<close>

definition resetWindow :: "JitterBuffer \<Rightarrow> JitterBuffer" where
  "resetWindow b = b \<lparr> jb_rawBuf := [], jb_virtBuf := [] \<rparr>"

text \<open>The width half of \<^verbatim>\<open>closeWindow\<close>: measured widths, rank filter, eager-up/reluctant-down hold. The rank is three
  and the history has just been added to, so \<^verbatim>\<open>rankNth\<close> returns (\<open>rank_nonneg\<close> in the theory of the invariant).\<close>

definition closeWidths :: "JitterBuffer \<Rightarrow> int \<Rightarrow> int \<Rightarrow> int \<Rightarrow> JitterBuffer" where
  "closeWidths b medV minV maxV =
    (let wlMeas = min (medV - minV) (jb_wlCap b);
         whMeas = maxV - medV;
         wlHist = (jb_wlHist b)[jb_histPos b := wlMeas];
         whHist = (jb_whHist b)[jb_histPos b := whMeas];
         histPos = (jb_histPos b + 1) mod v4WidthHistory;
         histLen = (if jb_histLen b < v4WidthHistory then jb_histLen b + 1 else jb_histLen b);
         wlEff = the (rankNth (take histLen wlHist) v4WidthRank);
         whEff = the (rankNth (take histLen whHist) v4WidthRank);
         wl = max (int64f wlEff) (sub64 (jb_wl b) (jb_narrowStep b));
         wh = max (int64f whEff) (sub64 (jb_wh b) (jb_narrowStep b))
     in b \<lparr> jb_wlHist := wlHist, jb_whHist := whHist, jb_histPos := histPos, jb_histLen := histLen,
            jb_wl := wl, jb_wh := wh, jb_curWL := trunc wl, jb_curWH := trunc wh \<rparr>)"

text \<open>The drift half: append this close to the horizon and take the slope between the ends.\<close>

definition pushFF :: "JitterBuffer \<Rightarrow> int \<Rightarrow> JitterBuffer" where
  "pushFF b medV =
    (let ts = jb_ffTicks b @ [jb_tick b]; vs = jb_ffVals b @ [medV]
     in if length ts > v4WidthHistory then b \<lparr> jb_ffTicks := tl ts, jb_ffVals := tl vs \<rparr>
        else b \<lparr> jb_ffTicks := ts, jb_ffVals := vs \<rparr>)"

definition ffSlope :: "JitterBuffer \<Rightarrow> rat \<times> rat" where
  "ffSlope b =
    (let ts = jb_ffTicks b; vs = jb_ffVals b; n = length ts in
     if n \<ge> 2 \<and> ts ! (n - 1) > ts ! 0 then
       let (lo, hi, ta, tb) =
             (if n \<ge> 6 then (median3 (vs ! 0) (vs ! 1) (vs ! 2),
                             median3 (vs ! (n - 3)) (vs ! (n - 2)) (vs ! (n - 1)),
                             ts ! 1, ts ! (n - 2))
              else (vs ! 0, vs ! (n - 1), ts ! 0, ts ! (n - 1)));
           span = tb - ta
       in if span > 0 then
            let perRead = div64 (int64f (hi - lo)) (int64f span);
                d = mul64 perRead (int64f span)
            in (if d \<ge> int64f (jb_ffDeadZone b) \<or> d \<le> - int64f (jb_ffDeadZone b)
                then div64 (mul64 perRead (int64f (jb_sr b))) (int64f (jb_r b)) else 0,
                div64 (mul64 (int64f span) (int64f (jb_r b))) (int64f (jb_sr b)))
          else (0, 0)
     else (0, 0))"

definition nextSetpoint :: "JitterBuffer \<Rightarrow> int" where
  "nextSetpoint b = min (max (jb_spBase b + trunc (add64 (mul64 (jb_kLow b) (jb_wl b)) (1 / 2)))
     (jb_flDecl b)) (jb_spMax b)"

definition windowEstimate :: "JitterBuffer \<Rightarrow> int \<times> int \<times> int \<Rightarrow> rat \<times> rat \<Rightarrow> WindowEstimate" where
  "windowEstimate b st sl = (case (st, sl) of ((medRaw, minRaw, maxRaw), (slope, horizonSec)) \<Rightarrow>
     \<lparr> MedianRaw = medRaw, MinRaw = minRaw, MaxRaw = maxRaw,
       WidthLow = trunc (jb_wl b), WidthHigh = trunc (jb_wh b), SlopeFPS = slope, HorizonSec = horizonSec \<rparr>)"

definition servoGeometry :: "JitterBuffer \<Rightarrow> ServoGeometry" where
  "servoGeometry b = \<lparr> Setpoint = jb_setpoint b, Deadband = max (jb_deadband b) (trunc (jb_wl b)),
     Theta = jb_theta b, GainPerSec = jb_gain b, RateCapPerSec = jb_rateCap b,
     FFClampPerSec = jb_ffClamp b \<rparr>"

definition closeWindow :: "JitterBuffer \<Rightarrow> JitterBuffer" where
  "closeWindow b =
    (let raw = winStats (jb_rawBuf b);
         (medV, minV, maxV) = winStats (jb_virtBuf b);
         b = closeWidths b medV minV maxV;
         b = pushFF b medV;
         b = b \<lparr> jb_setpoint := nextSetpoint b \<rparr>;
         ((rate, trim), ctrl) = Decide (jb_ctrl b) (windowEstimate b raw (ffSlope b)) (servoGeometry b);
         rate = (if rate > jb_rateCap b then jb_rateCap b
                 else if rate < - jb_rateCap b then - jb_rateCap b else rate);
         b = b \<lparr> jb_ctrl := ctrl, jb_rate := rate, jb_curRate := rate \<rparr>;
         b = (if trim > 0 then b \<lparr> jb_pendingTrim := trim \<rparr> else b)
     in resetWindow b)"

text \<open>The delivery-gap rule at the head of \<^verbatim>\<open>sense\<close>: resume on a delivery, freeze on a long gap and
  rewind the gap's own samples.\<close>

definition senseGap :: "JitterBuffer \<Rightarrow> int \<Rightarrow> JitterBuffer" where
  "senseGap b wp =
    (let delta = wp - jb_lastWp b;
         b = b \<lparr> jb_lastWp := wp \<rparr>
     in if delta > 0 then
          let b = (if jb_frozen b
                   then (resetWindow (b \<lparr> jb_frozen := False, jb_curFrozen := False \<rparr>))
                          \<lparr> jb_ffTicks := [], jb_ffVals := [] \<rparr>
                   else b)
          in b \<lparr> jb_gapRun := 0 \<rparr>
        else
          let b = b \<lparr> jb_gapRun := jb_gapRun b + 1 \<rparr>
          in if \<not> jb_frozen b \<and> jb_gapRun b > jb_freezeReads b then
               let rw = min (jb_gapRun b - 1) (int (length (jb_rawBuf b)))
               in b \<lparr> jb_frozen := True, jb_curFrozen := True, jb_rate := 0, jb_curRate := 0, jb_debt := 0,
                      jb_rawBuf := take (nat (int (length (jb_rawBuf b)) - rw)) (jb_rawBuf b),
                      jb_virtBuf := take (nat (int (length (jb_virtBuf b)) - rw)) (jb_virtBuf b) \<rparr>
             else b)"

definition sense :: "JitterBuffer \<Rightarrow> int \<Rightarrow> int \<Rightarrow> JitterBuffer" where
  "sense b wp fill =
    (if \<not> jb_started b then b else
     let tick = jb_tick b;
         b = senseGap (b \<lparr> jb_tick := tick + 1 \<rparr>) wp
     in if jb_frozen b then b else
        let b = b \<lparr> jb_rawBuf := jb_rawBuf b @ [fill], jb_virtBuf := jb_virtBuf b @ [wp - jb_r b * tick] \<rparr>
        in if int (length (jb_rawBuf b)) \<ge> jb_windowReads b then closeWindow b else b)"

section \<open>Read\<close>

text \<open>\<^verbatim>\<open>Read\<close> in the order of its numbered steps. \<open>None\<close> from \<open>readStartup\<close> is the silent return before
  the first full operating point. Steps 2 and 3 only move the read position.\<close>

definition readStartup :: "JitterBuffer \<Rightarrow> JitterBuffer option" where
  "readStartup b =
    (if jb_readPos b = 0 then
       if jb_writePos b < jb_setpoint b then None
       else Some (b \<lparr> jb_readPos := jb_writePos b - jb_setpoint b, jb_started := True,
                      jb_lastWp := jb_writePos b \<rparr>)
     else Some b)"

definition readTrim :: "JitterBuffer \<Rightarrow> int \<Rightarrow> JitterBuffer" where
  "readTrim b sp =
    (if jb_pendingTrim b > 0 then
       let t = min (jb_pendingTrim b) (jb_writePos b - jb_readPos b - sp);
           b = (if t > 0 then b \<lparr> jb_readPos := jb_readPos b + t, jb_trims := jb_trims b + 1 \<rparr> else b)
       in resetWindow (b \<lparr> jb_pendingTrim := 0 \<rparr>)
     else b)"

definition readValves :: "JitterBuffer \<Rightarrow> int \<Rightarrow> JitterBuffer" where
  "readValves b sp =
    (let wp = jb_writePos b; fill = wp - jb_readPos b in
     if fill \<ge> jb_capacity b
     then resetWindow (b \<lparr> jb_readPos := wp - sp, jb_laps := jb_laps b + 1 \<rparr>)
     else if fill > jb_capacity b - (jb_w b + jb_r b)
     then resetWindow (b \<lparr> jb_readPos := wp - sp, jb_overruns := jb_overruns b + 1 \<rparr>)
     else b)"

definition accrueDebt :: "JitterBuffer \<Rightarrow> JitterBuffer" where
  "accrueDebt b =
    (if jb_frozen b then b else
     let d = add64 (jb_debt b) (div64 (mul64 (jb_rate b) (int64f (jb_r b))) (int64f (jb_sr b)))
     in b \<lparr> jb_debt := (if d > v4MaxDebt then v4MaxDebt else if d < - v4MaxDebt then - v4MaxDebt else d) \<rparr>)"

definition readPlay :: "JitterBuffer \<Rightarrow> rat list \<Rightarrow> int \<Rightarrow> int \<Rightarrow> rat list \<times> JitterBuffer" where
  "readPlay b dst nFrames fill =
    (let cap = jb_capacity b; nc = nat (jb_nc b); rp = jb_readPos b in
     if jb_debt b \<ge> 1 \<and> fill \<ge> nFrames + 1
     then (spliceDrop cap nc (jb_data b) dst rp nFrames,
           b \<lparr> jb_debt := sub64 (jb_debt b) 1, jb_readPos := rp + nFrames + 1, jb_dropped := jb_dropped b + 1 \<rparr>)
     else if jb_debt b \<le> - 1 \<and> nFrames \<ge> 2
     then (spliceInsert cap nc (jb_data b) dst rp nFrames,
           b \<lparr> jb_debt := add64 (jb_debt b) 1, jb_readPos := rp + nFrames - 1, jb_inserted := jb_inserted b + 1 \<rparr>)
     else (readFromRing cap nc (jb_data b) dst rp nFrames, b \<lparr> jb_readPos := rp + nFrames \<rparr>))"

text \<open>The reader's state when it is about to play: steps 1 to 4.\<close>

definition readPlace :: "JitterBuffer \<Rightarrow> int \<Rightarrow> JitterBuffer" where
  "readPlace b sp = (let b = readValves (readTrim b sp) sp
     in sense b (jb_writePos b) (jb_writePos b - jb_readPos b))"

definition Read :: "JitterBuffer \<Rightarrow> rat list \<Rightarrow> bool \<times> rat list \<times> JitterBuffer" where
  "Read b dst =
    (let nFrames = int (length dst) sdiv jb_nc b in
     if nFrames = 0 then (True, dst, b) else
     case readStartup b of
       None \<Rightarrow> (False, clear_slice dst, b)
     | Some b1 \<Rightarrow>
        let b2 = readPlace b1 (jb_setpoint b);
            fill = jb_writePos b2 - jb_readPos b2
        in if fill < nFrames
           then (False, clear_slice dst, b2 \<lparr> jb_underruns := jb_underruns b2 + 1 \<rparr>)
           else let (dst', b3) = readPlay (accrueDebt b2) dst nFrames fill in (True, dst', b3))"

section \<open>Observer views\<close>

definition GetBehind :: "JitterBuffer \<Rightarrow> int" where
  "GetBehind b = (jb_writePos b - jb_readPos b) * jb_nc b"

definition StreamReadPos :: "JitterBuffer \<Rightarrow> int" where
  "StreamReadPos b = jb_readPos b"

record JitterBufferStats =
  FillFrames :: int
  SetpointFrames :: int
  WidthLowFrames :: int
  WidthHighFrames :: int
  RatePerSec :: rat
  Frozen :: bool
  Started :: bool
  Underruns :: int
  Laps :: int
  Overruns :: int
  Trims :: int
  SamplesDropped :: int
  SamplesInserted :: int

definition Snapshot :: "JitterBuffer \<Rightarrow> JitterBufferStats" where
  "Snapshot b = \<lparr> FillFrames = jb_writePos b - jb_readPos b, SetpointFrames = jb_setpoint b,
     WidthLowFrames = jb_curWL b, WidthHighFrames = jb_curWH b, RatePerSec = jb_curRate b,
     Frozen = jb_curFrozen b, Started = jb_readPos b > 0, Underruns = jb_underruns b,
     Laps = jb_laps b, Overruns = jb_overruns b, Trims = jb_trims b,
     SamplesDropped = jb_dropped b, SamplesInserted = jb_inserted b \<rparr>"

section \<open>What each step leaves alone\<close>

text \<open>Sensing never touches the geometry, the ring or the positions; placement touches only the read
  position, the pending trim, the window and the event counters.\<close>

definition jb_fixed :: "JitterBuffer \<Rightarrow> (int \<times> int \<times> int \<times> int \<times> int) \<times> (int \<times> int \<times> int \<times> rat \<times> rat) \<times> int \<times> int \<times> int" where
  "jb_fixed b = ((jb_capacity b, jb_w b, jb_r b, jb_nc b, jb_sr b),
     (jb_spBase b, jb_spMax b, jb_wlCap b, jb_kLow b, jb_rateCap b), jb_theta b, jb_freezeReads b, jb_flDecl b)"

definition jb_ring :: "JitterBuffer \<Rightarrow> int \<times> int \<times> rat list \<times> bool" where
  "jb_ring b = (jb_writePos b, jb_readPos b, jb_data b, jb_started b)"

definition jb_counts :: "JitterBuffer \<Rightarrow> int \<times> int \<times> int \<times> int \<times> int \<times> int" where
  "jb_counts b = (jb_underruns b, jb_laps b, jb_overruns b, jb_trims b, jb_dropped b, jb_inserted b)"

lemma fixed_eq: "jb_fixed b' = jb_fixed b \<longleftrightarrow>
    jb_capacity b' = jb_capacity b \<and> jb_w b' = jb_w b \<and> jb_r b' = jb_r b \<and> jb_nc b' = jb_nc b \<and>
    jb_sr b' = jb_sr b \<and> jb_spBase b' = jb_spBase b \<and> jb_spMax b' = jb_spMax b \<and>
    jb_wlCap b' = jb_wlCap b \<and> jb_kLow b' = jb_kLow b \<and> jb_rateCap b' = jb_rateCap b \<and>
    jb_theta b' = jb_theta b \<and> jb_freezeReads b' = jb_freezeReads b \<and> jb_flDecl b' = jb_flDecl b"
  by (auto simp: jb_fixed_def)

lemma ring_eq: "jb_ring b' = jb_ring b \<longleftrightarrow> jb_writePos b' = jb_writePos b \<and> jb_readPos b' = jb_readPos b \<and>
    jb_data b' = jb_data b \<and> jb_started b' = jb_started b"
  by (auto simp: jb_ring_def)

named_theorems jb_frame "which parts of the state an operation leaves alone"

lemma resetWindow_frame [jb_frame]:
  "jb_fixed (resetWindow b) = jb_fixed b" "jb_ring (resetWindow b) = jb_ring b" "jb_counts (resetWindow b) = jb_counts b"
  by (simp_all add: resetWindow_def jb_fixed_def jb_ring_def jb_counts_def)

lemma closeWidths_frame [jb_frame]:
  "jb_fixed (closeWidths b x y z) = jb_fixed b" "jb_ring (closeWidths b x y z) = jb_ring b"
  "jb_counts (closeWidths b x y z) = jb_counts b"
  by (simp_all add: closeWidths_def Let_def jb_fixed_def jb_ring_def jb_counts_def)

lemma pushFF_frame [jb_frame]:
  "jb_fixed (pushFF b x) = jb_fixed b" "jb_ring (pushFF b x) = jb_ring b" "jb_counts (pushFF b x) = jb_counts b"
  by (simp_all add: pushFF_def Let_def jb_fixed_def jb_ring_def jb_counts_def)

lemma update_frame [jb_frame]:
  "jb_fixed (b \<lparr> jb_setpoint := x1 \<rparr>) = jb_fixed b"
  "jb_ring (b \<lparr> jb_setpoint := x1 \<rparr>) = jb_ring b"
  "jb_counts (b \<lparr> jb_setpoint := x1 \<rparr>) = jb_counts b"
  "jb_fixed (b \<lparr> jb_pendingTrim := t \<rparr>) = jb_fixed b"
  "jb_ring (b \<lparr> jb_pendingTrim := t \<rparr>) = jb_ring b"
  "jb_counts (b \<lparr> jb_pendingTrim := t \<rparr>) = jb_counts b"
  "jb_fixed (b \<lparr> jb_ctrl := c, jb_rate := x, jb_curRate := y \<rparr>) = jb_fixed b"
  "jb_ring (b \<lparr> jb_ctrl := c, jb_rate := x, jb_curRate := y \<rparr>) = jb_ring b"
  "jb_counts (b \<lparr> jb_ctrl := c, jb_rate := x, jb_curRate := y \<rparr>) = jb_counts b"
  "jb_fixed (b \<lparr> jb_tick := tk \<rparr>) = jb_fixed b"
  "jb_ring (b \<lparr> jb_tick := tk \<rparr>) = jb_ring b"
  "jb_counts (b \<lparr> jb_tick := tk \<rparr>) = jb_counts b"
  "jb_fixed (b \<lparr> jb_rawBuf := rs, jb_virtBuf := vs \<rparr>) = jb_fixed b"
  "jb_ring (b \<lparr> jb_rawBuf := rs, jb_virtBuf := vs \<rparr>) = jb_ring b"
  "jb_counts (b \<lparr> jb_rawBuf := rs, jb_virtBuf := vs \<rparr>) = jb_counts b"
  by (simp_all add: jb_fixed_def jb_ring_def jb_counts_def)

lemma closeWindow_frame [jb_frame]:
  "jb_fixed (closeWindow b) = jb_fixed b" "jb_ring (closeWindow b) = jb_ring b" "jb_counts (closeWindow b) = jb_counts b"
  unfolding closeWindow_def Let_def by (simp_all add: jb_frame split: prod.splits)

lemma senseGap_frame [jb_frame]:
  "jb_fixed (senseGap b wp) = jb_fixed b" "jb_ring (senseGap b wp) = jb_ring b" "jb_counts (senseGap b wp) = jb_counts b"
  by (simp_all add: senseGap_def Let_def resetWindow_def jb_fixed_def jb_ring_def jb_counts_def)

lemma sense_frame [jb_frame]:
  "jb_fixed (sense b wp f) = jb_fixed b" "jb_ring (sense b wp f) = jb_ring b" "jb_counts (sense b wp f) = jb_counts b"
  unfolding sense_def Let_def by (simp_all add: jb_frame)

lemma place_frame [jb_frame]:
  "jb_fixed (readTrim b sp) = jb_fixed b" "jb_fixed (readValves b sp) = jb_fixed b"
  "jb_fixed (accrueDebt b) = jb_fixed b" "jb_ring (accrueDebt b) = jb_ring b"
  "jb_counts (accrueDebt b) = jb_counts b"
  "jb_fixed (Write b src) = jb_fixed b" "jb_counts (Write b src) = jb_counts b"
  by (simp_all add: readTrim_def readValves_def accrueDebt_def Write_def
      resetWindow_def Let_def jb_fixed_def jb_ring_def jb_counts_def split: prod.splits)

lemma readPlace_frame [jb_frame]: "jb_fixed (readPlace b sp) = jb_fixed b"
  by (simp add: readPlace_def Let_def jb_frame)

end
