(* ===== verification/Jitter_Safety.thy ===== *)
theory Jitter_Safety
  imports Jitter_Buffer
begin

text \<open>
  The invariant of the jitter buffer and its preservation. \<open>jb_geom\<close> is what construction fixes,
  \<open>jb_place\<close> relates the two positions, the ring and the setpoint, \<open>jb_sensing\<close> is the reader's
  estimator state. Every operation keeps all three; \<open>NewJitterBuffer\<close> establishes them for the
  configurations the engine uses.
\<close>

section \<open>The invariant\<close>

definition jb_geom :: "JitterBuffer \<Rightarrow> bool" where
  "jb_geom b \<longleftrightarrow> 0 < jb_w b \<and> 0 < jb_r b \<and> 0 < jb_nc b \<and> 0 < jb_sr b \<and>
     jb_w b + jb_r b \<le> jb_spBase b \<and> jb_spBase b \<le> jb_spMax b \<and>
     jb_spMax b \<le> jb_capacity b - (jb_w b + jb_r b) \<and>
     0 \<le> jb_wlCap b \<and> 0 \<le> jb_kLow b \<and> jb_rateCap b = v4RateCapPerSec \<and> 0 \<le> jb_theta b \<and>
     8 \<le> jb_freezeReads b"

definition jb_place :: "JitterBuffer \<Rightarrow> bool" where
  "jb_place b \<longleftrightarrow> 0 \<le> jb_readPos b \<and> jb_readPos b \<le> jb_writePos b \<and>
     length (jb_data b) = nat (jb_capacity b) * nat (jb_nc b) \<and>
     jb_spBase b \<le> jb_setpoint b \<and> jb_setpoint b \<le> jb_spMax b \<and> 0 \<le> jb_pendingTrim b"

definition jb_sensing :: "JitterBuffer \<Rightarrow> bool" where
  "jb_sensing b \<longleftrightarrow> \<bar>jb_rate b\<bar> \<le> v4RateCapPerSec \<and> \<bar>jb_debt b\<bar> \<le> v4MaxDebt \<and>
     length (jb_virtBuf b) = length (jb_rawBuf b) \<and>
     length (jb_wlHist b) = v4WidthHistory \<and> length (jb_whHist b) = v4WidthHistory \<and>
     (\<forall>v\<in>set (jb_wlHist b). 0 \<le> v) \<and> (\<forall>v\<in>set (jb_whHist b). 0 \<le> v) \<and>
     jb_histPos b < v4WidthHistory \<and> jb_histLen b \<le> v4WidthHistory \<and>
     length (jb_ffVals b) = length (jb_ffTicks b) \<and> length (jb_ffTicks b) \<le> v4WidthHistory \<and>
     0 \<le> jb_wl b \<and> 0 \<le> jb_wh b \<and> 0 \<le> jb_gapRun b \<and>
     jb_frozen b = (jb_gapRun b > jb_freezeReads b) \<and>
     (jb_frozen b \<longrightarrow> jb_rate b = 0 \<and> jb_debt b = 0) \<and>
     jb_curRate b = jb_rate b \<and> jb_curFrozen b = jb_frozen b"

definition jb_inv :: "JitterBuffer \<Rightarrow> bool" where
  "jb_inv b \<longleftrightarrow> jb_geom b \<and> jb_place b \<and> jb_sensing b"

lemma geom_fixed: "jb_fixed b' = jb_fixed b \<Longrightarrow> jb_geom b' = jb_geom b"
  by (auto simp: fixed_eq jb_geom_def)

lemma geom_capacity: "jb_geom b \<Longrightarrow> 0 < jb_capacity b"
  by (auto simp: jb_geom_def)

lemma geom_steps [jb_frame]:
  "jb_geom (resetWindow b) = jb_geom b" "jb_geom (closeWidths b x y z) = jb_geom b"
  "jb_geom (pushFF b x) = jb_geom b" "jb_geom (closeWindow b) = jb_geom b"
  "jb_geom (senseGap b wp) = jb_geom b" "jb_geom (sense b wp f) = jb_geom b"
  "jb_geom (readTrim b sp) = jb_geom b" "jb_geom (readValves b sp) = jb_geom b"
  "jb_geom (accrueDebt b) = jb_geom b" "jb_geom (readPlace b sp) = jb_geom b"
  "jb_geom (Write b src) = jb_geom b"
  by (rule geom_fixed, simp add: jb_frame)+

section \<open>The sensing state\<close>

lemma resetWindow_sensing: "jb_sensing b \<Longrightarrow> jb_sensing (resetWindow b)"
  by (simp add: jb_sensing_def resetWindow_def)

lemma update_nonneg:
  assumes "\<forall>v\<in>set xs. (0::int) \<le> v" "0 \<le> x"
  shows "\<forall>v\<in>set (xs[i := x]). 0 \<le> v"
proof
  fix v assume "v \<in> set (xs[i := x])"
  then have "v \<in> insert x (set xs)" using set_update_subset_insert[of xs i x] by blast
  then show "0 \<le> v" using assms by auto
qed

lemma rank_nonneg:
  assumes "\<forall>v\<in>set xs. (0::int) \<le> v" "0 \<le> x" "length xs = v4WidthHistory" "0 < k" "k \<le> v4WidthHistory"
  shows "\<exists>v\<ge>0. rankNth (take k (xs[i := x])) v4WidthRank = Some v"
proof -
  let ?h = "take k (xs[i := x])"
  have "0 < length ?h" using assms(3-5) by (simp add: v4WidthHistory_def)
  then have "?h \<noteq> []" by (metis length_greater_0_conv)
  moreover have nn: "0 \<le> v" if "v \<in> set ?h" for v
    using update_nonneg[OF assms(1,2)] in_set_takeD[OF that] by blast
  ultimately have "\<exists>v\<in>set ?h. rankNth ?h v4WidthRank = Some v"
    by (intro rankNth_mem) (auto simp: v4WidthRank_def dest: nn)
  then show ?thesis using nn by blast
qed

lemma closeWidths_sensing:
  assumes s: "jb_sensing b" and wl: "0 \<le> jb_wlCap b" and v: "minV \<le> medV" "medV \<le> maxV"
  shows "jb_sensing (closeWidths b medV minV maxV)"
proof -
  define k where "k = (if jb_histLen b < v4WidthHistory then jb_histLen b + 1 else jb_histLen b)"
  define lh where "lh = (jb_wlHist b)[jb_histPos b := min (medV - minV) (jb_wlCap b)]"
  define hh where "hh = (jb_whHist b)[jb_histPos b := maxV - medV]"
  define wl' where "wl' = max (int64f (the (rankNth (take k lh) v4WidthRank))) (sub64 (jb_wl b) (jb_narrowStep b))"
  define wh' where "wh' = max (int64f (the (rankNth (take k hh) v4WidthRank))) (sub64 (jb_wh b) (jb_narrowStep b))"
  have k: "0 < k" "k \<le> v4WidthHistory"
    using s by (auto simp: jb_sensing_def v4WidthHistory_def k_def)
  have m: "0 \<le> min (medV - minV) (jb_wlCap b)" "0 \<le> maxV - medV" using wl v by auto
  have hist: "\<forall>v\<in>set lh. 0 \<le> v" "\<forall>v\<in>set hh. 0 \<le> v"
    unfolding lh_def hh_def using s m by (intro update_nonneg; simp add: jb_sensing_def)+
  have hlen: "length lh = v4WidthHistory" "length hh = v4WidthHistory"
    using s by (simp_all add: jb_sensing_def lh_def hh_def)
  have "\<exists>v\<ge>0. rankNth (take k lh) v4WidthRank = Some v" "\<exists>v\<ge>0. rankNth (take k hh) v4WidthRank = Some v"
    unfolding lh_def hh_def using s k m by (intro rank_nonneg; simp add: jb_sensing_def)+
  then have "0 \<le> the (rankNth (take k lh) v4WidthRank)" "0 \<le> the (rankNth (take k hh) v4WidthRank)" by auto
  then have w: "0 \<le> wl'" "0 \<le> wh'"
    by (auto simp: wl'_def wh'_def int64f_def le_max_iff_disj intro!: f64_nonneg)
  have "closeWidths b medV minV maxV = b \<lparr> jb_wlHist := lh, jb_whHist := hh,
      jb_histPos := (jb_histPos b + 1) mod v4WidthHistory, jb_histLen := k,
      jb_wl := wl', jb_wh := wh', jb_curWL := trunc wl', jb_curWH := trunc wh' \<rparr>"
    unfolding closeWidths_def Let_def k_def lh_def hh_def wl'_def wh'_def ..
  then show ?thesis using s k hist hlen w
    by (simp only:) (simp add: jb_sensing_def v4WidthHistory_def)
qed

lemma pushFF_sensing: "jb_sensing b \<Longrightarrow> jb_sensing (pushFF b v)"
  by (auto simp: jb_sensing_def pushFF_def Let_def)

text \<open>A window is closed with at least one sample in it, so its statistics exist, and never while frozen.\<close>

lemma closeWindow_sensing:
  assumes s: "jb_sensing b" and g: "jb_geom b" and nf: "\<not> jb_frozen b" and ne: "jb_rawBuf b \<noteq> []"
  shows "jb_sensing (closeWindow b)"
proof -
  obtain medV minV maxV where w: "winStats (jb_virtBuf b) = (medV, minV, maxV)" by (metis prod_cases3)
  have "jb_virtBuf b \<noteq> []" using s ne by (auto simp: jb_sensing_def)
  then have "minV \<le> medV" "medV \<le> maxV" using winStats_min_median_max(4,5)[OF _ w] by auto
  then have s1: "jb_sensing (pushFF (closeWidths b medV minV maxV) medV)"
    using s g by (intro pushFF_sensing closeWidths_sensing) (auto simp: jb_geom_def)
  have nf1: "\<not> jb_frozen (pushFF (closeWidths b medV minV maxV) medV)"
    using nf by (simp add: pushFF_def closeWidths_def Let_def)
  have rc: "jb_rateCap (pushFF (closeWidths b medV minV maxV) medV) = v4RateCapPerSec"
    using g by (simp add: pushFF_def closeWidths_def Let_def jb_geom_def)
  show ?thesis
    using s1 nf1 unfolding closeWindow_def w Let_def prod.case
    by (simp add: rc jb_sensing_def resetWindow_def v4RateCapPerSec_def abs_le_iff split: prod.splits)
qed

lemma senseGap_sensing: "jb_sensing b \<Longrightarrow> 8 \<le> jb_freezeReads b \<Longrightarrow> jb_sensing (senseGap b wp)"
  by (auto simp: jb_sensing_def senseGap_def resetWindow_def Let_def v4_consts)

lemma sense_sensing:
  assumes "jb_sensing b" "jb_geom b"
  shows "jb_sensing (sense b wp f)"
proof -
  let ?b = "senseGap (b \<lparr> jb_tick := jb_tick b + 1 \<rparr>) wp"
  let ?c = "?b \<lparr> jb_rawBuf := jb_rawBuf ?b @ [f], jb_virtBuf := jb_virtBuf ?b @ [wp - jb_r ?b * jb_tick b] \<rparr>"
  have "jb_sensing (b \<lparr> jb_tick := jb_tick b + 1 \<rparr>)" "8 \<le> jb_freezeReads (b \<lparr> jb_tick := jb_tick b + 1 \<rparr>)"
    using assms by (simp_all add: jb_sensing_def jb_geom_def)
  then have s: "jb_sensing ?b" by (rule senseGap_sensing)
  have gt: "jb_geom (b \<lparr> jb_tick := jb_tick b + 1 \<rparr>)" using assms(2) by (simp add: jb_geom_def)
  have c: "jb_sensing ?c" using s by (simp add: jb_sensing_def)
  have g: "jb_geom ?c" using gt geom_fixed[of ?c ?b] by (simp add: jb_frame)
  have "\<not> jb_frozen ?b \<Longrightarrow> jb_sensing (closeWindow ?c)"
    using closeWindow_sensing[OF c g] by simp
  then show ?thesis using assms(1) s c by (simp add: sense_def Let_def)
qed

section \<open>Placement\<close>

lemma nextSetpoint_range:
  assumes "jb_geom b" "0 \<le> jb_wl b"
  shows "jb_spBase b \<le> nextSetpoint b" "nextSetpoint b \<le> jb_spMax b"
proof -
  have "0 \<le> jb_kLow b * jb_wl b" using assms by (simp add: jb_geom_def)
  then have "0 \<le> trunc (add64 (mul64 (jb_kLow b) (jb_wl b)) (1 / 2))"
    using f64_nonneg[of "jb_kLow b * jb_wl b"]
    by (auto simp: add64_def mul64_def intro!: trunc_nonneg f64_nonneg)
  then show "jb_spBase b \<le> nextSetpoint b" "nextSetpoint b \<le> jb_spMax b"
    using assms(1) by (auto simp: nextSetpoint_def jb_geom_def)
qed

lemma closeWindow_setpoint:
  assumes "winStats (jb_virtBuf b) = (medV, minV, maxV)"
  shows "jb_setpoint (closeWindow b) = nextSetpoint (pushFF (closeWidths b medV minV maxV) medV)"
  unfolding closeWindow_def assms Let_def prod.case by (simp add: resetWindow_def split: prod.splits)

lemma pendingTrim_close [simp]:
  "jb_pendingTrim (closeWidths b x y z) = jb_pendingTrim b" "jb_pendingTrim (pushFF b x) = jb_pendingTrim b"
  by (simp_all add: closeWidths_def pushFF_def Let_def)

lemma closeWindow_place:
  assumes i: "jb_geom b" "jb_place b" "jb_sensing b" and ne: "jb_rawBuf b \<noteq> []"
  shows "jb_place (closeWindow b)"
proof -
  obtain medV minV maxV where w: "winStats (jb_virtBuf b) = (medV, minV, maxV)" by (metis prod_cases3)
  have "jb_virtBuf b \<noteq> []" using i ne by (auto simp: jb_sensing_def)
  then have v: "minV \<le> medV" "medV \<le> maxV" using winStats_min_median_max(4,5)[OF _ w] by auto
  let ?c = "pushFF (closeWidths b medV minV maxV) medV"
  have "jb_sensing ?c"
    using v i by (intro pushFF_sensing closeWidths_sensing) (auto simp: jb_geom_def)
  then have wl: "0 \<le> jb_wl ?c" by (simp add: jb_sensing_def)
  have f: "jb_fixed ?c = jb_fixed b" by (simp add: jb_frame)
  then have g: "jb_geom ?c" using i(1) geom_fixed by blast
  have "jb_spBase b \<le> jb_setpoint (closeWindow b)" "jb_setpoint (closeWindow b) \<le> jb_spMax b"
    using nextSetpoint_range[OF g wl] closeWindow_setpoint[OF w] f by (simp_all add: fixed_eq)
  moreover have "0 \<le> jb_pendingTrim (closeWindow b)"
    using i(2) unfolding closeWindow_def Let_def
    by (simp add: jb_place_def resetWindow_def split: prod.splits)
  moreover have "jb_fixed (closeWindow b) = jb_fixed b" "jb_ring (closeWindow b) = jb_ring b"
    by (simp_all add: jb_frame)
  ultimately show ?thesis using i(2) by (simp add: jb_place_def fixed_eq ring_eq)
qed

lemma senseGap_setpoint [simp]: "jb_setpoint (senseGap b wp) = jb_setpoint b"
  "jb_pendingTrim (senseGap b wp) = jb_pendingTrim b"
  by (simp_all add: senseGap_def resetWindow_def Let_def)

lemma sense_inv:
  assumes "jb_inv b"
  shows "jb_inv (sense b wp f)"
proof -
  let ?t = "b \<lparr> jb_tick := jb_tick b + 1 \<rparr>"
  let ?b = "senseGap ?t wp"
  let ?c = "?b \<lparr> jb_rawBuf := jb_rawBuf ?b @ [f], jb_virtBuf := jb_virtBuf ?b @ [wp - jb_r ?b * jb_tick b] \<rparr>"
  have i: "jb_geom b" "jb_place b" "jb_sensing b" using assms by (auto simp: jb_inv_def)
  have t: "jb_geom ?t" "jb_sensing ?t" "8 \<le> jb_freezeReads ?t" "jb_place ?t"
    using i by (simp_all add: jb_geom_def jb_sensing_def jb_place_def)
  have s: "jb_sensing ?b" using t by (intro senseGap_sensing)
  have "jb_fixed ?b = jb_fixed ?t" "jb_ring ?b = jb_ring ?t" by (simp_all only: jb_frame)
  then have p: "jb_place ?b" using t(4) by (simp add: jb_place_def fixed_eq ring_eq)
  have c: "jb_sensing ?c" "jb_place ?c" using s p by (simp_all add: jb_sensing_def jb_place_def)
  have gc: "jb_geom ?c" using t(1) geom_fixed[of ?c ?t] by (simp add: jb_frame)
  have "jb_place (closeWindow ?c)" by (rule closeWindow_place[OF gc c(2,1)]) simp
  then have "jb_place (sense b wp f)" using p c i by (simp add: sense_def Let_def)
  then show ?thesis using i sense_sensing by (simp add: jb_inv_def jb_frame)
qed

text \<open>Moving a position or counting an event leaves the other parts of the invariant alone.\<close>

lemma sensing_upd [simp]:
  "jb_sensing (b \<lparr> jb_readPos := x0 \<rparr>) = jb_sensing b"
  "jb_sensing (b \<lparr> jb_started := x1 \<rparr>) = jb_sensing b"
  "jb_sensing (b \<lparr> jb_lastWp := x2 \<rparr>) = jb_sensing b"
  "jb_sensing (b \<lparr> jb_trims := x3 \<rparr>) = jb_sensing b"
  "jb_sensing (b \<lparr> jb_laps := x4 \<rparr>) = jb_sensing b"
  "jb_sensing (b \<lparr> jb_overruns := x5 \<rparr>) = jb_sensing b"
  "jb_sensing (b \<lparr> jb_pendingTrim := x6 \<rparr>) = jb_sensing b"
  "jb_sensing (b \<lparr> jb_underruns := x7 \<rparr>) = jb_sensing b"
  "jb_sensing (b \<lparr> jb_dropped := x8 \<rparr>) = jb_sensing b"
  "jb_sensing (b \<lparr> jb_inserted := x9 \<rparr>) = jb_sensing b"
  "jb_sensing (b \<lparr> jb_writePos := x10 \<rparr>) = jb_sensing b"
  "jb_sensing (b \<lparr> jb_data := x11 \<rparr>) = jb_sensing b"
  by (simp_all add: jb_sensing_def)

lemma geom_upd [simp]:
  "jb_geom (b \<lparr> jb_readPos := x0 \<rparr>) = jb_geom b"
  "jb_geom (b \<lparr> jb_started := x1 \<rparr>) = jb_geom b"
  "jb_geom (b \<lparr> jb_lastWp := x2 \<rparr>) = jb_geom b"
  "jb_geom (b \<lparr> jb_trims := x3 \<rparr>) = jb_geom b"
  "jb_geom (b \<lparr> jb_laps := x4 \<rparr>) = jb_geom b"
  "jb_geom (b \<lparr> jb_overruns := x5 \<rparr>) = jb_geom b"
  "jb_geom (b \<lparr> jb_pendingTrim := x6 \<rparr>) = jb_geom b"
  "jb_geom (b \<lparr> jb_underruns := x7 \<rparr>) = jb_geom b"
  "jb_geom (b \<lparr> jb_dropped := x8 \<rparr>) = jb_geom b"
  "jb_geom (b \<lparr> jb_inserted := x9 \<rparr>) = jb_geom b"
  "jb_geom (b \<lparr> jb_writePos := x10 \<rparr>) = jb_geom b"
  "jb_geom (b \<lparr> jb_data := x11 \<rparr>) = jb_geom b"
  by (simp_all add: jb_geom_def)

lemma place_upd [simp]:
  "jb_place (b \<lparr> jb_started := x0 \<rparr>) = jb_place b"
  "jb_place (b \<lparr> jb_lastWp := x1 \<rparr>) = jb_place b"
  "jb_place (b \<lparr> jb_trims := x2 \<rparr>) = jb_place b"
  "jb_place (b \<lparr> jb_laps := x3 \<rparr>) = jb_place b"
  "jb_place (b \<lparr> jb_overruns := x4 \<rparr>) = jb_place b"
  "jb_place (b \<lparr> jb_underruns := x5 \<rparr>) = jb_place b"
  "jb_place (b \<lparr> jb_dropped := x6 \<rparr>) = jb_place b"
  "jb_place (b \<lparr> jb_inserted := x7 \<rparr>) = jb_place b"
  by (simp_all add: jb_place_def)

lemma place_reset [simp]: "jb_place (resetWindow b) = jb_place b"
  by (simp add: jb_place_def resetWindow_def)

lemma place_readPos: "jb_place b \<Longrightarrow> 0 \<le> rp \<Longrightarrow> rp \<le> jb_writePos b \<Longrightarrow> jb_place (b \<lparr> jb_readPos := rp \<rparr>)"
  by (simp add: jb_place_def)

lemma place_trim: "jb_place b \<Longrightarrow> 0 \<le> t \<Longrightarrow> jb_place (b \<lparr> jb_pendingTrim := t \<rparr>)"
  by (simp add: jb_place_def)

lemma reset_fields [simp]:
  "jb_readPos (resetWindow b) = jb_readPos b" "jb_writePos (resetWindow b) = jb_writePos b"
  "jb_setpoint (resetWindow b) = jb_setpoint b" "jb_data (resetWindow b) = jb_data b"
  by (simp_all add: resetWindow_def)

lemma inv_bounds:
  assumes "jb_inv b"
  shows "0 \<le> jb_readPos b" "jb_readPos b \<le> jb_writePos b" "0 < jb_setpoint b"
    "jb_setpoint b \<le> jb_capacity b - (jb_w b + jb_r b)" "0 < jb_w b" "0 < jb_r b" "0 < jb_nc b"
  using assms by (auto simp: jb_inv_def jb_geom_def jb_place_def)

lemma readStartup_inv:
  assumes "jb_inv b" "readStartup b = Some b1"
  shows "jb_inv b1" "jb_readPos b \<le> jb_readPos b1" "jb_writePos b1 = jb_writePos b"
    "jb_setpoint b1 = jb_setpoint b" "jb_data b1 = jb_data b" "jb_fixed b1 = jb_fixed b"
  using assms inv_bounds[OF assms(1)]
  by (auto simp: readStartup_def jb_inv_def jb_fixed_def place_readPos split: if_splits)

text \<open>Trimming and the valves: the fill they leave is never below the setpoint they were given.\<close>

lemma readTrim_inv:
  assumes "jb_inv b" "sp = jb_setpoint b"
  shows "jb_inv (readTrim b sp)" "jb_readPos b \<le> jb_readPos (readTrim b sp)"
    "jb_writePos (readTrim b sp) = jb_writePos b" "jb_setpoint (readTrim b sp) = jb_setpoint b"
    "jb_data (readTrim b sp) = jb_data b"
    "min sp (jb_writePos b - jb_readPos b) \<le> jb_writePos b - jb_readPos (readTrim b sp)"
  using assms inv_bounds[OF assms(1)]
  by (auto simp: readTrim_def jb_inv_def Let_def jb_frame resetWindow_sensing place_readPos place_trim)

lemma readValves_inv:
  assumes "jb_inv b" "sp = jb_setpoint b"
  shows "jb_inv (readValves b sp)" "jb_readPos b \<le> jb_readPos (readValves b sp)"
    "jb_writePos (readValves b sp) = jb_writePos b" "jb_setpoint (readValves b sp) = jb_setpoint b"
    "jb_data (readValves b sp) = jb_data b"
    "jb_writePos b - jb_readPos (readValves b sp) \<le> jb_capacity b - (jb_w b + jb_r b)"
    "min sp (jb_writePos b - jb_readPos b) \<le> jb_writePos b - jb_readPos (readValves b sp)"
  using assms inv_bounds[OF assms(1)]
  by (auto simp: readValves_def jb_inv_def Let_def jb_frame resetWindow_sensing place_readPos)

lemma readPlace_inv:
  assumes "jb_inv b" "sp = jb_setpoint b"
  shows "jb_inv (readPlace b sp)" "jb_readPos b \<le> jb_readPos (readPlace b sp)"
    "jb_writePos (readPlace b sp) = jb_writePos b" "jb_data (readPlace b sp) = jb_data b"
    "jb_writePos b - jb_readPos (readPlace b sp) \<le> jb_capacity b - (jb_w b + jb_r b)"
    "min sp (jb_writePos b - jb_readPos b) \<le> jb_writePos b - jb_readPos (readPlace b sp)"
proof -
  let ?t = "readTrim b sp"
  let ?v = "readValves ?t sp"
  note t = readTrim_inv[OF assms]
  have "sp = jb_setpoint ?t" using t(4) assms(2) by simp
  note v = readValves_inv[OF t(1) this]
  have f: "jb_fixed ?t = jb_fixed b" by (simp add: jb_frame)
  have "jb_ring (readPlace b sp) = jb_ring ?v" by (simp add: readPlace_def Let_def jb_frame)
  then have r: "jb_readPos (readPlace b sp) = jb_readPos ?v" "jb_writePos (readPlace b sp) = jb_writePos ?v"
    "jb_data (readPlace b sp) = jb_data ?v" by (simp_all add: ring_eq)
  show "jb_inv (readPlace b sp)" by (simp add: readPlace_def Let_def sense_inv v(1))
  show "jb_readPos b \<le> jb_readPos (readPlace b sp)" using r t(2) v(2) by simp
  show "jb_writePos (readPlace b sp) = jb_writePos b" using r t(3) v(3) by simp
  show "jb_data (readPlace b sp) = jb_data b" using r t(5) v(5) by simp
  show "jb_writePos b - jb_readPos (readPlace b sp) \<le> jb_capacity b - (jb_w b + jb_r b)"
    using v(6) t(3) r f by (simp add: fixed_eq)
  show "min sp (jb_writePos b - jb_readPos b) \<le> jb_writePos b - jb_readPos (readPlace b sp)"
    using v(7) t(3,6) r by simp
qed

section \<open>Write and Read keep the invariant\<close>

lemma div_diff_mult:
  assumes "0 < c" "k \<le> n div c"
  shows "(n - k * c) div c = n div c - (k::nat)"
proof -
  have "n = n div c * c + n mod c" by simp
  then have "n - k * c = (n div c - k) * c + n mod c"
    using assms(2) by (metis add_diff_assoc2 diff_mult_distrib mult_le_mono1)
  then show ?thesis using assms(1) by simp
qed

lemma clipped_frames:
  assumes "jb_geom b" "clipped b src = (src', n)" "int (length src) sdiv jb_nc b \<noteq> 0"
  shows "0 < n" "n \<le> jb_capacity b" "nat n * nat (jb_nc b) \<le> length src'"
    "frames (nat (jb_nc b)) src' = drop (nat (int (length src) sdiv jb_nc b - n)) (frames (nat (jb_nc b)) src)"
    "length (frames (nat (jb_nc b)) src') = nat n"
proof -
  define nc where "nc = nat (jb_nc b)"
  have nc: "0 < nc" "jb_nc b = int nc" using assms(1) by (auto simp: nc_def jb_geom_def)
  have q: "int (length src) sdiv jb_nc b = int (length src div nc)"
    using nc by (simp add: sdiv_nonneg zdiv_int)
  define k where "k = length src div nc - nat (jb_capacity b)"
  have cap: "0 < jb_capacity b" using geom_capacity[OF assms(1)] .
  have n: "n = min (int (length src div nc)) (jb_capacity b)" and src': "src' = drop (k * nc) src"
    using assms(2) cap by (auto simp: clipped_def q Let_def k_def nc_def[symmetric] nat_diff_distrib split: if_splits)
  show "0 < n" "n \<le> jb_capacity b" using n assms(3) q cap by auto
  have kq: "k \<le> length src div nc" by (simp add: k_def)
  have len: "length src' div nc = length src div nc - k"
    using div_diff_mult[OF nc(1) kq] by (simp add: src')
  have nn: "nat n = length src div nc - k" using n cap by (auto simp: k_def min_def)
  show "nat n * nat (jb_nc b) \<le> length src'"
    using nn len div_times_less_eq_dividend[of "length src'" nc] by (simp add: nc_def[symmetric])
  show "length (frames (nat (jb_nc b)) src') = nat n" using nn len by (simp add: nc_def[symmetric])
  have kk: "nat (int (length src) sdiv jb_nc b - n) = k" using q n cap by (auto simp: k_def min_def nat_diff_distrib)
  show "frames (nat (jb_nc b)) src' = drop (nat (int (length src) sdiv jb_nc b - n)) (frames (nat (jb_nc b)) src)"
    unfolding nc_def[symmetric] kk
    using len by (intro nth_equalityI) (auto simp: src' frame_drop)
qed

lemma Write_fields:
  "jb_readPos (Write b src) = jb_readPos b" "jb_setpoint (Write b src) = jb_setpoint b"
  "jb_pendingTrim (Write b src) = jb_pendingTrim b"
  by (simp_all add: Write_def Let_def split: prod.splits)

lemma Write_inv:
  assumes "jb_inv b"
  shows "jb_inv (Write b src)"
proof (cases "int (length src) sdiv jb_nc b = 0")
  case True
  then show ?thesis using assms by (simp add: Write_def)
next
  case False
  obtain src' n where c: "clipped b src = (src', n)" by fastforce
  have g: "jb_geom b" and p: "jb_place b" and s: "jb_sensing b" using assms by (auto simp: jb_inv_def)
  note n = clipped_frames[OF g c False]
  have "length (writeToRing (jb_capacity b) (nat (jb_nc b)) (jb_data b) src' (jb_writePos b) n) = length (jb_data b)"
    using geom_capacity[OF g] p by (intro length_writeToRing) (auto simp: jb_place_def)
  then have "jb_place (Write b src)" using p n(1) False c by (simp add: Write_def jb_place_def Let_def)
  moreover have "jb_sensing (Write b src)" using s False c by (simp add: Write_def Let_def)
  ultimately show ?thesis using g by (simp add: jb_inv_def jb_frame)
qed

lemma accrueDebt_inv:
  assumes "jb_inv b"
  shows "jb_inv (accrueDebt b)"
proof -
  have "jb_place (accrueDebt b)" using assms
    by (simp add: accrueDebt_def jb_inv_def jb_place_def Let_def)
  moreover have "jb_sensing (accrueDebt b)" using assms
    by (auto simp: accrueDebt_def jb_inv_def jb_sensing_def Let_def v4_consts)
  ultimately show ?thesis using assms by (simp add: jb_inv_def jb_frame)
qed

lemma f64_step_down: "1 \<le> d \<Longrightarrow> d \<le> 3 / 2 \<Longrightarrow> 0 \<le> sub64 d 1 \<and> sub64 d 1 \<le> 1 / 2"
proof -
  assume d: "1 \<le> d" "d \<le> 3 / 2"
  have "f64 (1 / 2) = 1 / 2" by code_simp
  then show ?thesis using d f64_mono[of "d - 1" "1 / 2"] f64_nonneg[of "d - 1"] by (simp add: sub64_def)
qed

lemma f64_step_up: "d \<le> - 1 \<Longrightarrow> - (3 / 2) \<le> d \<Longrightarrow> - (1 / 2) \<le> add64 d 1 \<and> add64 d 1 \<le> 0"
proof -
  assume d: "d \<le> - 1" "- (3 / 2) \<le> d"
  have "f64 (- (1 / 2)) = - (1 / 2)" by code_simp
  then show ?thesis using d f64_mono[of "- (1 / 2)" "d + 1"] f64_nonpos[of "d + 1"] by (simp add: add64_def)
qed

lemma readPlay_inv:
  assumes "jb_inv b" "readPlay b dst n fill = (dst', b')" "0 < n" "n \<le> fill" "fill = jb_writePos b - jb_readPos b"
  shows "jb_inv b'" "jb_readPos b < jb_readPos b'" "jb_writePos b' = jb_writePos b" "jb_data b' = jb_data b"
    "jb_fixed b' = jb_fixed b"
proof -
  have g: "jb_geom b" and p: "jb_place b" and s: "jb_sensing b" using assms(1) by (auto simp: jb_inv_def)
  have debt: "\<bar>jb_debt b\<bar> \<le> 3 / 2" "jb_frozen b \<longrightarrow> jb_debt b = 0" using s by (auto simp: jb_sensing_def v4MaxDebt_def)
  have sd: "jb_sensing (b \<lparr> jb_debt := d \<rparr>)" if "\<bar>d\<bar> \<le> 1 / 2" "\<not> jb_frozen b" for d
    using s that by (simp add: jb_sensing_def v4MaxDebt_def)
  have "jb_inv b' \<and> jb_readPos b < jb_readPos b' \<and> jb_writePos b' = jb_writePos b \<and>
      jb_data b' = jb_data b \<and> jb_fixed b' = jb_fixed b"
  proof (cases "jb_debt b \<ge> 1 \<and> fill \<ge> n + 1")
    case True
    then have "\<bar>sub64 (jb_debt b) 1\<bar> \<le> 1 / 2" "\<not> jb_frozen b" using f64_step_down[of "jb_debt b"] debt by auto
    from sd[OF this] show ?thesis using True assms g p
      by (auto simp: readPlay_def Let_def jb_inv_def jb_place_def jb_geom_def jb_fixed_def)
  next
    case F: False
    show ?thesis
    proof (cases "jb_debt b \<le> - 1 \<and> n \<ge> 2")
      case True
      then have "\<bar>add64 (jb_debt b) 1\<bar> \<le> 1 / 2" "\<not> jb_frozen b" using f64_step_up[of "jb_debt b"] debt by auto
      from sd[OF this] show ?thesis using True F assms g p
        by (auto simp: readPlay_def Let_def jb_inv_def jb_place_def jb_geom_def jb_fixed_def)
    next
      case False
      then show ?thesis using F assms g p s
        by (auto simp: readPlay_def Let_def jb_inv_def jb_place_def jb_fixed_def)
    qed
  qed
  then show "jb_inv b'" "jb_readPos b < jb_readPos b'" "jb_writePos b' = jb_writePos b" "jb_data b' = jb_data b"
    "jb_fixed b' = jb_fixed b" by auto
qed

text \<open>One case distinction serves every property of \<open>Read\<close>: no frame asked for, still silent before
  start, underrun, or a played block.\<close>

lemma Read_cases:
  assumes "jb_inv b" "Read b dst = (ok, dst', b')" "n = int (length dst) sdiv jb_nc b"
  obtains (none) "n = 0" "ok" "dst' = dst" "b' = b"
  | (silent) "n \<noteq> 0" "readStartup b = None" "\<not> ok" "dst' = clear_slice dst" "b' = b"
  | (underrun) b1 b2 where "n \<noteq> 0" "readStartup b = Some b1" "b2 = readPlace b1 (jb_setpoint b1)"
      "jb_writePos b2 - jb_readPos b2 < n" "\<not> ok" "dst' = clear_slice dst"
      "b' = b2 \<lparr> jb_underruns := jb_underruns b2 + 1 \<rparr>"
  | (play) b1 b2 where "n \<noteq> 0" "readStartup b = Some b1" "b2 = readPlace b1 (jb_setpoint b1)"
      "n \<le> jb_writePos b2 - jb_readPos b2" "ok"
      "readPlay (accrueDebt b2) dst n (jb_writePos b2 - jb_readPos b2) = (dst', b')"
proof (cases "n = 0")
  case True
  then have "Read b dst = (True, dst, b)" unfolding Read_def Let_def assms(3) by simp
  with True assms(2) show ?thesis by (intro none) auto
next
  case nz: False
  show ?thesis
  proof (cases "readStartup b")
    case None
    then have "Read b dst = (False, clear_slice dst, b)"
      using nz unfolding Read_def Let_def assms(3) by simp
    with nz None assms(2) show ?thesis by (intro silent) auto
  next
    case (Some b1)
    have sp: "jb_setpoint b1 = jb_setpoint b" using readStartup_inv(4)[OF assms(1) Some] .
    define b2 where "b2 = readPlace b1 (jb_setpoint b1)"
    have r: "(ok, dst', b') = (if jb_writePos b2 - jb_readPos b2 < n
        then (False, clear_slice dst, b2 \<lparr> jb_underruns := jb_underruns b2 + 1 \<rparr>)
        else (True, readPlay (accrueDebt b2) dst n (jb_writePos b2 - jb_readPos b2)))"
      unfolding assms(2)[symmetric] Read_def Let_def b2_def using nz Some sp
      by (simp add: assms(3) split_beta)
    show ?thesis
    proof (cases "jb_writePos b2 - jb_readPos b2 < n")
      case True
      show ?thesis using r True by (intro underrun[OF nz Some b2_def]) auto
    next
      case False
      show ?thesis using r False by (intro play[OF nz Some b2_def]) auto
    qed
  qed
qed

lemma nFrames_nonneg: "jb_inv b \<Longrightarrow> 0 \<le> int (length dst) sdiv jb_nc b"
  by (simp add: jb_inv_def jb_geom_def sdiv_nonneg pos_imp_zdiv_nonneg_iff)

lemma Read_inv:
  assumes "jb_inv b" "Read b dst = (ok, dst', b')"
  shows "jb_inv b'" "jb_readPos b \<le> jb_readPos b'" "jb_writePos b' = jb_writePos b" "jb_data b' = jb_data b"
    "jb_fixed b' = jb_fixed b"
proof -
  have "jb_inv b' \<and> jb_readPos b \<le> jb_readPos b' \<and> jb_writePos b' = jb_writePos b \<and> jb_data b' = jb_data b \<and>
    jb_fixed b' = jb_fixed b"
    using assms
  proof (cases rule: Read_cases[OF assms refl])
    case (3 b1 b2)
    note b1 = readStartup_inv[OF assms(1) 3(2)] and b2 = readPlace_inv[OF readStartup_inv(1)[OF assms(1) 3(2)] refl]
    have "jb_fixed b2 = jb_fixed b1" by (simp add: 3(3) jb_frame)
    moreover have "jb_inv b'" using b2(1) 3(3,7) by (simp add: jb_inv_def)
    ultimately show ?thesis using b1 b2 3 by (simp add: jb_fixed_def)
  next
    case (4 b1 b2)
    note b1 = readStartup_inv[OF assms(1) 4(2)] and b2 = readPlace_inv[OF readStartup_inv(1)[OF assms(1) 4(2)] refl]
    have i: "jb_inv (accrueDebt b2)" using accrueDebt_inv b2(1) 4(3) by simp
    have r: "jb_ring (accrueDebt b2) = jb_ring b2" "jb_fixed (accrueDebt b2) = jb_fixed b2" by (simp_all add: jb_frame)
    have "0 < int (length dst) sdiv jb_nc b" using nFrames_nonneg[OF assms(1), of dst] 4(1) by simp
    from readPlay_inv[OF i 4(6) this 4(4)] have
      "jb_inv b'" "jb_readPos b2 < jb_readPos b'" "jb_writePos b' = jb_writePos b2" "jb_data b' = jb_data b2"
      "jb_fixed b' = jb_fixed b2" using r by (simp_all add: ring_eq)
    moreover have "jb_fixed b2 = jb_fixed b1" by (simp add: 4(3) jb_frame)
    ultimately show ?thesis using b1 b2 4(3) by simp
  qed auto
  then show "jb_inv b'" "jb_readPos b \<le> jb_readPos b'" "jb_writePos b' = jb_writePos b" "jb_data b' = jb_data b"
    "jb_fixed b' = jb_fixed b" by auto
qed

end
