(* ===== verification/Jitter_Stream.thy ===== *)
theory Jitter_Stream
  imports Jitter_Safety
begin

text \<open>
  What the jitter buffer promises: construction gives a buffer in the invariant; the ring holds the
  tail of the written stream (the \<open>frame_ring\<close> contract, interpreted here); and a block that \<open>Read\<close>
  returns is a stretch of that stream, unaltered or with one frame removed or added.
\<close>

section \<open>Construction\<close>

lemma msToFrames_nonneg: "0 \<le> sr \<Longrightarrow> 0 \<le> ms \<Longrightarrow> 0 \<le> msToFrames sr ms"
  by (auto simp: msToFrames_def div64_def mul64_def int64f_def intro!: trunc_nonneg f64_nonneg divide_nonneg_nonneg mult_nonneg_nonneg)

lemma scaled_nonneg: "0 \<le> k \<Longrightarrow> 0 \<le> i \<Longrightarrow> 0 \<le> trunc (mul64 k (int64f i)) \<and> 0 \<le> trunc (mul64 (int64f i) k)"
  by (auto simp: mul64_def int64f_def intro!: trunc_nonneg f64_nonneg mult_nonneg_nonneg)

lemma cfg_positive:
  assumes "0 \<le> SampleRate cfg"
  shows "0 < cfg_sr cfg" "1 \<le> cfg_kappa cfg" "0 \<le> cfg_wlCap cfg" "0 \<le> cfg_whCap cfg"
    "0 \<le> cfg_kLow cfg" "0 \<le> cfg_kHigh cfg"
proof -
  show sr: "0 < cfg_sr cfg" and k: "1 \<le> cfg_kappa cfg" using assms by (auto simp: cfg_sr_def cfg_kappa_def)
  have m: "0 \<le> msToFrames (cfg_sr cfg) v4WidthLowMax" "0 \<le> msToFrames (cfg_sr cfg) v4WidthHighMax"
    using sr by (auto intro!: msToFrames_nonneg simp: v4WidthLowMax_def v4WidthHighMax_def)
  then show "0 \<le> cfg_wlCap cfg" "0 \<le> cfg_whCap cfg"
    using k scaled_nonneg[of "cfg_kappa cfg"] by (auto simp: cfg_wlCap_def cfg_whCap_def)
  show "0 \<le> cfg_kLow cfg" "0 \<le> cfg_kHigh cfg"
    using k f64_nonneg[of "6 / 5"] by (auto simp: cfg_kLow_def cfg_kHigh_def mul64_def v4KLow_def v4KHigh_def intro!: f64_nonneg)
qed

lemma cfg_setpoints:
  assumes "0 \<le> SampleRate cfg" "0 < cfg_w cfg" "0 < cfg_r cfg"
  shows "cfg_w cfg + cfg_r cfg \<le> cfg_spBase cfg" "cfg_spBase cfg \<le> cfg_spMax cfg" "cfg_spBase cfg \<le> cfg_spMax0 cfg"
    "durToFrames (cfg_sr cfg) (Capacity cfg) = 0 \<or> cfg_spBase cfg + cfg_w cfg + cfg_r cfg \<le> cfg_capacity cfg \<Longrightarrow>
      cfg_spMax cfg \<le> cfg_capacity cfg - (cfg_w cfg + cfg_r cfg)"
proof -
  note p = cfg_positive[OF assms(1)]
  show b: "cfg_w cfg + cfg_r cfg \<le> cfg_spBase cfg" by (simp add: cfg_spBase_def)
  have "0 \<le> trunc (mul64 (cfg_kLow cfg) (int64f (cfg_wlCap cfg)))" using scaled_nonneg p by blast
  then show m: "cfg_spBase cfg \<le> cfg_spMax0 cfg" by (simp add: cfg_spMax0_def)
  then show "cfg_spBase cfg \<le> cfg_spMax cfg" by (simp add: cfg_spMax_def Let_def)
  assume c: "durToFrames (cfg_sr cfg) (Capacity cfg) = 0 \<or> cfg_spBase cfg + cfg_w cfg + cfg_r cfg \<le> cfg_capacity cfg"
  have h: "0 \<le> trunc (mul64 (cfg_kHigh cfg) (int64f (cfg_whCap cfg)))" using scaled_nonneg p by blast
  have "cfg_spBase cfg + cfg_w cfg + cfg_r cfg \<le> cfg_capacity cfg"
    using c h m b assms(2,3) by (auto simp: cfg_capacity_def Let_def)
  then show "cfg_spMax cfg \<le> cfg_capacity cfg - (cfg_w cfg + cfg_r cfg)"
    using assms(2,3) by (auto simp: cfg_spMax_def Let_def)
qed

lemma NewJitterBuffer_inv:
  assumes "NewJitterBuffer cfg = Inr b" "0 \<le> SampleRate cfg" "0 \<le> NumChannels cfg"
    and "durToFrames (cfg_sr cfg) (Capacity cfg) = 0 \<or> cfg_spBase cfg + cfg_w cfg + cfg_r cfg \<le> cfg_capacity cfg"
  shows "jb_inv b" "jb_writePos b = 0" "jb_readPos b = 0"
proof -
  have wr: "0 < cfg_w cfg" "0 < cfg_r cfg" using assms(1) by (auto simp: NewJitterBuffer_def split: if_splits)
  have nc: "0 < cfg_nc cfg" using assms(3) by (simp add: cfg_nc_def)
  note p = cfg_positive[OF assms(2)] and s = cfg_setpoints[OF assms(2) wr]
  have th: "0 \<le> cfg_theta cfg" using wr by (simp add: cfg_theta_def v4RateCapPerSec_def v4WindowSec_def trunc_def)
  have cap: "0 < cfg_capacity cfg" using s(1,2) s(4)[OF assms(4)] wr by linarith
  have geo: "jb_geom b" using assms(1) wr nc p th s(1,2) s(4)[OF assms(4)]
    by (auto simp: NewJitterBuffer_def jb_geom_def split: if_splits)
  have "jb_place b" using assms(1) s(1,2) wr cap nc
    by (auto simp: NewJitterBuffer_def jb_place_def nat_mult_distrib split: if_splits)
  moreover have "jb_sensing b" using assms(1)
    by (auto simp: NewJitterBuffer_def jb_sensing_def v4RateCapPerSec_def v4MaxDebt_def v4WidthHistory_def split: if_splits)
  ultimately show "jb_inv b" using geo by (simp add: jb_inv_def)
  show "jb_writePos b = 0" "jb_readPos b = 0" using assms(1) by (auto simp: NewJitterBuffer_def split: if_splits)
qed

text \<open>With a derived capacity construction cannot fail once both frame sizes are positive.\<close>

lemma NewJitterBuffer_total:
  assumes "0 \<le> SampleRate cfg" "0 \<le> NumChannels cfg" "0 \<le> Capacity cfg"
  shows "(\<exists>b. NewJitterBuffer cfg = Inr b) \<longleftrightarrow> 0 < cfg_w cfg \<and> 0 < cfg_r cfg"
proof
  assume "\<exists>b. NewJitterBuffer cfg = Inr b"
  then show "0 < cfg_w cfg \<and> 0 < cfg_r cfg" by (auto simp: NewJitterBuffer_def split: if_splits)
next
  assume wr: "0 < cfg_w cfg \<and> 0 < cfg_r cfg"
  note p = cfg_positive[OF assms(1)]
  have "0 \<le> durToFrames (cfg_sr cfg) (Capacity cfg)"
    using assms(3) p(1) by (simp add: durToFrames_def second_ns_def sdiv_nonneg pos_imp_zdiv_nonneg_iff)
  moreover have "0 \<le> trunc (mul64 (cfg_kHigh cfg) (int64f (cfg_whCap cfg)))" using scaled_nonneg p by blast
  moreover have "0 \<le> cfg_spMax0 cfg" using cfg_setpoints[OF assms(1)] wr by fastforce
  ultimately have "0 \<le> cfg_capacity cfg" using wr by (auto simp: cfg_capacity_def Let_def)
  moreover have "0 \<le> cfg_nc cfg" using assms(2) by (simp add: cfg_nc_def)
  moreover have "0 \<le> cfg_windowReads cfg" using p(1) wr
    by (auto simp: cfg_windowReads_def div64_def mul64_def int64f_def v4WindowSec_def
        intro!: trunc_nonneg f64_nonneg divide_nonneg_nonneg mult_nonneg_nonneg)
  ultimately show "\<exists>b. NewJitterBuffer cfg = Inr b" using wr
    by (auto simp: NewJitterBuffer_def not_less mult_nonneg_nonneg)
qed

section \<open>The ring holds the stream\<close>

definition jb_payload :: "JitterBuffer \<Rightarrow> rat list \<Rightarrow> rat list list" where
  "jb_payload b src = frames (nat (jb_nc b)) (fst (clipped b src))"

definition jb_peek :: "JitterBuffer \<Rightarrow> int \<Rightarrow> rat list" where
  "jb_peek b p = ringFrame (jb_capacity b) (nat (jb_nc b)) (jb_data b) p"

lemma Write_split:
  assumes "jb_inv b"
  obtains "jb_payload b src = []" "Write b src = b"
  | src' n where "clipped b src = (src', n)" "0 < n" "n \<le> jb_capacity b"
      "nat n * nat (jb_nc b) \<le> length src'" "length (jb_payload b src) = nat n"
      "\<And>i. i < nat n \<Longrightarrow> jb_payload b src ! i = frame (nat (jb_nc b)) src' i"
      "Write b src = b \<lparr> jb_data := writeToRing (jb_capacity b) (nat (jb_nc b)) (jb_data b) src' (jb_writePos b) n,
         jb_writePos := jb_writePos b + n \<rparr>"
proof (cases "int (length src) sdiv jb_nc b = 0")
  case True
  have nc: "0 < jb_nc b" "jb_nc b = int (nat (jb_nc b))" and cap: "0 < jb_capacity b"
    using assms geom_capacity by (auto simp: jb_inv_def jb_geom_def)
  have "length src div nat (jb_nc b) = 0"
    using True nc by (metis int_ops(1) nat_int sdiv_nonneg zdiv_int of_nat_0_le_iff)
  moreover have "clipped b src = (src, 0)" using True cap by (simp add: clipped_def)
  ultimately show ?thesis using True that(1) by (simp add: Write_def jb_payload_def frames_def)
next
  case False
  obtain src' n where c: "clipped b src = (src', n)" by fastforce
  have g: "jb_geom b" using assms by (simp add: jb_inv_def)
  note f = clipped_frames[OF g c False]
  have p: "jb_payload b src = frames (nat (jb_nc b)) src'" by (simp add: jb_payload_def c)
  show ?thesis
  proof (rule that(2)[OF c f(1-3)])
    show "length (jb_payload b src) = nat n" using f(5) p by simp
    show "jb_payload b src ! i = frame (nat (jb_nc b)) src' i" if "i < nat n" for i
      using that f(5) p by simp
    show "Write b src = b \<lparr> jb_data := writeToRing (jb_capacity b) (nat (jb_nc b)) (jb_data b) src' (jb_writePos b) n,
         jb_writePos := jb_writePos b + n \<rparr>"
      using False c by (simp add: Write_def Let_def)
  qed
qed

lemma slot_of:
  assumes "0 < (cap::int)" "0 \<le> wp" "0 \<le> p" "wp + n - cap \<le> p" "p < wp + n" "0 < n" "n \<le> cap"
  shows "(int (nat (p smod cap)) - wp) mod cap = (if wp \<le> p then p - wp else p - wp + cap)"
    and "nat (p smod cap) < nat cap"
proof -
  have s: "p smod cap = p mod cap" using assms by (intro smod_slot)
  then show "nat (p smod cap) < nat cap" using assms(1) by simp
  have "(int (nat (p smod cap)) - wp) mod cap = (p - wp) mod cap"
    using assms(1) s by (simp add: mod_diff_left_eq)
  also have "\<dots> = (if wp \<le> p then p - wp else p - wp + cap)"
    using assms mod_add_self2[of "p - wp" cap] by (auto simp del: mod_add_self2)
  finally show "(int (nat (p smod cap)) - wp) mod cap = (if wp \<le> p then p - wp else p - wp + cap)" .
qed

lemma peek_Write:
  assumes i: "jb_inv b" and p: "0 \<le> p" "jb_writePos (Write b src) - jb_capacity b \<le> p" "p < jb_writePos (Write b src)"
  shows "jb_peek (Write b src) p =
    (if jb_writePos b \<le> p then jb_payload b src ! nat (p - jb_writePos b) else jb_peek b p)"
proof (cases rule: Write_split[OF i, of src])
  case 1
  then show ?thesis using p by simp
next
  case (2 src' n)
  have cap: "0 < jb_capacity b" and wp: "0 \<le> jb_writePos b" and len: "length (jb_data b) = nat (jb_capacity b) * nat (jb_nc b)"
    using i geom_capacity by (auto simp: jb_inv_def jb_place_def)
  have w: "jb_writePos (Write b src) = jb_writePos b + n" by (simp add: 2(7))
  note sl = slot_of[OF cap wp p(1), of n]
  have s: "(int (nat (p smod jb_capacity b)) - jb_writePos b) mod jb_capacity b =
      (if jb_writePos b \<le> p then p - jb_writePos b else p - jb_writePos b + jb_capacity b)"
    "nat (p smod jb_capacity b) < nat (jb_capacity b)" using sl p(2,3) w 2(2,3) by auto
  show ?thesis
    using frame_writeToRing[OF cap len wp _ 2(3) 2(4) s(2)] 2(2) p w s(1) 2(6)[of "nat (p - jb_writePos b)"]
    by (auto simp: jb_peek_def ringFrame_def 2(7))
qed

interpretation jring: uniform_ring Write jb_payload jb_peek jb_writePos jb_capacity jb_inv
proof
  fix s x p
  show "jb_inv s \<Longrightarrow> jb_inv (Write s x)" by (rule Write_inv)
  have f: "jb_fixed (Write s x) = jb_fixed s" by (simp add: jb_frame)
  then show "jb_capacity (Write s x) = jb_capacity s" by (simp add: fixed_eq)
  show "jb_payload (Write s x) = jb_payload s"
    using f by (auto simp: fun_eq_iff jb_payload_def clipped_def fixed_eq Let_def)
  assume i: "jb_inv s"
  show "jb_writePos (Write s x) = jb_writePos s + int (length (jb_payload s x))"
    by (cases rule: Write_split[OF i, of x]) auto
  show "int (length (jb_payload s x)) \<le> jb_capacity s"
    using i geom_capacity[of s] by (cases rule: Write_split[OF i, of x]) (auto simp: jb_inv_def)
  show "0 \<le> jb_writePos s" using inv_bounds[OF i] by simp
next
  fix s x p
  assume i: "jb_inv s" and p: "jb_writePos s \<le> p" "p < jb_writePos s + int (length (jb_payload s x))"
  have "jb_writePos (Write s x) = jb_writePos s + int (length (jb_payload s x))"
    "int (length (jb_payload s x)) \<le> jb_capacity s"
    using i geom_capacity[of s] by (cases rule: Write_split[OF i, of x]; auto simp: jb_inv_def)+
  then show "jb_peek (Write s x) p = jb_payload s x ! nat (p - jb_writePos s)"
    using peek_Write[OF i, of p x] inv_bounds(1,2)[OF i] p by auto
next
  fix s x p
  assume i: "jb_inv s" and p: "0 \<le> p" "jb_writePos s + int (length (jb_payload s x)) - jb_capacity s \<le> p" "p < jb_writePos s"
  have "jb_writePos (Write s x) = jb_writePos s + int (length (jb_payload s x))"
    by (cases rule: Write_split[OF i, of x]) auto
  then show "jb_peek (Write s x) p = jb_peek s p" using peek_Write[OF i, of p x] p by auto
qed

section \<open>What Read plays\<close>

text \<open>The stream view of a played block of \<open>n\<close> frames from position \<open>p\<close>: straight, with the frames
  \<open>p + c\<close> and \<open>p + c + 1\<close> merged into their average, or with the average of \<open>p + c - 1\<close> and \<open>p + c\<close>
  added between them.\<close>

definition playStraight :: "rat list list \<Rightarrow> nat \<Rightarrow> nat \<Rightarrow> rat list list" where
  "playStraight S p n = take n (drop p S)"

definition playDrop :: "rat list list \<Rightarrow> nat \<Rightarrow> nat \<Rightarrow> nat \<Rightarrow> rat list list" where
  "playDrop S p n c = take c (drop p S) @ [avgFrame (S ! (p + c)) (S ! (p + c + 1))] @ take (n - c - 1) (drop (p + c + 2) S)"

definition playInsert :: "rat list list \<Rightarrow> nat \<Rightarrow> nat \<Rightarrow> nat \<Rightarrow> rat list list" where
  "playInsert S p n c = take c (drop p S) @ [avgFrame (S ! (p + c - 1)) (S ! (p + c))] @ take (n - c - 1) (drop (p + c) S)"

text \<open>\<open>plays S p out q\<close>: the block \<open>out\<close> is played from position \<open>p\<close> and leaves the reader at \<open>q\<close>.\<close>

definition plays :: "rat list list \<Rightarrow> nat \<Rightarrow> rat list list \<Rightarrow> nat \<Rightarrow> bool" where
  "plays S p out q \<longleftrightarrow> (let n = length out in
     (p + n \<le> length S \<and> out = playStraight S p n \<and> q = p + n) \<or>
     (\<exists>c<n. p + n + 1 \<le> length S \<and> out = playDrop S p n c \<and> q = p + n + 1) \<or>
     (\<exists>c<n. 1 \<le> c \<and> p + n \<le> length S \<and> out = playInsert S p n c \<and> q = p + n - 1))"

definition jb_holds :: "JitterBuffer \<Rightarrow> rat list list \<Rightarrow> bool" where
  "jb_holds b S \<longleftrightarrow> jb_writePos b = int (length S) \<and>
    (\<forall>p. 0 \<le> p \<longrightarrow> jb_writePos b - jb_capacity b \<le> p \<longrightarrow> p < jb_writePos b \<longrightarrow> jb_peek b p = S ! nat p)"

lemma jb_holds_jring: "jb_holds = jring.holds"
  by (simp add: fun_eq_iff jb_holds_def jring.holds_def)

text \<open>A read about to play \<open>n\<close> frames of \<open>S\<close> into \<open>dst\<close>, and what that fixes about the ring.\<close>

definition at_block :: "JitterBuffer \<Rightarrow> rat list list \<Rightarrow> int \<Rightarrow> rat list \<Rightarrow> bool" where
  "at_block b S n dst \<longleftrightarrow> jb_inv b \<and> jb_holds b S \<and> 0 < n \<and> n \<le> jb_writePos b - jb_readPos b \<and>
     jb_writePos b - jb_readPos b \<le> jb_capacity b \<and> length dst = nat n * nat (jb_nc b)"

lemma at_block_facts:
  assumes "at_block b S n dst"
  shows "0 < jb_capacity b" "length (jb_data b) = nat (jb_capacity b) * nat (jb_nc b)" "0 \<le> jb_readPos b"
    "0 < nat (jb_nc b)" "length S = nat (jb_readPos b) + nat (jb_writePos b - jb_readPos b)"
    "nat (jb_readPos b) + nat n \<le> length S"
proof -
  have i: "jb_inv b" and h: "jb_holds b S" and n: "0 < n" "n \<le> jb_writePos b - jb_readPos b"
    using assms by (auto simp: at_block_def)
  show "0 < jb_capacity b" "length (jb_data b) = nat (jb_capacity b) * nat (jb_nc b)" "0 \<le> jb_readPos b"
    "0 < nat (jb_nc b)" using i geom_capacity by (auto simp: jb_inv_def jb_place_def jb_geom_def)
  show S: "length S = nat (jb_readPos b) + nat (jb_writePos b - jb_readPos b)"
    using h inv_bounds(1,2)[OF i] by (simp add: jb_holds_def nat_diff_distrib)
  show "nat (jb_readPos b) + nat n \<le> length S" using S n by linarith
qed

lemma at_block_frame:
  assumes "at_block b S n dst" "nat (jb_readPos b) + j < length S"
  shows "ringFrame (jb_capacity b) (nat (jb_nc b)) (jb_data b) (jb_readPos b + int j) = S ! (nat (jb_readPos b) + j)"
proof -
  note f = at_block_facts[OF assms(1)]
  have "jb_writePos b - jb_capacity b \<le> jb_readPos b + int j" "jb_readPos b + int j < jb_writePos b"
    using assms f(3,5) by (auto simp: at_block_def)
  then show ?thesis using assms(1) f(3) by (simp add: at_block_def jb_holds_def jb_peek_def nat_add_distrib)
qed

lemma at_block_next:
  assumes "at_block b S n dst" "nat (jb_readPos b) + j + 1 < length S"
  shows "ringFrame (jb_capacity b) (nat (jb_nc b)) (jb_data b) (jb_readPos b + int j + 1) = S ! (nat (jb_readPos b) + j + 1)"
  using at_block_frame[OF assms(1), of "j + 1"] assms(2) by (simp add: ac_simps)

lemma at_block_prev:
  assumes "at_block b S n dst" "nat (jb_readPos b) + j < length S" "1 \<le> j"
  shows "ringFrame (jb_capacity b) (nat (jb_nc b)) (jb_data b) (jb_readPos b + int j - 1) = S ! (nat (jb_readPos b) + j - 1)"
proof -
  have "jb_readPos b + int (j - 1) = jb_readPos b + int j - 1" using assms(3) by simp
  then show ?thesis using at_block_frame[OF assms(1), of "j - 1"] assms(2,3) by (simp add: add_diff_eq)
qed

lemma block_frames:
  assumes "at_block b S n dst" "length dst' = length dst" "length xs = nat n"
    "\<And>j. j < nat n \<Longrightarrow> frame (nat (jb_nc b)) dst' j = xs ! j"
  shows "frames (nat (jb_nc b)) dst' = xs"
  using assms at_block_facts(4)[OF assms(1)] by (intro nth_equalityI) (auto simp: at_block_def)

lemma drop_plays:
  assumes a: "at_block b S n dst" and room: "n + 1 \<le> jb_writePos b - jb_readPos b"
  defines "dst' \<equiv> spliceDrop (jb_capacity b) (nat (jb_nc b)) (jb_data b) dst (jb_readPos b) n"
  shows "length dst' = length dst"
    and "\<exists>c<nat n. frames (nat (jb_nc b)) dst' = playDrop S (nat (jb_readPos b)) (nat n) c"
    and "nat (jb_readPos b) + nat n + 1 \<le> length S"
proof -
  define nc where "nc = nat (jb_nc b)"
  define rp where "rp = nat (jb_readPos b)"
  note f = at_block_facts[OF a, folded nc_def rp_def]
  note fr = at_block_frame[OF a, folded nc_def] and nx = at_block_next[OF a, folded nc_def]
  have n: "1 \<le> n" "length dst = nat n * nc" using a by (auto simp: at_block_def nc_def)
  from spliceDrop_frames[OF f(1-3) n] obtain c where c: "0 \<le> c" "c < n" "length dst' = length dst"
    "\<forall>j<nat n. frame nc dst' j = (if int j < c then ringFrame (jb_capacity b) nc (jb_data b) (jb_readPos b + int j)
      else if int j = c then avgFrame (ringFrame (jb_capacity b) nc (jb_data b) (jb_readPos b + c))
           (ringFrame (jb_capacity b) nc (jb_data b) (jb_readPos b + c + 1))
      else ringFrame (jb_capacity b) nc (jb_data b) (jb_readPos b + int j + 1))"
    unfolding dst'_def nc_def[symmetric] by blast
  obtain k where k: "c = int k" "k < nat n" using c(1,2) n(1) by (metis nat_eq_iff2 nat_less_eq_zless)
  show fit: "nat (jb_readPos b) + nat n + 1 \<le> length S" using f(5) room n(1) unfolding rp_def by linarith
  show "length dst' = length dst" by (rule c(3))
  have "frame nc dst' j = playDrop S rp (nat n) k ! j" if j: "j < nat n" for j
    using c(4) j k fit by (auto simp: playDrop_def nth_append nth_Cons' not_less rp_def fr nx)
  then have "frames nc dst' = playDrop S rp (nat n) k"
    using c(3) k fit unfolding nc_def by (intro block_frames[OF a]) (auto simp: playDrop_def rp_def)
  then show "\<exists>c<nat n. frames (nat (jb_nc b)) dst' = playDrop S (nat (jb_readPos b)) (nat n) c"
    using k(2) by (auto simp: nc_def rp_def)
qed

lemma insert_plays:
  assumes a: "at_block b S n dst" and room: "2 \<le> n"
  defines "dst' \<equiv> spliceInsert (jb_capacity b) (nat (jb_nc b)) (jb_data b) dst (jb_readPos b) n"
  shows "length dst' = length dst"
    and "\<exists>c<nat n. 1 \<le> c \<and> frames (nat (jb_nc b)) dst' = playInsert S (nat (jb_readPos b)) (nat n) c"
proof -
  define nc where "nc = nat (jb_nc b)"
  define rp where "rp = nat (jb_readPos b)"
  note f = at_block_facts[OF a, folded nc_def rp_def]
  note fr = at_block_frame[OF a, folded nc_def] and pv = at_block_prev[OF a, folded nc_def]
  have n: "length dst = nat n * nc" using a by (auto simp: at_block_def nc_def)
  from spliceInsert_frames[OF f(1-3) room n] obtain c where c: "1 \<le> c" "c < n" "length dst' = length dst"
    "\<forall>j<nat n. frame nc dst' j = (if int j < c then ringFrame (jb_capacity b) nc (jb_data b) (jb_readPos b + int j)
      else if int j = c then avgFrame (ringFrame (jb_capacity b) nc (jb_data b) (jb_readPos b + c - 1))
           (ringFrame (jb_capacity b) nc (jb_data b) (jb_readPos b + c))
      else ringFrame (jb_capacity b) nc (jb_data b) (jb_readPos b + int j - 1))"
    unfolding dst'_def nc_def[symmetric] by blast
  obtain k where k: "c = int k" using c(1) by (metis nat_eq_iff2 zero_le_one order_trans)
  then have k2: "k < nat n" "1 \<le> k" using c(1,2) by auto
  show "length dst' = length dst" by (rule c(3))
  have "frame nc dst' j = playInsert S rp (nat n) k ! j" if j: "j < nat n" for j
    using c(4) j k k2 f(6) by (auto simp: playInsert_def nth_append nth_Cons' not_less rp_def fr pv)
  then have "frames nc dst' = playInsert S rp (nat n) k"
    using c(3) k2 f(6) unfolding nc_def by (intro block_frames[OF a]) (auto simp: playInsert_def)
  then show "\<exists>c<nat n. 1 \<le> c \<and> frames (nat (jb_nc b)) dst' = playInsert S (nat (jb_readPos b)) (nat n) c"
    using k2 by (auto simp: nc_def rp_def)
qed

lemma straight_plays:
  assumes a: "at_block b S n dst"
  defines "dst' \<equiv> readFromRing (jb_capacity b) (nat (jb_nc b)) (jb_data b) dst (jb_readPos b) n"
  shows "length dst' = length dst"
    and "frames (nat (jb_nc b)) dst' = playStraight S (nat (jb_readPos b)) (nat n)"
proof -
  note f = at_block_facts[OF a] and fr = at_block_frame[OF a]
  have n: "0 \<le> n" "n \<le> jb_capacity b" "length dst = nat n * nat (jb_nc b)" using a by (auto simp: at_block_def)
  show l: "length dst' = length dst" unfolding dst'_def by (rule length_readFromRing[OF f(1,3) n(3,2)])
  have "frame (nat (jb_nc b)) dst' j = playStraight S (nat (jb_readPos b)) (nat n) ! j" if "j < nat n" for j
    unfolding dst'_def frame_readFromRing[OF f(1-3) n that]
    using fr[of j] that f(6) by (simp add: playStraight_def)
  then show "frames (nat (jb_nc b)) dst' = playStraight S (nat (jb_readPos b)) (nat n)"
    using l f(6) by (intro block_frames[OF a]) (auto simp: playStraight_def)
qed

lemma readPlay_plays:
  assumes a: "at_block b S n dst" and r: "readPlay b dst n (jb_writePos b - jb_readPos b) = (dst', b')"
  shows "length dst' = length dst"
    and "plays S (nat (jb_readPos b)) (frames (nat (jb_nc b)) dst') (nat (jb_readPos b'))"
proof -
  note f = at_block_facts[OF a]
  let ?d = "jb_debt b \<ge> 1 \<and> jb_writePos b - jb_readPos b \<ge> n + 1" and ?i = "jb_debt b \<le> - 1 \<and> n \<ge> 2"
  have n: "0 < n" "length dst = nat n * nat (jb_nc b)" using a by (auto simp: at_block_def)
  have nl: "length (frames (nat (jb_nc b)) xs) = nat n" if "length xs = length dst" for xs :: "rat list"
    using that n(2) f(4) by simp
  have "length dst' = length dst \<and> plays S (nat (jb_readPos b)) (frames (nat (jb_nc b)) dst') (nat (jb_readPos b'))"
  proof (cases ?d)
    case True
    then have e: "dst' = spliceDrop (jb_capacity b) (nat (jb_nc b)) (jb_data b) dst (jb_readPos b) n"
      "nat (jb_readPos b') = nat (jb_readPos b) + nat n + 1"
      using r f(3) n(1) by (auto simp: readPlay_def Let_def)
    have room: "n + 1 \<le> jb_writePos b - jb_readPos b" using True by simp
    note p = drop_plays[OF a room, folded e(1)]
    show ?thesis using p nl[OF p(1)] e(2) unfolding plays_def Let_def by metis
  next
    case F: False
    show ?thesis
    proof (cases ?i)
      case True
      then have e: "dst' = spliceInsert (jb_capacity b) (nat (jb_nc b)) (jb_data b) dst (jb_readPos b) n"
        "nat (jb_readPos b') = nat (jb_readPos b) + nat n - 1"
        using r f(3) n(1) F by (auto simp: readPlay_def Let_def)
      have room: "2 \<le> n" using True by simp
      note p = insert_plays[OF a room, folded e(1)]
      show ?thesis using p nl[OF p(1)] e(2) f(6) unfolding plays_def Let_def by metis
    next
      case False
      have e: "dst' = readFromRing (jb_capacity b) (nat (jb_nc b)) (jb_data b) dst (jb_readPos b) n"
        "nat (jb_readPos b') = nat (jb_readPos b) + nat n"
        using r f(3) n(1) F False by (auto simp: readPlay_def Let_def)
      note p = straight_plays[OF a, folded e(1)]
      show ?thesis using p nl[OF p(1)] e(2) f(6) unfolding plays_def Let_def by metis
    qed
  qed
  then show "length dst' = length dst"
    "plays S (nat (jb_readPos b)) (frames (nat (jb_nc b)) dst') (nat (jb_readPos b'))" by auto
qed

text \<open>One \<open>Read\<close> against the stream: silence leaves the position where steps 1 to 3 put it; a played
  block is a stretch of the stream at or after the old position.\<close>

lemma Read_stream:
  assumes i: "jb_inv b" and h: "jb_holds b S" and r: "Read b dst = (ok, dst', b')"
    and d: "length dst = n * nat (jb_nc b)" and n: "0 < n"
  shows "length dst' = length dst" "jb_holds b' S"
    and "\<not> ok \<Longrightarrow> dst' = clear_slice dst"
    and "ok \<Longrightarrow> \<exists>p\<ge>nat (jb_readPos b). plays S p (frames (nat (jb_nc b)) dst') (nat (jb_readPos b'))"
proof -
  note inv = Read_inv[OF i r]
  show "jb_holds b' S" using h inv(3-5) by (simp add: jb_holds_def jb_peek_def fixed_eq)
  have nc: "0 < jb_nc b" using i by (simp add: jb_inv_def jb_geom_def)
  have nf: "int (length dst) sdiv jb_nc b = int n" using nc d by (simp add: sdiv_nonneg)
  have main: "length dst' = length dst \<and> (\<not> ok \<longrightarrow> dst' = clear_slice dst) \<and>
    (ok \<longrightarrow> (\<exists>p\<ge>nat (jb_readPos b). plays S p (frames (nat (jb_nc b)) dst') (nat (jb_readPos b'))))"
  proof (cases rule: Read_cases[OF i r refl])
    case (4 b1 b2)
    note b1 = readStartup_inv[OF i 4(2)] and b2 = readPlace_inv[OF readStartup_inv(1)[OF i 4(2)] refl, folded 4(3)]
    let ?a = "accrueDebt b2"
    have ra: "jb_ring ?a = jb_ring b2" "jb_fixed ?a = jb_fixed b2" "jb_fixed b2 = jb_fixed b1"
      by (simp_all add: jb_frame 4(3))
    have "at_block ?a S (int n) dst"
      unfolding at_block_def
    proof (intro conjI)
      show "jb_inv ?a" using b2(1) by (rule accrueDebt_inv)
      show "jb_holds ?a S" using h b1 b2 ra by (simp add: jb_holds_def jb_peek_def fixed_eq ring_eq)
      show "int n \<le> jb_writePos ?a - jb_readPos ?a" using 4(4) nf ra by (simp add: ring_eq)
      show "jb_writePos ?a - jb_readPos ?a \<le> jb_capacity ?a"
        using b2(5) b2(3) ra b1 inv_bounds(5,6)[OF b1(1)] by (simp add: ring_eq fixed_eq)
      show "length dst = nat (int n) * nat (jb_nc ?a)" using d ra b1(6) by (simp add: fixed_eq)
    qed (use n in simp)
    from readPlay_plays[OF this, of dst' b'] 4(6) nf ra
    have "length dst' = length dst" "plays S (nat (jb_readPos b2)) (frames (nat (jb_nc b)) dst') (nat (jb_readPos b'))"
      using b1(6) by (simp_all add: ring_eq fixed_eq)
    moreover have "nat (jb_readPos b) \<le> nat (jb_readPos b2)" using b1(2) b2(2) by (simp add: nat_mono)
    ultimately show ?thesis using 4(5) by blast
  qed (use nf n in auto)
  then show "length dst' = length dst" by simp
  show "\<not> ok \<Longrightarrow> dst' = clear_slice dst" using main by simp
  show "ok \<Longrightarrow> \<exists>p\<ge>nat (jb_readPos b). plays S p (frames (nat (jb_nc b)) dst') (nat (jb_readPos b'))" using main by simp
qed

section \<open>Interleavings of the two sides\<close>

text \<open>The producer and the consumer each make one call at a time; a run is any sequence of calls.\<close>

datatype jb_op = OpWrite "rat list" | OpRead "rat list"

fun jb_step :: "JitterBuffer \<Rightarrow> jb_op \<Rightarrow> JitterBuffer" where
  "jb_step b (OpWrite src) = Write b src"
| "jb_step b (OpRead dst) = snd (snd (Read b dst))"

definition jb_exec :: "JitterBuffer \<Rightarrow> jb_op list \<Rightarrow> JitterBuffer" where
  "jb_exec b ops = foldl jb_step b ops"

fun jb_written :: "JitterBuffer \<Rightarrow> jb_op list \<Rightarrow> rat list list" where
  "jb_written b [] = []"
| "jb_written b (OpWrite src # ops) = jb_payload b src @ jb_written b ops"
| "jb_written b (OpRead dst # ops) = jb_written b ops"

lemma jb_step_inv: "jb_inv b \<Longrightarrow> jb_inv (jb_step b op) \<and> jb_fixed (jb_step b op) = jb_fixed b"
proof (cases op)
  case (OpRead dst)
  assume "jb_inv b"
  then show ?thesis using Read_inv(1,5)[of b dst] OpRead by (cases "Read b dst") auto
qed (simp add: Write_inv jb_frame)

lemma jb_written_fixed: "jb_fixed b' = jb_fixed b \<Longrightarrow> jb_written b' ops = jb_written b ops"
  by (induction b ops rule: jb_written.induct) (simp_all add: jb_payload_def clipped_def fixed_eq Let_def)

lemma jb_step_holds:
  assumes "jb_inv b" "jb_holds b S"
  shows "jb_holds (jb_step b op) (S @ jb_written b [op])"
proof (cases op)
  case (OpWrite src)
  then show ?thesis using jring.holds_wr[of b S src] assms by (simp add: jb_holds_jring)
next
  case (OpRead dst)
  obtain ok dst' b' where r: "Read b dst = (ok, dst', b')" by (metis prod_cases3)
  show ?thesis using Read_inv(3-5)[OF assms(1) r] assms(2) OpRead r by (simp add: jb_holds_def jb_peek_def fixed_eq)
qed

lemma jb_exec_invariant:
  assumes "jb_inv b" "jb_holds b S"
  shows "jb_inv (jb_exec b ops) \<and> jb_holds (jb_exec b ops) (S @ jb_written b ops) \<and> jb_fixed (jb_exec b ops) = jb_fixed b"
  using assms
proof (induction ops arbitrary: b S)
  case (Cons op ops)
  note s = jb_step_inv[OF Cons.prems(1), of op]
  have "jb_written b (op # ops) = jb_written b [op] @ jb_written (jb_step b op) ops"
    using s jb_written_fixed[of "jb_step b op" b ops] by (cases op) auto
  then show ?case using Cons.IH[OF conjunct1[OF s] jb_step_holds[OF Cons.prems, of op]] s
    by (simp add: jb_exec_def)
qed (simp add: jb_exec_def)

section \<open>Properties of every run\<close>

text \<open>A small concrete buffer for the examples: 1 kHz mono, one-frame packets read two at a time.\<close>

definition demo_cfg :: JitterBufferConfig where
  "demo_cfg = \<lparr> SampleRate = 1000, NumChannels = 1, WriterFrameSize = 0, ReaderFrameSize = 0, Safety = 0,
     WriterFrames = 1, ReaderFrames = 2, Floor = 0, Robustness = 1, Capacity = 20 * millisecond,
     ControllerOverride = None \<rparr>"

definition demo_jb :: JitterBuffer where
  "demo_jb = \<lparr> jb_capacity = 20, jb_w = 1, jb_r = 2, jb_s = 1, jb_nc = 1, jb_sr = 1000, jb_ctrl = PServo,
     jb_windowReads = 1000, jb_freezeReads = 20, jb_narrowStep = 0, jb_spBase = 3, jb_flDecl = 0,
     jb_kLow = 5404319552844595 / 4503599627370496, jb_kHigh = 3 / 2, jb_wlCap = 30, jb_deadband = 0,
     jb_gain = 5764607523034235 / 576460752303423488, jb_rateCap = 20, jb_ffClamp = 22, jb_ffDeadZone = 1,
     jb_theta = 41, jb_spMax = 12, jb_writePos = 0, jb_readPos = 0, jb_data = replicate 20 0,
     jb_started = False, jb_tick = 0, jb_lastWp = 0, jb_gapRun = 0, jb_frozen = False,
     jb_rawBuf = [], jb_virtBuf = [], jb_wlHist = replicate 10 0, jb_whHist = replicate 10 0,
     jb_histLen = 0, jb_histPos = 0, jb_ffTicks = [], jb_ffVals = [], jb_wl = 0, jb_wh = 0, jb_rate = 0,
     jb_debt = 0, jb_pendingTrim = 0, jb_setpoint = 3, jb_curWL = 0, jb_curWH = 0, jb_curRate = 0,
     jb_curFrozen = False, jb_underruns = 0, jb_laps = 0, jb_overruns = 0, jb_trims = 0, jb_dropped = 0,
     jb_inserted = 0 \<rparr>"

lemma demo_derived:
  "cfg_sr demo_cfg = 1000" "cfg_nc demo_cfg = 1" "cfg_w demo_cfg = 1" "cfg_r demo_cfg = 2" "cfg_s demo_cfg = 1"
  "cfg_kappa demo_cfg = 1" "cfg_ctrl demo_cfg = PServo" "cfg_spBase demo_cfg = 3" "cfg_flDecl demo_cfg = 0"
  "cfg_kLow demo_cfg = 5404319552844595 / 4503599627370496" "cfg_kHigh demo_cfg = 3 / 2" "cfg_wlCap demo_cfg = 30"
  "cfg_ffDeadZone demo_cfg = 1" "cfg_theta demo_cfg = 41" "cfg_capacity demo_cfg = 20" "cfg_spMax demo_cfg = 12"
  "cfg_windowReads demo_cfg = 1000" "msToFrames 1000 v4FreezeMs = 40" "msToFrames 1000 v4NarrowStepMs = 0"
  "msToFrames 1000 v4DeadbandMs = 0" "v4GainPerSec = 5764607523034235 / 576460752303423488" "(40::int) sdiv 2 = 20"
  by code_simp+

lemma demo_new: "NewJitterBuffer demo_cfg = Inr demo_jb"
  by (simp add: NewJitterBuffer_def demo_derived demo_jb_def v4RateCapPerSec_def v4FFClampPerSec_def
      v4WidthHistory_def div64_def int64f_def)

lemma demo_ok: "0 \<le> SampleRate demo_cfg" "0 \<le> NumChannels demo_cfg"
  "durToFrames (cfg_sr demo_cfg) (Capacity demo_cfg) = 0 \<or> cfg_spBase demo_cfg + cfg_w demo_cfg + cfg_r demo_cfg \<le> cfg_capacity demo_cfg"
  by code_simp+

lemma new_run:
  assumes "NewJitterBuffer cfg = Inr b" "0 \<le> SampleRate cfg" "0 \<le> NumChannels cfg"
    and "durToFrames (cfg_sr cfg) (Capacity cfg) = 0 \<or> cfg_spBase cfg + cfg_w cfg + cfg_r cfg \<le> cfg_capacity cfg"
  shows "jb_inv (jb_exec b ops)" "jb_holds (jb_exec b ops) (jb_written b ops)" "jb_nc (jb_exec b ops) = cfg_nc cfg"
proof -
  note n = NewJitterBuffer_inv[OF assms]
  have "jb_holds b []" using n(2) by (simp add: jb_holds_def)
  from jb_exec_invariant[OF n(1) this, of ops]
  show "jb_inv (jb_exec b ops)" "jb_holds (jb_exec b ops) (jb_written b ops)" by auto
  have "jb_nc b = cfg_nc cfg" using assms(1) by (auto simp: NewJitterBuffer_def split: if_splits)
  then show "jb_nc (jb_exec b ops) = cfg_nc cfg"
    using \<open>jb_inv (jb_exec b ops) \<and> _\<close> by (auto simp: fixed_eq)
qed

text \<open>C1. Whatever the producer and the consumer do, a block that \<open>Read\<close> returns is a stretch of the
  stream written so far, at or after the previous read position: the frames in order, or with one
  adjacent pair merged into its average, or with the average of an adjacent pair added between them;
  the position moves by exactly what was consumed. A read that reports no audio has written silence.\<close>

theorem Read_refines_stream:
  assumes "NewJitterBuffer cfg = Inr b0" "0 \<le> SampleRate cfg" "0 \<le> NumChannels cfg"
    and "durToFrames (cfg_sr cfg) (Capacity cfg) = 0 \<or> cfg_spBase cfg + cfg_w cfg + cfg_r cfg \<le> cfg_capacity cfg"
    and "b = jb_exec b0 ops" "S = jb_written b0 ops"
    and "Read b dst = (ok, dst', b')" "length dst = n * nat (cfg_nc cfg)" "0 < n"
  shows "if ok then \<exists>p\<ge>nat (StreamReadPos b). plays S p (frames (nat (cfg_nc cfg)) dst') (nat (StreamReadPos b'))
         else dst' = clear_slice dst"
proof -
  note r = new_run[OF assms(1-4), of ops, folded assms(5,6)]
  from Read_stream(3,4)[OF r(1,2) assms(7) _ assms(9)] show ?thesis
    using assms(8) r(3) by (auto simp: StreamReadPos_def)
qed

theorem Read_refines_stream_witness:
  "let b0 = demo_jb; ops = [OpWrite [1, 2, 3, 4]]; (ok, dst', b') = Read (jb_exec b0 ops) [0, 0]
   in ok \<and> (\<exists>p\<ge>0. plays (jb_written b0 ops) p (frames 1 dst') (nat (StreamReadPos b')))"
proof -
  let ?b = "jb_exec demo_jb [OpWrite [1, 2, 3, 4]]"
  obtain ok dst' b' where r: "Read ?b [0, 0] = (ok, dst', b')" by (metis prod_cases3)
  have "fst (Read ?b [0, 0])" by code_simp
  then have ok: ok using r by simp
  have nc: "cfg_nc demo_cfg = 1" by code_simp
  from Read_refines_stream[OF demo_new demo_ok refl refl r, of 2]
  have "\<exists>p. plays (jb_written demo_jb [OpWrite [1, 2, 3, 4]]) p (frames 1 dst') (nat (StreamReadPos b'))"
    using ok nc by auto
  then show ?thesis using r ok by simp
qed

text \<open>C11. The invariant holds after construction and after every sequence of calls: positions ordered,
  setpoint between its floor and its cap and a writer plus a reader frame below the capacity, rate
  and debt within their limits, the observer mirrors equal to the reader's values; and the last
  \<open>capacity\<close> frames of the written stream can be read back from the ring.\<close>

theorem jitter_run_invariant:
  assumes "NewJitterBuffer cfg = Inr b0" "0 \<le> SampleRate cfg" "0 \<le> NumChannels cfg"
    and "durToFrames (cfg_sr cfg) (Capacity cfg) = 0 \<or> cfg_spBase cfg + cfg_w cfg + cfg_r cfg \<le> cfg_capacity cfg"
  shows "jb_inv (jb_exec b0 ops) \<and> jb_holds (jb_exec b0 ops) (jb_written b0 ops)"
  using new_run[OF assms] by simp

theorem jitter_run_invariant_witness:
  "jb_inv (jb_exec demo_jb [OpWrite [1, 2, 3, 4], OpRead [0, 0]])
    \<and> jb_writePos (jb_exec demo_jb [OpWrite [1, 2, 3, 4], OpRead [0, 0]]) = 4"
proof -
  from jitter_run_invariant[OF demo_new demo_ok, of "[OpWrite [1, 2, 3, 4], OpRead [0, 0]]"]
  have "jb_inv (jb_exec demo_jb [OpWrite [1, 2, 3, 4], OpRead [0, 0]])" by simp
  moreover have "jb_writePos (jb_exec demo_jb [OpWrite [1, 2, 3, 4], OpRead [0, 0]]) = 4" by code_simp
  ultimately show ?thesis by simp
qed

text \<open>C15. The stream position the pose store aligns to never moves backwards.\<close>

theorem StreamReadPos_monotone:
  assumes "jb_inv b"
  shows "StreamReadPos b \<le> StreamReadPos (jb_exec b ops)"
  using assms
proof (induction ops arbitrary: b)
  case (Cons op ops)
  have "StreamReadPos b \<le> StreamReadPos (jb_step b op)"
  proof (cases op)
    case (OpRead dst)
    then show ?thesis using Read_inv(2)[OF Cons.prems, of dst] by (cases "Read b dst") (simp add: StreamReadPos_def)
  qed (simp add: StreamReadPos_def Write_fields)
  also have "\<dots> \<le> StreamReadPos (jb_exec (jb_step b op) ops)" using Cons jb_step_inv by blast
  finally show ?case by (simp add: jb_exec_def)
qed (simp add: jb_exec_def)

theorem StreamReadPos_monotone_witness:
  "StreamReadPos demo_jb \<le> StreamReadPos (jb_exec demo_jb [OpWrite [1, 2, 3, 4], OpRead [0, 0]])
    \<and> StreamReadPos (jb_exec demo_jb [OpWrite [1, 2, 3, 4], OpRead [0, 0]]) = 3"
proof -
  have "jb_inv demo_jb" using NewJitterBuffer_inv[OF demo_new demo_ok] by simp
  from StreamReadPos_monotone[OF this, of "[OpWrite [1, 2, 3, 4], OpRead [0, 0]]"]
  have "StreamReadPos demo_jb \<le> StreamReadPos (jb_exec demo_jb [OpWrite [1, 2, 3, 4], OpRead [0, 0]])" .
  moreover have "StreamReadPos (jb_exec demo_jb [OpWrite [1, 2, 3, 4], OpRead [0, 0]]) = 3" by code_simp
  ultimately show ?thesis by simp
qed

text \<open>C14. Before a block is played, the trim and the capacity valves leave the fill at most a writer
  and a reader frame below the capacity, never below the setpoint unless it was there already, and
  the read position where it was or later.\<close>

theorem placement_bounds:
  assumes "jb_inv b"
  shows "let sp = jb_setpoint b; b' = readPlace b sp; fill = jb_writePos b - jb_readPos b;
             fill' = jb_writePos b' - jb_readPos b'
         in fill' \<le> jb_capacity b - (jb_w b + jb_r b) \<and> min sp fill \<le> fill' \<and> fill' \<le> fill"
  using readPlace_inv[OF assms refl] by (simp add: Let_def)

theorem placement_bounds_witness:
  "let b = jb_exec demo_jb [OpWrite [1, 2, 3, 4], OpRead [0, 0]];
       b' = readPlace b (jb_setpoint b)
   in jb_writePos b - jb_readPos b = 1 \<and> 1 \<le> jb_writePos b' - jb_readPos b' \<and> jb_writePos b' - jb_readPos b' \<le> 17"
proof -
  let ?b = "jb_exec demo_jb [OpWrite [1, 2, 3, 4], OpRead [0, 0]]"
  have v: "jb_writePos ?b - jb_readPos ?b = 1" "jb_setpoint ?b = 3" "jb_capacity ?b - (jb_w ?b + jb_r ?b) = 17"
    by code_simp+
  from placement_bounds[OF new_run(1)[OF demo_new demo_ok], of "[OpWrite [1, 2, 3, 4], OpRead [0, 0]]"]
  show ?thesis unfolding Let_def v by simp
qed

end
