(* ===== verification/Jitter_Pacing.thy ===== *)
theory Jitter_Pacing
  imports Jitter_Stream
begin

text \<open>
  How often the jitter buffer touches the audio, and what an outage does to its estimator. The debt
  bucket bounds the number of splices in any run, with the rounding of the bucket's arithmetic
  accounted for on a grid of 1/1024; the freeze rule takes a gap's own samples back out of the window.
\<close>

section \<open>The debt bucket\<close>

lemma f64_dyadic:
  assumes "\<bar>m\<bar> \<le> 2 ^ 53"
  shows "f64 (of_int m / 1024) = of_int m / 1024"
proof -
  have "(1 / 1024 :: rat) = 2 powi (- 10)" by (simp add: power_int_minus)
  then have "of_int m / 1024 = of_int m * (2::rat) powi (- 10)" by (metis times_divide_eq_right mult_1_right)
  then have "repr 53 (of_int m / 1024)" unfolding repr_def using assms by blast
  then show ?thesis unfolding f64_def by (intro rnd_exact) simp_all
qed

lemma f64_dyadic_abs:
  assumes "\<bar>x\<bar> \<le> of_int m / 1024" "0 \<le> m" "m \<le> 2 ^ 53"
  shows "\<bar>f64 x\<bar> \<le> of_int m / 1024"
proof -
  have "f64 (of_int m / 1024) = of_int m / 1024" "f64 (- (of_int m / 1024)) = - (of_int m / 1024)"
    using f64_dyadic[of m] assms by (simp_all add: f64_uminus)
  moreover have "x \<le> of_int m / 1024" "- (of_int m / 1024) \<le> x" using assms(1) by (simp_all only: abs_le_iff minus_le_iff)
  ultimately have "f64 x \<le> of_int m / 1024" "- (of_int m / 1024) \<le> f64 x" using f64_mono by metis+
  then show ?thesis by (simp only: abs_le_iff minus_le_iff)
qed

text \<open>What one read may add to the debt, in 1024ths: \<open>g\<close> with \<open>20 * r / sr \<le> g / 1024\<close>.\<close>

definition splice_grain :: "JitterBuffer \<Rightarrow> int \<Rightarrow> bool" where
  "splice_grain b g \<longleftrightarrow> 20480 * jb_r b \<le> g * jb_sr b \<and> g \<le> 1024 \<and> jb_sr b \<le> 2 ^ 40"

lemma grain_div:
  assumes "0 < (s::int)" "\<bar>a\<bar> * 1024 \<le> of_int g * of_int s"
  shows "\<bar>a / of_int s\<bar> \<le> (of_int g / 1024 :: rat)"
proof -
  have p: "0 < (of_int s :: rat)" using assms(1) by simp
  have "\<bar>a\<bar> \<le> of_int g / 1024 * of_int s" using assms(2) by simp
  then have "\<bar>a\<bar> / of_int s \<le> of_int g / 1024" using pos_divide_le_eq[OF p] by blast
  then show ?thesis using p by (simp only: abs_divide abs_of_pos)
qed

lemma grain_increment:
  assumes i: "jb_inv b" and g: "splice_grain b g"
  shows "\<bar>div64 (mul64 (jb_rate b) (int64f (jb_r b))) (int64f (jb_sr b))\<bar> \<le> of_int g / 1024" "0 < g"
proof -
  have r: "0 < jb_r b" "0 < jb_sr b" "\<bar>jb_rate b\<bar> \<le> 20"
    using i by (auto simp: jb_inv_def jb_geom_def jb_sensing_def v4RateCapPerSec_def)
  have "0 < g * jb_sr b" using g r by (simp add: splice_grain_def)
  then show g0: "0 < g" using r(2) by (simp add: zero_less_mult_iff)
  have "g * jb_sr b \<le> 1024 * jb_sr b" using g r by (intro mult_right_mono) (auto simp: splice_grain_def)
  then have "20480 * jb_r b \<le> 1024 * jb_sr b" "jb_sr b \<le> 2 ^ 40" using g by (auto simp: splice_grain_def)
  then have small: "20 * jb_r b \<le> 2 ^ 53" "jb_r b \<le> 2 ^ 53" "jb_sr b \<le> 2 ^ 53" using r(1) by auto
  have ir: "int64f (jb_r b) = of_int (jb_r b)" "int64f (jb_sr b) = of_int (jb_sr b)"
    using small r by (auto simp: int64f_def intro!: f64_of_int)
  have m: "\<bar>jb_rate b * of_int (jb_r b)\<bar> \<le> of_int (20 * jb_r b)"
    using r by (simp add: abs_mult mult_right_mono)
  then have "f64 (jb_rate b * of_int (jb_r b)) \<le> of_int (20 * jb_r b)"
    "of_int (- (20 * jb_r b)) \<le> f64 (jb_rate b * of_int (jb_r b))"
    using small(1) r by (intro f64_le_of_int f64_ge_of_int; simp add: abs_le_iff)+
  then have "\<bar>f64 (jb_rate b * of_int (jb_r b))\<bar> \<le> of_int (20 * jb_r b)" by (simp add: abs_le_iff)
  moreover have "of_int (20 * jb_r b) * 1024 \<le> (of_int (g * jb_sr b) :: rat)"
  proof -
    have "20 * jb_r b * 1024 \<le> g * jb_sr b" using g by (simp add: splice_grain_def)
    then have "(of_int (20 * jb_r b * 1024) :: rat) \<le> of_int (g * jb_sr b)" by (simp only: of_int_le_iff)
    then show ?thesis by simp
  qed
  ultimately have "\<bar>f64 (jb_rate b * of_int (jb_r b))\<bar> * 1024 \<le> of_int g * of_int (jb_sr b)" by simp
  then have "\<bar>f64 (jb_rate b * of_int (jb_r b)) / of_int (jb_sr b)\<bar> \<le> of_int g / 1024"
    by (rule grain_div[OF r(2)])
  then show "\<bar>div64 (mul64 (jb_rate b) (int64f (jb_r b))) (int64f (jb_sr b))\<bar> \<le> of_int g / 1024"
    using g g0 unfolding div64_def mul64_def ir by (intro f64_dyadic_abs) (auto simp: splice_grain_def)
qed

definition jb_splices :: "JitterBuffer \<Rightarrow> int" where
  "jb_splices b = jb_dropped b + jb_inserted b"

lemma readPlace_debt:
  "\<bar>jb_debt (readPlace b sp)\<bar> \<le> \<bar>jb_debt b\<bar>" "jb_splices (readPlace b sp) = jb_splices b"
proof -
  have w: "jb_debt (pushFF b v) = jb_debt b" "jb_debt (closeWidths b x y z) = jb_debt b" for b v x y z
    by (simp_all add: closeWidths_def pushFF_def Let_def)
  have cw: "jb_debt (closeWindow b) = jb_debt b" for b
    unfolding closeWindow_def resetWindow_def Let_def by (simp add: w split: prod.splits)
  have sg: "\<bar>jb_debt (senseGap b wp)\<bar> \<le> \<bar>jb_debt b\<bar>" for b wp
    by (simp add: senseGap_def resetWindow_def Let_def)
  have s: "\<bar>jb_debt (sense b wp f)\<bar> \<le> \<bar>jb_debt b\<bar>" for b wp f
    using sg[of "b \<lparr> jb_tick := jb_tick b + 1 \<rparr>" wp] by (simp add: sense_def Let_def cw)
  have tv: "jb_debt (readValves (readTrim b sp) sp) = jb_debt b" "jb_splices (readValves (readTrim b sp) sp) = jb_splices b"
    by (simp_all add: readValves_def readTrim_def resetWindow_def Let_def jb_splices_def)
  show "\<bar>jb_debt (readPlace b sp)\<bar> \<le> \<bar>jb_debt b\<bar>" 
    using s[of "readValves (readTrim b sp) sp"] unfolding tv(1) by (simp add: readPlace_def Let_def)
  have "jb_counts (readPlace b sp) = jb_counts (readValves (readTrim b sp) sp)"
    by (simp add: readPlace_def Let_def jb_frame)
  then show "jb_splices (readPlace b sp) = jb_splices b" using tv by (simp add: jb_counts_def jb_splices_def)
qed

text \<open>Accruing adds at most \<open>g\<close>; a splice is paid for by the debt it leaves.\<close>

lemma accrueDebt_grain:
  assumes i: "jb_inv b" and g: "splice_grain b g" and d: "\<bar>jb_debt b\<bar> \<le> of_int j / 1024" and j: "0 \<le> j" "j \<le> 1536"
  shows "\<bar>jb_debt (accrueDebt b)\<bar> \<le> of_int (j + g) / 1024"
proof -
  note inc = grain_increment[OF i g]
  let ?x = "jb_debt b + div64 (mul64 (jb_rate b) (int64f (jb_r b))) (int64f (jb_sr b))"
  have "\<bar>?x\<bar> \<le> of_int j / 1024 + of_int g / 1024" using d inc(1) by (intro order_trans[OF abs_triangle_ineq] add_mono)
  then have "\<bar>?x\<bar> \<le> of_int (j + g) / 1024" by (simp add: add_divide_distrib)
  then have "\<bar>f64 ?x\<bar> \<le> of_int (j + g) / 1024" using j inc(2) g by (intro f64_dyadic_abs) (auto simp: splice_grain_def)
  moreover have "\<bar>jb_debt b\<bar> \<le> of_int (j + g) / 1024" using d inc(2) by (simp add: add_divide_distrib)
  ultimately show ?thesis by (auto simp: accrueDebt_def Let_def add64_def v4MaxDebt_def abs_if split: if_splits)
qed

lemma readPlay_grain:
  assumes r: "readPlay b dst n fill = (dst', b')" and d: "\<bar>jb_debt b\<bar> \<le> of_int j / 1024" and j: "j \<le> 2 ^ 53"
  shows "\<bar>jb_debt b'\<bar> \<le> of_int (j - 1024 * (jb_splices b' - jb_splices b)) / 1024"
    and "jb_splices b' - jb_splices b \<in> {0, 1}"
proof -
  have paid: "\<bar>f64 x\<bar> \<le> of_int (j - 1024) / 1024" if "1 + \<bar>x\<bar> \<le> \<bar>jb_debt b\<bar>" for x
  proof -
    have "1 + \<bar>x\<bar> \<le> of_int j / 1024" using that d by linarith
    then have x: "\<bar>x\<bar> \<le> of_int (j - 1024) / 1024" by (simp add: field_simps)
    then have "0 \<le> (of_int (j - 1024) / 1024 :: rat)" by (meson abs_ge_zero order_trans)
    then have "0 \<le> j - 1024" by simp
    then show ?thesis using j by (intro f64_dyadic_abs[OF x]) auto
  qed
  have "jb_debt b \<ge> 1 \<Longrightarrow> 1 + \<bar>jb_debt b - 1\<bar> \<le> \<bar>jb_debt b\<bar>" "jb_debt b \<le> - 1 \<Longrightarrow> 1 + \<bar>jb_debt b + 1\<bar> \<le> \<bar>jb_debt b\<bar>"
    by linarith+
  then show "\<bar>jb_debt b'\<bar> \<le> of_int (j - 1024 * (jb_splices b' - jb_splices b)) / 1024"
    "jb_splices b' - jb_splices b \<in> {0, 1}"
    using r d paid by (auto simp: readPlay_def Let_def jb_splices_def sub64_def add64_def split: if_splits)
qed

text \<open>One read: at most one splice, and the debt after it pays for it.\<close>

lemma Read_debt:
  assumes i: "jb_inv b" and g: "splice_grain b g" and r: "Read b dst = (ok, dst', b')"
    and d: "\<bar>jb_debt b\<bar> \<le> of_int j / 1024" and j: "0 \<le> j" "j \<le> 1536"
  shows "\<bar>jb_debt b'\<bar> \<le> of_int (j + g - 1024 * (jb_splices b' - jb_splices b)) / 1024
    \<and> jb_splices b' - jb_splices b \<in> {0, 1}"
proof -
  have g0: "0 < g" using grain_increment(2)[OF i g] .
  have weak: "\<bar>x\<bar> \<le> of_int (j + g) / 1024" if "\<bar>x\<bar> \<le> \<bar>jb_debt b\<bar>" for x
    using that d g0 by (simp add: add_divide_distrib)
  show ?thesis
  proof (cases rule: Read_cases[OF i r refl])
    case (3 b1 b2)
    have "jb_debt b1 = jb_debt b" "jb_splices b1 = jb_splices b"
      using 3(2) by (auto simp: readStartup_def jb_splices_def split: if_splits)
    then show ?thesis using readPlace_debt[of b1 "jb_setpoint b1"] weak[of "jb_debt b2"] 3(3,7) by (simp add: jb_splices_def)
  next
    case (4 b1 b2)
    note b1 = readStartup_inv[OF i 4(2)] and b2 = readPlace_inv(1)[OF readStartup_inv(1)[OF i 4(2)] refl, folded 4(3)]
    have s1: "jb_debt b1 = jb_debt b" "jb_splices b1 = jb_splices b"
      using 4(2) by (auto simp: readStartup_def jb_splices_def split: if_splits)
    then have d2: "\<bar>jb_debt b2\<bar> \<le> of_int j / 1024" "jb_splices b2 = jb_splices b"
      using d readPlace_debt[of b1 "jb_setpoint b1"] 4(3) by auto
    have "jb_fixed b2 = jb_fixed b" using b1(6) by (simp add: 4(3) jb_frame)
    then have g2: "splice_grain b2 g" using g by (simp add: splice_grain_def fixed_eq)
    have "jb_counts (accrueDebt b2) = jb_counts b2" by (simp add: jb_frame)
    then have a: "jb_splices (accrueDebt b2) = jb_splices b" using d2(2) by (simp add: jb_splices_def jb_counts_def)
    have "j + g \<le> 2 ^ 53" using j g by (simp add: splice_grain_def)
    from readPlay_grain[OF 4(6) accrueDebt_grain[OF b2 g2 d2(1) j] this] show ?thesis by (simp add: a)
  qed (use weak in auto)
qed

fun jb_reads :: "jb_op list \<Rightarrow> nat" where
  "jb_reads [] = 0"
| "jb_reads (OpWrite src # ops) = jb_reads ops"
| "jb_reads (OpRead dst # ops) = Suc (jb_reads ops)"

lemma jb_exec_debt:
  assumes "jb_inv b" "splice_grain b g" "\<bar>jb_debt b\<bar> \<le> of_int j / 1024"
  shows "\<bar>jb_debt (jb_exec b ops)\<bar> \<le>
    of_int (j + g * int (jb_reads ops) - 1024 * (jb_splices (jb_exec b ops) - jb_splices b)) / 1024"
  using assms
proof (induction ops arbitrary: b j)
  case Nil
  then show ?case by (simp add: jb_exec_def)
next
  case (Cons op ops)
  note s = jb_step_inv[OF Cons.prems(1), of op]
  have g': "splice_grain (jb_step b op) g" using s Cons.prems(2) by (simp add: splice_grain_def fixed_eq)
  note IH = Cons.IH[OF conjunct1[OF s] g']
  show ?case
  proof (cases op)
    case (OpWrite src)
    have "jb_debt (Write b src) = jb_debt b" "jb_splices (Write b src) = jb_splices b"
      by (simp_all add: Write_def Let_def jb_splices_def split: prod.splits)
    then show ?thesis using IH[of j] Cons.prems(3) OpWrite by (simp add: jb_exec_def)
  next
    case (OpRead dst)
    obtain ok dst' b' where r: "Read b dst = (ok, dst', b')" by (metis prod_cases3)
    define m where "m = min j 1536"
    have "0 \<le> (of_int j / 1024 :: rat)" using Cons.prems(3) by (meson abs_ge_zero order_trans)
    then have m: "0 \<le> m" "m \<le> 1536" "m \<le> j" by (simp_all add: m_def)
    have "\<bar>jb_debt b\<bar> \<le> 1536 / 1024" using Cons.prems(1) by (simp add: jb_inv_def jb_sensing_def v4MaxDebt_def)
    then have "\<bar>jb_debt b\<bar> \<le> of_int m / 1024" using Cons.prems(3) by (simp add: m_def min_def)
    from Read_debt[OF Cons.prems(1,2) r this m(1,2)]
    have "\<bar>jb_debt b'\<bar> \<le> of_int (m + g - 1024 * (jb_splices b' - jb_splices b)) / 1024" by blast
    also have "\<dots> \<le> of_int (j + g - 1024 * (jb_splices b' - jb_splices b)) / 1024" using m(3) by (simp add: divide_right_mono)
    finally have "\<bar>jb_debt b'\<bar> \<le> of_int (j + g - 1024 * (jb_splices b' - jb_splices b)) / 1024" .
    then show ?thesis using IH[of "j + g - 1024 * (jb_splices b' - jb_splices b)"] OpRead r
      by (simp add: jb_exec_def algebra_simps)
  qed
qed

lemma jb_exec_splices:
  assumes "jb_inv b" "splice_grain b g"
  shows "1024 * (jb_splices (jb_exec b ops) - jb_splices b) \<le> 1536 + g * int (jb_reads ops)"
proof -
  have "\<bar>jb_debt b\<bar> \<le> of_int 1536 / 1024" using assms(1) by (simp add: jb_inv_def jb_sensing_def v4MaxDebt_def)
  from jb_exec_debt[OF assms this, of ops]
  have "0 \<le> (of_int (1536 + g * int (jb_reads ops) - 1024 * (jb_splices (jb_exec b ops) - jb_splices b)) / 1024 :: rat)"
    by (meson abs_ge_zero order_trans)
  then have "0 \<le> 1536 + g * int (jb_reads ops) - 1024 * (jb_splices (jb_exec b ops) - jb_splices b)"
    by (simp only: zero_le_divide_iff of_int_0_le_iff) simp
  then show ?thesis by simp
qed

section \<open>Outages\<close>

definition senseRun :: "JitterBuffer \<Rightarrow> int \<Rightarrow> int list \<Rightarrow> JitterBuffer" where
  "senseRun b wp fills = foldl (\<lambda>b f. sense b wp f) b fills"

lemma sense_in_gap:
  assumes "jb_started b" "\<not> jb_frozen b" "jb_lastWp b = wp" "jb_gapRun b + 1 \<le> jb_freezeReads b"
    "int (length (jb_rawBuf b)) + 1 < jb_windowReads b"
  shows "sense b wp f = b \<lparr> jb_tick := jb_tick b + 1, jb_lastWp := wp, jb_gapRun := jb_gapRun b + 1,
      jb_rawBuf := jb_rawBuf b @ [f], jb_virtBuf := jb_virtBuf b @ [wp - jb_r b * jb_tick b] \<rparr>"
  using assms by (simp add: sense_def senseGap_def Let_def)

lemma senseRun_gap:
  assumes "jb_started b" "\<not> jb_frozen b" "jb_lastWp b = wp" "jb_gapRun b + int (length fs) \<le> jb_freezeReads b"
    "int (length (jb_rawBuf b)) + int (length fs) < jb_windowReads b"
  shows "\<exists>vs. length vs = length fs \<and> senseRun b wp fs = b \<lparr> jb_tick := jb_tick b + int (length fs),
      jb_lastWp := wp, jb_gapRun := jb_gapRun b + int (length fs),
      jb_rawBuf := jb_rawBuf b @ fs, jb_virtBuf := jb_virtBuf b @ vs \<rparr>"
  using assms
proof (induction fs arbitrary: b)
  case Nil
  then show ?case by (simp add: senseRun_def)
next
  case (Cons f fs)
  let ?b = "sense b wp f"
  have e: "?b = b \<lparr> jb_tick := jb_tick b + 1, jb_lastWp := wp, jb_gapRun := jb_gapRun b + 1,
      jb_rawBuf := jb_rawBuf b @ [f], jb_virtBuf := jb_virtBuf b @ [wp - jb_r b * jb_tick b] \<rparr>"
    using Cons.prems by (intro sense_in_gap) auto
  have "\<exists>vs. length vs = length fs \<and> senseRun ?b wp fs = ?b \<lparr> jb_tick := jb_tick ?b + int (length fs),
      jb_lastWp := wp, jb_gapRun := jb_gapRun ?b + int (length fs),
      jb_rawBuf := jb_rawBuf ?b @ fs, jb_virtBuf := jb_virtBuf ?b @ vs \<rparr>"
    using Cons.prems by (intro Cons.IH) (auto simp: e)
  then obtain vs where vs: "length vs = length fs" "senseRun ?b wp fs = ?b \<lparr> jb_tick := jb_tick ?b + int (length fs),
      jb_lastWp := wp, jb_gapRun := jb_gapRun ?b + int (length fs),
      jb_rawBuf := jb_rawBuf ?b @ fs, jb_virtBuf := jb_virtBuf ?b @ vs \<rparr>" by blast
  have "senseRun b wp (f # fs) = senseRun ?b wp fs" by (simp add: senseRun_def)
  then show ?case using vs by (intro exI[of _ "(wp - jb_r b * jb_tick b) # vs"]) (simp add: e algebra_simps)
qed

lemma sense_freezes:
  assumes "jb_started b" "\<not> jb_frozen b" "jb_lastWp b = wp" "jb_gapRun b = jb_freezeReads b" "0 \<le> jb_gapRun b"
    "jb_rawBuf b = raw @ fs" "jb_virtBuf b = virt @ vs" "int (length fs) = jb_gapRun b" "length vs = length fs"
  shows "sense b wp f = b \<lparr> jb_tick := jb_tick b + 1, jb_lastWp := wp, jb_gapRun := jb_gapRun b + 1,
      jb_frozen := True, jb_curFrozen := True, jb_rate := 0, jb_curRate := 0, jb_debt := 0,
      jb_rawBuf := raw, jb_virtBuf := virt \<rparr>"
proof -
  have "jb_freezeReads b = int (length vs)" "jb_gapRun b = int (length vs)" using assms(4,8,9) by simp_all
  then show ?thesis using assms(1-3,6,7,9) by (simp add: sense_def senseGap_def Let_def)
qed

lemma freeze_at_limit:
  assumes "jb_inv b" "jb_started b" "jb_gapRun b = 0" "jb_lastWp b = wp"
    "int (length fills) = jb_freezeReads b + 1"
    "int (length (jb_rawBuf b)) + jb_freezeReads b < jb_windowReads b"
  shows "senseRun b wp fills = b \<lparr> jb_tick := jb_tick b + jb_freezeReads b + 1, jb_lastWp := wp,
      jb_gapRun := jb_freezeReads b + 1, jb_frozen := True, jb_curFrozen := True,
      jb_rate := 0, jb_curRate := 0, jb_debt := 0 \<rparr>"
proof -
  have fr: "8 \<le> jb_freezeReads b" "\<not> jb_frozen b"
    using assms(1,3) by (auto simp: jb_inv_def jb_geom_def jb_sensing_def)
  then have "fills \<noteq> []" using assms(5) by auto
  then obtain fs f where fs: "fills = fs @ [f]" by (metis rev_exhaust)
  have len: "int (length fs) = jb_freezeReads b" using assms(5) fs by simp
  obtain vs where vs: "length vs = length fs" "senseRun b wp fs = b \<lparr> jb_tick := jb_tick b + int (length fs),
      jb_lastWp := wp, jb_gapRun := jb_gapRun b + int (length fs),
      jb_rawBuf := jb_rawBuf b @ fs, jb_virtBuf := jb_virtBuf b @ vs \<rparr>"
    using senseRun_gap[of b wp fs] assms fr len by auto
  have "senseRun b wp fills = sense (senseRun b wp fs) wp f" by (simp add: senseRun_def fs)
  also have "\<dots> = (senseRun b wp fs) \<lparr> jb_tick := jb_tick (senseRun b wp fs) + 1, jb_lastWp := wp,
      jb_gapRun := jb_gapRun (senseRun b wp fs) + 1,
      jb_frozen := True, jb_curFrozen := True, jb_rate := 0, jb_curRate := 0, jb_debt := 0,
      jb_rawBuf := jb_rawBuf b, jb_virtBuf := jb_virtBuf b \<rparr>"
    unfolding vs(2) using assms fr len vs(1) by (intro sense_freezes[of _ _ _ fs _ vs]) auto
  finally show ?thesis unfolding vs(2) using assms(3) len by simp
qed

text \<open>Once frozen, further reads of the gap only count.\<close>

lemma senseRun_frozen:
  assumes "jb_started b" "jb_frozen b" "jb_lastWp b = wp"
  shows "senseRun b wp fs = b \<lparr> jb_tick := jb_tick b + int (length fs), jb_lastWp := wp, jb_gapRun := jb_gapRun b + int (length fs) \<rparr>"
  using assms
proof (induction fs arbitrary: b)
  case Nil
  then show ?case by (simp add: senseRun_def)
next
  case (Cons f fs)
  have e: "sense b wp f = b \<lparr> jb_tick := jb_tick b + 1, jb_lastWp := wp, jb_gapRun := jb_gapRun b + 1 \<rparr>"
    using Cons.prems by (simp add: sense_def senseGap_def Let_def)
  have "senseRun b wp (f # fs) = senseRun (sense b wp f) wp fs" by (simp add: senseRun_def)
  then show ?case using Cons.IH[of "sense b wp f"] Cons.prems by (simp add: e algebra_simps)
qed

text \<open>A window that fills up inside the gap, before the limit, is closed with the gap's samples in it.\<close>

lemma gap_across_close_learns:
  assumes "jb_started b" "\<not> jb_frozen b" "jb_lastWp b = wp" "jb_gapRun b < jb_freezeReads b" "int (length (jb_rawBuf b)) + 1 = jb_windowReads b"
  shows "sense b wp f = closeWindow (b \<lparr> jb_tick := jb_tick b + 1, jb_lastWp := wp, jb_gapRun := jb_gapRun b + 1,
      jb_rawBuf := jb_rawBuf b @ [f], jb_virtBuf := jb_virtBuf b @ [wp - jb_r b * jb_tick b] \<rparr>)"
  using assms by (simp add: sense_def senseGap_def Let_def)

text \<open>C13. A long delivery gap that lies within one sensing window teaches the estimator nothing. Take a read that followed a
  delivery, any number of reads without a delivery, more than \<open>freezeReads\<close>, and a window with room for the first
  \<open>freezeReads\<close> of them, so that none of them closes it. Then sensing ends frozen, with window, width history, drift
  horizon and setpoint exactly as they were before the gap, and rate and debt zero. (A window that closes among the first
  \<open>freezeReads\<close> reads of the gap does learn their dips: \<open>gap_across_close_learns\<close>.)\<close>

theorem freeze_excises_gap:
  assumes "jb_inv b" "jb_started b" "jb_gapRun b = 0" "jb_lastWp b = wp"
    "jb_freezeReads b < int (length fills)"
    "int (length (jb_rawBuf b)) + jb_freezeReads b < jb_windowReads b"
  shows "senseRun b wp fills = b \<lparr> jb_tick := jb_tick b + int (length fills), jb_lastWp := wp,
      jb_gapRun := int (length fills), jb_frozen := True, jb_curFrozen := True,
      jb_rate := 0, jb_curRate := 0, jb_debt := 0 \<rparr>"
proof -
  define n where "n = nat (jb_freezeReads b) + 1"
  have f: "8 \<le> jb_freezeReads b" using assms(1) by (auto simp: jb_inv_def jb_geom_def)
  then have n: "int n = jb_freezeReads b + 1" "n \<le> length fills" using assms(5) by (simp_all add: n_def)
  have l: "int (length (take n fills)) = jb_freezeReads b + 1" using n by simp
  have "senseRun b wp fills = senseRun (senseRun b wp (take n fills)) wp (drop n fills)"
    unfolding senseRun_def by (metis append_take_drop_id foldl_append)
  also have "\<dots> = (senseRun b wp (take n fills)) \<lparr> jb_tick := jb_tick (senseRun b wp (take n fills)) + int (length (drop n fills)), jb_lastWp := wp,
      jb_gapRun := jb_gapRun (senseRun b wp (take n fills)) + int (length (drop n fills)) \<rparr>"
    by (rule senseRun_frozen) (simp_all add: freeze_at_limit[OF assms(1-4) l assms(6)] assms(2))
  finally show ?thesis unfolding freeze_at_limit[OF assms(1-4) l assms(6)] using n by simp
qed

theorem freeze_excises_gap_witness:
  "let b = jb_exec demo_jb [OpWrite [1, 2, 3, 4], OpRead [0, 0], OpWrite [5, 6], OpRead [0, 0]]
   in jb_rawBuf b = [3, 3] \<and> jb_rawBuf (senseRun b 6 (replicate 40 1)) = [3, 3] \<and> jb_frozen (senseRun b 6 (replicate 40 1))"
proof -
  let ?b = "jb_exec demo_jb [OpWrite [1, 2, 3, 4], OpRead [0, 0], OpWrite [5, 6], OpRead [0, 0]]"
  have i: "jb_inv ?b" by (rule new_run(1)[OF demo_new demo_ok])
  have v: "jb_started ?b" "jb_gapRun ?b = 0" "jb_lastWp ?b = 6" "jb_freezeReads ?b = 20"
    "jb_rawBuf ?b = [3, 3]" "jb_windowReads ?b = 1000"
    by code_simp+
  have h: "jb_freezeReads ?b < int (length (replicate 40 (1::int)))"
    "int (length (jb_rawBuf ?b)) + jb_freezeReads ?b < jb_windowReads ?b" by (simp_all add: v)
  show ?thesis unfolding Let_def freeze_excises_gap[OF i v(1-3) h] by (simp add: v(5))
qed

section \<open>The splice rate\<close>

text \<open>C12. Splices are rate-limited in every run: with \<open>20 r / sr \<le> g / 1024\<close> (the servo's cap of 20
  frames a second against the read size), \<open>k\<close> reads make at most \<open>1.5 + k g / 1024\<close> of them,
  whatever the network does and with all float64 rounding included.\<close>

theorem splice_rate_bound:
  assumes "jb_inv b" "splice_grain b g"
  shows "1024 * (jb_splices (jb_exec b ops) - jb_splices b) \<le> 1536 + g * int (jb_reads ops)"
  by (rule jb_exec_splices[OF assms])

theorem splice_rate_bound_witness:
  "1024 * (jb_splices (jb_exec demo_jb [OpWrite [1, 2, 3, 4], OpRead [0, 0]]) - jb_splices demo_jb) \<le> 1536 + 41 * 1"
proof -
  have i: "jb_inv demo_jb" using NewJitterBuffer_inv[OF demo_new demo_ok] by simp
  have "splice_grain demo_jb 41" by code_simp
  from splice_rate_bound[OF i this, of "[OpWrite [1, 2, 3, 4], OpRead [0, 0]]"] show ?thesis by simp
qed

end
