(* ===== verification/Pose_Store.thy ===== *)
theory Pose_Store
  imports Jitter_Ring
begin

text \<open>
  The pose stores (\<^verbatim>\<open>src/engine/engine/pose.go\<close>): poses and their interpolation, the source-pose ring
  beside the jitter buffer, and the sink's latest-wins slot. Calls are modelled twice: as whole
  operations (this is how the ring's contents and \<^verbatim>\<open>poseAt\<close> are specified), and, for the version
  protocol, as the interleaved atomic accesses of one writer and one reader (theory \<open>Pose_Seqlock\<close>).
  Sequence numbers, sample positions and versions are natural numbers; a 64-bit counter that is
  advanced once per packet does not wrap in practice.
\<close>

section \<open>Poses\<close>

record Pose =
  pose_X :: rat
  pose_Y :: rat
  pose_Z :: rat
  pose_Yaw :: rat
  pose_Pitch :: rat
  pose_Roll :: rat

definition zeroPose :: Pose where
  "zeroPose = \<lparr> pose_X = 0, pose_Y = 0, pose_Z = 0, pose_Yaw = 0, pose_Pitch = 0, pose_Roll = 0 \<rparr>"

text \<open>The float64 constants \<open>2 * math.Pi\<close> and \<open>180 / math.Pi\<close>, and \<^verbatim>\<open>math.Remainder\<close>, which is exact:
  the multiple subtracted is the nearest, ties to even.\<close>

definition twoPi :: rat where "twoPi = 884279719003555 / 140737488355328"
definition radToDeg :: rat where "radToDeg = 1007958012753983 / 17592186044416"

definition goRemainder :: "rat \<Rightarrow> rat \<Rightarrow> rat" where
  "goRemainder x y = x - of_int (rhe (x / y)) * y"

definition lerp64 :: "rat \<Rightarrow> rat \<Rightarrow> rat \<Rightarrow> rat" where
  "lerp64 a b t = add64 a (mul64 t (sub64 b a))"

definition lerpAngle :: "rat \<Rightarrow> rat \<Rightarrow> rat \<Rightarrow> rat" where
  "lerpAngle a b t = add64 a (mul64 t (goRemainder (sub64 b a) twoPi))"

definition lerpPose :: "Pose \<Rightarrow> Pose \<Rightarrow> rat \<Rightarrow> Pose" where
  "lerpPose a b t =
    \<lparr> pose_X = lerp64 (pose_X a) (pose_X b) t, pose_Y = lerp64 (pose_Y a) (pose_Y b) t,
      pose_Z = lerp64 (pose_Z a) (pose_Z b) t, pose_Yaw = lerpAngle (pose_Yaw a) (pose_Yaw b) t,
      pose_Pitch = lerpAngle (pose_Pitch a) (pose_Pitch b) t, pose_Roll = lerpAngle (pose_Roll a) (pose_Roll b) t \<rparr>"

text \<open>The DSP layer's types: \<^verbatim>\<open>common.Position\<close> and \<^verbatim>\<open>common.Rotation\<close> as the conversions fill them.\<close>

record Position =
  pos_X :: rat
  pos_Y :: rat
  pos_Z :: rat

record Rotation =
  rot_Yaw :: rat
  rot_Pitch :: rat
  rot_Roll :: rat

definition position :: "Pose \<Rightarrow> Position" where
  "position p = \<lparr> pos_X = pose_X p, pos_Y = pose_Y p, pos_Z = pose_Z p \<rparr>"

definition rotation :: "Pose \<Rightarrow> Rotation" where
  "rotation p = \<lparr> rot_Yaw = mul64 (pose_Yaw p) radToDeg, rot_Pitch = mul64 (pose_Pitch p) radToDeg,
     rot_Roll = mul64 (pose_Roll p) radToDeg \<rparr>"

section \<open>The source-pose ring\<close>

definition poseRingSize :: nat where "poseRingSize = 32"

record poseSample =
  ps_seq :: nat
  ps_endSample :: nat
  ps_pose :: Pose

record poseEntry =
  pe_version :: nat
  pe_sample :: poseSample

definition zeroSample :: poseSample where
  "zeroSample = \<lparr> ps_seq = 0, ps_endSample = 0, ps_pose = zeroPose \<rparr>"

record poseRing =
  pr_entries :: "poseEntry list"
  pr_head :: nat
  pr_lastSeq :: nat

definition newPoseRing :: poseRing where
  "newPoseRing = \<lparr> pr_entries = replicate poseRingSize \<lparr> pe_version = 0, pe_sample = zeroSample \<rparr>,
     pr_head = 0, pr_lastSeq = 0 \<rparr>"

definition push :: "poseRing \<Rightarrow> nat \<Rightarrow> nat \<Rightarrow> Pose \<Rightarrow> poseRing" where
  "push r seq endSample pose =
    (let h = pr_head r in
     if h > 0 \<and> seq \<le> pr_lastSeq r then r else
     let i = h mod poseRingSize; v = pe_version (pr_entries r ! i)
     in r \<lparr> pr_lastSeq := seq,
            pr_entries := (pr_entries r)[i := \<lparr> pe_version = v + 2,
              pe_sample = \<lparr> ps_seq = seq, ps_endSample = endSample, ps_pose = pose \<rparr> \<rparr>],
            pr_head := h + 1 \<rparr>)"

text \<open>The scan of \<^verbatim>\<open>snapshot\<close>, newest first; an odd version ends it. Run as one step nothing changes
  between the two version loads.\<close>

function snapFrom :: "poseRing \<Rightarrow> nat \<Rightarrow> poseSample list" where
  "snapFrom r i =
    (if i < poseRingSize \<and> i < pr_head r then
       let e = pr_entries r ! ((pr_head r - 1 - i) mod poseRingSize)
       in if odd (pe_version e) then [] else pe_sample e # snapFrom r (i + 1)
     else [])"
  by auto

termination by (relation "measure (\<lambda>(r, i). poseRingSize - i)") auto

declare snapFrom.simps [simp del]

definition snapshot :: "poseRing \<Rightarrow> poseSample list" where
  "snapshot r = snapFrom r 0"

text \<open>The search of \<^verbatim>\<open>poseAt\<close> over a snapshot: \<open>after\<close> is the oldest entry seen beyond \<open>L\<close>. The last
  equation is the fall-through to the earliest known pose, where the list is not empty.\<close>

fun poseSearch :: "nat \<Rightarrow> poseSample option \<Rightarrow> poseSample list \<Rightarrow> Pose option" where
  "poseSearch L after (e # es) =
    (if ps_endSample e \<le> L then
       (case after of
          None \<Rightarrow> Some (ps_pose e)
        | Some a \<Rightarrow>
            let span = ps_endSample a - ps_endSample e in
            if span = 0 then Some (ps_pose a)
            else Some (lerpPose (ps_pose e) (ps_pose a)
              (div64 (int64f (int (L - ps_endSample e))) (int64f (int span)))))
     else poseSearch L (Some e) es)"
| "poseSearch L None [] = None"
| "poseSearch L (Some a) [] = Some (ps_pose a)"

definition poseAt :: "poseRing \<Rightarrow> nat \<Rightarrow> Pose option" where
  "poseAt r L = poseSearch L None (snapshot r)"

section \<open>The sink's slot\<close>

record poseSlot =
  sl_version :: nat
  sl_pose :: Pose

definition newPoseSlot :: poseSlot where
  "newPoseSlot = \<lparr> sl_version = 0, sl_pose = zeroPose \<rparr>"

definition slot_store :: "poseSlot \<Rightarrow> Pose \<Rightarrow> poseSlot" where
  "slot_store s p = \<lparr> sl_version = sl_version s + 2, sl_pose = p \<rparr>"

text \<open>One pass of the loop in \<^verbatim>\<open>load\<close>: nothing stored yet, a store in progress (go round again), or the
  pose.\<close>

datatype slotLoad = SlotEmpty | SlotRetry | SlotPose Pose

definition slot_load :: "poseSlot \<Rightarrow> slotLoad" where
  "slot_load s = (if sl_version s = 0 then SlotEmpty
     else if sl_version s mod 2 \<noteq> 0 then SlotRetry else SlotPose (sl_pose s))"

section \<open>The ring as the list of accepted poses\<close>

text \<open>The ring satisfies the contract of a frame ring of \<open>poseRingSize\<close> one-entry blocks.\<close>

definition accepted :: "poseRing \<Rightarrow> nat \<times> nat \<times> Pose \<Rightarrow> poseSample list" where
  "accepted r x = (case x of (seq, endSample, pose) \<Rightarrow>
     if pr_head r > 0 \<and> seq \<le> pr_lastSeq r then []
     else [\<lparr> ps_seq = seq, ps_endSample = endSample, ps_pose = pose \<rparr>])"

definition pushT :: "poseRing \<Rightarrow> nat \<times> nat \<times> Pose \<Rightarrow> poseRing" where
  "pushT r x = (case x of (seq, endSample, pose) \<Rightarrow> push r seq endSample pose)"

fun pushAll :: "poseRing \<Rightarrow> (nat \<times> nat \<times> Pose) list \<Rightarrow> poseRing" where
  "pushAll r [] = r"
| "pushAll r (x # xs) = pushAll (pushT r x) xs"

fun acceptedAll :: "poseRing \<Rightarrow> (nat \<times> nat \<times> Pose) list \<Rightarrow> poseSample list" where
  "acceptedAll r [] = []"
| "acceptedAll r (x # xs) = accepted r x @ acceptedAll (pushT r x) xs"

definition pr_ok :: "poseRing \<Rightarrow> bool" where
  "pr_ok r \<longleftrightarrow> length (pr_entries r) = poseRingSize \<and> (\<forall>e\<in>set (pr_entries r). even (pe_version e))"

definition pr_peek :: "poseRing \<Rightarrow> int \<Rightarrow> poseSample" where
  "pr_peek r p = pe_sample (pr_entries r ! (nat p mod poseRingSize))"

lemma push_ok:
  assumes "pr_ok r"
  shows "pr_ok (push r seq endSample pose)"
proof -
  let ?i = "pr_head r mod poseRingSize"
  have "?i < length (pr_entries r)" using assms by (simp add: pr_ok_def poseRingSize_def)
  then have "even (pe_version (pr_entries r ! ?i))" using assms nth_mem by (auto simp: pr_ok_def)
  then show ?thesis using assms
    by (auto simp: push_def Let_def pr_ok_def dest!: subsetD[OF set_update_subset_insert])
qed

lemma pos_distinct_slots:
  assumes "h < p + n" "p < h" "0 < n"
  shows "(p::nat) mod n \<noteq> h mod n"
proof
  assume "p mod n = h mod n"
  then have "n dvd h - p" using assms(2) by (metis mod_eq_dvd_iff_nat less_imp_le)
  then show False using assms by (auto dest: dvd_imp_le)
qed

interpretation pring: frame_ring pushT accepted pr_peek "\<lambda>r. int (pr_head r)" "\<lambda>_. int poseRingSize" pr_ok
proof
  fix r :: poseRing and x :: "nat \<times> nat \<times> Pose" and p :: int
  obtain seq es pose where x: "x = (seq, es, pose)" by (metis prod_cases3)
  show "pr_ok r \<Longrightarrow> pr_ok (pushT r x)" by (simp add: x pushT_def push_ok)
  show "int poseRingSize = int poseRingSize" ..
  show "int (length (accepted r x)) \<le> int poseRingSize" by (simp add: x accepted_def poseRingSize_def)
  show "0 \<le> int (pr_head r)" by simp
  show "int (pr_head (pushT r x)) = int (pr_head r) + int (length (accepted r x))"
    by (simp add: x pushT_def push_def accepted_def Let_def)
  assume ok: "pr_ok r"
  have i: "pr_head r mod poseRingSize < length (pr_entries r)" using ok by (simp add: pr_ok_def poseRingSize_def)
  show "pr_peek (pushT r x) p = accepted r x ! nat (p - int (pr_head r))"
    if "int (pr_head r) \<le> p" "p < int (pr_head r) + int (length (accepted r x))"
  proof -
    have "accepted r x \<noteq> []" using that by auto
    moreover from this have "p = int (pr_head r)" using that by (auto simp: x accepted_def split: if_splits)
    ultimately show ?thesis using i by (auto simp: x pr_peek_def pushT_def push_def accepted_def Let_def split: if_splits)
  qed
  show "pr_peek (pushT r x) p = pr_peek r p"
    if "0 \<le> p" "int (pr_head r) + int (length (accepted r x)) - int poseRingSize \<le> p" "p < int (pr_head r)"
  proof (cases "accepted r x = []")
    case True
    then show ?thesis by (simp add: x pushT_def push_def accepted_def Let_def split: if_splits)
  next
    case False
    then have "length (accepted r x) = 1" by (auto simp: x accepted_def split: if_splits)
    then have "nat p mod poseRingSize \<noteq> pr_head r mod poseRingSize"
      using that by (intro pos_distinct_slots) (auto simp: poseRingSize_def)
    then show ?thesis by (simp add: x pr_peek_def pushT_def push_def Let_def)
  qed
qed

lemma pushAll_foldl: "pushAll r xs = foldl pushT r xs"
  by (induction r xs rule: pushAll.induct) simp_all

lemma acceptedAll_written: "acceptedAll r xs = pring.written r xs"
  by (induction r xs rule: acceptedAll.induct) simp_all

lemma newPoseRing_ok: "pr_ok newPoseRing" "pring.holds newPoseRing []"
  by (auto simp: pr_ok_def newPoseRing_def pring.holds_def)

lemma pushAll_holds:
  "pr_ok (pushAll newPoseRing xs)" "pring.holds (pushAll newPoseRing xs) (acceptedAll newPoseRing xs)"
  using pring.holds_writes[OF newPoseRing_ok, of xs] by (simp_all add: pushAll_foldl acceptedAll_written)

lemma snapFrom_spec:
  assumes "pr_ok r" "pring.holds r S" "i \<le> poseRingSize"
  shows "snapFrom r i = take (poseRingSize - i) (drop i (rev S))"
  using assms(3)
proof (induction "poseRingSize - i" arbitrary: i)
  case 0
  then show ?case by (simp add: snapFrom.simps)
next
  case (Suc k)
  have hd: "pr_head r = length S" using assms(2) by (simp add: pring.holds_def)
  show ?case
  proof (cases "i < length S")
    case True
    let ?e = "pr_entries r ! ((pr_head r - 1 - i) mod poseRingSize)"
    have "(pr_head r - 1 - i) mod poseRingSize < length (pr_entries r)"
      using assms(1) by (simp add: pr_ok_def poseRingSize_def)
    then have ev: "even (pe_version ?e)" using assms(1) nth_mem by (auto simp: pr_ok_def)
    define q where "q = length S - 1 - i"
    have "int (length S) - int poseRingSize \<le> int q" "int q < int (length S)" using True Suc.hyps(2) by (auto simp: q_def)
    then have "pr_peek r (int q) = S ! nat (int q)"
      using assms(2) hd unfolding pring.holds_def by (metis of_nat_0_le_iff)
    then have "pe_sample (pr_entries r ! (q mod poseRingSize)) = S ! q" by (simp add: pr_peek_def)
    then have v: "pe_sample ?e = rev S ! i" using True hd by (simp add: rev_nth q_def)
    have "snapFrom r i = rev S ! i # snapFrom r (i + 1)"
      using True Suc.hyps(2) ev v hd by (subst snapFrom.simps) (simp add: Let_def)
    also have "snapFrom r (i + 1) = take (poseRingSize - (i + 1)) (drop (i + 1) (rev S))"
      using Suc by (intro Suc.hyps(1)) auto
    finally show ?thesis using True Suc.hyps(2)
      by (simp add: Cons_nth_drop_Suc[symmetric] Suc_diff_Suc[symmetric] take_Cons' del: take_Suc_Cons)
  next
    case False
    then show ?thesis using hd by (simp add: snapFrom.simps)
  qed
qed

lemma snapshot_spec: "pr_ok r \<Longrightarrow> pring.holds r S \<Longrightarrow> snapshot r = take poseRingSize (rev S)"
  using snapFrom_spec[of r S 0] by (simp add: snapshot_def)

section \<open>What poseAt computes\<close>

text \<open>\<open>ahead L W\<close> counts the leading entries of a newest-first window that lie beyond \<open>L\<close>.\<close>

definition ahead :: "nat \<Rightarrow> poseSample list \<Rightarrow> nat" where
  "ahead L W = length (takeWhile (\<lambda>e. L < ps_endSample e) W)"

definition between :: "poseSample \<Rightarrow> poseSample \<Rightarrow> nat \<Rightarrow> rat" where
  "between e a L = div64 (int64f (int (L - ps_endSample e))) (int64f (int (ps_endSample a - ps_endSample e)))"

lemma poseSearch_spec:
  assumes "\<And>a. after = Some a \<Longrightarrow> L < ps_endSample a"
  shows "poseSearch L after W =
    (let k = ahead L W in
     if k < length W then
       (if k = 0 then (case after of None \<Rightarrow> Some (ps_pose (W ! 0))
                       | Some a \<Rightarrow> Some (lerpPose (ps_pose (W ! 0)) (ps_pose a) (between (W ! 0) a L)))
        else Some (lerpPose (ps_pose (W ! k)) (ps_pose (W ! (k - 1))) (between (W ! k) (W ! (k - 1)) L)))
     else if W = [] then map_option ps_pose after else Some (ps_pose (last W)))"
  using assms
proof (induction L after W rule: poseSearch.induct)
  case (1 L after e es)
  show ?case
  proof (cases "ps_endSample e \<le> L")
    case True
    then show ?thesis using 1(2) by (auto simp: ahead_def Let_def between_def not_less split: option.splits)
  next
    case False
    then have IH: "poseSearch L (Some e) es = (let k = ahead L es in
     if k < length es then
       (if k = 0 then Some (lerpPose (ps_pose (es ! 0)) (ps_pose e) (between (es ! 0) e L))
        else Some (lerpPose (ps_pose (es ! k)) (ps_pose (es ! (k - 1))) (between (es ! k) (es ! (k - 1)) L)))
     else if es = [] then Some (ps_pose e) else Some (ps_pose (last es)))"
      using 1(1) by (simp add: Let_def)
    have k: "ahead L (e # es) = Suc (ahead L es)" using False by (simp add: ahead_def)
    show ?thesis using False unfolding k by (simp add: IH Let_def nth_Cons')
  qed
qed (auto simp: ahead_def)

lemma int64f_mono: "i \<le> j \<Longrightarrow> int64f i \<le> int64f j"
  by (simp add: int64f_def f64_mono)

lemma int64f_pos: "1 \<le> i \<Longrightarrow> 1 \<le> int64f i"
  using int64f_mono[of 1 i] by (simp add: int64f_def f64_numeral f64_of_int[of 1, simplified])

lemma between_unit:
  assumes "ps_endSample e \<le> L" "L < ps_endSample a"
  shows "0 \<le> between e a L" "between e a L \<le> 1"
proof -
  let ?n = "int64f (int (L - ps_endSample e))" and ?d = "int64f (int (ps_endSample a - ps_endSample e))"
  have d: "1 \<le> ?d" using assms by (intro int64f_pos) simp
  have n: "0 \<le> ?n" by (simp add: int64f_def f64_nonneg)
  have "?n \<le> ?d" using assms by (intro int64f_mono) simp
  then have "?n / ?d \<le> 1" using d by simp
  then show "between e a L \<le> 1" using f64_mono[of "?n / ?d" 1] f64_of_int[of 1] by (simp add: between_def div64_def)
  show "0 \<le> between e a L" using n d by (simp add: between_def div64_def f64_nonneg)
qed

lemma ahead_bracket:
  assumes "ahead L W < length W"
  shows "ps_endSample (W ! ahead L W) \<le> L" "0 < ahead L W \<Longrightarrow> L < ps_endSample (W ! (ahead L W - 1))"
proof -
  show "ps_endSample (W ! ahead L W) \<le> L"
    using nth_length_takeWhile[of "\<lambda>e. L < ps_endSample e" W] assms by (simp add: ahead_def)
  assume "0 < ahead L W"
  then have "ahead L W - 1 < length (takeWhile (\<lambda>e. L < ps_endSample e) W)" by (simp add: ahead_def)
  from nth_mem[OF this] have "takeWhile (\<lambda>e. L < ps_endSample e) W ! (ahead L W - 1) \<in> set (takeWhile (\<lambda>e. L < ps_endSample e) W)" .
  then show "L < ps_endSample (W ! (ahead L W - 1))"
    using takeWhile_nth[OF \<open>ahead L W - 1 < _\<close>] by (auto dest: set_takeWhileD)
qed

section \<open>Properties\<close>

text \<open>C18. \<^verbatim>\<open>poseAt\<close> over any sequence of pushes: of the up to 32 newest accepted poses (newest first),
  let \<open>k\<close> count those beyond \<open>L\<close>. With none beyond, the newest holds; with all beyond, the oldest is
  used; otherwise the two entries around \<open>L\<close> are interpolated, at a parameter between 0 and 1, and
  the subtraction of their positions cannot wrap.\<close>

theorem poseAt_brackets:
  "let W = take poseRingSize (rev (acceptedAll newPoseRing xs)); k = ahead L W
   in poseAt (pushAll newPoseRing xs) L =
        (if W = [] then None
         else if k = length W then Some (ps_pose (last W))
         else if k = 0 then Some (ps_pose (W ! 0))
         else Some (lerpPose (ps_pose (W ! k)) (ps_pose (W ! (k - 1))) (between (W ! k) (W ! (k - 1)) L)))
    \<and> (0 < k \<and> k < length W \<longrightarrow>
        ps_endSample (W ! k) \<le> L \<and> L < ps_endSample (W ! (k - 1)) \<and>
        0 \<le> between (W ! k) (W ! (k - 1)) L \<and> between (W ! k) (W ! (k - 1)) L \<le> 1)"
proof -
  define W where "W = take poseRingSize (rev (acceptedAll newPoseRing xs))"
  have snap: "snapshot (pushAll newPoseRing xs) = W" using snapshot_spec[OF pushAll_holds] by (simp add: W_def)
  have le: "ahead L W \<le> length W" by (simp add: ahead_def length_takeWhile_le)
  have "poseAt (pushAll newPoseRing xs) L =
      (if W = [] then None
         else if ahead L W = length W then Some (ps_pose (last W))
         else if ahead L W = 0 then Some (ps_pose (W ! 0))
         else Some (lerpPose (ps_pose (W ! ahead L W)) (ps_pose (W ! (ahead L W - 1)))
           (between (W ! ahead L W) (W ! (ahead L W - 1)) L)))"
    unfolding poseAt_def snap using poseSearch_spec[of None L W] le by (auto simp: Let_def)
  then show ?thesis using ahead_bracket[of L W] between_unit unfolding W_def[symmetric] Let_def by simp
qed

theorem poseAt_brackets_witness:
  "let p = (\<lambda>x. zeroPose \<lparr> pose_X := x \<rparr>);
       r = pushAll newPoseRing [(1, 240, p 0), (2, 480, p 4), (2, 480, p 9)]
   in poseAt r 360 = Some (p 2) \<and> poseAt r 480 = Some (p 4) \<and> poseAt r 0 = Some (p 0)"
proof -
  let ?p = "\<lambda>x. zeroPose \<lparr> pose_X := x \<rparr>"
  let ?xs = "[(1, 240, ?p 0), (2, 480, ?p 4), (2, 480, ?p 9)]"
  have acc: "acceptedAll newPoseRing ?xs = [\<lparr> ps_seq = 1, ps_endSample = 240, ps_pose = ?p 0 \<rparr>,
      \<lparr> ps_seq = 2, ps_endSample = 480, ps_pose = ?p 4 \<rparr>]"
    by (simp add: accepted_def pushT_def push_def newPoseRing_def Let_def)
  have half: "div64 (int64f 120) (int64f 240) = 1 / 2" by code_simp
  have l: "lerpPose (?p 0) (?p 4) (1 / 2) = ?p 2" by code_simp
  show ?thesis
    using poseAt_brackets[of ?xs 360] poseAt_brackets[of ?xs 480] poseAt_brackets[of ?xs 0]
    unfolding acc by (simp add: Let_def ahead_def between_def poseRingSize_def half l)
qed

text \<open>Latest wins: the sequence numbers of the accepted poses strictly increase, so a reordered or
  duplicated packet never replaces a newer pose.\<close>

theorem pose_seq_increasing: "sorted_wrt (<) (map ps_seq (acceptedAll newPoseRing xs))"
proof -
  have bound: "pr_head r > 0 \<Longrightarrow> \<forall>e\<in>set (acceptedAll r xs). pr_lastSeq r < ps_seq e" for r xs
  proof (induction r xs rule: acceptedAll.induct)
    case (2 r x xs)
    obtain seq es pose where x: "x = (seq, es, pose)" by (metis prod_cases3)
    show ?case using 2
      by (auto simp: x accepted_def pushT_def push_def Let_def not_le intro: less_trans split: if_splits)
  qed simp
  have "sorted_wrt (<) (map ps_seq (acceptedAll r xs))" for r
  proof (induction r xs rule: acceptedAll.induct)
    case (2 r x xs)
    obtain seq es pose where x: "x = (seq, es, pose)" by (metis prod_cases3)
    show ?case using 2 bound[of "pushT r x" xs]
      by (auto simp: x accepted_def pushT_def push_def Let_def split: if_splits)
  qed simp
  then show ?thesis .
qed

end
