(* ===== verification/Pose_Seqlock.thy ===== *)
theory Pose_Seqlock
  imports Pose_Store
begin

text \<open>
  The version protocol of \<^verbatim>\<open>poseEntry\<close> and \<^verbatim>\<open>poseSlot\<close> (\<^verbatim>\<open>src/engine/engine/pose.go\<close>) at the grain of its
  atomic accesses. One writer stores the odd version, then the fields one by one, then the even
  version; one reader loads the version, the fields one by one, and the version again. Go's atomics
  are sequentially consistent, so an execution is an interleaving of these steps. The locale
  \<open>packed\<close> is what the protocol needs of a record stored as separate words; the ring entry (eight
  words) and the slot (six) are its instances.
\<close>

section \<open>One cell, one writer, one reader\<close>

text \<open>\<open>w_pc\<close> is the number of fields the writer has stored of \<open>w_new\<close> (\<open>None\<close>: idle); \<open>r_pc\<close> the
  number of fields the reader has copied since it loaded \<open>r_v1\<close> (\<open>None\<close>: not reading); \<open>c_hist\<close> is
  the ghost list of contents published so far, initial contents first; \<open>r_out\<close> is the list of
  copies the reader accepted, with the version each was accepted at.\<close>

record 'v cell =
  c_version :: nat
  c_fields :: "'v list"
  w_pc :: "nat option"
  w_new :: "'v list"
  r_pc :: "nat option"
  r_v1 :: nat
  r_copy :: "'v list"
  c_hist :: "'v list list"
  r_out :: "(nat \<times> 'v list) list"

definition cell_init :: "'v list \<Rightarrow> 'v cell" where
  "cell_init fs = \<lparr> c_version = 0, c_fields = fs, w_pc = None, w_new = [], r_pc = None, r_v1 = 0,
     r_copy = [], c_hist = [fs], r_out = [] \<rparr>"

text \<open>The atomic steps, in program order for each side. A reader that finds an odd version, or whose
  second load differs, gives up this attempt (\<^verbatim>\<open>snapshot\<close> ends its scan, \<^verbatim>\<open>load\<close> goes round again). A reader that finds
  version zero reads nothing: \<^verbatim>\<open>load\<close> returns that there is no pose, and \<^verbatim>\<open>snapshot\<close> only visits entries below the head,
  which have been stored to.\<close>

inductive cell_step :: "'v cell \<Rightarrow> 'v cell \<Rightarrow> bool" where
  w_begin: "w_pc s = None \<Longrightarrow> length new = length (c_fields s) \<Longrightarrow>
    cell_step s (s \<lparr> c_version := c_version s + 1, w_pc := Some 0, w_new := new \<rparr>)"
| w_field: "w_pc s = Some i \<Longrightarrow> i < length (c_fields s) \<Longrightarrow>
    cell_step s (s \<lparr> c_fields := (c_fields s)[i := w_new s ! i], w_pc := Some (Suc i) \<rparr>)"
| w_end: "w_pc s = Some i \<Longrightarrow> i = length (c_fields s) \<Longrightarrow>
    cell_step s (s \<lparr> c_version := c_version s + 1, w_pc := None, c_hist := c_hist s @ [c_fields s] \<rparr>)"
| r_begin: "r_pc s = None \<Longrightarrow> even (c_version s) \<Longrightarrow> c_version s \<noteq> 0 \<Longrightarrow>
    cell_step s (s \<lparr> r_pc := Some 0, r_v1 := c_version s, r_copy := [] \<rparr>)"
| r_none: "r_pc s = None \<Longrightarrow> odd (c_version s) \<or> c_version s = 0 \<Longrightarrow> cell_step s s"
| r_field: "r_pc s = Some i \<Longrightarrow> i < length (c_fields s) \<Longrightarrow>
    cell_step s (s \<lparr> r_pc := Some (Suc i), r_copy := r_copy s @ [c_fields s ! i] \<rparr>)"
| r_accept: "r_pc s = Some i \<Longrightarrow> i = length (c_fields s) \<Longrightarrow> c_version s = r_v1 s \<Longrightarrow>
    cell_step s (s \<lparr> r_pc := None, r_out := r_out s @ [(r_v1 s, r_copy s)] \<rparr>)"
| r_reject: "r_pc s = Some i \<Longrightarrow> i = length (c_fields s) \<Longrightarrow> c_version s \<noteq> r_v1 s \<Longrightarrow>
    cell_step s (s \<lparr> r_pc := None \<rparr>)"

inductive cell_reach :: "'v list \<Rightarrow> 'v cell \<Rightarrow> bool" for fs where
  reach_init: "cell_reach fs (cell_init fs)"
| reach_step: "cell_reach fs s \<Longrightarrow> cell_step s s' \<Longrightarrow> cell_reach fs s'"

inductive_cases cell_stepE: "cell_step s s'"

section \<open>The invariant\<close>

text \<open>Idle, the cell holds the last published contents under an even version; while a store is in
  progress the version is odd. What the reader has copied is a prefix of the contents published at
  the version it first loaded, as long as that version still stands. Accepted copies are published
  contents, and the versions they were accepted at never decrease.\<close>

definition w_inv :: "'v cell \<Rightarrow> bool" where
  "w_inv s \<longleftrightarrow> c_hist s \<noteq> [] \<and>
    (case w_pc s of
       None \<Rightarrow> c_version s + 2 = 2 * length (c_hist s) \<and> c_fields s = last (c_hist s)
     | Some i \<Rightarrow> c_version s + 1 = 2 * length (c_hist s) \<and> i \<le> length (c_fields s) \<and>
         length (w_new s) = length (c_fields s))"

definition r_inv :: "'v cell \<Rightarrow> bool" where
  "r_inv s \<longleftrightarrow> (case r_pc s of
       None \<Rightarrow> True
     | Some i \<Rightarrow> even (r_v1 s) \<and> 0 < r_v1 s \<and> r_v1 s \<le> c_version s \<and> i \<le> length (c_fields s) \<and>
         (c_version s = r_v1 s \<longrightarrow> r_copy s = take i (c_hist s ! (r_v1 s div 2))))"

definition out_inv :: "'v cell \<Rightarrow> bool" where
  "out_inv s \<longleftrightarrow> (\<forall>(v, x)\<in>set (r_out s). even v \<and> 0 < v \<and> v \<le> c_version s \<and> v div 2 < length (c_hist s) \<and>
      x = c_hist s ! (v div 2)) \<and> sorted (map fst (r_out s)) \<and> (\<forall>h\<in>set (c_hist s). length h = length (c_fields s))"

definition cell_inv :: "'v cell \<Rightarrow> bool" where
  "cell_inv s \<longleftrightarrow> w_inv s \<and> r_inv s \<and> out_inv s"

lemma w_inv_even: "w_inv s \<Longrightarrow> even (c_version s) \<Longrightarrow>
    w_pc s = None \<and> c_fields s = c_hist s ! (c_version s div 2) \<and> c_version s div 2 < length (c_hist s)"
proof (cases "w_pc s")
  case None
  assume "w_inv s"
  then have "c_hist s \<noteq> []" "c_version s = 2 * (length (c_hist s) - 1)" "c_fields s = last (c_hist s)"
    using None by (auto simp: w_inv_def)
  then show ?thesis using None by (simp add: last_conv_nth)
next
  case (Some i)
  assume "w_inv s" "even (c_version s)"
  then have "even (c_version s + 1)" using Some by (simp add: w_inv_def)
  then show ?thesis using \<open>even (c_version s)\<close> by simp
qed

lemma cell_inv_init: "cell_inv (cell_init fs)"
  by (simp add: cell_inv_def w_inv_def r_inv_def out_inv_def cell_init_def)

lemma w_inv_step: "cell_step s s' \<Longrightarrow> w_inv s \<Longrightarrow> w_inv s'"
  by (erule cell_step.cases; cases "w_pc s") (auto simp: w_inv_def)

lemma r_inv_step:
  assumes "cell_step s s'" "w_inv s" "r_inv s"
  shows "r_inv s'"
  using assms(1)
proof (cases rule: cell_step.cases)
  case (w_end i)
  then show ?thesis using assms(2,3) by (auto simp: r_inv_def nth_append split: option.splits)
next
  case (r_begin)
  then show ?thesis using assms(3) by (simp add: r_inv_def)
next
  case (r_field i)
  then have "c_version s = r_v1 s \<Longrightarrow> c_fields s = c_hist s ! (r_v1 s div 2)"
    using w_inv_even[OF assms(2)] assms(3) by (simp add: r_inv_def)
  then show ?thesis using r_field assms(3) by (auto simp: r_inv_def take_Suc_conv_app_nth)
next
  case (w_field i)
  then have "even (c_version s + 1)" using assms(2) by (simp add: w_inv_def)
  then have "odd (c_version s)" by simp
  then show ?thesis using w_field assms(3) by (auto simp: r_inv_def split: option.splits)
qed (use assms(3) in \<open>auto simp: r_inv_def split: option.splits\<close>)

lemma out_inv_step:
  assumes "cell_step s s'" "w_inv s" "r_inv s" "out_inv s"
  shows "out_inv s'"
  using assms(1)
proof (cases rule: cell_step.cases)
  case (w_end i)
  then show ?thesis using assms(4) by (auto simp: out_inv_def nth_append)
next
  case (r_accept i)
  then have ev: "even (r_v1 s)" "0 < r_v1 s" using assms(3) by (simp_all add: r_inv_def)
  then have f: "c_fields s = c_hist s ! (r_v1 s div 2)" "r_v1 s div 2 < length (c_hist s)"
    using w_inv_even[OF assms(2)] r_accept by auto
  then have c: "r_copy s = c_hist s ! (r_v1 s div 2)" using r_accept assms(3) by (auto simp: r_inv_def)
  have "\<forall>v\<in>set (map fst (r_out s)). v \<le> r_v1 s" using assms(4) r_accept by (auto simp: out_inv_def)
  moreover have o: "r_out s' = r_out s @ [(r_v1 s, r_copy s)]" "c_hist s' = c_hist s" "c_version s' = r_v1 s" "c_fields s' = c_fields s"
    using r_accept by simp_all
  ultimately have "sorted (map fst (r_out s'))" using assms(4) by (simp add: out_inv_def sorted_append)
  moreover have "\<forall>(v, x)\<in>set (r_out s'). even v \<and> 0 < v \<and> v \<le> c_version s' \<and> v div 2 < length (c_hist s') \<and> x = c_hist s' ! (v div 2)"
    using assms(4) ev f(2) c r_accept(4) unfolding o by (simp add: out_inv_def)
  ultimately show ?thesis using assms(4) o unfolding out_inv_def by simp
qed (use assms(4) in \<open>auto simp: out_inv_def\<close>)

lemma cell_reach_inv: "cell_reach fs s \<Longrightarrow> cell_inv s"
proof (induction rule: cell_reach.induct)
  case reach_init
  show ?case by (rule cell_inv_init)
next
  case (reach_step s s')
  then show ?case using w_inv_step r_inv_step out_inv_step unfolding cell_inv_def by blast
qed

section \<open>Records stored as words\<close>

text \<open>What a stored record needs: the words determine it. Under the protocol, every value a reader
  accepts is then one the writer published (or the initial one), read as a whole.\<close>

locale packed =
  fixes pack :: "'a \<Rightarrow> 'v list" and unpack :: "'v list \<Rightarrow> 'a" and width :: nat
  assumes length_pack: "length (pack x) = width"
    and unpack_pack: "unpack (pack x) = x"
begin

text \<open>Executions in which the writer only stores packed records.\<close>

inductive run :: "'a \<Rightarrow> 'v cell \<Rightarrow> 'a list \<Rightarrow> bool" for x0 where
  run_init: "run x0 (cell_init (pack x0)) [x0]"
| run_begin: "run x0 s xs \<Longrightarrow> w_pc s = None \<Longrightarrow>
    run x0 (s \<lparr> c_version := c_version s + 1, w_pc := Some 0, w_new := pack x \<rparr>) (xs @ [x])"
| run_step: "run x0 s xs \<Longrightarrow> cell_step s s' \<Longrightarrow> w_pc s \<noteq> None \<or> w_pc s' = None \<Longrightarrow> run x0 s' xs"

definition stored :: "'v cell \<Rightarrow> 'a list \<Rightarrow> bool" where
  "stored s xs \<longleftrightarrow> length (c_fields s) = width \<and>
     (case w_pc s of
        None \<Rightarrow> c_hist s = map pack xs
      | Some i \<Rightarrow> xs \<noteq> [] \<and> c_hist s = map pack (butlast xs) \<and> w_new s = pack (last xs) \<and>
          take i (c_fields s) = take i (w_new s) \<and> i \<le> width)"

lemma stored_step:
  assumes "stored s xs" "cell_step s s'" "w_pc s \<noteq> None \<or> w_pc s' = None"
  shows "stored s' xs"
  using assms(2)
proof (cases rule: cell_step.cases)
  case (w_begin new)
  then show ?thesis using assms(3) by simp
next
  case (w_field i)
  then have "take i (c_fields s) = take i (w_new s)" "i < length (c_fields s)" "i < length (w_new s)"
    using assms(1) by (auto simp: stored_def length_pack)
  then have "take (Suc i) ((c_fields s)[i := w_new s ! i]) = take (Suc i) (w_new s)"
    by (simp add: take_Suc_conv_app_nth)
  then show ?thesis using w_field assms(1) by (auto simp: stored_def)
next
  case (w_end i)
  have st: "take i (c_fields s) = take i (w_new s) \<and> w_new s = pack (last xs) \<and> length (c_fields s) = width"
    using assms(1) w_end(2) unfolding stored_def by force
  then have "c_fields s = pack (last xs)" using w_end(3) by (metis length_pack order_refl take_all)
  moreover have "xs \<noteq> []" "c_hist s = map pack (butlast xs)" using w_end assms(1) by (auto simp: stored_def)
  ultimately have "c_hist s @ [c_fields s] = map pack xs" by (metis append_butlast_last_id list.map(1,2) map_append)
  then show ?thesis using w_end assms(1) by (simp add: stored_def)
qed (use assms(1) in \<open>auto simp: stored_def split: option.splits\<close>)

lemma run_stored: "run x0 s xs \<Longrightarrow> cell_inv s \<and> stored s xs"
proof (induction rule: run.induct)
  case run_init
  show ?case by (simp add: cell_inv_init stored_def length_pack) (simp add: cell_init_def length_pack)
next
  case (run_begin s xs x)
  let ?s = "s \<lparr> c_version := c_version s + 1, w_pc := Some 0, w_new := pack x \<rparr>"
  have "length (c_fields s) = width" using run_begin by (simp add: stored_def)
  then have "cell_step s ?s" using run_begin(2) by (intro w_begin) (simp_all add: length_pack)
  then have "cell_inv ?s" using run_begin w_inv_step r_inv_step out_inv_step unfolding cell_inv_def by blast
  moreover have "stored ?s (xs @ [x])" using run_begin by (simp add: stored_def)
  ultimately show ?case by blast
next
  case (run_step s xs s')
  then have "cell_inv s'" using w_inv_step r_inv_step out_inv_step unfolding cell_inv_def by blast
  then show ?case using run_step stored_step by blast
qed

text \<open>No torn read: an accepted copy is the packing of the record published at the version it was
  accepted at, and never the contents from before the first store.\<close>

lemma accepted_published:
  assumes "run x0 s xs" "(v, c) \<in> set (r_out s)"
  shows "1 \<le> v div 2 \<and> v div 2 < length xs \<and> unpack c = xs ! (v div 2)"
proof -
  have i: "out_inv s" "stored s xs" using run_stored[OF assms(1)] by (auto simp: cell_inv_def)
  then have h: "v div 2 < length (c_hist s)" "c = c_hist s ! (v div 2)" "even v" "0 < v" using assms(2) by (auto simp: out_inv_def)
  then have "1 \<le> v div 2" by (auto elim: evenE)
  have "c_hist s = map pack xs \<or> (xs \<noteq> [] \<and> c_hist s = map pack (butlast xs))"
    using i(2) by (auto simp: stored_def split: option.splits)
  then show ?thesis using h \<open>1 \<le> v div 2\<close> by (auto simp: unpack_pack nth_butlast)
qed

lemma accepted_order:
  assumes "run x0 s xs" "i \<le> j" "j < length (r_out s)"
  shows "fst (r_out s ! i) \<le> fst (r_out s ! j)"
proof -
  have "sorted (map fst (r_out s))" using run_stored[OF assms(1)] by (simp add: cell_inv_def out_inv_def)
  from sorted_nth_mono[OF this assms(2)] show ?thesis using assms by simp
qed

text \<open>A store needs nothing of the reader: from any idle state, \<open>width + 2\<close> steps of the writer publish a record.\<close>

lemma store_fields:
  assumes "run x0 s xs" "w_pc s = Some 0" "i \<le> length (c_fields s)"
  shows "\<exists>s'. run x0 s' xs \<and> w_pc s' = Some i \<and> r_pc s' = r_pc s \<and> r_out s' = r_out s \<and> length (c_fields s') = length (c_fields s)"
  using assms(3)
proof (induction i)
  case 0
  then show ?case using assms(1,2) by blast
next
  case (Suc i)
  then obtain s' where s': "run x0 s' xs" "w_pc s' = Some i" "r_pc s' = r_pc s" "r_out s' = r_out s" "length (c_fields s') = length (c_fields s)" by auto
  have "cell_step s' (s' \<lparr> c_fields := (c_fields s')[i := w_new s' ! i], w_pc := Some (Suc i) \<rparr>)" using Suc.prems s' by (intro w_field) simp_all
  from run_step[OF s'(1) this] show ?case using s' by (intro exI[of _ "s' \<lparr> c_fields := (c_fields s')[i := w_new s' ! i], w_pc := Some (Suc i) \<rparr>"]) simp
qed

lemma store_publishes:
  assumes "run x0 s xs" "w_pc s = None"
  shows "\<exists>s'. run x0 s' (xs @ [x]) \<and> w_pc s' = None \<and> r_pc s' = r_pc s \<and> r_out s' = r_out s"
proof -
  let ?s = "s \<lparr> c_version := c_version s + 1, w_pc := Some 0, w_new := pack x \<rparr>"
  obtain s' where s': "run x0 s' (xs @ [x])" "w_pc s' = Some (length (c_fields s))" "r_pc s' = r_pc s" "r_out s' = r_out s" "length (c_fields s') = length (c_fields s)"
    using store_fields[OF run_begin[OF assms, of x], of "length (c_fields s)"] by auto
  have "cell_step s' (s' \<lparr> c_version := c_version s' + 1, w_pc := None, c_hist := c_hist s' @ [c_fields s'] \<rparr>)" using s' by (intro w_end) simp_all
  from run_step[OF s'(1) this] show ?thesis
    using s' by (intro exI[of _ "s' \<lparr> c_version := c_version s' + 1, w_pc := None, c_hist := c_hist s' @ [c_fields s'] \<rparr>"]) simp
qed

text \<open>And a read that no store crosses is accepted.\<close>

lemma read_fields:
  assumes "run x0 s xs" "r_pc s = Some 0" "r_copy s = []" "w_pc s = None" "i \<le> length (c_fields s)"
  shows "\<exists>s'. run x0 s' xs \<and> w_pc s' = None \<and> r_pc s' = Some i \<and> r_copy s' = take i (c_fields s) \<and>
    r_v1 s' = r_v1 s \<and> c_version s' = c_version s \<and> c_fields s' = c_fields s \<and> r_out s' = r_out s"
  using assms(5)
proof (induction i)
  case 0
  then show ?case using assms(1-4) by (intro exI[of _ s]) simp
next
  case (Suc i)
  then obtain s' where s': "run x0 s' xs" "w_pc s' = None" "r_pc s' = Some i" "r_copy s' = take i (c_fields s)" "r_v1 s' = r_v1 s"
    "c_version s' = c_version s" "c_fields s' = c_fields s" "r_out s' = r_out s" by auto
  have "cell_step s' (s' \<lparr> r_pc := Some (Suc i), r_copy := r_copy s' @ [c_fields s' ! i] \<rparr>)" using Suc.prems s' by (intro r_field) simp_all
  from run_step[OF s'(1) this] show ?case using s' Suc.prems
    by (intro exI[of _ "s' \<lparr> r_pc := Some (Suc i), r_copy := r_copy s' @ [c_fields s' ! i] \<rparr>"]) (simp add: take_Suc_conv_app_nth)
qed

lemma read_completes:
  assumes "run x0 s xs" "w_pc s = None" "r_pc s = None" "even (c_version s)" "c_version s \<noteq> 0"
  shows "\<exists>s'. run x0 s' xs \<and> r_out s' = r_out s @ [(c_version s, c_fields s)]"
proof -
  let ?s = "s \<lparr> r_pc := Some 0, r_v1 := c_version s, r_copy := [] \<rparr>"
  have "run x0 ?s xs" using run_step[OF assms(1) r_begin[OF assms(3-5)]] assms(2) by simp
  then obtain s' where s': "run x0 s' xs" "w_pc s' = None" "r_pc s' = Some (length (c_fields s))" "r_copy s' = c_fields s" "r_v1 s' = c_version s"
    "c_version s' = c_version s" "c_fields s' = c_fields s" "r_out s' = r_out s"
    using read_fields[of x0 ?s xs "length (c_fields s)"] assms(2) by auto
  have "cell_step s' (s' \<lparr> r_pc := None, r_out := r_out s' @ [(r_v1 s', r_copy s')] \<rparr>)" using s' by (intro r_accept) simp_all
  from run_step[OF s'(1) this] show ?thesis using s' by (intro exI[of _ "s' \<lparr> r_pc := None, r_out := r_out s' @ [(r_v1 s', r_copy s')] \<rparr>"]) simp
qed

end

section \<open>The two stores of the engine\<close>

text \<open>\<^verbatim>\<open>atomicPose\<close> stores the six fields in this order; \<^verbatim>\<open>poseEntry\<close> stores the sequence number and the
  sample position before them.\<close>

definition packPose :: "Pose \<Rightarrow> rat list" where
  "packPose p = [pose_X p, pose_Y p, pose_Z p, pose_Yaw p, pose_Pitch p, pose_Roll p]"

definition unpackPose :: "rat list \<Rightarrow> Pose" where
  "unpackPose v = \<lparr> pose_X = v ! 0, pose_Y = v ! 1, pose_Z = v ! 2, pose_Yaw = v ! 3, pose_Pitch = v ! 4, pose_Roll = v ! 5 \<rparr>"

definition packSample :: "poseSample \<Rightarrow> rat list" where
  "packSample e = of_nat (ps_seq e) # of_nat (ps_endSample e) # packPose (ps_pose e)"

definition unpackSample :: "rat list \<Rightarrow> poseSample" where
  "unpackSample v = \<lparr> ps_seq = nat \<lfloor>v ! 0\<rfloor>, ps_endSample = nat \<lfloor>v ! 1\<rfloor>, ps_pose = unpackPose (drop 2 v) \<rparr>"

interpretation slot_cell: packed packPose unpackPose 6
  by unfold_locales (simp_all add: packPose_def unpackPose_def)

interpretation entry_cell: packed packSample unpackSample 8
  by unfold_locales (simp_all add: packSample_def packPose_def unpackSample_def unpackPose_def)

section \<open>Properties\<close>

text \<open>C19. The sink's pose slot never yields a torn pose, nor one that was never stored: in every interleaving of the writer's and the
  reader's atomic accesses, a pose the reader accepts is one of the poses stored, whole (the contents before the first store, which
  stand at the head of the list, are never returned), and the poses accepted are in the order in which they were stored.\<close>

theorem poseSlot_no_torn_read:
  assumes "slot_cell.run p0 s ps" "i \<le> j" "j < length (r_out s)"
  shows "\<exists>a b. 1 \<le> a \<and> a \<le> b \<and> b < length ps \<and>
    unpackPose (snd (r_out s ! i)) = ps ! a \<and> unpackPose (snd (r_out s ! j)) = ps ! b"
proof -
  have "(fst (r_out s ! k), snd (r_out s ! k)) \<in> set (r_out s)" if "k < length (r_out s)" for k
    using that by simp
  then have "1 \<le> fst (r_out s ! k) div 2 \<and> fst (r_out s ! k) div 2 < length ps \<and> unpackPose (snd (r_out s ! k)) = ps ! (fst (r_out s ! k) div 2)"
    if "k < length (r_out s)" for k using slot_cell.accepted_published[OF assms(1)] that by blast
  then show ?thesis using slot_cell.accepted_order[OF assms] assms(2,3) by (meson div_le_mono le_less_trans)
qed

lemma demo_slot_run: "\<exists>s. slot_cell.run p s [p, q] \<and> r_out s = [(2, packPose q)]"
proof -
  obtain s where s: "slot_cell.run p s [p, q]" "w_pc s = None" "r_pc s = None" "r_out s = []"
    using slot_cell.store_publishes[OF slot_cell.run_init, of p q] by (auto simp: cell_init_def)
  have "cell_inv s" "slot_cell.stored s [p, q]" using slot_cell.run_stored[OF s(1)] by simp_all
  then have "c_version s = 2" "c_fields s = packPose q" using s(2) by (auto simp: cell_inv_def w_inv_def slot_cell.stored_def)
  then show ?thesis using slot_cell.read_completes[OF s(1-3)] s(4) by auto
qed

theorem poseSlot_no_torn_read_witness:
  "\<exists>s. slot_cell.run zeroPose s [zeroPose, zeroPose \<lparr> pose_X := 3 \<rparr>] \<and> r_out s = [(2, packPose (zeroPose \<lparr> pose_X := 3 \<rparr>))] \<and>
     (\<exists>a. 1 \<le> a \<and> a < 2 \<and> unpackPose (snd (r_out s ! 0)) = [zeroPose, zeroPose \<lparr> pose_X := 3 \<rparr>] ! a)"
proof -
  obtain s where s: "slot_cell.run zeroPose s [zeroPose, zeroPose \<lparr> pose_X := 3 \<rparr>]" "r_out s = [(2, packPose (zeroPose \<lparr> pose_X := 3 \<rparr>))]" using demo_slot_run by blast
  obtain a b where "1 \<le> a" "a \<le> b" "b < length [zeroPose, zeroPose \<lparr> pose_X := 3 \<rparr>]" "unpackPose (snd (r_out s ! 0)) = [zeroPose, zeroPose \<lparr> pose_X := 3 \<rparr>] ! a"
    using poseSlot_no_torn_read[OF s(1), of 0 0] s(2) by auto
  then show ?thesis using s by (intro exI[of _ s] conjI exI[of _ a]) simp_all
qed

text \<open>The same for an entry of the source-pose ring: an accepted sample is a pushed one with its own
  sequence number, position and pose.\<close>

lemma poseEntry_no_torn_read:
  assumes "entry_cell.run e0 s es" "(v, c) \<in> set (r_out s)"
  shows "unpackSample c \<in> set es"
  using entry_cell.accepted_published[OF assms] nth_mem by metis

end
