(* ===== verification/Pose_Progress.thy ===== *)
theory Pose_Progress
  imports Pose_Seqlock
begin

text \<open>
  The retry loop of \<^verbatim>\<open>poseSlot.load\<close> (\<^verbatim>\<open>src/engine/engine/pose.go\<close>) has no bound of its own: it goes round as long as
  stores keep crossing it. Here it is run one atomic access at a time, and once no store is in progress it returns
  within a fixed number of accesses, whatever attempt it was in the middle of.
\<close>

section \<open>The loop, one access at a time\<close>

text \<open>\<open>Inr\<close> is the return: \<open>None\<close> when no pose was ever stored, otherwise the six fields copied.\<close>

definition load_step :: "'v cell \<Rightarrow> 'v cell + 'v list option" where
  "load_step s = (case r_pc s of
     None \<Rightarrow> if c_version s = 0 then Inr None
             else if c_version s mod 2 \<noteq> 0 then Inl s
             else Inl (s \<lparr> r_pc := Some 0, r_v1 := c_version s, r_copy := [] \<rparr>)
   | Some i \<Rightarrow> if i < length (c_fields s) then Inl (s \<lparr> r_pc := Some (Suc i), r_copy := r_copy s @ [c_fields s ! i] \<rparr>)
             else if c_version s = r_v1 s then Inr (Some (r_copy s))
             else Inl (s \<lparr> r_pc := None \<rparr>))"

fun load_within :: "nat \<Rightarrow> 'v cell \<Rightarrow> 'v list option option" where
  "load_within 0 s = None"
| "load_within (Suc k) s = (case load_step s of Inr r \<Rightarrow> Some r | Inl s' \<Rightarrow> load_within k s')"

text \<open>Each access that does not return is a step of the protocol.\<close>

lemma load_step_is_step:
  assumes "load_step s = Inl s'" "r_inv s"
  shows "cell_step s s'"
proof (cases "r_pc s")
  case None
  then show ?thesis using assms(1) r_none[OF None] r_begin[OF None] by (auto simp: load_step_def odd_iff_mod_2_eq_one even_iff_mod_2_eq_zero split: if_splits)
next
  case (Some i)
  then have "i \<le> length (c_fields s)" using assms(2) by (simp add: r_inv_def)
  then show ?thesis using Some assms(1) r_field[OF Some] r_reject[OF Some] by (auto simp: load_step_def split: if_splits)
qed

lemma load_within_mono: "load_within k s = Some r \<Longrightarrow> k \<le> k' \<Longrightarrow> load_within k' s = Some r"
proof (induction k arbitrary: s k')
  case (Suc k)
  then obtain j where "k' = Suc j" "k \<le> j" by (cases k') auto
  then show ?case using Suc by (auto split: sum.splits)
qed simp

section \<open>One attempt\<close>

lemma load_copies:
  assumes "r_pc s = Some i" "i + d = length (c_fields s)"
  shows "load_within (d + k) s = load_within k (s \<lparr> r_pc := Some (i + d), r_copy := r_copy s @ take d (drop i (c_fields s)) \<rparr>)"
  using assms
proof (induction d arbitrary: s i)
  case 0
  then have "s \<lparr> r_pc := Some (i + 0), r_copy := r_copy s @ take 0 (drop i (c_fields s)) \<rparr> = s" by simp
  then show ?case by simp
next
  case (Suc d)
  let ?s = "s \<lparr> r_pc := Some (Suc i), r_copy := r_copy s @ [c_fields s ! i] \<rparr>"
  have i: "i < length (c_fields s)" using Suc.prems by simp
  then have "load_within (Suc d + k) s = load_within (d + k) ?s" using Suc.prems by (simp add: load_step_def)
  also have "\<dots> = load_within k (?s \<lparr> r_pc := Some (Suc i + d), r_copy := r_copy ?s @ take d (drop (Suc i) (c_fields ?s)) \<rparr>)"
    by (rule Suc.IH) (use Suc.prems in simp_all)
  finally show ?case using i by (simp add: Cons_nth_drop_Suc[symmetric])
qed

lemma load_finishes:
  assumes "r_pc s = Some i" "i \<le> length (c_fields s)" "c_version s = r_v1 s"
  shows "load_within (length (c_fields s) - i + 1) s = Some (Some (r_copy s @ drop i (c_fields s)))"
  using load_copies[OF assms(1), of "length (c_fields s) - i" 1] assms by (simp add: load_step_def)

lemma load_starts:
  assumes "r_pc s = None" "c_version s \<noteq> 0" "even (c_version s)"
  shows "load_within (length (c_fields s) + 2) s = Some (Some (c_fields s))"
  using load_finishes[of "s \<lparr> r_pc := Some 0, r_v1 := c_version s, r_copy := [] \<rparr>" 0] assms
  by (simp add: load_step_def eval_nat_numeral)

lemma load_retries:
  assumes "r_pc s = Some i" "i \<le> length (c_fields s)" "c_version s \<noteq> r_v1 s" "c_version s \<noteq> 0" "even (c_version s)"
  shows "load_within (length (c_fields s) - i + (length (c_fields s) + 3)) s = Some (Some (c_fields s))"
  using load_copies[OF assms(1), of "length (c_fields s) - i" "length (c_fields s) + 3"] assms
    load_starts[of "s \<lparr> r_pc := None, r_copy := r_copy s @ drop i (c_fields s) \<rparr>"]
  by (simp add: load_step_def eval_nat_numeral)

lemma idle_load:
  assumes "cell_inv s" "w_pc s = None"
  shows "load_within (2 * length (c_fields s) + 3) s = Some (if c_version s = 0 then None else Some (c_fields s))"
proof (cases "r_pc s")
  case None
  have "even (c_version s + 2)" using assms(1,2) by (simp add: cell_inv_def w_inv_def)
  then have e: "even (c_version s)" by simp
  have "load_within (length (c_fields s) + 2) s = Some (if c_version s = 0 then None else Some (c_fields s))"
    using load_starts[OF None _ e] None by (cases "c_version s = 0") (simp_all add: load_step_def)
  then show ?thesis by (rule load_within_mono) simp
next
  case (Some i)
  have w: "w_inv s" "r_inv s" using assms(1) by (simp_all add: cell_inv_def)
  then have "even (c_version s + 2)" using assms(2) by (simp add: w_inv_def)
  then have e: "even (c_version s)" "c_fields s = c_hist s ! (c_version s div 2)" using w_inv_even[OF w(1)] by simp_all
  have i: "i \<le> length (c_fields s)" "r_v1 s \<le> c_version s" "c_version s = r_v1 s \<Longrightarrow> r_copy s = take i (c_fields s)"
    using w(2) Some e(2) by (auto simp: r_inv_def)
  have z: "c_version s \<noteq> 0" using w(2) Some i(2) by (simp add: r_inv_def)
  have "\<exists>k\<le>2 * length (c_fields s) + 3. load_within k s = Some (Some (c_fields s))"
  proof (cases "c_version s = r_v1 s")
    case True
    then show ?thesis using load_finishes[OF Some i(1) True] i(3) by (intro exI[of _ "length (c_fields s) - i + 1"]) simp
  next
    case False
    show ?thesis using load_retries[OF Some i(1) False z e(1)] by (intro exI[of _ "length (c_fields s) - i + (length (c_fields s) + 3)"]) simp
  qed
  then show ?thesis using load_within_mono z by auto
qed

section \<open>Properties\<close>

text \<open>C20. Reading the sink's pose ends. Take any interleaving of a writer's stores with a reader, at a moment when no store
  is in progress and the reader is anywhere: about to start, halfway through an attempt that will succeed, or halfway through
  one that a store has spoiled. Fifteen more atomic accesses are enough for \<^verbatim>\<open>load\<close> to return, and it returns the last pose
  stored, whole, or the report that there is none exactly when none was ever stored.\<close>

theorem load_terminates:
  assumes "slot_cell.run p0 s ps" "w_pc s = None"
  shows "\<exists>r. load_within 15 s = Some r \<and> map_option unpackPose r = (if length ps = 1 then None else Some (last ps))"
proof -
  have i: "cell_inv s" "slot_cell.stored s ps" using slot_cell.run_stored[OF assms(1)] by simp_all
  then have h: "c_hist s = map packPose ps" "length (c_fields s) = 6" using assms(2) by (simp_all add: slot_cell.stored_def)
  have w: "c_hist s \<noteq> []" "c_version s + 2 = 2 * length (c_hist s)" "c_fields s = last (c_hist s)" using i(1) assms(2) by (simp_all add: cell_inv_def w_inv_def)
  then have "c_version s = 0 \<longleftrightarrow> length ps = 1" "unpackPose (c_fields s) = last ps"
    using h(1) by (auto simp: last_map slot_cell.unpack_pack)
  then show ?thesis using idle_load[OF i(1) assms(2)] h(2) by auto
qed

theorem load_terminates_witness:
  "\<exists>s r. slot_cell.run zeroPose s [zeroPose, zeroPose \<lparr> pose_X := 3 \<rparr>] \<and> load_within 15 s = Some (Some r) \<and> unpackPose r = zeroPose \<lparr> pose_X := 3 \<rparr>"
proof -
  obtain s where s: "slot_cell.run zeroPose s [zeroPose, zeroPose \<lparr> pose_X := 3 \<rparr>]" "w_pc s = None" "r_pc s = None"
    using slot_cell.store_publishes[OF slot_cell.run_init, of zeroPose "zeroPose \<lparr> pose_X := 3 \<rparr>"] by (auto simp: cell_init_def)
  obtain r where "load_within 15 s = Some r" "map_option unpackPose r = Some (zeroPose \<lparr> pose_X := 3 \<rparr>)" using load_terminates[OF s(1,2)] by auto
  then show ?thesis using s(1) by auto
qed

end
