(* ===== verification/Spherical_Harmonics.thy ===== *)
theory Spherical_Harmonics
  imports Go_Float
begin

text \<open>
  The real spherical harmonics of \<^verbatim>\<open>src/engine/ambisonic/encoder.go\<close>: three hand-unrolled evaluators, for
  orders up to 3, order 4 and order 5, all in \<^verbatim>\<open>float32\<close> with the constants of the source converted to
  \<^verbatim>\<open>float32\<close>. An evaluator is the list of the channels it writes; \<open>writeSH\<close> stores them at the head of
  the caller's slice. The evaluators agree bit for bit on the channels they share, whatever the
  direction, and every channel has the parity of its order: rounding is symmetric, so the
  identities survive it.
\<close>

section \<open>Constants\<close>

definition SH_0_0 :: rat where "SH_0_0 = f32 (2820947917738781 / 10^16)"
definition SH_1_COEF :: rat where "SH_1_COEF = f32 (48860251190292 / 10^14)"
definition SH_1_0 :: rat where "SH_1_0 = f32 (4886025119029199 / 10^16)"
definition SH_2_COEF :: rat where "SH_2_COEF = f32 (5462742152960395 / 10^16)"
definition SH_2_1_COEF :: rat where "SH_2_1_COEF = f32 (1092548430592079 / 10^15)"
definition SH_2_0_A :: rat where "SH_2_0_A = f32 (9461746957575601 / 10^16)"
definition SH_2_0_B :: rat where "SH_2_0_B = f32 (31539156525252 / 10^14)"
definition SH_3_COEF_F :: rat where "SH_3_COEF_F = f32 (5900435899266435 / 10^16)"
definition SH_3_COEF_E :: rat where "SH_3_COEF_E = f32 (1445305721320277 / 10^15)"
definition SH_3_COEF_D_A :: rat where "SH_3_COEF_D_A = f32 (2285228997322329 / 10^15)"
definition SH_3_COEF_D_B :: rat where "SH_3_COEF_D_B = f32 (4570457994644658 / 10^16)"
definition SH_3_0_A :: rat where "SH_3_0_A = f32 (1865881662950577 / 10^15)"
definition SH_3_0_B :: rat where "SH_3_0_B = f32 (1119528997770346 / 10^15)"
definition SH_4_COEF :: rat where "SH_4_COEF = f32 (6258357354491763 / 10^16)"
definition SH_4_1_COEF :: rat where "SH_4_1_COEF = f32 (1770130769779931 / 10^15)"
definition SH_4_2_COEF_A :: rat where "SH_4_2_COEF_A = f32 (331161143515146 / 10^14)"
definition SH_4_2_COEF_B :: rat where "SH_4_2_COEF_B = f32 (47308734787878 / 10^14)"
definition SH_4_3_COEF_A :: rat where "SH_4_3_COEF_A = f32 (4683325804901025 / 10^15)"
definition SH_4_3_COEF_B :: rat where "SH_4_3_COEF_B = f32 (2007139630671868 / 10^15)"
definition SH_4_0_A :: rat where "SH_4_0_A = f32 (1984313483298443 / 10^15)"
definition SH_4_0_B :: rat where "SH_4_0_B = f32 (1006230589874905 / 10^15)"
definition SH_5_COEF :: rat where "SH_5_COEF = f32 (6563820568401703 / 10^16)"
definition SH_5_1_COEF :: rat where "SH_5_1_COEF = f32 (2075662314881041 / 10^15)"
definition SH_5_4_COEF_A :: rat where "SH_5_4_COEF_A = f32 (198997487421324 / 10^14)"
definition SH_5_4_COEF_B :: rat where "SH_5_4_COEF_B = f32 (1002853072844814 / 10^15)"
definition SH_5_3_TMP_A :: rat where "SH_5_3_TMP_A = f32 (203100960115899 / 10^14)"
definition SH_5_3_TMP_B :: rat where "SH_5_3_TMP_B = f32 (991031208965115 / 10^15)"
definition SH_5_2_TMP_A :: rat where "SH_5_2_TMP_A = f32 (7190305177459987 / 10^15)"
definition SH_5_2_TMP_B :: rat where "SH_5_2_TMP_B = f32 (2396768392486662 / 10^15)"
definition SH_5_1_TMP_A :: rat where "SH_5_1_TMP_A = f32 (4403144694917254 / 10^15)"
definition SH_5_1_TMP_B :: rat where "SH_5_1_TMP_B = f32 (4892382994352505 / 10^16)"

section \<open>Evaluators\<close>

text \<open>The general evaluator writes the channels of order 2, and those of order 3 when asked for more.\<close>

definition SphericalHarmonicsLow :: "int \<Rightarrow> rat \<Rightarrow> rat \<Rightarrow> rat \<Rightarrow> rat list" where
  "SphericalHarmonicsLow order nx ny nz =
    (let nx2 = mul32 nx nx; ny2 = mul32 ny ny; nz2 = mul32 nz nz;
         fC1 = sub32 nx2 ny2; fS1 = mul32 (mul32 2 nx) ny; coef21Nz = mul32 SH_2_1_COEF nz in
     [SH_0_0,
      mul32 SH_1_COEF ny, mul32 SH_1_0 nz, mul32 SH_1_COEF nx,
      mul32 SH_2_COEF fS1, mul32 coef21Nz ny, sub32 (mul32 nz2 SH_2_0_A) SH_2_0_B, mul32 coef21Nz nx, mul32 SH_2_COEF fC1] @
     (if order > 2 then
        let fTmpD = sub32 (mul32 nz2 SH_3_COEF_D_A) SH_3_COEF_D_B; fTmpE = mul32 SH_3_COEF_E nz in
        [mul32 SH_3_COEF_F (add32 (mul32 nx fS1) (mul32 ny fC1)),
         mul32 fTmpE fS1, mul32 fTmpD ny,
         mul32 nz (sub32 (mul32 nz2 SH_3_0_A) SH_3_0_B),
         mul32 fTmpD nx, mul32 fTmpE fC1,
         mul32 SH_3_COEF_F (sub32 (mul32 nx fC1) (mul32 ny fS1))]
      else []))"

text \<open>The recurrence of the azimuthal factors both larger evaluators unroll.\<close>

definition azC :: "rat \<Rightarrow> rat \<Rightarrow> rat \<times> rat \<Rightarrow> rat" where "azC x y cs = sub32 (mul32 x (fst cs)) (mul32 y (snd cs))"
definition azS :: "rat \<Rightarrow> rat \<Rightarrow> rat \<times> rat \<Rightarrow> rat" where "azS x y cs = add32 (mul32 x (snd cs)) (mul32 y (fst cs))"

definition GetSphericalHarmonics4 :: "rat \<Rightarrow> rat \<Rightarrow> rat \<Rightarrow> rat list" where
  "GetSphericalHarmonics4 fX fY fZ =
    (let fZ2 = mul32 fZ fZ;
         p0 = SH_0_0; p2 = mul32 SH_1_0 fZ;
         temp6 = sub32 (mul32 SH_2_0_A fZ2) SH_2_0_B;
         temp12 = mul32 fZ (sub32 (mul32 SH_3_0_A fZ2) SH_3_0_B);
         p20 = sub32 (mul32 (mul32 SH_4_0_A fZ) temp12) (mul32 SH_4_0_B temp6);
         fC0 = fX; fS0 = fY;
         p3 = mul32 SH_1_COEF fC0; p1 = mul32 SH_1_COEF fS0;
         gainZ = mul32 SH_2_1_COEF fZ; p7 = mul32 gainZ fC0; p5 = mul32 gainZ fS0;
         gainZ2 = sub32 (mul32 SH_3_COEF_D_A fZ2) SH_3_COEF_D_B; p13 = mul32 gainZ2 fC0; p11 = mul32 gainZ2 fS0;
         gainZ3 = mul32 fZ (sub32 (mul32 SH_4_3_COEF_A fZ2) SH_4_3_COEF_B); p21 = mul32 gainZ3 fC0; p19 = mul32 gainZ3 fS0;
         fC1 = azC fX fY (fC0, fS0); fS1 = azS fX fY (fC0, fS0);
         p8 = mul32 SH_2_COEF fC1; p4 = mul32 SH_2_COEF fS1;
         gainZ = mul32 SH_3_COEF_E fZ; p14 = mul32 gainZ fC1; p10 = mul32 gainZ fS1;
         gainZ2 = sub32 (mul32 SH_4_2_COEF_A fZ2) SH_4_2_COEF_B; p22 = mul32 gainZ2 fC1; p18 = mul32 gainZ2 fS1;
         fC0 = azC fX fY (fC1, fS1); fS0 = azS fX fY (fC1, fS1);
         p15 = mul32 SH_3_COEF_F fC0; p9 = mul32 SH_3_COEF_F fS0;
         gainZ = mul32 SH_4_1_COEF fZ; p23 = mul32 gainZ fC0; p17 = mul32 gainZ fS0;
         fC1 = azC fX fY (fC0, fS0); fS1 = azS fX fY (fC0, fS0);
         p24 = mul32 SH_4_COEF fC1; p16 = mul32 SH_4_COEF fS1
     in [p0, p1, p2, p3, p4, p5, temp6, p7, p8, p9, p10, p11, temp12, p13, p14, p15,
         p16, p17, p18, p19, p20, p21, p22, p23, p24])"

definition GetSphericalHarmonics5 :: "rat \<Rightarrow> rat \<Rightarrow> rat \<Rightarrow> rat list" where
  "GetSphericalHarmonics5 fX fY fZ =
    (let fZ2 = mul32 fZ fZ;
         p0 = SH_0_0; p2 = mul32 SH_1_0 fZ;
         temp6 = add32 (mul32 SH_2_0_A fZ2) (- SH_2_0_B);
         temp12 = mul32 fZ (add32 (mul32 SH_3_0_A fZ2) (- SH_3_0_B));
         temp20 = add32 (mul32 (mul32 SH_4_0_A fZ) temp12) (mul32 (- SH_4_0_B) temp6);
         p30 = add32 (mul32 (mul32 SH_5_4_COEF_A fZ) temp20) (mul32 (- SH_5_4_COEF_B) temp12);
         fC0 = fX; fS0 = fY;
         p3 = mul32 SH_1_COEF fC0; p1 = mul32 SH_1_COEF fS0;
         fTmpB = mul32 SH_2_1_COEF fZ; p7 = mul32 fTmpB fC0; p5 = mul32 fTmpB fS0;
         fTmpC = add32 (mul32 SH_3_COEF_D_A fZ2) (- SH_3_COEF_D_B); p13 = mul32 fTmpC fC0; p11 = mul32 fTmpC fS0;
         fTmpA = mul32 fZ (add32 (mul32 SH_4_3_COEF_A fZ2) (- SH_4_3_COEF_B)); p21 = mul32 fTmpA fC0; p19 = mul32 fTmpA fS0;
         fTmpB = add32 (mul32 (mul32 SH_5_3_TMP_A fZ) fTmpA) (mul32 (- SH_5_3_TMP_B) fTmpC);
         p31 = mul32 fTmpB fC0; p29 = mul32 fTmpB fS0;
         fC1 = azC fX fY (fC0, fS0); fS1 = azS fX fY (fC0, fS0);
         p8 = mul32 SH_2_COEF fC1; p4 = mul32 SH_2_COEF fS1;
         fTmpB = mul32 SH_3_COEF_E fZ; p14 = mul32 fTmpB fC1; p10 = mul32 fTmpB fS1;
         fTmpC = add32 (mul32 SH_4_2_COEF_A fZ2) (- SH_4_2_COEF_B); p22 = mul32 fTmpC fC1; p18 = mul32 fTmpC fS1;
         fTmpA = mul32 fZ (add32 (mul32 SH_5_2_TMP_A fZ2) (- SH_5_2_TMP_B)); p32 = mul32 fTmpA fC1; p28 = mul32 fTmpA fS1;
         fC0 = azC fX fY (fC1, fS1); fS0 = azS fX fY (fC1, fS1);
         p15 = mul32 SH_3_COEF_F fC0; p9 = mul32 SH_3_COEF_F fS0;
         fTmpB = mul32 SH_4_1_COEF fZ; p23 = mul32 fTmpB fC0; p17 = mul32 fTmpB fS0;
         fTmpC = add32 (mul32 SH_5_1_TMP_A fZ2) (- SH_5_1_TMP_B); p33 = mul32 fTmpC fC0; p27 = mul32 fTmpC fS0;
         fC1 = azC fX fY (fC0, fS0); fS1 = azS fX fY (fC0, fS0);
         p24 = mul32 SH_4_COEF fC1; p16 = mul32 SH_4_COEF fS1;
         fTmpB = mul32 SH_5_1_COEF fZ; p34 = mul32 fTmpB fC1; p26 = mul32 fTmpB fS1;
         fC0 = azC fX fY (fC1, fS1); fS0 = azS fX fY (fC1, fS1);
         p35 = mul32 SH_5_COEF fC0; p25 = mul32 SH_5_COEF fS0
     in [p0, p1, p2, p3, p4, p5, temp6, p7, p8, p9, p10, p11, temp12, p13, p14, p15,
         p16, p17, p18, p19, temp20, p21, p22, p23, p24,
         p25, p26, p27, p28, p29, p30, p31, p32, p33, p34, p35])"

definition SphericalHarmonics :: "int \<Rightarrow> rat \<Rightarrow> rat \<Rightarrow> rat \<Rightarrow> rat list" where
  "SphericalHarmonics order nx ny nz =
    (if order = 4 then GetSphericalHarmonics4 nx ny nz
     else if order = 5 then GetSphericalHarmonics5 nx ny nz
     else SphericalHarmonicsLow order nx ny nz)"

text \<open>Storing into the caller's slice; a slice too short for the evaluator is an index panic.\<close>

definition GetSphericalHarmonics :: "int \<Rightarrow> rat \<Rightarrow> rat \<Rightarrow> rat \<Rightarrow> rat list \<Rightarrow> rat list option" where
  "GetSphericalHarmonics order nx ny nz weights =
    (let sh = SphericalHarmonics order nx ny nz in
     if length sh \<le> length weights then Some (sh @ drop (length sh) weights) else None)"

definition GetSphericalHarmonicsGained :: "int \<Rightarrow> rat \<Rightarrow> rat \<Rightarrow> rat \<Rightarrow> rat \<Rightarrow> rat list \<Rightarrow> rat list option" where
  "GetSphericalHarmonicsGained order nx ny nz gain weights =
    map_option (map (\<lambda>w. mul32 w gain)) (GetSphericalHarmonics order nx ny nz weights)"

section \<open>Laws\<close>

lemma mul32_comm: "mul32 x y = mul32 y x"
  by (simp add: mul32_def mult.commute)

lemma mul32_neg: "mul32 (- x) y = - mul32 x y" "mul32 x (- y) = - mul32 x y"
  by (simp_all add: mul32_def f32_uminus)

lemma add32_neg: "add32 (- x) (- y) = - add32 x y" "add32 x (- y) = sub32 x y"
  "sub32 (- x) (- y) = - sub32 x y" "add32 (- x) y = - sub32 x y" "sub32 (- x) y = - add32 x y" "sub32 x (- y) = add32 x y"
  using f32_uminus[of "x + y"] f32_uminus[of "x - y"] by (simp_all add: add32_def sub32_def)

lemma add32_comm: "add32 x y = add32 y x"
  by (simp add: add32_def add.commute)

lemma f32_double: "f32 (2 * x) = 2 * f32 x"
  by (simp add: f32_def rnd_double)

text \<open>The direct formulas for order 2 are the first step of the recurrence.\<close>

lemma az_first: "azC x y (x, y) = sub32 (mul32 x x) (mul32 y y)" "azS x y (x, y) = mul32 (mul32 2 x) y" if "f32 x = x"
proof -
  show "azC x y (x, y) = sub32 (mul32 x x) (mul32 y y)" by (simp add: azC_def)
  have "mul32 (mul32 2 x) y = 2 * f32 (x * y)"
    using that by (simp add: mul32_def f32_double mult.assoc)
  also have "\<dots> = azS x y (x, y)"
    by (simp add: azS_def add32_def mul32_def mult.commute[of y x] f32_double flip: mult_2)
  finally show "azS x y (x, y) = mul32 (mul32 2 x) y" ..
qed

lemma length_SH:
  "length (SphericalHarmonics order nx ny nz) =
    (if order = 4 then 25 else if order = 5 then 36 else if order > 2 then 16 else 9)"
  by (simp add: SphericalHarmonics_def GetSphericalHarmonics4_def GetSphericalHarmonics5_def
      SphericalHarmonicsLow_def Let_def)

lemma SH_prefix4:
  assumes "f32 x = x"
  shows "take 16 (GetSphericalHarmonics4 x y z) = SphericalHarmonicsLow 3 x y z"
proof -
  have [simp]: "add32 (mul32 x y) (mul32 x y) = mul32 y (mul32 x 2)"
    using az_first(2)[OF assms, of y] by (simp add: azS_def mul32_comm)
  show ?thesis
    unfolding GetSphericalHarmonics4_def SphericalHarmonicsLow_def Let_def azC_def azS_def
    by (simp add: mul32_comm add32_comm)
qed

lemma SH_prefix5: "take 25 (GetSphericalHarmonics5 x y z) = GetSphericalHarmonics4 x y z"
  unfolding GetSphericalHarmonics5_def GetSphericalHarmonics4_def Let_def
  by (simp add: add32_neg mul32_neg)

lemma SH_prefix2: "take 9 (SphericalHarmonicsLow 3 x y z) = SphericalHarmonicsLow 2 x y z"
  by (simp add: SphericalHarmonicsLow_def Let_def)

lemma SH_low: "SphericalHarmonics 2 x y z = SphericalHarmonicsLow 2 x y z"
  "SphericalHarmonics 3 x y z = SphericalHarmonicsLow 3 x y z"
  "SphericalHarmonics 4 x y z = GetSphericalHarmonics4 x y z"
  "SphericalHarmonics 5 x y z = GetSphericalHarmonics5 x y z"
  by (simp_all add: SphericalHarmonics_def)

lemma SH_step:
  assumes "f32 x = x"
  shows "take 9 (SphericalHarmonics 3 x y z) = SphericalHarmonics 2 x y z"
    "take 16 (SphericalHarmonics 4 x y z) = SphericalHarmonics 3 x y z"
    "take 25 (SphericalHarmonics 5 x y z) = SphericalHarmonics 4 x y z"
    "take 9 (SphericalHarmonics 4 x y z) = SphericalHarmonics 2 x y z"
    "take 16 (SphericalHarmonics 5 x y z) = SphericalHarmonics 3 x y z"
    "take 9 (SphericalHarmonics 5 x y z) = SphericalHarmonics 2 x y z"
proof -
  show a: "take 9 (SphericalHarmonics 3 x y z) = SphericalHarmonics 2 x y z" by (simp only: SH_low SH_prefix2)
  show b: "take 16 (SphericalHarmonics 4 x y z) = SphericalHarmonics 3 x y z" by (simp only: SH_low SH_prefix4[OF assms])
  show c: "take 25 (SphericalHarmonics 5 x y z) = SphericalHarmonics 4 x y z" by (simp only: SH_low SH_prefix5)
  show d: "take 9 (SphericalHarmonics 4 x y z) = SphericalHarmonics 2 x y z"
    using arg_cong[OF b, of "take 9"] a by (simp only: take_take min_def) simp
  show "take 16 (SphericalHarmonics 5 x y z) = SphericalHarmonics 3 x y z"
    using arg_cong[OF c, of "take 16"] b by (simp only: take_take min_def) simp
  show "take 9 (SphericalHarmonics 5 x y z) = SphericalHarmonics 2 x y z"
    using arg_cong[OF c, of "take 9"] d by (simp only: take_take min_def) simp
qed

text \<open>The signs a channel takes under the reversal of the direction (the parity of its order) and under
  the mirror through the median plane (negative degrees change sign).\<close>

definition paritySigns :: "nat \<Rightarrow> rat list" where
  "paritySigns order = concat (map (\<lambda>l. replicate (2 * l + 1) ((- 1) ^ l)) [0..<order + 1])"

definition mirrorSigns :: "nat \<Rightarrow> rat list" where
  "mirrorSigns order = concat (map (\<lambda>l. replicate l (- 1) @ replicate (l + 1) 1) [0..<order + 1])"

lemma signs_eval:
  "paritySigns 2 = [1, - 1, - 1, - 1, 1, 1, 1, 1, 1]"
  "paritySigns 3 = [1, - 1, - 1, - 1, 1, 1, 1, 1, 1, - 1, - 1, - 1, - 1, - 1, - 1, - 1]"
  "paritySigns 4 = [1, - 1, - 1, - 1, 1, 1, 1, 1, 1, - 1, - 1, - 1, - 1, - 1, - 1, - 1, 1, 1, 1, 1, 1, 1, 1, 1, 1]"
  "paritySigns 5 = [1, - 1, - 1, - 1, 1, 1, 1, 1, 1, - 1, - 1, - 1, - 1, - 1, - 1, - 1, 1, 1, 1, 1, 1, 1, 1, 1, 1, - 1, - 1, - 1, - 1, - 1, - 1, - 1, - 1, - 1, - 1, - 1]"
  "mirrorSigns 2 = [1, - 1, 1, 1, - 1, - 1, 1, 1, 1]"
  "mirrorSigns 3 = [1, - 1, 1, 1, - 1, - 1, 1, 1, 1, - 1, - 1, - 1, 1, 1, 1, 1]"
  "mirrorSigns 4 = [1, - 1, 1, 1, - 1, - 1, 1, 1, 1, - 1, - 1, - 1, 1, 1, 1, 1, - 1, - 1, - 1, - 1, 1, 1, 1, 1, 1]"
  "mirrorSigns 5 = [1, - 1, 1, 1, - 1, - 1, 1, 1, 1, - 1, - 1, - 1, 1, 1, 1, 1, - 1, - 1, - 1, - 1, 1, 1, 1, 1, 1, - 1, - 1, - 1, - 1, - 1, 1, 1, 1, 1, 1, 1]"
  by code_simp+

lemmas SH_signs = azC_def azS_def mul32_neg add32_neg Let_def

lemma SH_parity_low:
  "SphericalHarmonicsLow 2 (- x) (- y) (- z) = map2 (*) (paritySigns 2) (SphericalHarmonicsLow 2 x y z)"
  "SphericalHarmonicsLow 3 (- x) (- y) (- z) = map2 (*) (paritySigns 3) (SphericalHarmonicsLow 3 x y z)"
  by (simp_all add: SphericalHarmonicsLow_def SH_signs signs_eval)

lemma SH_mirror_low:
  "SphericalHarmonicsLow 2 x (- y) z = map2 (*) (mirrorSigns 2) (SphericalHarmonicsLow 2 x y z)"
  "SphericalHarmonicsLow 3 x (- y) z = map2 (*) (mirrorSigns 3) (SphericalHarmonicsLow 3 x y z)"
  by (simp_all add: SphericalHarmonicsLow_def SH_signs signs_eval)

lemma SH_parity_4: "GetSphericalHarmonics4 (- x) (- y) (- z) = map2 (*) (paritySigns 4) (GetSphericalHarmonics4 x y z)"
  unfolding GetSphericalHarmonics4_def Let_def by (simp add: SH_signs signs_eval)

lemma SH_mirror_4: "GetSphericalHarmonics4 x (- y) z = map2 (*) (mirrorSigns 4) (GetSphericalHarmonics4 x y z)"
  unfolding GetSphericalHarmonics4_def Let_def by (simp add: SH_signs signs_eval)

lemma SH_parity_5: "GetSphericalHarmonics5 (- x) (- y) (- z) = map2 (*) (paritySigns 5) (GetSphericalHarmonics5 x y z)"
  unfolding GetSphericalHarmonics5_def Let_def by (simp add: SH_signs signs_eval)

lemma SH_mirror_5: "GetSphericalHarmonics5 x (- y) z = map2 (*) (mirrorSigns 5) (GetSphericalHarmonics5 x y z)"
  unfolding GetSphericalHarmonics5_def Let_def by (simp add: SH_signs signs_eval)

section \<open>Properties\<close>

text \<open>C33. The three hand-unrolled evaluators agree bit for bit: the channels of a lower order are a
  prefix of those of a higher one, for every direction.\<close>

theorem SphericalHarmonics_prefix:
  assumes "2 \<le> l" "l \<le> order" "order \<le> 5" "f32 nx = nx"
  shows "take (nat ((l + 1) * (l + 1))) (SphericalHarmonics order nx ny nz) = SphericalHarmonics l nx ny nz"
proof -
  have all: "take (length (SphericalHarmonics l nx ny nz)) (SphericalHarmonics l nx ny nz) = SphericalHarmonics l nx ny nz"
    by simp
  have "l = 2 \<or> l = 3 \<or> l = 4 \<or> l = 5" "order = 2 \<or> order = 3 \<or> order = 4 \<or> order = 5" using assms by auto
  then show ?thesis using assms(2) SH_step[OF assms(4)] all by (auto simp: length_SH)
qed

theorem SphericalHarmonics_prefix_witness:
  "take 9 (SphericalHarmonics 5 1 0 0) = SphericalHarmonics 2 1 0 0"
proof -
  have "f32 1 = 1" by code_simp
  from SphericalHarmonics_prefix[of 2 5 1 0 0, OF _ _ _ this] show ?thesis by simp
qed

text \<open>The symmetries of the harmonics survive rounding: reversing the direction multiplies each
  channel by the parity of its order, and mirroring left and right flips exactly the channels of
  negative degree. The two ears' weights of mirrored sources are mirror images, exactly.\<close>

theorem SphericalHarmonics_symmetry:
  assumes "2 \<le> order" "order \<le> 5"
  shows "SphericalHarmonics (int order) (- nx) (- ny) (- nz) = map2 (*) (paritySigns order) (SphericalHarmonics (int order) nx ny nz) \<and>
    SphericalHarmonics (int order) nx (- ny) nz = map2 (*) (mirrorSigns order) (SphericalHarmonics (int order) nx ny nz)"
proof -
  have "order = 2 \<or> order = 3 \<or> order = 4 \<or> order = 5" using assms by auto
  then show ?thesis
    by (elim disjE; intro conjI; hypsubst; simp only: of_nat_numeral SH_low SH_parity_low SH_parity_4 SH_parity_5;
        simp only: SH_mirror_low SH_mirror_4 SH_mirror_5)
qed

theorem SphericalHarmonics_symmetry_witness:
  "SphericalHarmonics 3 (- 1) 0 0 = map2 (*) (paritySigns 3) (SphericalHarmonics 3 1 0 0) \<and>
   SphericalHarmonics 3 0 (- 1) 0 = map2 (*) (mirrorSigns 3) (SphericalHarmonics 3 0 1 0)"
  using conjunct1[OF SphericalHarmonics_symmetry[of 3 1 0 0]] conjunct2[OF SphericalHarmonics_symmetry[of 3 0 1 0]] by simp

end
