(* ===== verification/Go_Math.thy ===== *)
theory Go_Math
  imports Lasa_Prelude "HOL-Library.Word"
begin

text \<open>
  The functions of Go's \<^verbatim>\<open>math\<close> package whose results the documentation fixes only up to the accuracy of an
  approximation: they are parameters of the model, gathered in one record. Every value they return
  is a \<^verbatim>\<open>float64\<close>. \<open>math_ok\<close> states what the code relies on, and what the documentation promises: the
  square root of a non-negative number is non-negative and is zero only at zero;
  the arcsine of a number in the unit interval is at most the float nearest to half of pi in
  magnitude; the arc tangent is bounded likewise and has the sign of its argument; sine and cosine
  stay in the unit interval; a power of a non-negative base is non-negative.
\<close>

record Math =
  sinf :: "rat \<Rightarrow> rat"
  cosf :: "rat \<Rightarrow> rat"
  asinf :: "rat \<Rightarrow> rat"
  acosf :: "rat \<Rightarrow> rat"
  atanf :: "rat \<Rightarrow> rat"
  powf :: "rat \<Rightarrow> rat \<Rightarrow> rat"
  sqrt64 :: "rat \<Rightarrow> rat"
  frombits32 :: "32 word \<Rightarrow> rat"

text \<open>\<^verbatim>\<open>math.Pi\<close> as a \<^verbatim>\<open>float64\<close>.\<close>

definition piF :: rat where "piF = 884279719003555 / 281474976710656"

definition math_ok :: "Math \<Rightarrow> bool" where
  "math_ok mt \<longleftrightarrow>
     (\<forall>x. 0 \<le> x \<longrightarrow> 0 \<le> sqrt64 mt x \<and> (sqrt64 mt x = 0 \<longleftrightarrow> x = 0)) \<and>
     (\<forall>x. \<bar>x\<bar> \<le> 1 \<longrightarrow> \<bar>asinf mt x\<bar> \<le> piF / 2 \<and> 0 \<le> acosf mt x \<and> acosf mt x \<le> piF) \<and>
     (\<forall>x. \<bar>atanf mt x\<bar> \<le> piF / 2 \<and> (0 \<le> x \<longrightarrow> 0 \<le> atanf mt x)) \<and>
     (\<forall>x. \<bar>sinf mt x\<bar> \<le> 1 \<and> \<bar>cosf mt x\<bar> \<le> 1) \<and>
     (\<forall>x y. 0 \<le> x \<longrightarrow> 0 \<le> powf mt x y)"

text \<open>A crude instance, for evaluation.\<close>

definition demo_math :: Math where
  "demo_math = \<lparr> sinf = (\<lambda>x. 0), cosf = (\<lambda>x. 1), asinf = (\<lambda>x. 0), acosf = (\<lambda>x. 0),
     atanf = (\<lambda>x. 0), powf = (\<lambda>x y. x), sqrt64 = (\<lambda>x. x), frombits32 = (\<lambda>w. of_int (uint w)) \<rparr>"

lemma demo_math_ok: "math_ok demo_math"
  by (simp add: math_ok_def demo_math_def piF_def)

end
