(* ===== verification/Pair_Laws.thy ===== *)
theory Pair_Laws
  imports Pose_Store Go_Math Spherical_Harmonics "HOL-Library.Monad_Syntax"
begin

text \<open>
  The per-pair laws of the encoder: geometry (\<^verbatim>\<open>src/engine/common/trig.go\<close>, \<^verbatim>\<open>rotation.go\<close>), distance and
  reverb gains and the classic weight vectors (\<^verbatim>\<open>src/engine/ambisonic/encoder.go\<close>), source extent and
  directivity (\<^verbatim>\<open>extent.go\<close>), and the per-ear projection of \<^verbatim>\<open>parallax.go\<close>. A weight vector is a list;
  \<open>None\<close> is an index outside a slice. Distances that reach a division are at least \<open>1e-10\<close>.
\<close>

section \<open>Geometry\<close>

text \<open>A \<^verbatim>\<open>RotationMatrix33\<close> is its nine entries, row by row.\<close>

type_synonym matrix33 = "rat list"

definition dot3 :: "rat \<Rightarrow> rat \<Rightarrow> rat \<Rightarrow> rat \<Rightarrow> rat \<Rightarrow> rat \<Rightarrow> rat" where
  "dot3 a x b y c z = add64 (add64 (mul64 a x) (mul64 b y)) (mul64 c z)"

definition mul33 :: "matrix33 \<Rightarrow> matrix33 \<Rightarrow> matrix33" where
  "mul33 a b = concat (map (\<lambda>i. map (\<lambda>j.
     dot3 (a ! (i * 3)) (b ! j) (a ! (i * 3 + 1)) (b ! (3 + j)) (a ! (i * 3 + 2)) (b ! (6 + j))) [0, 1, 2]) [0, 1, 2])"

definition MatrixFromRotation :: "Math \<Rightarrow> Rotation \<Rightarrow> matrix33" where
  "MatrixFromRotation mt rot =
    (let yaw = div64 (mul64 (rot_Yaw rot) piF) 180; pitch = div64 (mul64 (rot_Pitch rot) piF) 180;
         roll = div64 (mul64 (rot_Roll rot) piF) 180;
         cy = cosf mt yaw; sy = sinf mt yaw; cp = cosf mt pitch; sp = sinf mt pitch;
         cr = cosf mt roll; sr = sinf mt roll;
         rz = [cy, sy, 0, - sy, cy, 0, 0, 0, 1];
         ry = [cp, 0, - sp, 0, 1, 0, sp, 0, cp];
         rx = [1, 0, 0, 0, cr, sr, 0, - sr, cr]
     in mul33 rx (mul33 ry rz))"

definition Apply33 :: "matrix33 \<Rightarrow> Position \<Rightarrow> Position" where
  "Apply33 m p =
    \<lparr> pos_X = dot3 (m ! 0) (pos_X p) (m ! 1) (pos_Y p) (m ! 2) (pos_Z p),
      pos_Y = dot3 (m ! 3) (pos_X p) (m ! 4) (pos_Y p) (m ! 5) (pos_Z p),
      pos_Z = dot3 (m ! 6) (pos_X p) (m ! 7) (pos_Y p) (m ! 8) (pos_Z p) \<rparr>"

text \<open>The facing of a pose, \<^verbatim>\<open>Pose.forward\<close> of \<^verbatim>\<open>pose.go\<close>: the first row of the matrix.\<close>

definition forward :: "Math \<Rightarrow> Pose \<Rightarrow> Position" where
  "forward mt p =
    (if pose_Yaw p = 0 \<and> pose_Pitch p = 0 \<and> pose_Roll p = 0 then \<lparr> pos_X = 1, pos_Y = 0, pos_Z = 0 \<rparr>
     else let m = MatrixFromRotation mt (rotation p) in \<lparr> pos_X = m ! 0, pos_Y = m ! 1, pos_Z = m ! 2 \<rparr>)"

definition tiny :: rat where "tiny = f64 (1 / 10^10)"

definition TrigCartesianRelativePosition :: "Position \<Rightarrow> Position \<Rightarrow> Position" where
  "TrigCartesianRelativePosition origin to = \<lparr> pos_X = sub64 (pos_X to) (pos_X origin),
     pos_Y = sub64 (pos_Y to) (pos_Y origin), pos_Z = sub64 (pos_Z to) (pos_Z origin) \<rparr>"

definition norm64 :: "Math \<Rightarrow> Position \<Rightarrow> rat" where
  "norm64 mt p = sqrt64 mt (dot3 (pos_X p) (pos_X p) (pos_Y p) (pos_Y p) (pos_Z p) (pos_Z p))"

definition scaleDown :: "Position \<Rightarrow> rat \<Rightarrow> Position" where
  "scaleDown p d = \<lparr> pos_X = div64 (pos_X p) d, pos_Y = div64 (pos_Y p) d, pos_Z = div64 (pos_Z p) d \<rparr>"

definition TrigCartesianNormRectAndDistance :: "Math \<Rightarrow> Position \<Rightarrow> Position \<Rightarrow> Position \<times> rat" where
  "TrigCartesianNormRectAndDistance mt origin to =
    (let rect = TrigCartesianRelativePosition origin to; distance = norm64 mt rect in
     if distance < tiny then (\<lparr> pos_X = 1, pos_Y = 0, pos_Z = 0 \<rparr>, tiny)
     else (scaleDown rect distance, distance))"

section \<open>Distance and reverb\<close>

definition NearFieldGainCap :: rat where "NearFieldGainCap = 3"

definition distanceGain :: "Math \<Rightarrow> rat \<Rightarrow> rat \<Rightarrow> rat" where
  "distanceGain mt distanceMeters exponent =
    (let attenuationFactor = (if exponent = 1 then f32 (div64 1 distanceMeters)
                              else f32 (powf mt (div64 1 distanceMeters) exponent))
     in if attenuationFactor > NearFieldGainCap then NearFieldGainCap else attenuationFactor)"

definition smoothstep :: "rat \<Rightarrow> rat \<Rightarrow> rat \<Rightarrow> rat" where
  "smoothstep edge0 edge1 x =
    (let t = div64 (sub64 x edge0) (sub64 edge1 edge0);
         t = (if t < 0 then 0 else if t > 1 then 1 else t)
     in mul64 (mul64 t t) (sub64 3 (mul64 2 t)))"

text \<open>The dry and the wet gain of the reverb bus.\<close>

definition reverbSplit :: "rat \<Rightarrow> rat \<Rightarrow> rat \<times> rat" where
  "reverbSplit distanceMeters sz =
    (let reverbGain = add64 (smoothstep 1 8 (add64 distanceMeters (mul64 sz (1 / 2)))) (f64 (5 / 100))
     in (f32 (sub64 1 reverbGain), f32 (mul64 reverbGain (f64 (9 / 10)))))"

section \<open>Extent and directivity\<close>

definition surfaceDistance :: "rat \<Rightarrow> rat \<Rightarrow> rat" where
  "surfaceDistance rng sz = (let half = div64 sz 2 in if rng < half then half else rng)"

definition directivityFactor :: "Position \<Rightarrow> Position \<Rightarrow> rat \<Rightarrow> rat \<Rightarrow> rat" where
  "directivityFactor fwd rel rng k =
    (if k \<le> 0 \<or> rng < f64 (1 / 10^9) then 1
     else let c = div64 (- dot3 (pos_X fwd) (pos_X rel) (pos_Y fwd) (pos_Y rel) (pos_Z fwd) (pos_Z rel)) rng;
              g = add64 (sub64 1 k) (mul64 k c)
          in f32 (if g < 0 then 0 else g))"

definition spreadMaxOrder :: nat where "spreadMaxOrder = 5"
definition spreadSamples :: nat where "spreadSamples = 64"
definition spreadNormCap :: rat where "spreadNormCap = 2"

definition legendreP :: "nat \<Rightarrow> rat \<Rightarrow> rat" where
  "legendreP n x =
    (if n = 0 then 1
     else snd (foldl (\<lambda>(p0, p1) l. (p1,
         div64 (sub64 (mul64 (mul64 (int64f (2 * int l - 1)) x) p1) (mul64 (int64f (int l - 1)) p0)) (int64f (int l))))
       (1, x) [2..<n + 1]))"

text \<open>One row of the table filled at package initialisation.\<close>

definition spreadRow :: "Math \<Rightarrow> nat \<Rightarrow> rat list" where
  "spreadRow mt i =
    (if i = 0 then replicate (spreadMaxOrder + 1) 1
     else let alpha = mul64 (div64 (int64f (int i)) (int64f (int spreadSamples))) piF; x = cosf mt alpha
          in map (\<lambda>l. div64 (sub64 (if l > 0 then legendreP (l - 1) x else 1) (legendreP (l + 1) x))
               (mul64 (int64f (2 * int l + 1)) (sub64 1 x))) [0..<spreadMaxOrder + 1])"

text \<open>The per-order weights, \<open>None\<close> for a point source (\<^verbatim>\<open>false\<close>); entries above \<^verbatim>\<open>order\<close> stay zero.\<close>

definition spreadOrderWeights :: "Math \<Rightarrow> rat \<Rightarrow> rat \<Rightarrow> nat \<Rightarrow> rat list option" where
  "spreadOrderWeights mt sz rng0 order =
    (if sz \<le> 0 then None
     else let rng = (if rng0 < f64 (1 / 10^9) then f64 (1 / 10^9) else rng0);
              alpha = mul64 2 (atanf mt (div64 sz (mul64 2 rng)));
              pos = mul64 (div64 alpha piF) (int64f (int spreadSamples));
              i0 = nat (trunc pos);
              i = (if i0 \<ge> spreadSamples then spreadSamples - 1 else i0);
              t = sub64 pos (int64f (int i));
              w = map (\<lambda>l. add64 (spreadRow mt i ! l) (mul64 t (sub64 (spreadRow mt (i + 1) ! l) (spreadRow mt i ! l)))) [0..<order + 1];
              e = foldl (\<lambda>e l. add64 e (mul64 (mul64 (int64f (2 * int l + 1)) (w ! l)) (w ! l))) 0 [0..<order + 1];
              e0 = foldl (\<lambda>e l. add64 e (int64f (2 * int l + 1))) 0 [0..<order + 1];
              nrm = sqrt64 mt (div64 e0 e);
              nrm = (if nrm > spreadNormCap then spreadNormCap else nrm)
          in Some (map (\<lambda>l. if l \<le> order then f32 (mul64 (w ! l) nrm) else 0) [0..<spreadMaxOrder + 1]))"

text \<open>Order \<open>l\<close> spans the channels from \<open>l * l\<close> up to \<open>(l + 1) * (l + 1)\<close>.\<close>

definition applyOrderWeights :: "nat \<Rightarrow> rat list \<Rightarrow> rat list \<Rightarrow> rat list option" where
  "applyOrderWeights order ow weights =
    (if (order + 1) * (order + 1) \<le> length weights then
       Some (foldl (\<lambda>w l. foldl (\<lambda>w i. w[i := mul32 (w ! i) (ow ! l)]) w [l * l..<(l + 1) * (l + 1)]) weights [0..<order + 1])
     else None)"

section \<open>The classic weight vectors\<close>

definition pairGeometry :: "Math \<Rightarrow> Position \<Rightarrow> Position \<Rightarrow> matrix33 option \<Rightarrow> rat \<Rightarrow> rat \<Rightarrow> Position \<Rightarrow> rat \<Rightarrow> rat \<Rightarrow>
    Position \<times> rat \<times> rat" where
  "pairGeometry mt listenerPos peerPos headFrame gainFactor attExp fwd sz directivity =
    (let (nrm, rng) = TrigCartesianNormRectAndDistance mt listenerPos peerPos;
         nodeGain = (if sz > 0 \<or> directivity > 0
                     then mul32 (mul32 gainFactor (distanceGain mt (surfaceDistance rng sz) attExp))
                            (directivityFactor fwd nrm 1 directivity)
                     else mul32 gainFactor (distanceGain mt rng attExp));
         nrm = (case headFrame of None \<Rightarrow> nrm | Some h \<Rightarrow> Apply33 h nrm)
     in (nrm, rng, nodeGain))"

definition spread :: "Math \<Rightarrow> rat \<Rightarrow> rat \<Rightarrow> nat \<Rightarrow> rat list \<Rightarrow> rat list option" where
  "spread mt sz rng order weights =
    (if sz > 0 then (case spreadOrderWeights mt sz rng order of None \<Rightarrow> Some weights | Some ow \<Rightarrow> applyOrderWeights order ow weights)
     else Some weights)"

definition GetWeights :: "Math \<Rightarrow> rat list \<Rightarrow> rat \<Rightarrow> rat \<Rightarrow> Position \<Rightarrow> Position \<Rightarrow> matrix33 option \<Rightarrow> nat \<Rightarrow> Position \<Rightarrow> rat \<Rightarrow> rat \<Rightarrow>
    rat list option" where
  "GetWeights mt weights gainFactor attExp listenerPos peerPos headFrame order fwd sz directivity =
    (let (nrm, rng, nodeGain) = pairGeometry mt listenerPos peerPos headFrame gainFactor attExp fwd sz directivity in
     do { w \<leftarrow> GetSphericalHarmonicsGained (int order) (f32 (pos_X nrm)) (f32 (pos_Y nrm)) (f32 (pos_Z nrm)) nodeGain weights;
          spread mt sz rng order w })"

definition REVERB_CHANNELS :: nat where "REVERB_CHANNELS = 4"

text \<open>Returns the dry and the wet weights and the scratch vector of harmonics.\<close>

definition GetWeightsForReverb :: "Math \<Rightarrow> rat list \<Rightarrow> rat list \<Rightarrow> rat list \<Rightarrow> rat \<Rightarrow> rat \<Rightarrow> Position \<Rightarrow> Position \<Rightarrow>
    matrix33 option \<Rightarrow> nat \<Rightarrow> nat \<Rightarrow> Position \<Rightarrow> rat \<Rightarrow> rat \<Rightarrow> (rat list \<times> rat list \<times> rat list) option" where
  "GetWeightsForReverb mt dry wet sh0 gainFactor attExp listenerPos peerPos headFrame order channels fwd sz directivity =
    (let (nrm, rng, nodeGain) = pairGeometry mt listenerPos peerPos headFrame gainFactor attExp fwd sz directivity;
         (dryGain, wetGain) = reverbSplit rng sz in
     do { sh \<leftarrow> GetSphericalHarmonics (int order) (f32 (pos_X nrm)) (f32 (pos_Y nrm)) (f32 (pos_Z nrm)) sh0;
          sh \<leftarrow> map_option (\<lambda>s. s @ drop channels sh) (spread mt sz rng order (take channels sh));
          if length dry < channels \<or> length sh < channels \<or> channels < REVERB_CHANNELS \<or> length wet < REVERB_CHANNELS then None
          else Some (map (\<lambda>i. if i < REVERB_CHANNELS then mul32 (mul32 (sh ! i) nodeGain) dryGain
                              else if i < channels then mul32 (sh ! i) nodeGain else dry ! i) [0..<length dry],
                     map (\<lambda>i. if i < REVERB_CHANNELS then mul32 (mul32 (sh ! i) nodeGain) wetGain else wet ! i) [0..<length wet],
                     sh) })"

section \<open>Per-ear directions\<close>

definition ParallaxFarFieldM :: rat where "ParallaxFarFieldM = 2"

definition earProjectedDirection :: "Math \<Rightarrow> Position \<Rightarrow> rat \<Rightarrow> rat \<Rightarrow> Position" where
  "earProjectedDirection mt rel earY measRadius =
    (let v = rel \<lparr> pos_Y := sub64 (pos_Y rel) earY \<rparr>; vLen = norm64 mt v in
     if vLen < tiny then \<lparr> pos_X = 0, pos_Y = (if earY < 0 then - 1 else 1), pos_Z = 0 \<rparr>
     else let v = scaleDown v vLen in
       if measRadius \<le> 0 then v
       else let ev = mul64 earY (pos_Y v);
                disc = sub64 (add64 (mul64 ev ev) (mul64 measRadius measRadius)) (mul64 earY earY);
                t = add64 (- ev) (sqrt64 mt disc);
                p = \<lparr> pos_X = mul64 t (pos_X v), pos_Y = add64 earY (mul64 t (pos_Y v)), pos_Z = mul64 t (pos_Z v) \<rparr>
            in scaleDown p measRadius)"

section \<open>Bounds\<close>

text \<open>The distance law never amplifies beyond the near-field cap, whatever the distance and the
  exponent, and never inverts a source.\<close>

lemma distanceGain_bounds:
  assumes "math_ok mt" "0 \<le> d"
  shows "0 \<le> distanceGain mt d e \<and> distanceGain mt d e \<le> NearFieldGainCap"
proof -
  have "0 \<le> div64 1 d" using assms(2) by (simp add: div64_def f64_nonneg)
  then have "0 \<le> f32 (div64 1 d)" "0 \<le> f32 (powf mt (div64 1 d) e)"
    using assms(1) by (auto simp: math_ok_def intro: f32_nonneg)
  then show ?thesis by (auto simp: distanceGain_def Let_def NearFieldGainCap_def)
qed

lemma f64_1: "f64 1 = 1" using f64_of_int[of 1] by simp

lemma smoothstep_bounds: "0 \<le> smoothstep a b x \<and> smoothstep a b x \<le> 1 + 1 / 2 ^ 40"
proof -
  define t0 where "t0 = div64 (sub64 x a) (sub64 b a)"
  define t where "t = (if t0 < 0 then 0 else if t0 > 1 then 1 else t0)"
  have t: "0 \<le> t" "t \<le> 1" by (auto simp: t_def)
  let ?e = "1 / 9007199254740992 :: rat"
  have up: "f64 y \<le> y * (1 + ?e)" if "0 \<le> y" for y
  proof -
    have "f64 y - y \<le> y / 9007199254740992" using f64_err[of y] that by (simp only: abs_le_iff abs_of_nonneg)
    then show ?thesis unfolding distrib_left by linarith
  qed
  have a: "0 \<le> mul64 t t" "mul64 t t \<le> t * t * (1 + ?e)"
    using t up[of "t * t"] by (simp_all add: mul64_def f64_nonneg)
  have two: "mul64 2 t \<le> 2" using f64_le_of_int[of "2 * t" 2] t by (simp add: mul64_def)
  have "\<bar>mul64 2 t - 2 * t\<bar> \<le> 2 * ?e" unfolding mul64_def by (rule order_trans[OF f64_err]) (use t in simp)
  then have two': "2 * t - 2 * ?e \<le> mul64 2 t" unfolding abs_le_iff by linarith
  have three: "0 \<le> 3 - mul64 2 t" using two by linarith
  have b: "0 \<le> sub64 3 (mul64 2 t)" "sub64 3 (mul64 2 t) \<le> (3 - 2 * t + 2 * ?e) * (1 + ?e)"
  proof -
    show "0 \<le> sub64 3 (mul64 2 t)" using three by (simp add: sub64_def f64_nonneg)
    have "3 - mul64 2 t \<le> 3 - 2 * t + 2 * ?e" using two' by linarith
    then show "sub64 3 (mul64 2 t) \<le> (3 - 2 * t + 2 * ?e) * (1 + ?e)"
      using up[OF three] unfolding sub64_def by (meson order_trans mult_right_mono zero_le_numeral add_nonneg_nonneg zero_le_one divide_nonneg_nonneg)
  qed
  have cubic: "t * t * (3 - 2 * t) \<le> 1"
  proof -
    have "0 \<le> (1 - t) * (1 - t) * (1 + 2 * t)" using t by simp
    then show ?thesis by (simp add: algebra_simps)
  qed
  have "mul64 t t * sub64 3 (mul64 2 t) \<le> (t * t * (1 + ?e)) * ((3 - 2 * t + 2 * ?e) * (1 + ?e))"
    using a b by (intro mult_mono) auto
  also have "\<dots> = (t * t * (3 - 2 * t) + t * t * (2 * ?e)) * ((1 + ?e) * (1 + ?e))" by (simp add: algebra_simps)
  also have "\<dots> \<le> (1 + 1 * (2 * ?e)) * ((1 + ?e) * (1 + ?e))"
    using cubic t mult_mono[of t 1 t 1] by (intro mult_right_mono add_mono) auto
  also have "\<dots> \<le> (1 + 1 / 2 ^ 41)" by simp
  finally have p: "mul64 t t * sub64 3 (mul64 2 t) \<le> 1 + 1 / 2 ^ 41" .
  have "f64 (mul64 t t * sub64 3 (mul64 2 t)) \<le> (1 + 1 / 2 ^ 41) * (1 + ?e)"
    using p a(1) b(1) up[of "mul64 t t * sub64 3 (mul64 2 t)"] mult_right_mono[OF p, of "1 + ?e"] by simp
  also have "\<dots> \<le> 1 + 1 / 2 ^ 40" by simp
  finally have "mul64 (mul64 t t) (sub64 3 (mul64 2 t)) \<le> 1 + 1 / 2 ^ 40" by (simp add: mul64_def)
  moreover have "0 \<le> mul64 (mul64 t t) (sub64 3 (mul64 2 t))" using a(1) b(1) by (simp add: mul64_def f64_nonneg)
  ultimately show ?thesis unfolding smoothstep_def Let_def t0_def[symmetric] t_def[symmetric] by simp
qed

lemma smoothstep_edges:
  "x \<le> 1 \<Longrightarrow> smoothstep 1 8 x = 0"
  "8 \<le> x \<Longrightarrow> smoothstep 1 8 x = 1"
proof -
  have d: "sub64 8 1 = 7" by code_simp
  show "smoothstep 1 8 x = 0" if "x \<le> 1"
  proof -
    have "div64 (sub64 x 1) 7 \<le> 0" using that by (simp add: div64_def sub64_def f64_nonpos divide_nonpos_pos)
    then show ?thesis by (simp add: smoothstep_def Let_def d mul64_def)
  qed
  show "smoothstep 1 8 x = 1" if "8 \<le> x"
  proof -
    have "7 \<le> sub64 x 1" using f64_ge_of_int[of 7 "x - 1"] that by (simp add: sub64_def)
    then have "1 \<le> div64 (sub64 x 1) 7" using f64_ge_of_int[of 1 "sub64 x 1 / 7"] by (simp add: div64_def)
    then have "(if div64 (sub64 x 1) 7 < 0 then 0 else if div64 (sub64 x 1) 7 > 1 then 1 else div64 (sub64 x 1) 7) = 1" by auto
    moreover have "mul64 (mul64 1 1) (sub64 3 (mul64 2 1)) = 1" by code_simp
    ultimately show ?thesis by (simp only: smoothstep_def Let_def d)
  qed
qed

section \<open>Properties\<close>

text \<open>C34. The reverb split keeps the wet gain between 0.04 and 0.95 and the dry gain at most 0.96. The
  dry gain is 0.95 inside one metre, but at eight metres and beyond it is negative: the split adds
  0.05 to a ramp that already reaches one, so the dry share of the low channels is inverted there.\<close>

theorem reverbSplit_range:
  "(let (dry, wet) = reverbSplit d sz in
      - 6 / 100 \<le> dry \<and> dry \<le> 96 / 100 \<and> 4 / 100 \<le> wet \<and> wet \<le> 95 / 100) \<and>
   (8 \<le> add64 d (mul64 sz (1 / 2)) \<longrightarrow> fst (reverbSplit d sz) < 0) \<and>
   (add64 d (mul64 sz (1 / 2)) \<le> 1 \<longrightarrow> fst (reverbSplit d sz) = f32 (95 / 100))"
proof -
  define s where "s = smoothstep 1 8 (add64 d (mul64 sz (1 / 2)))"
  define r where "r = add64 s (f64 (5 / 100))"
  have s: "0 \<le> s" "s \<le> 1 + 1 / 2 ^ 40" using smoothstep_bounds by (simp_all add: s_def)
  have spl: "reverbSplit d sz = (f32 (sub64 1 r), f32 (mul64 r (f64 (9 / 10))))"
    by (simp add: reverbSplit_def Let_def r_def s_def)
  have "f64 (0 + f64 (5 / 100)) \<le> r" "r \<le> f64 (1 + 1 / 2 ^ 40 + f64 (5 / 100))"
    unfolding r_def add64_def using s by (intro f64_mono; simp)+
  moreover have "49 / 1000 \<le> f64 (0 + f64 (5 / 100))" "f64 (1 + 1 / 2 ^ 40 + f64 (5 / 100)) \<le> 10501 / 10000"
    by code_simp+
  ultimately have r: "49 / 1000 \<le> r" "r \<le> 10501 / 10000" by linarith+
  have "f32 (f64 (1 - 10501 / 10000)) \<le> f32 (sub64 1 r)" "f32 (sub64 1 r) \<le> f32 (f64 (1 - 49 / 1000))"
    unfolding sub64_def using r by (intro f32_mono f64_mono; simp)+
  moreover have "- 6 / 100 \<le> f32 (f64 (1 - 10501 / 10000))" "f32 (f64 (1 - 49 / 1000)) \<le> 96 / 100" by code_simp+
  ultimately have dry: "- 6 / 100 \<le> f32 (sub64 1 r)" "f32 (sub64 1 r) \<le> 96 / 100" by linarith+
  have nine: "0 \<le> f64 (9 / 10)" by code_simp
  have "f32 (f64 (49 / 1000 * f64 (9 / 10))) \<le> f32 (mul64 r (f64 (9 / 10)))"
    "f32 (mul64 r (f64 (9 / 10))) \<le> f32 (f64 (10501 / 10000 * f64 (9 / 10)))"
    unfolding mul64_def using r nine by (intro f32_mono f64_mono mult_right_mono; simp)+
  moreover have "4 / 100 \<le> f32 (f64 (49 / 1000 * f64 (9 / 10)))" "f32 (f64 (10501 / 10000 * f64 (9 / 10))) \<le> 95 / 100"
    by code_simp+
  ultimately have wet: "4 / 100 \<le> f32 (mul64 r (f64 (9 / 10)))" "f32 (mul64 r (f64 (9 / 10))) \<le> 95 / 100" by linarith+
  have far: "f32 (sub64 1 r) < 0" if "8 \<le> add64 d (mul64 sz (1 / 2))"
  proof -
    have "r = add64 1 (f64 (5 / 100))" using smoothstep_edges(2)[OF that] by (simp add: r_def s_def)
    moreover have "f32 (sub64 1 (add64 1 (f64 (5 / 100)))) < 0" by code_simp
    ultimately show ?thesis by simp
  qed
  have near: "f32 (sub64 1 r) = f32 (95 / 100)" if "add64 d (mul64 sz (1 / 2)) \<le> 1"
  proof -
    have "r = add64 0 (f64 (5 / 100))" using smoothstep_edges(1)[OF that] by (simp add: r_def s_def)
    moreover have "f32 (sub64 1 (add64 0 (f64 (5 / 100)))) = f32 (95 / 100)" by code_simp
    ultimately show ?thesis by simp
  qed
  show ?thesis using dry wet far near by (simp add: spl)
qed

theorem reverbSplit_range_witness:
  "fst (reverbSplit 10 0) < 0 \<and> fst (reverbSplit (1 / 2) 0) = f32 (95 / 100)"
proof -
  have "add64 10 (mul64 0 (1 / 2)) = 10" "add64 (1 / 2) (mul64 0 (1 / 2)) = 1 / 2" by code_simp+
  then show ?thesis using reverbSplit_range[of 10 0] reverbSplit_range[of "1 / 2" 0] by simp
qed

end
