(* ===== verification/Delay_Pack.thy ===== *)
theory Delay_Pack
  imports Pair_Laws
begin

text \<open>
  The delay lines and the packing mixer of the encoder (\<^verbatim>\<open>src/engine/ambisonic/delay.go\<close>, \<^verbatim>\<open>mixer.go\<close>, and
  the crossfade of \<^verbatim>\<open>src/engine/gemm\<close>). A source keeps a ring of its recent input; a listener reads it per ear
  at a fractional delay that ramps across the frame, packs the rows and mixes them with the
  previous and the current weights. The single-precision matrix product is a parameter (\<open>sgemm\<close>):
  it is gonum, Accelerate or libxsmm. \<open>None\<close> is an index outside a slice.
\<close>

section \<open>Configuration\<close>

record MixerConfig =
  mc_MaxNodes :: nat
  mc_FrameSize :: nat
  mc_ChannelCount :: nat
  mc_Order :: nat
  mc_Size :: rat
  mc_ReverbPreset :: int
  mc_PureGoMixer :: bool

text \<open>The process-wide alignment parameters of \<^verbatim>\<open>common/bilateral.go\<close>.\<close>

record Bilateral =
  bl_HeadRadiusM :: rat
  bl_SpeedOfSoundMS :: rat
  bl_EarOffsetM :: rat
  bl_MeasurementRadiusM :: rat

definition DelayRingHistory :: nat where "DelayRingHistory = 64"
definition SAMPLE_RATE :: int where "SAMPLE_RATE = 48000"

section \<open>The delay model\<close>

text \<open>What a dual-bus encoder keeps per peer slot: the previous delays of both ears, the frame
  generation in which the slot was last packed, the owner last rendered there, and the near-field
  filter state of both ears with its generation.\<close>

record Delays =
  dl_woodworthScale :: rat
  dl_delayBase :: rat
  dl_prevDelayL :: "rat list"
  dl_prevDelayR :: "rat list"
  dl_slotGen :: "nat list"
  dl_frameGen :: nat
  dl_slotOwner :: "nat option list"
  dl_nfcState :: "(rat list \<times> rat list) list"
  dl_nfcGen :: "nat list"

text \<open>The longest interaural delay of the model, \<open>a / c * (math.Pi/2 + 1) * fs\<close>. The constant
  \<^verbatim>\<open>math.Pi/2 + 1\<close> is exact before its conversion to \<^verbatim>\<open>float64\<close>.\<close>

definition halfPi1 :: rat where "halfPi1 = 1447229672424867 / 562949953421312"

definition maxTau :: "Bilateral \<Rightarrow> rat" where
  "maxTau bl = mul64 (mul64 (div64 (bl_HeadRadiusM bl) (bl_SpeedOfSoundMS bl)) halfPi1) (int64f SAMPLE_RATE)"

definition delayBaseOf :: "Bilateral \<Rightarrow> rat" where
  "delayBaseOf bl = add32 (f32 (of_int \<lceil>div64 (maxTau bl) 2\<rceil>)) 1"

definition initDelayModel :: "Bilateral \<Rightarrow> MixerConfig \<Rightarrow> string + Delays" where
  "initDelayModel bl cfg =
    (if bl_HeadRadiusM bl \<le> 0 \<or> bl_SpeedOfSoundMS bl \<le> 0
     then Inl ''ambisonic: bilateral encoder needs the Woodworth delay model''
     else if add64 (delayBaseOf bl) (div64 (maxTau bl) 2) > of_nat DelayRingHistory
     then Inl ''ambisonic: head radius needs more samples of delay ring''
     else let n = mc_MaxNodes cfg in
       Inr \<lparr> dl_woodworthScale = mul64 (div64 (bl_HeadRadiusM bl) (bl_SpeedOfSoundMS bl)) (int64f SAMPLE_RATE),
         dl_delayBase = delayBaseOf bl, dl_prevDelayL = replicate n 0, dl_prevDelayR = replicate n 0,
         dl_slotGen = replicate n 0, dl_frameGen = 1, dl_slotOwner = replicate n None,
         dl_nfcState = replicate n (replicate 4 0, replicate 4 0), dl_nfcGen = replicate n 0 \<rparr>)"

definition woodworthITDSamples :: "Math \<Rightarrow> Delays \<Rightarrow> rat \<Rightarrow> rat" where
  "woodworthITDSamples mt e latSine =
    (let s = (if latSine > 1 then 1 else if latSine < - 1 then - 1 else latSine)
     in f32 (mul64 (add64 (asinf mt s) s) (dl_woodworthScale e)))"

text \<open>Returns the previous and the current delays, left then right; a slot beyond the arrays is an
  index panic.\<close>

definition pairEarDelays :: "Math \<Rightarrow> Delays \<Rightarrow> nat \<Rightarrow> rat \<Rightarrow> ((rat \<times> rat \<times> rat \<times> rat) \<times> Delays) option" where
  "pairEarDelays mt e slot latSine =
    (if slot < length (dl_slotGen e) then
       let tau = woodworthITDSamples mt e latSine;
           dL = sub32 (dl_delayBase e) (div32 tau 2); dR = add32 (dl_delayBase e) (div32 tau 2);
           (prevL, prevR) = (if dl_slotGen e ! slot = dl_frameGen e - 1
                             then (dl_prevDelayL e ! slot, dl_prevDelayR e ! slot) else (dL, dR))
       in Some ((prevL, prevR, dL, dR),
            e \<lparr> dl_slotGen := (dl_slotGen e)[slot := dl_frameGen e],
                dl_prevDelayL := (dl_prevDelayL e)[slot := dL], dl_prevDelayR := (dl_prevDelayR e)[slot := dR] \<rparr>)
     else None)"

text \<open>The input ring of a source: history, the current frame, one spare sample.\<close>

definition newInputRing :: "MixerConfig \<Rightarrow> rat list" where
  "newInputRing cfg = replicate (DelayRingHistory + mc_FrameSize cfg + 1) 0"

definition pushRing :: "nat \<Rightarrow> rat list \<Rightarrow> rat list \<Rightarrow> rat list" where
  "pushRing frameSize ring input =
    copy_at (copy_at ring 0 (Lasa_Prelude.slice ring frameSize (frameSize + DelayRingHistory)))
      DelayRingHistory (take frameSize input)"

section \<open>The packing mixer\<close>

text \<open>The weight buffers have room for \<^verbatim>\<open>MaxNodes\<close> inputs; the active part is that of the \<^verbatim>\<open>Reset\<close> count.\<close>

record AmbiMixer =
  am_cfg :: MixerConfig
  am_inputTotalCount :: nat
  am_inputRunningCount :: nat
  am_packedInputs :: "rat list"
  am_packedWeights :: "rat list"
  am_previousPackedWeights :: "rat list"
  am_MixCount :: nat

definition NewAmbiMixer :: "MixerConfig \<Rightarrow> AmbiMixer" where
  "NewAmbiMixer cfg = \<lparr> am_cfg = cfg, am_inputTotalCount = 0, am_inputRunningCount = 0, am_packedInputs = [],
     am_packedWeights = replicate (mc_ChannelCount cfg * mc_MaxNodes cfg) 0,
     am_previousPackedWeights = replicate (mc_ChannelCount cfg * mc_MaxNodes cfg) 0, am_MixCount = 0 \<rparr>"

definition Reset :: "AmbiMixer \<Rightarrow> nat \<Rightarrow> AmbiMixer option" where
  "Reset m cnt =
    (if cnt * mc_ChannelCount (am_cfg m) \<le> length (am_packedWeights m)
     then Some (m \<lparr> am_packedInputs := [], am_inputTotalCount := cnt, am_inputRunningCount := 0 \<rparr>) else None)"

definition packWeights :: "AmbiMixer \<Rightarrow> rat list \<Rightarrow> rat list \<Rightarrow> AmbiMixer option" where
  "packWeights m weights previous =
    (let slot = (\<lambda>i. i * am_inputTotalCount m + am_inputRunningCount m) in
     if length weights \<le> length previous \<and>
        (weights = [] \<or> slot (length weights - 1) < am_inputTotalCount m * mc_ChannelCount (am_cfg m))
     then Some (m \<lparr> am_packedWeights := foldl (\<lambda>w i. w[slot i := weights ! i]) (am_packedWeights m) [0..<length weights],
         am_previousPackedWeights := foldl (\<lambda>w i. w[slot i := previous ! i]) (am_previousPackedWeights m) [0..<length weights],
         am_inputRunningCount := am_inputRunningCount m + 1 \<rparr>)
     else None)"

definition AddInput :: "AmbiMixer \<Rightarrow> rat list \<Rightarrow> rat list \<Rightarrow> rat list \<Rightarrow> AmbiMixer option" where
  "AddInput m input weights previous =
    packWeights (m \<lparr> am_packedInputs := am_packedInputs m @ input \<rparr>) weights previous"

text \<open>One interpolated sample of the ring.\<close>

definition readRing :: "rat list \<Rightarrow> nat \<Rightarrow> rat \<Rightarrow> rat option" where
  "readRing ring n d =
    (let pos = sub32 (of_nat (DelayRingHistory + n)) d; i = trunc pos; frac = sub32 pos (f32 (of_int i)) in
     if 0 \<le> i \<and> nat i + 1 < length ring
     then Some (add32 (ring ! nat i) (mul32 frac (sub32 (ring ! (nat i + 1)) (ring ! nat i)))) else None)"

fun delayRow :: "rat list \<Rightarrow> rat \<Rightarrow> nat \<Rightarrow> nat \<Rightarrow> rat \<Rightarrow> rat list option" where
  "delayRow ring step 0 n d = Some []"
| "delayRow ring step (Suc k) n d =
    do { x \<leftarrow> readRing ring n d; xs \<leftarrow> delayRow ring step k (Suc n) (add32 d step); Some (x # xs) }"

definition delayStep :: "nat \<Rightarrow> rat \<Rightarrow> rat \<Rightarrow> rat" where
  "delayStep frameSize prevDelay delay = div32 (sub32 delay prevDelay) (f32 (of_nat frameSize - 1))"

definition packedRow :: "nat \<Rightarrow> rat list \<Rightarrow> rat \<Rightarrow> rat \<Rightarrow> rat list option" where
  "packedRow frameSize ring prevDelay delay =
    (if delay = prevDelay \<and> delay = f32 (of_int (trunc delay)) then
       let start = int DelayRingHistory - trunc delay in
       if 0 \<le> start \<and> nat start + frameSize \<le> length ring
       then Some (Lasa_Prelude.slice ring (nat start) (nat start + frameSize)) else None
     else delayRow ring (delayStep frameSize prevDelay delay) frameSize 0 prevDelay)"

definition addRow :: "AmbiMixer \<Rightarrow> rat list \<Rightarrow> AmbiMixer option" where
  "addRow m row =
    (if length (am_packedInputs m) + mc_FrameSize (am_cfg m) \<le> mc_FrameSize (am_cfg m) * mc_MaxNodes (am_cfg m)
     then Some (m \<lparr> am_packedInputs := am_packedInputs m @ row \<rparr>) else None)"

definition AddInputDelayed :: "AmbiMixer \<Rightarrow> rat list \<Rightarrow> rat \<Rightarrow> rat \<Rightarrow> rat list \<Rightarrow> rat list \<Rightarrow> AmbiMixer option" where
  "AddInputDelayed m ring prevDelay delay weights previous =
    do { row \<leftarrow> packedRow (mc_FrameSize (am_cfg m)) ring prevDelay delay; m \<leftarrow> addRow m row; packWeights m weights previous }"

text \<open>Two cascaded biquads in transposed direct form II, on the coefficients \<^verbatim>\<open>b0 b1 b2 a1 a2\<close> of each
  section and the state of both.\<close>

definition biquads :: "rat list list \<Rightarrow> rat list \<Rightarrow> rat \<Rightarrow> rat \<times> rat list" where
  "biquads c s x =
    (let y0 = add32 (mul32 (c ! 0 ! 0) x) (s ! 0);
         s00 = add32 (sub32 (mul32 (c ! 0 ! 1) x) (mul32 (c ! 0 ! 3) y0)) (s ! 1);
         s01 = sub32 (mul32 (c ! 0 ! 2) x) (mul32 (c ! 0 ! 4) y0);
         y1 = add32 (mul32 (c ! 1 ! 0) y0) (s ! 2);
         s10 = add32 (sub32 (mul32 (c ! 1 ! 1) y0) (mul32 (c ! 1 ! 3) y1)) (s ! 3);
         s11 = sub32 (mul32 (c ! 1 ! 2) y0) (mul32 (c ! 1 ! 4) y1)
     in (y1, [s00, s01, s10, s11]))"

fun nfcRow :: "rat list \<Rightarrow> rat list list \<Rightarrow> rat \<Rightarrow> nat \<Rightarrow> nat \<Rightarrow> rat \<Rightarrow> rat list \<Rightarrow> (rat list \<times> rat list) option" where
  "nfcRow ring c step 0 n d s = Some ([], s)"
| "nfcRow ring c step (Suc k) n d s =
    do { x \<leftarrow> readRing ring n d;
         let (y, s) = biquads c s x;
         (ys, s) \<leftarrow> nfcRow ring c step k (Suc n) (add32 d step) s;
         Some (y # ys, s) }"

definition flushTiny :: "rat \<Rightarrow> rat" where
  "flushTiny s = (if s < f32 (1 / 10^20) \<and> s > - f32 (1 / 10^20) then 0 else s)"

definition AddInputDelayedNFC :: "AmbiMixer \<Rightarrow> rat list \<Rightarrow> rat \<Rightarrow> rat \<Rightarrow> rat list list \<Rightarrow> rat list \<Rightarrow> rat list \<Rightarrow> rat list \<Rightarrow>
    (AmbiMixer \<times> rat list) option" where
  "AddInputDelayedNFC m ring prevDelay delay coeffs state weights previous =
    (let fs = mc_FrameSize (am_cfg m) in
     do { (row, s) \<leftarrow> nfcRow ring coeffs (delayStep fs prevDelay delay) fs 0 prevDelay state;
          m \<leftarrow> addRow m row; m \<leftarrow> packWeights m weights previous; Some (m, map flushTiny s) })"

section \<open>Mixing\<close>

text \<open>\<open>sgemm rows inner stride cols weights inputs\<close> is the product of the \<open>rows\<close> by \<open>inner\<close> matrix of weights,
  its rows \<open>stride\<close> apart, and the \<open>inner\<close> by \<open>cols\<close> matrix of inputs.\<close>

type_synonym sgemm = "nat \<Rightarrow> nat \<Rightarrow> nat \<Rightarrow> nat \<Rightarrow> rat list \<Rightarrow> rat list \<Rightarrow> rat list"

definition sgemm_ok :: "sgemm \<Rightarrow> bool" where
  "sgemm_ok gm \<longleftrightarrow> (\<forall>r k st n w x. length (gm r k st n w x) = r * n \<and> (\<forall>v\<in>set (gm r k st n w x). f32 v = v))"

definition checkShapes :: "nat \<Rightarrow> nat \<Rightarrow> nat \<Rightarrow> nat \<Rightarrow> rat list \<Rightarrow> rat list \<Rightarrow> rat list \<Rightarrow> nat \<Rightarrow> nat \<Rightarrow> bool" where
  "checkShapes nInputs nChannels nMaxInputs nSamples inputs weights previous outputLen tempLen \<longleftrightarrow>
     nChannels * nSamples \<le> outputLen \<and> nChannels * nSamples \<le> tempLen \<and>
     nInputs * nSamples \<le> length inputs \<and>
     (nChannels - 1) * nMaxInputs + nInputs \<le> length weights \<and> (nChannels - 1) * nMaxInputs + nInputs \<le> length previous"

text \<open>The crossfade of the C backends, in mixed precision, and that of \<^verbatim>\<open>Mix2\<close>, in single precision.\<close>

definition fadeRamp :: "nat \<Rightarrow> nat \<Rightarrow> rat" where
  "fadeRamp nSamples j = div32 (f32 (of_nat j)) (f32 (of_nat nSamples - 1))"

definition fadeCombine :: "rat list \<Rightarrow> rat list \<Rightarrow> nat \<Rightarrow> nat \<Rightarrow> rat list" where
  "fadeCombine output temp nChannels nSamples =
    map (\<lambda>k. if k < nChannels * nSamples then
        let v = fadeRamp nSamples (k mod nSamples)
        in f32 (add64 (mul32 v (output ! k)) (mul64 (sub64 1 v) (temp ! k)))
      else output ! k) [0..<length output]"

definition storeAt :: "rat list \<Rightarrow> rat list \<Rightarrow> rat list" where
  "storeAt dst src = src @ drop (length src) dst"

definition EncodeFade :: "sgemm \<Rightarrow> nat \<Rightarrow> nat \<Rightarrow> nat \<Rightarrow> nat \<Rightarrow> rat list \<Rightarrow> rat list \<Rightarrow> rat list \<Rightarrow> rat list \<Rightarrow> rat list option" where
  "EncodeFade gm nInputs nChannels nMaxInputs nSamples inputs weights previous output =
    (if checkShapes nInputs nChannels nMaxInputs nSamples inputs weights previous (length output) (nChannels * nSamples)
     then Some (fadeCombine (storeAt output (gm nChannels nInputs nMaxInputs nSamples weights inputs))
       (gm nChannels nInputs nMaxInputs nSamples previous inputs) nChannels nSamples)
     else None)"

definition Mix2 :: "sgemm \<Rightarrow> AmbiMixer \<Rightarrow> rat list \<Rightarrow> rat list" where
  "Mix2 gm m output =
    (let n = am_inputTotalCount m; cc = mc_ChannelCount (am_cfg m); fs = mc_FrameSize (am_cfg m);
         out = storeAt output (gm cc n n fs (take (n * cc) (am_previousPackedWeights m)) (am_packedInputs m));
         temp = gm cc n n fs (take (n * cc) (am_packedWeights m)) (am_packedInputs m)
     in map (\<lambda>k. if k < cc * fs then
          let v = fadeRamp fs (k mod fs) in add32 (mul32 v (temp ! k)) (mul32 (sub32 1 v) (out ! k))
        else out ! k) [0..<length out])"

definition Mix :: "sgemm \<Rightarrow> AmbiMixer \<Rightarrow> rat list \<Rightarrow> (rat list \<times> AmbiMixer) option" where
  "Mix gm m output =
    (let n = am_inputTotalCount m; cc = mc_ChannelCount (am_cfg m); fs = mc_FrameSize (am_cfg m);
         m' = m \<lparr> am_MixCount := am_MixCount m + n \<rparr> in
     if mc_PureGoMixer (am_cfg m) then Some (Mix2 gm m output, m')
     else map_option (\<lambda>out. (out, m')) (EncodeFade gm n cc n fs (am_packedInputs m)
       (take (n * cc) (am_packedWeights m)) (take (n * cc) (am_previousPackedWeights m)) output))"

section \<open>Reads stay inside the ring\<close>

lemma readRing_inside:
  assumes "0 \<le> d" "d \<le> 129 / 2" "n < 240" "length ring = DelayRingHistory + 240 + 1"
  shows "\<exists>x. readRing ring n d = Some x"
proof -
  let ?pos = "sub32 (of_nat (DelayRingHistory + n)) d"
  have "?pos \<le> of_int (int (64 + n))"
    unfolding sub32_def using assms(1,3) by (intro f32_le_of_int) (simp_all add: DelayRingHistory_def)
  then have up: "trunc ?pos \<le> int (64 + n)" by (metis trunc_mono trunc_of_int)
  have "f32 (- 1 / 2) \<le> ?pos" unfolding sub32_def using assms(2) by (intro f32_mono) (simp add: DelayRingHistory_def)
  moreover have "f32 (- 1 / 2) = - 1 / 2" by code_simp
  ultimately have "trunc (- 1 / 2) \<le> trunc ?pos" by (intro trunc_mono) simp
  moreover have "trunc (- 1 / 2) = 0" by code_simp
  ultimately show ?thesis using up assms(3,4) by (simp add: readRing_def Let_def DelayRingHistory_def)
qed

definition inRing :: "rat \<Rightarrow> bool" where
  "inRing d \<longleftrightarrow> 1 / 2 \<le> d \<and> d \<le> 257 / 4"

text \<open>The accumulated delay of the ramp stays within the span of its ends, up to the rounding of the
  additions.\<close>

lemma step_accuracy:
  assumes "inRing p" "inRing d"
  shows "\<bar>239 * delayStep 240 p d - (d - p)\<bar> \<le> 1 / 2 ^ 16"
proof -
  have s: "delayStep 240 p d = f32 (f32 (d - p) / 239)"
  proof -
    have "f32 (of_nat 240 - 1) = 239" by code_simp
    then show ?thesis by (simp add: delayStep_def div32_def sub32_def)
  qed
  let ?x = "d - p" and ?e = "1 / 16777216 :: rat"
  have x: "\<bar>?x\<bar> \<le> 64" using assms by (auto simp: inRing_def abs_le_iff)
  have a: "\<bar>f32 ?x - ?x\<bar> \<le> 64 * ?e" using f32_err[of ?x] x by simp
  then have y: "\<bar>f32 ?x\<bar> \<le> 65" using x unfolding abs_le_iff by linarith
  have b: "\<bar>f32 (f32 ?x / 239) - f32 ?x / 239\<bar> \<le> 65 / 239 * ?e"
    by (rule order_trans[OF f32_err]) (use y in simp)
  have "239 * f32 (f32 ?x / 239) - ?x = 239 * (f32 (f32 ?x / 239) - f32 ?x / 239) + (f32 ?x - ?x)" by simp
  then have "\<bar>239 * f32 (f32 ?x / 239) - ?x\<bar> \<le> 239 * (65 / 239 * ?e) + 64 * ?e"
    using a b by (simp only: abs_le_iff) linarith
  then show ?thesis unfolding s by simp
qed

lemma ramp_bounds:
  assumes "inRing p" "inRing d" "n < 240" "\<bar>x - (p + of_nat n * delayStep 240 p d)\<bar> \<le> of_nat n / 2 ^ 17"
  shows "0 \<le> x \<and> x \<le> 129 / 2 \<and> \<bar>x + delayStep 240 p d\<bar> \<le> 66"
proof -
  let ?s = "delayStep 240 p d"
  have acc: "\<bar>239 * ?s - (d - p)\<bar> \<le> 1 / 2 ^ 16" using step_accuracy assms(1,2) by blast
  define t :: rat where "t = of_nat n / 239"
  have t: "0 \<le> t" "t \<le> 1" using assms(3) by (simp_all add: t_def)
  have e: "of_nat n * ?s = t * (239 * ?s)" by (simp add: t_def)
  have "\<bar>t * (239 * ?s) - t * (d - p)\<bar> \<le> 1 / 2 ^ 16"
  proof -
    have "\<bar>t * (239 * ?s) - t * (d - p)\<bar> = t * \<bar>239 * ?s - (d - p)\<bar>"
      using t(1) by (simp only: right_diff_distrib[symmetric] abs_mult abs_of_nonneg)
    also have "\<dots> \<le> 1 * (1 / 2 ^ 16)" using t acc by (intro mult_mono) auto
    finally show ?thesis by simp
  qed
  moreover have "1 / 2 \<le> p + t * (d - p)" "p + t * (d - p) \<le> 257 / 4"
  proof -
    have k: "(1 - t) * k + t * k = k" for k by (simp add: algebra_simps)
    have c: "p + t * (d - p) = (1 - t) * p + t * d" by (simp add: algebra_simps)
    have "(1 - t) * (1 / 2) + t * (1 / 2) \<le> (1 - t) * p + t * d"
      using t assms(1,2) by (intro add_mono mult_left_mono) (auto simp: inRing_def)
    then show "1 / 2 \<le> p + t * (d - p)" unfolding c k .
    have "(1 - t) * p + t * d \<le> (1 - t) * (257 / 4) + t * (257 / 4)"
      using t assms(1,2) by (intro add_mono mult_left_mono) (auto simp: inRing_def)
    then show "p + t * (d - p) \<le> 257 / 4" unfolding c k .
  qed
  moreover have "of_nat n / 2 ^ 17 \<le> (1 / 256 :: rat)" using assms(3) by simp
  ultimately have x: "1 / 4 \<le> x" "x \<le> 257 / 4 + 1 / 128"
    using assms(4) unfolding e abs_le_iff by auto
  have "(1 / 2 ^ 16 :: rat) \<le> 1" by simp
  then have "\<bar>?s\<bar> \<le> 1" using acc assms(1,2) unfolding abs_le_iff inRing_def by linarith
  then show ?thesis using x by (auto simp: abs_le_iff)
qed

lemma ramp_step:
  assumes "\<bar>x - (p + of_nat n * s)\<bar> \<le> of_nat n / 2 ^ 17" "\<bar>x + s\<bar> \<le> 66"
  shows "\<bar>add32 x s - (p + of_nat (Suc n) * s)\<bar> \<le> of_nat (Suc n) / 2 ^ 17"
proof -
  have "\<bar>add32 x s - (x + s)\<bar> \<le> 1 / 2 ^ 17" using f32_err[of "x + s"] assms(2) by (simp add: add32_def)
  moreover have "p + of_nat (Suc n) * s = p + of_nat n * s + s" by (simp add: algebra_simps)
  moreover have "of_nat (Suc n) / 2 ^ 17 = of_nat n / 2 ^ 17 + (1 / 2 ^ 17 :: rat)" by (simp add: add_divide_distrib)
  ultimately show ?thesis using assms(1) by (simp only: abs_le_iff) linarith
qed

lemma delayRow_inside:
  assumes "inRing p" "inRing d" "length ring = DelayRingHistory + 240 + 1" "n + k = 240"
    "\<bar>x - (p + of_nat n * delayStep 240 p d)\<bar> \<le> of_nat n / 2 ^ 17"
  shows "\<exists>xs. delayRow ring (delayStep 240 p d) k n x = Some xs \<and> length xs = k"
  using assms(4,5)
proof (induction k arbitrary: n x)
  case (Suc k)
  have n: "n < 240" using Suc.prems(1) by simp
  have b: "0 \<le> x" "x \<le> 129 / 2" "\<bar>x + delayStep 240 p d\<bar> \<le> 66"
    using ramp_bounds[OF assms(1,2) n Suc.prems(2)] by auto
  obtain v where "readRing ring n x = Some v" using readRing_inside[OF b(1,2) n assms(3)] by blast
  moreover obtain xs where "delayRow ring (delayStep 240 p d) k (Suc n) (add32 x (delayStep 240 p d)) = Some xs" "length xs = k"
    using Suc.IH[OF _ ramp_step[OF Suc.prems(2) b(3)]] Suc.prems(1) by auto
  ultimately show ?case by simp
qed simp

lemma nfcRow_inside:
  assumes "inRing p" "inRing d" "length ring = DelayRingHistory + 240 + 1" "n + k = 240"
    "\<bar>x - (p + of_nat n * delayStep 240 p d)\<bar> \<le> of_nat n / 2 ^ 17" "length s = 4"
  shows "\<exists>xs s'. nfcRow ring c (delayStep 240 p d) k n x s = Some (xs, s') \<and> length xs = k \<and> length s' = 4"
  using assms(4-)
proof (induction k arbitrary: n x s)
  case (Suc k)
  have n: "n < 240" using Suc.prems(1) by simp
  have b: "0 \<le> x" "x \<le> 129 / 2" "\<bar>x + delayStep 240 p d\<bar> \<le> 66"
    using ramp_bounds[OF assms(1,2) n Suc.prems(2)] by auto
  obtain v where v: "readRing ring n x = Some v" using readRing_inside[OF b(1,2) n assms(3)] by blast
  obtain y s1 where y: "biquads c s v = (y, s1)" by (cases "biquads c s v")
  then have "length s1 = 4" by (auto simp: biquads_def Let_def)
  then obtain xs s' where "nfcRow ring c (delayStep 240 p d) k (Suc n) (add32 x (delayStep 240 p d)) s1 = Some (xs, s')"
    "length xs = k" "length s' = 4"
    using Suc.IH[OF _ ramp_step[OF Suc.prems(2) b(3)], of s1] Suc.prems(1) by fastforce
  then show ?case by (simp add: v y)
qed simp

lemma packedRow_inside:
  assumes "inRing p" "inRing d" "length ring = DelayRingHistory + 240 + 1"
  shows "\<exists>xs. packedRow 240 ring p d = Some xs \<and> length xs = 240"
proof (cases "d = p \<and> d = f32 (of_int (trunc d))")
  case True
  have d: "1 / 2 \<le> d" "d \<le> 257 / 4" using assms(2) by (auto simp: inRing_def)
  have "trunc (1 / 2) \<le> trunc d" "trunc d \<le> trunc (257 / 4)" using d by (auto intro: trunc_mono)
  moreover have "trunc (1 / 2) = 0" "trunc (257 / 4) = 64" by code_simp+
  ultimately have t: "0 \<le> trunc d" "trunc d \<le> 64" by auto
  then have n: "nat (64 - trunc d) + 240 \<le> length ring" using assms(3) by (simp add: DelayRingHistory_def)
  have "packedRow 240 ring p d = Some (Lasa_Prelude.slice ring (nat (64 - trunc d)) (nat (64 - trunc d) + 240))"
  proof -
    have "0 \<le> int 64 - trunc d" using t(2) by simp
    then show ?thesis using n unfolding packedRow_def Let_def DelayRingHistory_def if_P[OF True] by simp
  qed
  then show ?thesis using n by simp
next
  case False
  then show ?thesis using delayRow_inside[OF assms, of 0 240 p] by (auto simp: packedRow_def)
qed

section \<open>The model's delays stay inside the ring\<close>

lemma f64_half: "f64 x = x \<Longrightarrow> f64 (x / 2) = x / 2"
  using rnd_double[of 53 "x / 2"] by (simp add: f64_def)

lemma halfPi1_sum: "f64 (piF / 2 + 1) = halfPi1"
  by code_simp

text \<open>A successful initialisation bounds the model's longest delay and fixes the base delay exactly.\<close>

lemma delay_base:
  assumes "initDelayModel bl cfg = Inr e"
  shows "0 \<le> maxTau bl" "dl_delayBase e = of_int \<lceil>maxTau bl / 2\<rceil> + 1" "dl_delayBase e + maxTau bl / 2 \<le> 64 + 1 / 2 ^ 40"
    "maxTau bl \<le> 130"
proof -
  let ?T = "maxTau bl"
  have pos: "0 < bl_HeadRadiusM bl" "0 < bl_SpeedOfSoundMS bl" and
    fit: "add64 (delayBaseOf bl) (div64 ?T 2) \<le> 64" and b: "dl_delayBase e = delayBaseOf bl"
    using assms by (auto simp: initDelayModel_def Let_def DelayRingHistory_def not_le not_less split: if_splits)
  have "0 \<le> int64f SAMPLE_RATE" by (simp add: int64f_def f64_nonneg SAMPLE_RATE_def)
  then show T: "0 \<le> ?T"
    using pos by (simp add: maxTau_def mul64_def div64_def f64_nonneg halfPi1_def)
  have half: "div64 ?T 2 = ?T / 2" unfolding div64_def by (rule f64_half) (simp add: maxTau_def mul64_def)
  have base0: "0 \<le> delayBaseOf bl" using T by (simp add: delayBaseOf_def add32_def half f32_nonneg)
  have le65: "delayBaseOf bl + ?T / 2 \<le> 65"
  proof (rule ccontr)
    assume "\<not> ?thesis"
    then have "of_int 65 \<le> f64 (delayBaseOf bl + ?T / 2)" by (intro f64_ge_of_int) auto
    then show False using fit by (simp add: add64_def half)
  qed
  then show "?T \<le> 130" using base0 by simp
  then have c: "0 \<le> \<lceil>?T / 2\<rceil>" "\<lceil>?T / 2\<rceil> \<le> 65" using T by (simp_all add: ceiling_le_iff)
  have "f32 (of_int \<lceil>?T / 2\<rceil>) = of_int \<lceil>?T / 2\<rceil>" using c by (intro f32_of_int) auto
  moreover have "f32 (of_int (\<lceil>?T / 2\<rceil> + 1)) = of_int (\<lceil>?T / 2\<rceil> + 1)" using c by (intro f32_of_int) auto
  ultimately show base: "dl_delayBase e = of_int \<lceil>?T / 2\<rceil> + 1" by (simp add: b delayBaseOf_def half add32_def)
  have "\<bar>f64 (delayBaseOf bl + ?T / 2) - (delayBaseOf bl + ?T / 2)\<bar> \<le> 65 / 9007199254740992"
    using f64_err[of "delayBaseOf bl + ?T / 2"] le65 base0 T by simp
  then have "delayBaseOf bl + ?T / 2 \<le> 64 + 65 / 9007199254740992" using fit unfolding add64_def half abs_le_iff by linarith
  then show "dl_delayBase e + ?T / 2 \<le> 64 + 1 / 2 ^ 40" by (simp add: b)
qed

lemma maxTau_lower:
  assumes "0 < bl_HeadRadiusM bl" "0 < bl_SpeedOfSoundMS bl"
  shows "halfPi1 * mul64 (div64 (bl_HeadRadiusM bl) (bl_SpeedOfSoundMS bl)) 48000 \<le> maxTau bl * (1 + 1 / 2 ^ 50)"
proof -
  define q where "q = div64 (bl_HeadRadiusM bl) (bl_SpeedOfSoundMS bl)"
  let ?u = "1 / 9007199254740992 :: rat"
  have q: "0 \<le> q" using assms by (simp add: q_def div64_def f64_nonneg)
  have h: "0 < halfPi1" by (simp add: halfPi1_def)
  have up: "f64 y \<le> y * (1 + ?u)" if "0 \<le> y" for y
    using f64_err[of y] that unfolding abs_le_iff distrib_left by simp
  have lo: "y * (1 - ?u) \<le> f64 y" if "0 \<le> y" for y
    using f64_err[of y] that unfolding abs_le_iff right_diff_distrib by simp
  have s: "int64f SAMPLE_RATE = 48000" by code_simp
  have "halfPi1 * mul64 q 48000 \<le> halfPi1 * (q * 48000 * (1 + ?u))"
    using q h up[of "q * 48000"] by (intro mult_left_mono) (auto simp: mul64_def)
  also have "\<dots> = q * halfPi1 * 48000 * (1 + ?u)" by (simp add: mult_ac)
  also have "\<dots> \<le> q * halfPi1 * 48000 * ((1 - ?u) * (1 - ?u) * (1 + 1 / 2 ^ 50))"
    using q h by (intro mult_left_mono) auto
  also have "\<dots> = q * halfPi1 * (1 - ?u) * 48000 * (1 - ?u) * (1 + 1 / 2 ^ 50)" by (simp add: mult_ac)
  also have "\<dots> \<le> mul64 q halfPi1 * 48000 * (1 - ?u) * (1 + 1 / 2 ^ 50)"
    using q h lo[of "q * halfPi1"] by (intro mult_right_mono) (auto simp: mul64_def)
  also have "\<dots> \<le> mul64 (mul64 q halfPi1) 48000 * (1 + 1 / 2 ^ 50)"
    using q h lo[of "mul64 q halfPi1 * 48000"] by (intro mult_right_mono) (auto simp: mul64_def f64_nonneg)
  finally show ?thesis by (simp add: maxTau_def q_def s)
qed

lemma woodworth_bound:
  assumes "math_ok mt" "initDelayModel bl cfg = Inr e0" "dl_woodworthScale e = dl_woodworthScale e0"
  shows "\<bar>woodworthITDSamples mt e s\<bar> \<le> maxTau bl + 1 / 2 ^ 16"
proof -
  define c where "c = (if s > 1 then 1 else if s < - 1 then - 1 else s)"
  have c: "\<bar>c\<bar> \<le> 1" by (auto simp: c_def)
  let ?S = "mul64 (div64 (bl_HeadRadiusM bl) (bl_SpeedOfSoundMS bl)) 48000"
  have pos: "0 < bl_HeadRadiusM bl" "0 < bl_SpeedOfSoundMS bl" and "dl_woodworthScale e = mul64 (div64 (bl_HeadRadiusM bl) (bl_SpeedOfSoundMS bl)) (int64f SAMPLE_RATE)"
    using assms(2,3) by (auto simp: initDelayModel_def Let_def not_le split: if_splits)
  moreover have "int64f SAMPLE_RATE = 48000" by code_simp
  ultimately have S: "dl_woodworthScale e = ?S" by simp
  have S0: "0 \<le> ?S" using pos by (simp add: mul64_def div64_def f64_nonneg)
  have "\<bar>asinf mt c\<bar> \<le> piF / 2" using assms(1) c by (simp add: math_ok_def)
  then have "\<bar>asinf mt c + c\<bar> \<le> piF / 2 + 1" using c unfolding abs_le_iff by linarith
  then have A: "\<bar>add64 (asinf mt c) c\<bar> \<le> halfPi1"
    using f64_mono[of "asinf mt c + c" "piF / 2 + 1"] f64_mono[of "- (asinf mt c + c)" "piF / 2 + 1"]
    unfolding add64_def abs_le_iff halfPi1_sum f64_uminus by blast
  have "\<bar>add64 (asinf mt c) c * ?S\<bar> \<le> halfPi1 * ?S" using A S0 by (simp add: abs_mult mult_right_mono)
  also have "\<dots> \<le> maxTau bl * (1 + 1 / 2 ^ 50)" using maxTau_lower[OF pos] .
  also have "\<dots> \<le> maxTau bl + 130 / 2 ^ 50" using delay_base(4)[OF assms(2)] by (simp add: distrib_left)
  finally have a: "\<bar>add64 (asinf mt c) c * ?S\<bar> \<le> maxTau bl + 130 / 2 ^ 50" .
  have b: "\<bar>mul64 (add64 (asinf mt c) c) ?S\<bar> \<le> maxTau bl + 147 / 2 ^ 50"
  proof -
    have "\<bar>mul64 (add64 (asinf mt c) c) ?S - add64 (asinf mt c) c * ?S\<bar> \<le> 17 / 2 ^ 50"
    proof -
      have "(130 / 2 ^ 50 :: rat) \<le> 1" by simp
      then have "\<bar>add64 (asinf mt c) c * ?S\<bar> \<le> 131" using a delay_base(4)[OF assms(2)] by linarith
      then show ?thesis unfolding mul64_def[of "add64 (asinf mt c) c"] by (intro order_trans[OF f64_err]) simp
    qed
    moreover have "(130 / 2 ^ 50 :: rat) + 17 / 2 ^ 50 = 147 / 2 ^ 50" by simp
    ultimately show ?thesis using a unfolding abs_le_iff by linarith
  qed
  have "\<bar>woodworthITDSamples mt e s - mul64 (add64 (asinf mt c) c) ?S\<bar> \<le> 3 / 2 ^ 18"
  proof -
    have "(147 / 2 ^ 50 :: rat) \<le> 1" by simp
    then have "\<bar>mul64 (add64 (asinf mt c) c) ?S\<bar> \<le> 131" using b delay_base(4)[OF assms(2)] by linarith
    then show ?thesis unfolding woodworthITDSamples_def Let_def c_def[symmetric] S by (intro order_trans[OF f32_err]) simp
  qed
  moreover have "(147 / 2 ^ 50 :: rat) + 3 / 2 ^ 18 \<le> 1 / 2 ^ 16" by simp
  ultimately show ?thesis using b unfolding abs_le_iff by linarith
qed

definition modelOf :: "Bilateral \<Rightarrow> MixerConfig \<Rightarrow> Delays \<Rightarrow> bool" where
  "modelOf bl cfg e \<longleftrightarrow> (\<exists>e0. initDelayModel bl cfg = Inr e0 \<and> dl_woodworthScale e = dl_woodworthScale e0 \<and>
     dl_delayBase e = dl_delayBase e0)"

lemma ear_delays_inside:
  assumes "math_ok mt" "modelOf bl cfg e"
  shows "inRing (sub32 (dl_delayBase e) (div32 (woodworthITDSamples mt e s) 2))"
    "inRing (add32 (dl_delayBase e) (div32 (woodworthITDSamples mt e s) 2))"
proof -
  obtain e0 where e0: "initDelayModel bl cfg = Inr e0" "dl_woodworthScale e = dl_woodworthScale e0" "dl_delayBase e = dl_delayBase e0"
    using assms(2) by (auto simp: modelOf_def)
  define h where "h = div32 (woodworthITDSamples mt e s) 2"
  have w: "\<bar>woodworthITDSamples mt e s\<bar> \<le> maxTau bl + 1 / 2 ^ 16" using woodworth_bound[OF assms(1) e0(1,2)] .
  have T: "0 \<le> maxTau bl" "maxTau bl \<le> 130" using delay_base[OF e0(1)] by auto
  have "\<bar>h - woodworthITDSamples mt e s / 2\<bar> \<le> 1 / 2 ^ 17"
    unfolding h_def div32_def by (rule order_trans[OF f32_err]) (use w T in simp)
  moreover have "\<bar>woodworthITDSamples mt e s / 2\<bar> \<le> maxTau bl / 2 + 1 / 2 ^ 17" using w by simp
  moreover have "(1 / 2 ^ 17 :: rat) + 1 / 2 ^ 17 = 1 / 2 ^ 16" by simp
  ultimately have h: "\<bar>h\<bar> \<le> maxTau bl / 2 + 1 / 2 ^ 16" unfolding abs_le_iff by linarith
  have base: "dl_delayBase e = of_int \<lceil>maxTau bl / 2\<rceil> + 1" "dl_delayBase e + maxTau bl / 2 \<le> 64 + 1 / 2 ^ 40"
    using delay_base[OF e0(1)] e0(3) by auto
  have low: "1 + maxTau bl / 2 \<le> dl_delayBase e" unfolding base(1) by linarith
  have lo: "1 / 2 \<le> dl_delayBase e - \<bar>h\<bar>" and hi: "dl_delayBase e + \<bar>h\<bar> \<le> 257 / 4"
  proof -
    have "(1 / 2 ^ 16 :: rat) \<le> 1 / 8" "(1 / 2 ^ 40 :: rat) \<le> 1 / 8" by simp_all
    with low show "1 / 2 \<le> dl_delayBase e - \<bar>h\<bar>" "dl_delayBase e + \<bar>h\<bar> \<le> 257 / 4"
      using h base(2) by linarith+
  qed
  have r: "f32 (1 / 2) = 1 / 2" "f32 (257 / 4) = 257 / 4" by code_simp+
  have in32: "inRing (f32 x)" if "1 / 2 \<le> x" "x \<le> 257 / 4" for x
    using f32_mono[OF that(1)] f32_mono[OF that(2)] by (simp add: inRing_def r)
  show "inRing (sub32 (dl_delayBase e) (div32 (woodworthITDSamples mt e s) 2))"
    "inRing (add32 (dl_delayBase e) (div32 (woodworthITDSamples mt e s) 2))"
    unfolding h_def[symmetric] sub32_def add32_def using lo hi by (intro in32; linarith)+
qed

text \<open>The listener's delay state: every slot packed before holds delays inside the ring.\<close>

definition delaysOk :: "Bilateral \<Rightarrow> MixerConfig \<Rightarrow> Delays \<Rightarrow> bool" where
  "delaysOk bl cfg e \<longleftrightarrow> modelOf bl cfg e \<and> 1 \<le> dl_frameGen e \<and>
     length (dl_prevDelayL e) = mc_MaxNodes cfg \<and> length (dl_prevDelayR e) = mc_MaxNodes cfg \<and>
     length (dl_slotGen e) = mc_MaxNodes cfg \<and> length (dl_slotOwner e) = mc_MaxNodes cfg \<and>
     length (dl_nfcState e) = mc_MaxNodes cfg \<and> length (dl_nfcGen e) = mc_MaxNodes cfg \<and>
     (\<forall>s<mc_MaxNodes cfg. length (fst (dl_nfcState e ! s)) = 4 \<and> length (snd (dl_nfcState e ! s)) = 4) \<and>
     (\<forall>s<mc_MaxNodes cfg. dl_slotGen e ! s \<noteq> 0 \<longrightarrow> inRing (dl_prevDelayL e ! s) \<and> inRing (dl_prevDelayR e ! s))"

lemma initDelayModel_ok: "initDelayModel bl cfg = Inr e \<Longrightarrow> delaysOk bl cfg e"
  by (auto simp: delaysOk_def modelOf_def initDelayModel_def Let_def split: if_splits)

lemma pairEarDelays_ok:
  assumes "math_ok mt" "delaysOk bl cfg e" "2 \<le> dl_frameGen e" "slot < mc_MaxNodes cfg"
  shows "\<exists>pl pr l r e'. pairEarDelays mt e slot s = Some ((pl, pr, l, r), e') \<and>
    inRing pl \<and> inRing pr \<and> inRing l \<and> inRing r \<and> delaysOk bl cfg e' \<and> dl_frameGen e' = dl_frameGen e \<and>
    dl_slotOwner e' = dl_slotOwner e \<and> dl_nfcState e' = dl_nfcState e \<and> dl_nfcGen e' = dl_nfcGen e"
proof -
  have m: "modelOf bl cfg e" using assms(2) by (simp add: delaysOk_def)
  note d = ear_delays_inside[OF assms(1) m, of s]
  have "inRing (dl_prevDelayL e ! slot) \<and> inRing (dl_prevDelayR e ! slot)" if "dl_slotGen e ! slot = dl_frameGen e - 1"
    using assms(2-4) that by (auto simp: delaysOk_def)
  then show ?thesis using assms(2,4) d
    by (auto simp: pairEarDelays_def Let_def delaysOk_def modelOf_def nth_list_update)
qed

section \<open>The crossfade\<close>

lemma length_storeAt: "length src \<le> length dst \<Longrightarrow> length (storeAt dst src) = length dst"
  by (simp add: storeAt_def)

lemma nth_storeAt: "k < length src \<Longrightarrow> storeAt dst src ! k = src ! k"
  by (simp add: storeAt_def nth_append)

lemma fadeRamp_ends: "2 \<le> n \<Longrightarrow> n \<le> 2 ^ 24 \<Longrightarrow> fadeRamp n 0 = 0" "2 \<le> n \<Longrightarrow> n \<le> 2 ^ 24 \<Longrightarrow> fadeRamp n (n - 1) = 1"
proof -
  assume n: "2 \<le> n" "n \<le> 2 ^ 24"
  then have "f32 (of_int (int n - 1)) = of_int (int n - 1)" by (intro f32_of_int) auto
  then have e: "f32 (of_nat n - 1) = of_nat n - 1" by simp
  moreover have "f32 1 = 1" by code_simp
  ultimately show "fadeRamp n (n - 1) = 1" using n by (simp add: fadeRamp_def div32_def of_nat_diff)
qed (simp add: fadeRamp_def div32_def)

lemma fade_cell:
  "f32 x = x \<Longrightarrow> f32 (add64 (mul32 0 y) (mul64 (sub64 1 0) x)) = x"
  "f32 x = x \<Longrightarrow> f32 (add64 (mul32 1 x) (mul64 (sub64 1 1) y)) = x"
  "f32 x = x \<Longrightarrow> add32 (mul32 0 y) (mul32 (sub32 1 0) x) = x"
  "f32 x = x \<Longrightarrow> add32 (mul32 1 x) (mul32 (sub32 1 1) y) = x"
proof -
  have one: "f64 1 = 1" "f32 1 = 1" by code_simp+
  have two: "f32 (f64 x) = x" if "f32 x = x" for x
  proof -
    have "repr 24 x" using repr_rnd[of 24 x] that by (simp add: f32_def)
    then obtain m k where "x = of_int m * 2 powi k" "\<bar>m\<bar> \<le> 2 ^ 24" by (auto simp: repr_def)
    moreover from this(2) have "\<bar>m\<bar> \<le> 2 ^ 53" by simp
    ultimately have "repr 53 x" unfolding repr_def by blast
    then have "f64 x = x" by (simp add: f64_def rnd_exact)
    then show ?thesis using that by simp
  qed
  show "f32 x = x \<Longrightarrow> f32 (add64 (mul32 0 y) (mul64 (sub64 1 0) x)) = x"
    "f32 x = x \<Longrightarrow> f32 (add64 (mul32 1 x) (mul64 (sub64 1 1) y)) = x"
    "f32 x = x \<Longrightarrow> add32 (mul32 0 y) (mul32 (sub32 1 0) x) = x"
    "f32 x = x \<Longrightarrow> add32 (mul32 1 x) (mul32 (sub32 1 1) y) = x"
    using two by (simp_all add: add64_def add32_def mul32_def mul64_def sub64_def sub32_def one)
qed

lemma sgemm_cell: "sgemm_ok gm \<Longrightarrow> k < r * n \<Longrightarrow> f32 (gm r a st n w x ! k) = gm r a st n w x ! k"
  unfolding sgemm_ok_def by (metis nth_mem)

lemma sgemm_length: "sgemm_ok gm \<Longrightarrow> length (gm r a st n w x) = r * n"
  by (simp add: sgemm_ok_def)

lemma cell_index:
  assumes "c < cc" "j < (fs::nat)"
  shows "c * fs + j < cc * fs" "(c * fs + j) mod fs = j"
proof -
  have "(c + 1) * fs \<le> cc * fs" using assms(1) by (intro mult_right_mono) auto
  then show "c * fs + j < cc * fs" using assms(2) by (simp add: algebra_simps)
  show "(c * fs + j) mod fs = j" using assms(2) by simp
qed

definition mixOf :: "sgemm \<Rightarrow> AmbiMixer \<Rightarrow> rat list \<Rightarrow> rat list" where
  "mixOf gm m weights = (let n = am_inputTotalCount m; cc = mc_ChannelCount (am_cfg m) in
     gm cc n n (mc_FrameSize (am_cfg m)) (take (n * cc) weights) (am_packedInputs m))"

text \<open>C32. Both mixing paths crossfade exactly: on every channel the first sample of a frame is the mix
  under the previous frame's weights and the last is the mix under the current ones, bit for bit,
  so consecutive frames join without a step in the weights.\<close>

theorem Mix_crossfade:
  assumes "sgemm_ok gm" "Mix gm m output = Some (out, m')" "mc_ChannelCount (am_cfg m) * mc_FrameSize (am_cfg m) \<le> length output"
    "2 \<le> mc_FrameSize (am_cfg m)" "mc_FrameSize (am_cfg m) \<le> 2 ^ 24" "c < mc_ChannelCount (am_cfg m)"
  shows "out ! (c * mc_FrameSize (am_cfg m)) = mixOf gm m (am_previousPackedWeights m) ! (c * mc_FrameSize (am_cfg m)) \<and>
    out ! (c * mc_FrameSize (am_cfg m) + (mc_FrameSize (am_cfg m) - 1)) =
      mixOf gm m (am_packedWeights m) ! (c * mc_FrameSize (am_cfg m) + (mc_FrameSize (am_cfg m) - 1)) \<and>
    length out = length output"
proof -
  define n cc fs where "n = am_inputTotalCount m" and "cc = mc_ChannelCount (am_cfg m)" and "fs = mc_FrameSize (am_cfg m)"
  define P where "P = mixOf gm m (am_previousPackedWeights m)"
  define Q where "Q = mixOf gm m (am_packedWeights m)"
  note d = n_def[symmetric] cc_def[symmetric] fs_def[symmetric]
  have P: "P = gm cc n n fs (take (n * cc) (am_previousPackedWeights m)) (am_packedInputs m)" and
    Q: "Q = gm cc n n fs (take (n * cc) (am_packedWeights m)) (am_packedInputs m)"
    by (simp_all add: P_def Q_def mixOf_def Let_def n_def cc_def fs_def)
  have lens: "length P = cc * fs" "length Q = cc * fs" using sgemm_length[OF assms(1)] by (simp_all add: P Q)
  have fs: "2 \<le> fs" "fs \<le> 2 ^ 24" "c < cc" "cc * fs \<le> length output" using assms(3-) by (simp_all add: d)
  have i0: "c * fs < cc * fs" "(c * fs) mod fs = 0" using cell_index[of c cc 0 fs] fs by auto
  have i1: "c * fs + (fs - 1) < cc * fs" "(c * fs + (fs - 1)) mod fs = fs - 1" using cell_index[of c cc "fs - 1" fs] fs by auto
  have cells: "f32 (P ! k) = P ! k" "f32 (Q ! k) = Q ! k" if "k < cc * fs" for k
    using sgemm_cell[OF assms(1) that] by (simp_all add: P Q)
  have r: "fadeRamp fs 0 = 0" "fadeRamp fs (fs - Suc 0) = 1" using fadeRamp_ends[OF fs(1,2)] by simp_all
  have "out ! (c * fs) = P ! (c * fs) \<and> out ! (c * fs + (fs - 1)) = Q ! (c * fs + (fs - 1)) \<and> length out = length output"
  proof (cases "mc_PureGoMixer (am_cfg m)")
    case True
    then have "out = Mix2 gm m output" using assms(2) by (simp add: Mix_def Let_def)
    then have out: "out = map (\<lambda>k. if k < cc * fs then
        add32 (mul32 (fadeRamp fs (k mod fs)) (Q ! k)) (mul32 (sub32 1 (fadeRamp fs (k mod fs))) (storeAt output P ! k))
        else storeAt output P ! k) [0..<length (storeAt output P)]"
      by (simp add: Mix2_def Let_def d P[symmetric] Q[symmetric])
    show ?thesis using i0 i1 fs lens cells
      by (simp add: out length_storeAt nth_storeAt r fade_cell)
  next
    case False
    then have "out = fadeCombine (storeAt output Q) P cc fs"
      using assms(2) by (auto simp: Mix_def EncodeFade_def Let_def d P[symmetric] Q[symmetric] split: if_splits)
    then have out: "out = map (\<lambda>k. if k < cc * fs then
        f32 (add64 (mul32 (fadeRamp fs (k mod fs)) (storeAt output Q ! k)) (mul64 (sub64 1 (fadeRamp fs (k mod fs))) (P ! k)))
        else storeAt output Q ! k) [0..<length (storeAt output Q)]"
      by (simp add: fadeCombine_def Let_def)
    show ?thesis using i0 i1 fs lens cells
      by (simp add: out length_storeAt nth_storeAt r fade_cell)
  qed
  then show ?thesis by (simp add: P_def Q_def fs_def)
qed

text \<open>A small instance: one channel, one input, two samples per frame; the product is exact here.\<close>

definition demo_sgemm :: sgemm where
  "demo_sgemm r k st n w x = map (\<lambda>c. f32 (\<Sum>i<k. w ! ((c div n) * st + i) * x ! (i * n + c mod n))) [0..<r * n]"

lemma demo_sgemm_ok: "sgemm_ok demo_sgemm"
  by (auto simp: sgemm_ok_def demo_sgemm_def)

definition demo_packer :: AmbiMixer where
  "demo_packer = \<lparr> am_cfg = \<lparr> mc_MaxNodes = 1, mc_FrameSize = 2, mc_ChannelCount = 1, mc_Order = 0, mc_Size = 1, mc_ReverbPreset = 0,
      mc_PureGoMixer = False \<rparr>, am_inputTotalCount = 1, am_inputRunningCount = 1, am_packedInputs = [1, 1],
      am_packedWeights = [3], am_previousPackedWeights = [2], am_MixCount = 0 \<rparr>"

theorem Mix_crossfade_witness:
  "\<exists>out m'. Mix demo_sgemm demo_packer [0, 0] = Some (out, m') \<and> out ! 0 = 2 \<and> out ! 1 = 3"
proof -
  have "Mix demo_sgemm demo_packer [0, 0] \<noteq> None" by code_simp
  then obtain out m' where o: "Mix demo_sgemm demo_packer [0, 0] = Some (out, m')" by auto
  have c: "mc_FrameSize (am_cfg demo_packer) = 2" "mc_ChannelCount (am_cfg demo_packer) = 1" by (simp_all add: demo_packer_def)
  have v: "mixOf demo_sgemm demo_packer (am_previousPackedWeights demo_packer) ! 0 = 2"
    "mixOf demo_sgemm demo_packer (am_packedWeights demo_packer) ! 1 = 3" by code_simp+
  from Mix_crossfade[OF demo_sgemm_ok o, of 0] show ?thesis using o v by (simp add: c)
qed

end
