(* ===== verification/Reverb.thy ===== *)
theory Reverb
  imports Delay_Pack
begin

text \<open>
  The reverb of a listener (\<^verbatim>\<open>src/engine/ambisonic/reverb.go\<close>): four feedback combs in parallel, two allpass
  filters in series, parameters that glide towards their targets, a flush of the tail once a frame
  is below the denormal guard, and the velvet-noise decorrelator of the second bus. \<open>None\<close> is an index
  outside a buffer.
\<close>

record CombFilter =
  cf_buffer :: "rat list"
  cf_index :: nat
  cf_feedback :: rat
  cf_damping :: rat
  cf_filterState :: rat

record AllpassFilter =
  ap_buffer :: "rat list"
  ap_index :: nat
  ap_feedback :: rat

record velvetDecorrelator =
  vd_hist :: "rat list"
  vd_out :: "rat list"
  vd_gain :: rat

record SimpleReverb =
  rv_frameSize :: nat
  rv_combFilters :: "CombFilter list"
  rv_allpassFilters :: "AllpassFilter list"
  rv_workBuffer :: "rat list"
  rv_roomSize :: rat
  rv_damping :: rat
  rv_wetMix :: rat
  rv_targetRoomSize :: rat
  rv_targetDamping :: rat
  rv_targetWetMix :: rat
  rv_decorr :: "velvetDecorrelator option"
  rv_flushed :: bool

definition combDelayLengths :: "nat list" where "combDelayLengths = [1557, 1617, 1491, 1422]"
definition allpassDelayLengths :: "nat list" where "allpassDelayLengths = [225, 341]"

definition scaleDelayLength :: "nat \<Rightarrow> rat \<Rightarrow> rat \<Rightarrow> nat" where
  "scaleDelayLength baseLength baseSampleRate targetSampleRate =
    nat (trunc (div32 (mul32 (f32 (of_nat baseLength)) targetSampleRate) baseSampleRate))"

section \<open>Parameters\<close>

definition clamp :: "rat \<Rightarrow> rat \<Rightarrow> rat \<Rightarrow> rat" where
  "clamp v lo hi = (if v < lo then lo else if v > hi then hi else v)"

definition SetRoomSize :: "SimpleReverb \<Rightarrow> rat \<Rightarrow> SimpleReverb" where
  "SetRoomSize r v = r \<lparr> rv_targetRoomSize := clamp v 0 (f32 (999 / 1000)) \<rparr>"
definition SetDamping :: "SimpleReverb \<Rightarrow> rat \<Rightarrow> SimpleReverb" where
  "SetDamping r v = r \<lparr> rv_targetDamping := clamp v 0 1 \<rparr>"
definition SetWetMix :: "SimpleReverb \<Rightarrow> rat \<Rightarrow> SimpleReverb" where
  "SetWetMix r v = r \<lparr> rv_targetWetMix := clamp v 0 1 \<rparr>"

definition setPreset :: "SimpleReverb \<Rightarrow> rat \<Rightarrow> rat \<Rightarrow> rat \<Rightarrow> SimpleReverb" where
  "setPreset r room damp wet = SetWetMix (SetDamping (SetRoomSize r (f32 room)) (f32 damp)) (f32 wet)"

definition SetPresetSmallRoom :: "SimpleReverb \<Rightarrow> SimpleReverb" where "SetPresetSmallRoom r = setPreset r (3 / 10) (6 / 10) (2 / 10)"
definition SetPresetMediumRoom :: "SimpleReverb \<Rightarrow> SimpleReverb" where "SetPresetMediumRoom r = setPreset r (5 / 10) (5 / 10) (3 / 10)"
definition SetPresetLargeHall :: "SimpleReverb \<Rightarrow> SimpleReverb" where "SetPresetLargeHall r = setPreset r (85 / 100) (3 / 10) (4 / 10)"
definition SetPresetCathedral :: "SimpleReverb \<Rightarrow> SimpleReverb" where "SetPresetCathedral r = setPreset r (92 / 100) (2 / 10) (5 / 10)"
definition SetPresetTightRoom :: "SimpleReverb \<Rightarrow> SimpleReverb" where "SetPresetTightRoom r = setPreset r (25 / 100) (8 / 10) (15 / 100)"

text \<open>The switch of \<^verbatim>\<open>newEncoder\<close> on the configured preset.\<close>

definition applyPreset :: "int \<Rightarrow> SimpleReverb \<Rightarrow> SimpleReverb" where
  "applyPreset preset r =
    (if preset = 1 then SetPresetTightRoom r else if preset = 2 then SetPresetSmallRoom r
     else if preset = 3 then SetPresetMediumRoom r else if preset = 4 then SetPresetLargeHall r
     else if preset = 5 then SetPresetCathedral r else r)"

definition glide :: "rat \<Rightarrow> rat \<Rightarrow> rat" where
  "glide v target = add32 v (mul32 (sub32 target v) (f32 (1 / 10)))"

definition combFeedback :: "rat \<Rightarrow> rat" where
  "combFeedback roomSize = add32 (f32 (7 / 10)) (mul32 roomSize (f32 (28 / 100)))"

definition combDamping :: "rat \<Rightarrow> nat \<Rightarrow> rat" where
  "combDamping damp bufferSize =
    (let delayRatio = div32 (f32 (of_nat bufferSize)) (f32 (of_nat (combDelayLengths ! 0)))
     in mul32 damp (add32 (1 / 2) (mul32 delayRatio (1 / 2))))"

definition updateInternalParameters :: "SimpleReverb \<Rightarrow> SimpleReverb" where
  "updateInternalParameters r =
    (let room = glide (rv_roomSize r) (rv_targetRoomSize r); damp = glide (rv_damping r) (rv_targetDamping r);
         wet = glide (rv_wetMix r) (rv_targetWetMix r)
     in r \<lparr> rv_roomSize := room, rv_damping := damp, rv_wetMix := wet,
            rv_combFilters := map (\<lambda>c. c \<lparr> cf_feedback := combFeedback room, cf_damping := combDamping damp (length (cf_buffer c)) \<rparr>)
              (rv_combFilters r) \<rparr>)"

definition NewSimpleReverb :: "nat \<Rightarrow> rat \<Rightarrow> SimpleReverb" where
  "NewSimpleReverb frameSize sampleRate =
    updateInternalParameters
     \<lparr> rv_frameSize = frameSize,
       rv_combFilters = map (\<lambda>l. \<lparr> cf_buffer = replicate (scaleDelayLength l 48000 sampleRate) 0, cf_index = 0,
          cf_feedback = f32 (84 / 100), cf_damping = 1 / 2, cf_filterState = 0 \<rparr>) combDelayLengths,
       rv_allpassFilters = map (\<lambda>l. \<lparr> ap_buffer = replicate (scaleDelayLength l 48000 sampleRate) 0, ap_index = 0,
          ap_feedback = 1 / 2 \<rparr>) allpassDelayLengths,
       rv_workBuffer = replicate frameSize 0, rv_roomSize = 1 / 2, rv_damping = 1 / 2, rv_wetMix = f32 (3 / 10),
       rv_targetRoomSize = 1 / 2, rv_targetDamping = 1 / 2, rv_targetWetMix = f32 (3 / 10),
       rv_decorr = None, rv_flushed = False \<rparr>"

definition velvetTapPositions :: "nat list" where
  "velvetTapPositions = [5, 67, 131, 172, 241, 290, 353, 419, 460, 529, 587, 631, 701, 748, 811, 866, 917, 953]"
definition velvetTapSigns :: "rat list" where
  "velvetTapSigns = [1, -1, -1, 1, -1, 1, 1, -1, 1, -1, 1, 1, -1, -1, 1, -1, -1, 1]"
definition velvetLength :: nat where "velvetLength = 960"

definition EnableDecorrelator :: "Math \<Rightarrow> SimpleReverb \<Rightarrow> SimpleReverb" where
  "EnableDecorrelator mt r = r \<lparr> rv_decorr := Some
     \<lparr> vd_hist = replicate (velvetLength + rv_frameSize r) 0, vd_out = replicate (rv_frameSize r) 0,
       vd_gain = f32 (div64 1 (sqrt64 mt (int64f (int (length velvetTapPositions))))) \<rparr> \<rparr>"

section \<open>Filters\<close>

definition comb_process :: "CombFilter \<Rightarrow> rat \<Rightarrow> (rat \<times> CombFilter) option" where
  "comb_process cf input =
    (if cf_index cf < length (cf_buffer cf) then
       let output = cf_buffer cf ! cf_index cf;
           st = add32 (mul32 (cf_filterState cf) (sub32 1 (cf_damping cf))) (mul32 output (cf_damping cf));
           i = cf_index cf + 1
       in Some (output, cf \<lparr> cf_filterState := st,
            cf_buffer := (cf_buffer cf)[cf_index cf := add32 input (mul32 st (cf_feedback cf))],
            cf_index := (if i \<ge> length (cf_buffer cf) then 0 else i) \<rparr>)
     else None)"

definition allpass_process :: "AllpassFilter \<Rightarrow> rat \<Rightarrow> (rat \<times> AllpassFilter) option" where
  "allpass_process af input =
    (if ap_index af < length (ap_buffer af) then
       let bufOut = ap_buffer af ! ap_index af; output = add32 (- input) bufOut; i = ap_index af + 1
       in Some (output, af \<lparr> ap_buffer := (ap_buffer af)[ap_index af := add32 input (mul32 (ap_feedback af) bufOut)],
            ap_index := (if i \<ge> length (ap_buffer af) then 0 else i) \<rparr>)
     else None)"

fun combs :: "CombFilter list \<Rightarrow> rat \<Rightarrow> rat \<Rightarrow> (rat \<times> CombFilter list) option" where
  "combs [] input acc = Some (acc, [])"
| "combs (c # cs) input acc =
    do { (y, c) \<leftarrow> comb_process c input; (acc, cs) \<leftarrow> combs cs input (add32 acc y); Some (acc, c # cs) }"

fun allpasses :: "AllpassFilter list \<Rightarrow> rat \<Rightarrow> (rat \<times> AllpassFilter list) option" where
  "allpasses [] x = Some (x, [])"
| "allpasses (a # as) x = do { (y, a) \<leftarrow> allpass_process a x; (y, as) \<leftarrow> allpasses as y; Some (y, a # as) }"

definition louder :: "rat \<Rightarrow> rat \<Rightarrow> rat" where
  "louder peak v = (if v > peak then v else if - v > peak then - v else peak)"

text \<open>The loop over the frame: combs, their average, the allpasses; the peak of input and output.\<close>

fun wetSamples :: "rat list \<Rightarrow> CombFilter list \<Rightarrow> AllpassFilter list \<Rightarrow> rat \<Rightarrow>
    (rat list \<times> CombFilter list \<times> AllpassFilter list \<times> rat) option" where
  "wetSamples [] cs as peak = Some ([], cs, as, peak)"
| "wetSamples (x # xs) cs as peak =
    do { (s, cs) \<leftarrow> combs cs x 0;
         (y, as) \<leftarrow> allpasses as (mul32 s (1 / 4));
         (ys, cs, as, peak) \<leftarrow> wetSamples xs cs as (louder (louder peak x) y);
         Some (y # ys, cs, as, peak) }"

definition Clear :: "SimpleReverb \<Rightarrow> SimpleReverb" where
  "Clear r = r \<lparr> rv_combFilters := map (\<lambda>c. c \<lparr> cf_buffer := clear_slice (cf_buffer c), cf_filterState := 0 \<rparr>) (rv_combFilters r),
     rv_allpassFilters := map (\<lambda>a. a \<lparr> ap_buffer := clear_slice (ap_buffer a) \<rparr>) (rv_allpassFilters r),
     rv_workBuffer := clear_slice (rv_workBuffer r) \<rparr>"

definition decorrelate :: "rat list \<Rightarrow> rat \<Rightarrow> nat \<Rightarrow> rat" where
  "decorrelate hist gain n =
    mul32 (foldl (\<lambda>acc k. add32 acc (mul32 (velvetTapSigns ! k) (hist ! (velvetLength + n - velvetTapPositions ! k)))) 0 [0..<18]) gain"

definition runDecorrelator :: "nat \<Rightarrow> rat list \<Rightarrow> velvetDecorrelator \<Rightarrow> velvetDecorrelator option" where
  "runDecorrelator fs work d =
    (if length (vd_hist d) < velvetLength + fs \<or> length (vd_out d) < fs \<or> length work < fs then None
     else let hist = copy_at (copy_at (vd_hist d) 0 (Lasa_Prelude.slice (vd_hist d) fs (fs + velvetLength))) velvetLength (take fs work)
          in Some (d \<lparr> vd_hist := hist, vd_out := copy_at (vd_out d) 0 (map (decorrelate hist (vd_gain d)) [0..<fs]) \<rparr>))"

definition processWet :: "SimpleReverb \<Rightarrow> rat list \<Rightarrow> SimpleReverb option" where
  "processWet r0 premix =
    (let r = updateInternalParameters r0; fs = rv_frameSize r in
     if length premix < fs then None
     else do { (wet, cs, as, peak) \<leftarrow> wetSamples (take fs premix) (rv_combFilters r) (rv_allpassFilters r) 0;
               let r = r \<lparr> rv_workBuffer := wet, rv_combFilters := cs, rv_allpassFilters := as \<rparr>;
               let r = (if peak < f32 (1 / 10^18) then (if rv_flushed r then r else (Clear r) \<lparr> rv_flushed := True \<rparr>)
                        else r \<lparr> rv_flushed := False \<rparr>);
               (case rv_decorr r of None \<Rightarrow> Some r
                | Some d \<Rightarrow> do { d \<leftarrow> runDecorrelator fs (rv_workBuffer r) d; Some (r \<lparr> rv_decorr := Some d \<rparr>) }) })"

section \<open>Mixing into a bus\<close>

definition mixIntoWet :: "SimpleReverb \<Rightarrow> rat list \<Rightarrow> rat list \<Rightarrow> rat list \<Rightarrow> rat list option" where
  "mixIntoWet r premix wet out =
    (let dryGain = sub32 1 (mul32 (rv_wetMix r) (1 / 2)); wetGain = rv_wetMix r; fs = rv_frameSize r; n = REVERB_CHANNELS * fs in
     if length premix < n \<or> length wet < fs \<or> length out < n then None
     else Some (map (\<lambda>k. if k < n then
          add32 (out ! k) (mul32 (add32 (mul32 (premix ! k) dryGain) (mul32 (wet ! (k mod fs)) wetGain))
            (if k < fs then f32 (4 / 10) else f32 (2 / 10)))
        else out ! k) [0..<length out]))"

definition mixInto :: "SimpleReverb \<Rightarrow> rat list \<Rightarrow> rat list \<Rightarrow> rat list option" where
  "mixInto r premix out = mixIntoWet r premix (rv_workBuffer r) out"

definition mixIntoDecorrelated :: "SimpleReverb \<Rightarrow> rat list \<Rightarrow> rat list \<Rightarrow> rat list option" where
  "mixIntoDecorrelated r premix out = (case rv_decorr r of
     None \<Rightarrow> mixInto r premix out | Some d \<Rightarrow> mixIntoWet r premix (vd_out d) out)"

definition Apply :: "SimpleReverb \<Rightarrow> rat list \<Rightarrow> rat list \<Rightarrow> (rat list \<times> SimpleReverb) option" where
  "Apply r premix out = do { r \<leftarrow> processWet r premix; out \<leftarrow> mixInto r premix out; Some (out, r) }"

end
