(* ===== verification/Near_Field.thy ===== *)
theory Near_Field
  imports Delay_Pack
begin

text \<open>
  Near-field compensation (\<^verbatim>\<open>src/engine/ambisonic/nfc.go\<close>): the lookup of two biquad sections per ear in a
  table over inverse distance and angle, blended towards the identity at the edge of the gate. The
  table of \<^verbatim>\<open>nfc_table_gen.go\<close> is generated data and an argument here (\<open>tbl rho theta section coefficient\<close>);
  its axes are part of the model. \<open>None\<close> of \<open>nfcFill\<close> is an index outside the table.
\<close>

definition nfcNumRho :: nat where "nfcNumRho = 16"
definition nfcNumTheta :: nat where "nfcNumTheta = 37"
definition nfcNumSections :: nat where "nfcNumSections = 2"
definition nfcInvRhoMin :: rat where "nfcInvRhoMin = f64 (41666667 / 10^9)"
definition nfcInvRhoMax :: rat where "nfcInvRhoMax = f64 (666666667 / 10^9)"
definition nfcInvRhoSpan :: rat where "nfcInvRhoSpan = f64 (625 / 1000)"
definition NFCGateOffM :: rat where "NFCGateOffM = ParallaxFarFieldM"
definition nfcGateSpan :: rat where "nfcGateSpan = f64 (2 / 10)"

type_synonym nfcTable = "nat \<Rightarrow> nat \<Rightarrow> nat \<Rightarrow> nat \<Rightarrow> rat"

text \<open>The gate, the row and the fraction; \<open>None\<close> outside the gate.\<close>

definition nfcSetup :: "rat \<Rightarrow> rat \<Rightarrow> (rat \<times> nat \<times> rat) option" where
  "nfcSetup earOffset distMeters =
    (if distMeters \<ge> NFCGateOffM then None
     else let gate = f32 (div64 (sub64 NFCGateOffM distMeters) nfcGateSpan);
              gate = (if gate > 1 then 1 else gate);
              invRho = div64 earOffset distMeters;
              invRho = (if invRho > nfcInvRhoMax then nfcInvRhoMax else if invRho < nfcInvRhoMin then nfcInvRhoMin else invRho);
              u = mul64 (div64 (sub64 invRho nfcInvRhoMin) nfcInvRhoSpan) (int64f (int nfcNumRho - 1));
              i0 = nat (trunc u);
              i0 = (if i0 > nfcNumRho - 2 then nfcNumRho - 2 else i0)
          in Some (gate, i0, f32 (sub64 u (int64f (int i0)))))"

definition nfcThetaDeg :: "Math \<Rightarrow> rat \<Rightarrow> rat" where
  "nfcThetaDeg mt cosTheta =
    (let ct = (if cosTheta > 1 then 1 else if cosTheta < - 1 then - 1 else cosTheta) in mul64 (acosf mt ct) radToDeg)"

definition nfcIdentity :: "nat \<Rightarrow> nat \<Rightarrow> rat" where "nfcIdentity s k = (if k = 0 then 1 else 0)"

definition nfcFill :: "nfcTable \<Rightarrow> rat \<Rightarrow> nat \<Rightarrow> rat \<Rightarrow> rat \<Rightarrow> rat list list option" where
  "nfcFill tbl gate i0 fu thetaDeg =
    (let v = div64 thetaDeg 5; j0 = trunc v;
         j0 = (if j0 > int nfcNumTheta - 2 then int nfcNumTheta - 2 else j0);
         fv = f32 (sub64 v (int64f j0)) in
     if j0 < 0 \<or> nat j0 + 1 \<ge> nfcNumTheta \<or> i0 + 1 \<ge> nfcNumRho then None
     else Some (map (\<lambda>s. map (\<lambda>k.
       let j = nat j0;
           lo = add32 (tbl i0 j s k) (mul32 fu (sub32 (tbl (i0 + 1) j s k) (tbl i0 j s k)));
           hi = add32 (tbl i0 (j + 1) s k) (mul32 fu (sub32 (tbl (i0 + 1) (j + 1) s k) (tbl i0 (j + 1) s k)));
           fit = add32 lo (mul32 fv (sub32 hi lo));
           i = nfcIdentity s k
       in add32 i (mul32 gate (sub32 fit i))) [0..<5]) [0..<nfcNumSections]))"

text \<open>Both ears in one pass: \<open>Some None\<close> outside the gate.\<close>

definition nfcCoefficientsPair :: "Math \<Rightarrow> nfcTable \<Rightarrow> rat \<Rightarrow> rat \<Rightarrow> rat \<Rightarrow> (rat list list \<times> rat list list) option option" where
  "nfcCoefficientsPair mt tbl earOffset distMeters latSine = (case nfcSetup earOffset distMeters of
     None \<Rightarrow> Some None
   | Some (gate, i0, fu) \<Rightarrow>
       let thetaDeg = nfcThetaDeg mt latSine in
       do { cL \<leftarrow> nfcFill tbl gate i0 fu thetaDeg; cR \<leftarrow> nfcFill tbl gate i0 fu (sub64 180 thetaDeg); Some (Some (cL, cR)) })"

text \<open>The single-ear lookup, and that the pair is its two mirrored halves.\<close>

definition nfcCoefficients :: "Math \<Rightarrow> nfcTable \<Rightarrow> rat \<Rightarrow> rat \<Rightarrow> rat \<Rightarrow> rat list list option option" where
  "nfcCoefficients mt tbl earOffset distMeters cosTheta = (case nfcSetup earOffset distMeters of
     None \<Rightarrow> Some None
   | Some (gate, i0, fu) \<Rightarrow> map_option Some (nfcFill tbl gate i0 fu (nfcThetaDeg mt cosTheta)))"

section \<open>The lookup stays in the table\<close>

lemma nfcSetup_row: "nfcSetup earOffset d = Some (gate, i0, fu) \<Longrightarrow> i0 + 1 < nfcNumRho"
  by (auto simp: nfcSetup_def Let_def nfcNumRho_def split: if_splits)

lemma nfcFill_total:
  assumes "- 1 < thetaDeg" "i0 + 1 < nfcNumRho"
  shows "\<exists>c. nfcFill tbl gate i0 fu thetaDeg = Some c \<and> length c = 2 \<and> (\<forall>s<2. length (c ! s) = 5)"
proof -
  have "f64 (- 1 / 5) \<le> div64 thetaDeg 5" unfolding div64_def using assms(1) by (intro f64_mono) simp
  moreover have "- 1 / 2 \<le> f64 (- 1 / 5)" by code_simp
  ultimately have "trunc (- 1 / 2) \<le> trunc (div64 thetaDeg 5)" by (intro trunc_mono) linarith
  moreover have "trunc (- 1 / 2) = 0" by code_simp
  ultimately have j: "0 \<le> trunc (div64 thetaDeg 5)" by simp
  have "\<not> (let j0 = trunc (div64 thetaDeg 5); j0 = (if j0 > int nfcNumTheta - 2 then int nfcNumTheta - 2 else j0)
      in j0 < 0 \<or> nat j0 + 1 \<ge> nfcNumTheta \<or> i0 + 1 \<ge> nfcNumRho)"
    using j assms(2) by (auto simp: Let_def nfcNumTheta_def split: if_splits)
  then show ?thesis by (auto simp: nfcFill_def Let_def nfcNumSections_def upt_rec less_Suc_eq numeral_2_eq_2)
qed

lemma nfcThetaDeg_range:
  assumes "math_ok mt"
  shows "0 \<le> nfcThetaDeg mt s" "nfcThetaDeg mt s \<le> 180"
proof -
  define c where "c = (if s > 1 then 1 else if s < - 1 then - 1 else s)"
  have "\<bar>c\<bar> \<le> 1" by (auto simp: c_def)
  then have a: "0 \<le> acosf mt c" "acosf mt c \<le> piF" using assms by (auto simp: math_ok_def)
  have r: "0 \<le> radToDeg" by (simp add: radToDeg_def)
  show "0 \<le> nfcThetaDeg mt s" using a r by (simp add: nfcThetaDeg_def Let_def c_def[symmetric] mul64_def f64_nonneg)
  have "f64 (acosf mt c * radToDeg) \<le> f64 (piF * radToDeg)" using a r by (intro f64_mono mult_right_mono)
  moreover have "f64 (piF * radToDeg) = 180" by code_simp
  ultimately show "nfcThetaDeg mt s \<le> 180" by (simp add: nfcThetaDeg_def Let_def c_def[symmetric] mul64_def)
qed

lemma nfcCoefficientsPair_total:
  assumes "math_ok mt"
  shows "\<exists>r. nfcCoefficientsPair mt tbl earOffset d s = Some r"
proof (cases "nfcSetup earOffset d")
  case (Some g)
  obtain gate i0 fu where g: "g = (gate, i0, fu)" by (cases g)
  have i: "i0 + 1 < nfcNumRho" using nfcSetup_row Some g by blast
  have t: "- 1 < nfcThetaDeg mt s" "- 1 < sub64 180 (nfcThetaDeg mt s)"
    using nfcThetaDeg_range[OF assms, of s] f64_nonneg[of "180 - nfcThetaDeg mt s"] by (auto simp: sub64_def)
  obtain cL where "nfcFill tbl gate i0 fu (nfcThetaDeg mt s) = Some cL" using nfcFill_total[OF t(1) i] by blast
  moreover obtain cR where "nfcFill tbl gate i0 fu (sub64 180 (nfcThetaDeg mt s)) = Some cR" using nfcFill_total[OF t(2) i] by blast
  ultimately show ?thesis by (simp add: nfcCoefficientsPair_def Some g Let_def)
qed (simp add: nfcCoefficientsPair_def)

end
