(* ===== verification/Encoder_Policy.thy ===== *)
theory Encoder_Policy
  imports Reverb Near_Field
begin

text \<open>
  The ambisonic encoder (\<^verbatim>\<open>src/engine/ambisonic/encoder.go\<close>, \<^verbatim>\<open>listener_position.go\<close>): its state, construction,
  what the engine sets on it, the cached gain factor and attenuation exponent, and the per-pair
  decision \<^verbatim>\<open>shouldIncludePeer\<close>. The Go struct's fields are grouped: the delay state of a dual-bus
  listener (\<open>Delays\<close>, nil for a classic encoder) and the weight and output buffers (\<open>Buffers\<close>) are records
  of their own. Identity tokens are numbers; the thread-unsafe sets of the Go set library are sets.
\<close>

section \<open>State\<close>

record Buffers =
  eb_weightsA :: "rat list"
  eb_weightsB :: "rat list"
  eb_weightsRA :: "rat list"
  eb_weightsRB :: "rat list"
  eb_reverbWeightsA :: "rat list"
  eb_reverbWeightsB :: "rat list"
  eb_reverbSharedA :: "rat list"
  eb_reverbSharedB :: "rat list"
  eb_sphericalHarmonics :: "rat list"
  eb_bufferACurrent :: bool
  eb_ReverbOutput :: "rat list"
  eb_Output :: "rat list"

record Encoder =
  enc_Uuid :: nat
  enc_slot :: nat
  enc_mixerConfig :: MixerConfig
  enc_hasInput :: bool
  enc_dualBus :: bool
  enc_Position :: Position
  enc_PositionMeters :: Position
  enc_listenerPosMeters :: Position
  enc_hasListenerPos :: bool
  enc_rotation :: Rotation
  enc_headFrame :: matrix33
  enc_headFrameIdentity :: bool
  enc_gain :: rat
  enc_gainFactor :: rat
  enc_attenuation :: rat
  enc_peerAttenuationExponent :: rat
  enc_SubSpaces :: "nat set"
  enc_Mutes :: "nat set"
  enc_Solos :: "nat set"
  enc_Roles :: "string set"
  enc_MuteRoles :: "string set"
  enc_SpaceMuted :: bool
  enc_spaceRoleMuted :: bool
  enc_roleGainMultiplier :: rat
  enc_roleAttenuationOverride :: "rat option"
  enc_size :: rat
  enc_directivity :: rat
  enc_forward :: Position
  enc_headFrameSource :: bool
  enc_pairRow :: "nat option"
  enc_sharedInputs :: bool
  enc_Input :: "rat list"
  enc_inputRing :: "rat list"
  enc_delays :: "Delays option"
  enc_buffers :: Buffers
  enc_reverb :: SimpleReverb

text \<open>\<open>enc_pairRow\<close> names the row of the pair record installed by \<^verbatim>\<open>SetPairScalars\<close>; the Go encoder
  holds slices of that row, which alias the mixer's matrix. \<open>enc_sharedInputs\<close> tells whether the
  shared input matrix is installed.\<close>

definition SQRT_4_PI :: rat where "SQRT_4_PI = f32 (35449077018110318 / 10000000000000000)"

definition originPos :: Position where "originPos = \<lparr> pos_X = 0, pos_Y = 0, pos_Z = 0 \<rparr>"
definition noRotation :: Rotation where "noRotation = \<lparr> rot_Yaw = 0, rot_Pitch = 0, rot_Roll = 0 \<rparr>"

section \<open>Construction\<close>

definition applyReverb :: "MixerConfig \<Rightarrow> bool" where "applyReverb cfg \<longleftrightarrow> mc_ReverbPreset cfg \<noteq> 0"
definition busSamples :: "MixerConfig \<Rightarrow> nat" where "busSamples cfg = mc_FrameSize cfg * mc_ChannelCount cfg"

definition newBuffers :: "MixerConfig \<Rightarrow> bool \<Rightarrow> Buffers" where
  "newBuffers cfg dualBus =
    (let w = replicate (mc_MaxNodes cfg * mc_ChannelCount cfg) 0; sh = replicate (REVERB_CHANNELS * mc_MaxNodes cfg) 0 in
     \<lparr> eb_weightsA = w, eb_weightsB = w, eb_weightsRA = (if dualBus then w else []), eb_weightsRB = (if dualBus then w else []),
       eb_reverbWeightsA = w, eb_reverbWeightsB = w, eb_reverbSharedA = sh, eb_reverbSharedB = sh,
       eb_sphericalHarmonics = replicate (mc_ChannelCount cfg) 0, eb_bufferACurrent = True,
       eb_ReverbOutput = replicate (mc_FrameSize cfg * REVERB_CHANNELS) 0,
       eb_Output = replicate (if dualBus then busSamples cfg * 2 else busSamples cfg) 0 \<rparr>)"

definition newEncoderReverb :: "Math \<Rightarrow> MixerConfig \<Rightarrow> bool \<Rightarrow> SimpleReverb" where
  "newEncoderReverb mt cfg dualBus =
    (let r = applyPreset (mc_ReverbPreset cfg) (NewSimpleReverb (mc_FrameSize cfg) 48000)
     in if dualBus \<and> applyReverb cfg then EnableDecorrelator mt r else r)"

text \<open>The encoder for a given delay state; a dual-bus encoder is one that has it.\<close>

definition mkEncoder :: "Math \<Rightarrow> nat \<Rightarrow> bool \<Rightarrow> rat \<Rightarrow> rat \<Rightarrow> MixerConfig \<Rightarrow> nat \<Rightarrow> Delays option \<Rightarrow> Encoder" where
  "mkEncoder mt uid hasInput gain attenuation cfg slot delays =
    \<lparr> enc_Uuid = uid, enc_slot = slot, enc_mixerConfig = cfg, enc_hasInput = hasInput, enc_dualBus = (delays \<noteq> None),
      enc_Position = originPos, enc_PositionMeters = originPos, enc_listenerPosMeters = originPos,
      enc_hasListenerPos = False, enc_rotation = noRotation, enc_headFrame = replicate 9 0, enc_headFrameIdentity = True,
      enc_gain = gain, enc_gainFactor = mul32 (f32 gain) SQRT_4_PI,
      enc_attenuation = attenuation, enc_peerAttenuationExponent = div64 attenuation 2,
      enc_SubSpaces = {}, enc_Mutes = {}, enc_Solos = {}, enc_Roles = {}, enc_MuteRoles = {},
      enc_SpaceMuted = False, enc_spaceRoleMuted = False, enc_roleGainMultiplier = 1,
      enc_roleAttenuationOverride = None, enc_size = 0, enc_directivity = 0,
      enc_forward = \<lparr> pos_X = 1, pos_Y = 0, pos_Z = 0 \<rparr>, enc_headFrameSource = False, enc_pairRow = None,
      enc_sharedInputs = False, enc_Input = replicate (mc_FrameSize cfg) 0, enc_inputRing = newInputRing cfg,
      enc_delays = delays, enc_buffers = newBuffers cfg (delays \<noteq> None),
      enc_reverb = newEncoderReverb mt cfg (delays \<noteq> None) \<rparr>"

text \<open>Construction panics when a dual-bus encoder finds no usable delay model.\<close>

definition newEncoder :: "Math \<Rightarrow> Bilateral \<Rightarrow> nat \<Rightarrow> bool \<Rightarrow> rat \<Rightarrow> rat \<Rightarrow> MixerConfig \<Rightarrow> nat \<Rightarrow> bool \<Rightarrow> string + Encoder" where
  "newEncoder mt bl uid hasInput gain attenuation cfg slot bilateral =
    (if bilateral then (case initDelayModel bl cfg of
        Inl msg \<Rightarrow> Inl msg
      | Inr d \<Rightarrow> Inr (mkEncoder mt uid hasInput gain attenuation cfg slot (Some d)))
     else Inr (mkEncoder mt uid hasInput gain attenuation cfg slot None))"

section \<open>Setting\<close>

definition scalePos :: "rat \<Rightarrow> Position \<Rightarrow> Position" where
  "scalePos k p = \<lparr> pos_X = mul64 (pos_X p) k, pos_Y = mul64 (pos_Y p) k, pos_Z = mul64 (pos_Z p) k \<rparr>"

definition SetPosition :: "Encoder \<Rightarrow> Position \<Rightarrow> Encoder" where
  "SetPosition e p = e \<lparr> enc_Position := p, enc_PositionMeters := scalePos (mc_Size (enc_mixerConfig e)) p \<rparr>"

definition SetListenerPosition :: "Encoder \<Rightarrow> Position \<Rightarrow> Encoder" where
  "SetListenerPosition e p = e \<lparr> enc_listenerPosMeters := scalePos (mc_Size (enc_mixerConfig e)) p, enc_hasListenerPos := True \<rparr>"

definition ListenerPositionMeters :: "Encoder \<Rightarrow> Position" where
  "ListenerPositionMeters e = (if enc_hasListenerPos e then enc_listenerPosMeters e else enc_PositionMeters e)"

definition SetRotation :: "Math \<Rightarrow> Encoder \<Rightarrow> Rotation \<Rightarrow> Encoder" where
  "SetRotation mt e r = e \<lparr> enc_rotation := r, enc_headFrameIdentity := (r = noRotation),
     enc_headFrame := (if r = noRotation then enc_headFrame e else MatrixFromRotation mt r) \<rparr>"

definition SetSourceForward :: "Encoder \<Rightarrow> Position \<Rightarrow> Encoder" where
  "SetSourceForward e p = e \<lparr> enc_forward := p \<rparr>"

definition SetSharedInputs :: "Encoder \<Rightarrow> bool \<Rightarrow> Encoder" where
  "SetSharedInputs e shared = e \<lparr> enc_sharedInputs := shared \<rparr>"

text \<open>\<^verbatim>\<open>PushInputRing\<close>, and the silencing of source and output.\<close>

definition PushInputRing :: "Encoder \<Rightarrow> Encoder" where
  "PushInputRing e = e \<lparr> enc_inputRing := pushRing (mc_FrameSize (enc_mixerConfig e)) (enc_inputRing e) (enc_Input e) \<rparr>"

definition ClearSource :: "Encoder \<Rightarrow> Encoder" where
  "ClearSource e = e \<lparr> enc_Input := clear_slice (enc_Input e) \<rparr>"

definition ClearOutput :: "Encoder \<Rightarrow> Encoder" where
  "ClearOutput e = (let b = enc_buffers e in
     e \<lparr> enc_buffers := b \<lparr> eb_Output := clear_slice (eb_Output b), eb_ReverbOutput := clear_slice (eb_ReverbOutput b) \<rparr> \<rparr>)"

definition recomputeGainFactor :: "Encoder \<Rightarrow> Encoder" where
  "recomputeGainFactor e =
    (let effective = mul64 (enc_gain e) (enc_roleGainMultiplier e);
         effective = (if effective < 0 then 0 else effective)
     in e \<lparr> enc_gainFactor := mul32 (f32 effective) SQRT_4_PI \<rparr>)"

definition recomputeAttenuationExponent :: "Encoder \<Rightarrow> Encoder" where
  "recomputeAttenuationExponent e =
    (let att = (case enc_roleAttenuationOverride e of None \<Rightarrow> enc_attenuation e | Some a \<Rightarrow> a)
     in e \<lparr> enc_peerAttenuationExponent := div64 att 2 \<rparr>)"

definition SetGain :: "Encoder \<Rightarrow> rat \<Rightarrow> Encoder" where
  "SetGain e gain = recomputeGainFactor (e \<lparr> enc_gain := gain \<rparr>)"

definition SetAttenuation :: "Encoder \<Rightarrow> rat \<Rightarrow> Encoder" where
  "SetAttenuation e attenuation = recomputeAttenuationExponent (e \<lparr> enc_attenuation := attenuation \<rparr>)"

definition SetRoleGainMultiplier :: "Encoder \<Rightarrow> rat \<Rightarrow> Encoder" where
  "SetRoleGainMultiplier e m = recomputeGainFactor (e \<lparr> enc_roleGainMultiplier := (if m \<le> 0 then 1 else m) \<rparr>)"

definition SetRoleAttenuationOverride :: "Encoder \<Rightarrow> rat option \<Rightarrow> Encoder" where
  "SetRoleAttenuationOverride e att = recomputeAttenuationExponent (e \<lparr> enc_roleAttenuationOverride := att \<rparr>)"

definition SetSpaceMuted :: "Encoder \<Rightarrow> bool \<Rightarrow> Encoder" where
  "SetSpaceMuted e muted = e \<lparr> enc_SpaceMuted := muted \<rparr>"

definition SetSpaceRoleMuted :: "Encoder \<Rightarrow> bool \<Rightarrow> Encoder" where
  "SetSpaceRoleMuted e muted = e \<lparr> enc_spaceRoleMuted := muted \<rparr>"

definition SetSize :: "Encoder \<Rightarrow> rat \<Rightarrow> Encoder" where
  "SetSize e sz = e \<lparr> enc_size := sz \<rparr>"

definition SetDirectivity :: "Encoder \<Rightarrow> rat \<Rightarrow> Encoder" where
  "SetDirectivity e k = e \<lparr> enc_directivity := k \<rparr>"

definition SetHeadFrameSource :: "Encoder \<Rightarrow> bool \<Rightarrow> Encoder" where
  "SetHeadFrameSource e on = e \<lparr> enc_headFrameSource := on \<rparr>"

definition SetPairScalars :: "Encoder \<Rightarrow> nat \<Rightarrow> Encoder" where
  "SetPairScalars e row = e \<lparr> enc_pairRow := Some row \<rparr>"

definition AddSolo :: "Encoder \<Rightarrow> nat \<Rightarrow> Encoder" where "AddSolo e u = e \<lparr> enc_Solos := insert u (enc_Solos e) \<rparr>"
definition RemoveSolo :: "Encoder \<Rightarrow> nat \<Rightarrow> Encoder" where "RemoveSolo e u = e \<lparr> enc_Solos := enc_Solos e - {u} \<rparr>"
definition AddMute :: "Encoder \<Rightarrow> nat \<Rightarrow> Encoder" where "AddMute e u = e \<lparr> enc_Mutes := insert u (enc_Mutes e) \<rparr>"
definition RemoveMute :: "Encoder \<Rightarrow> nat \<Rightarrow> Encoder" where "RemoveMute e u = e \<lparr> enc_Mutes := enc_Mutes e - {u} \<rparr>"
definition AddSubSpace :: "Encoder \<Rightarrow> nat \<Rightarrow> Encoder" where "AddSubSpace e u = e \<lparr> enc_SubSpaces := insert u (enc_SubSpaces e) \<rparr>"
definition RemoveSubSpace :: "Encoder \<Rightarrow> nat \<Rightarrow> Encoder" where "RemoveSubSpace e u = e \<lparr> enc_SubSpaces := enc_SubSpaces e - {u} \<rparr>"
definition AddRole :: "Encoder \<Rightarrow> string \<Rightarrow> Encoder" where "AddRole e r = e \<lparr> enc_Roles := insert r (enc_Roles e) \<rparr>"
definition RemoveRole :: "Encoder \<Rightarrow> string \<Rightarrow> Encoder" where "RemoveRole e r = e \<lparr> enc_Roles := enc_Roles e - {r} \<rparr>"
definition AddMuteRole :: "Encoder \<Rightarrow> string \<Rightarrow> Encoder" where "AddMuteRole e r = e \<lparr> enc_MuteRoles := insert r (enc_MuteRoles e) \<rparr>"
definition RemoveMuteRole :: "Encoder \<Rightarrow> string \<Rightarrow> Encoder" where "RemoveMuteRole e r = e \<lparr> enc_MuteRoles := enc_MuteRoles e - {r} \<rparr>"

definition shouldIncludePeer :: "Encoder \<Rightarrow> Encoder \<Rightarrow> bool" where
  "shouldIncludePeer e peer =
    (if enc_Uuid peer = enc_Uuid e then False
     else if enc_headFrameSource peer \<and> \<not> enc_dualBus e then False
     else if (enc_SubSpaces e \<noteq> {} \<or> enc_SubSpaces peer \<noteq> {}) \<and> enc_SubSpaces e \<inter> enc_SubSpaces peer = {} then False
     else if enc_Solos e \<noteq> {} then enc_Uuid peer \<in> enc_Solos e
     else if enc_SpaceMuted peer then False
     else if enc_spaceRoleMuted peer then False
     else if enc_MuteRoles e \<noteq> {} \<and> enc_Roles peer \<noteq> {} \<and> enc_MuteRoles e \<inter> enc_Roles peer \<noteq> {} then False
     else if enc_Uuid peer \<in> enc_Mutes e \<or> enc_Uuid e \<in> enc_Mutes peer then False
     else True)"

text \<open>The scalars a listener uses for a peer: its row of the pair record when installed.\<close>

definition pairScalars :: "(nat \<Rightarrow> nat \<Rightarrow> rat \<times> rat) \<Rightarrow> Encoder \<Rightarrow> Encoder \<Rightarrow> rat \<times> rat" where
  "pairScalars rows e peer = (case enc_pairRow e of
     Some k \<Rightarrow> rows k (enc_slot peer)
   | None \<Rightarrow> (enc_gainFactor peer, enc_peerAttenuationExponent peer))"

section \<open>Cached values\<close>

text \<open>The two cached values are functions of what they cache; construction and every setter keep it so.\<close>

definition enc_cached :: "Encoder \<Rightarrow> bool" where
  "enc_cached e \<longleftrightarrow> enc_gainFactor e = mul32 (f32 (max 0 (mul64 (enc_gain e) (enc_roleGainMultiplier e)))) SQRT_4_PI \<and>
     enc_peerAttenuationExponent e = div64 (case enc_roleAttenuationOverride e of None \<Rightarrow> enc_attenuation e | Some a \<Rightarrow> a) 2 \<and>
     0 < enc_roleGainMultiplier e"

lemmas encoder_setters = SetPosition_def SetListenerPosition_def SetRotation_def SetSpaceMuted_def
  SetSpaceRoleMuted_def SetSize_def SetDirectivity_def SetHeadFrameSource_def SetPairScalars_def SetSourceForward_def SetSharedInputs_def
  PushInputRing_def
  AddSolo_def RemoveSolo_def AddMute_def RemoveMute_def AddSubSpace_def RemoveSubSpace_def
  AddRole_def RemoveRole_def AddMuteRole_def RemoveMuteRole_def

lemma cached_setters:
  "enc_cached e \<Longrightarrow> enc_cached (SetPosition e p)" "enc_cached e \<Longrightarrow> enc_cached (SetListenerPosition e p)"
  "enc_cached e \<Longrightarrow> enc_cached (SetRotation mt e r)" "enc_cached e \<Longrightarrow> enc_cached (SetSpaceMuted e m)"
  "enc_cached e \<Longrightarrow> enc_cached (SetSize e s)" "enc_cached e \<Longrightarrow> enc_cached (SetDirectivity e k)"
  "enc_cached e \<Longrightarrow> enc_cached (SetHeadFrameSource e on)" "enc_cached e \<Longrightarrow> enc_cached (SetPairScalars e row)"
  by (simp_all add: enc_cached_def encoder_setters cong: option.case_cong)

lemma cached_gain:
  "0 < enc_roleGainMultiplier e \<Longrightarrow> enc_cached (SetAttenuation (SetGain e g) a)"
  by (simp add: enc_cached_def SetGain_def SetAttenuation_def recomputeGainFactor_def
      recomputeAttenuationExponent_def Let_def max_def cong: option.case_cong)

lemma cached_role:
  "enc_cached e \<Longrightarrow> enc_cached (SetRoleGainMultiplier e m)"
  "enc_cached e \<Longrightarrow> enc_cached (SetRoleAttenuationOverride e a)"
  by (simp_all add: enc_cached_def SetRoleGainMultiplier_def SetRoleAttenuationOverride_def recomputeGainFactor_def
      recomputeAttenuationExponent_def Let_def max_def cong: option.case_cong)

lemma cached_new:
  assumes "0 \<le> gain" "f64 gain = gain"
  shows "enc_cached (mkEncoder mt uid hi gain att cfg slot d)"
  using assms by (simp add: enc_cached_def mkEncoder_def mul64_def max_def)

section \<open>Concrete encoders\<close>

text \<open>A configuration and a head that fit the ring.\<close>

definition demo_mixerConfig :: MixerConfig where
  "demo_mixerConfig = \<lparr> mc_MaxNodes = 2, mc_FrameSize = 240, mc_ChannelCount = 9, mc_Order = 2, mc_Size = 1, mc_ReverbPreset = 3, mc_PureGoMixer = False \<rparr>"

definition demo_bilateral :: Bilateral where
  "demo_bilateral = \<lparr> bl_HeadRadiusM = f64 (875 / 10000), bl_SpeedOfSoundMS = 343, bl_EarOffsetM = f64 (875 / 10000), bl_MeasurementRadiusM = f64 (325 / 100) \<rparr>"

lemma demo_delay_model: "\<exists>d. initDelayModel demo_bilateral cfg = Inr d"
proof -
  have "0 < bl_HeadRadiusM demo_bilateral" "0 < bl_SpeedOfSoundMS demo_bilateral"
    "add64 (delayBaseOf demo_bilateral) (div64 (maxTau demo_bilateral) 2) \<le> 64" by code_simp+
  then show ?thesis by (simp add: initDelayModel_def Let_def DelayRingHistory_def)
qed

definition demo_delays :: "MixerConfig \<Rightarrow> Delays" where
  "demo_delays cfg = (case initDelayModel demo_bilateral cfg of Inr d \<Rightarrow> d)"

lemma demo_delays: "initDelayModel demo_bilateral cfg = Inr (demo_delays cfg)"
  using demo_delay_model[of cfg] by (auto simp: demo_delays_def)

definition demo_encoder :: "nat \<Rightarrow> nat \<Rightarrow> Encoder" where
  "demo_encoder uid slot = mkEncoder demo_math uid True 1 2 demo_mixerConfig slot (Some (demo_delays demo_mixerConfig))"

end
