(* ===== verification/Encoder_Mix.thy ===== *)
theory Encoder_Mix
  imports Encoder_Policy
begin

text \<open>
  The render pass of an encoder: the bilateral weights of a pair (\<^verbatim>\<open>src/engine/ambisonic/parallax.go\<close>), the
  pass over the peers and the reverb fold (\<^verbatim>\<open>EncodePeers\<close> and \<^verbatim>\<open>PostMix\<close> of \<^verbatim>\<open>encoder.go\<close>), and the shared input matrix
  (\<^verbatim>\<open>shared_inputs.go\<close>). \<open>rows\<close> reads the mixer's pair record, \<open>tbl\<close> is the near-field table, \<open>gm\<close> the matrix
  product. \<open>None\<close> is a panic.
\<close>

section \<open>Shared inputs\<close>

definition NewSharedInputs :: "MixerConfig \<Rightarrow> rat list" where
  "NewSharedInputs cfg = replicate (mc_MaxNodes cfg * mc_FrameSize cfg) 0"

definition SetRow :: "nat \<Rightarrow> rat list \<Rightarrow> nat \<Rightarrow> rat list \<Rightarrow> rat list option" where
  "SetRow frameSize shared slot frm =
    (if (slot + 1) * frameSize \<le> length shared then Some (copy_at shared (slot * frameSize) (take frameSize frm)) else None)"

definition scatterReverbWeights :: "nat \<Rightarrow> rat list \<Rightarrow> nat \<Rightarrow> rat list \<Rightarrow> rat list option" where
  "scatterReverbWeights maxNodes dst slot wet =
    (if (REVERB_CHANNELS - 1) * maxNodes + slot < length dst \<and> REVERB_CHANNELS \<le> length wet
     then Some (foldl (\<lambda>d c. d[c * maxNodes + slot := wet ! c]) dst [0..<REVERB_CHANNELS]) else None)"

section \<open>Bilateral weights\<close>

definition withSpread :: "nat \<Rightarrow> rat list option \<Rightarrow> rat list \<Rightarrow> rat list option" where
  "withSpread order ow w = (case ow of None \<Rightarrow> Some w | Some o' \<Rightarrow> applyOrderWeights order o' w)"

definition shGained :: "nat \<Rightarrow> Position \<Rightarrow> rat \<Rightarrow> rat list \<Rightarrow> rat list option" where
  "shGained order d gain w = GetSphericalHarmonicsGained (int order) (f32 (pos_X d)) (f32 (pos_Y d)) (f32 (pos_Z d)) gain w"

text \<open>The first \<open>n\<close> weights times a gain.\<close>

definition scaleFirst :: "nat \<Rightarrow> rat \<Rightarrow> rat list \<Rightarrow> rat list option" where
  "scaleFirst n g w = (if n \<le> length w then Some (map (\<lambda>x. mul32 x g) (take n w) @ drop n w) else None)"

text \<open>The geometry of a pair before the head rotation: the relative position and the distance.\<close>

definition pairRel :: "Math \<Rightarrow> Encoder \<Rightarrow> Encoder \<Rightarrow> Position \<times> rat" where
  "pairRel mt e peer =
    (let rel = (if enc_headFrameSource peer then enc_PositionMeters peer
                else TrigCartesianRelativePosition (ListenerPositionMeters e) (enc_PositionMeters peer));
         d = norm64 mt rel
     in if d < tiny then (\<lparr> pos_X = 0, pos_Y = 1, pos_Z = 0 \<rparr>, tiny) else (rel, d))"

text \<open>Both ears' dry weights: one shared evaluation in the far field, one per ear nearer.\<close>

definition earWeights :: "Math \<Rightarrow> Bilateral \<Rightarrow> nat \<Rightarrow> rat list option \<Rightarrow> bool \<Rightarrow> Position \<Rightarrow> Position \<Rightarrow> rat \<Rightarrow> rat list \<Rightarrow> rat list \<Rightarrow>
    (rat list \<times> rat list) option" where
  "earWeights mt bl order ow farField nrm rel nodeGain weightsL weightsR =
    (if farField then
       do { w \<leftarrow> shGained order nrm nodeGain weightsL; w \<leftarrow> withSpread order ow w; Some (w, copy_at weightsR 0 (take (length weightsR) w)) }
     else
       let dirL = earProjectedDirection mt rel (bl_EarOffsetM bl) (bl_MeasurementRadiusM bl);
           dirR = earProjectedDirection mt rel (- bl_EarOffsetM bl) (bl_MeasurementRadiusM bl) in
       do { wL \<leftarrow> shGained order dirL nodeGain weightsL; wR \<leftarrow> shGained order dirR nodeGain weightsR;
            wL \<leftarrow> withSpread order ow wL; wR \<leftarrow> withSpread order ow wR; Some (wL, wR) })"

text \<open>The wet weights, from the head-centre direction, with the scratch vector.\<close>

definition wetWeightsOf :: "rat list option \<Rightarrow> bool \<Rightarrow> Position \<Rightarrow> rat \<Rightarrow> rat \<Rightarrow> rat list \<Rightarrow> rat list \<Rightarrow> rat list \<Rightarrow> (rat list \<times> rat list) option" where
  "wetWeightsOf ow farField nrm nodeGain wetGain wL wet sh0 =
    (if farField then
       do { w \<leftarrow> scaleFirst REVERB_CHANNELS wetGain wL; Some (copy_at wet 0 (take REVERB_CHANNELS w), sh0) }
     else
       do { sh \<leftarrow> GetSphericalHarmonics 1 (f32 (pos_X nrm)) (f32 (pos_Y nrm)) (f32 (pos_Z nrm)) sh0;
            sh \<leftarrow> map_option (\<lambda>s. s @ drop REVERB_CHANNELS sh) (withSpread 1 ow (take REVERB_CHANNELS sh));
            Some (copy_at wet 0 (map (\<lambda>x. mul32 (mul32 x nodeGain) wetGain) (take REVERB_CHANNELS sh)), sh) })"

text \<open>Returns the lateral sine, the clamped distance, both ears' weights, the wet weights when asked
  for, and the scratch vector of harmonics.\<close>

definition bilateralWeights :: "Math \<Rightarrow> Bilateral \<Rightarrow> (nat \<Rightarrow> nat \<Rightarrow> rat \<times> rat) \<Rightarrow> Encoder \<Rightarrow> Encoder \<Rightarrow> matrix33 option \<Rightarrow>
    rat list \<Rightarrow> rat list \<Rightarrow> rat list option \<Rightarrow> rat list \<Rightarrow> (rat \<times> rat \<times> rat list \<times> rat list \<times> rat list option \<times> rat list) option" where
  "bilateralWeights mt bl rows e peer headFrame weightsL weightsR wetWeights sh0 =
    (let (rel, d) = pairRel mt e peer;
         order = mc_Order (enc_mixerConfig e);
         (pairGain, pairAtt) = pairScalars rows e peer;
         extent = (enc_size peer > 0 \<or> enc_directivity peer > 0);
         dAtt = (if extent then surfaceDistance d (enc_size peer) else d);
         extentGain = (if extent then directivityFactor (enc_forward peer) rel d (enc_directivity peer) else 1);
         ow = (if extent then spreadOrderWeights mt (enc_size peer) d order else None);
         nodeGain = mul32 (mul32 pairGain (distanceGain mt dAtt pairAtt)) extentGain;
         rel = (case headFrame of Some h \<Rightarrow> if enc_headFrameSource peer then rel else Apply33 h rel | None \<Rightarrow> rel);
         nrm = scaleDown rel d;
         farField = (d \<ge> ParallaxFarFieldM) in
     do { (wL, wR) \<leftarrow> earWeights mt bl order ow farField nrm rel nodeGain weightsL weightsR;
          (case wetWeights of
             None \<Rightarrow> Some (f32 (pos_Y nrm), dAtt, wL, wR, None, sh0)
           | Some wet \<Rightarrow>
               let (dryGain, wetGain) = reverbSplit d (enc_size peer) in
               do { (wet, sh) \<leftarrow> wetWeightsOf ow farField nrm nodeGain wetGain wL wet sh0;
                    wL \<leftarrow> scaleFirst REVERB_CHANNELS dryGain wL; wR \<leftarrow> scaleFirst REVERB_CHANNELS dryGain wR;
                    Some (f32 (pos_Y nrm), dAtt, wL, wR, Some wet, sh) }) })"

section \<open>The pass over the peers\<close>

text \<open>A view of \<open>n\<close> cells of a buffer, and storing it back.\<close>

definition view :: "rat list \<Rightarrow> nat \<Rightarrow> nat \<Rightarrow> rat list option" where
  "view w i n = (if i + n \<le> length w then Some (Lasa_Prelude.slice w i (i + n)) else None)"

text \<open>What the loop changes: the current weight buffers, the scratch, the delay state and the three
  mixers.\<close>

record Pass =
  ps_weights :: "rat list"
  ps_weightsR :: "rat list"
  ps_reverb :: "rat list"
  ps_shared :: "rat list"
  ps_sh :: "rat list"
  ps_delays :: "Delays option"
  ps_dry :: AmbiMixer
  ps_dryR :: "AmbiMixer option"
  ps_rev :: AmbiMixer

text \<open>The previous frame's buffers: left or only bus, right bus, reverb.\<close>

type_synonym previous = "rat list \<times> rat list \<times> rat list"

definition leaseSlot :: "Delays \<Rightarrow> nat \<Rightarrow> nat \<Rightarrow> Delays option" where
  "leaseSlot d slot uid =
    (if slot < length (dl_slotOwner d) then
       Some (if dl_slotOwner d ! slot = Some uid then d
             else d \<lparr> dl_slotOwner := (dl_slotOwner d)[slot := Some uid], dl_slotGen := (dl_slotGen d)[slot := 0],
                      dl_nfcGen := (dl_nfcGen d)[slot := 0] \<rparr>)
     else None)"

text \<open>The reverb input of one pair: a column of the shared weights, or a packed row.\<close>

definition addWet :: "Encoder \<Rightarrow> rat list \<Rightarrow> Encoder \<Rightarrow> rat list \<Rightarrow> Pass \<Rightarrow> Pass option" where
  "addWet e prevReverb peer wet ps =
    (let cfg = enc_mixerConfig e; i = enc_slot peer * mc_ChannelCount cfg in
     if enc_sharedInputs e then
       do { sh \<leftarrow> scatterReverbWeights (mc_MaxNodes cfg) (ps_shared ps) (enc_slot peer) wet; Some (ps \<lparr> ps_shared := sh \<rparr>) }
     else
       do { prev \<leftarrow> view prevReverb i REVERB_CHANNELS; m \<leftarrow> AddInput (ps_rev ps) (enc_Input peer) wet prev;
            Some (ps \<lparr> ps_rev := m \<rparr>) })"

text \<open>The two delayed inputs of one pair, with near-field filters inside the gate.\<close>

definition addDry :: "Math \<Rightarrow> Bilateral \<Rightarrow> nfcTable \<Rightarrow> Encoder \<Rightarrow> rat \<Rightarrow> rat \<Rightarrow> rat list \<Rightarrow> rat list \<Rightarrow> rat list \<Rightarrow> rat list \<Rightarrow> Pass \<Rightarrow> Pass option" where
  "addDry mt bl tbl peer latSine d wL pL wR pR ps =
    (let slot = enc_slot peer; ring = enc_inputRing peer in
     do { ds \<leftarrow> ps_delays ps; dryR \<leftarrow> ps_dryR ps;
          ((prevL, prevR, dL, dR), ds) \<leftarrow> pairEarDelays mt ds slot latSine;
          nfc \<leftarrow> nfcCoefficientsPair mt tbl (bl_EarOffsetM bl) d latSine;
          (case nfc of
             Some (cL, cR) \<Rightarrow>
               let st = (if dl_nfcGen ds ! slot \<noteq> dl_frameGen ds - 1 then (replicate 4 0, replicate 4 0) else dl_nfcState ds ! slot) in
               do { (m, sL) \<leftarrow> AddInputDelayedNFC (ps_dry ps) ring prevL dL cL (fst st) wL pL;
                    (mR, sR) \<leftarrow> AddInputDelayedNFC dryR ring prevR dR cR (snd st) wR pR;
                    Some (ps \<lparr> ps_dry := m, ps_dryR := Some mR,
                      ps_delays := Some (ds \<lparr> dl_nfcGen := (dl_nfcGen ds)[slot := dl_frameGen ds],
                                              dl_nfcState := (dl_nfcState ds)[slot := (sL, sR)] \<rparr>) \<rparr>) }
           | None \<Rightarrow>
               do { m \<leftarrow> AddInputDelayed (ps_dry ps) ring prevL dL wL pL; mR \<leftarrow> AddInputDelayed dryR ring prevR dR wR pR;
                    Some (ps \<lparr> ps_dry := m, ps_dryR := Some mR, ps_delays := Some ds \<rparr>) }) })"

definition dualPeer :: "Math \<Rightarrow> Bilateral \<Rightarrow> nfcTable \<Rightarrow> (nat \<Rightarrow> nat \<Rightarrow> rat \<times> rat) \<Rightarrow> Encoder \<Rightarrow> matrix33 option \<Rightarrow> previous \<Rightarrow>
    Encoder \<Rightarrow> Pass \<Rightarrow> Pass option" where
  "dualPeer mt bl tbl rows e headFrame prev peer ps =
    (let cc = mc_ChannelCount (enc_mixerConfig e); i = enc_slot peer * cc; (prevW, prevWR, prevRev) = prev in
     do { w \<leftarrow> view (ps_weights ps) i cc; p \<leftarrow> view prevW i cc; wR \<leftarrow> view (ps_weightsR ps) i cc; pR \<leftarrow> view prevWR i cc;
          ds \<leftarrow> ps_delays ps; ds \<leftarrow> leaseSlot ds (enc_slot peer) (enc_Uuid peer);
          wet \<leftarrow> (if applyReverb (enc_mixerConfig e) then map_option Some (view (ps_reverb ps) i REVERB_CHANNELS) else Some None);
          (latSine, d, w, wR, wet, sh) \<leftarrow> bilateralWeights mt bl rows e peer headFrame w wR wet (ps_sh ps);
          let ps = ps \<lparr> ps_weights := copy_at (ps_weights ps) i w, ps_weightsR := copy_at (ps_weightsR ps) i wR,
                        ps_reverb := (case wet of None \<Rightarrow> ps_reverb ps | Some v \<Rightarrow> copy_at (ps_reverb ps) i v),
                        ps_sh := sh, ps_delays := Some ds \<rparr>;
          ps \<leftarrow> (case wet of None \<Rightarrow> Some ps | Some v \<Rightarrow> addWet e prevRev peer v ps);
          addDry mt bl tbl peer latSine d w p wR pR ps })"

definition classicPeer :: "Math \<Rightarrow> (nat \<Rightarrow> nat \<Rightarrow> rat \<times> rat) \<Rightarrow> Encoder \<Rightarrow> matrix33 option \<Rightarrow> previous \<Rightarrow> Encoder \<Rightarrow> Pass \<Rightarrow> Pass option" where
  "classicPeer mt rows e headFrame prev peer ps =
    (let cfg = enc_mixerConfig e; cc = mc_ChannelCount cfg; i = enc_slot peer * cc; (prevW, prevWR, prevRev) = prev;
         (pairGain, pairAtt) = pairScalars rows e peer in
     do { w \<leftarrow> view (ps_weights ps) i cc; p \<leftarrow> view prevW i cc;
          if applyReverb cfg then
            do { wet \<leftarrow> view (ps_reverb ps) i REVERB_CHANNELS;
                 (w, wet, sh) \<leftarrow> GetWeightsForReverb mt w wet (ps_sh ps) pairGain pairAtt (ListenerPositionMeters e) (enc_PositionMeters peer)
                   headFrame (mc_Order cfg) cc (enc_forward peer) (enc_size peer) (enc_directivity peer);
                 let ps = ps \<lparr> ps_weights := copy_at (ps_weights ps) i w, ps_reverb := copy_at (ps_reverb ps) i wet, ps_sh := sh \<rparr>;
                 ps \<leftarrow> addWet e prevRev peer wet ps;
                 m \<leftarrow> AddInput (ps_dry ps) (enc_Input peer) w p;
                 Some (ps \<lparr> ps_dry := m \<rparr>) }
          else
            do { w \<leftarrow> GetWeights mt w pairGain pairAtt (ListenerPositionMeters e) (enc_PositionMeters peer)
                   headFrame (mc_Order cfg) (enc_forward peer) (enc_size peer) (enc_directivity peer);
                 m \<leftarrow> AddInput (ps_dry ps) (enc_Input peer) w p;
                 Some (ps \<lparr> ps_weights := copy_at (ps_weights ps) i w, ps_dry := m \<rparr>) } })"

fun peerPass :: "(Encoder \<Rightarrow> Pass \<Rightarrow> Pass option) \<Rightarrow> Encoder list \<Rightarrow> Pass \<Rightarrow> Pass option" where
  "peerPass f [] ps = Some ps"
| "peerPass f (p # peers) ps = do { ps \<leftarrow> f p ps; peerPass f peers ps }"

text \<open>Which of the double buffers are current, after the toggle.\<close>

definition currentOf :: "Buffers \<Rightarrow> rat list \<times> rat list \<times> rat list \<times> rat list" where
  "currentOf b = (if eb_bufferACurrent b then (eb_weightsA b, eb_weightsRA b, eb_reverbWeightsA b, eb_reverbSharedA b)
     else (eb_weightsB b, eb_weightsRB b, eb_reverbWeightsB b, eb_reverbSharedB b))"

definition previousOf :: "Buffers \<Rightarrow> rat list \<times> rat list \<times> rat list \<times> rat list" where
  "previousOf b = (if eb_bufferACurrent b then (eb_weightsB b, eb_weightsRB b, eb_reverbWeightsB b, eb_reverbSharedB b)
     else (eb_weightsA b, eb_weightsRA b, eb_reverbWeightsA b, eb_reverbSharedA b))"

definition storeCurrent :: "Buffers \<Rightarrow> rat list \<times> rat list \<times> rat list \<times> rat list \<Rightarrow> Buffers" where
  "storeCurrent b c = (case c of (w, wR, r, s) \<Rightarrow>
     if eb_bufferACurrent b then b \<lparr> eb_weightsA := w, eb_weightsRA := wR, eb_reverbWeightsA := r, eb_reverbSharedA := s \<rparr>
     else b \<lparr> eb_weightsB := w, eb_weightsRB := wR, eb_reverbWeightsB := r, eb_reverbSharedB := s \<rparr>)"

definition headFrameOf :: "Encoder \<Rightarrow> matrix33 option" where
  "headFrameOf e = (if enc_dualBus e \<and> \<not> enc_headFrameIdentity e then Some (enc_headFrame e) else None)"

definition filteredPeers :: "Encoder \<Rightarrow> Encoder list \<Rightarrow> Encoder list" where
  "filteredPeers e peers = filter (shouldIncludePeer e) peers"

text \<open>The worker's mixers: dry, dry right (nil for the classic pass), reverb.\<close>

type_synonym workerMixers = "AmbiMixer \<times> AmbiMixer option \<times> AmbiMixer"

definition mixBuses :: "sgemm \<Rightarrow> rat list \<Rightarrow> Encoder \<Rightarrow> rat list \<times> rat list \<Rightarrow> Pass \<Rightarrow> (Encoder \<times> workerMixers) option" where
  "mixBuses gm shared e sharedW ps =
    (let cfg = enc_mixerConfig e; b = enc_buffers e; n = busSamples cfg; out = eb_Output b in
     do { (outL, dry) \<leftarrow> Mix gm (ps_dry ps) (take n out);
          (outR, dryR) \<leftarrow> (if enc_dualBus e then
              do { m \<leftarrow> ps_dryR ps; (o', m) \<leftarrow> Mix gm m (drop n out); Some (o', Some m) }
            else Some (drop n out, ps_dryR ps));
          (revOut, rev) \<leftarrow> (if applyReverb cfg then
              (if enc_sharedInputs e then
                 map_option (\<lambda>o'. (o', ps_rev ps)) (EncodeFade gm (mc_MaxNodes cfg) REVERB_CHANNELS (mc_MaxNodes cfg) (mc_FrameSize cfg)
                   shared (fst sharedW) (snd sharedW) (eb_ReverbOutput b))
               else Mix gm (ps_rev ps) (eb_ReverbOutput b))
            else Some (eb_ReverbOutput b, ps_rev ps));
          Some (e \<lparr> enc_buffers := b \<lparr> eb_Output := outL @ outR, eb_ReverbOutput := revOut \<rparr> \<rparr>, (dry, dryR, rev)) })"

definition EncodePeers :: "Math \<Rightarrow> Bilateral \<Rightarrow> sgemm \<Rightarrow> nfcTable \<Rightarrow> (nat \<Rightarrow> nat \<Rightarrow> rat \<times> rat) \<Rightarrow> rat list \<Rightarrow> Encoder \<Rightarrow> Encoder list \<Rightarrow>
    workerMixers \<Rightarrow> (Encoder \<times> workerMixers) option" where
  "EncodePeers mt bl gm tbl rows shared e0 peers mixers =
    (let e = (if enc_dualBus e0 then e0 \<lparr> enc_delays := map_option (\<lambda>d. d \<lparr> dl_frameGen := dl_frameGen d + 1 \<rparr>) (enc_delays e0) \<rparr> else e0) in
     if peers = [] then Some (ClearOutput e, mixers)
     else
       let b = enc_buffers e; b = b \<lparr> eb_bufferACurrent := \<not> eb_bufferACurrent b \<rparr>;
           cfg = enc_mixerConfig e; (w, wR, r, s) = currentOf b;
           w = clear_slice w; wR = clear_slice wR; r = clear_slice r;
           s = (if enc_sharedInputs e \<and> applyReverb cfg then clear_slice s else s);
           (prevW, prevWR, prevR, prevS) = previousOf b;
           included = filteredPeers e peers; n = length included; (dry, dryR, rev) = mixers in
       if n = 0 then Some (ClearOutput (e \<lparr> enc_buffers := storeCurrent b (w, wR, r, s) \<rparr>), mixers)
       else
         do { dry \<leftarrow> Reset dry n; rev \<leftarrow> Reset rev n;
              dryR \<leftarrow> (if enc_dualBus e then do { m \<leftarrow> dryR; m \<leftarrow> Reset m n; Some (Some m) } else Some dryR);
              let ps = \<lparr> ps_weights = w, ps_weightsR = wR, ps_reverb = r, ps_shared = s, ps_sh = eb_sphericalHarmonics b,
                         ps_delays = enc_delays e, ps_dry = dry, ps_dryR = dryR, ps_rev = rev \<rparr>;
              ps \<leftarrow> peerPass (if enc_dualBus e then dualPeer mt bl tbl rows e (headFrameOf e) (prevW, prevWR, prevR)
                               else classicPeer mt rows e (headFrameOf e) (prevW, prevWR, prevR)) included ps;
              let b = (storeCurrent b (ps_weights ps, ps_weightsR ps, ps_reverb ps, ps_shared ps)) \<lparr> eb_sphericalHarmonics := ps_sh ps \<rparr>;
              mixBuses gm shared (e \<lparr> enc_buffers := b, enc_delays := ps_delays ps \<rparr>) (ps_shared ps, prevS) ps })"

definition PostMix :: "Encoder \<Rightarrow> Encoder option" where
  "PostMix e =
    (let cfg = enc_mixerConfig e; b = enc_buffers e; n = busSamples cfg; premix = eb_ReverbOutput b in
     if applyReverb cfg then
       (if enc_dualBus e then
          do { r \<leftarrow> processWet (enc_reverb e) premix;
               l \<leftarrow> mixInto r premix (take n (eb_Output b)); rt \<leftarrow> mixIntoDecorrelated r premix (drop n (eb_Output b));
               Some (e \<lparr> enc_reverb := r, enc_buffers := b \<lparr> eb_Output := l @ rt \<rparr> \<rparr>) }
        else
          do { (o', r) \<leftarrow> Apply (enc_reverb e) premix (eb_Output b);
               Some (e \<lparr> enc_reverb := r, enc_buffers := b \<lparr> eb_Output := o' \<rparr> \<rparr>) })
     else Some e)"

end
