(* ===== verification/Reverb_Stability.thy ===== *)
theory Reverb_Stability
  imports Reverb
begin

text \<open>
  The reverb cannot run away: with the engine's presets every frame is processed without a panic and
  the wet signal stays within a fixed multiple of the loudest input ever fed, in \<^verbatim>\<open>float32\<close> arithmetic
  with its rounding. The bound is an invariant of the comb and allpass memories.
\<close>

definition bounded :: "rat \<Rightarrow> rat list \<Rightarrow> bool" where
  "bounded B xs \<longleftrightarrow> (\<forall>v\<in>set xs. \<bar>v\<bar> \<le> B)"

definition u32 :: rat where "u32 = 1 / 16777216"

lemma f32_grow: "\<bar>f32 x\<bar> \<le> \<bar>x\<bar> * (1 + u32)"
  using f32_err[of x] unfolding u32_def distrib_left by linarith

lemma f32_grow_le: "\<bar>x\<bar> \<le> a \<Longrightarrow> \<bar>f32 x\<bar> \<le> a * (1 + u32)"
  by (rule order_trans[OF f32_grow]) (simp add: u32_def mult_right_mono)

lemma mul32_grow:
  assumes "\<bar>x\<bar> \<le> a" "\<bar>y\<bar> \<le> b"
  shows "\<bar>mul32 x y\<bar> \<le> a * b * (1 + u32)"
  unfolding mul32_def abs_mult[symmetric] using mult_mono[OF assms] assms(1)
  by (intro f32_grow_le) (simp add: abs_mult)

lemma add32_grow: "\<bar>x\<bar> \<le> a \<Longrightarrow> \<bar>y\<bar> \<le> b \<Longrightarrow> \<bar>add32 x y\<bar> \<le> (a + b) * (1 + u32)"
  unfolding add32_def by (rule f32_grow_le) linarith

section \<open>Combs\<close>

text \<open>\<open>M\<close> bounds the delay line, \<open>K\<close> the state of the one-pole filter.\<close>

lemma damped_state:
  assumes "0 \<le> M" "\<bar>st\<bar> \<le> M * (1 + 1 / 10000)" "\<bar>out\<bar> \<le> M" "18 / 100 \<le> d" "d \<le> 83 / 100"
  shows "\<bar>add32 (mul32 st (sub32 1 d)) (mul32 out d)\<bar> \<le> M * (1 + 1 / 10000)"
proof -
  let ?K = "M * (1 + 1 / 10000)" and ?c = "sub32 1 d"
  have c: "0 \<le> ?c" "?c \<le> 1 - d + u32"
  proof -
    show "0 \<le> ?c" using assms(5) by (simp add: sub32_def f32_nonneg)
    have "\<bar>f32 (1 - d) - (1 - d)\<bar> \<le> u32" by (rule order_trans[OF f32_err]) (use assms(4,5) in \<open>simp add: u32_def\<close>)
    then show "?c \<le> 1 - d + u32" unfolding sub32_def by linarith
  qed
  have "\<bar>mul32 st ?c\<bar> \<le> ?K * (1 - d + u32) * (1 + u32)"
    by (rule mul32_grow[OF assms(2)]) (use c in simp)
  moreover have "\<bar>mul32 out d\<bar> \<le> M * d * (1 + u32)"
    by (rule mul32_grow[OF assms(3)]) (use assms(4) in simp)
  ultimately have "\<bar>add32 (mul32 st ?c) (mul32 out d)\<bar> \<le> (?K * (1 - d + u32) * (1 + u32) + M * d * (1 + u32)) * (1 + u32)"
    by (rule add32_grow)
  also have "\<dots> = M * (((1 + 1 / 10000) * (1 + u32) - d * (1 / 10000)) * (1 + u32) * (1 + u32))"
  proof -
    have "(M * (1 + h) * (1 - d + u) * (1 + u) + M * d * (1 + u)) * (1 + u) = M * (((1 + h) * (1 + u) - d * h) * (1 + u) * (1 + u))"
      for h u by (simp add: algebra_simps)
    then show ?thesis .
  qed
  also have "\<dots> \<le> M * (((1 + 1 / 10000) * (1 + u32) - 18 / 1000000) * (1 + u32) * (1 + u32))"
    using assms(1,4) by (intro mult_left_mono mult_right_mono) (auto simp: u32_def)
  also have "\<dots> \<le> ?K" using assms(1) by (intro mult_left_mono) (auto simp: u32_def)
  finally show ?thesis .
qed

definition combOk :: "rat \<Rightarrow> CombFilter \<Rightarrow> bool" where
  "combOk B c \<longleftrightarrow> 1422 \<le> length (cf_buffer c) \<and> length (cf_buffer c) \<le> 1617 \<and>
     cf_index c < length (cf_buffer c) \<and> bounded (32 * B) (cf_buffer c) \<and>
     \<bar>cf_filterState c\<bar> \<le> 32 * B * (1 + 1 / 10000) \<and>
     0 \<le> cf_feedback c \<and> cf_feedback c \<le> 96 / 100 \<and> 18 / 100 \<le> cf_damping c \<and> cf_damping c \<le> 83 / 100"

lemma comb_step:
  assumes "0 \<le> B" "combOk B c" "\<bar>x\<bar> \<le> B"
  shows "\<exists>y c'. comb_process c x = Some (y, c') \<and> \<bar>y\<bar> \<le> 32 * B \<and> combOk B c'"
proof -
  let ?M = "32 * B"
  define out where "out = cf_buffer c ! cf_index c"
  define st where "st = add32 (mul32 (cf_filterState c) (sub32 1 (cf_damping c))) (mul32 out (cf_damping c))"
  have i: "cf_index c < length (cf_buffer c)" and b: "bounded ?M (cf_buffer c)"
    and s: "\<bar>cf_filterState c\<bar> \<le> ?M * (1 + 1 / 10000)"
    and fb: "0 \<le> cf_feedback c" "cf_feedback c \<le> 96 / 100" and d: "18 / 100 \<le> cf_damping c" "cf_damping c \<le> 83 / 100"
    and ln: "1422 \<le> length (cf_buffer c)" "length (cf_buffer c) \<le> 1617"
    using assms(2) by (auto simp: combOk_def)
  have o: "\<bar>out\<bar> \<le> ?M" using i b by (auto simp: out_def bounded_def)
  have st: "\<bar>st\<bar> \<le> ?M * (1 + 1 / 10000)"
    unfolding st_def using damped_state[OF _ s o d] assms(1) by simp
  have "\<bar>mul32 st (cf_feedback c)\<bar> \<le> ?M * (1 + 1 / 10000) * (96 / 100) * (1 + u32)"
    by (rule mul32_grow[OF st]) (use fb in simp)
  then have "\<bar>add32 x (mul32 st (cf_feedback c))\<bar> \<le> (B + ?M * (1 + 1 / 10000) * (96 / 100) * (1 + u32)) * (1 + u32)"
    unfolding add32_def using assms(3) by (intro f32_grow_le) linarith
  also have "\<dots> = B * ((1 + 32 * (1 + 1 / 10000) * (96 / 100) * (1 + u32)) * (1 + u32))" by (simp add: algebra_simps)
  also have "\<dots> \<le> B * 32" using assms(1) by (intro mult_left_mono) (auto simp: u32_def)
  finally have w: "\<bar>add32 x (mul32 st (cf_feedback c))\<bar> \<le> ?M" by simp
  have "bounded ?M ((cf_buffer c)[cf_index c := add32 x (mul32 st (cf_feedback c))])"
    using b w set_update_subset_insert[of "cf_buffer c"] by (fastforce simp: bounded_def)
  then show ?thesis using i o st fb d ln
    by (auto simp: comb_process_def Let_def combOk_def out_def[symmetric] st_def[symmetric])
qed

lemma combs_step:
  assumes "0 \<le> B" "list_all (combOk B) cs" "\<bar>x\<bar> \<le> B" "0 \<le> a" "\<bar>acc\<bar> \<le> a"
  shows "\<exists>y cs'. combs cs x acc = Some (y, cs') \<and> \<bar>y\<bar> \<le> (a + of_nat (length cs) * (32 * B)) * (1 + u32) ^ length cs \<and>
    list_all (combOk B) cs' \<and> length cs' = length cs"
  using assms(2,4,5)
proof (induction cs arbitrary: acc a)
  case (Cons c cs)
  obtain y c' where c: "comb_process c x = Some (y, c')" "\<bar>y\<bar> \<le> 32 * B" "combOk B c'"
    using comb_step[OF assms(1) _ assms(3), of c] Cons.prems(1) by auto
  let ?a = "(a + 32 * B) * (1 + u32)"
  have u: "0 \<le> u32" "1 \<le> 1 + u32" by (simp_all add: u32_def)
  have "\<bar>add32 acc y\<bar> \<le> ?a" unfolding add32_def using Cons.prems(3) c(2) by (intro f32_grow_le) linarith
  moreover have "0 \<le> ?a" using Cons.prems(2) assms(1) u by simp
  ultimately obtain z cs' where z: "combs cs x (add32 acc y) = Some (z, cs')"
    "\<bar>z\<bar> \<le> (?a + of_nat (length cs) * (32 * B)) * (1 + u32) ^ length cs" "list_all (combOk B) cs'" "length cs' = length cs"
    using Cons.IH[of "?a" "add32 acc y"] Cons.prems(1) by auto
  have "?a + of_nat (length cs) * (32 * B) \<le> (a + 32 * B + of_nat (length cs) * (32 * B)) * (1 + u32)"
    using assms(1) u mult_left_mono[OF u(2), of "of_nat (length cs) * (32 * B)"] unfolding distrib_right[of _ _ "1 + u32"] by simp
  then have "(?a + of_nat (length cs) * (32 * B)) * (1 + u32) ^ length cs \<le>
      (a + 32 * B + of_nat (length cs) * (32 * B)) * (1 + u32) * (1 + u32) ^ length cs"
    using u by (intro mult_right_mono) auto
  then show ?case using c z by (auto simp: algebra_simps)
qed simp

section \<open>Allpasses\<close>

definition allpassOk :: "rat \<Rightarrow> AllpassFilter \<Rightarrow> bool" where
  "allpassOk A a \<longleftrightarrow> ap_index a < length (ap_buffer a) \<and> bounded (201 / 100 * A) (ap_buffer a) \<and> ap_feedback a = 1 / 2"

lemma allpass_step:
  assumes "0 \<le> A" "allpassOk A a" "\<bar>x\<bar> \<le> A"
  shows "\<exists>y a'. allpass_process a x = Some (y, a') \<and> \<bar>y\<bar> \<le> 302 / 100 * A \<and> allpassOk A a'"
proof -
  define o' where "o' = ap_buffer a ! ap_index a"
  have i: "ap_index a < length (ap_buffer a)" and b: "bounded (201 / 100 * A) (ap_buffer a)" and fb: "ap_feedback a = 1 / 2"
    using assms(2) by (auto simp: allpassOk_def)
  have o: "\<bar>o'\<bar> \<le> 201 / 100 * A" using i b by (auto simp: o'_def bounded_def)
  have "\<bar>add32 (- x) o'\<bar> \<le> (A + 201 / 100 * A) * (1 + u32)"
    unfolding add32_def using o assms(3) by (intro f32_grow_le) linarith
  also have "\<dots> = A * (301 / 100 * (1 + u32))" by (simp add: algebra_simps)
  also have "\<dots> \<le> A * (302 / 100)" using assms(1) by (intro mult_left_mono) (auto simp: u32_def)
  finally have y: "\<bar>add32 (- x) o'\<bar> \<le> 302 / 100 * A" by simp
  have "\<bar>mul32 (ap_feedback a) o'\<bar> \<le> 1 / 2 * (201 / 100 * A) * (1 + u32)"
    by (rule mul32_grow[OF _ o]) (simp add: fb)
  then have "\<bar>add32 x (mul32 (ap_feedback a) o')\<bar> \<le> (A + 1 / 2 * (201 / 100 * A) * (1 + u32)) * (1 + u32)"
    unfolding add32_def using assms(3) by (intro f32_grow_le) linarith
  also have "\<dots> = A * ((1 + 201 / 200 * (1 + u32)) * (1 + u32))" by (simp add: algebra_simps)
  also have "\<dots> \<le> A * (201 / 100)" using assms(1) by (intro mult_left_mono) (auto simp: u32_def)
  finally have w: "\<bar>add32 x (mul32 (ap_feedback a) o')\<bar> \<le> 201 / 100 * A" by simp
  have "bounded (201 / 100 * A) ((ap_buffer a)[ap_index a := add32 x (mul32 (ap_feedback a) o')])"
    using b w set_update_subset_insert[of "ap_buffer a"] by (fastforce simp: bounded_def)
  then show ?thesis using i y by (auto simp: allpass_process_def Let_def allpassOk_def o'_def[symmetric] fb)
qed


lemma allpasses_step:
  assumes "0 \<le> A" "allpassOk A a" "allpassOk (302 / 100 * A) b" "\<bar>x\<bar> \<le> A"
  shows "\<exists>y a' b'. allpasses [a, b] x = Some (y, [a', b']) \<and> \<bar>y\<bar> \<le> 302 / 100 * (302 / 100 * A) \<and>
    allpassOk A a' \<and> allpassOk (302 / 100 * A) b'"
proof -
  obtain y a' where a: "allpass_process a x = Some (y, a')" "\<bar>y\<bar> \<le> 302 / 100 * A" "allpassOk A a'"
    using allpass_step[OF assms(1,2,4)] by blast
  obtain z b' where "allpass_process b y = Some (z, b')" "\<bar>z\<bar> \<le> 302 / 100 * (302 / 100 * A)" "allpassOk (302 / 100 * A) b'"
    using allpass_step[OF _ assms(3) a(2)] assms(1) by auto
  then show ?thesis using a by simp
qed

section \<open>A frame\<close>

text \<open>The two allpass memories are bounded by the level they are fed: the mean of the combs, and the
  first allpass.\<close>

definition apLevel :: "rat \<Rightarrow> rat" where "apLevel B = 3201 / 100 * B"

definition filtersOk :: "rat \<Rightarrow> CombFilter list \<Rightarrow> AllpassFilter list \<Rightarrow> bool" where
  "filtersOk B cs as \<longleftrightarrow> length cs = 4 \<and> list_all (combOk B) cs \<and>
     (\<exists>a b. as = [a, b] \<and> allpassOk (apLevel B) a \<and> allpassOk (302 / 100 * apLevel B) b)"

lemma wetSample_step:
  assumes "0 \<le> B" "filtersOk B cs as" "\<bar>x\<bar> \<le> B"
  shows "\<exists>s cs' y as'. combs cs x 0 = Some (s, cs') \<and> allpasses as (mul32 s (1 / 4)) = Some (y, as') \<and>
    \<bar>y\<bar> \<le> 300 * B \<and> filtersOk B cs' as'"
proof -
  have cs: "length cs = 4" "list_all (combOk B) cs" using assms(2) by (auto simp: filtersOk_def)
  obtain s cs' where s: "combs cs x 0 = Some (s, cs')" "\<bar>s\<bar> \<le> (0 + of_nat 4 * (32 * B)) * (1 + u32) ^ 4"
    "list_all (combOk B) cs'" "length cs' = 4"
    using combs_step[OF assms(1) cs(2) assms(3), of 0 0] cs(1) by auto
  obtain a b where ab: "as = [a, b]" "allpassOk (apLevel B) a" "allpassOk (302 / 100 * apLevel B) b"
    using assms(2) by (auto simp: filtersOk_def)
  have "\<bar>mul32 s (1 / 4)\<bar> \<le> (0 + of_nat 4 * (32 * B)) * (1 + u32) ^ 4 * (1 / 4) * (1 + u32)"
    by (rule mul32_grow[OF s(2)]) simp
  also have "\<dots> = B * (32 * (1 + u32) ^ 5)" by (simp add: power_numeral_reduce mult_ac)
  also have "\<dots> \<le> B * (3201 / 100)" using assms(1) by (intro mult_left_mono) (auto simp: u32_def power_numeral_reduce)
  finally have m: "\<bar>mul32 s (1 / 4)\<bar> \<le> apLevel B" by (simp add: apLevel_def)
  have A: "0 \<le> apLevel B" using assms(1) by (simp add: apLevel_def)
  obtain y a' b' where y: "allpasses [a, b] (mul32 s (1 / 4)) = Some (y, [a', b'])"
    "\<bar>y\<bar> \<le> 302 / 100 * (302 / 100 * apLevel B)" "allpassOk (apLevel B) a'" "allpassOk (302 / 100 * apLevel B) b'"
    using allpasses_step[OF A ab(2,3) m] by blast
  have "302 / 100 * (302 / 100 * apLevel B) \<le> 300 * B" using assms(1) by (simp add: apLevel_def)
  then show ?thesis using s y ab(1) by (auto simp: filtersOk_def)
qed

lemma wetSamples_ok:
  assumes "0 \<le> B" "filtersOk B cs as" "bounded B xs"
  shows "\<exists>ys cs' as' p'. wetSamples xs cs as p = Some (ys, cs', as', p') \<and> bounded (300 * B) ys \<and> filtersOk B cs' as' \<and> length ys = length xs"
  using assms(2,3)
proof (induction xs arbitrary: cs as p)
  case (Cons x xs)
  have x: "\<bar>x\<bar> \<le> B" "bounded B xs" using Cons.prems(2) by (auto simp: bounded_def)
  obtain s cs1 y as1 where s: "combs cs x 0 = Some (s, cs1)" "allpasses as (mul32 s (1 / 4)) = Some (y, as1)"
    "\<bar>y\<bar> \<le> 300 * B" "filtersOk B cs1 as1"
    using wetSample_step[OF assms(1) Cons.prems(1) x(1)] by blast
  obtain ys cs' as' p' where "wetSamples xs cs1 as1 (louder (louder p x) y) = Some (ys, cs', as', p')"
    "bounded (300 * B) ys" "filtersOk B cs' as'" "length ys = length xs"
    using Cons.IH[OF s(4) x(2), of "louder (louder p x) y"] by blast
  then show ?case using s by (simp add: bounded_def)
qed (auto simp: bounded_def)

section \<open>Parameters\<close>

lemma glide_between:
  assumes "f32 v = v" "f32 t = t"
  shows "min v t \<le> glide v t \<and> glide v t \<le> max v t"
proof -
  let ?x = "sub32 t v" and ?y = "mul32 (sub32 t v) (f32 (1 / 10))"
  have tenth: "0 \<le> f32 (1 / 10)" "f32 (1 / 10) \<le> 11 / 100" by code_simp+
  have "\<bar>?x\<bar> \<le> \<bar>t - v\<bar> * (1 + u32)" unfolding sub32_def by (rule f32_grow)
  then have "\<bar>?y\<bar> \<le> \<bar>t - v\<bar> * (1 + u32) * (11 / 100) * (1 + u32)" by (rule mul32_grow) (use tenth in simp)
  also have "\<dots> = \<bar>t - v\<bar> * ((1 + u32) * (11 / 100) * (1 + u32))" by (simp add: mult_ac)
  also have "\<dots> \<le> \<bar>t - v\<bar> * 1" by (intro mult_left_mono) (auto simp: u32_def)
  finally have y: "\<bar>?y\<bar> \<le> \<bar>t - v\<bar>" by simp
  show ?thesis
  proof (cases "v \<le> t")
    case True
    then have "0 \<le> ?y" using tenth by (simp add: sub32_def mul32_def f32_nonneg)
    then have "f32 v \<le> f32 (v + ?y)" "f32 (v + ?y) \<le> f32 t" using y True by (intro f32_mono; linarith)+
    then show ?thesis using True assms by (simp add: glide_def add32_def)
  next
    case False
    then have "sub32 t v \<le> 0" by (simp add: sub32_def f32_nonpos)
    then have "?y \<le> 0" using tenth by (simp add: mul32_def f32_nonpos mult_nonpos_nonneg)
    then have "f32 (v + ?y) \<le> f32 v" "f32 t \<le> f32 (v + ?y)" using y False by (intro f32_mono; linarith)+
    then show ?thesis using False assms by (simp add: glide_def add32_def)
  qed
qed

lemma glide_repr: "f32 (glide v t) = glide v t"
  by (simp add: glide_def add32_def)

definition inside :: "rat \<Rightarrow> rat \<Rightarrow> rat \<Rightarrow> bool" where
  "inside lo hi v \<longleftrightarrow> f32 v = v \<and> lo \<le> v \<and> v \<le> hi"

lemma glide_inside: "inside lo hi v \<Longrightarrow> inside lo hi t \<Longrightarrow> inside lo hi (glide v t)"
  using glide_between[of v t] glide_repr[of v t] by (auto simp: inside_def min_def max_def split: if_splits)

text \<open>What the engine's presets reach: room size at most 0.92, damping between 0.2 and 0.8.\<close>

definition paramsOk :: "SimpleReverb \<Rightarrow> bool" where
  "paramsOk r \<longleftrightarrow> inside 0 (f32 (92 / 100)) (rv_roomSize r) \<and> inside 0 (f32 (92 / 100)) (rv_targetRoomSize r) \<and>
     inside (f32 (2 / 10)) (f32 (8 / 10)) (rv_damping r) \<and> inside (f32 (2 / 10)) (f32 (8 / 10)) (rv_targetDamping r)"

lemma combFeedback_range:
  assumes "inside 0 (f32 (92 / 100)) v"
  shows "0 \<le> combFeedback v \<and> combFeedback v \<le> 96 / 100"
proof -
  have g: "0 \<le> f32 (7 / 10)" "0 \<le> f32 (28 / 100)" by code_simp+
  have "0 \<le> combFeedback v"
    using assms g by (simp add: combFeedback_def add32_def mul32_def inside_def f32_nonneg)
  moreover have "combFeedback v \<le> f32 (f32 (7 / 10) + f32 (f32 (92 / 100) * f32 (28 / 100)))"
    unfolding combFeedback_def add32_def mul32_def using assms g
    by (intro f32_mono add_left_mono mult_right_mono) (simp_all only: inside_def)
  moreover have "f32 (f32 (7 / 10) + f32 (f32 (92 / 100) * f32 (28 / 100))) \<le> 96 / 100" by code_simp
  ultimately show ?thesis by linarith
qed

lemma combDamping_range:
  assumes "inside (f32 (2 / 10)) (f32 (8 / 10)) v" "1422 \<le> n" "n \<le> 1617"
  shows "18 / 100 \<le> combDamping v n \<and> combDamping v n \<le> 83 / 100"
proof -
  define k where "k = add32 (1 / 2) (mul32 (div32 (f32 (of_nat n)) (f32 (of_nat (combDelayLengths ! 0)))) (1 / 2))"
  have c: "f32 (of_nat (combDelayLengths ! 0)) = 1557" using f32_of_int[of 1557] by (simp add: combDelayLengths_def)
  have "f32 (1 / 2 + f32 (f32 (f32 1422 / 1557) * (1 / 2))) \<le> k" "k \<le> f32 (1 / 2 + f32 (f32 (f32 1617 / 1557) * (1 / 2)))"
    unfolding k_def add32_def mul32_def div32_def c using assms(2,3)
    by (auto intro!: f32_mono add_left_mono mult_right_mono divide_right_mono)
  moreover have "95 / 100 \<le> f32 (1 / 2 + f32 (f32 (f32 1422 / 1557) * (1 / 2)))"
    "f32 (1 / 2 + f32 (f32 (f32 1617 / 1557) * (1 / 2))) \<le> 102 / 100" by code_simp+
  ultimately have k: "95 / 100 \<le> k" "k \<le> 102 / 100" by linarith+
  have p: "0 \<le> f32 (2 / 10)" "0 \<le> f32 (8 / 10)" by code_simp+
  have "f32 (f32 (2 / 10) * (95 / 100)) \<le> f32 (v * k)" "f32 (v * k) \<le> f32 (f32 (8 / 10) * (102 / 100))"
    using assms(1) k p by (intro f32_mono mult_mono; simp add: inside_def)+
  moreover have "18 / 100 \<le> f32 (f32 (2 / 10) * (95 / 100))" "f32 (f32 (8 / 10) * (102 / 100)) \<le> 83 / 100" by code_simp+
  ultimately show ?thesis by (simp add: combDamping_def Let_def k_def mul32_def)
qed

section \<open>The reverb\<close>

definition decorrOk :: "nat \<Rightarrow> velvetDecorrelator \<Rightarrow> bool" where
  "decorrOk fs d \<longleftrightarrow> length (vd_hist d) = velvetLength + fs \<and> length (vd_out d) = fs"

definition reverbOk :: "rat \<Rightarrow> SimpleReverb \<Rightarrow> bool" where
  "reverbOk B r \<longleftrightarrow> paramsOk r \<and> filtersOk B (rv_combFilters r) (rv_allpassFilters r) \<and>
     (\<forall>d. rv_decorr r = Some d \<longrightarrow> decorrOk (rv_frameSize r) d)"

lemma runDecorrelator_ok:
  assumes "decorrOk fs d" "length work = fs"
  shows "\<exists>d'. runDecorrelator fs work d = Some d' \<and> decorrOk fs d'"
  using assms by (auto simp: runDecorrelator_def decorrOk_def Let_def)

text \<open>A reverb within a level is within every higher one.\<close>

lemma reverbOk_mono:
  assumes "B \<le> B'" "reverbOk B r"
  shows "reverbOk B' r"
proof -
  have b: "bounded x xs \<Longrightarrow> x \<le> y \<Longrightarrow> bounded y xs" for x y xs by (auto simp: bounded_def)
  have c: "combOk B c \<Longrightarrow> combOk B' c" for c using assms(1) by (auto simp: combOk_def intro: b)
  have a: "allpassOk x f \<Longrightarrow> x \<le> y \<Longrightarrow> allpassOk y f" for x y f by (auto simp: allpassOk_def intro: b)
  have "apLevel B \<le> apLevel B'" using assms(1) by (simp add: apLevel_def)
  then show ?thesis using assms(2) c by (fastforce simp: reverbOk_def filtersOk_def list_all_iff intro: a)
qed

lemma update_ok:
  assumes "reverbOk B r"
  shows "reverbOk B (updateInternalParameters r)"
proof -
  have p: "paramsOk r" using assms by (simp add: reverbOk_def)
  then have room: "inside 0 (f32 (92 / 100)) (glide (rv_roomSize r) (rv_targetRoomSize r))"
    and damp: "inside (f32 (2 / 10)) (f32 (8 / 10)) (glide (rv_damping r) (rv_targetDamping r))"
    by (simp_all add: paramsOk_def glide_inside)
  have "combOk B (c \<lparr> cf_feedback := combFeedback (glide (rv_roomSize r) (rv_targetRoomSize r)),
      cf_damping := combDamping (glide (rv_damping r) (rv_targetDamping r)) (length (cf_buffer c)) \<rparr>)" if "combOk B c" for c
    using that combFeedback_range[OF room] combDamping_range[OF damp, of "length (cf_buffer c)"] by (simp add: combOk_def)
  then show ?thesis using assms room damp
    by (auto simp: reverbOk_def paramsOk_def filtersOk_def updateInternalParameters_def Let_def list_all_iff)
qed

lemma bounded_clear: "0 \<le> B \<Longrightarrow> bounded B (clear_slice xs)"
  by (auto simp: bounded_def clear_slice_def)

lemma Clear_ok: "0 \<le> B \<Longrightarrow> reverbOk B r \<Longrightarrow> reverbOk B (Clear r)"
  by (auto simp: reverbOk_def paramsOk_def filtersOk_def Clear_def combOk_def allpassOk_def list_all_iff apLevel_def
      intro!: bounded_clear)

lemma reverbOk_frame [simp]:
  "reverbOk B (r \<lparr> rv_flushed := b \<rparr>) = reverbOk B r" "reverbOk B (r \<lparr> rv_workBuffer := w \<rparr>) = reverbOk B r"
  by (simp_all add: reverbOk_def paramsOk_def)

lemma processWet_ok:
  assumes "0 \<le> B" "reverbOk B r" "rv_frameSize r \<le> length premix" "bounded B (take (rv_frameSize r) premix)"
  shows "\<exists>r'. processWet r premix = Some r' \<and> reverbOk B r' \<and> bounded (300 * B) (rv_workBuffer r') \<and>
    length (rv_workBuffer r') = rv_frameSize r \<and> rv_frameSize r' = rv_frameSize r"
proof -
  let ?r = "updateInternalParameters r"
  have fs: "rv_frameSize ?r = rv_frameSize r" by (simp add: updateInternalParameters_def Let_def)
  have ok: "reverbOk B ?r" using update_ok[OF assms(2)] .
  then have f: "filtersOk B (rv_combFilters ?r) (rv_allpassFilters ?r)" by (simp add: reverbOk_def)
  obtain wet cs as peak where w: "wetSamples (take (rv_frameSize r) premix) (rv_combFilters ?r) (rv_allpassFilters ?r) 0 = Some (wet, cs, as, peak)"
    "bounded (300 * B) wet" "filtersOk B cs as" "length wet = rv_frameSize r"
    using wetSamples_ok[OF assms(1) f assms(4), of 0] assms(3) by auto
  let ?s = "?r \<lparr> rv_workBuffer := wet, rv_combFilters := cs, rv_allpassFilters := as \<rparr>"
  have s: "reverbOk B ?s" using ok w(3) by (simp add: reverbOk_def paramsOk_def)
  define t where "t = (if peak < f32 (1 / 10^18) then (if rv_flushed ?s then ?s else (Clear ?s) \<lparr> rv_flushed := True \<rparr>) else ?s \<lparr> rv_flushed := False \<rparr>)"
  have t: "reverbOk B t" "bounded (300 * B) (rv_workBuffer t)" "length (rv_workBuffer t) = rv_frameSize r" "rv_frameSize t = rv_frameSize r"
    using s Clear_ok[OF assms(1) s] w(2,4) assms(1) fs by (auto simp: t_def Clear_def intro: bounded_clear)
  have nl: "\<not> length premix < rv_frameSize r" using assms(3) by simp
  have run: "processWet r premix = (case rv_decorr t of None \<Rightarrow> Some t
      | Some d \<Rightarrow> do { d \<leftarrow> runDecorrelator (rv_frameSize r) (rv_workBuffer t) d; Some (t \<lparr> rv_decorr := Some d \<rparr>) })"
    unfolding processWet_def Let_def fs if_not_P[OF nl] w(1) bind.bind_lunit case_prod_conv t_def[symmetric] ..
  show ?thesis
  proof (cases "rv_decorr t")
    case None
    then show ?thesis using run t by simp
  next
    case (Some d)
    then have "decorrOk (rv_frameSize r) d" using t(1,4) by (simp add: reverbOk_def)
    then obtain d' where "runDecorrelator (rv_frameSize r) (rv_workBuffer t) d = Some d'" "decorrOk (rv_frameSize r) d'"
      using runDecorrelator_ok[OF _ t(3)] by blast
    then show ?thesis using run Some t by (simp add: reverbOk_def paramsOk_def)
  qed
qed

lemma scale_same: "0 < l \<Longrightarrow> l \<le> 2000 \<Longrightarrow> scaleDelayLength l 48000 48000 = l"
proof -
  assume l: "0 < l" "l \<le> 2000"
  have a: "f32 (of_nat l) = of_nat l" using f32_of_int[of "int l"] l by simp
  have "f32 (of_int (int l * 375) * 2 powi 7) = of_int (int l * 375) * 2 powi 7"
    unfolding f32_def using l by (intro rnd_exact_scaled[OF refl]) auto
  then have "f32 (of_nat l * 48000) = of_nat l * 48000" by (simp add: mult.assoc)
  then show ?thesis using a trunc_of_int[of "int l"] by (simp add: scaleDelayLength_def div32_def mul32_def)
qed

lemma setPreset_ok:
  assumes "reverbOk B r" "inside 0 (f32 (92 / 100)) (clamp (f32 room) 0 (f32 (999 / 1000)))"
    "inside (f32 (2 / 10)) (f32 (8 / 10)) (clamp (f32 damp) 0 1)"
  shows "reverbOk B (setPreset r room damp wet)"
  using assms by (simp add: reverbOk_def paramsOk_def setPreset_def SetRoomSize_def SetDamping_def SetWetMix_def)

lemmas preset_defs = SetPresetTightRoom_def SetPresetSmallRoom_def SetPresetMediumRoom_def SetPresetLargeHall_def SetPresetCathedral_def

lemma presets_ok:
  assumes "reverbOk B r"
  shows "reverbOk B (applyPreset preset r)" "rv_frameSize (applyPreset preset r) = rv_frameSize r"
proof -
  have "reverbOk B (SetPresetTightRoom r)" "reverbOk B (SetPresetSmallRoom r)" "reverbOk B (SetPresetMediumRoom r)"
    "reverbOk B (SetPresetLargeHall r)" "reverbOk B (SetPresetCathedral r)"
    unfolding preset_defs by (rule setPreset_ok[OF assms]; code_simp)+
  then show "reverbOk B (applyPreset preset r)" using assms by (simp add: applyPreset_def)
  show "rv_frameSize (applyPreset preset r) = rv_frameSize r"
    by (simp add: applyPreset_def preset_defs setPreset_def SetRoomSize_def SetDamping_def SetWetMix_def)
qed

lemma bounded_zeros: "0 \<le> B \<Longrightarrow> bounded B (replicate n 0)"
  by (auto simp: bounded_def)

lemma new_reverb_ok:
  assumes "0 \<le> B"
  shows "reverbOk B (NewSimpleReverb fs 48000)" "rv_frameSize (NewSimpleReverb fs 48000) = fs"
proof -
  have n: "inside 0 (f32 (92 / 100)) (1 / 2)" "inside (f32 (2 / 10)) (f32 (8 / 10)) (1 / 2)" "0 \<le> f32 (84 / 100)" "f32 (84 / 100) \<le> 96 / 100"
    by code_simp+
  have l: "map (\<lambda>l. scaleDelayLength l 48000 48000) combDelayLengths = combDelayLengths"
    "map (\<lambda>l. scaleDelayLength l 48000 48000) allpassDelayLengths = allpassDelayLengths"
    by (simp_all add: combDelayLengths_def allpassDelayLengths_def scale_same)
  show "reverbOk B (NewSimpleReverb fs 48000)" unfolding NewSimpleReverb_def
    by (rule update_ok) (use assms n in \<open>auto simp: reverbOk_def paramsOk_def filtersOk_def combOk_def allpassOk_def
        combDelayLengths_def allpassDelayLengths_def scale_same apLevel_def intro!: bounded_zeros\<close>)
  show "rv_frameSize (NewSimpleReverb fs 48000) = fs" by (simp add: NewSimpleReverb_def updateInternalParameters_def Let_def)
qed

section \<open>Properties\<close>

fun wetRun :: "SimpleReverb \<Rightarrow> rat list list \<Rightarrow> (rat list list \<times> SimpleReverb) option" where
  "wetRun r [] = Some ([], r)"
| "wetRun r (p # ps) = do { r \<leftarrow> processWet r p; (ws, r') \<leftarrow> wetRun r ps; Some (rv_workBuffer r # ws, r') }"

lemma wetRun_ok:
  assumes "0 \<le> B" "reverbOk B r" "\<forall>p\<in>set ps. rv_frameSize r \<le> length p \<and> bounded B (take (rv_frameSize r) p)"
  shows "\<exists>ws r'. wetRun r ps = Some (ws, r') \<and> list_all (bounded (300 * B)) ws \<and> length ws = length ps"
  using assms(2,3)
proof (induction ps arbitrary: r)
  case (Cons p ps)
  obtain r1 where r1: "processWet r p = Some r1" "reverbOk B r1" "bounded (300 * B) (rv_workBuffer r1)" "rv_frameSize r1 = rv_frameSize r"
    using processWet_ok[OF assms(1) Cons.prems(1), of p] Cons.prems(2) by auto
  obtain ws r' where "wetRun r1 ps = Some (ws, r')" "list_all (bounded (300 * B)) ws" "length ws = length ps"
    using Cons.IH[OF r1(2)] Cons.prems(2) r1(4) by auto
  then show ?case using r1 by simp
qed simp

text \<open>C31. The reverb is stable in \<^verbatim>\<open>float32\<close>: whatever the preset and however long it runs, a reverb fed frames
  whose samples never exceed a level processes every one of them without an index panic, and its
  wet output never exceeds 300 times that level.\<close>

theorem reverb_stable:
  assumes "0 \<le> B" "\<forall>p\<in>set ps. fs \<le> length p \<and> bounded B (take fs p)"
  shows "\<exists>ws r'. wetRun (applyPreset preset (NewSimpleReverb fs 48000)) ps = Some (ws, r') \<and>
    list_all (bounded (300 * B)) ws \<and> length ws = length ps"
  using wetRun_ok[OF assms(1) presets_ok(1)[OF new_reverb_ok(1)[OF assms(1)]]] assms(2) presets_ok(2)[OF new_reverb_ok(1)[OF assms(1)]]
    new_reverb_ok(2)[OF assms(1)] by simp

theorem reverb_stable_witness:
  "\<exists>ws r'. wetRun (applyPreset 5 (NewSimpleReverb 2 48000)) [[1, - 1], [1, 1, 7]] = Some (ws, r') \<and> list_all (bounded 300) ws \<and> length ws = 2"
  using reverb_stable[of 1 "[[1, - 1], [1, 1, 7]]" 2 5] by (simp add: bounded_def numeral_2_eq_2 del: wetRun.simps)

end
