(* ===== verification/Encoder_Safety.thy ===== *)
theory Encoder_Safety
  imports Encoder_Mix Reverb_Stability
begin

text \<open>
  The render pass never leaves its buffers. \<open>encOk\<close> is the invariant of an encoder the engine builds: buffer
  sizes that follow the configuration, a delay state inside the ring, a reverb in its bounds. Every
  step of \<^verbatim>\<open>EncodePeers\<close> and \<^verbatim>\<open>PostMix\<close> returns and keeps it.
\<close>

section \<open>Weight vectors\<close>

definition cfgOk :: "MixerConfig \<Rightarrow> bool" where
  "cfgOk cfg \<longleftrightarrow> 2 \<le> mc_Order cfg \<and> mc_Order cfg \<le> 5 \<and> mc_ChannelCount cfg = (mc_Order cfg + 1) * (mc_Order cfg + 1) \<and>
     mc_FrameSize cfg = 240"

lemma SH_fits:
  assumes "2 \<le> order" "order \<le> 5"
  shows "length (SphericalHarmonics (int order) x y z) = (order + 1) * (order + 1)"
proof -
  have "order = 2 \<or> order = 3 \<or> order = 4 \<or> order = 5" using assms by auto
  then show ?thesis by (auto simp: length_SH)
qed

lemma GetSH_total:
  assumes "2 \<le> order" "order \<le> 5" "(order + 1) * (order + 1) \<le> length w"
  shows "\<exists>w'. GetSphericalHarmonics (int order) x y z w = Some w' \<and> length w' = length w"
  using SH_fits[OF assms(1,2), of x y z] assms(3) by (simp add: GetSphericalHarmonics_def Let_def)

lemma GetSH1_total: "9 \<le> length w \<Longrightarrow> \<exists>w'. GetSphericalHarmonics 1 x y z w = Some w' \<and> length w' = length w"
  using length_SH[of 1 x y z] by (simp add: GetSphericalHarmonics_def Let_def)

lemma shGained_total:
  assumes "2 \<le> order" "order \<le> 5" "(order + 1) * (order + 1) \<le> length w"
  shows "\<exists>w'. shGained order d g w = Some w' \<and> length w' = length w"
  using GetSH_total[OF assms] by (fastforce simp: shGained_def GetSphericalHarmonicsGained_def)

lemma length_foldl_update: "length (foldl (\<lambda>w i. w[f i := g w i]) w xs) = length w"
  by (induction xs arbitrary: w) auto

lemma length_foldl_update2: "length (foldl (\<lambda>w l. foldl (\<lambda>w i. w[f i := g w l i]) w (h l)) w xs) = length w"
  by (induction xs arbitrary: w) (auto simp: length_foldl_update)

lemma applyOrderWeights_total:
  "(order + 1) * (order + 1) \<le> length w \<Longrightarrow> \<exists>w'. applyOrderWeights order ow w = Some w' \<and> length w' = length w"
  by (simp only: applyOrderWeights_def if_True option.inject ex_simps simp_thms length_foldl_update2)

lemma withSpread_total:
  "(order + 1) * (order + 1) \<le> length w \<Longrightarrow> \<exists>w'. withSpread order ow w = Some w' \<and> length w' = length w"
  using applyOrderWeights_total by (cases ow) (simp_all add: withSpread_def)

lemma spread_total:
  "(order + 1) * (order + 1) \<le> length w \<Longrightarrow> \<exists>w'. spread mt sz d order w = Some w' \<and> length w' = length w"
  using applyOrderWeights_total by (auto simp: spread_def split: option.splits)

lemma scaleFirst_total: "n \<le> length w \<Longrightarrow> \<exists>w'. scaleFirst n g w = Some w' \<and> length w' = length w"
  by (simp add: scaleFirst_def)

lemma channels_bound: "cfgOk cfg \<Longrightarrow> 9 \<le> mc_ChannelCount cfg"
proof -
  assume "cfgOk cfg"
  then have "3 * 3 \<le> (mc_Order cfg + 1) * (mc_Order cfg + 1)" by (intro mult_mono) (auto simp: cfgOk_def)
  then show ?thesis using \<open>cfgOk cfg\<close> by (simp add: cfgOk_def)
qed

lemma GetWeights_total:
  assumes "cfgOk cfg" "length w = mc_ChannelCount cfg"
  shows "\<exists>w'. GetWeights mt w g a lp pp hf (mc_Order cfg) f sz dr = Some w' \<and> length w' = length w"
proof -
  obtain nrm d ng where p: "pairGeometry mt lp pp hf g a f sz dr = (nrm, d, ng)" by (metis prod_cases3)
  have o: "2 \<le> mc_Order cfg" "mc_Order cfg \<le> 5" "(mc_Order cfg + 1) * (mc_Order cfg + 1) \<le> length w"
    using assms by (auto simp: cfgOk_def)
  obtain w1 where w1: "shGained (mc_Order cfg) nrm ng w = Some w1" "length w1 = length w" using shGained_total[OF o] by blast
  then obtain w2 where "spread mt sz d (mc_Order cfg) w1 = Some w2" "length w2 = length w"
    using spread_total[of "mc_Order cfg" w1 mt sz d] o(3) by auto
  then show ?thesis using w1 by (simp add: GetWeights_def p shGained_def)
qed

lemma GetWeightsForReverb_total:
  assumes "cfgOk cfg" "length w = mc_ChannelCount cfg" "length sh = mc_ChannelCount cfg" "length wet = REVERB_CHANNELS"
  shows "\<exists>w' wet' sh'. GetWeightsForReverb mt w wet sh g a lp pp hf (mc_Order cfg) (mc_ChannelCount cfg) f sz dr = Some (w', wet', sh') \<and>
    length w' = length w \<and> length wet' = length wet \<and> length sh' = length sh"
proof -
  obtain nrm d ng where p: "pairGeometry mt lp pp hf g a f sz dr = (nrm, d, ng)" by (metis prod_cases3)
  obtain dg wg where s: "reverbSplit d sz = (dg, wg)" by (cases "reverbSplit d sz")
  have o: "2 \<le> mc_Order cfg" "mc_Order cfg \<le> 5" "(mc_Order cfg + 1) * (mc_Order cfg + 1) \<le> length sh"
    using assms by (auto simp: cfgOk_def)
  obtain s1 where s1: "GetSphericalHarmonics (int (mc_Order cfg)) (f32 (pos_X nrm)) (f32 (pos_Y nrm)) (f32 (pos_Z nrm)) sh = Some s1" "length s1 = length sh"
    using GetSH_total[OF o] by blast
  then obtain s2 where "spread mt sz d (mc_Order cfg) s1 = Some s2" "length s2 = length sh"
    using spread_total[of "mc_Order cfg" s1 mt sz d] o(3) by auto
  then show ?thesis using s1 assms(2-) channels_bound[OF assms(1)]
    by (simp add: GetWeightsForReverb_def p s Let_def REVERB_CHANNELS_def)
qed

lemma earWeights_total:
  assumes "cfgOk cfg" "length wL = mc_ChannelCount cfg" "length wR = mc_ChannelCount cfg"
  shows "\<exists>wL' wR'. earWeights mt bl (mc_Order cfg) ow ff nrm rel ng wL wR = Some (wL', wR') \<and> length wL' = length wL \<and> length wR' = length wR"
proof -
  have o: "2 \<le> mc_Order cfg" "mc_Order cfg \<le> 5" "(mc_Order cfg + 1) * (mc_Order cfg + 1) \<le> length wL"
    "(mc_Order cfg + 1) * (mc_Order cfg + 1) \<le> length wR" using assms by (auto simp: cfgOk_def)
  have one: "\<exists>v'. (do { w \<leftarrow> shGained (mc_Order cfg) dir ng v; withSpread (mc_Order cfg) ow w }) = Some v' \<and> length v' = length v"
    if l: "(mc_Order cfg + 1) * (mc_Order cfg + 1) \<le> length v" for dir v
  proof -
    obtain w where w: "shGained (mc_Order cfg) dir ng v = Some w" "length w = length v" using shGained_total[OF o(1,2) l] by blast
    then show ?thesis using withSpread_total[of "mc_Order cfg" w ow] l by auto
  qed
  obtain a where a: "do { w \<leftarrow> shGained (mc_Order cfg) nrm ng wL; withSpread (mc_Order cfg) ow w } = Some a" "length a = length wL"
    using one[OF o(3)] by blast
  obtain b where b: "do { w \<leftarrow> shGained (mc_Order cfg) (earProjectedDirection mt rel (bl_EarOffsetM bl) (bl_MeasurementRadiusM bl)) ng wL;
      withSpread (mc_Order cfg) ow w } = Some b" "length b = length wL" using one[OF o(3)] by blast
  obtain c where c: "do { w \<leftarrow> shGained (mc_Order cfg) (earProjectedDirection mt rel (- bl_EarOffsetM bl) (bl_MeasurementRadiusM bl)) ng wR;
      withSpread (mc_Order cfg) ow w } = Some c" "length c = length wR" using one[OF o(4)] by blast
  show ?thesis
  proof (cases ff)
    case True
    then show ?thesis using a assms by (auto simp: earWeights_def Option.bind_eq_Some_conv)
  next
    case False
    then show ?thesis using b c by (auto simp: earWeights_def Let_def Option.bind_eq_Some_conv)
  qed
qed

lemma wetWeightsOf_total:
  assumes "cfgOk cfg" "length wL = mc_ChannelCount cfg" "length sh = mc_ChannelCount cfg" "length wet = REVERB_CHANNELS"
  shows "\<exists>v sh'. wetWeightsOf ow ff nrm ng wg wL wet sh = Some (v, sh') \<and> length v = REVERB_CHANNELS \<and> length sh' = length sh"
proof -
  have nine: "9 \<le> mc_ChannelCount cfg" using channels_bound[OF assms(1)] .
  obtain s1 where s1: "GetSphericalHarmonics 1 (f32 (pos_X nrm)) (f32 (pos_Y nrm)) (f32 (pos_Z nrm)) sh = Some s1" "length s1 = length sh"
    using GetSH1_total[of sh "f32 (pos_X nrm)" "f32 (pos_Y nrm)" "f32 (pos_Z nrm)"] nine assms(3) by auto
  obtain s2 where s2: "withSpread 1 ow (take REVERB_CHANNELS s1) = Some s2" "length s2 = 4"
    using withSpread_total[of 1 "take REVERB_CHANNELS s1" ow] s1(2) nine assms(3) by (auto simp: REVERB_CHANNELS_def)
  obtain w where w: "scaleFirst REVERB_CHANNELS wg wL = Some w" "length w = length wL"
    using scaleFirst_total[of REVERB_CHANNELS wL] nine assms(2) by (auto simp: REVERB_CHANNELS_def)
  show ?thesis
  proof (cases ff)
    case True
    then show ?thesis using w nine assms by (simp add: wetWeightsOf_def REVERB_CHANNELS_def)
  next
    case False
    then show ?thesis using s1 s2 nine assms by (simp add: wetWeightsOf_def REVERB_CHANNELS_def)
  qed
qed

lemma bilateralWeights_shape:
  "\<exists>ow ff nrm rel ng dAtt dg wg. bilateralWeights mt bl rows e peer hf wL wR wet sh =
    do { (wL, wR) \<leftarrow> earWeights mt bl (mc_Order (enc_mixerConfig e)) ow ff nrm rel ng wL wR;
         (case wet of
            None \<Rightarrow> Some (f32 (pos_Y nrm), dAtt, wL, wR, None, sh)
          | Some v \<Rightarrow>
              do { (v, sh) \<leftarrow> wetWeightsOf ow ff nrm ng wg wL v sh;
                   wL \<leftarrow> scaleFirst REVERB_CHANNELS dg wL; wR \<leftarrow> scaleFirst REVERB_CHANNELS dg wR;
                   Some (f32 (pos_Y nrm), dAtt, wL, wR, Some v, sh) }) }"
proof -
  obtain rel d where r: "pairRel mt e peer = (rel, d)" by (cases "pairRel mt e peer")
  obtain pg pa where ps: "pairScalars rows e peer = (pg, pa)" by (cases "pairScalars rows e peer")
  obtain dg wg where s: "reverbSplit d (enc_size peer) = (dg, wg)" by (cases "reverbSplit d (enc_size peer)")
  show ?thesis unfolding bilateralWeights_def r ps s Let_def case_prod_conv by (intro exI) (rule refl)
qed

lemma bilateralWeights_total:
  assumes "cfgOk (enc_mixerConfig e)" "length wL = mc_ChannelCount (enc_mixerConfig e)" "length wR = mc_ChannelCount (enc_mixerConfig e)"
    "length sh = mc_ChannelCount (enc_mixerConfig e)" "\<forall>v. wet = Some v \<longrightarrow> length v = REVERB_CHANNELS"
  shows "\<exists>lat d wL' wR' wet' sh'. bilateralWeights mt bl rows e peer hf wL wR wet sh = Some (lat, d, wL', wR', wet', sh') \<and>
    length wL' = length wL \<and> length wR' = length wR \<and> length sh' = length sh \<and> (wet' = None \<longleftrightarrow> wet = None) \<and>
    (\<forall>v. wet' = Some v \<longrightarrow> length v = REVERB_CHANNELS)"
proof -
  let ?cfg = "enc_mixerConfig e"
  have four: "REVERB_CHANNELS \<le> mc_ChannelCount ?cfg" using channels_bound[OF assms(1)] by (simp add: REVERB_CHANNELS_def)
  have body: "\<exists>wL1 wR1. earWeights mt bl (mc_Order ?cfg) ow ff nrm rel' ng wL wR = Some (wL1, wR1) \<and> length wL1 = length wL \<and> length wR1 = length wR \<and>
      (\<forall>v. wet = Some v \<longrightarrow> (\<exists>v' sh' wL2 wR2. wetWeightsOf ow ff nrm ng wg wL1 v sh = Some (v', sh') \<and> length v' = REVERB_CHANNELS \<and> length sh' = length sh \<and>
         scaleFirst REVERB_CHANNELS dg wL1 = Some wL2 \<and> scaleFirst REVERB_CHANNELS dg wR1 = Some wR2 \<and> length wL2 = length wL \<and> length wR2 = length wR))"
    for ow ff nrm rel' ng dg wg
  proof -
    obtain wL1 wR1 where w: "earWeights mt bl (mc_Order ?cfg) ow ff nrm rel' ng wL wR = Some (wL1, wR1)" "length wL1 = length wL" "length wR1 = length wR"
      using earWeights_total[OF assms(1-3)] by blast
    have "\<exists>v' sh' wL2 wR2. wetWeightsOf ow ff nrm ng wg wL1 v sh = Some (v', sh') \<and> length v' = REVERB_CHANNELS \<and> length sh' = length sh \<and>
        scaleFirst REVERB_CHANNELS dg wL1 = Some wL2 \<and> scaleFirst REVERB_CHANNELS dg wR1 = Some wR2 \<and> length wL2 = length wL \<and> length wR2 = length wR"
      if v: "wet = Some v" for v
    proof -
      have l: "length wL1 = mc_ChannelCount ?cfg" "length wR1 = mc_ChannelCount ?cfg" "length v = REVERB_CHANNELS"
        using w(2,3) assms(2,3,5) v by simp_all
      obtain v' sh' where "wetWeightsOf ow ff nrm ng wg wL1 v sh = Some (v', sh')" "length v' = REVERB_CHANNELS" "length sh' = length sh"
        using wetWeightsOf_total[OF assms(1) l(1) assms(4) l(3)] by blast
      moreover obtain wL2 where "scaleFirst REVERB_CHANNELS dg wL1 = Some wL2" "length wL2 = length wL"
        using scaleFirst_total[of REVERB_CHANNELS wL1 dg] four l(1) w(2) by auto
      moreover obtain wR2 where "scaleFirst REVERB_CHANNELS dg wR1 = Some wR2" "length wR2 = length wR"
        using scaleFirst_total[of REVERB_CHANNELS wR1 dg] four l(2) w(3) by auto
      ultimately show ?thesis by blast
    qed
    then show ?thesis using w by blast
  qed
  obtain ow ff nrm rel ng dAtt dg wg where shape: "bilateralWeights mt bl rows e peer hf wL wR wet sh =
      do { (wL, wR) \<leftarrow> earWeights mt bl (mc_Order ?cfg) ow ff nrm rel ng wL wR;
        (case wet of
            None \<Rightarrow> Some (f32 (pos_Y nrm), dAtt, wL, wR, None, sh)
          | Some v \<Rightarrow>
              do { (v, sh) \<leftarrow> wetWeightsOf ow ff nrm ng wg wL v sh;
                   wL \<leftarrow> scaleFirst REVERB_CHANNELS dg wL; wR \<leftarrow> scaleFirst REVERB_CHANNELS dg wR;
                   Some (f32 (pos_Y nrm), dAtt, wL, wR, Some v, sh) }) }"
    using bilateralWeights_shape[of mt bl rows e peer hf wL wR wet sh] by (elim exE) (rule that)
  show ?thesis unfolding shape using body[of ow ff nrm rel ng wg dg] by (cases wet) auto
qed

section \<open>Packing\<close>

definition idleOk :: "MixerConfig \<Rightarrow> AmbiMixer \<Rightarrow> bool" where
  "idleOk cfg m \<longleftrightarrow> am_cfg m = cfg \<and> length (am_packedWeights m) = mc_ChannelCount cfg * mc_MaxNodes cfg \<and>
     length (am_previousPackedWeights m) = mc_ChannelCount cfg * mc_MaxNodes cfg"

definition packOk :: "MixerConfig \<Rightarrow> nat \<Rightarrow> nat \<Rightarrow> AmbiMixer \<Rightarrow> bool" where
  "packOk cfg n k m \<longleftrightarrow> idleOk cfg m \<and> am_inputTotalCount m = n \<and> am_inputRunningCount m = k \<and>
     length (am_packedInputs m) = k * mc_FrameSize cfg"

lemma new_mixer_idle: "idleOk cfg (NewAmbiMixer cfg)"
  by (simp add: idleOk_def NewAmbiMixer_def)

lemma Reset_ok: "idleOk cfg m \<Longrightarrow> n \<le> mc_MaxNodes cfg \<Longrightarrow> \<exists>m'. Reset m n = Some m' \<and> packOk cfg n 0 m'"
  by (auto simp: Reset_def idleOk_def packOk_def mult.commute)

lemma packWeights_ok:
  assumes "packOk cfg n k m" "k < n" "length w = mc_ChannelCount cfg" "length pw = mc_ChannelCount cfg" "0 < mc_ChannelCount cfg"
    "length xs = mc_FrameSize cfg"
  shows "\<exists>m'. packWeights (m \<lparr> am_packedInputs := am_packedInputs m @ xs \<rparr>) w pw = Some m' \<and> packOk cfg n (Suc k) m'"
proof -
  let ?cc = "mc_ChannelCount cfg"
  have "(?cc - 1) * n + k < (?cc - 1) * n + n" using assms(2) by simp
  also have "\<dots> = n * ?cc" using assms(5) by (cases ?cc) (auto simp: algebra_simps)
  finally have i: "(?cc - 1) * n + k < n * ?cc" .
  have ne: "w \<noteq> []" using assms(3,5) by auto
  show ?thesis using assms i ne by (auto simp: packWeights_def Let_def packOk_def idleOk_def length_foldl_update)
qed

lemma AddInput_ok:
  assumes "packOk cfg n k m" "k < n" "length w = mc_ChannelCount cfg" "length pw = mc_ChannelCount cfg" "0 < mc_ChannelCount cfg"
    "length xs = mc_FrameSize cfg"
  shows "\<exists>m'. AddInput m xs w pw = Some m' \<and> packOk cfg n (Suc k) m'"
  using packWeights_ok[OF assms] by (simp add: AddInput_def)

lemma addRow_ok:
  assumes "packOk cfg n k m" "k < n" "n \<le> mc_MaxNodes cfg"
  shows "addRow m xs = Some (m \<lparr> am_packedInputs := am_packedInputs m @ xs \<rparr>)"
proof -
  have "(k + 1) * mc_FrameSize cfg \<le> mc_MaxNodes cfg * mc_FrameSize cfg" using assms(2,3) by (intro mult_right_mono) auto
  then show ?thesis using assms(1) by (simp add: addRow_def packOk_def idleOk_def algebra_simps)
qed

lemma AddInputDelayed_ok:
  assumes "packOk cfg n k m" "k < n" "n \<le> mc_MaxNodes cfg" "length w = mc_ChannelCount cfg" "length pw = mc_ChannelCount cfg" "cfgOk cfg"
    "inRing p" "inRing d" "length ring = DelayRingHistory + 240 + 1"
  shows "\<exists>m'. AddInputDelayed m ring p d w pw = Some m' \<and> packOk cfg n (Suc k) m'"
proof -
  have fs: "mc_FrameSize cfg = 240" "mc_FrameSize (am_cfg m) = 240" "0 < mc_ChannelCount cfg"
    using assms(1,6) channels_bound[OF assms(6)] by (auto simp: cfgOk_def packOk_def idleOk_def)
  obtain xs where xs: "packedRow 240 ring p d = Some xs" "length xs = 240" using packedRow_inside[OF assms(7-9)] by blast
  obtain m' where "packWeights (m \<lparr> am_packedInputs := am_packedInputs m @ xs \<rparr>) w pw = Some m'" "packOk cfg n (Suc k) m'"
    using packWeights_ok[OF assms(1,2,4,5) fs(3)] xs(2) fs(1) by auto
  then show ?thesis using xs(1) addRow_ok[OF assms(1-3)] by (simp add: AddInputDelayed_def fs)
qed

lemma AddInputDelayedNFC_ok:
  assumes "packOk cfg n k m" "k < n" "n \<le> mc_MaxNodes cfg" "length w = mc_ChannelCount cfg" "length pw = mc_ChannelCount cfg" "cfgOk cfg"
    "inRing p" "inRing d" "length ring = DelayRingHistory + 240 + 1" "length s = 4"
  shows "\<exists>m' s'. AddInputDelayedNFC m ring p d c s w pw = Some (m', s') \<and> packOk cfg n (Suc k) m' \<and> length s' = 4"
proof -
  have fs: "mc_FrameSize cfg = 240" "mc_FrameSize (am_cfg m) = 240" "0 < mc_ChannelCount cfg"
    using assms(1,6) channels_bound[OF assms(6)] by (auto simp: cfgOk_def packOk_def idleOk_def)
  obtain xs s' where xs: "nfcRow ring c (delayStep 240 p d) 240 0 p s = Some (xs, s')" "length xs = 240" "length s' = 4"
    using nfcRow_inside[OF assms(7-9), of 0 240 p s c] assms(10) by auto
  obtain m' where "packWeights (m \<lparr> am_packedInputs := am_packedInputs m @ xs \<rparr>) w pw = Some m'" "packOk cfg n (Suc k) m'"
    using packWeights_ok[OF assms(1,2,4,5) fs(3)] xs(2) fs(1) by auto
  then show ?thesis using xs(1,3) addRow_ok[OF assms(1-3)] by (simp add: AddInputDelayedNFC_def Let_def fs)
qed

lemma Mix_total:
  assumes "packOk cfg n n m" "sgemm_ok gm" "0 < mc_ChannelCount cfg" "0 < n" "n \<le> mc_MaxNodes cfg" "length out = mc_ChannelCount cfg * mc_FrameSize cfg"
  shows "\<exists>out' m'. Mix gm m out = Some (out', m') \<and> length out' = length out \<and> idleOk cfg m'"
proof -
  let ?cc = "mc_ChannelCount cfg"
  have m: "am_cfg m = cfg" "am_inputTotalCount m = n" "length (am_packedInputs m) = n * mc_FrameSize cfg"
    "length (am_packedWeights m) = ?cc * mc_MaxNodes cfg" "length (am_previousPackedWeights m) = ?cc * mc_MaxNodes cfg"
    using assms(1) by (auto simp: packOk_def idleOk_def)
  have le: "n * ?cc \<le> ?cc * mc_MaxNodes cfg" using assms(5) by simp
  have sh: "(?cc - 1) * n + n \<le> n * ?cc" using assms(3) by (cases ?cc) (auto simp: algebra_simps)
  have idle: "idleOk cfg (m \<lparr> am_MixCount := x \<rparr>)" for x using assms(1) by (simp add: packOk_def idleOk_def)
  show ?thesis
  proof (cases "mc_PureGoMixer cfg")
    case True
    then show ?thesis using m assms(2,6) idle by (simp add: Mix_def Mix2_def Let_def length_storeAt sgemm_length)
  next
    case False
    have "checkShapes n ?cc n (mc_FrameSize cfg) (am_packedInputs m) (take (n * ?cc) (am_packedWeights m))
        (take (n * ?cc) (am_previousPackedWeights m)) (length out) (?cc * mc_FrameSize cfg)"
      using m sh order_trans[OF sh le] assms(6) by (simp add: checkShapes_def)
    then show ?thesis using False m assms(2,6) idle
      by (simp add: Mix_def EncodeFade_def Let_def fadeCombine_def length_storeAt sgemm_length)
  qed
qed

section \<open>One peer\<close>

definition reverbCfg :: "MixerConfig \<Rightarrow> MixerConfig" where
  "reverbCfg cfg = cfg \<lparr> mc_ChannelCount := REVERB_CHANNELS, mc_Order := 1 \<rparr>"

definition peerOk :: "MixerConfig \<Rightarrow> Encoder \<Rightarrow> bool" where
  "peerOk cfg p \<longleftrightarrow> enc_slot p < mc_MaxNodes cfg \<and> length (enc_inputRing p) = DelayRingHistory + 240 + 1 \<and> length (enc_Input p) = 240"

text \<open>The reverb mixer packs rows only without the shared matrix.\<close>

definition packsWet :: "Encoder \<Rightarrow> bool" where
  "packsWet e \<longleftrightarrow> applyReverb (enc_mixerConfig e) \<and> \<not> enc_sharedInputs e"

definition passOk :: "Bilateral \<Rightarrow> Encoder \<Rightarrow> nat \<Rightarrow> nat \<Rightarrow> Pass \<Rightarrow> bool" where
  "passOk bl e n k ps \<longleftrightarrow> (let cfg = enc_mixerConfig e; cells = mc_MaxNodes cfg * mc_ChannelCount cfg in
     length (ps_weights ps) = cells \<and> length (ps_reverb ps) = cells \<and>
     length (ps_shared ps) = REVERB_CHANNELS * mc_MaxNodes cfg \<and> length (ps_sh ps) = mc_ChannelCount cfg \<and>
     packOk cfg n k (ps_dry ps) \<and> idleOk (reverbCfg cfg) (ps_rev ps) \<and> (packsWet e \<longrightarrow> packOk (reverbCfg cfg) n k (ps_rev ps)) \<and>
     (if enc_dualBus e then
        length (ps_weightsR ps) = cells \<and>
        (\<exists>d m. ps_delays ps = Some d \<and> delaysOk bl cfg d \<and> 2 \<le> dl_frameGen d \<and> ps_dryR ps = Some m \<and> packOk cfg n k m)
      else ps_delays ps = None \<and> (\<forall>m. ps_dryR ps = Some m \<longrightarrow> idleOk cfg m)))"

definition prevOk :: "Encoder \<Rightarrow> previous \<Rightarrow> bool" where
  "prevOk e prev \<longleftrightarrow> (let cfg = enc_mixerConfig e; cells = mc_MaxNodes cfg * mc_ChannelCount cfg in
     case prev of (p, pR, pV) \<Rightarrow> length p = cells \<and> length pV = cells \<and> (enc_dualBus e \<longrightarrow> length pR = cells))"

lemma row_bound: "slot < mn \<Longrightarrow> slot * cc + cc \<le> mn * (cc::nat)"
proof -
  assume "slot < mn"
  then have "(slot + 1) * cc \<le> mn * cc" by (intro mult_right_mono) auto
  then show ?thesis by (simp add: algebra_simps)
qed

lemma view_ok: "slot < mn \<Longrightarrow> length w = mn * cc \<Longrightarrow> k \<le> cc \<Longrightarrow> \<exists>v. view w (slot * cc) k = Some v \<and> length v = k"
  using row_bound[of slot mn cc] by (auto simp: view_def)

lemma length_copy_row: "slot < mn \<Longrightarrow> length w = mn * cc \<Longrightarrow> length v \<le> cc \<Longrightarrow> length (copy_at w (slot * cc) v) = mn * cc"
  using row_bound[of slot mn cc] by simp

lemma scatter_ok:
  assumes "slot < mn" "length dst = REVERB_CHANNELS * mn" "length wet = REVERB_CHANNELS"
  shows "\<exists>d. scatterReverbWeights mn dst slot wet = Some d \<and> length d = length dst"
  using assms by (simp add: scatterReverbWeights_def REVERB_CHANNELS_def length_foldl_update)

text \<open>The wet input of a pair leaves every other part of the pass alone.\<close>

lemma addWet_ok:
  assumes "cfgOk (enc_mixerConfig e)" "passOk bl e n k ps" "k < n" "peerOk (enc_mixerConfig e) peer"
    "length prevRev = mc_MaxNodes (enc_mixerConfig e) * mc_ChannelCount (enc_mixerConfig e)" "length wet = REVERB_CHANNELS"
    "applyReverb (enc_mixerConfig e)"
  shows "\<exists>sh m. addWet e prevRev peer wet ps = Some (ps \<lparr> ps_shared := sh, ps_rev := m \<rparr>) \<and>
    length sh = REVERB_CHANNELS * mc_MaxNodes (enc_mixerConfig e) \<and> idleOk (reverbCfg (enc_mixerConfig e)) m \<and>
    (packsWet e \<longrightarrow> packOk (reverbCfg (enc_mixerConfig e)) n (Suc k) m)"
proof -
  let ?cfg = "enc_mixerConfig e"
  have s: "enc_slot peer < mc_MaxNodes ?cfg" "length (enc_Input peer) = 240" using assms(4) by (auto simp: peerOk_def)
  have ps: "length (ps_shared ps) = REVERB_CHANNELS * mc_MaxNodes ?cfg" "idleOk (reverbCfg ?cfg) (ps_rev ps)"
    "packsWet e \<Longrightarrow> packOk (reverbCfg ?cfg) n k (ps_rev ps)" using assms(2) by (auto simp: passOk_def Let_def)
  show ?thesis
  proof (cases "enc_sharedInputs e")
    case True
    obtain d where "scatterReverbWeights (mc_MaxNodes ?cfg) (ps_shared ps) (enc_slot peer) wet = Some d" "length d = length (ps_shared ps)"
      using scatter_ok[OF s(1) ps(1) assms(6)] by blast
    then show ?thesis using True ps by (auto simp: addWet_def Let_def packsWet_def intro!: exI[of _ d] exI[of _ "ps_rev ps"])
  next
    case False
    then have pw: "packsWet e" using assms(7) by (simp add: packsWet_def)
    have "REVERB_CHANNELS \<le> mc_ChannelCount ?cfg" using channels_bound[OF assms(1)] by (simp add: REVERB_CHANNELS_def)
    then obtain v where v: "view prevRev (enc_slot peer * mc_ChannelCount ?cfg) REVERB_CHANNELS = Some v" "length v = REVERB_CHANNELS"
      using view_ok[OF s(1) assms(5)] by blast
    obtain m where "AddInput (ps_rev ps) (enc_Input peer) wet v = Some m" "packOk (reverbCfg ?cfg) n (Suc k) m"
      using AddInput_ok[OF ps(3)[OF pw] assms(3), of wet v "enc_Input peer"] assms(1,6) v(2) s(2)
      by (auto simp: reverbCfg_def cfgOk_def REVERB_CHANNELS_def)
    then show ?thesis using False v ps(1)
      by (auto simp: addWet_def Let_def packOk_def intro!: exI[of _ "ps_shared ps"] exI[of _ m])
  qed
qed

lemma leaseSlot_ok:
  assumes "delaysOk bl cfg d" "slot < mc_MaxNodes cfg"
  shows "\<exists>d'. leaseSlot d slot uid = Some d' \<and> delaysOk bl cfg d' \<and> dl_frameGen d' = dl_frameGen d"
  using assms by (auto simp: leaseSlot_def delaysOk_def modelOf_def nth_list_update)

lemma addDry_ok:
  assumes "math_ok mt" "cfgOk cfg" "delaysOk bl cfg d" "2 \<le> dl_frameGen d" "ps_delays ps = Some d" "ps_dryR ps = Some m"
    "packOk cfg n k (ps_dry ps)" "packOk cfg n k m" "k < n" "n \<le> mc_MaxNodes cfg" "peerOk cfg peer"
    "length wL = mc_ChannelCount cfg" "length pL = mc_ChannelCount cfg" "length wR = mc_ChannelCount cfg" "length pR = mc_ChannelCount cfg"
  shows "\<exists>d' m1 m2. addDry mt bl tbl peer lat dist' wL pL wR pR ps = Some (ps \<lparr> ps_dry := m1, ps_dryR := Some m2, ps_delays := Some d' \<rparr>) \<and>
    delaysOk bl cfg d' \<and> 2 \<le> dl_frameGen d' \<and> packOk cfg n (Suc k) m1 \<and> packOk cfg n (Suc k) m2"
proof -
  let ?slot = "enc_slot peer"
  have s: "?slot < mc_MaxNodes cfg" "length (enc_inputRing peer) = DelayRingHistory + 240 + 1" using assms(11) by (auto simp: peerOk_def)
  obtain pl pr l r d1 where d1: "pairEarDelays mt d ?slot lat = Some ((pl, pr, l, r), d1)" "inRing pl" "inRing pr" "inRing l" "inRing r"
    "delaysOk bl cfg d1" "dl_frameGen d1 = dl_frameGen d"
    using pairEarDelays_ok[OF assms(1,3,4) s(1), of lat] by blast
  obtain nfc where nfc: "nfcCoefficientsPair mt tbl (bl_EarOffsetM bl) dist' lat = Some nfc" using nfcCoefficientsPair_total[OF assms(1)] by blast
  note L = assms(7,9,10,12,13,2) and R = assms(8,9,10,14,15,2)
  show ?thesis
  proof (cases nfc)
    case None
    obtain m1 where m1: "AddInputDelayed (ps_dry ps) (enc_inputRing peer) pl l wL pL = Some m1" "packOk cfg n (Suc k) m1"
      using AddInputDelayed_ok[OF L d1(2,4) s(2)] by blast
    obtain m2 where m2: "AddInputDelayed m (enc_inputRing peer) pr r wR pR = Some m2" "packOk cfg n (Suc k) m2"
      using AddInputDelayed_ok[OF R d1(3,5) s(2)] by blast
    have "addDry mt bl tbl peer lat dist' wL pL wR pR ps = Some (ps \<lparr> ps_dry := m1, ps_dryR := Some m2, ps_delays := Some d1 \<rparr>)"
      using d1(1) nfc None m1(1) m2(1) assms(5,6) by (simp add: addDry_def Let_def)
    then show ?thesis using m1 m2 d1(6,7) assms(4) by - (rule exI[of _ d1], rule exI[of _ m1], rule exI[of _ m2], simp)
  next
    case (Some c)
    obtain cL cR where c: "c = (cL, cR)" by (cases c)
    define st where "st = (if dl_nfcGen d1 ! ?slot \<noteq> dl_frameGen d1 - 1 then (replicate 4 0, replicate 4 0) else dl_nfcState d1 ! ?slot)"
    have st: "length (fst st) = 4" "length (snd st) = 4" using d1(6) s(1) by (auto simp: st_def delaysOk_def)
    obtain m1 sL where m1: "AddInputDelayedNFC (ps_dry ps) (enc_inputRing peer) pl l cL (fst st) wL pL = Some (m1, sL)" "packOk cfg n (Suc k) m1" "length sL = 4"
      using AddInputDelayedNFC_ok[OF L d1(2,4) s(2) st(1)] by blast
    obtain m2 sR where m2: "AddInputDelayedNFC m (enc_inputRing peer) pr r cR (snd st) wR pR = Some (m2, sR)" "packOk cfg n (Suc k) m2" "length sR = 4"
      using AddInputDelayedNFC_ok[OF R d1(3,5) s(2) st(2)] by blast
    let ?d = "d1 \<lparr> dl_nfcGen := (dl_nfcGen d1)[?slot := dl_frameGen d1], dl_nfcState := (dl_nfcState d1)[?slot := (sL, sR)] \<rparr>"
    have "delaysOk bl cfg ?d" using d1(6) m1(3) m2(3) s(1) by (auto simp: delaysOk_def modelOf_def nth_list_update)
    moreover have "addDry mt bl tbl peer lat dist' wL pL wR pR ps = Some (ps \<lparr> ps_dry := m1, ps_dryR := Some m2, ps_delays := Some ?d \<rparr>)"
      unfolding addDry_def Let_def assms(5,6) bind.bind_lunit d1(1) case_prod_conv nfc Some option.case c st_def[symmetric] m1(1) m2(1) ..
    ultimately show ?thesis using m1 m2 d1(7) assms(4) by - (rule exI[of _ ?d], rule exI[of _ m1], rule exI[of _ m2], simp)
  qed
qed

lemma dualPeer_ok:
  assumes "math_ok mt" "cfgOk (enc_mixerConfig e)" "enc_dualBus e" "passOk bl e n k ps" "prevOk e prev" "k < n"
    "n \<le> mc_MaxNodes (enc_mixerConfig e)" "peerOk (enc_mixerConfig e) peer"
  shows "\<exists>ps'. dualPeer mt bl tbl rows e hf prev peer ps = Some ps' \<and> passOk bl e n (Suc k) ps'"
proof -
  let ?cfg = "enc_mixerConfig e" and ?i = "enc_slot peer * mc_ChannelCount (enc_mixerConfig e)"
  let ?cc = "mc_ChannelCount ?cfg" and ?mn = "mc_MaxNodes ?cfg"
  obtain pW pWR pRev where prev: "prev = (pW, pWR, pRev)" by (cases prev)
  have pl: "length pW = ?mn * ?cc" "length pWR = ?mn * ?cc" "length pRev = ?mn * ?cc" using assms(3,5) by (auto simp: prevOk_def prev Let_def)
  have slot: "enc_slot peer < ?mn" using assms(8) by (simp add: peerOk_def)
  have four: "REVERB_CHANNELS \<le> ?cc" using channels_bound[OF assms(2)] by (simp add: REVERB_CHANNELS_def)
  have P: "length (ps_weights ps) = ?mn * ?cc" "length (ps_weightsR ps) = ?mn * ?cc" "length (ps_reverb ps) = ?mn * ?cc" "length (ps_sh ps) = ?cc"
    "packOk ?cfg n k (ps_dry ps)" using assms(3,4) by (auto simp: passOk_def Let_def)
  obtain d m where dm: "ps_delays ps = Some d" "delaysOk bl ?cfg d" "2 \<le> dl_frameGen d" "ps_dryR ps = Some m" "packOk ?cfg n k m"
    using assms(3,4) by (auto simp: passOk_def Let_def)
  obtain w where w: "view (ps_weights ps) ?i ?cc = Some w" "length w = ?cc" using view_ok[OF slot P(1)] by blast
  obtain p where p: "view pW ?i ?cc = Some p" "length p = ?cc" using view_ok[OF slot pl(1)] by blast
  obtain wR where wR: "view (ps_weightsR ps) ?i ?cc = Some wR" "length wR = ?cc" using view_ok[OF slot P(2)] by blast
  obtain pR where pR: "view pWR ?i ?cc = Some pR" "length pR = ?cc" using view_ok[OF slot pl(2)] by blast
  obtain d1 where d1: "leaseSlot d (enc_slot peer) (enc_Uuid peer) = Some d1" "delaysOk bl ?cfg d1" "2 \<le> dl_frameGen d1"
    using leaseSlot_ok[OF dm(2) slot] dm(3) by metis
  define wet0 where "wet0 = (if applyReverb ?cfg then view (ps_reverb ps) ?i REVERB_CHANNELS else None)"
  have wet0: "(if applyReverb ?cfg then map_option Some (view (ps_reverb ps) ?i REVERB_CHANNELS) else Some None) = Some wet0"
    "\<forall>v. wet0 = Some v \<longrightarrow> length v = REVERB_CHANNELS" "wet0 \<noteq> None \<longleftrightarrow> applyReverb ?cfg"
    using view_ok[OF slot P(3) four] by (auto simp: wet0_def)
  obtain lat dd wL' wR' wet' sh' where b: "bilateralWeights mt bl rows e peer hf w wR wet0 (ps_sh ps) = Some (lat, dd, wL', wR', wet', sh')"
    "length wL' = ?cc" "length wR' = ?cc" "length sh' = ?cc" "wet' = None \<longleftrightarrow> wet0 = None" "\<forall>v. wet' = Some v \<longrightarrow> length v = REVERB_CHANNELS"
    using bilateralWeights_total[OF assms(2) w(2) wR(2) P(4) wet0(2), of mt bl rows peer hf] w(2) wR(2) P(4) by (elim exE conjE) (rule that; simp)
  define ps1 where "ps1 = ps \<lparr> ps_weights := copy_at (ps_weights ps) ?i wL', ps_weightsR := copy_at (ps_weightsR ps) ?i wR',
      ps_reverb := (case wet' of None \<Rightarrow> ps_reverb ps | Some v \<Rightarrow> copy_at (ps_reverb ps) ?i v), ps_sh := sh', ps_delays := Some d1 \<rparr>"
  have P1: "passOk bl e n k ps1" using assms(3,4) d1(2,3) b(2-4) b(6) four slot P
    by (auto simp: passOk_def Let_def ps1_def length_copy_row split: option.splits)
  obtain sh m' where wet: "(case wet' of None \<Rightarrow> Some ps1 | Some v \<Rightarrow> addWet e pRev peer v ps1) = Some (ps1 \<lparr> ps_shared := sh, ps_rev := m' \<rparr>)"
    "length sh = REVERB_CHANNELS * ?mn" "idleOk (reverbCfg ?cfg) m'" "packsWet e \<longrightarrow> packOk (reverbCfg ?cfg) n (Suc k) m'"
  proof (cases wet')
    case None
    then have "\<not> packsWet e" using b(5) wet0(3) by (auto simp: packsWet_def)
    then show ?thesis using None P1 by (intro that[where sh = "ps_shared ps1" and m' = "ps_rev ps1"]) (auto simp: passOk_def Let_def)
  next
    case (Some v)
    then have "applyReverb ?cfg" "length v = REVERB_CHANNELS" using b(5,6) wet0(3) by auto
    then show ?thesis using addWet_ok[OF assms(2) P1 assms(6,8) pl(3)] Some that by auto
  qed
  let ?ps2 = "ps1 \<lparr> ps_shared := sh, ps_rev := m' \<rparr>"
  have D: "ps_delays ?ps2 = Some d1" "ps_dryR ?ps2 = Some m" "packOk ?cfg n k (ps_dry ?ps2)" using dm P by (simp_all add: ps1_def)
  obtain d2 m1 m2 where a: "addDry mt bl tbl peer lat dd wL' p wR' pR ?ps2 = Some (?ps2 \<lparr> ps_dry := m1, ps_dryR := Some m2, ps_delays := Some d2 \<rparr>)"
    "delaysOk bl ?cfg d2" "2 \<le> dl_frameGen d2" "packOk ?cfg n (Suc k) m1" "packOk ?cfg n (Suc k) m2"
    using addDry_ok[OF assms(1,2) d1(2,3) D dm(5) assms(6-8) b(2) p(2) b(3) pR(2), of tbl lat dd] by (elim exE conjE) (rule that)
  have "dualPeer mt bl tbl rows e hf prev peer ps = Some (?ps2 \<lparr> ps_dry := m1, ps_dryR := Some m2, ps_delays := Some d2 \<rparr>)"
    unfolding dualPeer_def Let_def prev case_prod_conv w(1) p(1) wR(1) pR(1) dm(1) d1(1) wet0(1) bind.bind_lunit b(1) ps1_def[symmetric] wet(1) a(1) ..
  moreover have "passOk bl e n (Suc k) (?ps2 \<lparr> ps_dry := m1, ps_dryR := Some m2, ps_delays := Some d2 \<rparr>)"
    using P1 assms(3) wet(2-) a(2-) by (simp add: passOk_def Let_def)
  ultimately show ?thesis by blast
qed

lemma classicPeer_ok:
  assumes "cfgOk (enc_mixerConfig e)" "\<not> enc_dualBus e" "passOk bl e n k ps" "prevOk e prev" "k < n"
    "n \<le> mc_MaxNodes (enc_mixerConfig e)" "peerOk (enc_mixerConfig e) peer"
  shows "\<exists>ps'. classicPeer mt rows e hf prev peer ps = Some ps' \<and> passOk bl e n (Suc k) ps'"
proof -
  let ?cfg = "enc_mixerConfig e" and ?i = "enc_slot peer * mc_ChannelCount (enc_mixerConfig e)"
  let ?cc = "mc_ChannelCount ?cfg" and ?mn = "mc_MaxNodes ?cfg"
  obtain pW pWR pRev where prev: "prev = (pW, pWR, pRev)" by (cases prev)
  obtain pg pa where sc: "pairScalars rows e peer = (pg, pa)" by (cases "pairScalars rows e peer")
  have pl: "length pW = ?mn * ?cc" "length pRev = ?mn * ?cc" using assms(4) by (auto simp: prevOk_def prev Let_def)
  have slot: "enc_slot peer < ?mn" "length (enc_Input peer) = mc_FrameSize ?cfg" using assms(1,7) by (simp_all add: peerOk_def cfgOk_def)
  have four: "REVERB_CHANNELS \<le> ?cc" "0 < ?cc" using channels_bound[OF assms(1)] by (simp_all add: REVERB_CHANNELS_def)
  have P: "length (ps_weights ps) = ?mn * ?cc" "length (ps_reverb ps) = ?mn * ?cc" "length (ps_sh ps) = ?cc" "packOk ?cfg n k (ps_dry ps)"
    using assms(3) by (auto simp: passOk_def Let_def)
  obtain w where w: "view (ps_weights ps) ?i ?cc = Some w" "length w = ?cc" using view_ok[OF slot(1) P(1)] by blast
  obtain p where p: "view pW ?i ?cc = Some p" "length p = ?cc" using view_ok[OF slot(1) pl(1)] by blast
  show ?thesis
  proof (cases "applyReverb ?cfg")
    case True
    obtain v where v: "view (ps_reverb ps) ?i REVERB_CHANNELS = Some v" "length v = REVERB_CHANNELS" using view_ok[OF slot(1) P(2) four(1)] by blast
    obtain w' v' sh' where g: "GetWeightsForReverb mt w v (ps_sh ps) pg pa (ListenerPositionMeters e) (enc_PositionMeters peer)
        hf (mc_Order ?cfg) ?cc (enc_forward peer) (enc_size peer) (enc_directivity peer) = Some (w', v', sh')"
      "length w' = ?cc" "length v' = REVERB_CHANNELS" "length sh' = ?cc"
      using GetWeightsForReverb_total[OF assms(1) w(2) P(3) v(2)] w(2) P(3) v(2) by metis
    define ps1 where "ps1 = ps \<lparr> ps_weights := copy_at (ps_weights ps) ?i w', ps_reverb := copy_at (ps_reverb ps) ?i v', ps_sh := sh' \<rparr>"
    have P1: "passOk bl e n k ps1" using assms(2,3) g(2-) four slot P by (auto simp: passOk_def Let_def ps1_def length_copy_row)
    obtain sh m' where wet: "addWet e pRev peer v' ps1 = Some (ps1 \<lparr> ps_shared := sh, ps_rev := m' \<rparr>)"
      "length sh = REVERB_CHANNELS * ?mn" "idleOk (reverbCfg ?cfg) m'" "packsWet e \<longrightarrow> packOk (reverbCfg ?cfg) n (Suc k) m'"
      using addWet_ok[OF assms(1) P1 assms(5,7) pl(2) g(3) True] by (elim exE conjE) (rule that)
    let ?ps2 = "ps1 \<lparr> ps_shared := sh, ps_rev := m' \<rparr>"
    have dry: "packOk ?cfg n k (ps_dry ?ps2)" using P(4) by (simp add: ps1_def)
    obtain m where m: "AddInput (ps_dry ?ps2) (enc_Input peer) w' p = Some m" "packOk ?cfg n (Suc k) m"
      using AddInput_ok[OF dry assms(5) g(2) p(2) four(2) slot(2)] by blast
    have "classicPeer mt rows e hf prev peer ps = Some (?ps2 \<lparr> ps_dry := m \<rparr>)"
      unfolding classicPeer_def Let_def prev sc case_prod_conv w(1) p(1) v(1) g(1) bind.bind_lunit ps1_def[symmetric] wet(1) m(1)
      using True by simp
    moreover have "passOk bl e n (Suc k) (?ps2 \<lparr> ps_dry := m \<rparr>)" using P1 assms(2) wet(2-) m(2) by (simp add: passOk_def Let_def)
    ultimately show ?thesis by blast
  next
    case False
    obtain w' where g: "GetWeights mt w pg pa (ListenerPositionMeters e) (enc_PositionMeters peer)
        hf (mc_Order ?cfg) (enc_forward peer) (enc_size peer) (enc_directivity peer) = Some w'" "length w' = ?cc"
      using GetWeights_total[OF assms(1) w(2)] w(2) by metis
    obtain m where m: "AddInput (ps_dry ps) (enc_Input peer) w' p = Some m" "packOk ?cfg n (Suc k) m"
      using AddInput_ok[OF P(4) assms(5) g(2) p(2) four(2) slot(2)] by blast
    let ?ps = "ps \<lparr> ps_weights := copy_at (ps_weights ps) ?i w', ps_dry := m \<rparr>"
    have "classicPeer mt rows e hf prev peer ps = Some ?ps"
      unfolding classicPeer_def Let_def prev sc case_prod_conv w(1) p(1) g(1) bind.bind_lunit m(1) using False by simp
    moreover have "passOk bl e n (Suc k) ?ps" using assms(2,3) False m(2) g(2) slot(1) P(1)
      by (simp add: passOk_def Let_def packsWet_def length_copy_row)
    ultimately show ?thesis by blast
  qed
qed

lemma peerPass_ok:
  assumes step: "\<And>p k ps. p \<in> set peers \<Longrightarrow> passOk bl e n k ps \<Longrightarrow> k < n \<Longrightarrow> \<exists>ps'. f p ps = Some ps' \<and> passOk bl e n (Suc k) ps'"
    and "passOk bl e n k ps" "k + length peers = n"
  shows "\<exists>ps'. peerPass f peers ps = Some ps' \<and> passOk bl e n n ps'"
  using assms
proof (induction peers arbitrary: k ps)
  case (Cons p peers)
  obtain ps1 where s: "f p ps = Some ps1" "passOk bl e n (Suc k) ps1" using Cons.prems(1)[of p k ps] Cons.prems(2,3) by auto
  have "\<exists>ps'. peerPass f peers ps1 = Some ps' \<and> passOk bl e n n ps'"
    using Cons.prems(1,3) by (intro Cons.IH[OF _ s(2)]) auto
  then show ?case using s by simp
qed auto

section \<open>The encoder\<close>

definition buffersOk :: "MixerConfig \<Rightarrow> bool \<Rightarrow> Buffers \<Rightarrow> bool" where
  "buffersOk cfg dual b \<longleftrightarrow> (let cells = mc_MaxNodes cfg * mc_ChannelCount cfg; sh = REVERB_CHANNELS * mc_MaxNodes cfg in
     length (eb_weightsA b) = cells \<and> length (eb_weightsB b) = cells \<and>
     (dual \<longrightarrow> length (eb_weightsRA b) = cells \<and> length (eb_weightsRB b) = cells) \<and>
     length (eb_reverbWeightsA b) = cells \<and> length (eb_reverbWeightsB b) = cells \<and>
     length (eb_reverbSharedA b) = sh \<and> length (eb_reverbSharedB b) = sh \<and>
     length (eb_sphericalHarmonics b) = mc_ChannelCount cfg \<and> length (eb_ReverbOutput b) = mc_FrameSize cfg * REVERB_CHANNELS \<and>
     length (eb_Output b) = (if dual then busSamples cfg * 2 else busSamples cfg))"

definition encOk :: "Bilateral \<Rightarrow> Encoder \<Rightarrow> bool" where
  "encOk bl e \<longleftrightarrow> cfgOk (enc_mixerConfig e) \<and> buffersOk (enc_mixerConfig e) (enc_dualBus e) (enc_buffers e) \<and>
     (if enc_dualBus e then \<exists>d. enc_delays e = Some d \<and> delaysOk bl (enc_mixerConfig e) d else enc_delays e = None) \<and>
     (\<exists>B\<ge>0. reverbOk B (enc_reverb e)) \<and> rv_frameSize (enc_reverb e) = 240 \<and>
     length (enc_Input e) = 240 \<and> length (enc_inputRing e) = DelayRingHistory + 240 + 1"

definition mixersOk :: "MixerConfig \<Rightarrow> bool \<Rightarrow> workerMixers \<Rightarrow> bool" where
  "mixersOk cfg dual ms \<longleftrightarrow> (case ms of (dry, dryR, rvb) \<Rightarrow> idleOk cfg dry \<and> idleOk (reverbCfg cfg) rvb \<and>
     (dual \<longrightarrow> dryR \<noteq> None) \<and> (\<forall>m. dryR = Some m \<longrightarrow> idleOk cfg m))"

lemma newEncoder_ok:
  assumes "cfgOk cfg" "newEncoder mt bl uid hasInput gain att cfg slot bilateral = Inr e"
  shows "encOk bl e"
proof -
  obtain delays where e: "e = mkEncoder mt uid hasInput gain att cfg slot delays" and d: "\<forall>d. delays = Some d \<longrightarrow> delaysOk bl cfg d"
    using assms(2) initDelayModel_ok by (auto simp: newEncoder_def split: if_splits sum.splits)
  have r0: "reverbOk 0 (applyPreset (mc_ReverbPreset cfg) (NewSimpleReverb 240 48000))"
    "rv_frameSize (applyPreset (mc_ReverbPreset cfg) (NewSimpleReverb 240 48000)) = 240"
    using presets_ok[OF new_reverb_ok(1)[of 0 240]] new_reverb_ok(2)[of 0 240] by simp_all
  have dec: "reverbOk 0 r \<Longrightarrow> reverbOk 0 (EnableDecorrelator mt r)" "rv_frameSize (EnableDecorrelator mt r) = rv_frameSize r" for r
    by (simp_all add: reverbOk_def paramsOk_def EnableDecorrelator_def decorrOk_def)
  have fs: "mc_FrameSize cfg = 240" using assms(1) by (simp add: cfgOk_def)
  have r: "reverbOk 0 (newEncoderReverb mt cfg b)" "rv_frameSize (newEncoderReverb mt cfg b) = 240" for b
    using r0 dec by (simp_all add: newEncoderReverb_def Let_def fs)
  have "buffersOk cfg b (newBuffers cfg b)" for b by (simp add: buffersOk_def newBuffers_def Let_def busSamples_def)
  then show ?thesis using assms(1) d r fs
    by (auto simp: encOk_def e mkEncoder_def newInputRing_def intro!: exI[of _ 0])
qed

lemma mixBuses_ok:
  assumes "sgemm_ok gm" "encOk bl e" "passOk bl e n n ps" "0 < n" "n \<le> mc_MaxNodes (enc_mixerConfig e)"
    "length shared = mc_MaxNodes (enc_mixerConfig e) * 240"
    "length s1 = REVERB_CHANNELS * mc_MaxNodes (enc_mixerConfig e)" "length s2 = REVERB_CHANNELS * mc_MaxNodes (enc_mixerConfig e)"
  shows "\<exists>out rev ms. mixBuses gm shared e (s1, s2) ps =
      Some (e \<lparr> enc_buffers := (enc_buffers e) \<lparr> eb_Output := out, eb_ReverbOutput := rev \<rparr> \<rparr>, ms) \<and>
    length out = length (eb_Output (enc_buffers e)) \<and> length rev = length (eb_ReverbOutput (enc_buffers e)) \<and>
    mixersOk (enc_mixerConfig e) (enc_dualBus e) ms"
proof -
  let ?cfg = "enc_mixerConfig e" and ?b = "enc_buffers e"
  let ?n = "busSamples ?cfg" and ?out = "eb_Output (enc_buffers e)"
  have cfg: "cfgOk ?cfg" "mc_FrameSize ?cfg = 240" "0 < mc_ChannelCount ?cfg" using assms(2) channels_bound[of ?cfg] by (auto simp: encOk_def cfgOk_def)
  have B: "length (eb_ReverbOutput ?b) = REVERB_CHANNELS * 240" "length ?out = (if enc_dualBus e then ?n * 2 else ?n)"
    using assms(2) cfg by (auto simp: encOk_def buffersOk_def Let_def)
  have nb: "?n = mc_ChannelCount ?cfg * mc_FrameSize ?cfg" by (simp add: busSamples_def)
  have P: "packOk ?cfg n n (ps_dry ps)" "idleOk (reverbCfg ?cfg) (ps_rev ps)" using assms(3) by (auto simp: passOk_def Let_def)
  have lL: "length (take ?n ?out) = mc_ChannelCount ?cfg * mc_FrameSize ?cfg" using B nb by auto
  obtain outL dry where L: "Mix gm (ps_dry ps) (take ?n ?out) = Some (outL, dry)" "length outL = ?n" "idleOk ?cfg dry"
    using Mix_total[OF P(1) assms(1) cfg(3) assms(4,5) lL] lL nb by auto
  have R: "\<exists>outR dryR. (if enc_dualBus e then do { m \<leftarrow> ps_dryR ps; (o', m) \<leftarrow> Mix gm m (drop ?n ?out); Some (o', Some m) }
      else Some (drop ?n ?out, ps_dryR ps)) = Some (outR, dryR) \<and> length outR = length ?out - ?n \<and>
      (enc_dualBus e \<longrightarrow> dryR \<noteq> None) \<and> (\<forall>m. dryR = Some m \<longrightarrow> idleOk ?cfg m)"
  proof (cases "enc_dualBus e")
    case True
    then obtain m where m: "ps_dryR ps = Some m" "packOk ?cfg n n m" using assms(3) by (auto simp: passOk_def Let_def)
    have "length (drop ?n ?out) = mc_ChannelCount ?cfg * mc_FrameSize ?cfg" using B nb True by auto
    then show ?thesis using Mix_total[OF m(2) assms(1) cfg(3) assms(4,5), of "drop ?n ?out"] True m(1) by auto
  next
    case False
    then show ?thesis using assms(3) by (auto simp: passOk_def Let_def)
  qed
  have W: "\<exists>rev m. (if applyReverb ?cfg then
       (if enc_sharedInputs e then map_option (\<lambda>o'. (o', ps_rev ps)) (EncodeFade gm (mc_MaxNodes ?cfg) REVERB_CHANNELS (mc_MaxNodes ?cfg) (mc_FrameSize ?cfg)
          shared (fst (s1, s2)) (snd (s1, s2)) (eb_ReverbOutput ?b))
        else Mix gm (ps_rev ps) (eb_ReverbOutput ?b))
      else Some (eb_ReverbOutput ?b, ps_rev ps)) = Some (rev, m) \<and> length rev = length (eb_ReverbOutput ?b) \<and> idleOk (reverbCfg ?cfg) m"
  proof (cases "packsWet e")
    case True
    then have "packOk (reverbCfg ?cfg) n n (ps_rev ps)" using assms(3) by (auto simp: passOk_def Let_def)
    from Mix_total[OF this assms(1) _ assms(4), of "eb_ReverbOutput ?b"] show ?thesis using True B(1) assms(5) cfg(2)
      by (auto simp: packsWet_def reverbCfg_def REVERB_CHANNELS_def)
  next
    case False
    have "checkShapes (mc_MaxNodes ?cfg) REVERB_CHANNELS (mc_MaxNodes ?cfg) 240 shared s1 s2 (REVERB_CHANNELS * 240) (REVERB_CHANNELS * 240)"
      using assms(6-8) by (simp add: checkShapes_def REVERB_CHANNELS_def)
    then show ?thesis using False P(2) B(1) cfg(2) assms(1)
      by (auto simp: packsWet_def EncodeFade_def fadeCombine_def length_storeAt sgemm_length)
  qed
  from R obtain outR dryR where R: "(if enc_dualBus e then do { m \<leftarrow> ps_dryR ps; (o', m) \<leftarrow> Mix gm m (drop ?n ?out); Some (o', Some m) }
      else Some (drop ?n ?out, ps_dryR ps)) = Some (outR, dryR)" "length outR = length ?out - ?n"
      "enc_dualBus e \<longrightarrow> dryR \<noteq> None" "\<forall>m. dryR = Some m \<longrightarrow> idleOk ?cfg m" by (elim exE conjE) (rule that)
  from W obtain rev m where W: "(if applyReverb ?cfg then
       (if enc_sharedInputs e then map_option (\<lambda>o'. (o', ps_rev ps)) (EncodeFade gm (mc_MaxNodes ?cfg) REVERB_CHANNELS (mc_MaxNodes ?cfg) (mc_FrameSize ?cfg)
          shared (fst (s1, s2)) (snd (s1, s2)) (eb_ReverbOutput ?b))
        else Mix gm (ps_rev ps) (eb_ReverbOutput ?b))
      else Some (eb_ReverbOutput ?b, ps_rev ps)) = Some (rev, m)" "length rev = length (eb_ReverbOutput ?b)" "idleOk (reverbCfg ?cfg) m"
    by (elim exE conjE) (rule that)
  have "mixBuses gm shared e (s1, s2) ps =
      Some (e \<lparr> enc_buffers := ?b \<lparr> eb_Output := outL @ outR, eb_ReverbOutput := rev \<rparr> \<rparr>, (dry, dryR, m))"
    unfolding mixBuses_def Let_def L(1) bind.bind_lunit case_prod_conv R(1) W(1) ..
  moreover have "length (outL @ outR) = length ?out" using L(2) R(2) B(2) by auto
  moreover have "mixersOk ?cfg (enc_dualBus e) (dry, dryR, m)" using L(3) R(3,4) W(3) by (simp add: mixersOk_def)
  ultimately show ?thesis using W(2) by blast
qed

lemma ClearOutput_ok: "encOk bl e \<Longrightarrow> encOk bl (ClearOutput e)"
  by (auto simp: encOk_def ClearOutput_def Let_def buffersOk_def clear_slice_def)

lemma storeCurrent_ok:
  assumes "buffersOk cfg dual b" "length w = mc_MaxNodes cfg * mc_ChannelCount cfg" "dual \<longrightarrow> length wR = mc_MaxNodes cfg * mc_ChannelCount cfg"
    "length r = mc_MaxNodes cfg * mc_ChannelCount cfg" "length s = REVERB_CHANNELS * mc_MaxNodes cfg"
  shows "buffersOk cfg dual (storeCurrent b (w, wR, r, s))"
  using assms by (simp add: storeCurrent_def buffersOk_def Let_def)

text \<open>Peers with distinct slots fit the packed inputs.\<close>

lemma peers_fit:
  assumes "distinct (map enc_slot peers)" "\<forall>p\<in>set peers. peerOk cfg p"
  shows "length (filter P peers) \<le> mc_MaxNodes cfg"
proof -
  have "length (filter P peers) \<le> length (map enc_slot peers)" by simp
  also have "\<dots> = card (set (map enc_slot peers))" using assms(1) by (metis distinct_card)
  also have "\<dots> \<le> card {..<mc_MaxNodes cfg}" using assms(2) by (intro card_mono) (auto simp: peerOk_def)
  finally show ?thesis by simp
qed

text \<open>The generation counter of the delay state advances on every frame.\<close>

definition advance :: "Encoder \<Rightarrow> Encoder" where
  "advance e = (if enc_dualBus e then e \<lparr> enc_delays := map_option (\<lambda>d. d \<lparr> dl_frameGen := dl_frameGen d + 1 \<rparr>) (enc_delays e) \<rparr> else e)"

lemma advance_ok:
  assumes "encOk bl e"
  shows "encOk bl (advance e)" "enc_dualBus (advance e) \<longrightarrow> (\<exists>d. enc_delays (advance e) = Some d \<and> delaysOk bl (enc_mixerConfig e) d \<and> 2 \<le> dl_frameGen d)"
  using assms by (auto simp: encOk_def advance_def delaysOk_def modelOf_def)

lemma advance_frame [simp]:
  "enc_mixerConfig (advance e) = enc_mixerConfig e" "enc_dualBus (advance e) = enc_dualBus e" "enc_buffers (advance e) = enc_buffers e"
  "enc_sharedInputs (advance e) = enc_sharedInputs e"
  by (simp_all add: advance_def)

text \<open>What the pass starts from: the cleared current buffers, the previous frame's, the reset mixers.\<close>

definition startPass :: "Encoder \<Rightarrow> Buffers \<Rightarrow> workerMixers \<Rightarrow> Pass" where
  "startPass e b ms = (case currentOf b of (w, wR, r, s) \<Rightarrow> case ms of (dry, dryR, rvb) \<Rightarrow>
     \<lparr> ps_weights = clear_slice w, ps_weightsR = clear_slice wR, ps_reverb = clear_slice r,
       ps_shared = (if enc_sharedInputs e \<and> applyReverb (enc_mixerConfig e) then clear_slice s else s),
       ps_sh = eb_sphericalHarmonics b, ps_delays = enc_delays e, ps_dry = dry, ps_dryR = dryR, ps_rev = rvb \<rparr>)"

definition toggled :: "Encoder \<Rightarrow> Buffers" where
  "toggled e = (enc_buffers e) \<lparr> eb_bufferACurrent := \<not> eb_bufferACurrent (enc_buffers e) \<rparr>"

definition resetMixers :: "bool \<Rightarrow> nat \<Rightarrow> workerMixers \<Rightarrow> workerMixers option" where
  "resetMixers dual n ms = (case ms of (dry, dryR, rvb) \<Rightarrow>
     do { dry \<leftarrow> Reset dry n; rvb \<leftarrow> Reset rvb n;
          dryR \<leftarrow> (if dual then do { m \<leftarrow> dryR; m \<leftarrow> Reset m n; Some (Some m) } else Some dryR); Some (dry, dryR, rvb) })"

definition peerStep :: "Math \<Rightarrow> Bilateral \<Rightarrow> nfcTable \<Rightarrow> (nat \<Rightarrow> nat \<Rightarrow> rat \<times> rat) \<Rightarrow> Encoder \<Rightarrow> previous \<Rightarrow> Encoder \<Rightarrow> Pass \<Rightarrow> Pass option" where
  "peerStep mt bl tbl rows e prev = (if enc_dualBus e then dualPeer mt bl tbl rows e (headFrameOf e) prev else classicPeer mt rows e (headFrameOf e) prev)"

definition storePass :: "Encoder \<Rightarrow> Pass \<Rightarrow> Encoder" where
  "storePass e ps = e \<lparr> enc_buffers := (storeCurrent (toggled e) (ps_weights ps, ps_weightsR ps, ps_reverb ps, ps_shared ps)) \<lparr> eb_sphericalHarmonics := ps_sh ps \<rparr>,
     enc_delays := ps_delays ps \<rparr>"

lemma EncodePeers_run:
  assumes "filteredPeers (advance e) peers \<noteq> []" "previousOf (toggled (advance e)) = (pW, pWR, pR, pS)"
  shows "EncodePeers mt bl gm tbl rows shared e peers ms =
    do { ms \<leftarrow> resetMixers (enc_dualBus e) (length (filteredPeers (advance e) peers)) ms;
         ps \<leftarrow> peerPass (peerStep mt bl tbl rows (advance e) (pW, pWR, pR)) (filteredPeers (advance e) peers) (startPass (advance e) (toggled (advance e)) ms);
         mixBuses gm shared (storePass (advance e) ps) (ps_shared ps, pS) ps }"
proof -
  have ne: "peers \<noteq> []" "length (filteredPeers (advance e) peers) \<noteq> 0" using assms(1) by (auto simp: filteredPeers_def)
  obtain w wR r s where c: "currentOf (toggled (advance e)) = (w, wR, r, s)" by (cases "currentOf (toggled (advance e))")
  obtain dry dryR rv where m: "ms = (dry, dryR, rv)" by (cases ms)
  note assms(2)[unfolded toggled_def] c[unfolded toggled_def]
  then show ?thesis using ne(2)
    unfolding EncodePeers_def advance_def[symmetric] Let_def if_not_P[OF ne(1)]
    by (simp add: m c resetMixers_def startPass_def peerStep_def storePass_def toggled_def if_distrib cong: if_cong)
qed

lemma filtered_advance [simp]: "filteredPeers (advance e) peers = filteredPeers e peers"
proof -
  have "shouldIncludePeer (advance e) p = shouldIncludePeer e p" for p by (simp add: shouldIncludePeer_def advance_def)
  then show ?thesis unfolding filteredPeers_def by (intro filter_cong) auto
qed

lemma EncodePeers_silent:
  assumes "filteredPeers e peers = []"
  shows "\<exists>b. EncodePeers mt bl gm tbl rows shared e peers ms = Some (ClearOutput ((advance e) \<lparr> enc_buffers := b \<rparr>), ms) \<and>
    (peers = [] \<longrightarrow> b = enc_buffers e) \<and> (peers \<noteq> [] \<longrightarrow> set (fst (currentOf b)) \<subseteq> {0}) \<and> (buffersOk cfg dual (enc_buffers e) \<longrightarrow> buffersOk cfg dual b)"
proof -
  have f: "filteredPeers (advance e) peers = []" using assms by simp
  show ?thesis
  proof (cases "peers = []")
    case True
    then show ?thesis unfolding EncodePeers_def advance_def[symmetric] Let_def by (intro exI[of _ "enc_buffers e"]) (simp add: advance_def)
  next
    case False
    obtain w wR r s where c: "currentOf (toggled (advance e)) = (w, wR, r, s)" by (cases "currentOf (toggled (advance e))")
    obtain pW pWR pR pS where p: "previousOf (toggled (advance e)) = (pW, pWR, pR, pS)" by (cases "previousOf (toggled (advance e))")
    obtain dry dryR rv where m: "ms = (dry, dryR, rv)" by (cases ms)
    let ?s = "if enc_sharedInputs e \<and> applyReverb (enc_mixerConfig e) then clear_slice s else s"
    let ?b = "storeCurrent (toggled e) (clear_slice w, clear_slice wR, clear_slice r, ?s)"
    have "EncodePeers mt bl gm tbl rows shared e peers ms = Some (ClearOutput ((advance e) \<lparr> enc_buffers := ?b \<rparr>), ms)"
      using f c[unfolded toggled_def] p[unfolded toggled_def] unfolding EncodePeers_def advance_def[symmetric] Let_def if_not_P[OF False]
      by (simp add: m toggled_def)
    moreover have "buffersOk cfg dual ?b" if "buffersOk cfg dual (enc_buffers e)"
      using that c by (intro storeCurrent_ok) (auto simp: toggled_def currentOf_def buffersOk_def Let_def clear_slice_def split: if_splits)
    moreover have "set (fst (currentOf ?b)) \<subseteq> {0}" by (auto simp: storeCurrent_def currentOf_def toggled_def clear_slice_def)
    ultimately show ?thesis using False by blast
  qed
qed

lemma EncodePeers_ok:
  assumes "math_ok mt" "sgemm_ok gm" "encOk bl e" "length shared = mc_MaxNodes (enc_mixerConfig e) * 240"
    "\<forall>p\<in>set peers. peerOk (enc_mixerConfig e) p" "distinct (map enc_slot peers)" "mixersOk (enc_mixerConfig e) (enc_dualBus e) ms"
  shows "\<exists>e' ms'. EncodePeers mt bl gm tbl rows shared e peers ms = Some (e', ms') \<and> encOk bl e' \<and>
    enc_mixerConfig e' = enc_mixerConfig e \<and> mixersOk (enc_mixerConfig e) (enc_dualBus e) ms'"
proof (cases "filteredPeers e peers = []")
  case True
  obtain b where b: "EncodePeers mt bl gm tbl rows shared e peers ms = Some (ClearOutput ((advance e) \<lparr> enc_buffers := b \<rparr>), ms)"
    "buffersOk (enc_mixerConfig e) (enc_dualBus e) (enc_buffers e) \<longrightarrow> buffersOk (enc_mixerConfig e) (enc_dualBus e) b"
    using EncodePeers_silent[OF True] by blast
  have "encOk bl ((advance e) \<lparr> enc_buffers := b \<rparr>)" using advance_ok(1)[OF assms(3)] b(2) by (auto simp: encOk_def split: if_splits)
  from ClearOutput_ok[OF this] show ?thesis using b(1) assms(7) by (simp add: ClearOutput_def Let_def)
next
  case False
  let ?e = "advance e" and ?cfg = "enc_mixerConfig e"
  let ?b = "toggled ?e" and ?in = "filteredPeers ?e peers"
  have n: "0 < length ?in" "length ?in \<le> mc_MaxNodes ?cfg" using False peers_fit[OF assms(6,5), of "shouldIncludePeer (advance e)"] by (simp, simp add: filteredPeers_def)
  have sub: "set ?in \<subseteq> set peers" by (auto simp: filteredPeers_def)
  have E: "encOk bl ?e" "cfgOk ?cfg" by (rule advance_ok(1)[OF assms(3)]) (use assms(3) in \<open>simp add: encOk_def\<close>)
  have B: "buffersOk ?cfg (enc_dualBus e) ?b" using E(1) by (simp add: encOk_def toggled_def buffersOk_def Let_def)
  obtain pW pWR pR pS where p: "previousOf ?b = (pW, pWR, pR, pS)" by (cases "previousOf ?b")
  have prev: "prevOk ?e (pW, pWR, pR)" "length pS = REVERB_CHANNELS * mc_MaxNodes ?cfg"
    using p B by (auto simp: prevOk_def Let_def previousOf_def buffersOk_def split: if_splits)
  obtain dry dryR rv where m: "ms = (dry, dryR, rv)" by (cases ms)
  have M: "idleOk ?cfg dry" "idleOk (reverbCfg ?cfg) rv" "enc_dualBus e \<longrightarrow> (\<exists>r. dryR = Some r \<and> idleOk ?cfg r)" "\<forall>r. dryR = Some r \<longrightarrow> idleOk ?cfg r"
    using assms(7) by (auto simp: mixersOk_def m)
  obtain d1 where d1: "Reset dry (length ?in) = Some d1" "packOk ?cfg (length ?in) 0 d1" using Reset_ok[OF M(1) n(2)] by blast
  obtain r1 where r1: "Reset rv (length ?in) = Some r1" "packOk (reverbCfg ?cfg) (length ?in) 0 r1"
    using Reset_ok[OF M(2), of "length ?in"] n(2) by (auto simp: reverbCfg_def)
  have "\<exists>dR. (if enc_dualBus e then do { x \<leftarrow> dryR; x \<leftarrow> Reset x (length ?in); Some (Some x) } else Some dryR) = Some dR \<and>
      (if enc_dualBus e then \<exists>x. dR = Some x \<and> packOk ?cfg (length ?in) 0 x else \<forall>x. dR = Some x \<longrightarrow> idleOk ?cfg x)"
    using M(3,4) Reset_ok[OF _ n(2)] by (cases "enc_dualBus e") fastforce+
  then obtain dR where dR: "(if enc_dualBus e then do { x \<leftarrow> dryR; x \<leftarrow> Reset x (length ?in); Some (Some x) } else Some dryR) = Some dR"
      "if enc_dualBus e then \<exists>x. dR = Some x \<and> packOk ?cfg (length ?in) 0 x else \<forall>x. dR = Some x \<longrightarrow> idleOk ?cfg x" by (elim exE conjE)
  have reset: "resetMixers (enc_dualBus e) (length ?in) ms = Some (d1, dR, r1)"
    unfolding resetMixers_def m case_prod_conv d1(1) r1(1) bind.bind_lunit dR(1) ..
  have start: "passOk bl ?e (length ?in) 0 (startPass ?e ?b (d1, dR, r1))"
    using B d1(2) r1(2) dR(2) advance_ok(2)[OF assms(3)] E(1)[unfolded encOk_def]
    by (auto simp: passOk_def Let_def startPass_def currentOf_def buffersOk_def clear_slice_def packOk_def split: if_splits)
  have step: "\<exists>ps'. peerStep mt bl tbl rows ?e (pW, pWR, pR) q ps = Some ps' \<and> passOk bl ?e (length ?in) (Suc k) ps'"
    if "q \<in> set ?in" "passOk bl ?e (length ?in) k ps" "k < length ?in" for q k ps
  proof -
    have q: "peerOk (enc_mixerConfig ?e) q" using that(1) sub assms(5) by auto
    have c: "cfgOk (enc_mixerConfig ?e)" "length ?in \<le> mc_MaxNodes (enc_mixerConfig ?e)" using E(2) n(2) by simp_all
    show ?thesis using dualPeer_ok[OF assms(1) c(1) _ that(2) prev(1) that(3) c(2) q] classicPeer_ok[OF c(1) _ that(2) prev(1) that(3) c(2) q]
      by (cases "enc_dualBus ?e") (simp_all add: peerStep_def)
  qed
  obtain ps where ps: "peerPass (peerStep mt bl tbl rows ?e (pW, pWR, pR)) ?in (startPass ?e ?b (d1, dR, r1)) = Some ps" "passOk bl ?e (length ?in) (length ?in) ps"
    using peerPass_ok[where f = "peerStep mt bl tbl rows ?e (pW, pWR, pR)" and peers = ?in, OF step start] by auto
  have S: "encOk bl (storePass ?e ps)" "enc_mixerConfig (storePass ?e ps) = ?cfg" "enc_dualBus (storePass ?e ps) = enc_dualBus e"
    "passOk bl (storePass ?e ps) (length ?in) (length ?in) ps" "length (ps_shared ps) = REVERB_CHANNELS * mc_MaxNodes ?cfg"
  proof -
    have "buffersOk ?cfg (enc_dualBus e) ((storeCurrent ?b (ps_weights ps, ps_weightsR ps, ps_reverb ps, ps_shared ps)) \<lparr> eb_sphericalHarmonics := ps_sh ps \<rparr>)"
      using storeCurrent_ok[OF B, of "ps_weights ps" "ps_weightsR ps" "ps_reverb ps" "ps_shared ps"] ps(2)
      by (auto simp: passOk_def Let_def buffersOk_def)
    then show "encOk bl (storePass ?e ps)" using E(1) ps(2) by (auto simp: encOk_def storePass_def passOk_def Let_def split: if_splits)
  qed (use ps(2) in \<open>auto simp: storePass_def passOk_def Let_def packsWet_def split: if_splits\<close>)
  obtain out rvo ms' where mix: "mixBuses gm shared (storePass ?e ps) (ps_shared ps, pS) ps =
      Some ((storePass ?e ps) \<lparr> enc_buffers := (enc_buffers (storePass ?e ps)) \<lparr> eb_Output := out, eb_ReverbOutput := rvo \<rparr> \<rparr>, ms')"
    "length out = length (eb_Output (enc_buffers (storePass ?e ps)))" "length rvo = length (eb_ReverbOutput (enc_buffers (storePass ?e ps)))"
    "mixersOk ?cfg (enc_dualBus e) ms'"
    using mixBuses_ok[OF assms(2) S(1,4) n(1), unfolded S(2,3), OF n(2) assms(4) S(5) prev(2)] by (elim exE conjE) (rule that)
  have fin: "encOk bl ((storePass ?e ps) \<lparr> enc_buffers := (enc_buffers (storePass ?e ps)) \<lparr> eb_Output := out, eb_ReverbOutput := rvo \<rparr> \<rparr>)"
    using S(1) mix(2,3) by (auto simp: encOk_def buffersOk_def Let_def)
  have "filteredPeers ?e peers \<noteq> []" using n(1) by auto
  then show ?thesis using EncodePeers_run[OF _ p] reset ps(1) mix(1,4) fin S(2) by simp
qed

lemma bounded_some: "\<exists>B'. B \<le> B' \<and> bounded B' (xs :: rat list)"
proof -
  have "0 \<le> sum_list (map abs xs)" by (intro sum_list_nonneg) auto
  moreover have "v \<in> set xs \<Longrightarrow> \<bar>v\<bar> \<le> sum_list (map abs xs)" for v by (intro member_le_sum_list) auto
  ultimately show ?thesis by (intro exI[of _ "max B (sum_list (map abs xs))"]) (auto simp: bounded_def le_max_iff_disj)
qed

lemma PostMix_ok:
  assumes "encOk bl e"
  shows "\<exists>e'. PostMix e = Some e' \<and> encOk bl e'"
proof (cases "applyReverb (enc_mixerConfig e)")
  case False
  then show ?thesis using assms by (simp add: PostMix_def Let_def)
next
  case True
  let ?cfg = "enc_mixerConfig e" and ?b = "enc_buffers e"
  let ?premix = "eb_ReverbOutput ?b" and ?n = "busSamples ?cfg"
  obtain B where B: "0 \<le> B" "reverbOk B (enc_reverb e)" "rv_frameSize (enc_reverb e) = 240" using assms by (auto simp: encOk_def)
  obtain C where C: "B \<le> C" "bounded C (take 240 ?premix)" using bounded_some by blast
  have cfg: "mc_FrameSize ?cfg = 240" "9 \<le> mc_ChannelCount ?cfg" using assms channels_bound[of ?cfg] by (auto simp: encOk_def cfgOk_def)
  have L: "length ?premix = 240 * REVERB_CHANNELS" "length (eb_Output ?b) = (if enc_dualBus e then ?n * 2 else ?n)" "240 * REVERB_CHANNELS \<le> ?n"
    using assms cfg by (auto simp: encOk_def buffersOk_def Let_def busSamples_def REVERB_CHANNELS_def)
  obtain r where r: "processWet (enc_reverb e) ?premix = Some r" "reverbOk C r" "length (rv_workBuffer r) = 240" "rv_frameSize r = 240"
    using processWet_ok[of C "enc_reverb e" ?premix] reverbOk_mono[OF C(1) B(2)] B C L(1) by (auto simp: REVERB_CHANNELS_def)
  have mix: "\<exists>o'. mixIntoWet r ?premix wet out = Some o' \<and> length o' = length out" if "240 \<le> length wet" "?n \<le> length out" for wet out
    using that L(1,3) r(4) by (simp add: mixIntoWet_def Let_def mult.commute)
  have mL: "\<exists>o'. mixInto r ?premix out = Some o' \<and> length o' = length out" if "?n \<le> length out" for out
    using mix[of "rv_workBuffer r" out] that r(3) by (simp add: mixInto_def)
  have mR: "\<exists>o'. mixIntoDecorrelated r ?premix out = Some o' \<and> length o' = length out" if "?n \<le> length out" for out
    using mL[OF that] mix[of _ out] that r(2,4) by (auto simp: mixIntoDecorrelated_def reverbOk_def decorrOk_def split: option.splits)
  have enc: "encOk bl (e \<lparr> enc_reverb := r, enc_buffers := ?b \<lparr> eb_Output := out \<rparr> \<rparr>)" if "length out = length (eb_Output ?b)" for out
    using assms that r(2,4) B(1) C(1) by (auto simp: encOk_def buffersOk_def Let_def intro!: exI[of _ C])
  show ?thesis
  proof (cases "enc_dualBus e")
    case True
    obtain l where l: "mixInto r ?premix (take ?n (eb_Output ?b)) = Some l" "length l = ?n" using mL[of "take ?n (eb_Output ?b)"] L(2) True by auto
    obtain rt where rt: "mixIntoDecorrelated r ?premix (drop ?n (eb_Output ?b)) = Some rt" "length rt = ?n"
      using mR[of "drop ?n (eb_Output ?b)"] L(2) True by auto
    show ?thesis using enc[of "l @ rt"] l rt L(2) True r(1) \<open>applyReverb ?cfg\<close> by (simp add: PostMix_def Let_def)
  next
    case False
    obtain o' where "mixInto r ?premix (eb_Output ?b) = Some o'" "length o' = length (eb_Output ?b)" using mL[of "eb_Output ?b"] L(2) False by auto
    then show ?thesis using enc[of o'] False r(1) \<open>applyReverb ?cfg\<close> by (simp add: PostMix_def Let_def Apply_def)
  qed
qed

section \<open>Properties\<close>

text \<open>C30. Rendering a listener never indexes outside a buffer and never finds a nil delay state: from a
  well-formed encoder, with peers in distinct slots below \<^verbatim>\<open>MaxNodes\<close> and the worker's mixers, the pass
  over the peers and the reverb fold both return, for every position, rotation, size, directivity,
  gain and reverb preset, and leave a well-formed encoder and reusable mixers.\<close>

theorem EncodePeers_never_panics:
  assumes "math_ok mt" "sgemm_ok gm" "encOk bl e" "length shared = mc_MaxNodes (enc_mixerConfig e) * 240"
    "\<forall>p\<in>set peers. peerOk (enc_mixerConfig e) p" "distinct (map enc_slot peers)" "mixersOk (enc_mixerConfig e) (enc_dualBus e) ms"
  shows "\<exists>e1 ms' e2. EncodePeers mt bl gm tbl rows shared e peers ms = Some (e1, ms') \<and> PostMix e1 = Some e2 \<and>
    encOk bl e2 \<and> mixersOk (enc_mixerConfig e) (enc_dualBus e) ms'"
  using EncodePeers_ok[OF assms, of tbl rows] PostMix_ok by metis

lemma demo_encOk: "encOk demo_bilateral (demo_encoder uid slot)"
proof -
  have "newEncoder demo_math demo_bilateral uid True 1 2 demo_mixerConfig slot True = Inr (demo_encoder uid slot)"
    by (simp add: newEncoder_def demo_delays demo_encoder_def)
  then show ?thesis by (rule newEncoder_ok[rotated]) (simp add: cfgOk_def demo_mixerConfig_def)
qed

definition demo_mixers :: workerMixers where
  "demo_mixers = (NewAmbiMixer demo_mixerConfig, Some (NewAmbiMixer demo_mixerConfig), NewAmbiMixer (reverbCfg demo_mixerConfig))"

lemma demo_pass:
  "enc_mixerConfig (demo_encoder u s) = demo_mixerConfig" "enc_dualBus (demo_encoder u s)" "enc_slot (demo_encoder u s) = s"
  "s < 2 \<Longrightarrow> peerOk demo_mixerConfig (demo_encoder u s)" "mixersOk demo_mixerConfig True demo_mixers"
  by (simp_all add: demo_encoder_def mkEncoder_def peerOk_def demo_mixerConfig_def newInputRing_def mixersOk_def demo_mixers_def new_mixer_idle)

theorem EncodePeers_never_panics_witness:
  "\<exists>e1 ms' e2. EncodePeers demo_math demo_bilateral demo_sgemm (\<lambda>_ _ _ _. 0) (\<lambda>_ _. (1, 1)) (replicate 480 0) (demo_encoder 1 0)
     [demo_encoder 2 1, demo_encoder 1 0] demo_mixers = Some (e1, ms') \<and> PostMix e1 = Some e2 \<and> encOk demo_bilateral e2"
proof -
  have "length (replicate 480 (0::rat)) = mc_MaxNodes (enc_mixerConfig (demo_encoder 1 0)) * 240" by (simp add: demo_pass demo_mixerConfig_def)
  then show ?thesis
    using EncodePeers_never_panics[OF demo_math_ok demo_sgemm_ok demo_encOk, of "replicate 480 0" 1 0 "[demo_encoder 2 1, demo_encoder 1 0]"
      demo_mixers "\<lambda>_ _ _ _. 0" "\<lambda>_ _. (1, 1)"] by (simp add: demo_pass) metis
qed

lemma ClearOutput_weights: "previousOf (toggled (ClearOutput e)) = currentOf (enc_buffers e)"
  by (simp add: ClearOutput_def Let_def toggled_def previousOf_def currentOf_def)

text \<open>A gap in which a listener has no peer at all does not clear the weights, although the comment on
  \<^verbatim>\<open>pairEarDelays\<close> says that a slot which was not packed in the last frame fades in from zero: after the early
  return the next frame fades from the weights of the last frame that had peers, however old. A gap
  in which every peer is excluded does leave zero weights.\<close>

theorem empty_gap_keeps_weights:
  assumes "filteredPeers e peers = []" "EncodePeers mt bl gm tbl rows shared e peers ms = Some (e1, ms1)"
  shows "if peers = [] then previousOf (toggled e1) = currentOf (enc_buffers e) else set (fst (previousOf (toggled e1))) \<subseteq> {0}"
proof -
  obtain b where b: "EncodePeers mt bl gm tbl rows shared e peers ms = Some (ClearOutput ((advance e) \<lparr> enc_buffers := b \<rparr>), ms)"
    "peers = [] \<longrightarrow> b = enc_buffers e" "peers \<noteq> [] \<longrightarrow> set (fst (currentOf b)) \<subseteq> {0}" using EncodePeers_silent[OF assms(1)] by blast
  then have "previousOf (toggled e1) = currentOf b" using assms(2) by (simp add: ClearOutput_weights)
  then show ?thesis using b(2,3) by simp
qed

theorem empty_gap_keeps_weights_witness:
  "\<exists>e1. EncodePeers demo_math demo_bilateral demo_sgemm (\<lambda>_ _ _ _. 0) (\<lambda>_ _. (1, 1)) [] (demo_encoder 1 0) [] demo_mixers = Some (e1, demo_mixers) \<and>
     previousOf (toggled e1) = currentOf (enc_buffers (demo_encoder 1 0))"
proof -
  have f: "filteredPeers (demo_encoder 1 0) [] = []" by (simp add: filteredPeers_def)
  obtain e1 where e: "EncodePeers demo_math demo_bilateral demo_sgemm (\<lambda>_ _ _ _. 0) (\<lambda>_ _. (1, 1)) [] (demo_encoder 1 0) [] demo_mixers = Some (e1, demo_mixers)"
    using EncodePeers_silent[OF f] by blast
  from empty_gap_keeps_weights[OF f e] show ?thesis using e by auto
qed

text \<open>A slot that is leased to another source does not inherit the departed source's delay ramp or
  near-field filter tail: in the frame that first renders the newcomer the read delays start at
  their target and the filter state is taken as zero.\<close>

theorem leased_slot_starts_fresh:
  assumes "delaysOk bl cfg d" "2 \<le> dl_frameGen d" "slot < mc_MaxNodes cfg" "dl_slotOwner d ! slot \<noteq> Some uid"
    "leaseSlot d slot uid = Some d1" "pairEarDelays mt d1 slot lat = Some ((prevL, prevR, dL, dR), d2)"
  shows "prevL = dL \<and> prevR = dR \<and> dl_nfcGen d2 ! slot \<noteq> dl_frameGen d2 - 1 \<and> dl_slotOwner d2 ! slot = Some uid"
proof -
  have l: "slot < length (dl_slotGen d)" "slot < length (dl_nfcGen d)" "slot < length (dl_slotOwner d)" using assms(1,3) by (auto simp: delaysOk_def)
  then have "d1 = d \<lparr> dl_slotOwner := (dl_slotOwner d)[slot := Some uid], dl_slotGen := (dl_slotGen d)[slot := 0], dl_nfcGen := (dl_nfcGen d)[slot := 0] \<rparr>"
    using assms(4,5) by (simp add: leaseSlot_def)
  then show ?thesis using assms(2,6) l by (auto simp: pairEarDelays_def Let_def split: if_splits)
qed

theorem leased_slot_starts_fresh_witness:
  "\<exists>d d1 d2 pL pR dL dR. dl_slotOwner d ! 0 = Some 7 \<and> leaseSlot d 0 8 = Some d1 \<and> pairEarDelays demo_math d1 0 0 = Some ((pL, pR, dL, dR), d2) \<and>
     pL = dL \<and> pR = dR \<and> dl_nfcGen d2 ! 0 \<noteq> dl_frameGen d2 - 1"
proof -
  let ?m = "demo_delays demo_mixerConfig"
  let ?d = "?m \<lparr> dl_slotOwner := (dl_slotOwner ?m)[0 := Some 7], dl_frameGen := 5 \<rparr>"
  have ok: "delaysOk demo_bilateral demo_mixerConfig ?m" using initDelayModel_ok[OF demo_delays] .
  then have d: "delaysOk demo_bilateral demo_mixerConfig ?d" "2 \<le> dl_frameGen ?d" "0 < mc_MaxNodes demo_mixerConfig" "dl_slotOwner ?d ! 0 = Some 7"
    by (auto simp: delaysOk_def modelOf_def demo_mixerConfig_def)
  obtain d1 where l: "leaseSlot ?d 0 8 = Some d1" "delaysOk demo_bilateral demo_mixerConfig d1" "dl_frameGen d1 = dl_frameGen ?d"
    using leaseSlot_ok[OF d(1,3)] by blast
  obtain pL pR dL dR d2 where p: "pairEarDelays demo_math d1 0 0 = Some ((pL, pR, dL, dR), d2)"
    using pairEarDelays_ok[OF demo_math_ok l(2) _ d(3), of 0] l(3) by auto
  have "dl_slotOwner ?d ! 0 \<noteq> Some 8" using d(4) by simp
  from leased_slot_starts_fresh[OF d(1-3) this l(1) p] show ?thesis using d(4) l(1) p by blast
qed

text \<open>A source at the listener's own position breaks the unit-vector convention: the fallback direction
  \<^verbatim>\<open>(0, 1, 0)\<close> is divided by the clamped distance of \<open>1e-10\<close>, so the lateral sine handed to the delay model and
  the direction given to the wet harmonics have magnitude \<open>1e10\<close> where every other pair has at most 1.\<close>

theorem coincident_pair_direction:
  assumes "math_ok mt" "\<not> enc_headFrameSource peer" "enc_PositionMeters peer = ListenerPositionMeters e"
    "bilateralWeights mt bl rows e peer None wL wR wet sh = Some (lat, d, wL', wR', wet', sh')"
  shows "lat = f32 (div64 1 tiny) \<and> 10 ^ 9 < lat"
proof -
  have z: "sub64 x x = 0" for x by (simp add: sub64_def)
  have s0: "sqrt64 mt 0 = 0" using assms(1) by (simp add: math_ok_def)
  have t: "0 < tiny" "10 ^ 9 < f32 (div64 1 tiny)" by code_simp+
  have r: "pairRel mt e peer = (\<lparr> pos_X = 0, pos_Y = 1, pos_Z = 0 \<rparr>, tiny)"
    using assms(2,3) s0 t(1) by (simp add: pairRel_def Let_def TrigCartesianRelativePosition_def z norm64_def dot3_def mul64_def add64_def)
  obtain dg wg where g: "reverbSplit tiny (enc_size peer) = (dg, wg)" by (cases "reverbSplit tiny (enc_size peer)")
  show ?thesis using assms(4) t(2) r g
    by (auto simp: bilateralWeights_def scaleDown_def Let_def Option.bind_eq_Some_conv split: prod.splits option.splits)
qed

theorem coincident_pair_direction_witness:
  "\<exists>lat d wL wR wet sh. bilateralWeights demo_math demo_bilateral (\<lambda>_ _. (1, 1)) (demo_encoder 1 0) (demo_encoder 2 1) None
      (replicate 9 0) (replicate 9 0) (Some (replicate 4 0)) (replicate 9 0) = Some (lat, d, wL, wR, wet, sh) \<and> 10 ^ 9 < lat"
proof -
  obtain lat d wL wR wet sh where r: "bilateralWeights demo_math demo_bilateral (\<lambda>_ _. (1, 1)) (demo_encoder 1 0) (demo_encoder 2 1) None
      (replicate 9 0) (replicate 9 0) (Some (replicate 4 0)) (replicate 9 0) = Some (lat, d, wL, wR, wet, sh)"
    using bilateralWeights_total[of "demo_encoder 1 0" "replicate 9 0" "replicate 9 0" "replicate 9 0" "Some (replicate 4 0)"
        demo_math demo_bilateral "\<lambda>_ _. (1, 1)" "demo_encoder 2 1" None]
    unfolding demo_pass(1) by (simp add: demo_mixerConfig_def cfgOk_def REVERB_CHANNELS_def) blast
  have "\<not> enc_headFrameSource (demo_encoder 2 1)" "enc_PositionMeters (demo_encoder 2 1) = ListenerPositionMeters (demo_encoder 1 0)"
    by (simp_all add: demo_encoder_def mkEncoder_def ListenerPositionMeters_def)
  from coincident_pair_direction[OF demo_math_ok this r] show ?thesis using r by blast
qed

end
