(* ===== verification/Channels.thy ===== *)
theory Channels
  imports Encoder_Safety
begin

text \<open>
  Channel audibility and the pair record (\<^verbatim>\<open>src/engine/engine/channels.go\<close>, \<^verbatim>\<open>params.go\<close> and the entity
  type of \<^verbatim>\<open>mixer.go\<close>): which sources a listener hears, at which composed gain and attenuation
  exponent, and the personal mute and solo tables. \<open>pairSpec\<close> is the rule of the base profile the
  comments of \<^verbatim>\<open>channels.go\<close> state; \<open>resolvePair\<close> is the code's single pass over the channel lists.
\<close>

section \<open>Parameters\<close>

record RenderParams =
  rp_Gain :: rat
  rp_Attenuation :: rat
  rp_Size :: rat
  rp_Directivity :: rat
  rp_SourceChannels :: "string list"
  rp_SinkChannels :: "string list"

definition DefaultRenderParams :: RenderParams where
  "DefaultRenderParams = \<lparr> rp_Gain = 1, rp_Attenuation = 2, rp_Size = 0, rp_Directivity = 0,
     rp_SourceChannels = [''main''], rp_SinkChannels = [''main''] \<rparr>"

record ChannelParams =
  cp_Muted :: bool
  cp_Gain :: rat
  cp_Attenuation :: "rat option"

definition DefaultChannelParams :: ChannelParams where
  "DefaultChannelParams = \<lparr> cp_Muted = False, cp_Gain = 1, cp_Attenuation = None \<rparr>"

section \<open>Entities\<close>

text \<open>Sources, sinks and groups are heap objects; an entity holds references to them. A source reference
  carries the lockstep group and seat it was built with. The peers of a listener are named by entity.\<close>

record SourceRef =
  sr_handle :: nat
  sr_group :: "(nat \<times> nat) option"

record entity =
  ent_id :: string
  ent_uid :: nat
  ent_slot :: nat
  ent_enc :: Encoder
  ent_src :: "SourceRef option"
  ent_sink :: "nat option"
  ent_params :: RenderParams
  ent_ambiEnc :: "Encoder option"
  ent_ambiSinks :: "(int \<times> nat) list"
  ent_peers :: "string list"

definition listening :: "entity \<Rightarrow> bool" where
  "listening e \<longleftrightarrow> ent_sink e \<noteq> None \<or> ent_ambiEnc e \<noteq> None"

section \<open>Personal mutes and solos\<close>

type_synonym personal = "string \<Rightarrow> string set option"

definition setPersonal :: "personal \<Rightarrow> string \<Rightarrow> string \<Rightarrow> bool \<Rightarrow> personal" where
  "setPersonal m owner other on =
    (if on then m(owner \<mapsto> insert other (case m owner of None \<Rightarrow> {} | Some s \<Rightarrow> s))
     else let s = (case m owner of None \<Rightarrow> {} | Some s \<Rightarrow> s) - {other}
          in if s = {} then m(owner := None) else m(owner \<mapsto> s))"

text \<open>A lookup in a Go map of maps: a missing row is empty.\<close>

definition row :: "personal \<Rightarrow> string \<Rightarrow> string set" where
  "row m owner = (case m owner of None \<Rightarrow> {} | Some s \<Rightarrow> s)"

section \<open>Resolving a pair\<close>

text \<open>The accumulator of the loop over the source's channels: shared, winning gain, winning
  attenuation (\<^verbatim>\<open>haveAtt\<close>/\<^verbatim>\<open>winAtt\<close> as an option).\<close>

definition pairStep ::
  "(string \<Rightarrow> ChannelParams option) \<Rightarrow> string list \<Rightarrow> bool \<times> rat \<times> rat option \<Rightarrow> string \<Rightarrow> bool \<times> rat \<times> rat option" where
  "pairStep table sinkChannels acc c = (case acc of (shared, winGain, winAtt) \<Rightarrow>
     (case table c of
        Some cp \<Rightarrow>
          if cp_Muted cp then acc
          else if c \<in> set sinkChannels then
            (True, if cp_Gain cp > winGain then cp_Gain cp else winGain,
             (case cp_Attenuation cp of
                None \<Rightarrow> winAtt
              | Some a \<Rightarrow> (case winAtt of None \<Rightarrow> Some a | Some w \<Rightarrow> if a < w then Some a else Some w)))
          else acc
      | None \<Rightarrow> if c \<in> set sinkChannels then (True, if 1 > winGain then 1 else winGain, winAtt) else acc))"

definition resolvePair ::
  "(string \<Rightarrow> ChannelParams option) \<Rightarrow> personal \<Rightarrow> personal \<Rightarrow> entity \<Rightarrow> entity \<Rightarrow> bool \<times> rat \<times> rat" where
  "resolvePair table mutes solos s k =
    (case foldl (pairStep table (rp_SinkChannels (ent_params k))) (False, - 1, None) (rp_SourceChannels (ent_params s)) of
       (shared, winGain, winAtt) \<Rightarrow>
       if \<not> shared then (False, 0, 0)
       else if row solos (ent_id k) \<noteq> {} \<and> ent_id s \<notin> row solos (ent_id k) then (False, 0, 0)
       else if row solos (ent_id k) = {} \<and> (ent_id s \<in> row mutes (ent_id k) \<or> ent_id k \<in> row mutes (ent_id s))
       then (False, 0, 0)
       else (True, mul32 (enc_gainFactor (ent_enc s)) (f32 winGain),
             (case winAtt of Some a \<Rightarrow> div64 a 2 | None \<Rightarrow> enc_peerAttenuationExponent (ent_enc s))))"

section \<open>The rule\<close>

definition sharedChannels :: "(string \<Rightarrow> ChannelParams option) \<Rightarrow> entity \<Rightarrow> entity \<Rightarrow> string set" where
  "sharedChannels table s k = {c. c \<in> set (rp_SourceChannels (ent_params s)) \<and> c \<in> set (rp_SinkChannels (ent_params k)) \<and>
     (case table c of None \<Rightarrow> True | Some cp \<Rightarrow> \<not> cp_Muted cp)}"

definition channelGain :: "(string \<Rightarrow> ChannelParams option) \<Rightarrow> string \<Rightarrow> rat" where
  "channelGain table c = (case table c of None \<Rightarrow> 1 | Some cp \<Rightarrow> cp_Gain cp)"

definition channelAtts :: "(string \<Rightarrow> ChannelParams option) \<Rightarrow> string set \<Rightarrow> rat set" where
  "channelAtts table C = {a. \<exists>c\<in>C. \<exists>cp. table c = Some cp \<and> cp_Attenuation cp = Some a}"

definition personallyAudible :: "personal \<Rightarrow> personal \<Rightarrow> string \<Rightarrow> string \<Rightarrow> bool" where
  "personallyAudible mutes solos s k \<longleftrightarrow>
     (if row solos k \<noteq> {} then s \<in> row solos k else s \<notin> row mutes k \<and> k \<notin> row mutes s)"

text \<open>What the loop has seen after a list of channels.\<close>

definition loopSpec :: "(string \<Rightarrow> ChannelParams option) \<Rightarrow> string set \<Rightarrow> bool \<times> rat \<times> rat option \<Rightarrow> bool" where
  "loopSpec table C acc = (case acc of (shared, g, a) \<Rightarrow>
     shared = (C \<noteq> {}) \<and> g = Max (insert (- 1) (channelGain table ` C)) \<and>
     a = (if channelAtts table C = {} then None else Some (Min (channelAtts table C))))"

lemma finite_channelAtts: "finite C \<Longrightarrow> finite (channelAtts table C)"
proof -
  have "channelAtts table C = (\<Union>c\<in>C. set_option (Option.bind (table c) cp_Attenuation))"
    by (auto simp: channelAtts_def Option.bind_eq_Some_conv)
  then show "finite C \<Longrightarrow> ?thesis" by simp
qed

lemma channelAtts_insert:
  "channelAtts table (insert c C) =
    (case table c of Some cp \<Rightarrow> (case cp_Attenuation cp of Some a \<Rightarrow> insert a (channelAtts table C) | None \<Rightarrow> channelAtts table C)
     | None \<Rightarrow> channelAtts table C)"
  by (auto simp: channelAtts_def split: option.splits)

lemma Max_insert_pick: "finite A \<Longrightarrow> A \<noteq> {} \<Longrightarrow> Max (insert x A) = (if x > Max A then x else Max (A :: rat set))"
proof -
  assume "finite A" "A \<noteq> {}"
  then have "Max (insert x A) = max x (Max A)" by (rule Max_insert)
  also have "max x y = (if x > y then x else y)" for y :: rat by (auto simp: max_def)
  finally show ?thesis .
qed

lemma Min_insert_pick: "finite A \<Longrightarrow> A \<noteq> {} \<Longrightarrow> Min (insert x A) = (if x < Min A then x else Min (A :: rat set))"
proof -
  assume "finite A" "A \<noteq> {}"
  then have "Min (insert x A) = min x (Min A)" by (rule Min_insert)
  also have "min x y = (if x < y then x else y)" for y :: rat by (auto simp: min_def)
  finally show ?thesis .
qed

lemma pairStep_loopSpec:
  assumes "loopSpec table C acc" "finite C"
  shows "loopSpec table (if c \<in> set ks \<and> (case table c of None \<Rightarrow> True | Some cp \<Rightarrow> \<not> cp_Muted cp) then insert c C else C)
    (pairStep table ks acc c)"
proof -
  obtain sh g a where acc: "acc = (sh, g, a)" by (metis prod_cases3)
  have fin: "finite (insert (- 1) (channelGain table ` C))" "finite (channelAtts table C)"
    using assms(2) finite_channelAtts by auto
  have swap: "insert (- 1) (insert x (channelGain table ` C)) = insert x (insert (- 1) (channelGain table ` C))" for x
    by auto
  have g: "g = Max (insert (- 1) (channelGain table ` C))" using assms(1) by (simp add: loopSpec_def acc)
  have M: "Max (insert (- 1) (channelGain table ` insert c C)) = (if channelGain table c > g then channelGain table c else g)"
    unfolding image_insert swap g by (rule Max_insert_pick) (use fin in auto)
  have a: "a = (if channelAtts table C = {} then None else Some (Min (channelAtts table C)))"
    using assms(1) by (simp add: loopSpec_def acc)
  have m: "channelAtts table C \<noteq> {} \<Longrightarrow> Min (insert x (channelAtts table C)) = (if x < Min (channelAtts table C) then x else Min (channelAtts table C))" for x
    using fin(2) by (rule Min_insert_pick)
  show ?thesis
  proof (cases "table c")
    case None
    then show ?thesis using assms(1) M a
      by (auto simp: loopSpec_def pairStep_def acc channelAtts_insert channelGain_def)
  next
    case (Some cp)
    then show ?thesis using assms(1) M a m
      by (auto simp: loopSpec_def pairStep_def acc channelAtts_insert channelGain_def split: option.splits)
  qed
qed

lemma pair_loop:
  assumes "loopSpec table C acc" "finite C"
  shows "loopSpec table (C \<union> {c \<in> set cs. c \<in> set ks \<and> (case table c of None \<Rightarrow> True | Some cp \<Rightarrow> \<not> cp_Muted cp)})
    (foldl (pairStep table ks) acc cs)"
  using assms
proof (induction cs arbitrary: C acc)
  case (Cons c cs)
  let ?ok = "\<lambda>c. c \<in> set ks \<and> (case table c of None \<Rightarrow> True | Some cp \<Rightarrow> \<not> cp_Muted cp)"
  have "loopSpec table ((if ?ok c then insert c C else C) \<union> {c \<in> set cs. ?ok c}) (foldl (pairStep table ks) (pairStep table ks acc c) cs)"
    using Cons.prems by (intro Cons.IH pairStep_loopSpec) auto
  moreover have "(if ?ok c then insert c C else C) \<union> {c \<in> set cs. ?ok c} = C \<union> {x \<in> set (c # cs). ?ok x}" by auto
  ultimately show ?case by simp
qed simp

lemma resolvePair_cases:
  fixes table mutes solos s k
  defines "C \<equiv> sharedChannels table s k"
  shows "resolvePair table mutes solos s k =
    (if C = {} \<or> \<not> personallyAudible mutes solos (ent_id s) (ent_id k) then (False, 0, 0)
     else (True, mul32 (enc_gainFactor (ent_enc s)) (f32 (Max (insert (- 1) (channelGain table ` C)))),
           if channelAtts table C = {} then enc_peerAttenuationExponent (ent_enc s)
           else div64 (Min (channelAtts table C)) 2))"
proof -
  let ?ks = "rp_SinkChannels (ent_params k)"
  have "loopSpec table {} (False, - 1, None)" by (simp add: loopSpec_def channelAtts_def)
  from pair_loop[OF this finite.emptyI, of "rp_SourceChannels (ent_params s)" ?ks]
  have l: "loopSpec table C (foldl (pairStep table ?ks) (False, - 1, None) (rp_SourceChannels (ent_params s)))"
    by (simp add: C_def sharedChannels_def)
  obtain sh g a where f: "foldl (pairStep table ?ks) (False, - 1, None) (rp_SourceChannels (ent_params s)) = (sh, g, a)"
    by (metis prod_cases3)
  show ?thesis using l unfolding resolvePair_def f
    by (auto simp: loopSpec_def personallyAudible_def)
qed

section \<open>Properties\<close>

text \<open>C21. A source is audible to a listener exactly when they share a channel that is not muted and the
  personal rules allow it: a listener with solos hears exactly those; otherwise a mute on either
  side silences the pair.\<close>

theorem resolvePair_audible:
  "fst (resolvePair table mutes solos s k) \<longleftrightarrow>
    sharedChannels table s k \<noteq> {} \<and> personallyAudible mutes solos (ent_id s) (ent_id k)"
  by (simp add: resolvePair_cases)

text \<open>The scalars of an audible pair: over the shared unmuted channels the highest gain wins (a
  channel nobody configured counts 1) and multiplies the source's gain factor; the lowest
  attenuation that is set replaces the source's own, and none set leaves it.\<close>

theorem resolvePair_scalars:
  assumes "resolvePair table mutes solos s k = (True, g, a)" "\<forall>c cp. table c = Some cp \<longrightarrow> 0 \<le> cp_Gain cp"
  shows "g = mul32 (enc_gainFactor (ent_enc s)) (f32 (Max (channelGain table ` sharedChannels table s k))) \<and>
    a = (if channelAtts table (sharedChannels table s k) = {} then enc_peerAttenuationExponent (ent_enc s)
         else div64 (Min (channelAtts table (sharedChannels table s k))) 2)"
proof -
  let ?C = "sharedChannels table s k"
  have ne: "?C \<noteq> {}" using assms(1) by (auto simp: resolvePair_cases split: if_splits)
  have "finite ?C" unfolding sharedChannels_def by (rule finite_subset[of _ "set (rp_SourceChannels (ent_params s))"]) auto
  then have fin: "finite (channelGain table ` ?C)" by simp
  have "0 \<le> x" if "x \<in> channelGain table ` ?C" for x
    using that assms(2) by (auto simp: channelGain_def split: option.splits)
  then have "0 \<le> Max (channelGain table ` ?C)" using ne Max_in[OF fin] by blast
  then have "Max (insert (- 1) (channelGain table ` ?C)) = Max (channelGain table ` ?C)"
    using ne Max_insert_pick[OF fin, of "- 1"] by auto
  then show ?thesis using assms(1) by (auto simp: resolvePair_cases split: if_splits)
qed

definition demo_ent :: "string \<Rightarrow> nat \<Rightarrow> entity" where
  "demo_ent i sl = \<lparr> ent_id = i, ent_uid = sl, ent_slot = sl, ent_enc = mkEncoder demo_math sl True 1 2 demo_mixerConfig sl None,
     ent_src = None, ent_sink = None, ent_params = DefaultRenderParams, ent_ambiEnc = None,
     ent_ambiSinks = [], ent_peers = [] \<rparr>"

theorem resolvePair_scalars_witness:
  "let table = Map.empty(''main'' \<mapsto> \<lparr> cp_Muted = False, cp_Gain = 2, cp_Attenuation = Some 1 \<rparr>);
       s = demo_ent ''a'' 0; k = demo_ent ''b'' 1;
       (ok, g, a) = resolvePair table Map.empty Map.empty s k
   in ok \<and> g = mul32 (enc_gainFactor (ent_enc s)) 2 \<and> a = 1 / 2"
proof -
  let ?t = "Map.empty(''main'' \<mapsto> \<lparr> cp_Muted = False, cp_Gain = 2, cp_Attenuation = Some 1 \<rparr>)"
  let ?s = "demo_ent ''a'' 0" and ?k = "demo_ent ''b'' 1"
  obtain ok g a where r: "resolvePair ?t Map.empty Map.empty ?s ?k = (ok, g, a)" by (metis prod_cases3)
  have C: "sharedChannels ?t ?s ?k = {''main''}"
    by (auto simp: sharedChannels_def demo_ent_def DefaultRenderParams_def)
  have ok: ok using resolvePair_audible[of ?t Map.empty Map.empty ?s ?k] r C
    by (simp add: personallyAudible_def row_def)
  have A: "channelAtts ?t {''main''} = {1}" by (auto simp: channelAtts_def)
  have f: "f32 2 = 2" "div64 1 2 = 1 / 2" by code_simp+
  have "\<forall>c cp. ?t c = Some cp \<longrightarrow> 0 \<le> cp_Gain cp" by auto
  moreover have t: "ok = True" using ok by simp
  ultimately have "g = mul32 (enc_gainFactor (ent_enc ?s)) 2 \<and> a = 1 / 2"
    using resolvePair_scalars[OF r[unfolded t]] unfolding C A by (simp add: channelGain_def f)
  then show ?thesis unfolding Let_def r t by simp
qed

text \<open>A personal entry is exactly what was last set for it; other entries are unchanged, and an empty
  row is removed.\<close>

theorem setPersonal_lookup:
  "row (setPersonal m owner other on) o' =
     (if o' = owner then (if on then insert other (row m owner) else row m owner - {other}) else row m o') \<and>
   ((\<forall>r. m r \<noteq> Some {}) \<longrightarrow> (\<forall>r. setPersonal m owner other on r \<noteq> Some {}))"
  by (auto simp: setPersonal_def row_def Let_def split: option.splits)

theorem setPersonal_lookup_witness:
  "let m = setPersonal (setPersonal Map.empty ''a'' ''b'' True) ''a'' ''b'' False in m ''a'' = None \<and> row m ''a'' = {}"
  using setPersonal_lookup[of "setPersonal Map.empty ''a'' ''b'' True" "''a''" "''b''" False "''a''"]
  by (simp add: setPersonal_def row_def)

end
