(* ===== verification/Sources.thy ===== *)
theory Sources
  imports Jitter_Stream Pose_Store Go_Math
begin

text \<open>
  The audio-in half of an entity (\<^verbatim>\<open>src/engine/engine/source.go\<close>, \<^verbatim>\<open>group.go\<close>, and the input decoder of
  \<^verbatim>\<open>src/engine/inout/decoder.go\<close> and \<^verbatim>\<open>plc.go\<close>): packets are decoded into the jitter buffer and poses
  are pinned to the stream position behind them. libopus is a parameter (\<open>Codec\<close>), as is Go's
  \<^verbatim>\<open>math\<close> package (\<open>Math\<close>). \<open>None\<close> is a Go panic: a nil
  jitter buffer or a slice bound exceeded.
\<close>

definition FrameSize :: nat where "FrameSize = 240"
definition SampleRateHz :: int where "SampleRateHz = 48000"

section \<open>External code\<close>

text \<open>\<open>cd_new\<close> is \<^verbatim>\<open>opus.NewDecoder\<close> for a channel count (\<open>None\<close> its error), \<open>cd_decode\<close> is \<^verbatim>\<open>DecodeFloat32\<close> of a packet (interleaved samples, or an error), \<open>cd_plc\<close> is
  \<^verbatim>\<open>DecodePLCFloat32\<close> into a buffer of the given number of samples.\<close>

type_synonym byte = "8 word"

record 'd Codec =
  cd_new :: "int \<Rightarrow> 'd option"
  cd_decode :: "'d \<Rightarrow> byte list \<Rightarrow> rat list option \<times> 'd"
  cd_plc :: "'d \<Rightarrow> nat \<Rightarrow> rat list option \<times> 'd"

section \<open>The input decoder\<close>

record 'd OpusInputDecoder =
  od_state :: 'd
  od_channels :: nat

text \<open>Construction panics when libopus refuses the channel count. \<^verbatim>\<open>monoBuffer\<close> holds 60 ms at 48 kHz.\<close>

definition monoCap :: nat where "monoCap = 2880"

definition NewOpusInputDecoder :: "'d Codec \<Rightarrow> int \<Rightarrow> 'd OpusInputDecoder option" where
  "NewOpusInputDecoder cd channels =
    map_option (\<lambda>st. \<lparr> od_state = st, od_channels = nat channels \<rparr>) (cd_new cd channels)"

fun downmix :: "rat list \<Rightarrow> rat list" where
  "downmix (l # r # xs) = add32 l r # downmix xs"
| "downmix xs = []"

definition od_Decode :: "'d Codec \<Rightarrow> 'd OpusInputDecoder \<Rightarrow> byte list \<Rightarrow> rat list option \<times> 'd OpusInputDecoder" where
  "od_Decode cd d pkt = (case cd_decode cd (od_state d) pkt of
     (None, st) \<Rightarrow> (None, d \<lparr> od_state := st \<rparr>)
   | (Some pcm, st) \<Rightarrow> (Some (if od_channels d = 1 then pcm else downmix pcm), d \<lparr> od_state := st \<rparr>))"

text \<open>\<^verbatim>\<open>ConcealFloat32\<close> slices its buffer to the requested length, which panics beyond its capacity.\<close>

definition od_Conceal :: "'d Codec \<Rightarrow> 'd OpusInputDecoder \<Rightarrow> nat \<Rightarrow> (rat list \<times> 'd OpusInputDecoder) option" where
  "od_Conceal cd d samples =
    (if samples > monoCap then None
     else let n = (if od_channels d = 1 then samples else 2 * samples);
              (r, st) = cd_plc cd (od_state d) n;
              buf = (case r of Some b \<Rightarrow> b | None \<Rightarrow> replicate n 0)
          in Some (if od_channels d = 1 then buf else downmix buf, d \<lparr> od_state := st \<rparr>))"

section \<open>Sources\<close>

text \<open>\<open>src_tone\<close> is the phase and step of a test tone; \<open>src_group\<close> the group handle and seat of a
  lockstep member, whose jitter buffer is nil.\<close>

record 'd Source =
  src_id :: string
  src_jitter :: "JitterBuffer option"
  src_decoder :: "'d OpusInputDecoder option"
  src_tone :: "(rat \<times> rat) option"
  src_raw :: bool
  src_rawScratch :: "rat list"
  src_ring :: poseRing
  src_samplesWritten :: nat
  src_group :: "(nat \<times> nat) option"
  src_loudness :: rat
  src_loudEMA :: rat
  src_initialPose :: Pose
  src_decodeErrors :: nat

fun leWord :: "byte list \<Rightarrow> 32 word" where
  "leWord [] = 0"
| "leWord (b # bs) = or (ucast b) (push_bit 8 (leWord bs))"

definition decodeRaw :: "Math \<Rightarrow> 'd Source \<Rightarrow> byte list \<Rightarrow> rat list \<times> 'd Source" where
  "decodeRaw mt s pkt =
    (let n = length pkt div 4 in
     if length pkt mod 4 \<noteq> 0 \<or> n > length (src_rawScratch s)
     then let z = clear_slice (src_rawScratch s)
          in (z, s \<lparr> src_decodeErrors := src_decodeErrors s + 1, src_rawScratch := z \<rparr>)
     else let pcm = map (\<lambda>i. frombits32 mt (leWord (Lasa_Prelude.slice pkt (4 * i) (4 * i + 4)))) [0..<n]
          in (pcm, s \<lparr> src_rawScratch := copy_at (src_rawScratch s) 0 pcm \<rparr>))"

definition decodePacket :: "'d Codec \<Rightarrow> Math \<Rightarrow> 'd Source \<Rightarrow> byte list \<Rightarrow> (rat list \<times> 'd Source) option" where
  "decodePacket cd mt s pkt =
    (if src_raw s then Some (decodeRaw mt s pkt)
     else case src_decoder s of
       None \<Rightarrow> None
     | Some d \<Rightarrow>
        (case od_Decode cd d pkt of
           (Some pcm, d') \<Rightarrow> Some (pcm, s \<lparr> src_decoder := Some d' \<rparr>)
         | (None, d') \<Rightarrow>
             map_option (\<lambda>(pcm, d''). (pcm, s \<lparr> src_decoder := Some d'', src_decodeErrors := src_decodeErrors s + 1 \<rparr>))
               (od_Conceal cd d' FrameSize)))"

definition concealPCM :: "'d Codec \<Rightarrow> 'd Source \<Rightarrow> nat \<Rightarrow> (rat list \<times> 'd Source) option" where
  "concealPCM cd s samples =
    (if src_raw s then
       let n = min samples (length (src_rawScratch s))
       in Some (replicate n 0, s \<lparr> src_rawScratch := replicate n 0 @ drop n (src_rawScratch s) \<rparr>)
     else case src_decoder s of
       None \<Rightarrow> None
     | Some d \<Rightarrow> map_option (\<lambda>(pcm, d'). (pcm, s \<lparr> src_decoder := Some d' \<rparr>)) (od_Conceal cd d samples))"

definition ingestPCM :: "'d Source \<Rightarrow> rat list \<Rightarrow> 'd Source option" where
  "ingestPCM s pcm = (case src_jitter s of
     None \<Rightarrow> None
   | Some b \<Rightarrow> Some (s \<lparr> src_jitter := Some (Write b pcm), src_samplesWritten := src_samplesWritten s + length pcm \<rparr>))"

definition pushPose :: "'d Source \<Rightarrow> nat \<Rightarrow> Pose option \<Rightarrow> 'd Source" where
  "pushPose s seq pose = (case pose of
     None \<Rightarrow> s
   | Some p \<Rightarrow> s \<lparr> src_ring := push (src_ring s) seq (src_samplesWritten s) p \<rparr>)"

definition WriteOpus :: "'d Codec \<Rightarrow> Math \<Rightarrow> 'd Source \<Rightarrow> nat \<Rightarrow> Pose option \<Rightarrow> byte list \<Rightarrow> 'd Source option" where
  "WriteOpus cd mt s seq pose pkt =
    (if src_tone s \<noteq> None then Some s
     else map_option (\<lambda>s. pushPose s seq pose)
       (if pkt \<noteq> [] then Option.bind (decodePacket cd mt s pkt) (\<lambda>(pcm, s). ingestPCM s pcm) else Some s))"

definition WritePCM :: "'d Source \<Rightarrow> nat \<Rightarrow> Pose option \<Rightarrow> rat list \<Rightarrow> 'd Source option" where
  "WritePCM s seq pose pcm =
    (if src_tone s \<noteq> None then Some s
     else map_option (\<lambda>s. pushPose s seq pose) (if pcm \<noteq> [] then ingestPCM s pcm else Some s))"

text \<open>The raw path of \<^verbatim>\<open>Conceal\<close> writes silence in chunks of the scratch buffer. An empty scratch buffer
  would loop forever; it is allocated with a frame of samples.\<close>

function concealRaw :: "'d Source \<Rightarrow> nat \<Rightarrow> 'd Source option" where
  "concealRaw s samples =
    (if samples > 0 \<and> src_rawScratch s \<noteq> [] then
       let n = min samples (length (src_rawScratch s)); z = replicate n 0
       in (case src_jitter s of
             None \<Rightarrow> None
           | Some b \<Rightarrow> concealRaw (s \<lparr> src_rawScratch := z @ drop n (src_rawScratch s), src_jitter := Some (Write b z),
               src_samplesWritten := src_samplesWritten s + n \<rparr>) (samples - n))
     else Some s)"
  by auto

termination by (relation "measure (\<lambda>(s, samples). samples)") auto

declare concealRaw.simps [simp del]

definition Conceal :: "'d Codec \<Rightarrow> 'd Source \<Rightarrow> nat \<Rightarrow> 'd Source option" where
  "Conceal cd s samples =
    (if src_tone s \<noteq> None then Some s
     else if src_raw s then concealRaw s samples
     else case src_decoder s of
       None \<Rightarrow> Some s
     | Some d \<Rightarrow> Option.bind (od_Conceal cd d samples)
         (\<lambda>(pcm, d'). ingestPCM (s \<lparr> src_decoder := Some d' \<rparr>) pcm))"

section \<open>Reading a frame\<close>

fun ReadMono :: "Math \<Rightarrow> rat \<Rightarrow> rat \<Rightarrow> rat list \<Rightarrow> rat list \<times> rat" where
  "ReadMono mt phase step [] = ([], phase)"
| "ReadMono mt phase step (x # xs) =
    (let v = f32 (sinf mt (mul64 (mul64 phase 2) piF));
         ph = add64 phase step;
         (vs, phase') = ReadMono mt (ph - of_int (trunc ph)) step xs
     in (v # vs, phase'))"

text \<open>Lockstep groups: the members' seats, the shared buffer, and the frame read this tick.\<close>

record SourceGroup =
  sg_id :: string
  sg_n :: nat
  sg_jitter :: JitterBuffer
  sg_members :: "nat option list"
  sg_live :: int
  sg_samplesWritten :: nat
  sg_writeScratch :: "rat list"
  sg_readScratch :: "rat list"
  sg_readPos :: nat

text \<open>\<^verbatim>\<open>channel\<close> panics when the index is outside the frame; with a seat below \<^verbatim>\<open>n\<close> and a destination no
  longer than a frame it is not.\<close>

definition channel :: "SourceGroup \<Rightarrow> nat \<Rightarrow> rat list \<Rightarrow> rat list" where
  "channel g i dst = map (\<lambda>j. sg_readScratch g ! (j * sg_n g + i)) [0..<length dst]"

definition readFrame :: "Math \<Rightarrow> (nat \<Rightarrow> SourceGroup) \<Rightarrow> 'd Source \<Rightarrow> rat list \<Rightarrow> (rat list \<times> Pose \<times> 'd Source) option" where
  "readFrame mt groups s dst =
    (case src_tone s of
       Some (phase, step) \<Rightarrow>
         (case ReadMono mt phase step dst of (vs, phase') \<Rightarrow>
            Some (vs, src_initialPose s, s \<lparr> src_tone := Some (phase', step) \<rparr>))
     | None \<Rightarrow>
         map_option (\<lambda>(dst', L, s'). (dst',
             (if L = 0 then src_initialPose s
              else case poseAt (src_ring s) L of Some p \<Rightarrow> p | None \<Rightarrow> src_initialPose s), s'))
           (case src_group s of
              Some (g, i) \<Rightarrow> Some (channel (groups g) i dst, sg_readPos (groups g), s)
            | None \<Rightarrow> (case src_jitter s of
                None \<Rightarrow> None
              | Some b \<Rightarrow> (case Read b dst of (ok, dst', b') \<Rightarrow>
                  Some (dst', nat (StreamReadPos b'), s \<lparr> src_jitter := Some b' \<rparr>)))))"

definition loudnessAlpha :: rat where "loudnessAlpha = f32 (49 / 1000)"

definition updateRenderLoudness :: "Math \<Rightarrow> 'd Source \<Rightarrow> rat list \<Rightarrow> rat \<Rightarrow> 'd Source" where
  "updateRenderLoudness mt s frm gain =
    (let sum = foldl (\<lambda>sum v. add64 sum (mul64 v v)) 0 frm;
         rms = f32 (sqrt64 mt (div64 sum (int64f (int (length frm)))));
         ema = add32 (src_loudEMA s) (mul32 loudnessAlpha (sub32 rms (src_loudEMA s)))
     in s \<lparr> src_loudEMA := ema, src_loudness := mul32 ema (f32 gain) \<rparr>)"

definition LatencySamples :: "(nat \<Rightarrow> SourceGroup) \<Rightarrow> 'd Source \<Rightarrow> int" where
  "LatencySamples groups s = (case src_group s of
     Some (g, i) \<Rightarrow> GetBehind (sg_jitter (groups g)) sdiv int (sg_n (groups g))
   | None \<Rightarrow> (case src_jitter s of None \<Rightarrow> 0 | Some b \<Rightarrow> GetBehind b))"

section \<open>Groups\<close>

record GroupSpec =
  gs_ID :: string
  gs_Index :: int
  gs_Count :: int
  gs_Quality :: int
  gs_Redundancy :: int

text \<open>Both the single source and the group compose the quality level's floor with the redundancy
  floor by maximum.\<close>

definition declaredFloor :: "int \<Rightarrow> int \<Rightarrow> int \<Rightarrow> int" where
  "declaredFloor quality redundancy writerFrame =
    (let (fl, _, _) = QualityLevel quality; f = FECFloor redundancy writerFrame in if f > fl then f else fl)"

definition sourceJitterConfig :: "int \<Rightarrow> int \<Rightarrow> int \<Rightarrow> int \<Rightarrow> int \<Rightarrow> JitterBufferConfig" where
  "sourceJitterConfig channels quality redundancy writerFrame readerFrame =
    (let (_, robustness, cap) = QualityLevel quality
     in \<lparr> SampleRate = SampleRateHz, NumChannels = channels, WriterFrameSize = writerFrame,
          ReaderFrameSize = readerFrame, Safety = 0, WriterFrames = 0, ReaderFrames = 0,
          Floor = declaredFloor quality redundancy writerFrame, Robustness = robustness, Capacity = cap,
          ControllerOverride = None \<rparr>)"

definition newSourceGroup :: "GroupSpec \<Rightarrow> int \<Rightarrow> int \<Rightarrow> string + SourceGroup" where
  "newSourceGroup spec writerFrame readerFrame =
    (case NewJitterBuffer (sourceJitterConfig (gs_Count spec) (gs_Quality spec) (gs_Redundancy spec) writerFrame readerFrame) of
       Inl msg \<Rightarrow> Inl msg
     | Inr b \<Rightarrow> Inr \<lparr> sg_id = gs_ID spec, sg_n = nat (gs_Count spec), sg_jitter = b,
         sg_members = replicate (nat (gs_Count spec)) None, sg_live = 0, sg_samplesWritten = 0,
         sg_writeScratch = replicate (FrameSize * nat (gs_Count spec)) 0,
         sg_readScratch = replicate (FrameSize * nat (gs_Count spec)) 0, sg_readPos = 0 \<rparr>)"

definition join :: "SourceGroup \<Rightarrow> nat \<Rightarrow> nat \<Rightarrow> SourceGroup" where
  "join g s index =
    g \<lparr> sg_live := (if sg_members g ! index = None then sg_live g + 1 else sg_live g),
        sg_members := (sg_members g)[index := Some s] \<rparr>"

definition leave :: "SourceGroup \<Rightarrow> nat \<Rightarrow> nat \<Rightarrow> bool \<times> SourceGroup" where
  "leave g index s =
    (let g' = (if sg_members g ! index = Some s
               then g \<lparr> sg_members := (sg_members g)[index := None], sg_live := sg_live g - 1 \<rparr> else g)
     in (sg_live g' = 0, g'))"

record GroupChannel =
  gc_Pose :: "Pose option"
  gc_Audio :: "byte list"
  gc_Lost :: bool
  gc_AudioLikely :: bool
  gc_Silence :: bool

definition carriesAudio :: "GroupChannel \<Rightarrow> bool" where
  "carriesAudio c \<longleftrightarrow> gc_Audio c \<noteq> [] \<or> (gc_Lost c \<and> gc_AudioLikely c \<and> \<not> gc_Silence c)"

text \<open>One member's share of \<^verbatim>\<open>WriteFrame\<close>: its PCM for the frame and its decoder advanced.\<close>

definition memberPCM :: "'d Codec \<Rightarrow> Math \<Rightarrow> 'd Source option \<Rightarrow> GroupChannel \<Rightarrow> (rat list \<times> 'd Source option) option" where
  "memberPCM cd mt ms c = (case ms of
     None \<Rightarrow> Some ([], None)
   | Some s \<Rightarrow>
       if gc_Audio c \<noteq> [] then map_option (\<lambda>(pcm, s). (pcm, Some s)) (decodePacket cd mt s (gc_Audio c))
       else if gc_Lost c \<and> gc_AudioLikely c \<and> \<not> gc_Silence c
       then map_option (\<lambda>(pcm, s). (pcm, Some s)) (concealPCM cd s FrameSize)
       else Some ([], Some s))"

definition padFrame :: "rat list \<Rightarrow> rat list" where
  "padFrame pcm = map (\<lambda>j. if j < length pcm then pcm ! j else 0) [0..<FrameSize]"

text \<open>The interleaving store \<^verbatim>\<open>writeScratch[j*n+i] = v\<close>.\<close>

definition putChannel :: "nat \<Rightarrow> nat \<Rightarrow> rat list \<Rightarrow> rat list \<Rightarrow> rat list" where
  "putChannel n i pcm scratch = foldl (\<lambda>sc j. sc[j * n + i := padFrame pcm ! j]) scratch [0..<FrameSize]"

text \<open>\<^verbatim>\<open>WriteFrame\<close> over the heap of sources; \<open>ms\<close> lists the members' states in seat order, one per seat.
  A frame with fewer channels than seats is an index panic, as is a pose beyond the last seat.\<close>

fun writeMembers :: "'d Codec \<Rightarrow> Math \<Rightarrow> nat \<Rightarrow> nat \<Rightarrow> 'd Source option list \<Rightarrow> GroupChannel list \<Rightarrow> rat list \<Rightarrow>
    ('d Source option list \<times> rat list) option" where
  "writeMembers cd mt n i [] cs scratch = Some ([], scratch)"
| "writeMembers cd mt n i (m # ms) [] scratch = None"
| "writeMembers cd mt n i (m # ms) (c # cs) scratch =
    Option.bind (memberPCM cd mt m c) (\<lambda>(pcm, m').
      map_option (\<lambda>(ms', sc). (m' # ms', sc)) (writeMembers cd mt n (Suc i) ms cs (putChannel n i pcm scratch)))"

fun pinPoses :: "nat \<Rightarrow> nat \<Rightarrow> 'd Source option list \<Rightarrow> GroupChannel list \<Rightarrow> 'd Source option list option" where
  "pinPoses seq pos ms [] = Some ms"
| "pinPoses seq pos [] (c # cs) = (if gc_Pose c = None then pinPoses seq pos [] cs else None)"
| "pinPoses seq pos (m # ms) (c # cs) =
    map_option (\<lambda>ms'. (case (gc_Pose c, m) of
        (Some p, Some s) \<Rightarrow> Some (s \<lparr> src_ring := push (src_ring s) seq pos p \<rparr>)
      | _ \<Rightarrow> m) # ms') (pinPoses seq pos ms cs)"

definition WriteFrame :: "'d Codec \<Rightarrow> Math \<Rightarrow> SourceGroup \<Rightarrow> 'd Source option list \<Rightarrow> nat \<Rightarrow> GroupChannel list \<Rightarrow>
    (SourceGroup \<times> 'd Source option list) option" where
  "WriteFrame cd mt g ms seq chans =
    Option.bind
      (if \<exists>c\<in>set chans. carriesAudio c then
         map_option (\<lambda>(ms, sc). (g \<lparr> sg_writeScratch := sc, sg_jitter := Write (sg_jitter g) sc,
             sg_samplesWritten := sg_samplesWritten g + FrameSize \<rparr>, ms))
           (writeMembers cd mt (sg_n g) 0 ms chans (sg_writeScratch g))
       else Some (g, ms))
      (\<lambda>(g, ms). map_option (\<lambda>ms. (g, ms)) (pinPoses seq (sg_samplesWritten g) ms chans))"

definition group_read :: "SourceGroup \<Rightarrow> SourceGroup" where
  "group_read g = (case Read (sg_jitter g) (sg_readScratch g) of (ok, sc, b) \<Rightarrow>
     g \<lparr> sg_readScratch := sc, sg_jitter := b, sg_readPos := nat (StreamReadPos b) \<rparr>)"

section \<open>Lengths\<close>

text \<open>What the engine relies on from libopus: a packet decodes to at most 60 ms per channel, and
  concealment fills the buffer it is given.\<close>

definition codec_ok :: "'d Codec \<Rightarrow> nat \<Rightarrow> bool" where
  "codec_ok cd ch \<longleftrightarrow> (\<forall>st pkt pcm st'. cd_decode cd st pkt = (Some pcm, st') \<longrightarrow> length pcm \<le> ch * monoCap) \<and>
     (\<forall>st n pcm st'. cd_plc cd st n = (Some pcm, st') \<longrightarrow> length pcm = n)"

lemma length_downmix [simp]: "length (downmix xs) = length xs div 2"
  by (induction xs rule: downmix.induct) auto

lemma od_Decode_length:
  assumes "od_Decode cd d pkt = (Some pcm, d')" "codec_ok cd (od_channels d)" "od_channels d \<in> {1, 2}"
  shows "length pcm \<le> monoCap" "od_channels d' = od_channels d"
  using assms by (auto simp: od_Decode_def codec_ok_def monoCap_def split: prod.splits option.splits) fastforce+

lemma od_Decode_channels: "od_Decode cd d pkt = (r, d') \<Longrightarrow> od_channels d' = od_channels d"
  by (auto simp: od_Decode_def split: prod.splits option.splits)

lemma od_Conceal_total:
  assumes "samples \<le> monoCap" "codec_ok cd (od_channels d)" "od_channels d \<in> {1, 2}"
  obtains pcm d' where "od_Conceal cd d samples = Some (pcm, d')" "length pcm = samples" "od_channels d' = od_channels d"
proof -
  define n where "n = (if od_channels d = 1 then samples else 2 * samples)"
  obtain r st where plc: "cd_plc cd (od_state d) n = (r, st)" by fastforce
  define buf where "buf = (case r of Some b \<Rightarrow> b | None \<Rightarrow> replicate n 0)"
  have "length buf = n" using plc assms(2) by (auto simp: codec_ok_def buf_def split: option.split) blast
  then have "length (if od_channels d = 1 then buf else downmix buf) = samples" by (simp add: n_def)
  moreover have "od_Conceal cd d samples = Some (if od_channels d = 1 then buf else downmix buf, d \<lparr> od_state := st \<rparr>)"
    using plc assms(1) by (simp add: od_Conceal_def buf_def n_def split: option.split)
  ultimately show thesis using that by simp
qed

text \<open>A packet source is ready when its decoder is allocated: the raw scratch frame, or an Opus
  decoder of one or two channels.\<close>

definition src_ready :: "'d Codec \<Rightarrow> 'd Source \<Rightarrow> bool" where
  "src_ready cd s \<longleftrightarrow> (if src_raw s then length (src_rawScratch s) = FrameSize
     else \<exists>d. src_decoder s = Some d \<and> od_channels d \<in> {1, 2} \<and> codec_ok cd (od_channels d))"

text \<open>The fields a decode leaves alone.\<close>

definition src_rest :: "'d Source \<Rightarrow> JitterBuffer option \<times> (rat \<times> rat) option \<times> bool \<times> poseRing \<times> nat \<times> (nat \<times> nat) option" where
  "src_rest s = (src_jitter s, src_tone s, src_raw s, src_ring s, src_samplesWritten s, src_group s)"

lemma decodePacket_total:
  assumes "src_ready cd s"
  obtains pcm s' where "decodePacket cd mt s pkt = Some (pcm, s')" "length pcm \<le> monoCap" "src_ready cd s'"
    "src_rest s' = src_rest s"
proof (cases "src_raw s")
  case True
  have l: "length (src_rawScratch s) = FrameSize" using assms True by (simp add: src_ready_def)
  obtain pcm s' where r: "decodeRaw mt s pkt = (pcm, s')" by fastforce
  have "length pcm \<le> monoCap \<and> src_raw s' \<and> length (src_rawScratch s') = FrameSize \<and> src_rest s' = src_rest s"
    using r l True by (auto simp: decodeRaw_def Let_def monoCap_def FrameSize_def src_rest_def split: if_splits)
  then show thesis using that r True by (simp add: decodePacket_def src_ready_def)
next
  case False
  then obtain d where d: "src_decoder s = Some d" "od_channels d \<in> {1, 2}" "codec_ok cd (od_channels d)"
    using assms by (auto simp: src_ready_def)
  obtain r d' where od: "od_Decode cd d pkt = (r, d')" by fastforce
  note ch = od_Decode_channels[OF od]
  show thesis
  proof (cases r)
    case (Some pcm)
    then show thesis using that[of pcm "s \<lparr> src_decoder := Some d' \<rparr>"] False d od od_Decode_length[of cd d pkt pcm d'] ch
      by (simp add: decodePacket_def src_ready_def src_rest_def)
  next
    case None
    have "codec_ok cd (od_channels d')" "od_channels d' \<in> {1, 2}" "FrameSize \<le> monoCap"
      using d ch by (auto simp: FrameSize_def monoCap_def)
    then obtain pcm d'' where c: "od_Conceal cd d' FrameSize = Some (pcm, d'')" "length pcm = FrameSize"
      "od_channels d'' = od_channels d'" by (metis od_Conceal_total)
    then show thesis using that[of pcm "s \<lparr> src_decoder := Some d'', src_decodeErrors := src_decodeErrors s + 1 \<rparr>"]
      None False d od ch by (simp add: decodePacket_def src_ready_def src_rest_def FrameSize_def monoCap_def)
  qed
qed

lemma concealPCM_total:
  assumes "src_ready cd s" "samples \<le> FrameSize"
  obtains pcm s' where "concealPCM cd s samples = Some (pcm, s')" "length pcm = samples" "src_ready cd s'"
    "src_rest s' = src_rest s"
proof (cases "src_raw s")
  case True
  then show thesis using that assms by (simp add: concealPCM_def src_ready_def src_rest_def Let_def min_def)
next
  case False
  then obtain d where d: "src_decoder s = Some d" "od_channels d \<in> {1, 2}" "codec_ok cd (od_channels d)"
    using assms by (auto simp: src_ready_def)
  have "samples \<le> monoCap" using assms(2) by (simp add: FrameSize_def monoCap_def)
  from od_Conceal_total[OF this d(3,2)] obtain pcm d' where
    c: "od_Conceal cd d samples = Some (pcm, d')" "length pcm = samples" "od_channels d' = od_channels d" by metis
  then show thesis using that[of pcm "s \<lparr> src_decoder := Some d' \<rparr>"] False d
    by (simp add: concealPCM_def src_ready_def src_rest_def)
qed

section \<open>A single source and its stream\<close>

text \<open>A write of whole frames that fits the ring moves the write position by its length.\<close>

lemma Write_advance:
  assumes "jb_inv b" "length src = m * nat (jb_nc b)" "int m \<le> jb_capacity b"
  shows "jb_writePos (Write b src) = jb_writePos b + int m"
proof -
  have nc: "0 < jb_nc b" using assms(1) by (simp add: jb_inv_def jb_geom_def)
  then have "int (length src) sdiv jb_nc b = int m" using assms(2) by (simp add: sdiv_nonneg)
  then show ?thesis using assms(3) by (simp add: Write_def clipped_def Let_def)
qed

lemma Write_fixed: "jb_fixed (Write b src) = jb_fixed b"
  by (simp add: jb_frame)

text \<open>Alignment: the source's own count of written samples is the position of its jitter buffer, so a
  pose pinned at \<open>src_samplesWritten\<close> names the sample behind it.\<close>

definition src_aligned :: "'d Codec \<Rightarrow> 'd Source \<Rightarrow> bool" where
  "src_aligned cd s \<longleftrightarrow> src_ready cd s \<and> src_group s = None \<and> (\<exists>b. src_jitter s = Some b \<and> jb_inv b \<and> jb_nc b = 1 \<and>
     int monoCap \<le> jb_capacity b \<and> jb_writePos b = int (src_samplesWritten s)) \<and>
   pr_ok (src_ring s) \<and> (\<exists>S. pring.holds (src_ring s) S \<and> (\<forall>e\<in>set S. ps_endSample e \<le> src_samplesWritten s))"

lemma ready_upd [simp]:
  "src_ready cd (s \<lparr> src_jitter := j \<rparr>) = src_ready cd s" "src_ready cd (s \<lparr> src_samplesWritten := n \<rparr>) = src_ready cd s"
  "src_ready cd (s \<lparr> src_ring := r \<rparr>) = src_ready cd s" "src_ready cd (s \<lparr> src_tone := tn \<rparr>) = src_ready cd s"
  by (simp_all add: src_ready_def)

lemma ingest_aligned:
  assumes "src_aligned cd s" "int (length pcm) \<le> jb_capacity (the (src_jitter s))"
  obtains s' where "ingestPCM s pcm = Some s'" "src_aligned cd s'"
    "src_samplesWritten s' = src_samplesWritten s + length pcm"
    "jb_capacity (the (src_jitter s')) = jb_capacity (the (src_jitter s))" "src_tone s' = src_tone s" "src_raw s' = src_raw s"
proof -
  obtain b where b: "src_jitter s = Some b" "jb_inv b" "jb_nc b = 1" "int monoCap \<le> jb_capacity b"
    "jb_writePos b = int (src_samplesWritten s)" using assms(1) by (auto simp: src_aligned_def)
  have w: "jb_writePos (Write b pcm) = jb_writePos b + int (length pcm)"
    using Write_advance[OF b(2), of pcm "length pcm"] b(1,3) assms(2) by simp
  have f: "jb_nc (Write b pcm) = jb_nc b" "jb_capacity (Write b pcm) = jb_capacity b"
    using Write_fixed[of b pcm] by (simp_all add: fixed_eq)
  show thesis
  proof (rule that)
    show "ingestPCM s pcm = Some (s \<lparr> src_jitter := Some (Write b pcm), src_samplesWritten := src_samplesWritten s + length pcm \<rparr>)"
      using b(1) by (simp add: ingestPCM_def)
    show "src_aligned cd (s \<lparr> src_jitter := Some (Write b pcm), src_samplesWritten := src_samplesWritten s + length pcm \<rparr>)"
      using assms(1) b w f Write_inv[OF b(2), of pcm] by (fastforce simp: src_aligned_def)
  qed (use b f in simp_all)
qed

lemma pushPose_aligned:
  assumes "src_aligned cd s"
  shows "src_aligned cd (pushPose s seq pose)" "src_jitter (pushPose s seq pose) = src_jitter s"
    "src_samplesWritten (pushPose s seq pose) = src_samplesWritten s"
proof -
  show "src_aligned cd (pushPose s seq pose)"
  proof (cases pose)
    case (Some p)
    obtain S where S: "pr_ok (src_ring s)" "pring.holds (src_ring s) S" "\<forall>e\<in>set S. ps_endSample e \<le> src_samplesWritten s"
      using assms by (auto simp: src_aligned_def)
    let ?x = "(seq, src_samplesWritten s, p)"
    have "pring.holds (push (src_ring s) seq (src_samplesWritten s) p) (S @ accepted (src_ring s) ?x)"
      using pring.holds_wr[OF S(1,2), of ?x] by (simp add: pushT_def)
    moreover have "\<forall>e\<in>set (S @ accepted (src_ring s) ?x). ps_endSample e \<le> src_samplesWritten s"
      using S(3) by (auto simp: accepted_def)
    ultimately show ?thesis using assms push_ok[OF S(1)] Some by (fastforce simp: src_aligned_def pushPose_def)
  qed (use assms in \<open>simp add: pushPose_def\<close>)
qed (simp_all add: pushPose_def split: option.split)

lemma aligned_rest:
  assumes "src_aligned cd s" "src_ready cd s'" "src_rest s' = src_rest s"
  shows "src_aligned cd s'" "src_jitter s' = src_jitter s" "src_samplesWritten s' = src_samplesWritten s"
  using assms by (simp_all add: src_aligned_def src_rest_def)

lemma aligned_cap: "src_aligned cd s \<Longrightarrow> int monoCap \<le> jb_capacity (the (src_jitter s))"
  by (auto simp: src_aligned_def)

lemma WriteOpus_aligned:
  assumes "src_aligned cd s"
  obtains s' where "WriteOpus cd mt s seq pose pkt = Some s'" "src_aligned cd s'"
proof (cases "src_tone s = None \<and> pkt \<noteq> []")
  case True
  obtain pcm s1 where d: "decodePacket cd mt s pkt = Some (pcm, s1)" "length pcm \<le> monoCap" "src_ready cd s1"
    "src_rest s1 = src_rest s" using decodePacket_total assms by (metis src_aligned_def)
  note a = aligned_rest[OF assms d(3,4)]
  have "int (length pcm) \<le> jb_capacity (the (src_jitter s1))" using aligned_cap[OF a(1)] d(2) by simp
  then obtain s2 where s2: "ingestPCM s1 pcm = Some s2" "src_aligned cd s2" using ingest_aligned[OF a(1)] by metis
  then show thesis using that True d(1) pushPose_aligned(1)[OF s2(2), of seq pose] by (simp add: WriteOpus_def)
next
  case False
  then show thesis using that assms pushPose_aligned(1)[OF assms, of seq pose]
    by (cases "src_tone s = None") (simp_all add: WriteOpus_def)
qed

lemma WritePCM_aligned:
  assumes "src_aligned cd s" "length pcm \<le> monoCap"
  obtains s' where "WritePCM s seq pose pcm = Some s'" "src_aligned cd s'"
proof (cases "src_tone s = None \<and> pcm \<noteq> []")
  case True
  have "int (length pcm) \<le> jb_capacity (the (src_jitter s))" using aligned_cap[OF assms(1)] assms(2) by simp
  then obtain s2 where s2: "ingestPCM s pcm = Some s2" "src_aligned cd s2" using ingest_aligned[OF assms(1)] by metis
  then show thesis using that True pushPose_aligned(1)[OF s2(2), of seq pose] by (simp add: WritePCM_def)
next
  case False
  then show thesis using that assms pushPose_aligned(1)[OF assms(1), of seq pose]
    by (cases "src_tone s = None") (simp_all add: WritePCM_def)
qed

lemma concealRaw_aligned:
  assumes "src_aligned cd s" "src_raw s"
  shows "\<exists>s'. concealRaw s samples = Some s' \<and> src_aligned cd s' \<and> src_samplesWritten s' = src_samplesWritten s + samples"
  using assms
proof (induction s samples rule: concealRaw.induct)
  case (1 s samples)
  have l: "length (src_rawScratch s) = FrameSize" using 1(2,3) by (simp add: src_aligned_def src_ready_def)
  show ?case
  proof (cases "samples = 0")
    case True
    then show ?thesis using 1(2) by (simp add: concealRaw.simps)
  next
    case False
    define n where "n = min samples (length (src_rawScratch s))"
    define s1 where "s1 = s \<lparr> src_rawScratch := replicate n 0 @ drop n (src_rawScratch s) \<rparr>"
    have "src_aligned cd s1" using 1(2,3) l by (simp add: src_aligned_def src_ready_def s1_def n_def)
    moreover have "int (length (replicate n (0::rat))) \<le> jb_capacity (the (src_jitter s1))"
      using aligned_cap[OF \<open>src_aligned cd s1\<close>] l by (simp add: n_def monoCap_def FrameSize_def)
    ultimately obtain s2 where s2: "ingestPCM s1 (replicate n 0) = Some s2" "src_aligned cd s2"
      "src_samplesWritten s2 = src_samplesWritten s1 + n" "src_raw s2 = src_raw s1"
      using ingest_aligned[of cd s1 "replicate n 0"] by auto
    obtain b where b: "src_jitter s = Some b" using 1(2) by (auto simp: src_aligned_def)
    have ne: "src_rawScratch s \<noteq> []" using l by (auto simp: FrameSize_def)
    have e: "concealRaw s samples = concealRaw s2 (samples - n)"
      using False ne b s2(1) by (subst concealRaw.simps) (auto simp: ingestPCM_def s1_def n_def Let_def)
    have "\<exists>s'. concealRaw s2 (samples - n) = Some s' \<and> src_aligned cd s' \<and>
        src_samplesWritten s' = src_samplesWritten s2 + (samples - n)"
      using 1(1)[OF _ n_def refl b] False ne s2 1(3) b by (auto simp: s1_def ingestPCM_def)
    then show ?thesis using e s2(3) by (auto simp: s1_def n_def)
  qed
qed

lemma Conceal_aligned:
  assumes "src_aligned cd s" "samples \<le> monoCap" "src_tone s = None"
  obtains s' where "Conceal cd s samples = Some s'" "src_aligned cd s'"
    "src_samplesWritten s' = src_samplesWritten s + samples"
proof (cases "src_raw s")
  case True
  then show thesis using that concealRaw_aligned[OF assms(1) True, of samples] assms(3) by (auto simp: Conceal_def)
next
  case False
  then obtain d where d: "src_decoder s = Some d" "od_channels d \<in> {1, 2}" "codec_ok cd (od_channels d)"
    using assms(1) by (auto simp: src_aligned_def src_ready_def)
  obtain pcm d' where c: "od_Conceal cd d samples = Some (pcm, d')" "length pcm = samples" "od_channels d' = od_channels d"
    using od_Conceal_total[OF assms(2) d(3,2)] by metis
  let ?s = "s \<lparr> src_decoder := Some d' \<rparr>"
  have "src_ready cd ?s" "src_rest ?s = src_rest s" using d c False by (simp_all add: src_ready_def src_rest_def)
  note a = aligned_rest[OF assms(1) this]
  have "int (length pcm) \<le> jb_capacity (the (src_jitter ?s))" using aligned_cap[OF a(1)] c(2) assms(2) by simp
  then obtain s2 where "ingestPCM ?s pcm = Some s2" "src_aligned cd s2"
    "src_samplesWritten s2 = src_samplesWritten ?s + length pcm" using ingest_aligned[OF a(1)] by metis
  then show thesis using that d(1) c(1,2) False assms(3) by (simp add: Conceal_def)
qed

lemma readFrame_aligned:
  assumes "src_aligned cd s"
  obtains dst' p s' where "readFrame mt groups s dst = Some (dst', p, s')" "src_aligned cd s'"
    "src_samplesWritten s' = src_samplesWritten s"
proof (cases "src_tone s")
  case (Some tn)
  obtain ph st vs ph' where tn: "tn = (ph, st)" "ReadMono mt ph st dst = (vs, ph')" by (metis surj_pair)
  have "src_aligned cd (s \<lparr> src_tone := Some (ph', st) \<rparr>)" using assms by (simp add: src_aligned_def)
  then show thesis using that Some tn by (simp add: readFrame_def)
next
  case None
  obtain b where b: "src_jitter s = Some b" "jb_inv b" "jb_nc b = 1" "int monoCap \<le> jb_capacity b"
    "jb_writePos b = int (src_samplesWritten s)" using assms by (auto simp: src_aligned_def)
  obtain ok dst' b' where r: "Read b dst = (ok, dst', b')" by (metis prod_cases3)
  note ri = Read_inv[OF b(2) r]
  have "src_aligned cd (s \<lparr> src_jitter := Some b' \<rparr>)"
    using assms b ri by (auto simp: src_aligned_def fixed_eq)
  moreover have "src_group s = None" using assms by (simp add: src_aligned_def)
  ultimately show thesis using that None b(1) r by (simp add: readFrame_def)
qed

text \<open>The calls on one source, from its receive goroutine and from the audio thread, in any order.\<close>

datatype src_op = SrcOpus nat "Pose option" "byte list" | SrcPCM nat "Pose option" "rat list"
  | SrcConceal nat | SrcRead "rat list"

fun src_step :: "'d Codec \<Rightarrow> Math \<Rightarrow> (nat \<Rightarrow> SourceGroup) \<Rightarrow> 'd Source \<Rightarrow> src_op \<Rightarrow> 'd Source option" where
  "src_step cd mt groups s (SrcOpus seq pose pkt) = WriteOpus cd mt s seq pose pkt"
| "src_step cd mt groups s (SrcPCM seq pose pcm) = WritePCM s seq pose pcm"
| "src_step cd mt groups s (SrcConceal n) = Conceal cd s n"
| "src_step cd mt groups s (SrcRead dst) = map_option (\<lambda>(_, _, s). s) (readFrame mt groups s dst)"

fun src_exec :: "'d Codec \<Rightarrow> Math \<Rightarrow> (nat \<Rightarrow> SourceGroup) \<Rightarrow> 'd Source \<Rightarrow> src_op list \<Rightarrow> 'd Source option" where
  "src_exec cd mt groups s [] = Some s"
| "src_exec cd mt groups s (op # ops) = Option.bind (src_step cd mt groups s op) (\<lambda>s. src_exec cd mt groups s ops)"

text \<open>Blocks of at most 60 ms, the longest Opus packet.\<close>

fun src_op_ok :: "src_op \<Rightarrow> bool" where
  "src_op_ok (SrcPCM seq pose pcm) \<longleftrightarrow> length pcm \<le> monoCap"
| "src_op_ok (SrcConceal n) \<longleftrightarrow> n \<le> monoCap"
| "src_op_ok op \<longleftrightarrow> True"

lemma src_step_aligned:
  assumes "src_aligned cd s" "src_op_ok op"
  shows "\<exists>s'. src_step cd mt groups s op = Some s' \<and> src_aligned cd s'"
proof (cases op)
  case (SrcOpus seq pose pkt)
  then show ?thesis using WriteOpus_aligned[OF assms(1), of mt seq pose pkt] by auto
next
  case (SrcPCM seq pose pcm)
  then show ?thesis using WritePCM_aligned[OF assms(1), of pcm seq pose] assms(2) by auto
next
  case (SrcConceal n)
  show ?thesis
  proof (cases "src_tone s = None")
    case True
    then obtain s' where "Conceal cd s n = Some s'" "src_aligned cd s'"
      using Conceal_aligned[OF assms(1), of n] assms(2) SrcConceal by auto
    then show ?thesis using SrcConceal by simp
  qed (use SrcConceal assms(1) in \<open>simp add: Conceal_def\<close>)
next
  case (SrcRead dst)
  obtain dst' p s' where "readFrame mt groups s dst = Some (dst', p, s')" "src_aligned cd s'"
    using readFrame_aligned[OF assms(1)] by metis
  then show ?thesis using SrcRead by simp
qed

lemma src_exec_aligned:
  "src_aligned cd s \<Longrightarrow> list_all src_op_ok ops \<Longrightarrow>
    \<exists>s'. src_exec cd mt groups s ops = Some s' \<and> src_aligned cd s'"
proof (induction ops arbitrary: s)
  case (Cons op ops)
  obtain s' where s': "src_step cd mt groups s op = Some s'" "src_aligned cd s'"
    using src_step_aligned[OF Cons.prems(1), of op mt groups] Cons.prems(2) by auto
  from Cons.IH[OF s'(2)] Cons.prems(2) show ?case by (simp add: s'(1))
qed simp

section \<open>The configurations the engine builds\<close>

lemma duration_frames:
  assumes "0 \<le> d" "d \<le> 60 * millisecond"
  shows "0 \<le> durToFrames 48000 d" "durToFrames 48000 d \<le> 2880"
proof -
  have "d * 48000 \<le> 2880 * 1000000000" using assms(2) by (simp add: millisecond_def)
  then have "d * 48000 div 1000000000 \<le> 2880" by linarith
  then show "0 \<le> durToFrames 48000 d" "durToFrames 48000 d \<le> 2880"
    using assms(1) by (simp_all add: durToFrames_def second_ns_def sdiv_nonneg pos_imp_zdiv_nonneg_iff)
qed

definition engine_cfg_ok :: "int \<Rightarrow> int \<Rightarrow> int \<Rightarrow> bool" where
  "engine_cfg_ok channels writerFrame readerFrame \<longleftrightarrow> 1 \<le> channels \<and>
     0 < durToFrames 48000 writerFrame \<and> 0 \<le> writerFrame \<and> writerFrame \<le> 60 * millisecond \<and>
     0 < durToFrames 48000 readerFrame \<and> 0 \<le> readerFrame \<and> readerFrame \<le> 60 * millisecond"

lemma scfg_fields:
  fixes q red :: int
  assumes "engine_cfg_ok channels wfr rfr"
  defines "cfg \<equiv> sourceJitterConfig channels q red wfr rfr"
  shows "cfg_sr cfg = 48000" "cfg_nc cfg = channels" "cfg_w cfg = durToFrames 48000 wfr" "cfg_r cfg = durToFrames 48000 rfr"
    "cfg_s cfg = 48" "Capacity cfg = (if q \<le> 0 then 0 else if q = 1 then 500 * millisecond else 400 * millisecond)"
    "q \<le> 0 \<Longrightarrow> Robustness cfg = 1"
    "0 \<le> SampleRate cfg" "0 \<le> NumChannels cfg" "0 \<le> Capacity cfg"
proof -
  have "msToFrames 48000 1 = 48" by code_simp
  then show "cfg_s cfg = 48" by (simp add: cfg_def cfg_s_def cfg_sr_def sourceJitterConfig_def SampleRateHz_def durToFrames_def Let_def split: prod.split)
qed (use assms(1) in \<open>auto simp: cfg_def sourceJitterConfig_def cfg_sr_def cfg_nc_def cfg_w_def cfg_r_def SampleRateHz_def
      engine_cfg_ok_def QualityLevel_def millisecond_def\<close>)

lemma scfg_capacity:
  fixes q red :: int
  assumes "engine_cfg_ok channels wfr rfr"
  defines "cfg \<equiv> sourceJitterConfig channels q red wfr rfr"
  shows "int monoCap \<le> cfg_capacity cfg"
    and "durToFrames (cfg_sr cfg) (Capacity cfg) = 0 \<or> cfg_spBase cfg + cfg_w cfg + cfg_r cfg \<le> cfg_capacity cfg"
proof -
  note f = scfg_fields[OF assms(1), of q red, folded cfg_def]
  have w: "0 < cfg_w cfg" "cfg_w cfg \<le> 2880" and r: "0 < cfg_r cfg" "cfg_r cfg \<le> 2880"
    using assms(1) duration_frames f(3,4) by (auto simp: engine_cfg_ok_def)
  have d: "durToFrames 48000 (500 * millisecond) = 24000" "durToFrames 48000 (400 * millisecond) = 19200" "durToFrames 48000 0 = 0"
    by code_simp+
  show "durToFrames (cfg_sr cfg) (Capacity cfg) = 0 \<or> cfg_spBase cfg + cfg_w cfg + cfg_r cfg \<le> cfg_capacity cfg"
    using w r d by (auto simp: f(1,6) cfg_capacity_def cfg_spBase_def f(5) Let_def max_def)
  show "int monoCap \<le> cfg_capacity cfg"
  proof (cases "q \<le> 0")
    case True
    have k: "cfg_kappa cfg = 1" using f(7)[OF True] by (simp add: cfg_kappa_def)
    have n: "trunc (mul64 (mul64 v4KLow 1) (int64f (trunc (mul64 (int64f (msToFrames 48000 v4WidthLowMax)) 1)))) = 1728"
      by code_simp
    have "1728 \<le> cfg_spMax0 cfg" using w r
      by (simp add: cfg_spMax0_def cfg_kLow_def cfg_wlCap_def k f(1) n cfg_spBase_def f(5))
    moreover have "0 \<le> trunc (mul64 (cfg_kHigh cfg) (int64f (cfg_whCap cfg)))"
      using scaled_nonneg cfg_positive[OF f(8)] by blast
    ultimately show ?thesis using w r d True by (simp add: cfg_capacity_def f(1,6) Let_def monoCap_def)
  next
    case False
    then show ?thesis using d by (simp add: cfg_capacity_def f(1,6) Let_def monoCap_def)
  qed
qed

lemma engine_jitter:
  assumes "engine_cfg_ok channels wfr rfr"
  obtains b where "NewJitterBuffer (sourceJitterConfig channels q red wfr rfr) = Inr b"
    "jb_inv b" "jb_writePos b = 0" "jb_readPos b = 0" "jb_nc b = channels" "int monoCap \<le> jb_capacity b"
proof -
  let ?cfg = "sourceJitterConfig channels q red wfr rfr"
  note f = scfg_fields[OF assms, of q red] and c = scfg_capacity[OF assms, of q red]
  obtain b where b: "NewJitterBuffer ?cfg = Inr b"
    using NewJitterBuffer_total[OF f(8-10)] f(3,4) assms by (auto simp: engine_cfg_ok_def)
  have "jb_nc b = cfg_nc ?cfg" "jb_capacity b = cfg_capacity ?cfg"
    using b by (auto simp: NewJitterBuffer_def split: if_splits)
  then show thesis using that[OF b NewJitterBuffer_inv[OF b f(8,9) c(2)]] f(2) c(1) by simp
qed

section \<open>Groups: seats and frames\<close>

lemma putChannel_nth:
  assumes "i < n" "length sc = FrameSize * n" "k < FrameSize * n"
  shows "putChannel n i pcm sc ! k = (if k mod n = i then padFrame pcm ! (k div n) else sc ! k)"
    and "length (putChannel n i pcm sc) = length sc"
proof -
  have *: "m \<le> FrameSize \<Longrightarrow> length (foldl (\<lambda>sc j. sc[j * n + i := padFrame pcm ! j]) sc [0..<m]) = length sc \<and>
    foldl (\<lambda>sc j. sc[j * n + i := padFrame pcm ! j]) sc [0..<m] ! k =
      (if k mod n = i \<and> k div n < m then padFrame pcm ! (k div n) else sc ! k)" for m
  proof (induction m)
    case (Suc m)
    have "m * n + i < length sc"
    proof -
      have "m * n + i < (m + 1) * n" using assms(1) by simp
      also have "\<dots> \<le> FrameSize * n" using Suc.prems by (intro mult_right_mono) simp_all
      finally show ?thesis using assms(2) by simp
    qed
    moreover have "k = m * n + i \<longleftrightarrow> k mod n = i \<and> k div n = m"
      using assms(1) div_mult_mod_eq[of k n] by auto
    ultimately show ?case using Suc by (auto simp: nth_list_update less_Suc_eq)
  qed simp
  have "k div n < FrameSize" using assms(3) by (simp add: less_mult_imp_div_less)
  then show "putChannel n i pcm sc ! k = (if k mod n = i then padFrame pcm ! (k div n) else sc ! k)"
    "length (putChannel n i pcm sc) = length sc" using *[of FrameSize] by (simp_all add: putChannel_def)
qed

lemma length_putChannel [simp]: "length (putChannel n i pcm sc) = length sc"
proof -
  have "length (foldl (\<lambda>sc j. sc[j * n + i := padFrame pcm ! j]) sc js) = length sc" for js
    by (induction js arbitrary: sc) simp_all
  then show ?thesis by (simp add: putChannel_def)
qed

text \<open>A seat as \<^verbatim>\<open>WriteFrame\<close> finds it: empty, or a ready member.\<close>

definition seat_ready :: "'d Codec \<Rightarrow> 'd Source option \<Rightarrow> bool" where
  "seat_ready cd m \<longleftrightarrow> (case m of None \<Rightarrow> True | Some s \<Rightarrow> src_ready cd s)"

lemma seat_ready_simps [simp]: "seat_ready cd None" "seat_ready cd (Some s) = src_ready cd s"
  by (simp_all add: seat_ready_def)

lemma memberPCM_total:
  assumes "seat_ready cd m"
  obtains pcm m' where "memberPCM cd mt m c = Some (pcm, m')" "seat_ready cd m'" "(m' = None) = (m = None)"
proof (cases m)
  case None
  then show thesis using that by (simp add: memberPCM_def seat_ready_def)
next
  case (Some s)
  have r: "src_ready cd s" using assms Some by (simp add: seat_ready_def)
  consider "gc_Audio c \<noteq> []" | "gc_Audio c = []" "gc_Lost c \<and> gc_AudioLikely c \<and> \<not> gc_Silence c"
    | "gc_Audio c = []" "\<not> (gc_Lost c \<and> gc_AudioLikely c \<and> \<not> gc_Silence c)" by blast
  then show thesis
  proof cases
    case 1
    obtain pcm s' where "decodePacket cd mt s (gc_Audio c) = Some (pcm, s')" "src_ready cd s'"
      using decodePacket_total[OF r] by metis
    then show thesis using that[of pcm "Some s'"] Some 1 by (simp add: memberPCM_def seat_ready_def)
  next
    case 2
    obtain pcm s' where "concealPCM cd s FrameSize = Some (pcm, s')" "src_ready cd s'"
      using concealPCM_total[OF r] by (metis order_refl)
    then show thesis using that[of pcm "Some s'"] Some 2 by (simp add: memberPCM_def seat_ready_def)
  next
    case 3
    then show thesis using that[of "[]" "Some s"] Some r by (auto simp: memberPCM_def seat_ready_def)
  qed
qed

text \<open>The channel a seat contributes to the interleaved frame.\<close>

definition seatPCM :: "'d Codec \<Rightarrow> Math \<Rightarrow> 'd Source option \<Rightarrow> GroupChannel \<Rightarrow> rat list" where
  "seatPCM cd mt m c = padFrame (fst (the (memberPCM cd mt m c)))"

lemma writeMembers_spec:
  assumes "length ms \<le> length cs" "i + length ms \<le> n" "list_all (seat_ready cd) ms" "length sc = FrameSize * n"
  shows "\<exists>ms' sc'. writeMembers cd mt n i ms cs sc = Some (ms', sc') \<and> list_all (seat_ready cd) ms' \<and>
    length ms' = length ms \<and> map (\<lambda>m. m = None) ms' = map (\<lambda>m. m = None) ms \<and> length sc' = length sc \<and>
    (\<forall>k<FrameSize * n. sc' ! k = (if i \<le> k mod n \<and> k mod n < i + length ms
       then seatPCM cd mt (ms ! (k mod n - i)) (cs ! (k mod n - i)) ! (k div n) else sc ! k))"
  using assms
proof (induction cd mt n i ms cs sc rule: writeMembers.induct)
  case (3 cd mt n i m ms c cs sc)
  obtain pcm m' where m: "memberPCM cd mt m c = Some (pcm, m')" "seat_ready cd m'" "(m' = None) = (m = None)"
    using memberPCM_total[of cd m mt c] 3(4) by auto
  have i: "i < n" using 3(3) by simp
  let ?sc = "putChannel n i pcm sc"
  obtain ms' sc' where w: "writeMembers cd mt n (Suc i) ms cs ?sc = Some (ms', sc')" "list_all (seat_ready cd) ms'"
    "length ms' = length ms" "map (\<lambda>m. m = None) ms' = map (\<lambda>m. m = None) ms" "length sc' = length ?sc"
    "\<forall>k<FrameSize * n. sc' ! k = (if Suc i \<le> k mod n \<and> k mod n < Suc i + length ms
       then seatPCM cd mt (ms ! (k mod n - Suc i)) (cs ! (k mod n - Suc i)) ! (k div n) else ?sc ! k)"
    using 3(1)[OF m(1) refl] 3(2-5) by auto
  have "sc' ! k = (if i \<le> k mod n \<and> k mod n < i + length (m # ms)
       then seatPCM cd mt ((m # ms) ! (k mod n - i)) ((c # cs) ! (k mod n - i)) ! (k div n) else sc ! k)"
    if k: "k < FrameSize * n" for k
    using w(6) k putChannel_nth(1)[OF i 3(5) k, of pcm] m(1)
    by (cases "k mod n = i") (auto simp: nth_Cons' seatPCM_def Suc_le_eq)
  then show ?case using w(1-5) m by (intro exI[of _ "m' # ms'"] exI[of _ sc']) simp
qed auto

lemma pinPoses_spec:
  assumes "length cs \<le> length ms" "list_all (seat_ready cd) ms"
  shows "\<exists>ms'. pinPoses seq pos ms cs = Some ms' \<and> list_all (seat_ready cd) ms' \<and> length ms' = length ms \<and>
    map (\<lambda>m. m = None) ms' = map (\<lambda>m. m = None) ms"
  using assms
proof (induction seq pos ms cs rule: pinPoses.induct)
  case (3 seq pos m ms c cs)
  then show ?case by (auto split: option.splits)
qed auto

text \<open>The group as the mixer keeps it: one buffer of \<open>sg_n\<close> channels whose position is the group's own
  count, scratch frames of the right length, every occupied seat ready.\<close>

definition sg_aligned :: "'d Codec \<Rightarrow> SourceGroup \<Rightarrow> 'd Source option list \<Rightarrow> bool" where
  "sg_aligned cd g ms \<longleftrightarrow> jb_inv (sg_jitter g) \<and> jb_nc (sg_jitter g) = int (sg_n g) \<and>
     jb_writePos (sg_jitter g) = int (sg_samplesWritten g) \<and> int monoCap \<le> jb_capacity (sg_jitter g) \<and>
     length (sg_writeScratch g) = FrameSize * sg_n g \<and> length (sg_readScratch g) = FrameSize * sg_n g \<and>
     length ms = sg_n g \<and> list_all (seat_ready cd) ms"

text \<open>The frame the set contributes: sample \<open>j\<close> of every seat, in seat order, silence where a seat has no
  audio for it.\<close>

definition lockFrames :: "'d Codec \<Rightarrow> Math \<Rightarrow> 'd Source option list \<Rightarrow> GroupChannel list \<Rightarrow> rat list list" where
  "lockFrames cd mt ms chans = (if \<exists>c\<in>set chans. carriesAudio c
     then map (\<lambda>j. map (\<lambda>i. seatPCM cd mt (ms ! i) (chans ! i) ! j) [0..<length ms]) [0..<FrameSize] else [])"

lemma frames_interleaved:
  assumes "length sc = FrameSize * n" "0 < n" "\<And>k. k < FrameSize * n \<Longrightarrow> sc ! k = f (k mod n) (k div n)"
  shows "frames n sc = map (\<lambda>j. map (\<lambda>i. f i j) [0..<n]) [0..<FrameSize]"
proof (rule nth_equalityI)
  show "length (frames n sc) = length (map (\<lambda>j. map (\<lambda>i. f i j) [0..<n]) [0..<FrameSize])" using assms by simp
  fix j assume "j < length (frames n sc)"
  then have j: "j < FrameSize" "j < length sc div n" using assms(1,2) by auto
  have b: "j * n + n \<le> length sc" using frame_bound[OF j(2)] .
  have "frame n sc j = map (\<lambda>i. f i j) [0..<n]"
  proof (rule nth_equalityI)
    show "length (frame n sc j) = length (map (\<lambda>i. f i j) [0..<n])" using length_frame[OF j(2)] by simp
    fix i assume "i < length (frame n sc j)"
    then have i: "i < n" using length_frame[OF j(2)] by simp
    then have "j * n + i < FrameSize * n" using b assms(1) by linarith
    from assms(3)[OF this] show "frame n sc j ! i = map (\<lambda>i. f i j) [0..<n] ! i" using i b by (simp add: frame_def)
  qed
  then show "frames n sc ! j = map (\<lambda>j. map (\<lambda>i. f i j) [0..<n]) [0..<FrameSize] ! j" using j by simp
qed

lemma WriteFrame_spec:
  assumes a: "sg_aligned cd g ms" and l: "length chans = sg_n g" and h: "jb_holds (sg_jitter g) S"
  obtains g' ms' where "WriteFrame cd mt g ms seq chans = Some (g', ms')" "sg_aligned cd g' ms'"
    "sg_samplesWritten g' = sg_samplesWritten g + length (lockFrames cd mt ms chans)"
    "jb_holds (sg_jitter g') (S @ lockFrames cd mt ms chans)"
proof (cases "\<exists>c\<in>set chans. carriesAudio c")
  case False
  then have f: "lockFrames cd mt ms chans = []" by (simp add: lockFrames_def)
  obtain ms' where m: "pinPoses seq (sg_samplesWritten g) ms chans = Some ms'" "list_all (seat_ready cd) ms'"
    "length ms' = length ms" using pinPoses_spec[of chans ms cd seq "sg_samplesWritten g"] a l by (auto simp: sg_aligned_def)
  have w: "WriteFrame cd mt g ms seq chans = Some (g, ms')" using False m(1) by (simp add: WriteFrame_def)
  have "sg_aligned cd g ms'" using a m(2,3) by (simp add: sg_aligned_def)
  from that[OF w this] show thesis using f h by simp
next
  case True
  let ?n = "sg_n g" and ?b = "sg_jitter g"
  have i: "jb_inv ?b" and nc: "jb_nc ?b = int ?n" and len: "length ms = ?n" "length (sg_writeScratch g) = FrameSize * ?n"
    and n: "0 < ?n" using a by (auto simp: sg_aligned_def jb_inv_def jb_geom_def)
  obtain ms1 sc where w: "writeMembers cd mt ?n 0 ms chans (sg_writeScratch g) = Some (ms1, sc)" "list_all (seat_ready cd) ms1"
    "length ms1 = length ms" "length sc = FrameSize * ?n"
    "\<forall>k<FrameSize * ?n. sc ! k = (if 0 \<le> k mod ?n \<and> k mod ?n < 0 + length ms
       then seatPCM cd mt (ms ! (k mod ?n - 0)) (chans ! (k mod ?n - 0)) ! (k div ?n) else sg_writeScratch g ! k)"
    using writeMembers_spec[of ms chans 0 ?n cd "sg_writeScratch g" mt] a l len by (auto simp: sg_aligned_def)
  let ?g = "g \<lparr> sg_writeScratch := sc, sg_jitter := Write ?b sc, sg_samplesWritten := sg_samplesWritten g + FrameSize \<rparr>"
  obtain ms2 where p: "pinPoses seq (sg_samplesWritten ?g) ms1 chans = Some ms2" "list_all (seat_ready cd) ms2"
    "length ms2 = length ms1" using pinPoses_spec[of chans ms1 cd seq "sg_samplesWritten ?g"] w(2,3) len l by auto
  have fr: "frames ?n sc = lockFrames cd mt ms chans"
    using frames_interleaved[OF w(4) n, of "\<lambda>i j. seatPCM cd mt (ms ! i) (chans ! i) ! j"] w(5) True len(1) n
    by (simp add: lockFrames_def)
  have cap: "int FrameSize \<le> jb_capacity ?b" using a by (simp add: sg_aligned_def monoCap_def FrameSize_def)
  have pos: "jb_writePos (Write ?b sc) = jb_writePos ?b + int FrameSize" using Write_advance[OF i _ cap, of sc] w(4) nc by simp
  have "clipped ?b sc = (sc, int FrameSize)" using cap w(4) n nc by (simp add: clipped_def sdiv_nonneg)
  then have "jb_payload ?b sc = lockFrames cd mt ms chans" using fr nc by (simp add: jb_payload_def)
  then have "jb_holds (Write ?b sc) (S @ lockFrames cd mt ms chans)"
    using jring.holds_wr[of ?b S sc] i h by (simp add: jb_holds_jring)
  moreover have "sg_aligned cd ?g ms2"
    using a w(3,4) p pos Write_inv[OF i, of sc] Write_fixed[of ?b sc] by (simp add: sg_aligned_def fixed_eq)
  moreover have "length (lockFrames cd mt ms chans) = FrameSize" using True by (simp add: lockFrames_def)
  ultimately show thesis using that[of ?g ms2] True w(1) p(1) by (simp add: WriteFrame_def)
qed

lemma group_read_spec:
  assumes a: "sg_aligned cd g ms" and h: "jb_holds (sg_jitter g) S"
  obtains F where "sg_aligned cd (group_read g) ms" "jb_holds (sg_jitter (group_read g)) S"
    "if fst (Read (sg_jitter g) (sg_readScratch g)) then \<exists>p\<ge>nat (StreamReadPos (sg_jitter g)). plays S p F (sg_readPos (group_read g))
     else F = replicate FrameSize (replicate (sg_n g) 0)"
    "F = frames (sg_n g) (sg_readScratch (group_read g))" "sg_n (group_read g) = sg_n g"
proof -
  let ?n = "sg_n g" and ?b = "sg_jitter g"
  have i: "jb_inv ?b" and nc: "jb_nc ?b = int ?n" and len: "length (sg_readScratch g) = FrameSize * nat (jb_nc ?b)"
    and n: "0 < ?n" using a by (auto simp: sg_aligned_def jb_inv_def jb_geom_def)
  obtain ok sc b where r: "Read ?b (sg_readScratch g) = (ok, sc, b)" by (metis prod_cases3)
  have F0: "0 < FrameSize" by (simp add: FrameSize_def)
  note s = Read_stream[OF i h r len F0] and ri = Read_inv[OF i r]
  have g: "group_read g = g \<lparr> sg_readScratch := sc, sg_jitter := b, sg_readPos := nat (StreamReadPos b) \<rparr>"
    using r by (simp add: group_read_def)
  have "frames ?n sc = replicate FrameSize (replicate ?n 0)" if "\<not> ok"
  proof -
    have "sc = replicate (FrameSize * ?n) 0" using s(3)[OF that] len nc by (simp add: clear_slice_def)
    then show ?thesis using frames_interleaved[of sc ?n "\<lambda>_ _. 0"] n by (simp add: map_replicate_const)
  qed
  moreover have "\<exists>p\<ge>nat (StreamReadPos ?b). plays S p (frames ?n sc) (nat (StreamReadPos b))" if ok
    using s(4)[OF that] nc by (simp add: StreamReadPos_def)
  ultimately have F: "if fst (Read ?b (sg_readScratch g)) then \<exists>p\<ge>nat (StreamReadPos ?b). plays S p (frames ?n sc) (nat (StreamReadPos b))
      else frames ?n sc = replicate FrameSize (replicate ?n 0)" by (simp add: r)
  have "sg_aligned cd (group_read g) ms" using a ri s(1) by (simp add: g sg_aligned_def fixed_eq)
  then show thesis
  proof (rule that)
    show "if fst (Read ?b (sg_readScratch g)) then \<exists>p\<ge>nat (StreamReadPos ?b). plays S p (frames ?n sc) (sg_readPos (group_read g))
      else frames ?n sc = replicate FrameSize (replicate ?n 0)" unfolding g using F by simp
  qed (simp_all add: g s(2))
qed

lemma channel_frames:
  assumes "length (sg_readScratch g) = FrameSize * sg_n g" "i < sg_n g" "length dst = FrameSize"
  shows "channel g i dst = map (\<lambda>f. f ! i) (frames (sg_n g) (sg_readScratch g))"
proof (rule nth_equalityI)
  show "length (channel g i dst) = length (map (\<lambda>f. f ! i) (frames (sg_n g) (sg_readScratch g)))"
    using assms by (simp add: channel_def)
  fix j assume "j < length (channel g i dst)"
  then have j: "j < FrameSize" "j < length (sg_readScratch g) div sg_n g" using assms by (auto simp: channel_def)
  show "channel g i dst ! j = map (\<lambda>f. f ! i) (frames (sg_n g) (sg_readScratch g)) ! j"
    using j assms(2,3) frame_bound[OF j(2)] by (simp add: channel_def frame_def)
qed

section \<open>Properties\<close>

text \<open>Concrete instances for the examples: a codec of one sample a byte, a raw source, a quality-1 set of
  two.\<close>

definition demo_codec :: "unit Codec" where
  "demo_codec = \<lparr> cd_new = (\<lambda>n. if n = 1 \<or> n = 2 then Some () else None), cd_decode = (\<lambda>st pkt. (if length pkt \<le> 8 then Some (map (\<lambda>b. of_int (uint b)) pkt) else None, st)),
     cd_plc = (\<lambda>st n. (Some (replicate n 0), st)) \<rparr>"

lemma demo_codec_ok: "codec_ok demo_codec 1"
  by (auto simp: codec_ok_def demo_codec_def monoCap_def split: if_splits)

definition demo_source :: "JitterBuffer \<Rightarrow> unit Source" where
  "demo_source b = \<lparr> src_id = ''a'', src_jitter = Some b, src_decoder = Some \<lparr> od_state = (), od_channels = 1 \<rparr>,
     src_tone = None, src_raw = False, src_rawScratch = [], src_ring = newPoseRing, src_samplesWritten = 0,
     src_group = None, src_loudness = 0, src_loudEMA = 0, src_initialPose = zeroPose, src_decodeErrors = 0 \<rparr>"

lemma demo_engine_cfg: "engine_cfg_ok 1 (5 * millisecond) (5 * millisecond)" "engine_cfg_ok 2 (5 * millisecond) (5 * millisecond)"
  by code_simp+

lemma demo_source_ready: "src_ready demo_codec (demo_source b)"
  using demo_codec_ok by (simp add: src_ready_def demo_source_def)

text \<open>Every buffer the engine builds for a source or a set, at any quality level and redundancy and with
  frames of up to 60 ms, is constructed without a panic, satisfies the jitter buffer's invariant, and
  is long enough for the longest packet.\<close>

theorem engine_jitter_config_valid:
  assumes "engine_cfg_ok channels writerFrame readerFrame"
  shows "\<exists>b. NewJitterBuffer (sourceJitterConfig channels quality redundancy writerFrame readerFrame) = Inr b \<and>
    jb_inv b \<and> jb_nc b = channels \<and> jb_writePos b = 0 \<and> int monoCap \<le> jb_capacity b"
  using engine_jitter[OF assms, of quality redundancy] by metis

theorem engine_jitter_config_valid_witness:
  "engine_cfg_ok 2 (5 * millisecond) (5 * millisecond) \<and>
   (\<exists>b. NewJitterBuffer (sourceJitterConfig 2 1 3 (5 * millisecond) (5 * millisecond)) = Inr b \<and> jb_nc b = 2)"
  using engine_jitter_config_valid[OF demo_engine_cfg(2), of 1 3] demo_engine_cfg(2) by auto

text \<open>C22. A source's sample count and its jitter buffer never part: after any sequence of packets, PCM
  blocks, concealments and reads in which every PCM block and every concealment is at most the longest packet, 2880 samples, there has been no panic, the count is the buffer's write position,
  and no pose is pinned beyond it.\<close>

theorem source_stream_aligned:
  assumes "engine_cfg_ok 1 writerFrame readerFrame"
    and "NewJitterBuffer (sourceJitterConfig 1 quality redundancy writerFrame readerFrame) = Inr b"
    and "src_ready cd s0" "src_jitter s0 = Some b" "src_group s0 = None" "src_samplesWritten s0 = 0"
    and "src_ring s0 = newPoseRing" "list_all src_op_ok ops"
  shows "\<exists>s b'. src_exec cd mt groups s0 ops = Some s \<and> src_jitter s = Some b' \<and> jb_inv b' \<and>
    jb_writePos b' = int (src_samplesWritten s) \<and>
    (\<forall>e\<in>set (snapshot (src_ring s)). ps_endSample e \<le> src_samplesWritten s)"
proof -
  have "jb_inv b" "jb_writePos b = 0" "jb_nc b = 1" "int monoCap \<le> jb_capacity b"
    using engine_jitter[OF assms(1), of quality redundancy] assms(2) by auto
  then have "src_aligned cd s0" using assms(3-7) newPoseRing_ok by (fastforce simp: src_aligned_def)
  from src_exec_aligned[OF this assms(8), of mt groups] obtain s
    where s: "src_exec cd mt groups s0 ops = Some s" "src_aligned cd s" by auto
  then obtain b' S where b': "src_jitter s = Some b'" "jb_inv b'" "jb_writePos b' = int (src_samplesWritten s)"
    and S: "pr_ok (src_ring s)" "pring.holds (src_ring s) S" "\<forall>e\<in>set S. ps_endSample e \<le> src_samplesWritten s"
    by (auto simp: src_aligned_def)
  have "set (snapshot (src_ring s)) \<subseteq> set S" using snapshot_spec[OF S(1,2)] set_take_subset by fastforce
  then show ?thesis using s(1) b' S(3) by blast
qed

theorem source_stream_aligned_witness:
  "\<exists>b s b'. NewJitterBuffer (sourceJitterConfig 1 1 3 (5 * millisecond) (5 * millisecond)) = Inr b \<and>
     src_exec demo_codec demo_math (\<lambda>_. undefined) (demo_source b)
       [SrcOpus 1 (Some zeroPose) [1, 2], SrcConceal 240, SrcRead [0, 0]] = Some s \<and>
     src_jitter s = Some b' \<and> jb_writePos b' = int (src_samplesWritten s)"
proof -
  obtain b where b: "NewJitterBuffer (sourceJitterConfig 1 1 3 (5 * millisecond) (5 * millisecond)) = Inr b"
    using engine_jitter[OF demo_engine_cfg(1), of 1 3] by metis
  have "list_all src_op_ok [SrcOpus 1 (Some zeroPose) [1, 2], SrcConceal 240, SrcRead [0, 0]]" by (simp add: monoCap_def)
  from source_stream_aligned[OF demo_engine_cfg(1) b demo_source_ready _ _ _ _ this, of b demo_math "\<lambda>_. undefined"] b
  show ?thesis by (auto simp: demo_source_def)
qed

text \<open>Loss is accounted for in samples: concealing a lost packet advances the stream by exactly its
  duration, and a packet the decoder rejects advances it by exactly one frame and is counted.\<close>

theorem loss_accounting:
  assumes "src_aligned cd s" "src_tone s = None" "samples \<le> monoCap"
  shows "(\<exists>s'. Conceal cd s samples = Some s' \<and> src_samplesWritten s' = src_samplesWritten s + samples) \<and>
    (\<forall>d pkt seq pose. \<not> src_raw s \<and> src_decoder s = Some d \<and> pkt \<noteq> [] \<and> fst (cd_decode cd (od_state d) pkt) = None \<longrightarrow>
      (\<exists>s'. WriteOpus cd mt s seq pose pkt = Some s' \<and> src_samplesWritten s' = src_samplesWritten s + FrameSize \<and>
        src_decodeErrors s' = src_decodeErrors s + 1))"
proof (intro conjI allI impI)
  show "\<exists>s'. Conceal cd s samples = Some s' \<and> src_samplesWritten s' = src_samplesWritten s + samples"
    using Conceal_aligned[OF assms(1,3,2)] by metis
  fix d pkt seq pose
  assume h: "\<not> src_raw s \<and> src_decoder s = Some d \<and> pkt \<noteq> [] \<and> fst (cd_decode cd (od_state d) pkt) = None"
  obtain st where st: "cd_decode cd (od_state d) pkt = (None, st)" using h by (metis prod.collapse)
  let ?d = "d \<lparr> od_state := st \<rparr>"
  have "od_channels d \<in> {1, 2}" "codec_ok cd (od_channels d)" using assms(1) h by (auto simp: src_aligned_def src_ready_def)
  moreover have "FrameSize \<le> monoCap" by (simp add: FrameSize_def monoCap_def)
  ultimately obtain pcm d' where c: "od_Conceal cd ?d FrameSize = Some (pcm, d')" "length pcm = FrameSize"
    by (metis od_Conceal_total OpusInputDecoder.select_convs(2) OpusInputDecoder.surjective OpusInputDecoder.update_convs(1))
  obtain b where "src_jitter s = Some b" using assms(1) by (auto simp: src_aligned_def)
  then show "\<exists>s'. WriteOpus cd mt s seq pose pkt = Some s' \<and> src_samplesWritten s' = src_samplesWritten s + FrameSize \<and>
        src_decodeErrors s' = src_decodeErrors s + 1"
    using h st c assms(2) by (simp add: WriteOpus_def decodePacket_def od_Decode_def ingestPCM_def pushPose_def split: option.split)
qed

lemma demo_aligned:
  obtains b where "src_aligned demo_codec (demo_source b)"
proof -
  obtain b where "jb_inv b" "jb_writePos b = 0" "jb_nc b = 1" "int monoCap \<le> jb_capacity b"
    using engine_jitter[OF demo_engine_cfg(1), of 1 3] by metis
  then have "src_aligned demo_codec (demo_source b)" using newPoseRing_ok demo_source_ready
    by (fastforce simp: src_aligned_def demo_source_def)
  then show thesis by (rule that)
qed

theorem loss_accounting_witness:
  "\<exists>b s'. WriteOpus demo_codec demo_math (demo_source b) 1 None [1, 2, 3, 4, 5, 6, 7, 8, 9] = Some s' \<and>
     src_samplesWritten s' = 240 \<and> src_decodeErrors s' = 1"
proof -
  obtain b where b: "src_aligned demo_codec (demo_source b)" by (rule demo_aligned)
  have "src_tone (demo_source b) = None" "0 \<le> monoCap" by (simp_all add: demo_source_def)
  from conjunct2[OF loss_accounting[OF b this, of demo_math], rule_format,
      of "\<lparr> od_state = (), od_channels = 1 \<rparr>" "[1, 2, 3, 4, 5, 6, 7, 8, 9]" 1 None]
  show ?thesis by (auto simp: demo_source_def demo_codec_def FrameSize_def)
qed

text \<open>C23. A set is written in lockstep: one released frame with any audio adds exactly one frame's worth of
  samples to the shared stream, sample \<open>j\<close> of every seat side by side, silence for seats without audio;
  a frame without audio adds none. No seat, packet or loss flag makes it panic, and the shared
  position stays the buffer's.\<close>

theorem WriteFrame_lockstep:
  assumes "sg_aligned cd g ms" "length chans = sg_n g" "jb_holds (sg_jitter g) S"
  shows "\<exists>g' ms'. WriteFrame cd mt g ms seq chans = Some (g', ms') \<and>
    jb_holds (sg_jitter g') (S @ lockFrames cd mt ms chans) \<and>
    sg_samplesWritten g' = sg_samplesWritten g + length (lockFrames cd mt ms chans) \<and> sg_aligned cd g' ms'"
  using WriteFrame_spec[OF assms, of mt seq] by metis

definition demo_group :: "JitterBuffer \<Rightarrow> SourceGroup" where
  "demo_group b = \<lparr> sg_id = ''g'', sg_n = 2, sg_jitter = b, sg_members = [None, None], sg_live = 0,
     sg_samplesWritten = 0, sg_writeScratch = replicate (FrameSize * 2) 0, sg_readScratch = replicate (FrameSize * 2) 0,
     sg_readPos = 0 \<rparr>"

lemma demo_group_aligned:
  obtains b where "sg_aligned demo_codec (demo_group b) [Some (demo_source b), None]" "jb_holds (sg_jitter (demo_group b)) []"
proof -
  obtain b where "jb_inv b" "jb_writePos b = 0" "jb_nc b = 2" "int monoCap \<le> jb_capacity b"
    using engine_jitter[OF demo_engine_cfg(2), of 1 3] by metis
  then have "sg_aligned demo_codec (demo_group b) [Some (demo_source b), None]" "jb_holds (sg_jitter (demo_group b)) []"
    using demo_source_ready by (simp_all add: sg_aligned_def demo_group_def jb_holds_def)
  then show thesis by (rule that)
qed

theorem WriteFrame_lockstep_witness:
  "\<exists>b g' ms'. WriteFrame demo_codec demo_math (demo_group b) [Some (demo_source b), None] 1
     [\<lparr> gc_Pose = None, gc_Audio = [1, 2], gc_Lost = False, gc_AudioLikely = False, gc_Silence = False \<rparr>,
      \<lparr> gc_Pose = None, gc_Audio = [], gc_Lost = False, gc_AudioLikely = False, gc_Silence = False \<rparr>] = Some (g', ms') \<and>
     sg_samplesWritten g' = 240"
proof -
  let ?cs = "[\<lparr> gc_Pose = None, gc_Audio = [1, 2], gc_Lost = False, gc_AudioLikely = False, gc_Silence = False \<rparr>,
      \<lparr> gc_Pose = None, gc_Audio = [], gc_Lost = False, gc_AudioLikely = False, gc_Silence = False \<rparr>]"
  obtain b where b: "sg_aligned demo_codec (demo_group b) [Some (demo_source b), None]" "jb_holds (sg_jitter (demo_group b)) []"
    by (rule demo_group_aligned)
  have "length ?cs = sg_n (demo_group b)" by (simp add: demo_group_def)
  from WriteFrame_lockstep[OF b(1) this b(2), of demo_math 1] obtain g' ms' where
    "WriteFrame demo_codec demo_math (demo_group b) [Some (demo_source b), None] 1 ?cs = Some (g', ms')"
    "sg_samplesWritten g' = sg_samplesWritten (demo_group b) + length (lockFrames demo_codec demo_math [Some (demo_source b), None] ?cs)"
    by blast
  then show ?thesis by (auto simp: lockFrames_def carriesAudio_def demo_group_def FrameSize_def)
qed

text \<open>C24. The members of a set stay in step through the buffer: what the seats read in a tick is silence on
  all of them when the buffer has nothing to play, and otherwise one stretch of the shared stream whose joint correction, one frame merged or one
  added, falls on the same sample of every channel.\<close>

theorem group_channels_in_step:
  assumes "sg_aligned cd g ms" "jb_holds (sg_jitter g) S"
  shows "\<exists>F. (if fst (Read (sg_jitter g) (sg_readScratch g)) then \<exists>p\<ge>nat (StreamReadPos (sg_jitter g)). plays S p F (sg_readPos (group_read g))
       else F = replicate FrameSize (replicate (sg_n g) 0)) \<and>
    (\<forall>i < sg_n g. \<forall>dst. length dst = FrameSize \<longrightarrow> channel (group_read g) i dst = map (\<lambda>f. f ! i) F)"
proof -
  obtain F where F: "sg_aligned cd (group_read g) ms"
    "if fst (Read (sg_jitter g) (sg_readScratch g)) then \<exists>p\<ge>nat (StreamReadPos (sg_jitter g)). plays S p F (sg_readPos (group_read g))
       else F = replicate FrameSize (replicate (sg_n g) 0)"
    "F = frames (sg_n g) (sg_readScratch (group_read g))" "sg_n (group_read g) = sg_n g"
    using group_read_spec[OF assms] by metis
  have "\<forall>i < sg_n g. \<forall>dst. length dst = FrameSize \<longrightarrow> channel (group_read g) i dst = map (\<lambda>f. f ! i) F"
    using channel_frames[of "group_read g"] F(1,3,4) by (simp add: sg_aligned_def)
  then show ?thesis using F(2) by blast
qed

text \<open>A set of two with 10 ms written, sample \<open>i\<close> on the one seat and \<open>- i\<close> on the other, whose buffer owes one frame.\<close>

definition demo_pcm :: "rat list" where
  "demo_pcm = map (\<lambda>k. if even k then of_nat (k div 2) else - of_nat (k div 2)) [0..<960]"

lemma length_demo_pcm [simp]: "length demo_pcm = 960"
  by (simp add: demo_pcm_def)

definition demo_owing :: "JitterBuffer \<Rightarrow> SourceGroup" where
  "demo_owing b = demo_group (Write (b \<lparr> jb_debt := 1 \<rparr>) demo_pcm) \<lparr> sg_samplesWritten := 480 \<rparr>"

lemma owing_read_drops:
  assumes "jb_nc b = 2" "jb_readPos b = 0" "jb_writePos b = 480" "jb_setpoint b = 480" "jb_pendingTrim b = 0" "960 < jb_capacity b" "jb_w b = 240" "jb_r b = 240"
    "jb_gapRun b = 0" "8 \<le> jb_freezeReads b" "\<not> jb_frozen b" "jb_rawBuf b = []" "1 < jb_windowReads b" "jb_rate b = 0" "jb_debt b = 1" "jb_dropped b = 0"
  shows "fst (Read b (replicate 480 0)) \<and> jb_readPos (snd (snd (Read b (replicate 480 0)))) = 241 \<and> jb_dropped (snd (snd (Read b (replicate 480 0)))) = 1"
proof -
  have a: "add64 1 (div64 (mul64 0 x) y) = 1" for x y using f64_of_int[of 1] by (simp add: add64_def div64_def mul64_def)
  have m: "\<not> v4MaxDebt < 1" "\<not> 1 < - v4MaxDebt" by (simp_all add: v4MaxDebt_def)
  have n: "(480 :: int) sdiv 2 = 240" by (simp add: sdiv_nonneg)
  show ?thesis using assms
    by (simp add: Read_def n readStartup_def readPlace_def readTrim_def readValves_def sense_def senseGap_def accrueDebt_def readPlay_def Let_def a m)
qed

lemma demo_pair_buffer:
  obtains b where "NewJitterBuffer (sourceJitterConfig 2 0 0 (5 * millisecond) (5 * millisecond)) = Inr b" "jb_inv b" "jb_writePos b = 0" "jb_nc b = 2" "jb_readPos b = 0"
    "2880 \<le> jb_capacity b" "jb_setpoint b = 480" "jb_pendingTrim b = 0" "jb_w b = 240" "jb_r b = 240" "jb_gapRun b = 0" "8 \<le> jb_freezeReads b"
    "\<not> jb_frozen b" "jb_rawBuf b = []" "1 < jb_windowReads b" "jb_rate b = 0" "jb_dropped b = 0"
proof -
  let ?cfg = "sourceJitterConfig 2 0 0 (5 * millisecond) (5 * millisecond)"
  obtain b where b: "NewJitterBuffer ?cfg = Inr b" "jb_inv b" "jb_writePos b = 0" "jb_readPos b = 0" "jb_nc b = 2" "2880 \<le> jb_capacity b"
    using engine_jitter[OF demo_engine_cfg(2), of 0 0] unfolding monoCap_def by force
  have c: "cfg_spBase ?cfg = 480" "cfg_flDecl ?cfg \<le> 480" "cfg_w ?cfg = 240" "cfg_r ?cfg = 240" "1 < cfg_windowReads ?cfg" by code_simp+
  have "jb_spBase b = cfg_spBase ?cfg" "jb_spMax b = cfg_spMax ?cfg" "jb_setpoint b = min (max (cfg_spBase ?cfg) (cfg_flDecl ?cfg)) (cfg_spMax ?cfg)" "jb_w b = cfg_w ?cfg" "jb_r b = cfg_r ?cfg"
    "jb_windowReads b = cfg_windowReads ?cfg" "jb_pendingTrim b = 0" "jb_gapRun b = 0" "\<not> jb_frozen b" "jb_rawBuf b = []" "jb_rate b = 0" "jb_dropped b = 0"
    using b(1) by (auto simp: NewJitterBuffer_def split: if_splits)
  moreover have "8 \<le> jb_freezeReads b" "jb_spBase b \<le> jb_spMax b" using b(2) by (simp_all add: jb_inv_def jb_geom_def)
  ultimately show thesis using that[OF b(1-3,5,4,6)] c by simp
qed

theorem group_channels_in_step_witness:
  "\<exists>b F p. NewJitterBuffer (sourceJitterConfig 2 0 0 (5 * millisecond) (5 * millisecond)) = Inr b \<and>
     jb_dropped (sg_jitter (group_read (demo_owing b))) = 1 \<and> plays (frames 2 demo_pcm) p F 241 \<and>
     channel (group_read (demo_owing b)) 0 (replicate 240 0) = map (\<lambda>f. f ! 0) F \<and> channel (group_read (demo_owing b)) 1 (replicate 240 0) = map (\<lambda>f. f ! 1) F"
proof -
  obtain b where n: "NewJitterBuffer (sourceJitterConfig 2 0 0 (5 * millisecond) (5 * millisecond)) = Inr b"
    and b: "jb_inv b" "jb_writePos b = 0" "jb_nc b = 2" "jb_readPos b = 0"
    "2880 \<le> jb_capacity b" "jb_setpoint b = 480" "jb_pendingTrim b = 0" "jb_w b = 240" "jb_r b = 240" "jb_gapRun b = 0" "8 \<le> jb_freezeReads b"
    "\<not> jb_frozen b" "jb_rawBuf b = []" "1 < jb_windowReads b" "jb_rate b = 0" "jb_dropped b = 0" by (rule demo_pair_buffer)
  let ?b1 = "b \<lparr> jb_debt := 1 \<rparr>" let ?b2 = "Write ?b1 demo_pcm"
  have i: "jb_inv ?b1" using b(1,12) by (simp add: jb_inv_def jb_geom_def jb_place_def jb_sensing_def v4MaxDebt_def)
  have c: "clipped ?b1 demo_pcm = (demo_pcm, 480)" using b by (simp add: clipped_def sdiv_nonneg)
  have pl: "jb_payload ?b1 demo_pcm = frames 2 demo_pcm" using c b(3) by (simp add: jb_payload_def)
  have "jb_holds ?b1 []" using b(2) by (simp add: jb_holds_def)
  then have h: "jb_holds ?b2 (frames 2 demo_pcm)" using jring.holds_wr[OF i, of "[]" demo_pcm] pl by (simp add: jb_holds_jring)
  have w: "?b2 = ?b1 \<lparr> jb_data := writeToRing (jb_capacity b) 2 (jb_data b) demo_pcm 0 480, jb_writePos := 480 \<rparr>" using c b by (simp add: Write_def sdiv_nonneg)
  have rd: "fst (Read ?b2 (replicate 480 0)) \<and> jb_readPos (snd (snd (Read ?b2 (replicate 480 0)))) = 241 \<and> jb_dropped (snd (snd (Read ?b2 (replicate 480 0)))) = 1"
    by (rule owing_read_drops) (use b(5) in \<open>simp_all add: w b(2-4,6-16)\<close>)
  have g: "sg_jitter (demo_owing b) = ?b2" "sg_readScratch (demo_owing b) = replicate 480 0" "sg_n (demo_owing b) = 2" by (simp_all add: demo_owing_def demo_group_def FrameSize_def)
  have "sg_aligned demo_codec (demo_owing b) [Some (demo_source b), None]"
    using Write_inv[OF i, of demo_pcm] b demo_source_ready by (simp add: sg_aligned_def demo_owing_def demo_group_def w monoCap_def)
  from group_channels_in_step[OF this, unfolded g, OF h] rd
  obtain F p where F: "plays (frames 2 demo_pcm) p F (sg_readPos (group_read (demo_owing b)))"
    "\<forall>i < 2. \<forall>dst. length dst = FrameSize \<longrightarrow> channel (group_read (demo_owing b)) i dst = map (\<lambda>f. f ! i) F" by auto
  have "sg_readPos (group_read (demo_owing b)) = 241" "jb_dropped (sg_jitter (group_read (demo_owing b))) = 1"
    using rd by (simp_all add: group_read_def g StreamReadPos_def case_prod_unfold)
  moreover have "channel (group_read (demo_owing b)) 0 (replicate 240 0) = map (\<lambda>f. f ! 0) F" "channel (group_read (demo_owing b)) 1 (replicate 240 0) = map (\<lambda>f. f ! 1) F"
    using F(2) by (simp_all add: FrameSize_def)
  ultimately show ?thesis using n F(1) by metis
qed

text \<open>The seats of a set under any order of joins and leaves.\<close>

datatype seat_op = Join nat nat | Leave nat nat

fun seat_step :: "SourceGroup \<Rightarrow> seat_op \<Rightarrow> SourceGroup" where
  "seat_step g (Join s i) = join g s i"
| "seat_step g (Leave i s) = snd (leave g i s)"

fun seat_op_ok :: "nat \<Rightarrow> seat_op \<Rightarrow> bool" where
  "seat_op_ok n (Join s i) \<longleftrightarrow> i < n"
| "seat_op_ok n (Leave i s) \<longleftrightarrow> i < n"

definition occupied :: "SourceGroup \<Rightarrow> nat" where
  "occupied g = length (filter (\<lambda>m. m \<noteq> None) (sg_members g))"

lemma occupied_update:
  "i < length xs \<Longrightarrow> length (filter (\<lambda>m. m \<noteq> None) (xs[i := v])) + (if xs ! i \<noteq> None then 1 else 0) =
    length (filter (\<lambda>m. m \<noteq> None) xs) + (if v \<noteq> None then 1 else 0)"
proof (induction xs arbitrary: i)
  case (Cons x xs)
  show ?case
  proof (cases i)
    case (Suc j)
    then have "j < length xs" using Cons.prems by simp
    from Cons.IH[OF this] show ?thesis using Suc by (cases x; cases v; cases "xs ! j") simp_all
  qed simp
qed simp

lemma seat_step_live:
  assumes "sg_live g = int (occupied g)" "seat_op_ok (length (sg_members g)) op"
  shows "sg_live (seat_step g op) = int (occupied (seat_step g op)) \<and> length (sg_members (seat_step g op)) = length (sg_members g)"
proof (cases op)
  case (Join s i)
  then show ?thesis using assms occupied_update[of i "sg_members g" "Some s"] by (auto simp: join_def occupied_def split: if_splits)
next
  case (Leave i s)
  then show ?thesis using assms occupied_update[of i "sg_members g" None] by (auto simp: leave_def occupied_def Let_def split: if_splits)
qed

lemma seat_run_live:
  "sg_live g = int (occupied g) \<Longrightarrow>
   list_all (seat_op_ok (length (sg_members g))) ops \<Longrightarrow>
   sg_live (foldl seat_step g ops) = int (occupied (foldl seat_step g ops)) \<and>
     length (sg_members (foldl seat_step g ops)) = length (sg_members g)"
proof (induction ops arbitrary: g)
  case (Cons op ops)
  then show ?case using seat_step_live[of g op] Cons.IH[of "seat_step g op"] by simp
qed simp

text \<open>Seats of a set: whatever the order of joins and leaves, the live count is the number of occupied
  seats and a leave reports the set empty exactly when every seat is; and the leave of a predecessor
  displaced from its seat changes nothing, so a reconnecting client's successor is never evicted.\<close>

theorem group_seats:
  assumes "sg_members g0 = replicate n None" "sg_live g0 = 0"
    and "list_all (seat_op_ok n) ops"
    and "g = foldl seat_step g0 ops" "i < n"
  shows "sg_live g = int (occupied g) \<and>
    (fst (leave g i s) \<longleftrightarrow> (\<forall>m\<in>set (sg_members (snd (leave g i s))). m = None)) \<and>
    (s \<noteq> s' \<longrightarrow> snd (leave (join g s' i) i s) = join g s' i)"
proof -
  have 0: "sg_live g0 = int (occupied g0)" using assms(1,2) by (simp add: occupied_def)
  have r: "sg_live g = int (occupied g) \<and> length (sg_members g) = n"
    using seat_run_live[OF 0, of ops] assms(1,3,4) by simp
  have "sg_live (snd (leave g i s)) = int (occupied (snd (leave g i s)))"
    using seat_step_live[of g "Leave i s"] r assms(5) by simp
  moreover have "fst (leave g i s) \<longleftrightarrow> sg_live (snd (leave g i s)) = 0" by (simp add: leave_def Let_def)
  ultimately have "fst (leave g i s) \<longleftrightarrow> (\<forall>m\<in>set (sg_members (snd (leave g i s))). m = None)"
    by (simp add: occupied_def filter_empty_conv)
  then show ?thesis using r assms(5) by (auto simp: leave_def join_def Let_def)
qed

theorem group_seats_witness:
  "sg_live (foldl seat_step (demo_group demo_jb) [Join 7 0, Join 8 0, Leave 0 7]) = 1 \<and>
   \<not> fst (leave (foldl seat_step (demo_group demo_jb) [Join 7 0, Join 8 0, Leave 0 7]) 1 7)"
proof -
  have m: "sg_members (demo_group demo_jb) = replicate 2 None" "sg_live (demo_group demo_jb) = 0"
    by (simp_all add: demo_group_def numeral_2_eq_2)
  have o: "list_all (seat_op_ok 2) [Join 7 0, Join 8 0, Leave 0 7]" by simp
  from group_seats[OF m o refl, of 1 7 7] show ?thesis
    by (simp add: demo_group_def join_def leave_def occupied_def)
qed

end
