(* ===== verification/Mixer_Control.thy ===== *)
theory Mixer_Control
  imports Channels Sources "HOL-Library.AList"
begin

text \<open>
  The control plane of the mixer and its change queue (\<^verbatim>\<open>src/engine/engine/mixer.go\<close>, the add and remove
  halves of \<^verbatim>\<open>ambisink.go\<close>, \<^verbatim>\<open>params.go\<close>). The registry answers callers synchronously; each accepted call
  queues a change, and the audio thread applies the queue at the head of a tick. A closure on the
  queue is a value of the type \<open>change\<close>, \<open>applyChange\<close> its body. API calls and ticks are single steps: the
  model is that of callers whose calls on one entity do not overlap. The queue's depth of 4096, at
  which a caller blocks, is not modelled.

  Heap objects (sources, groups, sinks) are numbered handles. An entity is addressed by its id, under
  which \<^verbatim>\<open>ents\<close> holds it from \<^verbatim>\<open>ensureEntity\<close> to \<^verbatim>\<open>removeEntity\<close>; a slot holds that id. The handles of sinks
  whose C resources were released are recorded in order of release.
\<close>

section \<open>Configuration and state\<close>

record Config =
  cf_Order :: int
  cf_MaxEntities :: int
  cf_ReverbPreset :: int
  cf_Workers :: int
  cf_PureGoMixer :: bool

definition DefaultConfig :: Config where
  "DefaultConfig = \<lparr> cf_Order = 3, cf_MaxEntities = 64, cf_ReverbPreset = 3, cf_Workers = 16, cf_PureGoMixer = False \<rparr>"

text \<open>The encoders' configuration, and what lies outside the repository's Go code: the mathematics and matrix
  kernels, the near-field table, the alignment parameters of the installed HRTF set, and the two
  egress encoders. An egress encoder is a function of the sink and of every frame it was given so
  far, the last one included; \<open>None\<close> is an encode error. \<open>ev_convolver\<close> tells for which bus orders
  \<^verbatim>\<open>NewConvolverSet\<close> on the installed filter set returns instead of panicking.\<close>

definition encCfg :: "Config \<Rightarrow> MixerConfig" where
  "encCfg cfg = \<lparr> mc_MaxNodes = nat (cf_MaxEntities cfg), mc_FrameSize = FrameSize,
     mc_ChannelCount = (nat (cf_Order cfg) + 1) * (nat (cf_Order cfg) + 1), mc_Order = nat (cf_Order cfg), mc_Size = 1,
     mc_ReverbPreset = cf_ReverbPreset cfg, mc_PureGoMixer = cf_PureGoMixer cfg \<rparr>"

record Env =
  ev_math :: Math
  ev_bilateral :: Bilateral
  ev_sgemm :: sgemm
  ev_nfc :: nfcTable
  ev_encode :: "nat \<Rightarrow> rat list list \<Rightarrow> byte list option"
  ev_encodeMS :: "nat \<Rightarrow> rat list list \<Rightarrow> byte list option"
  ev_convolver :: "int \<Rightarrow> bool"

text \<open>A sink: its pose slot, the frames handed to its encoder, the packets it wrote with their sample
  stamps, and the encode errors.\<close>

record Sink =
  sk_pose :: "Pose option"
  sk_inputs :: "rat list list"
  sk_written :: "(byte list \<times> nat) list"
  sk_encodeErrors :: nat

definition newSink :: Sink where
  "newSink = \<lparr> sk_pose = None, sk_inputs = [], sk_written = [], sk_encodeErrors = 0 \<rparr>"

text \<open>The scratch mixers of a worker.\<close>

definition newWorker :: "Config \<Rightarrow> workerMixers" where
  "newWorker cfg = (NewAmbiMixer (encCfg cfg), Some (NewAmbiMixer (encCfg cfg)), NewAmbiMixer (reverbCfg (encCfg cfg)))"

datatype SourceCodec = SourceCodecOpus | SourceCodecRawF32

record SourceConfig =
  sc_Group :: "GroupSpec option"
  sc_Codec :: SourceCodec
  sc_InitialPose :: Pose
  sc_InputChannels :: int
  sc_JitterWriterFrame :: int
  sc_JitterReaderFrame :: int
  sc_Quality :: int
  sc_Redundancy :: int
  sc_TestTone :: rat
  sc_HeadFrame :: bool

definition applyDefaults :: "SourceConfig \<Rightarrow> SourceConfig" where
  "applyDefaults c = c \<lparr>
     sc_InputChannels := (if sc_InputChannels c = 0 then 1 else sc_InputChannels c),
     sc_JitterWriterFrame := (if sc_JitterWriterFrame c = 0 then 5 * millisecond else sc_JitterWriterFrame c),
     sc_JitterReaderFrame := (if sc_JitterReaderFrame c = 0 then 5 * millisecond else sc_JitterReaderFrame c) \<rparr>"

datatype merr = ErrClosed | ErrDuplicateSource | ErrDuplicateSink | ErrFull | ErrBadGroup | ErrUnknownEntity | ErrOther string

text \<open>A call returns a value or an error, or panics.\<close>

datatype 'a outcome = Ret 'a | Err merr | Panic string

record regEntry =
  re_src :: "SourceRef option"
  re_sink :: "nat option"
  re_ambi :: "(int \<times> nat) list"

definition emptyReg :: regEntry where
  "emptyReg = \<lparr> re_src = None, re_sink = None, re_ambi = [] \<rparr>"

text \<open>A queued closure, with the values it captures. The source's closure captures the group's id as
  well, which the group holds.\<close>

datatype change =
    ChAddSource string SourceRef Pose bool "(string \<times> nat) option"
  | ChAddSink string nat
  | ChAddAmbi string int nat
  | ChRemoveSource string
  | ChRemoveSink string
  | ChRemoveAmbi string int
  | ChParams string RenderParams
  | ChChannel string ChannelParams
  | ChMute string string bool
  | ChSolo string string bool
  | ChEntityMuted string bool

record 'd Mixer =
  mx_cfg :: Config
  mx_env :: Env
  mx_reg :: "string \<Rightarrow> regEntry option"
  mx_entityCount :: int
  mx_closed :: bool
  mx_stopped :: bool
  mx_groupReg :: "string \<Rightarrow> nat option"
  mx_changes :: "change list"
  mx_ents :: "string \<Rightarrow> entity option"
  mx_groups :: "(string \<times> nat) list"
  mx_slots :: "string option list"
  mx_channelTable :: "string \<Rightarrow> ChannelParams option"
  mx_audible :: "bool list list"
  mx_pairGain :: "rat list list"
  mx_pairAttExp :: "rat list list"
  mx_audibleDirty :: bool
  mx_personalMutes :: personal
  mx_personalSolos :: personal
  mx_tickCount :: int
  mx_frameStart :: nat
  mx_sources :: "nat \<Rightarrow> 'd Source option"
  mx_nextSource :: nat
  mx_groupHeap :: "nat \<Rightarrow> SourceGroup option"
  mx_nextGroup :: nat
  mx_sinks :: "nat \<Rightarrow> Sink"
  mx_ambis :: "nat \<Rightarrow> Sink"
  mx_shared :: "rat list"
  mx_workers :: "workerMixers list"
  mx_nextWork :: nat
  mx_nextSink :: nat
  mx_nextAmbi :: nat
  mx_nextUid :: nat
  mx_destroyed :: "nat list"
  mx_ambiDestroyed :: "nat list"

text \<open>\<open>banks\<close> is the set of orders the embedded HRTF set carries. \<open>Inl\<close> is a returned error, and in the one case that says so
  the panic of \<^verbatim>\<open>NewConvolverSet\<close>.\<close>

definition New :: "Env \<Rightarrow> (int \<Rightarrow> bool) \<Rightarrow> Config \<Rightarrow> string + 'd Mixer" where
  "New env banks cfg =
    (if cf_Order cfg < 2 \<or> cf_Order cfg > 5 then Inl ''engine: order must be 2..5''
     else if cf_MaxEntities cfg < 1 then Inl ''engine: MaxEntities must be >= 1''
     else if cf_Workers cfg < 1 then Inl ''engine: Workers must be >= 1''
     else if \<not> banks (cf_Order cfg) then Inl ''engine: HRTF set carries no filter bank of this order''
     else if \<not> ev_convolver env (cf_Order cfg) then Inl ''panic in NewConvolverSet''
     else let n = nat (cf_MaxEntities cfg) in
       Inr \<lparr> mx_cfg = cfg, mx_env = env, mx_reg = Map.empty, mx_entityCount = 0, mx_closed = False, mx_stopped = False,
         mx_groupReg = Map.empty, mx_changes = [], mx_ents = Map.empty, mx_groups = [],
         mx_slots = replicate n None, mx_channelTable = Map.empty,
         mx_audible = replicate n (replicate n False), mx_pairGain = replicate n (replicate n 0),
         mx_pairAttExp = replicate n (replicate n 0), mx_audibleDirty = False,
         mx_personalMutes = Map.empty, mx_personalSolos = Map.empty, mx_tickCount = 0, mx_frameStart = 0,
         mx_sources = Map.empty, mx_nextSource = 0, mx_groupHeap = Map.empty, mx_nextGroup = 0,
         mx_sinks = (\<lambda>_. newSink), mx_ambis = (\<lambda>_. newSink), mx_shared = NewSharedInputs (encCfg cfg),
         mx_workers = replicate (nat (cf_Workers cfg)) (newWorker cfg), mx_nextWork = 0,
         mx_nextSink = 0, mx_nextAmbi = 0, mx_nextUid = 0, mx_destroyed = [], mx_ambiDestroyed = [] \<rparr>)"

definition enqueue :: "'d Mixer \<Rightarrow> change \<Rightarrow> 'd Mixer" where
  "enqueue m c = m \<lparr> mx_changes := mx_changes m @ [c] \<rparr>"

section \<open>The registry\<close>

text \<open>The critical section the three \<^verbatim>\<open>Add\<close> calls share: refuse when closed, when the half is taken, or
  when a new entity would exceed the capacity.\<close>

definition admit :: "'d Mixer \<Rightarrow> string \<Rightarrow> (regEntry \<Rightarrow> bool) \<Rightarrow> merr \<Rightarrow> (regEntry \<Rightarrow> regEntry) \<Rightarrow> merr + 'd Mixer" where
  "admit m eid taken dup upd =
    (if mx_closed m then Inl ErrClosed
     else case mx_reg m eid of
       Some re \<Rightarrow> if taken re then Inl dup else Inr (m \<lparr> mx_reg := (mx_reg m)(eid \<mapsto> upd re) \<rparr>)
     | None \<Rightarrow>
        if mx_entityCount m \<ge> cf_MaxEntities (mx_cfg m) then Inl ErrFull
        else Inr (m \<lparr> mx_reg := (mx_reg m)(eid \<mapsto> upd emptyReg), mx_entityCount := mx_entityCount m + 1 \<rparr>))"

text \<open>The critical section of the three \<^verbatim>\<open>Remove\<close> calls: drop the half, and the entry with its last half.\<close>

definition release :: "'d Mixer \<Rightarrow> string \<Rightarrow> regEntry \<Rightarrow> 'd Mixer" where
  "release m eid re =
    (if re = emptyReg
     then m \<lparr> mx_reg := (mx_reg m)(eid := None), mx_entityCount := mx_entityCount m - 1 \<rparr>
     else m \<lparr> mx_reg := (mx_reg m)(eid \<mapsto> re) \<rparr>)"

definition Entities :: "'d Mixer \<Rightarrow> string set" where
  "Entities m = dom (mx_reg m)"

section \<open>Adding\<close>

definition newSource :: "string \<Rightarrow> SourceConfig \<Rightarrow> 'd Source" where
  "newSource eid cfg = \<lparr> src_id = eid, src_jitter = None, src_decoder = None, src_tone = None, src_raw = False,
     src_rawScratch = [], src_ring = newPoseRing, src_samplesWritten = 0, src_group = None, src_loudness = 0,
     src_loudEMA = 0, src_initialPose = sc_InitialPose cfg, src_decodeErrors = 0 \<rparr>"

definition withCodec :: "'d Codec \<Rightarrow> SourceConfig \<Rightarrow> 'd Source \<Rightarrow> string + 'd Source" where
  "withCodec cd cfg src =
    (if sc_Codec cfg = SourceCodecRawF32
     then Inr (src \<lparr> src_raw := True, src_rawScratch := replicate FrameSize 0 \<rparr>)
     else case NewOpusInputDecoder cd (sc_InputChannels cfg) of
       None \<Rightarrow> Inl ''opus decoder''
     | Some d \<Rightarrow> Inr (src \<lparr> src_decoder := Some d \<rparr>))"

text \<open>The set a member joins: the registered one, or a new one, registered at once.\<close>

definition lookupGroup :: "'d Mixer \<Rightarrow> GroupSpec \<Rightarrow> SourceConfig \<Rightarrow> 'd Mixer \<times> nat outcome" where
  "lookupGroup m gs cfg =
    (if gs_Index gs < 0 \<or> gs_Index gs \<ge> gs_Count gs \<or> gs_Count gs < 2 then (m, Err ErrBadGroup)
     else case Option.bind (mx_groupReg m (gs_ID gs)) (\<lambda>h. map_option (\<lambda>g. (h, g)) (mx_groupHeap m h)) of
       Some (h, g) \<Rightarrow> if int (sg_n g) \<noteq> gs_Count gs then (m, Err ErrBadGroup) else (m, Ret h)
     | None \<Rightarrow>
        (case newSourceGroup gs (sc_JitterWriterFrame cfg) (sc_JitterReaderFrame cfg) of
           Inl msg \<Rightarrow> (m, Panic msg)
         | Inr g \<Rightarrow> let h = mx_nextGroup m in
            (m \<lparr> mx_groupHeap := (mx_groupHeap m)(h \<mapsto> g), mx_nextGroup := h + 1,
                 mx_groupReg := (mx_groupReg m)(gs_ID gs \<mapsto> h) \<rparr>, Ret h)))"

definition buildSource :: "'d Codec \<Rightarrow> 'd Mixer \<Rightarrow> string \<Rightarrow> SourceConfig \<Rightarrow> 'd Mixer \<times> 'd Source outcome" where
  "buildSource cd m eid cfg =
    (if sc_TestTone cfg > 0 then
       (m, Ret ((newSource eid cfg) \<lparr> src_tone := Some (0, div64 (sc_TestTone cfg) (int64f SampleRateHz)) \<rparr>))
     else case sc_Group cfg of
       Some gs \<Rightarrow>
         (case lookupGroup m gs cfg of
            (m, Ret h) \<Rightarrow>
              (case withCodec cd cfg ((newSource eid cfg) \<lparr> src_group := Some (h, nat (gs_Index gs)) \<rparr>) of
                 Inl msg \<Rightarrow> (m, Panic msg) | Inr src \<Rightarrow> (m, Ret src))
          | (m, Err e) \<Rightarrow> (m, Err e)
          | (m, Panic msg) \<Rightarrow> (m, Panic msg))
     | None \<Rightarrow>
         (case NewJitterBuffer (sourceJitterConfig 1 (sc_Quality cfg) (sc_Redundancy cfg)
                  (sc_JitterWriterFrame cfg) (sc_JitterReaderFrame cfg)) of
            Inl msg \<Rightarrow> (m, Panic msg)
          | Inr b \<Rightarrow> (case withCodec cd cfg ((newSource eid cfg) \<lparr> src_jitter := Some b \<rparr>) of
              Inl msg \<Rightarrow> (m, Panic msg) | Inr src \<Rightarrow> (m, Ret src))))"

text \<open>\<^verbatim>\<open>group.join\<close> on the heap, and the part of the closure that names the group.\<close>

definition joinGroup :: "'d Mixer \<Rightarrow> 'd Source \<Rightarrow> nat \<Rightarrow> 'd Mixer" where
  "joinGroup m src h = (case src_group src of
     None \<Rightarrow> m
   | Some (g, i) \<Rightarrow> m \<lparr> mx_groupHeap := (mx_groupHeap m)(g := map_option (\<lambda>gr. join gr h i) (mx_groupHeap m g)) \<rparr>)"

definition groupName :: "'d Mixer \<Rightarrow> 'd Source \<Rightarrow> (string \<times> nat) option" where
  "groupName m src = Option.bind (src_group src) (\<lambda>(g, i). map_option (\<lambda>gr. (sg_id gr, g)) (mx_groupHeap m g))"

text \<open>\<^verbatim>\<open>AddSource\<close> up to the point where it hands its closure to the queue, which is after the lock is released: the
  handle and the change are what it still holds. The whole call then queues the change. As one step it is what happens
  when no other call queues in between; \<open>Mixer_Races\<close> separates the two.\<close>

definition AddSource_locked :: "'d Codec \<Rightarrow> 'd Mixer \<Rightarrow> string \<Rightarrow> SourceConfig \<Rightarrow> 'd Mixer \<times> (nat \<times> change) outcome" where
  "AddSource_locked cd m eid cfg0 =
    (let cfg = applyDefaults cfg0 in
     case buildSource cd m eid cfg of
       (m, Err e) \<Rightarrow> (m, Err e)
     | (m, Panic msg) \<Rightarrow> (m, Panic msg)
     | (m, Ret src) \<Rightarrow>
        let h = mx_nextSource m; ref = \<lparr> sr_handle = h, sr_group = src_group src \<rparr> in
        (case admit m eid (\<lambda>re. re_src re \<noteq> None) ErrDuplicateSource (\<lambda>re. re \<lparr> re_src := Some ref \<rparr>) of
           Inl e \<Rightarrow> (m, Err e)
         | Inr m \<Rightarrow>
            (joinGroup (m \<lparr> mx_sources := (mx_sources m)(h \<mapsto> src), mx_nextSource := h + 1 \<rparr>) src h,
             Ret (h, ChAddSource eid ref (sc_InitialPose cfg) (sc_HeadFrame cfg) (groupName m src)))))"

definition AddSource :: "'d Codec \<Rightarrow> 'd Mixer \<Rightarrow> string \<Rightarrow> SourceConfig \<Rightarrow> 'd Mixer \<times> nat outcome" where
  "AddSource cd m eid cfg0 = (case AddSource_locked cd m eid cfg0 of
     (m, Ret (h, c)) \<Rightarrow> (enqueue m c, Ret h)
   | (m, Err e) \<Rightarrow> (m, Err e)
   | (m, Panic msg) \<Rightarrow> (m, Panic msg))"

lemma AddSource_eq:
  "AddSource cd m eid cfg0 =
    (let cfg = applyDefaults cfg0 in
     case buildSource cd m eid cfg of
       (m, Err e) \<Rightarrow> (m, Err e)
     | (m, Panic msg) \<Rightarrow> (m, Panic msg)
     | (m, Ret src) \<Rightarrow>
        let h = mx_nextSource m; ref = \<lparr> sr_handle = h, sr_group = src_group src \<rparr> in
        (case admit m eid (\<lambda>re. re_src re \<noteq> None) ErrDuplicateSource (\<lambda>re. re \<lparr> re_src := Some ref \<rparr>) of
           Inl e \<Rightarrow> (m, Err e)
         | Inr m \<Rightarrow>
            (enqueue (joinGroup (m \<lparr> mx_sources := (mx_sources m)(h \<mapsto> src), mx_nextSource := h + 1 \<rparr>) src h)
               (ChAddSource eid ref (sc_InitialPose cfg) (sc_HeadFrame cfg) (groupName m src)), Ret h)))"
  by (simp add: AddSource_def AddSource_locked_def Let_def split: prod.split outcome.split sum.split)

text \<open>A sink is built before admission and released at once when refused.\<close>

definition AddSink :: "'d Mixer \<Rightarrow> string \<Rightarrow> 'd Mixer \<times> nat outcome" where
  "AddSink m eid =
    (let k = mx_nextSink m; m = m \<lparr> mx_nextSink := k + 1 \<rparr> in
     case admit m eid (\<lambda>re. re_sink re \<noteq> None) ErrDuplicateSink (\<lambda>re. re \<lparr> re_sink := Some k \<rparr>) of
       Inl e \<Rightarrow> (m \<lparr> mx_destroyed := mx_destroyed m @ [k] \<rparr>, Err e)
     | Inr m \<Rightarrow> (enqueue m (ChAddSink eid k), Ret k))"

text \<open>\<open>msOk\<close> tells whether \<^verbatim>\<open>NewOpusMSEncoder\<close> accepts the channel count.\<close>

definition AddAmbiSink :: "(int \<Rightarrow> bool) \<Rightarrow> 'd Mixer \<Rightarrow> string \<Rightarrow> int \<Rightarrow> 'd Mixer \<times> nat outcome" where
  "AddAmbiSink msOk m eid order =
    (if order < 2 \<or> order > 3 then (m, Err (ErrOther ''ambi sink order must be 2 or 3''))
     else if order > cf_Order (mx_cfg m) then (m, Err (ErrOther ''ambi sink order exceeds the bus order''))
     else if \<not> msOk ((order + 1) * (order + 1)) then (m, Err (ErrOther ''multistream encoder''))
     else
       let k = mx_nextAmbi m; m = m \<lparr> mx_nextAmbi := k + 1 \<rparr> in
       case admit m eid (\<lambda>re. map_of (re_ambi re) order \<noteq> None) ErrDuplicateSink
              (\<lambda>re. re \<lparr> re_ambi := AList.update order k (re_ambi re) \<rparr>) of
         Inl e \<Rightarrow> (m \<lparr> mx_ambiDestroyed := mx_ambiDestroyed m @ [k] \<rparr>, Err e)
       | Inr m \<Rightarrow> (enqueue m (ChAddAmbi eid order k), Ret k))"

section \<open>Removing and setting\<close>

text \<open>\<^verbatim>\<open>RemoveSource\<close> likewise: the section under the lock, with the change it will queue, and the whole call.\<close>

definition RemoveSource_locked :: "'d Mixer \<Rightarrow> string \<Rightarrow> 'd Mixer \<times> change option" where
  "RemoveSource_locked m eid = (case mx_reg m eid of
     None \<Rightarrow> (m, None)
   | Some re \<Rightarrow> if re_src re = None then (m, None)
       else (release m eid (re \<lparr> re_src := None \<rparr>), Some (ChRemoveSource eid)))"

definition RemoveSource :: "'d Mixer \<Rightarrow> string \<Rightarrow> 'd Mixer" where
  "RemoveSource m eid = (case RemoveSource_locked m eid of (m, None) \<Rightarrow> m | (m, Some c) \<Rightarrow> enqueue m c)"

lemma RemoveSource_eq:
  "RemoveSource m eid = (case mx_reg m eid of
     None \<Rightarrow> m
   | Some re \<Rightarrow> if re_src re = None then m
       else enqueue (release m eid (re \<lparr> re_src := None \<rparr>)) (ChRemoveSource eid))"
  by (simp add: RemoveSource_def RemoveSource_locked_def split: option.split)

definition RemoveSink :: "'d Mixer \<Rightarrow> string \<Rightarrow> 'd Mixer" where
  "RemoveSink m eid = (case mx_reg m eid of
     None \<Rightarrow> m
   | Some re \<Rightarrow> if re_sink re = None then m
       else enqueue (release m eid (re \<lparr> re_sink := None \<rparr>)) (ChRemoveSink eid))"

definition RemoveAmbiSink :: "'d Mixer \<Rightarrow> string \<Rightarrow> int \<Rightarrow> 'd Mixer" where
  "RemoveAmbiSink m eid order = (case mx_reg m eid of
     None \<Rightarrow> m
   | Some re \<Rightarrow> if map_of (re_ambi re) order = None then m
       else enqueue (release m eid (re \<lparr> re_ambi := AList.delete order (re_ambi re) \<rparr>)) (ChRemoveAmbi eid order))"

definition SetRenderParams :: "'d Mixer \<Rightarrow> string \<Rightarrow> RenderParams \<Rightarrow> 'd Mixer \<times> unit outcome" where
  "SetRenderParams m eid p =
    (if mx_reg m eid = None then (m, Err ErrUnknownEntity) else (enqueue m (ChParams eid p), Ret ()))"

definition SetChannel :: "'d Mixer \<Rightarrow> string \<Rightarrow> ChannelParams \<Rightarrow> 'd Mixer" where
  "SetChannel m name p = enqueue m (ChChannel name p)"

definition SetPersonalMute :: "'d Mixer \<Rightarrow> string \<Rightarrow> string \<Rightarrow> bool \<Rightarrow> 'd Mixer" where
  "SetPersonalMute m listener other muted = enqueue m (ChMute listener other muted)"

definition SetPersonalSolo :: "'d Mixer \<Rightarrow> string \<Rightarrow> string \<Rightarrow> bool \<Rightarrow> 'd Mixer" where
  "SetPersonalSolo m listener other solo = enqueue m (ChSolo listener other solo)"

definition SetEntityMuted :: "'d Mixer \<Rightarrow> string \<Rightarrow> bool \<Rightarrow> 'd Mixer \<times> unit outcome" where
  "SetEntityMuted m eid muted =
    (if mx_reg m eid = None then (m, Err ErrUnknownEntity) else (enqueue m (ChEntityMuted eid muted), Ret ()))"

section \<open>Applying a change on the audio thread\<close>

definition markAudibleDirty :: "'d Mixer \<Rightarrow> 'd Mixer" where
  "markAudibleDirty m = m \<lparr> mx_audibleDirty := True \<rparr>"

definition setEnt :: "'d Mixer \<Rightarrow> entity \<Rightarrow> 'd Mixer" where
  "setEnt m e = m \<lparr> mx_ents := (mx_ents m)(ent_id e \<mapsto> e) \<rparr>"

text \<open>First fit over the slots.\<close>

fun freeSlot :: "nat \<Rightarrow> string option list \<Rightarrow> nat option" where
  "freeSlot i [] = None"
| "freeSlot i (None # s) = Some i"
| "freeSlot i (Some x # s) = freeSlot (Suc i) s"

definition listenerEncoder :: "'d Mixer \<Rightarrow> nat \<Rightarrow> bool \<Rightarrow> RenderParams \<Rightarrow> nat \<Rightarrow> bool \<Rightarrow> string + Encoder" where
  "listenerEncoder m uid hasInput p slot bilateral =
    (case newEncoder (ev_math (mx_env m)) (ev_bilateral (mx_env m)) uid hasInput (rp_Gain p) (rp_Attenuation p) (encCfg (mx_cfg m)) slot bilateral of
       Inl msg \<Rightarrow> Inl msg
     | Inr e \<Rightarrow> Inr (SetPairScalars (SetSharedInputs e True) slot))"

definition newEntity :: "'d Mixer \<Rightarrow> string \<Rightarrow> nat \<Rightarrow> nat \<Rightarrow> string + entity" where
  "newEntity m eid uid slot = (let p = DefaultRenderParams in
     case listenerEncoder m uid True p slot True of
       Inl msg \<Rightarrow> Inl msg
     | Inr enc \<Rightarrow> Inr \<lparr> ent_id = eid, ent_uid = uid, ent_slot = slot, ent_enc = enc,
         ent_src = None, ent_sink = None, ent_params = p, ent_ambiEnc = None, ent_ambiSinks = [], ent_peers = [] \<rparr>)"

definition ensureEntity :: "'d Mixer \<Rightarrow> string \<Rightarrow> string + entity \<times> 'd Mixer" where
  "ensureEntity m eid = (case mx_ents m eid of
     Some e \<Rightarrow> Inr (e, m)
   | None \<Rightarrow> (case freeSlot 0 (mx_slots m) of
       None \<Rightarrow> Inl ''engine: no free slot''
     | Some slot \<Rightarrow> (case newEntity m eid (mx_nextUid m) slot of
         Inl msg \<Rightarrow> Inl msg
       | Inr e \<Rightarrow> Inr (e, m \<lparr> mx_nextUid := mx_nextUid m + 1, mx_ents := (mx_ents m)(eid \<mapsto> e), mx_slots := (mx_slots m)[slot := Some eid] \<rparr>))))"

definition removeEntity :: "'d Mixer \<Rightarrow> entity \<Rightarrow> 'd Mixer" where
  "removeEntity m e = markAudibleDirty (m \<lparr> mx_ents := (mx_ents m)(ent_id e := None),
     mx_personalMutes := (mx_personalMutes m)(ent_id e := None),
     mx_personalSolos := (mx_personalSolos m)(ent_id e := None),
     mx_slots := (mx_slots m)[ent_slot e := None] \<rparr>)"

text \<open>\<^verbatim>\<open>g.leave\<close> on the heap, dropping the set from both registries when it is empty; the control-plane entry
  only if it is still this set.\<close>

definition leaveGroup :: "'d Mixer \<Rightarrow> SourceRef \<Rightarrow> 'd Mixer" where
  "leaveGroup m r = (case sr_group r of
     None \<Rightarrow> m
   | Some (h, i) \<Rightarrow> (case mx_groupHeap m h of
       None \<Rightarrow> m
     | Some g \<Rightarrow>
        let (empty, g') = leave g i (sr_handle r);
            m = m \<lparr> mx_groupHeap := (mx_groupHeap m)(h \<mapsto> g') \<rparr>
        in if empty then m \<lparr> mx_groups := AList.delete (sg_id g) (mx_groups m),
               mx_groupReg := (if mx_groupReg m (sg_id g) = Some h then (mx_groupReg m)(sg_id g := None) else mx_groupReg m) \<rparr>
           else m))"

text \<open>The one classic encoder shared by the ambisonic sinks of an entity.\<close>

definition ensureAmbiEncoder :: "'d Mixer \<Rightarrow> entity \<Rightarrow> string + entity" where
  "ensureAmbiEncoder m e = (case ent_ambiEnc e of
     Some _ \<Rightarrow> Inr e
   | None \<Rightarrow> (case listenerEncoder m (ent_uid e) False (ent_params e) (ent_slot e) False of
       Inl msg \<Rightarrow> Inl msg
     | Inr enc \<Rightarrow> Inr (e \<lparr> ent_ambiEnc := Some enc \<rparr>)))"

fun applyChange :: "change \<Rightarrow> 'd Mixer \<Rightarrow> string + 'd Mixer" where
  "applyChange (ChAddSource eid ref pose headFrame grp) m =
    (case ensureEntity m eid of
       Inl msg \<Rightarrow> Inl msg
     | Inr (e, m) \<Rightarrow>
        let e = e \<lparr> ent_src := Some ref, ent_enc := SetHeadFrameSource (SetPosition (ent_enc e) (position pose)) headFrame \<rparr>;
            m = setEnt m e
        in Inr (markAudibleDirty (case grp of None \<Rightarrow> m | Some (gid, g) \<Rightarrow> m \<lparr> mx_groups := AList.update gid g (mx_groups m) \<rparr>)))"
| "applyChange (ChAddSink eid k) m =
    (case ensureEntity m eid of
       Inl msg \<Rightarrow> Inl msg
     | Inr (e, m) \<Rightarrow> Inr (markAudibleDirty (setEnt m (e \<lparr> ent_sink := Some k \<rparr>))))"
| "applyChange (ChAddAmbi eid order k) m =
    (case ensureEntity m eid of
       Inl msg \<Rightarrow> Inl msg
     | Inr (e, m) \<Rightarrow>
        (case ensureAmbiEncoder m e of
           Inl msg \<Rightarrow> Inl msg
         | Inr e \<Rightarrow> Inr (markAudibleDirty (setEnt m (e \<lparr> ent_ambiSinks := AList.update order k (ent_ambiSinks e) \<rparr>)))))"
| "applyChange (ChRemoveSource eid) m =
    (case mx_ents m eid of
       None \<Rightarrow> Inr m
     | Some e \<Rightarrow> (case ent_src e of
         None \<Rightarrow> Inl ''nil pointer dereference''
       | Some r \<Rightarrow>
          let e = e \<lparr> ent_src := None \<rparr>; m = setEnt (leaveGroup m r) e
          in Inr (if ent_sink e = None \<and> ent_ambiSinks e = [] then removeEntity m e else m)))"
| "applyChange (ChRemoveSink eid) m =
    (case mx_ents m eid of
       None \<Rightarrow> Inr m
     | Some e \<Rightarrow> (case ent_sink e of
         None \<Rightarrow> Inr m
       | Some k \<Rightarrow>
          let e = e \<lparr> ent_sink := None \<rparr>; m = setEnt (m \<lparr> mx_destroyed := mx_destroyed m @ [k] \<rparr>) e
          in Inr (if ent_src e = None then removeEntity m e else m)))"
| "applyChange (ChRemoveAmbi eid order) m =
    (case mx_ents m eid of
       None \<Rightarrow> Inr m
     | Some e \<Rightarrow>
        let (e, m) = (case map_of (ent_ambiSinks e) order of
                 None \<Rightarrow> (e, m)
               | Some k \<Rightarrow> (e \<lparr> ent_ambiSinks := AList.delete order (ent_ambiSinks e) \<rparr>,
                            m \<lparr> mx_ambiDestroyed := mx_ambiDestroyed m @ [k] \<rparr>));
            e = (if ent_ambiSinks e = [] then e \<lparr> ent_ambiEnc := None \<rparr> else e);
            m = setEnt m e
        in Inr (if ent_src e = None \<and> ent_sink e = None \<and> ent_ambiSinks e = [] then removeEntity m e else m))"
| "applyChange (ChParams eid p) m =
    (case mx_ents m eid of
       None \<Rightarrow> Inr m
     | Some e \<Rightarrow> Inr (markAudibleDirty (setEnt m (e \<lparr> ent_params := p,
         ent_enc := SetDirectivity (SetSize (SetAttenuation (SetGain (ent_enc e) (rp_Gain p)) (rp_Attenuation p)) (rp_Size p))
           (rp_Directivity p) \<rparr>))))"
| "applyChange (ChChannel name p) m = Inr (markAudibleDirty (m \<lparr> mx_channelTable := (mx_channelTable m)(name \<mapsto> p) \<rparr>))"
| "applyChange (ChMute l r b) m = Inr (markAudibleDirty (m \<lparr> mx_personalMutes := setPersonal (mx_personalMutes m) l r b \<rparr>))"
| "applyChange (ChSolo l r b) m = Inr (markAudibleDirty (m \<lparr> mx_personalSolos := setPersonal (mx_personalSolos m) l r b \<rparr>))"
| "applyChange (ChEntityMuted eid b) m =
    (case mx_ents m eid of
       None \<Rightarrow> Inr m
     | Some e \<Rightarrow> Inr (setEnt m (e \<lparr> ent_enc := SetSpaceMuted (ent_enc e) b \<rparr>)))"

fun applyAll :: "change list \<Rightarrow> 'd Mixer \<Rightarrow> string + 'd Mixer" where
  "applyAll [] m = Inr m"
| "applyAll (c # cs) m = (case applyChange c m of Inl msg \<Rightarrow> Inl msg | Inr m \<Rightarrow> applyAll cs m)"

definition drainChanges :: "'d Mixer \<Rightarrow> string + 'd Mixer" where
  "drainChanges m = applyAll (mx_changes m) (m \<lparr> mx_changes := [] \<rparr>)"

section \<open>Closing\<close>

text \<open>What \<^verbatim>\<open>Close\<close> does to one slot's entity: release the sink and every ambisonic sink still attached.\<close>

definition closeSlot :: "'d Mixer \<Rightarrow> string option \<Rightarrow> 'd Mixer" where
  "closeSlot m s = (case Option.bind s (mx_ents m) of
     None \<Rightarrow> m
   | Some e \<Rightarrow> setEnt (m \<lparr> mx_destroyed := mx_destroyed m @ (case ent_sink e of None \<Rightarrow> [] | Some k \<Rightarrow> [k]),
         mx_ambiDestroyed := mx_ambiDestroyed m @ map snd (ent_ambiSinks e) \<rparr>)
       (e \<lparr> ent_sink := None, ent_ambiSinks := [], ent_ambiEnc := None \<rparr>))"

definition Close :: "'d Mixer \<Rightarrow> string + 'd Mixer" where
  "Close m =
    (let m = m \<lparr> mx_closed := True \<rparr> in
     if mx_stopped m then Inr m
     else case drainChanges (m \<lparr> mx_stopped := True \<rparr>) of
       Inl msg \<Rightarrow> Inl msg
     | Inr m \<Rightarrow> Inr (foldl closeSlot m (mx_slots m)))"

end
