(* ===== verification/Mixer_Safety.thy ===== *)
theory Mixer_Safety
  imports Mixer_Control
begin

text \<open>
  The mixer's two views and their agreement. \<open>replay\<close> is the effect of a queued change on the registry;
  the registry a caller sees is the audio thread's registry with the queue replayed on it. The
  invariant \<open>mxInv\<close> ties the audio-side entities to that registry point by point (\<open>agree\<close>), the slots to
  the entities, and the counter to the registry; every call and every applied change keeps it, and
  under it no change panics.
\<close>

section \<open>The registry as of the applied changes\<close>

type_synonym registry = "string \<Rightarrow> regEntry option"

definition addHalf :: "registry \<Rightarrow> string \<Rightarrow> (regEntry \<Rightarrow> regEntry) \<Rightarrow> registry" where
  "addHalf \<sigma> eid upd = \<sigma>(eid \<mapsto> upd (case \<sigma> eid of None \<Rightarrow> emptyReg | Some re \<Rightarrow> re))"

definition dropHalf :: "registry \<Rightarrow> string \<Rightarrow> (regEntry \<Rightarrow> regEntry) \<Rightarrow> registry" where
  "dropHalf \<sigma> eid upd = (case \<sigma> eid of None \<Rightarrow> \<sigma>
     | Some re \<Rightarrow> if upd re = emptyReg then \<sigma>(eid := None) else \<sigma>(eid \<mapsto> upd re))"

fun replay :: "change \<Rightarrow> registry \<Rightarrow> registry" where
  "replay (ChAddSource eid ref pose hf grp) \<sigma> = addHalf \<sigma> eid (\<lambda>re. re \<lparr> re_src := Some ref \<rparr>)"
| "replay (ChAddSink eid k) \<sigma> = addHalf \<sigma> eid (\<lambda>re. re \<lparr> re_sink := Some k \<rparr>)"
| "replay (ChAddAmbi eid order k) \<sigma> = addHalf \<sigma> eid (\<lambda>re. re \<lparr> re_ambi := AList.update order k (re_ambi re) \<rparr>)"
| "replay (ChRemoveSource eid) \<sigma> = dropHalf \<sigma> eid (\<lambda>re. re \<lparr> re_src := None \<rparr>)"
| "replay (ChRemoveSink eid) \<sigma> = dropHalf \<sigma> eid (\<lambda>re. re \<lparr> re_sink := None \<rparr>)"
| "replay (ChRemoveAmbi eid order) \<sigma> = dropHalf \<sigma> eid (\<lambda>re. re \<lparr> re_ambi := AList.delete order (re_ambi re) \<rparr>)"
| "replay _ \<sigma> = \<sigma>"

text \<open>What the critical sections guarantee of a change at the point where it is queued.\<close>

definition admitted :: "nat \<Rightarrow> registry \<Rightarrow> string \<Rightarrow> (regEntry \<Rightarrow> bool) \<Rightarrow> bool" where
  "admitted n \<sigma> eid taken \<longleftrightarrow> (case \<sigma> eid of None \<Rightarrow> card (dom \<sigma>) < n | Some re \<Rightarrow> \<not> taken re)"

definition registered :: "registry \<Rightarrow> string \<Rightarrow> (regEntry \<Rightarrow> bool) \<Rightarrow> bool" where
  "registered \<sigma> eid P \<longleftrightarrow> (case \<sigma> eid of None \<Rightarrow> False | Some re \<Rightarrow> P re)"

fun chValid :: "nat \<Rightarrow> registry \<Rightarrow> change \<Rightarrow> bool" where
  "chValid n \<sigma> (ChAddSource eid ref pose hf grp) \<longleftrightarrow> admitted n \<sigma> eid (\<lambda>re. re_src re \<noteq> None)"
| "chValid n \<sigma> (ChAddSink eid k) \<longleftrightarrow> admitted n \<sigma> eid (\<lambda>re. re_sink re \<noteq> None)"
| "chValid n \<sigma> (ChAddAmbi eid order k) \<longleftrightarrow> admitted n \<sigma> eid (\<lambda>re. map_of (re_ambi re) order \<noteq> None)"
| "chValid n \<sigma> (ChRemoveSource eid) \<longleftrightarrow> registered \<sigma> eid (\<lambda>re. re_src re \<noteq> None)"
| "chValid n \<sigma> (ChRemoveSink eid) \<longleftrightarrow> registered \<sigma> eid (\<lambda>re. re_sink re \<noteq> None)"
| "chValid n \<sigma> (ChRemoveAmbi eid order) \<longleftrightarrow> registered \<sigma> eid (\<lambda>re. map_of (re_ambi re) order \<noteq> None)"
| "chValid n \<sigma> _ \<longleftrightarrow> True"

fun queueOk :: "nat \<Rightarrow> registry \<Rightarrow> change list \<Rightarrow> bool" where
  "queueOk n \<sigma> [] \<longleftrightarrow> True"
| "queueOk n \<sigma> (c # cs) \<longleftrightarrow> chValid n \<sigma> c \<and> queueOk n (replay c \<sigma>) cs"

definition replayAll :: "change list \<Rightarrow> registry \<Rightarrow> registry" where
  "replayAll cs \<sigma> = fold replay cs \<sigma>"

lemma queueOk_append: "queueOk n \<sigma> (cs @ ds) \<longleftrightarrow> queueOk n \<sigma> cs \<and> queueOk n (replayAll cs \<sigma>) ds"
  by (induction cs arbitrary: \<sigma>) (auto simp: replayAll_def)

lemma replayAll_append: "replayAll (cs @ ds) \<sigma> = replayAll ds (replayAll cs \<sigma>)"
  by (simp add: replayAll_def)

definition regBound :: "nat \<Rightarrow> registry \<Rightarrow> bool" where
  "regBound n \<sigma> \<longleftrightarrow> finite (dom \<sigma>) \<and> card (dom \<sigma>) \<le> n"

lemma addHalf_bound: "regBound n \<sigma> \<Longrightarrow> admitted n \<sigma> eid P \<Longrightarrow> regBound n (addHalf \<sigma> eid upd)"
  by (auto simp: regBound_def admitted_def addHalf_def card_insert_if insert_absorb split: option.splits)

lemma dropHalf_bound: "regBound n \<sigma> \<Longrightarrow> regBound n (dropHalf \<sigma> eid upd)"
  by (auto simp: regBound_def dropHalf_def insert_absorb domI split: option.splits intro: order_trans[OF card_Diff1_le])

lemma replay_bound: "regBound n \<sigma> \<Longrightarrow> chValid n \<sigma> c \<Longrightarrow> regBound n (replay c \<sigma>)"
  by (cases c) (auto intro: addHalf_bound dropHalf_bound)

lemma replayAll_bound: "regBound n \<sigma> \<Longrightarrow> queueOk n \<sigma> cs \<Longrightarrow> regBound n (replayAll cs \<sigma>)"
  by (induction cs arbitrary: \<sigma>) (auto simp: replayAll_def replay_bound)

section \<open>Agreement of the two sides\<close>

text \<open>An entity has the halves of its registry entry; its ambisonic sinks are among the entry's, and the
  shared ambisonic encoder exists while there is one. A registered source or sink has an entity.\<close>

fun agree :: "regEntry option \<Rightarrow> entity option \<Rightarrow> bool" where
  "agree None None \<longleftrightarrow> True"
| "agree None (Some e) \<longleftrightarrow> False"
| "agree (Some re) None \<longleftrightarrow> re_src re = None \<and> re_sink re = None"
| "agree (Some re) (Some e) \<longleftrightarrow> ent_src e = re_src re \<and> ent_sink e = re_sink re \<and>
     map_of (ent_ambiSinks e) \<subseteq>\<^sub>m map_of (re_ambi re) \<and>
     (ent_src e \<noteq> None \<or> ent_sink e \<noteq> None \<or> ent_ambiSinks e \<noteq> []) \<and>
     (ent_ambiEnc e = None \<longleftrightarrow> ent_ambiSinks e = [])"

definition slotsOk :: "(string \<Rightarrow> entity option) \<Rightarrow> string option list \<Rightarrow> bool" where
  "slotsOk ents slots \<longleftrightarrow>
     (\<forall>eid e. ents eid = Some e \<longrightarrow> ent_id e = eid \<and> ent_slot e < length slots \<and> slots ! ent_slot e = Some eid) \<and>
     (\<forall>i<length slots. \<forall>eid. slots ! i = Some eid \<longrightarrow> (\<exists>e. ents eid = Some e \<and> ent_slot e = i))"

lemma slotsOk_ent:
  assumes "slotsOk ents slots" "ents eid = Some e"
  shows "ent_id e = eid" "ent_slot e < length slots" "slots ! ent_slot e = Some eid"
  using assms by (auto simp: slotsOk_def)

lemma slotsOk_slot:
  assumes "slotsOk ents slots" "i < length slots" "slots ! i = Some eid"
  obtains e where "ents eid = Some e" "ent_slot e = i"
  using assms unfolding slotsOk_def by blast

lemma slotsOk_update:
  assumes "slotsOk ents slots" "ents eid = Some e" "ent_id e' = ent_id e" "ent_slot e' = ent_slot e"
  shows "slotsOk (ents(eid \<mapsto> e')) slots"
  unfolding slotsOk_def
proof (intro conjI allI impI)
  fix x f assume x: "(ents(eid \<mapsto> e')) x = Some f"
  show "ent_id f = x" "ent_slot f < length slots" "slots ! ent_slot f = Some x"
    using slotsOk_ent[OF assms(1,2)] slotsOk_ent[OF assms(1), of x f] assms(3,4) x by (auto split: if_splits)
next
  fix i x assume "i < length slots" "slots ! i = Some x"
  then obtain f where "ents x = Some f" "ent_slot f = i" by (rule slotsOk_slot[OF assms(1)])
  then show "\<exists>f. (ents(eid \<mapsto> e')) x = Some f \<and> ent_slot f = i" using assms(2,4) by auto
qed

lemma slotsOk_remove:
  assumes "slotsOk ents slots" "ents eid = Some e"
  shows "slotsOk (ents(eid := None)) (slots[ent_slot e := None])"
proof -
  note e = slotsOk_ent[OF assms]
  have ne: "ent_slot e' \<noteq> ent_slot e" if "ents x = Some e'" "x \<noteq> eid" for x e'
    using slotsOk_ent[OF assms(1) that(1)] e that(2) by auto
  show ?thesis
    unfolding slotsOk_def
  proof (intro conjI allI impI)
    fix x e' assume "(ents(eid := None)) x = Some e'"
    then have x: "x \<noteq> eid" "ents x = Some e'" by (auto split: if_splits)
    then show "ent_id e' = x" "ent_slot e' < length (slots[ent_slot e := None])" "slots[ent_slot e := None] ! ent_slot e' = Some x"
      using slotsOk_ent[OF assms(1) x(2)] ne[OF x(2,1)] by auto
  next
    fix i x assume i: "i < length (slots[ent_slot e := None])" "slots[ent_slot e := None] ! i = Some x"
    then have n: "i \<noteq> ent_slot e" "slots ! i = Some x" using e(2) by (auto simp: nth_list_update split: if_splits)
    then obtain f where f: "ents x = Some f" "ent_slot f = i" using slotsOk_slot[OF assms(1) _ n(2)] i(1) by auto
    then have "x \<noteq> eid" using assms(2) n(1) by auto
    then show "\<exists>e'. (ents(eid := None)) x = Some e' \<and> ent_slot e' = i" using f by simp
  qed
qed

lemma freeSlot_None: "freeSlot i s = None \<Longrightarrow> x \<in> set s \<Longrightarrow> x \<noteq> None"
  by (induction i s rule: freeSlot.induct) auto

lemma freeSlot_Some: "freeSlot i s = Some j \<Longrightarrow> i \<le> j \<and> j - i < length s \<and> s ! (j - i) = None"
proof (induction i s rule: freeSlot.induct)
  case (3 i x s)
  then have "Suc i \<le> j" "j - Suc i < length s" "s ! (j - Suc i) = None" by auto
  then show ?case by (auto simp: nth_Cons' Suc_diff_le)
qed auto

text \<open>Occupied slots hold distinct entities, so a full table has as many entities as slots.\<close>

lemma slots_card:
  assumes "slotsOk ents slots" "finite (dom ents)" "\<And>x. x \<in> set slots \<Longrightarrow> x \<noteq> None"
  shows "length slots \<le> card (dom ents)"
proof -
  have "inj_on (\<lambda>i. the (slots ! i)) {..<length slots}"
  proof (rule inj_onI)
    fix i j assume ij: "i \<in> {..<length slots}" "j \<in> {..<length slots}" "the (slots ! i) = the (slots ! j)"
    obtain x where x: "slots ! i = Some x" using assms(3)[of "slots ! i"] ij(1) by auto
    have "slots ! j \<noteq> None" using assms(3)[of "slots ! j"] ij(2) by auto
    then have "slots ! j = Some x" using ij(3) x by auto
    then obtain e e' where "ents x = Some e" "ent_slot e = i" "ents x = Some e'" "ent_slot e' = j"
      using assms(1) x ij(1,2) unfolding slotsOk_def by blast
    then show "i = j" by simp
  qed
  moreover have "(\<lambda>i. the (slots ! i)) ` {..<length slots} \<subseteq> dom ents"
  proof (rule image_subsetI)
    fix i assume "i \<in> {..<length slots}"
    then have i: "i < length slots" by simp
    then obtain x where x: "slots ! i = Some x" using assms(3)[of "slots ! i"] by auto
    obtain e where "ents x = Some e" by (rule slotsOk_slot[OF assms(1) i x])
    then show "the (slots ! i) \<in> dom ents" using x by auto
  qed
  ultimately have "card {..<length slots} \<le> card (dom ents)" by (rule card_inj_on_le) (rule assms(2))
  then show ?thesis by simp
qed

text \<open>What never changes: the configuration and the environment.\<close>

definition mx_fixed :: "'d Mixer \<Rightarrow> Config \<times> Env" where
  mx_fixed_def [simp]: "mx_fixed m = (mx_cfg m, mx_env m)"

definition delayModel :: "Env \<Rightarrow> Config \<Rightarrow> bool" where
  "delayModel env cfg \<longleftrightarrow> (case initDelayModel (ev_bilateral env) (encCfg cfg) of Inl _ \<Rightarrow> False | Inr _ \<Rightarrow> True)"

definition audioOk :: "'d Mixer \<Rightarrow> registry \<Rightarrow> bool" where
  "audioOk m \<sigma> \<longleftrightarrow> (\<forall>x. agree (\<sigma> x) (mx_ents m x)) \<and> slotsOk (mx_ents m) (mx_slots m) \<and>
     length (mx_slots m) = nat (cf_MaxEntities (mx_cfg m)) \<and> regBound (length (mx_slots m)) \<sigma> \<and>
     delayModel (mx_env m) (mx_cfg m)"

lemma listenerEncoder_total:
  assumes "delayModel (mx_env m) (mx_cfg m)"
  shows "\<exists>enc. listenerEncoder m uid hasInput p slot bilateral = Inr enc"
  using assms by (auto simp: listenerEncoder_def newEncoder_def delayModel_def split: sum.splits)

lemma newEntity_total:
  assumes "delayModel (mx_env m) (mx_cfg m)"
  shows "\<exists>e. newEntity m eid uid slot = Inr e"
  using listenerEncoder_total[OF assms, of uid True DefaultRenderParams slot True] by (auto simp: newEntity_def Let_def)

lemma newEntity_fields:
  assumes "newEntity m eid uid slot = Inr e"
  shows "ent_id e = eid" "ent_uid e = uid" "ent_slot e = slot" "ent_src e = None" "ent_sink e = None" "ent_ambiEnc e = None" "ent_ambiSinks e = []"
  using assms by (auto simp: newEntity_def Let_def split: sum.splits)

lemma ensureAmbiEncoder_total:
  assumes "delayModel (mx_env m) (mx_cfg m)"
  shows "\<exists>enc. ensureAmbiEncoder m e = Inr (e \<lparr> ent_ambiEnc := Some enc \<rparr>)"
proof (cases "ent_ambiEnc e")
  case None
  then show ?thesis using listenerEncoder_total[OF assms, of "ent_uid e" False "ent_params e" "ent_slot e" False]
    by (auto simp: ensureAmbiEncoder_def)
next
  case (Some enc)
  then have "e \<lparr> ent_ambiEnc := Some enc \<rparr> = e" by (cases e) simp
  then show ?thesis using Some by (auto simp: ensureAmbiEncoder_def intro!: exI[of _ enc])
qed

lemma ensureAmbiEncoder_fields:
  assumes "ensureAmbiEncoder m e = Inr e'"
  shows "ent_id e' = ent_id e" "ent_slot e' = ent_slot e" "ent_src e' = ent_src e" "ent_sink e' = ent_sink e" "ent_ambiSinks e' = ent_ambiSinks e"
    "ent_enc e' = ent_enc e" "ent_uid e' = ent_uid e" "ent_params e' = ent_params e" "ent_peers e' = ent_peers e"
  using assms by (auto simp: ensureAmbiEncoder_def split: option.splits sum.splits)

lemma agree_dom: "(\<And>x. agree (\<sigma> x) (ents x)) \<Longrightarrow> dom ents \<subseteq> dom \<sigma>"
proof
  fix x assume a: "\<And>x. agree (\<sigma> x) (ents x)" and "x \<in> dom ents"
  then obtain e where "ents x = Some e" by blast
  then show "x \<in> dom \<sigma>" using a[of x] by (cases "\<sigma> x") auto
qed

lemma ensureEntity_spec:
  assumes a: "audioOk m \<sigma>" and ad: "admitted (length (mx_slots m)) \<sigma> eid P"
  obtains e u sl where "ensureEntity m eid = Inr (e, m \<lparr> mx_nextUid := u, mx_ents := (mx_ents m)(eid \<mapsto> e), mx_slots := sl \<rparr>)"
    "slotsOk ((mx_ents m)(eid \<mapsto> e)) sl" "length sl = length (mx_slots m)"
    "(case mx_ents m eid of Some e' \<Rightarrow> e = e' | None \<Rightarrow> \<exists>slot. newEntity m eid (mx_nextUid m) slot = Inr e)"
proof (cases "mx_ents m eid")
  case (Some e)
  then have "ensureEntity m eid = Inr (e, m \<lparr> mx_nextUid := mx_nextUid m, mx_ents := (mx_ents m)(eid \<mapsto> e), mx_slots := mx_slots m \<rparr>)"
    by (simp add: ensureEntity_def fun_upd_idem)
  then show thesis by (rule that) (use a Some in \<open>auto simp: audioOk_def fun_upd_idem\<close>)
next
  case None
  have sl: "slotsOk (mx_ents m) (mx_slots m)" and b: "regBound (length (mx_slots m)) \<sigma>" and ag: "\<And>x. agree (\<sigma> x) (mx_ents m x)"
    using a by (auto simp: audioOk_def)
  have sub: "dom (mx_ents m) \<subseteq> dom \<sigma>" by (rule agree_dom) (rule ag)
  have fin: "finite (dom (mx_ents m))" using sub b finite_subset by (auto simp: regBound_def)
  have "card (dom (mx_ents m)) < length (mx_slots m)"
  proof (cases "\<sigma> eid")
    case None
    then show ?thesis using ad card_mono[OF _ sub] b by (auto simp: admitted_def regBound_def)
  next
    case (Some re)
    then have "dom (mx_ents m) \<subset> dom \<sigma>" using sub None by blast
    moreover have "finite (dom \<sigma>)" using b by (simp add: regBound_def)
    ultimately have "card (dom (mx_ents m)) < card (dom \<sigma>)" by (rule psubset_card_mono[rotated])
    then show ?thesis using b by (simp add: regBound_def)
  qed
  then have "freeSlot 0 (mx_slots m) \<noteq> None" using slots_card[OF sl fin freeSlot_None[of 0 "mx_slots m"]] by linarith
  then obtain slot where slot: "freeSlot 0 (mx_slots m) = Some slot" by blast
  note s = freeSlot_Some[OF slot]
  have "delayModel (mx_env m) (mx_cfg m)" using a by (simp add: audioOk_def)
  then obtain new where new: "newEntity m eid (mx_nextUid m) slot = Inr new" using newEntity_total by blast
  let ?e = new
  have e: "ent_id ?e = eid" "ent_slot ?e = slot" using newEntity_fields[OF new] by simp_all
  have ne: "ent_slot e' \<noteq> slot" if "mx_ents m x = Some e'" for x e'
    using slotsOk_ent[OF sl that] s by auto
  show thesis
  proof (rule that)
    show "ensureEntity m eid = Inr (?e, m \<lparr> mx_nextUid := mx_nextUid m + 1, mx_ents := (mx_ents m)(eid \<mapsto> ?e), mx_slots := (mx_slots m)[slot := Some eid] \<rparr>)"
      using None slot new by (simp add: ensureEntity_def)
    show "slotsOk ((mx_ents m)(eid \<mapsto> ?e)) ((mx_slots m)[slot := Some eid])"
      unfolding slotsOk_def
    proof (intro conjI allI impI)
      fix x e' assume "((mx_ents m)(eid \<mapsto> ?e)) x = Some e'"
      then show "ent_id e' = x" "ent_slot e' < length ((mx_slots m)[slot := Some eid])"
        "(mx_slots m)[slot := Some eid] ! ent_slot e' = Some x"
        using e s ne[of x e'] slotsOk_ent[OF sl, of x e'] by (auto split: if_splits)
    next
      fix i x assume "i < length ((mx_slots m)[slot := Some eid])" "(mx_slots m)[slot := Some eid] ! i = Some x"
      then show "\<exists>e'. ((mx_ents m)(eid \<mapsto> ?e)) x = Some e' \<and> ent_slot e' = i"
        using e s sl None by (cases "i = slot") (auto simp: slotsOk_def)
    qed
  qed (use None new in auto)
qed

section \<open>Applying a change keeps the agreement\<close>

text \<open>The fields a change leaves alone, and the audio side after it.\<close>

definition mx_control :: "'d Mixer \<Rightarrow> (Config \<times> Env) \<times> registry \<times> int \<times> bool \<times> bool \<times> change list \<times> nat" where
  "mx_control m = (mx_fixed m, mx_reg m, mx_entityCount m, mx_closed m, mx_stopped m, mx_changes m, mx_nextSink m)"

lemma mx_control_upd [simp]:
  "mx_control (m \<lparr> mx_nextUid := u \<rparr>) = mx_control m" "mx_control (m \<lparr> mx_ents := es \<rparr>) = mx_control m"
  "mx_control (m \<lparr> mx_slots := sl \<rparr>) = mx_control m" "mx_control (m \<lparr> mx_groups := gs \<rparr>) = mx_control m"
  "mx_control (m \<lparr> mx_destroyed := ds \<rparr>) = mx_control m" "mx_control (m \<lparr> mx_ambiDestroyed := ds \<rparr>) = mx_control m"
  "mx_control (m \<lparr> mx_groupHeap := gh \<rparr>) = mx_control m" "mx_control (m \<lparr> mx_groupReg := gr \<rparr>) = mx_control m"
  "mx_control (m \<lparr> mx_channelTable := ct \<rparr>) = mx_control m" "mx_control (m \<lparr> mx_personalMutes := pm \<rparr>) = mx_control m"
  "mx_control (m \<lparr> mx_personalSolos := pm \<rparr>) = mx_control m" "mx_control (m \<lparr> mx_audibleDirty := d \<rparr>) = mx_control m"
  by (simp_all add: mx_control_def)

lemma audioOk_point:
  assumes "audioOk m \<sigma>" "mx_fixed m' = mx_fixed m" "mx_ents m' = (mx_ents m)(eid := v)" "slotsOk (mx_ents m') (mx_slots m')"
    "length (mx_slots m') = length (mx_slots m)" "\<sigma>' = \<sigma>(eid := r)" "agree r v" "regBound (length (mx_slots m)) \<sigma>'"
  shows "audioOk m' \<sigma>'"
  using assms by (auto simp: audioOk_def)

lemma leaveGroup_frame:
  "mx_control (leaveGroup m r) = mx_control m" "mx_ents (leaveGroup m r) = mx_ents m" "mx_slots (leaveGroup m r) = mx_slots m"
  "mx_destroyed (leaveGroup m r) = mx_destroyed m" "mx_ambiDestroyed (leaveGroup m r) = mx_ambiDestroyed m"
  "mx_personalMutes (leaveGroup m r) = mx_personalMutes m" "mx_personalSolos (leaveGroup m r) = mx_personalSolos m"
  "mx_channelTable (leaveGroup m r) = mx_channelTable m" "mx_audible (leaveGroup m r) = mx_audible m"
  "mx_pairGain (leaveGroup m r) = mx_pairGain m" "mx_pairAttExp (leaveGroup m r) = mx_pairAttExp m"
  by (auto simp: leaveGroup_def Let_def split: option.splits prod.splits)

text \<open>The one shape of every change on the audio side: one entity replaced or removed, its slot with it.\<close>

lemma setEnt_audio:
  assumes "audioOk m \<sigma>" "mx_ents m eid = Some e" "ent_id e' = eid" "ent_slot e' = ent_slot e"
    "mx_fixed m' = mx_fixed m" "mx_ents m' = (mx_ents m)(eid \<mapsto> e')" "mx_slots m' = mx_slots m"
    "\<sigma>' = \<sigma>(eid := r)" "agree r (Some e')" "regBound (length (mx_slots m)) \<sigma>'"
  shows "audioOk m' \<sigma>'"
proof (rule audioOk_point[OF assms(1,5,6) _ _ assms(8,9,10)])
  have "slotsOk (mx_ents m) (mx_slots m)" using assms(1) by (simp add: audioOk_def)
  then show "slotsOk (mx_ents m') (mx_slots m')"
    using slotsOk_update[of "mx_ents m" "mx_slots m" eid e e'] slotsOk_ent(1)[of "mx_ents m" "mx_slots m" eid e] assms(2-4,6,7) by simp
qed (use assms(7) in simp)

lemma removeEntity_audio:
  assumes "audioOk m \<sigma>" "mx_ents m eid = Some e" "ent_id e' = eid" "ent_slot e' = ent_slot e"
    "mx_fixed m' = mx_fixed m" "mx_ents m' = (mx_ents m)(eid := None)" "mx_slots m' = (mx_slots m)[ent_slot e' := None]"
    "\<sigma>' = \<sigma>(eid := r)" "agree r None" "regBound (length (mx_slots m)) \<sigma>'"
  shows "audioOk m' \<sigma>'"
proof (rule audioOk_point[OF assms(1,5,6) _ _ assms(8,9,10)])
  have "slotsOk (mx_ents m) (mx_slots m)" using assms(1) by (simp add: audioOk_def)
  then show "slotsOk (mx_ents m') (mx_slots m')" using slotsOk_remove[of "mx_ents m" "mx_slots m" eid e] assms(2,4,6,7) by simp
qed (use assms(7) in simp)

definition newAgree :: "entity \<Rightarrow> regEntry \<Rightarrow> bool" where
  "newAgree e re \<longleftrightarrow> ent_src e = re_src re \<and> ent_sink e = re_sink re \<and>
     map_of (ent_ambiSinks e) \<subseteq>\<^sub>m map_of (re_ambi re) \<and> (ent_ambiEnc e = None \<longleftrightarrow> ent_ambiSinks e = [])"

text \<open>The entity \<^verbatim>\<open>ensureEntity\<close> yields, before the new half is attached.\<close>

lemma ensure_agree:
  assumes "audioOk m \<sigma>" "case mx_ents m eid of Some e' \<Rightarrow> e = e' | None \<Rightarrow> \<exists>slot. newEntity m eid u slot = Inr e"
  shows "newAgree e (case \<sigma> eid of None \<Rightarrow> emptyReg | Some re \<Rightarrow> re)"
proof -
  have "agree (\<sigma> eid) (mx_ents m eid)" using assms(1) by (simp add: audioOk_def)
  then show ?thesis using assms(2)
    by (cases "\<sigma> eid"; cases "mx_ents m eid") (auto simp: newAgree_def emptyReg_def dest: newEntity_fields)
qed

lemma ensure_audio:
  fixes m :: "'d Mixer"
  assumes a: "audioOk m \<sigma>" and ad: "admitted (length (mx_slots m)) \<sigma> eid P"
    and agr: "\<And>e. newAgree e (case \<sigma> eid of None \<Rightarrow> emptyReg | Some re \<Rightarrow> re) \<Longrightarrow>
        agree (Some (upd (case \<sigma> eid of None \<Rightarrow> emptyReg | Some re \<Rightarrow> re))) (Some (f e)) \<and> ent_id (f e) = ent_id e \<and> ent_slot (f e) = ent_slot e"
  obtains e u sl where "ensureEntity m eid = Inr (e, m \<lparr> mx_nextUid := u, mx_ents := (mx_ents m)(eid \<mapsto> e), mx_slots := sl \<rparr>)"
    "ent_id e = eid" "case mx_ents m eid of Some e' \<Rightarrow> e = e' | None \<Rightarrow> \<exists>slot. newEntity m eid (mx_nextUid m) slot = Inr e"
    "\<And>m' :: 'd Mixer. mx_fixed m' = mx_fixed m \<Longrightarrow> mx_ents m' = (mx_ents m)(eid \<mapsto> f e) \<Longrightarrow> mx_slots m' = sl \<Longrightarrow> audioOk m' (addHalf \<sigma> eid upd)"
proof -
  obtain e u sl where en: "ensureEntity m eid = Inr (e, m \<lparr> mx_nextUid := u, mx_ents := (mx_ents m)(eid \<mapsto> e), mx_slots := sl \<rparr>)"
    "slotsOk ((mx_ents m)(eid \<mapsto> e)) sl" "length sl = length (mx_slots m)"
    "case mx_ents m eid of Some e' \<Rightarrow> e = e' | None \<Rightarrow> \<exists>slot. newEntity m eid (mx_nextUid m) slot = Inr e"
    using ensureEntity_spec[OF a ad] by metis
  have eid: "ent_id e = eid" using slotsOk_ent(1)[OF en(2), of eid e] by simp
  note g = agr[OF ensure_agree[OF a en(4)]]
  show thesis
  proof (rule that[OF en(1) eid en(4)])
    fix m' :: "'d Mixer" assume m': "mx_fixed m' = mx_fixed m" "mx_ents m' = (mx_ents m)(eid \<mapsto> f e)" "mx_slots m' = sl"
    have "slotsOk (mx_ents m') (mx_slots m')"
      using slotsOk_update[OF en(2), of eid e "f e"] g eid m'(2,3) by simp
    moreover have "regBound (length (mx_slots m)) (addHalf \<sigma> eid upd)"
      using a ad addHalf_bound by (auto simp: audioOk_def)
    ultimately show "audioOk m' (addHalf \<sigma> eid upd)"
      by (intro audioOk_point[OF a m'(1,2) _ _ _ conjunct1[OF g]]) (use m' en(3) in \<open>auto simp: addHalf_def\<close>)
  qed
qed

lemma dropHalf_point:
  assumes "\<sigma> eid = Some re"
  shows "dropHalf \<sigma> eid upd = \<sigma>(eid := if upd re = emptyReg then None else Some (upd re))"
  using assms by (simp add: dropHalf_def)

lemma emptyReg_iff: "re = emptyReg \<longleftrightarrow> re_src re = None \<and> re_sink re = None \<and> re_ambi re = []"
  by (cases re) (simp add: emptyReg_def)

lemma audio_bound: "audioOk m \<sigma> \<Longrightarrow> regBound (length (mx_slots m)) \<sigma>"
  unfolding audioOk_def by blast

lemma audio_agree: "audioOk m \<sigma> \<Longrightarrow> agree (\<sigma> x) (mx_ents m x)"
  by (simp add: audioOk_def)

lemma audio_ent: "audioOk m \<sigma> \<Longrightarrow> mx_ents m eid = Some e \<Longrightarrow> ent_id e = eid"
  by (auto simp: audioOk_def slotsOk_def)

lemma map_le_nothing [simp]: "f \<subseteq>\<^sub>m (\<lambda>x. None) \<longleftrightarrow> f = Map.empty"
  by (auto simp: map_le_def dom_def fun_eq_iff)

lemma audioOk_frame [simp]:
  "audioOk (m \<lparr> mx_channelTable := ct \<rparr>) = audioOk m" "audioOk (m \<lparr> mx_personalMutes := pm \<rparr>) = audioOk m"
  "audioOk (m \<lparr> mx_personalSolos := pm \<rparr>) = audioOk m" "audioOk (m \<lparr> mx_audibleDirty := d \<rparr>) = audioOk m"
  "audioOk (m \<lparr> mx_changes := cs \<rparr>) = audioOk m" "audioOk (m \<lparr> mx_stopped := b \<rparr>) = audioOk m"
  "audioOk (m \<lparr> mx_closed := b \<rparr>) = audioOk m" "audioOk (m \<lparr> mx_reg := r \<rparr>) = audioOk m"
  "audioOk (m \<lparr> mx_entityCount := n \<rparr>) = audioOk m" "audioOk (m \<lparr> mx_nextSink := k \<rparr>) = audioOk m"
  "audioOk (m \<lparr> mx_nextAmbi := k \<rparr>) = audioOk m" "audioOk (m \<lparr> mx_destroyed := ds \<rparr>) = audioOk m"
  "audioOk (m \<lparr> mx_ambiDestroyed := ds \<rparr>) = audioOk m" "audioOk (m \<lparr> mx_sources := ss \<rparr>) = audioOk m"
  "audioOk (m \<lparr> mx_nextSource := k \<rparr>) = audioOk m" "audioOk (m \<lparr> mx_groupHeap := gh \<rparr>) = audioOk m"
  "audioOk (m \<lparr> mx_nextGroup := k \<rparr>) = audioOk m" "audioOk (m \<lparr> mx_groupReg := gr \<rparr>) = audioOk m"
  "audioOk (m \<lparr> mx_tickCount := n \<rparr>) = audioOk m" "audioOk (m \<lparr> mx_frameStart := k \<rparr>) = audioOk m"
  "audioOk (m \<lparr> mx_audible := a \<rparr>) = audioOk m" "audioOk (m \<lparr> mx_pairGain := g \<rparr>) = audioOk m"
  "audioOk (m \<lparr> mx_pairAttExp := g \<rparr>) = audioOk m" "audioOk (m \<lparr> mx_groups := gs \<rparr>) = audioOk m"
  "audioOk (m \<lparr> mx_sinks := sk \<rparr>) = audioOk m" "audioOk (m \<lparr> mx_ambis := ak \<rparr>) = audioOk m"
  "audioOk (m \<lparr> mx_shared := sh \<rparr>) = audioOk m" "audioOk (m \<lparr> mx_workers := ws \<rparr>) = audioOk m"
  "audioOk (m \<lparr> mx_nextWork := w \<rparr>) = audioOk m"
  by (auto simp: audioOk_def fun_eq_iff)

lemma map_le_update: "f \<subseteq>\<^sub>m g \<Longrightarrow> f(k \<mapsto> v) \<subseteq>\<^sub>m g(k \<mapsto> v)"
  by (auto simp: map_le_def)

lemma map_le_delete: "f \<subseteq>\<^sub>m g \<Longrightarrow> f(k := None) \<subseteq>\<^sub>m g(k := None)"
  by (auto simp: map_le_def)

lemma alist_update_ne [simp]: "AList.update k v al \<noteq> []"
  by (cases al) auto

text \<open>What one change does to the audio side.\<close>

definition changeOk :: "change \<Rightarrow> 'd Mixer \<Rightarrow> registry \<Rightarrow> bool" where
  "changeOk c m \<sigma> \<longleftrightarrow> (\<exists>m'. applyChange c m = Inr m' \<and> audioOk m' (replay c \<sigma>) \<and> mx_control m' = mx_control m)"

lemma addSource_ok:
  fixes m :: "'d Mixer"
  assumes "audioOk m \<sigma>" "admitted (length (mx_slots m)) \<sigma> eid (\<lambda>re. re_src re \<noteq> None)"
  shows "changeOk (ChAddSource eid ref pose hf grp) m \<sigma>"
proof -
  let ?f = "\<lambda>e. e \<lparr> ent_src := Some ref, ent_enc := SetHeadFrameSource (SetPosition (ent_enc e) (position pose)) hf \<rparr>"
  let ?upd = "\<lambda>re. re \<lparr> re_src := Some ref \<rparr>"
  obtain e u sl where e: "ensureEntity m eid = Inr (e, m \<lparr> mx_nextUid := u, mx_ents := (mx_ents m)(eid \<mapsto> e), mx_slots := sl \<rparr>)"
    "ent_id e = eid" and k: "\<And>m' :: 'd Mixer. mx_fixed m' = mx_fixed m \<Longrightarrow> mx_ents m' = (mx_ents m)(eid \<mapsto> ?f e) \<Longrightarrow> mx_slots m' = sl \<Longrightarrow> audioOk m' (addHalf \<sigma> eid ?upd)"
    by (rule ensure_audio[OF assms, of ?upd ?f]) (auto simp: newAgree_def)
  show ?thesis unfolding changeOk_def
    by (simp add: e Let_def setEnt_def markAudibleDirty_def split: option.split prod.split) (auto intro!: k)
qed

lemma addSink_ok:
  fixes m :: "'d Mixer"
  assumes "audioOk m \<sigma>" "admitted (length (mx_slots m)) \<sigma> eid (\<lambda>re. re_sink re \<noteq> None)"
  shows "changeOk (ChAddSink eid k) m \<sigma>"
proof -
  let ?f = "\<lambda>e. e \<lparr> ent_sink := Some k \<rparr>" and ?upd = "\<lambda>re. re \<lparr> re_sink := Some k \<rparr>"
  obtain e u sl where e: "ensureEntity m eid = Inr (e, m \<lparr> mx_nextUid := u, mx_ents := (mx_ents m)(eid \<mapsto> e), mx_slots := sl \<rparr>)"
    "ent_id e = eid" and k: "\<And>m' :: 'd Mixer. mx_fixed m' = mx_fixed m \<Longrightarrow> mx_ents m' = (mx_ents m)(eid \<mapsto> ?f e) \<Longrightarrow> mx_slots m' = sl \<Longrightarrow> audioOk m' (addHalf \<sigma> eid ?upd)"
    by (rule ensure_audio[OF assms, of ?upd ?f]) (auto simp: newAgree_def)
  show ?thesis unfolding changeOk_def
    by (simp add: e setEnt_def markAudibleDirty_def) (auto intro!: k)
qed

lemma addAmbi_ok:
  fixes m :: "'d Mixer"
  assumes "audioOk m \<sigma>" "admitted (length (mx_slots m)) \<sigma> eid (\<lambda>re. map_of (re_ambi re) order \<noteq> None)"
  shows "changeOk (ChAddAmbi eid order k) m \<sigma>"
proof -
  have dm: "delayModel (mx_env m) (mx_cfg m)" using assms(1) by (simp add: audioOk_def)
  define en where "en = (\<lambda>e. case ensureAmbiEncoder m e of Inl _ \<Rightarrow> e | Inr e' \<Rightarrow> e')"
  let ?f = "\<lambda>e. (en e) \<lparr> ent_ambiSinks := AList.update order k (ent_ambiSinks (en e)) \<rparr>"
  let ?upd = "\<lambda>re. re \<lparr> re_ambi := AList.update order k (re_ambi re) \<rparr>"
  have en: "\<exists>enc. en e = e \<lparr> ent_ambiEnc := Some enc \<rparr> \<and> ensureAmbiEncoder m e = Inr (en e)" for e
    using ensureAmbiEncoder_total[OF dm, of e] by (auto simp: en_def)
  have agr: "agree (Some (?upd (case \<sigma> eid of None \<Rightarrow> emptyReg | Some re \<Rightarrow> re))) (Some (?f e)) \<and> ent_id (?f e) = ent_id e \<and> ent_slot (?f e) = ent_slot e"
    if "newAgree e (case \<sigma> eid of None \<Rightarrow> emptyReg | Some re \<Rightarrow> re)" for e
    using that en[of e] by (auto simp: newAgree_def update_conv' map_le_update)
  obtain e u sl where e: "ensureEntity m eid = Inr (e, m \<lparr> mx_nextUid := u, mx_ents := (mx_ents m)(eid \<mapsto> e), mx_slots := sl \<rparr>)"
    "ent_id e = eid" and k: "\<And>m' :: 'd Mixer. mx_fixed m' = mx_fixed m \<Longrightarrow> mx_ents m' = (mx_ents m)(eid \<mapsto> ?f e) \<Longrightarrow> mx_slots m' = sl \<Longrightarrow> audioOk m' (addHalf \<sigma> eid ?upd)"
  proof (rule ensure_audio[OF assms, of ?upd ?f])
    fix e assume "newAgree e (case \<sigma> eid of None \<Rightarrow> emptyReg | Some re \<Rightarrow> re)"
    then show "agree (Some (?upd (case \<sigma> eid of None \<Rightarrow> emptyReg | Some re \<Rightarrow> re))) (Some (?f e)) \<and> ent_id (?f e) = ent_id e \<and> ent_slot (?f e) = ent_slot e"
      by (rule agr)
  next
    fix e u sl assume "ensureEntity m eid = Inr (e, m \<lparr> mx_nextUid := u, mx_ents := (mx_ents m)(eid \<mapsto> e), mx_slots := sl \<rparr>)" "ent_id e = eid"
      "\<And>m' :: 'd Mixer. mx_fixed m' = mx_fixed m \<Longrightarrow> mx_ents m' = (mx_ents m)(eid \<mapsto> ?f e) \<Longrightarrow> mx_slots m' = sl \<Longrightarrow> audioOk m' (addHalf \<sigma> eid ?upd)"
    then show thesis by (rule that)
  qed
  have same: "ensureAmbiEncoder (m \<lparr> mx_nextUid := u, mx_ents := es, mx_slots := sl \<rparr>) e = ensureAmbiEncoder m e" for es
    by (cases "ent_ambiEnc e") (simp_all add: ensureAmbiEncoder_def listenerEncoder_def)
  obtain enc where enc: "en e = e \<lparr> ent_ambiEnc := Some enc \<rparr>" "ensureAmbiEncoder m e = Inr (en e)" using en[of e] by blast
  show ?thesis unfolding changeOk_def
    by (simp add: e same enc setEnt_def markAudibleDirty_def) (rule k; simp add: enc)
qed

lemma removeSource_ok:
  fixes m :: "'d Mixer"
  assumes "audioOk m \<sigma>" "registered \<sigma> eid (\<lambda>re. re_src re \<noteq> None)"
  shows "changeOk (ChRemoveSource eid) m \<sigma>"
proof -
  let ?upd = "\<lambda>re. re \<lparr> re_src := None \<rparr>"
  obtain re where re: "\<sigma> eid = Some re" "re_src re \<noteq> None" using assms(2) by (auto simp: registered_def split: option.splits)
  obtain e where e: "mx_ents m eid = Some e" using audio_agree[OF assms(1), of eid] re by (cases "mx_ents m eid") auto
  obtain r where r: "ent_src e = Some r" using audio_agree[OF assms(1), of eid] re e by auto
  let ?e = "e \<lparr> ent_src := None \<rparr>"
  have ag: "agree (Some re) (Some e)" using audio_agree[OF assms(1), of eid] unfolding re(1) e .
  note b = dropHalf_bound[OF audio_bound[OF assms(1)], of eid ?upd]
  note s = dropHalf_point[of \<sigma> eid re ?upd, OF re(1)] and i = audio_ent[OF assms(1) e]
  let ?m = "setEnt (leaveGroup m r) ?e"
  have c: "mx_control ?m = mx_control m" "mx_ents ?m = (mx_ents m)(eid \<mapsto> ?e)" "mx_slots ?m = mx_slots m"
    using i by (simp_all add: setEnt_def leaveGroup_frame)
  then have cfg: "mx_fixed ?m = mx_fixed m" by (simp add: mx_control_def)
  show ?thesis
  proof (cases "ent_sink e = None \<and> ent_ambiSinks e = []")
    case True
    then have "agree (if ?upd re = emptyReg then None else Some (?upd re)) None" using ag by (auto simp: emptyReg_iff)
    then have "audioOk (removeEntity ?m ?e) (dropHalf \<sigma> eid ?upd)"
      by (intro removeEntity_audio[OF assms(1) e _ _ _ _ _ s _ b]) (use c cfg i in \<open>simp_all add: removeEntity_def markAudibleDirty_def\<close>)
    then show ?thesis using e r True c by (simp add: changeOk_def Let_def removeEntity_def markAudibleDirty_def)
  next
    case False
    then have "?upd re \<noteq> emptyReg" using ag by (auto simp: emptyReg_iff)
    then have "agree (if ?upd re = emptyReg then None else Some (?upd re)) (Some ?e)" using ag False by auto
    then have "audioOk ?m (dropHalf \<sigma> eid ?upd)"
      by (intro setEnt_audio[OF assms(1) e _ _ cfg c(2,3) s _ b]) (use i in simp_all)
    then show ?thesis using e r False c by (auto simp: changeOk_def Let_def)
  qed
qed

lemma removeSink_ok:
  fixes m :: "'d Mixer"
  assumes "audioOk m \<sigma>" "registered \<sigma> eid (\<lambda>re. re_sink re \<noteq> None)"
  shows "changeOk (ChRemoveSink eid) m \<sigma>"
proof -
  let ?upd = "\<lambda>re. re \<lparr> re_sink := None \<rparr>"
  obtain re where re: "\<sigma> eid = Some re" "re_sink re \<noteq> None" using assms(2) by (auto simp: registered_def split: option.splits)
  obtain e where e: "mx_ents m eid = Some e" using audio_agree[OF assms(1), of eid] re by (cases "mx_ents m eid") auto
  obtain k where k: "ent_sink e = Some k" using audio_agree[OF assms(1), of eid] re e by auto
  let ?e = "e \<lparr> ent_sink := None \<rparr>"
  have ag: "agree (Some re) (Some e)" using audio_agree[OF assms(1), of eid] unfolding re(1) e .
  note b = dropHalf_bound[OF audio_bound[OF assms(1)], of eid ?upd]
  note s = dropHalf_point[of \<sigma> eid re ?upd, OF re(1)] and i = audio_ent[OF assms(1) e]
  let ?m = "setEnt (m \<lparr> mx_destroyed := mx_destroyed m @ [k] \<rparr>) ?e"
  have c: "mx_control ?m = mx_control m" "mx_ents ?m = (mx_ents m)(eid \<mapsto> ?e)" "mx_slots ?m = mx_slots m" "mx_fixed ?m = mx_fixed m"
    using i by (simp_all add: setEnt_def)
  show ?thesis
  proof (cases "ent_src e = None")
    case True
    then have "agree (if ?upd re = emptyReg then None else Some (?upd re)) None" using ag by auto
    then have "audioOk (removeEntity ?m ?e) (dropHalf \<sigma> eid ?upd)"
      by (intro removeEntity_audio[OF assms(1) e _ _ _ _ _ s _ b]) (use c i in \<open>simp_all add: removeEntity_def markAudibleDirty_def\<close>)
    then show ?thesis using e k True c by (simp add: changeOk_def Let_def removeEntity_def markAudibleDirty_def)
  next
    case False
    then have "?upd re \<noteq> emptyReg" using ag by (auto simp: emptyReg_iff)
    then have "agree (if ?upd re = emptyReg then None else Some (?upd re)) (Some ?e)" using ag False by auto
    then have "audioOk ?m (dropHalf \<sigma> eid ?upd)"
      by (intro setEnt_audio[OF assms(1) e _ _ c(4,2,3) s _ b]) (use i in simp_all)
    then show ?thesis using e k False c by (auto simp: changeOk_def Let_def)
  qed
qed

lemma removeAmbi_ok:
  fixes m :: "'d Mixer"
  assumes "audioOk m \<sigma>" "registered \<sigma> eid (\<lambda>re. map_of (re_ambi re) order \<noteq> None)"
  shows "changeOk (ChRemoveAmbi eid order) m \<sigma>"
proof -
  let ?upd = "\<lambda>re. re \<lparr> re_ambi := AList.delete order (re_ambi re) \<rparr>"
  obtain re where re: "\<sigma> eid = Some re" "map_of (re_ambi re) order \<noteq> None"
    using assms(2) by (auto simp: registered_def split: option.splits)
  note b = dropHalf_bound[OF audio_bound[OF assms(1)], of eid ?upd]
  note s = dropHalf_point[of \<sigma> eid re ?upd, OF re(1)]
  show ?thesis
  proof (cases "mx_ents m eid")
    case None
    then have "agree (if ?upd re = emptyReg then None else Some (?upd re)) None"
      using audio_agree[OF assms(1), of eid] re by auto
    then have "audioOk m (dropHalf \<sigma> eid ?upd)"
      by (intro audioOk_point[OF assms(1) _ _ _ _ s _ b, where v = None]) (use None assms(1) in \<open>simp_all add: fun_upd_idem audioOk_def\<close>)
    then show ?thesis using None by (simp add: changeOk_def)
  next
    case (Some e)
    have ag: "agree (Some re) (Some e)" using audio_agree[OF assms(1), of eid] unfolding re(1) Some .
    note i = audio_ent[OF assms(1) Some]
    define e1 where "e1 = e \<lparr> ent_ambiSinks := AList.delete order (ent_ambiSinks e) \<rparr>"
    define e2 where "e2 = (if ent_ambiSinks e1 = [] then e1 \<lparr> ent_ambiEnc := None \<rparr> else e1)"
    define d where "d = (case map_of (ent_ambiSinks e) order of None \<Rightarrow> [] | Some k \<Rightarrow> [k])"
    have e1': "(case map_of (ent_ambiSinks e) order of None \<Rightarrow> (e, m)
        | Some k \<Rightarrow> (e \<lparr> ent_ambiSinks := AList.delete order (ent_ambiSinks e) \<rparr>,
            m \<lparr> mx_ambiDestroyed := mx_ambiDestroyed m @ [k] \<rparr>)) = (e1, m \<lparr> mx_ambiDestroyed := mx_ambiDestroyed m @ d \<rparr>)"
      by (auto simp: d_def e1_def delete_idem map_of_eq_None_iff split: option.split)
    have f: "ent_id e2 = eid" "ent_slot e2 = ent_slot e" "ent_src e2 = ent_src e" "ent_sink e2 = ent_sink e"
      "ent_ambiSinks e2 = AList.delete order (ent_ambiSinks e)" "ent_ambiEnc e2 = None \<longleftrightarrow> ent_ambiSinks e2 = []"
      using i ag by (auto simp: e2_def e1_def delete_idem)
    let ?m = "setEnt (m \<lparr> mx_ambiDestroyed := mx_ambiDestroyed m @ d \<rparr>) e2"
    have ap: "applyChange (ChRemoveAmbi eid order) m =
        Inr (if ent_src e2 = None \<and> ent_sink e2 = None \<and> ent_ambiSinks e2 = [] then removeEntity ?m e2 else ?m)"
      by (simp only: applyChange.simps Some option.case Let_def e1' prod.case e2_def[symmetric])
    have c: "mx_control ?m = mx_control m" "mx_ents ?m = (mx_ents m)(eid \<mapsto> e2)" "mx_slots ?m = mx_slots m" "mx_fixed ?m = mx_fixed m"
      using f(1) by (simp_all add: setEnt_def)
    show ?thesis
    proof (cases "ent_src e2 = None \<and> ent_sink e2 = None \<and> ent_ambiSinks e2 = []")
      case True
      then have "agree (if ?upd re = emptyReg then None else Some (?upd re)) None" using ag f(3,4) by auto
      then have "audioOk (removeEntity ?m e2) (dropHalf \<sigma> eid ?upd)"
        by (intro removeEntity_audio[OF assms(1) Some f(1,2) _ _ _ s _ b]) (use c f in \<open>simp_all add: removeEntity_def markAudibleDirty_def\<close>)
      then show ?thesis using ap True c by (simp add: changeOk_def removeEntity_def markAudibleDirty_def)
    next
      case False
      have le: "map_of (AList.delete order (ent_ambiSinks e)) \<subseteq>\<^sub>m map_of (AList.delete order (re_ambi re))"
        using ag by (simp add: delete_conv' map_le_delete)
      have "?upd re \<noteq> emptyReg"
      proof
        assume "?upd re = emptyReg"
        then have z: "re_src re = None" "re_sink re = None" "AList.delete order (re_ambi re) = []" by (auto simp: emptyReg_iff)
        then have "map_of (ent_ambiSinks e2) = Map.empty" using le f(5) by simp
        then show False using False z ag f(3,4) by simp
      qed
      moreover have "agree (Some (?upd re)) (Some e2)" using ag f False le by auto
      ultimately have "audioOk ?m (dropHalf \<sigma> eid ?upd)"
        by (intro setEnt_audio[OF assms(1) Some f(1,2) c(4,2,3) s _ b]) auto
      then show ?thesis using ap False c by (auto simp: changeOk_def)
    qed
  qed
qed

lemma setOnly_ok:
  assumes "audioOk m \<sigma>" "mx_ents m eid = Some e" "ent_id e' = ent_id e" "ent_slot e' = ent_slot e"
    "ent_src e' = ent_src e" "ent_sink e' = ent_sink e" "ent_ambiSinks e' = ent_ambiSinks e" "ent_ambiEnc e' = ent_ambiEnc e"
    "mx_control m' = mx_control m" "mx_ents m' = (mx_ents m)(eid \<mapsto> e')" "mx_slots m' = mx_slots m"
  shows "audioOk m' \<sigma>"
proof (rule setEnt_audio[OF assms(1,2) _ assms(4) _ assms(10,11) _ _ audio_bound[OF assms(1)]])
  show "ent_id e' = eid" using audio_ent[OF assms(1,2)] assms(3) by simp
  show "mx_fixed m' = mx_fixed m" using assms(9) by (simp add: mx_control_def)
  show "\<sigma> = \<sigma>(eid := \<sigma> eid)" by simp
  show "agree (\<sigma> eid) (Some e')" using audio_agree[OF assms(1), of eid] assms(2,5-8) by (cases "\<sigma> eid") auto
qed

lemma applyChange_ok:
  assumes "audioOk m \<sigma>" "chValid (length (mx_slots m)) \<sigma> c"
  shows "changeOk c m \<sigma>"
proof (cases c)
  case (ChParams eid p)
  show ?thesis
  proof (cases "mx_ents m eid")
    case None
    then show ?thesis using assms(1) ChParams by (simp add: changeOk_def)
  next
    case (Some e)
    show ?thesis unfolding changeOk_def ChParams
      by (simp add: Some setEnt_def markAudibleDirty_def)
        (rule setOnly_ok[OF assms(1) Some]; simp add: audio_ent[OF assms(1) Some])
  qed
next
  case (ChEntityMuted eid b)
  show ?thesis
  proof (cases "mx_ents m eid")
    case None
    then show ?thesis using assms(1) ChEntityMuted by (simp add: changeOk_def)
  next
    case (Some e)
    show ?thesis unfolding changeOk_def ChEntityMuted
      by (simp add: Some setEnt_def)
        (rule setOnly_ok[OF assms(1) Some]; simp add: audio_ent[OF assms(1) Some])
  qed
next
  case (ChAddSource eid ref pose hf grp)
  then show ?thesis using addSource_ok[OF assms(1)] assms(2) by simp
next
  case (ChAddSink eid k)
  then show ?thesis using addSink_ok[OF assms(1)] assms(2) by simp
next
  case (ChAddAmbi eid order k)
  then show ?thesis using addAmbi_ok[OF assms(1)] assms(2) by simp
next
  case (ChRemoveSource eid)
  then show ?thesis using removeSource_ok[OF assms(1)] assms(2) by simp
next
  case (ChRemoveSink eid)
  then show ?thesis using removeSink_ok[OF assms(1)] assms(2) by simp
next
  case (ChRemoveAmbi eid order)
  then show ?thesis using removeAmbi_ok[OF assms(1)] assms(2) by simp
qed (use assms(1) in \<open>simp_all add: changeOk_def markAudibleDirty_def\<close>)

lemma applyAll_ok:
  "audioOk m \<sigma> \<Longrightarrow> queueOk (length (mx_slots m)) \<sigma> cs \<Longrightarrow>
    \<exists>m'. applyAll cs m = Inr m' \<and> audioOk m' (replayAll cs \<sigma>) \<and> mx_control m' = mx_control m"
proof (induction cs arbitrary: m \<sigma>)
  case (Cons c cs)
  then obtain m1 where m1: "applyChange c m = Inr m1" "audioOk m1 (replay c \<sigma>)" "mx_control m1 = mx_control m"
    using applyChange_ok[of m \<sigma> c] by (auto simp: changeOk_def)
  have "length (mx_slots m1) = length (mx_slots m)" using m1(2,3) Cons.prems(1) by (auto simp: audioOk_def mx_control_def)
  then show ?case using Cons.IH[OF m1(2)] Cons.prems(2) m1 by (simp add: replayAll_def)
qed (simp add: replayAll_def)

section \<open>The invariant of the mixer\<close>

text \<open>\<open>ctlOk\<close> holds for the mixer's whole life; \<open>liveOk\<close> until \<^verbatim>\<open>Close\<close> has settled the audio side.\<close>

definition ctlOk :: "'d Mixer \<Rightarrow> bool" where
  "ctlOk m \<longleftrightarrow> regBound (nat (cf_MaxEntities (mx_cfg m))) (mx_reg m) \<and> mx_entityCount m = int (card (dom (mx_reg m))) \<and>
     1 \<le> cf_MaxEntities (mx_cfg m)"

definition liveOk :: "'d Mixer \<Rightarrow> bool" where
  "liveOk m \<longleftrightarrow> (\<exists>\<sigma>. audioOk m \<sigma> \<and> queueOk (length (mx_slots m)) \<sigma> (mx_changes m) \<and> mx_reg m = replayAll (mx_changes m) \<sigma>)"

definition mxInv :: "'d Mixer \<Rightarrow> bool" where
  "mxInv m \<longleftrightarrow> ctlOk m \<and> (mx_stopped m \<or> liveOk m)"

lemma New_inv: "New env banks cfg = Inr m \<Longrightarrow> delayModel env cfg \<Longrightarrow> mxInv m \<and> \<not> mx_stopped m \<and> mx_cfg m = cfg \<and> mx_env m = env"
  by (auto simp: New_def mxInv_def ctlOk_def liveOk_def audioOk_def regBound_def slotsOk_def replayAll_def Let_def
      intro!: exI[of _ Map.empty] split: if_splits)

text \<open>Queueing a change that is valid at the registry and moves the registry as its replay does.\<close>

lemma enqueue_live:
  assumes "liveOk m" "chValid (length (mx_slots m)) (mx_reg m) c" "mx_reg m' = replay c (mx_reg m)"
    "\<And>\<sigma>. audioOk m' \<sigma> = audioOk m \<sigma>" "mx_slots m' = mx_slots m" "mx_changes m' = mx_changes m @ [c]"
  shows "liveOk m'"
  using assms by (auto simp: liveOk_def queueOk_append replayAll_append) (auto simp: replayAll_def)

lemma admit_spec:
  assumes "admit m eid taken dup upd = Inr m'" "ctlOk m"
  shows "\<exists>n. m' = m \<lparr> mx_reg := addHalf (mx_reg m) eid upd, mx_entityCount := n \<rparr>" "ctlOk m'"
    "admitted (nat (cf_MaxEntities (mx_cfg m))) (mx_reg m) eid taken" "\<not> mx_closed m"
proof -
  have "\<exists>n. m' = m \<lparr> mx_reg := addHalf (mx_reg m) eid upd, mx_entityCount := n \<rparr> \<and> n = int (card (dom (addHalf (mx_reg m) eid upd)))"
    using assms by (auto simp: admit_def addHalf_def ctlOk_def regBound_def card_insert_if domIff insert_absorb
        split: if_splits option.splits intro!: exI)
  moreover show "admitted (nat (cf_MaxEntities (mx_cfg m))) (mx_reg m) eid taken"
    using assms by (auto simp: admit_def admitted_def ctlOk_def split: if_splits option.splits)
  moreover note addHalf_bound[of "nat (cf_MaxEntities (mx_cfg m))" "mx_reg m" eid taken upd]
  ultimately show "\<exists>n. m' = m \<lparr> mx_reg := addHalf (mx_reg m) eid upd, mx_entityCount := n \<rparr>" "ctlOk m'"
    using assms(2) by (auto simp: ctlOk_def)
  show "\<not> mx_closed m" using assms(1) by (auto simp: admit_def split: if_splits)
qed

lemma release_spec:
  assumes "ctlOk m" "mx_reg m eid = Some re"
  shows "\<exists>n. release m eid (upd re) = m \<lparr> mx_reg := dropHalf (mx_reg m) eid upd, mx_entityCount := n \<rparr>" "ctlOk (release m eid (upd re))"
proof -
  have "eid \<in> dom (mx_reg m)" "finite (dom (mx_reg m))" using assms by (auto simp: ctlOk_def regBound_def)
  then have "int (card (dom (mx_reg m) - {eid})) = int (card (dom (mx_reg m))) - 1"
    by (metis card_Suc_Diff1 add_diff_cancel_left' of_nat_Suc)
  then have "release m eid (upd re) = m \<lparr> mx_reg := dropHalf (mx_reg m) eid upd, mx_entityCount := int (card (dom (dropHalf (mx_reg m) eid upd))) \<rparr>"
    using assms by (cases m) (auto simp: release_def dropHalf_def ctlOk_def insert_absorb domI)
  then show "\<exists>n. release m eid (upd re) = m \<lparr> mx_reg := dropHalf (mx_reg m) eid upd, mx_entityCount := n \<rparr>"
    "ctlOk (release m eid (upd re))"
    using assms(1) dropHalf_bound[of "nat (cf_MaxEntities (mx_cfg m))" "mx_reg m" eid upd]
    by (auto simp: ctlOk_def simp del: domIff)
qed

section \<open>Runs\<close>

text \<open>The calls a host makes on a mixer, and the tick's drain of the queue. A tick is not made once \<^verbatim>\<open>Close\<close>
  has stopped the mixer, as its contract demands.\<close>

datatype mx_op = MAddSource string SourceConfig | MAddSink string | MAddAmbiSink string int
  | MRemoveSource string | MRemoveSink string | MRemoveAmbiSink string int
  | MSetRenderParams string RenderParams | MSetChannel string ChannelParams
  | MSetPersonalMute string string bool | MSetPersonalSolo string string bool | MSetEntityMuted string bool
  | MDrain | MClose

fun noPanic :: "'d Mixer \<times> 'a outcome \<Rightarrow> string + 'd Mixer" where
  "noPanic (m, Panic msg) = Inl msg"
| "noPanic (m, r) = Inr m"

fun mx_step :: "'d Codec \<Rightarrow> (int \<Rightarrow> bool) \<Rightarrow> mx_op \<Rightarrow> 'd Mixer \<Rightarrow> string + 'd Mixer" where
  "mx_step cd ms (MAddSource eid cfg) m = noPanic (AddSource cd m eid cfg)"
| "mx_step cd ms (MAddSink eid) m = noPanic (AddSink m eid)"
| "mx_step cd ms (MAddAmbiSink eid order) m = noPanic (AddAmbiSink ms m eid order)"
| "mx_step cd ms (MRemoveSource eid) m = Inr (RemoveSource m eid)"
| "mx_step cd ms (MRemoveSink eid) m = Inr (RemoveSink m eid)"
| "mx_step cd ms (MRemoveAmbiSink eid order) m = Inr (RemoveAmbiSink m eid order)"
| "mx_step cd ms (MSetRenderParams eid p) m = noPanic (SetRenderParams m eid p)"
| "mx_step cd ms (MSetChannel name p) m = Inr (SetChannel m name p)"
| "mx_step cd ms (MSetPersonalMute l r b) m = Inr (SetPersonalMute m l r b)"
| "mx_step cd ms (MSetPersonalSolo l r b) m = Inr (SetPersonalSolo m l r b)"
| "mx_step cd ms (MSetEntityMuted eid b) m = noPanic (SetEntityMuted m eid b)"
| "mx_step cd ms MDrain m = (if mx_stopped m then Inr m else drainChanges m)"
| "mx_step cd ms MClose m = Close m"

fun mx_exec :: "'d Codec \<Rightarrow> (int \<Rightarrow> bool) \<Rightarrow> mx_op list \<Rightarrow> 'd Mixer \<Rightarrow> string + 'd Mixer" where
  "mx_exec cd ms [] m = Inr m"
| "mx_exec cd ms (op # ops) m = (case mx_step cd ms op m of Inl msg \<Rightarrow> Inl msg | Inr m \<Rightarrow> mx_exec cd ms ops m)"

text \<open>Source configurations whose construction cannot panic: frames of up to 60 ms and a channel count the
  Opus decoder accepts.\<close>

definition sourceOk :: "'d Codec \<Rightarrow> SourceConfig \<Rightarrow> bool" where
  "sourceOk cd cfg0 \<longleftrightarrow> (let cfg = applyDefaults cfg0 in
     cd_new cd (sc_InputChannels cfg) \<noteq> None \<and>
     engine_cfg_ok (case sc_Group cfg of None \<Rightarrow> 1 | Some gs \<Rightarrow> max 1 (gs_Count gs)) (sc_JitterWriterFrame cfg) (sc_JitterReaderFrame cfg))"

fun mx_op_ok :: "'d Codec \<Rightarrow> mx_op \<Rightarrow> bool" where
  "mx_op_ok cd (MAddSource eid cfg) \<longleftrightarrow> sourceOk cd cfg"
| "mx_op_ok cd op \<longleftrightarrow> True"

text \<open>What building a source may touch: the group registry and heap.\<close>

definition mx_nogroup :: "'d Mixer \<Rightarrow> 'd Mixer" where
  "mx_nogroup m = m \<lparr> mx_groupReg := Map.empty, mx_groupHeap := Map.empty, mx_nextGroup := 0 \<rparr>"

lemma nogroup_fields:
  assumes "mx_nogroup m' = mx_nogroup m"
  shows "mx_control m' = mx_control m" "audioOk m' = audioOk m" "mx_slots m' = mx_slots m" "mx_ents m' = mx_ents m"
    "mx_destroyed m' = mx_destroyed m"
proof -
  have "mx_control (mx_nogroup m) = mx_control m" "audioOk (mx_nogroup m) = audioOk m" "mx_slots (mx_nogroup m) = mx_slots m"
    "mx_ents (mx_nogroup m) = mx_ents m" "mx_destroyed (mx_nogroup m) = mx_destroyed m" for m :: "'a Mixer"
    by (simp_all add: mx_nogroup_def mx_control_def)
  then show "mx_control m' = mx_control m" "audioOk m' = audioOk m" "mx_slots m' = mx_slots m" "mx_ents m' = mx_ents m"
    "mx_destroyed m' = mx_destroyed m" using assms by metis+
qed

lemma lookupGroup_nogroup: "lookupGroup m gs cfg = (m', r) \<Longrightarrow> mx_nogroup m' = mx_nogroup m"
  by (auto simp: lookupGroup_def mx_nogroup_def Let_def split: if_splits option.splits sum.splits prod.splits)

lemma buildSource_nogroup: "buildSource cd m eid cfg = (m', r) \<Longrightarrow> mx_nogroup m' = mx_nogroup m"
  by (auto simp: buildSource_def dest!: lookupGroup_nogroup split: if_splits option.splits sum.splits prod.splits outcome.splits)

lemma withCodec_total: "cd_new cd (sc_InputChannels cfg) \<noteq> None \<Longrightarrow> withCodec cd cfg src \<noteq> Inl msg"
  by (auto simp: withCodec_def NewOpusInputDecoder_def)

lemma lookupGroup_total:
  assumes "engine_cfg_ok (max 1 (gs_Count gs)) (sc_JitterWriterFrame cfg) (sc_JitterReaderFrame cfg)"
  shows "snd (lookupGroup m gs cfg) \<noteq> Panic msg"
proof (cases "gs_Count gs < 2")
  case False
  then have "max 1 (gs_Count gs) = gs_Count gs" by simp
  then obtain b where "NewJitterBuffer (sourceJitterConfig (gs_Count gs) (gs_Quality gs) (gs_Redundancy gs)
      (sc_JitterWriterFrame cfg) (sc_JitterReaderFrame cfg)) = Inr b"
    using engine_jitter[OF assms, of "gs_Quality gs" "gs_Redundancy gs"] by metis
  then show ?thesis by (auto simp: lookupGroup_def newSourceGroup_def Let_def split: option.split)
qed (simp add: lookupGroup_def)

lemma buildSource_total:
  assumes "sourceOk cd cfg0"
  shows "snd (buildSource cd m eid (applyDefaults cfg0)) \<noteq> Panic msg"
proof -
  let ?cfg = "applyDefaults cfg0"
  have new: "cd_new cd (sc_InputChannels ?cfg) \<noteq> None" using assms by (simp add: sourceOk_def Let_def)
  show ?thesis
  proof (cases "sc_TestTone ?cfg > 0")
    case False
    show ?thesis
    proof (cases "sc_Group ?cfg")
      case None
      then have "engine_cfg_ok 1 (sc_JitterWriterFrame ?cfg) (sc_JitterReaderFrame ?cfg)" using assms by (simp add: sourceOk_def Let_def)
      then obtain b where "NewJitterBuffer (sourceJitterConfig 1 (sc_Quality ?cfg) (sc_Redundancy ?cfg)
          (sc_JitterWriterFrame ?cfg) (sc_JitterReaderFrame ?cfg)) = Inr b" by (metis engine_jitter)
      then show ?thesis using False None withCodec_total[OF new] by (auto simp: buildSource_def split: sum.split)
    next
      case (Some gs)
      obtain m' r where l: "lookupGroup m gs ?cfg = (m', r)" by fastforce
      have "r \<noteq> Panic msg'" for msg'
        using lookupGroup_total[of gs ?cfg m msg'] assms Some l by (simp add: sourceOk_def Let_def)
      then show ?thesis using False Some l withCodec_total[OF new]
        by (cases r) (auto simp: buildSource_def split: sum.split)
    qed
  qed (simp add: buildSource_def)
qed

lemma ctl_control: "mx_control m' = mx_control m \<Longrightarrow> ctlOk m' = ctlOk m"
  by (simp add: ctlOk_def mx_control_def)

lemma live_slots: "liveOk m \<Longrightarrow> length (mx_slots m) = nat (cf_MaxEntities (mx_cfg m))"
  by (auto simp: liveOk_def audioOk_def)

lemma live_frame:
  "mx_control m' = mx_control m \<Longrightarrow> audioOk m' = audioOk m \<Longrightarrow> mx_slots m' = mx_slots m \<Longrightarrow> liveOk m' = liveOk m"
  by (simp add: liveOk_def mx_control_def)

lemma inv_frame:
  assumes "mxInv m" "mx_control m' = mx_control m" "audioOk m' = audioOk m" "mx_slots m' = mx_slots m"
  shows "mxInv m'"
  using assms ctl_control[of m' m] live_frame[of m' m] by (simp add: mxInv_def mx_control_def)

text \<open>An accepted add: the registry has the half, the change is queued, the invariant holds.\<close>

lemma admit_enqueue_inv:
  assumes i: "mxInv m" and a: "admit m eid taken dup upd = Inr m1"
    and v: "\<And>n \<sigma>. chValid n \<sigma> c = admitted n \<sigma> eid taken" and r: "\<And>\<sigma>. replay c \<sigma> = addHalf \<sigma> eid upd"
    and m2: "mx_control m2 = mx_control m1" "audioOk m2 = audioOk m1" "mx_slots m2 = mx_slots m1"
  shows "mxInv (enqueue m2 c)"
proof -
  have ctl: "ctlOk m" using i by (simp add: mxInv_def)
  note s = admit_spec[OF a ctl]
  obtain n where m1: "m1 = m \<lparr> mx_reg := addHalf (mx_reg m) eid upd, mx_entityCount := n \<rparr>" using s(1) by blast
  have "ctlOk (enqueue m2 c)" using s(2) ctl_control[OF m2(1)] by (simp add: ctlOk_def enqueue_def)
  moreover have "mx_stopped m \<or> liveOk (enqueue m2 c)"
  proof (cases "mx_stopped m")
    case False
    then have l: "liveOk m" using i by (simp add: mxInv_def)
    have "liveOk (enqueue m2 c)"
      by (rule enqueue_live[OF l, of c]) (use s(3) m1 m2 v r live_slots[OF l] in \<open>simp_all add: enqueue_def mx_control_def\<close>)
    then show ?thesis ..
  qed simp
  ultimately show ?thesis using m1 m2(1) by (auto simp: mxInv_def enqueue_def mx_control_def)
qed

lemma release_enqueue_inv:
  assumes i: "mxInv m" and re: "mx_reg m eid = Some re" "P re"
    and v: "\<And>n \<sigma>. chValid n \<sigma> c = registered \<sigma> eid P" and r: "\<And>\<sigma>. replay c \<sigma> = dropHalf \<sigma> eid upd"
  shows "mxInv (enqueue (release m eid (upd re)) c)"
proof -
  have ctl: "ctlOk m" using i by (simp add: mxInv_def)
  note s = release_spec[OF ctl re(1), of upd]
  obtain n where m1: "release m eid (upd re) = m \<lparr> mx_reg := dropHalf (mx_reg m) eid upd, mx_entityCount := n \<rparr>" using s(1) by blast
  have "ctlOk (enqueue (release m eid (upd re)) c)" using s(2) by (simp add: ctlOk_def enqueue_def)
  moreover have "mx_stopped m \<or> liveOk (enqueue (release m eid (upd re)) c)"
  proof (cases "mx_stopped m")
    case False
    then have l: "liveOk m" using i by (simp add: mxInv_def)
    have "liveOk (enqueue (release m eid (upd re)) c)"
      by (rule enqueue_live[OF l, of c]) (use re v r m1 in \<open>simp_all add: enqueue_def registered_def\<close>)
    then show ?thesis ..
  qed simp
  ultimately show ?thesis using m1 by (auto simp: mxInv_def enqueue_def)
qed

lemma enqueue_inv:
  assumes "mxInv m" "\<And>n \<sigma>. chValid n \<sigma> c" "\<And>\<sigma>. replay c \<sigma> = \<sigma>"
  shows "mxInv (enqueue m c)"
proof -
  have "ctlOk (enqueue m c)" using assms(1) by (simp add: mxInv_def ctlOk_def enqueue_def)
  moreover have "liveOk m \<Longrightarrow> liveOk (enqueue m c)"
    by (rule enqueue_live[of m c]) (simp_all add: assms enqueue_def)
  ultimately show ?thesis using assms(1) by (auto simp: mxInv_def enqueue_def)
qed

lemma drain_inv:
  assumes "ctlOk m" "liveOk m"
  shows "\<exists>m'. drainChanges m = Inr m' \<and> audioOk m' (mx_reg m) \<and> mx_changes m' = [] \<and> mx_control m' = mx_control (m \<lparr> mx_changes := [] \<rparr>)"
proof -
  obtain \<sigma> where \<sigma>: "audioOk m \<sigma>" "queueOk (length (mx_slots m)) \<sigma> (mx_changes m)" "mx_reg m = replayAll (mx_changes m) \<sigma>"
    using assms(2) by (auto simp: liveOk_def)
  then show ?thesis using applyAll_ok[of "m \<lparr> mx_changes := [] \<rparr>" \<sigma> "mx_changes m"]
    by (auto simp: drainChanges_def mx_control_def)
qed

lemma closeSlot_control: "mx_control (closeSlot m s) = mx_control m"
  by (auto simp: closeSlot_def setEnt_def split: option.split)

lemma closeAll_control: "mx_control (foldl closeSlot m ss) = mx_control m"
  by (induction ss arbitrary: m) (simp_all add: closeSlot_control)

lemma AddSource_inv:
  assumes i: "mxInv m" and ok: "sourceOk cd cfg0"
  shows "\<exists>m'. noPanic (AddSource cd m eid cfg0) = Inr m' \<and> mxInv m'"
proof -
  let ?cfg = "applyDefaults cfg0"
  obtain m1 r where b: "buildSource cd m eid ?cfg = (m1, r)" by fastforce
  note f = nogroup_fields[OF buildSource_nogroup[OF b]]
  have i1: "mxInv m1" using inv_frame[OF i f(1-3)] .
  show ?thesis
  proof (cases r)
    case (Ret src)
    let ?h = "mx_nextSource m1" let ?ref = "\<lparr> sr_handle = ?h, sr_group = src_group src \<rparr>"
    let ?c = "\<lambda>m2. ChAddSource eid ?ref (sc_InitialPose ?cfg) (sc_HeadFrame ?cfg) (groupName m2 src)"
    show ?thesis
    proof (cases "admit m1 eid (\<lambda>re. re_src re \<noteq> None) ErrDuplicateSource (\<lambda>re. re \<lparr> re_src := Some ?ref \<rparr>)")
      case (Inl e)
      then show ?thesis using b Ret i1 by (simp add: AddSource_eq Let_def)
    next
      case (Inr m2)
      have "mxInv (enqueue (joinGroup (m2 \<lparr> mx_sources := (mx_sources m2)(?h \<mapsto> src), mx_nextSource := ?h + 1 \<rparr>) src ?h) (?c m2))"
        by (rule admit_enqueue_inv[OF i1 Inr]) (auto simp: joinGroup_def mx_control_def split: option.split)
      then show ?thesis using b Ret Inr by (simp add: AddSource_eq Let_def)
    qed
  next
    case (Panic msg)
    then show ?thesis using buildSource_total[OF ok, of m eid msg] b by simp
  qed (use b i1 in \<open>simp add: AddSource_eq Let_def\<close>)
qed

lemma AddSink_inv:
  assumes i: "mxInv m"
  shows "\<exists>m'. noPanic (AddSink m eid) = Inr m' \<and> mxInv m'"
proof -
  let ?m = "m \<lparr> mx_nextSink := mx_nextSink m + 1 \<rparr>" let ?k = "mx_nextSink m"
  have i1: "mxInv ?m" using i by (simp add: mxInv_def ctlOk_def liveOk_def)
  show ?thesis
  proof (cases "admit ?m eid (\<lambda>re. re_sink re \<noteq> None) ErrDuplicateSink (\<lambda>re. re \<lparr> re_sink := Some ?k \<rparr>)")
    case (Inl e)
    have "mxInv (?m \<lparr> mx_destroyed := mx_destroyed m @ [?k] \<rparr>)" by (rule inv_frame[OF i1]) simp_all
    then show ?thesis using Inl by (simp add: AddSink_def Let_def)
  next
    case (Inr m1)
    have "mxInv (enqueue m1 (ChAddSink eid ?k))" by (rule admit_enqueue_inv[OF i1 Inr]) simp_all
    then show ?thesis using Inr by (simp add: AddSink_def Let_def)
  qed
qed

lemma AddAmbiSink_inv:
  assumes i: "mxInv m"
  shows "\<exists>m'. noPanic (AddAmbiSink ms m eid order) = Inr m' \<and> mxInv m'"
proof -
  let ?m = "m \<lparr> mx_nextAmbi := mx_nextAmbi m + 1 \<rparr>" let ?k = "mx_nextAmbi m"
  have i1: "mxInv ?m" using i by (simp add: mxInv_def ctlOk_def liveOk_def)
  show ?thesis
  proof (cases "admit ?m eid (\<lambda>re. map_of (re_ambi re) order \<noteq> None) ErrDuplicateSink (\<lambda>re. re \<lparr> re_ambi := AList.update order ?k (re_ambi re) \<rparr>)")
    case (Inl e)
    have "mxInv (?m \<lparr> mx_ambiDestroyed := mx_ambiDestroyed m @ [?k] \<rparr>)" by (rule inv_frame[OF i1]) simp_all
    then show ?thesis using Inl i by (simp add: AddAmbiSink_def Let_def)
  next
    case (Inr m1)
    have "mxInv (enqueue m1 (ChAddAmbi eid order ?k))" by (rule admit_enqueue_inv[OF i1 Inr]) simp_all
    then show ?thesis using Inr i by (simp add: AddAmbiSink_def Let_def)
  qed
qed

lemma tick_inv:
  assumes i: "mxInv m"
  shows "\<exists>m'. (if mx_stopped m then Inr m else drainChanges m) = Inr m' \<and> mxInv m'"
proof (cases "mx_stopped m")
    case False
    then have l: "ctlOk m" "liveOk m" using i by (auto simp: mxInv_def)
    obtain m' where m': "drainChanges m = Inr m'" "audioOk m' (mx_reg m)" "mx_changes m' = []"
      "mx_control m' = mx_control (m \<lparr> mx_changes := [] \<rparr>)" using drain_inv[OF l] by blast
    then have "mxInv m'" using l(1) by (auto simp: mxInv_def liveOk_def ctlOk_def mx_control_def replayAll_def)
    then show ?thesis using m' False by simp
qed (use i in simp)

lemma Close_inv:
  assumes i: "mxInv m"
  shows "\<exists>m'. Close m = Inr m' \<and> mxInv m'"
proof (cases "mx_stopped m")
    case True
    then show ?thesis using i by (simp add: Close_def Let_def mxInv_def ctlOk_def)
  next
    case False
    let ?m = "m \<lparr> mx_closed := True, mx_stopped := True \<rparr>"
    have l: "ctlOk ?m" "liveOk ?m" using i False by (auto simp: mxInv_def ctlOk_def liveOk_def)
    obtain m' where m': "drainChanges ?m = Inr m'" "mx_control m' = mx_control (?m \<lparr> mx_changes := [] \<rparr>)" using drain_inv[OF l] by blast
    let ?n = "foldl closeSlot m' (mx_slots m')"
    have "mx_control ?n = mx_control (?m \<lparr> mx_changes := [] \<rparr>)" using closeAll_control m'(2) by metis
    then have "ctlOk ?n" "mx_stopped ?n" using l(1) by (auto simp: ctlOk_def mx_control_def)
    then show ?thesis using m'(1) False by (simp add: Close_def Let_def mxInv_def)
qed

lemma Remove_inv:
  assumes i: "mxInv m"
  shows "mxInv (RemoveSource m eid)" "mxInv (RemoveSink m eid)" "mxInv (RemoveAmbiSink m eid order)"
proof -
  have "mxInv (enqueue (release m eid (re \<lparr> re_src := None \<rparr>)) (ChRemoveSource eid))" if "mx_reg m eid = Some re" "re_src re \<noteq> None" for re
    by (rule release_enqueue_inv[OF i that(1), where P = "\<lambda>re. re_src re \<noteq> None" and upd = "\<lambda>re. re \<lparr> re_src := None \<rparr>"]) (simp_all add: that)
  then show "mxInv (RemoveSource m eid)" using i by (simp add: RemoveSource_eq split: option.split)
  have "mxInv (enqueue (release m eid (re \<lparr> re_sink := None \<rparr>)) (ChRemoveSink eid))" if "mx_reg m eid = Some re" "re_sink re \<noteq> None" for re
    by (rule release_enqueue_inv[OF i that(1), where P = "\<lambda>re. re_sink re \<noteq> None" and upd = "\<lambda>re. re \<lparr> re_sink := None \<rparr>"]) (simp_all add: that)
  then show "mxInv (RemoveSink m eid)" using i by (simp add: RemoveSink_def split: option.split)
  have "mxInv (enqueue (release m eid (re \<lparr> re_ambi := AList.delete order (re_ambi re) \<rparr>)) (ChRemoveAmbi eid order))"
    if "mx_reg m eid = Some re" "map_of (re_ambi re) order \<noteq> None" for re
    by (rule release_enqueue_inv[OF i that(1), where P = "\<lambda>re. map_of (re_ambi re) order \<noteq> None"
          and upd = "\<lambda>re. re \<lparr> re_ambi := AList.delete order (re_ambi re) \<rparr>"]) (simp_all add: that)
  then show "mxInv (RemoveAmbiSink m eid order)" using i by (simp add: RemoveAmbiSink_def split: option.split)
qed

lemma mx_step_inv:
  assumes i: "mxInv m" and ok: "mx_op_ok cd op"
  shows "\<exists>m'. mx_step cd ms op m = Inr m' \<and> mxInv m'"
proof (cases op)
  case (MAddSource eid cfg)
  then show ?thesis using AddSource_inv[OF i] ok by simp
next
  case (MAddSink eid)
  then show ?thesis using AddSink_inv[OF i] by simp
next
  case (MAddAmbiSink eid order)
  then show ?thesis using AddAmbiSink_inv[OF i] by simp
next
  case MDrain
  then show ?thesis using tick_inv[OF i] by simp
next
  case MClose
  then show ?thesis using Close_inv[OF i] by simp
qed (use Remove_inv[OF i] i in \<open>auto simp: SetRenderParams_def SetChannel_def SetPersonalMute_def SetPersonalSolo_def
    SetEntityMuted_def intro!: enqueue_inv\<close>)

lemma mx_exec_inv:
  "mxInv m \<Longrightarrow> list_all (mx_op_ok cd) ops \<Longrightarrow> \<exists>m'. mx_exec cd ms ops m = Inr m' \<and> mxInv m'"
proof (induction ops arbitrary: m)
  case (Cons op ops)
  obtain m1 where m1: "mx_step cd ms op m = Inr m1" "mxInv m1" using mx_step_inv[OF Cons.prems(1), of cd op ms] Cons.prems(2) by auto
  from Cons.IH[OF m1(2)] Cons.prems(2) show ?case by (simp add: m1(1))
qed simp

text \<open>The configuration never changes.\<close>

lemma enqueue_cfg [simp]: "mx_cfg (enqueue m c) = mx_cfg m" "mx_env (enqueue m c) = mx_env m"
  by (simp_all add: enqueue_def)

lemma joinGroup_cfg [simp]: "mx_cfg (joinGroup m src h) = mx_cfg m" "mx_env (joinGroup m src h) = mx_env m"
  by (simp_all add: joinGroup_def split: option.split)

lemma admit_cfg: "admit m eid taken dup upd = Inr m' \<Longrightarrow> mx_fixed m' = mx_fixed m"
  by (auto simp: admit_def split: if_splits option.splits)

lemma release_cfg [simp]: "mx_cfg (release m eid re) = mx_cfg m" "mx_env (release m eid re) = mx_env m"
  by (simp_all add: release_def)

lemma drain_cfg: "ctlOk m \<Longrightarrow> liveOk m \<Longrightarrow> drainChanges m = Inr m' \<Longrightarrow> mx_fixed m' = mx_fixed m"
  using drain_inv[of m] by (auto simp: mx_control_def)

lemma Close_cfg:
  assumes "mxInv m" "Close m = Inr m'"
  shows "mx_fixed m' = mx_fixed m"
proof (cases "mx_stopped m")
  case False
  let ?m = "m \<lparr> mx_closed := True, mx_stopped := True \<rparr>"
  have l: "ctlOk ?m" "liveOk ?m" using assms(1) False by (auto simp: mxInv_def ctlOk_def liveOk_def)
  obtain m1 where m1: "drainChanges ?m = Inr m1" "m' = foldl closeSlot m1 (mx_slots m1)"
    using assms(2) False by (auto simp: Close_def Let_def split: sum.splits)
  have "mx_control m' = mx_control m1" unfolding m1(2) by (rule closeAll_control)
  then have "mx_fixed m' = mx_fixed m1" by (simp add: mx_control_def)
  also have "\<dots> = mx_fixed m" using drain_cfg[OF l m1(1)] by simp
  finally show ?thesis .
qed (use assms in \<open>auto simp: Close_def Let_def\<close>)

lemma AddSource_cfg: "noPanic (AddSource cd m eid cfg0) = Inr m' \<Longrightarrow> mx_fixed m' = mx_fixed m"
proof -
  assume a: "noPanic (AddSource cd m eid cfg0) = Inr m'"
  obtain m1 r where b: "buildSource cd m eid (applyDefaults cfg0) = (m1, r)" by fastforce
  have "mx_fixed m1 = mx_fixed m" using nogroup_fields(1)[OF buildSource_nogroup[OF b]] by (simp add: mx_control_def)
  then show ?thesis using a b by (cases r) (auto simp: AddSource_eq Let_def dest!: admit_cfg split: sum.splits)
qed

lemma mx_step_cfg: "mxInv m \<Longrightarrow> mx_step cd ms op m = Inr m' \<Longrightarrow> mx_fixed m' = mx_fixed m"
proof (cases op)
  case MDrain
  assume "mxInv m" "mx_step cd ms op m = Inr m'"
  then show ?thesis using MDrain drain_cfg[of m m'] by (auto simp: mxInv_def split: if_splits)
next
  case MClose
  assume "mxInv m" "mx_step cd ms op m = Inr m'"
  then show ?thesis using MClose Close_cfg[of m m'] by simp
qed (auto simp: AddSink_def AddAmbiSink_def Let_def RemoveSource_eq RemoveSink_def RemoveAmbiSink_def
    SetRenderParams_def SetChannel_def SetPersonalMute_def SetPersonalSolo_def SetEntityMuted_def
    dest!: admit_cfg AddSource_cfg split: if_splits option.splits sum.splits)

lemma mx_exec_cfg: "mxInv m \<Longrightarrow> list_all (mx_op_ok cd) ops \<Longrightarrow> mx_exec cd ms ops m = Inr m' \<Longrightarrow> mx_fixed m' = mx_fixed m"
proof (induction ops arbitrary: m)
  case (Cons op ops)
  obtain m1 where m1: "mx_step cd ms op m = Inr m1" "mxInv m1" using mx_step_inv[OF Cons.prems(1), of cd op ms] Cons.prems(2) by auto
  have "list_all (mx_op_ok cd) ops" "mx_exec cd ms ops m1 = Inr m'" using Cons.prems(2,3) m1(1) by simp_all
  from Cons.IH[OF m1(2) this] mx_step_cfg[OF Cons.prems(1) m1(1)] show ?case by simp
qed simp

section \<open>Properties\<close>

text \<open>C25. Calls made one after the other never panic. Take any mixer \<open>New\<close> builds, and any sequence of adds, removes,
  parameter changes, applications of the queue and closes in which each call queues its change before the next one
  starts, and in which every source is configured within the engine's limits (a decoder exists for its channels and its
  jitter buffer can be built). Then every call and every application of the queue completes; the registry
  never exceeds the configured capacity and the entity counter is its size. Calls that overlap are another matter:
  \<open>Mixer_Races\<close>.\<close>

theorem mixer_never_panics:
  assumes "New env banks cfg = Inr m0" "delayModel env cfg" "list_all (mx_op_ok cd) ops"
  shows "\<exists>m. mx_exec cd ms ops m0 = Inr m \<and> finite (Entities m) \<and>
    mx_entityCount m = int (card (Entities m)) \<and> mx_entityCount m \<le> cf_MaxEntities cfg"
proof -
  have i: "mxInv m0" "mx_cfg m0 = cfg" using New_inv[OF assms(1,2)] by simp_all
  from mx_exec_inv[OF i(1) assms(3), of ms] obtain m where m: "mx_exec cd ms ops m0 = Inr m" "mxInv m" by auto
  then show ?thesis using mx_exec_cfg[OF i(1) assms(3) m(1)] i(2) by (auto simp: mxInv_def ctlOk_def regBound_def Entities_def)
qed

definition demo_env :: Env where
  "demo_env = \<lparr> ev_math = demo_math, ev_bilateral = demo_bilateral, ev_sgemm = demo_sgemm, ev_nfc = (\<lambda>_ _ _ _. 0),
     ev_encode = (\<lambda>_ _. Some []), ev_encodeMS = (\<lambda>_ _. Some []), ev_convolver = (\<lambda>_. True) \<rparr>"

lemma demo_convolver [simp]: "ev_convolver demo_env i"
  by (simp add: demo_env_def)

lemma demo_env_delays: "initDelayModel (ev_bilateral demo_env) cfg = Inr (demo_delays cfg)"
  by (simp add: demo_env_def demo_delays)

lemma demo_delayModel: "delayModel demo_env cfg"
  by (simp add: delayModel_def demo_env_def demo_delays)

definition demo_new_mixer :: "nat \<Rightarrow> unit Mixer" where
  "demo_new_mixer n = (case New demo_env (\<lambda>_. True) (DefaultConfig \<lparr> cf_MaxEntities := int n \<rparr>) of Inr m \<Rightarrow> m)"

lemma demo_mixer: "New demo_env (\<lambda>_. True) (DefaultConfig \<lparr> cf_MaxEntities := int (Suc n) \<rparr>) = Inr (demo_new_mixer (Suc n))"
  by (simp add: demo_new_mixer_def New_def DefaultConfig_def Let_def)

definition demo_sc :: SourceConfig where
  "demo_sc = \<lparr> sc_Group = None, sc_Codec = SourceCodecOpus, sc_InitialPose = zeroPose, sc_InputChannels = 0,
     sc_JitterWriterFrame = 0, sc_JitterReaderFrame = 0, sc_Quality = 1, sc_Redundancy = 0, sc_TestTone = 0, sc_HeadFrame = False \<rparr>"

lemma demo_sourceOk: "sourceOk demo_codec demo_sc"
  using demo_engine_cfg(1) by (simp add: sourceOk_def demo_sc_def applyDefaults_def demo_codec_def)

theorem mixer_never_panics_witness:
  "\<exists>m. mx_exec demo_codec (\<lambda>_. True) [MAddSource ''a'' demo_sc, MAddSink ''a'', MDrain, MRemoveSource ''a'', MAddSink ''b'', MDrain, MClose]
     (demo_new_mixer 1) = Inr m \<and> mx_entityCount m \<le> 1"
proof -
  have "list_all (mx_op_ok demo_codec) [MAddSource ''a'' demo_sc, MAddSink ''a'', MDrain, MRemoveSource ''a'', MAddSink ''b'', MDrain, MClose]"
    using demo_sourceOk by simp
  from mixer_never_panics[OF demo_mixer[of 0] demo_delayModel this, of "\<lambda>_. True"] show ?thesis by auto
qed

text \<open>C27. The audio thread's sources and binaural sinks are the caller's. After any sequence of calls made one after the other, with
  the queue applied anywhere in between, applying the queue leaves every entity on the audio side registered with the same source and
  the same binaural sink, gives every registered source and binaural sink its entity, keeps entities and slots one to one, and
  leaves nothing pending. Of ambisonic sinks it says less: those an entity renders are registered, but a registered one may have been
  lost (\<open>RemoveSink_loses_ambisonic_sinks\<close>).\<close>

theorem audio_side_refines_registry:
  assumes "New env banks cfg = Inr m0" "delayModel env cfg" "list_all (mx_op_ok cd) ops" "mx_exec cd ms ops m0 = Inr m" "\<not> mx_stopped m"
  shows "\<exists>m'. drainChanges m = Inr m' \<and> mx_changes m' = [] \<and> mx_reg m' = mx_reg m \<and>
    (\<forall>x. agree (mx_reg m x) (mx_ents m' x)) \<and> slotsOk (mx_ents m') (mx_slots m')"
proof -
  have "mxInv m0" using New_inv[OF assms(1,2)] by simp
  then have "mxInv m" using mx_exec_inv[OF _ assms(3), of m0 ms] assms(4) by auto
  then have "ctlOk m" "liveOk m" using assms(5) by (auto simp: mxInv_def)
  from drain_inv[OF this] show ?thesis by (auto simp: audioOk_def mx_control_def)
qed

theorem audio_side_refines_registry_witness:
  "\<exists>m m'. mx_exec demo_codec (\<lambda>_. True) [MAddSink ''a'', MAddSink ''b'', MRemoveSink ''a''] (demo_new_mixer 2) = Inr m \<and>
     drainChanges m = Inr m' \<and> mx_ents m' ''a'' = None \<and> map_option ent_sink (mx_ents m' ''b'') = Some (Some 1)"
proof -
  let ?ops = "[MAddSink ''a'', MAddSink ''b'', MRemoveSink ''a'']"
  obtain m where m: "mx_exec demo_codec (\<lambda>_. True) ?ops (demo_new_mixer 2) = Inr m" "\<not> mx_stopped m"
      "mx_reg m ''a'' = None" "mx_reg m ''b'' = Some (emptyReg \<lparr> re_sink := Some 1 \<rparr>)"
    by (simp add: demo_new_mixer_def New_def DefaultConfig_def AddSink_def admit_def RemoveSink_def release_def enqueue_def emptyReg_def)
  have n: "New demo_env (\<lambda>_. True) (DefaultConfig \<lparr> cf_MaxEntities := int 2 \<rparr>) = Inr (demo_new_mixer 2)" using demo_mixer[of 1] by (simp add: numeral_2_eq_2)
  from audio_side_refines_registry[OF n demo_delayModel _ m(1,2)] obtain m' where m': "drainChanges m = Inr m'" "\<forall>x. agree (mx_reg m x) (mx_ents m' x)" by auto
  have "mx_ents m' ''a'' = None" using m'(2)[rule_format, of "''a''"] m(3) by (cases "mx_ents m' ''a''") auto
  moreover have "map_option ent_sink (mx_ents m' ''b'') = Some (Some 1)"
    using m'(2)[rule_format, of "''b''"] m(4) by (cases "mx_ents m' ''b''") (auto simp: emptyReg_def)
  ultimately show ?thesis using m(1) m'(1) by blast
qed

end
