(* ===== verification/Render.thy ===== *)
theory Render
  imports Mixer_Safety
begin

text \<open>
  The render loop (\<^verbatim>\<open>src/engine/engine/render.go\<close>, \<^verbatim>\<open>recomputeAudible\<close> of \<^verbatim>\<open>channels.go\<close>, the \<^verbatim>\<open>emit\<close> and \<^verbatim>\<open>SetPose\<close> of
  \<^verbatim>\<open>sink.go\<close> and \<^verbatim>\<open>ambisink.go\<close>). A tick applies the queued changes, rebuilds the pair record when
  dirty, reads the lockstep groups, then runs three phases over the entities: In, Across, Out.

  The jobs of a phase run on worker goroutines with a barrier after each phase; here they run one after
  the other in dispatch order, job \<open>i\<close> on the scratch mixers of the worker the round robin gives it.
  Render_Parallel shows that the result is the same however the workers are scheduled. Go's iteration over the map of
  entities is the iteration over the slots, which hold the same entities. \<open>None\<close> is a panic. The
  timing counters are not modelled.
\<close>

fun foldO :: "('b \<Rightarrow> 'a \<Rightarrow> 'a option) \<Rightarrow> 'b list \<Rightarrow> 'a \<Rightarrow> 'a option" where
  "foldO f [] a = Some a"
| "foldO f (x # xs) a = do { a \<leftarrow> f x a; foldO f xs a }"

section \<open>The pair record\<close>

definition setCell :: "'a list list \<Rightarrow> nat \<Rightarrow> nat \<Rightarrow> 'a \<Rightarrow> 'a list list option" where
  "setCell M i j v = (if i < length M \<and> j < length (M ! i) then Some (M[i := (M ! i)[j := v]]) else None)"

definition liveEnts :: "'d Mixer \<Rightarrow> entity list" where
  "liveEnts m = List.map_filter (\<lambda>s. Option.bind s (mx_ents m)) (mx_slots m)"

definition pairOf :: "'d Mixer \<Rightarrow> entity \<Rightarrow> entity \<Rightarrow> bool \<times> rat \<times> rat" where
  "pairOf m s k = resolvePair (mx_channelTable m) (mx_personalMutes m) (mx_personalSolos m) s k"

definition setPair :: "entity \<Rightarrow> entity \<Rightarrow> 'd Mixer \<Rightarrow> 'd Mixer option" where
  "setPair k s m = (case pairOf m s k of (ok, g, a) \<Rightarrow>
     do { A \<leftarrow> setCell (mx_audible m) (ent_slot k) (ent_slot s) ok;
          G \<leftarrow> setCell (mx_pairGain m) (ent_slot k) (ent_slot s) g;
          E \<leftarrow> setCell (mx_pairAttExp m) (ent_slot k) (ent_slot s) a;
          Some (m \<lparr> mx_audible := A, mx_pairGain := G, mx_pairAttExp := E \<rparr>) })"

definition recomputeAudible :: "'d Mixer \<Rightarrow> 'd Mixer option" where
  "recomputeAudible m = foldO (\<lambda>k. foldO (setPair k) (liveEnts m)) (liveEnts m) (m \<lparr> mx_audibleDirty := False \<rparr>)"

text \<open>A listener's row of the record, as its encoder's slices alias it.\<close>

definition rowsOf :: "'d Mixer \<Rightarrow> nat \<Rightarrow> nat \<Rightarrow> rat \<times> rat" where
  "rowsOf m k s = (mx_pairGain m ! k ! s, mx_pairAttExp m ! k ! s)"

section \<open>Sinks\<close>

definition SetPose :: "'d Mixer \<Rightarrow> nat \<Rightarrow> Pose \<Rightarrow> 'd Mixer" where
  "SetPose m k p = m \<lparr> mx_sinks := (mx_sinks m)(k := (mx_sinks m k) \<lparr> sk_pose := Some p \<rparr>) \<rparr>"

definition SetAmbiPose :: "'d Mixer \<Rightarrow> nat \<Rightarrow> Pose \<Rightarrow> 'd Mixer" where
  "SetAmbiPose m k p = m \<lparr> mx_ambis := (mx_ambis m)(k := (mx_ambis m k) \<lparr> sk_pose := Some p \<rparr>) \<rparr>"

text \<open>Handing a frame to the encoder: an error drops the frame and is counted, a packet is written with
  the tick's stamp.\<close>

definition emitTo :: "(rat list list \<Rightarrow> byte list option) \<Rightarrow> nat \<Rightarrow> rat list \<Rightarrow> Sink \<Rightarrow> Sink" where
  "emitTo encode frameStart frm k = (let ins = sk_inputs k @ [frm]; k = k \<lparr> sk_inputs := ins \<rparr> in
     case encode ins of
       None \<Rightarrow> k \<lparr> sk_encodeErrors := sk_encodeErrors k + 1 \<rparr>
     | Some pkt \<Rightarrow> k \<lparr> sk_written := sk_written k @ [(pkt, frameStart)] \<rparr>)"

definition sink_emit :: "nat \<Rightarrow> rat list \<Rightarrow> 'd Mixer \<Rightarrow> 'd Mixer" where
  "sink_emit k output m = m \<lparr> mx_sinks := (mx_sinks m)(k := emitTo (ev_encode (mx_env m) k) (mx_frameStart m) output (mx_sinks m k)) \<rparr>"

definition sn3dScale :: "Math \<Rightarrow> nat \<Rightarrow> rat" where
  "sn3dScale mt l = f32 (div64 1 (sqrt64 mt (int64f (2 * int l + 1))))"

definition channelOrder :: "nat \<Rightarrow> nat" where
  "channelOrder c = hd (filter (\<lambda>l. l * l \<le> c \<and> c < (l + 1) * (l + 1)) [0..<6] @ [0])"

text \<open>Truncation to the format order, rescaling, interleaving.\<close>

definition ambiFrame :: "Math \<Rightarrow> int \<Rightarrow> rat list \<Rightarrow> rat list option" where
  "ambiFrame mt order planar = (let channels = (nat order + 1) * (nat order + 1) in
     if channels * FrameSize \<le> length planar
     then Some (map (\<lambda>j. mul32 (planar ! ((j mod channels) * FrameSize + j div channels)) (sn3dScale mt (channelOrder (j mod channels))))
       [0..<channels * FrameSize])
     else None)"

definition ambi_emit :: "rat list \<Rightarrow> int \<times> nat \<Rightarrow> 'd Mixer \<Rightarrow> 'd Mixer option" where
  "ambi_emit planar ok m = (case ok of (order, k) \<Rightarrow>
     map_option (\<lambda>frm. m \<lparr> mx_ambis := (mx_ambis m)(k := emitTo (ev_encodeMS (mx_env m) k) (mx_frameStart m) frm (mx_ambis m k)) \<rparr>)
       (ambiFrame (ev_math (mx_env m)) order planar))"

section \<open>The phases\<close>

text \<open>\<^verbatim>\<open>phaseIn\<close>: the source half, then the two listening halves. A lockstep member's channel is read from
  the frame its set read this tick, an index panic when the frame is too short.\<close>

definition channelInRange :: "'d Mixer \<Rightarrow> 'd Source \<Rightarrow> bool" where
  "channelInRange m s \<longleftrightarrow> (case src_group s of
     None \<Rightarrow> True
   | Some (h, i) \<Rightarrow> (case mx_groupHeap m h of None \<Rightarrow> False | Some g \<Rightarrow> (FrameSize - 1) * sg_n g + i < length (sg_readScratch g)))"

definition inSource :: "entity \<Rightarrow> 'd Mixer \<Rightarrow> (entity \<times> 'd Mixer) option" where
  "inSource e m = (let mt = ev_math (mx_env m) in
     case ent_src e of
       None \<Rightarrow> Some (e, m)
     | Some r \<Rightarrow>
         do { s \<leftarrow> mx_sources m (sr_handle r);
              (frm, p, s) \<leftarrow> (if channelInRange m s then readFrame mt (\<lambda>h. the (mx_groupHeap m h)) s (enc_Input (ent_enc e)) else None);
              let enc = SetPosition (PushInputRing ((ent_enc e) \<lparr> enc_Input := frm \<rparr>)) (position p);
              let enc = (if rp_Directivity (ent_params e) > 0 then SetSourceForward enc (forward mt p) else enc);
              let s = updateRenderLoudness mt s frm (rp_Gain (ent_params e));
              shared \<leftarrow> SetRow FrameSize (mx_shared m) (ent_slot e) frm;
              Some (e \<lparr> ent_enc := enc \<rparr>, m \<lparr> mx_sources := (mx_sources m)(sr_handle r \<mapsto> s), mx_shared := shared \<rparr>) })"

definition listenerPose :: "'d Mixer \<Rightarrow> entity \<Rightarrow> Pose option" where
  "listenerPose m e =
    (case Option.bind (ent_sink e) (\<lambda>k. sk_pose (mx_sinks m k)) of
       Some p \<Rightarrow> Some p
     | None \<Rightarrow> (case List.map_filter (\<lambda>(ord, k). sk_pose (mx_ambis m k)) (ent_ambiSinks e) of [] \<Rightarrow> None | p # _ \<Rightarrow> Some p))"

definition inSink :: "'d Mixer \<Rightarrow> entity \<Rightarrow> entity" where
  "inSink m e = (case Option.bind (ent_sink e) (\<lambda>k. sk_pose (mx_sinks m k)) of
     None \<Rightarrow> e
   | Some p \<Rightarrow> e \<lparr> ent_enc := SetListenerPosition (SetRotation (ev_math (mx_env m)) (ent_enc e) (rotation p)) (position p) \<rparr>)"

definition inAmbi :: "'d Mixer \<Rightarrow> entity \<Rightarrow> entity" where
  "inAmbi m e = (case (ent_ambiEnc e, listenerPose m e) of
     (Some enc, Some p) \<Rightarrow> e \<lparr> ent_ambiEnc := Some (SetListenerPosition enc (position p)) \<rparr>
   | _ \<Rightarrow> e)"

definition phaseIn :: "entity \<Rightarrow> 'd Mixer \<Rightarrow> (entity \<times> 'd Mixer) option" where
  "phaseIn e m = do { (e, m) \<leftarrow> inSource e m; Some (inAmbi m (inSink m e), m) }"

text \<open>The encoders of the peers, as they are when the job runs.\<close>

definition peerEncs :: "'d Mixer \<Rightarrow> entity \<Rightarrow> Encoder list" where
  "peerEncs m e = map ent_enc (List.map_filter (mx_ents m) (ent_peers e))"

definition encodeFor :: "'d Mixer \<Rightarrow> Encoder \<Rightarrow> Encoder list \<Rightarrow> workerMixers \<Rightarrow> (Encoder \<times> workerMixers) option" where
  "encodeFor m enc peers ms = EncodePeers (ev_math (mx_env m)) (ev_bilateral (mx_env m)) (ev_sgemm (mx_env m)) (ev_nfc (mx_env m))
     (rowsOf m) (mx_shared m) enc peers ms"

definition phaseAcross :: "entity \<Rightarrow> workerMixers \<Rightarrow> 'd Mixer \<Rightarrow> (entity \<times> workerMixers) option" where
  "phaseAcross e ms m =
    do { (e, ms) \<leftarrow> (if ent_sink e \<noteq> None
           then do { (enc, ms) \<leftarrow> encodeFor m (ent_enc e) (peerEncs m e) ms; Some (e \<lparr> ent_enc := enc \<rparr>, ms) }
           else Some (e, ms));
         (case ent_ambiEnc e of
            None \<Rightarrow> Some (e, ms)
          | Some a \<Rightarrow>
              do { (a, (dry, _, rvb)) \<leftarrow> encodeFor m a (peerEncs (setEnt m e) e) (fst ms, None, snd (snd ms));
                   Some (e \<lparr> ent_ambiEnc := Some a \<rparr>, (dry, fst (snd ms), rvb)) }) }"

definition outSink :: "entity \<Rightarrow> 'd Mixer \<Rightarrow> (entity \<times> 'd Mixer) option" where
  "outSink e m = (case ent_sink e of
     None \<Rightarrow> Some (e, m)
   | Some k \<Rightarrow> do { enc \<leftarrow> PostMix (ent_enc e); Some (e \<lparr> ent_enc := enc \<rparr>, sink_emit k (eb_Output (enc_buffers enc)) m) })"

definition outAmbi :: "entity \<Rightarrow> 'd Mixer \<Rightarrow> (entity \<times> 'd Mixer) option" where
  "outAmbi e m = (case ent_ambiEnc e of
     None \<Rightarrow> Some (e, m)
   | Some a \<Rightarrow> do { a \<leftarrow> PostMix a; m \<leftarrow> foldO (ambi_emit (eb_Output (enc_buffers a))) (ent_ambiSinks e) m;
                   Some (e \<lparr> ent_ambiEnc := Some a \<rparr>, m) })"

definition phaseOut :: "entity \<Rightarrow> 'd Mixer \<Rightarrow> (entity \<times> 'd Mixer) option" where
  "phaseOut e m = do { (e, m) \<leftarrow> outSink e m; outAmbi e m }"

section \<open>Dispatch\<close>

datatype phase = PhaseIn | PhaseAcross | PhaseOut

definition runJob :: "phase \<Rightarrow> nat \<Rightarrow> string \<Rightarrow> 'd Mixer \<Rightarrow> 'd Mixer option" where
  "runJob ph w eid m =
    do { e \<leftarrow> mx_ents m eid; ms \<leftarrow> (if w < length (mx_workers m) then Some (mx_workers m ! w) else None);
         (case ph of
            PhaseIn \<Rightarrow> do { (e, m) \<leftarrow> phaseIn e m; Some (setEnt m e) }
          | PhaseAcross \<Rightarrow> do { (e, ms) \<leftarrow> phaseAcross e ms m; Some (setEnt (m \<lparr> mx_workers := (mx_workers m)[w := ms] \<rparr>) e) }
          | PhaseOut \<Rightarrow> do { (e, m) \<leftarrow> phaseOut e m; Some (setEnt m e) }) }"

definition dispatch :: "phase \<Rightarrow> string \<Rightarrow> 'd Mixer \<Rightarrow> 'd Mixer option" where
  "dispatch ph eid m =
    do { m \<leftarrow> runJob ph (mx_nextWork m) eid m; Some (m \<lparr> mx_nextWork := (mx_nextWork m + 1) mod length (mx_workers m) \<rparr>) }"

definition runPhase :: "phase \<Rightarrow> string list \<Rightarrow> 'd Mixer \<Rightarrow> 'd Mixer option" where
  "runPhase ph ids m = foldO (dispatch ph) ids m"

section \<open>A tick\<close>

definition readGroups :: "'d Mixer \<Rightarrow> 'd Mixer" where
  "readGroups m = m \<lparr> mx_groupHeap := foldl (\<lambda>hp (gid, g). hp(g := map_option group_read (hp g))) (mx_groupHeap m) (mx_groups m) \<rparr>"

definition sourceEnts :: "'d Mixer \<Rightarrow> entity list" where
  "sourceEnts m = filter (\<lambda>e. ent_src e \<noteq> None) (liveEnts m)"

definition sinkEnts :: "'d Mixer \<Rightarrow> entity list" where
  "sinkEnts m = filter listening (liveEnts m)"

definition setPeers :: "entity \<Rightarrow> 'd Mixer \<Rightarrow> 'd Mixer option" where
  "setPeers e m = (let A = mx_audible m; srcs = sourceEnts m in
     if ent_slot e < length A \<and> (\<forall>s\<in>set srcs. ent_slot s < length (A ! ent_slot e))
     then Some (setEnt m (e \<lparr> ent_peers := map ent_id (filter (\<lambda>s. A ! ent_slot e ! ent_slot s) srcs) \<rparr>)) else None)"

definition startTick :: "'d Mixer \<Rightarrow> 'd Mixer" where
  "startTick m = (let t = mx_tickCount m + 1 in m \<lparr> mx_tickCount := t, mx_frameStart := (nat (t - 1) * FrameSize) mod 2 ^ 64 \<rparr>)"

definition prepare :: "'d Mixer \<Rightarrow> 'd Mixer option" where
  "prepare m =
    do { m \<leftarrow> (if mx_audibleDirty m then recomputeAudible m else Some m);
         let m = readGroups m;
         foldO setPeers (sinkEnts m) m }"

definition Process :: "'d Mixer \<Rightarrow> 'd Mixer option" where
  "Process m = (case drainChanges (startTick m) of
     Inl _ \<Rightarrow> None
   | Inr m \<Rightarrow>
      do { m \<leftarrow> prepare m;
           let listeners = map ent_id (sinkEnts m);
           m \<leftarrow> runPhase PhaseIn (map ent_id (liveEnts m)) m;
           m \<leftarrow> runPhase PhaseAcross listeners m;
           runPhase PhaseOut listeners m })"

end
