(* ===== verification/Render_Safety.thy ===== *)
theory Render_Safety
  imports Render
begin

text \<open>
  The render invariant and its preservation: every encoder an entity owns is well-formed for the mixer's
  configuration and its slot, every source an entity plays can be read, the workers' mixers and the
  shared matrices have their shapes. Under it a tick always completes.
\<close>

section \<open>What rendering keeps of an encoder\<close>

text \<open>Everything but the weight and output buffers, the delay state and the reverb: what another listener
  may read of an encoder while it renders.\<close>

definition encCore :: "Encoder \<Rightarrow> Encoder" where
  "encCore e = e \<lparr> enc_buffers := newBuffers (enc_mixerConfig e) False, enc_delays := None, enc_reverb := NewSimpleReverb 0 0 \<rparr>"

lemma encCore_upd [simp]:
  "encCore (e \<lparr> enc_buffers := b \<rparr>) = encCore e" "encCore (e \<lparr> enc_delays := d \<rparr>) = encCore e" "encCore (e \<lparr> enc_reverb := r \<rparr>) = encCore e"
  by (simp_all add: encCore_def)

lemma encCore_fields [simp]:
  "enc_slot (encCore e) = enc_slot e" "enc_mixerConfig (encCore e) = enc_mixerConfig e" "enc_dualBus (encCore e) = enc_dualBus e"
  "enc_gainFactor (encCore e) = enc_gainFactor e" "enc_peerAttenuationExponent (encCore e) = enc_peerAttenuationExponent e"
  "enc_Uuid (encCore e) = enc_Uuid e" "enc_Input (encCore e) = enc_Input e" "enc_inputRing (encCore e) = enc_inputRing e"
  "enc_pairRow (encCore e) = enc_pairRow e"
  by (simp_all add: encCore_def)

lemma encCore_eqD:
  assumes "encCore e' = encCore e"
  shows "enc_slot e' = enc_slot e" "enc_mixerConfig e' = enc_mixerConfig e" "enc_dualBus e' = enc_dualBus e"
    "enc_gainFactor e' = enc_gainFactor e" "enc_peerAttenuationExponent e' = enc_peerAttenuationExponent e" "enc_Uuid e' = enc_Uuid e"
    "enc_Input e' = enc_Input e" "enc_inputRing e' = enc_inputRing e" "enc_pairRow e' = enc_pairRow e"
  using assms encCore_fields by metis+

lemma advance_core [simp]: "encCore (advance e) = encCore e"
  by (simp add: advance_def)

lemma mixBuses_core: "mixBuses gm shared e sw ps = Some (e', ms) \<Longrightarrow> encCore e' = encCore e"
  by (auto simp: mixBuses_def Let_def bind_eq_Some_conv)

lemma storePass_core [simp]: "encCore (storePass e ps) = encCore e"
  by (simp add: storePass_def)

lemma EncodePeers_core:
  assumes "EncodePeers mt bl gm tbl rows shared e peers ms = Some (e', ms')"
  shows "encCore e' = encCore e"
proof (cases "filteredPeers e peers = []")
  case True
  obtain b where "EncodePeers mt bl gm tbl rows shared e peers ms = Some (ClearOutput ((advance e) \<lparr> enc_buffers := b \<rparr>), ms)"
    using EncodePeers_silent[OF True] by blast
  then show ?thesis using assms by (auto simp: ClearOutput_def Let_def)
next
  case False
  obtain pW pWR pR pS where p: "previousOf (toggled (advance e)) = (pW, pWR, pR, pS)" by (cases "previousOf (toggled (advance e))")
  have "filteredPeers (advance e) peers \<noteq> []" using False by simp
  from EncodePeers_run[OF this p] assms obtain ps where "mixBuses gm shared (storePass (advance e) ps) (ps_shared ps, pS) ps = Some (e', ms')"
    by (auto simp: bind_eq_Some_conv)
  from mixBuses_core[OF this] show ?thesis by simp
qed

lemma PostMix_core: "PostMix e = Some e' \<Longrightarrow> encCore e' = encCore e"
  by (auto simp: PostMix_def Let_def bind_eq_Some_conv split: if_splits)

section \<open>Reading a frame\<close>

lemma length_foldl_copy:
  "(\<And>x. x \<in> set xs \<Longrightarrow> f x \<le> length dst) \<Longrightarrow> length (foldl (\<lambda>d x. copy_at d (f x) (g x)) dst xs) = length dst"
  by (induction xs arbitrary: dst) auto

lemma frames_fit:
  assumes "j \<le> nFrames" "nFrames = int (length dst) sdiv nc"
  shows "nat j * nat nc \<le> length dst"
proof (cases "0 < nc")
  case True
  have "nFrames = int (length dst) div nc" using assms(2) True by (simp add: sdiv_nonneg)
  then have n: "nFrames * nc \<le> int (length dst)" "0 \<le> nFrames" using True by (simp_all add: minus_mod_eq_div_mult [symmetric] pos_imp_zdiv_nonneg_iff)
  have "max 0 j * nc \<le> nFrames * nc" using assms(1) n(2) True by (intro mult_right_mono) auto
  then have "nat (max 0 j * nc) \<le> length dst" using n(1) by linarith
  then show ?thesis using True by (cases "0 \<le> j") (simp_all add: nat_mult_distrib)
qed simp

lemma length_readPlay:
  assumes "nFrames = int (length dst) sdiv jb_nc b" "readPlay b dst nFrames fill = (dst', b')"
  shows "length dst' = length dst"
proof -
  note f = frames_fit[OF _ assms(1)]
  have 1: "length (spliceDrop cap (nat (jb_nc b)) data dst rp nFrames) = length dst" for cap data rp
    unfolding spliceDrop_def Let_def by (rule length_foldl_copy) (simp add: f)
  have 2: "length (spliceInsert cap (nat (jb_nc b)) data dst rp nFrames) = length dst" for cap data rp
    unfolding spliceInsert_def Let_def by (rule length_foldl_copy) (simp add: f)
  have 3: "length (readFromRing cap (nat (jb_nc b)) data dst rp nFrames) = length dst" for cap data rp
    using f[of "cap - rp smod cap"] by (simp add: readFromRing_def Let_def)
  show ?thesis using assms(2) 1 2 3 by (auto simp: readPlay_def Let_def split: if_splits)
qed

lemma length_Read:
  assumes "Read b dst = (ok, dst', b')"
  shows "length dst' = length dst"
proof -
  have nc: "jb_nc (accrueDebt (readPlace b1 sp)) = jb_nc b" if "readStartup b = Some b1" for b1 sp
  proof -
    have "jb_fixed (accrueDebt (readPlace b1 sp)) = jb_fixed b1" by (simp add: jb_frame)
    moreover have "jb_nc b1 = jb_nc b" using that by (auto simp: readStartup_def split: if_splits)
    ultimately show ?thesis by (simp add: fixed_eq)
  qed
  let ?n = "int (length dst) sdiv jb_nc b"
  show ?thesis
  proof (cases "readStartup b")
    case None
    then show ?thesis using assms by (cases "?n = 0") (auto simp: Read_def Let_def)
  next
    case (Some b1)
    let ?b = "readPlace b1 (jb_setpoint b)"
    obtain d' b3 where p: "readPlay (accrueDebt ?b) dst ?n (jb_writePos ?b - jb_readPos ?b) = (d', b3)" by fastforce
    have "length d' = length dst" by (rule length_readPlay[OF _ p]) (simp add: nc[OF Some])
    moreover have "dst' = dst \<or> dst' = clear_slice dst \<or> dst' = d'"
      using assms Some p unfolding Read_def Let_def by (simp split: if_splits)
    ultimately show ?thesis by auto
  qed
qed

lemma length_ReadMono: "length (fst (ReadMono mt ph st xs)) = length xs"
  by (induction mt ph st xs rule: ReadMono.induct) (auto simp: Let_def split: prod.splits)

section \<open>Sources that can be read\<close>

definition groupFull :: "SourceGroup \<Rightarrow> bool" where
  "groupFull g \<longleftrightarrow> length (sg_readScratch g) = FrameSize * sg_n g"

definition playable :: "(nat \<Rightarrow> SourceGroup option) \<Rightarrow> 'd Source \<Rightarrow> bool" where
  "playable hp s \<longleftrightarrow> (case src_group s of
     Some (h, i) \<Rightarrow> (case hp h of None \<Rightarrow> False | Some g \<Rightarrow> i < sg_n g)
   | None \<Rightarrow> src_tone s \<noteq> None \<or> src_jitter s \<noteq> None)"

definition srcReady :: "'d Mixer \<Rightarrow> SourceRef \<Rightarrow> bool" where
  "srcReady m r \<longleftrightarrow> (case mx_sources m (sr_handle r) of None \<Rightarrow> False | Some s \<Rightarrow> playable (mx_groupHeap m) s)"

text \<open>What every step keeps of the heaps: objects stay, with their shape.\<close>

definition srcShape :: "'d Source \<Rightarrow> (nat \<times> nat) option \<times> bool \<times> bool" where
  "srcShape s = (src_group s, src_tone s = None, src_jitter s = None)"

definition heapsLe :: "'d Mixer \<Rightarrow> 'd Mixer \<Rightarrow> bool" where
  "heapsLe m m' \<longleftrightarrow> (\<forall>h s. mx_sources m h = Some s \<longrightarrow> (\<exists>s'. mx_sources m' h = Some s' \<and> srcShape s' = srcShape s)) \<and>
     (\<forall>h g. mx_groupHeap m h = Some g \<longrightarrow> (\<exists>g'. mx_groupHeap m' h = Some g' \<and> sg_n g' = sg_n g))"

lemma heapsLe_refl [simp]: "heapsLe m m"
  by (simp add: heapsLe_def)

lemma heapsLe_trans: "heapsLe m m' \<Longrightarrow> heapsLe m' m'' \<Longrightarrow> heapsLe m m''"
  unfolding heapsLe_def by metis

lemma heapsLe_same: "mx_sources m' = mx_sources m \<Longrightarrow> mx_groupHeap m' = mx_groupHeap m \<Longrightarrow> heapsLe m m'"
  by (simp add: heapsLe_def)

lemma srcReady_mono:
  assumes "srcReady m r" "heapsLe m m'"
  shows "srcReady m' r"
proof -
  obtain s where s: "mx_sources m (sr_handle r) = Some s" "playable (mx_groupHeap m) s" using assms(1) by (auto simp: srcReady_def split: option.splits)
  obtain s' where s': "mx_sources m' (sr_handle r) = Some s'" "srcShape s' = srcShape s" using assms(2) s(1) unfolding heapsLe_def by blast
  have g: "\<exists>g'. mx_groupHeap m' h = Some g' \<and> sg_n g' = sg_n g" if "mx_groupHeap m h = Some g" for h g
    using assms(2) that unfolding heapsLe_def by blast
  have sh: "src_group s' = src_group s" "src_tone s' = None \<longleftrightarrow> src_tone s = None" "src_jitter s' = None \<longleftrightarrow> src_jitter s = None"
    using s'(2) by (auto simp: srcShape_def)
  have "playable (mx_groupHeap m') s'"
  proof (cases "src_group s")
    case None
    then show ?thesis using s(2) sh by (simp add: playable_def)
  next
    case (Some hi)
    then obtain g0 where "mx_groupHeap m (fst hi) = Some g0" "snd hi < sg_n g0" using s(2) by (auto simp: playable_def split: option.splits prod.splits)
    then show ?thesis using g[of "fst hi" g0] Some sh(1) by (auto simp: playable_def split: prod.splits)
  qed
  then show ?thesis using s'(1) by (simp add: srcReady_def)
qed

lemma readFrame_total:
  assumes "playable hp s" "\<And>h g. hp h = Some g \<Longrightarrow> groupFull g"
  obtains frm p s' where "readFrame mt (\<lambda>h. the (hp h)) s dst = Some (frm, p, s')" "length frm = length dst" "srcShape s' = srcShape s"
proof (cases "src_tone s")
  case (Some ps)
  obtain ph st where ps: "ps = (ph, st)" by (cases ps)
  obtain vs ph' where v: "ReadMono mt ph st dst = (vs, ph')" by (cases "ReadMono mt ph st dst")
  then have "length vs = length dst" using length_ReadMono[of mt ph st dst] by simp
  then show thesis using that[of vs "src_initialPose s" "s \<lparr> src_tone := Some (ph', st) \<rparr>"] Some ps v by (simp add: readFrame_def srcShape_def)
next
  case None
  show thesis
  proof (cases "src_group s")
    case None
    then obtain b where b: "src_jitter s = Some b" using assms(1) \<open>src_tone s = None\<close> by (auto simp: playable_def)
    obtain ok dst' b' where r: "Read b dst = (ok, dst', b')" by (metis prod_cases3)
    let ?L = "nat (StreamReadPos b')"
    show thesis
      by (rule that[of dst' "if ?L = 0 then src_initialPose s else case poseAt (src_ring s) ?L of Some p \<Rightarrow> p | None \<Rightarrow> src_initialPose s"
          "s \<lparr> src_jitter := Some b' \<rparr>"])
        (use None b r \<open>src_tone s = None\<close> length_Read[OF r] in \<open>simp_all add: readFrame_def srcShape_def\<close>)
  next
    case (Some gi)
    obtain h i where gi: "gi = (h, i)" by (cases gi)
    let ?g = "the (hp h)"
    let ?p = "if sg_readPos ?g = 0 then src_initialPose s else case poseAt (src_ring s) (sg_readPos ?g) of Some p \<Rightarrow> p | None \<Rightarrow> src_initialPose s"
    have "readFrame mt (\<lambda>h. the (hp h)) s dst = Some (channel ?g i dst, ?p, s)"
      using Some gi \<open>src_tone s = None\<close> by (simp add: readFrame_def)
    then show thesis by (rule that) (simp_all add: channel_def)
  qed
qed

section \<open>The invariant\<close>

definition square :: "nat \<Rightarrow> 'a list list \<Rightarrow> bool" where
  "square n M \<longleftrightarrow> length M = n \<and> (\<forall>r\<in>set M. length r = n)"

definition encFor :: "Config \<times> Env \<Rightarrow> nat \<Rightarrow> bool \<Rightarrow> Encoder \<Rightarrow> bool" where
  "encFor ce slot dual enc \<longleftrightarrow> encOk (ev_bilateral (snd ce)) enc \<and> enc_mixerConfig enc = encCfg (fst ce) \<and> enc_slot enc = slot \<and>
     enc_dualBus enc = dual"

definition ambiOrderOk :: "Config \<Rightarrow> int \<Rightarrow> bool" where
  "ambiOrderOk cfg order \<longleftrightarrow> 2 \<le> order \<and> order \<le> 3 \<and> order \<le> cf_Order cfg"

definition entOk :: "'d Mixer \<Rightarrow> entity \<Rightarrow> bool" where
  "entOk m e \<longleftrightarrow> encFor (mx_fixed m) (ent_slot e) True (ent_enc e) \<and> (\<forall>a. ent_ambiEnc e = Some a \<longrightarrow> encFor (mx_fixed m) (ent_slot e) False a) \<and>
     (\<forall>k\<in>set (ent_ambiSinks e). ambiOrderOk (mx_cfg m) (fst k)) \<and> (\<forall>r. ent_src e = Some r \<longrightarrow> srcReady m r) \<and> distinct (ent_peers e)"

definition entsOk :: "'d Mixer \<Rightarrow> bool" where
  "entsOk m \<longleftrightarrow> (\<forall>x e. mx_ents m x = Some e \<longrightarrow> entOk m e)"

definition configOk :: "Config \<Rightarrow> bool" where
  "configOk cfg \<longleftrightarrow> 2 \<le> cf_Order cfg \<and> cf_Order cfg \<le> 5 \<and> 1 \<le> cf_MaxEntities cfg \<and> 1 \<le> cf_Workers cfg"

definition frameOk :: "'d Mixer \<Rightarrow> bool" where
  "frameOk m \<longleftrightarrow> (let n = nat (cf_MaxEntities (mx_cfg m)) in configOk (mx_cfg m) \<and> length (mx_shared m) = n * FrameSize \<and>
     mx_nextWork m < length (mx_workers m) \<and> (\<forall>w\<in>set (mx_workers m). mixersOk (encCfg (mx_cfg m)) True w) \<and>
     square n (mx_audible m) \<and> square n (mx_pairGain m) \<and> square n (mx_pairAttExp m))"

fun changeReady :: "'d Mixer \<Rightarrow> change \<Rightarrow> bool" where
  "changeReady m (ChAddSource eid r pose hf grp) \<longleftrightarrow> srcReady m r"
| "changeReady m (ChAddAmbi eid order k) \<longleftrightarrow> ambiOrderOk (mx_cfg m) order"
| "changeReady m c \<longleftrightarrow> True"

definition heapFull :: "'d Mixer \<Rightarrow> bool" where
  "heapFull m \<longleftrightarrow> (\<forall>h g. mx_groupHeap m h = Some g \<longrightarrow> groupFull g)"

definition renderOk :: "'d Mixer \<Rightarrow> bool" where
  "renderOk m \<longleftrightarrow> frameOk m \<and> heapFull m \<and> entsOk m \<and> list_all (changeReady m) (mx_changes m)"

lemma entOk_mono: "entOk m e \<Longrightarrow> mx_fixed m' = mx_fixed m \<Longrightarrow> heapsLe m m' \<Longrightarrow> entOk m' e"
  by (auto simp: entOk_def srcReady_mono)

lemma changeReady_mono: "changeReady m c \<Longrightarrow> mx_fixed m' = mx_fixed m \<Longrightarrow> heapsLe m m' \<Longrightarrow> changeReady m' c"
  by (cases c) (auto simp: srcReady_mono)

lemma changesReady_mono: "list_all (changeReady m) cs \<Longrightarrow> mx_fixed m' = mx_fixed m \<Longrightarrow> heapsLe m m' \<Longrightarrow> list_all (changeReady m') cs"
  by (auto simp: list_all_iff changeReady_mono)

lemma frameOk_same:
  assumes "frameOk m" "mx_fixed m' = mx_fixed m" "length (mx_shared m') = length (mx_shared m)" "mx_workers m' = mx_workers m"
    "mx_nextWork m' = mx_nextWork m" "mx_audible m' = mx_audible m" "mx_pairGain m' = mx_pairGain m" "mx_pairAttExp m' = mx_pairAttExp m"
  shows "frameOk m'"
  using assms by (simp add: frameOk_def Let_def)

text \<open>The audio-side state a step that changes no shape leaves alone.\<close>

definition mx_frame :: "'d Mixer \<Rightarrow> (Config \<times> Env) \<times> rat list \<times> workerMixers list \<times> nat \<times> bool list list \<times> rat list list \<times> rat list list" where
  "mx_frame m = (mx_fixed m, mx_shared m, mx_workers m, mx_nextWork m, mx_audible m, mx_pairGain m, mx_pairAttExp m)"

lemma frameOk_frame: "mx_frame m' = mx_frame m \<Longrightarrow> frameOk m' = frameOk m"
  by (simp add: frameOk_def Let_def mx_frame_def)

lemma frame_fixed: "mx_frame m' = mx_frame m \<Longrightarrow> mx_fixed m' = mx_fixed m"
  by (simp add: mx_frame_def)

section \<open>Setting what the engine sets\<close>

lemma encFor_set [simp]:
  "encFor ce slot dual (SetPosition e p) = encFor ce slot dual e" "encFor ce slot dual (SetListenerPosition e p) = encFor ce slot dual e"
  "encFor ce slot dual (SetRotation mt e r) = encFor ce slot dual e" "encFor ce slot dual (SetSourceForward e p) = encFor ce slot dual e"
  "encFor ce slot dual (SetHeadFrameSource e b) = encFor ce slot dual e" "encFor ce slot dual (SetSpaceMuted e b) = encFor ce slot dual e"
  "encFor ce slot dual (SetGain e g) = encFor ce slot dual e" "encFor ce slot dual (SetAttenuation e g) = encFor ce slot dual e"
  "encFor ce slot dual (SetSize e g) = encFor ce slot dual e" "encFor ce slot dual (SetDirectivity e g) = encFor ce slot dual e"
  by (simp_all add: encFor_def encOk_def SetPosition_def SetListenerPosition_def SetRotation_def SetSourceForward_def SetHeadFrameSource_def
      SetSpaceMuted_def SetGain_def SetAttenuation_def SetSize_def SetDirectivity_def recomputeGainFactor_def recomputeAttenuationExponent_def Let_def)

lemma encCfg_ok: "configOk cfg \<Longrightarrow> cfgOk (encCfg cfg)"
  by (simp add: configOk_def cfgOk_def encCfg_def FrameSize_def) linarith

lemma listenerEncoder_ok:
  assumes "listenerEncoder m uid hasInput p slot bilateral = Inr enc" "configOk (mx_cfg m)"
  shows "encFor (mx_fixed m) slot bilateral enc"
proof -
  obtain e where e: "newEncoder (ev_math (mx_env m)) (ev_bilateral (mx_env m)) uid hasInput (rp_Gain p) (rp_Attenuation p) (encCfg (mx_cfg m)) slot bilateral = Inr e"
    "enc = SetPairScalars (SetSharedInputs e True) slot" using assms(1) by (auto simp: listenerEncoder_def split: sum.splits)
  have "encOk (ev_bilateral (mx_env m)) e" by (rule newEncoder_ok[OF encCfg_ok[OF assms(2)] e(1)])
  moreover have "enc_mixerConfig e = encCfg (mx_cfg m) \<and> enc_slot e = slot \<and> enc_dualBus e = bilateral"
    using e(1) by (auto simp: newEncoder_def mkEncoder_def split: if_splits sum.splits)
  ultimately show ?thesis by (auto simp: e(2) encFor_def encOk_def SetPairScalars_def SetSharedInputs_def split: if_splits)
qed

lemma newEntity_ok:
  assumes "newEntity m eid uid slot = Inr e" "configOk (mx_cfg m)"
  shows "entOk m e"
  using assms by (auto simp: newEntity_def Let_def entOk_def dest!: listenerEncoder_ok split: sum.splits)

lemma ensureAmbiEncoder_ok:
  assumes "ensureAmbiEncoder m e = Inr e'" "entOk m e" "configOk (mx_cfg m)"
  shows "entOk m e'"
  using assms by (auto simp: ensureAmbiEncoder_def entOk_def dest!: listenerEncoder_ok split: sum.splits option.splits)

section \<open>Applying a change\<close>

text \<open>A change leaves the frame alone, keeps the heaps, and its entities are well-formed.\<close>

definition rstep :: "'d Mixer \<Rightarrow> 'd Mixer \<Rightarrow> bool" where
  "rstep m m' \<longleftrightarrow> mx_frame m' = mx_frame m \<and> heapsLe m m' \<and> heapFull m' \<and> entsOk m'"

lemma rstep_refl: "heapFull m \<Longrightarrow> entsOk m \<Longrightarrow> rstep m m"
  by (simp add: rstep_def)

lemma rstep_trans: "rstep m m' \<Longrightarrow> rstep m' m'' \<Longrightarrow> rstep m m''"
  unfolding rstep_def using heapsLe_trans by metis

lemma entsOk_mono: "entsOk m \<Longrightarrow> mx_ents m' = mx_ents m \<Longrightarrow> mx_fixed m' = mx_fixed m \<Longrightarrow> heapsLe m m' \<Longrightarrow> entsOk m'"
  unfolding entsOk_def using entOk_mono by metis

lemma setEnt_entsOk: "entsOk m \<Longrightarrow> entOk m e \<Longrightarrow> entsOk (setEnt m e)"
  unfolding entsOk_def using entOk_mono[of m _ "setEnt m e"] heapsLe_same[of "setEnt m e" m] by (auto simp: setEnt_def split: if_splits)

lemma rstep_setEnt:
  assumes "heapFull m" "entsOk m" "entOk m e"
  shows "rstep m (setEnt m e)"
  using assms setEnt_entsOk[OF assms(2,3)] by (simp add: rstep_def heapsLe_same heapFull_def setEnt_def mx_frame_def)

lemma rstep_dirty [simp]: "rstep m (markAudibleDirty m') = rstep m m'"
proof -
  have "heapsLe m (markAudibleDirty m') = heapsLe m m'" by (simp add: heapsLe_def markAudibleDirty_def)
  moreover have "entsOk (markAudibleDirty m') = entsOk m'"
    using entsOk_mono[of m' "markAudibleDirty m'"] entsOk_mono[of "markAudibleDirty m'" m'] heapsLe_same[of m' "markAudibleDirty m'"]
      heapsLe_same[of "markAudibleDirty m'" m'] by (auto simp: markAudibleDirty_def)
  ultimately show ?thesis by (simp add: rstep_def mx_frame_def heapFull_def markAudibleDirty_def)
qed

lemma rstep_fields:
  assumes "heapFull m" "entsOk m" "mx_ents m' = mx_ents m" "mx_sources m' = mx_sources m" "mx_groupHeap m' = mx_groupHeap m" "mx_frame m' = mx_frame m"
  shows "rstep m m'"
  using assms entsOk_mono[of m m'] frame_fixed[of m' m] heapsLe_same[of m' m] by (simp add: rstep_def heapFull_def)

lemma ensureEntity_ok:
  assumes "ensureEntity m eid = Inr (e, m')" "heapFull m" "entsOk m" "configOk (mx_cfg m)"
  shows "rstep m m' \<and> entOk m' e \<and> entsOk m' \<and> heapFull m' \<and> configOk (mx_cfg m')"
proof (cases "mx_ents m eid")
  case (Some e')
  then have "m' = m" "entOk m e" using assms by (auto simp: ensureEntity_def entsOk_def)
  then show ?thesis using rstep_refl[OF assms(2,3)] assms by simp
next
  case None
  then obtain slot u sl where m': "newEntity m eid (mx_nextUid m) slot = Inr e" "m' = m \<lparr> mx_nextUid := u, mx_ents := (mx_ents m)(eid \<mapsto> e), mx_slots := sl \<rparr>"
    using assms(1) by (auto simp: ensureEntity_def split: option.splits sum.splits)
  have le: "heapsLe m m'" "mx_fixed m' = mx_fixed m" using heapsLe_same[of m' m] by (simp_all add: m'(2))
  have e: "entOk m' e" by (rule entOk_mono[OF newEntity_ok[OF m'(1) assms(4)] le(2,1)])
  moreover have "entsOk m'" unfolding entsOk_def
  proof (intro allI impI)
    fix x f assume "mx_ents m' x = Some f"
    then show "entOk m' f" using e assms(3) entOk_mono[OF _ le(2,1)] by (auto simp: m'(2) entsOk_def split: if_splits)
  qed
  moreover have "heapFull m'" using assms(2) by (simp add: heapFull_def m'(2))
  ultimately show ?thesis using le assms(4) by (simp add: rstep_def mx_frame_def m'(2))
qed

lemma leaveGroup_rstep:
  assumes "heapFull m" "entsOk m"
  shows "rstep m (leaveGroup m r)"
proof -
  let ?m = "leaveGroup m r"
  have g: "sg_n (snd (leave g i s)) = sg_n g" "sg_readScratch (snd (leave g i s)) = sg_readScratch g" for g i s
    by (simp_all add: leave_def Let_def)
  have f: "mx_frame ?m = mx_frame m" "mx_ents ?m = mx_ents m" "mx_sources ?m = mx_sources m"
    by (auto simp: leaveGroup_def Let_def mx_frame_def split: option.splits prod.splits)
  have h: "mx_groupHeap ?m = mx_groupHeap m \<or> (\<exists>h g i s. mx_groupHeap m h = Some g \<and> mx_groupHeap ?m = (mx_groupHeap m)(h \<mapsto> snd (leave g i s)))"
    by (auto simp: leaveGroup_def Let_def split: option.splits prod.splits) (metis snd_conv)+
  have le: "heapsLe m ?m" using h f(3) by (auto simp: heapsLe_def g split: if_splits)
  moreover have "heapFull ?m" using h assms(1) by (auto simp: heapFull_def groupFull_def g split: if_splits)
  moreover have "entsOk ?m" using entsOk_mono[OF assms(2) f(2) frame_fixed[OF f(1)] le] .
  ultimately show ?thesis using f(1) by (simp add: rstep_def)
qed

lemma removeEntity_rstep:
  assumes "heapFull m" "entsOk m"
  shows "rstep m (removeEntity m e)"
proof -
  let ?m = "m \<lparr> mx_ents := (mx_ents m)(ent_id e := None), mx_personalMutes := (mx_personalMutes m)(ent_id e := None),
     mx_personalSolos := (mx_personalSolos m)(ent_id e := None), mx_slots := (mx_slots m)[ent_slot e := None] \<rparr>"
  have le: "heapsLe m ?m" by (rule heapsLe_same) simp_all
  have "entsOk ?m" unfolding entsOk_def using assms(2) entOk_mono[of m _ ?m] le by (auto simp: entsOk_def split: if_splits)
  then have "rstep m ?m" using le assms(1) by (simp add: rstep_def mx_frame_def heapFull_def)
  then show ?thesis by (simp add: removeEntity_def)
qed

lemma rstepD: "rstep m m' \<Longrightarrow> heapFull m' \<and> entsOk m' \<and> mx_fixed m' = mx_fixed m \<and> heapsLe m m'"
  by (auto simp: rstep_def dest: frame_fixed)

text \<open>Dropping a half: the entity without it, then possibly no entity at all.\<close>

lemma rstep_drop:
  assumes "rstep m m1" "entOk m1 e"
  shows "rstep m (if b then removeEntity (setEnt m1 e) e else setEnt m1 e)"
proof -
  note d = rstepD[OF assms(1)]
  have "rstep m1 (setEnt m1 e)" by (rule rstep_setEnt) (use d assms(2) in simp_all)
  moreover from rstepD[OF this] have "rstep (setEnt m1 e) (removeEntity (setEnt m1 e) e)" by (intro removeEntity_rstep) simp_all
  ultimately show ?thesis using rstep_trans[OF assms(1)] by (cases b) (auto intro: rstep_trans)
qed

text \<open>An add: the entity is made sure of, then replaced with the half attached.\<close>

lemma rstep_ensure:
  assumes "ensureEntity m eid = Inr (e, m1)" "heapFull m" "entsOk m" "configOk (mx_cfg m)" "entOk m1 e \<Longrightarrow> entOk m1 e'"
  shows "rstep m (setEnt m1 e')"
proof -
  note ok = ensureEntity_ok[OF assms(1-4)]
  have "rstep m1 (setEnt m1 e')" using ok assms(5) by (intro rstep_setEnt) simp_all
  then show ?thesis using ok rstep_trans by blast
qed

lemma rstep_groups: "rstep m m1 \<Longrightarrow> rstep m (m1 \<lparr> mx_groups := gs \<rparr>)"
  by (frule rstepD, erule rstep_trans, rule rstep_fields) (auto simp: mx_frame_def)

lemma rstep_ChAddSource:
  assumes "applyChange (ChAddSource eid r pose hf grp) m = Inr m'" "heapFull m" "entsOk m" "configOk (mx_cfg m)" "srcReady m r"
  shows "rstep m m'"
proof -
  obtain e m1 where en: "ensureEntity m eid = Inr (e, m1)" using assms(1) by (auto split: sum.splits)
  let ?e = "e \<lparr> ent_src := Some r, ent_enc := SetHeadFrameSource (SetPosition (ent_enc e) (position pose)) hf \<rparr>"
  have "srcReady m1 r" using srcReady_mono[of m r m1] rstepD[of m m1] ensureEntity_ok[OF en assms(2-4)] assms(5) by simp
  then have "rstep m (setEnt m1 ?e)" by (intro rstep_ensure[OF en assms(2-4)]) (simp add: entOk_def)
  then show ?thesis using assms(1) en rstep_groups[of m "setEnt m1 ?e"] by (cases grp) (auto simp: Let_def)
qed

lemma rstep_ChAddAmbi:
  assumes "applyChange (ChAddAmbi eid order k) m = Inr m'" "heapFull m" "entsOk m" "configOk (mx_cfg m)" "ambiOrderOk (mx_cfg m) order"
  shows "rstep m m'"
proof -
  obtain e m1 where en: "ensureEntity m eid = Inr (e, m1)" using assms(1) by (auto split: sum.splits)
  note ok = ensureEntity_ok[OF en assms(2-4)]
  obtain e' where e': "ensureAmbiEncoder m1 e = Inr e'" using assms(1) en by (auto split: sum.splits)
  have e'ok: "entOk m1 e'" by (rule ensureAmbiEncoder_ok[OF e']) (use ok in simp_all)
  have "ambiOrderOk (mx_cfg m1) order" using assms(5) rstepD[of m m1] ok by simp
  moreover have "set (AList.update order k al) \<subseteq> insert (order, k) (set al)" for al by (induction al) auto
  ultimately have "entOk m1 (e' \<lparr> ent_ambiSinks := AList.update order k (ent_ambiSinks e') \<rparr>)" using e'ok by (fastforce simp: entOk_def)
  from rstep_ensure[OF en assms(2-4) this] show ?thesis using assms(1) en e' by auto
qed

lemma rstep_ChRemoveSource:
  assumes "applyChange (ChRemoveSource eid) m = Inr m'" "heapFull m" "entsOk m"
  shows "rstep m m'"
proof (cases "mx_ents m eid")
  case (Some e)
  then obtain r where r: "ent_src e = Some r" using assms(1) by (auto split: option.splits)
  note l = leaveGroup_rstep[OF assms(2,3), of r]
  have "entOk (leaveGroup m r) e" using entOk_mono[of m e "leaveGroup m r"] Some assms(3) rstepD[OF l] by (auto simp: entsOk_def)
  then have "entOk (leaveGroup m r) (e \<lparr> ent_src := None \<rparr>)" by (simp add: entOk_def)
  from rstep_drop[OF l this, of "ent_sink e = None \<and> ent_ambiSinks e = []"] show ?thesis
    using assms(1) Some r by (simp add: Let_def cong: if_cong)
qed (use assms rstep_refl in auto)

lemma rstep_ChRemoveSink:
  assumes "applyChange (ChRemoveSink eid) m = Inr m'" "heapFull m" "entsOk m"
  shows "rstep m m'"
proof (cases "\<exists>e k. mx_ents m eid = Some e \<and> ent_sink e = Some k")
  case True
  then obtain e k where e: "mx_ents m eid = Some e" "ent_sink e = Some k" by blast
  let ?m = "m \<lparr> mx_destroyed := mx_destroyed m @ [k] \<rparr>"
  have d: "rstep m ?m" by (rule rstep_fields) (use assms in \<open>simp_all add: mx_frame_def\<close>)
  have "entOk ?m e" using entOk_mono[of m e ?m] e(1) assms(3) rstepD[OF d] by (auto simp: entsOk_def)
  then have "entOk ?m (e \<lparr> ent_sink := None \<rparr>)" by (simp add: entOk_def)
  from rstep_drop[OF d this, of "ent_src e = None"] show ?thesis using assms(1) e by (simp add: Let_def cong: if_cong)
next
  case False
  then have "m' = m" using assms(1) by (auto split: option.splits)
  then show ?thesis using rstep_refl assms by simp
qed

lemma rstep_ChRemoveAmbi:
  assumes "applyChange (ChRemoveAmbi eid order) m = Inr m'" "heapFull m" "entsOk m"
  shows "rstep m m'"
proof (cases "mx_ents m eid")
  case (Some e)
  define e0 m1 where "e0 = (case map_of (ent_ambiSinks e) order of None \<Rightarrow> e | Some k \<Rightarrow> e \<lparr> ent_ambiSinks := AList.delete order (ent_ambiSinks e) \<rparr>)"
    and "m1 = (case map_of (ent_ambiSinks e) order of None \<Rightarrow> m | Some k \<Rightarrow> m \<lparr> mx_ambiDestroyed := mx_ambiDestroyed m @ [k] \<rparr>)"
  define e1 where "e1 = (if ent_ambiSinks e0 = [] then e0 \<lparr> ent_ambiEnc := None \<rparr> else e0)"
  have m': "m' = (if ent_src e1 = None \<and> ent_sink e1 = None \<and> ent_ambiSinks e1 = [] then removeEntity (setEnt m1 e1) e1 else setEnt m1 e1)"
    using assms(1) Some by (cases "map_of (ent_ambiSinks e) order") (simp_all add: Let_def e0_def m1_def e1_def cong: if_cong)
  have d: "rstep m m1"
  proof (cases "map_of (ent_ambiSinks e) order")
    case (Some k)
    show ?thesis by (rule rstep_fields) (use Some assms in \<open>simp_all add: m1_def mx_frame_def\<close>)
  qed (simp add: m1_def rstep_refl assms)
  have "entOk m e" using Some assms(3) by (simp add: entsOk_def)
  then have e: "entOk m1 e" using entOk_mono rstepD[OF d] by metis
  have "set (ent_ambiSinks e0) \<subseteq> set (ent_ambiSinks e)" by (auto simp: e0_def AList.delete_eq split: option.splits)
  moreover have "ent_enc e0 = ent_enc e" "ent_slot e0 = ent_slot e" "ent_ambiEnc e0 = ent_ambiEnc e" "ent_src e0 = ent_src e" "ent_peers e0 = ent_peers e"
    by (simp_all add: e0_def split: option.split)
  ultimately have "entOk m1 e0" using e by (auto simp: entOk_def)
  then have "entOk m1 e1" by (simp add: e1_def entOk_def)
  from rstep_drop[OF d this] show ?thesis unfolding m' .
qed (use assms rstep_refl in auto)

lemma rstep_setter:
  assumes "mx_ents m eid = Some e" "heapFull m" "entsOk m" "\<And>ce slot dual. encFor ce slot dual (f (ent_enc e)) = encFor ce slot dual (ent_enc e)"
  shows "rstep m (setEnt m (e \<lparr> ent_params := p, ent_enc := f (ent_enc e) \<rparr>))" "rstep m (setEnt m (e \<lparr> ent_enc := f (ent_enc e) \<rparr>))"
proof -
  have "entOk m (e \<lparr> ent_enc := f (ent_enc e) \<rparr>)" using assms by (auto simp: entsOk_def entOk_def)
  then show "rstep m (setEnt m (e \<lparr> ent_enc := f (ent_enc e) \<rparr>))" using assms(2,3) by (intro rstep_setEnt)
  have "entOk m (e \<lparr> ent_params := p, ent_enc := f (ent_enc e) \<rparr>)" using assms by (auto simp: entsOk_def entOk_def)
  then show "rstep m (setEnt m (e \<lparr> ent_params := p, ent_enc := f (ent_enc e) \<rparr>))" using assms(2,3) by (intro rstep_setEnt)
qed

lemma applyChange_rstep:
  assumes "applyChange c m = Inr m'" "heapFull m" "entsOk m" "configOk (mx_cfg m)" "changeReady m c"
  shows "rstep m m'"
proof (cases c)
  case (ChAddSource eid r pose hf grp)
  then show ?thesis using rstep_ChAddSource[OF _ assms(2-4)] assms by simp
next
  case (ChAddSink eid k)
  then obtain e m1 where en: "ensureEntity m eid = Inr (e, m1)" using assms(1) by (auto split: sum.splits)
  have "rstep m (setEnt m1 (e \<lparr> ent_sink := Some k \<rparr>))" by (rule rstep_ensure[OF en assms(2-4)]) (simp add: entOk_def)
  then show ?thesis using assms(1) ChAddSink en by auto
next
  case (ChAddAmbi eid order k)
  then show ?thesis using rstep_ChAddAmbi[OF _ assms(2-4)] assms by simp
next
  case (ChRemoveSource eid)
  then show ?thesis using rstep_ChRemoveSource[OF _ assms(2,3)] assms by simp
next
  case (ChRemoveSink eid)
  then show ?thesis using rstep_ChRemoveSink[OF _ assms(2,3)] assms by simp
next
  case (ChRemoveAmbi eid order)
  then show ?thesis using rstep_ChRemoveAmbi[OF _ assms(2,3)] assms by simp
next
  case (ChParams eid p)
  let ?f = "\<lambda>e. SetDirectivity (SetSize (SetAttenuation (SetGain e (rp_Gain p)) (rp_Attenuation p)) (rp_Size p)) (rp_Directivity p)"
  show ?thesis using assms ChParams rstep_refl[OF assms(2,3)] rstep_setter(1)[OF _ assms(2,3), of eid _ ?f p] by (auto split: option.splits)
next
  case (ChEntityMuted eid b)
  show ?thesis using assms ChEntityMuted rstep_refl[OF assms(2,3)] rstep_setter(2)[OF _ assms(2,3), of eid _ "\<lambda>e. SetSpaceMuted e b"]
    by (auto split: option.splits)
qed (use assms in \<open>auto intro!: rstep_fields simp: mx_frame_def markAudibleDirty_def\<close>)

lemma applyAll_rstep:
  "applyAll cs m = Inr m' \<Longrightarrow> heapFull m \<Longrightarrow> entsOk m \<Longrightarrow> configOk (mx_cfg m) \<Longrightarrow> list_all (changeReady m) cs \<Longrightarrow> rstep m m'"
proof (induction cs arbitrary: m)
  case Nil
  then show ?case using rstep_refl by auto
next
  case (Cons c cs)
  then obtain m1 where m1: "applyChange c m = Inr m1" "applyAll cs m1 = Inr m'" by (auto split: sum.splits)
  have s: "rstep m m1" using applyChange_rstep[OF m1(1)] Cons.prems by simp
  have "list_all (changeReady m1) cs" using changesReady_mono[of m cs m1] Cons.prems(5) rstepD[OF s] by simp
  from Cons.IH[OF m1(2) _ _ _ this] have "rstep m1 m'" using rstepD[OF s] Cons.prems(4) by simp
  then show ?case by (rule rstep_trans[OF s])
qed

lemma drain_rstep:
  assumes "drainChanges m = Inr m'" "renderOk m"
  shows "rstep m m'" "renderOk (m' \<lparr> mx_changes := [] \<rparr>)"
proof -
  let ?m = "m \<lparr> mx_changes := [] \<rparr>"
  have h: "heapsLe m ?m" "heapsLe ?m m" by (simp_all add: heapsLe_def)
  have "entsOk ?m" using assms(2) entsOk_mono[of m ?m] h by (simp add: renderOk_def)
  moreover have "list_all (changeReady ?m) (mx_changes m)" using assms(2) changesReady_mono[of m _ ?m] h by (simp add: renderOk_def)
  ultimately have s: "rstep ?m m'" using assms applyAll_rstep[of "mx_changes m" ?m m'] by (simp add: drainChanges_def renderOk_def heapFull_def frameOk_def Let_def)
  then show "rstep m m'" using h heapsLe_trans by (auto simp: rstep_def mx_frame_def)
  have f: "frameOk m'" using frameOk_frame[of m' m] assms(2) s by (simp add: renderOk_def rstep_def mx_frame_def)
  let ?n = "m' \<lparr> mx_changes := [] \<rparr>"
  have "heapsLe m' ?n" by (simp add: heapsLe_def)
  then have "entsOk ?n" using entsOk_mono[of m' ?n] rstepD[OF s] by simp
  then show "renderOk ?n" using f rstepD[OF s] by (simp add: renderOk_def frameOk_def heapFull_def Let_def)
qed

end
