(* ===== verification/Render_Tick.thy ===== *)
theory Render_Tick
  imports Render_Safety
begin

text \<open>
  A tick completes from every state that satisfies the mixer's and the render invariant, and keeps both.
\<close>

section \<open>Folding\<close>

lemma foldO_inv:
  assumes "P a" "\<And>x a. x \<in> set xs \<Longrightarrow> P a \<Longrightarrow> \<exists>a'. f x a = Some a' \<and> P a'"
  shows "\<exists>a'. foldO f xs a = Some a' \<and> P a'"
  using assms
proof (induction xs arbitrary: a)
  case (Cons x xs)
  obtain a1 where a1: "f x a = Some a1" "P a1" using Cons.prems(2)[of x a] Cons.prems(1) by auto
  from Cons.IH[OF a1(2)] Cons.prems(2) show ?case by (simp add: a1(1))
qed simp

lemma foldO_keep:
  assumes "foldO f xs a = Some b" "P a" "\<And>x a b. x \<in> set xs \<Longrightarrow> P a \<Longrightarrow> f x a = Some b \<Longrightarrow> P b"
  shows "P b"
  using assms
proof (induction xs arbitrary: a)
  case (Cons x xs)
  then obtain a1 where "f x a = Some a1" "foldO f xs a1 = Some b" by (auto simp: bind_eq_Some_conv)
  moreover from this have "P a1" using Cons.prems(2) Cons.prems(3)[of x a a1] by simp
  ultimately show ?case using Cons.IH[of a1] Cons.prems(3) by auto
qed simp

lemma foldO_append: "foldO f (xs @ ys) a = Option.bind (foldO f xs a) (foldO f ys)"
  by (induction xs arbitrary: a) (auto split: bind_splits)

lemma foldO_map: "foldO f (map g xs) a = foldO (\<lambda>x. f (g x)) xs a"
  by (induction xs arbitrary: a) (auto split: bind_splits)

lemma foldO_product: "foldO (\<lambda>k. foldO (f k) ys) xs a = foldO (\<lambda>(k, s). f k s) (List.product xs ys) a"
  by (induction xs arbitrary: a) (auto simp: foldO_append foldO_map split: bind_splits)

section \<open>Live entities\<close>

lemma liveEnts_nth:
  assumes "slotsOk (mx_ents m) (mx_slots m)"
  shows "map ent_slot (liveEnts m) = filter (\<lambda>i. mx_slots m ! i \<noteq> None) [0..<length (mx_slots m)]"
proof -
  let ?s = "mx_slots m" let ?f = "\<lambda>s. Option.bind s (mx_ents m)"
  have some: "\<exists>e. ?f (?s ! i) = Some e \<and> ent_slot e = i" if i: "i < length ?s" "?s ! i \<noteq> None" for i
  proof -
    obtain x where x: "?s ! i = Some x" using i(2) by auto
    obtain e where "mx_ents m x = Some e" "ent_slot e = i" by (rule slotsOk_slot[OF assms i(1) x])
    then show ?thesis using x by simp
  qed
  have "liveEnts m = map (the \<circ> ?f) (filter (\<lambda>s. ?f s \<noteq> None) (map ((!) ?s) [0..<length ?s]))"
    by (simp add: liveEnts_def List.map_filter_def map_nth)
  also have "\<dots> = map (\<lambda>i. the (?f (?s ! i))) (filter (\<lambda>i. ?f (?s ! i) \<noteq> None) [0..<length ?s])"
    by (simp add: filter_map comp_def)
  also have "filter (\<lambda>i. ?f (?s ! i) \<noteq> None) [0..<length ?s] = filter (\<lambda>i. ?s ! i \<noteq> None) [0..<length ?s]"
  proof (rule filter_cong)
    fix i assume "i \<in> set [0..<length ?s]"
    then show "(?f (?s ! i) \<noteq> None) = (?s ! i \<noteq> None)" using some[of i] by (cases "?s ! i") auto
  qed simp
  finally have "map ent_slot (liveEnts m) = map (\<lambda>i. ent_slot (the (?f (?s ! i)))) (filter (\<lambda>i. ?s ! i \<noteq> None) [0..<length ?s])" by simp
  also have "\<dots> = filter (\<lambda>i. ?s ! i \<noteq> None) [0..<length ?s]"
    by (rule map_idI) (use some in fastforce)
  finally show ?thesis .
qed

lemma liveEnts_distinct: "slotsOk (mx_ents m) (mx_slots m) \<Longrightarrow> distinct (map ent_slot (liveEnts m))"
  by (simp add: liveEnts_nth)

lemma liveEnts_set:
  assumes "slotsOk (mx_ents m) (mx_slots m)"
  shows "e \<in> set (liveEnts m) \<longleftrightarrow> mx_ents m (ent_id e) = Some e"
proof
  assume "e \<in> set (liveEnts m)"
  then obtain x where "mx_ents m x = Some e" by (auto simp: liveEnts_def List.map_filter_def bind_eq_Some_conv)
  then show "mx_ents m (ent_id e) = Some e" using slotsOk_ent(1)[OF assms] by metis
next
  assume e: "mx_ents m (ent_id e) = Some e"
  from slotsOk_ent[OF assms e] have "Some (ent_id e) \<in> set (mx_slots m)" by (metis nth_mem)
  then show "e \<in> set (liveEnts m)" using e by (force simp: liveEnts_def List.map_filter_def image_iff)
qed

lemma liveEnts_inj:
  assumes "slotsOk (mx_ents m) (mx_slots m)" "e \<in> set (liveEnts m)" "f \<in> set (liveEnts m)" "ent_slot e = ent_slot f"
  shows "e = f"
  using liveEnts_distinct[OF assms(1)] assms(2-4) by (auto simp: distinct_map dest: inj_onD)

lemma liveEnts_slot: "slotsOk (mx_ents m) (mx_slots m) \<Longrightarrow> e \<in> set (liveEnts m) \<Longrightarrow> ent_slot e < length (mx_slots m)"
  using slotsOk_ent(2) liveEnts_set by metis

lemma liveEnts_ids: "slotsOk (mx_ents m) (mx_slots m) \<Longrightarrow> distinct (map ent_id (liveEnts m))"
proof -
  assume s: "slotsOk (mx_ents m) (mx_slots m)"
  have "distinct (liveEnts m)" using liveEnts_distinct[OF s] by (simp add: distinct_map)
  moreover have "inj_on ent_id (set (liveEnts m))"
    using liveEnts_set[OF s] by (metis (no_types, lifting) inj_onI option.inject)
  ultimately show "distinct (map ent_id (liveEnts m))" by (simp add: distinct_map)
qed

section \<open>The pair record is rebuilt\<close>

lemma setCell_ok:
  assumes "square n M" "i < n" "j < n"
  shows "setCell M i j v = Some (M[i := (M ! i)[j := v]])" "square n (M[i := (M ! i)[j := v]])"
    "i' < n \<Longrightarrow> j' < n \<Longrightarrow> M[i := (M ! i)[j := v]] ! i' ! j' = (if i' = i \<and> j' = j then v else M ! i' ! j')"
proof -
  have r: "length (M ! i'') = n" if "i'' < n" for i'' using assms(1) that by (auto simp: square_def)
  have l: "length M = n" using assms(1) by (simp add: square_def)
  show "setCell M i j v = Some (M[i := (M ! i)[j := v]])" using r[OF assms(2)] assms(2,3) l by (simp add: setCell_def)
  show "square n (M[i := (M ! i)[j := v]])" using r l assms(2) by (auto simp: square_def in_set_conv_nth nth_list_update)
  show "i' < n \<Longrightarrow> j' < n \<Longrightarrow> M[i := (M ! i)[j := v]] ! i' ! j' = (if i' = i \<and> j' = j then v else M ! i' ! j')"
    using r[OF assms(2)] l assms(3) by (cases "i' = i") (simp_all add: nth_list_update)
qed

definition recordAt :: "'d Mixer \<Rightarrow> nat \<Rightarrow> nat \<Rightarrow> bool \<times> rat \<times> rat" where
  "recordAt m k s = (mx_audible m ! k ! s, mx_pairGain m ! k ! s, mx_pairAttExp m ! k ! s)"

text \<open>The record changes, in its shape; the pairs done so far are right.\<close>

definition mx_norecord :: "'d Mixer \<Rightarrow> 'd Mixer" where
  "mx_norecord m = m \<lparr> mx_audible := [], mx_pairGain := [], mx_pairAttExp := [] \<rparr>"

definition recordOk :: "'d Mixer \<Rightarrow> nat \<Rightarrow> (entity \<times> entity) set \<Rightarrow> 'd Mixer \<Rightarrow> bool" where
  "recordOk m n D m' \<longleftrightarrow> mx_norecord m' = mx_norecord m \<and> square n (mx_audible m') \<and> square n (mx_pairGain m') \<and> square n (mx_pairAttExp m') \<and>
     (\<forall>(k, s)\<in>D. recordAt m' (ent_slot k) (ent_slot s) = pairOf m s k)"

lemma norecord_pairOf: "mx_norecord m' = mx_norecord m \<Longrightarrow> pairOf m' s k = pairOf m s k"
proof -
  assume "mx_norecord m' = mx_norecord m"
  moreover have "pairOf (mx_norecord m) s k = pairOf m s k" for m :: "'a Mixer" by (simp add: mx_norecord_def pairOf_def)
  ultimately show ?thesis by metis
qed

lemma setPair_ok:
  assumes r: "recordOk m n D m'" and slots: "ent_slot k < n" "ent_slot s < n"
    and inj: "\<And>k' s'. (k', s') \<in> D \<Longrightarrow> ent_slot k' < n \<and> ent_slot s' < n \<and> (ent_slot k' = ent_slot k \<and> ent_slot s' = ent_slot s \<longrightarrow> k' = k \<and> s' = s)"
  shows "\<exists>m''. setPair k s m' = Some m'' \<and> recordOk m n (insert (k, s) D) m''"
proof -
  have sq: "square n (mx_audible m')" "square n (mx_pairGain m')" "square n (mx_pairAttExp m')" and nr: "mx_norecord m' = mx_norecord m"
    using r by (auto simp: recordOk_def)
  obtain ok g a where p: "pairOf m s k = (ok, g, a)" by (cases "pairOf m s k")
  note c = setCell_ok[OF _ slots]
  let ?u = "\<lambda>M v. M[ent_slot k := (M ! ent_slot k)[ent_slot s := v]]"
  let ?m = "m' \<lparr> mx_audible := ?u (mx_audible m') ok, mx_pairGain := ?u (mx_pairGain m') g, mx_pairAttExp := ?u (mx_pairAttExp m') a \<rparr>"
  have 1: "setPair k s m' = Some ?m" unfolding setPair_def using c(1)[OF sq(1), of ok] c(1)[OF sq(2), of g] c(1)[OF sq(3), of a] p norecord_pairOf[OF nr] by simp
  have at: "recordAt ?m i j = (if i = ent_slot k \<and> j = ent_slot s then (ok, g, a) else recordAt m' i j)" if "i < n" "j < n" for i j
    using c(3)[OF sq(1) that] c(3)[OF sq(2) that] c(3)[OF sq(3) that] by (simp add: recordAt_def)
  have "recordAt ?m (ent_slot k') (ent_slot s') = pairOf m s' k'" if "(k', s') \<in> insert (k, s) D" for k' s'
    using that inj[of k' s'] at[of "ent_slot k'" "ent_slot s'"] at[OF slots] r p by (auto simp: recordOk_def)
  moreover have "mx_norecord ?m = mx_norecord m" using nr by (simp add: mx_norecord_def)
  ultimately have "recordOk m n (insert (k, s) D) ?m" using c(2)[OF sq(1)] c(2)[OF sq(2)] c(2)[OF sq(3)] unfolding recordOk_def by auto
  with 1 show ?thesis by blast
qed

lemma setPairs_ok:
  assumes "\<And>e. e \<in> L \<Longrightarrow> ent_slot e < n" "\<And>e f. e \<in> L \<Longrightarrow> f \<in> L \<Longrightarrow> ent_slot e = ent_slot f \<Longrightarrow> e = f"
  shows "set ps \<subseteq> L \<times> L \<Longrightarrow> D \<subseteq> L \<times> L \<Longrightarrow> recordOk m n D m' \<Longrightarrow>
    \<exists>m''. foldO (\<lambda>(k, s). setPair k s) ps m' = Some m'' \<and> recordOk m n (D \<union> set ps) m''"
proof (induction ps arbitrary: D m')
  case (Cons p ps)
  obtain k s where p: "p = (k, s)" by (cases p)
  have ks: "k \<in> L" "s \<in> L" using Cons.prems(1) p by auto
  obtain m1 where m1: "setPair k s m' = Some m1" "recordOk m n (insert (k, s) D) m1"
    using setPair_ok[OF Cons.prems(3) assms(1)[OF ks(1)] assms(1)[OF ks(2)]] Cons.prems(2) assms ks by blast
  have "\<exists>m''. foldO (\<lambda>(k, s). setPair k s) ps m1 = Some m'' \<and> recordOk m n (insert (k, s) D \<union> set ps) m''"
    by (rule Cons.IH) (use Cons.prems m1(2) ks in auto)
  then show ?case using m1(1) p by simp
qed simp

lemma recompute_ok:
  assumes "slotsOk (mx_ents m) (mx_slots m)" "n = length (mx_slots m)" "square n (mx_audible m)" "square n (mx_pairGain m)" "square n (mx_pairAttExp m)"
  shows "\<exists>m'. recomputeAudible m = Some m' \<and> recordOk (m \<lparr> mx_audibleDirty := False \<rparr>) n (set (liveEnts m) \<times> set (liveEnts m)) m'"
proof -
  let ?L = "set (liveEnts m)" let ?m = "m \<lparr> mx_audibleDirty := False \<rparr>"
  have 0: "recordOk ?m n {} ?m" using assms(3-5) by (simp add: recordOk_def)
  have "\<exists>m'. foldO (\<lambda>(k, s). setPair k s) (List.product (liveEnts m) (liveEnts m)) ?m = Some m' \<and>
    recordOk ?m n ({} \<union> set (List.product (liveEnts m) (liveEnts m))) m'"
  proof (rule setPairs_ok[where L = ?L])
    show "\<And>e. e \<in> ?L \<Longrightarrow> ent_slot e < n" using liveEnts_slot[OF assms(1)] assms(2) by simp
    show "\<And>e f. e \<in> ?L \<Longrightarrow> f \<in> ?L \<Longrightarrow> ent_slot e = ent_slot f \<Longrightarrow> e = f" by (rule liveEnts_inj[OF assms(1)])
  qed (use 0 in auto)
  then show ?thesis by (simp add: recomputeAudible_def foldO_product)
qed

section \<open>Before the phases\<close>

definition envOk :: "Env \<Rightarrow> bool" where
  "envOk env \<longleftrightarrow> math_ok (ev_math env) \<and> sgemm_ok (ev_sgemm env)"

text \<open>The state of the audio side during a tick, once the queue is drained.\<close>

definition tickOk :: "'d Mixer \<Rightarrow> bool" where
  "tickOk m \<longleftrightarrow> audioOk m (mx_reg m) \<and> frameOk m \<and> heapFull m \<and> entsOk m \<and> envOk (mx_env m)"

lemma tick_slots: "tickOk m \<Longrightarrow> slotsOk (mx_ents m) (mx_slots m)" "tickOk m \<Longrightarrow> length (mx_slots m) = nat (cf_MaxEntities (mx_cfg m))"
  by (simp_all add: tickOk_def audioOk_def)

text \<open>What a step within a tick keeps.\<close>

definition entSame :: "entity \<Rightarrow> entity \<Rightarrow> bool" where
  "entSame e e' \<longleftrightarrow> ent_id e' = ent_id e \<and> ent_slot e' = ent_slot e \<and> ent_src e' = ent_src e \<and> ent_sink e' = ent_sink e \<and>
     ent_ambiSinks e' = ent_ambiSinks e \<and> (ent_ambiEnc e' = None \<longleftrightarrow> ent_ambiEnc e = None) \<and> ent_params e' = ent_params e \<and>
     enc_gainFactor (ent_enc e') = enc_gainFactor (ent_enc e) \<and> enc_peerAttenuationExponent (ent_enc e') = enc_peerAttenuationExponent (ent_enc e)"

lemma entSame_refl [simp]: "entSame e e"
  by (simp add: entSame_def)

lemma entSame_trans: "entSame e e' \<Longrightarrow> entSame e' e'' \<Longrightarrow> entSame e e''"
  by (simp add: entSame_def)

lemma agree_same: "entSame e e' \<Longrightarrow> agree r (Some e) \<Longrightarrow> agree r (Some e')"
  by (cases r) (auto simp: entSame_def)

lemma audio_setEnt:
  assumes "audioOk m \<sigma>" "mx_ents m eid = Some e" "entSame e e'" "mx_fixed m' = mx_fixed m" "mx_ents m' = (mx_ents m)(eid \<mapsto> e')" "mx_slots m' = mx_slots m"
  shows "audioOk m' \<sigma>"
proof (rule setEnt_audio[OF assms(1,2) _ _ assms(4,5,6)])
  show "ent_id e' = eid" using audio_ent[OF assms(1,2)] assms(3) by (simp add: entSame_def)
  show "ent_slot e' = ent_slot e" using assms(3) by (simp add: entSame_def)
  show "\<sigma> = \<sigma>(eid := \<sigma> eid)" by simp
  show "agree (\<sigma> eid) (Some e')" using audio_agree[OF assms(1), of eid] assms(2) agree_same[OF assms(3)] by simp
  show "regBound (length (mx_slots m)) \<sigma>" by (rule audio_bound[OF assms(1)])
qed

definition jobStep :: "string \<Rightarrow> entity \<Rightarrow> entity \<Rightarrow> 'd Mixer \<Rightarrow> 'd Mixer \<Rightarrow> bool" where
  "jobStep eid e e' m m' \<longleftrightarrow> mx_ents m eid = Some e \<and> mx_ents m' = (mx_ents m)(eid \<mapsto> e') \<and> entSame e e' \<and> entOk m' e' \<and>
     mx_control m' = mx_control m \<and> mx_slots m' = mx_slots m \<and> heapsLe m m' \<and> heapFull m' \<and> frameOk m'"

lemma control_fixed: "mx_control m' = mx_control m \<Longrightarrow> mx_fixed m' = mx_fixed m" "mx_control m' = mx_control m \<Longrightarrow> mx_reg m' = mx_reg m"
  by (simp_all add: mx_control_def)

lemma jobStep_ok:
  assumes "jobStep eid e e' m m'" "tickOk m"
  shows "tickOk m'" "dom (mx_ents m') = dom (mx_ents m)"
proof -
  note j = assms(1)[unfolded jobStep_def]
  have f: "mx_fixed m' = mx_fixed m" "mx_reg m' = mx_reg m" using j control_fixed by blast+
  have "audioOk m' (mx_reg m)" using audio_setEnt[of m "mx_reg m" eid e e' m'] assms(2) j f by (simp add: tickOk_def)
  moreover have "entsOk m'" unfolding entsOk_def using assms(2) j entOk_mono[OF _ f(1)] by (auto simp: tickOk_def entsOk_def split: if_splits)
  ultimately show "tickOk m'" using assms(2) j f by (simp add: tickOk_def)
  show "dom (mx_ents m') = dom (mx_ents m)" using j by auto
qed

lemma group_read_full: "sg_n (group_read g) = sg_n g" "groupFull g \<Longrightarrow> groupFull (group_read g)"
  by (auto simp: group_read_def groupFull_def length_Read split: prod.splits)

lemma readGroups_heap:
  fixes m :: "'d Mixer"
  defines "hp \<equiv> mx_groupHeap (readGroups m)"
  shows "mx_groupHeap m h = Some g \<Longrightarrow> \<exists>g'. hp h = Some g' \<and> sg_n g' = sg_n g" "heapFull m \<Longrightarrow> hp h = Some g \<Longrightarrow> groupFull g"
proof -
  define f where "f = (\<lambda>hp :: nat \<Rightarrow> SourceGroup option. \<lambda>(gid :: string, g). hp(g := map_option group_read (hp g)))"
  have 1: "\<exists>g'. f hp0 p h = Some g' \<and> sg_n g' = sg_n g" if "hp0 h = Some g" for hp0 p h g
    using that by (cases p) (auto simp: f_def group_read_full(1))
  have 2: "\<forall>h g. f hp0 p h = Some g \<longrightarrow> groupFull g" if "\<forall>h g. hp0 h = Some g \<longrightarrow> groupFull g" for hp0 p
    using that by (cases p) (auto simp: f_def intro: group_read_full(2) split: if_splits)
  have a: "hp0 h = Some g \<Longrightarrow> \<exists>g'. foldl f hp0 gs h = Some g' \<and> sg_n g' = sg_n g" for hp0 h g and gs :: "(string \<times> nat) list"
  proof (induction gs arbitrary: hp0 g)
    case (Cons p gs)
    obtain g1 where "f hp0 p h = Some g1" "sg_n g1 = sg_n g" using 1[of hp0 h g p] Cons.prems by blast
    then show ?case using Cons.IH[of "f hp0 p" g1] by auto
  qed simp
  have b: "(\<forall>h g. hp0 h = Some g \<longrightarrow> groupFull g) \<Longrightarrow> \<forall>h g. foldl f hp0 gs h = Some g \<longrightarrow> groupFull g" for hp0 and gs :: "(string \<times> nat) list"
  proof (induction gs arbitrary: hp0)
    case (Cons p gs)
    show ?case using Cons.IH[OF 2[OF Cons.prems]] by simp
  qed simp
  have hp: "hp = foldl f (mx_groupHeap m) (mx_groups m)" by (simp add: hp_def readGroups_def f_def)
  show "mx_groupHeap m h = Some g \<Longrightarrow> \<exists>g'. hp h = Some g' \<and> sg_n g' = sg_n g" unfolding hp by (rule a)
  show "heapFull m \<Longrightarrow> hp h = Some g \<Longrightarrow> groupFull g" unfolding hp heapFull_def using b by blast
qed

text \<open>A step that touches no entity.\<close>

lemma tickOk_frame:
  assumes "tickOk m" "mx_ents m' = mx_ents m" "mx_slots m' = mx_slots m" "mx_fixed m' = mx_fixed m" "mx_reg m' = mx_reg m" "heapsLe m m'" "heapFull m'" "frameOk m'"
  shows "tickOk m'"
proof -
  have "audioOk m' (mx_reg m)" using assms(1-4) by (auto simp: tickOk_def audioOk_def)
  moreover have "entsOk m'" using entsOk_mono[of m m'] assms by (simp add: tickOk_def)
  ultimately show ?thesis using assms by (simp add: tickOk_def)
qed

lemma readGroups_tick: "tickOk m \<Longrightarrow> tickOk (readGroups m)"
proof (rule tickOk_frame)
  assume t: "tickOk m"
  show "heapsLe m (readGroups m)" unfolding heapsLe_def using readGroups_heap(1)[of m] by (auto simp: readGroups_def)
  show "heapFull (readGroups m)" unfolding heapFull_def using readGroups_heap(2)[of m] t by (auto simp: tickOk_def)
  show "frameOk (readGroups m)" using t frameOk_frame[of "readGroups m" m] by (simp add: tickOk_def mx_frame_def readGroups_def)
qed (auto simp: readGroups_def)

lemma recompute_tick:
  assumes "tickOk m"
  shows "\<exists>m'. recomputeAudible m = Some m' \<and> tickOk m' \<and> recordOk (m \<lparr> mx_audibleDirty := False \<rparr>) (length (mx_slots m)) (set (liveEnts m) \<times> set (liveEnts m)) m'"
proof -
  have sq: "square (length (mx_slots m)) (mx_audible m)" "square (length (mx_slots m)) (mx_pairGain m)" "square (length (mx_slots m)) (mx_pairAttExp m)"
    using assms tick_slots(2)[OF assms] by (simp_all add: tickOk_def frameOk_def Let_def)
  obtain m' where m': "recomputeAudible m = Some m'" "recordOk (m \<lparr> mx_audibleDirty := False \<rparr>) (length (mx_slots m)) (set (liveEnts m) \<times> set (liveEnts m)) m'"
    using recompute_ok[OF tick_slots(1)[OF assms] refl sq] by blast
  note r = m'(2)[unfolded recordOk_def]
  obtain A G E where e: "m' = m \<lparr> mx_audibleDirty := False, mx_audible := A, mx_pairGain := G, mx_pairAttExp := E \<rparr>"
  proof -
    have "m' = (mx_norecord m') \<lparr> mx_audible := mx_audible m', mx_pairGain := mx_pairGain m', mx_pairAttExp := mx_pairAttExp m' \<rparr>" by (simp add: mx_norecord_def)
    also have "\<dots> = m \<lparr> mx_audibleDirty := False, mx_audible := mx_audible m', mx_pairGain := mx_pairGain m', mx_pairAttExp := mx_pairAttExp m' \<rparr>"
      using r by (simp add: mx_norecord_def)
    finally show thesis by (rule that)
  qed
  have "tickOk m'"
  proof (rule tickOk_frame[OF assms])
    show "frameOk m'" using assms r tick_slots(2)[OF assms] by (simp add: tickOk_def frameOk_def Let_def e)
  qed (use assms in \<open>simp_all add: e heapsLe_def heapFull_def tickOk_def\<close>)
  then show ?thesis using m' by blast
qed

section \<open>The peers\<close>

definition peerList :: "'d Mixer \<Rightarrow> entity \<Rightarrow> string list" where
  "peerList m e = map ent_id (filter (\<lambda>s. mx_audible m ! ent_slot e ! ent_slot s) (sourceEnts m))"

definition putPeers :: "'d Mixer \<Rightarrow> string set \<Rightarrow> entity \<Rightarrow> entity" where
  "putPeers m D e = (if ent_id e \<in> D then e \<lparr> ent_peers := peerList m e \<rparr> else e)"

definition withPeers :: "'d Mixer \<Rightarrow> string set \<Rightarrow> 'd Mixer" where
  "withPeers m D = m \<lparr> mx_ents := \<lambda>x. map_option (putPeers m D) (mx_ents m x) \<rparr>"

lemma putPeers_fields [simp]:
  "ent_id (putPeers m D e) = ent_id e" "ent_slot (putPeers m D e) = ent_slot e" "ent_src (putPeers m D e) = ent_src e" "entSame e (putPeers m D e)"
  "ent_sink (putPeers m D e) = ent_sink e" "ent_ambiEnc (putPeers m D e) = ent_ambiEnc e" "ent_enc (putPeers m D e) = ent_enc e"
  by (simp_all add: putPeers_def entSame_def)

lemma liveEnts_map:
  assumes "mx_slots m' = mx_slots m" "mx_ents m' = (\<lambda>x. map_option f (mx_ents m x))"
  shows "liveEnts m' = map f (liveEnts m)"
proof -
  have "List.map_filter (\<lambda>s. map_option f (g s)) ss = map f (List.map_filter g ss)" for g :: "string option \<Rightarrow> entity option" and ss
    by (induction ss) (simp_all add: List.map_filter_simps split: option.split)
  moreover have "(\<lambda>s. Option.bind s (mx_ents m')) = (\<lambda>s. map_option f (Option.bind s (mx_ents m)))"
    by (rule ext) (simp add: assms(2) split: bind_splits)
  ultimately show ?thesis unfolding liveEnts_def assms(1) by metis
qed

lemma withPeers_sources: "sourceEnts (withPeers m D) = map (putPeers m D) (sourceEnts m)"
  using liveEnts_map[of "withPeers m D" m "putPeers m D"] by (simp add: sourceEnts_def withPeers_def filter_map comp_def)

lemma setPeers_withPeers:
  assumes s: "slotsOk (mx_ents m) (mx_slots m)" and sq: "square (length (mx_slots m)) (mx_audible m)" and e: "e \<in> set (liveEnts m)"
  shows "setPeers e (withPeers m D) = Some (withPeers m (insert (ent_id e) D))"
proof -
  let ?m = "withPeers m D" let ?e = "e \<lparr> ent_peers := peerList m e \<rparr>"
  have src: "set (sourceEnts m) \<subseteq> set (liveEnts m)" by (auto simp: sourceEnts_def)
  have l: "ent_slot f < length (mx_slots m)" if "f \<in> set (liveEnts m)" for f using liveEnts_slot[OF s that] .
  have row: "length (mx_audible m ! ent_slot e) = length (mx_slots m)" "length (mx_audible m) = length (mx_slots m)"
    using sq l[OF e] by (auto simp: square_def)
  have p: "map ent_id (filter (\<lambda>s. mx_audible m ! ent_slot e ! ent_slot s) (sourceEnts ?m)) = peerList m e"
    by (simp add: withPeers_sources filter_map comp_def peerList_def)
  have 1: "setPeers e ?m = Some (setEnt ?m ?e)"
    using row l[OF e] l src p unfolding setPeers_def Let_def by (auto simp: withPeers_sources) (auto simp: withPeers_def withPeers_sources)
  have ent: "mx_ents m (ent_id e) = Some e" using e liveEnts_set[OF s] by blast
  have "map_option (putPeers m D) (mx_ents m x) = map_option (putPeers m (insert (ent_id e) D)) (mx_ents m x)" if "x \<noteq> ent_id e" for x
    using that slotsOk_ent(1)[OF s, of x] by (cases "mx_ents m x") (auto simp: putPeers_def)
  then have "(mx_ents ?m)(ent_id e \<mapsto> ?e) = mx_ents (withPeers m (insert (ent_id e) D))"
    using ent by (auto simp: fun_eq_iff withPeers_def putPeers_def)
  then have "setEnt ?m ?e = withPeers m (insert (ent_id e) D)" by (simp add: setEnt_def withPeers_def)
  then show ?thesis using 1 by simp
qed

lemma foldO_setPeers:
  assumes "slotsOk (mx_ents m) (mx_slots m)" "square (length (mx_slots m)) (mx_audible m)" "set es \<subseteq> set (liveEnts m)"
  shows "foldO setPeers es (withPeers m D) = Some (withPeers m (ent_id ` set es \<union> D))"
  using assms(3)
proof (induction es arbitrary: D)
  case (Cons e es)
  then show ?case using setPeers_withPeers[OF assms(1,2), of e D] by simp
qed simp

lemma withPeers_empty: "withPeers m {} = m"
  by (simp add: withPeers_def putPeers_def option.map_ident_strong)

lemma withPeers_tick:
  assumes "tickOk m"
  shows "tickOk (withPeers m D)"
proof -
  let ?m = "withPeers m D"
  note s = tick_slots(1)[OF assms]
  have src: "distinct (peerList m e)" for e
  proof -
    have "distinct (map ent_id (filter P (liveEnts m)))" for P using liveEnts_ids[OF s] distinct_map_filter by blast
    then show ?thesis by (simp add: peerList_def sourceEnts_def)
  qed
  have le: "heapsLe m ?m" by (simp add: heapsLe_def withPeers_def)
  have "entOk m (putPeers m D e)" if "entOk m e" for e using that src[of e] by (simp add: putPeers_def entOk_def)
  then have "entsOk ?m" using assms entOk_mono[of m _ ?m] le by (auto simp: tickOk_def entsOk_def withPeers_def)
  moreover have "agree r (mx_ents ?m x)" if "agree r (mx_ents m x)" for r x
    using that agree_same[OF putPeers_fields(4), of r] by (cases "mx_ents m x") (auto simp: withPeers_def)
  moreover have "slotsOk (mx_ents ?m) (mx_slots ?m)" using s unfolding slotsOk_def by (force simp: withPeers_def)
  ultimately show ?thesis using assms by (auto simp: tickOk_def audioOk_def frameOk_def heapFull_def withPeers_def Let_def)
qed

lemma prepare_ok:
  assumes "tickOk m"
  obtains m1 m2 where "(if mx_audibleDirty m then recomputeAudible m else Some m) = Some m1" "m2 = readGroups m1"
    "prepare m = Some (withPeers m2 (ent_id ` set (sinkEnts m2)))" "tickOk m1" "tickOk m2" "tickOk (withPeers m2 (ent_id ` set (sinkEnts m2)))"
proof -
  obtain m1 where m1: "(if mx_audibleDirty m then recomputeAudible m else Some m) = Some m1" "tickOk m1"
    using recompute_tick[OF assms] assms by (cases "mx_audibleDirty m") auto
  let ?m = "readGroups m1"
  have t: "tickOk ?m" by (rule readGroups_tick[OF m1(2)])
  have "square (length (mx_slots ?m)) (mx_audible ?m)" using t tick_slots(2)[OF t] by (simp add: tickOk_def frameOk_def Let_def)
  from foldO_setPeers[OF tick_slots(1)[OF t] this, of "sinkEnts ?m" "{}"] have "prepare m = Some (withPeers ?m (ent_id ` set (sinkEnts ?m)))"
    by (simp add: prepare_def m1(1) withPeers_empty sinkEnts_def Let_def)
  then show thesis using that[OF m1(1) refl] m1(2) t withPeers_tick[OF t] by blast
qed

section \<open>The jobs\<close>

lemma peer_ok:
  assumes "tickOk m" "mx_ents m x = Some e"
  shows "peerOk (encCfg (mx_cfg m)) (ent_enc e)"
proof -
  have "ent_slot e < nat (cf_MaxEntities (mx_cfg m))" using slotsOk_ent(2)[OF tick_slots(1)[OF assms(1)] assms(2)] tick_slots(2)[OF assms(1)] by simp
  moreover have "encFor (mx_fixed m) (ent_slot e) True (ent_enc e)" using assms by (auto simp: tickOk_def entsOk_def entOk_def)
  ultimately show ?thesis by (simp add: peerOk_def encFor_def encOk_def encCfg_def)
qed

lemma peerEncs_ok:
  assumes "tickOk m" "distinct (ent_peers e)"
  shows "\<forall>p\<in>set (peerEncs m e). peerOk (encCfg (mx_cfg m)) p" "distinct (map enc_slot (peerEncs m e))"
proof -
  show "\<forall>p\<in>set (peerEncs m e). peerOk (encCfg (mx_cfg m)) p" using peer_ok[OF assms(1)] by (auto simp: peerEncs_def List.map_filter_def)
  let ?f = "\<lambda>x. enc_slot (ent_enc (the (mx_ents m x)))"
  have slot: "?f x = ent_slot f" if "mx_ents m x = Some f" for x f using assms(1) that by (auto simp: tickOk_def entsOk_def entOk_def encFor_def)
  have "inj_on ?f (dom (mx_ents m))"
  proof (rule inj_onI)
    fix x y assume "x \<in> dom (mx_ents m)" "y \<in> dom (mx_ents m)" "?f x = ?f y"
    then show "x = y" using slot slotsOk_ent(3)[OF tick_slots(1)[OF assms(1)]] by (metis domD option.inject)
  qed
  then have "distinct (map ?f (filter (\<lambda>x. mx_ents m x \<noteq> None) (ent_peers e)))"
    using assms(2) by (auto simp: distinct_map intro: inj_on_subset)
  then show "distinct (map enc_slot (peerEncs m e))" by (simp add: peerEncs_def List.map_filter_def comp_def)
qed

lemma encodeFor_ok:
  assumes "tickOk m" "encFor (mx_fixed m) slot dual enc" "distinct (ent_peers e)" "mixersOk (encCfg (mx_cfg m)) dual ms"
  obtains enc' ms' where "encodeFor m enc (peerEncs m e) ms = Some (enc', ms')" "encFor (mx_fixed m) slot dual enc'"
    "mixersOk (encCfg (mx_cfg m)) dual ms'" "encCore enc' = encCore enc"
proof -
  have env: "math_ok (ev_math (mx_env m))" "sgemm_ok (ev_sgemm (mx_env m))" using assms(1) by (auto simp: tickOk_def envOk_def)
  have e: "encOk (ev_bilateral (mx_env m)) enc" "enc_mixerConfig enc = encCfg (mx_cfg m)" "enc_dualBus enc = dual" using assms(2) by (auto simp: encFor_def)
  have sh: "length (mx_shared m) = mc_MaxNodes (enc_mixerConfig enc) * 240" using assms(1) e(2) by (simp add: tickOk_def frameOk_def Let_def encCfg_def FrameSize_def)
  obtain enc' ms' where r: "encodeFor m enc (peerEncs m e) ms = Some (enc', ms')" "encOk (ev_bilateral (mx_env m)) enc'" "mixersOk (encCfg (mx_cfg m)) dual ms'"
    using EncodePeers_ok[OF env e(1) sh, of "peerEncs m e" ms "ev_nfc (mx_env m)" "rowsOf m"] peerEncs_ok[OF assms(1,3)] assms(4) e by (auto simp: encodeFor_def)
  have c: "encCore enc' = encCore enc" using EncodePeers_core r(1) by (auto simp: encodeFor_def)
  then have "encFor (mx_fixed m) slot dual enc'" using r(2) assms(2) encCore_eqD[OF c] by (simp add: encFor_def)
  then show thesis using that[OF r(1) _ r(3) c] by blast
qed

text \<open>Replacing the entity of a job.\<close>

lemma jobStep_setEnt:
  assumes "tickOk m" "mx_ents m eid = Some e" "entSame e e'" "entOk m e'" "mx_control m' = mx_control m" "mx_slots m' = mx_slots m"
    "mx_ents m' = mx_ents m" "heapsLe m m'" "heapFull m'" "frameOk m'"
  shows "jobStep eid e e' m (setEnt m' e')"
proof -
  have i: "ent_id e' = eid" using slotsOk_ent(1)[OF tick_slots(1)[OF assms(1)] assms(2)] assms(3) by (simp add: entSame_def)
  have f: "mx_fixed (setEnt m' e') = mx_fixed m" using control_fixed(1)[OF assms(5)] by (simp add: setEnt_def)
  have le: "heapsLe m (setEnt m' e')" using assms(8) by (simp add: heapsLe_def setEnt_def)
  have "frameOk (setEnt m' e')" using assms(10) frameOk_frame[of "setEnt m' e'" m'] by (simp add: mx_frame_def setEnt_def)
  then show ?thesis using assms i le entOk_mono[OF assms(4) f le] by (simp add: jobStep_def setEnt_def heapFull_def)
qed

lemma length_pushRing: "length r = DelayRingHistory + 240 + 1 \<Longrightarrow> length xs = 240 \<Longrightarrow> length (pushRing 240 r xs) = DelayRingHistory + 240 + 1"
  by (simp add: pushRing_def)

lemma inSource_ok:
  assumes t: "tickOk m" and e: "mx_ents m eid = Some e"
  obtains e' m' where "inSource e m = Some (e', m')" "entSame e e'" "entOk m e'" "mx_control m' = mx_control m" "mx_slots m' = mx_slots m"
    "mx_ents m' = mx_ents m" "heapsLe m m'" "heapFull m'" "frameOk m'" "mx_sinks m' = mx_sinks m" "mx_ambis m' = mx_ambis m"
    "ent_peers e' = ent_peers e"
proof (cases "ent_src e")
  case None
  then have "inSource e m = Some (e, m)" by (simp add: inSource_def)
  then show thesis by (rule that) (use t e in \<open>auto simp: tickOk_def entsOk_def\<close>)
next
  case (Some r)
  let ?mt = "ev_math (mx_env m)"
  have ok: "entOk m e" "heapFull m" "frameOk m" using t e by (auto simp: tickOk_def entsOk_def)
  obtain s where s: "mx_sources m (sr_handle r) = Some s" "playable (mx_groupHeap m) s"
    using ok(1) Some by (auto simp: entOk_def srcReady_def split: option.splits)
  have len: "length (enc_Input (ent_enc e)) = 240" "length (enc_inputRing (ent_enc e)) = DelayRingHistory + 240 + 1" "mc_FrameSize (enc_mixerConfig (ent_enc e)) = 240"
    using ok(1) by (auto simp: entOk_def encFor_def encOk_def cfgOk_def)
  have range: "channelInRange m s"
  proof (cases "src_group s")
    case (Some hi)
    obtain g where g: "mx_groupHeap m (fst hi) = Some g" "snd hi < sg_n g" using s(2) Some by (auto simp: playable_def split: option.splits prod.splits)
    have "length (sg_readScratch g) = FrameSize * sg_n g" using ok(2) g(1) by (auto simp: heapFull_def groupFull_def)
    moreover have "(FrameSize - 1) * sg_n g + sg_n g = FrameSize * sg_n g" by (simp add: FrameSize_def)
    ultimately show ?thesis using g Some by (auto simp: channelInRange_def split: prod.splits)
  qed (simp add: channelInRange_def)
  obtain frm p s' where rf: "readFrame ?mt (\<lambda>h. the (mx_groupHeap m h)) s (enc_Input (ent_enc e)) = Some (frm, p, s')" "length frm = 240" "srcShape s' = srcShape s"
    by (rule readFrame_total[OF s(2), of ?mt "enc_Input (ent_enc e)"]) (use ok(2) len in \<open>auto simp: heapFull_def\<close>)
  have slot: "ent_slot e < nat (cf_MaxEntities (mx_cfg m))" using slotsOk_ent(2)[OF tick_slots(1)[OF t] e] tick_slots(2)[OF t] by simp
  then have "(ent_slot e + 1) * FrameSize \<le> nat (cf_MaxEntities (mx_cfg m)) * FrameSize" by (intro mult_right_mono) auto
  then have shl: "(ent_slot e + 1) * FrameSize \<le> length (mx_shared m)" using ok(3) by (simp add: frameOk_def Let_def)
  obtain sh where sh: "SetRow FrameSize (mx_shared m) (ent_slot e) frm = Some sh" "length sh = length (mx_shared m)"
    using shl by (simp add: SetRow_def)
  define enc0 where "enc0 = SetPosition (PushInputRing ((ent_enc e) \<lparr> enc_Input := frm \<rparr>)) (position p)"
  define enc where "enc = (if rp_Directivity (ent_params e) > 0 then SetSourceForward enc0 (forward ?mt p) else enc0)"
  define s2 where "s2 = updateRenderLoudness ?mt s' frm (rp_Gain (ent_params e))"
  let ?m = "m \<lparr> mx_sources := (mx_sources m)(sr_handle r \<mapsto> s2), mx_shared := sh \<rparr>" let ?e = "e \<lparr> ent_enc := enc \<rparr>"
  have run: "inSource e m = Some (?e, ?m)" using Some s(1) range rf(1) sh(1) by (simp add: inSource_def Let_def enc_def enc0_def s2_def)
  have "encFor (mx_fixed m) (ent_slot e) True (PushInputRing ((ent_enc e) \<lparr> enc_Input := frm \<rparr>))"
    using ok(1) rf(2) len length_pushRing[OF len(2) rf(2)] by (auto simp: entOk_def encFor_def encOk_def PushInputRing_def)
  then have "encFor (mx_fixed m) (ent_slot e) True enc" by (simp add: enc_def enc0_def)
  then have eok: "entOk m ?e" using ok(1) by (simp add: entOk_def)
  have "srcShape s2 = srcShape s" using rf(3) by (simp add: s2_def updateRenderLoudness_def Let_def srcShape_def)
  then have le: "heapsLe m ?m" using s(1) by (auto simp: heapsLe_def)
  have fr: "frameOk ?m" by (rule frameOk_same[OF ok(3)]) (simp_all add: sh(2))
  have "entSame e ?e" by (simp add: entSame_def enc_def enc0_def SetSourceForward_def SetPosition_def PushInputRing_def)
  then show thesis by (rule that[OF run _ eok]) (use le fr ok(2) in \<open>simp_all add: mx_control_def heapFull_def\<close>)
qed

lemma inSink_ok: "entOk m e \<Longrightarrow> entOk m (inSink m' e)" "entSame e (inSink m' e)" "ent_peers (inSink m' e) = ent_peers e"
  by (auto simp: inSink_def entOk_def entSame_def SetListenerPosition_def SetRotation_def split: option.split)
    (auto simp: encFor_def encOk_def)

lemma inAmbi_ok: "entOk m e \<Longrightarrow> entOk m (inAmbi m' e)" "entSame e (inAmbi m' e)" "ent_peers (inAmbi m' e) = ent_peers e" "ent_enc (inAmbi m' e) = ent_enc e"
  by (auto simp: inAmbi_def entOk_def entSame_def split: option.split)

text \<open>What a phase leaves of the sinks and the peers.\<close>

definition mx_emitted :: "'d Mixer \<Rightarrow> (nat \<Rightarrow> Sink) \<times> (nat \<Rightarrow> Sink)" where
  "mx_emitted m = (mx_sinks m, mx_ambis m)"

lemma phaseIn_ok:
  assumes t: "tickOk m" and e: "mx_ents m eid = Some e"
  obtains e' m' where "phaseIn e m = Some (e', m')" "jobStep eid e e' m (setEnt m' e')" "mx_emitted m' = mx_emitted m" "ent_peers e' = ent_peers e"
proof -
  obtain e1 m1 where r: "inSource e m = Some (e1, m1)" "entSame e e1" "entOk m e1" "mx_control m1 = mx_control m" "mx_slots m1 = mx_slots m"
    "mx_ents m1 = mx_ents m" "heapsLe m m1" "heapFull m1" "frameOk m1" "mx_sinks m1 = mx_sinks m" "mx_ambis m1 = mx_ambis m" "ent_peers e1 = ent_peers e"
    by (rule inSource_ok[OF t e])
  let ?e = "inAmbi m1 (inSink m1 e1)"
  have "phaseIn e m = Some (?e, m1)" by (simp add: phaseIn_def r(1))
  moreover have "entSame e ?e" by (rule entSame_trans[OF r(2)], rule entSame_trans[OF inSink_ok(2)], rule inAmbi_ok(2))
  moreover have "entOk m ?e" by (intro inAmbi_ok inSink_ok r(3))
  ultimately show thesis using jobStep_setEnt[OF t e _ _ r(4-9)] that r(10-12) by (simp add: mx_emitted_def inAmbi_ok(3) inSink_ok(3))
qed

lemma mixersOk_classic: "mixersOk cfg True ms \<Longrightarrow> mixersOk cfg False (fst ms, None, snd (snd ms))"
  by (auto simp: mixersOk_def split: prod.splits)

lemma mixersOk_join:
  "mixersOk cfg True ms \<Longrightarrow> mixersOk cfg False (dry, x, rvb) \<Longrightarrow> mixersOk cfg True (dry, fst (snd ms), rvb)"
  by (auto simp: mixersOk_def split: prod.splits)

lemma tickOk_setEnt:
  assumes "tickOk m" "mx_ents m eid = Some e" "entSame e e'" "entOk m e'"
  shows "tickOk (setEnt m e')"
  using jobStep_ok(1)[OF jobStep_setEnt[OF assms, of m]] assms(1) by (simp add: tickOk_def)

lemma phaseAcross_ok:
  assumes t: "tickOk m" and e: "mx_ents m eid = Some e" and ms: "mixersOk (encCfg (mx_cfg m)) True ms"
  obtains e' ms' where "phaseAcross e ms m = Some (e', ms')" "entSame e e'" "entOk m e'" "mixersOk (encCfg (mx_cfg m)) True ms'"
    "ent_peers e' = ent_peers e" "encCore (ent_enc e') = encCore (ent_enc e)"
proof -
  have ok: "entOk m e" using t e by (auto simp: tickOk_def entsOk_def)
  have d: "distinct (ent_peers e)" using ok by (simp add: entOk_def)
  define first where "first = (if ent_sink e \<noteq> None
     then do { (enc, ms) \<leftarrow> encodeFor m (ent_enc e) (peerEncs m e) ms; Some (e \<lparr> ent_enc := enc \<rparr>, ms) } else Some (e, ms))"
  obtain enc1 ms1 where "first = Some (e \<lparr> ent_enc := enc1 \<rparr>, ms1)" "encFor (mx_fixed m) (ent_slot e) True enc1"
    "mixersOk (encCfg (mx_cfg m)) True ms1" "encCore enc1 = encCore (ent_enc e)"
  proof (cases "ent_sink e = None")
    case True
    have "e \<lparr> ent_enc := ent_enc e \<rparr> = e" by simp
    with True show thesis using that[of "ent_enc e" ms] ok ms by (simp add: first_def entOk_def)
  next
    case False
    have "encFor (mx_fixed m) (ent_slot e) True (ent_enc e)" using ok by (simp add: entOk_def)
    from encodeFor_ok[OF t this d ms] obtain enc' ms' where "encodeFor m (ent_enc e) (peerEncs m e) ms = Some (enc', ms')"
      "encFor (mx_fixed m) (ent_slot e) True enc'" "mixersOk (encCfg (mx_cfg m)) True ms'" "encCore enc' = encCore (ent_enc e)" by metis
    then show thesis using that[of enc' ms'] False by (simp add: first_def)
  qed
  note f = this
  let ?e = "e \<lparr> ent_enc := enc1 \<rparr>"
  have e1: "entOk m ?e" "entSame e ?e" using ok f(2) encCore_eqD[OF f(4)] by (simp_all add: entOk_def entSame_def)
  show thesis
  proof (cases "ent_ambiEnc e")
    case None
    then have "phaseAcross e ms m = Some (?e, ms1)" using f(1) unfolding phaseAcross_def first_def[symmetric] by simp
    then show thesis using that e1 f by simp
  next
    case (Some a)
    let ?m = "setEnt m ?e"
    have t': "tickOk ?m" by (rule tickOk_setEnt[OF t e e1(2,1)])
    have same: "mx_fixed ?m = mx_fixed m" "\<And>enc ps ms. encodeFor ?m enc ps ms = encodeFor m enc ps ms" by (simp_all add: setEnt_def encodeFor_def rowsOf_def[abs_def])
    have a: "encFor (mx_fixed ?m) (ent_slot e) False a" using ok Some by (simp add: entOk_def setEnt_def)
    have d': "distinct (ent_peers ?e)" using d by simp
    have m0: "mixersOk (encCfg (mx_cfg ?m)) False (fst ms1, None, snd (snd ms1))" using mixersOk_classic[OF f(3)] by (simp add: setEnt_def)
    obtain a' ms2 where r: "encodeFor m a (peerEncs ?m ?e) (fst ms1, None, snd (snd ms1)) = Some (a', ms2)" "encFor (mx_fixed m) (ent_slot e) False a'"
      "mixersOk (encCfg (mx_cfg m)) False ms2"
      using encodeFor_ok[OF t' a d' m0] same by (metis (no_types, lifting) fst_conv mx_fixed_def)
    obtain dry dR rvb where ms2: "ms2 = (dry, dR, rvb)" by (cases ms2)
    have "phaseAcross e ms m = Some (?e \<lparr> ent_ambiEnc := Some a' \<rparr>, (dry, fst (snd ms1), rvb))"
      using f(1) Some r(1) ms2 unfolding phaseAcross_def first_def[symmetric] by simp
    then show thesis
      by (rule that) (use e1 r(2) f Some mixersOk_join[OF f(3)] r(3) ms2 in \<open>auto simp: entOk_def entSame_def\<close>)
  qed
qed

lemma outSink_ok:
  assumes "entOk m e" "envOk (mx_env m)"
  obtains enc k where "outSink e m = Some (e \<lparr> ent_enc := enc \<rparr>, m \<lparr> mx_sinks := k \<rparr>)" "encFor (mx_fixed m) (ent_slot e) True enc" "encCore enc = encCore (ent_enc e)"
    "k = (case ent_sink e of None \<Rightarrow> mx_sinks m | Some i \<Rightarrow> (mx_sinks m)(i := emitTo (ev_encode (mx_env m) i) (mx_frameStart m) (eb_Output (enc_buffers enc)) (mx_sinks m i)))"
proof (cases "ent_sink e")
  case None
  have "e \<lparr> ent_enc := ent_enc e \<rparr> = e" "m \<lparr> mx_sinks := mx_sinks m \<rparr> = m" by simp_all
  with None show thesis using that[of "ent_enc e" "mx_sinks m"] assms(1) by (simp add: outSink_def entOk_def)
next
  case (Some i)
  have "encFor (mx_fixed m) (ent_slot e) True (ent_enc e)" using assms(1) by (simp add: entOk_def)
  moreover from this obtain enc where enc: "PostMix (ent_enc e) = Some enc" "encOk (ev_bilateral (mx_env m)) enc"
    using PostMix_ok[of "ev_bilateral (mx_env m)" "ent_enc e"] by (auto simp: encFor_def)
  ultimately have "encFor (mx_fixed m) (ent_slot e) True enc" using encCore_eqD[OF PostMix_core[OF enc(1)]] by (simp add: encFor_def)
  then show thesis using that[of enc] enc(1) Some PostMix_core[OF enc(1)] by (simp add: outSink_def sink_emit_def)
qed

lemma ambi_fits:
  assumes "encFor ce slot False a" "ambiOrderOk (fst ce) order"
  shows "(nat order + 1) * (nat order + 1) * FrameSize \<le> length (eb_Output (enc_buffers a))"
proof -
  have "length (eb_Output (enc_buffers a)) = FrameSize * ((nat (cf_Order (fst ce)) + 1) * (nat (cf_Order (fst ce)) + 1))"
    using assms(1) by (auto simp: encFor_def encOk_def buffersOk_def Let_def busSamples_def encCfg_def)
  moreover have "(nat order + 1) * (nat order + 1) \<le> (nat (cf_Order (fst ce)) + 1) * (nat (cf_Order (fst ce)) + 1)"
    using assms(2) by (intro mult_mono) (auto simp: ambiOrderOk_def)
  ultimately show ?thesis by (simp add: mult.commute)
qed

lemma outAmbi_ok:
  assumes "entOk m e" "envOk (mx_env m)"
  obtains a k where "outAmbi e m = Some (e \<lparr> ent_ambiEnc := a \<rparr>, m \<lparr> mx_ambis := k \<rparr>)" "entOk m (e \<lparr> ent_ambiEnc := a \<rparr>)"
    "a = None \<longleftrightarrow> ent_ambiEnc e = None"
proof (cases "ent_ambiEnc e")
  case None
  have "e \<lparr> ent_ambiEnc := None \<rparr> = e" using None by simp
  moreover have "m \<lparr> mx_ambis := mx_ambis m \<rparr> = m" by simp
  ultimately show thesis using that[of None "mx_ambis m"] None assms(1) by (simp add: outAmbi_def entOk_def)
next
  case (Some a)
  have a: "encFor (mx_fixed m) (ent_slot e) False a" using assms(1) Some by (simp add: entOk_def)
  then obtain a' where a': "PostMix a = Some a'" "encOk (ev_bilateral (mx_env m)) a'" using PostMix_ok[of "ev_bilateral (mx_env m)" a] by (auto simp: encFor_def)
  then have f: "encFor (mx_fixed m) (ent_slot e) False a'" using a encCore_eqD[OF PostMix_core[OF a'(1)]] by (simp add: encFor_def)
  let ?P = "\<lambda>m'. \<exists>k. m' = m \<lparr> mx_ambis := k \<rparr>"
  have "\<exists>m'. foldO (ambi_emit (eb_Output (enc_buffers a'))) (ent_ambiSinks e) m = Some m' \<and> ?P m'"
  proof (rule foldO_inv)
    show "?P m" by (rule exI[of _ "mx_ambis m"]) simp
    fix ok m1 assume ok: "ok \<in> set (ent_ambiSinks e)" "?P m1"
    have "ambiOrderOk (mx_cfg m) (fst ok)" using assms(1) ok(1) by (auto simp: entOk_def)
    then have "(nat (fst ok) + 1) * (nat (fst ok) + 1) * FrameSize \<le> length (eb_Output (enc_buffers a'))" using ambi_fits[OF f] by simp
    then obtain frm where "ambiFrame (ev_math (mx_env m)) (fst ok) (eb_Output (enc_buffers a')) = Some frm" by (simp add: ambiFrame_def Let_def)
    moreover obtain k where k: "m1 = m \<lparr> mx_ambis := k \<rparr>" using ok(2) by blast
    ultimately have "ambi_emit (eb_Output (enc_buffers a')) ok m1 =
      Some (m \<lparr> mx_ambis := k(snd ok := emitTo (ev_encodeMS (mx_env m) (snd ok)) (mx_frameStart m) frm (k (snd ok))) \<rparr>)"
      by (cases ok) (simp add: ambi_emit_def)
    then show "\<exists>m2. ambi_emit (eb_Output (enc_buffers a')) ok m1 = Some m2 \<and> ?P m2" by blast
  qed
  then obtain k where "foldO (ambi_emit (eb_Output (enc_buffers a'))) (ent_ambiSinks e) m = Some (m \<lparr> mx_ambis := k \<rparr>)" by blast
  then show thesis using that[of "Some a'" k] a'(1) Some f assms(1) by (simp add: outAmbi_def entOk_def)
qed

lemma frameOk_worker:
  assumes "frameOk m" "mixersOk (encCfg (mx_cfg m)) True ms" "w < length (mx_workers m)"
  shows "frameOk (m \<lparr> mx_workers := (mx_workers m)[w := ms] \<rparr>)"
  using assms set_update_subset_insert[of "mx_workers m" w ms] by (auto simp: frameOk_def Let_def)

lemma entOk_fields: "mx_fixed m' = mx_fixed m \<Longrightarrow> mx_sources m' = mx_sources m \<Longrightarrow> mx_groupHeap m' = mx_groupHeap m \<Longrightarrow> entOk m' e = entOk m e"
  using entOk_mono[of m e m'] entOk_mono[of m' e m] heapsLe_same[of m' m] heapsLe_same[of m m'] by auto

definition silentPhase :: "phase \<Rightarrow> bool" where
  "silentPhase ph \<longleftrightarrow> ph \<noteq> PhaseOut"

lemma runJob_ok:
  assumes t: "tickOk m" and e: "mx_ents m eid = Some e" and w: "w < length (mx_workers m)"
  obtains e' m' where "runJob ph w eid m = Some m'" "jobStep eid e e' m m'" "ent_peers e' = ent_peers e"
    "silentPhase ph \<Longrightarrow> mx_emitted m' = mx_emitted m"
proof -
  have ok: "entOk m e" "heapFull m" "frameOk m" "envOk (mx_env m)" using t e by (auto simp: tickOk_def entsOk_def)
  have ms: "mixersOk (encCfg (mx_cfg m)) True (mx_workers m ! w)" using ok(3) w by (simp add: frameOk_def Let_def)
  show thesis
  proof (cases ph)
    case PhaseIn
    obtain e' m' where r: "phaseIn e m = Some (e', m')" "jobStep eid e e' m (setEnt m' e')" "mx_emitted m' = mx_emitted m" "ent_peers e' = ent_peers e"
      by (rule phaseIn_ok[OF t e])
    have "runJob ph w eid m = Some (setEnt m' e')" using e w PhaseIn r(1) by (simp add: runJob_def)
    then show thesis using that r by (simp add: mx_emitted_def setEnt_def)
  next
    case PhaseAcross
    obtain e' ms' where r: "phaseAcross e (mx_workers m ! w) m = Some (e', ms')" "entSame e e'" "entOk m e'" "mixersOk (encCfg (mx_cfg m)) True ms'" "ent_peers e' = ent_peers e"
      using phaseAcross_ok[OF t e ms] by metis
    let ?m = "m \<lparr> mx_workers := (mx_workers m)[w := ms'] \<rparr>"
    have "runJob ph w eid m = Some (setEnt ?m e')" using e w PhaseAcross r(1) by (simp add: runJob_def)
    moreover have "jobStep eid e e' m (setEnt ?m e')"
      by (rule jobStep_setEnt[OF t e r(2,3)]) (use frameOk_worker[OF ok(3) r(4) w] ok(2) in \<open>simp_all add: mx_control_def heapsLe_def heapFull_def\<close>)
    ultimately show thesis using that r(5) by (simp add: mx_emitted_def setEnt_def)
  next
    case PhaseOut
    obtain enc k where o: "outSink e m = Some (e \<lparr> ent_enc := enc \<rparr>, m \<lparr> mx_sinks := k \<rparr>)" "encFor (mx_fixed m) (ent_slot e) True enc"
      "encCore enc = encCore (ent_enc e)" using outSink_ok[OF ok(1,4)] by metis
    let ?e = "e \<lparr> ent_enc := enc \<rparr>" let ?m = "m \<lparr> mx_sinks := k \<rparr>"
    have "entOk m ?e" using ok(1) o(2) by (simp add: entOk_def)
    then have e1: "entOk ?m ?e" by (simp add: entOk_fields[of ?m m])
    obtain a k' where a: "outAmbi ?e ?m = Some (?e \<lparr> ent_ambiEnc := a \<rparr>, ?m \<lparr> mx_ambis := k' \<rparr>)" "entOk ?m (?e \<lparr> ent_ambiEnc := a \<rparr>)" "a = None \<longleftrightarrow> ent_ambiEnc ?e = None"
      using outAmbi_ok[OF e1] ok(4) by auto
    let ?e' = "?e \<lparr> ent_ambiEnc := a \<rparr>" let ?m' = "?m \<lparr> mx_ambis := k' \<rparr>"
    have "runJob ph w eid m = Some (setEnt ?m' ?e')" using e w PhaseOut o(1) a(1) by (simp add: runJob_def phaseOut_def)
    moreover have "jobStep eid e ?e' m (setEnt ?m' ?e')"
    proof (rule jobStep_setEnt[OF t e])
      show "entOk m ?e'" using a(2) by (simp add: entOk_fields[of ?m m])
      show "entSame e ?e'" using a(3) encCore_eqD[OF o(3)] by (simp add: entSame_def)
      show "frameOk ?m'" by (rule frameOk_same[OF ok(3)]) simp_all
    qed (use ok(2) in \<open>simp_all add: mx_control_def heapsLe_def heapFull_def\<close>)
    ultimately show thesis using that PhaseOut by (simp add: silentPhase_def)
  qed
qed

lemma dispatch_ok:
  assumes t: "tickOk m" and e: "mx_ents m eid = Some e"
  obtains e' m' where "dispatch ph eid m = Some m'" "jobStep eid e e' m m'" "ent_peers e' = ent_peers e" "silentPhase ph \<Longrightarrow> mx_emitted m' = mx_emitted m"
proof -
  have w: "mx_nextWork m < length (mx_workers m)" using t by (simp add: tickOk_def frameOk_def Let_def)
  obtain e' m1 where r: "runJob ph (mx_nextWork m) eid m = Some m1" "jobStep eid e e' m m1" "ent_peers e' = ent_peers e" "silentPhase ph \<Longrightarrow> mx_emitted m1 = mx_emitted m"
    by (rule runJob_ok[OF t e w, of ph]) blast
  let ?m = "m1 \<lparr> mx_nextWork := (mx_nextWork m1 + 1) mod length (mx_workers m1) \<rparr>"
  have "mx_nextWork m1 < length (mx_workers m1)" using r(2) by (simp add: jobStep_def frameOk_def Let_def)
  then have "0 < length (mx_workers m1)" by linarith
  then have "(mx_nextWork m1 + 1) mod length (mx_workers m1) < length (mx_workers m1)" by simp
  then have "frameOk ?m" using r(2) by (simp add: jobStep_def frameOk_def Let_def)
  moreover have "entOk ?m e'" using entOk_fields[of ?m m1 e'] r(2) by (simp add: jobStep_def)
  ultimately have "jobStep eid e e' m ?m" using r(2) by (simp add: jobStep_def mx_control_def heapsLe_def heapFull_def)
  moreover have "dispatch ph eid m = Some ?m" by (simp add: dispatch_def r(1))
  ultimately show thesis using that r(3,4) by (simp add: mx_emitted_def)
qed

text \<open>A whole phase: it completes, keeps every entity's identity and peers, and only the last one emits.\<close>

definition samePeers :: "'d Mixer \<Rightarrow> 'd Mixer \<Rightarrow> bool" where
  "samePeers m m' \<longleftrightarrow> dom (mx_ents m') = dom (mx_ents m) \<and> mx_slots m' = mx_slots m \<and> mx_control m' = mx_control m \<and>
     (\<forall>x e. mx_ents m x = Some e \<longrightarrow> (\<exists>e'. mx_ents m' x = Some e' \<and> entSame e e' \<and> ent_peers e' = ent_peers e))"

lemma samePeers_refl [simp]: "samePeers m m"
  by (auto simp: samePeers_def)

lemma samePeers_step: "samePeers m m1 \<Longrightarrow> jobStep eid e e' m1 m2 \<Longrightarrow> ent_peers e' = ent_peers e \<Longrightarrow> samePeers m m2"
proof -
  assume s: "samePeers m m1" and j: "jobStep eid e e' m1 m2" and p: "ent_peers e' = ent_peers e"
  have "\<exists>f'. mx_ents m2 x = Some f' \<and> entSame f f' \<and> ent_peers f' = ent_peers f" if x: "mx_ents m x = Some f" for x f
  proof -
    obtain f1 where f1: "mx_ents m1 x = Some f1" "entSame f f1" "ent_peers f1 = ent_peers f" using s x unfolding samePeers_def by blast
    show ?thesis
    proof (cases "x = eid")
      case True
      then have "mx_ents m2 x = Some e'" "entSame f e'" using j f1 entSame_trans[OF f1(2)] by (auto simp: jobStep_def)
      then show ?thesis using p f1 j True by (auto simp: jobStep_def)
    qed (use f1 j in \<open>auto simp: jobStep_def\<close>)
  qed
  moreover have "dom (mx_ents m2) = dom (mx_ents m)" using s j by (auto simp: samePeers_def jobStep_def)
  ultimately show "samePeers m m2" using s j by (simp add: samePeers_def jobStep_def)
qed

lemma runPhase_ok:
  assumes "tickOk m" "set ids \<subseteq> dom (mx_ents m)"
  obtains m' where "runPhase ph ids m = Some m'" "tickOk m'" "samePeers m m'" "silentPhase ph \<Longrightarrow> mx_emitted m' = mx_emitted m"
proof -
  let ?P = "\<lambda>m'. tickOk m' \<and> samePeers m m' \<and> (silentPhase ph \<longrightarrow> mx_emitted m' = mx_emitted m)"
  have "\<exists>m'. foldO (dispatch ph) ids m = Some m' \<and> ?P m'"
  proof (rule foldO_inv)
    show "?P m" using assms(1) by simp
    fix eid m1 assume eid: "eid \<in> set ids" and P: "?P m1"
    have "eid \<in> dom (mx_ents m1)" using eid P assms(2) by (auto simp only: samePeers_def)
    then obtain e where e: "mx_ents m1 eid = Some e" by blast
    obtain e' m2 where d: "dispatch ph eid m1 = Some m2" "jobStep eid e e' m1 m2" "ent_peers e' = ent_peers e" "silentPhase ph \<Longrightarrow> mx_emitted m2 = mx_emitted m1"
      using dispatch_ok[OF conjunct1[OF P] e, of ph] by metis
    then show "\<exists>m2. dispatch ph eid m1 = Some m2 \<and> ?P m2" using jobStep_ok(1)[OF d(2)] samePeers_step[OF _ d(2,3)] P by metis
  qed
  then show thesis using that by (auto simp: runPhase_def)
qed

end
