(* ===== verification/Mixer_Sinks.thy ===== *)
theory Mixer_Sinks
  imports Mixer_Safety
begin

text \<open>
  Release of the sinks' C resources. A binaural sink is at any time in exactly one of three places: released,
  attached to an entity, or waiting in a queued attach. The accounting is kept by every step, so a
  sink is released exactly once, and after \<^verbatim>\<open>Close\<close> all are. For ambisonic sinks the same accounting
  fails: removing the binaural sink of an entity without a source drops the entity with its
  ambisonic sinks still attached.
\<close>

section \<open>Where a sink is\<close>

definition sinkOf :: "'d Mixer \<Rightarrow> string \<Rightarrow> nat option" where
  "sinkOf m x = Option.bind (mx_ents m x) ent_sink"

definition holders :: "(string \<Rightarrow> nat option) \<Rightarrow> nat \<Rightarrow> nat" where
  "holders f h = card {x. f x = Some h}"

fun pendingSinks :: "change list \<Rightarrow> nat list" where
  "pendingSinks [] = []"
| "pendingSinks (ChAddSink eid k # cs) = k # pendingSinks cs"
| "pendingSinks (c # cs) = pendingSinks cs"

definition unit_of :: "bool \<Rightarrow> nat" where
  "unit_of b = (if b then 1 else 0)"

lemma holders_upd:
  assumes "finite (dom f)"
  shows "holders (f(x := v)) h + unit_of (f x = Some h) = holders f h + unit_of (v = Some h)"
proof -
  have fin: "finite {y. f y = Some h}" by (rule finite_subset[OF _ assms]) auto
  let ?A = "{y. f y = Some h} - {x}"
  have A: "finite ?A" "x \<notin> ?A" using fin by auto
  have "{y. (f(x := v)) y = Some h} = (if v = Some h then insert x ?A else ?A)" by auto
  moreover have "{y. f y = Some h} = (if f x = Some h then insert x ?A else ?A)" by auto
  ultimately show ?thesis using A card_insert_disjoint[OF A] by (simp add: holders_def unit_of_def split: if_splits)
qed

lemma pendingSinks_append: "pendingSinks (cs @ ds) = pendingSinks cs @ pendingSinks ds"
  by (induction cs rule: pendingSinks.induct) auto

lemma count_snoc [simp]: "count_list (xs @ [k]) h = count_list xs h + unit_of (k = h)"
  by (simp add: unit_of_def)

definition tally :: "'d Mixer \<Rightarrow> nat \<Rightarrow> nat" where
  "tally m h = count_list (mx_destroyed m) h + holders (sinkOf m) h"

lemma sinkOf_upd: "mx_ents m' = (mx_ents m)(x := v) \<Longrightarrow> sinkOf m' = (sinkOf m)(x := Option.bind v ent_sink)"
  by (auto simp: sinkOf_def fun_eq_iff)

lemma tally_same: "mx_ents m' = (mx_ents m)(x := v) \<Longrightarrow> Option.bind v ent_sink = sinkOf m x \<Longrightarrow>
    mx_destroyed m' = mx_destroyed m \<Longrightarrow> tally m' h = tally m h"
  using sinkOf_upd[of m' m x v] by (simp add: tally_def)

lemma audio_finite:
  assumes "audioOk m \<sigma>"
  shows "finite (dom (sinkOf m))"
proof -
  have "dom (sinkOf m) \<subseteq> dom (mx_ents m)" by (auto simp: sinkOf_def bind_eq_Some_conv)
  also have "\<dots> \<subseteq> dom \<sigma>" by (rule agree_dom) (rule audio_agree[OF assms])
  finally show ?thesis using audio_bound[OF assms] finite_subset by (auto simp: regBound_def)
qed

text \<open>The entity an add yields has the sink the mixer had under that id.\<close>

lemma ensure_sink:
  assumes a: "audioOk m \<sigma>" and ad: "admitted (length (mx_slots m)) \<sigma> eid P"
  obtains e u sl where "ensureEntity m eid = Inr (e, m \<lparr> mx_nextUid := u, mx_ents := (mx_ents m)(eid \<mapsto> e), mx_slots := sl \<rparr>)"
    "ent_id e = eid" "ent_sink e = sinkOf m eid"
proof -
  obtain e u sl where en: "ensureEntity m eid = Inr (e, m \<lparr> mx_nextUid := u, mx_ents := (mx_ents m)(eid \<mapsto> e), mx_slots := sl \<rparr>)"
    "slotsOk ((mx_ents m)(eid \<mapsto> e)) sl" "case mx_ents m eid of Some e' \<Rightarrow> e = e' | None \<Rightarrow> \<exists>slot. newEntity m eid (mx_nextUid m) slot = Inr e"
    using ensureEntity_spec[OF a ad] by metis
  have "ent_id e = eid" using slotsOk_ent(1)[OF en(2), of eid e] by simp
  moreover have "ent_sink e = sinkOf m eid"
    using en(3) by (cases "mx_ents m eid") (auto simp: sinkOf_def dest: newEntity_fields(5))
  ultimately show thesis using that en(1) by blast
qed

lemma no_sink:
  assumes "audioOk m \<sigma>" "admitted n \<sigma> eid (\<lambda>re. re_sink re \<noteq> None)"
  shows "sinkOf m eid = None"
  using audio_agree[OF assms(1), of eid] assms(2)
  by (cases "\<sigma> eid"; cases "mx_ents m eid") (auto simp: admitted_def sinkOf_def)

lemma tally_frame: "mx_ents m' = mx_ents m \<Longrightarrow> mx_destroyed m' = mx_destroyed m \<Longrightarrow> tally m' h = tally m h"
  using tally_same[of m' m x "mx_ents m x" for x] by (simp add: tally_def sinkOf_def[abs_def])

lemma tally_AddSource:
  fixes m :: "'d Mixer"
  assumes a: "audioOk m \<sigma>" and v: "chValid (length (mx_slots m)) \<sigma> (ChAddSource eid ref pose hf grp)" and ap: "applyChange (ChAddSource eid ref pose hf grp) m = Inr m'"
  shows "tally m' h = tally m h + count_list (pendingSinks [ChAddSource eid ref pose hf grp]) h"
proof -
  have ad: "admitted (length (mx_slots m)) \<sigma> eid (\<lambda>re. re_src re \<noteq> None)" using v by simp
  obtain e u sl where e: "ensureEntity m eid = Inr (e, m \<lparr> mx_nextUid := u, mx_ents := (mx_ents m)(eid \<mapsto> e), mx_slots := sl \<rparr>)"
    "ent_id e = eid" "ent_sink e = sinkOf m eid" using ensure_sink[OF a ad] by metis
  let ?e = "e \<lparr> ent_src := Some ref, ent_enc := SetHeadFrameSource (SetPosition (ent_enc e) (position pose)) hf \<rparr>"
  have "mx_ents m' = (mx_ents m)(eid := Some ?e)" "mx_destroyed m' = mx_destroyed m"
    using ap e(1,2) by (auto simp: Let_def setEnt_def markAudibleDirty_def split: option.splits)
  then show ?thesis using tally_same[of m' m eid "Some ?e"] e(3) by simp
qed

lemma tally_AddSink:
  fixes m :: "'d Mixer"
  assumes a: "audioOk m \<sigma>" and v: "chValid (length (mx_slots m)) \<sigma> (ChAddSink eid k)" and ap: "applyChange (ChAddSink eid k) m = Inr m'"
  shows "tally m' h = tally m h + count_list (pendingSinks [ChAddSink eid k]) h"
proof -
  have ad: "admitted (length (mx_slots m)) \<sigma> eid (\<lambda>re. re_sink re \<noteq> None)" using v by simp
  obtain e u sl where e: "ensureEntity m eid = Inr (e, m \<lparr> mx_nextUid := u, mx_ents := (mx_ents m)(eid \<mapsto> e), mx_slots := sl \<rparr>)"
    "ent_id e = eid" using ensure_sink[OF a ad] by metis
  have "mx_ents m' = (mx_ents m)(eid := Some (e \<lparr> ent_sink := Some k \<rparr>))" and d: "mx_destroyed m' = mx_destroyed m"
    using ap e by (auto simp: setEnt_def markAudibleDirty_def)
  then have "sinkOf m' = (sinkOf m)(eid := Some k)" using sinkOf_upd by fastforce
  then show ?thesis using holders_upd[OF audio_finite[OF a], of eid "Some k" h] no_sink[OF a ad] d
    by (auto simp: tally_def unit_of_def)
qed

lemma tally_AddAmbi:
  fixes m :: "'d Mixer"
  assumes a: "audioOk m \<sigma>" and v: "chValid (length (mx_slots m)) \<sigma> (ChAddAmbi eid order k)" and ap: "applyChange (ChAddAmbi eid order k) m = Inr m'"
  shows "tally m' h = tally m h + count_list (pendingSinks [ChAddAmbi eid order k]) h"
proof -
  have ad: "admitted (length (mx_slots m)) \<sigma> eid (\<lambda>re. map_of (re_ambi re) order \<noteq> None)" using v by simp
  obtain e u sl where e: "ensureEntity m eid = Inr (e, m \<lparr> mx_nextUid := u, mx_ents := (mx_ents m)(eid \<mapsto> e), mx_slots := sl \<rparr>)"
    "ent_id e = eid" "ent_sink e = sinkOf m eid" using ensure_sink[OF a ad] by metis
  have "\<exists>e'. mx_ents m' = (mx_ents m)(eid := Some e') \<and> ent_sink e' = ent_sink e" "mx_destroyed m' = mx_destroyed m"
    using ap e(1,2) by (auto simp: setEnt_def markAudibleDirty_def ensureAmbiEncoder_fields(1,4) split: sum.splits)
  then show ?thesis using tally_same[of m' m eid] e(3) by fastforce
qed

lemma tally_RemoveSource:
  fixes m :: "'d Mixer"
  assumes a: "audioOk m \<sigma>" and v: "chValid (length (mx_slots m)) \<sigma> (ChRemoveSource eid)" and ap: "applyChange (ChRemoveSource eid) m = Inr m'"
  shows "tally m' h = tally m h + count_list (pendingSinks [ChRemoveSource eid]) h"
proof (cases "mx_ents m eid")
  case (Some e)
  note i = audio_ent[OF a Some]
  have "\<exists>e'. mx_ents m' = (mx_ents m)(eid := e') \<and> Option.bind e' ent_sink = ent_sink e" "mx_destroyed m' = mx_destroyed m"
    using ap Some i by (auto simp: Let_def setEnt_def removeEntity_def markAudibleDirty_def leaveGroup_frame split: option.splits if_splits)
  then show ?thesis using tally_same[of m' m eid] Some by (fastforce simp: sinkOf_def)
qed (use ap in simp)

lemma tally_RemoveSink:
  fixes m :: "'d Mixer"
  assumes a: "audioOk m \<sigma>" and v: "chValid (length (mx_slots m)) \<sigma> (ChRemoveSink eid)" and ap: "applyChange (ChRemoveSink eid) m = Inr m'"
  shows "tally m' h = tally m h + count_list (pendingSinks [ChRemoveSink eid]) h"
proof (cases "sinkOf m eid")
  case None
  then have "m' = m" using ap by (auto simp: sinkOf_def split: option.splits)
  then show ?thesis by simp
next
  case (Some k)
  then obtain e where e: "mx_ents m eid = Some e" "ent_sink e = Some k" by (auto simp: sinkOf_def bind_eq_Some_conv)
  note i = audio_ent[OF a e(1)]
  have "\<exists>e'. mx_ents m' = (mx_ents m)(eid := e') \<and> Option.bind e' ent_sink = None" and d: "mx_destroyed m' = mx_destroyed m @ [k]"
    using ap e i by (auto simp: Let_def setEnt_def removeEntity_def markAudibleDirty_def split: if_splits)
  then have "sinkOf m' = (sinkOf m)(eid := None)" using sinkOf_upd by metis
  then show ?thesis using holders_upd[OF audio_finite[OF a], of eid None h] Some d
    by (auto simp: tally_def unit_of_def)
qed

lemma tally_RemoveAmbi:
  fixes m :: "'d Mixer"
  assumes a: "audioOk m \<sigma>" and v: "chValid (length (mx_slots m)) \<sigma> (ChRemoveAmbi eid order)" and ap: "applyChange (ChRemoveAmbi eid order) m = Inr m'"
  shows "tally m' h = tally m h + count_list (pendingSinks [ChRemoveAmbi eid order]) h"
proof (cases "mx_ents m eid")
  case (Some e)
  note i = audio_ent[OF a Some]
  have "\<exists>e'. mx_ents m' = (mx_ents m)(eid := e') \<and> Option.bind e' ent_sink = ent_sink e" "mx_destroyed m' = mx_destroyed m"
    using ap Some i by (auto simp: Let_def setEnt_def removeEntity_def markAudibleDirty_def split: option.splits if_splits)
  then show ?thesis using tally_same[of m' m eid] Some by (fastforce simp: sinkOf_def)
qed (use ap in simp)

lemma tally_Params:
  fixes m :: "'d Mixer"
  assumes a: "audioOk m \<sigma>" and v: "chValid (length (mx_slots m)) \<sigma> (ChParams eid p)" and ap: "applyChange (ChParams eid p) m = Inr m'"
  shows "tally m' h = tally m h + count_list (pendingSinks [ChParams eid p]) h"
proof (cases "mx_ents m eid")
  case (Some e)
  have "\<exists>e'. mx_ents m' = (mx_ents m)(eid := Some e') \<and> ent_sink e' = ent_sink e" "mx_destroyed m' = mx_destroyed m"
    using ap Some audio_ent[OF a Some] by (auto simp: setEnt_def markAudibleDirty_def)
  then show ?thesis using tally_same[of m' m eid] Some by (fastforce simp: sinkOf_def)
qed (use ap in simp)

lemma tally_EntityMuted:
  fixes m :: "'d Mixer"
  assumes a: "audioOk m \<sigma>" and v: "chValid (length (mx_slots m)) \<sigma> (ChEntityMuted eid b)" and ap: "applyChange (ChEntityMuted eid b) m = Inr m'"
  shows "tally m' h = tally m h + count_list (pendingSinks [ChEntityMuted eid b]) h"
proof (cases "mx_ents m eid")
  case (Some e)
  have "\<exists>e'. mx_ents m' = (mx_ents m)(eid := Some e') \<and> ent_sink e' = ent_sink e" "mx_destroyed m' = mx_destroyed m"
    using ap Some audio_ent[OF a Some] by (auto simp: setEnt_def)
  then show ?thesis using tally_same[of m' m eid] Some by (fastforce simp: sinkOf_def)
qed (use ap in simp)

lemma applyChange_tally:
  assumes "audioOk m \<sigma>" "chValid (length (mx_slots m)) \<sigma> c" "applyChange c m = Inr m'"
  shows "tally m' h = tally m h + count_list (pendingSinks [c]) h"
proof (cases c)
  case (ChAddSource eid ref pose hf grp)
  show ?thesis using tally_AddSource[OF assms[unfolded ChAddSource]] unfolding ChAddSource .
next
  case (ChAddSink eid k)
  show ?thesis using tally_AddSink[OF assms[unfolded ChAddSink]] unfolding ChAddSink .
next
  case (ChAddAmbi eid order k)
  show ?thesis using tally_AddAmbi[OF assms[unfolded ChAddAmbi]] unfolding ChAddAmbi .
next
  case (ChRemoveSource eid)
  show ?thesis using tally_RemoveSource[OF assms[unfolded ChRemoveSource]] unfolding ChRemoveSource .
next
  case (ChRemoveSink eid)
  show ?thesis using tally_RemoveSink[OF assms[unfolded ChRemoveSink]] unfolding ChRemoveSink .
next
  case (ChRemoveAmbi eid order)
  show ?thesis using tally_RemoveAmbi[OF assms[unfolded ChRemoveAmbi]] unfolding ChRemoveAmbi .
next
  case (ChParams eid p)
  show ?thesis using tally_Params[OF assms[unfolded ChParams]] unfolding ChParams .
next
  case (ChEntityMuted eid b)
  show ?thesis using tally_EntityMuted[OF assms[unfolded ChEntityMuted]] unfolding ChEntityMuted .
qed (use assms(3) in \<open>auto simp: markAudibleDirty_def intro!: tally_frame\<close>)

lemma applyAll_tally:
  "audioOk m \<sigma> \<Longrightarrow> queueOk (length (mx_slots m)) \<sigma> cs \<Longrightarrow> applyAll cs m = Inr m' \<Longrightarrow>
    tally m' h = tally m h + count_list (pendingSinks cs) h"
proof (induction cs arbitrary: m \<sigma>)
  case (Cons c cs)
  obtain m1 where m1: "applyChange c m = Inr m1" "audioOk m1 (replay c \<sigma>)" "mx_control m1 = mx_control m"
    using applyChange_ok[of m \<sigma> c] Cons.prems(1,2) by (auto simp: changeOk_def)
  have l: "length (mx_slots m1) = length (mx_slots m)" using m1(2,3) Cons.prems(1) by (auto simp: audioOk_def mx_control_def)
  have "tally m' h = tally m1 h + count_list (pendingSinks cs) h"
    using Cons.IH[OF m1(2)] Cons.prems(2,3) m1(1) l by simp
  moreover have "tally m1 h = tally m h + count_list (pendingSinks [c]) h"
    using applyChange_tally[OF Cons.prems(1) _ m1(1)] Cons.prems(2) by simp
  moreover have "pendingSinks (c # cs) = pendingSinks [c] @ pendingSinks cs" using pendingSinks_append[of "[c]" cs] by simp
  ultimately show ?case by simp
qed simp

section \<open>The accounting of a run\<close>

definition sinkInv :: "'d Mixer \<Rightarrow> bool" where
  "sinkInv m \<longleftrightarrow> (\<forall>h. tally m h + count_list (pendingSinks (mx_changes m)) h = unit_of (h < mx_nextSink m)) \<and>
     (mx_stopped m \<longrightarrow> mx_closed m \<and> (\<forall>x. sinkOf m x = None) \<and> pendingSinks (mx_changes m) = [])"

text \<open>Steps that queue nothing for a sink and touch no sink.\<close>

lemma sinkInv_frame:
  assumes "sinkInv m" "mx_ents m' = mx_ents m" "mx_destroyed m' = mx_destroyed m" "mx_nextSink m' = mx_nextSink m"
    "pendingSinks (mx_changes m') = pendingSinks (mx_changes m)" "mx_stopped m' = mx_stopped m" "mx_closed m' = mx_closed m"
  shows "sinkInv m'"
  using assms tally_frame[of m' m] by (simp add: sinkInv_def sinkOf_def)

lemma sinkInv_enqueue: "sinkInv m \<Longrightarrow> pendingSinks [c] = [] \<Longrightarrow> sinkInv (enqueue m c)"
  by (rule sinkInv_frame[of m]) (simp_all add: enqueue_def pendingSinks_append)

lemma AddSink_sinkInv:
  assumes "sinkInv m" "noPanic (AddSink m eid) = Inr m'"
  shows "sinkInv m'"
proof -
  let ?k = "mx_nextSink m" let ?m = "m \<lparr> mx_nextSink := ?k + 1 \<rparr>"
  have u: "unit_of (h < ?k + 1) = unit_of (h < ?k) + unit_of (?k = h)" for h by (auto simp: unit_of_def)
  have t: "tally m h + count_list (pendingSinks (mx_changes m)) h = unit_of (h < ?k)" for h using assms(1) by (simp add: sinkInv_def)
  show ?thesis
  proof (cases "admit ?m eid (\<lambda>re. re_sink re \<noteq> None) ErrDuplicateSink (\<lambda>re. re \<lparr> re_sink := Some ?k \<rparr>)")
    case (Inl e)
    then have m': "m' = ?m \<lparr> mx_destroyed := mx_destroyed m @ [?k] \<rparr>" using assms(2) by (simp add: AddSink_def Let_def)
    have "tally m' h = tally m h + unit_of (?k = h)" for h by (simp add: m' tally_def sinkOf_def[abs_def] unit_of_def)
    then show ?thesis using assms(1) t u by (simp add: sinkInv_def m' sinkOf_def ac_simps)
  next
    case (Inr m1)
    then have m1: "mx_ents m1 = mx_ents m" "mx_destroyed m1 = mx_destroyed m" "mx_nextSink m1 = ?k + 1" "mx_changes m1 = mx_changes m"
      "mx_stopped m1 = mx_stopped m" "\<not> mx_closed m" by (auto simp: admit_def split: if_splits option.splits)
    have m': "m' = enqueue m1 (ChAddSink eid ?k)" using assms(2) Inr by (simp add: AddSink_def Let_def)
    have "tally m' h = tally m h" for h by (rule tally_frame) (simp_all add: m' m1 enqueue_def)
    then show ?thesis using assms(1) m1 t u
      by (auto simp: sinkInv_def m' enqueue_def pendingSinks_append unit_of_def add.assoc[symmetric])
  qed
qed

lemma AddSource_frame:
  assumes "noPanic (AddSource cd m eid cfg0) = Inr m'"
  shows "mx_ents m' = mx_ents m" "mx_destroyed m' = mx_destroyed m" "mx_nextSink m' = mx_nextSink m"
    "pendingSinks (mx_changes m') = pendingSinks (mx_changes m)" "mx_stopped m' = mx_stopped m" "mx_closed m' = mx_closed m"
proof -
  obtain m1 r where b: "buildSource cd m eid (applyDefaults cfg0) = (m1, r)" by fastforce
  note f = nogroup_fields[OF buildSource_nogroup[OF b]]
  have "mx_ents m' = mx_ents m1 \<and> mx_destroyed m' = mx_destroyed m1 \<and> mx_nextSink m' = mx_nextSink m1 \<and>
    pendingSinks (mx_changes m') = pendingSinks (mx_changes m1) \<and> mx_stopped m' = mx_stopped m1 \<and> mx_closed m' = mx_closed m1"
    using assms b by (cases r) (auto simp: AddSource_eq Let_def admit_def enqueue_def joinGroup_def pendingSinks_append
        split: sum.splits if_splits option.splits)
  then show "mx_ents m' = mx_ents m" "mx_destroyed m' = mx_destroyed m" "mx_nextSink m' = mx_nextSink m"
    "pendingSinks (mx_changes m') = pendingSinks (mx_changes m)" "mx_stopped m' = mx_stopped m" "mx_closed m' = mx_closed m"
    using f by (simp_all add: mx_control_def)
qed

lemma AddAmbi_frame:
  assumes "noPanic (AddAmbiSink ms m eid order) = Inr m'"
  shows "mx_ents m' = mx_ents m" "mx_destroyed m' = mx_destroyed m" "mx_nextSink m' = mx_nextSink m"
    "pendingSinks (mx_changes m') = pendingSinks (mx_changes m)" "mx_stopped m' = mx_stopped m" "mx_closed m' = mx_closed m"
  using assms by (auto simp: AddAmbiSink_def Let_def admit_def enqueue_def pendingSinks_append split: sum.splits if_splits option.splits)

lemma drain_sinkInv:
  assumes "sinkInv m" "liveOk m" "drainChanges m = Inr m'" "ctlOk m" "\<not> mx_stopped m"
  shows "sinkInv m'"
proof -
  obtain \<sigma> where s: "audioOk m \<sigma>" "queueOk (length (mx_slots m)) \<sigma> (mx_changes m)" using assms(2) by (auto simp: liveOk_def)
  have t: "tally m' h = tally (m \<lparr> mx_changes := [] \<rparr>) h + count_list (pendingSinks (mx_changes m)) h" for h
    by (rule applyAll_tally[of _ \<sigma>]) (use s assms(3) in \<open>simp_all add: drainChanges_def\<close>)
  moreover have "tally (m \<lparr> mx_changes := [] \<rparr>) h = tally m h" for h by (rule tally_frame) simp_all
  moreover have "mx_changes m' = []" "mx_nextSink m' = mx_nextSink m" "mx_stopped m' = mx_stopped m"
    using drain_inv[OF assms(4,2)] assms(3) by (auto simp: mx_control_def)
  ultimately show ?thesis using assms(1,5) by (simp add: sinkInv_def)
qed

text \<open>Closing: every attached sink moves from its entity to the released ones.\<close>

definition idsOk :: "'d Mixer \<Rightarrow> bool" where
  "idsOk m \<longleftrightarrow> (\<forall>x e. mx_ents m x = Some e \<longrightarrow> ent_id e = x)"

lemma closeSlot_tally:
  assumes "idsOk m" "finite (dom (sinkOf m))"
  shows "tally (closeSlot m s) h = tally m h" "idsOk (closeSlot m s)" "finite (dom (sinkOf (closeSlot m s)))"
    "sinkOf (closeSlot m s) x = (if s = Some x then None else sinkOf m x)"
proof -
  have "tally (closeSlot m s) h = tally m h \<and> idsOk (closeSlot m s) \<and> (\<forall>x. sinkOf (closeSlot m s) x = (if s = Some x then None else sinkOf m x))"
  proof (cases "Option.bind s (mx_ents m)")
    case None
    then have "closeSlot m s = m" by (simp add: closeSlot_def)
    moreover have "sinkOf m x = None" if "s = Some x" for x using None that by (simp add: sinkOf_def)
    ultimately show ?thesis using assms(1) by simp
  next
    case (Some e)
    then obtain y where y: "s = Some y" "mx_ents m y = Some e" by (auto simp: bind_eq_Some_conv)
    have i: "ent_id e = y" using assms(1) y(2) by (simp add: idsOk_def)
    let ?e = "e \<lparr> ent_sink := None, ent_ambiSinks := [], ent_ambiEnc := None \<rparr>"
    have c: "mx_ents (closeSlot m s) = (mx_ents m)(y := Some ?e)"
      "mx_destroyed (closeSlot m s) = mx_destroyed m @ (case ent_sink e of None \<Rightarrow> [] | Some k \<Rightarrow> [k])"
      using Some i by (auto simp: closeSlot_def setEnt_def)
    have s: "sinkOf (closeSlot m s) = (sinkOf m)(y := None)" using sinkOf_upd[OF c(1)] by simp
    moreover have "sinkOf m y = ent_sink e" using y(2) by (simp add: sinkOf_def)
    ultimately have "tally (closeSlot m s) h = tally m h"
      using holders_upd[OF assms(2), of y None h] c(2) by (auto simp: tally_def unit_of_def split: option.splits)
    moreover have "idsOk (closeSlot m s)" using assms(1) i by (simp add: idsOk_def c(1))
    ultimately show ?thesis using s y(1) by simp
  qed
  then show "tally (closeSlot m s) h = tally m h" "idsOk (closeSlot m s)" and
    s: "sinkOf (closeSlot m s) x = (if s = Some x then None else sinkOf m x)" by auto
  have "dom (sinkOf (closeSlot m s)) \<subseteq> dom (sinkOf m)"
    using \<open>_ \<and> _ \<and> (\<forall>x. _)\<close> by (metis (no_types, lifting) domIff subsetI)
  then show "finite (dom (sinkOf (closeSlot m s)))" using assms(2) finite_subset by blast
qed

lemma closeAll_tally:
  assumes "idsOk m" "finite (dom (sinkOf m))"
  shows "tally (foldl closeSlot m ss) h = tally m h \<and>
    (\<forall>x. sinkOf (foldl closeSlot m ss) x = (if Some x \<in> set ss then None else sinkOf m x))"
  using assms
proof (induction ss arbitrary: m)
  case (Cons s ss)
  note c = closeSlot_tally[OF Cons.prems, of s]
  from Cons.IH[OF c(2,3)] show ?case using c(1,4) by auto
qed simp

lemma Close_sinkInv:
  assumes "sinkInv m" "mxInv m" "Close m = Inr m'"
  shows "sinkInv m'"
proof (cases "mx_stopped m")
  case True
  then have "m' = m \<lparr> mx_closed := True \<rparr>" using assms(3) by (simp add: Close_def Let_def)
  then show ?thesis using assms(1) True tally_frame[of m' m] by (auto simp: sinkInv_def sinkOf_def)
next
  case False
  let ?m = "m \<lparr> mx_closed := True, mx_stopped := True \<rparr>"
  have l: "ctlOk ?m" "liveOk ?m" using assms(2) False by (auto simp: mxInv_def ctlOk_def liveOk_def)
  obtain m1 where m1: "drainChanges ?m = Inr m1" "audioOk m1 (mx_reg ?m)" "mx_control m1 = mx_control (?m \<lparr> mx_changes := [] \<rparr>)"
    using drain_inv[OF l] by blast
  have m': "m' = foldl closeSlot m1 (mx_slots m1)" using assms(3) False m1(1) by (simp add: Close_def Let_def)
  obtain \<sigma> where s: "audioOk ?m \<sigma>" "queueOk (length (mx_slots ?m)) \<sigma> (mx_changes ?m)" using l(2) by (auto simp: liveOk_def)
  have t: "tally m1 h = tally (?m \<lparr> mx_changes := [] \<rparr>) h + count_list (pendingSinks (mx_changes ?m)) h" for h
    by (rule applyAll_tally[of _ \<sigma>]) (use s m1(1) in \<open>simp_all add: drainChanges_def\<close>)
  have t0: "tally (?m \<lparr> mx_changes := [] \<rparr>) h = tally m h" for h by (rule tally_frame) simp_all
  have ids: "idsOk m1" using audio_ent[OF m1(2)] by (auto simp: idsOk_def)
  note c = closeAll_tally[OF ids audio_finite[OF m1(2)], of "mx_slots m1"]
  have k: "mx_control m' = mx_control (?m \<lparr> mx_changes := [] \<rparr>)" using closeAll_control[of m1] m1(3) m' by simp
  have none: "sinkOf m' x = None" for x
  proof (cases "mx_ents m1 x")
    case (Some e)
    have "slotsOk (mx_ents m1) (mx_slots m1)" using m1(2) by (simp add: audioOk_def)
    from slotsOk_ent[OF this Some] have "Some x \<in> set (mx_slots m1)" by (metis nth_mem)
    then show ?thesis using c m' by simp
  next
    case None
    then show ?thesis using c m' by (simp add: sinkOf_def)
  qed
  have "tally m' h = unit_of (h < mx_nextSink m')" for h
    using t t0 c m' assms(1) k by (simp add: sinkInv_def mx_control_def)
  then show ?thesis using none k by (simp add: sinkInv_def mx_control_def)
qed

lemma mx_step_sinkInv:
  assumes "sinkInv m" "mxInv m" "mx_step cd ms op m = Inr m'"
  shows "sinkInv m'"
proof (cases op)
  case (MAddSource eid cfg)
  then have "noPanic (AddSource cd m eid cfg) = Inr m'" using assms(3) by simp
  then show ?thesis by (intro sinkInv_frame[OF assms(1)]) (rule AddSource_frame, assumption)+
next
  case (MAddSink eid)
  then show ?thesis using AddSink_sinkInv[OF assms(1)] assms(3) by simp
next
  case (MAddAmbiSink eid order)
  then have "noPanic (AddAmbiSink ms m eid order) = Inr m'" using assms(3) by simp
  then show ?thesis by (intro sinkInv_frame[OF assms(1)]) (rule AddAmbi_frame, assumption)+
next
  case MDrain
  then show ?thesis using drain_sinkInv[OF assms(1)] assms by (auto simp: mxInv_def split: if_splits)
next
  case MClose
  then show ?thesis using Close_sinkInv[OF assms(1,2)] assms(3) by simp
qed (use assms(1,3) in \<open>auto simp: RemoveSource_eq RemoveSink_def RemoveAmbiSink_def SetRenderParams_def SetChannel_def
    SetPersonalMute_def SetPersonalSolo_def SetEntityMuted_def release_def intro!: sinkInv_enqueue
    elim!: sinkInv_frame split: option.splits if_splits\<close>)

lemma mx_exec_sinkInv:
  "sinkInv m \<Longrightarrow> mxInv m \<Longrightarrow> list_all (mx_op_ok cd) ops \<Longrightarrow> mx_exec cd ms ops m = Inr m' \<Longrightarrow> sinkInv m'"
proof (induction ops arbitrary: m)
  case (Cons op ops)
  obtain m1 where m1: "mx_step cd ms op m = Inr m1" "mxInv m1" using mx_step_inv[OF Cons.prems(2), of cd op ms] Cons.prems(3) by auto
  have "list_all (mx_op_ok cd) ops" "mx_exec cd ms ops m1 = Inr m'" using Cons.prems(3,4) m1(1) by simp_all
  from Cons.IH[OF mx_step_sinkInv[OF Cons.prems(1,2) m1(1)] m1(2) this] show ?case .
qed simp

lemma New_sinkInv: "New env banks cfg = Inr m \<Longrightarrow> sinkInv m"
  by (auto simp: New_def sinkInv_def tally_def holders_def sinkOf_def unit_of_def Let_def split: if_splits)

section \<open>Properties\<close>

text \<open>C28. The C resources of a binaural sink are released exactly once. In any run a sink handle handed out
  is released at most once, and never while it is attached to an entity or waiting to be; and when
  the mixer is closed, every handle ever handed out, refused ones included, has been released once.\<close>

theorem sinks_released_exactly_once:
  assumes "New env banks cfg = Inr m0" "delayModel env cfg" "list_all (mx_op_ok cd) ops" "mx_exec cd ms ops m0 = Inr m"
  shows "count_list (mx_destroyed m) h + holders (sinkOf m) h + count_list (pendingSinks (mx_changes m)) h
      = (if h < mx_nextSink m then 1 else 0) \<and>
    (mx_stopped m \<longrightarrow> count_list (mx_destroyed m) h = (if h < mx_nextSink m then 1 else 0))"
proof -
  have "sinkInv m" using mx_exec_sinkInv[OF New_sinkInv[OF assms(1)] _ assms(3,4)] New_inv[OF assms(1,2)] by simp
  then have "tally m h + count_list (pendingSinks (mx_changes m)) h = unit_of (h < mx_nextSink m)"
    "mx_stopped m \<Longrightarrow> holders (sinkOf m) h = 0 \<and> pendingSinks (mx_changes m) = []" by (auto simp: sinkInv_def holders_def)
  then show ?thesis by (auto simp: tally_def unit_of_def)
qed

theorem sinks_released_exactly_once_witness:
  "\<exists>m. mx_exec demo_codec (\<lambda>_. True) [MAddSink ''a'', MAddSink ''a'', MDrain, MClose] (demo_new_mixer 1) = Inr m \<and>
     mx_stopped m \<and> mx_nextSink m = 2 \<and> count_list (mx_destroyed m) 0 = 1 \<and> count_list (mx_destroyed m) 1 = 1"
proof -
  let ?ops = "[MAddSink ''a'', MAddSink ''a'', MDrain, MClose]"
  obtain m where m: "mx_exec demo_codec (\<lambda>_. True) ?ops (demo_new_mixer 1) = Inr m" "mx_stopped m" "mx_nextSink m = 2"
    by (simp add: demo_new_mixer_def New_def DefaultConfig_def AddSink_def admit_def enqueue_def emptyReg_def drainChanges_def
        ensureEntity_def newEntity_def listenerEncoder_def newEncoder_def demo_env_delays ensureAmbiEncoder_def Let_def setEnt_def markAudibleDirty_def Close_def closeSlot_def)
  have ok: "list_all (mx_op_ok demo_codec) ?ops" by simp
  from sinks_released_exactly_once[OF demo_mixer[of 0] demo_delayModel ok, of "\<lambda>_. True" m 0]
    sinks_released_exactly_once[OF demo_mixer[of 0] demo_delayModel ok, of "\<lambda>_. True" m 1] m
  show ?thesis by auto
qed

text \<open>Admission of a sink, on every branch: a closed mixer, a second sink on the same entity and a full
  mixer are refused with their own errors, in that order; a refused call leaves the registry and the
  queue alone and releases the sink at once; an accepted one registers the sink and queues exactly
  one change.\<close>

theorem AddSink_admission:
  assumes "AddSink m eid = (m', r)"
  shows "(if mx_closed m then r = Err ErrClosed
     else if (\<exists>re. mx_reg m eid = Some re \<and> re_sink re \<noteq> None) then r = Err ErrDuplicateSink
     else if mx_reg m eid = None \<and> mx_entityCount m \<ge> cf_MaxEntities (mx_cfg m) then r = Err ErrFull
     else r = Ret (mx_nextSink m)) \<and>
   (case r of
      Ret k \<Rightarrow> mx_changes m' = mx_changes m @ [ChAddSink eid k] \<and> map_option re_sink (mx_reg m' eid) = Some (Some k) \<and>
        mx_destroyed m' = mx_destroyed m
    | _ \<Rightarrow> mx_changes m' = mx_changes m \<and> mx_reg m' = mx_reg m \<and> mx_destroyed m' = mx_destroyed m @ [mx_nextSink m])"
  using assms by (auto simp: AddSink_def admit_def enqueue_def Let_def split: if_splits option.splits sum.splits outcome.splits)

theorem AddSink_admission_witness:
  "snd (AddSink (fst (AddSink (demo_new_mixer 1) ''a'')) ''b'') = Err ErrFull \<and>
   mx_destroyed (fst (AddSink (fst (AddSink (demo_new_mixer 1) ''a'')) ''b'')) = [1]"
proof -
  let ?m = "fst (AddSink (demo_new_mixer 1) ''a'')"
  obtain m' r where r: "AddSink ?m ''b'' = (m', r)" by fastforce
  have v: "\<not> mx_closed ?m" "mx_reg ?m ''b'' = None" "mx_entityCount ?m = 1" "cf_MaxEntities (mx_cfg ?m) = 1" "mx_nextSink ?m = 1" "mx_destroyed ?m = []"
    by (simp_all add: demo_new_mixer_def New_def DefaultConfig_def AddSink_def admit_def enqueue_def)
  from AddSink_admission[OF r] v show ?thesis unfolding r by auto
qed

text \<open>What closing releases: only ambisonic sinks some entity still holds.\<close>

definition heldAmbis :: "'d Mixer \<Rightarrow> nat set" where
  "heldAmbis m = {k. \<exists>y e. mx_ents m y = Some e \<and> k \<in> snd ` set (ent_ambiSinks e)}"

lemma closeSlot_ambis:
  "set (mx_ambiDestroyed (closeSlot m s)) \<subseteq> set (mx_ambiDestroyed m) \<union> heldAmbis m"
  "heldAmbis (closeSlot m s) \<subseteq> heldAmbis m"
  by (auto simp: heldAmbis_def closeSlot_def setEnt_def bind_eq_Some_conv split: option.splits if_splits)

lemma closeSlots_ambis: "set (mx_ambiDestroyed (foldl closeSlot m sl)) \<subseteq> set (mx_ambiDestroyed m) \<union> heldAmbis m"
proof (induction sl arbitrary: m)
  case (Cons s sl)
  show ?case using Cons.IH[of "closeSlot m s"] closeSlot_ambis[of m s] unfolding foldl_Cons by fast
qed simp

lemma Close_ambis:
  assumes "\<not> mx_stopped m" "mx_changes m = []" "Close m = Inr m'"
  shows "set (mx_ambiDestroyed m') \<subseteq> set (mx_ambiDestroyed m) \<union> heldAmbis m"
proof -
  let ?m = "m \<lparr> mx_closed := True, mx_stopped := True, mx_changes := [] \<rparr>"
  have "m' = foldl closeSlot ?m (mx_slots ?m)" using assms by (simp add: Close_def drainChanges_def)
  then show ?thesis using closeSlots_ambis[of ?m "mx_slots ?m"] by (simp add: heldAmbis_def)
qed

text \<open>C29. The ambisonic sinks of an entity that also has a binaural sink and no source are lost when the binaural sink is
  removed. In any mixer with nothing pending and such an entity, take any of its ambisonic sinks, registered, not yet released and
  held by no other entity. Once the removal is applied the entity is gone, so nothing renders the ambisonic sink any more, while it is still registered.
  Removing it then takes it out of the registry without releasing its encoder, and closing the mixer, with or without that removal, does not
  release it either.\<close>

theorem RemoveSink_loses_ambisonic_sinks:
  assumes "mx_changes m = []" "\<not> mx_stopped m" "mx_ents m x = Some e" "ent_id e = x" "ent_src e = None" "ent_sink e = Some k" "(order, j) \<in> set (ent_ambiSinks e)"
    "mx_reg m x = Some re" "re_sink re = Some k" "map_of (re_ambi re) order = Some j" "j \<notin> set (mx_ambiDestroyed m)"
    "\<And>y e'. mx_ents m y = Some e' \<Longrightarrow> j \<in> snd ` set (ent_ambiSinks e') \<Longrightarrow> y = x"
  shows "\<exists>m1 m2. drainChanges (RemoveSink m x) = Inr m1 \<and> mx_ents m1 x = None \<and> map_option (\<lambda>re. map_of (re_ambi re) order) (mx_reg m1 x) = Some (Some j) \<and>
    drainChanges (RemoveAmbiSink m1 x order) = Inr m2 \<and> (\<forall>re'. mx_reg m2 x = Some re' \<longrightarrow> map_of (re_ambi re') order = None) \<and>
    (\<forall>m3. Close m1 = Inr m3 \<or> Close m2 = Inr m3 \<longrightarrow> j \<notin> set (mx_ambiDestroyed m3))"
proof -
  let ?re = "re \<lparr> re_sink := None \<rparr>"
  have ne: "re_ambi re \<noteq> []" using assms(10) by auto
  then have "?re \<noteq> emptyReg" by (cases re) (auto simp: emptyReg_def)
  then have rs: "RemoveSink m x = enqueue (m \<lparr> mx_reg := (mx_reg m)(x \<mapsto> ?re) \<rparr>) (ChRemoveSink x)" using assms(8,9) by (simp add: RemoveSink_def release_def)
  obtain m1 where m1: "drainChanges (RemoveSink m x) = Inr m1" "mx_ents m1 = (mx_ents m)(x := None)" "mx_reg m1 = (mx_reg m)(x \<mapsto> ?re)" "mx_ambiDestroyed m1 = mx_ambiDestroyed m"
    "mx_changes m1 = []" "mx_stopped m1 = mx_stopped m"
    unfolding rs using assms(1,3-6) by (simp add: drainChanges_def enqueue_def setEnt_def removeEntity_def markAudibleDirty_def Let_def)
  define re2 where "re2 = ?re \<lparr> re_ambi := AList.delete order (re_ambi re) \<rparr>"
  have ra: "RemoveAmbiSink m1 x order = enqueue (release m1 x re2) (ChRemoveAmbi x order)" using m1(3) assms(10) by (simp add: RemoveAmbiSink_def re2_def)
  obtain m2 where m2: "drainChanges (RemoveAmbiSink m1 x order) = Inr m2" "mx_ents m2 = mx_ents m1" "mx_ambiDestroyed m2 = mx_ambiDestroyed m1" "mx_changes m2 = []" "mx_stopped m2 = mx_stopped m1"
    "mx_reg m2 x = (if re2 = emptyReg then None else Some re2)"
    unfolding ra using m1(2,5) by (cases "re2 = emptyReg") (simp_all add: drainChanges_def enqueue_def release_def)
  have gone: "j \<notin> set (mx_ambiDestroyed m3)" if "Close n = Inr m3" "\<not> mx_stopped n" "mx_changes n = []" "mx_ents n = (mx_ents m)(x := None)" "mx_ambiDestroyed n = mx_ambiDestroyed m" for n m3
    using Close_ambis[OF that(2,3,1)] that(4,5) assms(11,12) by (auto simp: heldAmbis_def split: if_splits)
  have "map_of (re_ambi re2) order = None" by (simp add: re2_def delete_conv)
  then show ?thesis using m1 m2 gone[of m1] gone[of m2] assms(2,10) by (intro exI[of _ m1] exI[of _ m2]) auto
qed

lemma demo_both_sinks:
  "\<exists>m :: unit Mixer. mx_exec demo_codec (\<lambda>_. True) [MAddAmbiSink ''a'' 2, MAddSink ''a'', MDrain] (demo_new_mixer 1) = Inr m \<and>
     mx_nextAmbi m = 1 \<and> mx_changes m = [] \<and> \<not> mx_stopped m \<and> mx_ambiDestroyed m = [] \<and> dom (mx_ents m) = {''a''} \<and>
     map_option (\<lambda>e. (ent_id e, ent_src e, ent_sink e, ent_ambiSinks e)) (mx_ents m ''a'') = Some (''a'', None, Some 0, [(2, 0)]) \<and>
     map_option (\<lambda>re. (re_sink re, re_ambi re)) (mx_reg m ''a'') = Some (Some 0, [(2, 0)])"
  by (simp add: demo_new_mixer_def New_def DefaultConfig_def AddSink_def AddAmbiSink_def
      release_def admit_def enqueue_def emptyReg_def drainChanges_def ensureEntity_def newEntity_def listenerEncoder_def newEncoder_def demo_env_delays ensureAmbiEncoder_def Let_def setEnt_def
      markAudibleDirty_def)

theorem RemoveSink_loses_ambisonic_sinks_witness:
  "\<exists>m m1 :: unit Mixer. mx_exec demo_codec (\<lambda>_. True) [MAddAmbiSink ''a'' 2, MAddSink ''a'', MDrain] (demo_new_mixer 1) = Inr m \<and> mx_nextAmbi m = 1 \<and>
     drainChanges (RemoveSink m ''a'') = Inr m1 \<and> mx_ents m1 ''a'' = None \<and> (\<forall>m3. Close m1 = Inr m3 \<longrightarrow> 0 \<notin> set (mx_ambiDestroyed m3))"
proof -
  obtain m :: "unit Mixer" and e re where m: "mx_exec demo_codec (\<lambda>_. True) [MAddAmbiSink ''a'' 2, MAddSink ''a'', MDrain] (demo_new_mixer 1) = Inr m" "mx_nextAmbi m = 1"
    and h: "mx_changes m = []" "\<not> mx_stopped m" "mx_ents m ''a'' = Some e" "ent_id e = ''a''" "ent_src e = None" "ent_sink e = Some 0" "(2, 0) \<in> set (ent_ambiSinks e)"
      "mx_reg m ''a'' = Some re" "re_sink re = Some 0" "map_of (re_ambi re) 2 = Some 0" "0 \<notin> set (mx_ambiDestroyed m)"
    and o: "dom (mx_ents m) = {''a''}"
    using demo_both_sinks by (auto simp: map_option_eq_Some)
  have "y = ''a''" if "mx_ents m y = Some e'" for y e' using that domI[of "mx_ents m" y e'] o by auto
  then obtain m1 where "drainChanges (RemoveSink m ''a'') = Inr m1" "mx_ents m1 ''a'' = None" "\<forall>m3. Close m1 = Inr m3 \<longrightarrow> 0 \<notin> set (mx_ambiDestroyed m3)"
    using RemoveSink_loses_ambisonic_sinks[OF h] by blast
  then show ?thesis using m by blast
qed

end
