(* ===== verification/Render_Run.thy ===== *)
theory Render_Run
  imports Render_Tick Mixer_Sinks
begin

text \<open>
  Runs of the whole engine: control calls, poses and packets from the network, and ticks, in any order.
  \<open>reach\<close> is the set of mixers such a run can produce; the mixer's, the render and the sink invariant hold on
  all of them.
\<close>

section \<open>What a tick does, step by step\<close>

definition mx_domains :: "'d Mixer \<Rightarrow> nat set \<times> nat set \<times> nat \<times> nat \<times> int \<times> nat" where
  "mx_domains m = (dom (mx_groupHeap m), dom (mx_sources m), mx_nextGroup m, mx_nextSource m, mx_tickCount m, mx_frameStart m)"

lemma ensureEntity_out: "ensureEntity m eid = Inr (e, m') \<Longrightarrow> mx_emitted m' = mx_emitted m \<and> mx_domains m' = mx_domains m"
  by (auto simp: ensureEntity_def mx_emitted_def mx_domains_def split: option.splits sum.splits)

lemma setEnt_out [simp]: "mx_emitted (setEnt m e) = mx_emitted m" "mx_domains (setEnt m e) = mx_domains m"
  by (simp_all add: setEnt_def mx_emitted_def mx_domains_def)

lemma dirty_out [simp]: "mx_emitted (markAudibleDirty m) = mx_emitted m" "mx_domains (markAudibleDirty m) = mx_domains m"
  by (simp_all add: markAudibleDirty_def mx_emitted_def mx_domains_def)

lemma removeEntity_out [simp]: "mx_emitted (removeEntity m e) = mx_emitted m" "mx_domains (removeEntity m e) = mx_domains m"
  by (simp_all add: removeEntity_def markAudibleDirty_def mx_emitted_def mx_domains_def)

lemma upd_out [simp]:
  "mx_emitted (m \<lparr> mx_groups := gs \<rparr>) = mx_emitted m" "mx_domains (m \<lparr> mx_groups := gs \<rparr>) = mx_domains m"
  "mx_emitted (m \<lparr> mx_destroyed := ds \<rparr>) = mx_emitted m" "mx_domains (m \<lparr> mx_destroyed := ds \<rparr>) = mx_domains m"
  "mx_emitted (m \<lparr> mx_ambiDestroyed := ds \<rparr>) = mx_emitted m" "mx_domains (m \<lparr> mx_ambiDestroyed := ds \<rparr>) = mx_domains m"
  "mx_emitted (m \<lparr> mx_channelTable := ct \<rparr>) = mx_emitted m" "mx_domains (m \<lparr> mx_channelTable := ct \<rparr>) = mx_domains m"
  "mx_emitted (m \<lparr> mx_personalMutes := pm \<rparr>) = mx_emitted m" "mx_domains (m \<lparr> mx_personalMutes := pm \<rparr>) = mx_domains m"
  "mx_emitted (m \<lparr> mx_personalSolos := pm \<rparr>) = mx_emitted m" "mx_domains (m \<lparr> mx_personalSolos := pm \<rparr>) = mx_domains m"
  "mx_emitted (m \<lparr> mx_changes := cs \<rparr>) = mx_emitted m" "mx_domains (m \<lparr> mx_changes := cs \<rparr>) = mx_domains m"
  "mx_domains (m \<lparr> mx_workers := ws \<rparr>) = mx_domains m" "mx_domains (m \<lparr> mx_nextWork := w \<rparr>) = mx_domains m"
  by (simp_all add: mx_emitted_def mx_domains_def)

lemma leaveGroup_out: "mx_emitted (leaveGroup m r) = mx_emitted m \<and> mx_domains (leaveGroup m r) = mx_domains m"
  by (auto simp: leaveGroup_def Let_def mx_emitted_def mx_domains_def split: option.splits prod.splits)

lemma applyChange_out: "applyChange c m = Inr m' \<Longrightarrow> mx_emitted m' = mx_emitted m \<and> mx_domains m' = mx_domains m"
  by (cases c) (auto simp: Let_def leaveGroup_out dest!: ensureEntity_out split: sum.splits option.splits if_splits)

lemma applyAll_out: "applyAll cs m = Inr m' \<Longrightarrow> mx_emitted m' = mx_emitted m \<and> mx_domains m' = mx_domains m"
  by (induction cs arbitrary: m) (auto dest: applyChange_out split: sum.splits)

lemma drain_out: "drainChanges m = Inr m' \<Longrightarrow> mx_emitted m' = mx_emitted m" "drainChanges m = Inr m' \<Longrightarrow> mx_domains m' = mx_domains m"
  by (auto simp: drainChanges_def dest: applyAll_out)

lemma dom_upd_same: "f x = Some y \<Longrightarrow> dom (f(x \<mapsto> z)) = dom f"
  by auto

lemma inSource_domains: "inSource e m = Some (e', m') \<Longrightarrow> mx_domains m' = mx_domains m"
  by (auto simp: inSource_def Let_def mx_domains_def bind_eq_Some_conv split: option.splits if_splits)

lemma ambi_emit_domains: "ambi_emit pl ok m = Some m' \<Longrightarrow> mx_domains m' = mx_domains m"
  by (auto simp: ambi_emit_def mx_domains_def split: prod.splits)

lemma phaseOut_domains:
  assumes "phaseOut e m = Some (e', m')"
  shows "mx_domains m' = mx_domains m"
proof -
  obtain e1 m1 where 1: "outSink e m = Some (e1, m1)" "outAmbi e1 m1 = Some (e', m')" using assms by (auto simp: phaseOut_def bind_eq_Some_conv)
  have a: "mx_domains m1 = mx_domains m"
    using 1(1) by (auto simp: outSink_def sink_emit_def mx_domains_def bind_eq_Some_conv split: option.splits)
  have "mx_domains m' = mx_domains m1"
  proof (cases "ent_ambiEnc e1")
    case (Some a)
    then obtain pl where f: "foldO (ambi_emit pl) (ent_ambiSinks e1) m1 = Some m'" using 1(2) by (auto simp: outAmbi_def bind_eq_Some_conv)
    show ?thesis by (rule foldO_keep[OF f]) (auto dest: ambi_emit_domains)
  qed (use 1(2) in \<open>simp add: outAmbi_def\<close>)
  then show ?thesis using a by simp
qed

lemma dispatch_domains: "dispatch ph eid m = Some m' \<Longrightarrow> mx_domains m' = mx_domains m"
  by (cases ph) (auto simp: dispatch_def runJob_def phaseIn_def bind_eq_Some_conv
      dest!: inSource_domains phaseOut_domains split: if_splits)

lemma runPhase_domains: "runPhase ph ids m = Some m' \<Longrightarrow> mx_domains m' = mx_domains m"
  unfolding runPhase_def by (erule foldO_keep) (auto dest: dispatch_domains)

lemma readGroups_domains: "mx_domains (readGroups m) = mx_domains m"
proof -
  have "dom (foldl (\<lambda>hp (gid, g). hp(g := map_option group_read (hp g))) hp gs) = dom hp" for hp and gs :: "(string \<times> nat) list"
    by (induction gs arbitrary: hp) (auto simp: dom_def split: prod.splits if_splits)
  then show ?thesis by (simp add: mx_domains_def readGroups_def)
qed

lemma readGroups_out [simp]: "mx_emitted (readGroups m) = mx_emitted m" "mx_control (readGroups m) = mx_control m" "mx_slots (readGroups m) = mx_slots m"
  "mx_ents (readGroups m) = mx_ents m" "liveEnts (readGroups m) = liveEnts m"
  by (simp_all add: readGroups_def mx_emitted_def mx_control_def liveEnts_def)

lemma withPeers_out [simp]: "mx_emitted (withPeers m D) = mx_emitted m" "mx_control (withPeers m D) = mx_control m" "mx_slots (withPeers m D) = mx_slots m"
  "mx_domains (withPeers m D) = mx_domains m"
  by (simp_all add: withPeers_def mx_emitted_def mx_control_def mx_domains_def)

lemma norecord_out:
  assumes "mx_norecord m' = mx_norecord (m \<lparr> mx_audibleDirty := d \<rparr>)"
  shows "mx_emitted m' = mx_emitted m" "mx_control m' = mx_control m" "mx_slots m' = mx_slots m" "mx_domains m' = mx_domains m" "mx_ents m' = mx_ents m"
    "mx_audibleDirty m' = d" "liveEnts m' = liveEnts m" "pairOf m' = pairOf m"
proof -
  have "mx_emitted (mx_norecord m) = mx_emitted m" "mx_control (mx_norecord m) = mx_control m" "mx_slots (mx_norecord m) = mx_slots m"
    "mx_domains (mx_norecord m) = mx_domains m" "mx_ents (mx_norecord m) = mx_ents m" "mx_audibleDirty (mx_norecord m) = mx_audibleDirty m"
    "liveEnts (mx_norecord m) = liveEnts m" "pairOf (mx_norecord m) = pairOf m" for m :: "'a Mixer"
    by (simp_all add: mx_norecord_def mx_emitted_def mx_control_def mx_domains_def liveEnts_def pairOf_def[abs_def])
  note n = this
  have d: "mx_emitted (m \<lparr> mx_audibleDirty := d \<rparr>) = mx_emitted m" "mx_domains (m \<lparr> mx_audibleDirty := d \<rparr>) = mx_domains m"
    "liveEnts (m \<lparr> mx_audibleDirty := d \<rparr>) = liveEnts m" "pairOf (m \<lparr> mx_audibleDirty := d \<rparr>) = pairOf m"
    by (simp_all add: mx_emitted_def mx_domains_def liveEnts_def pairOf_def[abs_def])
  show "mx_emitted m' = mx_emitted m" using n(1)[of m'] n(1)[of "m \<lparr> mx_audibleDirty := d \<rparr>"] assms d by simp
  show "mx_control m' = mx_control m" using n(2)[of m'] n(2)[of "m \<lparr> mx_audibleDirty := d \<rparr>"] assms by simp
  show "mx_slots m' = mx_slots m" using n(3)[of m'] n(3)[of "m \<lparr> mx_audibleDirty := d \<rparr>"] assms by simp
  show "mx_domains m' = mx_domains m" using n(4)[of m'] n(4)[of "m \<lparr> mx_audibleDirty := d \<rparr>"] assms d by simp
  show "mx_ents m' = mx_ents m" using n(5)[of m'] n(5)[of "m \<lparr> mx_audibleDirty := d \<rparr>"] assms by simp
  show "mx_audibleDirty m' = d" using n(6)[of m'] n(6)[of "m \<lparr> mx_audibleDirty := d \<rparr>"] assms by simp
  show "liveEnts m' = liveEnts m" using n(7)[of m'] n(7)[of "m \<lparr> mx_audibleDirty := d \<rparr>"] assms d by simp
  show "pairOf m' = pairOf m" using n(8)[of m'] n(8)[of "m \<lparr> mx_audibleDirty := d \<rparr>"] assms d by simp
qed

section \<open>The pair record stays current\<close>

definition recordCurrent :: "'d Mixer \<Rightarrow> bool" where
  "recordCurrent m \<longleftrightarrow> (\<forall>k\<in>set (liveEnts m). \<forall>s\<in>set (liveEnts m). recordAt m (ent_slot k) (ent_slot s) = pairOf m s k)"

text \<open>What the record is computed from.\<close>

definition pairView :: "entity \<Rightarrow> string \<times> nat \<times> RenderParams \<times> rat \<times> rat" where
  "pairView e = (ent_id e, ent_slot e, ent_params e, enc_gainFactor (ent_enc e), enc_peerAttenuationExponent (ent_enc e))"

definition mx_tables :: "'d Mixer \<Rightarrow> (string \<Rightarrow> ChannelParams option) \<times> personal \<times> personal \<times> bool list list \<times> rat list list \<times> rat list list" where
  "mx_tables m = (mx_channelTable m, mx_personalMutes m, mx_personalSolos m, mx_audible m, mx_pairGain m, mx_pairAttExp m)"

lemma pairOf_view: "pairView s' = pairView s \<Longrightarrow> pairView k' = pairView k \<Longrightarrow> mx_tables m' = mx_tables m \<Longrightarrow> pairOf m' s' k' = pairOf m s k"
proof -
  assume a: "pairView s' = pairView s" "pairView k' = pairView k" "mx_tables m' = mx_tables m"
  have e: "ent_id s' = ent_id s" "ent_params s' = ent_params s" "enc_gainFactor (ent_enc s') = enc_gainFactor (ent_enc s)"
    "enc_peerAttenuationExponent (ent_enc s') = enc_peerAttenuationExponent (ent_enc s)" "ent_id k' = ent_id k" "ent_params k' = ent_params k"
    "mx_channelTable m' = mx_channelTable m" "mx_personalMutes m' = mx_personalMutes m" "mx_personalSolos m' = mx_personalSolos m"
    using a by (simp_all add: pairView_def mx_tables_def)
  show ?thesis by (simp only: pairOf_def resolvePair_def e)
qed

lemma recordCurrent_view:
  assumes "recordCurrent m" "mx_tables m' = mx_tables m" "\<And>e'. e' \<in> set (liveEnts m') \<Longrightarrow> \<exists>e\<in>set (liveEnts m). pairView e' = pairView e"
  shows "recordCurrent m'"
  unfolding recordCurrent_def
proof (intro ballI)
  fix k' s' assume "k' \<in> set (liveEnts m')" "s' \<in> set (liveEnts m')"
  then obtain k s where ks: "k \<in> set (liveEnts m)" "pairView k' = pairView k" "s \<in> set (liveEnts m)" "pairView s' = pairView s" using assms(3) by blast
  have "recordAt m' (ent_slot k') (ent_slot s') = recordAt m (ent_slot k) (ent_slot s)" using ks assms(2) by (simp add: recordAt_def pairView_def mx_tables_def)
  also have "\<dots> = pairOf m s k" using assms(1) ks by (simp add: recordCurrent_def)
  also have "\<dots> = pairOf m' s' k'" using pairOf_view[OF ks(4,2) assms(2)] by simp
  finally show "recordAt m' (ent_slot k') (ent_slot s') = pairOf m' s' k'" .
qed

lemma liveEnts_mem: "e \<in> set (liveEnts m) \<longleftrightarrow> (\<exists>x. Some x \<in> set (mx_slots m) \<and> mx_ents m x = Some e)"
  by (force simp: liveEnts_def List.map_filter_def bind_eq_Some_conv image_iff)

text \<open>Dirty, or current.\<close>

definition recordInv :: "'d Mixer \<Rightarrow> bool" where
  "recordInv m \<longleftrightarrow> mx_audibleDirty m \<or> recordCurrent m"

text \<open>A step that replaces entities by ones with the same view keeps the invariant.\<close>

lemma recordInv_view:
  assumes "recordInv m" "mx_tables m' = mx_tables m" "mx_audibleDirty m' = mx_audibleDirty m" "mx_slots m' = mx_slots m"
    "\<And>x e'. mx_ents m' x = Some e' \<Longrightarrow> \<exists>e. mx_ents m x = Some e \<and> pairView e' = pairView e"
  shows "recordInv m'"
proof -
  have "recordCurrent m'" if "recordCurrent m"
    by (rule recordCurrent_view[OF that assms(2)]) (use assms(4,5) in \<open>fastforce simp: liveEnts_mem\<close>)
  then show ?thesis using assms(1,3) by (auto simp: recordInv_def)
qed

lemma recordInv_dirty [simp]: "recordInv (markAudibleDirty m)"
  by (simp add: recordInv_def markAudibleDirty_def)

lemma recordInv_setEnt:
  assumes "recordInv m" "mx_ents m eid = Some e" "ent_id e' = eid" "pairView e' = pairView e" "mx_tables m' = mx_tables m" "mx_audibleDirty m' = mx_audibleDirty m"
    "mx_slots m' = mx_slots m" "mx_ents m' = mx_ents m"
  shows "recordInv (setEnt m' e')"
proof (rule recordInv_view[OF assms(1)])
  show "mx_tables (setEnt m' e') = mx_tables m" using assms(5) by (simp add: mx_tables_def setEnt_def)
  fix x f assume "mx_ents (setEnt m' e') x = Some f"
  then show "\<exists>e. mx_ents m x = Some e \<and> pairView f = pairView e" using assms by (auto simp: setEnt_def split: if_splits)
qed (use assms in \<open>simp_all add: setEnt_def\<close>)

lemma removeEntity_dirty [simp]: "recordInv (removeEntity m e)"
  by (simp add: removeEntity_def)

lemma leaveGroup_tables: "mx_tables (leaveGroup m r) = mx_tables m" "mx_audibleDirty (leaveGroup m r) = mx_audibleDirty m"
  "mx_slots (leaveGroup m r) = mx_slots m" "mx_ents (leaveGroup m r) = mx_ents m"
  by (auto simp: leaveGroup_def Let_def mx_tables_def split: option.splits prod.splits)

lemma pairView_upd [simp]:
  "pairView (e \<lparr> ent_src := r \<rparr>) = pairView e" "pairView (e \<lparr> ent_sink := k \<rparr>) = pairView e" "pairView (e \<lparr> ent_ambiSinks := ks \<rparr>) = pairView e"
  "pairView (e \<lparr> ent_ambiEnc := a \<rparr>) = pairView e" "pairView (e \<lparr> ent_peers := ps \<rparr>) = pairView e"
  by (simp_all add: pairView_def)

lemma ChRemoveAmbi_form:
  assumes "mx_ents m eid = Some e"
  obtains e1 m1 b where "applyChange (ChRemoveAmbi eid order) m = Inr (if b then removeEntity (setEnt m1 e1) e1 else setEnt m1 e1)"
    "pairView e1 = pairView e" "mx_tables m1 = mx_tables m" "mx_audibleDirty m1 = mx_audibleDirty m" "mx_slots m1 = mx_slots m" "mx_ents m1 = mx_ents m"
proof -
  define e0 m1 where "e0 = (case map_of (ent_ambiSinks e) order of None \<Rightarrow> e | Some k \<Rightarrow> e \<lparr> ent_ambiSinks := AList.delete order (ent_ambiSinks e) \<rparr>)"
    and "m1 = (case map_of (ent_ambiSinks e) order of None \<Rightarrow> m | Some k \<Rightarrow> m \<lparr> mx_ambiDestroyed := mx_ambiDestroyed m @ [k] \<rparr>)"
  define e1 where "e1 = (if ent_ambiSinks e0 = [] then e0 \<lparr> ent_ambiEnc := None \<rparr> else e0)"
  have "applyChange (ChRemoveAmbi eid order) m =
    Inr (if ent_src e1 = None \<and> ent_sink e1 = None \<and> ent_ambiSinks e1 = [] then removeEntity (setEnt m1 e1) e1 else setEnt m1 e1)"
    using assms by (cases "map_of (ent_ambiSinks e) order") (simp_all add: Let_def e0_def m1_def e1_def cong: if_cong)
  moreover have "pairView e1 = pairView e" by (simp add: e1_def e0_def split: option.split)
  moreover have "mx_tables m1 = mx_tables m" "mx_audibleDirty m1 = mx_audibleDirty m" "mx_slots m1 = mx_slots m" "mx_ents m1 = mx_ents m"
    by (simp_all add: m1_def mx_tables_def split: option.split)
  ultimately show thesis by (rule that)
qed

lemma applyChange_record:
  assumes "applyChange c m = Inr m'" "recordInv m" "\<And>x e. mx_ents m x = Some e \<Longrightarrow> ent_id e = x"
  shows "recordInv m'"
proof -
  note r = recordInv_setEnt[OF assms(2)]
  show ?thesis
  proof (cases c)
    case (ChRemoveSource eid)
    show ?thesis
    proof (cases "mx_ents m eid")
      case (Some e)
      then obtain rf where rf: "ent_src e = Some rf" using assms(1) ChRemoveSource by (auto split: option.splits)
      have "recordInv (setEnt (leaveGroup m rf) (e \<lparr> ent_src := None \<rparr>))" by (rule r[OF Some]) (simp_all add: leaveGroup_tables assms(3)[OF Some])
      then show ?thesis using assms(1) ChRemoveSource Some rf by (auto simp: Let_def split: if_splits)
    qed (use assms ChRemoveSource in auto)
  next
    case (ChRemoveSink eid)
    show ?thesis
    proof (cases "\<exists>e k. mx_ents m eid = Some e \<and> ent_sink e = Some k")
      case True
      then obtain e k where e: "mx_ents m eid = Some e" "ent_sink e = Some k" by blast
      have "recordInv (setEnt (m \<lparr> mx_destroyed := mx_destroyed m @ [k] \<rparr>) (e \<lparr> ent_sink := None \<rparr>))"
        by (rule r[OF e(1)]) (simp_all add: mx_tables_def assms(3)[OF e(1)])
      then show ?thesis using assms(1) ChRemoveSink e by (auto simp: Let_def split: if_splits)
    qed (use assms ChRemoveSink in \<open>auto split: option.splits\<close>)
  next
    case (ChRemoveAmbi eid order)
    show ?thesis
    proof (cases "mx_ents m eid")
      case (Some e)
      from ChRemoveAmbi_form[OF Some, of order] obtain e1 m1 b where f:
        "applyChange (ChRemoveAmbi eid order) m = Inr (if b then removeEntity (setEnt m1 e1) e1 else setEnt m1 e1)" "pairView e1 = pairView e"
        "mx_tables m1 = mx_tables m" "mx_audibleDirty m1 = mx_audibleDirty m" "mx_slots m1 = mx_slots m" "mx_ents m1 = mx_ents m" by metis
      have "ent_id e1 = eid" using f(2) assms(3)[OF Some] by (simp add: pairView_def)
      from r[OF Some this f(2-6)] show ?thesis using assms(1) ChRemoveAmbi f(1) by (cases b) auto
    qed (use assms ChRemoveAmbi in auto)
  next
    case (ChEntityMuted eid b)
    show ?thesis
    proof (cases "mx_ents m eid")
      case (Some e)
      have "recordInv (setEnt m (e \<lparr> ent_enc := SetSpaceMuted (ent_enc e) b \<rparr>))"
        by (rule r[OF Some]) (simp_all add: assms(3)[OF Some] pairView_def SetSpaceMuted_def)
      then show ?thesis using assms(1) ChEntityMuted Some by auto
    qed (use assms ChEntityMuted in auto)
  qed (use assms in \<open>auto simp: Let_def split: sum.splits option.splits\<close>)
qed

lemma applyAll_record:
  "applyAll cs m = Inr m' \<Longrightarrow> audioOk m \<sigma> \<Longrightarrow> queueOk (length (mx_slots m)) \<sigma> cs \<Longrightarrow> recordInv m \<Longrightarrow> recordInv m'"
proof (induction cs arbitrary: m \<sigma>)
  case (Cons c cs)
  obtain m1 where m1: "applyChange c m = Inr m1" "audioOk m1 (replay c \<sigma>)" "mx_control m1 = mx_control m"
    using applyChange_ok[of m \<sigma> c] Cons.prems(2,3) by (auto simp: changeOk_def)
  have l: "length (mx_slots m1) = length (mx_slots m)" using m1(2,3) Cons.prems(2) by (auto simp: audioOk_def mx_control_def)
  have "recordInv m1" using applyChange_record[OF m1(1) Cons.prems(4)] audio_ent[OF Cons.prems(2)] by blast
  then show ?case using Cons.IH[OF _ m1(2)] Cons.prems(1,3) m1(1) l by simp
qed simp

lemma drain_record:
  assumes "drainChanges m = Inr m'" "liveOk m" "recordInv m"
  shows "recordInv m'"
proof -
  obtain \<sigma> where s: "audioOk m \<sigma>" "queueOk (length (mx_slots m)) \<sigma> (mx_changes m)" using assms(2) by (auto simp: liveOk_def)
  have "recordInv (m \<lparr> mx_changes := [] \<rparr>)" by (rule recordInv_view[OF assms(3)]) (simp_all add: mx_tables_def)
  then show ?thesis using applyAll_record[of "mx_changes m" "m \<lparr> mx_changes := [] \<rparr>" m' \<sigma>] assms(1) s by (simp add: drainChanges_def)
qed

section \<open>A tick, as a whole\<close>

lemma entSame_view: "entSame e e' \<Longrightarrow> pairView e' = pairView e"
  by (simp add: entSame_def pairView_def)

lemma samePeers_trans: "samePeers m m' \<Longrightarrow> samePeers m' m'' \<Longrightarrow> samePeers m m''"
  unfolding samePeers_def using entSame_trans by (metis (no_types, lifting))

lemma prepare_full:
  assumes "tickOk m" "recordInv m"
  obtains p where "prepare m = Some p" "tickOk p" "mx_emitted p = mx_emitted m" "mx_domains p = mx_domains m" "mx_control p = mx_control m"
    "recordCurrent p" "\<not> mx_audibleDirty p" "\<And>x e. mx_ents p x = Some e \<Longrightarrow> listening e \<Longrightarrow> ent_peers e = peerList p e"
proof -
  obtain m1 m2 where 1: "(if mx_audibleDirty m then recomputeAudible m else Some m) = Some m1" "m2 = readGroups m1"
    "prepare m = Some (withPeers m2 (ent_id ` set (sinkEnts m2)))" "tickOk m1" "tickOk m2" "tickOk (withPeers m2 (ent_id ` set (sinkEnts m2)))"
    by (rule prepare_ok[OF assms(1)])
  have m1: "mx_emitted m1 = mx_emitted m \<and> mx_domains m1 = mx_domains m \<and> mx_control m1 = mx_control m \<and> recordCurrent m1 \<and> \<not> mx_audibleDirty m1"
  proof (cases "mx_audibleDirty m")
    case True
    then have r: "recordOk (m \<lparr> mx_audibleDirty := False \<rparr>) (length (mx_slots m)) (set (liveEnts m) \<times> set (liveEnts m)) m1"
      using recompute_tick[OF assms(1)] 1(1) by auto
    note n = norecord_out[of m1 False m] and q = norecord_pairOf[of m1 "m \<lparr> mx_audibleDirty := False \<rparr>"]
    have nr: "mx_norecord m1 = mx_norecord (m \<lparr> mx_audibleDirty := False \<rparr>)" using r by (simp add: recordOk_def)
    have "recordCurrent m1" using r q[OF nr] n(7)[OF nr] by (auto simp: recordCurrent_def recordOk_def)
    then show ?thesis using n[OF nr] by simp
  next
    case False
    then show ?thesis using 1(1) assms(2) by (auto simp: recordInv_def)
  qed
  let ?D = "ent_id ` set (sinkEnts m2)" let ?p = "withPeers m2 ?D"
  have live: "liveEnts ?p = map (putPeers m2 ?D) (liveEnts m1)" using liveEnts_map[of ?p m2 "putPeers m2 ?D"] 1(2) by (simp add: withPeers_def)
  have "recordCurrent ?p"
  proof (rule recordCurrent_view)
    show "recordCurrent m1" using m1 by simp
    show "mx_tables ?p = mx_tables m1" using 1(2) by (simp add: mx_tables_def withPeers_def readGroups_def)
    fix e' assume "e' \<in> set (liveEnts ?p)"
    then show "\<exists>e\<in>set (liveEnts m1). pairView e' = pairView e" using live entSame_view[OF putPeers_fields(4)] by auto
  qed
  moreover have "ent_peers e = peerList ?p e" if e: "mx_ents ?p x = Some e" "listening e" for x e
  proof -
    obtain e0 where e0: "mx_ents m2 x = Some e0" "e = putPeers m2 ?D e0" using e(1) by (auto simp: withPeers_def)
    have "listening e0" using e(2) e0(2) by (simp add: listening_def)
    moreover have "e0 \<in> set (liveEnts m2)" using liveEnts_set[OF tick_slots(1)[OF 1(5)]] slotsOk_ent(1)[OF tick_slots(1)[OF 1(5)] e0(1)] e0(1) by simp
    ultimately have "ent_id e0 \<in> ?D" by (auto simp: sinkEnts_def)
    then have "ent_peers e = peerList m2 e0" using e0(2) by (simp add: putPeers_def)
    also have "\<dots> = peerList ?p e" using e0(2) by (simp add: peerList_def withPeers_sources filter_map comp_def) (simp add: withPeers_def)
    finally show ?thesis .
  qed
  moreover have "\<not> mx_audibleDirty ?p" using m1 1(2) by (simp add: withPeers_def readGroups_def)
  ultimately show thesis using that[OF 1(3,6)] m1 1(2) readGroups_domains[of m1] by simp
qed

text \<open>The stages of a tick: drained, prepared, read, encoded, emitted.\<close>

definition readyOk :: "'d Mixer \<Rightarrow> bool" where
  "readyOk m \<longleftrightarrow> mxInv m \<and> renderOk m \<and> recordInv m \<and> envOk (mx_env m)"

lemma startTick_frame:
  "mx_control (startTick m) = mx_control m" "audioOk (startTick m) = audioOk m" "mx_slots (startTick m) = mx_slots m" "mx_frame (startTick m) = mx_frame m"
  "mx_ents (startTick m) = mx_ents m" "mx_sources (startTick m) = mx_sources m" "mx_groupHeap (startTick m) = mx_groupHeap m" "mx_changes (startTick m) = mx_changes m"
  "mx_emitted (startTick m) = mx_emitted m" "mx_tables (startTick m) = mx_tables m" "mx_audibleDirty (startTick m) = mx_audibleDirty m"
  "mx_nextSource (startTick m) = mx_nextSource m" "mx_nextGroup (startTick m) = mx_nextGroup m" "mx_env (startTick m) = mx_env m" "mx_stopped (startTick m) = mx_stopped m"
  by (simp_all add: startTick_def Let_def mx_control_def mx_frame_def mx_emitted_def mx_tables_def)

lemma renderOk_frame:
  assumes "renderOk m" "mx_frame m' = mx_frame m" "mx_ents m' = mx_ents m" "heapsLe m m'" "heapFull m'" "list_all (changeReady m') (mx_changes m')"
  shows "renderOk m'"
  using assms entsOk_mono[OF _ assms(3) frame_fixed[OF assms(2)] assms(4)] frameOk_frame[OF assms(2)] by (simp add: renderOk_def)

lemma startTick_ready: "readyOk m \<Longrightarrow> readyOk (startTick m)"
proof -
  assume r: "readyOk m"
  have le: "heapsLe m (startTick m)" by (rule heapsLe_same) (simp_all add: startTick_frame)
  have "mxInv (startTick m)" using r inv_frame[of m "startTick m"] by (simp add: readyOk_def startTick_frame)
  moreover have "renderOk (startTick m)"
    using r renderOk_frame[of m "startTick m"] le changesReady_mono[OF _ frame_fixed le, of "mx_changes m"]
    by (simp add: readyOk_def startTick_frame renderOk_def heapFull_def)
  moreover have "recordInv (startTick m)" using r recordInv_view[of m "startTick m"] by (simp add: readyOk_def startTick_frame)
  ultimately show ?thesis using r by (simp add: readyOk_def startTick_frame)
qed

lemma drain_ready:
  assumes "readyOk m" "\<not> mx_stopped m"
  obtains d where "drainChanges m = Inr d" "tickOk d" "recordInv d" "mx_changes d = []" "mx_control d = mx_control (m \<lparr> mx_changes := [] \<rparr>)"
    "mx_emitted d = mx_emitted m" "mx_domains d = mx_domains m" "heapsLe m d"
proof -
  have l: "ctlOk m" "liveOk m" "renderOk m" "recordInv m" using assms by (auto simp: readyOk_def mxInv_def)
  obtain d where d: "drainChanges m = Inr d" "audioOk d (mx_reg m)" "mx_changes d = []" "mx_control d = mx_control (m \<lparr> mx_changes := [] \<rparr>)"
    using drain_inv[OF l(1,2)] by blast
  note r = drain_rstep[OF d(1) l(3)]
  have f: "mx_fixed d = mx_fixed m" "heapsLe m d" "entsOk d" "heapFull d" using rstepD[OF r(1)] by auto
  have "frameOk d" using frameOk_frame[of d m] r(1) l(3) by (simp add: rstep_def renderOk_def)
  then have "tickOk d" using d f assms(1) control_fixed(2)[OF d(4)] by (simp add: tickOk_def readyOk_def mx_control_def)
  then show thesis using that[OF d(1) _ drain_record[OF d(1) l(2,4)] d(3,4) drain_out(1)[OF d(1)] drain_out(2)[OF d(1)] f(2)] by blast
qed

lemma live_dom: "tickOk m \<Longrightarrow> set (map ent_id (filter P (liveEnts m))) \<subseteq> dom (mx_ents m)"
  using liveEnts_set[OF tick_slots(1)] by auto

definition mx_record where
  "mx_record m = (mx_tables m, mx_audibleDirty m)"

definition mx_static where
  "mx_static m = (mx_record m, mx_destroyed m, mx_ambiDestroyed m)"

lemma static_upd [simp]:
  "mx_static (setEnt m e) = mx_static m" "mx_static (m \<lparr> mx_workers := ws \<rparr>) = mx_static m" "mx_static (m \<lparr> mx_nextWork := w \<rparr>) = mx_static m"
  "mx_static (readGroups m) = mx_static m" "mx_static (withPeers m D) = mx_static m"
  by (simp_all add: mx_static_def mx_record_def mx_tables_def setEnt_def readGroups_def withPeers_def)

lemma inSource_static: "inSource e m = Some (e', m') \<Longrightarrow> mx_static m' = mx_static m"
  by (auto simp: inSource_def Let_def mx_static_def mx_record_def mx_tables_def bind_eq_Some_conv split: option.splits if_splits)

lemma phaseOut_static:
  assumes "phaseOut e m = Some (e', m')"
  shows "mx_static m' = mx_static m"
proof -
  obtain e1 m1 where 1: "outSink e m = Some (e1, m1)" "outAmbi e1 m1 = Some (e', m')" using assms by (auto simp: phaseOut_def bind_eq_Some_conv)
  have a: "mx_static m1 = mx_static m"
    using 1(1) by (auto simp: outSink_def sink_emit_def mx_static_def mx_record_def mx_tables_def bind_eq_Some_conv split: option.splits)
  have "mx_static m' = mx_static m1"
  proof (cases "ent_ambiEnc e1")
    case (Some a)
    then obtain pl where f: "foldO (ambi_emit pl) (ent_ambiSinks e1) m1 = Some m'" using 1(2) by (auto simp: outAmbi_def bind_eq_Some_conv)
    show ?thesis by (rule foldO_keep[OF f]) (auto simp: ambi_emit_def mx_static_def mx_record_def mx_tables_def split: prod.splits)
  qed (use 1(2) in \<open>simp add: outAmbi_def\<close>)
  then show ?thesis using a by simp
qed

lemma dispatch_static: "dispatch ph eid m = Some m' \<Longrightarrow> mx_static m' = mx_static m"
  by (cases ph) (auto simp: dispatch_def runJob_def phaseIn_def bind_eq_Some_conv
      dest!: inSource_static phaseOut_static split: if_splits)

lemma runPhase_static: "runPhase ph ids m = Some m' \<Longrightarrow> mx_static m' = mx_static m"
  unfolding runPhase_def by (erule foldO_keep) (auto dest: dispatch_static)

lemma phases_record:
  assumes "recordCurrent p" "\<not> mx_audibleDirty p" "samePeers p m" "mx_static m = mx_static p"
  shows "recordCurrent m" "\<not> mx_audibleDirty m"
proof -
  show "recordCurrent m"
  proof (rule recordCurrent_view[OF assms(1)])
    show "mx_tables m = mx_tables p" using assms(4) by (simp add: mx_static_def mx_record_def)
    fix e' assume "e' \<in> set (liveEnts m)"
    then obtain x where x: "Some x \<in> set (mx_slots m)" "mx_ents m x = Some e'" by (auto simp: liveEnts_mem)
    have "x \<in> dom (mx_ents p)" using assms(3) x(2) by (auto simp: samePeers_def)
    then obtain e where e: "mx_ents p x = Some e" by blast
    then have "entSame e e'" using assms(3) x(2) by (fastforce simp: samePeers_def)
    moreover have "e \<in> set (liveEnts p)" using e x(1) assms(3) by (auto simp: liveEnts_mem samePeers_def)
    ultimately show "\<exists>e\<in>set (liveEnts p). pairView e' = pairView e" using entSame_view by blast
  qed
  show "\<not> mx_audibleDirty m" using assms(2,4) by (simp add: mx_static_def mx_record_def)
qed

lemma Process_stages:
  assumes "readyOk m" "\<not> mx_stopped m"
  obtains d p m1 m2 m3 where "drainChanges (startTick m) = Inr d" "prepare d = Some p"
    "runPhase PhaseIn (map ent_id (liveEnts p)) p = Some m1" "runPhase PhaseAcross (map ent_id (sinkEnts p)) m1 = Some m2"
    "runPhase PhaseOut (map ent_id (sinkEnts p)) m2 = Some m3" "Process m = Some m3"
    "tickOk d" "tickOk p" "tickOk m1" "tickOk m2" "tickOk m3" "samePeers p m1" "samePeers p m2" "samePeers p m3"
    "mx_emitted m2 = mx_emitted m" "recordCurrent p" "\<not> mx_audibleDirty p"
    "mx_control p = mx_control (m \<lparr> mx_changes := [] \<rparr>)" "mx_domains p = mx_domains (startTick m)"
    "\<And>x e. mx_ents p x = Some e \<Longrightarrow> listening e \<Longrightarrow> ent_peers e = peerList p e"
proof -
  have r: "readyOk (startTick m)" "\<not> mx_stopped (startTick m)" using startTick_ready[OF assms(1)] assms(2) by (simp_all add: startTick_frame)
  obtain d where d: "drainChanges (startTick m) = Inr d" "tickOk d" "recordInv d" "mx_control d = mx_control (startTick m \<lparr> mx_changes := [] \<rparr>)"
    "mx_emitted d = mx_emitted (startTick m)" "mx_domains d = mx_domains (startTick m)" by (rule drain_ready[OF r])
  have dc: "mx_control d = mx_control (m \<lparr> mx_changes := [] \<rparr>)" using d(4) by (simp add: mx_control_def startTick_def Let_def)
  obtain p where p: "prepare d = Some p" "tickOk p" "mx_emitted p = mx_emitted d" "mx_domains p = mx_domains d" "mx_control p = mx_control d"
    "recordCurrent p" "\<not> mx_audibleDirty p" "\<And>x e. mx_ents p x = Some e \<Longrightarrow> listening e \<Longrightarrow> ent_peers e = peerList p e"
    by (rule prepare_full[OF d(2,3)]) blast
  have ids: "set (map ent_id (liveEnts p)) \<subseteq> dom (mx_ents p)" "set (map ent_id (sinkEnts p)) \<subseteq> dom (mx_ents p)"
    using live_dom[OF p(2), of "\<lambda>_. True"] live_dom[OF p(2), of listening] by (simp_all add: sinkEnts_def)
  obtain m1 where m1: "runPhase PhaseIn (map ent_id (liveEnts p)) p = Some m1" "tickOk m1" "samePeers p m1" "mx_emitted m1 = mx_emitted p"
    by (rule runPhase_ok[OF p(2) ids(1), of PhaseIn]) (auto simp: silentPhase_def)
  have ids1: "set (map ent_id (sinkEnts p)) \<subseteq> dom (mx_ents m1)" using ids(2) m1(3) by (simp add: samePeers_def)
  obtain m2 where m2: "runPhase PhaseAcross (map ent_id (sinkEnts p)) m1 = Some m2" "tickOk m2" "samePeers m1 m2" "mx_emitted m2 = mx_emitted m1"
    by (rule runPhase_ok[OF m1(2) ids1, of PhaseAcross]) (auto simp: silentPhase_def)
  have s2: "samePeers p m2" by (rule samePeers_trans[OF m1(3) m2(3)])
  have ids2: "set (map ent_id (sinkEnts p)) \<subseteq> dom (mx_ents m2)" using ids(2) s2 by (simp add: samePeers_def)
  obtain m3 where m3: "runPhase PhaseOut (map ent_id (sinkEnts p)) m2 = Some m3" "tickOk m3" "samePeers m2 m3"
    by (rule runPhase_ok[OF m2(2) ids2, of PhaseOut]) blast
  have "Process m = Some m3" using d(1) p(1) m1(1) m2(1) m3(1) by (simp add: Process_def Let_def)
  then show thesis
    using that[OF d(1) p(1) m1(1) m2(1) m3(1) _ d(2) p(2) m1(2) m2(2) m3(2) m1(3) s2 samePeers_trans[OF s2 m3(3)] _ p(6,7) _ _ p(8)]
      m2(4) m1(4) p(3,4,5) d(5,6) dc by (simp add: startTick_frame(9))
qed

lemma Process_completes:
  assumes "readyOk m" "\<not> mx_stopped m"
  obtains m' where "Process m = Some m'" "tickOk m'"
  by (rule Process_stages[OF assms]) (rule that)

lemma samePeers_control: "samePeers p m \<Longrightarrow> mx_control m = mx_control p"
  by (simp add: samePeers_def)

lemma tick_ready:
  assumes "tickOk m" "recordCurrent m" "mx_changes m = []" "ctlOk m"
  shows "readyOk m"
proof -
  have "liveOk m" using assms(1,3) by (auto simp: liveOk_def tickOk_def replayAll_def intro!: exI[of _ "mx_reg m"])
  then show ?thesis using assms by (simp add: readyOk_def mxInv_def renderOk_def recordInv_def tickOk_def)
qed

lemma Process_ready:
  assumes "readyOk m" "\<not> mx_stopped m" "Process m = Some m'"
  shows "readyOk m'" "mx_domains m' = mx_domains (startTick m)" "mx_control m' = mx_control (m \<lparr> mx_changes := [] \<rparr>)"
proof -
  obtain d p m1 m2 where s: "runPhase PhaseIn (map ent_id (liveEnts p)) p = Some m1" "runPhase PhaseAcross (map ent_id (sinkEnts p)) m1 = Some m2"
    "runPhase PhaseOut (map ent_id (sinkEnts p)) m2 = Some m'" "tickOk m'" "samePeers p m'" "recordCurrent p" "\<not> mx_audibleDirty p"
    "mx_control p = mx_control (m \<lparr> mx_changes := [] \<rparr>)" "mx_domains p = mx_domains (startTick m)"
    by (rule Process_stages[OF assms(1,2)]) (use assms(3) in auto)
  have st: "mx_static m' = mx_static p" using runPhase_static[OF s(1)] runPhase_static[OF s(2)] runPhase_static[OF s(3)] by simp
  show c: "mx_control m' = mx_control (m \<lparr> mx_changes := [] \<rparr>)" using samePeers_control[OF s(5)] s(8) by simp
  show "mx_domains m' = mx_domains (startTick m)" using runPhase_domains[OF s(1)] runPhase_domains[OF s(2)] runPhase_domains[OF s(3)] s(9) by simp
  have "ctlOk m" using assms(1) by (simp add: readyOk_def mxInv_def)
  then have "ctlOk m'" using c by (simp add: ctlOk_def mx_control_def)
  moreover have "mx_changes m' = []" using c by (simp add: mx_control_def)
  ultimately show "readyOk m'" using tick_ready[OF s(4) phases_record(1)[OF s(6,7,5) st]] by blast
qed

section \<open>Control calls\<close>

definition freshOk :: "'d Mixer \<Rightarrow> bool" where
  "freshOk m \<longleftrightarrow> (\<forall>h\<ge>mx_nextGroup m. mx_groupHeap m h = None) \<and> (\<forall>h\<ge>mx_nextSource m. mx_sources m h = None)"

lemma fresh_domains:
  fixes m m' :: "'d Mixer"
  shows "mx_domains m' = mx_domains m \<Longrightarrow> freshOk m' = freshOk m"
proof -
  assume a: "mx_domains m' = mx_domains m"
  have f: "freshOk m = (let (G, S, g, s, t) = mx_domains m in (\<forall>h\<ge>g. h \<notin> G) \<and> (\<forall>h\<ge>s. h \<notin> S))" for m :: "'d Mixer"
    by (simp add: freshOk_def mx_domains_def domIff)
  show ?thesis using f[of m'] f[of m] a by simp
qed

lemma lookupGroup_ready:
  assumes "lookupGroup m gs cfg = (m1, Ret h)" "heapFull m" "freshOk m"
  shows "heapsLe m m1" "heapFull m1" "freshOk m1" "\<exists>g. mx_groupHeap m1 h = Some g \<and> nat (gs_Index gs) < sg_n g"
proof -
  have idx: "0 \<le> gs_Index gs" "gs_Index gs < gs_Count gs" using assms(1) by (auto simp: lookupGroup_def split: if_splits)
  consider (old) g where "m1 = m" "mx_groupHeap m h = Some g" "int (sg_n g) = gs_Count gs"
    | (new) g where "newSourceGroup gs (sc_JitterWriterFrame cfg) (sc_JitterReaderFrame cfg) = Inr g" "h = mx_nextGroup m"
        "m1 = m \<lparr> mx_groupHeap := (mx_groupHeap m)(h \<mapsto> g), mx_nextGroup := h + 1, mx_groupReg := (mx_groupReg m)(gs_ID gs \<mapsto> h) \<rparr>"
  proof (cases "Option.bind (mx_groupReg m (gs_ID gs)) (\<lambda>h. map_option (\<lambda>g. (h, g)) (mx_groupHeap m h))")
    case None
    then show thesis using assms(1) new idx by (auto simp add: lookupGroup_def Let_def split: if_splits sum.splits)
  next
    case (Some hg)
    then show thesis using assms(1) old idx by (auto simp: lookupGroup_def bind_eq_Some_conv split: if_splits)
  qed
  then have "heapsLe m m1 \<and> heapFull m1 \<and> freshOk m1 \<and> (\<exists>g. mx_groupHeap m1 h = Some g \<and> nat (gs_Index gs) < sg_n g)"
  proof cases
    case (old g)
    then show ?thesis using assms idx by auto
  next
    case (new g)
    have g: "sg_n g = nat (gs_Count gs)" "groupFull g" using new(1) by (auto simp: newSourceGroup_def groupFull_def split: sum.splits)
    have "mx_groupHeap m h = None" using assms(3) new(2) by (simp add: freshOk_def)
    then have "heapsLe m m1" using new(3) by (auto simp: heapsLe_def)
    moreover have "heapFull m1" using assms(2) g(2) new(3) by (auto simp: heapFull_def split: if_splits)
    moreover have "freshOk m1" using assms(3) new(2,3) by (auto simp: freshOk_def)
    ultimately show ?thesis using new(3) g(1) idx by auto
  qed
  then show "heapsLe m m1" "heapFull m1" "freshOk m1" "\<exists>g. mx_groupHeap m1 h = Some g \<and> nat (gs_Index gs) < sg_n g" by auto
qed

lemma lookupGroup_refused: "lookupGroup m gs cfg = (m1, r) \<Longrightarrow> (\<And>h. r \<noteq> Ret h) \<Longrightarrow> m1 = m"
  by (auto simp: lookupGroup_def Let_def split: if_splits option.splits sum.splits)

lemma withCodec_shape: "withCodec cd cfg src = Inr src' \<Longrightarrow> srcShape src' = srcShape src"
  by (auto simp: withCodec_def srcShape_def split: if_splits option.splits)

definition buildOk :: "'d Mixer \<Rightarrow> 'd Mixer \<Rightarrow> 'd Source outcome \<Rightarrow> bool" where
  "buildOk m m1 r \<longleftrightarrow> heapsLe m m1 \<and> heapFull m1 \<and> freshOk m1 \<and> (case r of Ret src \<Rightarrow> playable (mx_groupHeap m1) src | _ \<Rightarrow> True)"

lemma playable_shape: "srcShape s' = srcShape s \<Longrightarrow> playable hp s' = playable hp s"
  by (auto simp: srcShape_def playable_def split: option.splits)

lemma buildSource_ready:
  assumes "buildSource cd m eid cfg = (m1, r)" "heapFull m" "freshOk m"
  shows "buildOk m m1 r"
proof (cases "sc_TestTone cfg > 0")
  case True
  then show ?thesis using assms by (auto simp: buildSource_def buildOk_def playable_def newSource_def)
next
  case tone: False
  show ?thesis
  proof (cases "sc_Group cfg")
    case None
    have "playable (mx_groupHeap m) ((newSource eid cfg) \<lparr> src_jitter := Some b \<rparr>)" for b by (simp add: playable_def newSource_def)
    then show ?thesis using assms tone None
      by (auto simp: buildSource_def buildOk_def playable_shape[OF withCodec_shape] split: sum.splits)
  next
    case (Some gs)
    obtain m2 q where l: "lookupGroup m gs cfg = (m2, q)" by fastforce
    show ?thesis
    proof (cases q)
      case (Ret h)
      note k = lookupGroup_ready[OF l[unfolded Ret] assms(2,3)]
      have p: "playable (mx_groupHeap m2) ((newSource eid cfg) \<lparr> src_group := Some (h, nat (gs_Index gs)) \<rparr>)"
        using k(4) by (auto simp: playable_def)
      show ?thesis using assms(1) tone Some l Ret k(1-3) p
        by (auto simp: buildSource_def buildOk_def playable_shape[OF withCodec_shape] split: sum.splits)
    next
      case (Err e)
      then show ?thesis using assms tone Some l lookupGroup_refused[OF l] by (auto simp: buildSource_def buildOk_def)
    next
      case (Panic e)
      then show ?thesis using assms tone Some l lookupGroup_refused[OF l] by (auto simp: buildSource_def buildOk_def)
    qed
  qed
qed

text \<open>Queueing a change that is ready.\<close>

lemma enqueue_render:
  assumes "renderOk m" "mx_frame m' = mx_frame m" "mx_ents m' = mx_ents m" "heapsLe m m'" "heapFull m'" "mx_changes m' = mx_changes m" "changeReady m' c"
  shows "renderOk (enqueue m' c)"
proof (rule renderOk_frame[OF assms(1)])
  have le: "heapsLe m (enqueue m' c)" "heapsLe m' (enqueue m' c)" using assms(4) by (simp_all add: heapsLe_def enqueue_def)
  show "heapsLe m (enqueue m' c)" by (rule le)
  have f: "mx_fixed (enqueue m' c) = mx_fixed m" using frame_fixed[OF assms(2)] by (simp add: enqueue_def)
  have "list_all (changeReady m) (mx_changes m)" using assms(1) by (simp add: renderOk_def)
  from changesReady_mono[OF this f le(1)] changeReady_mono[OF assms(7) _ le(2)]
  show "list_all (changeReady (enqueue m' c)) (mx_changes (enqueue m' c))" using assms(6) by (simp add: enqueue_def)
qed (use assms in \<open>simp_all add: enqueue_def mx_frame_def heapFull_def\<close>)

lemma admit_frame:
  assumes "admit m eid taken dup upd = Inr m'"
  shows "mx_frame m' = mx_frame m" "mx_ents m' = mx_ents m" "mx_sources m' = mx_sources m" "mx_groupHeap m' = mx_groupHeap m" "mx_changes m' = mx_changes m"
    "mx_domains m' = mx_domains m" "mx_slots m' = mx_slots m" "mx_record m' = mx_record m" "mx_emitted m' = mx_emitted m"
  using assms by (auto simp: admit_def mx_frame_def mx_domains_def mx_static_def mx_record_def mx_tables_def mx_emitted_def split: if_splits option.splits)

lemma joinGroup_frame:
  "mx_frame (joinGroup m src h) = mx_frame m" "mx_ents (joinGroup m src h) = mx_ents m" "mx_sources (joinGroup m src h) = mx_sources m"
  "mx_changes (joinGroup m src h) = mx_changes m" "mx_slots (joinGroup m src h) = mx_slots m" "mx_record (joinGroup m src h) = mx_record m"
  "mx_emitted (joinGroup m src h) = mx_emitted m" "mx_domains (joinGroup m src h) = mx_domains m"
  by (auto simp: joinGroup_def mx_frame_def mx_domains_def mx_static_def mx_record_def mx_tables_def mx_emitted_def dom_def split: option.splits if_splits)

lemma joinGroup_heaps: "heapsLe m (joinGroup m src h)" "heapFull m \<Longrightarrow> heapFull (joinGroup m src h)"
  by (auto simp: joinGroup_def heapsLe_def heapFull_def join_def groupFull_def split: option.splits if_splits)

definition ctrlReady :: "'d Mixer \<Rightarrow> bool" where
  "ctrlReady m \<longleftrightarrow> renderOk m \<and> recordInv m \<and> freshOk m"

lemma recordInv_frame: "recordInv m \<Longrightarrow> mx_record m' = mx_record m \<Longrightarrow> mx_slots m' = mx_slots m \<Longrightarrow> mx_ents m' = mx_ents m \<Longrightarrow> recordInv m'"
  by (rule recordInv_view) (auto simp: mx_record_def)

lemma enqueue_frame [simp]:
  "mx_record (enqueue m c) = mx_record m" "mx_slots (enqueue m c) = mx_slots m" "mx_ents (enqueue m c) = mx_ents m" "mx_domains (enqueue m c) = mx_domains m"
  "mx_emitted (enqueue m c) = mx_emitted m"
  by (simp_all add: enqueue_def mx_record_def mx_tables_def mx_domains_def mx_emitted_def)

text \<open>A call that touches nothing but the registry, and queues a ready change.\<close>

lemma ctrl_enqueue:
  assumes "ctrlReady m" "mx_frame m' = mx_frame m" "mx_ents m' = mx_ents m" "mx_sources m' = mx_sources m" "mx_groupHeap m' = mx_groupHeap m"
    "mx_changes m' = mx_changes m" "mx_domains m' = mx_domains m" "mx_slots m' = mx_slots m" "mx_record m' = mx_record m" "changeReady m' c"
  shows "ctrlReady (enqueue m' c)"
proof -
  have "renderOk m" "recordInv m" "freshOk m" using assms(1) by (simp_all add: ctrlReady_def)
  then have "renderOk (enqueue m' c)" by (intro enqueue_render[OF _ assms(2,3) heapsLe_same[OF assms(4,5)] _ assms(6,10)]) (simp_all add: renderOk_def heapFull_def assms(5))
  moreover have "recordInv (enqueue m' c)" using recordInv_frame[OF \<open>recordInv m\<close>, of "enqueue m' c"] assms by simp
  moreover have "freshOk (enqueue m' c)" using fresh_domains[of "enqueue m' c" m] assms(7) \<open>freshOk m\<close> by simp
  ultimately show ?thesis by (simp add: ctrlReady_def)
qed

lemma ctrl_same:
  assumes "ctrlReady m" "mx_frame m' = mx_frame m" "mx_ents m' = mx_ents m" "mx_sources m' = mx_sources m" "mx_groupHeap m' = mx_groupHeap m"
    "mx_changes m' = mx_changes m" "mx_domains m' = mx_domains m" "mx_slots m' = mx_slots m" "mx_record m' = mx_record m"
  shows "ctrlReady m'"
proof -
  have "renderOk m" "recordInv m" "freshOk m" using assms(1) by (simp_all add: ctrlReady_def)
  moreover have "list_all (changeReady m') (mx_changes m')"
    using changesReady_mono[of m "mx_changes m" m'] frame_fixed[OF assms(2)] heapsLe_same[OF assms(4,5)] \<open>renderOk m\<close> assms(6) by (simp add: renderOk_def)
  ultimately show ?thesis
    using renderOk_frame[OF _ assms(2,3) heapsLe_same[OF assms(4,5)]] recordInv_frame[OF _ assms(9,8,3)] fresh_domains[OF assms(7)]
    by (simp add: ctrlReady_def renderOk_def heapFull_def assms(5))
qed

lemma ctrl_upd [simp]:
  "mx_frame (m \<lparr> mx_nextSink := k \<rparr>) = mx_frame m" "mx_domains (m \<lparr> mx_nextSink := k \<rparr>) = mx_domains m" "mx_record (m \<lparr> mx_nextSink := k \<rparr>) = mx_record m"
  "mx_frame (m \<lparr> mx_nextAmbi := k \<rparr>) = mx_frame m" "mx_domains (m \<lparr> mx_nextAmbi := k \<rparr>) = mx_domains m" "mx_record (m \<lparr> mx_nextAmbi := k \<rparr>) = mx_record m"
  "mx_frame (m \<lparr> mx_destroyed := ds \<rparr>) = mx_frame m" "mx_record (m \<lparr> mx_destroyed := ds \<rparr>) = mx_record m"
  "mx_frame (m \<lparr> mx_ambiDestroyed := ds \<rparr>) = mx_frame m" "mx_record (m \<lparr> mx_ambiDestroyed := ds \<rparr>) = mx_record m"
  by (simp_all add: mx_frame_def mx_domains_def mx_record_def mx_tables_def)

lemma AddSink_ctrl:
  assumes "ctrlReady m" "noPanic (AddSink m eid) = Inr m'"
  shows "ctrlReady m'"
proof -
  let ?k = "mx_nextSink m" let ?m = "m \<lparr> mx_nextSink := ?k + 1 \<rparr>"
  show ?thesis
  proof (cases "admit ?m eid (\<lambda>re. re_sink re \<noteq> None) ErrDuplicateSink (\<lambda>re. re \<lparr> re_sink := Some ?k \<rparr>)")
    case (Inl e)
    have "ctrlReady (?m \<lparr> mx_destroyed := mx_destroyed m @ [?k] \<rparr>)" by (rule ctrl_same[OF assms(1)]) simp_all
    then show ?thesis using assms(2) Inl by (simp add: AddSink_def Let_def)
  next
    case (Inr m1)
    have "ctrlReady (enqueue m1 (ChAddSink eid ?k))" by (rule ctrl_enqueue[OF assms(1)]) (simp_all add: admit_frame[OF Inr])
    then show ?thesis using assms(2) Inr by (simp add: AddSink_def Let_def)
  qed
qed

lemma AddAmbi_ctrl:
  assumes "ctrlReady m" "noPanic (AddAmbiSink ms m eid order) = Inr m'"
  shows "ctrlReady m'"
proof (cases "order < 2 \<or> order > 3 \<or> order > cf_Order (mx_cfg m) \<or> \<not> ms ((order + 1) * (order + 1))")
  case True
  then have "m' = m" using assms(2) by (auto simp: AddAmbiSink_def split: if_splits)
  then show ?thesis using assms(1) by simp
next
  case False
  let ?k = "mx_nextAmbi m" let ?m = "m \<lparr> mx_nextAmbi := ?k + 1 \<rparr>"
  show ?thesis
  proof (cases "admit ?m eid (\<lambda>re. map_of (re_ambi re) order \<noteq> None) ErrDuplicateSink (\<lambda>re. re \<lparr> re_ambi := AList.update order ?k (re_ambi re) \<rparr>)")
    case (Inl e)
    have "ctrlReady (?m \<lparr> mx_ambiDestroyed := mx_ambiDestroyed m @ [?k] \<rparr>)" by (rule ctrl_same[OF assms(1)]) simp_all
    then show ?thesis using assms(2) Inl False by (simp add: AddAmbiSink_def Let_def)
  next
    case (Inr m1)
    have "mx_cfg m1 = mx_cfg m" using admit_cfg[OF Inr] by simp
    then have "ambiOrderOk (mx_cfg m1) order" using False by (simp add: ambiOrderOk_def)
    then have "ctrlReady (enqueue m1 (ChAddAmbi eid order ?k))" by (intro ctrl_enqueue[OF assms(1)]) (simp_all add: admit_frame[OF Inr])
    then show ?thesis using assms(2) Inr False by (simp add: AddAmbiSink_def Let_def)
  qed
qed

lemma nogroup_frame:
  assumes "mx_nogroup m' = mx_nogroup m"
  shows "mx_frame m' = mx_frame m" "mx_ents m' = mx_ents m" "mx_sources m' = mx_sources m" "mx_changes m' = mx_changes m" "mx_slots m' = mx_slots m"
    "mx_record m' = mx_record m" "mx_emitted m' = mx_emitted m" "mx_nextSource m' = mx_nextSource m"
proof -
  have n: "mx_frame (mx_nogroup m) = mx_frame m" "mx_ents (mx_nogroup m) = mx_ents m" "mx_sources (mx_nogroup m) = mx_sources m" "mx_changes (mx_nogroup m) = mx_changes m"
    "mx_slots (mx_nogroup m) = mx_slots m" "mx_record (mx_nogroup m) = mx_record m" "mx_emitted (mx_nogroup m) = mx_emitted m" "mx_nextSource (mx_nogroup m) = mx_nextSource m"
    for m :: "'a Mixer" by (simp_all add: mx_nogroup_def mx_frame_def mx_record_def mx_tables_def mx_emitted_def)
  show "mx_frame m' = mx_frame m" "mx_ents m' = mx_ents m" "mx_sources m' = mx_sources m" "mx_changes m' = mx_changes m" "mx_slots m' = mx_slots m"
    "mx_record m' = mx_record m" "mx_emitted m' = mx_emitted m" "mx_nextSource m' = mx_nextSource m"
    using assms n[of m] n[of m'] by simp_all
qed

lemma ctrl_grow:
  assumes "ctrlReady m" "mx_frame m' = mx_frame m" "mx_ents m' = mx_ents m" "heapsLe m m'" "heapFull m'" "freshOk m'" "mx_changes m' = mx_changes m"
    "mx_slots m' = mx_slots m" "mx_record m' = mx_record m"
  shows "ctrlReady m'"
proof -
  have r: "renderOk m" "recordInv m" using assms(1) by (simp_all add: ctrlReady_def)
  have "list_all (changeReady m') (mx_changes m')"
    using changesReady_mono[of m "mx_changes m" m'] frame_fixed[OF assms(2)] assms(4,7) r(1) by (simp add: renderOk_def)
  then show ?thesis using renderOk_frame[OF r(1) assms(2,3,4,5)] recordInv_frame[OF r(2) assms(9,8,3)] assms(6) by (simp add: ctrlReady_def)
qed

lemma AddSource_ctrl:
  assumes "ctrlReady m" "noPanic (AddSource cd m eid cfg0) = Inr m'"
  shows "ctrlReady m'"
proof -
  obtain m1 r where b: "buildSource cd m eid (applyDefaults cfg0) = (m1, r)" by fastforce
  note n = nogroup_frame[OF buildSource_nogroup[OF b]]
  have hf: "heapFull m" "freshOk m" using assms(1) by (simp_all add: ctrlReady_def renderOk_def)
  note k = buildSource_ready[OF b hf, unfolded buildOk_def]
  have c1: "ctrlReady m1" by (rule ctrl_grow[OF assms(1) n(1,2)]) (use k n in simp_all)
  show ?thesis
  proof (cases r)
    case (Ret src)
    let ?h = "mx_nextSource m1" let ?ref = "\<lparr> sr_handle = ?h, sr_group = src_group src \<rparr>"
    show ?thesis
    proof (cases "admit m1 eid (\<lambda>re. re_src re \<noteq> None) ErrDuplicateSource (\<lambda>re. re \<lparr> re_src := Some ?ref \<rparr>)")
      case (Inl e)
      then show ?thesis using assms(2) b Ret c1 by (simp add: AddSource_eq Let_def)
    next
      case (Inr m2)
      note a = admit_frame[OF Inr]
      let ?m3 = "m2 \<lparr> mx_sources := (mx_sources m2)(?h \<mapsto> src), mx_nextSource := ?h + 1 \<rparr>" let ?m4 = "joinGroup ?m3 src ?h"
      have free: "mx_sources m1 ?h = None" using k by (simp add: freshOk_def)
      have le3: "heapsLe m1 ?m3" using a(3,4) free by (auto simp: heapsLe_def)
      have le: "heapsLe m1 ?m4" "heapsLe ?m3 ?m4" using heapsLe_trans[OF le3 joinGroup_heaps(1)] joinGroup_heaps(1) by auto
      have full: "heapFull ?m4" by (rule joinGroup_heaps(2)) (use k a(4) in \<open>simp add: heapFull_def\<close>)
      have "freshOk ?m3" using k a(3,4,6) by (auto simp: freshOk_def mx_domains_def)
      then have fr: "freshOk ?m4" using fresh_domains[OF joinGroup_frame(8)] by blast
      have "srcReady ?m3 ?ref" using k Ret a(4) by (simp add: srcReady_def)
      then have rdy: "changeReady ?m4 (ChAddSource eid ?ref p hf grp)" for p hf grp using srcReady_mono[OF _ le(2)] by simp
      have f3: "mx_frame ?m3 = mx_frame m2" "mx_record ?m3 = mx_record m2" by (simp_all add: mx_frame_def mx_record_def mx_tables_def)
      have f4: "mx_frame ?m4 = mx_frame m1" "mx_ents ?m4 = mx_ents m1" "mx_changes ?m4 = mx_changes m1" "mx_slots ?m4 = mx_slots m1" "mx_record ?m4 = mx_record m1"
        using a f3 by (simp_all add: joinGroup_frame)
      have "renderOk (enqueue ?m4 (ChAddSource eid ?ref p hf grp))" for p hf grp
        by (rule enqueue_render[OF _ f4(1,2) le(1) full f4(3) rdy]) (use c1 in \<open>simp add: ctrlReady_def\<close>)
      moreover have "recordInv (enqueue ?m4 c)" for c using c1 f4 recordInv_frame[of m1 "enqueue ?m4 c"] by (simp add: ctrlReady_def mx_record_def enqueue_def mx_tables_def)
      moreover have "freshOk (enqueue ?m4 c)" for c using fr fresh_domains[of "enqueue ?m4 c" ?m4] by simp
      ultimately show ?thesis using assms(2) b Ret Inr by (auto simp: AddSource_eq Let_def ctrlReady_def)
    qed
  qed (use assms(2) b c1 in \<open>simp_all add: AddSource_eq Let_def\<close>)
qed

lemma release_frame [simp]:
  "mx_frame (release m eid re) = mx_frame m" "mx_ents (release m eid re) = mx_ents m" "mx_sources (release m eid re) = mx_sources m"
  "mx_groupHeap (release m eid re) = mx_groupHeap m" "mx_changes (release m eid re) = mx_changes m" "mx_domains (release m eid re) = mx_domains m"
  "mx_slots (release m eid re) = mx_slots m" "mx_record (release m eid re) = mx_record m"
  by (simp_all add: release_def mx_frame_def mx_domains_def mx_record_def mx_tables_def)

lemma drain_ctrl:
  assumes "ctrlReady m" "liveOk m" "drainChanges m = Inr m'" "mx_changes m' = []"
  shows "ctrlReady m'"
proof -
  have "m' \<lparr> mx_changes := [] \<rparr> = m'" using assms(4) by simp
  then have "renderOk m'" using drain_rstep(2)[OF assms(3)] assms(1) by (simp add: ctrlReady_def)
  then show ?thesis using drain_record[OF assms(3,2)] assms(1) fresh_domains[OF drain_out(2)[OF assms(3)]] by (simp add: ctrlReady_def)
qed

lemma mx_step_ctrl:
  assumes "ctrlReady m" "mxInv m" "mx_step cd ms op m = Inr m'" "op \<noteq> MClose"
  shows "ctrlReady m'"
proof (cases op)
  case (MAddSource eid cfg)
  then show ?thesis using AddSource_ctrl[OF assms(1)] assms(3) by simp
next
  case (MAddSink eid)
  then show ?thesis using AddSink_ctrl[OF assms(1)] assms(3) by simp
next
  case (MAddAmbiSink eid order)
  then show ?thesis using AddAmbi_ctrl[OF assms(1)] assms(3) by simp
next
  case MDrain
  then show ?thesis using drain_ctrl[OF assms(1)] drain_inv[of m] assms by (auto simp: mxInv_def split: if_splits)
qed (use assms in \<open>auto simp: RemoveSource_eq RemoveSink_def RemoveAmbiSink_def SetRenderParams_def SetChannel_def SetPersonalMute_def
    SetPersonalSolo_def SetEntityMuted_def intro!: ctrl_enqueue[OF assms(1)] split: option.splits if_splits\<close>)

section \<open>Packets from the network\<close>

lemma decodePacket_shape: "decodePacket cd mt s pkt = Some (pcm, s') \<Longrightarrow> srcShape s' = srcShape s"
  by (auto simp: decodePacket_def decodeRaw_def Let_def srcShape_def split: if_splits option.splits prod.splits)

lemma concealPCM_shape: "concealPCM cd s n = Some (pcm, s') \<Longrightarrow> srcShape s' = srcShape s"
  by (auto simp: concealPCM_def Let_def srcShape_def split: if_splits option.splits prod.splits)

lemma ingestPCM_shape: "ingestPCM s pcm = Some s' \<Longrightarrow> srcShape s' = srcShape s"
  by (auto simp: ingestPCM_def srcShape_def split: option.splits)

lemma pushPose_shape [simp]: "srcShape (pushPose s seq p) = srcShape s"
  by (simp add: pushPose_def srcShape_def split: option.split)

lemma concealRaw_shape: "concealRaw s n = Some s' \<Longrightarrow> srcShape s' = srcShape s"
proof (induction s n rule: concealRaw.induct)
  case (1 s samples)
  show ?case
  proof (cases "samples > 0 \<and> src_rawScratch s \<noteq> []")
    case True
    let ?n = "min samples (length (src_rawScratch s))"
    obtain b where b: "src_jitter s = Some b" using 1(2) True by (subst (asm) concealRaw.simps) (auto simp: Let_def split: option.splits)
    let ?s = "s \<lparr> src_rawScratch := replicate ?n 0 @ drop ?n (src_rawScratch s), src_jitter := Some (Write b (replicate ?n 0)), src_samplesWritten := src_samplesWritten s + ?n \<rparr>"
    have "concealRaw ?s (samples - ?n) = Some s'" using 1(2) True b by (subst (asm) concealRaw.simps) (simp add: Let_def)
    from 1(1)[OF True refl refl b this] show ?thesis using b by (simp add: srcShape_def)
  next
    case False
    then show ?thesis using 1(2) by (subst (asm) concealRaw.simps) auto
  qed
qed

lemma src_step_shape: "src_step cd mt gs s op = Some s' \<Longrightarrow> srcShape s' = srcShape s"
proof (cases op)
  case (SrcOpus seq pose pkt)
  moreover assume "src_step cd mt gs s op = Some s'"
  ultimately show ?thesis
    by (auto simp: WriteOpus_def bind_eq_Some_conv dest!: ingestPCM_shape decodePacket_shape split: if_splits)
next
  case (SrcPCM seq pose pcm)
  moreover assume "src_step cd mt gs s op = Some s'"
  ultimately show ?thesis by (auto simp: WritePCM_def dest!: ingestPCM_shape split: if_splits)
next
  case (SrcConceal n)
  moreover assume "src_step cd mt gs s op = Some s'"
  ultimately show ?thesis
    by (auto simp: Conceal_def bind_eq_Some_conv dest!: ingestPCM_shape dest: concealRaw_shape split: if_splits option.splits) (simp_all add: srcShape_def)
next
  case (SrcRead dst)
  moreover assume "src_step cd mt gs s op = Some s'"
  ultimately show ?thesis by (auto simp: readFrame_def srcShape_def split: option.splits prod.splits)
qed

text \<open>\<^verbatim>\<open>WriteFrame\<close> on the heap: the members' states are written back under their handles.\<close>

definition putMembers :: "nat option list \<Rightarrow> 'd Source option list \<Rightarrow> (nat \<Rightarrow> 'd Source option) \<Rightarrow> nat \<Rightarrow> 'd Source option" where
  "putMembers hs ss S = foldl (\<lambda>S hs. case hs of (Some h, Some s) \<Rightarrow> S(h \<mapsto> s) | _ \<Rightarrow> S) S (zip hs ss)"

definition group_WriteFrame :: "'d Codec \<Rightarrow> 'd Mixer \<Rightarrow> nat \<Rightarrow> nat \<Rightarrow> GroupChannel list \<Rightarrow> 'd Mixer option" where
  "group_WriteFrame cd m h seq chans =
    do { g \<leftarrow> mx_groupHeap m h;
         (g', ms) \<leftarrow> WriteFrame cd (ev_math (mx_env m)) g (map (\<lambda>o'. Option.bind o' (mx_sources m)) (sg_members g)) seq chans;
         Some (m \<lparr> mx_groupHeap := (mx_groupHeap m)(h \<mapsto> g'), mx_sources := putMembers (sg_members g) ms (mx_sources m) \<rparr>) }"

definition sameShapes :: "'d Source option list \<Rightarrow> 'd Source option list \<Rightarrow> bool" where
  "sameShapes xs ys \<longleftrightarrow> list_all2 (\<lambda>a b. map_option srcShape b = map_option srcShape a) xs ys"

lemma memberPCM_shape: "memberPCM cd mt s c = Some (pcm, s') \<Longrightarrow> map_option srcShape s' = map_option srcShape s"
  by (auto simp: memberPCM_def dest!: decodePacket_shape concealPCM_shape split: option.splits if_splits)

lemma writeMembers_shape: "writeMembers cd mt n i ms cs sc = Some (ms', sc') \<Longrightarrow> sameShapes ms ms'"
proof (induction cd mt n i ms cs sc arbitrary: ms' sc' rule: writeMembers.induct)
  case (3 cd mt n i m ms c cs scratch)
  then show ?case by (fastforce simp: bind_eq_Some_conv sameShapes_def dest: memberPCM_shape)
qed (auto simp: sameShapes_def)

lemma pinPoses_shape: "pinPoses seq pos ms cs = Some ms' \<Longrightarrow> sameShapes ms ms'"
proof (induction seq pos ms cs arbitrary: ms' rule: pinPoses.induct)
  case (1 seq pos ms)
  then show ?case by (simp add: sameShapes_def list_all2_refl)
next
  case (3 seq pos m ms c cs)
  then show ?case by (auto simp: sameShapes_def srcShape_def split: option.splits)
qed (auto simp: sameShapes_def split: if_splits)

lemma sameShapes_refl: "sameShapes xs xs"
  by (simp add: sameShapes_def list_all2_refl)

lemma sameShapes_trans: "sameShapes a b \<Longrightarrow> sameShapes b c \<Longrightarrow> sameShapes a c"
  by (simp add: sameShapes_def list_all2_conv_all_nth)

lemma WriteFrame_shape:
  assumes "WriteFrame cd mt g ms seq chans = Some (g', ms')"
  shows "sameShapes ms ms'" "sg_n g' = sg_n g" "sg_readScratch g' = sg_readScratch g"
proof -
  obtain g1 ms1 where 1: "(if \<exists>c\<in>set chans. carriesAudio c then
         map_option (\<lambda>(ms, sc). (g \<lparr> sg_writeScratch := sc, sg_jitter := Write (sg_jitter g) sc, sg_samplesWritten := sg_samplesWritten g + FrameSize \<rparr>, ms))
           (writeMembers cd mt (sg_n g) 0 ms chans (sg_writeScratch g)) else Some (g, ms)) = Some (g1, ms1)"
      and 2: "pinPoses seq (sg_samplesWritten g1) ms1 chans = Some ms'" "g' = g1"
    using assms unfolding WriteFrame_def by (auto simp: bind_eq_Some_conv)
  have "sameShapes ms ms1 \<and> sg_n g1 = sg_n g \<and> sg_readScratch g1 = sg_readScratch g"
    using 1 by (auto simp: sameShapes_refl dest!: writeMembers_shape split: if_splits)
  then show "sameShapes ms ms'" "sg_n g' = sg_n g" "sg_readScratch g' = sg_readScratch g" using sameShapes_trans pinPoses_shape[OF 2(1)] 2(2) by auto
qed

lemma putMembers_shape:
  assumes "sameShapes ss ss'" "length hs = length ss" "\<And>i h. i < length hs \<Longrightarrow> hs ! i = Some h \<Longrightarrow> map_option srcShape (S0 h) = map_option srcShape (ss ! i)"
    "\<And>h. map_option srcShape (S h) = map_option srcShape (S0 h)"
  shows "map_option srcShape (putMembers hs ss' S h) = map_option srcShape (S0 h)"
proof -
  have l: "length ss' = length ss" using assms(1) by (simp add: sameShapes_def list_all2_lengthD)
  have "map_option srcShape (foldl (\<lambda>S hs. case hs of (Some h, Some s) \<Rightarrow> S(h \<mapsto> s) | _ \<Rightarrow> S) S ps h) = map_option srcShape (S0 h)"
    if "\<And>h s. (Some h, Some s) \<in> set ps \<Longrightarrow> map_option srcShape (S0 h) = Some (srcShape s)" "\<And>h. map_option srcShape (S h) = map_option srcShape (S0 h)" for ps S
    using that
  proof (induction ps arbitrary: S)
    case (Cons p ps)
    let ?S = "case p of (Some h, Some s) \<Rightarrow> S(h \<mapsto> s) | _ \<Rightarrow> S"
    have "map_option srcShape (?S h) = map_option srcShape (S0 h)" for h
    proof (cases "\<exists>s. p = (Some h, Some s)")
      case True
      then obtain s where p: "p = (Some h, Some s)" by blast
      then show ?thesis using Cons.prems(1)[of h s] by auto
    next
      case False
      then show ?thesis using Cons.prems(2)[of h] by (cases p; cases "fst p"; cases "snd p") auto
    qed
    then show ?case using Cons.IH[of ?S] Cons.prems(1) by simp
  qed simp
  moreover have "map_option srcShape (S0 h) = Some (srcShape s)" if m: "(Some h, Some s) \<in> set (zip hs ss')" for h s
  proof -
    obtain i where i: "i < length hs" "hs ! i = Some h" "ss' ! i = Some s" using m assms(2) l by (auto simp: in_set_zip)
    then have "map_option srcShape (ss' ! i) = map_option srcShape (ss ! i)" using assms(1,2) by (auto simp: sameShapes_def list_all2_conv_all_nth)
    then show ?thesis using assms(3)[OF i(1,2)] i(3) by simp
  qed
  ultimately show ?thesis unfolding putMembers_def using assms(4) by blast
qed

lemma group_WriteFrame_heaps:
  assumes "group_WriteFrame cd m h seq chans = Some m'" "heapFull m"
  shows "heapsLe m m'" "heapFull m'" "mx_domains m' = mx_domains m"
    "\<exists>gh ss. m' = m \<lparr> mx_groupHeap := gh, mx_sources := ss \<rparr>"
proof -
  obtain g g' ms where g: "mx_groupHeap m h = Some g"
    "WriteFrame cd (ev_math (mx_env m)) g (map (\<lambda>o'. Option.bind o' (mx_sources m)) (sg_members g)) seq chans = Some (g', ms)"
    and m': "m' = m \<lparr> mx_groupHeap := (mx_groupHeap m)(h \<mapsto> g'), mx_sources := putMembers (sg_members g) ms (mx_sources m) \<rparr>"
    using assms(1) by (auto simp: group_WriteFrame_def bind_eq_Some_conv)
  note w = WriteFrame_shape[OF g(2)]
  have sh: "map_option srcShape (mx_sources m' x) = map_option srcShape (mx_sources m x)" for x
    unfolding m' using putMembers_shape[OF w(1), of "sg_members g" "mx_sources m" "mx_sources m" x] by simp
  have "\<exists>s'. mx_sources m' x = Some s' \<and> srcShape s' = srcShape s" if "mx_sources m x = Some s" for x s
    using sh[of x] that by (cases "mx_sources m' x") auto
  then show "heapsLe m m'" using g(1) w(2) by (auto simp: heapsLe_def m')
  show "heapFull m'" using assms(2) g(1) w(2,3) by (auto simp: heapFull_def m' groupFull_def split: if_splits)
  have "mx_sources m' x = None \<longleftrightarrow> mx_sources m x = None" for x using sh[of x] by (metis map_option_is_None)
  then have "dom (mx_sources m') = dom (mx_sources m)" by (auto simp: dom_def)
  then show "mx_domains m' = mx_domains m" using g(1) by (auto simp: mx_domains_def m')
  show "\<exists>gh ss. m' = m \<lparr> mx_groupHeap := gh, mx_sources := ss \<rparr>" unfolding m' by blast
qed

section \<open>Runs\<close>

inductive reach :: "'d Codec \<Rightarrow> (int \<Rightarrow> bool) \<Rightarrow> Env \<Rightarrow> (int \<Rightarrow> bool) \<Rightarrow> Config \<Rightarrow> 'd Mixer \<Rightarrow> bool"
  for cd ms env banks cfg where
  start: "New env banks cfg = Inr m \<Longrightarrow> reach cd ms env banks cfg m"
| call: "reach cd ms env banks cfg m \<Longrightarrow> mx_op_ok cd op \<Longrightarrow> mx_step cd ms op m = Inr m' \<Longrightarrow> reach cd ms env banks cfg m'"
| tick: "reach cd ms env banks cfg m \<Longrightarrow> \<not> mx_stopped m \<Longrightarrow> Process m = Some m' \<Longrightarrow> reach cd ms env banks cfg m'"
| pose: "reach cd ms env banks cfg m \<Longrightarrow> reach cd ms env banks cfg (SetPose m k p)"
| ambiPose: "reach cd ms env banks cfg m \<Longrightarrow> reach cd ms env banks cfg (SetAmbiPose m k p)"
| packet: "reach cd ms env banks cfg m \<Longrightarrow> mx_sources m h = Some s \<Longrightarrow> src_step cd (ev_math env) gs s op = Some s' \<Longrightarrow>
    reach cd ms env banks cfg (m \<lparr> mx_sources := (mx_sources m)(h \<mapsto> s') \<rparr>)"
| frame: "reach cd ms env banks cfg m \<Longrightarrow> group_WriteFrame cd m h seq chans = Some m' \<Longrightarrow> reach cd ms env banks cfg m'"

text \<open>What holds in every reachable state.\<close>

definition runInv :: "Env \<Rightarrow> Config \<Rightarrow> 'd Mixer \<Rightarrow> bool" where
  "runInv env cfg m \<longleftrightarrow> mxInv m \<and> sinkInv m \<and> mx_fixed m = (cfg, env) \<and> (\<not> mx_stopped m \<longrightarrow> ctrlReady m)"

lemma admit_stopped: "admit m eid taken dup upd = Inr m' \<Longrightarrow> mx_stopped m' = mx_stopped m"
  by (auto simp: admit_def split: if_splits option.splits)

lemma AddSource_stopped: "noPanic (AddSource cd m eid cfg0) = Inr m' \<Longrightarrow> mx_stopped m' = mx_stopped m"
proof -
  assume a: "noPanic (AddSource cd m eid cfg0) = Inr m'"
  obtain m1 r where b: "buildSource cd m eid (applyDefaults cfg0) = (m1, r)" by fastforce
  have "mx_stopped m1 = mx_stopped m" using nogroup_fields(1)[OF buildSource_nogroup[OF b]] by (simp add: mx_control_def)
  then show ?thesis using a b
    by (cases r) (auto simp: AddSource_eq Let_def enqueue_def joinGroup_def dest!: admit_stopped split: sum.splits option.splits)
qed

lemma mx_step_stopped: "mx_stopped m \<Longrightarrow> mx_step cd ms op m = Inr m' \<Longrightarrow> mx_stopped m'"
  by (cases op) (auto simp: AddSink_def AddAmbiSink_def Let_def RemoveSource_eq RemoveSink_def RemoveAmbiSink_def enqueue_def release_def Close_def
    SetRenderParams_def SetChannel_def SetPersonalMute_def SetPersonalSolo_def SetEntityMuted_def
    dest!: admit_stopped AddSource_stopped split: if_splits option.splits sum.splits)

lemma Close_stops: "Close m = Inr m' \<Longrightarrow> mxInv m \<Longrightarrow> mx_stopped m'"
proof (cases "mx_stopped m")
  case False
  let ?m = "m \<lparr> mx_closed := True, mx_stopped := True \<rparr>"
  assume c: "Close m = Inr m'" and i: "mxInv m"
  have l: "ctlOk ?m" "liveOk ?m" using i False by (auto simp: mxInv_def ctlOk_def liveOk_def)
  obtain m1 where m1: "drainChanges ?m = Inr m1" "m' = foldl closeSlot m1 (mx_slots m1)" using c False by (auto simp: Close_def Let_def split: sum.splits)
  have "mx_control m' = mx_control (?m \<lparr> mx_changes := [] \<rparr>)" using closeAll_control[of m1] m1 drain_inv[OF l] by auto
  then show ?thesis by (simp add: mx_control_def)
qed (auto simp: Close_def Let_def)

lemma New_ready:
  assumes "New env banks cfg = Inr m"
  shows "ctrlReady m"
proof -
  have c: "configOk cfg" using assms by (auto simp: New_def configOk_def split: if_splits)
  have m: "mx_cfg m = cfg" "mx_ents m = Map.empty" "mx_changes m = []" "mx_groupHeap m = Map.empty" "mx_sources m = Map.empty" "mx_audible m = replicate (nat (cf_MaxEntities cfg)) (replicate (nat (cf_MaxEntities cfg)) False)"
    "mx_pairGain m = replicate (nat (cf_MaxEntities cfg)) (replicate (nat (cf_MaxEntities cfg)) 0)"
    "mx_pairAttExp m = replicate (nat (cf_MaxEntities cfg)) (replicate (nat (cf_MaxEntities cfg)) 0)"
    "mx_shared m = NewSharedInputs (encCfg cfg)" "mx_workers m = replicate (nat (cf_Workers cfg)) (newWorker cfg)" "mx_nextWork m = 0"
    using assms by (auto simp: New_def Let_def split: if_splits)
  have "mixersOk (encCfg cfg) True (newWorker cfg)" by (simp add: mixersOk_def newWorker_def new_mixer_idle)
  then have "frameOk m" using c by (auto simp: frameOk_def Let_def m square_def NewSharedInputs_def encCfg_def configOk_def)
  moreover have "recordInv m" using m(2) by (auto simp: recordInv_def recordCurrent_def liveEnts_mem)
  ultimately show ?thesis by (simp add: ctrlReady_def renderOk_def heapFull_def entsOk_def freshOk_def m)
qed

lemma ctrl_heap:
  assumes "ctrlReady m" "m' = m \<lparr> mx_groupHeap := gh, mx_sources := ss \<rparr>" "heapsLe m m'" "heapFull m'" "mx_domains m' = mx_domains m"
  shows "ctrlReady m'"
  by (rule ctrl_grow[OF assms(1)]) (use assms fresh_domains[OF assms(5)] in \<open>simp_all add: ctrlReady_def mx_frame_def mx_record_def mx_tables_def\<close>)

lemma inv_heap: "mxInv m \<Longrightarrow> mxInv (m \<lparr> mx_groupHeap := gh, mx_sources := ss \<rparr>)" "sinkInv m \<Longrightarrow> sinkInv (m \<lparr> mx_groupHeap := gh, mx_sources := ss \<rparr>)"
  by (erule inv_frame; simp add: mx_control_def) (erule sinkInv_frame; simp)

lemma ctrl_pose: "ctrlReady m \<Longrightarrow> ctrlReady (m \<lparr> mx_sinks := k, mx_ambis := k' \<rparr>)"
  by (erule ctrl_same) (simp_all add: mx_frame_def mx_domains_def mx_record_def mx_tables_def)

lemma inv_pose: "mxInv m \<Longrightarrow> mxInv (m \<lparr> mx_sinks := k, mx_ambis := k' \<rparr>)" "sinkInv m \<Longrightarrow> sinkInv (m \<lparr> mx_sinks := k, mx_ambis := k' \<rparr>)"
  by (erule inv_frame; simp add: mx_control_def) (erule sinkInv_frame; simp)

lemma runInv_pose: "runInv env cfg m \<Longrightarrow> runInv env cfg (m \<lparr> mx_sinks := k, mx_ambis := k' \<rparr>)"
  by (simp add: runInv_def inv_pose ctrl_pose)

lemma samePeers_sinks:
  assumes "samePeers p m"
  shows "sinkOf m = sinkOf p"
proof
  fix x
  show "sinkOf m x = sinkOf p x"
  proof (cases "mx_ents p x")
    case None
    have "dom (mx_ents m) = dom (mx_ents p)" using assms by (simp add: samePeers_def)
    then have "mx_ents m x = None" using None by blast
    then show ?thesis using None by (simp add: sinkOf_def)
  next
    case (Some e)
    then obtain e' where "mx_ents m x = Some e'" "entSame e e'" using assms unfolding samePeers_def by blast
    then show ?thesis using Some by (simp add: sinkOf_def entSame_def)
  qed
qed

lemma prepare_sinks: "prepare m = Some p \<Longrightarrow> tickOk m \<Longrightarrow> sinkOf p = sinkOf m \<and> mx_destroyed p = mx_destroyed m"
proof -
  assume p: "prepare m = Some p" and t: "tickOk m"
  obtain m1 m2 where 1: "(if mx_audibleDirty m then recomputeAudible m else Some m) = Some m1" "m2 = readGroups m1"
    "prepare m = Some (withPeers m2 (ent_id ` set (sinkEnts m2)))" by (rule prepare_ok[OF t])
  have m1: "mx_ents m1 = mx_ents m \<and> mx_destroyed m1 = mx_destroyed m"
  proof (cases "mx_audibleDirty m")
    case True
    then have r: "recordOk (m \<lparr> mx_audibleDirty := False \<rparr>) (length (mx_slots m)) (set (liveEnts m) \<times> set (liveEnts m)) m1" using recompute_tick[OF t] 1(1) by auto
    then have nr: "mx_norecord m1 = mx_norecord (m \<lparr> mx_audibleDirty := False \<rparr>)" by (simp add: recordOk_def)
    have "mx_destroyed (mx_norecord m1) = mx_destroyed m1" "mx_destroyed (mx_norecord (m \<lparr> mx_audibleDirty := False \<rparr>)) = mx_destroyed m" by (simp_all add: mx_norecord_def)
    then show ?thesis using nr norecord_out(5)[OF nr] by simp
  qed (use 1(1) in simp)
  have "sinkOf (withPeers m2 D) x = sinkOf m2 x" for D x by (cases "mx_ents m2 x") (simp_all add: sinkOf_def withPeers_def)
  then have "sinkOf (withPeers m2 D) = sinkOf m" for D using m1 1(2) by (auto simp: sinkOf_def fun_eq_iff)
  moreover have "mx_destroyed (withPeers m2 D) = mx_destroyed m" for D using m1 1(2) by (simp add: withPeers_def readGroups_def)
  ultimately show ?thesis using p 1(3) by auto
qed

lemma Process_sinkInv:
  assumes "readyOk m" "sinkInv m" "\<not> mx_stopped m" "Process m = Some m'"
  shows "sinkInv m'"
proof -
  obtain d p m1 m2 where s: "drainChanges (startTick m) = Inr d" "prepare d = Some p" "runPhase PhaseIn (map ent_id (liveEnts p)) p = Some m1"
    "runPhase PhaseAcross (map ent_id (sinkEnts p)) m1 = Some m2" "runPhase PhaseOut (map ent_id (sinkEnts p)) m2 = Some m'" "tickOk d" "samePeers p m'"
    "mx_control p = mx_control (m \<lparr> mx_changes := [] \<rparr>)" by (rule Process_stages[OF assms(1,3)]) (use assms(4) in auto)
  have i: "sinkInv (startTick m)" by (rule sinkInv_frame[OF assms(2)]) (simp_all add: startTick_frame startTick_def Let_def)
  have r: "readyOk (startTick m)" "\<not> mx_stopped (startTick m)" using startTick_ready[OF assms(1)] assms(3) by (simp_all add: startTick_frame)
  have l: "liveOk (startTick m)" "ctlOk (startTick m)" using r by (auto simp: readyOk_def mxInv_def)
  have d: "sinkInv d" by (rule drain_sinkInv[OF i l(1) s(1) l(2) r(2)])
  have dp: "mx_control p = mx_control d" using s(8) drain_inv[OF l(2,1)] s(1) by (auto simp: mx_control_def startTick_def Let_def)
  have "mx_static m' = mx_static p" using runPhase_static[OF s(3)] runPhase_static[OF s(4)] runPhase_static[OF s(5)] by simp
  then have k: "sinkOf m' = sinkOf d" "mx_destroyed m' = mx_destroyed d" "mx_control m' = mx_control d"
    using samePeers_sinks[OF s(7)] prepare_sinks[OF s(2,6)] samePeers_control[OF s(7)] dp by (simp_all add: mx_static_def)
  then show ?thesis using d by (simp add: sinkInv_def tally_def mx_control_def)
qed

lemma reach_inv:
  assumes "reach cd ms env banks cfg m" "delayModel env cfg" "envOk env"
  shows "runInv env cfg m"
  using assms(1)
proof (induction rule: reach.induct)
  case (start m)
  then show ?case using New_inv[OF start assms(2)] New_sinkInv[OF start] New_ready[OF start] by (simp add: runInv_def)
next
  case (call m op m')
  then have i: "mxInv m" "sinkInv m" "mx_fixed m = (cfg, env)" by (simp_all add: runInv_def)
  have i': "mxInv m'" using mx_step_inv[OF i(1) call.hyps(2), of ms] call.hyps(3) by auto
  have "ctrlReady m'" if ns: "\<not> mx_stopped m'"
  proof -
    have "\<not> mx_stopped m" using mx_step_stopped[OF _ call.hyps(3)] ns by blast
    moreover have "op \<noteq> MClose" using call.hyps(3) ns Close_stops[OF _ i(1)] by auto
    ultimately show ?thesis using mx_step_ctrl[OF _ i(1) call.hyps(3)] call.IH by (simp add: runInv_def)
  qed
  then show ?case using i' mx_step_sinkInv[OF i(2,1) call.hyps(3)] mx_step_cfg[OF i(1) call.hyps(3)] i(3) by (simp add: runInv_def)
next
  case (tick m m')
  then have r: "readyOk m" "sinkInv m" "freshOk m" using assms(3) by (auto simp: runInv_def ctrlReady_def readyOk_def)
  note p = Process_ready[OF r(1) tick.hyps(2,3)]
  have "freshOk (startTick m)" using r(3) by (simp add: freshOk_def startTick_frame)
  then have "ctrlReady m'" using p(1) fresh_domains[OF p(2)] by (simp add: readyOk_def ctrlReady_def)
  moreover have "mx_fixed m' = (cfg, env)" using tick.IH p(3) by (simp add: runInv_def mx_control_def)
  ultimately show ?case using p(1) Process_sinkInv[OF r(1,2) tick.hyps(2,3)] by (simp add: runInv_def readyOk_def)
next
  case (pose m k p)
  have "SetPose m k p = m \<lparr> mx_sinks := (mx_sinks m)(k := (mx_sinks m k) \<lparr> sk_pose := Some p \<rparr>), mx_ambis := mx_ambis m \<rparr>" by (simp add: SetPose_def)
  then show ?case using runInv_pose[OF pose.IH] by metis
next
  case (ambiPose m k p)
  have "SetAmbiPose m k p = m \<lparr> mx_sinks := mx_sinks m, mx_ambis := (mx_ambis m)(k := (mx_ambis m k) \<lparr> sk_pose := Some p \<rparr>) \<rparr>" by (simp add: SetAmbiPose_def)
  then show ?case using runInv_pose[OF ambiPose.IH] by metis
next
  case (packet m h s gs op s')
  let ?m = "m \<lparr> mx_sources := (mx_sources m)(h \<mapsto> s') \<rparr>"
  have le: "heapsLe m ?m" using packet.hyps(2) src_step_shape[OF packet.hyps(3)] by (auto simp: heapsLe_def)
  have d: "mx_domains ?m = mx_domains m" using packet.hyps(2) by (auto simp: mx_domains_def)
  have "ctrlReady ?m" if c: "ctrlReady m"
    by (rule ctrl_grow[OF c _ _ le]) (use c fresh_domains[OF d] in \<open>simp_all add: ctrlReady_def renderOk_def heapFull_def mx_frame_def mx_record_def mx_tables_def\<close>)
  moreover have "mxInv ?m" "sinkInv ?m" using packet.IH inv_frame[of m ?m] sinkInv_frame[of m ?m] by (simp_all add: runInv_def mx_control_def)
  ultimately show ?case using packet.IH by (simp add: runInv_def)
next
  case (frame m h seq chans m')
  obtain gh ss where m': "m' = m \<lparr> mx_groupHeap := gh, mx_sources := ss \<rparr>" using frame.hyps(2) unfolding group_WriteFrame_def by (auto simp: bind_eq_Some_conv)
  have "ctrlReady m'" if c: "ctrlReady m"
  proof -
    have "heapFull m" using c by (simp add: ctrlReady_def renderOk_def)
    from group_WriteFrame_heaps[OF frame.hyps(2) this] show ?thesis using ctrl_heap[OF c m'] by blast
  qed
  then show ?case using frame.IH inv_heap[of m ss gh] by (simp add: runInv_def m')
qed

section \<open>Properties\<close>

lemma reach_ready:
  assumes "reach cd ms env banks cfg m" "delayModel env cfg" "envOk env" "\<not> mx_stopped m"
  shows "readyOk m" "sinkInv m" "mx_env m = env" "mx_cfg m = cfg"
  using reach_inv[OF assms(1-3)] assms(3,4) by (auto simp: runInv_def readyOk_def ctrlReady_def)

text \<open>C2. A tick of the engine never panics. In any state a run can reach (calls, poses, packets and ticks in
  any order, before closing) the whole of \<^verbatim>\<open>Process\<close> completes: queued changes, the pair record, the groups, and
  the In, Across and Out phases of every entity, on whatever worker. Afterwards the queue is empty, the
  tick count is one higher, and the sample clock is 240 times the number of ticks before it, modulo
  the 64 bits of its counter.\<close>

theorem Process_never_panics:
  assumes "reach cd ms env banks cfg m" "delayModel env cfg" "envOk env" "\<not> mx_stopped m"
  shows "\<exists>m'. Process m = Some m' \<and> mx_changes m' = [] \<and> mx_reg m' = mx_reg m \<and> mx_tickCount m' = mx_tickCount m + 1 \<and>
    mx_frameStart m' = (nat (mx_tickCount m) * 240) mod 2 ^ 64"
proof -
  note r = reach_ready[OF assms]
  obtain m' where m': "Process m = Some m'" by (rule Process_completes[OF r(1) assms(4)])
  note p = Process_ready[OF r(1) assms(4) m']
  show ?thesis using m' p(2,3) by (auto simp: mx_control_def mx_domains_def startTick_def Let_def FrameSize_def)
qed

lemma demo_envOk: "envOk demo_env"
  using demo_math_ok demo_sgemm_ok by (simp add: envOk_def demo_env_def)

lemma demo_reach: "reach demo_codec (\<lambda>_. True) demo_env (\<lambda>_. True) (DefaultConfig \<lparr> cf_MaxEntities := int (Suc n) \<rparr>) (demo_new_mixer (Suc n))"
  by (rule reach.start[OF demo_mixer])

lemma demo_running: "\<not> mx_stopped (demo_new_mixer (Suc n))" "mx_tickCount (demo_new_mixer (Suc n)) = 0"
  by (simp_all add: demo_new_mixer_def New_def DefaultConfig_def Let_def)

theorem Process_never_panics_witness: "\<exists>m'. Process (demo_new_mixer 3) = Some m' \<and> mx_tickCount m' = 1 \<and> mx_frameStart m' = 0"
  using Process_never_panics[OF demo_reach[of 2] demo_delayModel demo_envOk] demo_running[of 2] by (auto simp: numeral_3_eq_3)

end
