(* ===== verification/Render_Laws.thy ===== *)
theory Render_Laws
  imports Render_Run
begin

text \<open>What a tick of the render loop delivers: who hears whom, and what reaches the sinks.\<close>

lemma liveEnts_same:
  assumes "samePeers p m" "tickOk p"
  obtains f where "liveEnts m = map f (liveEnts p)" "\<And>e. e \<in> set (liveEnts p) \<Longrightarrow> entSame e (f e) \<and> ent_peers (f e) = ent_peers e"
    "\<And>e. e \<in> set (liveEnts p) \<Longrightarrow> mx_ents m (ent_id e) = Some (f e)"
proof -
  define f :: "entity \<Rightarrow> entity" where "f = (\<lambda>e. the (mx_ents m (ent_id e)))"
  have e: "mx_ents m x = Some (f e) \<and> entSame e (f e) \<and> ent_peers (f e) = ent_peers e" if "mx_ents p x = Some e" for x e
  proof -
    have "ent_id e = x" using slotsOk_ent(1)[OF tick_slots(1)[OF assms(2)] that] .
    then show ?thesis using assms(1) that unfolding samePeers_def f_def by fastforce
  qed
  have "mx_ents m = (\<lambda>x. map_option f (mx_ents p x))"
  proof
    fix x show "mx_ents m x = map_option f (mx_ents p x)"
      using e[of x] assms(1) by (cases "mx_ents p x") (auto simp: samePeers_def dest: domIff[THEN iffD1])
  qed
  then have "liveEnts m = map f (liveEnts p)" using liveEnts_map[of m p f] assms(1) by (simp add: samePeers_def)
  then show thesis using that[of f] e liveEnts_set[OF tick_slots(1)[OF assms(2)]] by blast
qed

lemma sources_same:
  assumes "samePeers p m" "tickOk p"
  shows "map ent_id (sourceEnts m) = map ent_id (sourceEnts p)"
    "map (\<lambda>s. (ent_id s, ent_slot s)) (sourceEnts m) = map (\<lambda>s. (ent_id s, ent_slot s)) (sourceEnts p)"
proof -
  obtain f where f: "liveEnts m = map f (liveEnts p)" "\<And>e. e \<in> set (liveEnts p) \<Longrightarrow> entSame e (f e)" using liveEnts_same[OF assms] by metis
  then show 2: "map (\<lambda>s. (ent_id s, ent_slot s)) (sourceEnts m) = map (\<lambda>s. (ent_id s, ent_slot s)) (sourceEnts p)"
    unfolding sourceEnts_def f(1) filter_map by (auto simp: entSame_def comp_def cong: filter_cong)
  show "map ent_id (sourceEnts m) = map ent_id (sourceEnts p)" using arg_cong[OF 2, of "map fst"] by (simp add: comp_def)
qed

lemma peerList_pairs: "peerList m e = map fst (filter (\<lambda>(i, s). mx_audible m ! ent_slot e ! s) (map (\<lambda>s. (ent_id s, ent_slot s)) (sourceEnts m)))"
  by (simp add: peerList_def filter_map comp_def)

lemma peerList_current:
  assumes "recordCurrent m" "e \<in> set (liveEnts m)"
  shows "peerList m e = map ent_id (filter (\<lambda>s. fst (pairOf m s e)) (sourceEnts m))"
  unfolding peerList_def
proof (rule arg_cong[where f = "map ent_id"], rule filter_cong[OF refl])
  fix s assume "s \<in> set (sourceEnts m)"
  then have "recordAt m (ent_slot e) (ent_slot s) = pairOf m s e" using assms by (simp add: recordCurrent_def sourceEnts_def)
  then show "mx_audible m ! ent_slot e ! ent_slot s = fst (pairOf m s e)" by (metis recordAt_def fst_conv)
qed

section \<open>What reaches the sinks\<close>

definition emitted :: "'d Mixer \<Rightarrow> nat \<Rightarrow> entity \<Rightarrow> Sink" where
  "emitted m k e = emitTo (ev_encode (mx_env m) k) (mx_frameStart m) (eb_Output (enc_buffers (ent_enc e))) (mx_sinks m k)"

lemma ambi_emit_keeps: "ambi_emit pl ok m = Some m' \<Longrightarrow> mx_sinks m' = mx_sinks m \<and> mx_ents m' = mx_ents m \<and> mx_env m' = mx_env m \<and> mx_frameStart m' = mx_frameStart m"
  by (auto simp: ambi_emit_def split: prod.splits)

lemma phaseOut_sinks:
  assumes "phaseOut e m = Some (e', m')"
  shows "mx_sinks m' = (case ent_sink e of None \<Rightarrow> mx_sinks m | Some k \<Rightarrow> (mx_sinks m)(k := emitted m k e'))"
    "mx_ents m' = mx_ents m" "mx_env m' = mx_env m" "mx_frameStart m' = mx_frameStart m" "ent_id e' = ent_id e" "ent_sink e' = ent_sink e"
proof -
  obtain e1 m1 where 1: "outSink e m = Some (e1, m1)" "outAmbi e1 m1 = Some (e', m')" using assms by (auto simp: phaseOut_def bind_eq_Some_conv)
  have a: "mx_sinks m1 = (case ent_sink e of None \<Rightarrow> mx_sinks m | Some k \<Rightarrow> (mx_sinks m)(k := emitted m k e1)) \<and>
      mx_ents m1 = mx_ents m \<and> mx_env m1 = mx_env m \<and> mx_frameStart m1 = mx_frameStart m \<and> ent_id e1 = ent_id e \<and> ent_sink e1 = ent_sink e"
    using 1(1) by (auto simp: outSink_def sink_emit_def emitted_def bind_eq_Some_conv split: option.splits)
  have b: "mx_sinks m' = mx_sinks m1 \<and> mx_ents m' = mx_ents m1 \<and> mx_env m' = mx_env m1 \<and> mx_frameStart m' = mx_frameStart m1 \<and> ent_id e' = ent_id e1 \<and>
      ent_sink e' = ent_sink e1 \<and> ent_enc e' = ent_enc e1"
  proof (cases "ent_ambiEnc e1")
    case None
    then show ?thesis using 1(2) by (simp add: outAmbi_def)
  next
    case (Some a)
    then obtain a' where a': "foldO (ambi_emit (eb_Output (enc_buffers a'))) (ent_ambiSinks e1) m1 = Some m'" "e' = e1 \<lparr> ent_ambiEnc := Some a' \<rparr>"
      using 1(2) by (auto simp: outAmbi_def bind_eq_Some_conv)
    have "(mx_sinks m', mx_ents m', mx_env m', mx_frameStart m') = (mx_sinks m1, mx_ents m1, mx_env m1, mx_frameStart m1)"
      by (rule foldO_keep[OF a'(1)]) (auto dest: ambi_emit_keeps)
    then show ?thesis using a'(2) by simp
  qed
  show "mx_sinks m' = (case ent_sink e of None \<Rightarrow> mx_sinks m | Some k \<Rightarrow> (mx_sinks m)(k := emitted m k e'))"
    using a b by (cases "ent_sink e") (simp_all add: emitted_def)
  show "mx_ents m' = mx_ents m" "mx_env m' = mx_env m" "mx_frameStart m' = mx_frameStart m" "ent_id e' = ent_id e" "ent_sink e' = ent_sink e"
    using a b by simp_all
qed

lemma dispatch_out:
  assumes "dispatch PhaseOut x m = Some m'" "idsOk m"
  obtains e e' where "mx_ents m x = Some e" "mx_ents m' = (mx_ents m)(x \<mapsto> e')" "ent_sink e' = ent_sink e" "idsOk m'" "sinkOf m' = sinkOf m"
    "mx_sinks m' = (case ent_sink e of None \<Rightarrow> mx_sinks m | Some k \<Rightarrow> (mx_sinks m)(k := emitted m k e'))"
    "mx_env m' = mx_env m" "mx_frameStart m' = mx_frameStart m"
proof -
  obtain e e' m1 w where e: "mx_ents m x = Some e" "phaseOut e m = Some (e', m1)" "m' = (setEnt m1 e') \<lparr> mx_nextWork := w \<rparr>"
    using assms(1) by (auto simp: dispatch_def runJob_def bind_eq_Some_conv split: if_splits)
  note o = phaseOut_sinks[OF e(2)]
  have x: "ent_id e' = x" using o(5) e(1) assms(2) by (simp add: idsOk_def)
  have ents: "mx_ents m' = (mx_ents m)(x \<mapsto> e')" using e(3) o(2) x by (simp add: setEnt_def)
  have "idsOk m'" using assms(2) x ents by (simp add: idsOk_def)
  moreover have "sinkOf m' = sinkOf m" using ents e(1) o(6) by (auto simp: sinkOf_def fun_eq_iff)
  ultimately show thesis using that[OF e(1) ents o(6)] o(1,3,4) e(3) by (simp add: setEnt_def)
qed

lemma emitted_cong: "mx_env m' = mx_env m \<Longrightarrow> mx_frameStart m' = mx_frameStart m \<Longrightarrow> mx_sinks m' k = mx_sinks m k \<Longrightarrow> emitted m' k e = emitted m k e"
  by (simp add: emitted_def)

text \<open>The Out phase, for one sink: if its holder is among the jobs, one frame, the holder's; else nothing.\<close>

lemma out_sinks:
  assumes "runPhase PhaseOut xs m = Some m'" "idsOk m" "distinct xs" "\<And>x y. sinkOf m x = Some k \<Longrightarrow> sinkOf m y = Some k \<Longrightarrow> x = y"
  shows "y \<notin> set xs \<Longrightarrow> mx_ents m' y = mx_ents m y"
    "(\<And>x. x \<in> set xs \<Longrightarrow> sinkOf m x \<noteq> Some k) \<Longrightarrow> mx_sinks m' k = mx_sinks m k"
    "x \<in> set xs \<Longrightarrow> sinkOf m x = Some k \<Longrightarrow> mx_ents m' x = Some e \<Longrightarrow> mx_sinks m' k = emitted m k e"
  using assms
proof (induction xs arbitrary: m y x e)
  case Nil
  { case 1 then show ?case by (simp add: runPhase_def) }
  { case 2 then show ?case by (simp add: runPhase_def) }
  { case 3 then show ?case by simp }
next
  case (Cons z zs)
  have keep: "mx_ents m' y = mx_ents m y" if h: "y \<notin> set (z # zs)" "runPhase PhaseOut (z # zs) m = Some m'" "idsOk m" "distinct (z # zs)"
    "\<And>x y. sinkOf m x = Some k \<Longrightarrow> sinkOf m y = Some k \<Longrightarrow> x = y" for y m
  proof -
    obtain m1 where m1: "dispatch PhaseOut z m = Some m1" "runPhase PhaseOut zs m1 = Some m'" using h(2) by (auto simp: runPhase_def bind_eq_Some_conv)
    from dispatch_out[OF m1(1) h(3)] obtain e' where "mx_ents m1 = (mx_ents m)(z \<mapsto> e')" "idsOk m1" "sinkOf m1 = sinkOf m" by metis
    then show ?thesis using Cons.IH(1)[of y m1] m1(2) h by simp
  qed
  have sinks: "((\<forall>x\<in>set (z # zs). sinkOf m x \<noteq> Some k) \<longrightarrow> mx_sinks m' k = mx_sinks m k) \<and>
      (\<forall>x\<in>set (z # zs). \<forall>e. sinkOf m x = Some k \<longrightarrow> mx_ents m' x = Some e \<longrightarrow> mx_sinks m' k = emitted m k e)"
    if h: "runPhase PhaseOut (z # zs) m = Some m'" "idsOk m" "distinct (z # zs)" "\<And>x y. sinkOf m x = Some k \<Longrightarrow> sinkOf m y = Some k \<Longrightarrow> x = y" for m
  proof -
    obtain m1 where m1: "dispatch PhaseOut z m = Some m1" "runPhase PhaseOut zs m1 = Some m'" using h(1) by (auto simp: runPhase_def bind_eq_Some_conv)
    obtain e0 e' where d: "mx_ents m z = Some e0" "mx_ents m1 = (mx_ents m)(z \<mapsto> e')" "ent_sink e' = ent_sink e0" "idsOk m1" "sinkOf m1 = sinkOf m"
      "mx_sinks m1 = (case ent_sink e0 of None \<Rightarrow> mx_sinks m | Some k \<Rightarrow> (mx_sinks m)(k := emitted m k e'))"
      "mx_env m1 = mx_env m" "mx_frameStart m1 = mx_frameStart m" by (rule dispatch_out[OF m1(1) h(2)])
    have z: "sinkOf m z = ent_sink e0" using d(1) by (simp add: sinkOf_def)
    have other: "mx_sinks m1 k = mx_sinks m k" if "sinkOf m z \<noteq> Some k" using that d(6) z by (auto split: option.splits)
    have tail: "mx_ents m' z = Some e'" using Cons.IH(1)[of z m1] m1(2) d h by simp
    note ih2 = Cons.IH(2)[OF _ m1(2) d(4)] and ih3 = Cons.IH(3)[OF _ _ _ m1(2) d(4)]
    show ?thesis
    proof (cases "sinkOf m z = Some k")
      case True
      then have none: "sinkOf m x \<noteq> Some k" if "x \<in> set zs" for x using h(3) h(4)[of x z] that by auto
      then have "mx_sinks m' k = mx_sinks m1 k" using ih2 h d(5) by simp
      then have "mx_sinks m' k = emitted m k e'" using d(6) True z by simp
      then show ?thesis using True none tail by auto
    next
      case False
      then have c: "emitted m1 k e = emitted m k e" for e using emitted_cong[OF d(7,8)] other by simp
      have u: "\<And>x y. sinkOf m1 x = Some k \<Longrightarrow> sinkOf m1 y = Some k \<Longrightarrow> x = y" "distinct zs" using h(3,4) d(5) by simp_all
      show ?thesis using False other c ih2[OF _ u(2,1)] ih3[OF _ _ _ u(2,1)] by (simp add: d(5))
    qed
  qed
  { case 1 then show ?case by (rule keep) }
  { case 2 then show ?case using sinks[OF 2(2,3,4,5)] by blast }
  { case 3 then show ?case using sinks[OF 3(4,5,6,7)] by blast }
qed

lemma one_holder:
  assumes "sinkInv m" "audioOk m \<sigma>" "sinkOf m x = Some k" "sinkOf m y = Some k"
  shows "x = y"
proof -
  have f: "finite {z. sinkOf m z = Some k}" by (rule finite_subset[OF _ audio_finite[OF assms(2)]]) auto
  have "holders (sinkOf m) k \<le> 1" using assms(1) by (auto simp: sinkInv_def tally_def unit_of_def split: if_splits) (metis add_leD1 add_leD2 le_refl One_nat_def add.commute le0)+
  then have "card {z. sinkOf m z = Some k} \<le> 1" by (simp add: holders_def)
  then show ?thesis using assms(3,4) f by (metis (mono_tags, lifting) card_le_Suc0_iff_eq One_nat_def mem_Collect_eq)
qed

lemma tick_sink:
  assumes "readyOk m" "sinkInv m" "\<not> mx_stopped m" "Process m = Some m'"
  shows "mx_ents m' x = Some e \<Longrightarrow> ent_sink e = Some k \<Longrightarrow>
      length (eb_Output (enc_buffers (ent_enc e))) = 2 * (240 * ((nat (cf_Order (mx_cfg m)) + 1) * (nat (cf_Order (mx_cfg m)) + 1))) \<and>
      mx_sinks m' k = emitTo (ev_encode (mx_env m) k) ((nat (mx_tickCount m) * 240) mod 2 ^ 64) (eb_Output (enc_buffers (ent_enc e))) (mx_sinks m k)"
    "(\<And>x. sinkOf m' x \<noteq> Some k) \<Longrightarrow> mx_sinks m' k = mx_sinks m k"
proof -
  obtain d p m1 m2 where s: "runPhase PhaseIn (map ent_id (liveEnts p)) p = Some m1"
    "runPhase PhaseAcross (map ent_id (sinkEnts p)) m1 = Some m2" "runPhase PhaseOut (map ent_id (sinkEnts p)) m2 = Some m'"
    "tickOk p" "tickOk m2" "tickOk m'" "samePeers p m2" "samePeers p m'"
    "mx_emitted m2 = mx_emitted m" "mx_control p = mx_control (m \<lparr> mx_changes := [] \<rparr>)" "mx_domains p = mx_domains (startTick m)"
    by (rule Process_stages[OF assms(1,3)]) (use assms(4) in auto)
  have ids: "idsOk m2" using slotsOk_ent(1)[OF tick_slots(1)[OF s(5)]] by (simp add: idsOk_def)
  have dist: "distinct (map ent_id (sinkEnts p))" using liveEnts_ids[OF tick_slots(1)[OF s(4)]] by (simp add: sinkEnts_def distinct_map_filter)
  have sk: "sinkOf m2 = sinkOf p" "sinkOf m' = sinkOf p" using samePeers_sinks s(7,8) by blast+
  have "audioOk m' (mx_reg m')" using s(6) by (simp add: tickOk_def)
  from one_holder[OF Process_sinkInv[OF assms] this] have one: "\<And>x y. sinkOf m2 x = Some k \<Longrightarrow> sinkOf m2 y = Some k \<Longrightarrow> x = y" using sk by simp
  have clock: "mx_frameStart m2 = (nat (mx_tickCount m) * 240) mod 2 ^ 64" "mx_env m2 = mx_env m" "mx_cfg m' = mx_cfg m"
    using runPhase_domains[OF s(1)] runPhase_domains[OF s(2)] s(11) s(10) samePeers_control[OF s(7)] samePeers_control[OF s(8)]
    by (simp_all add: mx_domains_def startTick_def Let_def FrameSize_def mx_control_def)
  have jobs: "x \<in> set (map ent_id (sinkEnts p))" if sx: "sinkOf p x = Some k" for x
  proof -
    obtain e where e: "mx_ents p x = Some e" "ent_sink e = Some k" using sx by (auto simp: sinkOf_def bind_eq_Some_conv)
    have "ent_id e = x" using slotsOk_ent(1)[OF tick_slots(1)[OF s(4)] e(1)] .
    then have "e \<in> set (sinkEnts p)" using e liveEnts_set[OF tick_slots(1)[OF s(4)], of e] by (simp add: sinkEnts_def listening_def)
    then show ?thesis using \<open>ent_id e = x\<close> by force
  qed
  have o2: "mx_sinks m' k = mx_sinks m2 k" if "\<And>x. sinkOf p x \<noteq> Some k"
    by (rule out_sinks(2)[OF s(3) ids dist]) (use that sk one in auto)
  have o3: "mx_sinks m' k = emitted m2 k e" if "sinkOf p x = Some k" "mx_ents m' x = Some e" for x e
    by (rule out_sinks(3)[OF s(3) ids dist _ jobs[OF that(1)] _ that(2)]) (use that sk one in auto)
  {
    assume e: "mx_ents m' x = Some e" "ent_sink e = Some k"
    then have kx: "sinkOf p x = Some k" using sk(2) by (metis sinkOf_def bind.bind_lunit)
    have "mx_sinks m' k = emitted m2 k e" by (rule o3[OF kx e(1)])
    moreover have "length (eb_Output (enc_buffers (ent_enc e))) = 2 * (240 * ((nat (cf_Order (mx_cfg m)) + 1) * (nat (cf_Order (mx_cfg m)) + 1)))"
    proof -
      have "entOk m' e" using s(6) e(1) by (auto simp: tickOk_def entsOk_def)
      then have "encOk (ev_bilateral (mx_env m')) (ent_enc e)" "enc_dualBus (ent_enc e)" "enc_mixerConfig (ent_enc e) = encCfg (mx_cfg m)"
        using clock(3) by (auto simp: entOk_def encFor_def)
      then show ?thesis by (simp add: encOk_def buffersOk_def Let_def busSamples_def encCfg_def FrameSize_def)
    qed
    ultimately show "length (eb_Output (enc_buffers (ent_enc e))) = 2 * (240 * ((nat (cf_Order (mx_cfg m)) + 1) * (nat (cf_Order (mx_cfg m)) + 1))) \<and>
      mx_sinks m' k = emitTo (ev_encode (mx_env m) k) ((nat (mx_tickCount m) * 240) mod 2 ^ 64) (eb_Output (enc_buffers (ent_enc e))) (mx_sinks m k)"
      using clock s(9) by (simp add: emitted_def mx_emitted_def)
  next
    assume "\<And>x. sinkOf m' x \<noteq> Some k"
    then show "mx_sinks m' k = mx_sinks m k" using o2 sk s(9) by (simp add: mx_emitted_def)
  }
qed

section \<open>Running\<close>

text \<open>\<^verbatim>\<open>Run\<close>: ticks until the stop channel is seen closed. How many that are is the caller's, so the number is an
  argument; pacing is not modelled.\<close>

primrec processes :: "nat \<Rightarrow> 'd Mixer \<Rightarrow> 'd Mixer option" where
  "processes 0 m = Some m"
| "processes (Suc n) m = do { m \<leftarrow> Process m; processes n m }"

definition Run :: "nat \<Rightarrow> 'd Mixer \<Rightarrow> 'd Mixer option" where
  "Run n m = (if mx_closed m then Some m else processes n m)"

lemma processes_last: "processes (Suc n) m = Option.bind (processes n m) Process"
proof (induction n arbitrary: m)
  case (Suc n)
  show ?case
  proof (cases "Process m")
    case (Some m1)
    have "processes (Suc (Suc n)) m = processes (Suc n) m1" "processes (Suc n) m = processes n m1" using Some by simp_all
    then show ?thesis using Suc.IH[of m1] by simp
  qed simp
qed simp

text \<open>What a sink holds after \<open>n\<close> frames with consecutive stamps from tick \<open>t\<close>, given the frames handed to its
  encoder: every frame is written or counted as an error.\<close>

definition delivered :: "(rat list list \<Rightarrow> byte list option) \<Rightarrow> int \<Rightarrow> nat \<Rightarrow> Sink \<Rightarrow> Sink \<Rightarrow> bool" where
  "delivered encode t n k k' \<longleftrightarrow>
    (let l = length (sk_inputs k); ins = sk_inputs k'; out = (\<lambda>i. encode (take (l + i + 1) ins)) in
     length ins = l + n \<and> take l ins = sk_inputs k \<and> sk_pose k' = sk_pose k \<and>
     sk_written k' = sk_written k @ List.map_filter (\<lambda>i. map_option (\<lambda>pkt. (pkt, (nat (t + int i) * 240) mod 2 ^ 64)) (out i)) [0..<n] \<and>
     sk_encodeErrors k' = sk_encodeErrors k + length (filter (\<lambda>i. out i = None) [0..<n]))"

lemma map_filter_cong: "(\<And>x. x \<in> set xs \<Longrightarrow> f x = g x) \<Longrightarrow> List.map_filter f xs = List.map_filter g xs"
  by (induction xs) (simp_all split: option.splits)

lemma map_filter_append: "List.map_filter f (xs @ ys) = List.map_filter f xs @ List.map_filter f ys"
  by (induction xs) (simp_all split: option.splits)

lemma delivered_none: "delivered encode t 0 k k"
  by (simp add: delivered_def List.map_filter_def)

lemma delivered_next:
  assumes "delivered encode t n k k1" "k2 = emitTo encode ((nat (t + int n) * 240) mod 2 ^ 64) frm k1"
  shows "delivered encode t (Suc n) k k2"
proof -
  let ?l = "length (sk_inputs k)" and ?i1 = "sk_inputs k1" and ?i2 = "sk_inputs k2"
  have d: "length ?i1 = ?l + n" "take ?l ?i1 = sk_inputs k" "sk_pose k1 = sk_pose k"
    "sk_written k1 = sk_written k @ List.map_filter (\<lambda>i. map_option (\<lambda>pkt. (pkt, (nat (t + int i) * 240) mod 2 ^ 64)) (encode (take (?l + i + 1) ?i1))) [0..<n]"
    "sk_encodeErrors k1 = sk_encodeErrors k + length (filter (\<lambda>i. encode (take (?l + i + 1) ?i1) = None) [0..<n])"
    using assms(1) by (simp_all add: delivered_def Let_def)
  have i2: "?i2 = ?i1 @ [frm]" by (simp add: assms(2) emitTo_def Let_def split: option.splits)
  have old: "take (?l + i + 1) ?i2 = take (?l + i + 1) ?i1" if "i \<in> set [0..<n]" for i using that d(1) i2 by simp
  have new: "take (?l + n + 1) ?i2 = ?i2" using d(1) i2 by simp
  have f: "filter (\<lambda>i. encode (take (?l + i + 1) ?i2) = None) [0..<n] = filter (\<lambda>i. encode (take (?l + i + 1) ?i1) = None) [0..<n]"
    using old by (intro filter_cong) auto
  have g: "List.map_filter (\<lambda>i. map_option (\<lambda>pkt. (pkt, s i)) (encode (take (?l + i + 1) ?i2))) [0..<n] =
      List.map_filter (\<lambda>i. map_option (\<lambda>pkt. (pkt, s i)) (encode (take (?l + i + 1) ?i1))) [0..<n]" for s :: "nat \<Rightarrow> nat"
    using old by (intro map_filter_cong) auto
  have w: "sk_pose k2 = sk_pose k1" "sk_written k2 = sk_written k1 @ (case encode ?i2 of None \<Rightarrow> [] | Some pkt \<Rightarrow> [(pkt, (nat (t + int n) * 240) mod 2 ^ 64)])"
    "sk_encodeErrors k2 = sk_encodeErrors k1 + (case encode ?i2 of None \<Rightarrow> 1 | Some _ \<Rightarrow> 0)"
    using assms(2) i2 by (auto simp: emitTo_def Let_def split: option.splits)
  show ?thesis unfolding delivered_def Let_def
  proof (intro conjI)
    show "length ?i2 = ?l + Suc n" "take ?l ?i2 = sk_inputs k" "sk_pose k2 = sk_pose k" using d i2 w by simp_all
    show "sk_encodeErrors k2 = sk_encodeErrors k + length (filter (\<lambda>i. encode (take (?l + i + 1) ?i2) = None) [0..<Suc n])"
      using f new d(5) w(3) by (simp split: option.splits)
    show "sk_written k2 = sk_written k @ List.map_filter (\<lambda>i. map_option (\<lambda>pkt. (pkt, (nat (t + int i) * 240) mod 2 ^ 64)) (encode (take (?l + i + 1) ?i2))) [0..<Suc n]"
      unfolding upt_Suc_append[OF le0] map_filter_append using g new d(4) w(2) by (simp add: map_filter_simps split: option.splits)
  qed
qed

lemma reach_idle:
  assumes "readyOk m" "\<not> mx_stopped m" "mx_changes m = []" "Process m = Some m'"
  shows "sinkOf m' = sinkOf m" "mx_changes m' = []" "mx_stopped m' = mx_stopped m" "mx_tickCount m' = mx_tickCount m + 1"
proof -
  obtain d p where s: "drainChanges (startTick m) = Inr d" "prepare d = Some p" "tickOk d" "samePeers p m'"
    by (rule Process_stages[OF assms(1,2)]) (use assms(4) in auto)
  have "mx_changes (startTick m) = []" using assms(3) by (simp add: startTick_def Let_def)
  then have "d = startTick m \<lparr> mx_changes := [] \<rparr>" using s(1) by (simp add: drainChanges_def)
  then have "sinkOf d = sinkOf m" by (simp add: sinkOf_def startTick_def Let_def fun_eq_iff)
  then show "sinkOf m' = sinkOf m" using samePeers_sinks[OF s(4)] prepare_sinks[OF s(2,3)] by simp
  note p = Process_ready(2,3)[OF assms(1,2,4)]
  show "mx_changes m' = []" "mx_stopped m' = mx_stopped m" "mx_tickCount m' = mx_tickCount m + 1"
    using p by (simp_all add: mx_control_def mx_domains_def startTick_def Let_def)
qed

text \<open>A listener attached and no call in between: every tick succeeds and feeds its sink.\<close>

lemma processes_deliver:
  assumes "reach cd ms env banks cfg m" "delayModel env cfg" "envOk env" "\<not> mx_stopped m" "mx_changes m = []" "sinkOf m x = Some k"
  shows "\<exists>m'. processes n m = Some m' \<and> reach cd ms env banks cfg m' \<and> \<not> mx_stopped m' \<and> mx_changes m' = [] \<and> sinkOf m' x = Some k \<and>
    mx_tickCount m' = mx_tickCount m + int n \<and> delivered (ev_encode env k) (mx_tickCount m) n (mx_sinks m k) (mx_sinks m' k)"
proof (induction n)
  case 0
  then show ?case using assms by (simp add: delivered_none)
next
  case (Suc n)
  then obtain m1 where m1: "processes n m = Some m1" "reach cd ms env banks cfg m1" "\<not> mx_stopped m1" "mx_changes m1 = []" "sinkOf m1 x = Some k"
    "mx_tickCount m1 = mx_tickCount m + int n" "delivered (ev_encode env k) (mx_tickCount m) n (mx_sinks m k) (mx_sinks m1 k)" by blast
  note r = reach_ready[OF m1(2) assms(2,3) m1(3)]
  obtain m2 where m2: "Process m1 = Some m2" by (rule Process_completes[OF r(1) m1(3)])
  note i = reach_idle[OF r(1) m1(3,4) m2]
  have "sinkOf m2 x = Some k" using i(1) m1(5) by simp
  then obtain e where e: "mx_ents m2 x = Some e" "ent_sink e = Some k" by (auto simp: sinkOf_def bind_eq_Some_conv)
  have "mx_sinks m2 k = emitTo (ev_encode env k) ((nat (mx_tickCount m + int n) * 240) mod 2 ^ 64) (eb_Output (enc_buffers (ent_enc e))) (mx_sinks m1 k)"
    using tick_sink(1)[OF r(1,2) m1(3) m2 e] m1(6) r(3) by simp
  from delivered_next[OF m1(7) this] have "delivered (ev_encode env k) (mx_tickCount m) (Suc n) (mx_sinks m k) (mx_sinks m2 k)" .
  moreover have "processes (Suc n) m = Some m2" by (simp only: processes_last m1(1) m2 Option.bind.bind_lunit)
  moreover have "reach cd ms env banks cfg m2" by (rule reach.tick[OF m1(2,3) m2])
  ultimately show ?case using i m1 by auto
qed

section \<open>A concrete run\<close>

text \<open>A mixer of one place with one listener, after its first drain.\<close>

definition demo_listener :: "unit Mixer" where
  "demo_listener = (case mx_exec demo_codec (\<lambda>_. True) [MAddSink ''a'', MDrain] (demo_new_mixer 1) of Inr m \<Rightarrow> m)"

lemma demo_listener_run:
  "mx_exec demo_codec (\<lambda>_. True) [MAddSink ''a'', MDrain] (demo_new_mixer 1) = Inr demo_listener \<and> \<not> mx_stopped demo_listener \<and>
   \<not> mx_closed demo_listener \<and> mx_changes demo_listener = [] \<and> sinkOf demo_listener ''a'' = Some 0 \<and> mx_sinks demo_listener 0 = newSink \<and>
   mx_tickCount demo_listener = 0"
  by (simp add: demo_listener_def demo_new_mixer_def New_def DefaultConfig_def AddSink_def admit_def enqueue_def emptyReg_def drainChanges_def
      ensureEntity_def newEntity_def listenerEncoder_def newEncoder_def demo_env_delays ensureAmbiEncoder_def Let_def setEnt_def markAudibleDirty_def
      sinkOf_def)

lemma reach_exec: "reach cd ms env banks cfg m \<Longrightarrow> list_all (mx_op_ok cd) ops \<Longrightarrow> mx_exec cd ms ops m = Inr m' \<Longrightarrow> reach cd ms env banks cfg m'"
proof (induction ops arbitrary: m)
  case (Cons op ops)
  then obtain m1 where m1: "mx_step cd ms op m = Inr m1" "mx_exec cd ms ops m1 = Inr m'" by (auto split: sum.splits)
  then show ?case using Cons.IH[OF reach.call[OF Cons.prems(1) _ m1(1)]] Cons.prems(2) by simp
qed simp

lemma demo_listener_reach: "reach demo_codec (\<lambda>_. True) demo_env (\<lambda>_. True) (DefaultConfig \<lparr> cf_MaxEntities := int (Suc 0) \<rparr>) demo_listener"
  by (rule reach_exec[OF demo_reach[of 0], where ops = "[MAddSink ''a'', MDrain]"]) (use demo_listener_run in simp_all)

lemma demo_listener_tick: "\<exists>m'. Process demo_listener = Some m'"
proof -
  have r: "\<not> mx_stopped demo_listener" using demo_listener_run by simp
  obtain m' where "Process demo_listener = Some m'" by (rule Process_completes[OF reach_ready(1)[OF demo_listener_reach demo_delayModel demo_envOk r] r])
  then show ?thesis ..
qed

section \<open>Properties\<close>

text \<open>C10. Who hears whom in a tick is exactly what the rules say. After any tick of any run, the pair record of
  every two entities holds what \<^verbatim>\<open>resolvePair\<close> computes from the channel table, the personal mutes and solos
  and the parameters as they stand after the queued changes, and the peers a listener was rendered
  with are the sources, in slot order, that the same rules make audible to it. A change can therefore never be rendered from
  a stale record, although the record is only rebuilt when marked dirty.\<close>

theorem Process_peers_current:
  assumes "reach cd ms env banks cfg m" "delayModel env cfg" "envOk env" "\<not> mx_stopped m" "Process m = Some m'"
  shows "recordCurrent m' \<and> (\<forall>x e. mx_ents m' x = Some e \<longrightarrow> listening e \<longrightarrow>
    ent_peers e = map ent_id (filter (\<lambda>s. fst (pairOf m' s e)) (sourceEnts m')))"
proof (intro conjI allI impI)
  obtain d p m1 m2 where s: "runPhase PhaseIn (map ent_id (liveEnts p)) p = Some m1" "runPhase PhaseAcross (map ent_id (sinkEnts p)) m1 = Some m2"
    "runPhase PhaseOut (map ent_id (sinkEnts p)) m2 = Some m'" "tickOk p" "tickOk m'" "samePeers p m'" "recordCurrent p" "\<not> mx_audibleDirty p"
    "\<And>x e. mx_ents p x = Some e \<Longrightarrow> listening e \<Longrightarrow> ent_peers e = peerList p e"
    by (rule Process_stages[OF reach_ready(1)[OF assms(1-4)] assms(4)]) (use assms(5) in auto)
  have st: "mx_static m' = mx_static p" using runPhase_static[OF s(1)] runPhase_static[OF s(2)] runPhase_static[OF s(3)] by simp
  show cur: "recordCurrent m'" by (rule phases_record(1)[OF s(7,8,6) st])
  fix x e assume e: "mx_ents m' x = Some e" "listening e"
  then have "x \<in> dom (mx_ents p)" using s(6) by (auto simp: samePeers_def)
  then obtain e0 where e0: "mx_ents p x = Some e0" "entSame e0 e" "ent_peers e = ent_peers e0" using s(6) e(1) unfolding samePeers_def by fastforce
  have live: "e \<in> set (liveEnts m')" using liveEnts_set[OF tick_slots(1)[OF s(5)]] slotsOk_ent(1)[OF tick_slots(1)[OF s(5)] e(1)] e(1) by simp
  have "listening e0" using e(2) e0(2) by (auto simp: listening_def entSame_def simp del: not_None_eq)
  then have "ent_peers e = peerList p e0" using s(9)[OF e0(1)] e0(3) by simp
  also have "\<dots> = peerList m' e" using sources_same(2)[OF s(6,4)] e0(2) st by (simp add: peerList_pairs entSame_def mx_static_def mx_record_def mx_tables_def)
  also have "\<dots> = map ent_id (filter (\<lambda>s. fst (pairOf m' s e)) (sourceEnts m'))"
    by (rule peerList_current[OF cur live])
  finally show "ent_peers e = map ent_id (filter (\<lambda>s. fst (pairOf m' s e)) (sourceEnts m'))" .
qed

theorem Process_peers_current_witness:
  "\<exists>m'. Process demo_listener = Some m' \<and> recordCurrent m'"
proof -
  obtain m' where m': "Process demo_listener = Some m'" using demo_listener_tick by blast
  show ?thesis using Process_peers_current[OF demo_listener_reach demo_delayModel demo_envOk _ m'] demo_listener_run m' by blast
qed

text \<open>In one tick every attached sink receives exactly one frame, and no other sink is touched. The frame is
  the output of its own entity's encoder, both ears of every ambisonic channel, 240 samples each; it carries
  the tick's place on the global sample clock; a frame the encoder rejects is counted and dropped.\<close>

theorem one_frame_per_tick:
  assumes "reach cd ms env banks cfg m" "delayModel env cfg" "envOk env" "\<not> mx_stopped m" "Process m = Some m'"
  shows "(\<forall>x e k. mx_ents m' x = Some e \<longrightarrow> ent_sink e = Some k \<longrightarrow>
      length (eb_Output (enc_buffers (ent_enc e))) = 2 * (240 * ((nat (cf_Order cfg) + 1) * (nat (cf_Order cfg) + 1))) \<and>
      mx_sinks m' k = emitTo (ev_encode env k) ((nat (mx_tickCount m) * 240) mod 2 ^ 64) (eb_Output (enc_buffers (ent_enc e))) (mx_sinks m k)) \<and>
    (\<forall>k. (\<forall>x. sinkOf m' x \<noteq> Some k) \<longrightarrow> mx_sinks m' k = mx_sinks m k)"
proof -
  note r = reach_ready[OF assms(1-4)]
  show ?thesis using tick_sink[OF r(1,2) assms(4,5)] r(3,4) by (metis (no_types, lifting))
qed

theorem one_frame_per_tick_witness:
  "\<exists>m'. Process demo_listener = Some m' \<and> (\<forall>k. (\<forall>x. sinkOf m' x \<noteq> Some k) \<longrightarrow> mx_sinks m' k = mx_sinks demo_listener k)"
proof -
  obtain m' where m': "Process demo_listener = Some m'" using demo_listener_tick by blast
  show ?thesis using one_frame_per_tick[OF demo_listener_reach demo_delayModel demo_envOk _ m'] demo_listener_run m' by blast
qed

text \<open>C8. A listener is never starved. While \<^verbatim>\<open>Run\<close> drives the mixer and no call changes it, a sink attached to an
  entity gets one frame for every tick, however many: \<open>n\<close> ticks complete, hand its encoder \<open>n\<close> frames, and
  write the packets in order with stamps 240 samples apart, less those the encoder rejects, which are counted.\<close>

theorem Run_delivers:
  assumes "reach cd ms env banks cfg m" "delayModel env cfg" "envOk env" "\<not> mx_stopped m" "\<not> mx_closed m" "mx_changes m = []" "sinkOf m x = Some k"
  shows "\<exists>m'. Run n m = Some m' \<and> sinkOf m' x = Some k \<and> mx_tickCount m' = mx_tickCount m + int n \<and>
    delivered (ev_encode env k) (mx_tickCount m) n (mx_sinks m k) (mx_sinks m' k)"
  using processes_deliver[OF assms(1-4,6,7), of n] assms(5) by (auto simp: Run_def)

theorem Run_delivers_witness:
  "\<exists>m'. Run 1000 demo_listener = Some m' \<and> length (sk_inputs (mx_sinks m' 0)) = 1000 \<and> length (sk_written (mx_sinks m' 0)) = 1000 \<and>
    sk_encodeErrors (mx_sinks m' 0) = 0"
proof -
  obtain m' where m': "Run 1000 demo_listener = Some m'" "delivered (ev_encode demo_env 0) 0 1000 newSink (mx_sinks m' 0)"
    using Run_delivers[OF demo_listener_reach demo_delayModel demo_envOk, of "''a''" 0 1000] demo_listener_run by auto
  have "length (List.map_filter (\<lambda>i. Some (f i)) [0..<n]) = n" for f :: "nat \<Rightarrow> byte list \<times> nat" and n by (simp add: List.map_filter_def)
  then show ?thesis using m' by (simp add: delivered_def Let_def newSink_def demo_env_def)
qed

end
