(* ===== verification/Render_Schedule.thy ===== *)
theory Render_Schedule
  imports Render_Laws
begin

text \<open>
  The workers of the render loop (\<^verbatim>\<open>src/engine/engine/render.go\<close>). The tick hands the jobs of a phase round robin to the
  workers' queues and waits for all of them. Each worker takes its jobs in order, but how far each has come when another
  runs is up to the scheduler. Here the jobs of a phase run in any order that keeps every worker's own order, and the result
  is shown not to depend on it: jobs of different entities on different workers commute. A job is taken as one
  step; what two jobs both touch, one of them only reads.
\<close>

section \<open>Queues\<close>

text \<open>Two schedules of the same queues.\<close>

definition sameQueues :: "(nat \<times> 'j) list \<Rightarrow> (nat \<times> 'j) list \<Rightarrow> bool" where
  "sameQueues xs ys \<longleftrightarrow> (\<forall>w. filter (\<lambda>p. fst p = w) xs = filter (\<lambda>p. fst p = w) ys)"

lemma sameQueues_set: "sameQueues xs ys \<Longrightarrow> set xs = set ys"
proof -
  assume s: "sameQueues xs ys"
  have "p \<in> set xs \<longleftrightarrow> p \<in> set ys" for p
  proof -
    have "p \<in> set xs \<longleftrightarrow> p \<in> set (filter (\<lambda>q. fst q = fst p) xs)" by simp
    also have "\<dots> \<longleftrightarrow> p \<in> set (filter (\<lambda>q. fst q = fst p) ys)" using s by (simp add: sameQueues_def)
    finally show ?thesis by simp
  qed
  then show ?thesis by blast
qed

lemma sameQueues_first:
  assumes "sameQueues ((w, j) # xs) ys"
  obtains pre post where "ys = pre @ (w, j) # post" "\<And>p. p \<in> set pre \<Longrightarrow> fst p \<noteq> w" "sameQueues xs (pre @ post)"
proof -
  have "filter (\<lambda>p. fst p = w) ys = (w, j) # filter (\<lambda>p. fst p = w) xs" using assms[unfolded sameQueues_def, THEN spec, of w] by simp
  then obtain pre post where p: "ys = pre @ (w, j) # post" "\<And>p. p \<in> set pre \<Longrightarrow> fst p \<noteq> w" "filter (\<lambda>p. fst p = w) xs = filter (\<lambda>p. fst p = w) post"
    by (auto simp: filter_eq_Cons_iff)
  have "filter (\<lambda>p. fst p = v) xs = filter (\<lambda>p. fst p = v) (pre @ post)" for v
  proof (cases "v = w")
    case True
    then show ?thesis using p(2,3) by (auto simp: filter_empty_conv)
  next
    case False
    have "filter (\<lambda>p. fst p = v) ((w, j) # xs) = filter (\<lambda>p. fst p = v) ys" using assms by (simp add: sameQueues_def)
    then show ?thesis using False p(1) by simp
  qed
  then show ?thesis using that[OF p(1,2)] by (simp add: sameQueues_def)
qed

text \<open>Jobs that commute across workers.\<close>

locale worker_queues =
  fixes run :: "nat \<Rightarrow> 'j \<Rightarrow> 's \<Rightarrow> 's option" and inv :: "'s \<Rightarrow> bool"
  assumes keep: "inv s \<Longrightarrow> run w j s = Some s' \<Longrightarrow> inv s'"
    and commute: "inv s \<Longrightarrow> w \<noteq> v \<Longrightarrow> j \<noteq> k \<Longrightarrow> Option.bind (run w j s) (run v k) = Option.bind (run v k s) (run w j)"
begin

lemma move_front:
  assumes "inv s" "\<And>p. p \<in> set pre \<Longrightarrow> fst p \<noteq> w \<and> snd p \<noteq> j"
  shows "foldO (\<lambda>(w, j). run w j) (pre @ (w, j) # post) s = foldO (\<lambda>(w, j). run w j) ((w, j) # pre @ post) s"
  using assms
proof (induction pre arbitrary: s)
  case (Cons p pre)
  obtain v k where p: "p = (v, k)" "v \<noteq> w" "k \<noteq> j" using Cons.prems(2)[of p] by (cases p) auto
  have "foldO (\<lambda>(w, j). run w j) ((p # pre) @ (w, j) # post) s = Option.bind (run v k s) (foldO (\<lambda>(w, j). run w j) (pre @ (w, j) # post))" by (simp add: p(1))
  also have "\<dots> = Option.bind (run v k s) (foldO (\<lambda>(w, j). run w j) ((w, j) # pre @ post))"
    using Cons.IH[OF keep[OF Cons.prems(1)], of v k] Cons.prems(2) by (cases "run v k s") simp_all
  also have "\<dots> = Option.bind (Option.bind (run v k s) (run w j)) (foldO (\<lambda>(w, j). run w j) (pre @ post))" by (cases "run v k s") simp_all
  also have "\<dots> = Option.bind (Option.bind (run w j s) (run v k)) (foldO (\<lambda>(w, j). run w j) (pre @ post))" using commute[OF Cons.prems(1) p(2,3)] by simp
  also have "\<dots> = foldO (\<lambda>(w, j). run w j) ((w, j) # (p # pre) @ post) s" by (cases "run w j s") (simp_all add: p(1))
  finally show ?case .
qed simp

lemma schedule_irrelevant:
  "inv s \<Longrightarrow> distinct (map snd xs) \<Longrightarrow> sameQueues xs ys \<Longrightarrow> foldO (\<lambda>(w, j). run w j) ys s = foldO (\<lambda>(w, j). run w j) xs s"
proof (induction xs arbitrary: ys s)
  case Nil
  then have "ys = []" using sameQueues_set[of "[]" ys] by simp
  then show ?case by simp
next
  case (Cons x xs)
  obtain w j where x: "x = (w, j)" by fastforce
  obtain pre post where p: "ys = pre @ (w, j) # post" "\<And>p. p \<in> set pre \<Longrightarrow> fst p \<noteq> w" "sameQueues xs (pre @ post)"
    using sameQueues_first[of w j xs ys] Cons.prems(3) x by blast
  have "set pre \<subseteq> set xs" using sameQueues_set[OF p(3)] by auto
  then have "\<And>p. p \<in> set pre \<Longrightarrow> fst p \<noteq> w \<and> snd p \<noteq> j" using p(2) Cons.prems(2) x by force
  then have "foldO (\<lambda>(w, j). run w j) ys s = foldO (\<lambda>(w, j). run w j) ((w, j) # pre @ post) s" using move_front[OF Cons.prems(1)] p(1) by simp
  also have "\<dots> = foldO (\<lambda>(w, j). run w j) (x # xs) s"
    using Cons.IH[OF keep[OF Cons.prems(1), of w j] _ p(3)] Cons.prems(2) by (cases "run w j s") (simp_all add: x)
  finally show ?case .
qed

end

text \<open>Jobs that compute something from the state and then put it in a place of their own, which no other job reads.\<close>

locale local_jobs =
  fixes loc :: "nat \<Rightarrow> 'j \<Rightarrow> 's \<Rightarrow> 'r option" and put :: "nat \<Rightarrow> 'r \<Rightarrow> 's \<Rightarrow> 's" and inv :: "'s \<Rightarrow> bool"
  assumes put_inv: "inv s \<Longrightarrow> loc w j s = Some r \<Longrightarrow> inv (put w r s)"
    and unread: "inv s \<Longrightarrow> w \<noteq> v \<Longrightarrow> j \<noteq> k \<Longrightarrow> loc w j s = Some r \<Longrightarrow> loc v k (put w r s) = loc v k s"
    and apart: "inv s \<Longrightarrow> w \<noteq> v \<Longrightarrow> j \<noteq> k \<Longrightarrow> loc w j s = Some r \<Longrightarrow> loc v k s = Some q \<Longrightarrow> put v q (put w r s) = put w r (put v q s)"
begin

lemma local_commute:
  assumes "inv s" "w \<noteq> v" "j \<noteq> k"
  shows "Option.bind (map_option (\<lambda>r. put w r s) (loc w j s)) (\<lambda>s. map_option (\<lambda>r. put v r s) (loc v k s)) =
    Option.bind (map_option (\<lambda>r. put v r s) (loc v k s)) (\<lambda>s. map_option (\<lambda>r. put w r s) (loc w j s))"
  using assms unread[OF assms] unread[OF assms(1) assms(2)[symmetric] assms(3)[symmetric]] apart[OF assms]
  by (cases "loc w j s"; cases "loc v k s") auto

end

sublocale local_jobs \<subseteq> worker_queues "\<lambda>w j s. map_option (\<lambda>r. put w r s) (loc w j s)" inv
  by unfold_locales (auto simp: put_inv local_commute)

section \<open>The Across phase\<close>

text \<open>What a listener's pass writes of its own encoder nobody reads of a peer.\<close>

definition rendered :: "Buffers \<Rightarrow> Delays option \<Rightarrow> Encoder \<Rightarrow> Encoder" where
  "rendered b d e = e \<lparr> enc_buffers := b, enc_delays := d \<rparr>"

lemma rendered_simps [simp]:
  "enc_slot (rendered b d e) = enc_slot e" "enc_Uuid (rendered b d e) = enc_Uuid e" "enc_PositionMeters (rendered b d e) = enc_PositionMeters e"
  "enc_headFrameSource (rendered b d e) = enc_headFrameSource e" "enc_size (rendered b d e) = enc_size e" "enc_directivity (rendered b d e) = enc_directivity e"
  "enc_forward (rendered b d e) = enc_forward e" "enc_Input (rendered b d e) = enc_Input e" "enc_inputRing (rendered b d e) = enc_inputRing e"
  "enc_gainFactor (rendered b d e) = enc_gainFactor e" "enc_peerAttenuationExponent (rendered b d e) = enc_peerAttenuationExponent e"
  "enc_SubSpaces (rendered b d e) = enc_SubSpaces e" "enc_SpaceMuted (rendered b d e) = enc_SpaceMuted e" "enc_spaceRoleMuted (rendered b d e) = enc_spaceRoleMuted e"
  "enc_Roles (rendered b d e) = enc_Roles e" "enc_Mutes (rendered b d e) = enc_Mutes e"
  by (simp_all add: rendered_def)

lemma shouldIncludePeer_rendered [simp]: "shouldIncludePeer e (rendered b d p) = shouldIncludePeer e p"
  by (simp add: shouldIncludePeer_def)

lemma pair_rendered: "pairRel mt e (rendered b d p) = pairRel mt e p" "pairScalars rows e (rendered b d p) = pairScalars rows e p"
  unfolding pairRel_def pairScalars_def rendered_simps by (rule refl)+

lemma bilateralWeights_rendered: "bilateralWeights mt bl rows e (rendered b d p) = bilateralWeights mt bl rows e p"
  unfolding bilateralWeights_def[abs_def] rendered_simps pair_rendered by (rule refl)

lemma adds_rendered: "addWet e pr (rendered b d p) = addWet e pr p" "addDry mt bl tbl (rendered b d p) = addDry mt bl tbl p"
  unfolding addWet_def[abs_def] addDry_def[abs_def] rendered_simps by (rule refl)+

lemma peer_rendered: "dualPeer mt bl tbl rows e hf prev (rendered b d p) = dualPeer mt bl tbl rows e hf prev p"
  "classicPeer mt rows e hf prev (rendered b d p) = classicPeer mt rows e hf prev p"
  unfolding dualPeer_def[abs_def] classicPeer_def[abs_def] rendered_simps pair_rendered bilateralWeights_rendered adds_rendered by (rule refl)+

text \<open>Peers that differ in rendered state only.\<close>

definition samePeer :: "Encoder \<Rightarrow> Encoder \<Rightarrow> bool" where
  "samePeer p q \<longleftrightarrow> rendered (enc_buffers p) (enc_delays p) q = p"

lemma samePeer_rendered: "samePeer p q \<Longrightarrow> \<exists>b d. p = rendered b d q"
  unfolding samePeer_def by metis

lemma peerPass_same:
  assumes "\<And>p b d. f (rendered b d p) = f p"
  shows "list_all2 samePeer ps qs \<Longrightarrow> peerPass f ps = peerPass f qs"
proof (induction ps arbitrary: qs)
  case (Cons p ps)
  then obtain q qs' where q: "qs = q # qs'" "samePeer p q" "list_all2 samePeer ps qs'" by (auto simp: list_all2_Cons1)
  have "f p = f q" using samePeer_rendered[OF q(2)] assms by auto
  then show ?case using Cons.IH[OF q(3)] q(1) by (intro ext) simp
qed simp

lemma filteredPeers_same: "list_all2 samePeer ps qs \<Longrightarrow> list_all2 samePeer (filteredPeers e ps) (filteredPeers e qs)"
proof (induction ps arbitrary: qs)
  case (Cons p ps)
  then obtain q qs' where q: "qs = q # qs'" "samePeer p q" "list_all2 samePeer ps qs'" by (auto simp: list_all2_Cons1)
  have "shouldIncludePeer e p = shouldIncludePeer e q" using samePeer_rendered[OF q(2)] by auto
  then show ?case using Cons.IH[OF q(3)] q by (simp add: filteredPeers_def)
qed (simp add: filteredPeers_def)

lemma EncodePeers_same:
  assumes "list_all2 samePeer ps qs"
  shows "EncodePeers mt bl gm tbl rows sh e ps ms = EncodePeers mt bl gm tbl rows sh e qs ms"
proof -
  have l: "length (filteredPeers e' ps) = length (filteredPeers e' qs)" "ps = [] \<longleftrightarrow> qs = []" for e' using filteredPeers_same[OF assms, of e'] assms by (auto dest: list_all2_lengthD)
  have d: "peerPass (dualPeer mt bl tbl rows e' hf prev) (filteredPeers e' ps) = peerPass (dualPeer mt bl tbl rows e' hf prev) (filteredPeers e' qs)" for e' hf prev
    by (rule peerPass_same[OF _ filteredPeers_same[OF assms]]) (rule peer_rendered)
  have c: "peerPass (classicPeer mt rows e' hf prev) (filteredPeers e' ps) = peerPass (classicPeer mt rows e' hf prev) (filteredPeers e' qs)" for e' hf prev
    by (rule peerPass_same[OF _ filteredPeers_same[OF assms]]) (rule peer_rendered)
  have i: "peerPass (if x then dualPeer mt bl tbl rows e' hf prev else classicPeer mt rows e' hf prev) (filteredPeers e' ps) =
      peerPass (if x then dualPeer mt bl tbl rows e' hf prev else classicPeer mt rows e' hf prev) (filteredPeers e' qs)" for x e' hf prev
    by (cases x) (simp_all add: d c)
  show ?thesis unfolding EncodePeers_def Let_def l i by (rule refl)
qed

lemma ClearOutput_rendered: "\<exists>b. ClearOutput e = rendered b (enc_delays e) e"
  by (rule exI) (simp add: ClearOutput_def Let_def rendered_def)

lemma mixBuses_rendered:
  assumes "mixBuses gm sh e sw ps = Some (e', ms)"
  shows "\<exists>b. e' = rendered b (enc_delays e) e"
  using assms by (auto simp: mixBuses_def Let_def rendered_def bind_eq_Some_conv)

lemma rendered_rendered [simp]: "rendered b d (rendered b' d' e) = rendered b d e" "enc_buffers (rendered b d e) = b" "enc_delays (rendered b d e) = d"
  "rendered (enc_buffers e) (enc_delays e) e = e"
  by (simp_all add: rendered_def)

lemma EncodePeers_rendered:
  assumes "EncodePeers mt bl gm tbl rows sh e ps ms = Some (e', ms')"
  shows "\<exists>b d. e' = rendered b d e"
proof -
  define e1 where "e1 = (if enc_dualBus e then e \<lparr> enc_delays := map_option (\<lambda>d. d \<lparr> dl_frameGen := dl_frameGen d + 1 \<rparr>) (enc_delays e) \<rparr> else e)"
  have e1: "e1 = rendered (enc_buffers e) (enc_delays e1) e" by (simp add: e1_def rendered_def)
  have u: "e1 \<lparr> enc_buffers := b \<rparr> = rendered b (enc_delays e1) e" "e1 \<lparr> enc_buffers := b, enc_delays := d \<rparr> = rendered b d e" for b d
    by (subst e1, simp add: rendered_def)+
  consider b where "e' = ClearOutput (e1 \<lparr> enc_buffers := b \<rparr>)" | "e' = ClearOutput e1" | b d sw pss where "mixBuses gm sh (e1 \<lparr> enc_buffers := b, enc_delays := d \<rparr>) sw pss = Some (e', ms')"
    using assms unfolding EncodePeers_def Let_def e1_def[symmetric] by (auto simp: bind_eq_Some_conv split: if_splits prod.splits)
  then show ?thesis
  proof cases
    case 1
    then show ?thesis using ClearOutput_rendered[of "e1 \<lparr> enc_buffers := b \<rparr>", unfolded u(1)] by (auto simp: u(1))
  next
    case 2
    then show ?thesis using ClearOutput_rendered[of e1] e1 by (metis rendered_rendered(1))
  next
    case 3
    then show ?thesis using mixBuses_rendered[OF 3, unfolded u(2)] by auto
  qed
qed

text \<open>What an Across job changes: the listener's rendered state and its worker's mixers.\<close>

definition rerendered :: "entity \<Rightarrow> entity \<Rightarrow> bool" where
  "rerendered e e' \<longleftrightarrow> (\<exists>b d a. e' = e \<lparr> ent_enc := rendered b d (ent_enc e), ent_ambiEnc := a \<rparr>)"

lemma phaseAcross_rendered:
  assumes "phaseAcross e ms m = Some (e', ms')"
  shows "rerendered e e'"
proof -
  obtain e1 ms1 where 1: "(if ent_sink e \<noteq> None then do { (enc, ms) \<leftarrow> encodeFor m (ent_enc e) (peerEncs m e) ms; Some (e \<lparr> ent_enc := enc \<rparr>, ms) } else Some (e, ms)) = Some (e1, ms1)"
    and 2: "(case ent_ambiEnc e1 of None \<Rightarrow> Some (e1, ms1) | Some a \<Rightarrow>
      do { (a, (dry, _, rvb)) \<leftarrow> encodeFor m a (peerEncs (setEnt m e1) e1) (fst ms1, None, snd (snd ms1)); Some (e1 \<lparr> ent_ambiEnc := Some a \<rparr>, (dry, fst (snd ms1), rvb)) }) = Some (e', ms')"
    using assms unfolding phaseAcross_def by (auto simp: bind_eq_Some_conv)
  have "\<exists>b d. e1 = e \<lparr> ent_enc := rendered b d (ent_enc e) \<rparr>"
  proof (cases "ent_sink e = None")
    case True
    then have "e1 = e \<lparr> ent_enc := rendered (enc_buffers (ent_enc e)) (enc_delays (ent_enc e)) (ent_enc e) \<rparr>" using 1 by simp
    then show ?thesis by blast
  next
    case False
    then obtain enc where "encodeFor m (ent_enc e) (peerEncs m e) ms = Some (enc, ms1)" "e1 = e \<lparr> ent_enc := enc \<rparr>" using 1 by (auto simp: bind_eq_Some_conv)
    then show ?thesis using EncodePeers_rendered unfolding encodeFor_def by blast
  qed
  then obtain b d where e1: "e1 = e \<lparr> ent_enc := rendered b d (ent_enc e) \<rparr>" by blast
  obtain a where "e' = e1 \<lparr> ent_ambiEnc := a \<rparr>"
  proof (cases "ent_ambiEnc e1")
    case None
    then have "e' = e1 \<lparr> ent_ambiEnc := ent_ambiEnc e1 \<rparr>" using 2 by simp
    then show ?thesis using that by blast
  next
    case (Some a)
    then show ?thesis using that 2 by (auto simp: bind_eq_Some_conv)
  qed
  then show ?thesis unfolding rerendered_def e1 by auto
qed

text \<open>Worlds in which other entities have rendered: the same pass comes out.\<close>

definition sameWorld :: "'d Mixer \<Rightarrow> 'd Mixer \<Rightarrow> bool" where
  "sameWorld m m' \<longleftrightarrow> mx_env m' = mx_env m \<and> rowsOf m' = rowsOf m \<and> mx_shared m' = mx_shared m \<and>
     (\<forall>x. rel_option (\<lambda>e e'. samePeer (ent_enc e') (ent_enc e)) (mx_ents m x) (mx_ents m' x))"

lemma peerEncs_same: "sameWorld m m' \<Longrightarrow> list_all2 samePeer (peerEncs m' e) (peerEncs m e)"
proof -
  assume s: "sameWorld m m'"
  have "list_all2 samePeer (map ent_enc (List.map_filter (mx_ents m') xs)) (map ent_enc (List.map_filter (mx_ents m) xs))" for xs
  proof (induction xs)
    case (Cons x xs)
    have "rel_option (\<lambda>e e'. samePeer (ent_enc e') (ent_enc e)) (mx_ents m x) (mx_ents m' x)" using s by (simp add: sameWorld_def)
    then show ?case using Cons.IH by (cases "mx_ents m x"; cases "mx_ents m' x") (auto simp: map_filter_simps)
  qed (simp add: map_filter_simps)
  then show ?thesis by (simp add: peerEncs_def)
qed

lemma encodeFor_same: "sameWorld m m' \<Longrightarrow> list_all2 samePeer ps qs \<Longrightarrow> encodeFor m' enc ps ms = encodeFor m enc qs ms"
  unfolding encodeFor_def using EncodePeers_same by (simp add: sameWorld_def)

lemma sameWorld_setEnt: "sameWorld m m' \<Longrightarrow> sameWorld (setEnt m e) (setEnt m' e)"
proof -
  have "samePeer (ent_enc e) (ent_enc e)" by (simp add: samePeer_def)
  moreover have "rowsOf (setEnt m e) = rowsOf m" for m :: "'a Mixer" by (intro ext) (simp add: rowsOf_def setEnt_def)
  ultimately show "sameWorld m m' \<Longrightarrow> sameWorld (setEnt m e) (setEnt m' e)" by (auto simp: sameWorld_def setEnt_def)
qed

lemma phaseAcross_same:
  assumes "sameWorld m m'"
  shows "phaseAcross e ms m' = phaseAcross e ms m"
proof -
  have 1: "encodeFor m' (ent_enc e) (peerEncs m' e) ms = encodeFor m (ent_enc e) (peerEncs m e) ms" by (rule encodeFor_same[OF assms peerEncs_same[OF assms]])
  have 2: "encodeFor m' a (peerEncs (setEnt m' e1) e1) ms2 = encodeFor m a (peerEncs (setEnt m e1) e1) ms2" for a e1 ms2
    by (rule encodeFor_same[OF assms peerEncs_same[OF sameWorld_setEnt[OF assms]]])
  show ?thesis unfolding phaseAcross_def 1 2 by (rule refl)
qed

text \<open>The job of an entity on a worker.\<close>

definition acrossJob :: "nat \<Rightarrow> string \<Rightarrow> 'd Mixer \<Rightarrow> (entity \<times> workerMixers) option" where
  "acrossJob w x m = do { e \<leftarrow> mx_ents m x; ms \<leftarrow> (if w < length (mx_workers m) then Some (mx_workers m ! w) else None); phaseAcross e ms m }"

definition putAcross :: "nat \<Rightarrow> entity \<times> workerMixers \<Rightarrow> 'd Mixer \<Rightarrow> 'd Mixer" where
  "putAcross w r m = setEnt (m \<lparr> mx_workers := (mx_workers m)[w := snd r] \<rparr>) (fst r)"

lemma runJob_across: "runJob PhaseAcross w x m = map_option (\<lambda>r. putAcross w r m) (acrossJob w x m)"
proof -
  have "Option.bind c (\<lambda>(e, ms). Some (setEnt (m \<lparr> mx_workers := (mx_workers m)[w := ms] \<rparr>) e)) = map_option (\<lambda>r. putAcross w r m) c" for c
    by (cases c) (auto simp: putAcross_def)
  then show ?thesis by (cases "mx_ents m x"; cases "w < length (mx_workers m)") (simp_all add: runJob_def acrossJob_def)
qed

lemma acrossJob_ent:
  assumes "acrossJob w x m = Some r" "idsOk m"
  obtains e where "mx_ents m x = Some e" "rerendered e (fst r)" "ent_id (fst r) = x" "w < length (mx_workers m)"
proof -
  obtain e where e: "mx_ents m x = Some e" "phaseAcross e (mx_workers m ! w) m = Some r" "w < length (mx_workers m)"
    using assms(1) by (auto simp: acrossJob_def bind_eq_Some_conv split: if_splits)
  have "rerendered e (fst r)" by (rule phaseAcross_rendered[of e "mx_workers m ! w" m "fst r" "snd r"]) (simp add: e(2))
  moreover from this have "ent_id (fst r) = x" using e(1) assms(2) by (auto simp: rerendered_def idsOk_def)
  ultimately show ?thesis using that e by blast
qed

lemma putAcross_world:
  assumes "acrossJob w x m = Some r" "idsOk m"
  shows "sameWorld m (putAcross w r m)"
proof -
  obtain e where e: "mx_ents m x = Some e" "rerendered e (fst r)" "ent_id (fst r) = x" by (rule acrossJob_ent[OF assms])
  have "samePeer (ent_enc (fst r)) (ent_enc e)" using e(2) by (auto simp: rerendered_def samePeer_def)
  moreover have "rel_option (\<lambda>e e'. samePeer (ent_enc e') (ent_enc e)) c c" for c by (cases c) (simp_all add: samePeer_def)
  moreover have "rowsOf (putAcross w r m) = rowsOf m" by (intro ext) (simp add: rowsOf_def putAcross_def setEnt_def)
  ultimately show ?thesis using e(1,3) by (auto simp: sameWorld_def putAcross_def setEnt_def)
qed

interpretation across: local_jobs acrossJob putAcross idsOk
proof
  fix m :: "'a Mixer" and w v :: nat and x y r q
  assume i: "idsOk m" and r: "acrossJob w x m = Some r"
  obtain e where e: "mx_ents m x = Some e" "ent_id (fst r) = x" by (rule acrossJob_ent[OF r i])
  show "idsOk (putAcross w r m)" using i e(2) by (simp add: idsOk_def putAcross_def setEnt_def)
  assume ne: "w \<noteq> v" "x \<noteq> y"
  have "mx_ents (putAcross w r m) y = mx_ents m y" "length (mx_workers (putAcross w r m)) = length (mx_workers m)" "mx_workers (putAcross w r m) ! v = mx_workers m ! v"
    using ne e(2) by (simp_all add: putAcross_def setEnt_def)
  then show "acrossJob v y (putAcross w r m) = acrossJob v y m" using phaseAcross_same[OF putAcross_world[OF r i]] by (simp add: acrossJob_def)
  assume q: "acrossJob v y m = Some q"
  have "ent_id (fst q) = y" by (rule acrossJob_ent[OF q i])
  then show "putAcross v q (putAcross w r m) = putAcross w r (putAcross v q m)"
    using ne e(2) by (simp add: putAcross_def setEnt_def fun_upd_twist list_update_swap)
qed

section \<open>Ownership\<close>

text \<open>Every slot, source and sink an entity plays or feeds is its own.\<close>

definition ownedBy :: "(nat \<Rightarrow> string) \<Rightarrow> (nat \<Rightarrow> string) \<Rightarrow> (nat \<Rightarrow> string) \<Rightarrow> (nat \<Rightarrow> string) \<Rightarrow> string \<Rightarrow> entity \<Rightarrow> bool" where
  "ownedBy sl os ok oa x e \<longleftrightarrow> ent_id e = x \<and> sl (ent_slot e) = x \<and> (\<forall>r. ent_src e = Some r \<longrightarrow> os (sr_handle r) = x) \<and>
     (\<forall>k. ent_sink e = Some k \<longrightarrow> ok k = x) \<and> (\<forall>k\<in>snd ` set (ent_ambiSinks e). oa k = x)"

definition apartInv :: "'d Mixer \<Rightarrow> bool" where
  "apartInv m \<longleftrightarrow> (\<exists>sl os ok oa. \<forall>x e. mx_ents m x = Some e \<longrightarrow> ownedBy sl os ok oa x e)"

lemma apart_ids: "apartInv m \<Longrightarrow> idsOk m"
  by (auto simp: apartInv_def ownedBy_def idsOk_def)

lemma apart_distinct:
  assumes "apartInv m" "mx_ents m x = Some e" "mx_ents m y = Some f" "x \<noteq> y"
  shows "ent_slot e \<noteq> ent_slot f" "ent_src e = Some r \<Longrightarrow> ent_src f = Some q \<Longrightarrow> sr_handle r \<noteq> sr_handle q" "ent_sink e = Some k \<Longrightarrow> ent_sink f \<noteq> Some k"
    "snd ` set (ent_ambiSinks e) \<inter> snd ` set (ent_ambiSinks f) = {}"
proof -
  obtain sl os ok oa where "\<forall>x e. mx_ents m x = Some e \<longrightarrow> ownedBy sl os ok oa x e" using assms(1) by (auto simp: apartInv_def)
  then have o: "ownedBy sl os ok oa x e" "ownedBy sl os ok oa y f" using assms(2,3) by blast+
  show "ent_slot e \<noteq> ent_slot f" "ent_src e = Some r \<Longrightarrow> ent_src f = Some q \<Longrightarrow> sr_handle r \<noteq> sr_handle q" "ent_sink e = Some k \<Longrightarrow> ent_sink f \<noteq> Some k"
    "snd ` set (ent_ambiSinks e) \<inter> snd ` set (ent_ambiSinks f) = {}" using o assms(4) unfolding ownedBy_def by fastforce+
qed

lemma apart_setEnt:
  assumes "apartInv m" "mx_ents m x = Some e" "mx_ents m' = (mx_ents m)(x \<mapsto> e')"
    "ent_id e' = ent_id e" "ent_slot e' = ent_slot e" "ent_src e' = ent_src e" "ent_sink e' = ent_sink e" "ent_ambiSinks e' = ent_ambiSinks e"
  shows "apartInv m'"
proof -
  obtain sl os ok oa where o: "\<forall>x e. mx_ents m x = Some e \<longrightarrow> ownedBy sl os ok oa x e" using assms(1) by (auto simp: apartInv_def)
  then have "ownedBy sl os ok oa x e" using assms(2) by blast
  then have "ownedBy sl os ok oa x e'" using assms(4-8) by (simp add: ownedBy_def)
  then have "\<forall>y f. mx_ents m' y = Some f \<longrightarrow> ownedBy sl os ok oa y f" using o assms(3) by simp
  then show ?thesis unfolding apartInv_def by blast
qed

section \<open>The In phase\<close>

text \<open>What the source half computes: the encoder, the source's next state and the row of the shared matrix.\<close>

type_synonym 'd inUpd = "(nat \<times> 'd Source \<times> nat \<times> rat list) option"

definition inCalc :: "entity \<Rightarrow> 'd Mixer \<Rightarrow> (entity \<times> 'd inUpd) option" where
  "inCalc e m = (let mt = ev_math (mx_env m) in
     case ent_src e of
       None \<Rightarrow> Some (e, None)
     | Some r \<Rightarrow>
         do { s \<leftarrow> mx_sources m (sr_handle r);
              (frm, p, s) \<leftarrow> (if channelInRange m s then readFrame mt (\<lambda>h. the (mx_groupHeap m h)) s (enc_Input (ent_enc e)) else None);
              let enc = SetPosition (PushInputRing ((ent_enc e) \<lparr> enc_Input := frm \<rparr>)) (position p);
              let enc = (if rp_Directivity (ent_params e) > 0 then SetSourceForward enc (forward mt p) else enc);
              let s = updateRenderLoudness mt s frm (rp_Gain (ent_params e));
              if (ent_slot e + 1) * FrameSize \<le> length (mx_shared m) then Some (e \<lparr> ent_enc := enc \<rparr>, Some (sr_handle r, s, ent_slot e, take FrameSize frm)) else None })"

definition applyIn :: "'d inUpd \<Rightarrow> 'd Mixer \<Rightarrow> 'd Mixer" where
  "applyIn u m = (case u of None \<Rightarrow> m
   | Some (h, s, slot, samples) \<Rightarrow> m \<lparr> mx_sources := (mx_sources m)(h \<mapsto> s), mx_shared := copy_at (mx_shared m) (slot * FrameSize) samples \<rparr>)"

lemma inSource_calc: "inSource e m = map_option (\<lambda>(e, u). (e, applyIn u m)) (inCalc e m)"
proof (cases "ent_src e")
  case (Some r)
  show ?thesis
  proof (cases "Option.bind (mx_sources m (sr_handle r)) (\<lambda>s. if channelInRange m s then readFrame (ev_math (mx_env m)) (\<lambda>h. the (mx_groupHeap m h)) s (enc_Input (ent_enc e)) else None)")
    case None
    then show ?thesis using Some by (cases "mx_sources m (sr_handle r)") (auto simp: inSource_def inCalc_def Let_def)
  next
    case (Some t)
    obtain frm p s where "t = (frm, p, s)" by (cases t)
    then show ?thesis using Some \<open>ent_src e = Some r\<close>
      by (cases "mx_sources m (sr_handle r)") (auto simp: inSource_def inCalc_def Let_def SetRow_def applyIn_def)
  qed
qed (simp add: inSource_def inCalc_def applyIn_def)

lemma applyIn_simps [simp]:
  "mx_env (applyIn u m) = mx_env m" "mx_ents (applyIn u m) = mx_ents m" "mx_workers (applyIn u m) = mx_workers m" "mx_groupHeap (applyIn u m) = mx_groupHeap m"
  "mx_sinks (applyIn u m) = mx_sinks m" "mx_ambis (applyIn u m) = mx_ambis m"
  by (simp_all add: applyIn_def split: option.split prod.split)

lemma inSink_poses:
  assumes "mx_env m' = mx_env m" "mx_sinks m' = mx_sinks m"
  shows "inSink m' = inSink m"
  unfolding inSink_def[abs_def] assms by (rule refl)

lemma inAmbi_poses:
  assumes "mx_sinks m' = mx_sinks m" "mx_ambis m' = mx_ambis m"
  shows "inAmbi m' = inAmbi m"
  unfolding inAmbi_def[abs_def] listenerPose_def assms by (rule refl)

definition inJob :: "nat \<Rightarrow> string \<Rightarrow> 'd Mixer \<Rightarrow> (entity \<times> 'd inUpd) option" where
  "inJob w x m = do { e \<leftarrow> mx_ents m x; ms \<leftarrow> (if w < length (mx_workers m) then Some (mx_workers m ! w) else None);
     (e, u) \<leftarrow> inCalc e m; Some (inAmbi m (inSink m e), u) }"

definition putIn :: "nat \<Rightarrow> entity \<times> 'd inUpd \<Rightarrow> 'd Mixer \<Rightarrow> 'd Mixer" where
  "putIn w r m = setEnt (applyIn (snd r) m) (fst r)"

lemma runJob_in: "runJob PhaseIn w x m = map_option (\<lambda>r. putIn w r m) (inJob w x m)"
proof (cases "mx_ents m x")
  case (Some e)
  have "phaseIn e m = Option.bind (inCalc e m) (\<lambda>(e, u). Some (inAmbi m (inSink m e), applyIn u m))"
    using inSink_poses[of "applyIn u m" m for u] inAmbi_poses[of "applyIn u m" m for u] by (cases "inCalc e m") (auto simp: phaseIn_def inSource_calc)
  then show ?thesis using Some by (cases "inCalc e m"; cases "w < length (mx_workers m)") (auto simp: runJob_def inJob_def putIn_def)
qed (simp add: runJob_def inJob_def)

text \<open>A job's own places.\<close>

lemma inCalc_own:
  assumes "inCalc e m = Some (e', u)"
  shows "ent_id e' = ent_id e \<and> ent_slot e' = ent_slot e \<and> ent_src e' = ent_src e \<and> ent_sink e' = ent_sink e \<and> ent_ambiSinks e' = ent_ambiSinks e"
    "case u of None \<Rightarrow> ent_src e = None | Some (h, s, slot, samples) \<Rightarrow> slot = ent_slot e \<and> (\<exists>r. ent_src e = Some r \<and> sr_handle r = h) \<and> length samples \<le> FrameSize \<and>
       (slot + 1) * FrameSize \<le> length (mx_shared m) \<and> mx_sources m h \<noteq> None"
  using assms by (auto simp: inCalc_def Let_def bind_eq_Some_conv split: option.splits if_splits)

lemma inJob_own:
  assumes "inJob w x m = Some r"
  obtains e where "mx_ents m x = Some e" "ent_id (fst r) = ent_id e" "ent_slot (fst r) = ent_slot e" "ent_src (fst r) = ent_src e" "ent_sink (fst r) = ent_sink e"
    "ent_ambiSinks (fst r) = ent_ambiSinks e"
    "case snd r of None \<Rightarrow> ent_src e = None | Some (h, s, slot, samples) \<Rightarrow> slot = ent_slot e \<and> (\<exists>r. ent_src e = Some r \<and> sr_handle r = h) \<and> length samples \<le> FrameSize \<and>
       (slot + 1) * FrameSize \<le> length (mx_shared m) \<and> mx_sources m h \<noteq> None"
proof -
  obtain e e' u where e: "mx_ents m x = Some e" "inCalc e m = Some (e', u)" "r = (inAmbi m (inSink m e'), u)"
    using assms by (auto simp: inJob_def bind_eq_Some_conv split: if_splits)
  have "ent_id (inAmbi m (inSink m e')) = ent_id e' \<and> ent_slot (inAmbi m (inSink m e')) = ent_slot e' \<and> ent_src (inAmbi m (inSink m e')) = ent_src e' \<and>
      ent_sink (inAmbi m (inSink m e')) = ent_sink e' \<and> ent_ambiSinks (inAmbi m (inSink m e')) = ent_ambiSinks e'"
    by (auto simp: inAmbi_def inSink_def split: option.split)
  then show ?thesis using that[OF e(1)] inCalc_own[OF e(2)] e(3) by simp
qed

lemma channelInRange_heap:
  assumes "mx_groupHeap m' = mx_groupHeap m"
  shows "channelInRange m' = channelInRange m"
  unfolding channelInRange_def[abs_def] assms by (rule refl)

lemma applyIn_calc:
  assumes "inCalc e (m :: 'd Mixer) = Some (e', u)" "\<And>r h s slot samples. ent_src f = Some r \<Longrightarrow> u = Some (h, s, slot, samples) \<Longrightarrow> sr_handle r \<noteq> h"
  shows "inCalc f (applyIn u m) = inCalc f m"
proof (cases u)
  case (Some t)
  obtain h s slot samples where t: "u = Some (h, s, slot, samples)" using Some by (cases t) auto
  have "slot * FrameSize \<le> length (mx_shared m)" using inCalc_own(2)[OF assms(1)] t by (auto simp: add_mult_distrib)
  then have l: "length (mx_shared (applyIn u m)) = length (mx_shared m)" by (simp add: applyIn_def t)
  have c: "channelInRange (applyIn u m) = channelInRange m" by (rule channelInRange_heap) simp
  have src: "mx_sources (applyIn u m) (sr_handle r) = mx_sources m (sr_handle r)" if "ent_src f = Some r" for r using assms(2)[OF that t] by (simp add: applyIn_def t)
  show ?thesis
  proof (cases "ent_src f")
    case (Some r)
    show ?thesis unfolding inCalc_def Some applyIn_simps c l option.case src[OF Some] by (rule refl)
  qed (simp add: inCalc_def)
qed (simp add: applyIn_def)

lemma nth_copy_at: "off + length src \<le> length dst \<Longrightarrow> i < length dst \<Longrightarrow> copy_at dst off src ! i = (if off \<le> i \<and> i < off + length src then src ! (i - off) else dst ! i)"
  by (auto simp: copy_at_fits nth_append)

lemma copy_at_swap:
  assumes "a + length xs \<le> length d" "b + length ys \<le> length d" "a + length xs \<le> b \<or> b + length ys \<le> a"
  shows "copy_at (copy_at d a xs) b ys = copy_at (copy_at d b ys) a xs"
proof (rule nth_equalityI)
  have l: "length (copy_at d a xs) = length d" "length (copy_at d b ys) = length d" using assms(1,2) by simp_all
  then show "length (copy_at (copy_at d a xs) b ys) = length (copy_at (copy_at d b ys) a xs)" using assms(1,2) by simp
  fix i assume "i < length (copy_at (copy_at d a xs) b ys)"
  then have i: "i < length d" using l assms(1,2) by simp
  show "copy_at (copy_at d a xs) b ys ! i = copy_at (copy_at d b ys) a xs ! i" using assms i l by (auto simp: nth_copy_at)
qed

lemma applyIn_swap:
  assumes "fst ` set_option u \<inter> fst ` set_option v = {}"
    "\<And>h s i r k t j q. u = Some (h, s, i, r) \<Longrightarrow> v = Some (k, t, j, q) \<Longrightarrow> i \<noteq> j \<and> length r \<le> FrameSize \<and> length q \<le> FrameSize \<and>
       (i + 1) * FrameSize \<le> length (mx_shared m) \<and> (j + 1) * FrameSize \<le> length (mx_shared m)"
  shows "applyIn v (applyIn u m) = applyIn u (applyIn v m)"
proof (cases "u = None \<or> v = None")
  case False
  then obtain h s i r k t j q where u: "u = Some (h, s, i, r)" and v: "v = Some (k, t, j, q)" by (cases u; cases v) auto
  note b = assms(2)[OF u v]
  have "(i + 1) * FrameSize \<le> j * FrameSize \<or> (j + 1) * FrameSize \<le> i * FrameSize" 
    using b mult_le_mono1[of "i + 1" j FrameSize] mult_le_mono1[of "j + 1" i FrameSize] by linarith
  then have "copy_at (copy_at (mx_shared m) (i * FrameSize) r) (j * FrameSize) q = copy_at (copy_at (mx_shared m) (j * FrameSize) q) (i * FrameSize) r"
    using b by (intro copy_at_swap) (auto simp: add_mult_distrib)
  then show ?thesis using assms(1) by (simp add: u v applyIn_def fun_upd_twist)
qed (auto simp: applyIn_def split: option.split)

lemma setEnt_applyIn: "applyIn u (setEnt m e) = setEnt (applyIn u m) e"
  by (simp add: applyIn_def setEnt_def split: option.split prod.split)

lemma inCalc_ents: "inCalc f (m \<lparr> mx_ents := E \<rparr>) = inCalc f m"
proof -
  have c: "channelInRange (m \<lparr> mx_ents := E \<rparr>) = channelInRange m" by (rule channelInRange_heap) simp
  have f: "mx_env (m \<lparr> mx_ents := E \<rparr>) = mx_env m" "mx_sources (m \<lparr> mx_ents := E \<rparr>) = mx_sources m" "mx_groupHeap (m \<lparr> mx_ents := E \<rparr>) = mx_groupHeap m"
    "mx_shared (m \<lparr> mx_ents := E \<rparr>) = mx_shared m" by simp_all
  show ?thesis unfolding inCalc_def c f by (rule refl)
qed

interpretation inPhase: local_jobs inJob putIn apartInv
proof
  fix m :: "'a Mixer" and w v :: nat and x y r q
  assume i: "apartInv m" and r: "inJob w x m = Some r"
  obtain e where e: "mx_ents m x = Some e" "ent_id (fst r) = ent_id e" "ent_slot (fst r) = ent_slot e" "ent_src (fst r) = ent_src e" "ent_sink (fst r) = ent_sink e"
    "ent_ambiSinks (fst r) = ent_ambiSinks e"
    "case snd r of None \<Rightarrow> ent_src e = None | Some (h, s, slot, samples) \<Rightarrow> slot = ent_slot e \<and> (\<exists>r. ent_src e = Some r \<and> sr_handle r = h) \<and> length samples \<le> FrameSize \<and>
       (slot + 1) * FrameSize \<le> length (mx_shared m) \<and> mx_sources m h \<noteq> None" by (rule inJob_own[OF r])
  have x: "ent_id e = x" using apart_ids[OF i] e(1) by (simp add: idsOk_def)
  have ents: "mx_ents (putIn w r m) = (mx_ents m)(x \<mapsto> fst r)" using e(2) x by (simp add: putIn_def setEnt_def)
  show "apartInv (putIn w r m)" by (rule apart_setEnt[OF i e(1) ents e(2-6)])
  assume ne: "w \<noteq> v" "x \<noteq> y"
  obtain e' where calc: "inCalc e m = Some (e', snd r)" using r e(1) by (auto simp: inJob_def bind_eq_Some_conv split: if_splits)
  have same: "inCalc f (putIn w r m) = inCalc f m" if f: "mx_ents m y = Some f" for f
  proof -
    have "inCalc f (applyIn (snd r) m) = inCalc f m"
      by (rule applyIn_calc[OF calc]) (use e(7) apart_distinct(2)[OF i e(1) f ne(2)] in fastforce)
    then show ?thesis by (simp add: putIn_def setEnt_def inCalc_ents)
  qed
  have p: "inSink (putIn w r m) = inSink m" "inAmbi (putIn w r m) = inAmbi m"
    by (rule inSink_poses inAmbi_poses; simp add: putIn_def setEnt_def)+
  have wk: "mx_workers (putIn w r m) = mx_workers m" "mx_ents (putIn w r m) y = mx_ents m y" using ents ne by (simp_all add: putIn_def setEnt_def)
  show "inJob v y (putIn w r m) = inJob v y m"
    unfolding inJob_def wk p using same by (cases "mx_ents m y") simp_all
  assume q: "inJob v y m = Some q"
  obtain f where f: "mx_ents m y = Some f" "ent_id (fst q) = ent_id f"
    "case snd q of None \<Rightarrow> ent_src f = None | Some (h, s, slot, samples) \<Rightarrow> slot = ent_slot f \<and> (\<exists>r. ent_src f = Some r \<and> sr_handle r = h) \<and> length samples \<le> FrameSize \<and>
       (slot + 1) * FrameSize \<le> length (mx_shared m) \<and> mx_sources m h \<noteq> None" by (rule inJob_own[OF q])
  have "ent_id f = y" using apart_ids[OF i] f(1) by (simp add: idsOk_def)
  then have "setEnt (setEnt M (fst r)) (fst q) = setEnt (setEnt M (fst q)) (fst r)" for M :: "'a Mixer"
    using e(2) x f(2) ne(2) by (simp add: setEnt_def fun_upd_twist)
  moreover have "applyIn (snd q) (applyIn (snd r) m) = applyIn (snd r) (applyIn (snd q) m)"
    by (rule applyIn_swap) (use e(7) f(3) apart_distinct(1,2)[OF i e(1) f(1) ne(2)] in \<open>fastforce split: option.splits\<close>)+
  ultimately show "putIn v q (putIn w r m) = putIn w r (putIn v q m)" by (simp add: putIn_def setEnt_applyIn)
qed

section \<open>The Out phase\<close>

text \<open>The sinks a job writes to, apart from the rest.\<close>

type_synonym cells = "nat \<Rightarrow> Sink option"

definition over :: "cells \<Rightarrow> (nat \<Rightarrow> Sink) \<Rightarrow> nat \<Rightarrow> Sink" where
  "over c f k = (case c k of Some s \<Rightarrow> s | None \<Rightarrow> f k)"

lemma over_empty [simp]: "over Map.empty f = f"
  by (simp add: over_def fun_eq_iff)

lemma over_upd: "over (c(k \<mapsto> s)) f = (over c f)(k := s)"
  by (auto simp: over_def fun_eq_iff)

definition ambiCell :: "Env \<Rightarrow> nat \<Rightarrow> (nat \<Rightarrow> Sink) \<Rightarrow> rat list \<Rightarrow> int \<times> nat \<Rightarrow> cells \<Rightarrow> cells option" where
  "ambiCell env fs am pl ok c = (case ok of (order, k) \<Rightarrow>
     map_option (\<lambda>frm. c(k \<mapsto> emitTo (ev_encodeMS env k) fs frm (over c am k))) (ambiFrame (ev_math env) order pl))"

lemma ambi_cells:
  "foldO (ambi_emit pl) ks (m \<lparr> mx_ambis := over c (mx_ambis m) \<rparr>) =
    map_option (\<lambda>c'. m \<lparr> mx_ambis := over c' (mx_ambis m) \<rparr>) (foldO (ambiCell (mx_env m) (mx_frameStart m) (mx_ambis m) pl) ks c)"
proof (induction ks arbitrary: c)
  case (Cons ok ks)
  obtain order k where k: "ok = (order, k)" by fastforce
  show ?case
  proof (cases "ambiFrame (ev_math (mx_env m)) order pl")
    case None
    then show ?thesis by (simp add: k ambi_emit_def ambiCell_def)
  next
    case (Some frm)
    define c1 where "c1 = c(k \<mapsto> emitTo (ev_encodeMS (mx_env m) k) (mx_frameStart m) frm (over c (mx_ambis m) k))"
    have "ambi_emit pl ok (m \<lparr> mx_ambis := over c (mx_ambis m) \<rparr>) = Some (m \<lparr> mx_ambis := over c1 (mx_ambis m) \<rparr>)" using Some by (simp add: k ambi_emit_def c1_def over_upd)
    moreover have "ambiCell (mx_env m) (mx_frameStart m) (mx_ambis m) pl ok c = Some c1" using Some by (simp add: k ambiCell_def c1_def)
    ultimately show ?thesis using Cons.IH[of c1] by simp
  qed
qed simp

lemma cells_agree:
  assumes "\<And>k. k \<in> snd ` set ks \<Longrightarrow> am' k = am k"
  shows "foldO (ambiCell env fs am' pl) ks c = foldO (ambiCell env fs am pl) ks c"
  using assms
proof (induction ks arbitrary: c)
  case (Cons ok ks)
  have "over c am' (snd ok) = over c am (snd ok)" using Cons.prems[of "snd ok"] by (simp add: over_def split: option.split)
  then have "ambiCell env fs am' pl ok c = ambiCell env fs am pl ok c" by (cases ok) (simp add: ambiCell_def)
  moreover have "foldO (ambiCell env fs am' pl) ks c' = foldO (ambiCell env fs am pl) ks c'" for c' using Cons.IH[of c'] Cons.prems by auto
  ultimately show ?case by (simp cong: option.case_cong Option.bind_cong)
qed simp

lemma cells_dom: "foldO (ambiCell env fs am pl) ks c = Some c' \<Longrightarrow> dom c' \<subseteq> dom c \<union> snd ` set ks"
proof (induction ks arbitrary: c)
  case (Cons ok ks)
  then obtain c1 where c1: "ambiCell env fs am pl ok c = Some c1" "foldO (ambiCell env fs am pl) ks c1 = Some c'" by (auto simp: bind_eq_Some_conv)
  have "dom c1 \<subseteq> insert (snd ok) (dom c)" using c1(1) by (auto simp: ambiCell_def split: prod.splits if_splits)
  then show ?case using Cons.IH[OF c1(2)] unfolding list.set image_insert by blast
qed simp

text \<open>A job's results: the entity, the cell of its binaural sink, the cells of its ambisonic sinks.\<close>

definition outCalc :: "entity \<Rightarrow> 'd Mixer \<Rightarrow> (entity \<times> cells \<times> cells) option" where
  "outCalc e m =
    do { (e, s) \<leftarrow> (case ent_sink e of None \<Rightarrow> Some (e, Map.empty)
           | Some k \<Rightarrow> do { enc \<leftarrow> PostMix (ent_enc e);
               Some (e \<lparr> ent_enc := enc \<rparr>, [k \<mapsto> emitTo (ev_encode (mx_env m) k) (mx_frameStart m) (eb_Output (enc_buffers enc)) (mx_sinks m k)]) });
         (case ent_ambiEnc e of None \<Rightarrow> Some (e, s, Map.empty)
          | Some a \<Rightarrow> do { a \<leftarrow> PostMix a;
              c \<leftarrow> foldO (ambiCell (mx_env m) (mx_frameStart m) (mx_ambis m) (eb_Output (enc_buffers a))) (ent_ambiSinks e) Map.empty;
              Some (e \<lparr> ent_ambiEnc := Some a \<rparr>, s, c) }) }"

definition applyOut :: "cells \<times> cells \<Rightarrow> 'd Mixer \<Rightarrow> 'd Mixer" where
  "applyOut u m = m \<lparr> mx_sinks := over (fst u) (mx_sinks m), mx_ambis := over (snd u) (mx_ambis m) \<rparr>"

lemma outAmbi_calc:
  "outAmbi e (m \<lparr> mx_sinks := S \<rparr>) = (case ent_ambiEnc e of None \<Rightarrow> Some (e, m \<lparr> mx_sinks := S \<rparr>)
     | Some a \<Rightarrow> do { a \<leftarrow> PostMix a; c \<leftarrow> foldO (ambiCell (mx_env m) (mx_frameStart m) (mx_ambis m) (eb_Output (enc_buffers a))) (ent_ambiSinks e) Map.empty;
         Some (e \<lparr> ent_ambiEnc := Some a \<rparr>, m \<lparr> mx_sinks := S, mx_ambis := over c (mx_ambis m) \<rparr>) })"
proof (cases "ent_ambiEnc e")
  case (Some a)
  show ?thesis
  proof (cases "PostMix a")
    case (Some a')
    have "foldO (ambi_emit (eb_Output (enc_buffers a'))) (ent_ambiSinks e) (m \<lparr> mx_sinks := S \<rparr>) =
        map_option (\<lambda>c. m \<lparr> mx_sinks := S, mx_ambis := over c (mx_ambis m) \<rparr>)
          (foldO (ambiCell (mx_env m) (mx_frameStart m) (mx_ambis m) (eb_Output (enc_buffers a'))) (ent_ambiSinks e) Map.empty)"
      using ambi_cells[where m = "m \<lparr> mx_sinks := S \<rparr>" and c = Map.empty] by simp
    then show ?thesis using Some \<open>ent_ambiEnc e = Some a\<close>
      by (cases "foldO (ambiCell (mx_env m) (mx_frameStart m) (mx_ambis m) (eb_Output (enc_buffers a'))) (ent_ambiSinks e) Map.empty") (simp_all add: outAmbi_def)
  qed (use Some in \<open>simp add: outAmbi_def\<close>)
qed (simp add: outAmbi_def)

lemma phaseOut_calc: "phaseOut e m = map_option (\<lambda>(e, u). (e, applyOut u m)) (outCalc e m)"
proof -
  have tail: "outAmbi e1 (m \<lparr> mx_sinks := over s (mx_sinks m) \<rparr>) = map_option (\<lambda>(e, u). (e, applyOut u m))
      (case ent_ambiEnc e1 of None \<Rightarrow> Some (e1, s, Map.empty)
          | Some a \<Rightarrow> do { a \<leftarrow> PostMix a;
              c \<leftarrow> foldO (ambiCell (mx_env m) (mx_frameStart m) (mx_ambis m) (eb_Output (enc_buffers a))) (ent_ambiSinks e1) Map.empty;
              Some (e1 \<lparr> ent_ambiEnc := Some a \<rparr>, s, c) })" for e1 s
    unfolding outAmbi_calc by (auto simp: applyOut_def split: option.split bind_split)
  show ?thesis
  proof (cases "ent_sink e")
    case None
    have "m \<lparr> mx_sinks := over Map.empty (mx_sinks m) \<rparr> = m" by simp
    then show ?thesis using None tail[of e Map.empty] by (simp add: phaseOut_def outSink_def outCalc_def)
  next
    case (Some k)
    show ?thesis
    proof (cases "PostMix (ent_enc e)")
      case (Some enc)
      let ?s = "[k \<mapsto> emitTo (ev_encode (mx_env m) k) (mx_frameStart m) (eb_Output (enc_buffers enc)) (mx_sinks m k)]"
      have "sink_emit k (eb_Output (enc_buffers enc)) m = m \<lparr> mx_sinks := over ?s (mx_sinks m) \<rparr>" by (simp add: sink_emit_def over_upd)
      then show ?thesis using Some \<open>ent_sink e = Some k\<close> tail[of "e \<lparr> ent_enc := enc \<rparr>" ?s] by (simp add: phaseOut_def outSink_def outCalc_def)
    qed (use Some in \<open>simp add: phaseOut_def outSink_def outCalc_def\<close>)
  qed
qed

lemma outCalc_own:
  assumes "outCalc e m = Some (e', s, c)"
  shows "ent_id e' = ent_id e \<and> ent_slot e' = ent_slot e \<and> ent_src e' = ent_src e \<and> ent_sink e' = ent_sink e \<and> ent_ambiSinks e' = ent_ambiSinks e"
    "dom s \<subseteq> set_option (ent_sink e)" "dom c \<subseteq> snd ` set (ent_ambiSinks e)"
proof -
  obtain e1 s1 where 1: "(case ent_sink e of None \<Rightarrow> Some (e, Map.empty) | Some k \<Rightarrow> do { enc \<leftarrow> PostMix (ent_enc e);
      Some (e \<lparr> ent_enc := enc \<rparr>, [k \<mapsto> emitTo (ev_encode (mx_env m) k) (mx_frameStart m) (eb_Output (enc_buffers enc)) (mx_sinks m k)]) }) = Some (e1, s1)"
    and 2: "(case ent_ambiEnc e1 of None \<Rightarrow> Some (e1, s1, Map.empty) | Some a \<Rightarrow> do { a \<leftarrow> PostMix a;
        c \<leftarrow> foldO (ambiCell (mx_env m) (mx_frameStart m) (mx_ambis m) (eb_Output (enc_buffers a))) (ent_ambiSinks e1) Map.empty;
        Some (e1 \<lparr> ent_ambiEnc := Some a \<rparr>, s1, c) }) = Some (e', s, c)"
    using assms unfolding outCalc_def by (auto simp: bind_eq_Some_conv)
  have a: "ent_id e1 = ent_id e \<and> ent_slot e1 = ent_slot e \<and> ent_src e1 = ent_src e \<and> ent_sink e1 = ent_sink e \<and> ent_ambiSinks e1 = ent_ambiSinks e" "dom s1 \<subseteq> set_option (ent_sink e)"
    using 1 by (auto simp: bind_eq_Some_conv split: option.splits if_splits)
  have b: "ent_id e' = ent_id e1 \<and> ent_slot e' = ent_slot e1 \<and> ent_src e' = ent_src e1 \<and> ent_sink e' = ent_sink e1 \<and> ent_ambiSinks e' = ent_ambiSinks e1" "s = s1"
    "dom c \<subseteq> snd ` set (ent_ambiSinks e1)"
    using 2 by (auto simp: bind_eq_Some_conv dest!: cells_dom split: option.splits)
  show "ent_id e' = ent_id e \<and> ent_slot e' = ent_slot e \<and> ent_src e' = ent_src e \<and> ent_sink e' = ent_sink e \<and> ent_ambiSinks e' = ent_ambiSinks e"
    "dom s \<subseteq> set_option (ent_sink e)" "dom c \<subseteq> snd ` set (ent_ambiSinks e)" using a b by auto
qed

lemma over_apart: "dom c \<inter> dom d = {} \<Longrightarrow> over c (over d f) = over d (over c f)"
  by (force simp: over_def fun_eq_iff split: option.split)

lemma applyOut_simps [simp]:
  "mx_env (applyOut u m) = mx_env m" "mx_ents (applyOut u m) = mx_ents m" "mx_workers (applyOut u m) = mx_workers m" "mx_frameStart (applyOut u m) = mx_frameStart m"
  by (simp_all add: applyOut_def)

lemma applyOut_unread:
  assumes "\<And>k. ent_sink f = Some k \<Longrightarrow> k \<notin> dom (fst u)" "snd ` set (ent_ambiSinks f) \<inter> dom (snd u) = {}"
  shows "outCalc f ((applyOut u m) \<lparr> mx_ents := E \<rparr>) = outCalc f m"
proof -
  let ?m = "(applyOut u m) \<lparr> mx_ents := E \<rparr>"
  have s: "mx_sinks (applyOut u m) k = mx_sinks m k" if "ent_sink f = Some k" for k using assms(1)[OF that] by (auto simp: applyOut_def over_def split: option.split)
  have "mx_ambis (applyOut u m) k = mx_ambis m k" if "k \<in> snd ` set (ent_ambiSinks f)" for k
    using assms(2) that by (auto simp: applyOut_def over_def split: option.split)
  then have c: "foldO (ambiCell env fs (mx_ambis (applyOut u m)) pl) (ent_ambiSinks f) d = foldO (ambiCell env fs (mx_ambis m) pl) (ent_ambiSinks f) d" for env fs pl d by (rule cells_agree)
  have fields: "mx_env ?m = mx_env m" "mx_frameStart ?m = mx_frameStart m" "mx_sinks ?m = mx_sinks (applyOut u m)" "mx_ambis ?m = mx_ambis (applyOut u m)" by simp_all
  show ?thesis
  proof (cases "ent_sink f")
    case None
    then show ?thesis unfolding outCalc_def fields by (simp add: c split: option.split)
  next
    case (Some k)
    then show ?thesis unfolding outCalc_def fields by (cases "PostMix (ent_enc f)") (simp_all add: c s[OF Some] split: option.split)
  qed
qed

definition outJob :: "nat \<Rightarrow> string \<Rightarrow> 'd Mixer \<Rightarrow> (entity \<times> cells \<times> cells) option" where
  "outJob w x m = do { e \<leftarrow> mx_ents m x; ms \<leftarrow> (if w < length (mx_workers m) then Some (mx_workers m ! w) else None); outCalc e m }"

definition putOut :: "nat \<Rightarrow> entity \<times> cells \<times> cells \<Rightarrow> 'd Mixer \<Rightarrow> 'd Mixer" where
  "putOut w r m = setEnt (applyOut (snd r) m) (fst r)"

lemma runJob_out: "runJob PhaseOut w x m = map_option (\<lambda>r. putOut w r m) (outJob w x m)"
proof (cases "mx_ents m x")
  case (Some e)
  then show ?thesis by (cases "outCalc e m"; cases "w < length (mx_workers m)") (auto simp: runJob_def outJob_def putOut_def phaseOut_calc)
qed (simp add: runJob_def outJob_def)

lemma outJob_own:
  assumes "outJob w x m = Some r"
  obtains e where "mx_ents m x = Some e" "ent_id (fst r) = ent_id e" "ent_slot (fst r) = ent_slot e" "ent_src (fst r) = ent_src e" "ent_sink (fst r) = ent_sink e"
    "ent_ambiSinks (fst r) = ent_ambiSinks e" "dom (fst (snd r)) \<subseteq> set_option (ent_sink e)" "dom (snd (snd r)) \<subseteq> snd ` set (ent_ambiSinks e)"
proof -
  obtain e where e: "mx_ents m x = Some e" "outCalc e m = Some (fst r, fst (snd r), snd (snd r))"
    using assms by (auto simp: outJob_def bind_eq_Some_conv split: if_splits)
  show ?thesis using that[OF e(1)] outCalc_own[OF e(2)] by blast
qed

interpretation outPhase: local_jobs outJob putOut apartInv
proof
  fix m :: "'a Mixer" and w v :: nat and x y r q
  assume i: "apartInv m" and r: "outJob w x m = Some r"
  obtain e where e: "mx_ents m x = Some e" "ent_id (fst r) = ent_id e" "ent_slot (fst r) = ent_slot e" "ent_src (fst r) = ent_src e" "ent_sink (fst r) = ent_sink e"
    "ent_ambiSinks (fst r) = ent_ambiSinks e" "dom (fst (snd r)) \<subseteq> set_option (ent_sink e)" "dom (snd (snd r)) \<subseteq> snd ` set (ent_ambiSinks e)" by (rule outJob_own[OF r])
  have x: "ent_id e = x" using apart_ids[OF i] e(1) by (simp add: idsOk_def)
  have ents: "mx_ents (putOut w r m) = (mx_ents m)(x \<mapsto> fst r)" using e(2) x by (simp add: putOut_def setEnt_def)
  show "apartInv (putOut w r m)" by (rule apart_setEnt[OF i e(1) ents e(2-6)])
  assume ne: "w \<noteq> v" "x \<noteq> y"
  have same: "outCalc f (putOut w r m) = outCalc f m" if f: "mx_ents m y = Some f" for f
  proof -
    have "k \<notin> dom (fst (snd r))" if "ent_sink f = Some k" for k using e(7) apart_distinct(3)[OF i e(1) f ne(2), of k] that by auto
    moreover have "snd ` set (ent_ambiSinks f) \<inter> dom (snd (snd r)) = {}" using e(8) apart_distinct(4)[OF i e(1) f ne(2)] by blast
    ultimately show ?thesis unfolding putOut_def setEnt_def by (rule applyOut_unread)
  qed
  have wk: "mx_workers (putOut w r m) = mx_workers m" "mx_ents (putOut w r m) y = mx_ents m y" using ents ne by (simp_all add: putOut_def setEnt_def)
  show "outJob v y (putOut w r m) = outJob v y m" unfolding outJob_def wk using same by (cases "mx_ents m y") simp_all
  assume q: "outJob v y m = Some q"
  obtain f where f: "mx_ents m y = Some f" "ent_id (fst q) = ent_id f" "dom (fst (snd q)) \<subseteq> set_option (ent_sink f)" "dom (snd (snd q)) \<subseteq> snd ` set (ent_ambiSinks f)"
    by (rule outJob_own[OF q])
  have y: "ent_id f = y" using apart_ids[OF i] f(1) by (simp add: idsOk_def)
  have "dom (fst (snd q)) \<inter> dom (fst (snd r)) = {}" "dom (snd (snd q)) \<inter> dom (snd (snd r)) = {}"
    using e(7,8) f(3,4) apart_distinct(3,4)[OF i e(1) f(1) ne(2)] by (fastforce, blast)
  note o = over_apart[OF this(1)] over_apart[OF this(2)]
  show "putOut v q (putOut w r m) = putOut w r (putOut v q m)" using e(2) x f(2) y ne(2)
    by (simp add: putOut_def applyOut_def setEnt_def o fun_upd_twist)
qed

end
