(* ===== verification/Render_Poses.thy ===== *)
theory Render_Poses
  imports Render_Laws
begin

text \<open>
  The poses the sinks were given, and the numbers handed out to sinks, through ticks and calls: no tick and no
  other call changes a pose.
\<close>

section \<open>A tick leaves the sinks' poses alone\<close>

definition posesOf :: "'d Mixer \<Rightarrow> (nat \<Rightarrow> Pose option) \<times> (nat \<Rightarrow> Pose option) \<times> nat \<times> nat" where
  "posesOf m = (\<lambda>k. sk_pose (mx_sinks m k), \<lambda>k. sk_pose (mx_ambis m k), mx_nextSink m, mx_nextAmbi m)"

lemma posesOf_fields: "mx_sinks m' = mx_sinks m \<Longrightarrow> mx_ambis m' = mx_ambis m \<Longrightarrow> mx_nextSink m' = mx_nextSink m \<Longrightarrow> mx_nextAmbi m' = mx_nextAmbi m \<Longrightarrow>
  posesOf m' = posesOf m"
  by (simp add: posesOf_def)

lemma posesOf_upd [simp]:
  "posesOf (setEnt m e) = posesOf m" "posesOf (markAudibleDirty m) = posesOf m" "posesOf (removeEntity m e) = posesOf m" "posesOf (m \<lparr> mx_groups := gs \<rparr>) = posesOf m"
  "posesOf (m \<lparr> mx_destroyed := ds \<rparr>) = posesOf m" "posesOf (m \<lparr> mx_ambiDestroyed := ds \<rparr>) = posesOf m" "posesOf (m \<lparr> mx_channelTable := ct \<rparr>) = posesOf m"
  "posesOf (m \<lparr> mx_personalMutes := pm \<rparr>) = posesOf m" "posesOf (m \<lparr> mx_personalSolos := pm \<rparr>) = posesOf m" "posesOf (m \<lparr> mx_changes := cs \<rparr>) = posesOf m"
  "posesOf (m \<lparr> mx_workers := ws \<rparr>) = posesOf m" "posesOf (m \<lparr> mx_nextWork := w \<rparr>) = posesOf m" "posesOf (m \<lparr> mx_sources := ss \<rparr>) = posesOf m"
  "posesOf (m \<lparr> mx_sources := ss, mx_shared := sh \<rparr>) = posesOf m" "posesOf (readGroups m) = posesOf m" "posesOf (startTick m) = posesOf m" "posesOf (enqueue m c) = posesOf m"
  "posesOf (m \<lparr> mx_audibleDirty := d \<rparr>) = posesOf m" "posesOf (m \<lparr> mx_groupHeap := gh, mx_sources := ss \<rparr>) = posesOf m"
  by (simp_all add: posesOf_def setEnt_def markAudibleDirty_def removeEntity_def readGroups_def startTick_def Let_def enqueue_def)

lemma ensureEntity_poses: "ensureEntity m eid = Inr (e, m') \<Longrightarrow> posesOf m' = posesOf m"
  by (auto simp: ensureEntity_def posesOf_def split: option.splits sum.splits)

lemma leaveGroup_poses [simp]: "posesOf (leaveGroup m r) = posesOf m"
  by (auto simp: leaveGroup_def Let_def posesOf_def split: option.splits prod.splits)

lemma applyChange_poses: "applyChange c m = Inr m' \<Longrightarrow> posesOf m' = posesOf m"
  by (cases c) (auto simp: Let_def dest!: ensureEntity_poses split: sum.splits option.splits if_splits)

lemma applyAll_poses: "applyAll cs m = Inr m' \<Longrightarrow> posesOf m' = posesOf m"
  by (induction cs arbitrary: m) (auto dest: applyChange_poses split: sum.splits)

lemma setPair_poses: "setPair k s m = Some m' \<Longrightarrow> posesOf m' = posesOf m"
  by (auto simp: setPair_def posesOf_def bind_eq_Some_conv split: prod.splits)

lemma prepare_poses:
  assumes "prepare m = Some m'"
  shows "posesOf m' = posesOf m"
proof -
  obtain m1 where 1: "(if mx_audibleDirty m then recomputeAudible m else Some m) = Some m1" "foldO setPeers (sinkEnts (readGroups m1)) (readGroups m1) = Some m'"
    using assms by (auto simp: prepare_def Let_def bind_eq_Some_conv)
  have "posesOf m1 = posesOf m"
  proof (cases "mx_audibleDirty m")
    case True
    then have r: "foldO (\<lambda>(k, s). setPair k s) (List.product (liveEnts m) (liveEnts m)) (m \<lparr> mx_audibleDirty := False \<rparr>) = Some m1"
      using 1(1) by (simp add: recomputeAudible_def foldO_product)
    show ?thesis by (rule foldO_keep[OF r]) (auto dest: setPair_poses)
  qed (use 1(1) in simp)
  moreover have "posesOf m' = posesOf m1" by (rule foldO_keep[OF 1(2)]) (auto simp: setPeers_def Let_def split: if_splits)
  ultimately show ?thesis by simp
qed

lemma emitTo_pose [simp]: "sk_pose (emitTo f t frm k) = sk_pose k"
  by (simp add: emitTo_def Let_def split: option.split)

lemma inSource_poses: "inSource e m = Some (e', m') \<Longrightarrow> posesOf m' = posesOf m"
  by (auto simp: inSource_def Let_def bind_eq_Some_conv split: option.splits if_splits)

lemma phaseOut_poses:
  assumes "phaseOut e m = Some (e', m')"
  shows "posesOf m' = posesOf m"
proof -
  obtain e1 m1 where 1: "outSink e m = Some (e1, m1)" "outAmbi e1 m1 = Some (e', m')" using assms by (auto simp: phaseOut_def bind_eq_Some_conv)
  have a: "posesOf m1 = posesOf m"
    using 1(1) by (auto simp: outSink_def sink_emit_def posesOf_def fun_eq_iff bind_eq_Some_conv split: option.splits)
  have "posesOf m' = posesOf m1"
  proof (cases "ent_ambiEnc e1")
    case (Some a)
    then obtain pl where f: "foldO (ambi_emit pl) (ent_ambiSinks e1) m1 = Some m'" using 1(2) by (auto simp: outAmbi_def bind_eq_Some_conv)
    show ?thesis by (rule foldO_keep[OF f]) (auto simp: ambi_emit_def posesOf_def fun_eq_iff split: prod.splits)
  qed (use 1(2) in \<open>simp add: outAmbi_def\<close>)
  then show ?thesis using a by simp
qed

lemma dispatch_poses: "dispatch ph eid m = Some m' \<Longrightarrow> posesOf m' = posesOf m"
  by (cases ph) (auto simp: dispatch_def runJob_def phaseIn_def bind_eq_Some_conv dest!: inSource_poses phaseOut_poses split: if_splits)

lemma runPhase_poses: "runPhase ph ids m = Some m' \<Longrightarrow> posesOf m' = posesOf m"
  unfolding runPhase_def by (erule foldO_keep) (auto dest: dispatch_poses)

lemma Process_poses: "Process m = Some m' \<Longrightarrow> posesOf m' = posesOf m"
  by (auto simp: Process_def Let_def drainChanges_def bind_eq_Some_conv dest!: applyAll_poses prepare_poses runPhase_poses split: sum.splits)

section \<open>Calls\<close>

lemma calls_poses [simp]:
  "posesOf (fst (SetRenderParams m x p)) = posesOf m" "posesOf (fst (SetEntityMuted m x v)) = posesOf m" "posesOf (SetChannel m c q) = posesOf m"
  "posesOf (SetPersonalMute m x y v) = posesOf m" "posesOf (SetPersonalSolo m x y v) = posesOf m"
  by (simp_all add: SetRenderParams_def SetEntityMuted_def SetChannel_def SetPersonalMute_def SetPersonalSolo_def)

lemma removes_poses [simp]: "posesOf (RemoveSource m x) = posesOf m" "posesOf (RemoveSink m x) = posesOf m" "posesOf (RemoveAmbiSink m x i) = posesOf m"
proof -
  have "posesOf (release m x re) = posesOf m" for re by (simp add: release_def posesOf_def)
  then show "posesOf (RemoveSource m x) = posesOf m" "posesOf (RemoveSink m x) = posesOf m" "posesOf (RemoveAmbiSink m x i) = posesOf m"
    by (simp_all add: RemoveSource_eq RemoveSink_def RemoveAmbiSink_def split: option.split)
qed

lemma admit_poses: "admit m x t d u = Inr m' \<Longrightarrow> posesOf m' = posesOf m"
  by (auto simp: admit_def posesOf_def split: if_splits option.splits)

lemma AddSource_poses:
  assumes "AddSource cd m x cfg = (m', r)"
  shows "posesOf m' = posesOf m"
proof -
  obtain m1 o1 where b: "buildSource cd m x (applyDefaults cfg) = (m1, o1)" by fastforce
  have n: "posesOf (mx_nogroup M) = posesOf M" for M :: "'a Mixer" by (simp add: mx_nogroup_def posesOf_def)
  have m1: "posesOf m1 = posesOf m" using buildSource_nogroup[OF b] n by metis
  have j: "posesOf (joinGroup M s h) = posesOf M" for M :: "'a Mixer" and s h by (simp add: joinGroup_def posesOf_def split: option.split prod.split)
  have u: "posesOf (M \<lparr> mx_sources := ss, mx_nextSource := k \<rparr>) = posesOf M" for M :: "'a Mixer" and ss k by (simp add: posesOf_def)
  show ?thesis using assms b m1 by (cases o1) (auto simp: AddSource_eq Let_def j u dest!: admit_poses split: sum.splits)
qed

end
