(* ===== verification/Render_Parallel.thy ===== *)
theory Render_Parallel
  imports Render_Schedule Render_Poses
begin

text \<open>
  Ownership holds in every run: a source or sink handle names one entity for ever. So the jobs of every phase of every tick
  commute, and a tick's result does not depend on how the workers are scheduled.
\<close>

section \<open>Handles have one owner\<close>

type_synonym owners = "(nat \<Rightarrow> string) \<times> (nat \<Rightarrow> string) \<times> (nat \<Rightarrow> string)"

definition srcOwned :: "owners \<Rightarrow> nat \<Rightarrow> string \<Rightarrow> SourceRef option \<Rightarrow> bool" where
  "srcOwned ow n x c \<longleftrightarrow> (\<forall>r. c = Some r \<longrightarrow> fst ow (sr_handle r) = x \<and> sr_handle r < n)"

definition sinkOwned :: "owners \<Rightarrow> nat \<Rightarrow> string \<Rightarrow> nat option \<Rightarrow> bool" where
  "sinkOwned ow n x c \<longleftrightarrow> (\<forall>k. c = Some k \<longrightarrow> fst (snd ow) k = x \<and> k < n)"

definition ambisOwned :: "owners \<Rightarrow> nat \<Rightarrow> string \<Rightarrow> nat set \<Rightarrow> bool" where
  "ambisOwned ow n x K \<longleftrightarrow> (\<forall>k\<in>K. snd (snd ow) k = x \<and> k < n)"

definition counters :: "'d Mixer \<Rightarrow> nat \<times> nat \<times> nat" where
  "counters m = (mx_nextSource m, mx_nextSink m, mx_nextAmbi m)"

definition entOwned :: "owners \<Rightarrow> nat \<times> nat \<times> nat \<Rightarrow> string \<Rightarrow> entity \<Rightarrow> bool" where
  "entOwned ow n x e \<longleftrightarrow> ent_id e = x \<and> srcOwned ow (fst n) x (ent_src e) \<and> sinkOwned ow (fst (snd n)) x (ent_sink e) \<and>
     ambisOwned ow (snd (snd n)) x (snd ` set (ent_ambiSinks e))"

fun chOwned :: "owners \<Rightarrow> nat \<times> nat \<times> nat \<Rightarrow> change \<Rightarrow> bool" where
  "chOwned ow n (ChAddSource eid ref pose hf grp) \<longleftrightarrow> srcOwned ow (fst n) eid (Some ref)"
| "chOwned ow n (ChAddSink eid k) \<longleftrightarrow> sinkOwned ow (fst (snd n)) eid (Some k)"
| "chOwned ow n (ChAddAmbi eid order k) \<longleftrightarrow> ambisOwned ow (snd (snd n)) eid {k}"
| "chOwned ow n _ \<longleftrightarrow> True"

definition entsOwned :: "owners \<Rightarrow> nat \<times> nat \<times> nat \<Rightarrow> 'd Mixer \<Rightarrow> bool" where
  "entsOwned ow n m \<longleftrightarrow> (\<forall>x e. mx_ents m x = Some e \<longrightarrow> entOwned ow n x e)"

definition ownInv :: "'d Mixer \<Rightarrow> bool" where
  "ownInv m \<longleftrightarrow> (\<exists>ow. entsOwned ow (counters m) m \<and> (\<forall>c\<in>set (mx_changes m). chOwned ow (counters m) c))"

lemma ownInvI: "entsOwned ow n m \<Longrightarrow> (\<And>c. c \<in> set (mx_changes m) \<Longrightarrow> chOwned ow n c) \<Longrightarrow> n = counters m \<Longrightarrow> ownInv m"
  unfolding ownInv_def by blast

lemma entsOwned_upd: "entsOwned ow n m \<Longrightarrow> entOwned ow n (ent_id e) e \<Longrightarrow> entsOwned ow n (setEnt m e)"
  by (simp add: entsOwned_def setEnt_def)

lemma entsOwned_cong: "mx_ents m' = mx_ents m \<Longrightarrow> entsOwned ow n m \<Longrightarrow> entsOwned ow n m'"
  by (simp add: entsOwned_def)

lemma ensureEntity_owned:
  assumes "ensureEntity m x = Inr (e, m')" "entsOwned ow n m"
  shows "entOwned ow n x e" "entsOwned ow n m'"
proof -
  have "entOwned ow n x e \<and> entsOwned ow n m'"
  proof (cases "mx_ents m x")
    case None
    then obtain slot where "newEntity m x (mx_nextUid m) slot = Inr e" "mx_ents m' = (mx_ents m)(x \<mapsto> e)"
      using assms(1) by (auto simp: ensureEntity_def split: option.splits sum.splits)
    moreover from this(1) have "entOwned ow n x e" by (auto simp: newEntity_def entOwned_def srcOwned_def sinkOwned_def ambisOwned_def split: sum.splits)
    ultimately show ?thesis using assms(2) by (auto simp: entsOwned_def)
  qed (use assms in \<open>auto simp: ensureEntity_def entsOwned_def\<close>)
  then show "entOwned ow n x e" "entsOwned ow n m'" by blast+
qed

lemma removeEntity_owned: "entsOwned ow n m \<Longrightarrow> entsOwned ow n (removeEntity m e)"
  by (simp add: entsOwned_def removeEntity_def markAudibleDirty_def)

lemma leaveGroup_ents [simp]: "mx_ents (leaveGroup m r) = mx_ents m"
  by (auto simp: leaveGroup_def Let_def split: option.splits prod.splits)

lemma dirty_ents [simp]: "mx_ents (markAudibleDirty m) = mx_ents m"
  by (simp add: markAudibleDirty_def)

lemma shrink_owned:
  assumes "entsOwned ow n m" "mx_ents m x = Some e" "ent_id e' = ent_id e" "set_option (ent_src e') \<subseteq> set_option (ent_src e)" "set_option (ent_sink e') \<subseteq> set_option (ent_sink e)"
    "set (ent_ambiSinks e') \<subseteq> set (ent_ambiSinks e)" "mx_ents m' = mx_ents m"
  shows "entsOwned ow n (setEnt m' e')"
proof -
  have e: "entOwned ow n (ent_id e) e" using assms(1,2) by (auto simp: entsOwned_def entOwned_def)
  then have "entOwned ow n (ent_id e') e'" using assms(3-6) by (auto simp: entOwned_def srcOwned_def sinkOwned_def ambisOwned_def)
  then show ?thesis using entsOwned_upd[OF entsOwned_cong[OF assms(7,1)]] by simp
qed

lemma AList_delete_subset: "set (AList.delete k xs) \<subseteq> set xs"
  by (induction xs) auto

lemma AList_update_subset: "set (AList.update k v xs) \<subseteq> insert (k, v) (set xs)"
  by (induction xs) auto

lemma applyChange_owned:
  assumes "applyChange c m = Inr m'" "entsOwned ow n m" "chOwned ow n c"
  shows "entsOwned ow n m'"
proof (cases c)
  case (ChAddSource x ref pose hf grp)
  then obtain e m1 where e: "ensureEntity m x = Inr (e, m1)"
    "\<exists>enc. mx_ents m' = mx_ents (setEnt m1 (e \<lparr> ent_src := Some ref, ent_enc := enc \<rparr>))"
    using assms(1) by (fastforce simp: Let_def split: sum.splits option.splits)
  then obtain enc where m': "mx_ents m' = mx_ents (setEnt m1 (e \<lparr> ent_src := Some ref, ent_enc := enc \<rparr>))" by blast
  note o = ensureEntity_owned[OF e(1) assms(2)]
  have "entsOwned ow n (setEnt m1 (e \<lparr> ent_src := Some ref, ent_enc := enc \<rparr>))"
    by (rule entsOwned_upd[OF o(2)]) (use o(1) assms(3) ChAddSource in \<open>auto simp: entOwned_def\<close>)
  then show ?thesis by (rule entsOwned_cong[OF m'])
next
  case (ChAddSink x k)
  then obtain e m1 where e: "ensureEntity m x = Inr (e, m1)" "m' = markAudibleDirty (setEnt m1 (e \<lparr> ent_sink := Some k \<rparr>))"
    using assms(1) by (auto split: sum.splits)
  note o = ensureEntity_owned[OF e(1) assms(2)]
  have "entsOwned ow n (setEnt m1 (e \<lparr> ent_sink := Some k \<rparr>))" by (rule entsOwned_upd[OF o(2)]) (use o(1) assms(3) ChAddSink in \<open>auto simp: entOwned_def\<close>)
  then show ?thesis by (rule entsOwned_cong[rotated]) (simp add: e(2))
next
  case (ChAddAmbi x order k)
  then obtain e m1 e1 where e: "ensureEntity m x = Inr (e, m1)" "ensureAmbiEncoder m1 e = Inr e1"
    "m' = markAudibleDirty (setEnt m1 (e1 \<lparr> ent_ambiSinks := AList.update order k (ent_ambiSinks e1) \<rparr>))"
    using assms(1) by (auto split: sum.splits)
  note o = ensureEntity_owned[OF e(1) assms(2)]
  have e1: "ent_id e1 = ent_id e" "ent_src e1 = ent_src e" "ent_sink e1 = ent_sink e" "ent_ambiSinks e1 = ent_ambiSinks e"
    using e(2) by (auto simp: ensureAmbiEncoder_def split: option.splits sum.splits)
  have "ambisOwned ow (snd (snd n)) x (snd ` set (AList.update order k (ent_ambiSinks e)))"
    using o(1) assms(3) ChAddAmbi AList_update_subset[of order k "ent_ambiSinks e"] by (fastforce simp: entOwned_def ambisOwned_def)
  then have "entsOwned ow n (setEnt m1 (e1 \<lparr> ent_ambiSinks := AList.update order k (ent_ambiSinks e1) \<rparr>))"
    by (intro entsOwned_upd[OF o(2)]) (use o(1) e1 in \<open>auto simp: entOwned_def\<close>)
  then show ?thesis by (rule entsOwned_cong[rotated]) (simp add: e(3))
next
  case (ChRemoveSource x)
  show ?thesis
  proof (cases "mx_ents m x")
    case (Some e)
    then obtain r where r: "ent_src e = Some r" "m' = (let m2 = setEnt (leaveGroup m r) (e \<lparr> ent_src := None \<rparr>) in if ent_sink e = None \<and> ent_ambiSinks e = [] then removeEntity m2 (e \<lparr> ent_src := None \<rparr>) else m2)"
      using assms(1) ChRemoveSource by (auto simp: Let_def split: option.splits)
    have "entsOwned ow n (setEnt (leaveGroup m r) (e \<lparr> ent_src := None \<rparr>))" by (rule shrink_owned[OF assms(2) Some]) auto
    then show ?thesis using r(2) by (simp add: Let_def removeEntity_owned)
  qed (use assms(1,2) ChRemoveSource in simp)
next
  case (ChRemoveSink x)
  show ?thesis
  proof (cases "mx_ents m x")
    case (Some e)
    show ?thesis
    proof (cases "ent_sink e")
      case (Some k)
      have m': "m' = (let m2 = setEnt (m \<lparr> mx_destroyed := mx_destroyed m @ [k] \<rparr>) (e \<lparr> ent_sink := None \<rparr>) in if ent_src e = None then removeEntity m2 (e \<lparr> ent_sink := None \<rparr>) else m2)"
        using assms(1) ChRemoveSink Some \<open>mx_ents m x = Some e\<close> by (auto simp: Let_def)
      have "entsOwned ow n (setEnt (m \<lparr> mx_destroyed := mx_destroyed m @ [k] \<rparr>) (e \<lparr> ent_sink := None \<rparr>))" by (rule shrink_owned[OF assms(2) \<open>mx_ents m x = Some e\<close>]) auto
      then show ?thesis using m' by (simp add: Let_def removeEntity_owned)
    qed (use assms(1,2) ChRemoveSink Some in simp)
  qed (use assms(1,2) ChRemoveSink in simp)
next
  case (ChRemoveAmbi x order)
  show ?thesis
  proof (cases "mx_ents m x")
    case (Some e)
    obtain e1 m1 where 1: "(case map_of (ent_ambiSinks e) order of None \<Rightarrow> (e, m) | Some k \<Rightarrow>
        (e \<lparr> ent_ambiSinks := AList.delete order (ent_ambiSinks e) \<rparr>, m \<lparr> mx_ambiDestroyed := mx_ambiDestroyed m @ [k] \<rparr>)) = (e1, m1)" by fastforce
    define e2 where "e2 = (if ent_ambiSinks e1 = [] then e1 \<lparr> ent_ambiEnc := None \<rparr> else e1)"
    have f: "mx_ents m1 = mx_ents m" "ent_id e2 = ent_id e" "ent_src e2 = ent_src e" "ent_sink e2 = ent_sink e" "set (ent_ambiSinks e2) \<subseteq> set (ent_ambiSinks e)"
      using 1 AList_delete_subset[of order "ent_ambiSinks e"] by (auto simp: e2_def split: option.splits)
    have "m' = (if ent_src e2 = None \<and> ent_sink e2 = None \<and> ent_ambiSinks e2 = [] then removeEntity (setEnt m1 e2) e2 else setEnt m1 e2)"
      using assms(1) ChRemoveAmbi Some 1 by (auto simp: Let_def e2_def)
    moreover have "entsOwned ow n (setEnt m1 e2)" by (rule shrink_owned[OF assms(2) Some]) (use f in auto)
    ultimately show ?thesis by (simp add: removeEntity_owned)
  qed (use assms(1,2) ChRemoveAmbi in simp)
next
  case (ChParams x p)
  show ?thesis
  proof (cases "mx_ents m x")
    case (Some e)
    obtain enc where m': "m' = markAudibleDirty (setEnt m (e \<lparr> ent_params := p, ent_enc := enc \<rparr>))" using assms(1) ChParams Some by auto
    have "entsOwned ow n (setEnt m (e \<lparr> ent_params := p, ent_enc := enc \<rparr>))" by (rule shrink_owned[OF assms(2) Some]) auto
    then show ?thesis by (rule entsOwned_cong[rotated]) (simp add: m')
  qed (use assms(1,2) ChParams in simp)
next
  case (ChEntityMuted x v)
  show ?thesis
  proof (cases "mx_ents m x")
    case (Some e)
    obtain enc where "m' = setEnt m (e \<lparr> ent_enc := enc \<rparr>)" using assms(1) ChEntityMuted Some by auto
    moreover have "entsOwned ow n (setEnt m (e \<lparr> ent_enc := enc \<rparr>))" for enc by (rule shrink_owned[OF assms(2) Some]) auto
    ultimately show ?thesis by simp
  qed (use assms(1,2) ChEntityMuted in simp)
qed (use assms(1,2) in \<open>auto intro: entsOwned_cong\<close>)

lemma applyAll_owned: "applyAll cs m = Inr m' \<Longrightarrow> entsOwned ow n m \<Longrightarrow> (\<And>c. c \<in> set cs \<Longrightarrow> chOwned ow n c) \<Longrightarrow> entsOwned ow n m'"
proof (induction cs arbitrary: m)
  case (Cons c cs)
  then obtain m1 where "applyChange c m = Inr m1" "applyAll cs m1 = Inr m'" by (auto split: sum.splits)
  then show ?case using Cons.IH[of m1] applyChange_owned[of c m m1] Cons.prems(2,3) by simp
qed simp

section \<open>Every run keeps the owners\<close>

lemma counters_mono:
  assumes "fst n \<le> fst n'" "fst (snd n) \<le> fst (snd n')" "snd (snd n) \<le> snd (snd n')"
  shows "entsOwned ow n m \<Longrightarrow> entsOwned ow n' m" "chOwned ow n c \<Longrightarrow> chOwned ow n' c"
proof -
  have "entOwned ow n x e \<Longrightarrow> entOwned ow n' x e" for x e using assms by (fastforce simp: entOwned_def srcOwned_def sinkOwned_def ambisOwned_def)
  then show "entsOwned ow n m \<Longrightarrow> entsOwned ow n' m" by (simp add: entsOwned_def)
  show "chOwned ow n c \<Longrightarrow> chOwned ow n' c" using assms by (cases c) (fastforce simp: srcOwned_def sinkOwned_def ambisOwned_def)+
qed

text \<open>Giving the next number to an owner disturbs nothing below it.\<close>

lemma owner_fresh:
  assumes "ow' = ow \<or> ow' = ((fst ow)(fst n := y), snd ow) \<or> ow' = (fst ow, (fst (snd ow))(fst (snd n) := y), snd (snd ow)) \<or> ow' = (fst ow, fst (snd ow), (snd (snd ow))(snd (snd n) := y))"
  shows "entsOwned ow n m \<Longrightarrow> entsOwned ow' n m" "chOwned ow n c \<Longrightarrow> chOwned ow' n c"
proof -
  have s: "srcOwned ow (fst n) x r \<Longrightarrow> srcOwned ow' (fst n) x r" "sinkOwned ow (fst (snd n)) x k \<Longrightarrow> sinkOwned ow' (fst (snd n)) x k"
    "ambisOwned ow (snd (snd n)) x K \<Longrightarrow> ambisOwned ow' (snd (snd n)) x K" for x r k K
    using assms by (auto simp: srcOwned_def sinkOwned_def ambisOwned_def)
  show "entsOwned ow n m \<Longrightarrow> entsOwned ow' n m" using s unfolding entsOwned_def entOwned_def by blast
  show "chOwned ow n c \<Longrightarrow> chOwned ow' n c" using s by (cases c) simp_all
qed

lemma own_quiet:
  assumes "ownInv m" "mx_ents m' = mx_ents m" "counters m' = counters m" "set (mx_changes m') \<subseteq> set (mx_changes m) \<union> {c. \<forall>ow n. chOwned ow n c}"
  shows "ownInv m'"
proof -
  obtain ow where "entsOwned ow (counters m) m" "\<forall>c\<in>set (mx_changes m). chOwned ow (counters m) c" using assms(1) by (auto simp: ownInv_def)
  then have "entsOwned ow (counters m) m'" "\<And>c. c \<in> set (mx_changes m') \<Longrightarrow> chOwned ow (counters m) c" using entsOwned_cong[OF assms(2)] assms(4) by blast+
  then show ?thesis unfolding assms(3)[symmetric] using ownInvI[OF _ _ refl] by blast
qed

text \<open>An added half: one change is queued, for a handle that gets its owner now.\<close>

lemma own_add:
  assumes "ownInv m" "mx_ents m' = mx_ents m" "mx_changes m' = mx_changes m @ cs"
    "fst (counters m) \<le> fst (counters m')" "fst (snd (counters m)) \<le> fst (snd (counters m'))" "snd (snd (counters m)) \<le> snd (snd (counters m'))"
    "\<And>ow. \<exists>ow'. (ow' = ow \<or> ow' = ((fst ow)(fst (counters m) := y), snd ow) \<or> ow' = (fst ow, (fst (snd ow))(fst (snd (counters m)) := y), snd (snd ow)) \<or>
       ow' = (fst ow, fst (snd ow), (snd (snd ow))(snd (snd (counters m)) := y))) \<and> (\<forall>c\<in>set cs. chOwned ow' (counters m') c)"
  shows "ownInv m'"
proof -
  obtain ow where ow: "entsOwned ow (counters m) m" "\<forall>c\<in>set (mx_changes m). chOwned ow (counters m) c" using assms(1) by (auto simp: ownInv_def)
  obtain ow' where f: "ow' = ow \<or> ow' = ((fst ow)(fst (counters m) := y), snd ow) \<or> ow' = (fst ow, (fst (snd ow))(fst (snd (counters m)) := y), snd (snd ow)) \<or>
      ow' = (fst ow, fst (snd ow), (snd (snd ow))(snd (snd (counters m)) := y))" and c: "\<forall>c\<in>set cs. chOwned ow' (counters m') c" using assms(7) by blast
  note u = counters_mono[OF assms(4-6)]
  have "entsOwned ow' (counters m') m'" using u(1) owner_fresh(1)[OF f ow(1)] entsOwned_cong[OF assms(2)] by blast
  moreover have "chOwned ow' (counters m') d" if "d \<in> set (mx_changes m')" for d
    using that c ow(2) u(2) owner_fresh(2)[OF f] unfolding assms(3) set_append by blast
  ultimately show ?thesis using ownInvI[OF _ _ refl] by blast
qed

lemma admit_own: "admit m x t d u = Inr m' \<Longrightarrow> mx_ents m' = mx_ents m \<and> counters m' = counters m \<and> mx_changes m' = mx_changes m"
  by (auto simp: admit_def counters_def split: if_splits option.splits)

lemma AddSource_own:
  assumes "AddSource cd m x cfg = (m', r)" "ownInv m"
  shows "ownInv m'"
proof -
  obtain m1 o1 where b: "buildSource cd m x (applyDefaults cfg) = (m1, o1)" by fastforce
  have n: "mx_ents (mx_nogroup M) = mx_ents M" "counters (mx_nogroup M) = counters M" "mx_changes (mx_nogroup M) = mx_changes M" for M :: "'a Mixer" by (simp_all add: mx_nogroup_def counters_def)
  have m1: "mx_ents m1 = mx_ents m" "counters m1 = counters m" "mx_changes m1 = mx_changes m" using buildSource_nogroup[OF b] n by metis+
  have j: "mx_ents (joinGroup M s h) = mx_ents M" "mx_changes (joinGroup M s h) = mx_changes M" "counters (joinGroup M s h) = counters M" for M :: "'a Mixer" and s h
    by (simp_all add: joinGroup_def counters_def split: option.split prod.split)
  consider "mx_ents m' = mx_ents m" "counters m' = counters m" "mx_changes m' = mx_changes m"
    | ref p hf g where "mx_ents m' = mx_ents m" "counters m' = (fst (counters m) + 1, snd (counters m))" "mx_changes m' = mx_changes m @ [ChAddSource x ref p hf g]" "sr_handle ref = fst (counters m)"
  proof (cases "\<exists>src m2. o1 = Ret src \<and> admit m1 x (\<lambda>re. re_src re \<noteq> None) ErrDuplicateSource
      (\<lambda>re. re \<lparr> re_src := Some \<lparr> sr_handle = mx_nextSource m1, sr_group = src_group src \<rparr> \<rparr>) = Inr m2")
    case True
    then obtain src m2 where s: "o1 = Ret src" "admit m1 x (\<lambda>re. re_src re \<noteq> None) ErrDuplicateSource (\<lambda>re. re \<lparr> re_src := Some \<lparr> sr_handle = mx_nextSource m1, sr_group = src_group src \<rparr> \<rparr>) = Inr m2" by blast
    let ?h = "mx_nextSource m1"
    obtain p hf g where m': "m' = enqueue (joinGroup (m2 \<lparr> mx_sources := (mx_sources m2)(?h \<mapsto> src), mx_nextSource := ?h + 1 \<rparr>) src ?h) (ChAddSource x \<lparr> sr_handle = ?h, sr_group = src_group src \<rparr> p hf g)"
      using assms(1) b s by (auto simp: AddSource_eq Let_def)
    note a = admit_own[OF s(2)]
    have h: "?h = fst (counters m)" using m1(2) by (simp add: counters_def)
    have e: "mx_ents (enqueue M c) = mx_ents M" "counters (enqueue M c) = counters M" "mx_changes (enqueue M c) = mx_changes M @ [c]" for M :: "'a Mixer" and c by (simp_all add: enqueue_def counters_def)
    have "counters m' = (?h + 1, snd (counters m))" using a m1(2) unfolding m' e j by (simp add: counters_def)
    moreover have "mx_ents m' = mx_ents m" "mx_changes m' = mx_changes m @ [ChAddSource x \<lparr> sr_handle = ?h, sr_group = src_group src \<rparr> p hf g]" using a m1 unfolding m' e j by simp_all
    ultimately show ?thesis using that(2) h by (metis SourceRef.select_convs(1))
  next
    case False
    then have "m' = m1" using assms(1) b by (cases o1) (auto simp: AddSource_eq Let_def split: sum.splits)
    then show ?thesis using that(1) m1 by simp
  qed
  then show ?thesis
  proof cases
    case 1
    then show ?thesis by (intro own_quiet[OF assms(2)]) auto
  next
    case 2
    have "\<forall>c\<in>set [ChAddSource x ref p hf g]. chOwned ((fst ow)(fst (counters m) := x), snd ow) (counters m') c" for ow using 2(2,4) by (simp add: srcOwned_def)
    then show ?thesis using 2(2) by (intro own_add[OF assms(2) 2(1,3), where y = x]) (simp, simp, simp, blast)
  qed
qed

lemma enqueue_own: "mx_ents (enqueue M c) = mx_ents M" "counters (enqueue M c) = counters M" "mx_changes (enqueue M c) = mx_changes M @ [c]"
  by (simp_all add: enqueue_def counters_def)

lemma AddSink_own:
  assumes "AddSink m x = (m', r)" "ownInv m"
  shows "ownInv m'"
proof -
  let ?m = "m \<lparr> mx_nextSink := mx_nextSink m + 1 \<rparr>" let ?k = "mx_nextSink m"
  have c: "mx_ents ?m = mx_ents m" "counters ?m = (fst (counters m), Suc (fst (snd (counters m))), snd (snd (counters m)))" "mx_changes ?m = mx_changes m" by (simp_all add: counters_def)
  obtain cs where cs: "mx_ents m' = mx_ents m" "counters m' = counters ?m" "mx_changes m' = mx_changes m @ cs" "set cs \<subseteq> {ChAddSink x ?k}"
  proof (cases "admit ?m x (\<lambda>re. re_sink re \<noteq> None) ErrDuplicateSink (\<lambda>re. re \<lparr> re_sink := Some ?k \<rparr>)")
    case (Inl e)
    then have "m' = ?m \<lparr> mx_destroyed := mx_destroyed ?m @ [?k] \<rparr>" using assms(1) by (simp add: AddSink_def Let_def)
    then show ?thesis using that[of "[]"] by (simp add: counters_def)
  next
    case (Inr m2)
    then have "m' = enqueue m2 (ChAddSink x ?k)" using assms(1) by (simp add: AddSink_def Let_def)
    then show ?thesis using that[of "[ChAddSink x ?k]"] admit_own[OF Inr] c by (simp add: enqueue_own)
  qed
  have "\<forall>d\<in>set cs. chOwned (fst ow, (fst (snd ow))(fst (snd (counters m)) := x), snd (snd ow)) (counters m') d" for ow
  proof
    fix d assume "d \<in> set cs"
    then have "d = ChAddSink x ?k" using cs(4) by blast
    moreover have "?k = fst (snd (counters m))" by (simp add: counters_def)
    ultimately show "chOwned (fst ow, (fst (snd ow))(fst (snd (counters m)) := x), snd (snd ow)) (counters m') d" using cs(2) c(2) by (simp add: sinkOwned_def)
  qed
  then show ?thesis using cs(2) c(2) by (intro own_add[OF assms(2) cs(1,3), where y = x]) (simp, simp, simp, blast)
qed

lemma AddAmbiSink_own:
  assumes "AddAmbiSink ms m x i = (m', r)" "ownInv m"
  shows "ownInv m'"
proof (cases "i < 2 \<or> i > 3 \<or> i > cf_Order (mx_cfg m) \<or> \<not> ms ((i + 1) * (i + 1))")
  case True
  then have "m' = m" using assms(1) by (auto simp: AddAmbiSink_def split: if_splits)
  then show ?thesis using assms(2) by simp
next
  case False
  let ?m = "m \<lparr> mx_nextAmbi := mx_nextAmbi m + 1 \<rparr>" let ?k = "mx_nextAmbi m"
  have c: "mx_ents ?m = mx_ents m" "counters ?m = (fst (counters m), fst (snd (counters m)), Suc (snd (snd (counters m))))" "mx_changes ?m = mx_changes m" by (simp_all add: counters_def)
  obtain cs where cs: "mx_ents m' = mx_ents m" "counters m' = counters ?m" "mx_changes m' = mx_changes m @ cs" "set cs \<subseteq> {ChAddAmbi x i ?k}"
  proof (cases "admit ?m x (\<lambda>re. map_of (re_ambi re) i \<noteq> None) ErrDuplicateSink (\<lambda>re. re \<lparr> re_ambi := AList.update i ?k (re_ambi re) \<rparr>)")
    case (Inl e)
    then have "m' = ?m \<lparr> mx_ambiDestroyed := mx_ambiDestroyed ?m @ [?k] \<rparr>" using assms(1) False by (simp add: AddAmbiSink_def Let_def)
    then show ?thesis using that[of "[]"] by (simp add: counters_def)
  next
    case (Inr m2)
    then have "m' = enqueue m2 (ChAddAmbi x i ?k)" using assms(1) False by (simp add: AddAmbiSink_def Let_def)
    then show ?thesis using that[of "[ChAddAmbi x i ?k]"] admit_own[OF Inr] c by (simp add: enqueue_own)
  qed
  have "\<forall>d\<in>set cs. chOwned (fst ow, fst (snd ow), (snd (snd ow))(snd (snd (counters m)) := x)) (counters m') d" for ow
  proof
    fix d assume "d \<in> set cs"
    then have "d = ChAddAmbi x i ?k" using cs(4) by blast
    moreover have "?k = snd (snd (counters m))" by (simp add: counters_def)
    ultimately show "chOwned (fst ow, fst (snd ow), (snd (snd ow))(snd (snd (counters m)) := x)) (counters m') d" using cs(2) c(2) by (simp add: ambisOwned_def)
  qed
  then show ?thesis using cs(2) c(2) by (intro own_add[OF assms(2) cs(1,3), where y = x]) (simp, simp, simp, blast)
qed

lemma removes_own:
  assumes "ownInv m"
  shows "ownInv (RemoveSource m x)" "ownInv (RemoveSink m x)" "ownInv (RemoveAmbiSink m x i)"
proof -
  have r: "ownInv (enqueue (release m x re) c)" if "\<And>ow n. chOwned ow n c" for re c
    by (rule own_quiet[OF assms]) (use that in \<open>auto simp: enqueue_def release_def counters_def\<close>)
  show "ownInv (RemoveSource m x)" "ownInv (RemoveSink m x)" "ownInv (RemoveAmbiSink m x i)"
    using assms by (simp_all add: RemoveSource_eq RemoveSink_def RemoveAmbiSink_def r split: option.split)
qed

lemma drain_own:
  assumes "drainChanges m = Inr m'" "ownInv m"
  shows "ownInv m'" "\<exists>ow n. entsOwned ow n m'"
proof -
  obtain ow where ow: "entsOwned ow (counters m) m" "\<forall>c\<in>set (mx_changes m). chOwned ow (counters m) c" using assms(2) by (auto simp: ownInv_def)
  have a: "applyAll (mx_changes m) (m \<lparr> mx_changes := [] \<rparr>) = Inr m'" using assms(1) by (simp add: drainChanges_def)
  have e: "entsOwned ow (counters m) m'" using applyAll_owned[OF a entsOwned_cong[OF _ ow(1)]] ow(2) by simp
  have "posesOf m' = posesOf m" "mx_domains m' = mx_domains m" using applyAll_poses[OF a] applyAll_out[OF a] by simp_all
  then have "counters m' = counters m" by (simp add: posesOf_def mx_domains_def counters_def)
  moreover have "mx_changes m' = []"
  proof -
    have d: "mx_changes (removeEntity M e) = mx_changes M" "mx_changes (markAudibleDirty M) = mx_changes M" "mx_changes (setEnt M e) = mx_changes M" "mx_changes (leaveGroup M r) = mx_changes M"
      for M :: "'a Mixer" and e r by (auto simp: removeEntity_def markAudibleDirty_def setEnt_def leaveGroup_def Let_def split: option.splits prod.splits)
    have n: "ensureEntity M x = Inr (e, M') \<Longrightarrow> mx_changes M' = mx_changes M" for M M' :: "'a Mixer" and x e by (auto simp: ensureEntity_def split: option.splits sum.splits)
    have "mx_changes m1 = mx_changes m0" if "applyChange c m0 = Inr m1" for c and m0 m1 :: "'a Mixer"
      using that by (cases c) (auto simp: Let_def d dest!: n split: sum.splits option.splits if_splits)
    then have "applyAll cs m0 = Inr m1 \<Longrightarrow> mx_changes m1 = mx_changes m0" for cs and m0 m1 :: "'a Mixer"
      by (induction cs arbitrary: m0) (auto split: sum.splits)
    from this[OF a] show ?thesis by simp
  qed
  ultimately show "ownInv m'" using e by (intro ownInvI[OF e]) simp_all
  show "\<exists>ow n. entsOwned ow n m'" using e by blast
qed

lemma mx_step_own:
  assumes "mx_step cd ms op m = Inr m'" "ownInv m" "op \<noteq> MClose"
  shows "ownInv m'"
proof -
  have q: "ownInv (enqueue m c)" if "\<And>ow n. chOwned ow n c" for c by (rule own_quiet[OF assms(2)]) (use that in \<open>auto simp: enqueue_own\<close>)
  show ?thesis
  proof (cases op)
    case (MAddSource x cfg)
    obtain m1 r where a: "AddSource cd m x cfg = (m1, r)" by fastforce
    then have "m' = m1" using assms(1) MAddSource by (cases r) auto
    then show ?thesis using AddSource_own[OF a assms(2)] by simp
  next
    case (MAddSink x)
    obtain m1 r where a: "AddSink m x = (m1, r)" by fastforce
    then have "m' = m1" using assms(1) MAddSink by (cases r) auto
    then show ?thesis using AddSink_own[OF a assms(2)] by simp
  next
    case (MAddAmbiSink x i)
    obtain m1 r where a: "AddAmbiSink ms m x i = (m1, r)" by fastforce
    then have "m' = m1" using assms(1) MAddAmbiSink by (cases r) auto
    then show ?thesis using AddAmbiSink_own[OF a assms(2)] by simp
  next
    case MDrain
    then show ?thesis using assms drain_own(1)[of m m'] by (auto split: if_splits)
  qed (use assms removes_own[OF assms(2)] q in \<open>auto simp: SetRenderParams_def SetEntityMuted_def SetChannel_def SetPersonalMute_def SetPersonalSolo_def split: if_splits\<close>)
qed

lemma same_owned:
  assumes "entsOwned ow n m" "\<And>x e'. mx_ents m' x = Some e' \<Longrightarrow> \<exists>e. mx_ents m x = Some e \<and> entSame e e'"
  shows "entsOwned ow n m'"
  unfolding entsOwned_def
proof (intro allI impI)
  fix x e' assume "mx_ents m' x = Some e'"
  then obtain e where e: "mx_ents m x = Some e" "entSame e e'" using assms(2) by blast
  then have "entOwned ow n x e" using assms(1) by (simp add: entsOwned_def)
  then show "entOwned ow n x e'" using e(2) by (simp add: entOwned_def entSame_def)
qed

lemma prepare_ents:
  assumes "prepare m = Some p" "tickOk m" "mx_ents p x = Some e'"
  shows "\<exists>e. mx_ents m x = Some e \<and> entSame e e'"
proof -
  obtain m1 m2 where 1: "(if mx_audibleDirty m then recomputeAudible m else Some m) = Some m1" "m2 = readGroups m1"
    "prepare m = Some (withPeers m2 (ent_id ` set (sinkEnts m2)))" by (rule prepare_ok[OF assms(2)])
  have "mx_ents m1 = mx_ents m"
  proof (cases "mx_audibleDirty m")
    case True
    then have r: "foldO (\<lambda>(k, s). setPair k s) (List.product (liveEnts m) (liveEnts m)) (m \<lparr> mx_audibleDirty := False \<rparr>) = Some m1"
      using 1(1) by (simp add: recomputeAudible_def foldO_product)
    show ?thesis by (rule foldO_keep[OF r]) (auto simp: setPair_def bind_eq_Some_conv split: prod.splits)
  qed (use 1(1) in simp)
  then show ?thesis using assms(1,3) 1(2,3) by (auto simp: withPeers_def)
qed

lemma samePeers_ents: "samePeers p m \<Longrightarrow> mx_ents m x = Some e' \<Longrightarrow> \<exists>e. mx_ents p x = Some e \<and> entSame e e'"
proof -
  assume s: "samePeers p m" and e': "mx_ents m x = Some e'"
  then have "x \<in> dom (mx_ents p)" by (auto simp: samePeers_def)
  then obtain e where e: "mx_ents p x = Some e" by blast
  then obtain e2 where "mx_ents m x = Some e2" "entSame e e2" using s unfolding samePeers_def by blast
  then show ?thesis using e e' by auto
qed

lemma Process_own:
  assumes "Process m = Some m'" "readyOk m" "\<not> mx_stopped m" "ownInv m"
  shows "ownInv m'"
proof -
  obtain d p where s: "drainChanges (startTick m) = Inr d" "prepare d = Some p" "tickOk d" "samePeers p m'" by (rule Process_stages[OF assms(2,3)]) (use assms(1) in auto)
  have st: "ownInv (startTick m)" by (rule own_quiet[OF assms(4)]) (auto simp: startTick_def Let_def counters_def)
  obtain ow where "entsOwned ow (counters d) d" using drain_own(1)[OF s(1) st] by (auto simp: ownInv_def)
  then have "entsOwned ow (counters d) p" by (rule same_owned) (use prepare_ents[OF s(2,3)] in blast)
  then have e: "entsOwned ow (counters d) m'" by (rule same_owned) (use samePeers_ents[OF s(4)] in blast)
  note r = Process_ready[OF assms(2,3,1)]
  have "posesOf m' = posesOf d" using Process_poses[OF assms(1)] s(1) by (auto simp: drainChanges_def dest!: applyAll_poses)
  moreover have "mx_domains m' = mx_domains d" using r(2) drain_out(2)[OF s(1)] by simp
  ultimately have "counters m' = counters d" by (simp add: posesOf_def mx_domains_def counters_def)
  moreover have "mx_changes m' = []" using r(3) by (simp add: mx_control_def)
  ultimately show ?thesis using e by (intro ownInvI[OF e]) simp_all
qed

lemma reach_own:
  assumes "reach cd ms env banks cfg m" "delayModel env cfg" "envOk env"
  shows "\<not> mx_stopped m \<longrightarrow> ownInv m"
  using assms(1)
proof (induction rule: reach.induct)
  case (start m)
  then have "mx_ents m = Map.empty" "mx_changes m = []" by (auto simp: New_def Let_def split: if_splits)
  then show ?case by (auto simp: ownInv_def entsOwned_def)
next
  case (call m op m')
  show ?case
  proof
    assume ns: "\<not> mx_stopped m'"
    have i: "mxInv m" using reach_inv[OF call.hyps(1) assms(2,3)] by (simp add: runInv_def)
    have "\<not> mx_stopped m" using mx_step_stopped[OF _ call.hyps(3)] ns by blast
    moreover have "op \<noteq> MClose" using call.hyps(3) ns Close_stops[OF _ i] by auto
    ultimately show "ownInv m'" using mx_step_own[OF call.hyps(3)] call.IH by blast
  qed
next
  case (tick m m')
  then show ?case using Process_own[OF tick.hyps(3) reach_ready(1)[OF tick.hyps(1) assms(2,3) tick.hyps(2)] tick.hyps(2)] by blast
next
  case (pose m k p)
  then show ?case by (auto simp: SetPose_def counters_def intro!: own_quiet[of m])
next
  case (ambiPose m k p)
  then show ?case by (auto simp: SetAmbiPose_def counters_def intro!: own_quiet[of m])
next
  case (packet m h s gs op s')
  then show ?case by (auto simp: counters_def intro!: own_quiet[of m])
next
  case (frame m h seq chans m')
  obtain gh ss where "m' = m \<lparr> mx_groupHeap := gh, mx_sources := ss \<rparr>" using frame.hyps(2) unfolding group_WriteFrame_def by (auto simp: bind_eq_Some_conv)
  then show ?case using frame.IH by (auto simp: counters_def intro!: own_quiet[of m])
qed

lemma owned_apart:
  assumes "entsOwned ow n m" "slotsOk (mx_ents m) (mx_slots m)"
  shows "apartInv m"
proof -
  have "ownedBy (\<lambda>i. the (mx_slots m ! i)) (fst ow) (fst (snd ow)) (snd (snd ow)) x e" if e: "mx_ents m x = Some e" for x e
  proof -
    have "entOwned ow n x e" using assms(1) e by (simp add: entsOwned_def)
    moreover have "the (mx_slots m ! ent_slot e) = x" using assms(2) e by (simp add: slotsOk_def)
    ultimately show ?thesis by (auto simp: ownedBy_def entOwned_def srcOwned_def sinkOwned_def ambisOwned_def)
  qed
  then show ?thesis unfolding apartInv_def by blast
qed

section \<open>A phase under a scheduler\<close>

fun roundRobin :: "nat \<Rightarrow> nat \<Rightarrow> 'j list \<Rightarrow> (nat \<times> 'j) list" where
  "roundRobin n w [] = []"
| "roundRobin n w (x # xs) = (w, x) # roundRobin n ((w + 1) mod n) xs"

fun nextAfter :: "nat \<Rightarrow> nat \<Rightarrow> 'j list \<Rightarrow> nat" where
  "nextAfter n w [] = w"
| "nextAfter n w (x # xs) = nextAfter n ((w + 1) mod n) xs"

lemma roundRobin_jobs [simp]: "map snd (roundRobin n w xs) = xs"
  by (induction xs arbitrary: w) simp_all

text \<open>The jobs of a phase, in an order the scheduler makes of the queues.\<close>

type_synonym scheduler = "phase \<Rightarrow> (nat \<times> string) list \<Rightarrow> (nat \<times> string) list"

definition runJobs :: "phase \<Rightarrow> (nat \<times> string) list \<Rightarrow> 'd Mixer \<Rightarrow> 'd Mixer option" where
  "runJobs ph js m = foldO (\<lambda>(w, x). runJob ph w x) js m"

definition phaseUnder :: "scheduler \<Rightarrow> phase \<Rightarrow> string list \<Rightarrow> 'd Mixer \<Rightarrow> 'd Mixer option" where
  "phaseUnder sched ph ids m = (let n = length (mx_workers m); w = mx_nextWork m in
     map_option (\<lambda>m'. m' \<lparr> mx_nextWork := nextAfter n w ids \<rparr>) (runJobs ph (sched ph (roundRobin n w ids)) m))"

definition ProcessUnder :: "scheduler \<Rightarrow> 'd Mixer \<Rightarrow> 'd Mixer option" where
  "ProcessUnder sched m = (case drainChanges (startTick m) of
     Inl _ \<Rightarrow> None
   | Inr m \<Rightarrow>
      do { m \<leftarrow> prepare m;
           let listeners = map ent_id (sinkEnts m);
           m \<leftarrow> phaseUnder sched PhaseIn (map ent_id (liveEnts m)) m;
           m \<leftarrow> phaseUnder sched PhaseAcross listeners m;
           phaseUnder sched PhaseOut listeners m })"

text \<open>Jobs do not look at the dispatcher's next worker.\<close>

lemma runJob_nextWork: "runJob ph w x (m \<lparr> mx_nextWork := a \<rparr>) = map_option (\<lambda>m'. m' \<lparr> mx_nextWork := a \<rparr>) (runJob ph w x m)"
proof (cases ph)
  case PhaseIn
  let ?m = "m \<lparr> mx_nextWork := a \<rparr>"
  have c: "channelInRange ?m = channelInRange m" by (rule channelInRange_heap) simp
  have f: "mx_env ?m = mx_env m" "mx_sources ?m = mx_sources m" "mx_groupHeap ?m = mx_groupHeap m" "mx_shared ?m = mx_shared m" by simp_all
  have "inCalc e ?m = inCalc e m" for e unfolding inCalc_def c f by (rule refl)
  moreover have "inSink ?m = inSink m" "inAmbi ?m = inAmbi m" by (rule inSink_poses inAmbi_poses; simp)+
  ultimately have "inJob w x ?m = inJob w x m" by (simp add: inJob_def)
  moreover have "putIn w r ?m = (putIn w r m) \<lparr> mx_nextWork := a \<rparr>" for r by (simp add: putIn_def setEnt_def applyIn_def split: option.split prod.split)
  ultimately show ?thesis by (simp add: PhaseIn runJob_in option.map_comp comp_def)
next
  case PhaseAcross
  let ?m = "m \<lparr> mx_nextWork := a \<rparr>"
  have "rel_option (\<lambda>e e'. samePeer (ent_enc e') (ent_enc e)) c c" for c :: "entity option" by (cases c) (simp_all add: samePeer_def)
  moreover have "rowsOf ?m = rowsOf m" by (intro ext) (simp add: rowsOf_def)
  ultimately have sw: "sameWorld m ?m" by (simp add: sameWorld_def)
  have "acrossJob w x ?m = acrossJob w x m" by (simp add: acrossJob_def phaseAcross_same[OF sw])
  moreover have "putAcross w r ?m = (putAcross w r m) \<lparr> mx_nextWork := a \<rparr>" for r by (simp add: putAcross_def setEnt_def)
  ultimately show ?thesis by (simp add: PhaseAcross runJob_across option.map_comp comp_def)
next
  case PhaseOut
  let ?m = "m \<lparr> mx_nextWork := a \<rparr>"
  have f: "mx_env ?m = mx_env m" "mx_sinks ?m = mx_sinks m" "mx_ambis ?m = mx_ambis m" "mx_frameStart ?m = mx_frameStart m" by simp_all
  have "outCalc e ?m = outCalc e m" for e unfolding outCalc_def f by (rule refl)
  then have "outJob w x ?m = outJob w x m" by (simp add: outJob_def)
  moreover have "putOut w r ?m = (putOut w r m) \<lparr> mx_nextWork := a \<rparr>" for r by (simp add: putOut_def setEnt_def applyOut_def)
  ultimately show ?thesis by (simp add: PhaseOut runJob_out option.map_comp comp_def)
qed

lemma runJob_keeps:
  assumes "runJob ph w x m = Some m'"
  shows "mx_nextWork m' = mx_nextWork m" "length (mx_workers m') = length (mx_workers m)"
proof -
  have "runJob ph w x (m \<lparr> mx_nextWork := mx_nextWork m \<rparr>) = Some (m' \<lparr> mx_nextWork := mx_nextWork m \<rparr>)" unfolding runJob_nextWork by (simp add: assms)
  then have "m' = m' \<lparr> mx_nextWork := mx_nextWork m \<rparr>" using assms by simp
  from arg_cong[OF this, of mx_nextWork] show "mx_nextWork m' = mx_nextWork m" by simp
  show "length (mx_workers m') = length (mx_workers m)"
    using assms by (cases ph) (auto simp: runJob_in runJob_across runJob_out putIn_def putAcross_def putOut_def setEnt_def)
qed

lemma runJobs_nextWork: "runJobs ph js (m \<lparr> mx_nextWork := a \<rparr>) = map_option (\<lambda>m'. m' \<lparr> mx_nextWork := a \<rparr>) (runJobs ph js m)"
  unfolding runJobs_def
proof (induction js arbitrary: m)
  case (Cons j js)
  obtain w x where j: "j = (w, x)" by fastforce
  show ?case using Cons.IH by (cases "runJob ph w x m") (simp_all add: j runJob_nextWork)
qed simp

text \<open>The dispatch of the source is the schedule that takes the jobs as they were handed out.\<close>

lemma runPhase_jobs:
  "runPhase ph ids m = map_option (\<lambda>m'. m' \<lparr> mx_nextWork := nextAfter (length (mx_workers m)) (mx_nextWork m) ids \<rparr>)
     (runJobs ph (roundRobin (length (mx_workers m)) (mx_nextWork m) ids) m)"
proof (induction ids arbitrary: m)
  case Nil
  then show ?case by (simp add: runPhase_def runJobs_def)
next
  case (Cons x xs)
  show ?case
  proof (cases "runJob ph (mx_nextWork m) x m")
    case None
    then show ?thesis by (simp add: runPhase_def runJobs_def dispatch_def)
  next
    case (Some m1)
    note k = runJob_keeps[OF Some]
    let ?n = "length (mx_workers m)" let ?w = "(mx_nextWork m + 1) mod ?n"
    have d: "dispatch ph x m = Some (m1 \<lparr> mx_nextWork := ?w \<rparr>)" using Some k by (simp add: dispatch_def)
    have "runPhase ph (x # xs) m = runPhase ph xs (m1 \<lparr> mx_nextWork := ?w \<rparr>)" using d by (simp add: runPhase_def)
    also have "\<dots> = map_option (\<lambda>m'. m' \<lparr> mx_nextWork := nextAfter ?n ?w xs \<rparr>) (runJobs ph (roundRobin ?n ?w xs) (m1 \<lparr> mx_nextWork := ?w \<rparr>))"
      using Cons.IH[of "m1 \<lparr> mx_nextWork := ?w \<rparr>"] k(2) by simp
    also have "\<dots> = map_option (\<lambda>m'. m' \<lparr> mx_nextWork := nextAfter ?n ?w xs \<rparr>) (runJobs ph (roundRobin ?n ?w xs) m1)"
      unfolding runJobs_nextWork by (simp add: option.map_comp comp_def)
    finally show ?thesis using Some by (simp add: runJobs_def)
  qed
qed

lemma runJobs_schedule:
  fixes m :: "'d Mixer"
  assumes "apartInv m" "distinct (map snd xs)" "sameQueues xs ys"
  shows "runJobs ph ys m = runJobs ph xs m"
proof (cases ph)
  case PhaseIn
  have "(\<lambda>(w, x). runJob PhaseIn w x) = (\<lambda>(w, j) (s :: 'd Mixer). map_option (\<lambda>r. putIn w r s) (inJob w j s))" by (intro ext) (simp add: runJob_in split: prod.split)
  then show ?thesis using inPhase.schedule_irrelevant[OF assms] by (simp add: PhaseIn runJobs_def)
next
  case PhaseAcross
  have "(\<lambda>(w, x). runJob PhaseAcross w x) = (\<lambda>(w, j) (s :: 'd Mixer). map_option (\<lambda>r. putAcross w r s) (acrossJob w j s))" by (intro ext) (simp add: runJob_across split: prod.split)
  then show ?thesis using across.schedule_irrelevant[OF apart_ids[OF assms(1)] assms(2,3)] by (simp add: PhaseAcross runJobs_def)
next
  case PhaseOut
  have "(\<lambda>(w, x). runJob PhaseOut w x) = (\<lambda>(w, j) (s :: 'd Mixer). map_option (\<lambda>r. putOut w r s) (outJob w j s))" by (intro ext) (simp add: runJob_out split: prod.split)
  then show ?thesis using outPhase.schedule_irrelevant[OF assms] by (simp add: PhaseOut runJobs_def)
qed

lemma phaseUnder_runPhase:
  assumes "apartInv m" "distinct ids" "\<And>ph js. sameQueues js (sched ph js)"
  shows "phaseUnder sched ph ids m = runPhase ph ids m"
  unfolding phaseUnder_def runPhase_jobs Let_def
  using runJobs_schedule[OF assms(1) _ assms(3), of "roundRobin (length (mx_workers m)) (mx_nextWork m) ids" ph] assms(2) by simp

lemma scheduled_tick:
  assumes "reach cd ms env banks cfg m" "delayModel env cfg" "envOk env" "\<not> mx_stopped m" "\<And>ph js. sameQueues js (sched ph js)"
  shows "ProcessUnder sched m = Process m \<and> Process m \<noteq> None"
proof -
  have ready: "readyOk m" by (rule reach_ready(1)[OF assms(1-4)])
  obtain d p m1 m2 m3 where s: "drainChanges (startTick m) = Inr d" "prepare d = Some p" "runPhase PhaseIn (map ent_id (liveEnts p)) p = Some m1"
    "runPhase PhaseAcross (map ent_id (sinkEnts p)) m1 = Some m2" "runPhase PhaseOut (map ent_id (sinkEnts p)) m2 = Some m3" "Process m = Some m3"
    "tickOk d" "tickOk p" "tickOk m1" "tickOk m2" "samePeers p m1" "samePeers p m2" by (rule Process_stages[OF ready assms(4)])
  have "ownInv m" using reach_own[OF assms(1-3)] assms(4) by blast
  then have "ownInv (startTick m)" by (rule own_quiet) (auto simp: startTick_def Let_def counters_def)
  from drain_own(2)[OF s(1) this] obtain ow n where d: "entsOwned ow n d" by blast
  have p: "entsOwned ow n p" by (rule same_owned[OF d]) (use prepare_ents[OF s(2,7)] in blast)
  have a: "apartInv p" "apartInv m1" "apartInv m2"
    using owned_apart[OF p] owned_apart[OF same_owned[OF p samePeers_ents[OF s(11)]]] owned_apart[OF same_owned[OF p samePeers_ents[OF s(12)]]] tick_slots(1) s(8-10) by blast+
  have dl: "distinct (map ent_id (liveEnts p))" by (rule liveEnts_ids[OF tick_slots(1)[OF s(8)]])
  then have ds: "distinct (map ent_id (sinkEnts p))" by (simp add: sinkEnts_def distinct_map_filter)
  show ?thesis using s(1-6) phaseUnder_runPhase[OF a(1) dl assms(5)] phaseUnder_runPhase[OF a(2) ds assms(5)] phaseUnder_runPhase[OF a(3) ds assms(5)]
    by (simp add: ProcessUnder_def Let_def)
qed

section \<open>Properties\<close>

text \<open>C4. A tick's result does not depend on the workers. Whatever order the scheduler makes of the jobs in each phase,
  provided every worker takes the jobs of its own queue in order, the tick ends in the same state as when the jobs run one
  after the other as they were handed out: the same pair record, the same sources, encoders and delay lines, and
  the same bytes at every sink. This holds in any state a run can reach.\<close>

theorem tick_schedule_irrelevant:
  assumes "reach cd ms env banks cfg m" "delayModel env cfg" "envOk env" "\<not> mx_stopped m" "\<And>ph js. sameQueues js (sched ph js)"
  shows "ProcessUnder sched m = Process m \<and> Process m \<noteq> None"
  by (rule scheduled_tick[OF assms])

text \<open>A scheduler that lets the last worker do all its jobs first, then the one before it, and so on.\<close>

definition lastFirst :: scheduler where
  "lastFirst ph js = concat (map (\<lambda>w. filter (\<lambda>p. fst p = w) js) (rev [0..<Suc (fold max (map fst js) 0)]))"

lemma le_fold_max: "x \<in> set xs \<or> x \<le> a \<Longrightarrow> x \<le> fold max xs (a :: nat)"
proof (induction xs arbitrary: a)
  case (Cons y ys)
  then have "x \<in> set ys \<or> x \<le> max y a" by (auto simp: le_max_iff_disj)
  from Cons.IH[OF this] show ?case by simp
qed simp

lemma lastFirst_queues: "sameQueues js (lastFirst ph js)"
  unfolding sameQueues_def
proof
  fix v
  let ?q = "\<lambda>w. filter (\<lambda>p. fst p = w) js"
  have f: "filter (\<lambda>p. fst p = v) (concat (map ?q ws)) = concat (map (\<lambda>w. if w = v then ?q v else []) ws)" for ws
  proof (induction ws)
    case (Cons w ws)
    have "filter (\<lambda>p. fst p = v) (?q w) = (if w = v then ?q v else [])" by (auto simp: filter_empty_conv)
    then show ?case using Cons.IH by simp
  qed simp
  have c: "distinct ws \<Longrightarrow> concat (map (\<lambda>w. if w = v then ?q v else []) ws) = (if v \<in> set ws then ?q v else [])" for ws by (induction ws) auto
  have "v < Suc (fold max (map fst js) 0) \<or> ?q v = []"
  proof (cases "?q v")
    case (Cons p ps)
    then have "p \<in> set (?q v)" by simp
    then have "p \<in> set js \<and> fst p = v" by simp
    then show ?thesis using le_fold_max[of v "map fst js" 0] by force
  qed simp
  then show "?q v = filter (\<lambda>p. fst p = v) (lastFirst ph js)"
    unfolding lastFirst_def f c[OF distinct_rev[THEN iffD2, OF distinct_upt]] by auto
qed

theorem tick_schedule_irrelevant_witness:
  "lastFirst PhaseIn [(0, ''a''), (1, ''b''), (0, ''c'')] = [(1, ''b''), (0, ''a''), (0, ''c'')] \<and> ProcessUnder lastFirst demo_listener = Process demo_listener \<and> Process demo_listener \<noteq> None"
proof -
  have "lastFirst PhaseIn [(0, ''a''), (1, ''b''), (0, ''c'')] = [(1, ''b''), (0, ''a''), (0, ''c'')]" by (simp add: lastFirst_def)
  moreover have "\<not> mx_stopped demo_listener" using demo_listener_run by simp
  ultimately show ?thesis using tick_schedule_irrelevant[OF demo_listener_reach demo_delayModel demo_envOk _ lastFirst_queues] by simp
qed

end
