(* ===== verification/Hrtf_Set.thy ===== *)
theory Hrtf_Set
  imports Mixer_Safety
begin

text \<open>
  The loader of the filter-set container (\<^verbatim>\<open>src/engine/hrtf/pahrtf.go\<close>) and the use-site check of
  \<^verbatim>\<open>src/engine/binaural/convolver_decoder.go\<close> with \<^verbatim>\<open>NewSet\<close> of \<^verbatim>\<open>src/engine/convolver/convolver.go\<close>.

  A container is a list of bytes. Decoding its JSON manifest is \<^verbatim>\<open>json.Unmarshal\<close>, a parameter here: every statement
  holds whatever manifest it yields. Go's \<^verbatim>\<open>int\<close> has 64 bits; the one sum of the loader that
  no earlier check bounds, the end of a block, is written with its wrap-around. A result is \<open>None\<close> for a
  panic, \<open>Some (Inl msg)\<close> for an error and \<open>Some (Inr set)\<close> for a loaded set. The constants of
  \<^verbatim>\<open>pahrtf.go\<close> are written out; a block's values are read as IEEE single precision.
\<close>

section \<open>Data\<close>

record BlockEntry =
  be_ID :: string
  be_Shape :: "int list"
  be_Dtype :: string
  be_Offset :: int

record Alignment =
  al_Method :: string
  al_HeadRadiusM :: rat
  al_SpeedOfSoundMS :: rat
  al_T0RemovedS :: rat

text \<open>\<open>mf_Source\<close> keeps of the provenance map what the loader looks at: the entries that are numbers.\<close>

record Manifest =
  mf_FormatVersion :: int
  mf_Name :: string
  mf_SampleRate :: int
  mf_FilterType :: string
  mf_FilterLen :: int
  mf_BulkDelaySamples :: int
  mf_Orders :: "int list"
  mf_Alignment :: Alignment
  mf_Source :: "string \<rightharpoonup> rat"
  mf_Blocks :: "BlockEntry list"

record FilterBank =
  fb_Order :: int
  fb_NumChannels :: int
  fb_FilterLen :: int
  fb_Taps :: "rat list"

record HrtfSet =
  hs_Manifest :: Manifest
  hs_MeasurementRadiusM :: rat
  hs_ITDDirsDeg :: "(rat \<times> rat) list"
  hs_ITDDelaysS :: "rat list"
  hs_banks :: "int \<rightharpoonup> FilterBank"

type_synonym 'a loaded = "(string + 'a) option"

definition magic :: "byte list" where "magic = [80, 65, 72, 82, 84, 70, 0, 0]"

definition MaxFilterTaps :: int where "MaxFilterTaps = 273"
definition maxBulkDelaySamples :: int where "maxBulkDelaySamples = 480"
definition maxITDSeconds :: rat where "maxITDSeconds = 1 / 500"

definition FilterTypeMagLSFull :: string where "FilterTypeMagLSFull = ''magls-full''"
definition FilterTypeEarAligned :: string where "FilterTypeEarAligned = ''bimagls-ear-aligned''"

text \<open>A sum of Go's \<^verbatim>\<open>int\<close>.\<close>

definition addInt :: "int \<Rightarrow> int \<Rightarrow> int" where
  "addInt a b = (a + b + 2 ^ 63) mod 2 ^ 64 - 2 ^ 63"

section \<open>Floats\<close>

text \<open>\<^verbatim>\<open>math.Float32frombits\<close> for a finite pattern: sign, exponent, fraction.\<close>

definition finiteBits :: "32 word \<Rightarrow> bool" where
  "finiteBits w \<longleftrightarrow> (uint w div 2 ^ 23) mod 2 ^ 8 \<noteq> 255"

definition Float32frombits :: "32 word \<Rightarrow> rat" where
  "Float32frombits w = (let s = uint w div 2 ^ 31; e = (uint w div 2 ^ 23) mod 2 ^ 8; m = uint w mod 2 ^ 23;
      v = (if e = 0 then of_int m * 2 powi (- 149) else of_int (2 ^ 23 + m) * 2 powi (e - 150))
    in if s = 0 then v else - v)"

section \<open>Validation\<close>

text \<open>The longest delay of the set's model, and the place it takes in the ring.\<close>

definition setTau :: "Alignment \<Rightarrow> rat" where
  "setTau a = mul64 (mul64 (div64 (al_HeadRadiusM a) (al_SpeedOfSoundMS a)) halfPi1) 48000"

definition setReach :: "Alignment \<Rightarrow> rat" where
  "setReach a = add64 (add64 (of_int \<lceil>div64 (setTau a) 2\<rceil>) 1) (div64 (setTau a) 2)"

definition checkAlignmentConsistency :: "Manifest \<Rightarrow> string option" where
  "checkAlignmentConsistency m = (let a = mf_Alignment m in
     if mf_FilterType m = FilterTypeMagLSFull then
       (if al_Method a \<noteq> ''none'' then Some ''hrtf: magls-full set declares an alignment method'' else None)
     else if mf_FilterType m = FilterTypeEarAligned then
       (if al_Method a = ''woodworth'' \<or> al_Method a = ''measured'' then
          (if al_HeadRadiusM a \<le> 0 then Some ''hrtf: set must carry head_radius_m''
           else if al_SpeedOfSoundMS a \<le> 0 then Some ''hrtf: set must carry speed_of_sound_m_s''
           else if setReach a > of_nat DelayRingHistory then Some ''hrtf: head_radius_m needs too many samples of delay ring''
           else None)
        else Some ''hrtf: set must declare alignment method'')
     else Some ''hrtf: unknown filter_type'')"

definition checkManifest :: "Manifest \<Rightarrow> string option" where
  "checkManifest m =
    (if mf_FormatVersion m \<noteq> 1 then Some ''hrtf: manifest format_version''
     else if mf_SampleRate m \<noteq> 48000 then Some ''hrtf: sample_rate''
     else if mf_FilterLen m \<le> 0 \<or> mf_FilterLen m > MaxFilterTaps then Some ''hrtf: filter_len''
     else if mf_BulkDelaySamples m < 0 \<or> mf_BulkDelaySamples m > maxBulkDelaySamples then Some ''hrtf: bulk_delay_samples''
     else case checkAlignmentConsistency m of
       Some msg \<Rightarrow> Some msg
     | None \<Rightarrow> if mf_Orders m = [] then Some ''hrtf: manifest lists no orders'' else None)"

text \<open>The number of values of a block, as long as it cannot exceed the file.\<close>

fun shapeCount :: "int \<Rightarrow> int \<Rightarrow> int list \<Rightarrow> string + int" where
  "shapeCount len n [] = Inr n"
| "shapeCount len n (d # ds) =
    (if d \<le> 0 then Inl ''hrtf: non-positive dimension''
     else if n > len div d then Inl ''hrtf: shape exceeds file size''
     else shapeCount len (n * d) ds)"

definition checkBlock :: "int \<Rightarrow> int \<Rightarrow> (string \<rightharpoonup> BlockEntry) \<Rightarrow> BlockEntry \<Rightarrow> string + (string \<rightharpoonup> BlockEntry)" where
  "checkBlock len body blocks e =
    (if be_Dtype e \<noteq> ''f32le'' then Inl ''hrtf: unsupported dtype''
     else if blocks (be_ID e) \<noteq> None then Inl ''hrtf: duplicate block''
     else case shapeCount len 1 (be_Shape e) of
       Inl msg \<Rightarrow> Inl msg
     | Inr n \<Rightarrow>
        if be_Offset e < body \<or> be_Offset e smod 64 \<noteq> 0 then Inl ''hrtf: bad offset''
        else if addInt (be_Offset e) (n * 4) > len then Inl ''hrtf: extends past end of file''
        else Inr (blocks(be_ID e \<mapsto> e)))"

fun checkBlocks :: "int \<Rightarrow> int \<Rightarrow> BlockEntry list \<Rightarrow> (string \<rightharpoonup> BlockEntry) \<Rightarrow> string + (string \<rightharpoonup> BlockEntry)" where
  "checkBlocks len body [] blocks = Inr blocks"
| "checkBlocks len body (e # es) blocks =
    (case checkBlock len body blocks e of Inl msg \<Rightarrow> Inl msg | Inr blocks \<Rightarrow> checkBlocks len body es blocks)"

section \<open>Reading\<close>

text \<open>\<^verbatim>\<open>data[i:j]\<close> with Go's bounds check.\<close>

definition sliceInt :: "'a list \<Rightarrow> int \<Rightarrow> int \<Rightarrow> 'a list option" where
  "sliceInt xs i j = (if 0 \<le> i \<and> i \<le> j \<and> j \<le> int (length xs) then Some (Lasa_Prelude.slice xs (nat i) (nat j)) else None)"

definition wordAt :: "byte list \<Rightarrow> nat \<Rightarrow> 32 word" where
  "wordAt raw i = leWord (Lasa_Prelude.slice raw (i * 4) (i * 4 + 4))"

definition readFloats :: "byte list \<Rightarrow> BlockEntry \<Rightarrow> rat list loaded" where
  "readFloats data e = (let n = prod_list (be_Shape e) in
     case sliceInt data (be_Offset e) (addInt (be_Offset e) (n * 4)) of
       None \<Rightarrow> None
     | Some raw \<Rightarrow> Some (if list_all (\<lambda>i. finiteBits (wordAt raw i)) [0..<nat n]
         then Inr (map (\<lambda>i. Float32frombits (wordAt raw i)) [0..<nat n])
         else Inl ''hrtf: block contains non-finite value''))"

definition filtersId :: "int \<Rightarrow> string" where
  "filtersId order = ''filters_order'' @ [char_of (48 + nat order)]"

fun loadBanks :: "byte list \<Rightarrow> Manifest \<Rightarrow> (string \<rightharpoonup> BlockEntry) \<Rightarrow> int list \<Rightarrow> (int \<rightharpoonup> FilterBank) \<Rightarrow> (int \<rightharpoonup> FilterBank) loaded" where
  "loadBanks data m blocks [] banks = Some (Inr banks)"
| "loadBanks data m blocks (order # os) banks =
    (if order < 1 \<or> order > 7 then Some (Inl ''hrtf: order outside supported range [1, 7]'')
     else case blocks (filtersId order) of
       None \<Rightarrow> Some (Inl ''hrtf: block is missing'')
     | Some e \<Rightarrow>
        let nCh = (order + 1) * (order + 1) in
        if be_Shape e \<noteq> [2, nCh, mf_FilterLen m] then Some (Inl ''hrtf: block shape'')
        else case readFloats data e of
          None \<Rightarrow> None
        | Some (Inl msg) \<Rightarrow> Some (Inl msg)
        | Some (Inr taps) \<Rightarrow> loadBanks data m blocks os (banks(order \<mapsto>
            \<lparr> fb_Order = order, fb_NumChannels = nCh, fb_FilterLen = mf_FilterLen m, fb_Taps = taps \<rparr>)))"

definition pairUp :: "nat \<Rightarrow> rat list \<Rightarrow> (rat \<times> rat) list" where
  "pairUp n xs = map (\<lambda>i. (xs ! (2 * i), xs ! (2 * i + 1))) [0..<n]"

definition loadITD :: "byte list \<Rightarrow> (string \<rightharpoonup> BlockEntry) \<Rightarrow> ((rat \<times> rat) list \<times> rat list) loaded" where
  "loadITD data blocks = (case (blocks ''itd_dirs_deg'', blocks ''itd_delays_s'') of
     (Some dirs, Some delays) \<Rightarrow>
       (if length (be_Shape dirs) \<noteq> 2 \<or> be_Shape dirs ! 1 \<noteq> 2 then Some (Inl ''hrtf: block itd_dirs_deg: shape'')
        else if length (be_Shape delays) \<noteq> 1 \<or> be_Shape delays ! 0 \<noteq> be_Shape dirs ! 0 then Some (Inl ''hrtf: ITD table mismatch'')
        else case readFloats data dirs of
          None \<Rightarrow> None
        | Some (Inl msg) \<Rightarrow> Some (Inl msg)
        | Some (Inr ds) \<Rightarrow> (case readFloats data delays of
            None \<Rightarrow> None
          | Some (Inl msg) \<Rightarrow> Some (Inl msg)
          | Some (Inr ts) \<Rightarrow>
              (if list_all (\<lambda>d. - f32 maxITDSeconds \<le> d \<and> d \<le> f32 maxITDSeconds) ts
               then Some (Inr (pairUp (nat (be_Shape dirs ! 0)) ds, ts)) else Some (Inl ''hrtf: ITD outside sanity bound''))))
   | _ \<Rightarrow> Some (Inl ''hrtf: missing block''))"

text \<open>\<^verbatim>\<open>Load\<close>. A header length that is a 32-bit count is never negative as an \<^verbatim>\<open>int\<close>.\<close>

definition loadHeader :: "byte list \<Rightarrow> string + nat" where
  "loadHeader data =
    (if length data < 16 then Inl ''hrtf: file too short''
     else if take 8 data \<noteq> magic then Inl ''hrtf: not a PAHRTF file (bad magic)''
     else if leWord (Lasa_Prelude.slice data 8 12) \<noteq> 1 then Inl ''hrtf: unsupported PAHRTF version''
     else let headerLen = unat (leWord (Lasa_Prelude.slice data 12 16)) in
       if headerLen = 0 \<or> 16 + headerLen > length data then Inl ''hrtf: header length exceeds file size'' else Inr headerLen)"

definition Load :: "(byte list \<Rightarrow> Manifest option) \<Rightarrow> byte list \<Rightarrow> HrtfSet loaded" where
  "Load unmarshal data = (case loadHeader data of
     Inl msg \<Rightarrow> Some (Inl msg)
   | Inr headerLen \<Rightarrow> (case unmarshal (Lasa_Prelude.slice data 16 (16 + headerLen)) of
       None \<Rightarrow> Some (Inl ''hrtf: manifest'')
     | Some m \<Rightarrow> (case checkManifest m of
         Some msg \<Rightarrow> Some (Inl msg)
       | None \<Rightarrow> (case checkBlocks (int (length data)) (16 + int headerLen) (mf_Blocks m) Map.empty of
           Inl msg \<Rightarrow> Some (Inl msg)
         | Inr blocks \<Rightarrow> (case loadBanks data m blocks (mf_Orders m) Map.empty of
             None \<Rightarrow> None
           | Some (Inl msg) \<Rightarrow> Some (Inl msg)
           | Some (Inr banks) \<Rightarrow> (case loadITD data blocks of
               None \<Rightarrow> None
             | Some (Inl msg) \<Rightarrow> Some (Inl msg)
             | Some (Inr (dirs, delays)) \<Rightarrow> Some (Inr \<lparr> hs_Manifest = m,
                 hs_MeasurementRadiusM = (case mf_Source m ''measurement_radius_m'' of Some r \<Rightarrow> if r > 0 then r else 0 | None \<Rightarrow> 0),
                 hs_ITDDirsDeg = dirs, hs_ITDDelaysS = delays, hs_banks = banks \<rparr>)))))))"

section \<open>Use\<close>

definition Bank :: "HrtfSet \<Rightarrow> int \<Rightarrow> FilterBank option" where
  "Bank s order = hs_banks s order"

definition EarTaps :: "FilterBank \<Rightarrow> int \<Rightarrow> int \<Rightarrow> rat list option" where
  "EarTaps b ear ch = (let off = (ear * fb_NumChannels b + ch) * fb_FilterLen b in sliceInt (fb_Taps b) off (off + fb_FilterLen b))"

definition InstallDelayModel :: "HrtfSet \<Rightarrow> Bilateral \<Rightarrow> Bilateral" where
  "InstallDelayModel s bl = bl \<lparr> bl_HeadRadiusM := al_HeadRadiusM (mf_Alignment (hs_Manifest s)),
     bl_SpeedOfSoundMS := al_SpeedOfSoundMS (mf_Alignment (hs_Manifest s)), bl_MeasurementRadiusM := hs_MeasurementRadiusM s \<rparr>"

text \<open>\<^verbatim>\<open>NewConvolverSet\<close> with the length check of \<^verbatim>\<open>convolver.NewSet\<close>; \<open>order\<close> is the bus order, of which the source
  takes the square root of the channel count. The transform of the taps is C code and left out: an
  accepted set is the taps it is built from.\<close>

definition NewConvolverSet :: "HrtfSet \<Rightarrow> int \<Rightarrow> string + rat list" where
  "NewConvolverSet s order =
    (if mf_FilterType (hs_Manifest s) \<noteq> FilterTypeEarAligned \<or> al_Method (mf_Alignment (hs_Manifest s)) \<noteq> ''woodworth''
     then Inl ''binaural: decode needs an ear-aligned set with woodworth alignment''
     else case Bank s order of
       None \<Rightarrow> Inl ''binaural: HRTF set carries no filter bank of this order''
     | Some b \<Rightarrow> if int (length (fb_Taps b)) \<noteq> 2 * fb_NumChannels b * fb_FilterLen b then Inl ''convolver: taps length'' else Inr (fb_Taps b))"

section \<open>The ring check of loader and encoder\<close>

text \<open>The loader computes the reach in double precision throughout, the encoder rounds the base delay
  through single precision; where the loader accepts, the two agree.\<close>

lemma ring_check_agrees:
  assumes "0 < al_HeadRadiusM a" "0 < al_SpeedOfSoundMS a" "setReach a \<le> 64" "bl_HeadRadiusM bl = al_HeadRadiusM a" "bl_SpeedOfSoundMS bl = al_SpeedOfSoundMS a"
  shows "add64 (delayBaseOf bl) (div64 (maxTau bl) 2) = setReach a"
proof -
  have s: "int64f SAMPLE_RATE = 48000" unfolding int64f_def SAMPLE_RATE_def by (subst f64_of_int) simp_all
  have T: "maxTau bl = setTau a" by (simp add: maxTau_def setTau_def assms(4,5) s)
  let ?h = "div64 (setTau a) 2"
  have h: "0 \<le> ?h" using assms(1,2) by (simp add: setTau_def div64_def mul64_def f64_nonneg halfPi1_def)
  define c where "c = \<lceil>?h\<rceil>"
  have c0: "0 \<le> c" using h by (simp add: c_def)
  have "f64 (of_int (c + 1)) \<le> f64 (f64 (of_int (c + 1)) + ?h)" using f64_mono[of "f64 (of_int (c + 1))" "f64 (of_int (c + 1)) + ?h"] h by simp
  also have "\<dots> \<le> 64" using assms(3) by (simp add: setReach_def add64_def c_def)
  finally have le: "f64 (of_int (c + 1)) \<le> 64" .
  have "c + 1 \<le> 64"
  proof (rule ccontr)
    assume "\<not> c + 1 \<le> 64"
    then have "(of_int 65 :: rat) \<le> of_int (c + 1)" by (simp only: of_int_le_iff)
    from f64_ge_of_int[OF this] le show False by simp
  qed
  then have e: "f32 (of_int c) = of_int c" "f32 (of_int c + 1) = of_int c + 1" "f64 (of_int c + 1) = of_int c + 1"
    using c0 f32_of_int[of c] f32_of_int[of "c + 1"] f64_of_int[of "c + 1"] by simp_all
  show ?thesis by (simp add: delayBaseOf_def T setReach_def add32_def c_def[symmetric] e add64_def)
qed

section \<open>What a loaded set is\<close>

definition floats :: "rat list \<Rightarrow> bool" where
  "floats xs \<longleftrightarrow> (\<forall>x\<in>set xs. \<exists>w. finiteBits w \<and> x = Float32frombits w)"

lemma readFloats_ret: "readFloats data e = Some (Inr xs) \<Longrightarrow> length xs = nat (prod_list (be_Shape e)) \<and> floats xs"
  by (fastforce simp: readFloats_def Let_def floats_def list_all_iff split: option.splits if_splits)

definition bankOk :: "Manifest \<Rightarrow> int \<Rightarrow> FilterBank \<Rightarrow> bool" where
  "bankOk m order b \<longleftrightarrow> 1 \<le> order \<and> order \<le> 7 \<and> fb_Order b = order \<and> fb_NumChannels b = (order + 1) * (order + 1) \<and>
     fb_FilterLen b = mf_FilterLen m \<and> int (length (fb_Taps b)) = 2 * fb_NumChannels b * fb_FilterLen b \<and> floats (fb_Taps b)"

lemma loadBanks_ok:
  assumes "loadBanks data m blocks os banks = Some (Inr banks')" "0 < mf_FilterLen m" "\<And>i b. banks i = Some b \<Longrightarrow> bankOk m i b"
  shows "(\<forall>i\<in>set os. banks' i \<noteq> None) \<and> (\<forall>i. banks i \<noteq> None \<longrightarrow> banks' i \<noteq> None) \<and> (\<forall>i b. banks' i = Some b \<longrightarrow> bankOk m i b)"
  using assms(1,3)
proof (induction os arbitrary: banks)
  case (Cons order os)
  obtain e where e: "blocks (filtersId order) = Some e" "1 \<le> order" "order \<le> 7" using Cons.prems(1) by (auto split: if_splits option.splits)
  let ?n = "(order + 1) * (order + 1)"
  have sh: "be_Shape e = [2, ?n, mf_FilterLen m]" using Cons.prems(1) e by (simp add: Let_def split: if_splits)
  obtain taps where t: "readFloats data e = Some (Inr taps)"
    "loadBanks data m blocks os (banks(order \<mapsto> \<lparr> fb_Order = order, fb_NumChannels = ?n, fb_FilterLen = mf_FilterLen m, fb_Taps = taps \<rparr>)) = Some (Inr banks')"
    using Cons.prems(1) e sh by (simp add: Let_def split: option.splits sum.splits)
  define b where "b = \<lparr> fb_Order = order, fb_NumChannels = ?n, fb_FilterLen = mf_FilterLen m, fb_Taps = taps \<rparr>"
  have "bankOk m order b" using readFloats_ret[OF t(1)] sh e(2,3) assms(2) by (simp add: bankOk_def b_def mult.assoc)
  then have "\<And>i c. (banks(order \<mapsto> b)) i = Some c \<Longrightarrow> bankOk m i c" using Cons.prems(2) by (auto split: if_splits)
  from Cons.IH[OF t(2)[folded b_def] this] show ?case by (metis fun_upd_apply option.distinct(1) set_ConsD)
qed auto

section \<open>No slice out of range\<close>

lemma shapeCount_ret:
  "shapeCount len n ds = Inr k \<Longrightarrow> 0 < n \<Longrightarrow> n \<le> max 1 len \<Longrightarrow> 0 \<le> len \<Longrightarrow> k = n * prod_list ds \<and> 0 < k \<and> k \<le> max 1 len"
proof (induction len n ds rule: shapeCount.induct)
  case (2 len n d ds)
  then have d: "0 < d" "n \<le> len div d" "shapeCount len (n * d) ds = Inr k" by (auto split: if_splits)
  have "n * d \<le> len" using mult_right_mono[OF d(2), of d] d(1) div_mult_mod_eq[of len d] pos_mod_sign[OF d(1), of len] by linarith
  moreover have "0 < n * d" using "2.prems"(2) d(1) by simp
  moreover have "n * d \<le> max 1 len" using calculation(1) by simp
  ultimately show ?case using "2.IH"[OF _ _ d(3)] d(1,2) "2.prems"(4) by (simp add: mult.assoc)
qed simp

definition blockOk :: "int \<Rightarrow> int \<Rightarrow> BlockEntry \<Rightarrow> bool" where
  "blockOk len body e \<longleftrightarrow> body \<le> be_Offset e \<and> 0 < prod_list (be_Shape e) \<and> prod_list (be_Shape e) \<le> max 1 len \<and>
     addInt (be_Offset e) (prod_list (be_Shape e) * 4) \<le> len"

lemma checkBlocks_ok:
  assumes "checkBlocks len body es blocks = Inr blocks'" "0 \<le> len" "\<And>i e. blocks i = Some e \<Longrightarrow> blockOk len body e \<and> e \<in> S"
  shows "blocks' i = Some e \<Longrightarrow> blockOk len body e \<and> e \<in> S \<union> set es"
  using assms(1,3)
proof (induction es arbitrary: blocks S)
  case (Cons x es)
  then obtain b1 where b1: "checkBlock len body blocks x = Inr b1" "checkBlocks len body es b1 = Inr blocks'" by (auto split: sum.splits)
  then obtain n where n: "shapeCount len 1 (be_Shape x) = Inr n" "body \<le> be_Offset x" "addInt (be_Offset x) (n * 4) \<le> len" "b1 = blocks(be_ID x \<mapsto> x)"
    by (auto simp: checkBlock_def split: if_splits sum.splits)
  have "blockOk len body x" using shapeCount_ret[OF n(1)] n(2,3) assms(2) by (simp add: blockOk_def)
  then have "\<And>i e. b1 i = Some e \<Longrightarrow> blockOk len body e \<and> e \<in> insert x S" using Cons.prems(3) n(4) by (auto split: if_splits)
  from Cons.IH[OF Cons.prems(1) b1(2) this] show ?case by auto
qed auto

lemma readFloats_defined:
  assumes "blockOk (int (length data)) body e" "0 \<le> body" "be_Offset e \<le> 2 ^ 62" "int (length data) \<le> 2 ^ 59"
  shows "readFloats data e \<noteq> None"
proof -
  let ?n = "prod_list (be_Shape e)"
  have b: "0 \<le> be_Offset e" "0 < ?n" "?n \<le> max 1 (int (length data))" "addInt (be_Offset e) (?n * 4) \<le> int (length data)"
    using assms(1,2) by (auto simp: blockOk_def)
  have "?n * 4 \<le> 2 ^ 61" using b(3) assms(4) by simp
  then have "addInt (be_Offset e) (?n * 4) = be_Offset e + ?n * 4" using b(1,2) assms(3) by (simp add: addInt_def)
  then show ?thesis using b by (simp add: readFloats_def Let_def sliceInt_def)
qed

lemma loadBanks_defined: "(\<And>i e. blocks i = Some e \<Longrightarrow> readFloats data e \<noteq> None) \<Longrightarrow> loadBanks data m blocks os banks \<noteq> None"
  by (induction os arbitrary: banks) (fastforce simp: Let_def split: option.splits sum.splits)+

lemma loadITD_defined: "(\<And>i e. blocks i = Some e \<Longrightarrow> readFloats data e \<noteq> None) \<Longrightarrow> loadITD data blocks \<noteq> None"
  by (fastforce simp: loadITD_def split: option.splits sum.splits)

lemma loadITD_ret:
  assumes "loadITD data blocks = Some (Inr (dirs, delays))"
  shows "length dirs = length delays \<and> floats delays \<and> (\<forall>d\<in>set delays. \<bar>d\<bar> \<le> f32 maxITDSeconds)"
proof -
  obtain e1 e2 ds where e: "blocks ''itd_dirs_deg'' = Some e1" "blocks ''itd_delays_s'' = Some e2" "length (be_Shape e2) = 1" "be_Shape e2 ! 0 = be_Shape e1 ! 0"
    "readFloats data e2 = Some (Inr delays)" "list_all (\<lambda>d. - f32 maxITDSeconds \<le> d \<and> d \<le> f32 maxITDSeconds) delays" "dirs = pairUp (nat (be_Shape e1 ! 0)) ds"
    using assms by (auto simp: loadITD_def split: option.splits sum.splits if_splits)
  have "be_Shape e2 = [be_Shape e1 ! 0]" using e(3,4) by (cases "be_Shape e2") auto
  then show ?thesis using readFloats_ret[OF e(5)] e(6,7) by (auto simp: pairUp_def list_all_iff abs_le_iff)
qed

text \<open>The stages of a successful load.\<close>

lemma Load_ret:
  assumes "Load unmarshal data = Some (Inr s)"
  obtains n blocks where "checkManifest (hs_Manifest s) = None" "checkBlocks (int (length data)) (16 + int n) (mf_Blocks (hs_Manifest s)) Map.empty = Inr blocks"
    "loadBanks data (hs_Manifest s) blocks (mf_Orders (hs_Manifest s)) Map.empty = Some (Inr (hs_banks s))"
    "loadITD data blocks = Some (Inr (hs_ITDDirsDeg s, hs_ITDDelaysS s))"
  using assms by (auto simp: Load_def split: sum.splits option.splits)

lemma Load_none:
  assumes "Load unmarshal data = None"
  obtains n bs m blocks where "unmarshal bs = Some m" "checkBlocks (int (length data)) (16 + int n) (mf_Blocks m) Map.empty = Inr blocks"
    "loadBanks data m blocks (mf_Orders m) Map.empty = None \<or> loadITD data blocks = None"
  using assms by (auto simp: Load_def split: sum.splits option.splits prod.splits)

lemma checkManifest_ok:
  assumes "checkManifest m = None"
  shows "0 < mf_FilterLen m" "mf_FilterLen m \<le> 273" "checkAlignmentConsistency m = None" "mf_Orders m \<noteq> []"
  using assms by (auto simp: checkManifest_def MaxFilterTaps_def split: if_splits option.splits)

lemma EarTaps_ok:
  assumes "bankOk m order b" "0 < mf_FilterLen m" "ear = 0 \<or> ear = 1" "0 \<le> ch" "ch < fb_NumChannels b"
  shows "\<exists>ts. EarTaps b ear ch = Some ts \<and> int (length ts) = mf_FilterLen m"
proof -
  let ?L = "mf_FilterLen m" and ?n = "fb_NumChannels b"
  have b: "fb_FilterLen b = ?L" "int (length (fb_Taps b)) = 2 * ?n * ?L" using assms(1) by (auto simp: bankOk_def)
  let ?k = "ear * ?n + ch"
  have k: "0 \<le> ?k" "?k + 1 \<le> 2 * ?n" using assms(3-5) by auto
  then have "(?k + 1) * ?L \<le> 2 * ?n * ?L" using assms(2) by (intro mult_right_mono) auto
  then have le: "?k * ?L + ?L \<le> int (length (fb_Taps b))" using b(2) by (simp add: algebra_simps)
  have nn: "0 \<le> ?k * ?L" using k(1) assms(2) by simp
  have "nat (?k * ?L + ?L) - nat (?k * ?L) = nat ?L" using nn assms(2) by simp
  moreover have "nat ?L \<le> length (fb_Taps b) - nat (?k * ?L)" using le nn assms(2) by linarith
  ultimately show ?thesis using le nn assms(2) by (simp add: EarTaps_def b(1) Let_def sliceInt_def)
qed

section \<open>Concrete containers\<close>

definition demo_manifest :: "int \<Rightarrow> Manifest" where
  "demo_manifest off = \<lparr> mf_FormatVersion = 1, mf_Name = ''demo'', mf_SampleRate = 48000, mf_FilterType = FilterTypeEarAligned, mf_FilterLen = 1,
     mf_BulkDelaySamples = 0, mf_Orders = [2],
     mf_Alignment = \<lparr> al_Method = ''woodworth'', al_HeadRadiusM = 7 / 80, al_SpeedOfSoundMS = 343, al_T0RemovedS = 0 \<rparr>,
     mf_Source = [''measurement_radius_m'' \<mapsto> 13 / 4],
     mf_Blocks = [\<lparr> be_ID = ''filters_order2'', be_Shape = [2, 9, 1], be_Dtype = ''f32le'', be_Offset = off \<rparr>,
       \<lparr> be_ID = ''itd_dirs_deg'', be_Shape = [1, 2], be_Dtype = ''f32le'', be_Offset = 192 \<rparr>,
       \<lparr> be_ID = ''itd_delays_s'', be_Shape = [1], be_Dtype = ''f32le'', be_Offset = 256 \<rparr>] \<rparr>"

definition demo_container :: "byte list" where
  "demo_container = magic @ [1, 0, 0, 0, 1, 0, 0, 0, 123] @ replicate 243 0"

definition demo_set :: HrtfSet where
  "demo_set = (case Load (\<lambda>_. Some (demo_manifest 64)) demo_container of Some (Inr s) \<Rightarrow> s)"

lemma demo_load: "Load (\<lambda>_. Some (demo_manifest 64)) demo_container = Some (Inr demo_set)"
proof -
  have "(case Load (\<lambda>_. Some (demo_manifest 64)) demo_container of Some (Inr s) \<Rightarrow> True | _ \<Rightarrow> False)" by code_simp
  then show ?thesis by (auto simp: demo_set_def split: option.splits sum.splits)
qed

lemma demo_set_manifest: "hs_Manifest demo_set = demo_manifest 64"
proof -
  obtain x where "hs_Manifest demo_set = hs_Manifest x" "hs_Manifest x = demo_manifest 64"
    using demo_load by (auto simp: Load_def split: sum.splits option.splits) (metis HrtfSet.select_convs(1))+
  then show ?thesis by simp
qed

section \<open>Properties\<close>

text \<open>C35. Every set the loader accepts is whole. Filter lengths are within what the convolver takes; every order the manifest
  lists has a bank of \<open>(order + 1)\<^sup>2\<close> channels and exactly two ears of taps, all finite, so that
  \<^verbatim>\<open>EarTaps\<close> never slices out of range; the delay table has one entry for every direction, each within 2 ms.\<close>

theorem Load_wellformed:
  assumes "Load unmarshal data = Some (Inr s)"
  shows "0 < mf_FilterLen (hs_Manifest s) \<and> mf_FilterLen (hs_Manifest s) \<le> 273 \<and>
    (\<forall>i\<in>set (mf_Orders (hs_Manifest s)). Bank s i \<noteq> None) \<and>
    (\<forall>i b. Bank s i = Some b \<longrightarrow> bankOk (hs_Manifest s) i b \<and>
       (\<forall>ear\<in>{0, 1}. \<forall>ch\<in>{0..<fb_NumChannels b}. \<exists>ts. EarTaps b ear ch = Some ts \<and> int (length ts) = mf_FilterLen (hs_Manifest s))) \<and>
    length (hs_ITDDirsDeg s) = length (hs_ITDDelaysS s) \<and> (\<forall>d\<in>set (hs_ITDDelaysS s). \<bar>d\<bar> \<le> f32 maxITDSeconds)"
proof -
  obtain blocks where l: "checkManifest (hs_Manifest s) = None"
    "loadBanks data (hs_Manifest s) blocks (mf_Orders (hs_Manifest s)) Map.empty = Some (Inr (hs_banks s))"
    "loadITD data blocks = Some (Inr (hs_ITDDirsDeg s, hs_ITDDelaysS s))" by (rule Load_ret[OF assms])
  note m = checkManifest_ok[OF l(1)]
  have banks: "(\<forall>i\<in>set (mf_Orders (hs_Manifest s)). Bank s i \<noteq> None) \<and> (\<forall>i b. Bank s i = Some b \<longrightarrow> bankOk (hs_Manifest s) i b)"
    using loadBanks_ok[OF l(2) m(1)] by (simp add: Bank_def)
  moreover have "\<exists>ts. EarTaps b ear ch = Some ts \<and> int (length ts) = mf_FilterLen (hs_Manifest s)"
    if "Bank s i = Some b" "ear \<in> {0, 1}" "ch \<in> {0..<fb_NumChannels b}" for i b ear ch
    using EarTaps_ok[OF _ m(1), of i b ear ch] that banks by auto
  ultimately show ?thesis using m(1,2) loadITD_ret[OF l(3)] by blast
qed

theorem Load_wellformed_witness:
  "\<exists>b. Bank demo_set 2 = Some b \<and> (\<exists>ts. EarTaps b 1 8 = Some ts \<and> length ts = 1)"
proof -
  have m: "mf_Orders (hs_Manifest demo_set) = [2]" "mf_FilterLen (hs_Manifest demo_set) = 1" by (simp_all add: demo_set_manifest demo_manifest_def)
  note w = Load_wellformed[OF demo_load]
  obtain b where b: "Bank demo_set 2 = Some b" using w m(1) by auto
  then have "bankOk (hs_Manifest demo_set) 2 b" using w by blast
  then have "fb_NumChannels b = 9" by (simp add: bankOk_def)
  then have "\<exists>ts. EarTaps b 1 8 = Some ts \<and> int (length ts) = 1" using w b m(2) by fastforce
  then show ?thesis using b by auto
qed

lemma accepted_delay_model:
  assumes "Load unmarshal data = Some (Inr s)" "mf_FilterType (hs_Manifest s) = FilterTypeEarAligned"
  shows "\<exists>d. initDelayModel (InstallDelayModel s bl) cfg = Inr d"
proof -
  obtain blocks where "checkManifest (hs_Manifest s) = None" by (rule Load_ret[OF assms(1)])
  note m = checkManifest_ok[OF this]
  let ?a = "mf_Alignment (hs_Manifest s)" and ?bl = "InstallDelayModel s bl"
  have a: "0 < al_HeadRadiusM ?a" "0 < al_SpeedOfSoundMS ?a" "setReach ?a \<le> 64"
    using m(3) assms(2) by (auto simp: checkAlignmentConsistency_def FilterTypeEarAligned_def FilterTypeMagLSFull_def DelayRingHistory_def Let_def split: if_splits)
  have "add64 (delayBaseOf ?bl) (div64 (maxTau ?bl) 2) = setReach ?a" by (rule ring_check_agrees[OF a]) (simp_all add: InstallDelayModel_def)
  then show ?thesis using a by (simp add: initDelayModel_def DelayRingHistory_def Let_def) (simp add: InstallDelayModel_def)
qed

lemma accepted_bank:
  assumes "Load unmarshal data = Some (Inr s)" "i \<in> set (mf_Orders (hs_Manifest s))"
  shows "\<exists>b. Bank s i = Some b \<and> bankOk (hs_Manifest s) i b"
proof -
  obtain blocks where l: "checkManifest (hs_Manifest s) = None"
    "loadBanks data (hs_Manifest s) blocks (mf_Orders (hs_Manifest s)) Map.empty = Some (Inr (hs_banks s))" by (rule Load_ret[OF assms(1)])
  then show ?thesis using loadBanks_ok[OF l(2) checkManifest_ok(1)[OF l(1)]] assms(2) by (auto simp: Bank_def)
qed

text \<open>An accepted ear-aligned set cannot crash the encoders. Once its alignment is installed, the
  delay model of every encoder, whatever its configuration, is built without the panic the encoder
  reserves for delays beyond its ring, although loader and encoder round differently; and a set aligned
  by the Woodworth model gives a convolver for every order it lists.\<close>

theorem accepted_set_starts:
  assumes "Load unmarshal data = Some (Inr s)" "mf_FilterType (hs_Manifest s) = FilterTypeEarAligned"
  shows "(\<exists>d. initDelayModel (InstallDelayModel s bl) cfg = Inr d) \<and>
    (al_Method (mf_Alignment (hs_Manifest s)) = ''woodworth'' \<longrightarrow> (\<forall>i\<in>set (mf_Orders (hs_Manifest s)). \<exists>taps. NewConvolverSet s i = Inr taps))"
proof -
  let ?a = "mf_Alignment (hs_Manifest s)"
  have "\<exists>taps. NewConvolverSet s i = Inr taps" if w: "al_Method ?a = ''woodworth''" "i \<in> set (mf_Orders (hs_Manifest s))" for i
    using accepted_bank[OF assms(1) w(2)] w(1) assms(2) by (auto simp: NewConvolverSet_def bankOk_def)
  then show ?thesis using accepted_delay_model[OF assms] by blast
qed

theorem accepted_set_starts_witness:
  "\<exists>d. initDelayModel (InstallDelayModel demo_set demo_bilateral) demo_mixerConfig = Inr d"
  using accepted_set_starts[OF demo_load, of demo_bilateral demo_mixerConfig] by (simp add: demo_set_manifest demo_manifest_def)

text \<open>C36. The loader rejects bad files with errors, and never by a panic, as long as the manifest's offsets are below
  \<open>2\<^sup>6\<^sup>2\<close>. The restriction is needed: the sum of offset and size is not checked for overflow, and a block at
  \<open>2\<^sup>6\<^sup>3 - 64\<close> passes the size check with a negative end and panics in the slice.\<close>

theorem Load_panics_only_by_overflow:
  "(\<forall>unmarshal data. int (length data) \<le> 2 ^ 59 \<longrightarrow> (\<forall>bs m. unmarshal bs = Some m \<longrightarrow> (\<forall>e\<in>set (mf_Blocks m). be_Offset e \<le> 2 ^ 62)) \<longrightarrow>
      Load unmarshal data \<noteq> None) \<and>
   Load (\<lambda>_. Some (demo_manifest (2 ^ 63 - 64))) demo_container = None"
proof (intro conjI allI impI)
  fix unmarshal :: "byte list \<Rightarrow> Manifest option" and data :: "byte list"
  assume len: "int (length data) \<le> 2 ^ 59" and off: "\<forall>bs m. unmarshal bs = Some m \<longrightarrow> (\<forall>e\<in>set (mf_Blocks m). be_Offset e \<le> 2 ^ 62)"
  have "loadBanks data m blocks os Map.empty \<noteq> None" "loadITD data blocks \<noteq> None"
    if h: "checkBlocks (int (length data)) (16 + int n) (mf_Blocks m) Map.empty = Inr blocks" "unmarshal bs = Some m" for n m blocks os bs
  proof -
    have rd: "readFloats data e \<noteq> None" if e: "blocks i = Some e" for i e
    proof -
      have "blockOk (int (length data)) (16 + int n) e \<and> e \<in> {} \<union> set (mf_Blocks m)" by (rule checkBlocks_ok[OF h(1) _ _ e]) simp_all
      then show ?thesis using readFloats_defined[of data "16 + int n" e] len off h(2) by simp
    qed
    show "loadBanks data m blocks os Map.empty \<noteq> None" by (rule loadBanks_defined) (rule rd)
    show "loadITD data blocks \<noteq> None" by (rule loadITD_defined) (rule rd)
  qed
  then show "Load unmarshal data \<noteq> None" using Load_none[of unmarshal data] by metis
next
  show "Load (\<lambda>_. Some (demo_manifest (2 ^ 63 - 64))) demo_container = None"
  proof -
    have "(case Load (\<lambda>_. Some (demo_manifest (2 ^ 63 - 64))) demo_container of None \<Rightarrow> True | Some _ \<Rightarrow> False)" by code_simp
    then show ?thesis by (simp split: option.splits)
  qed
qed

theorem Load_panics_only_by_overflow_witness:
  "Load (\<lambda>_. Some (demo_manifest 192)) demo_container \<noteq> None"
proof -
  have l: "int (length demo_container) \<le> 2 ^ 59" by (simp add: demo_container_def magic_def)
  have o: "be_Offset e \<le> 2 ^ 62" if "Some (demo_manifest 192) = Some m" "e \<in> set (mf_Blocks m)" for m e
  proof -
    have "m = demo_manifest 192" using that(1) by simp
    then show ?thesis using that(2) by (auto simp: demo_manifest_def)
  qed
  show ?thesis using Load_panics_only_by_overflow[THEN conjunct1, rule_format, OF l o] .
qed

end
