(* ===== verification/Egress.thy ===== *)
theory Egress
  imports Hrtf_Set
begin

text \<open>
  What a binaural sink does with a rendered frame (\<^verbatim>\<open>src/engine/inout/dynamics.go\<close>, \<^verbatim>\<open>f32codec.go\<close>, \<^verbatim>\<open>encoder.go\<close>,
  \<^verbatim>\<open>rawf32_output.go\<close>, \<^verbatim>\<open>BilateralToStereo\<close> of \<^verbatim>\<open>src/engine/binaural/convolver_decoder.go\<close>, and the operations of
  \<^verbatim>\<open>src/engine/buffers/cbuffer.go\<close> they use): copy into the sink buffer, convolve to stereo, compress and
  limit, encode. Samples are \<^verbatim>\<open>float32\<close> throughout and every operation rounds.

  The convolver (\<^verbatim>\<open>pahconv.c\<close>) and the Opus encoder are parameters: functions of everything handed to them so far. The
  functions \<^verbatim>\<open>math.Exp\<close> and \<^verbatim>\<open>math.Log10\<close> join the parameters of Go_Math; \<open>decibel_ok\<close> states what the
  dynamics relies on, that powers of ten and exponentials with exponents that are not positive lie between zero and one.
\<close>

section \<open>Parameters\<close>

record LogMath = Math +
  expf :: "rat \<Rightarrow> rat"
  log10f :: "rat \<Rightarrow> rat"

definition decibel_ok :: "LogMath \<Rightarrow> bool" where
  "decibel_ok mt \<longleftrightarrow> (\<forall>x. x \<le> 0 \<longrightarrow> 0 < powf mt 10 x \<and> powf mt 10 x \<le> 1 \<and> 0 < expf mt x \<and> expf mt x \<le> 1)"

section \<open>Compressor and limiter\<close>

record StereoCompressorLimiter =
  cl_compThresholdDb :: rat
  cl_compRatio :: rat
  cl_compKneeDb :: rat
  cl_compMakeupLin :: rat
  cl_compAttackCoeff :: rat
  cl_compReleaseCoeff :: rat
  cl_limCeilingLin :: rat
  cl_limAttackCoeff :: rat
  cl_limReleaseCoeff :: rat
  cl_compEnvelope :: rat
  cl_limEnvelope :: rat

definition coeffFromTime :: "LogMath \<Rightarrow> rat \<Rightarrow> rat \<Rightarrow> rat" where
  "coeffFromTime mt timeSec sampleRate =
    (if timeSec \<le> 0 then 1 else sub32 1 (f32 (expf mt (div32 (- 1) (mul32 timeSec sampleRate)))))"

definition dbToLin :: "LogMath \<Rightarrow> rat \<Rightarrow> rat" where
  "dbToLin mt db = f32 (powf mt 10 (div64 db 20))"

definition linToDb :: "LogMath \<Rightarrow> rat \<Rightarrow> rat" where
  "linToDb mt lin = mul32 20 (f32 (log10f mt lin))"

definition absf32 :: "rat \<Rightarrow> rat" where
  "absf32 x = (if x < 0 then - x else x)"

definition maxf32 :: "rat \<Rightarrow> rat \<Rightarrow> rat" where
  "maxf32 a b = (if a > b then a else b)"

definition clampf32 :: "rat \<Rightarrow> rat \<Rightarrow> rat \<Rightarrow> rat" where
  "clampf32 x lo hi = (if x < lo then lo else if x > hi then hi else x)"

definition NewStereoCompressorLimiter :: "LogMath \<Rightarrow> rat \<Rightarrow> StereoCompressorLimiter" where
  "NewStereoCompressorLimiter mt sampleRate = \<lparr> cl_compThresholdDb = - 18, cl_compRatio = 5 / 2, cl_compKneeDb = 6, cl_compMakeupLin = 1,
     cl_compAttackCoeff = coeffFromTime mt (f32 (1 / 100)) sampleRate, cl_compReleaseCoeff = coeffFromTime mt (f32 (15 / 100)) sampleRate,
     cl_limCeilingLin = dbToLin mt (- 1 / 2),
     cl_limAttackCoeff = coeffFromTime mt (f32 (1 / 10000)) sampleRate, cl_limReleaseCoeff = coeffFromTime mt (f32 (5 / 100)) sampleRate,
     cl_compEnvelope = 0, cl_limEnvelope = 0 \<rparr>"

definition computeCompressorGain :: "LogMath \<Rightarrow> StereoCompressorLimiter \<Rightarrow> rat \<Rightarrow> rat" where
  "computeCompressorGain mt d envelope =
    (if envelope < f32 (1 / 10 ^ 10) then 1 else
     let envDb = linToDb mt envelope; halfKnee = mul32 (cl_compKneeDb d) (1 / 2);
         kneeBottom = sub32 (cl_compThresholdDb d) halfKnee; kneeTop = add32 (cl_compThresholdDb d) halfKnee;
         slope = sub32 1 (div32 1 (cl_compRatio d)) in
     if envDb \<le> kneeBottom then 1
     else if envDb \<ge> kneeTop then dbToLin mt (- mul32 (sub32 envDb (cl_compThresholdDb d)) slope)
     else let x = sub32 envDb kneeBottom in
       dbToLin mt (- div32 (mul32 (mul32 slope x) x) (mul32 2 (cl_compKneeDb d))))"

definition smooth :: "rat \<Rightarrow> rat \<Rightarrow> rat \<Rightarrow> rat \<Rightarrow> rat" where
  "smooth attack decay peak env = add32 env (mul32 (if peak > env then attack else decay) (sub32 peak env))"

text \<open>One pair of samples: the new state, the compressor's and the limiter's gain. The limiter's gain is 1 while its envelope is
  not above the ceiling, where the source does not multiply.\<close>

definition compStep :: "LogMath \<Rightarrow> StereoCompressorLimiter \<Rightarrow> rat \<Rightarrow> rat \<Rightarrow> StereoCompressorLimiter \<times> rat" where
  "compStep mt d l r = (let env = smooth (cl_compAttackCoeff d) (cl_compReleaseCoeff d) (maxf32 (absf32 l) (absf32 r)) (cl_compEnvelope d)
     in (d \<lparr> cl_compEnvelope := env \<rparr>, mul32 (computeCompressorGain mt d env) (cl_compMakeupLin d)))"

definition limStep :: "StereoCompressorLimiter \<Rightarrow> rat \<Rightarrow> rat \<Rightarrow> StereoCompressorLimiter \<times> rat \<times> rat" where
  "limStep d l r = (let env = smooth (cl_limAttackCoeff d) (cl_limReleaseCoeff d) (maxf32 (absf32 l) (absf32 r)) (cl_limEnvelope d)
     in (d \<lparr> cl_limEnvelope := env \<rparr>,
         if env > cl_limCeilingLin d then let g = div32 (cl_limCeilingLin d) env in (mul32 l g, mul32 r g) else (l, r)))"

fun dyn_Process :: "LogMath \<Rightarrow> StereoCompressorLimiter \<Rightarrow> rat list \<Rightarrow> StereoCompressorLimiter \<times> rat list" where
  "dyn_Process mt d (l # r # buf) =
    (case compStep mt d l r of (d, g) \<Rightarrow>
     case limStep d (mul32 l g) (mul32 r g) of (d, l, r) \<Rightarrow>
     case dyn_Process mt d buf of (d, buf) \<Rightarrow> (d, clampf32 l (- 1) 1 # clampf32 r (- 1) 1 # buf))"
| "dyn_Process mt d buf = (d, buf)"

section \<open>Bytes\<close>

text \<open>\<^verbatim>\<open>math.Float32bits\<close> of a finite value that single precision represents.\<close>

definition Float32bits :: "rat \<Rightarrow> 32 word" where
  "Float32bits x = (let a = \<bar>x\<bar>; s = (if x < 0 then 2 ^ 31 else 0) in
     word_of_int (if a < 2 powi (- 126) then s + \<lfloor>a * 2 powi 149\<rfloor>
       else s + (flog2 a + 127) * 2 ^ 23 + (\<lfloor>a / 2 powi (flog2 a - 23)\<rfloor> - 2 ^ 23)))"

definition leBytes :: "32 word \<Rightarrow> byte list" where
  "leBytes w = [ucast w, ucast (drop_bit 8 w), ucast (drop_bit 16 w), ucast (drop_bit 24 w)]"

text \<open>The views of \<^verbatim>\<open>f32codec.go\<close>, on a little-endian machine; an empty slice has no first element to point at.\<close>

definition Encodef32 :: "rat list \<Rightarrow> byte list option" where
  "Encodef32 fs = (if fs = [] then None else Some (concat (map (leBytes \<circ> Float32bits) fs)))"

definition Decodef32 :: "byte list \<Rightarrow> rat list option" where
  "Decodef32 bs = (if bs = [] then None else Some (map (\<lambda>i. Float32frombits (wordAt bs i)) [0..<length bs div 4]))"

section \<open>The sink encoders\<close>

text \<open>\<^verbatim>\<open>InterleaveCBuffers\<close> of two ears; \<^verbatim>\<open>CopyFromSlice\<close> keeps the rest of the buffer.\<close>

definition InterleaveCBuffers :: "rat list \<Rightarrow> rat list \<Rightarrow> rat list" where
  "InterleaveCBuffers a b = concat (map (\<lambda>(x, y). [x, y]) (zip a b))"

record SinkEncoder =
  se_sinkBuffer :: "rat list"
  se_convolved :: "rat list list"
  se_stereos :: "rat list list"
  se_dynamics :: StereoCompressorLimiter

definition newSinkEncoder :: "LogMath \<Rightarrow> nat \<Rightarrow> SinkEncoder" where
  "newSinkEncoder mt channelCount = \<lparr> se_sinkBuffer = replicate (240 * (channelCount * 2)) 0, se_convolved = [], se_stereos = [],
     se_dynamics = NewStereoCompressorLimiter mt 48000 \<rparr>"

definition BilateralToStereo :: "(rat list list \<Rightarrow> rat list \<times> rat list) \<Rightarrow> rat list list \<Rightarrow> rat list" where
  "BilateralToStereo convolve fed = (case convolve fed of (a, b) \<Rightarrow> InterleaveCBuffers a b)"

text \<open>The part the two encoders share: the stereo frame after the dynamics. The test tone of a debugging build is left out.\<close>

definition renderStereo :: "LogMath \<Rightarrow> (rat list list \<Rightarrow> rat list \<times> rat list) \<Rightarrow> SinkEncoder \<Rightarrow> rat list \<Rightarrow> SinkEncoder \<times> rat list" where
  "renderStereo mt convolve e chans =
    (let sink = copy_at (se_sinkBuffer e) 0 chans; fed = se_convolved e @ [sink] in
     case dyn_Process mt (se_dynamics e) (BilateralToStereo convolve fed) of (d, stereo) \<Rightarrow>
       (e \<lparr> se_sinkBuffer := sink, se_convolved := fed, se_stereos := se_stereos e @ [stereo], se_dynamics := d \<rparr>, stereo))"

definition RawF32_Encode :: "LogMath \<Rightarrow> (rat list list \<Rightarrow> rat list \<times> rat list) \<Rightarrow> SinkEncoder \<Rightarrow> rat list \<Rightarrow> SinkEncoder \<times> byte list option" where
  "RawF32_Encode mt convolve e chans = (case renderStereo mt convolve e chans of (e, stereo) \<Rightarrow> (e, Encodef32 stereo))"

definition Opus_Encode :: "LogMath \<Rightarrow> (rat list list \<Rightarrow> rat list \<times> rat list) \<Rightarrow> (rat list list \<Rightarrow> byte list option) \<Rightarrow> SinkEncoder \<Rightarrow> rat list \<Rightarrow> SinkEncoder \<times> byte list option" where
  "Opus_Encode mt convolve opus e chans = (case renderStereo mt convolve e chans of (e, stereo) \<Rightarrow> (e, opus (se_stereos e)))"

section \<open>Never louder\<close>

lemma dbToLin_range: "decibel_ok mt \<Longrightarrow> db \<le> 0 \<Longrightarrow> 0 < dbToLin mt db \<and> dbToLin mt db \<le> 1"
proof -
  assume a: "decibel_ok mt" "db \<le> 0"
  have "div64 db 20 \<le> 0" unfolding div64_def by (rule f64_nonpos) (use a(2) in simp)
  then have p: "0 < powf mt 10 (div64 db 20)" "powf mt 10 (div64 db 20) \<le> 1" using a(1) by (auto simp: decibel_ok_def)
  have "f32 (powf mt 10 (div64 db 20)) \<le> of_int 1" by (rule f32_le_of_int) (use p(2) in auto)
  moreover have "0 < f32 (powf mt 10 (div64 db 20))"
  proof -
    let ?x = "powf mt 10 (div64 db 20)"
    have "\<bar>f32 ?x - ?x\<bar> \<le> \<bar>?x\<bar> / 16777216" by (rule f32_err)
    then show ?thesis using p(1) by linarith
  qed
  ultimately show ?thesis by (simp add: dbToLin_def)
qed

lemma mul32_gain:
  assumes "0 \<le> g" "g \<le> 1" "f32 x = x"
  shows "\<bar>mul32 x g\<bar> \<le> \<bar>x\<bar>" "0 \<le> x \<Longrightarrow> 0 \<le> mul32 x g" "x \<le> 0 \<Longrightarrow> mul32 x g \<le> 0" "f32 (mul32 x g) = mul32 x g"
proof -
  have "f32 \<bar>x * g\<bar> \<le> f32 \<bar>x\<bar>" by (rule f32_mono) (simp add: abs_mult assms mult_left_le)
  then show "\<bar>mul32 x g\<bar> \<le> \<bar>x\<bar>" unfolding f32_abs mul32_def assms(3) .
  show "0 \<le> x \<Longrightarrow> 0 \<le> mul32 x g" using assms(1) by (simp add: mul32_def f32_nonneg)
  show "x \<le> 0 \<Longrightarrow> mul32 x g \<le> 0" using assms(1) by (simp add: mul32_def f32_nonpos mult_nonpos_nonneg)
qed (simp add: mul32_def)

text \<open>The settings of a limiter, as constructed.\<close>

definition cl_fixed :: "StereoCompressorLimiter \<Rightarrow> rat \<times> rat \<times> rat \<times> rat \<times> rat" where
  "cl_fixed d = (cl_compThresholdDb d, cl_compRatio d, cl_compKneeDb d, cl_compMakeupLin d, cl_limCeilingLin d)"

definition asBuilt :: "LogMath \<Rightarrow> StereoCompressorLimiter \<Rightarrow> bool" where
  "asBuilt mt d \<longleftrightarrow> cl_fixed d = (- 18, 5 / 2, 6, 1, dbToLin mt (- 1 / 2))"

lemma slope_pos: "0 \<le> sub32 1 (div32 1 (5 / 2))" and knee_points: "sub32 (- 18) (mul32 6 (1 / 2)) = - 21" "add32 (- 18) (mul32 6 (1 / 2)) = - 15" "mul32 2 6 = 12"
  by code_simp+

lemma gain_range:
  assumes "decibel_ok mt" "asBuilt mt d"
  shows "0 \<le> computeCompressorGain mt d env \<and> computeCompressorGain mt d env \<le> 1 \<and> f32 (computeCompressorGain mt d env) = computeCompressorGain mt d env"
proof -
  have d: "cl_compThresholdDb d = - 18" "cl_compRatio d = 5 / 2" "cl_compKneeDb d = 6" using assms(2) by (simp_all add: asBuilt_def cl_fixed_def)
  let ?s = "sub32 1 (div32 1 (5 / 2))" and ?e = "linToDb mt env"
  have lin: "0 \<le> dbToLin mt x \<and> dbToLin mt x \<le> 1 \<and> f32 (dbToLin mt x) = dbToLin mt x" if "x \<le> 0" for x
    using dbToLin_range[OF assms(1) that] by (simp add: dbToLin_def)
  have one: "f32 (1::rat) = 1" using f32_of_int[of 1] by simp
  have above: "- mul32 (sub32 ?e (- 18)) ?s \<le> 0" if "- 15 \<le> ?e"
    using that slope_pos by (simp add: mul32_def sub32_def f32_nonneg)
  have knee: "- div32 (mul32 (mul32 ?s x) x) 12 \<le> 0" if "0 \<le> x" for x
    using that slope_pos by (simp add: mul32_def div32_def f32_nonneg)
  have x: "0 \<le> sub32 ?e (- 21)" if "\<not> ?e \<le> - 21" using that by (simp add: sub32_def f32_nonneg)
  show ?thesis unfolding computeCompressorGain_def d knee_points Let_def
    using lin[OF above] lin[OF knee[OF x]] one by auto
qed

text \<open>A pair scaled by a common gain of each stage, then clipped.\<close>

definition scaled :: "rat \<Rightarrow> rat \<Rightarrow> rat \<Rightarrow> rat" where
  "scaled g h x = clampf32 (mul32 (mul32 x g) h) (- 1) 1"

lemma scaled_quieter:
  assumes "0 \<le> g" "g \<le> 1" "0 \<le> h" "h \<le> 1" "f32 x = x"
  shows "\<bar>scaled g h x\<bar> \<le> min 1 \<bar>x\<bar>" "0 \<le> scaled g h x * x"
proof -
  note 1 = mul32_gain[OF assms(1,2,5)] and 2 = mul32_gain[OF assms(3,4) mul32_gain(4)[OF assms(1,2,5)]]
  have b: "\<bar>mul32 (mul32 x g) h\<bar> \<le> \<bar>x\<bar>" using 1(1) 2(1) by linarith
  have s: "0 \<le> x \<Longrightarrow> 0 \<le> mul32 (mul32 x g) h" "x \<le> 0 \<Longrightarrow> mul32 (mul32 x g) h \<le> 0" using 1(2,3) 2(2,3) by auto
  show "\<bar>scaled g h x\<bar> \<le> min 1 \<bar>x\<bar>" using b by (auto simp: scaled_def clampf32_def abs_if split: if_splits)
  show "0 \<le> scaled g h x * x" using s by (cases "0 \<le> x") (auto simp: scaled_def clampf32_def mult_nonpos_nonpos)
qed

lemma limStep_scaled:
  assumes "0 < cl_limCeilingLin d" "f32 l = l" "f32 r = r"
  obtains h where "limStep d l r = (fst (limStep d l r), mul32 l h, mul32 r h)" "0 \<le> h" "h \<le> 1" "cl_fixed (fst (limStep d l r)) = cl_fixed d"
proof -
  define env where "env = smooth (cl_limAttackCoeff d) (cl_limReleaseCoeff d) (maxf32 (absf32 l) (absf32 r)) (cl_limEnvelope d)"
  have ls: "limStep d l r = (d \<lparr> cl_limEnvelope := env \<rparr>, if env > cl_limCeilingLin d then let g = div32 (cl_limCeilingLin d) env in (mul32 l g, mul32 r g) else (l, r))"
    by (simp add: limStep_def env_def Let_def)
  show thesis
  proof (cases "env > cl_limCeilingLin d")
    case True
    have "div32 (cl_limCeilingLin d) env \<le> of_int 1" unfolding div32_def by (rule f32_le_of_int) (use True assms(1) in auto)
    moreover have "0 \<le> div32 (cl_limCeilingLin d) env" using True assms(1) by (simp add: div32_def f32_nonneg)
    ultimately show thesis using that[of "div32 (cl_limCeilingLin d) env"] True by (simp add: ls cl_fixed_def Let_def)
  next
    case False
    then show thesis using that[of 1] assms(2,3) by (simp add: ls cl_fixed_def mul32_def)
  qed
qed

lemma dyn_pair:
  assumes "decibel_ok mt" "asBuilt mt d" "f32 l = l" "f32 r = r"
  obtains d' g h where "dyn_Process mt d (l # r # buf) = (fst (dyn_Process mt d' buf), scaled g h l # scaled g h r # snd (dyn_Process mt d' buf))"
    "0 \<le> g" "g \<le> 1" "0 \<le> h" "h \<le> 1" "asBuilt mt d'"
proof -
  obtain d1 g where c: "compStep mt d l r = (d1, g)" by fastforce
  have k: "0 < dbToLin mt (- 1 / 2)" using dbToLin_range[OF assms(1), of "- 1 / 2"] by simp
  have d1: "cl_fixed d1 = cl_fixed d" using c by (auto simp: compStep_def Let_def cl_fixed_def)
  have mk: "cl_compMakeupLin d = 1" using assms(2) by (simp add: asBuilt_def cl_fixed_def)
  have "\<exists>env. g = mul32 (computeCompressorGain mt d env) 1" using c mk by (auto simp: compStep_def Let_def)
  then have g: "0 \<le> g" "g \<le> 1" using gain_range[OF assms(1,2)] by (auto simp: mul32_def)
  have "0 < cl_limCeilingLin d1" using d1 assms(2) k by (simp add: asBuilt_def cl_fixed_def)
  from limStep_scaled[OF this mul32_gain(4)[OF g assms(3)] mul32_gain(4)[OF g assms(4)]] obtain h d2
    where h: "limStep d1 (mul32 l g) (mul32 r g) = (d2, mul32 (mul32 l g) h, mul32 (mul32 r g) h)" "0 \<le> h" "h \<le> 1" "cl_fixed d2 = cl_fixed d1"
    by metis
  have "asBuilt mt d2" using h(4) d1 assms(2) by (simp add: asBuilt_def)
  then show thesis using that[of d2 g h] c h g by (simp add: scaled_def split: prod.splits)
qed

lemma dyn_scaled:
  assumes "decibel_ok mt" "asBuilt mt d" "\<forall>x\<in>set buf. f32 x = x"
  shows "asBuilt mt (fst (dyn_Process mt d buf)) \<and> length (snd (dyn_Process mt d buf)) = length buf \<and>
    (\<forall>i. 2 * i + 1 < length buf \<longrightarrow> (\<exists>g h. 0 \<le> g \<and> g \<le> 1 \<and> 0 \<le> h \<and> h \<le> 1 \<and>
      snd (dyn_Process mt d buf) ! (2 * i) = scaled g h (buf ! (2 * i)) \<and> snd (dyn_Process mt d buf) ! (2 * i + 1) = scaled g h (buf ! (2 * i + 1))))"
  using assms(2,3)
proof (induction buf arbitrary: d rule: induct_list012)
  case (3 l r buf)
  obtain d' g h where p: "dyn_Process mt d (l # r # buf) = (fst (dyn_Process mt d' buf), scaled g h l # scaled g h r # snd (dyn_Process mt d' buf))"
    "0 \<le> g" "g \<le> 1" "0 \<le> h" "h \<le> 1" "asBuilt mt d'" by (rule dyn_pair[OF assms(1) "3.prems"(1), of l r buf]) (use "3.prems"(2) in auto)
  note ih = "3.IH"(1)[OF p(6)]
  have "\<exists>g h. 0 \<le> g \<and> g \<le> 1 \<and> 0 \<le> h \<and> h \<le> 1 \<and> snd (dyn_Process mt d (l # r # buf)) ! (2 * i) = scaled g h ((l # r # buf) ! (2 * i)) \<and>
      snd (dyn_Process mt d (l # r # buf)) ! (2 * i + 1) = scaled g h ((l # r # buf) ! (2 * i + 1))" if "2 * i + 1 < length (l # r # buf)" for i
  proof (cases i)
    case 0
    then show ?thesis using p(2-5) by (auto simp: p(1) simp del: dyn_Process.simps)
  next
    case (Suc j)
    then show ?thesis using ih that "3.prems"(2) by (simp add: p(1) del: dyn_Process.simps)
  qed
  then show ?case using ih "3.prems"(2) by (simp add: p(1) del: dyn_Process.simps)
qed simp_all

section \<open>Float to bytes and back\<close>

lemma leWord_leBytes: "leWord (leBytes w) = w"
proof (rule bit_word_eqI)
  fix n assume n: "n < LENGTH(32)"
  consider "n < 8" | "8 \<le> n" "n < 16" "8 + (n - 8) = n" | "16 \<le> n" "n < 24" "16 + (n - 16) = n" | "24 \<le> n" "n < 32" "24 + (n - 24) = n" using n by fastforce
  then show "bit (leWord (leBytes w)) n = bit w n" by cases (auto simp: leBytes_def bit_simps)
qed

text \<open>The values single precision represents: multiples of \<open>2 ^ - 149\<close> below the normal range, 24-bit numbers in it.\<close>

definition isFloat32 :: "rat \<Rightarrow> bool" where
  "isFloat32 x \<longleftrightarrow> \<bar>x\<bar> < 2 powi 128 \<and> (if \<bar>x\<bar> < 2 powi (- 126) then (\<exists>m::int. \<bar>x\<bar> = of_int m * 2 powi (- 149)) else f32 x = x)"

text \<open>The three fields of a pattern.\<close>

lemma frombits_fields:
  assumes "0 \<le> e" "e < 255" "0 \<le> m" "m < 2 ^ 23" "s = 0 \<or> s = 1"
  shows "Float32frombits (word_of_int (s * 2 ^ 31 + e * 2 ^ 23 + m)) =
    (let v = (if e = 0 then of_int m * 2 powi (- 149) else of_int (2 ^ 23 + m) * 2 powi (e - 150)) in if s = 0 then v else - v)"
    "finiteBits (word_of_int (s * 2 ^ 31 + e * 2 ^ 23 + m))"
proof -
  let ?k = "s * 2 ^ 31 + e * 2 ^ 23 + m"
  have k: "0 \<le> ?k" "?k < 2 ^ 32" using assms by auto
  have u: "uint (word_of_int ?k :: 32 word) = ?k" unfolding uint_word_of_int using k by (intro mod_pos_pos_trivial) simp_all
  have k': "?k = (s * 2 ^ 8 + e) * 2 ^ 23 + m" by simp
  have a: "?k div 2 ^ 31 = s" "?k div 2 ^ 23 = s * 2 ^ 8 + e" using assms by auto
  have a3: "?k mod 2 ^ 23 = m" unfolding k' mod_mult_self3 using assms(3,4) by simp
  have b: "(?k div 2 ^ 23) mod 2 ^ 8 = e" using a(2) assms(1,2,5) by auto
  show "Float32frombits (word_of_int ?k) = (let v = (if e = 0 then of_int m * 2 powi (- 149) else of_int (2 ^ 23 + m) * 2 powi (e - 150)) in if s = 0 then v else - v)"
    unfolding Float32frombits_def u a(1) a3 b by (simp add: Let_def)
  show "finiteBits (word_of_int ?k)" unfolding finiteBits_def u b using assms(2) by simp
qed

lemma pow_shift: "(2::rat) powi a * 2 powi b = 2 powi (a + b)"
  by (simp add: power_int_add)

lemma scaled_less: "of_int m * (2::rat) powi a < 2 powi b \<Longrightarrow> a \<le> b \<Longrightarrow> m < 2 ^ nat (b - a)"
proof -
  assume h: "of_int m * (2::rat) powi a < 2 powi b" "a \<le> b"
  have "(2::rat) powi b = 2 powi (b - a) * 2 powi a" by (simp add: pow_shift)
  then have "(of_int m :: rat) < 2 powi (b - a)" using h(1) by simp
  then have "(of_int m :: rat) < of_int (2 ^ nat (b - a))" using h(2) by (simp add: power_int_def)
  then show ?thesis by (simp only: of_int_less_iff)
qed

lemma subnormal_bits:
  assumes "\<bar>x\<bar> < 2 powi (- 126)" "\<bar>x\<bar> = of_int m * 2 powi (- 149)"
  shows "Float32frombits (Float32bits x) = x \<and> finiteBits (Float32bits x)"
proof -
  have m: "0 \<le> m" using assms(2) by (metis abs_ge_zero of_int_0_le_iff zero_le_mult_iff zero_less_power_int zero_less_numeral not_less)
  have "m < 2 ^ nat (- 126 - (- 149))" by (rule scaled_less) (use assms in simp_all)
  then have m23: "m < 2 ^ 23" by simp
  let ?s = "if x < 0 then 1 else 0 :: int"
  have "\<bar>x\<bar> * 2 powi 149 = of_int m" using assms(2) by (simp add: mult.assoc pow_shift)
  then have b: "Float32bits x = word_of_int (?s * 2 ^ 31 + 0 * 2 ^ 23 + m)" using assms(1) by (simp add: Float32bits_def Let_def)
  show ?thesis unfolding b using frombits_fields[of 0 m ?s] m m23 assms(2) by (auto simp: abs_if split: if_splits)
qed

lemma normal_bits:
  assumes "\<bar>x\<bar> < 2 powi 128" "\<not> \<bar>x\<bar> < 2 powi (- 126)" "f32 x = x"
  shows "Float32frombits (Float32bits x) = x \<and> finiteBits (Float32bits x)"
proof -
  let ?a = "\<bar>x\<bar>" and ?k = "flog2 \<bar>x\<bar>"
  have pos: "0 < ?a" using assms(2) by (metis not_less order_less_le_trans zero_less_numeral zero_less_power_int)
  note k = flog2_bounds[OF pos]
  have k1: "- 126 \<le> ?k"
  proof (rule ccontr)
    assume "\<not> - 126 \<le> ?k"
    then have "(2::rat) powi (?k + 1) \<le> 2 powi (- 126)" by (intro power_int_increasing) auto
    then show False using k(2) assms(2) by linarith
  qed
  have k2: "?k \<le> 127"
  proof (rule ccontr)
    assume "\<not> ?k \<le> 127"
    then have "(2::rat) powi 128 \<le> 2 powi ?k" by (intro power_int_increasing) auto
    then show False using k(1) assms(1) by linarith
  qed
  let ?u = "2 powi (?k - 23) :: rat"
  have "f32 ?a = ?a" using assms(3) by (simp add: f32_abs)
  then have a: "?a = of_int (rhe (?a / ?u)) * ?u" using pos unfolding f32_def rnd_def by (simp add: Let_def)
  define j where "j = rhe (?a / ?u)"
  have aj: "?a = of_int j * ?u" using a by (simp add: j_def)
  have "j < 2 ^ nat (?k + 1 - (?k - 23))" by (rule scaled_less) (use k(2) aj in simp_all)
  then have j2: "j < 2 ^ 24" by simp
  have "(2::rat) powi ?k = 2 ^ 23 * ?u" using pow_shift[of 23 "?k - 23"] by simp
  then have "(of_int (2 ^ 23) :: rat) * ?u \<le> of_int j * ?u" using k(1) aj by simp
  then have j1: "2 ^ 23 \<le> j" using mult_le_cancel_right_pos[of ?u "of_int (2 ^ 23)" "of_int j"] by (simp only: of_int_le_iff) simp
  let ?s = "if x < 0 then 1 else 0 :: int"
  have "?a / ?u = of_int j" using aj by (metis nonzero_mult_div_cancel_right power_int_eq_0_iff zero_neq_numeral)
  then have b: "Float32bits x = word_of_int (?s * 2 ^ 31 + (?k + 127) * 2 ^ 23 + (j - 2 ^ 23))" using assms(2) by (simp add: Float32bits_def Let_def)
  have v: "of_int (2 ^ 23 + (j - 2 ^ 23)) * (2::rat) powi (?k + 127 - 150) = ?a" using aj by simp
  show ?thesis unfolding b using frombits_fields[of "?k + 127" "j - 2 ^ 23" ?s] k1 k2 j1 j2 v by (auto simp: Let_def split: if_splits)
qed

lemma Float32_roundtrip: "isFloat32 x \<Longrightarrow> Float32frombits (Float32bits x) = x \<and> finiteBits (Float32bits x)"
  using subnormal_bits[of x] normal_bits[of x] unfolding isFloat32_def by (metis (full_types))

lemma chunk_concat:
  assumes "i < length xs" "\<And>x. length (f x) = 4"
  shows "Lasa_Prelude.slice (concat (map f xs)) (i * 4) (i * 4 + 4) = f (xs ! i)"
  using assms(1)
proof (induction xs arbitrary: i)
  case (Cons x xs)
  show ?case
  proof (cases i)
    case 0
    then show ?thesis using assms(2) by (simp add: Lasa_Prelude.slice_def)
  next
    case (Suc j)
    then show ?thesis using Cons assms(2) by (simp add: Lasa_Prelude.slice_def add.commute)
  qed
qed simp

lemma length_leBytes [simp]: "length (leBytes w) = 4"
  by (simp add: leBytes_def)

lemma length_encoded [simp]: "length (concat (map (leBytes \<circ> Float32bits) xs)) = 4 * length xs"
  by (induction xs) auto

lemma wordAt_encoded: "i < length xs \<Longrightarrow> wordAt (concat (map (leBytes \<circ> Float32bits) xs)) i = Float32bits (xs ! i)"
  unfolding wordAt_def by (subst chunk_concat) (simp_all add: leWord_leBytes)

lemma Encodef32_frame:
  assumes "xs \<noteq> []" "\<forall>x\<in>set xs. isFloat32 x"
  obtains bs where "Encodef32 xs = Some bs" "length bs = 4 * length xs" "Decodef32 bs = Some xs"
    "\<forall>i<length xs. finiteBits (wordAt bs i) \<and> Float32frombits (wordAt bs i) = xs ! i"
proof -
  define bs where "bs = concat (map (leBytes \<circ> Float32bits) xs)"
  have v: "finiteBits (wordAt bs i) \<and> Float32frombits (wordAt bs i) = xs ! i" if "i < length xs" for i
    using Float32_roundtrip assms(2) that by (simp add: wordAt_encoded bs_def)
  have n: "length bs = 4 * length xs" by (simp add: bs_def)
  have "map (\<lambda>i. Float32frombits (wordAt bs i)) [0..<length xs] = xs" by (rule nth_equalityI) (use v in simp_all)
  moreover have "bs \<noteq> []" using n assms(1) by auto
  ultimately have "Decodef32 bs = Some xs" by (simp add: Decodef32_def n)
  moreover have "Encodef32 xs = Some bs" using assms(1) by (simp add: Encodef32_def bs_def)
  ultimately show thesis using that v n by blast
qed

lemma length_interleave: "length a = length b \<Longrightarrow> length (InterleaveCBuffers a b) = 2 * length a"
  by (induction a b rule: list_induct2) (simp_all add: InterleaveCBuffers_def)

section \<open>Concrete parameters\<close>

definition demo_logmath :: LogMath where
  "demo_logmath = Math.extend demo_math \<lparr> expf = (\<lambda>x. 1 / 2), log10f = (\<lambda>x. 0) \<rparr> \<lparr> powf := (\<lambda>x y. 1 / 2) \<rparr>"

lemma demo_decibel_ok: "decibel_ok demo_logmath"
  by (simp add: decibel_ok_def demo_logmath_def Math.defs demo_math_def)

section \<open>Properties\<close>

text \<open>C37. The sink dynamics only ever attenuates. Whatever the limiter has processed before, a buffer keeps its length,
  and every sample of a pair is scaled by the same two gains, compressor and limiter, each between 0
  and 1, and clipped: the output is never louder than the input, never beyond full scale, and never flips a sign, so the
  balance between the ears is kept. All of it in single precision, rounding included.\<close>

theorem dynamics_only_attenuates:
  assumes "decibel_ok mt" "d = foldl (\<lambda>d b. fst (dyn_Process mt d b)) (NewStereoCompressorLimiter mt sampleRate) past"
    "\<forall>b\<in>set (buf # past). \<forall>x\<in>set b. f32 x = x"
  shows "length (snd (dyn_Process mt d buf)) = length buf \<and>
    (\<forall>i. 2 * i + 1 < length buf \<longrightarrow> (\<exists>g h. 0 \<le> g \<and> g \<le> 1 \<and> 0 \<le> h \<and> h \<le> 1 \<and>
       snd (dyn_Process mt d buf) ! (2 * i) = scaled g h (buf ! (2 * i)) \<and> snd (dyn_Process mt d buf) ! (2 * i + 1) = scaled g h (buf ! (2 * i + 1)))) \<and>
    (\<forall>i < 2 * (length buf div 2). \<bar>snd (dyn_Process mt d buf) ! i\<bar> \<le> min 1 \<bar>buf ! i\<bar> \<and> 0 \<le> snd (dyn_Process mt d buf) ! i * buf ! i)"
proof -
  have built: "asBuilt mt (foldl (\<lambda>d b. fst (dyn_Process mt d b)) d0 bs)" if "asBuilt mt d0" "\<forall>b\<in>set bs. \<forall>x\<in>set b. f32 x = x" for d0 bs
    using that
  proof (induction bs arbitrary: d0)
    case (Cons b bs)
    then have "asBuilt mt (fst (dyn_Process mt d0 b))" using dyn_scaled[OF assms(1) Cons.prems(1), of b] by simp
    then show ?case using Cons.IH Cons.prems(2) by simp
  qed simp
  have "asBuilt mt (NewStereoCompressorLimiter mt sampleRate)" by (simp add: asBuilt_def cl_fixed_def NewStereoCompressorLimiter_def)
  then have d: "asBuilt mt d" using built[of "NewStereoCompressorLimiter mt sampleRate" past] assms(2,3) by simp
  have buf: "\<forall>x\<in>set buf. f32 x = x" using assms(3) by simp
  note s = dyn_scaled[OF assms(1) d buf]
  have "\<bar>snd (dyn_Process mt d buf) ! i\<bar> \<le> min 1 \<bar>buf ! i\<bar> \<and> 0 \<le> snd (dyn_Process mt d buf) ! i * buf ! i" if i: "i < 2 * (length buf div 2)" for i
  proof -
    have p: "2 * (i div 2) + 1 < length buf" "i = 2 * (i div 2) \<or> i = 2 * (i div 2) + 1" using i by presburger+
    from s p(1) obtain g h where g: "0 \<le> g" "g \<le> 1" "0 \<le> h" "h \<le> 1" "snd (dyn_Process mt d buf) ! (2 * (i div 2)) = scaled g h (buf ! (2 * (i div 2)))"
      "snd (dyn_Process mt d buf) ! (2 * (i div 2) + 1) = scaled g h (buf ! (2 * (i div 2) + 1))" by blast
    have "snd (dyn_Process mt d buf) ! i = scaled g h (buf ! i)" using p(2) g(5,6) by metis
    moreover have "f32 (buf ! i) = buf ! i" using buf i by simp
    ultimately show ?thesis using scaled_quieter[OF g(1-4), of "buf ! i"] by simp
  qed
  then show ?thesis using s by blast
qed

theorem dynamics_only_attenuates_witness:
  "\<bar>snd (dyn_Process demo_logmath (NewStereoCompressorLimiter demo_logmath 48000) [3, - 1 / 2]) ! 0\<bar> \<le> 1"
proof -
  have f: "f32 (3::rat) = 3" "f32 (- 1 / 2 :: rat) = - 1 / 2" by code_simp+
  have "\<bar>snd (dyn_Process demo_logmath (NewStereoCompressorLimiter demo_logmath 48000) [3, - 1 / 2]) ! 0\<bar> \<le> min 1 \<bar>[3, - 1 / 2] ! 0\<bar>"
    using dynamics_only_attenuates[OF demo_decibel_ok, of _ 48000 "[]" "[3, - 1 / 2]"] f by (auto simp del: dyn_Process.simps)
  then show ?thesis by (simp del: dyn_Process.simps)
qed

text \<open>C38. The codec-free path is lossless. Encoding any non-empty block of single-precision samples to bytes gives four bytes for
  every sample, and reading them back gives the samples. So does the raw ingest of a source, without a decode error, for a block no longer
  than the source's scratch of one mono frame (240 samples). Outside these conditions the path fails: encoding an empty block panics, and a source refuses a longer
  block, such as the interleaved stereo frame of 480 samples a raw sink writes: it counts a decode error and plays silence.\<close>

theorem raw_roundtrip:
  assumes "\<forall>x\<in>set xs. isFloat32 x" "\<forall>w. finiteBits w \<longrightarrow> frombits32 mt w = Float32frombits w" "length (src_rawScratch s) = FrameSize"
  shows "if xs = [] then Encodef32 xs = None else \<exists>bs. Encodef32 xs = Some bs \<and> length bs = 4 * length xs \<and> Decodef32 bs = Some xs \<and>
    (if length xs \<le> 240 then fst (decodeRaw mt s bs) = xs \<and> src_decodeErrors (snd (decodeRaw mt s bs)) = src_decodeErrors s
     else fst (decodeRaw mt s bs) = replicate 240 0 \<and> src_decodeErrors (snd (decodeRaw mt s bs)) = src_decodeErrors s + 1)"
proof (cases "xs = []")
  case False
  obtain bs where bs: "Encodef32 xs = Some bs" "length bs = 4 * length xs" "Decodef32 bs = Some xs"
    "\<forall>i<length xs. finiteBits (wordAt bs i) \<and> Float32frombits (wordAt bs i) = xs ! i" by (rule Encodef32_frame[OF False assms(1)])
  have "map (\<lambda>i. frombits32 mt (leWord (Lasa_Prelude.slice bs (4 * i) (4 * i + 4)))) [0..<length xs] = xs"
    by (rule nth_equalityI) (use bs(4) assms(2) in \<open>auto simp: wordAt_def mult.commute\<close>)
  then show ?thesis using bs False assms(3) by (auto simp: decodeRaw_def Let_def FrameSize_def clear_slice_def)
qed (simp add: Encodef32_def)

theorem raw_roundtrip_witness:
  "\<exists>bs (s :: unit Source). length (src_rawScratch s) = 240 \<and> Encodef32 [1 / 2, - 3] = Some bs \<and> length bs = 8 \<and> Decodef32 bs = Some [1 / 2, - 3] \<and>
     fst (decodeRaw (demo_math \<lparr> frombits32 := Float32frombits \<rparr>) s bs) = [1 / 2, - 3]"
proof -
  have "\<bar>1 / 2 :: rat\<bar> < 2 powi 128" "\<not> \<bar>1 / 2 :: rat\<bar> < 2 powi (- 126)" "f32 (1 / 2) = 1 / 2" "\<bar>- 3 :: rat\<bar> < 2 powi 128" "\<not> \<bar>- 3 :: rat\<bar> < 2 powi (- 126)" "f32 (- 3) = - 3"
    by code_simp+
  then have a: "isFloat32 (1 / 2)" "isFloat32 (- 3)" unfolding isFloat32_def by argo+
  show ?thesis using raw_roundtrip[of "[1 / 2, - 3]" "demo_math \<lparr> frombits32 := Float32frombits \<rparr>" "demo_source undefined \<lparr> src_rawScratch := replicate 240 0 \<rparr>"] a
    by (auto simp: FrameSize_def intro!: exI[of _ "demo_source undefined \<lparr> src_rawScratch := replicate 240 0 \<rparr>"])
qed

end
