(* ===== verification/Backend.thy ===== *)
theory Backend
  imports Render_Run "HOL-Library.List_Lexorder" "HOL-Library.Char_ord"
begin

text \<open>
  The server's composition layer: the profile consumer \<^verbatim>\<open>src/server/wiring.go\<close> and the lifecycle funnel
  \<^verbatim>\<open>src/server/backend.go\<close>. The funnel keeps the map of connected entities, adds and removes their sources and
  sinks at the mixer, and fans incoming poses out to the source, the sinks and the presence collector; the
  wiring turns applied state operations into parameter changes, and replays what it derived when an entity joins.

  Records are heap objects, since sessions and lockstep sets keep pointers to them: \<open>bk_recs\<close> and \<open>bk_grps\<close> hold
  them by number. Parameters: parsing a state operation (\<^verbatim>\<open>base.ParseOp\<close>), the profile's defaults, and what a presence slot
  reports after the updates made to it. The presence slot is the list of these updates. Depacketizers call
  \<open>rec_Frame\<close>, \<open>rec_Lost\<close> and \<open>group_Frame\<close>; they are not modelled, nor is logging. Calls run one after the
  other, as the locks of backend, wiring and mixer order them. \<open>None\<close> is a panic.
\<close>

section \<open>The profile consumer\<close>

datatype renderField = FieldGain | FieldAttenuation | FieldSize | FieldDirectivity | FieldUnknown

datatype stateEvent =
    EntityRender string renderField rat
  | ChannelMembership string string bool bool
  | EntityMuted string bool
  | ChannelMuted string bool
  | ChannelGain string rat
  | ChannelAttenuation string "rat option"
  | PersonalMute string string bool
  | PersonalSolo string string bool
  | Dof string int
  | OtherEvent

record Profile =
  pf_DefaultGain :: rat
  pf_DefaultAttenuation :: rat
  pf_DefaultSize :: rat
  pf_DefaultDirectivity :: rat
  pf_ParseOp :: "string \<Rightarrow> byte list \<Rightarrow> bool \<Rightarrow> stateEvent option"

record derivedEntity =
  de_gain :: rat
  de_attenuation :: rat
  de_size :: rat
  de_directivity :: rat
  de_heardIn :: "string set"
  de_hears :: "string set"

definition newDerivedEntity :: "Profile \<Rightarrow> derivedEntity" where
  "newDerivedEntity pf = \<lparr> de_gain = pf_DefaultGain pf, de_attenuation = pf_DefaultAttenuation pf, de_size = pf_DefaultSize pf,
     de_directivity = pf_DefaultDirectivity pf, de_heardIn = {}, de_hears = {} \<rparr>"

definition sortedKeys :: "string set \<Rightarrow> string list" where
  "sortedKeys m = sorted_list_of_set m"

definition renderParams :: "derivedEntity \<Rightarrow> RenderParams" where
  "renderParams d = \<lparr> rp_Gain = de_gain d, rp_Attenuation = de_attenuation d, rp_Size = de_size d, rp_Directivity = de_directivity d,
     rp_SourceChannels = sortedKeys (de_heardIn d), rp_SinkChannels = sortedKeys (de_hears d) \<rparr>"

record stateWiring =
  sw_ents :: "string \<rightharpoonup> derivedEntity"
  sw_muted :: "string set"
  sw_channels :: "string \<rightharpoonup> ChannelParams"
  sw_invalid :: nat

definition newStateWiring :: stateWiring where
  "newStateWiring = \<lparr> sw_ents = Map.empty, sw_muted = {}, sw_channels = Map.empty, sw_invalid = 0 \<rparr>"

text \<open>A bare existence marker \<open>lasa.entity.{id}\<close>.\<close>

definition markerEntity :: "string \<Rightarrow> string option" where
  "markerEntity key = (let p = ''lasa.entity.'' in
     if take (length p) key \<noteq> p then None
     else let eid = drop (length p) key in if eid = [] \<or> CHR ''.'' \<in> set eid then None else Some eid)"

definition entityUpdate :: "string \<Rightarrow> (derivedEntity \<Rightarrow> derivedEntity) \<Rightarrow> stateWiring \<times> 'd Mixer \<Rightarrow> stateWiring \<times> 'd Mixer" where
  "entityUpdate eid fn = (\<lambda>(w, m). case sw_ents w eid of
     None \<Rightarrow> (w, m)
   | Some d \<Rightarrow> (w \<lparr> sw_ents := (sw_ents w)(eid \<mapsto> fn d) \<rparr>, fst (SetRenderParams m eid (renderParams (fn d)))))"

definition channelUpdate :: "string \<Rightarrow> (ChannelParams \<Rightarrow> ChannelParams) \<Rightarrow> stateWiring \<times> 'd Mixer \<Rightarrow> stateWiring \<times> 'd Mixer" where
  "channelUpdate name fn = (\<lambda>(w, m).
     let p = fn (case sw_channels w name of Some p \<Rightarrow> p | None \<Rightarrow> DefaultChannelParams) in
     (w \<lparr> sw_channels := (sw_channels w)(name \<mapsto> p) \<rparr>, SetChannel m name p))"

definition setField :: "renderField \<Rightarrow> rat \<Rightarrow> derivedEntity \<Rightarrow> derivedEntity" where
  "setField f v d = (case f of
     FieldGain \<Rightarrow> d \<lparr> de_gain := v \<rparr>
   | FieldAttenuation \<Rightarrow> d \<lparr> de_attenuation := v \<rparr>
   | FieldSize \<Rightarrow> d \<lparr> de_size := v \<rparr>
   | FieldDirectivity \<Rightarrow> d \<lparr> de_directivity := v \<rparr>
   | FieldUnknown \<Rightarrow> d)"

definition setMember :: "string \<Rightarrow> bool \<Rightarrow> bool \<Rightarrow> derivedEntity \<Rightarrow> derivedEntity" where
  "setMember ch hears member d =
    (let upd = (\<lambda>s. if member then insert ch s else s - {ch}) in
     if hears then d \<lparr> de_hears := upd (de_hears d) \<rparr> else d \<lparr> de_heardIn := upd (de_heardIn d) \<rparr>)"

text \<open>\<^verbatim>\<open>entityJoined\<close>, the flush at a join.\<close>

definition flushEntity :: "string \<Rightarrow> stateWiring \<times> 'd Mixer \<Rightarrow> stateWiring \<times> 'd Mixer" where
  "flushEntity eid = (\<lambda>(w, m).
     let m = (case sw_ents w eid of None \<Rightarrow> m | Some d \<Rightarrow> fst (SetRenderParams m eid (renderParams d)));
         m = (if eid \<in> sw_muted w then fst (SetEntityMuted m eid True) else m)
     in (w, m))"

section \<open>The funnel\<close>

record wirePose =
  wp_X :: rat
  wp_Y :: rat
  wp_Z :: rat
  wp_Yaw :: rat
  wp_Pitch :: rat
  wp_Roll :: rat

definition enginePose :: "wirePose \<Rightarrow> Pose" where
  "enginePose p = \<lparr> pose_X = wp_X p, pose_Y = wp_Y p, pose_Z = wp_Z p, pose_Yaw = wp_Yaw p, pose_Pitch = wp_Pitch p, pose_Roll = wp_Roll p \<rparr>"

record Lockstep =
  ls_Index :: int
  ls_Count :: int
  ls_Quality :: int
  ls_Redundancy :: int

record ResolvedEntity =
  rv_ID :: string
  rv_Frame :: string
  rv_Dof :: "int option"
  rv_Position :: "(rat \<times> rat \<times> rat) option"
  rv_Attitude :: "(rat \<times> rat \<times> rat) option"
  rv_Quality :: int
  rv_Redundancy :: int
  rv_Lockstep :: "Lockstep option"

definition initialPose :: "ResolvedEntity \<Rightarrow> wirePose" where
  "initialPose e = (let (x, y, z) = (case rv_Position e of Some p \<Rightarrow> p | None \<Rightarrow> (0, 0, 0));
      (a, b, c) = (case rv_Attitude e of Some p \<Rightarrow> p | None \<Rightarrow> (0, 0, 0)) in
    \<lparr> wp_X = f32 x, wp_Y = f32 y, wp_Z = f32 z, wp_Yaw = f32 a, wp_Pitch = f32 b, wp_Roll = f32 c \<rparr>)"

definition entityDof :: "ResolvedEntity \<Rightarrow> int" where
  "entityDof e = (case rv_Dof e of Some d \<Rightarrow> d | None \<Rightarrow> 6)"

definition int32 :: "int \<Rightarrow> int" where
  "int32 i = (i + 2 ^ 31) mod 2 ^ 32 - 2 ^ 31"

datatype poseSink = BinauralSink nat | AmbisonicSink nat

record entityRec =
  er_clientID :: string
  er_src :: nat
  er_slot :: "wirePose list"
  er_dof :: int
  er_home :: wirePose
  er_headFrame :: bool
  er_sinks :: "poseSink list"
  er_group :: "(nat \<times> nat) option"

record groupRec =
  gr_clientID :: string
  gr_grp :: "nat option"
  gr_recs :: "nat option list"
  gr_live :: int
  gr_chans :: "GroupChannel list"

record 'd Backend =
  bk_mixer :: "'d Mixer"
  bk_wiring :: stateWiring
  bk_sourceCodec :: SourceCodec
  bk_entities :: "string \<rightharpoonup> nat"
  bk_groups :: "string \<rightharpoonup> nat"
  bk_recs :: "nat \<rightharpoonup> entityRec"
  bk_grps :: "nat \<rightharpoonup> groupRec"
  bk_nextRec :: nat
  bk_nextGrp :: nat

definition newBackend :: "'d Mixer \<Rightarrow> SourceCodec \<Rightarrow> 'd Backend" where
  "newBackend m codec = \<lparr> bk_mixer = m, bk_wiring = newStateWiring, bk_sourceCodec = codec, bk_entities = Map.empty, bk_groups = Map.empty,
     bk_recs = Map.empty, bk_grps = Map.empty, bk_nextRec = 0, bk_nextGrp = 0 \<rparr>"

definition putRec :: "nat \<Rightarrow> entityRec \<Rightarrow> 'd Backend \<Rightarrow> 'd Backend" where
  "putRec r rec b = b \<lparr> bk_recs := (bk_recs b)(r \<mapsto> rec) \<rparr>"

subsection \<open>Poses\<close>

fun setSinkPose :: "Pose \<Rightarrow> poseSink \<Rightarrow> 'd Mixer \<Rightarrow> 'd Mixer" where
  "setSinkPose p (BinauralSink k) m = SetPose m k p"
| "setSinkPose p (AmbisonicSink k) m = SetAmbiPose m k p"

text \<open>\<^verbatim>\<open>addPoseSink\<close> seeds the sink from the slot, then puts it on the fan-out list; the receive path takes no lock, so a
  pose can be processed between the two. Likewise \<^verbatim>\<open>enforcePose\<close> updates the slot and then fans out to the list it finds.\<close>

definition seedPoseSink :: "(wirePose list \<Rightarrow> wirePose) \<Rightarrow> nat \<Rightarrow> poseSink \<Rightarrow> 'd Backend \<Rightarrow> 'd Backend" where
  "seedPoseSink slotPose r s b = (case bk_recs b r of
     None \<Rightarrow> b
   | Some rec \<Rightarrow> b \<lparr> bk_mixer := setSinkPose (enginePose (slotPose (er_slot rec))) s (bk_mixer b) \<rparr>)"

definition joinPoseSinks :: "nat \<Rightarrow> poseSink \<Rightarrow> 'd Backend \<Rightarrow> 'd Backend" where
  "joinPoseSinks r s b = (case bk_recs b r of
     None \<Rightarrow> b
   | Some rec \<Rightarrow> putRec r (rec \<lparr> er_sinks := er_sinks rec @ [s] \<rparr>) b)"

definition addPoseSink :: "(wirePose list \<Rightarrow> wirePose) \<Rightarrow> nat \<Rightarrow> poseSink \<Rightarrow> 'd Backend \<Rightarrow> 'd Backend" where
  "addPoseSink slotPose r s b = joinPoseSinks r s (seedPoseSink slotPose r s b)"

lemma addPoseSink_eq:
  "addPoseSink slotPose r s b = (case bk_recs b r of
     None \<Rightarrow> b
   | Some rec \<Rightarrow> putRec r (rec \<lparr> er_sinks := er_sinks rec @ [s] \<rparr>)
       (b \<lparr> bk_mixer := setSinkPose (enginePose (slotPose (er_slot rec))) s (bk_mixer b) \<rparr>))"
  by (simp add: addPoseSink_def seedPoseSink_def joinPoseSinks_def split: option.split)

definition removePoseSink :: "nat \<Rightarrow> poseSink \<Rightarrow> 'd Backend \<Rightarrow> 'd Backend" where
  "removePoseSink r s b = (case bk_recs b r of
     None \<Rightarrow> b
   | Some rec \<Rightarrow> putRec r (rec \<lparr> er_sinks := filter (\<lambda>v. v \<noteq> s) (er_sinks rec) \<rparr>) b)"

definition enforced :: "entityRec \<Rightarrow> wirePose \<Rightarrow> wirePose option" where
  "enforced rec pose = (if er_dof rec = 0 then None
     else Some (if er_dof rec = 3 then pose \<lparr> wp_X := wp_X (er_home rec), wp_Y := wp_Y (er_home rec), wp_Z := wp_Z (er_home rec) \<rparr> else pose))"

definition storePose :: "nat \<Rightarrow> wirePose \<Rightarrow> 'd Backend \<Rightarrow> wirePose option \<times> 'd Backend" where
  "storePose r pose b = (case bk_recs b r of
     None \<Rightarrow> (None, b)
   | Some rec \<Rightarrow> (case enforced rec pose of
       None \<Rightarrow> (None, b)
     | Some wp \<Rightarrow> (Some wp, putRec r (rec \<lparr> er_slot := er_slot rec @ [wp] \<rparr>) b)))"

definition fanPose :: "nat \<Rightarrow> Pose \<Rightarrow> 'd Backend \<Rightarrow> 'd Backend" where
  "fanPose r p b = (case bk_recs b r of
     None \<Rightarrow> b
   | Some rec \<Rightarrow> b \<lparr> bk_mixer := fold (setSinkPose p) (er_sinks rec) (bk_mixer b) \<rparr>)"

definition enforcePose :: "nat \<Rightarrow> wirePose \<Rightarrow> 'd Backend \<Rightarrow> Pose option \<times> 'd Backend" where
  "enforcePose r pose b = (case storePose r pose b of
     (None, b) \<Rightarrow> (None, b)
   | (Some wp, b) \<Rightarrow> (Some (enginePose wp), fanPose r (enginePose wp) b))"

lemma enforcePose_eq:
  "enforcePose r pose b = (case bk_recs b r of
     None \<Rightarrow> (None, b)
   | Some rec \<Rightarrow> (case enforced rec pose of
       None \<Rightarrow> (None, b)
     | Some wp \<Rightarrow> (Some (enginePose wp), putRec r (rec \<lparr> er_slot := er_slot rec @ [wp] \<rparr>)
         (b \<lparr> bk_mixer := fold (setSinkPose (enginePose wp)) (er_sinks rec) (bk_mixer b) \<rparr>))))"
  by (simp add: enforcePose_def storePose_def fanPose_def putRec_def split: option.split)

subsection \<open>Ingress\<close>

definition onSource :: "nat \<Rightarrow> ('d Source \<Rightarrow> 'd Source option) \<Rightarrow> 'd Backend \<Rightarrow> 'd Backend option" where
  "onSource h f b = do { s \<leftarrow> mx_sources (bk_mixer b) h; s' \<leftarrow> f s;
     Some (b \<lparr> bk_mixer := (bk_mixer b) \<lparr> mx_sources := (mx_sources (bk_mixer b))(h \<mapsto> s') \<rparr> \<rparr>) }"

definition rec_Frame :: "'d Codec \<Rightarrow> nat \<Rightarrow> nat \<Rightarrow> wirePose option \<Rightarrow> byte list \<Rightarrow> 'd Backend \<Rightarrow> 'd Backend option" where
  "rec_Frame cd r seq pose audio b = do { rec \<leftarrow> bk_recs b r;
     let (ep, b) = (case pose of None \<Rightarrow> (None, b) | Some p \<Rightarrow> enforcePose r p b);
     onSource (er_src rec) (\<lambda>s. WriteOpus cd (ev_math (mx_env (bk_mixer b))) s seq ep audio) b }"

definition rec_Lost :: "'d Codec \<Rightarrow> nat \<Rightarrow> nat \<Rightarrow> bool \<Rightarrow> 'd Backend \<Rightarrow> 'd Backend option" where
  "rec_Lost cd frameSamples r audioLikely b =
    (if audioLikely then do { rec \<leftarrow> bk_recs b r; onSource (er_src rec) (\<lambda>s. Conceal cd s frameSamples) b } else Some b)"

record wireChannel =
  wc_Present :: bool
  wc_AudioLikely :: bool
  wc_Silence :: bool
  wc_Pose :: "wirePose option"
  wc_Audio :: "byte list"

definition noChannel :: GroupChannel where
  "noChannel = \<lparr> gc_Pose = None, gc_Audio = [], gc_Lost = False, gc_AudioLikely = False, gc_Silence = False \<rparr>"

text \<open>One member's channel of a released frame; a pose goes through the member's enforcement.\<close>

definition memberChannel :: "nat option \<Rightarrow> wireChannel \<Rightarrow> 'd Backend \<Rightarrow> GroupChannel \<times> 'd Backend" where
  "memberChannel r c b = (case r of
     None \<Rightarrow> (noChannel, b)
   | Some r \<Rightarrow> if \<not> wc_Present c then (noChannel \<lparr> gc_Lost := True, gc_AudioLikely := wc_AudioLikely c, gc_Silence := wc_Silence c \<rparr>, b)
      else case (case wc_Pose c of None \<Rightarrow> (None, b) | Some p \<Rightarrow> enforcePose r p b) of
        (ep, b) \<Rightarrow> (noChannel \<lparr> gc_Pose := ep, gc_Audio := wc_Audio c \<rparr>, b))"

fun fillChannels :: "nat option list \<Rightarrow> wireChannel list \<Rightarrow> GroupChannel list \<Rightarrow> 'd Backend \<Rightarrow> (GroupChannel list \<times> 'd Backend) option" where
  "fillChannels rs [] scratch b = Some (scratch, b)"
| "fillChannels (r # rs) (c # cs) (s # scratch) b =
    (case memberChannel r c b of (ec, b) \<Rightarrow> map_option (\<lambda>(ecs, b). (ec # ecs, b)) (fillChannels rs cs scratch b))"
| "fillChannels _ _ _ b = None"

definition group_Frame :: "'d Codec \<Rightarrow> nat \<Rightarrow> nat \<Rightarrow> wireChannel list \<Rightarrow> 'd Backend \<Rightarrow> 'd Backend option" where
  "group_Frame cd g seq chans b = do { gr \<leftarrow> bk_grps b g;
     (ecs, b) \<leftarrow> fillChannels (gr_recs gr) chans (gr_chans gr) b;
     h \<leftarrow> gr_grp gr;
     m \<leftarrow> group_WriteFrame cd (bk_mixer b) h seq ecs;
     Some (b \<lparr> bk_mixer := m, bk_grps := (bk_grps b)(g \<mapsto> gr \<lparr> gr_chans := ecs \<rparr>) \<rparr>) }"

subsection \<open>Joining and leaving\<close>

definition joinConfig :: "SourceCodec \<Rightarrow> string \<Rightarrow> ResolvedEntity \<Rightarrow> SourceConfig" where
  "joinConfig codec clientID e = \<lparr> sc_Group = map_option (\<lambda>l. \<lparr> gs_ID = clientID, gs_Index = ls_Index l, gs_Count = ls_Count l,
        gs_Quality = ls_Quality l, gs_Redundancy = ls_Redundancy l \<rparr>) (rv_Lockstep e),
     sc_Codec = codec, sc_InitialPose = enginePose (initialPose e), sc_InputChannels = 0, sc_JitterWriterFrame = 5 * millisecond,
     sc_JitterReaderFrame = 0, sc_Quality = rv_Quality e, sc_Redundancy = rv_Redundancy e, sc_TestTone = 0,
     sc_HeadFrame = (rv_Frame e = ''head'') \<rparr>"

text \<open>Seating a lockstep member: the record of its set, made by the first member to join.\<close>

definition ensureGroup :: "string \<Rightarrow> Lockstep \<Rightarrow> nat \<Rightarrow> 'd Backend \<Rightarrow> nat \<times> 'd Backend" where
  "ensureGroup clientID l src b = (case bk_groups b clientID of
     Some g \<Rightarrow> (g, b)
   | None \<Rightarrow> let g = bk_nextGrp b;
       gr = \<lparr> gr_clientID = clientID, gr_grp = Option.bind (mx_sources (bk_mixer b) src) (\<lambda>s. map_option fst (src_group s)),
              gr_recs = replicate (nat (ls_Count l)) None, gr_live = 0, gr_chans = replicate (nat (ls_Count l)) noChannel \<rparr>
     in (g, b \<lparr> bk_grps := (bk_grps b)(g \<mapsto> gr), bk_groups := (bk_groups b)(clientID \<mapsto> g), bk_nextGrp := g + 1 \<rparr>))"

definition seatMember :: "string \<Rightarrow> Lockstep \<Rightarrow> nat \<Rightarrow> entityRec \<Rightarrow> 'd Backend \<Rightarrow> (entityRec \<times> 'd Backend) option" where
  "seatMember clientID l r rec b = (case ensureGroup clientID l (er_src rec) b of (g, b) \<Rightarrow>
     do { gr \<leftarrow> bk_grps b g;
          if 0 \<le> ls_Index l \<and> nat (ls_Index l) < length (gr_recs gr)
          then Some (rec \<lparr> er_group := Some (g, nat (ls_Index l)) \<rparr>,
            b \<lparr> bk_grps := (bk_grps b)(g \<mapsto> gr \<lparr> gr_recs := (gr_recs gr)[nat (ls_Index l) := Some r], gr_live := gr_live gr + 1 \<rparr>) \<rparr>)
          else None })"

definition newRec :: "string \<Rightarrow> ResolvedEntity \<Rightarrow> nat \<Rightarrow> entityRec" where
  "newRec clientID e h = \<lparr> er_clientID = clientID, er_src = h, er_slot = [initialPose e], er_dof = int32 (entityDof e), er_home = initialPose e,
     er_headFrame = (rv_Frame e = ''head''), er_sinks = [], er_group = None \<rparr>"

definition flush :: "string \<Rightarrow> 'd Backend \<Rightarrow> 'd Backend" where
  "flush eid b = (case flushEntity eid (bk_wiring b, bk_mixer b) of (w, m) \<Rightarrow> b \<lparr> bk_wiring := w, bk_mixer := m \<rparr>)"

definition EntityJoined :: "'d Codec \<Rightarrow> string \<Rightarrow> ResolvedEntity \<Rightarrow> 'd Backend \<Rightarrow> ('d Backend \<times> nat outcome) option" where
  "EntityJoined cd clientID e b = (case AddSource cd (bk_mixer b) (rv_ID e) (joinConfig (bk_sourceCodec b) clientID e) of
     (m, Panic msg) \<Rightarrow> None
   | (m, Err er) \<Rightarrow> Some (b \<lparr> bk_mixer := m \<rparr>, Err er)
   | (m, Ret h) \<Rightarrow>
      let r = bk_nextRec b; b = b \<lparr> bk_mixer := m, bk_nextRec := r + 1 \<rparr> in
      do { (rec, b) \<leftarrow> (case rv_Lockstep e of None \<Rightarrow> Some (newRec clientID e h, b) | Some l \<Rightarrow> seatMember clientID l r (newRec clientID e h) b);
           let b = putRec r rec (b \<lparr> bk_entities := (bk_entities b)(rv_ID e \<mapsto> r) \<rparr>);
           Some (flush (rv_ID e) b, Ret r) })"

definition setDof :: "string \<Rightarrow> int \<Rightarrow> 'd Backend \<Rightarrow> 'd Backend" where
  "setDof eid dof b = (case Option.bind (bk_entities b eid) (\<lambda>r. map_option (\<lambda>rec. (r, rec)) (bk_recs b r)) of
     None \<Rightarrow> b
   | Some (r, rec) \<Rightarrow> putRec r (rec \<lparr> er_dof := int32 dof \<rparr>) b)"

text \<open>Unseating; the index is the one the member was seated at.\<close>

definition unseat :: "string \<Rightarrow> nat \<times> nat \<Rightarrow> 'd Backend \<Rightarrow> 'd Backend" where
  "unseat clientID gi b = (case gi of (g, i) \<Rightarrow> (case bk_grps b g of
     None \<Rightarrow> b
   | Some gr \<Rightarrow> let gr = gr \<lparr> gr_recs := (gr_recs gr)[i := None], gr_live := gr_live gr - 1 \<rparr>;
       b = b \<lparr> bk_grps := (bk_grps b)(g \<mapsto> gr) \<rparr>
     in if gr_live gr = 0 \<and> bk_groups b clientID = Some g then b \<lparr> bk_groups := (bk_groups b)(clientID := None) \<rparr> else b))"

definition removeAll :: "string \<Rightarrow> 'd Mixer \<Rightarrow> 'd Mixer" where
  "removeAll eid m = RemoveAmbiSink (RemoveAmbiSink (RemoveSink (RemoveSource m eid) eid) eid 2) eid 3"

definition EntityLeft :: "string \<Rightarrow> string \<Rightarrow> 'd Backend \<Rightarrow> 'd Backend" where
  "EntityLeft clientID eid b = (case Option.bind (bk_entities b eid) (bk_recs b) of
     None \<Rightarrow> b
   | Some rec \<Rightarrow> if er_clientID rec \<noteq> clientID then b
      else let b = b \<lparr> bk_entities := (bk_entities b)(eid := None) \<rparr>;
               b = (case er_group rec of None \<Rightarrow> b | Some gi \<Rightarrow> unseat clientID gi b)
           in b \<lparr> bk_mixer := removeAll eid (bk_mixer b) \<rparr>)"

definition entitySnapshot :: "'d Backend \<Rightarrow> string set" where
  "entitySnapshot b = dom (bk_entities b)"

subsection \<open>Sinks\<close>

datatype sinkFormat = TrackBinaural | TrackAmbi2 | TrackAmbi3 | OtherFormat string

record sinkSession =
  ss_rec :: nat
  ss_target :: poseSink
  ss_entity :: string
  ss_format :: sinkFormat

definition engineSink :: "(int \<Rightarrow> bool) \<Rightarrow> string \<Rightarrow> sinkFormat \<Rightarrow> 'd Mixer \<Rightarrow> 'd Mixer \<times> poseSink outcome" where
  "engineSink ms eid format m =
    (let wrap = (\<lambda>f (m, r). (m, case r of Ret k \<Rightarrow> Ret (f k) | Err e \<Rightarrow> Err e | Panic msg \<Rightarrow> Panic msg)) in
     case format of
       TrackBinaural \<Rightarrow> wrap BinauralSink (AddSink m eid)
     | TrackAmbi2 \<Rightarrow> wrap AmbisonicSink (AddAmbiSink ms m eid 2)
     | TrackAmbi3 \<Rightarrow> wrap AmbisonicSink (AddAmbiSink ms m eid 3)
     | OtherFormat f \<Rightarrow> (m, Err (ErrOther ''sink format not supported'')))"

definition StartSink :: "(int \<Rightarrow> bool) \<Rightarrow> (wirePose list \<Rightarrow> wirePose) \<Rightarrow> string \<Rightarrow> sinkFormat \<Rightarrow> 'd Backend \<Rightarrow> 'd Backend \<times> sinkSession outcome" where
  "StartSink ms slotPose eid format b = (case Option.bind (bk_entities b eid) (\<lambda>r. map_option (\<lambda>rec. (r, rec)) (bk_recs b r)) of
     None \<Rightarrow> (b, Err (ErrOther ''no live entity''))
   | Some (r, rec) \<Rightarrow> if er_headFrame rec then (b, Err (ErrOther ''head-frame entity is source-only''))
      else (case engineSink ms eid format (bk_mixer b) of
        (m, Panic msg) \<Rightarrow> (b \<lparr> bk_mixer := m \<rparr>, Panic msg)
      | (m, Err e) \<Rightarrow> (b \<lparr> bk_mixer := m \<rparr>, Err e)
      | (m, Ret s) \<Rightarrow> (addPoseSink slotPose r s (b \<lparr> bk_mixer := m \<rparr>), Ret \<lparr> ss_rec = r, ss_target = s, ss_entity = eid, ss_format = format \<rparr>)))"

definition Stop :: "sinkSession \<Rightarrow> 'd Backend \<Rightarrow> 'd Backend" where
  "Stop ss b = (let b = removePoseSink (ss_rec ss) (ss_target ss) b; m = bk_mixer b in
     b \<lparr> bk_mixer := (case ss_format ss of
       TrackBinaural \<Rightarrow> RemoveSink m (ss_entity ss)
     | TrackAmbi2 \<Rightarrow> RemoveAmbiSink m (ss_entity ss) 2
     | TrackAmbi3 \<Rightarrow> RemoveAmbiSink m (ss_entity ss) 3
     | OtherFormat _ \<Rightarrow> m) \<rparr>)"

subsection \<open>State operations\<close>

definition onWiring :: "(stateWiring \<times> 'd Mixer \<Rightarrow> stateWiring \<times> 'd Mixer) \<Rightarrow> 'd Backend \<Rightarrow> 'd Backend" where
  "onWiring f b = (case f (bk_wiring b, bk_mixer b) of (w, m) \<Rightarrow> b \<lparr> bk_wiring := w, bk_mixer := m \<rparr>)"

definition observeMarker :: "Profile \<Rightarrow> string \<Rightarrow> bool \<Rightarrow> stateWiring \<Rightarrow> stateWiring" where
  "observeMarker pf eid cleared w =
    (if cleared then w \<lparr> sw_ents := (sw_ents w)(eid := None) \<rparr>
     else if sw_ents w eid = None then w \<lparr> sw_ents := (sw_ents w)(eid \<mapsto> newDerivedEntity pf) \<rparr> else w)"

fun observeEvent :: "stateEvent \<Rightarrow> 'd Backend \<Rightarrow> 'd Backend" where
  "observeEvent (EntityRender eid f v) b = onWiring (entityUpdate eid (setField f v)) b"
| "observeEvent (ChannelMembership eid ch hears member) b = onWiring (entityUpdate eid (setMember ch hears member)) b"
| "observeEvent (EntityMuted eid muted) b = onWiring (\<lambda>(w, m).
     (w \<lparr> sw_muted := (if muted then insert eid (sw_muted w) else sw_muted w - {eid}) \<rparr>, fst (SetEntityMuted m eid muted))) b"
| "observeEvent (ChannelMuted ch muted) b = onWiring (channelUpdate ch (\<lambda>p. p \<lparr> cp_Muted := muted \<rparr>)) b"
| "observeEvent (ChannelGain ch g) b = onWiring (channelUpdate ch (\<lambda>p. p \<lparr> cp_Gain := g \<rparr>)) b"
| "observeEvent (ChannelAttenuation ch a) b = onWiring (channelUpdate ch (\<lambda>p. p \<lparr> cp_Attenuation := a \<rparr>)) b"
| "observeEvent (PersonalMute owner other on) b = b \<lparr> bk_mixer := SetPersonalMute (bk_mixer b) owner other on \<rparr>"
| "observeEvent (PersonalSolo owner other on) b = b \<lparr> bk_mixer := SetPersonalSolo (bk_mixer b) owner other on \<rparr>"
| "observeEvent (Dof eid dof) b = setDof eid dof b"
| "observeEvent OtherEvent b = b"

definition observe :: "Profile \<Rightarrow> string \<Rightarrow> byte list \<Rightarrow> bool \<Rightarrow> 'd Backend \<Rightarrow> 'd Backend" where
  "observe pf key v cleared b = (case markerEntity key of
     Some eid \<Rightarrow> b \<lparr> bk_wiring := observeMarker pf eid cleared (bk_wiring b) \<rparr>
   | None \<Rightarrow> (case pf_ParseOp pf key v cleared of
       None \<Rightarrow> b \<lparr> bk_wiring := (bk_wiring b) \<lparr> sw_invalid := sw_invalid (bk_wiring b) + 1 \<rparr> \<rparr>
     | Some ev \<Rightarrow> observeEvent ev b))"

end
