(* ===== verification/Backend_Safety.thy ===== *)
theory Backend_Safety
  imports Backend
begin

text \<open>
  Runs of the server's composition layer. Every call of the funnel and of the wiring is a run of the mixer
  (\<open>reach\<close>), so what holds of every mixer run holds here; and the map of connected entities has
  exactly the entities the mixer has a source for.
\<close>

section \<open>Sources in the registry\<close>

definition srcOf :: "'d Mixer \<Rightarrow> string \<Rightarrow> SourceRef option" where
  "srcOf m x = Option.bind (mx_reg m x) re_src"

lemma srcOf_reg: "mx_reg m' = mx_reg m \<Longrightarrow> srcOf m' = srcOf m"
  by (simp add: srcOf_def fun_eq_iff)

lemma enqueue_src [simp]: "srcOf (enqueue m c) = srcOf m"
  by (simp add: srcOf_def enqueue_def fun_eq_iff)

lemma release_src: "srcOf (release m x re) = (srcOf m)(x := re_src re)"
  by (auto simp: release_def srcOf_def emptyReg_def fun_eq_iff)

lemma RemoveSource_src: "srcOf (RemoveSource m x) = (srcOf m)(x := None)"
proof (cases "mx_reg m x")
  case (Some re)
  then show ?thesis by (auto simp: RemoveSource_eq release_src) (auto simp: srcOf_def fun_eq_iff)
qed (auto simp: RemoveSource_eq srcOf_def fun_eq_iff)

lemma RemoveSink_src [simp]: "srcOf (RemoveSink m x) = srcOf m"
proof (cases "mx_reg m x")
  case (Some re)
  then have "re_src re = srcOf m x" by (simp add: srcOf_def)
  then show ?thesis using Some by (simp add: RemoveSink_def release_src)
qed (simp add: RemoveSink_def)

lemma RemoveAmbiSink_src [simp]: "srcOf (RemoveAmbiSink m x i) = srcOf m"
proof (cases "mx_reg m x")
  case (Some re)
  then have "re_src re = srcOf m x" by (simp add: srcOf_def)
  then show ?thesis using Some by (simp add: RemoveAmbiSink_def release_src)
qed (simp add: RemoveAmbiSink_def)

lemma removeAll_src: "srcOf (removeAll x m) = (srcOf m)(x := None)"
  by (simp add: removeAll_def RemoveSource_src)

lemma admit_src:
  assumes "admit m x taken dup upd = Inr m'"
  shows "srcOf m' = (srcOf m)(x := re_src (upd (case mx_reg m x of Some re \<Rightarrow> re | None \<Rightarrow> emptyReg)))"
    "\<And>re. mx_reg m x = Some re \<Longrightarrow> \<not> taken re"
  using assms by (auto simp: admit_def srcOf_def fun_eq_iff split: if_splits option.splits)

lemma admit_keeps_src:
  assumes "admit m x taken dup upd = Inr m'" "\<And>re. re_src (upd re) = re_src re"
  shows "srcOf m' = srcOf m"
proof -
  have "re_src (case mx_reg m x of Some re \<Rightarrow> re | None \<Rightarrow> emptyReg) = srcOf m x" by (simp add: srcOf_def emptyReg_def split: option.splits)
  then show ?thesis using admit_src(1)[OF assms(1)] assms(2) by simp
qed

lemma AddSink_src: "AddSink m x = (m', r) \<Longrightarrow> srcOf m' = srcOf m"
proof -
  assume a: "AddSink m x = (m', r)"
  have k: "srcOf (m \<lparr> mx_nextSink := mx_nextSink m + 1 \<rparr>) = srcOf m" by (rule srcOf_reg) simp
  show ?thesis using a k by (auto simp: AddSink_def Let_def split: sum.splits dest!: admit_keeps_src intro: srcOf_reg)
qed

lemma AddAmbiSink_src: "AddAmbiSink ms m x i = (m', r) \<Longrightarrow> srcOf m' = srcOf m"
proof -
  assume a: "AddAmbiSink ms m x i = (m', r)"
  have k: "srcOf (m \<lparr> mx_nextAmbi := mx_nextAmbi m + 1 \<rparr>) = srcOf m" by (rule srcOf_reg) simp
  show ?thesis using a k by (auto simp: AddAmbiSink_def Let_def split: sum.splits if_splits dest!: admit_keeps_src intro: srcOf_reg)
qed

lemma nogroup_src: "mx_nogroup m' = mx_nogroup m \<Longrightarrow> srcOf m' = srcOf m"
  using nogroup_fields[of m' m] by (auto simp: mx_control_def intro: srcOf_reg)

lemma AddSource_src:
  assumes "AddSource cd m x cfg = (m', r)"
  shows "r = Ret h \<Longrightarrow> \<exists>ref. srcOf m x = None \<and> srcOf m' = (srcOf m)(x \<mapsto> ref) \<and> sr_handle ref = h" "r = Err e \<Longrightarrow> srcOf m' = srcOf m"
proof -
  obtain m1 o1 where b: "buildSource cd m x (applyDefaults cfg) = (m1, o1)" by fastforce
  have m1: "srcOf m1 = srcOf m" by (rule nogroup_src[OF buildSource_nogroup[OF b]])
  have jg: "srcOf (joinGroup M src k) = srcOf M" for M :: "'a Mixer" and src k
    by (rule srcOf_reg) (simp add: joinGroup_def split: option.splits prod.splits)
  have up: "srcOf (M \<lparr> mx_sources := S, mx_nextSource := n \<rparr>) = srcOf M" for M :: "'a Mixer" and S n by (rule srcOf_reg) simp
  show "\<exists>ref. srcOf m x = None \<and> srcOf m' = (srcOf m)(x \<mapsto> ref) \<and> sr_handle ref = h" if r: "r = Ret h"
  proof -
    obtain src m2 ref c where a: "admit m1 x (\<lambda>re. re_src re \<noteq> None) ErrDuplicateSource (\<lambda>re. re \<lparr> re_src := Some ref \<rparr>) = Inr m2" "sr_handle ref = h"
      "m' = enqueue (joinGroup (m2 \<lparr> mx_sources := (mx_sources m2)(h \<mapsto> src), mx_nextSource := h + 1 \<rparr>) src h) c"
      using assms r b by (auto simp: AddSource_eq Let_def split: outcome.splits sum.splits)
    have "srcOf m1 x = None" using admit_src(2)[OF a(1)] by (cases "mx_reg m1 x") (auto simp: srcOf_def)
    moreover have "srcOf m2 = (srcOf m1)(x \<mapsto> ref)" using admit_src(1)[OF a(1)] by simp
    ultimately show ?thesis using a(2,3) m1 jg up by auto
  qed
  show "srcOf m' = srcOf m" if "r = Err e"
    using assms that b m1 by (auto simp: AddSource_eq Let_def split: outcome.splits sum.splits)
qed

section \<open>Calls of the funnel are calls on the mixer\<close>

lemma reach_calls:
  assumes "reach cd ms env banks cfg m"
  shows "reach cd ms env banks cfg (fst (SetRenderParams m x p))" "reach cd ms env banks cfg (fst (SetEntityMuted m x b))"
    "reach cd ms env banks cfg (SetChannel m c q)" "reach cd ms env banks cfg (SetPersonalMute m x y b)" "reach cd ms env banks cfg (SetPersonalSolo m x y b)"
    "reach cd ms env banks cfg (RemoveSource m x)" "reach cd ms env banks cfg (RemoveSink m x)" "reach cd ms env banks cfg (RemoveAmbiSink m x i)"
  using reach.call[OF assms, of "MSetRenderParams x p"] reach.call[OF assms, of "MSetEntityMuted x b"] reach.call[OF assms, of "MSetChannel c q"]
    reach.call[OF assms, of "MSetPersonalMute x y b"] reach.call[OF assms, of "MSetPersonalSolo x y b"] reach.call[OF assms, of "MRemoveSource x"]
    reach.call[OF assms, of "MRemoveSink x"] reach.call[OF assms, of "MRemoveAmbiSink x i"] assms
  by (auto simp: SetRenderParams_def SetEntityMuted_def)

lemma reach_AddSink: "reach cd ms env banks cfg m \<Longrightarrow> AddSink m x = (m', r) \<Longrightarrow> reach cd ms env banks cfg m' \<and> (\<forall>msg. r \<noteq> Panic msg)"
proof -
  assume a: "reach cd ms env banks cfg m" "AddSink m x = (m', r)"
  have np: "r \<noteq> Panic msg" for msg using a(2) by (auto simp: AddSink_def Let_def split: sum.splits)
  then have "mx_step cd ms (MAddSink x) m = Inr m'" using a(2) by (cases r) auto
  then show ?thesis using reach.call[OF a(1), of "MAddSink x"] np by simp
qed

lemma reach_AddAmbiSink: "reach cd ms env banks cfg m \<Longrightarrow> AddAmbiSink ms m x i = (m', r) \<Longrightarrow> reach cd ms env banks cfg m' \<and> (\<forall>msg. r \<noteq> Panic msg)"
proof -
  assume a: "reach cd ms env banks cfg m" "AddAmbiSink ms m x i = (m', r)"
  have np: "r \<noteq> Panic msg" for msg using a(2) by (auto simp: AddAmbiSink_def Let_def split: sum.splits if_splits)
  then have "mx_step cd ms (MAddAmbiSink x i) m = Inr m'" using a(2) by (cases r) auto
  then show ?thesis using reach.call[OF a(1), of "MAddAmbiSink x i"] np by simp
qed

lemma reach_AddSource: "reach cd ms env banks cfg m \<Longrightarrow> sourceOk cd sc \<Longrightarrow> AddSource cd m x sc = (m', r) \<Longrightarrow> (\<And>msg. r \<noteq> Panic msg) \<Longrightarrow> reach cd ms env banks cfg m'"
proof -
  assume a: "reach cd ms env banks cfg m" "sourceOk cd sc" "AddSource cd m x sc = (m', r)" "\<And>msg. r \<noteq> Panic msg"
  then have "mx_step cd ms (MAddSource x sc) m = Inr m'" by (cases r) auto
  then show ?thesis using reach.call[OF a(1), of "MAddSource x sc"] a(2) by simp
qed

lemma reach_removeAll: "reach cd ms env banks cfg m \<Longrightarrow> reach cd ms env banks cfg (removeAll x m)"
  by (simp add: removeAll_def reach_calls)

lemma reach_sinkPose: "reach cd ms env banks cfg m \<Longrightarrow> reach cd ms env banks cfg (setSinkPose p s m)"
  by (cases s) (simp_all add: reach.pose reach.ambiPose)

lemma reach_sinkPoses: "reach cd ms env banks cfg m \<Longrightarrow> reach cd ms env banks cfg (fold (setSinkPose p) ss m)"
  by (induction ss arbitrary: m) (simp_all add: reach_sinkPose)

lemma sinkPose_fields: "mx_reg (setSinkPose p s m) = mx_reg m" "mx_sources (setSinkPose p s m) = mx_sources m" "mx_groupHeap (setSinkPose p s m) = mx_groupHeap m"
  "mx_env (setSinkPose p s m) = mx_env m" "mx_stopped (setSinkPose p s m) = mx_stopped m"
  by (cases s; simp add: SetPose_def SetAmbiPose_def)+

lemma calls_stopped [simp]:
  "mx_stopped (fst (SetRenderParams m x p)) = mx_stopped m" "mx_stopped (fst (SetEntityMuted m x v)) = mx_stopped m" "mx_stopped (SetChannel m c q) = mx_stopped m"
  "mx_stopped (SetPersonalMute m x y v) = mx_stopped m" "mx_stopped (SetPersonalSolo m x y v) = mx_stopped m"
  "mx_stopped (RemoveSource m x) = mx_stopped m" "mx_stopped (RemoveSink m x) = mx_stopped m" "mx_stopped (RemoveAmbiSink m x i) = mx_stopped m"
  by (simp_all add: SetRenderParams_def SetEntityMuted_def SetChannel_def SetPersonalMute_def SetPersonalSolo_def RemoveSource_eq RemoveSink_def RemoveAmbiSink_def
    enqueue_def release_def split: option.split)

lemma sink_stopped: "AddSink m x = (m', r) \<Longrightarrow> mx_stopped m' = mx_stopped m" "AddAmbiSink ms m x i = (m', r) \<Longrightarrow> mx_stopped m' = mx_stopped m"
  by (auto simp: AddSink_def AddAmbiSink_def Let_def enqueue_def dest!: admit_stopped split: sum.splits if_splits)

lemma sinkPoses_fields: "mx_reg (fold (setSinkPose p) ss m) = mx_reg m" "mx_stopped (fold (setSinkPose p) ss m) = mx_stopped m"
  by (induction ss arbitrary: m) (simp_all add: sinkPose_fields)

lemma engineSink_ambi:
  assumes "engineSink ms x f m = (m', r)" "f = TrackAmbi2 \<and> i = 2 \<or> f = TrackAmbi3 \<and> i = 3"
  shows "\<exists>q. AddAmbiSink ms m x i = (m', q) \<and> ((\<forall>msg. q \<noteq> Panic msg) \<longrightarrow> (\<forall>msg. r \<noteq> Panic msg))"
proof -
  obtain m2 q where q: "AddAmbiSink ms m x i = (m2, q)" by fastforce
  then have "m' = m2 \<and> r = (case q of Ret k \<Rightarrow> Ret (AmbisonicSink k) | Err e \<Rightarrow> Err e | Panic msg \<Rightarrow> Panic msg)"
    using assms by (auto simp: engineSink_def Let_def)
  then show ?thesis using q by (auto split: outcome.splits)
qed

lemma engineSink_binaural:
  assumes "engineSink ms x TrackBinaural m = (m', r)"
  shows "\<exists>q. AddSink m x = (m', q) \<and> ((\<forall>msg. q \<noteq> Panic msg) \<longrightarrow> (\<forall>msg. r \<noteq> Panic msg))"
proof -
  obtain m2 q where q: "AddSink m x = (m2, q)" by fastforce
  then have "m' = m2 \<and> r = (case q of Ret k \<Rightarrow> Ret (BinauralSink k) | Err e \<Rightarrow> Err e | Panic msg \<Rightarrow> Panic msg)"
    using assms by (auto simp: engineSink_def Let_def)
  then show ?thesis using q by (auto split: outcome.splits)
qed

lemma engineSink_reach:
  assumes "reach cd ms env banks cfg m" "engineSink ms x f m = (m', r)"
  shows "reach cd ms env banks cfg m' \<and> srcOf m' = srcOf m \<and> mx_stopped m' = mx_stopped m \<and> (\<forall>msg. r \<noteq> Panic msg)"
proof (cases "\<exists>i. f = TrackAmbi2 \<and> i = (2::int) \<or> f = TrackAmbi3 \<and> i = 3")
  case True
  then obtain i where i: "f = TrackAmbi2 \<and> i = (2::int) \<or> f = TrackAmbi3 \<and> i = 3" by blast
  show ?thesis using engineSink_ambi[OF assms(2) i] reach_AddAmbiSink[OF assms(1)] AddAmbiSink_src sink_stopped(2) by blast
next
  case False
  then consider "f = TrackBinaural" | g where "f = OtherFormat g" by (cases f) auto
  then show ?thesis
  proof cases
    case 1
    then show ?thesis using engineSink_binaural assms reach_AddSink[OF assms(1)] AddSink_src sink_stopped(1) by blast
  next
    case 2
    then show ?thesis using assms by (auto simp: engineSink_def)
  qed
qed

section \<open>The connected entities are the mixer's sources\<close>

definition connInv :: "'d Backend \<Rightarrow> bool" where
  "connInv b \<longleftrightarrow> (\<forall>x. case bk_entities b x of
     None \<Rightarrow> srcOf (bk_mixer b) x = None
   | Some r \<Rightarrow> r < bk_nextRec b \<and> (\<exists>rec ref. bk_recs b r = Some rec \<and> srcOf (bk_mixer b) x = Some ref \<and> sr_handle ref = er_src rec))"

lemma connInv_None: "connInv b \<Longrightarrow> bk_entities b x = None \<Longrightarrow> srcOf (bk_mixer b) x = None"
  unfolding connInv_def by (drule spec[of _ x]) simp

lemma connInv_Some:
  assumes "connInv b" "bk_entities b x = Some r"
  obtains rec ref where "r < bk_nextRec b" "bk_recs b r = Some rec" "srcOf (bk_mixer b) x = Some ref" "sr_handle ref = er_src rec"
  using assms(1)[unfolded connInv_def, THEN spec, of x] assms(2) by auto

lemma connInvI:
  assumes "\<And>x. bk_entities b x = None \<Longrightarrow> srcOf (bk_mixer b) x = None"
    "\<And>x r. bk_entities b x = Some r \<Longrightarrow> r < bk_nextRec b \<and> (\<exists>rec ref. bk_recs b r = Some rec \<and> srcOf (bk_mixer b) x = Some ref \<and> sr_handle ref = er_src rec)"
  shows "connInv b"
  unfolding connInv_def using assms by (auto split: option.split)

lemma connInv_srcs: "connInv b \<Longrightarrow> dom (srcOf (bk_mixer b)) = entitySnapshot b"
  by (auto simp: connInv_def entitySnapshot_def dom_def split: option.splits)

text \<open>Calls that change no record but for pose state, no entry of the map and no source.\<close>

definition sameConn :: "'d Backend \<Rightarrow> 'd Backend \<Rightarrow> bool" where
  "sameConn b b' \<longleftrightarrow> bk_entities b' = bk_entities b \<and> bk_nextRec b' = bk_nextRec b \<and> bk_sourceCodec b' = bk_sourceCodec b \<and>
     srcOf (bk_mixer b') = srcOf (bk_mixer b) \<and> (\<forall>r. map_option er_src (bk_recs b' r) = map_option er_src (bk_recs b r))"

lemma sameConn_refl [simp]: "sameConn b b" by (simp add: sameConn_def)

lemma sameConn_trans: "sameConn a b \<Longrightarrow> sameConn b c \<Longrightarrow> sameConn a c" by (simp add: sameConn_def)

lemma sameConn_inv:
  assumes "sameConn b b'" "connInv b"
  shows "connInv b'"
proof (rule connInvI)
  have e: "bk_entities b' = bk_entities b" "bk_nextRec b' = bk_nextRec b" "srcOf (bk_mixer b') = srcOf (bk_mixer b)" using assms(1) by (simp_all add: sameConn_def)
  show "srcOf (bk_mixer b') x = None" if "bk_entities b' x = None" for x using connInv_None[OF assms(2), of x] that e by simp
  show "r < bk_nextRec b' \<and> (\<exists>rec ref. bk_recs b' r = Some rec \<and> srcOf (bk_mixer b') x = Some ref \<and> sr_handle ref = er_src rec)" if h: "bk_entities b' x = Some r" for x r
  proof -
    have "bk_entities b x = Some r" using h e by simp
    then obtain rec ref where r: "r < bk_nextRec b" "bk_recs b r = Some rec" "srcOf (bk_mixer b) x = Some ref" "sr_handle ref = er_src rec"
      by (rule connInv_Some[OF assms(2)])
    have "map_option er_src (bk_recs b' r) = Some (er_src rec)" using assms(1) r(2) by (simp add: sameConn_def)
    then obtain rec' where "bk_recs b' r = Some rec'" "er_src rec' = er_src rec" by auto
    then show ?thesis using e r by simp
  qed
qed

lemma sameConn_mixer: "srcOf m = srcOf (bk_mixer b) \<Longrightarrow> sameConn b (b \<lparr> bk_mixer := m \<rparr>)" by (simp add: sameConn_def)

lemma sameConn_grps: "sameConn b (b \<lparr> bk_grps := g \<rparr>)" "sameConn b (b \<lparr> bk_groups := h \<rparr>)" "sameConn b (b \<lparr> bk_wiring := w \<rparr>)"
  by (simp_all add: sameConn_def)

lemma sameConn_putRec: "bk_recs b r = Some rec0 \<Longrightarrow> er_src rec = er_src rec0 \<Longrightarrow> sameConn b (putRec r rec b)"
  by (simp add: sameConn_def putRec_def)

section \<open>Each call\<close>

text \<open>A call that is a run of the mixer and changes no connection.\<close>

definition quiet :: "'d Codec \<Rightarrow> (int \<Rightarrow> bool) \<Rightarrow> Env \<Rightarrow> (int \<Rightarrow> bool) \<Rightarrow> Config \<Rightarrow> 'd Backend \<Rightarrow> 'd Backend \<Rightarrow> bool" where
  "quiet cd ms env banks cfg b b' \<longleftrightarrow> sameConn b b' \<and> mx_stopped (bk_mixer b') = mx_stopped (bk_mixer b) \<and>
     (reach cd ms env banks cfg (bk_mixer b) \<longrightarrow> reach cd ms env banks cfg (bk_mixer b'))"

lemma quietI: "sameConn b b' \<Longrightarrow> mx_stopped (bk_mixer b') = mx_stopped (bk_mixer b) \<Longrightarrow> (reach cd ms env banks cfg (bk_mixer b) \<Longrightarrow> reach cd ms env banks cfg (bk_mixer b')) \<Longrightarrow> quiet cd ms env banks cfg b b'"
  by (simp add: quiet_def)

lemma quiet_refl [simp]: "quiet cd ms env banks cfg b b" by (simp add: quiet_def)

lemma quiet_trans: "quiet cd ms env banks cfg a b \<Longrightarrow> quiet cd ms env banks cfg b c \<Longrightarrow> quiet cd ms env banks cfg a c"
  using sameConn_trans unfolding quiet_def by blast

lemma enforcePose_quiet: "enforcePose r p b = (ep, b') \<Longrightarrow> quiet cd ms env banks cfg b b'"
  by (auto simp: quiet_def enforcePose_eq putRec_def sameConn_def srcOf_def sinkPoses_fields fun_eq_iff reach_sinkPoses split: option.splits)

lemma enforcePose_env: "enforcePose r p b = (ep, b') \<Longrightarrow> mx_env (bk_mixer b') = mx_env (bk_mixer b)"
proof -
  have "mx_env (fold (setSinkPose q) ss m) = mx_env m" for q ss and m :: "'a Mixer" by (induction ss arbitrary: m) (simp_all add: sinkPose_fields)
  then show "enforcePose r p b = (ep, b') \<Longrightarrow> mx_env (bk_mixer b') = mx_env (bk_mixer b)" by (auto simp: enforcePose_eq putRec_def split: option.splits)
qed

lemma memberChannel_quiet: "memberChannel r c b = (ch, b') \<Longrightarrow> quiet cd ms env banks cfg b b'"
  by (auto simp: memberChannel_def enforcePose_quiet split: option.splits if_splits prod.splits)

lemma fillChannels_quiet: "fillChannels rs cs sc b = Some (ecs, b') \<Longrightarrow> quiet cd ms env banks cfg b b'"
proof (induction rs cs sc b arbitrary: ecs b' rule: fillChannels.induct)
  case (2 r rs c cs s scratch b)
  obtain ch b1 where m: "memberChannel r c b = (ch, b1)" by fastforce
  then obtain ecs' where "fillChannels rs cs scratch b1 = Some (ecs', b')" using 2(2) by auto
  then show ?case using 2(1)[OF m[symmetric]] memberChannel_quiet[OF m] quiet_trans by blast
qed auto

lemma onSource_quiet:
  assumes "onSource h f b = Some b'" "\<And>s s'. f s = Some s' \<Longrightarrow> \<exists>op. src_step cd (ev_math env) gs s op = Some s'"
  shows "quiet cd ms env banks cfg b b'"
proof -
  obtain s s' where s: "mx_sources (bk_mixer b) h = Some s" "f s = Some s'" "b' = b \<lparr> bk_mixer := (bk_mixer b) \<lparr> mx_sources := (mx_sources (bk_mixer b))(h \<mapsto> s') \<rparr> \<rparr>"
    using assms(1) by (auto simp: onSource_def bind_eq_Some_conv)
  obtain op where op: "src_step cd (ev_math env) gs s op = Some s'" using assms(2)[OF s(2)] by blast
  have "sameConn b b'" unfolding s(3) by (rule sameConn_mixer) (simp add: srcOf_def fun_eq_iff)
  then show ?thesis by (rule quietI) (use reach.packet[OF _ s(1) op] s(3) in simp_all)
qed

lemma rec_Lost_quiet:
  assumes "rec_Lost cd fs r l b = Some b'"
  shows "quiet cd ms env banks cfg b b'"
proof (cases l)
  case True
  then obtain rec :: entityRec where r: "onSource (er_src rec) (\<lambda>s. Conceal cd s fs) b = Some b'" using assms by (auto simp: rec_Lost_def bind_eq_Some_conv)
  have "\<exists>op. src_step cd (ev_math env) gs s op = Some s'" if "Conceal cd s fs = Some s'" for s s' gs by (rule exI[of _ "SrcConceal fs"]) (simp add: that)
  from onSource_quiet[OF r this] show ?thesis .
qed (use assms in \<open>simp add: rec_Lost_def\<close>)

lemma rec_Frame_quiet:
  assumes "rec_Frame cd r seq pose audio b = Some b'" "mx_env (bk_mixer b) = env"
  shows "quiet cd ms env banks cfg b b'"
proof -
  obtain ep b1 where e: "(case pose of None \<Rightarrow> (None, b) | Some p \<Rightarrow> enforcePose r p b) = (ep, b1)" by fastforce
  obtain rec :: entityRec where r: "onSource (er_src rec) (\<lambda>s. WriteOpus cd (ev_math (mx_env (bk_mixer b1))) s seq ep audio) b1 = Some b'"
    using assms(1) e by (auto simp: rec_Frame_def bind_eq_Some_conv)
  have q: "quiet cd ms env banks cfg b b1" using e by (cases pose) (auto intro: enforcePose_quiet)
  have v: "mx_env (bk_mixer b1) = env" using e assms(2) by (cases pose) (auto dest: enforcePose_env)
  have "\<exists>op. src_step cd (ev_math env) gs s op = Some s'" if "WriteOpus cd (ev_math (mx_env (bk_mixer b1))) s seq ep audio = Some s'" for s s' gs
    by (rule exI[of _ "SrcOpus seq ep audio"]) (use that v in simp)
  from onSource_quiet[OF r this] q show ?thesis using quiet_trans by blast
qed

lemma group_Frame_quiet:
  assumes "group_Frame cd g seq chans b = Some b'"
  shows "quiet cd ms env banks cfg b b'"
proof -
  obtain gr ecs b1 h m where g: "fillChannels (gr_recs gr) chans (gr_chans gr) b = Some (ecs, b1)" "group_WriteFrame cd (bk_mixer b1) h seq ecs = Some m"
    "b' = b1 \<lparr> bk_mixer := m, bk_grps := (bk_grps b1)(g \<mapsto> gr \<lparr> gr_chans := ecs \<rparr>) \<rparr>"
    using assms by (auto simp: group_Frame_def bind_eq_Some_conv)
  obtain gh ss where m: "m = (bk_mixer b1) \<lparr> mx_groupHeap := gh, mx_sources := ss \<rparr>" using g(2) unfolding group_WriteFrame_def by (auto simp: bind_eq_Some_conv)
  have "sameConn b1 b'" using g(3) m by (simp add: sameConn_def srcOf_def fun_eq_iff)
  then have "quiet cd ms env banks cfg b1 b'" by (rule quietI) (use m reach.frame[OF _ g(2)] g(3) in simp_all)
  then show ?thesis using fillChannels_quiet[OF g(1)] quiet_trans by blast
qed

lemma sets_src [simp]: "srcOf (fst (SetRenderParams m x p)) = srcOf m" "srcOf (fst (SetEntityMuted m x v)) = srcOf m" "srcOf (SetChannel m c q) = srcOf m"
  "srcOf (SetPersonalMute m x y v) = srcOf m" "srcOf (SetPersonalSolo m x y v) = srcOf m"
  by (simp_all add: SetRenderParams_def SetEntityMuted_def SetChannel_def SetPersonalMute_def SetPersonalSolo_def)

lemma onWiring_same:
  assumes "f (bk_wiring b, bk_mixer b) = (w, m)" "srcOf m = srcOf (bk_mixer b)"
  shows "sameConn b (onWiring f b)" "bk_mixer (onWiring f b) = m"
  using assms by (simp_all add: onWiring_def sameConn_def)

lemma quiet_entityUpdate: "quiet cd ms env banks cfg b (onWiring (entityUpdate x f) b)"
  by (rule quietI) (auto simp: onWiring_def entityUpdate_def sameConn_def reach_calls split: option.splits)

lemma quiet_channelUpdate: "quiet cd ms env banks cfg b (onWiring (channelUpdate c f) b)"
  by (rule quietI) (auto simp: onWiring_def channelUpdate_def Let_def sameConn_def reach_calls)

lemma quiet_observeEvent: "quiet cd ms env banks cfg b (observeEvent ev b)"
proof (cases ev)
  case (EntityMuted x v)
  show ?thesis unfolding EntityMuted observeEvent.simps by (rule quietI) (auto simp: onWiring_def sameConn_def reach_calls)
next
  case (PersonalMute x y v)
  show ?thesis unfolding PersonalMute observeEvent.simps by (rule quietI) (auto simp: sameConn_def reach_calls)
next
  case (PersonalSolo x y v)
  show ?thesis unfolding PersonalSolo observeEvent.simps by (rule quietI) (auto simp: sameConn_def reach_calls)
next
  case (Dof x d)
  have "sameConn b (setDof x d b)"
    by (cases "bk_entities b x"; simp add: setDof_def) (auto intro: sameConn_putRec split: option.split)
  moreover have "bk_mixer (setDof x d b) = bk_mixer b" by (simp add: setDof_def putRec_def split: option.splits)
  ultimately show ?thesis by (simp add: Dof quiet_def)
qed (simp_all add: quiet_entityUpdate quiet_channelUpdate)

lemma quiet_observe: "quiet cd ms env banks cfg b (observe pf key v cl b)"
proof -
  have w: "quiet cd ms env banks cfg b (b \<lparr> bk_wiring := w \<rparr>)" for w by (simp add: quiet_def sameConn_grps)
  show ?thesis by (simp add: observe_def w quiet_observeEvent split: option.split)
qed

lemma quiet_Stop: "quiet cd ms env banks cfg b (Stop ss b)"
proof -
  have 1: "sameConn b (removePoseSink r s b)" for r s by (auto simp: removePoseSink_def intro: sameConn_putRec split: option.split)
  have 2: "bk_mixer (removePoseSink r s b) = bk_mixer b" for r s by (simp add: removePoseSink_def putRec_def split: option.split)
  have "sameConn (removePoseSink (ss_rec ss) (ss_target ss) b) (Stop ss b)"
    by (cases "ss_format ss") (simp_all add: Stop_def Let_def sameConn_mixer)
  moreover have "reach cd ms env banks cfg (bk_mixer b) \<Longrightarrow> reach cd ms env banks cfg (bk_mixer (Stop ss b))"
    by (cases "ss_format ss") (simp_all add: Stop_def Let_def 2 reach_calls)
  moreover have "mx_stopped (bk_mixer (Stop ss b)) = mx_stopped (bk_mixer b)"
    by (cases "ss_format ss") (simp_all add: Stop_def Let_def 2)
  ultimately show ?thesis using sameConn_trans[OF 1] unfolding quiet_def by blast
qed

lemma addPoseSink_quiet: "quiet cd ms env banks cfg b (addPoseSink sp r s b)"
proof -
  have "srcOf (setSinkPose p s m) = srcOf m" for p s and m :: "'a Mixer" by (rule srcOf_reg) (simp add: sinkPose_fields)
  then show ?thesis by (auto simp: quiet_def addPoseSink_eq sameConn_def putRec_def reach_sinkPose sinkPose_fields split: option.splits)
qed

lemma StartSink_inv:
  assumes "StartSink ms sp x f b = (b', r)" "reach cd ms env banks cfg (bk_mixer b)"
  shows "quiet cd ms env banks cfg b b' \<and> (\<forall>msg. r \<noteq> Panic msg)"
proof (cases "Option.bind (bk_entities b x) (\<lambda>r. map_option (\<lambda>rec. (r, rec)) (bk_recs b r))")
  case None
  then show ?thesis using assms(1) by (auto simp: StartSink_def)
next
  case (Some p)
  obtain k rec where p: "p = (k, rec)" by fastforce
  obtain m q where q: "engineSink ms x f (bk_mixer b) = (m, q)" by fastforce
  have e: "reach cd ms env banks cfg m" "srcOf m = srcOf (bk_mixer b)" "q \<noteq> Panic msg" "mx_stopped m = mx_stopped (bk_mixer b)" for msg using engineSink_reach[OF assms(2) q] by auto
  have m: "quiet cd ms env banks cfg b (b \<lparr> bk_mixer := m \<rparr>)" using e(1,2,4) by (simp add: quiet_def sameConn_mixer)
  show ?thesis
  proof (cases "er_headFrame rec")
    case True
    then show ?thesis using assms(1) Some p by (auto simp: StartSink_def)
  next
    case False
    show ?thesis using assms(1) Some p q e(3) False m quiet_trans[OF m addPoseSink_quiet] by (cases q) (auto simp: StartSink_def)
  qed
qed

lemma unseat_same: "sameConn b (unseat c gi b)" "bk_mixer (unseat c gi b) = bk_mixer b"
  by (auto simp: unseat_def Let_def sameConn_def split: prod.splits option.splits)

lemma EntityLeft_inv:
  assumes "connInv b" "reach cd ms env banks cfg (bk_mixer b)"
  shows "connInv (EntityLeft c x b)" "reach cd ms env banks cfg (bk_mixer (EntityLeft c x b))"
proof -
  let ?b1 = "\<lambda>rec. case er_group rec of None \<Rightarrow> b \<lparr> bk_entities := (bk_entities b)(x := None) \<rparr> | Some gi \<Rightarrow> unseat c gi (b \<lparr> bk_entities := (bk_entities b)(x := None) \<rparr>)"
  have "connInv (EntityLeft c x b) \<and> reach cd ms env banks cfg (bk_mixer (EntityLeft c x b))"
  proof (cases "\<exists>rec. Option.bind (bk_entities b x) (bk_recs b) = Some rec \<and> er_clientID rec = c")
    case False
    then show ?thesis using assms by (auto simp: EntityLeft_def split: option.splits)
  next
    case True
    then obtain rec where rec: "Option.bind (bk_entities b x) (bk_recs b) = Some rec" "er_clientID rec = c" by blast
    define b1 where "b1 = ?b1 rec"
    have 1: "sameConn (b \<lparr> bk_entities := (bk_entities b)(x := None) \<rparr>) b1" "bk_mixer b1 = bk_mixer b"
      unfolding b1_def by (auto simp: unseat_same split: option.split)
    have l: "EntityLeft c x b = b1 \<lparr> bk_mixer := removeAll x (bk_mixer b) \<rparr>" using rec 1(2) by (simp add: EntityLeft_def Let_def b1_def)
    define b2 where "b2 = b \<lparr> bk_entities := (bk_entities b)(x := None), bk_mixer := removeAll x (bk_mixer b) \<rparr>"
    have "connInv b2"
    proof (rule connInvI)
      show "srcOf (bk_mixer b2) y = None" if "bk_entities b2 y = None" for y using that connInv_None[OF assms(1)] by (auto simp: b2_def removeAll_src split: if_splits)
      show "r < bk_nextRec b2 \<and> (\<exists>rec ref. bk_recs b2 r = Some rec \<and> srcOf (bk_mixer b2) y = Some ref \<and> sr_handle ref = er_src rec)"
        if h: "bk_entities b2 y = Some r" for y r
      proof -
        have y: "y \<noteq> x" "bk_entities b y = Some r" using h by (auto simp: b2_def split: if_splits)
        show ?thesis by (rule connInv_Some[OF assms(1) y(2)]) (use y(1) in \<open>simp add: b2_def removeAll_src\<close>)
      qed
    qed
    moreover have "sameConn b2 (EntityLeft c x b)" using 1(1) by (simp add: l b2_def sameConn_def)
    ultimately show ?thesis using sameConn_inv reach_removeAll[OF assms(2)] by (auto simp: l)
  qed
  then show "connInv (EntityLeft c x b)" "reach cd ms env banks cfg (bk_mixer (EntityLeft c x b))" by blast+
qed

lemma flush_quiet: "quiet cd ms env banks cfg b (flush x b)"
  by (auto simp: quiet_def flush_def flushEntity_def Let_def sameConn_def reach_calls split: option.splits if_splits)

lemma ensureGroup_same: "ensureGroup c l h b = (g, b') \<Longrightarrow> sameConn b b' \<and> bk_mixer b' = bk_mixer b \<and> bk_wiring b' = bk_wiring b"
  by (auto simp: ensureGroup_def Let_def sameConn_def split: option.splits)

lemma seatMember_same:
  assumes "seatMember c l r rec b = Some (rec', b')"
  shows "sameConn b b'" "bk_mixer b' = bk_mixer b" "er_src rec' = er_src rec" "bk_wiring b' = bk_wiring b"
proof -
  obtain g b1 where g: "ensureGroup c l (er_src rec) b = (g, b1)" by fastforce
  have "sameConn b1 b' \<and> bk_mixer b' = bk_mixer b1 \<and> er_src rec' = er_src rec \<and> bk_wiring b' = bk_wiring b1"
    using assms g by (auto simp: seatMember_def sameConn_def bind_eq_Some_conv split: if_splits)
  then show "sameConn b b'" "bk_mixer b' = bk_mixer b" "er_src rec' = er_src rec" "bk_wiring b' = bk_wiring b" using ensureGroup_same[OF g] sameConn_trans by auto
qed

lemma EntityJoined_ok:
  assumes "EntityJoined cd c e b = Some (b', Ret r)"
  obtains m h b1 rec where "AddSource cd (bk_mixer b) (rv_ID e) (joinConfig (bk_sourceCodec b) c e) = (m, Ret h)" "r = bk_nextRec b"
    "sameConn (b \<lparr> bk_mixer := m, bk_nextRec := Suc r \<rparr>) b1" "bk_mixer b1 = m" "er_src rec = h"
    "b' = flush (rv_ID e) (putRec r rec (b1 \<lparr> bk_entities := (bk_entities b1)(rv_ID e \<mapsto> r) \<rparr>))" "bk_wiring b1 = bk_wiring b"
proof -
  obtain m h where a: "AddSource cd (bk_mixer b) (rv_ID e) (joinConfig (bk_sourceCodec b) c e) = (m, Ret h)"
    using assms by (auto simp: EntityJoined_def split: prod.splits outcome.splits)
  let ?b = "b \<lparr> bk_mixer := m, bk_nextRec := Suc (bk_nextRec b) \<rparr>"
  obtain rec b1 where s: "(case rv_Lockstep e of None \<Rightarrow> Some (newRec c e h, ?b) | Some l \<Rightarrow> seatMember c l (bk_nextRec b) (newRec c e h) ?b) = Some (rec, b1)"
    "b' = flush (rv_ID e) (putRec (bk_nextRec b) rec (b1 \<lparr> bk_entities := (bk_entities b1)(rv_ID e \<mapsto> bk_nextRec b) \<rparr>))" "r = bk_nextRec b"
    using assms a by (auto simp: EntityJoined_def Let_def bind_eq_Some_conv)
  have "sameConn ?b b1 \<and> bk_mixer b1 = m \<and> er_src rec = h \<and> bk_wiring b1 = bk_wiring b"
    using s(1) seatMember_same[of c _ _ "newRec c e h" ?b rec b1] by (auto simp: newRec_def split: option.splits)
  then show ?thesis using that a s(2,3) by blast
qed

lemma EntityJoined_inv:
  assumes "connInv b" "reach cd ms env banks cfg (bk_mixer b)" "sourceOk cd (joinConfig (bk_sourceCodec b) c e)" "EntityJoined cd c e b = Some (b', r)"
  shows "connInv b' \<and> reach cd ms env banks cfg (bk_mixer b')"
proof (cases r)
  case (Ret k)
  obtain m h b1 rec where j: "AddSource cd (bk_mixer b) (rv_ID e) (joinConfig (bk_sourceCodec b) c e) = (m, Ret h)" "k = bk_nextRec b"
    "sameConn (b \<lparr> bk_mixer := m, bk_nextRec := Suc k \<rparr>) b1" "bk_mixer b1 = m" "er_src rec = h"
    "b' = flush (rv_ID e) (putRec k rec (b1 \<lparr> bk_entities := (bk_entities b1)(rv_ID e \<mapsto> k) \<rparr>))"
    using EntityJoined_ok assms(4) Ret by metis
  define b2 where "b2 = putRec k rec (b1 \<lparr> bk_entities := (bk_entities b1)(rv_ID e \<mapsto> k) \<rparr>)"
  have m: "reach cd ms env banks cfg m" by (rule reach_AddSource[OF assms(2,3) j(1)]) simp
  obtain ref where ref: "srcOf m = (srcOf (bk_mixer b))(rv_ID e \<mapsto> ref)" "sr_handle ref = h" using AddSource_src(1)[OF j(1)] by blast
  have b2: "bk_entities b2 = (bk_entities b)(rv_ID e \<mapsto> k)" "bk_nextRec b2 = Suc k" "srcOf (bk_mixer b2) = srcOf m" "bk_recs b2 k = Some rec" "bk_mixer b2 = m"
    "\<And>i. i \<noteq> k \<Longrightarrow> map_option er_src (bk_recs b2 i) = map_option er_src (bk_recs b i)"
    using j(3,4) by (simp_all add: b2_def putRec_def sameConn_def)
  have "connInv b2"
  proof (rule connInvI)
    show "srcOf (bk_mixer b2) y = None" if "bk_entities b2 y = None" for y using that connInv_None[OF assms(1)] ref by (auto simp: b2 split: if_splits)
    show "i < bk_nextRec b2 \<and> (\<exists>rec ref. bk_recs b2 i = Some rec \<and> srcOf (bk_mixer b2) y = Some ref \<and> sr_handle ref = er_src rec)"
      if h: "bk_entities b2 y = Some i" for y i
    proof (cases "y = rv_ID e")
      case True
      then have "i = k" using h by (simp add: b2)
      then show ?thesis using True ref j(5) by (simp add: b2)
    next
      case False
      then have y: "bk_entities b y = Some i" using h by (simp add: b2)
      obtain rc rf where r: "i < bk_nextRec b" "bk_recs b i = Some rc" "srcOf (bk_mixer b) y = Some rf" "sr_handle rf = er_src rc" by (rule connInv_Some[OF assms(1) y])
      have "map_option er_src (bk_recs b2 i) = Some (er_src rc)" using b2(6)[of i] r(1,2) j(2) by simp
      then obtain rc' where "bk_recs b2 i = Some rc'" "er_src rc' = er_src rc" by auto
      then show ?thesis using r False ref j(2) by (simp add: b2(2,3))
    qed
  qed
  moreover have "quiet cd ms env banks cfg b2 b'" by (simp add: j(6) b2_def flush_quiet)
  ultimately show ?thesis using sameConn_inv m b2(5) unfolding quiet_def by auto
next
  case (Err er)
  then obtain m where m: "AddSource cd (bk_mixer b) (rv_ID e) (joinConfig (bk_sourceCodec b) c e) = (m, Err er)" "b' = b \<lparr> bk_mixer := m \<rparr>"
    using assms(4) by (auto simp: EntityJoined_def Let_def bind_eq_Some_conv split: prod.splits outcome.splits)
  have "sameConn b b'" using AddSource_src(2)[OF m(1)] m(2) by (simp add: sameConn_mixer)
  then show ?thesis using sameConn_inv[OF _ assms(1)] reach_AddSource[OF assms(2,3) m(1)] m(2) by simp
next
  case (Panic msg)
  then show ?thesis using assms(4) by (auto simp: EntityJoined_def Let_def bind_eq_Some_conv split: prod.splits outcome.splits)
qed

lemma lifecycle_stopped:
  "mx_stopped (bk_mixer (EntityLeft c x b)) = mx_stopped (bk_mixer b)"
  "EntityJoined cd c e b = Some (b', r) \<Longrightarrow> mx_stopped (bk_mixer b') = mx_stopped (bk_mixer b)"
proof -
  have "bk_mixer (EntityLeft c x b) = bk_mixer b \<or> bk_mixer (EntityLeft c x b) = removeAll x (bk_mixer b)"
    by (auto simp: EntityLeft_def Let_def unseat_same split: option.splits)
  then show "mx_stopped (bk_mixer (EntityLeft c x b)) = mx_stopped (bk_mixer b)" by (auto simp: removeAll_def)
  assume j: "EntityJoined cd c e b = Some (b', r)"
  show "mx_stopped (bk_mixer b') = mx_stopped (bk_mixer b)"
  proof (cases r)
    case (Ret k)
    obtain m h b1 rec where a: "AddSource cd (bk_mixer b) (rv_ID e) (joinConfig (bk_sourceCodec b) c e) = (m, Ret h)" "bk_mixer b1 = m"
      "b' = flush (rv_ID e) (putRec k rec (b1 \<lparr> bk_entities := (bk_entities b1)(rv_ID e \<mapsto> k) \<rparr>))" using EntityJoined_ok j Ret by metis
    have "mx_stopped (bk_mixer b') = mx_stopped m"
      using a(2,3) flush_quiet[of _ _ _ _ _ "putRec k rec (b1 \<lparr> bk_entities := (bk_entities b1)(rv_ID e \<mapsto> k) \<rparr>)" "rv_ID e"] by (simp add: quiet_def putRec_def)
    then show ?thesis using AddSource_stopped[of cd "bk_mixer b" "rv_ID e" "joinConfig (bk_sourceCodec b) c e" m] a(1) by simp
  next
    case (Err er)
    then obtain m where m: "AddSource cd (bk_mixer b) (rv_ID e) (joinConfig (bk_sourceCodec b) c e) = (m, Err er)" "b' = b \<lparr> bk_mixer := m \<rparr>"
      using j by (auto simp: EntityJoined_def Let_def bind_eq_Some_conv split: prod.splits outcome.splits)
    then show ?thesis using AddSource_stopped[of cd "bk_mixer b" "rv_ID e" "joinConfig (bk_sourceCodec b) c e" m] by simp
  qed (use j in \<open>auto simp: EntityJoined_def Let_def bind_eq_Some_conv split: prod.splits outcome.splits\<close>)
qed

section \<open>Runs\<close>

text \<open>What the server is built with: the codec, the multistream encoder's orders, the profile, what a presence slot reports,
  and the samples of a wire frame.\<close>

record 'd Shell =
  sh_codec :: "'d Codec"
  sh_multistream :: "int \<Rightarrow> bool"
  sh_slotPose :: "wirePose list \<Rightarrow> wirePose"
  sh_profile :: Profile
  sh_frameSamples :: nat

datatype bk_op =
    BJoin string ResolvedEntity
  | BLeft string string
  | BStart string sinkFormat
  | BStop sinkSession
  | BObserve string "byte list" bool
  | BFrame nat nat "wirePose option" "byte list"
  | BLost nat bool
  | BGroupFrame nat nat "wireChannel list"
  | BTick

fun bk_step :: "'d Shell \<Rightarrow> bk_op \<Rightarrow> 'd Backend \<Rightarrow> 'd Backend option" where
  "bk_step sh (BJoin c e) b = map_option fst (EntityJoined (sh_codec sh) c e b)"
| "bk_step sh (BLeft c x) b = Some (EntityLeft c x b)"
| "bk_step sh (BStart x f) b = Some (fst (StartSink (sh_multistream sh) (sh_slotPose sh) x f b))"
| "bk_step sh (BStop ss) b = Some (Stop ss b)"
| "bk_step sh (BObserve key v cleared) b = Some (observe (sh_profile sh) key v cleared b)"
| "bk_step sh (BFrame r seq pose audio) b = rec_Frame (sh_codec sh) r seq pose audio b"
| "bk_step sh (BLost r likely) b = rec_Lost (sh_codec sh) (sh_frameSamples sh) r likely b"
| "bk_step sh (BGroupFrame g seq chans) b = group_Frame (sh_codec sh) g seq chans b"
| "bk_step sh BTick b = map_option (\<lambda>m. b \<lparr> bk_mixer := m \<rparr>) (Process (bk_mixer b))"

fun bk_exec :: "'d Shell \<Rightarrow> bk_op list \<Rightarrow> 'd Backend \<Rightarrow> 'd Backend option" where
  "bk_exec sh [] b = Some b"
| "bk_exec sh (op # ops) b = Option.bind (bk_step sh op b) (bk_exec sh ops)"

text \<open>A joining entity's source is always buildable, given a mono decoder.\<close>

lemma joinConfig_ok: "cd_new cd 1 \<noteq> None \<Longrightarrow> sourceOk cd (joinConfig sc c e)"
proof -
  assume cd: "cd_new cd 1 \<noteq> None"
  have "engine_cfg_ok (max 1 n) (5 * millisecond) (5 * millisecond)" for n using demo_engine_cfg(1) by (simp add: engine_cfg_ok_def)
  moreover have "engine_cfg_ok 1 (5 * millisecond) (5 * millisecond)" by (rule demo_engine_cfg(1))
  ultimately show ?thesis using cd by (simp add: sourceOk_def joinConfig_def applyDefaults_def Let_def millisecond_def split: option.split)
qed

definition bkInv :: "'d Codec \<Rightarrow> (int \<Rightarrow> bool) \<Rightarrow> Env \<Rightarrow> (int \<Rightarrow> bool) \<Rightarrow> Config \<Rightarrow> SourceCodec \<Rightarrow> 'd Backend \<Rightarrow> bool" where
  "bkInv cd ms env banks cfg sc b \<longleftrightarrow> connInv b \<and> reach cd ms env banks cfg (bk_mixer b) \<and> \<not> mx_stopped (bk_mixer b) \<and> bk_sourceCodec b = sc"

lemma quiet_inv: "quiet cd ms env banks cfg b b' \<Longrightarrow> bkInv cd ms env banks cfg sc b \<Longrightarrow> bkInv cd ms env banks cfg sc b'"
  using sameConn_inv[of b b'] by (auto simp: quiet_def bkInv_def sameConn_def)

lemma lifecycle_codec:
  "bk_sourceCodec (EntityLeft c x b) = bk_sourceCodec b"
  "EntityJoined cd c e b = Some (b', r) \<Longrightarrow> bk_sourceCodec b' = bk_sourceCodec b"
proof -
  have u: "bk_sourceCodec (unseat c gi b) = bk_sourceCodec b" for gi and b :: "'a Backend" using unseat_same(1)[of b c gi] by (simp add: sameConn_def)
  show "bk_sourceCodec (EntityLeft c x b) = bk_sourceCodec b" by (simp add: EntityLeft_def Let_def u split: option.split)
  assume j: "EntityJoined cd c e b = Some (b', r)"
  show "bk_sourceCodec b' = bk_sourceCodec b"
  proof (cases r)
    case (Ret k)
    obtain m h b1 rec where a: "sameConn (b \<lparr> bk_mixer := m, bk_nextRec := Suc k \<rparr>) b1"
      "b' = flush (rv_ID e) (putRec k rec (b1 \<lparr> bk_entities := (bk_entities b1)(rv_ID e \<mapsto> k) \<rparr>))" using EntityJoined_ok j Ret by metis
    then show ?thesis using flush_quiet[of _ _ _ _ _ "putRec k rec (b1 \<lparr> bk_entities := (bk_entities b1)(rv_ID e \<mapsto> k) \<rparr>)" "rv_ID e"]
      by (simp add: quiet_def putRec_def sameConn_def)
  qed (use j in \<open>auto simp: EntityJoined_def Let_def bind_eq_Some_conv split: prod.splits outcome.splits\<close>)
qed

lemma bk_step_inv:
  assumes "bkInv (sh_codec sh) (sh_multistream sh) env banks cfg sc b" "cd_new (sh_codec sh) 1 \<noteq> None" "delayModel env cfg" "envOk env" "bk_step sh op b = Some b'"
  shows "bkInv (sh_codec sh) (sh_multistream sh) env banks cfg sc b'"
proof -
  note r = assms(1)[unfolded bkInv_def]
  have rr: "reach (sh_codec sh) (sh_multistream sh) env banks cfg (bk_mixer b)" "\<not> mx_stopped (bk_mixer b)" "connInv b" "bk_sourceCodec b = sc" using r by auto
  note rdy = reach_ready[OF rr(1) assms(3,4) rr(2)]
  show ?thesis
  proof (cases op)
    case (BJoin c e)
    then obtain o' where j: "EntityJoined (sh_codec sh) c e b = Some (b', o')" using assms(5) by auto
    have ok: "sourceOk (sh_codec sh) (joinConfig (bk_sourceCodec b) c e)" by (rule joinConfig_ok[OF assms(2)])
    show ?thesis using EntityJoined_inv[OF rr(3,1) ok j] lifecycle_stopped(2)[OF j] lifecycle_codec(2)[OF j] rr by (simp add: bkInv_def)
  next
    case (BLeft c x)
    then show ?thesis using assms(5) EntityLeft_inv[OF rr(3,1)] rr by (auto simp: bkInv_def lifecycle_stopped(1) lifecycle_codec(1))
  next
    case (BStart x f)
    obtain b1 q where s: "StartSink (sh_multistream sh) (sh_slotPose sh) x f b = (b1, q)" by fastforce
    show ?thesis using quiet_inv[OF conjunct1[OF StartSink_inv[OF s rr(1)]] assms(1)] assms(5) BStart s by simp
  next
    case (BStop ss)
    then show ?thesis using assms(5) quiet_inv[OF quiet_Stop assms(1)] by auto
  next
    case (BObserve k v cl)
    then show ?thesis using assms(5) quiet_inv[OF quiet_observe assms(1)] by auto
  next
    case (BFrame k seq pose audio)
    then show ?thesis using assms(5) quiet_inv[OF rec_Frame_quiet[OF _ rdy(3)] assms(1)] by auto
  next
    case (BLost k l)
    then show ?thesis using assms(5) quiet_inv[OF rec_Lost_quiet assms(1)] by auto
  next
    case (BGroupFrame g seq chans)
    then show ?thesis using assms(5) quiet_inv[OF group_Frame_quiet assms(1)] by auto
  next
    case BTick
    then obtain m where m: "Process (bk_mixer b) = Some m" "b' = b \<lparr> bk_mixer := m \<rparr>" using assms(5) by auto
    have "mx_control m = mx_control ((bk_mixer b) \<lparr> mx_changes := [] \<rparr>)" by (rule Process_ready(3)[OF rdy(1) rr(2) m(1)])
    then have "mx_reg m = mx_reg (bk_mixer b)" "mx_stopped m = mx_stopped (bk_mixer b)" by (simp_all add: mx_control_def)
    moreover have "sameConn b b'" unfolding m(2) by (rule sameConn_mixer[OF srcOf_reg[OF calculation(1)]])
    ultimately show ?thesis using m sameConn_inv[OF _ rr(3)] reach.tick[OF rr(1,2) m(1)] rr by (simp add: bkInv_def)
  qed
qed

lemma bk_exec_inv:
  assumes "cd_new (sh_codec sh) 1 \<noteq> None" "delayModel env cfg" "envOk env"
  shows "bkInv (sh_codec sh) (sh_multistream sh) env banks cfg sc b \<Longrightarrow> bk_exec sh ops b = Some b' \<Longrightarrow>
    bkInv (sh_codec sh) (sh_multistream sh) env banks cfg sc b'"
proof (induction ops arbitrary: b)
  case (Cons op ops)
  then obtain b1 where b1: "bk_step sh op b = Some b1" "bk_exec sh ops b1 = Some b'" by (auto simp: bind_eq_Some_conv)
  show ?case by (rule Cons.IH[OF bk_step_inv[OF Cons.prems(1) assms b1(1)] b1(2)])
qed simp

lemma newBackend_inv: "New env banks cfg = Inr m \<Longrightarrow> delayModel env cfg \<Longrightarrow> bkInv cd ms env banks cfg sc (newBackend m sc)"
proof -
  assume n: "New env banks cfg = Inr m" "delayModel env cfg"
  have "mx_reg m = Map.empty" using n(1) by (auto simp: New_def Let_def split: if_splits)
  then have "connInv (newBackend m sc)" by (intro connInvI) (simp_all add: newBackend_def srcOf_def)
  then show ?thesis using reach.start[OF n(1)] New_inv[OF n] by (simp add: bkInv_def newBackend_def)
qed

text \<open>After a tick from a state of the invariant the audio side plays exactly the connected entities.\<close>

lemma tick_plays_connected:
  assumes "bkInv cd ms env banks cfg sc b" "delayModel env cfg" "envOk env"
  shows "\<exists>m'. Process (bk_mixer b) = Some m' \<and>
    (\<forall>x. Option.bind (mx_ents m' x) (\<lambda>e. map_option sr_handle (ent_src e)) = Option.bind (bk_entities b x) (\<lambda>r. map_option er_src (bk_recs b r)))"
proof -
  have r: "reach cd ms env banks cfg (bk_mixer b)" "\<not> mx_stopped (bk_mixer b)" "connInv b" using assms(1) by (auto simp: bkInv_def)
  note rdy = reach_ready[OF r(1) assms(2,3) r(2)]
  obtain m' where m': "Process (bk_mixer b) = Some m'" "tickOk m'" by (rule Process_completes[OF rdy(1) r(2)])
  have "mx_reg m' = mx_reg (bk_mixer b)" using Process_ready(3)[OF rdy(1) r(2) m'(1)] by (simp add: mx_control_def)
  then have ag: "agree (mx_reg (bk_mixer b) x) (mx_ents m' x)" for x using m'(2) by (simp add: tickOk_def audioOk_def)
  have "Option.bind (mx_ents m' x) (\<lambda>e. map_option sr_handle (ent_src e)) = map_option sr_handle (srcOf (bk_mixer b) x)" for x
    using ag[of x] by (cases "mx_reg (bk_mixer b) x"; cases "mx_ents m' x") (auto simp: srcOf_def)
  moreover have "map_option sr_handle (srcOf (bk_mixer b) x) = Option.bind (bk_entities b x) (\<lambda>r. map_option er_src (bk_recs b r))" for x
    using connInv_None[OF r(3)] connInv_Some[OF r(3)] by (cases "bk_entities b x") force+
  ultimately show ?thesis using m'(1) by auto
qed

section \<open>Derived state reaches the audio side\<close>

lemma applyAll_append: "applyAll (cs @ ds) m = (case applyAll cs m of Inl msg \<Rightarrow> Inl msg | Inr m \<Rightarrow> applyAll ds m)"
  by (induction cs arbitrary: m) (simp_all split: sum.split)

lemma drain_tail:
  assumes "liveOk m" "mx_changes m = cs @ ds" "\<And>\<sigma>. replayAll ds \<sigma> = \<sigma>"
  obtains m1 where "drainChanges m = applyAll ds m1" "\<And>x. agree (mx_reg m x) (mx_ents m1 x)" "slotsOk (mx_ents m1) (mx_slots m1)"
proof -
  obtain \<sigma> where \<sigma>: "audioOk m \<sigma>" "queueOk (length (mx_slots m)) \<sigma> cs" "mx_reg m = replayAll cs \<sigma>"
    using assms by (auto simp: liveOk_def queueOk_append replayAll_append)
  have "audioOk (m \<lparr> mx_changes := [] \<rparr>) \<sigma>" using \<sigma>(1) by (auto simp: audioOk_def)
  from applyAll_ok[OF this, of cs] obtain m1 where m1: "applyAll cs (m \<lparr> mx_changes := [] \<rparr>) = Inr m1" "audioOk m1 (replayAll cs \<sigma>)" using \<sigma>(2) by auto
  have "drainChanges m = applyAll ds m1" using m1(1) assms(2) by (simp add: drainChanges_def applyAll_append)
  then show ?thesis using that m1(2) \<sigma>(3) by (auto simp: audioOk_def)
qed

text \<open>What the flush queues for an entity the engine holds.\<close>

definition flushed :: "stateWiring \<Rightarrow> string \<Rightarrow> change list" where
  "flushed w x = (case sw_ents w x of None \<Rightarrow> [] | Some d \<Rightarrow> [ChParams x (renderParams d)]) @ (if x \<in> sw_muted w then [ChEntityMuted x True] else [])"

lemma flushed_replay: "replayAll (flushed w x) \<sigma> = \<sigma>"
  by (simp add: flushed_def replayAll_def split: option.split)

lemma flush_queue:
  assumes "mx_reg (bk_mixer b) x \<noteq> None"
  shows "mx_changes (bk_mixer (flush x b)) = mx_changes (bk_mixer b) @ flushed (bk_wiring b) x" "mx_reg (bk_mixer (flush x b)) = mx_reg (bk_mixer b)"
  using assms by (auto simp: flush_def flushEntity_def flushed_def Let_def SetRenderParams_def SetEntityMuted_def enqueue_def split: option.splits)

lemma ent_ids: "slotsOk E S \<Longrightarrow> E x = Some e \<Longrightarrow> ent_id e = x"
  by (simp add: slotsOk_def)

lemma flushed_applied:
  assumes "mx_ents m x = Some e" "ent_id e = x"
  shows "\<exists>m' e'. applyAll (flushed w x) m = Inr m' \<and> mx_ents m' x = Some e' \<and> ent_src e' = ent_src e \<and>
    (\<forall>d. sw_ents w x = Some d \<longrightarrow> ent_params e' = renderParams d) \<and> (x \<in> sw_muted w \<longrightarrow> enc_SpaceMuted (ent_enc e'))"
  using assms by (cases "sw_ents w x"; cases "x \<in> sw_muted w") (simp_all add: flushed_def setEnt_def markAudibleDirty_def SetSpaceMuted_def)

lemma join_admitted:
  assumes "cd_new cd 1 \<noteq> None" "rv_Lockstep e = None" "connInv b" "bk_entities b (rv_ID e) = None" "\<not> mx_closed (bk_mixer b)"
    "mx_reg (bk_mixer b) (rv_ID e) \<noteq> None \<or> mx_entityCount (bk_mixer b) < cf_MaxEntities (mx_cfg (bk_mixer b))"
  shows "\<exists>b'. EntityJoined cd c e b = Some (b', Ret (bk_nextRec b))"
proof -
  let ?cfg = "joinConfig (bk_sourceCodec b) c e" let ?m = "bk_mixer b"
  have ok: "sourceOk cd ?cfg" by (rule joinConfig_ok[OF assms(1)])
  have g: "sc_Group (applyDefaults ?cfg) = None" "sc_TestTone (applyDefaults ?cfg) = 0" using assms(2) by (simp_all add: joinConfig_def applyDefaults_def)
  obtain m1 r where b: "buildSource cd ?m (rv_ID e) (applyDefaults ?cfg) = (m1, r)" by fastforce
  have r: "m1 = ?m" "r \<noteq> Err x" for x using b g by (auto simp: buildSource_def split: sum.splits)
  obtain s where s: "r = Ret s" using r(2) buildSource_total[OF ok, of ?m "rv_ID e"] b by (cases r) auto
  have "srcOf ?m (rv_ID e) = None" by (rule connInv_None[OF assms(3,4)])
  then have "re_src re = None" if "mx_reg ?m (rv_ID e) = Some re" for re using that by (simp add: srcOf_def)
  then obtain m2 where "admit ?m (rv_ID e) (\<lambda>re. re_src re \<noteq> None) ErrDuplicateSource
      (\<lambda>re. re \<lparr> re_src := Some \<lparr> sr_handle = mx_nextSource ?m, sr_group = src_group s \<rparr> \<rparr>) = Inr m2"
    using assms(5,6) by (cases "mx_reg ?m (rv_ID e)") (auto simp: admit_def)
  then obtain m3 where "AddSource cd ?m (rv_ID e) ?cfg = (m3, Ret (mx_nextSource ?m))" using b s r(1) by (simp add: AddSource_eq Let_def)
  then show ?thesis using assms(2) by (simp add: EntityJoined_def Let_def)
qed

lemma join_reaches_audio:
  assumes "bkInv cd ms env banks cfg sc b" "cd_new cd 1 \<noteq> None" "EntityJoined cd c e b = Some (b', Ret r)" "delayModel env cfg" "envOk env"
  shows "\<exists>m' ent. drainChanges (bk_mixer b') = Inr m' \<and> mx_ents m' (rv_ID e) = Some ent \<and>
    map_option sr_handle (ent_src ent) = map_option er_src (bk_recs b' r) \<and> bk_entities b' (rv_ID e) = Some r \<and>
    (\<forall>d. sw_ents (bk_wiring b) (rv_ID e) = Some d \<longrightarrow> ent_params ent = renderParams d) \<and> (rv_ID e \<in> sw_muted (bk_wiring b) \<longrightarrow> enc_SpaceMuted (ent_enc ent))"
proof -
  let ?x = "rv_ID e"
  have i: "connInv b" "reach cd ms env banks cfg (bk_mixer b)" "\<not> mx_stopped (bk_mixer b)" using assms(1) by (auto simp: bkInv_def)
  have i': "reach cd ms env banks cfg (bk_mixer b')" "\<not> mx_stopped (bk_mixer b')"
    using EntityJoined_inv[OF i(1,2) joinConfig_ok[OF assms(2)] assms(3)] lifecycle_stopped(2)[OF assms(3)] i(3) by auto
  have live: "liveOk (bk_mixer b')" using reach_ready(1)[OF i'(1) assms(4,5) i'(2)] i'(2) by (auto simp: readyOk_def mxInv_def)
  obtain m h b1 rec where j: "AddSource cd (bk_mixer b) ?x (joinConfig (bk_sourceCodec b) c e) = (m, Ret h)" "bk_mixer b1 = m" "er_src rec = h"
    "b' = flush ?x (putRec r rec (b1 \<lparr> bk_entities := (bk_entities b1)(?x \<mapsto> r) \<rparr>))" "bk_wiring b1 = bk_wiring b" using EntityJoined_ok[OF assms(3)] by metis
  define b2 where "b2 = putRec r rec (b1 \<lparr> bk_entities := (bk_entities b1)(?x \<mapsto> r) \<rparr>)"
  have b2: "bk_mixer b2 = m" "bk_wiring b2 = bk_wiring b" "bk_recs b2 r = Some rec" "bk_entities b2 ?x = Some r" using j(2,5) by (simp_all add: b2_def putRec_def)
  obtain ref where "srcOf m ?x = Some ref" "sr_handle ref = h" using AddSource_src(1)[OF j(1)] by auto
  then obtain re where re: "mx_reg m ?x = Some re" "re_src re = Some ref" "sr_handle ref = h" by (cases "mx_reg m ?x") (auto simp: srcOf_def)
  note q = flush_queue[of b2 ?x, unfolded b2, OF option.discI[OF re(1)]]
  have b': "b' = flush ?x b2" using j(4) by (simp add: b2_def)
  obtain m1 where m1: "drainChanges (bk_mixer b') = applyAll (flushed (bk_wiring b) ?x) m1" "agree (mx_reg (bk_mixer b') ?x) (mx_ents m1 ?x)" "slotsOk (mx_ents m1) (mx_slots m1)"
    using drain_tail[OF live, of "mx_changes m" "flushed (bk_wiring b) ?x"] q(1) flushed_replay b' by metis
  have "mx_reg (bk_mixer b') ?x = Some re" using q(2) b' re(1) by simp
  then obtain en where en: "mx_ents m1 ?x = Some en" "ent_src en = Some ref" using m1(2) re(2) by (cases "mx_ents m1 ?x") auto
  obtain m' e' where f: "applyAll (flushed (bk_wiring b) ?x) m1 = Inr m'" "mx_ents m' ?x = Some e'" "ent_src e' = ent_src en"
    "\<forall>d. sw_ents (bk_wiring b) ?x = Some d \<longrightarrow> ent_params e' = renderParams d" "?x \<in> sw_muted (bk_wiring b) \<longrightarrow> enc_SpaceMuted (ent_enc e')"
    using flushed_applied[OF en(1) ent_ids[OF m1(3) en(1)]] by blast
  have k: "bk_recs b' r = Some rec" "bk_entities b' ?x = Some r" using b2(3,4) b' by (simp_all add: flush_def split: prod.split)
  have "map_option sr_handle (ent_src e') = map_option er_src (bk_recs b' r)" using f(3) en(2) re(3) j(3) k(1) by simp
  then show ?thesis using m1(1) f k(2) by auto
qed

section \<open>Properties\<close>

text \<open>C5. The map of connected entities is the engine's set of sources. After any run of the server (entities
  joining and leaving, sinks starting and stopping, state operations, packets, losses, lockstep frames and
  ticks, in any order) an entity is in the map exactly when the mixer has a source registered for it; the
  next tick completes, and after it the audio side plays for each connected entity the source its record
  holds, and nothing for anyone else. A single-source entity that is not connected is admitted
  whenever the mixer is open and has room.\<close>

theorem conn_map_is_engine_set:
  assumes "New env banks cfg = Inr m" "delayModel env cfg" "envOk env" "cd_new (sh_codec sh) 1 \<noteq> None" "bk_exec sh ops (newBackend m sc) = Some b"
  shows "entitySnapshot b = {x. srcOf (bk_mixer b) x \<noteq> None} \<and>
    (\<exists>b'. bk_step sh BTick b = Some b' \<and> (\<forall>x. Option.bind (mx_ents (bk_mixer b') x) (\<lambda>e. map_option sr_handle (ent_src e)) =
       Option.bind (bk_entities b x) (\<lambda>r. map_option er_src (bk_recs b r)))) \<and>
    (\<forall>c e. rv_Lockstep e = None \<and> rv_ID e \<notin> entitySnapshot b \<and> \<not> mx_closed (bk_mixer b) \<and> mx_entityCount (bk_mixer b) < cf_MaxEntities cfg \<longrightarrow>
       (\<exists>b'. EntityJoined (sh_codec sh) c e b = Some (b', Ret (bk_nextRec b))))"
proof -
  have i: "bkInv (sh_codec sh) (sh_multistream sh) env banks cfg sc b" by (rule bk_exec_inv[OF assms(4,2,3) newBackend_inv[OF assms(1,2)] assms(5)])
  then have c: "connInv b" "mx_cfg (bk_mixer b) = cfg" using reach_ready(4)[OF _ assms(2,3)] by (auto simp: bkInv_def)
  have "dom (srcOf (bk_mixer b)) = entitySnapshot b" by (rule connInv_srcs[OF c(1)])
  moreover have "\<exists>b'. EntityJoined (sh_codec sh) c' e b = Some (b', Ret (bk_nextRec b))"
    if h: "rv_Lockstep e = None" "rv_ID e \<notin> entitySnapshot b" "\<not> mx_closed (bk_mixer b)" "mx_entityCount (bk_mixer b) < cf_MaxEntities cfg" for c' e
    by (rule join_admitted[OF assms(4) h(1) c(1) _ h(3)]) (use h c(2) in \<open>auto simp: entitySnapshot_def\<close>)
  moreover obtain m' where "Process (bk_mixer b) = Some m'"
    "\<forall>x. Option.bind (mx_ents m' x) (\<lambda>e. map_option sr_handle (ent_src e)) = Option.bind (bk_entities b x) (\<lambda>r. map_option er_src (bk_recs b r))"
    using tick_plays_connected[OF i assms(2,3)] by blast
  ultimately show ?thesis by auto
qed

definition demo_profile :: Profile where
  "demo_profile = \<lparr> pf_DefaultGain = 1, pf_DefaultAttenuation = 2, pf_DefaultSize = 0, pf_DefaultDirectivity = 0, pf_ParseOp = (\<lambda>key v cleared. if key = ''mute'' then Some (EntityMuted ''a'' True) else None) \<rparr>"

definition demo_shell :: "unit Shell" where
  "demo_shell = \<lparr> sh_codec = demo_codec, sh_multistream = (\<lambda>_. True), sh_slotPose = last, sh_profile = demo_profile, sh_frameSamples = 240 \<rparr>"

definition demo_entity :: "string \<Rightarrow> ResolvedEntity" where
  "demo_entity x = \<lparr> rv_ID = x, rv_Frame = ''world'', rv_Dof = Some 3, rv_Position = Some (1, 2, 0), rv_Attitude = None, rv_Quality = 1, rv_Redundancy = 0, rv_Lockstep = None \<rparr>"

lemma demo_shell_codec: "cd_new (sh_codec demo_shell) 1 \<noteq> None" "sh_codec demo_shell = demo_codec"
  by (simp_all add: demo_shell_def demo_codec_def)

theorem conn_map_is_engine_set_witness:
  "\<exists>b b'. bk_exec demo_shell [BObserve ''lasa.entity.a'' [] False] (newBackend (demo_new_mixer 3) SourceCodecOpus) = Some b \<and> entitySnapshot b = {} \<and>
     EntityJoined demo_codec ''c'' (demo_entity ''a'') b = Some (b', Ret 0)"
proof -
  define b where "b = observe demo_profile ''lasa.entity.a'' [] False (newBackend (demo_new_mixer 3) SourceCodecOpus)"
  have b: "bk_exec demo_shell [BObserve ''lasa.entity.a'' [] False] (newBackend (demo_new_mixer 3) SourceCodecOpus) = Some b" by (simp add: b_def demo_shell_def)
  have f: "bk_entities b = Map.empty" "bk_mixer b = demo_new_mixer 3" "bk_nextRec b = 0" by (simp_all add: b_def observe_def markerEntity_def newBackend_def Let_def)
  have n: "New demo_env (\<lambda>_. True) (DefaultConfig \<lparr> cf_MaxEntities := int 3 \<rparr>) = Inr (demo_new_mixer 3)" using demo_mixer[of 2] by (simp add: numeral_3_eq_3)
  have m: "\<not> mx_closed (demo_new_mixer 3)" "mx_entityCount (demo_new_mixer 3) = 0" by (simp_all add: demo_new_mixer_def New_def DefaultConfig_def Let_def)
  note t = conn_map_is_engine_set[OF n demo_delayModel demo_envOk demo_shell_codec(1) b]
  have e: "entitySnapshot b = {}" by (simp add: entitySnapshot_def f)
  then have "\<exists>b'. EntityJoined demo_codec ''c'' (demo_entity ''a'') b = Some (b', Ret 0)"
    using conjunct2[OF conjunct2[OF t], rule_format, of "demo_entity ''a''" "''c''"] m by (simp add: f demo_entity_def demo_shell_codec)
  then show ?thesis using b e by blast
qed

text \<open>C6. An entity joins with the state it was given before. After any run of the server, when a join
  succeeds the entity's record is in the map, and applying the queue gives the audio side an entity with that
  record's source; it has exactly the parameters and channels the wiring had derived for it from the state
  operations so far, and is muted when a mute of the space was on, even one set before the entity existed.\<close>

theorem join_applies_state:
  assumes "New env banks cfg = Inr m" "delayModel env cfg" "envOk env" "cd_new (sh_codec sh) 1 \<noteq> None" "bk_exec sh ops (newBackend m sc) = Some b"
    "EntityJoined (sh_codec sh) c e b = Some (b', Ret r)"
  shows "\<exists>m' ent. drainChanges (bk_mixer b') = Inr m' \<and> mx_ents m' (rv_ID e) = Some ent \<and>
    map_option sr_handle (ent_src ent) = map_option er_src (bk_recs b' r) \<and> bk_entities b' (rv_ID e) = Some r \<and>
    (\<forall>d. sw_ents (bk_wiring b) (rv_ID e) = Some d \<longrightarrow> ent_params ent = renderParams d) \<and> (rv_ID e \<in> sw_muted (bk_wiring b) \<longrightarrow> enc_SpaceMuted (ent_enc ent))"
  by (rule join_reaches_audio[OF bk_exec_inv[OF assms(4,2,3) newBackend_inv[OF assms(1,2)] assms(5)] assms(4,6,2,3)])

theorem join_applies_state_witness:
  "\<exists>b b' m' ent. bk_exec demo_shell [BObserve ''lasa.entity.a'' [] False, BObserve ''mute'' [] False] (newBackend (demo_new_mixer 3) SourceCodecOpus) = Some b \<and>
     EntityJoined demo_codec ''c'' (demo_entity ''a'') b = Some (b', Ret 0) \<and> drainChanges (bk_mixer b') = Inr m' \<and> mx_ents m' ''a'' = Some ent \<and>
     rp_Attenuation (ent_params ent) = 2 \<and> enc_SpaceMuted (ent_enc ent)"
proof -
  let ?b0 = "newBackend (demo_new_mixer 3) SourceCodecOpus"
  define b where "b = observe demo_profile ''mute'' [] False (observe demo_profile ''lasa.entity.a'' [] False ?b0)"
  have b: "bk_exec demo_shell [BObserve ''lasa.entity.a'' [] False, BObserve ''mute'' [] False] ?b0 = Some b" by (simp add: b_def demo_shell_def)
  have m: "\<not> mx_closed (demo_new_mixer 3)" "mx_entityCount (demo_new_mixer 3) = 0" "mx_reg (demo_new_mixer 3) = Map.empty" "cf_MaxEntities (mx_cfg (demo_new_mixer 3)) = 3"
    by (simp_all add: demo_new_mixer_def New_def DefaultConfig_def Let_def)
  have f: "bk_entities b = Map.empty" "bk_mixer b = demo_new_mixer 3" "bk_nextRec b = 0" "sw_ents (bk_wiring b) ''a'' = Some (newDerivedEntity demo_profile)" "''a'' \<in> sw_muted (bk_wiring b)"
    using m(3) by (simp_all add: b_def observe_def markerEntity_def newBackend_def Let_def demo_profile_def onWiring_def SetEntityMuted_def observeMarker_def newStateWiring_def)
  have n: "New demo_env (\<lambda>_. True) (DefaultConfig \<lparr> cf_MaxEntities := int 3 \<rparr>) = Inr (demo_new_mixer 3)" using demo_mixer[of 2] by (simp add: numeral_3_eq_3)
  have "connInv b" by (rule connInvI) (simp_all add: f m srcOf_def)
  then obtain b' where j: "EntityJoined demo_codec ''c'' (demo_entity ''a'') b = Some (b', Ret 0)"
    using join_admitted[OF demo_shell_codec(1), of "demo_entity ''a''" b "''c''"] m by (auto simp: f demo_entity_def demo_shell_codec)
  have a: "rv_ID (demo_entity ''a'') = ''a''" by (simp add: demo_entity_def)
  obtain m' ent where "drainChanges (bk_mixer b') = Inr m'" "mx_ents m' ''a'' = Some ent" "ent_params ent = renderParams (newDerivedEntity demo_profile)" "enc_SpaceMuted (ent_enc ent)"
    using join_applies_state[OF n demo_delayModel demo_envOk demo_shell_codec(1) b, of "''c''" "demo_entity ''a''" b' 0] j f(4,5) unfolding a demo_shell_codec by blast
  then show ?thesis using b j by (auto simp: renderParams_def newDerivedEntity_def demo_profile_def)
qed

end
