(* ===== verification/Backend_Poses.thy ===== *)
theory Backend_Poses
  imports Backend_Safety Render_Poses
begin

text \<open>
  Poses in the server: what the presence slot of an entity reports and what its sinks are rendered from
  never part, in any run.
\<close>

section \<open>The sinks of a record show the pose of its slot\<close>

fun sinkPoseOf :: "'d Mixer \<Rightarrow> poseSink \<Rightarrow> Pose option" where
  "sinkPoseOf m (BinauralSink k) = sk_pose (mx_sinks m k)"
| "sinkPoseOf m (AmbisonicSink k) = sk_pose (mx_ambis m k)"

fun sinkUsed :: "'d Mixer \<Rightarrow> poseSink \<Rightarrow> bool" where
  "sinkUsed m (BinauralSink k) \<longleftrightarrow> k < mx_nextSink m"
| "sinkUsed m (AmbisonicSink k) \<longleftrightarrow> k < mx_nextAmbi m"

lemma posesOf_eq:
  assumes "posesOf m' = posesOf m"
  shows "sinkPoseOf m' = sinkPoseOf m" "sinkUsed m' = sinkUsed m"
proof -
  have f: "\<And>k. sk_pose (mx_sinks m' k) = sk_pose (mx_sinks m k)" "\<And>k. sk_pose (mx_ambis m' k) = sk_pose (mx_ambis m k)" "mx_nextSink m' = mx_nextSink m" "mx_nextAmbi m' = mx_nextAmbi m"
    using assms by (auto simp: posesOf_def fun_eq_iff)
  have "sinkPoseOf m' s = sinkPoseOf m s" "sinkUsed m' s = sinkUsed m s" for s by (cases s; simp add: f)+
  then show "sinkPoseOf m' = sinkPoseOf m" "sinkUsed m' = sinkUsed m" by blast+
qed

definition poseInv :: "(wirePose list \<Rightarrow> wirePose) \<Rightarrow> 'd Backend \<Rightarrow> bool" where
  "poseInv sp b \<longleftrightarrow> (\<forall>r rec. bk_recs b r = Some rec \<longrightarrow> r < bk_nextRec b \<and>
     (\<forall>s\<in>set (er_sinks rec). sinkUsed (bk_mixer b) s \<and> sinkPoseOf (bk_mixer b) s = Some (enginePose (sp (er_slot rec))) \<and>
        (\<forall>r' rec'. bk_recs b r' = Some rec' \<and> s \<in> set (er_sinks rec') \<longrightarrow> r' = r)))"

lemma poseInvD:
  assumes "poseInv sp b" "bk_recs b r = Some rec"
  shows "r < bk_nextRec b" "s \<in> set (er_sinks rec) \<Longrightarrow> sinkUsed (bk_mixer b) s" "s \<in> set (er_sinks rec) \<Longrightarrow> sinkPoseOf (bk_mixer b) s = Some (enginePose (sp (er_slot rec)))"
    "s \<in> set (er_sinks rec) \<Longrightarrow> bk_recs b r' = Some rec' \<Longrightarrow> s \<in> set (er_sinks rec') \<Longrightarrow> r' = r"
  using assms unfolding poseInv_def by blast+

text \<open>Records that only lose sinks, or are new and have none.\<close>

definition shrinks :: "'d Backend \<Rightarrow> 'd Backend \<Rightarrow> bool" where
  "shrinks b b' \<longleftrightarrow> (\<forall>s. sinkPoseOf (bk_mixer b') s = sinkPoseOf (bk_mixer b) s) \<and> (\<forall>s. sinkUsed (bk_mixer b) s \<longrightarrow> sinkUsed (bk_mixer b') s) \<and> bk_nextRec b \<le> bk_nextRec b' \<and>
     (\<forall>r rec'. bk_recs b' r = Some rec' \<longrightarrow> (er_sinks rec' = [] \<and> r < bk_nextRec b') \<or>
        (\<exists>rec. bk_recs b r = Some rec \<and> er_slot rec' = er_slot rec \<and> set (er_sinks rec') \<subseteq> set (er_sinks rec)))"

lemma shrinks_inv:
  assumes "shrinks b b'" "poseInv sp b"
  shows "poseInv sp b'"
  unfolding poseInv_def
proof (intro allI impI conjI ballI)
  fix r rec' assume r: "bk_recs b' r = Some rec'"
  have sh: "(er_sinks rec1 = [] \<and> r1 < bk_nextRec b') \<or> (\<exists>rec. bk_recs b r1 = Some rec \<and> er_slot rec1 = er_slot rec \<and> set (er_sinks rec1) \<subseteq> set (er_sinks rec))"
    if "bk_recs b' r1 = Some rec1" for r1 rec1 using assms(1) that unfolding shrinks_def by blast
  show "r < bk_nextRec b'" using sh[OF r] poseInvD(1)[OF assms(2), of r] assms(1) by (auto simp: shrinks_def)
  fix s assume s: "s \<in> set (er_sinks rec')"
  then obtain rec where rec: "bk_recs b r = Some rec" "er_slot rec' = er_slot rec" "s \<in> set (er_sinks rec)" using sh[OF r] by auto
  show "sinkUsed (bk_mixer b') s" using poseInvD(2)[OF assms(2) rec(1,3)] assms(1) by (simp add: shrinks_def)
  show "sinkPoseOf (bk_mixer b') s = Some (enginePose (sp (er_slot rec')))" using poseInvD(3)[OF assms(2) rec(1,3)] assms(1) rec(2) by (simp add: shrinks_def)
  fix q recq assume q: "bk_recs b' q = Some recq \<and> s \<in> set (er_sinks recq)"
  then obtain rec2 where "bk_recs b q = Some rec2" "s \<in> set (er_sinks rec2)" using sh[of q recq] by auto
  then show "q = r" using poseInvD(4)[OF assms(2) rec(1,3)] by blast
qed

lemma shrinksI:
  assumes "posesOf (bk_mixer b') = posesOf (bk_mixer b)" "bk_nextRec b \<le> bk_nextRec b'"
    "\<And>r rec'. bk_recs b' r = Some rec' \<Longrightarrow> (er_sinks rec' = [] \<and> r < bk_nextRec b') \<or>
        (\<exists>rec. bk_recs b r = Some rec \<and> er_slot rec' = er_slot rec \<and> set (er_sinks rec') \<subseteq> set (er_sinks rec))"
  shows "shrinks b b'"
  using assms(2,3) posesOf_eq[OF assms(1)] unfolding shrinks_def by metis

lemma shrinks_mixer: "posesOf m = posesOf (bk_mixer b) \<Longrightarrow> shrinks b (b \<lparr> bk_mixer := m \<rparr>)"
  by (rule shrinksI) auto

lemma shrinks_refl [simp]: "shrinks b b"
  by (auto simp: shrinks_def)

subsection \<open>Enforcing a pose\<close>

lemma setSinkPose_pose: "sinkPoseOf (setSinkPose p s m) s' = (if s' = s then Some p else sinkPoseOf m s')" "sinkUsed (setSinkPose p s m) s' = sinkUsed m s'"
  by (cases s; cases s'; simp add: SetPose_def SetAmbiPose_def)+

lemma setSinkPoses_pose: "sinkPoseOf (fold (setSinkPose p) ss m) s' = (if s' \<in> set ss then Some p else sinkPoseOf m s')" "sinkUsed (fold (setSinkPose p) ss m) s' = sinkUsed m s'"
  by (induction ss arbitrary: m) (simp_all add: setSinkPose_pose)

lemma enforcePose_inv:
  assumes "enforcePose r p b = (ep, b')" "poseInv sp b" "\<And>xs q. sp (xs @ [q]) = q"
  shows "poseInv sp b'"
proof (cases "\<exists>rec wp. bk_recs b r = Some rec \<and> enforced rec p = Some wp")
  case False
  then show ?thesis using assms(1,2) by (auto simp: enforcePose_eq split: option.splits)
next
  case True
  then obtain rec wp where w: "bk_recs b r = Some rec" "enforced rec p = Some wp" by blast
  define m where "m = fold (setSinkPose (enginePose wp)) (er_sinks rec) (bk_mixer b)"
  have b': "b' = putRec r (rec \<lparr> er_slot := er_slot rec @ [wp] \<rparr>) (b \<lparr> bk_mixer := m \<rparr>)" using assms(1) w by (simp add: enforcePose_eq m_def)
  have recs: "bk_recs b' q = (if q = r then Some (rec \<lparr> er_slot := er_slot rec @ [wp] \<rparr>) else bk_recs b q)" "bk_nextRec b' = bk_nextRec b" "bk_mixer b' = m" for q by (simp_all add: b' putRec_def)
  show ?thesis unfolding poseInv_def
  proof (intro allI impI conjI ballI)
    fix q rc assume q: "bk_recs b' q = Some rc"
    define rc0 where "rc0 = the (bk_recs b q)"
    have rc0: "bk_recs b q = Some rc0" "er_sinks rc = er_sinks rc0" using q w(1) by (auto simp: recs(1) rc0_def split: if_splits)
    show "q < bk_nextRec b'" using poseInvD(1)[OF assms(2) rc0(1)] recs(2) by simp
    fix s assume "s \<in> set (er_sinks rc)"
    then have s: "s \<in> set (er_sinks rc0)" using rc0 by simp
    show "sinkUsed (bk_mixer b') s" using poseInvD(2)[OF assms(2) rc0(1) s] by (simp add: recs(3) m_def setSinkPoses_pose)
    show "sinkPoseOf (bk_mixer b') s = Some (enginePose (sp (er_slot rc)))"
    proof (cases "q = r")
      case True
      then have "rc0 = rec" using rc0(1) w(1) by simp
      then show ?thesis using q True s assms(3) by (simp add: recs m_def setSinkPoses_pose) auto
    next
      case False
      then have "s \<notin> set (er_sinks rec)" using poseInvD(4)[OF assms(2) w(1) _ rc0(1) s] by blast
      then show ?thesis using poseInvD(3)[OF assms(2) rc0(1) s] q False rc0(1) by (simp add: recs m_def setSinkPoses_pose)
    qed
    fix q' rc' assume h: "bk_recs b' q' = Some rc' \<and> s \<in> set (er_sinks rc')"
    then have "\<exists>rc1. bk_recs b q' = Some rc1 \<and> er_sinks rc1 = er_sinks rc'" using w(1) by (auto simp: recs(1) split: if_splits)
    then show "q' = q" using poseInvD(4)[OF assms(2) rc0(1) s] h by metis
  qed
qed

subsection \<open>Starting a sink\<close>

lemma engineSink_poses:
  assumes "engineSink ms x f m = (m', r)"
  shows "sinkPoseOf m' s = sinkPoseOf m s \<and> (sinkUsed m s \<longrightarrow> sinkUsed m' s) \<and> (\<forall>k. r = Ret k \<longrightarrow> \<not> sinkUsed m k \<and> sinkUsed m' k)"
proof -
  define m1 where "m1 = m \<lparr> mx_nextSink := mx_nextSink m + 1 \<rparr>"
  define m2 where "m2 = m \<lparr> mx_nextAmbi := mx_nextAmbi m + 1 \<rparr>"
  have p: "sinkPoseOf m1 = sinkPoseOf m" "sinkPoseOf m2 = sinkPoseOf m" by (rule ext, rename_tac s, case_tac s; simp add: m1_def m2_def)+
  have a: "sinkPoseOf m' s = sinkPoseOf m s \<and> (sinkUsed m s \<longrightarrow> sinkUsed m' s) \<and> sinkUsed m' (BinauralSink (mx_nextSink m)) \<and> (\<forall>k. q = Ret k \<longrightarrow> k = mx_nextSink m)"
    if "AddSink m x = (m', q)" for q
  proof -
    have "posesOf m' = posesOf m1 \<and> (\<forall>k. q = Ret k \<longrightarrow> k = mx_nextSink m)"
      using that by (auto simp: AddSink_def Let_def m1_def dest: admit_poses split: sum.splits)
    then show ?thesis using posesOf_eq[of m' m1] p(1) by (cases s) (auto simp: m1_def)
  qed
  have b: "sinkPoseOf m' s = sinkPoseOf m s \<and> (sinkUsed m s \<longrightarrow> sinkUsed m' s) \<and> (\<forall>k. q = Ret k \<longrightarrow> k = mx_nextAmbi m \<and> sinkUsed m' (AmbisonicSink k))"
    if "AddAmbiSink ms m x i = (m', q)" for q i
  proof -
    have "posesOf m' = posesOf m2 \<and> (\<forall>k. q = Ret k \<longrightarrow> k = mx_nextAmbi m) \<or> m' = m \<and> (\<forall>k. q \<noteq> Ret k)"
      using that by (auto simp: AddAmbiSink_def Let_def m2_def dest: admit_poses split: sum.splits if_splits)
    then show ?thesis
    proof
      assume h: "posesOf m' = posesOf m2 \<and> (\<forall>k. q = Ret k \<longrightarrow> k = mx_nextAmbi m)"
      then have "sinkPoseOf m' = sinkPoseOf m" "sinkUsed m' = sinkUsed m2" using posesOf_eq[of m' m2] p(2) by simp_all
      moreover have "sinkUsed m s \<longrightarrow> sinkUsed m2 s" "sinkUsed m2 (AmbisonicSink (mx_nextAmbi m))" by (cases s; simp add: m2_def)+
      ultimately show ?thesis using h by auto
    qed auto
  qed
  show ?thesis
  proof (cases f)
    case TrackBinaural
    obtain q where "AddSink m x = (m', q)" "r = (case q of Ret k \<Rightarrow> Ret (BinauralSink k) | Err e \<Rightarrow> Err e | Panic msg \<Rightarrow> Panic msg)"
      using assms TrackBinaural by (cases "AddSink m x") (auto simp: engineSink_def Let_def)
    then show ?thesis using a[of q] by (cases q) auto
  next
    case TrackAmbi2
    obtain q where "AddAmbiSink ms m x 2 = (m', q)" "r = (case q of Ret k \<Rightarrow> Ret (AmbisonicSink k) | Err e \<Rightarrow> Err e | Panic msg \<Rightarrow> Panic msg)"
      using assms TrackAmbi2 by (cases "AddAmbiSink ms m x 2") (auto simp: engineSink_def Let_def)
    then show ?thesis using b[of 2 q] by (cases q) auto
  next
    case TrackAmbi3
    obtain q where "AddAmbiSink ms m x 3 = (m', q)" "r = (case q of Ret k \<Rightarrow> Ret (AmbisonicSink k) | Err e \<Rightarrow> Err e | Panic msg \<Rightarrow> Panic msg)"
      using assms TrackAmbi3 by (cases "AddAmbiSink ms m x 3") (auto simp: engineSink_def Let_def)
    then show ?thesis using b[of 3 q] by (cases q) auto
  qed (use assms in \<open>auto simp: engineSink_def\<close>)
qed

lemma addPoseSink_inv:
  assumes "poseInv sp b" "bk_recs b r = Some rec" "sinkUsed (bk_mixer b) s" "\<And>q rc. bk_recs b q = Some rc \<Longrightarrow> s \<notin> set (er_sinks rc)"
  shows "poseInv sp (addPoseSink sp r s b)"
proof -
  let ?b = "addPoseSink sp r s b"
  have recs: "bk_recs ?b q = (if q = r then Some (rec \<lparr> er_sinks := er_sinks rec @ [s] \<rparr>) else bk_recs b q)" "bk_nextRec ?b = bk_nextRec b"
    "bk_mixer ?b = setSinkPose (enginePose (sp (er_slot rec))) s (bk_mixer b)" for q using assms(2) by (simp_all add: addPoseSink_eq putRec_def)
  have old: "\<exists>rc0. bk_recs b q = Some rc0 \<and> er_slot rc = er_slot rc0 \<and> set (er_sinks rc) = (if q = r then insert s (set (er_sinks rc0)) else set (er_sinks rc0)) \<and> (q = r \<longrightarrow> rc0 = rec)"
    if "bk_recs ?b q = Some rc" for q rc using that assms(2) by (auto simp: recs(1) split: if_splits)
  show ?thesis unfolding poseInv_def
  proof (intro allI impI conjI ballI)
    fix q rc assume q: "bk_recs ?b q = Some rc"
    then obtain rc0 where rc0: "bk_recs b q = Some rc0" "er_slot rc = er_slot rc0" "set (er_sinks rc) = (if q = r then insert s (set (er_sinks rc0)) else set (er_sinks rc0))" "q = r \<longrightarrow> rc0 = rec"
      using old by blast
    show "q < bk_nextRec ?b" using poseInvD(1)[OF assms(1) rc0(1)] recs(2) by simp
    fix t assume t: "t \<in> set (er_sinks rc)"
    then have c: "t = s \<and> q = r \<or> t \<in> set (er_sinks rc0) \<and> t \<noteq> s" using rc0(3) assms(4)[OF rc0(1)] by (auto split: if_splits)
    show "sinkUsed (bk_mixer ?b) t" using c assms(3) poseInvD(2)[OF assms(1) rc0(1), of t] by (auto simp: recs(3) setSinkPose_pose)
    show "sinkPoseOf (bk_mixer ?b) t = Some (enginePose (sp (er_slot rc)))" using c rc0(2,4) poseInvD(3)[OF assms(1) rc0(1), of t] by (auto simp: recs(3) setSinkPose_pose)
    fix q' rc' assume h: "bk_recs ?b q' = Some rc' \<and> t \<in> set (er_sinks rc')"
    then obtain rc1 where rc1: "bk_recs b q' = Some rc1" "set (er_sinks rc') = (if q' = r then insert s (set (er_sinks rc1)) else set (er_sinks rc1))" using old by blast
    show "q' = q" using c
    proof
      assume "t = s \<and> q = r"
      then show ?thesis using h rc1 assms(4)[OF rc1(1)] by (auto split: if_splits)
    next
      assume "t \<in> set (er_sinks rc0) \<and> t \<noteq> s"
      then show ?thesis using poseInvD(4)[OF assms(1) rc0(1) _ rc1(1)] h rc1(2) by (auto split: if_splits)
    qed
  qed
qed

lemma StartSink_poses:
  assumes "poseInv sp b"
  shows "poseInv sp (fst (StartSink ms sp x f b))"
proof (cases "Option.bind (bk_entities b x) (\<lambda>r. map_option (\<lambda>rec. (r, rec)) (bk_recs b r))")
  case None
  then show ?thesis using assms by (simp add: StartSink_def)
next
  case (Some p)
  obtain k rec where p: "p = (k, rec)" by fastforce
  have k: "bk_recs b k = Some rec" using Some p by (auto simp: bind_eq_Some_conv)
  obtain m q where q: "engineSink ms x f (bk_mixer b) = (m, q)" by fastforce
  note e = engineSink_poses[OF q]
  have b1: "poseInv sp (b \<lparr> bk_mixer := m \<rparr>)" by (rule shrinks_inv[OF _ assms]) (use e in \<open>auto simp: shrinks_def\<close>)
  show ?thesis
  proof (cases "er_headFrame rec \<or> (\<forall>s. q \<noteq> Ret s)")
    case True
    then show ?thesis using Some p q assms b1 by (cases q) (auto simp: StartSink_def)
  next
    case False
    then obtain s where s: "q = Ret s" by blast
    have fr: "\<not> sinkUsed (bk_mixer b) s" "sinkUsed m s" using e s by blast+
    have "poseInv sp (addPoseSink sp k s (b \<lparr> bk_mixer := m \<rparr>))"
      by (rule addPoseSink_inv[OF b1, of k rec]) (use k fr poseInvD(2)[OF assms] in auto)
    then show ?thesis using Some p q s False by (simp add: StartSink_def)
  qed
qed

subsection \<open>Every other call\<close>

lemma onSource_poses: "onSource h f b = Some b' \<Longrightarrow> shrinks b b'"
  by (auto simp: onSource_def bind_eq_Some_conv intro!: shrinks_mixer)

lemma onWiring_poses:
  assumes "f (bk_wiring b, bk_mixer b) = (w, m)" "posesOf m = posesOf (bk_mixer b)"
  shows "shrinks b (onWiring f b)"
  by (rule shrinksI) (use assms in \<open>auto simp: onWiring_def\<close>)

lemma observeEvent_poses: "shrinks b (observeEvent ev b)"
proof (cases ev)
  case (Dof x d)
  show ?thesis unfolding Dof observeEvent.simps
    by (rule shrinksI) (auto simp: setDof_def putRec_def bind_eq_Some_conv split: option.splits if_splits)
qed (auto intro!: shrinks_mixer onWiring_poses[OF surjective_pairing] simp: entityUpdate_def channelUpdate_def Let_def split: option.split)

lemma observe_poses: "shrinks b (observe pf key v cl b)"
proof -
  have "shrinks b (b \<lparr> bk_wiring := w \<rparr>)" for w by (rule shrinksI) auto
  then show ?thesis by (simp add: observe_def observeEvent_poses split: option.split)
qed

lemma Stop_poses: "shrinks b (Stop ss b)"
proof (rule shrinksI)
  have r: "bk_mixer (removePoseSink r s b) = bk_mixer b" "bk_nextRec (removePoseSink r s b) = bk_nextRec b" for r s by (simp_all add: removePoseSink_def putRec_def split: option.split)
  show "posesOf (bk_mixer (Stop ss b)) = posesOf (bk_mixer b)" by (simp add: Stop_def Let_def r split: sinkFormat.split)
  show "bk_nextRec b \<le> bk_nextRec (Stop ss b)" by (simp add: Stop_def Let_def r)
  fix q rec' assume "bk_recs (Stop ss b) q = Some rec'"
  then have "bk_recs (removePoseSink (ss_rec ss) (ss_target ss) b) q = Some rec'" by (simp add: Stop_def Let_def)
  then show "(er_sinks rec' = [] \<and> q < bk_nextRec (Stop ss b)) \<or> (\<exists>rec. bk_recs b q = Some rec \<and> er_slot rec' = er_slot rec \<and> set (er_sinks rec') \<subseteq> set (er_sinks rec))"
    by (auto simp: removePoseSink_def putRec_def split: option.splits if_splits)
qed

lemma EntityLeft_poses: "shrinks b (EntityLeft c x b)"
proof -
  have u: "bk_recs (unseat c gi B) = bk_recs B" "bk_nextRec (unseat c gi B) = bk_nextRec B" for gi and B :: "'a Backend" by (auto simp: unseat_def Let_def split: prod.splits option.splits)
  have "posesOf (bk_mixer (EntityLeft c x b)) = posesOf (bk_mixer b)" by (simp add: EntityLeft_def Let_def removeAll_def unseat_same split: option.split)
  moreover have "bk_recs (EntityLeft c x b) = bk_recs b" "bk_nextRec (EntityLeft c x b) = bk_nextRec b" by (simp_all add: EntityLeft_def Let_def u split: option.split)
  ultimately show ?thesis by (intro shrinksI) auto
qed

lemma seatMember_recs:
  assumes "seatMember c l r rec b = Some (rec', b')"
  shows "bk_recs b' = bk_recs b" "er_sinks rec' = er_sinks rec"
proof -
  obtain g b1 where g: "ensureGroup c l (er_src rec) b = (g, b1)" by fastforce
  have "bk_recs b1 = bk_recs b" using g by (auto simp: ensureGroup_def Let_def split: option.splits)
  then show "bk_recs b' = bk_recs b" "er_sinks rec' = er_sinks rec" using assms g by (auto simp: seatMember_def bind_eq_Some_conv split: if_splits)
qed

lemma EntityJoined_poses:
  assumes "EntityJoined cd c e b = Some (b', r)"
  shows "shrinks b b'"
proof -
  obtain m q where a: "AddSource cd (bk_mixer b) (rv_ID e) (joinConfig (bk_sourceCodec b) c e) = (m, q)" by fastforce
  note p = AddSource_poses[OF a]
  show ?thesis
  proof (cases q)
    case (Ret h)
    let ?b = "b \<lparr> bk_mixer := m, bk_nextRec := Suc (bk_nextRec b) \<rparr>"
    obtain rec b1 where s: "(case rv_Lockstep e of None \<Rightarrow> Some (newRec c e h, ?b) | Some l \<Rightarrow> seatMember c l (bk_nextRec b) (newRec c e h) ?b) = Some (rec, b1)"
      "b' = flush (rv_ID e) (putRec (bk_nextRec b) rec (b1 \<lparr> bk_entities := (bk_entities b1)(rv_ID e \<mapsto> bk_nextRec b) \<rparr>))"
      using assms a Ret by (auto simp: EntityJoined_def Let_def bind_eq_Some_conv)
    have b1: "bk_recs b1 = bk_recs b" "er_sinks rec = []" "bk_mixer b1 = m" "bk_nextRec b1 = Suc (bk_nextRec b)"
      using s(1) seatMember_recs[of c _ _ "newRec c e h" ?b rec b1] seatMember_same[of c _ _ "newRec c e h" ?b rec b1] by (auto simp: newRec_def sameConn_def split: option.splits)
    have fl: "bk_recs (flush x B) = bk_recs B" "bk_nextRec (flush x B) = bk_nextRec B" "posesOf (bk_mixer (flush x B)) = posesOf (bk_mixer B)" for x and B :: "'a Backend"
      by (auto simp: flush_def flushEntity_def Let_def split: option.splits)
    show ?thesis by (rule shrinksI) (use s(2) b1 fl p in \<open>auto simp: putRec_def split: if_splits\<close>)
  next
    case (Err er)
    then show ?thesis using assms a p by (auto simp: EntityJoined_def intro: shrinks_mixer)
  next
    case (Panic msg)
    then show ?thesis using assms a by (simp add: EntityJoined_def)
  qed
qed

lemma memberChannel_poses:
  assumes "memberChannel r c b = (ch, b')" "poseInv sp b" "\<And>xs q. sp (xs @ [q]) = q"
  shows "poseInv sp b'"
proof (cases "\<exists>k p. r = Some k \<and> wc_Present c \<and> wc_Pose c = Some p")
  case True
  then obtain k p where k: "r = Some k" "wc_Present c" "wc_Pose c = Some p" by blast
  obtain ep b1 where e: "enforcePose k p b = (ep, b1)" by fastforce
  then show ?thesis using assms(1) k enforcePose_inv[OF e assms(2,3)] by (simp add: memberChannel_def)
qed (use assms(1,2) in \<open>auto simp: memberChannel_def split: option.splits if_splits\<close>)

lemma fillChannels_poses:
  assumes "\<And>xs q. sp (xs @ [q]) = q"
  shows "fillChannels rs cs sc b = Some (ecs, b') \<Longrightarrow> poseInv sp b \<Longrightarrow> poseInv sp b'"
proof (induction rs cs sc b arbitrary: ecs b' rule: fillChannels.induct)
  case (2 r rs c cs s scratch b)
  obtain ch b1 where m: "memberChannel r c b = (ch, b1)" by fastforce
  then obtain ecs' where f: "fillChannels rs cs scratch b1 = Some (ecs', b')" using 2(2) by auto
  show ?case by (rule 2(1)[OF m[symmetric] f memberChannel_poses[OF m 2(3) assms]])
qed auto

lemma bk_step_poses:
  assumes "bk_step sh op b = Some b'" "poseInv (sh_slotPose sh) b" "\<And>xs q. sh_slotPose sh (xs @ [q]) = q"
  shows "poseInv (sh_slotPose sh) b'"
proof (cases op)
  case (BJoin c e)
  then obtain q where "EntityJoined (sh_codec sh) c e b = Some (b', q)" using assms(1) by auto
  then show ?thesis by (rule shrinks_inv[OF EntityJoined_poses assms(2)])
next
  case (BLeft c x)
  then show ?thesis using assms(1) shrinks_inv[OF EntityLeft_poses assms(2)] by auto
next
  case (BStart x f)
  then show ?thesis using assms(1) StartSink_poses[OF assms(2)] by auto
next
  case (BStop ss)
  then show ?thesis using assms(1) shrinks_inv[OF Stop_poses assms(2)] by auto
next
  case (BObserve k v cl)
  then show ?thesis using assms(1) shrinks_inv[OF observe_poses assms(2)] by auto
next
  case (BFrame r seq pose audio)
  obtain ep b1 where e: "(case pose of None \<Rightarrow> (None, b) | Some p \<Rightarrow> enforcePose r p b) = (ep, b1)" by fastforce
  have b1: "poseInv (sh_slotPose sh) b1" using e enforcePose_inv[OF _ assms(2,3)] assms(2) by (cases pose) auto
  obtain rec :: entityRec where "onSource (er_src rec) (\<lambda>s. WriteOpus (sh_codec sh) (ev_math (mx_env (bk_mixer b1))) s seq ep audio) b1 = Some b'"
    using assms(1) BFrame e by (auto simp: rec_Frame_def bind_eq_Some_conv)
  then show ?thesis by (rule shrinks_inv[OF onSource_poses b1])
next
  case (BLost r l)
  then have "shrinks b b'" using assms(1) by (auto simp: rec_Lost_def bind_eq_Some_conv dest: onSource_poses split: if_splits)
  then show ?thesis by (rule shrinks_inv[OF _ assms(2)])
next
  case (BGroupFrame g seq chans)
  obtain gr ecs b1 h m where g: "fillChannels (gr_recs gr) chans (gr_chans gr) b = Some (ecs, b1)" "group_WriteFrame (sh_codec sh) (bk_mixer b1) h seq ecs = Some m"
    "b' = b1 \<lparr> bk_mixer := m, bk_grps := (bk_grps b1)(g \<mapsto> gr \<lparr> gr_chans := ecs \<rparr>) \<rparr>"
    using assms(1) BGroupFrame by (auto simp: group_Frame_def bind_eq_Some_conv)
  obtain gh ss where m: "m = (bk_mixer b1) \<lparr> mx_groupHeap := gh, mx_sources := ss \<rparr>" using g(2) unfolding group_WriteFrame_def by (auto simp: bind_eq_Some_conv)
  have "shrinks b1 b'" by (rule shrinksI) (auto simp: g(3) m posesOf_def)
  then show ?thesis by (rule shrinks_inv[OF _ fillChannels_poses[OF assms(3) g(1) assms(2)]])
next
  case BTick
  then obtain m where m: "Process (bk_mixer b) = Some m" "b' = b \<lparr> bk_mixer := m \<rparr>" using assms(1) by auto
  show ?thesis unfolding m(2) by (rule shrinks_inv[OF shrinks_mixer[OF Process_poses[OF m(1)]] assms(2)])
qed

lemma bk_exec_poses:
  assumes "\<And>xs q. sh_slotPose sh (xs @ [q]) = q"
  shows "bk_exec sh ops b = Some b' \<Longrightarrow> poseInv (sh_slotPose sh) b \<Longrightarrow> poseInv (sh_slotPose sh) b'"
proof (induction ops arbitrary: b)
  case (Cons op ops)
  then obtain b1 where b1: "bk_step sh op b = Some b1" "bk_exec sh ops b1 = Some b'" by (auto simp: bind_eq_Some_conv)
  show ?case by (rule Cons.IH[OF b1(2) bk_step_poses[OF b1(1) Cons.prems(2) assms]])
qed simp

section \<open>Properties\<close>

text \<open>C7. One pose, three readers. Given that the presence slot reports the last pose it was given, after any run of the
  server whose calls do not overlap (in particular no pose of an entity is processed while one of its sinks is being attached)
  every sink an entity's record holds has exactly the pose the entity's presence slot reports, whether the sink was there
  when the pose came or attached later, ticks and other entities' poses in between notwithstanding. And a pose
  that comes in is enforced: without degrees of freedom nothing changes, with three the position the slot
  reports afterwards is the home position, and what the source is given is what the slot reports.\<close>

theorem sinks_follow_presence:
  assumes "\<And>xs p. sh_slotPose sh (xs @ [p]) = p" "bk_exec sh ops (newBackend m sc) = Some b" "bk_recs b r = Some rec"
  shows "(\<forall>s\<in>set (er_sinks rec). sinkPoseOf (bk_mixer b) s = Some (enginePose (sh_slotPose sh (er_slot rec)))) \<and>
    (er_dof rec = 0 \<longrightarrow> enforcePose r p b = (None, b)) \<and>
    (er_dof rec \<noteq> 0 \<longrightarrow> (\<exists>b' rec'. enforcePose r p b = (Some (enginePose (sh_slotPose sh (er_slot rec'))), b') \<and> bk_recs b' r = Some rec' \<and>
       (\<forall>s\<in>set (er_sinks rec). sinkPoseOf (bk_mixer b') s = Some (enginePose (sh_slotPose sh (er_slot rec')))) \<and>
       (er_dof rec = 3 \<longrightarrow> wp_X (sh_slotPose sh (er_slot rec')) = wp_X (er_home rec) \<and> wp_Y (sh_slotPose sh (er_slot rec')) = wp_Y (er_home rec) \<and>
          wp_Z (sh_slotPose sh (er_slot rec')) = wp_Z (er_home rec) \<and> wp_Yaw (sh_slotPose sh (er_slot rec')) = wp_Yaw p)))"
proof -
  have "poseInv (sh_slotPose sh) (newBackend m sc)" by (simp add: poseInv_def newBackend_def)
  then have i: "poseInv (sh_slotPose sh) b" by (rule bk_exec_poses[OF assms(1,2)])
  have "\<exists>wp. enforced rec p = Some wp \<and> (er_dof rec = 3 \<longrightarrow> wp_X wp = wp_X (er_home rec) \<and> wp_Y wp = wp_Y (er_home rec) \<and> wp_Z wp = wp_Z (er_home rec) \<and> wp_Yaw wp = wp_Yaw p)"
    if "er_dof rec \<noteq> 0" using that by (simp add: enforced_def)
  moreover have "\<exists>b' rec'. enforcePose r p b = (Some (enginePose wp), b') \<and> bk_recs b' r = Some rec' \<and> er_slot rec' = er_slot rec @ [wp] \<and>
      (\<forall>s\<in>set (er_sinks rec). sinkPoseOf (bk_mixer b') s = Some (enginePose wp))" if "enforced rec p = Some wp" for wp
    using that assms(3) by (simp add: enforcePose_eq putRec_def setSinkPoses_pose)
  ultimately have "er_dof rec \<noteq> 0 \<longrightarrow> (\<exists>b' rec'. enforcePose r p b = (Some (enginePose (sh_slotPose sh (er_slot rec'))), b') \<and> bk_recs b' r = Some rec' \<and>
       (\<forall>s\<in>set (er_sinks rec). sinkPoseOf (bk_mixer b') s = Some (enginePose (sh_slotPose sh (er_slot rec')))) \<and>
       (er_dof rec = 3 \<longrightarrow> wp_X (sh_slotPose sh (er_slot rec')) = wp_X (er_home rec) \<and> wp_Y (sh_slotPose sh (er_slot rec')) = wp_Y (er_home rec) \<and>
          wp_Z (sh_slotPose sh (er_slot rec')) = wp_Z (er_home rec) \<and> wp_Yaw (sh_slotPose sh (er_slot rec')) = wp_Yaw p))"
    using assms(1) by metis
  moreover have "er_dof rec = 0 \<longrightarrow> enforcePose r p b = (None, b)" using assms(3) by (simp add: enforcePose_eq enforced_def)
  ultimately show ?thesis using poseInvD(3)[OF i assms(3)] by blast
qed

lemma AddSource_fresh:
  assumes "AddSource cd m x cfg = (m', Ret h)" "mx_reg m x = None"
  shows "map_option re_sink (mx_reg m' x) = Some None" "mx_closed m' = mx_closed m" "mx_nextSink m' = mx_nextSink m"
proof -
  obtain m1 o1 where b: "buildSource cd m x (applyDefaults cfg) = (m1, o1)" by fastforce
  have m1: "mx_reg m1 = mx_reg m" "mx_closed m1 = mx_closed m" "mx_nextSink m1 = mx_nextSink m" using nogroup_fields[OF buildSource_nogroup[OF b]] by (simp_all add: mx_control_def)
  show "map_option re_sink (mx_reg m' x) = Some None" "mx_closed m' = mx_closed m" "mx_nextSink m' = mx_nextSink m"
    using assms b m1 by (auto simp: AddSource_eq Let_def admit_def emptyReg_def joinGroup_def enqueue_def split: outcome.splits sum.splits option.splits if_splits)
qed

lemma fresh_joined:
  fixes m :: "unit Mixer"
  assumes "\<not> mx_closed m" "mx_entityCount m = 0" "mx_reg m = Map.empty" "0 < cf_MaxEntities (mx_cfg m)"
  shows "\<exists>b h. bk_exec demo_shell [BJoin ''c'' (demo_entity ''a'')] (newBackend m SourceCodecOpus) = Some b \<and> bk_entities b ''a'' = Some 0 \<and>
     bk_recs b 0 = Some (newRec ''c'' (demo_entity ''a'') h) \<and> map_option re_sink (mx_reg (bk_mixer b) ''a'') = Some None \<and> \<not> mx_closed (bk_mixer b) \<and>
     mx_nextSink (bk_mixer b) = mx_nextSink m"
proof -
  let ?b0 = "newBackend m SourceCodecOpus"
  have f: "bk_entities ?b0 = Map.empty" "bk_mixer ?b0 = m" "bk_nextRec ?b0 = 0" "bk_wiring ?b0 = newStateWiring" by (simp_all add: newBackend_def)
  have "connInv ?b0" by (rule connInvI) (simp_all add: f assms srcOf_def)
  then obtain b where j: "EntityJoined demo_codec ''c'' (demo_entity ''a'') ?b0 = Some (b, Ret 0)"
    using join_admitted[OF demo_shell_codec(1), of "demo_entity ''a''" ?b0 "''c''"] assms by (auto simp: f demo_entity_def demo_shell_codec)
  have x: "bk_exec demo_shell [BJoin ''c'' (demo_entity ''a'')] ?b0 = Some b" using j by (simp add: demo_shell_codec)
  have e: "rv_ID (demo_entity ''a'') = ''a''" "rv_Lockstep (demo_entity ''a'') = None" by (simp_all add: demo_entity_def)
  obtain m' h where a: "AddSource demo_codec m ''a'' (joinConfig (bk_sourceCodec ?b0) ''c'' (demo_entity ''a'')) = (m', Ret h)"
    and b: "bk_mixer b = m'" "bk_recs b 0 = Some (newRec ''c'' (demo_entity ''a'') h)" "bk_entities b ''a'' = Some 0"
    using j by (auto simp: EntityJoined_def Let_def f e flush_def flushEntity_def newStateWiring_def putRec_def bind_eq_Some_conv split: prod.splits outcome.splits)
  show ?thesis using x b AddSource_fresh[OF a] assms by auto
qed

lemma demo_joined:
  "\<exists>b h. bk_exec demo_shell [BJoin ''c'' (demo_entity ''a'')] (newBackend (demo_new_mixer 3) SourceCodecOpus) = Some b \<and> bk_entities b ''a'' = Some 0 \<and>
     bk_recs b 0 = Some (newRec ''c'' (demo_entity ''a'') h) \<and> map_option re_sink (mx_reg (bk_mixer b) ''a'') = Some None \<and> \<not> mx_closed (bk_mixer b) \<and> mx_nextSink (bk_mixer b) = 0"
proof -
  have "\<not> mx_closed (demo_new_mixer 3)" "mx_entityCount (demo_new_mixer 3) = 0" "mx_reg (demo_new_mixer 3) = Map.empty" "cf_MaxEntities (mx_cfg (demo_new_mixer 3)) = 3" "mx_nextSink (demo_new_mixer 3) = 0"
    by (simp_all add: demo_new_mixer_def New_def DefaultConfig_def Let_def)
  then show ?thesis using fresh_joined[of "demo_new_mixer 3"] by simp
qed

lemma demo_listening:
  "\<exists>b h. bk_exec demo_shell [BJoin ''c'' (demo_entity ''a''), BStart ''a'' TrackBinaural] (newBackend (demo_new_mixer 3) SourceCodecOpus) = Some b \<and>
     bk_recs b 0 = Some (newRec ''c'' (demo_entity ''a'') h \<lparr> er_sinks := [BinauralSink 0] \<rparr>)"
proof -
  obtain b h where b: "bk_exec demo_shell [BJoin ''c'' (demo_entity ''a'')] (newBackend (demo_new_mixer 3) SourceCodecOpus) = Some b" "bk_entities b ''a'' = Some 0"
    "bk_recs b 0 = Some (newRec ''c'' (demo_entity ''a'') h)" "map_option re_sink (mx_reg (bk_mixer b) ''a'') = Some None" "\<not> mx_closed (bk_mixer b)" "mx_nextSink (bk_mixer b) = 0"
    using demo_joined by blast
  obtain m' r where a: "AddSink (bk_mixer b) ''a'' = (m', r)" by fastforce
  then have "r = Ret 0" using b(4-6) by (auto simp: AddSink_def admit_def Let_def split: option.splits)
  moreover have "\<not> er_headFrame (newRec ''c'' (demo_entity ''a'') h)" by (simp add: newRec_def demo_entity_def)
  ultimately have "bk_recs (fst (StartSink (\<lambda>_. True) last ''a'' TrackBinaural b)) 0 = Some (newRec ''c'' (demo_entity ''a'') h \<lparr> er_sinks := [BinauralSink 0] \<rparr>)"
    "\<exists>ss. snd (StartSink (\<lambda>_. True) last ''a'' TrackBinaural b) = Ret ss"
    using a b(2,3) by (simp_all add: StartSink_def engineSink_def addPoseSink_eq putRec_def newRec_def)
  then show ?thesis using b(1) by (auto simp: demo_shell_def bind_eq_Some_conv split: prod.splits outcome.splits option.splits)
qed

theorem sinks_follow_presence_witness:
  "\<exists>b rec p b' (rec' :: entityRec). bk_exec demo_shell [BJoin ''c'' (demo_entity ''a''), BStart ''a'' TrackBinaural] (newBackend (demo_new_mixer 3) SourceCodecOpus) = Some b \<and>
     bk_recs b 0 = Some rec \<and> er_sinks rec = [BinauralSink 0] \<and> map_option pose_X (sinkPoseOf (bk_mixer b) (BinauralSink 0)) = Some 1 \<and>
     wp_X p = 7 \<and> enforcePose 0 p b = (Some (enginePose (last (er_slot rec'))), b') \<and> wp_X (last (er_slot rec')) = 1 \<and>
     map_option pose_Yaw (sinkPoseOf (bk_mixer b') (BinauralSink 0)) = Some 5"
proof -
  obtain b h where x: "bk_exec demo_shell [BJoin ''c'' (demo_entity ''a''), BStart ''a'' TrackBinaural] (newBackend (demo_new_mixer 3) SourceCodecOpus) = Some b"
    and h: "bk_recs b 0 = Some (newRec ''c'' (demo_entity ''a'') h \<lparr> er_sinks := [BinauralSink 0] \<rparr>)" (is "_ = Some ?rec") using demo_listening by blast
  let ?p = "\<lparr> wp_X = 7, wp_Y = 0, wp_Z = 0, wp_Yaw = 5, wp_Pitch = 0, wp_Roll = 0 \<rparr>"
  have sp: "sh_slotPose demo_shell (xs @ [p]) = p" for xs p by (simp add: demo_shell_def)
  have s: "sh_slotPose demo_shell = last" by (simp add: demo_shell_def)
  have d: "er_dof ?rec = 3" "wp_X (er_home ?rec) = 1" "er_sinks ?rec = [BinauralSink 0]" "wp_X (last (er_slot ?rec)) = 1"
    using f32_of_int[of 1] by (simp_all add: newRec_def demo_entity_def entityDof_def int32_def initialPose_def)
  note t = sinks_follow_presence[OF sp x h, of ?p, unfolded s]
  have l: "map_option pose_X (sinkPoseOf (bk_mixer b) (BinauralSink 0)) = Some 1" using conjunct1[OF t] d(3,4) by (simp add: enginePose_def)
  obtain b' and rec' :: entityRec where r: "enforcePose 0 ?p b = (Some (enginePose (last (er_slot rec'))), b')" "wp_X (last (er_slot rec')) = 1" "wp_Yaw (last (er_slot rec')) = 5"
    "sinkPoseOf (bk_mixer b') (BinauralSink 0) = Some (enginePose (last (er_slot rec')))" using t d(1-3) by auto
  have "map_option pose_Yaw (sinkPoseOf (bk_mixer b') (BinauralSink 0)) = Some 5" using r(3,4) by (simp add: enginePose_def)
  then show ?thesis using x h d(3) l r(1,2) by (intro exI[of _ b] exI[of _ ?rec] exI[of _ ?p] exI[of _ b'] exI[of _ rec'] conjI) simp_all
qed

text \<open>A pose that comes while a sink is being attached is missed by that sink. If the pose of an entity is processed after the
  attaching sink was seeded from the presence slot and before it is on the fan-out list, the slot reports the new
  pose while the sink, now on the list, keeps the one the slot held before; the next pose of the entity that is not discarded brings the sink back in line.\<close>

theorem pose_missed_while_attaching:
  assumes "\<And>xs p. sp (xs @ [p]) = p" "bk_recs b r = Some rec" "s \<notin> set (er_sinks rec)" "enforcePose r p (seedPoseSink sp r s b) = (Some ep, b1)"
  shows "\<exists>rec2. bk_recs (joinPoseSinks r s b1) r = Some rec2 \<and> s \<in> set (er_sinks rec2) \<and> enginePose (sp (er_slot rec2)) = ep \<and>
    sinkPoseOf (bk_mixer (joinPoseSinks r s b1)) s = Some (enginePose (sp (er_slot rec))) \<and>
    (\<forall>q eq b3. enforcePose r q (joinPoseSinks r s b1) = (Some eq, b3) \<longrightarrow> sinkPoseOf (bk_mixer b3) s = Some eq)"
proof -
  obtain wp where w: "enforced rec p = Some wp" "ep = enginePose wp"
    using assms(2,4) by (auto simp: enforcePose_eq seedPoseSink_def split: option.splits)
  let ?rec2 = "rec \<lparr> er_slot := er_slot rec @ [wp], er_sinks := er_sinks rec @ [s] \<rparr>"
  let ?m = "fold (setSinkPose ep) (er_sinks rec) (setSinkPose (enginePose (sp (er_slot rec))) s (bk_mixer b))"
  have j: "bk_recs (joinPoseSinks r s b1) r = Some ?rec2" "bk_mixer (joinPoseSinks r s b1) = ?m"
    using assms(2,4) w by (auto simp: enforcePose_eq seedPoseSink_def joinPoseSinks_def putRec_def)
  have n: "sinkPoseOf (bk_mixer b3) s = Some eq" if "enforcePose r q (joinPoseSinks r s b1) = (Some eq, b3)" for q eq b3
    using that j(1) by (auto simp: enforcePose_eq putRec_def setSinkPoses_pose setSinkPose_pose split: option.splits)
  have "sinkPoseOf ?m s = Some (enginePose (sp (er_slot rec)))" using assms(3) by (simp add: setSinkPoses_pose setSinkPose_pose)
  then show ?thesis using j n w assms(1) by (intro exI[of _ ?rec2]) simp
qed

theorem pose_missed_while_attaching_witness:
  "\<exists>b p b1 (rec2 :: entityRec). bk_exec demo_shell [BJoin ''c'' (demo_entity ''a'')] (newBackend (demo_new_mixer 3) SourceCodecOpus) = Some b \<and>
     enforcePose 0 p (seedPoseSink last 0 (BinauralSink 0) b) = b1 \<and> bk_recs (joinPoseSinks 0 (BinauralSink 0) (snd b1)) 0 = Some rec2 \<and>
     wp_Yaw (last (er_slot rec2)) = 5 \<and> map_option pose_Yaw (sinkPoseOf (bk_mixer (joinPoseSinks 0 (BinauralSink 0) (snd b1))) (BinauralSink 0)) = Some 0"
proof -
  obtain b h where b: "bk_exec demo_shell [BJoin ''c'' (demo_entity ''a'')] (newBackend (demo_new_mixer 3) SourceCodecOpus) = Some b"
    "bk_recs b 0 = Some (newRec ''c'' (demo_entity ''a'') h)" using demo_joined by blast
  let ?p = "\<lparr> wp_X = 7, wp_Y = 0, wp_Z = 0, wp_Yaw = 5, wp_Pitch = 0, wp_Roll = 0 \<rparr>"
  let ?b0 = "seedPoseSink last 0 (BinauralSink 0) b"
  have d: "er_dof (newRec ''c'' (demo_entity ''a'') h) = 3" "er_sinks (newRec ''c'' (demo_entity ''a'') h) = []" "wp_Yaw (last (er_slot (newRec ''c'' (demo_entity ''a'') h))) = 0"
    by (simp_all add: newRec_def demo_entity_def entityDof_def int32_def initialPose_def)
  obtain ep b1 where e: "enforcePose 0 ?p ?b0 = (Some ep, b1)" "pose_Yaw ep = 5"
    using b(2) d(1) by (simp add: enforcePose_eq seedPoseSink_def enforced_def enginePose_def)
  have l: "last (xs @ [p]) = p" for xs :: "wirePose list" and p by simp
  have n: "BinauralSink 0 \<notin> set (er_sinks (newRec ''c'' (demo_entity ''a'') h))" using d(2) by simp
  obtain rec2 where "bk_recs (joinPoseSinks 0 (BinauralSink 0) b1) 0 = Some rec2" "enginePose (last (er_slot rec2)) = ep"
    "sinkPoseOf (bk_mixer (joinPoseSinks 0 (BinauralSink 0) b1)) (BinauralSink 0) = Some (enginePose (last (er_slot (newRec ''c'' (demo_entity ''a'') h))))"
    using pose_missed_while_attaching[OF l b(2) n e(1)] by blast
  then show ?thesis using b(1) e d(3) by (intro exI[of _ b] exI[of _ ?p] exI[of _ "(Some ep, b1)"] exI[of _ rec2]) (auto simp: enginePose_def)
qed

text \<open>Stopping a session is by entity, not by sink: a session of an earlier join, stopped after the entity has come back and
  attached another sink, detaches that other sink.\<close>

lemma late_Stop_detaches_successor:
  assumes "ss_format ss = TrackBinaural" "mx_reg (bk_mixer b) (ss_entity ss) = Some re" "re_sink re = Some k" "ss_target ss \<noteq> BinauralSink k" "re_src re \<noteq> None"
  shows "mx_reg (bk_mixer (Stop ss b)) (ss_entity ss) = Some (re \<lparr> re_sink := None \<rparr>)"
    "mx_changes (bk_mixer (Stop ss b)) = mx_changes (bk_mixer b) @ [ChRemoveSink (ss_entity ss)]"
proof -
  have "bk_mixer (removePoseSink (ss_rec ss) (ss_target ss) b) = bk_mixer b" by (simp add: removePoseSink_def putRec_def split: option.split)
  moreover have "re \<lparr> re_sink := None \<rparr> \<noteq> emptyReg" by (cases re) (use assms(5) in \<open>auto simp: emptyReg_def\<close>)
  ultimately show "mx_reg (bk_mixer (Stop ss b)) (ss_entity ss) = Some (re \<lparr> re_sink := None \<rparr>)"
    "mx_changes (bk_mixer (Stop ss b)) = mx_changes (bk_mixer b) @ [ChRemoveSink (ss_entity ss)]"
    using assms by (simp_all add: Stop_def Let_def RemoveSink_def release_def enqueue_def)
qed

end
