(* ===== verification/Mixer_Races.thy ===== *)
theory Mixer_Races
  imports Mixer_Sinks
begin

text \<open>
  What overlapping control calls can do. The adds and removes of \<^verbatim>\<open>src/engine/engine/mixer.go\<close> update the registry under the lock and
  hand their closure to the queue after releasing it, so the order of the queue need not be the order of the registry.
\<close>

lemma freeSlot_none: "None \<notin> set sl \<Longrightarrow> freeSlot i sl = None"
  by (induction i sl rule: freeSlot.induct) auto

lemma locked_frame:
  assumes "AddSource_locked cd m eid cfg = (m', Ret (h, c))"
  shows "mx_changes m' = mx_changes m" "mx_ents m' = mx_ents m" "mx_slots m' = mx_slots m"
    "\<exists>ref pose hf grp. c = ChAddSource eid ref pose hf grp"
proof -
  obtain m1 r where b: "buildSource cd m eid (applyDefaults cfg) = (m1, r)" by fastforce
  have n: "mx_nogroup m1 = mx_nogroup m" by (rule buildSource_nogroup[OF b])
  then have n1: "mx_changes m1 = mx_changes m" "mx_ents m1 = mx_ents m" "mx_slots m1 = mx_slots m" using nogroup_fields[OF n] by (simp_all add: mx_control_def)
  show "mx_changes m' = mx_changes m" "mx_ents m' = mx_ents m" "mx_slots m' = mx_slots m" "\<exists>ref pose hf grp. c = ChAddSource eid ref pose hf grp"
    using assms b n1 by (auto simp: AddSource_locked_def Let_def admit_def joinGroup_def split: outcome.splits sum.splits option.splits if_splits)
qed

text \<open>C26. A removal that is overtaken brings the mixer down. Take a mixer after any run of calls, with nothing pending and every slot taken. Let
  one call remove the source of an entity and be held up after it has released the lock, before it has queued its change, and let another
  call meanwhile add a source for a new entity, which the registry now has room for. If the newcomer's change is queued first, the
  next application of the queue panics for want of a free slot. The same two calls, one after the other, go through.\<close>

theorem overtaken_removal_panics:
  assumes "New env banks cfg0 = Inr m0" "delayModel env cfg0" "list_all (mx_op_ok cd) ops" "mx_exec cd ms ops m0 = Inr m"
    "mx_changes m = []" "None \<notin> set (mx_slots m)" "mx_ents m b = None" "sourceOk cd cfg"
    "RemoveSource_locked m a = (m1, Some c)" "AddSource_locked cd m1 b cfg = (m2, Ret (h, d))"
  shows "drainChanges (enqueue (enqueue m2 d) c) = Inl ''engine: no free slot'' \<and>
    (\<exists>m'. mx_exec cd ms [MRemoveSource a, MAddSource b cfg, MDrain] m = Inr m')"
proof -
  have r: "mx_changes m1 = []" "mx_ents m1 = mx_ents m" "mx_slots m1 = mx_slots m"
    using assms(5,9) by (auto simp: RemoveSource_locked_def release_def split: option.splits if_splits)
  obtain ref pose hf grp where d: "d = ChAddSource b ref pose hf grp" using locked_frame(4)[OF assms(10)] by blast
  have f: "mx_changes m2 = []" "mx_ents m2 b = None" "mx_slots m2 = mx_slots m" using locked_frame(1-3)[OF assms(10)] r assms(7) by simp_all
  have "drainChanges (enqueue (enqueue m2 d) c) = Inl ''engine: no free slot''"
    using f assms(6) by (simp add: drainChanges_def enqueue_def d ensureEntity_def freeSlot_none)
  moreover have "mxInv m" using New_inv[OF assms(1,2)] mx_exec_inv[OF _ assms(3), of m0 ms] assms(4) by auto
  then have "\<exists>m'. mx_exec cd ms [MRemoveSource a, MAddSource b cfg, MDrain] m = Inr m'"
    using mx_exec_inv[of m cd "[MRemoveSource a, MAddSource b cfg, MDrain]" ms] assms(8) by auto
  ultimately show ?thesis by blast
qed

definition demo_tone :: SourceConfig where
  "demo_tone = demo_sc \<lparr> sc_TestTone := 440 \<rparr>"

lemma demo_tone_ok: "sourceOk demo_codec demo_tone"
  using demo_engine_cfg(1) by (simp add: sourceOk_def demo_tone_def demo_sc_def applyDefaults_def demo_codec_def)

lemma demo_full:
  "\<exists>m :: unit Mixer. mx_exec demo_codec (\<lambda>_. True) [MAddSource ''a'' demo_tone, MDrain] (demo_new_mixer 1) = Inr m \<and>
     mx_changes m = [] \<and> None \<notin> set (mx_slots m) \<and> mx_ents m ''b'' = None \<and>
     (\<exists>m1 c. RemoveSource_locked m ''a'' = (m1, Some c) \<and> (\<exists>m2 h d. AddSource_locked demo_codec m1 ''b'' demo_tone = (m2, Ret (h, d))))"
  by (simp add: demo_new_mixer_def New_def DefaultConfig_def AddSource_eq buildSource_def demo_tone_def demo_sc_def applyDefaults_def newSource_def joinGroup_def groupName_def
      admit_def enqueue_def emptyReg_def drainChanges_def ensureEntity_def newEntity_def listenerEncoder_def newEncoder_def demo_env_delays Let_def setEnt_def markAudibleDirty_def
      RemoveSource_locked_def AddSource_locked_def release_def)

theorem overtaken_removal_panics_witness:
  "\<exists>(m :: unit Mixer) m1 m2 c d h. mx_exec demo_codec (\<lambda>_. True) [MAddSource ''a'' demo_tone, MDrain] (demo_new_mixer 1) = Inr m \<and>
     RemoveSource_locked m ''a'' = (m1, Some c) \<and> AddSource_locked demo_codec m1 ''b'' demo_tone = (m2, Ret (h, d)) \<and>
     drainChanges (enqueue (enqueue m2 d) c) = Inl ''engine: no free slot''"
proof -
  have n: "New demo_env (\<lambda>_. True) (DefaultConfig \<lparr> cf_MaxEntities := int 1 \<rparr>) = Inr (demo_new_mixer 1)" using demo_mixer[of 0] by simp
  obtain m :: "unit Mixer" and m1 m2 c d h where m: "mx_exec demo_codec (\<lambda>_. True) [MAddSource ''a'' demo_tone, MDrain] (demo_new_mixer 1) = Inr m"
    and f: "mx_changes m = []" "None \<notin> set (mx_slots m)" "mx_ents m ''b'' = None"
    and l: "RemoveSource_locked m ''a'' = (m1, Some c)" "AddSource_locked demo_codec m1 ''b'' demo_tone = (m2, Ret (h, d))"
    using demo_full by blast
  have "list_all (mx_op_ok demo_codec) [MAddSource ''a'' demo_tone, MDrain]" using demo_tone_ok by simp
  from overtaken_removal_panics[OF n demo_delayModel this m f demo_tone_ok l] show ?thesis using m l by blast
qed

end
