(* ===== verification/Server_Clock.thy ===== *)
theory Server_Clock
  imports Render_Laws "HOL-Library.Word"
begin

text \<open>
  The pacing of the server: the ticker (\<^verbatim>\<open>src/engine/timing/ticker.go\<close>) and the sample clock (\<^verbatim>\<open>src/server/clock.go\<close>). Instants
  and durations are nanoseconds. What \<^verbatim>\<open>time.Now\<close> returns is an argument; \<open>honest\<close> is what the documentation promises of it and of
  \<^verbatim>\<open>time.Sleep\<close>: the clock does not go back, and a sleep lasts at least as long as asked.
\<close>

section \<open>The ticker\<close>

record Ticker =
  tk_previous :: int
  tk_after :: int
  tk_before :: int
  tk_targetTime :: int
  tk_diff :: int
  tk_took :: int
  tk_totalSleep :: int
  tk_totalTook :: int
  tk_sleep :: int
  tk_jitter :: int
  tk_dur :: int
  tk_ticks :: int
  tk_ms :: int
  tk_ticksPerSecond :: int
  tk_print :: bool
  tk_tight :: bool

text \<open>\<^verbatim>\<open>Time.Sub\<close> saturates; sums and products of durations wrap; \<^verbatim>\<open>time.ParseDuration\<close> of a count and a unit
  returns zero with its error when the value does not fit, and the error is ignored.\<close>

definition timeSub :: "int \<Rightarrow> int \<Rightarrow> int" where
  "timeSub a b = max (- (2 ^ 63)) (min (2 ^ 63 - 1) (a - b))"

definition wrapDuration :: "int \<Rightarrow> int" where
  "wrapDuration d = (d + 2 ^ 63) mod 2 ^ 64 - 2 ^ 63"

definition ParseDuration :: "int \<Rightarrow> int \<Rightarrow> int" where
  "ParseDuration n u = (if - (2 ^ 63) \<le> n * u \<and> n * u < 2 ^ 63 then n * u else 0)"

definition tickerAt :: "int \<Rightarrow> int \<Rightarrow> int \<Rightarrow> int \<Rightarrow> bool \<Rightarrow> bool \<Rightarrow> Ticker" where
  "tickerAt now dur ms tps print tight = \<lparr> tk_previous = now, tk_after = now, tk_before = now, tk_targetTime = now + dur, tk_diff = 0, tk_took = 0,
     tk_totalSleep = 0, tk_totalTook = 0, tk_sleep = 0, tk_jitter = 0, tk_dur = dur, tk_ticks = 0, tk_ms = ms, tk_ticksPerSecond = tps,
     tk_print = print, tk_tight = tight \<rparr>"

text \<open>The four constructors divide by the period: \<open>None\<close> is the panic at zero.\<close>

definition NewTicker :: "int \<Rightarrow> int \<Rightarrow> bool \<Rightarrow> Ticker option" where
  "NewTicker now ms print = (if ms = 0 then None
     else Some (tickerAt now (ParseDuration ms 1000000) ms (1000 sdiv ms) print True))"

definition NewTickerUs :: "int \<Rightarrow> int \<Rightarrow> bool \<Rightarrow> Ticker option" where
  "NewTickerUs now us print = (if us = 0 then None
     else Some (tickerAt now (wrapDuration (us * 1000)) 0 (1000000 sdiv us) print True))"

definition NewLooseTicker :: "int \<Rightarrow> int \<Rightarrow> bool \<Rightarrow> Ticker option" where
  "NewLooseTicker now ms print = (if ms = 0 then None
     else Some (tickerAt now (ParseDuration ms 1000000) ms (1000 sdiv ms) print False))"

definition NewOffTicker :: "int \<Rightarrow> int \<Rightarrow> int \<Rightarrow> bool \<Rightarrow> Ticker option" where
  "NewOffTicker now ms offset print = (if ms = 0 then None
     else Some (tickerAt now (wrapDuration (ParseDuration ms 1000000 + ParseDuration offset 1)) ms (1000 sdiv ms) print False))"

text \<open>\<open>t1\<close> and \<open>t2\<close> are the two readings of the clock, before and after the sleep.\<close>

definition Tick :: "int \<Rightarrow> int \<Rightarrow> Ticker \<Rightarrow> Ticker \<times> int" where
  "Tick t1 t2 tk =
    (let tk = tk \<lparr> tk_jitter := timeSub (tk_before tk) (tk_previous tk) \<rparr>;
         tk = tk \<lparr> tk_after := t1 \<rparr>;
         tk = tk \<lparr> tk_diff := timeSub (tk_targetTime tk) (tk_after tk) \<rparr>;
         tk = tk \<lparr> tk_took := timeSub (tk_after tk) (tk_before tk) \<rparr>;
         tk = tk \<lparr> tk_totalTook := wrapDuration (tk_totalTook tk + tk_took tk) \<rparr>;
         tk = (if tk_diff tk > 0
               then tk \<lparr> tk_sleep := tk_diff tk, tk_totalSleep := wrapDuration (tk_totalSleep tk + tk_diff tk), tk_previous := tk_targetTime tk \<rparr>
               else if tk_tight tk then tk \<lparr> tk_previous := tk_targetTime tk \<rparr> else tk \<lparr> tk_previous := tk_after tk \<rparr>);
         tk = tk \<lparr> tk_ticks := wrapDuration (tk_ticks tk + 1) \<rparr>;
         tk = (if tk_ticks tk = tk_ticksPerSecond tk then tk \<lparr> tk_ticks := 0, tk_totalSleep := 0, tk_totalTook := 0 \<rparr> else tk);
         tk = tk \<lparr> tk_targetTime := tk_previous tk + tk_dur tk \<rparr>;
         tk = tk \<lparr> tk_before := t2 \<rparr>
     in (tk, tk_took tk))"

text \<open>A series of ticks, with the readings of the clock in each.\<close>

fun tickAll :: "(int \<times> int) list \<Rightarrow> Ticker \<Rightarrow> Ticker" where
  "tickAll [] tk = tk"
| "tickAll ((t1, t2) # rs) tk = tickAll rs (fst (Tick t1 t2 tk))"

fun honest :: "(int \<times> int) list \<Rightarrow> Ticker \<Rightarrow> bool" where
  "honest [] tk = True"
| "honest ((t1, t2) # rs) tk = (tk_before tk \<le> t1 \<and> t1 + max 0 (timeSub (tk_targetTime tk) t1) \<le> t2 \<and> honest rs (fst (Tick t1 t2 tk)))"

section \<open>The sample clock\<close>

definition tickMillis :: int where
  "tickMillis = 1000 * int FrameSize div SampleRateHz"

definition sampleEpoch :: "64 word \<Rightarrow> 64 word \<Rightarrow> 64 word" where
  "sampleEpoch epochMicros sampleTS = epochMicros + sampleTS * 1000000 div 48000"

section \<open>What a tick does to the target\<close>

lemma Tick_fields [simp]:
  "tk_dur (fst (Tick t1 t2 tk)) = tk_dur tk" "tk_tight (fst (Tick t1 t2 tk)) = tk_tight tk" "tk_before (fst (Tick t1 t2 tk)) = t2"
  "snd (Tick t1 t2 tk) = timeSub t1 (tk_before tk)"
  by (simp_all add: Tick_def Let_def)

lemma timeSub_pos: "0 < timeSub a b \<longleftrightarrow> b < a"
  by (auto simp: timeSub_def)

lemma Tick_target:
  "tk_targetTime (fst (Tick t1 t2 tk)) = (if tk_tight tk then tk_targetTime tk else max (tk_targetTime tk) t1) + tk_dur tk"
  by (auto simp: Tick_def Let_def timeSub_pos)

text \<open>A tight ticker's targets are an arithmetic progression from its start, whatever the clock says.\<close>

lemma tight_targets: "tk_tight tk \<Longrightarrow> tk_targetTime (tickAll rs tk) = tk_targetTime tk + int (length rs) * tk_dur tk"
  by (induction rs tk rule: tickAll.induct) (simp_all add: Tick_target algebra_simps)

lemma tickAll_fields: "tk_dur (tickAll rs tk) = tk_dur tk" "tk_tight (tickAll rs tk) = tk_tight tk"
  by (induction rs tk rule: tickAll.induct) simp_all

text \<open>A tick does not return before its target, since the wait it asks for is never cut by saturation.\<close>

lemma tick_waits:
  assumes "t1 + max 0 (timeSub (tk_targetTime tk) t1) \<le> t2" "tk_targetTime tk - t1 < 2 ^ 63"
  shows "tk_targetTime tk \<le> t2"
  using assms by (auto simp: timeSub_def max_def min_def split: if_splits)

lemma tight_waits:
  assumes "tk_tight tk" "honest rs tk" "0 \<le> tk_dur tk" "tk_dur tk < 2 ^ 63" "tk_targetTime tk - tk_before tk \<le> tk_dur tk"
  shows "tk_targetTime (tickAll rs tk) - tk_before (tickAll rs tk) \<le> tk_dur tk"
  using assms
proof (induction rs tk rule: tickAll.induct)
  case (2 t1 t2 rs tk)
  have "tk_targetTime tk \<le> t2" by (rule tick_waits[of t1]) (use 2 in auto)
  then have "tk_targetTime (fst (Tick t1 t2 tk)) - tk_before (fst (Tick t1 t2 tk)) \<le> tk_dur (fst (Tick t1 t2 tk))" using 2(2) by (simp add: Tick_target)
  then show ?case using "2.IH" 2(2-5) by simp
qed simp

section \<open>Timestamps\<close>

lemma sampleEpoch_exact:
  assumes "k * 240 * 1000000 < 2 ^ 64" "unat e + 5000 * k < 2 ^ 64"
  shows "unat (sampleEpoch e (of_nat (k * 240))) = unat e + 5000 * k"
proof -
  have "unat (of_nat (k * 240) :: 64 word) = k * 240" using assms(1) unfolding unat_of_nat by simp
  then have p: "unat (of_nat (k * 240) * 1000000 :: 64 word) = k * 240 * 1000000" using assms(1) unfolding unat_word_ariths(2) by simp
  have d: "unat (of_nat (k * 240) * 1000000 div 48000 :: 64 word) = 5000 * k" unfolding unat_div p by simp
  show ?thesis unfolding sampleEpoch_def unat_word_ariths(1) d using assms(2) by simp
qed

section \<open>Properties\<close>

text \<open>C9. There is one clock. The server's ticker, after any \<open>k\<close> ticks, aims at exactly \<open>(k + 1) * 5\<close> ms after its start,
  however late the ticks were, so no lateness accumulates; and no tick returns before its target, so the frame rendered next starts at
  least \<open>k * 5\<close> ms after the start. That frame is stamped with \<open>240 * k\<close> samples, and its timestamp
  is the epoch plus exactly those \<open>5000 * k\<close> microseconds, as long as the product of samples and a million
  fits 64 bits (twelve years).\<close>

theorem one_clock:
  assumes "NewTicker now tickMillis p = Some tk" "honest rs tk" "length rs = k"
    "reach cd ms env banks cfg m" "delayModel env cfg" "envOk env" "\<not> mx_stopped m" "mx_tickCount m = int k"
    "k * 240 * 1000000 < 2 ^ 64" "unat e + 5000 * k < 2 ^ 64"
  shows "tk_targetTime (tickAll rs tk) = now + 5000000 * (int k + 1) \<and> now + 5000000 * int k \<le> tk_before (tickAll rs tk) \<and>
    (\<exists>m'. Process m = Some m' \<and> mx_frameStart m' = 240 * k \<and> unat (sampleEpoch e (of_nat (mx_frameStart m'))) = unat e + 5000 * k)"
proof -
  have t: "tk = tickerAt now 5000000 5 200 p True" using assms(1) by (simp add: NewTicker_def tickMillis_def FrameSize_def SampleRateHz_def ParseDuration_def sdiv_nonneg)
  have g: "tk_targetTime (tickAll rs tk) = now + 5000000 * (int k + 1)" using tight_targets[of tk rs] assms(3) by (simp add: t tickerAt_def algebra_simps)
  have "tk_targetTime (tickAll rs tk) - tk_before (tickAll rs tk) \<le> tk_dur tk" by (rule tight_waits[OF _ assms(2)]) (simp_all add: t tickerAt_def)
  then have w: "now + 5000000 * int k \<le> tk_before (tickAll rs tk)" using g by (simp add: t tickerAt_def)
  note r = reach_ready[OF assms(4-7)]
  obtain m' where m': "Process m = Some m'" by (rule Process_completes[OF r(1) assms(7)])
  have "mx_frameStart m' = (k * 240) mod 2 ^ 64" using Process_ready[OF r(1) assms(7) m'] assms(8) by (auto simp: mx_control_def mx_domains_def startTick_def Let_def FrameSize_def)
  then have f: "mx_frameStart m' = k * 240" using assms(9) by simp
  show ?thesis using g w m' f sampleEpoch_exact[OF assms(9,10)] by (intro conjI exI[of _ m']) (simp_all add: mult.commute)
qed

theorem one_clock_witness:
  "\<exists>tk m m'. NewTicker 100 tickMillis False = Some tk \<and> tk_targetTime (tickAll [(7000000, 7000300)] tk) = 10000100 \<and>
     Process (demo_new_mixer 3) = Some m \<and> Process m = Some m' \<and> mx_frameStart m' = 240 \<and> unat (sampleEpoch 7 (of_nat (mx_frameStart m'))) = 5007"
proof -
  obtain tk where tk: "NewTicker 100 tickMillis False = Some tk" "honest [(7000000, 7000300)] tk"
    by (simp add: NewTicker_def tickMillis_def FrameSize_def SampleRateHz_def tickerAt_def ParseDuration_def timeSub_def)
  have r: "reach demo_codec (\<lambda>_. True) demo_env (\<lambda>_. True) (DefaultConfig \<lparr> cf_MaxEntities := int 3 \<rparr>) (demo_new_mixer 3)" using demo_reach[of 2] by (simp add: numeral_3_eq_3)
  have d: "\<not> mx_stopped (demo_new_mixer 3)" "mx_tickCount (demo_new_mixer 3) = 0" using demo_running[of 2] by (simp_all add: numeral_3_eq_3)
  note y = reach_ready[OF r demo_delayModel demo_envOk d(1)]
  obtain m where m: "Process (demo_new_mixer 3) = Some m" by (rule Process_completes[OF y(1) d(1)])
  have c: "\<not> mx_stopped m" "mx_tickCount m = int 1" using Process_ready[OF y(1) d(1) m] d by (auto simp: mx_control_def mx_domains_def startTick_def Let_def)
  show ?thesis using one_clock[OF tk, of 1, OF _ reach.tick[OF r d(1) m] demo_delayModel demo_envOk c, of 7] tk(1) m by auto
qed

end
