(* ===== verification/Go_Text.thy ===== *)
theory Go_Text
  imports Sources "HOL-Library.Monad_Syntax"
begin

text \<open>
  What the server's configuration uses of Go's text packages: \<^verbatim>\<open>strconv\<close> (\<^verbatim>\<open>Atoi\<close>, \<^verbatim>\<open>Itoa\<close>, \<^verbatim>\<open>ParseBool\<close>, \<^verbatim>\<open>FormatBool\<close>),
  \<^verbatim>\<open>strings.ToLower\<close> and \<^verbatim>\<open>ToUpper\<close> on ASCII text, the standard encoding of \<^verbatim>\<open>encoding/base64\<close>, and the text form of
  \<^verbatim>\<open>slog.Level\<close>; with the round trips between printing and parsing. \<open>None\<close> is an error.
\<close>

section \<open>Numbers\<close>

definition digitChar :: "nat \<Rightarrow> char" where
  "digitChar d = char_of (48 + d)"

definition digitVal :: "char \<Rightarrow> nat option" where
  "digitVal c = (let n = of_char c :: nat in if 48 \<le> n \<and> n \<le> 57 then Some (n - 48) else None)"

fun natDigits :: "nat \<Rightarrow> string" where
  "natDigits n = (if n < 10 then [digitChar n] else natDigits (n div 10) @ [digitChar (n mod 10)])"

declare natDigits.simps [simp del]

definition parseDigit :: "nat option \<Rightarrow> char \<Rightarrow> nat option" where
  "parseDigit acc c = (case (acc, digitVal c) of (Some n, Some d) \<Rightarrow> Some (n * 10 + d) | _ \<Rightarrow> None)"

definition parseNat :: "string \<Rightarrow> nat option" where
  "parseNat s = (if s = [] then None else foldl parseDigit (Some 0) s)"

definition inInt :: "int \<Rightarrow> bool" where
  "inInt i \<longleftrightarrow> - (2 ^ 63) \<le> i \<and> i < 2 ^ 63"

definition Atoi :: "string \<Rightarrow> int option" where
  "Atoi s = (let (neg, ds) = (case s of c # cs \<Rightarrow> if c = CHR ''-'' then (True, cs) else if c = CHR ''+'' then (False, cs) else (False, s) | [] \<Rightarrow> (False, s)) in
     case parseNat ds of None \<Rightarrow> None
     | Some n \<Rightarrow> let i = (if neg then - int n else int n) in if inInt i then Some i else None)"

definition Itoa :: "int \<Rightarrow> string" where
  "Itoa i = (if i < 0 then CHR ''-'' # natDigits (nat (- i)) else natDigits (nat i))"

lemma digit_roundtrip: "d < 10 \<Longrightarrow> digitVal (digitChar d) = Some d"
  by (simp add: digitVal_def digitChar_def Let_def of_char_of)

lemma parseDigit_digit: "d < 10 \<Longrightarrow> parseDigit (Some n) (digitChar d) = Some (n * 10 + d)"
  by (simp add: parseDigit_def digit_roundtrip)

lemma natDigits_parse: "foldl parseDigit (Some 0) (natDigits n) = Some n"
proof (induction n rule: natDigits.induct)
  case (1 n)
  show ?case
  proof (cases "n < 10")
    case True
    then show ?thesis by (subst natDigits.simps) (simp add: parseDigit_digit)
  next
    case False
    then show ?thesis using 1 by (subst natDigits.simps) (simp add: parseDigit_digit)
  qed
qed

lemma natDigits_head: "\<exists>d ds. d < 10 \<and> natDigits n = digitChar d # ds"
proof (induction n rule: natDigits.induct)
  case (1 n)
  show ?case
  proof (cases "n < 10")
    case True
    then show ?thesis by (subst natDigits.simps) auto
  next
    case False
    then show ?thesis using 1 by (subst natDigits.simps) auto
  qed
qed

lemma digitChar_plain: "d < 10 \<Longrightarrow> digitChar d \<noteq> CHR ''-''" "d < 10 \<Longrightarrow> digitChar d \<noteq> CHR ''+''"
proof -
  have "(of_char (digitChar d) :: nat) = 48 + d" if "d < 10" using that by (simp add: digitChar_def of_char_of)
  then show "d < 10 \<Longrightarrow> digitChar d \<noteq> CHR ''-''" "d < 10 \<Longrightarrow> digitChar d \<noteq> CHR ''+''" by force+
qed

lemma parseNat_digits: "parseNat (natDigits n) = Some n"
  using natDigits_head[of n] natDigits_parse[of n] by (auto simp: parseNat_def)

lemma Atoi_digits: "int n < 2 ^ 63 \<Longrightarrow> Atoi (natDigits n) = Some (int n)"
  using natDigits_head[of n] parseNat_digits[of n] digitChar_plain by (auto simp: Atoi_def inInt_def Let_def)

lemma Itoa_roundtrip: "inInt i \<Longrightarrow> Atoi (Itoa i) = Some i"
proof (cases "i < 0")
  case True
  assume "inInt i"
  then show ?thesis using True parseNat_digits[of "nat (- i)"] by (simp add: Itoa_def Atoi_def inInt_def)
next
  case False
  assume "inInt i"
  then show ?thesis using False Atoi_digits[of "nat i"] by (simp add: Itoa_def inInt_def)
qed

lemma Itoa_nonempty: "Itoa i \<noteq> []"
  using natDigits_head[of "nat i"] by (auto simp: Itoa_def)

lemma Atoi_inInt: "Atoi s = Some i \<Longrightarrow> inInt i"
  by (auto simp: Atoi_def Let_def split: option.splits if_splits list.splits prod.splits)

section \<open>Truth values and case\<close>

definition ParseBool :: "string \<Rightarrow> bool option" where
  "ParseBool s = (if s \<in> set [''1'', ''t'', ''T'', ''TRUE'', ''true'', ''True''] then Some True
     else if s \<in> set [''0'', ''f'', ''F'', ''FALSE'', ''false'', ''False''] then Some False else None)"

definition FormatBool :: "bool \<Rightarrow> string" where
  "FormatBool b = (if b then ''true'' else ''false'')"

lemma FormatBool_roundtrip [simp]: "ParseBool (FormatBool b) = Some b" "FormatBool b \<noteq> []"
  by (simp_all add: ParseBool_def FormatBool_def)

definition lowerChar :: "char \<Rightarrow> char" where
  "lowerChar c = (let n = of_char c :: nat in if 65 \<le> n \<and> n \<le> 90 then char_of (n + 32) else c)"

definition upperChar :: "char \<Rightarrow> char" where
  "upperChar c = (let n = of_char c :: nat in if 97 \<le> n \<and> n \<le> 122 then char_of (n - 32) else c)"

definition ToLower :: "string \<Rightarrow> string" where
  "ToLower s = map lowerChar s"

definition ToUpper :: "string \<Rightarrow> string" where
  "ToUpper s = map upperChar s"

section \<open>Base 64\<close>

definition alphabet :: string where
  "alphabet = ''ABCDEFGHIJKLMNOPQRSTUVWXYZabcdefghijklmnopqrstuvwxyz0123456789+/''"

definition sextet :: "char \<Rightarrow> nat option" where
  "sextet c = (if c \<in> set alphabet then Some (length (takeWhile (\<lambda>x. x \<noteq> c) alphabet)) else None)"

text \<open>A group of four characters holds three bytes, two when it ends with one sign of padding, one with two.\<close>

definition bytesOf :: "nat \<Rightarrow> nat \<Rightarrow> byte list" where
  "bytesOf k v = take k [of_nat (v div 65536), of_nat (v div 256), of_nat v]"

definition value4 :: "nat \<Rightarrow> nat \<Rightarrow> nat \<Rightarrow> nat \<Rightarrow> nat" where
  "value4 a b c d = a * 262144 + b * 4096 + c * 64 + d"

fun decodeGroups :: "string \<Rightarrow> byte list option" where
  "decodeGroups [] = Some []"
| "decodeGroups (a # b # c # d # rest) =
    (if d = CHR ''='' \<and> rest = [] then
       if c = CHR ''='' then do { x \<leftarrow> sextet a; y \<leftarrow> sextet b; Some (bytesOf 1 (value4 x y 0 0)) }
       else do { x \<leftarrow> sextet a; y \<leftarrow> sextet b; z \<leftarrow> sextet c; Some (bytesOf 2 (value4 x y z 0)) }
     else do { x \<leftarrow> sextet a; y \<leftarrow> sextet b; z \<leftarrow> sextet c; w \<leftarrow> sextet d; bs \<leftarrow> decodeGroups rest; Some (bytesOf 3 (value4 x y z w) @ bs) })"
| "decodeGroups _ = None"

text \<open>Line ends are skipped anywhere.\<close>

definition DecodeString :: "string \<Rightarrow> byte list option" where
  "DecodeString s = decodeGroups (filter (\<lambda>c. c \<noteq> CHR 0x0A \<and> c \<noteq> CHR 0x0D) s)"

definition sextetChar :: "nat \<Rightarrow> char" where
  "sextetChar v = alphabet ! (v mod 64)"

fun EncodeToString :: "byte list \<Rightarrow> string" where
  "EncodeToString [] = []"
| "EncodeToString [a] = (let v = unat a * 65536 in [sextetChar (v div 262144), sextetChar (v div 4096), CHR ''='', CHR ''=''])"
| "EncodeToString [a, b] = (let v = unat a * 65536 + unat b * 256 in [sextetChar (v div 262144), sextetChar (v div 4096), sextetChar (v div 64), CHR ''=''])"
| "EncodeToString (a # b # c # rest) = (let v = unat a * 65536 + unat b * 256 + unat c in
     [sextetChar (v div 262144), sextetChar (v div 4096), sextetChar (v div 64), sextetChar v] @ EncodeToString rest)"

lemma takeWhile_index: "distinct xs \<Longrightarrow> n < length xs \<Longrightarrow> length (takeWhile (\<lambda>x. x \<noteq> xs ! n) xs) = n"
proof (induction xs arbitrary: n)
  case (Cons x xs)
  then show ?case by (cases n) (auto simp: nth_mem)
qed simp

lemma length_alphabet: "length alphabet = 64" "distinct alphabet"
  by (simp_all add: alphabet_def)

lemma sextet_roundtrip: "sextet (sextetChar v) = Some (v mod 64)"
  using takeWhile_index[OF length_alphabet(2), of "v mod 64"] by (simp add: sextet_def sextetChar_def length_alphabet)

lemma sextetChar_mem: "sextetChar v \<in> set alphabet"
  by (simp add: sextetChar_def length_alphabet)

lemma sextetChar_plain: "sextetChar v \<noteq> CHR ''=''" "sextetChar v \<noteq> CHR 0x0A" "sextetChar v \<noteq> CHR 0x0D"
proof -
  have "CHR ''='' \<notin> set alphabet" "CHR 0x0A \<notin> set alphabet" "CHR 0x0D \<notin> set alphabet" by (simp_all add: alphabet_def)
  then show "sextetChar v \<noteq> CHR ''=''" "sextetChar v \<noteq> CHR 0x0A" "sextetChar v \<noteq> CHR 0x0D" using sextetChar_mem[of v] by metis+
qed

lemma byte_bound: "unat (a :: byte) < 256"
proof -
  have "unat a < 2 ^ LENGTH(8)" by (rule unsigned_less)
  then show ?thesis by simp
qed

lemma value4_parts:
  assumes "v < 16777216"
  shows "value4 (v div 262144 mod 64) (v div 4096 mod 64) (v div 64 mod 64) (v mod 64) = v"
proof -
  obtain p q r where p: "p = v div 64" and q: "q = p div 64" and r: "r = q div 64" by blast
  have d: "v div 4096 = q" "v div 262144 = r" by (simp_all add: p q r div_mult2_eq[symmetric])
  have e: "v = p * 64 + v mod 64" "p = q * 64 + p mod 64" "q = r * 64 + q mod 64" using div_mult_mod_eq[of v 64] div_mult_mod_eq[of p 64] div_mult_mod_eq[of q 64] by (simp_all only: p[symmetric] q[symmetric] r[symmetric])
  have "r < 64" using assms unfolding d(2)[symmetric] by simp
  then have m: "r mod 64 = r" by simp
  show ?thesis unfolding value4_def d m p[symmetric] using e by linarith
qed

lemma shifted_div: "x < m \<Longrightarrow> (a * m + x) div m = (a :: nat)"
  by simp

lemma bytesOf_value: "bytesOf k (unat a * 65536 + unat b * 256 + unat c) = take k [a, b, c]"
proof -
  have l: "unat b * 256 + unat c < 65536" "unat c < 256" using byte_bound[of b] byte_bound[of c] by linarith+
  have "(unat a * 65536 + unat b * 256 + unat c) div 65536 = unat a" using shifted_div[OF l(1), of "unat a"] by (simp add: add.assoc)
  moreover have "(unat a * 65536 + unat b * 256 + unat c) div 256 = unat a * 256 + unat b"
    using shifted_div[OF l(2), of "unat a * 256 + unat b"] by (simp add: algebra_simps)
  moreover have "(256 :: byte) = 0" "(65536 :: byte) = 0" by simp_all
  ultimately show ?thesis unfolding bytesOf_def by (simp only: of_nat_add of_nat_mult of_nat_numeral of_nat_unat ucast_id mult_zero_right add_0)
qed

lemma decodeGroups_encoded: "decodeGroups (EncodeToString bs) = Some bs"
proof (induction bs rule: EncodeToString.induct)
  case (2 a)
  obtain v where v: "v = unat a * 65536" by simp
  have "v < 16777216" using byte_bound[of a] v by linarith
  moreover have "v div 64 = 64 * (unat a * 16)" "v = 64 * (unat a * 1024)" unfolding v by simp_all
  then have "v div 64 mod 64 = 0" "v mod 64 = 0" by (metis mod_mult_self1_is_0)+
  ultimately have p: "value4 (v div 262144 mod 64) (v div 4096 mod 64) 0 0 = v" using value4_parts[of v] by simp
  have "bytesOf 1 v = [a]" using bytesOf_value[of 1 a 0 0] by (simp add: v)
  then show ?case unfolding EncodeToString.simps Let_def v[symmetric] by (simp add: sextet_roundtrip p)
next
  case (3 a b)
  obtain v where v: "v = unat a * 65536 + unat b * 256" by simp
  have "v < 16777216" using byte_bound[of a] byte_bound[of b] v by linarith
  moreover have "v = 64 * (unat a * 1024 + unat b * 4)" unfolding v by simp
  then have "v mod 64 = 0" by (metis mod_mult_self1_is_0)
  ultimately have p: "value4 (v div 262144 mod 64) (v div 4096 mod 64) (v div 64 mod 64) 0 = v" using value4_parts[of v] by simp
  have "bytesOf 2 v = [a, b]" using bytesOf_value[of 2 a b 0] by (simp add: v)
  then show ?case unfolding EncodeToString.simps Let_def v[symmetric] by (simp add: sextet_roundtrip sextetChar_plain p)
next
  case (4 a b c rest)
  obtain v where v: "v = unat a * 65536 + unat b * 256 + unat c" by simp
  have "v < 16777216" using byte_bound[of a] byte_bound[of b] byte_bound[of c] v by linarith
  then have p: "value4 (v div 262144 mod 64) (v div 4096 mod 64) (v div 64 mod 64) (v mod 64) = v" by (rule value4_parts)
  have "bytesOf 3 v = [a, b, c]" using bytesOf_value[of 3 a b c] by (simp add: v)
  then show ?case using 4[OF refl] unfolding EncodeToString.simps Let_def v[symmetric] by (simp add: sextet_roundtrip sextetChar_plain p)
qed simp

lemma encoded_plain: "c \<in> set (EncodeToString bs) \<Longrightarrow> c \<noteq> CHR 0x0A \<and> c \<noteq> CHR 0x0D"
  by (induction bs rule: EncodeToString.induct) (auto simp: Let_def sextetChar_plain)

lemma base64_roundtrip: "DecodeString (EncodeToString bs) = Some bs"
proof -
  have "filter (\<lambda>c. c \<noteq> CHR 0x0A \<and> c \<noteq> CHR 0x0D) (EncodeToString bs) = EncodeToString bs" using encoded_plain[of _ bs] by (intro filter_True) simp
  then show ?thesis by (simp add: DecodeString_def decodeGroups_encoded)
qed

section \<open>Log levels\<close>

text \<open>A level is a name, with an offset when it is between two names; parsing ignores case.\<close>

definition wrapInt :: "int \<Rightarrow> int" where
  "wrapInt i = (i + 2 ^ 63) mod 2 ^ 64 - 2 ^ 63"

definition levelName :: "string \<Rightarrow> int option" where
  "levelName s = (if s = ''DEBUG'' then Some (- 4) else if s = ''INFO'' then Some 0 else if s = ''WARN'' then Some 4
     else if s = ''ERROR'' then Some 8 else None)"

definition isSign :: "char \<Rightarrow> bool" where
  "isSign c \<longleftrightarrow> c = CHR ''+'' \<or> c = CHR ''-''"

definition parseLevel :: "string \<Rightarrow> int option" where
  "parseLevel s = (let name = takeWhile (\<lambda>c. \<not> isSign c) s; rest = dropWhile (\<lambda>c. \<not> isSign c) s in
     do { offset \<leftarrow> (if rest = [] then Some 0 else Atoi rest); l \<leftarrow> levelName (ToUpper name); Some (wrapInt (l + offset)) })"

definition withOffset :: "string \<Rightarrow> int \<Rightarrow> string" where
  "withOffset name v = (if v = 0 then name else if v > 0 then name @ CHR ''+'' # natDigits (nat v) else name @ Itoa v)"

definition levelString :: "int \<Rightarrow> string" where
  "levelString l = (if l < 0 then withOffset ''DEBUG'' (wrapInt (l + 4)) else if l < 4 then withOffset ''INFO'' l
     else if l < 8 then withOffset ''WARN'' (l - 4) else withOffset ''ERROR'' (l - 8))"

lemma wrapInt_id [simp]: "inInt i \<Longrightarrow> wrapInt i = i"
  by (simp add: wrapInt_def inInt_def)

lemma wrapInt_in: "inInt (wrapInt i)"
  by (simp add: wrapInt_def inInt_def)

lemma parseLevel_inInt: "parseLevel s = Some l \<Longrightarrow> inInt l"
  by (auto simp: parseLevel_def Let_def wrapInt_in bind_eq_Some_conv)

lemma lower_digits: "ToLower (natDigits n) = natDigits n"
proof (induction n rule: natDigits.induct)
  case (1 n)
  have d: "lowerChar (digitChar d) = digitChar d" if "d < 10" for d using that by (simp add: lowerChar_def digitChar_def Let_def of_char_of)
  show ?case
  proof (cases "n < 10")
    case True
    then show ?thesis by (subst natDigits.simps, subst natDigits.simps) (simp add: ToLower_def d)
  next
    case False
    then show ?thesis using 1 by (subst natDigits.simps, subst (2) natDigits.simps) (simp add: ToLower_def d)
  qed
qed

lemma Atoi_plus: "0 \<le> v \<Longrightarrow> inInt v \<Longrightarrow> Atoi (CHR ''+'' # natDigits (nat v)) = Some v"
  by (simp add: Atoi_def parseNat_digits)

lemma parseLevel_split:
  assumes "\<forall>c\<in>set name. \<not> isSign c" "levelName (ToUpper name) = Some l"
  shows "parseLevel name = Some (wrapInt l)" "isSign c \<Longrightarrow> Atoi (c # cs) = Some v \<Longrightarrow> parseLevel (name @ c # cs) = Some (wrapInt (l + v))"
proof -
  have t: "takeWhile (\<lambda>c. \<not> isSign c) name = name" "dropWhile (\<lambda>c. \<not> isSign c) name = []" using assms(1) by (simp_all add: takeWhile_eq_all_conv dropWhile_eq_Nil_conv)
  show "parseLevel name = Some (wrapInt l)" unfolding parseLevel_def Let_def t by (simp add: assms(2))
  assume c: "isSign c" "Atoi (c # cs) = Some v"
  have "takeWhile (\<lambda>c. \<not> isSign c) (name @ c # cs) = name" "dropWhile (\<lambda>c. \<not> isSign c) (name @ c # cs) = c # cs" using assms(1) c(1) by (simp_all add: takeWhile_append2 dropWhile_append2)
  then show "parseLevel (name @ c # cs) = Some (wrapInt (l + v))" by (simp add: parseLevel_def assms(2) c(2))
qed

lemma parse_offset:
  assumes "\<forall>c\<in>set name. \<not> isSign c" "levelName (ToUpper name) = Some l" "inInt v"
  shows "parseLevel (withOffset name v) = Some (wrapInt (l + v))"
proof -
  consider "v = 0" | "v > 0" | "v < 0" by linarith
  then show ?thesis
  proof cases
    case 2
    then show ?thesis using parseLevel_split(2)[OF assms(1,2), of "CHR ''+''" "natDigits (nat v)"] Atoi_plus[OF _ assms(3)] by (simp add: withOffset_def isSign_def)
  next
    case 3
    then have "Itoa v = CHR ''-'' # natDigits (nat (- v))" by (simp add: Itoa_def)
    then show ?thesis using parseLevel_split(2)[OF assms(1,2), of "CHR ''-''" "natDigits (nat (- v))"] Itoa_roundtrip[OF assms(3)] 3 by (simp add: withOffset_def isSign_def)
  qed (simp add: withOffset_def parseLevel_split(1)[OF assms(1,2)])
qed

lemma ToLower_offset: "ToLower (withOffset name v) = withOffset (ToLower name) v"
  using lower_digits by (auto simp: withOffset_def ToLower_def Itoa_def lowerChar_def)

lemma names_lower:
  "ToLower ''DEBUG'' = ''debug''" "ToLower ''INFO'' = ''info''" "ToLower ''WARN'' = ''warn''" "ToLower ''ERROR'' = ''error''"
  by code_simp+

lemma names_level:
  "levelName (ToUpper ''debug'') = Some (- 4)" "levelName (ToUpper ''info'') = Some 0" "levelName (ToUpper ''warn'') = Some 4" "levelName (ToUpper ''error'') = Some 8"
  by code_simp+

lemma level_roundtrip: "inInt l \<Longrightarrow> parseLevel (ToLower (levelString l)) = Some l"
proof -
  assume l: "inInt l"
  have p: "parseLevel (withOffset ''debug'' v) = Some (wrapInt (- 4 + v))" "parseLevel (withOffset ''info'' v) = Some (wrapInt v)"
    "parseLevel (withOffset ''warn'' v) = Some (wrapInt (4 + v))" "parseLevel (withOffset ''error'' v) = Some (wrapInt (8 + v))" if "inInt v" for v
    using parse_offset[OF _ names_level(1) that] parse_offset[OF _ names_level(2) that] parse_offset[OF _ names_level(3) that] parse_offset[OF _ names_level(4) that]
    by (simp_all add: isSign_def)
  have w: "inInt (l - 8) \<or> l < 8" "inInt (l - 4) \<or> l < 4" "inInt (l + 4) \<or> 0 \<le> l" using l by (auto simp: inInt_def)
  show ?thesis using l w by (auto simp: levelString_def ToLower_offset names_lower p)
qed

lemma level_nonempty: "ToLower (levelString l) \<noteq> []"
proof -
  have "withOffset n v \<noteq> []" if "n \<noteq> []" for n v using that by (simp add: withOffset_def)
  then have "levelString l \<noteq> []" unfolding levelString_def by (metis list.distinct(1))
  then show ?thesis unfolding ToLower_def by simp
qed

end
