(* ===== verification/Server_Config.thy ===== *)
theory Server_Config
  imports Go_Text Mixer_Control
begin

text \<open>
  The server's configuration (\<^verbatim>\<open>src/server/config.go\<close>): the environment, the \<^verbatim>\<open>.env\<close> file, the defaults, the checks, and the
  printout at start. The environment is a map from names to values, which are ASCII text; an unset variable reads as the
  empty string. The reader of \<^verbatim>\<open>.env\<close> files is a library and is an argument, the file's variables or the failure.
\<close>

section \<open>The configuration\<close>

type_synonym Environ = "string \<rightharpoonup> string"

definition Getenv :: "Environ \<Rightarrow> string \<Rightarrow> string" where
  "Getenv env name = (case env name of None \<Rightarrow> [] | Some v \<Rightarrow> v)"

record appConfig =
  ac_Host :: string
  ac_Port :: int
  ac_HTTPPort :: int
  ac_SpaceID :: string
  ac_CertFile :: string
  ac_KeyFile :: string
  ac_Order :: int
  ac_MaxEntities :: int
  ac_Workers :: int
  ac_Reverb :: string
  ac_StatsSec :: int
  ac_TicketKey :: "byte list option"
  ac_AllowUnticketed :: bool
  ac_LogLevel :: int
  ac_LogFormat :: string
  ac_LogSink :: string
  ac_LogProject :: string
  ac_MixerGonum :: bool
  ac_ArrivalRecordDir :: string

definition configVars :: "string list" where
  "configVars = [''PANAUDIA_HOST'', ''PANAUDIA_PORT'', ''PANAUDIA_HTTP_PORT'', ''PANAUDIA_SPACE'', ''PANAUDIA_CERT'', ''PANAUDIA_KEY'',
     ''PANAUDIA_TICKET_KEY'', ''PANAUDIA_ALLOW_UNTICKETED'', ''PANAUDIA_ORDER'', ''PANAUDIA_MAX_ENTITIES'', ''PANAUDIA_WORKERS'', ''PANAUDIA_REVERB'',
     ''PANAUDIA_STATS_SEC'', ''PANAUDIA_LOG_LEVEL'', ''PANAUDIA_LOG_FORMAT'', ''PANAUDIA_LOG_SINK'', ''PANAUDIA_LOG_PROJECT'',
     ''PANAUDIA_MIXER_GONUM'', ''PANAUDIA_ARRIVAL_RECORD_DIR'']"

definition reverbPresets :: "string \<rightharpoonup> int" where
  "reverbPresets = map_of [(''none'', 0), (''tight-room'', 1), (''small-room'', 2), (''medium-room'', 3), (''large-hall'', 4), (''cathedral'', 5)]"

definition defaultConfig :: appConfig where
  "defaultConfig = \<lparr> ac_Host = [], ac_Port = 4443, ac_HTTPPort = 0, ac_SpaceID = ''main'', ac_CertFile = [], ac_KeyFile = [],
     ac_Order = cf_Order DefaultConfig, ac_MaxEntities = cf_MaxEntities DefaultConfig, ac_Workers = cf_Workers DefaultConfig,
     ac_Reverb = ''medium-room'', ac_StatsSec = 60, ac_TicketKey = None, ac_AllowUnticketed = True, ac_LogLevel = 0,
     ac_LogFormat = ''text'', ac_LogSink = ''stderr'', ac_LogProject = [], ac_MixerGonum = False, ac_ArrivalRecordDir = [] \<rparr>"

section \<open>The environment and the file\<close>

definition snapshotEnv :: "Environ \<Rightarrow> string set" where
  "snapshotEnv env = {name \<in> set configVars. env name \<noteq> None}"

datatype dotFile = NotExist | Malformed | Variables Environ

text \<open>A variable that is already set keeps its value.\<close>

definition loadDotEnv :: "(string \<Rightarrow> dotFile) \<Rightarrow> Environ \<Rightarrow> string + (Environ \<times> string)" where
  "loadDotEnv file env = (let path = Getenv env ''PANAUDIA_ENV_FILE''; explicit = (path \<noteq> []); path = (if explicit then path else ''.env'') in
     case file path of
       Variables vars \<Rightarrow> Inr (vars ++ env, path)
     | NotExist \<Rightarrow> if explicit then Inl path else Inr (env, [])
     | Malformed \<Rightarrow> Inl path)"

definition provenance :: "Environ \<Rightarrow> string \<Rightarrow> string set \<Rightarrow> string" where
  "provenance env name fromEnv = (if name \<in> fromEnv then ''env'' else if Getenv env name \<noteq> [] then ''.env'' else ''default'')"

text \<open>The socket handed over by the process that started this one: read once, remembered, and taken out of the environment.\<close>

definition inheritedUDPFD :: "int option \<Rightarrow> Environ \<Rightarrow> int \<times> int option \<times> Environ" where
  "inheritedUDPFD once env = (case once of
     Some fd \<Rightarrow> (fd, once, env)
   | None \<Rightarrow>
      let v = Getenv env ''PANAUDIA_INHERITED_UDP_FD'' in
      if v \<noteq> [] then
        let env = env(''PANAUDIA_INHERITED_UDP_FD'' := None);
            fd = (case Atoi v of Some n \<Rightarrow> if n \<ge> 0 then n else - 1 | None \<Rightarrow> - 1) in (fd, Some fd, env)
      else (- 1, Some (- 1), env))"

section \<open>Loading\<close>

text \<open>An error is the name of the variable at fault; later steps run only after the earlier ones succeeded.\<close>

definition check :: "bool \<Rightarrow> string \<Rightarrow> (string + 'a) \<Rightarrow> string + 'a" where
  "check ok name next = (if ok then next else Inl name)"

definition need :: "'b option \<Rightarrow> string \<Rightarrow> ('b \<Rightarrow> string + 'a) \<Rightarrow> string + 'a" where
  "need x name next = (case x of None \<Rightarrow> Inl name | Some v \<Rightarrow> next v)"

definition envInt :: "Environ \<Rightarrow> string \<Rightarrow> int \<Rightarrow> int option" where
  "envInt env name d = (let v = Getenv env name in if v = [] then Some d else Atoi v)"

definition envOr :: "Environ \<Rightarrow> string \<Rightarrow> string \<Rightarrow> string" where
  "envOr env name d = (let v = Getenv env name in if v \<noteq> [] then v else d)"

definition envLower :: "Environ \<Rightarrow> string \<Rightarrow> string \<Rightarrow> string" where
  "envLower env name d = (let v = Getenv env name in if v \<noteq> [] then ToLower v else d)"

definition envParsed :: "(string \<Rightarrow> 'a option) \<Rightarrow> Environ \<Rightarrow> string \<Rightarrow> 'a \<Rightarrow> 'a option" where
  "envParsed parse env name d = (let v = Getenv env name in if v \<noteq> [] then parse v else Some d)"

definition ticketKey :: "string \<Rightarrow> byte list option option" where
  "ticketKey v = (case DecodeString v of None \<Rightarrow> None | Some raw \<Rightarrow> if length raw \<noteq> 32 then None else Some (Some raw))"

definition loadConfig :: "Environ \<Rightarrow> string + appConfig" where
  "loadConfig env = (let cfg = defaultConfig; cfg = cfg \<lparr> ac_Host := Getenv env ''PANAUDIA_HOST'' \<rparr> in
     need (envInt env ''PANAUDIA_PORT'' (ac_Port cfg)) ''PANAUDIA_PORT'' (\<lambda>n. let cfg = cfg \<lparr> ac_Port := n \<rparr> in
     need (envInt env ''PANAUDIA_HTTP_PORT'' (ac_HTTPPort cfg)) ''PANAUDIA_HTTP_PORT'' (\<lambda>n. let cfg = cfg \<lparr> ac_HTTPPort := n \<rparr> in
     check (\<not> (ac_HTTPPort cfg < 0 \<or> ac_HTTPPort cfg > 65535)) ''PANAUDIA_HTTP_PORT'' (
     let cfg = cfg \<lparr> ac_SpaceID := envOr env ''PANAUDIA_SPACE'' (ac_SpaceID cfg) \<rparr>;
         cfg = cfg \<lparr> ac_CertFile := Getenv env ''PANAUDIA_CERT'', ac_KeyFile := Getenv env ''PANAUDIA_KEY'' \<rparr> in
     check (\<not> ((ac_CertFile cfg = []) \<noteq> (ac_KeyFile cfg = []))) ''PANAUDIA_CERT'' (
     need (envInt env ''PANAUDIA_ORDER'' (ac_Order cfg)) ''PANAUDIA_ORDER'' (\<lambda>n. let cfg = cfg \<lparr> ac_Order := n \<rparr> in
     need (envInt env ''PANAUDIA_MAX_ENTITIES'' (ac_MaxEntities cfg)) ''PANAUDIA_MAX_ENTITIES'' (\<lambda>n. let cfg = cfg \<lparr> ac_MaxEntities := n \<rparr> in
     need (envInt env ''PANAUDIA_WORKERS'' (ac_Workers cfg)) ''PANAUDIA_WORKERS'' (\<lambda>n.
     let cfg = cfg \<lparr> ac_Workers := n \<rparr>; cfg = cfg \<lparr> ac_Reverb := envOr env ''PANAUDIA_REVERB'' (ac_Reverb cfg) \<rparr> in
     need (envInt env ''PANAUDIA_STATS_SEC'' (ac_StatsSec cfg)) ''PANAUDIA_STATS_SEC'' (\<lambda>n. let cfg = cfg \<lparr> ac_StatsSec := n \<rparr> in
     check (\<not> ac_StatsSec cfg < 1) ''PANAUDIA_STATS_SEC'' (
     check (reverbPresets (ac_Reverb cfg) \<noteq> None) ''PANAUDIA_REVERB'' (
     need (envParsed parseLevel env ''PANAUDIA_LOG_LEVEL'' (ac_LogLevel cfg)) ''PANAUDIA_LOG_LEVEL'' (\<lambda>l.
     let cfg = cfg \<lparr> ac_LogLevel := l \<rparr>; cfg = cfg \<lparr> ac_LogFormat := envLower env ''PANAUDIA_LOG_FORMAT'' (ac_LogFormat cfg) \<rparr> in
     check (ac_LogFormat cfg = ''text'' \<or> ac_LogFormat cfg = ''json'') ''PANAUDIA_LOG_FORMAT'' (
     let cfg = cfg \<lparr> ac_LogSink := envLower env ''PANAUDIA_LOG_SINK'' (ac_LogSink cfg) \<rparr> in
     check (ac_LogSink cfg = ''stderr'' \<or> ac_LogSink cfg = ''cloud-logging'') ''PANAUDIA_LOG_SINK'' (
     let cfg = cfg \<lparr> ac_LogProject := Getenv env ''PANAUDIA_LOG_PROJECT'' \<rparr> in
     need (envParsed ParseBool env ''PANAUDIA_MIXER_GONUM'' (ac_MixerGonum cfg)) ''PANAUDIA_MIXER_GONUM'' (\<lambda>b.
     let cfg = cfg \<lparr> ac_MixerGonum := b \<rparr>; cfg = cfg \<lparr> ac_ArrivalRecordDir := Getenv env ''PANAUDIA_ARRIVAL_RECORD_DIR'' \<rparr> in
     need (envParsed ticketKey env ''PANAUDIA_TICKET_KEY'' (ac_TicketKey cfg)) ''PANAUDIA_TICKET_KEY'' (\<lambda>k.
     let cfg = cfg \<lparr> ac_TicketKey := k \<rparr>; cfg = cfg \<lparr> ac_AllowUnticketed := False \<rparr> in
     need (envParsed ParseBool env ''PANAUDIA_ALLOW_UNTICKETED'' (ac_AllowUnticketed cfg)) ''PANAUDIA_ALLOW_UNTICKETED'' (\<lambda>b.
     let cfg = cfg \<lparr> ac_AllowUnticketed := b \<rparr> in
     check (\<not> (ac_TicketKey cfg \<noteq> None \<and> ac_AllowUnticketed cfg)) ''PANAUDIA_TICKET_KEY'' (
     check (\<not> (ac_TicketKey cfg = None \<and> \<not> ac_AllowUnticketed cfg)) ''PANAUDIA_TICKET_KEY'' (Inr cfg)))))))))))))))))))"

definition engineConfig :: "appConfig \<Rightarrow> Config" where
  "engineConfig c = \<lparr> cf_Order = ac_Order c, cf_MaxEntities = ac_MaxEntities c,
     cf_ReverbPreset = (case reverbPresets (ac_Reverb c) of None \<Rightarrow> 0 | Some p \<Rightarrow> p), cf_Workers = ac_Workers c, cf_PureGoMixer = ac_MixerGonum c \<rparr>"

definition effective :: "appConfig \<Rightarrow> Environ" where
  "effective c = map_of [(''PANAUDIA_HOST'', ac_Host c), (''PANAUDIA_PORT'', Itoa (ac_Port c)), (''PANAUDIA_HTTP_PORT'', Itoa (ac_HTTPPort c)),
     (''PANAUDIA_SPACE'', ac_SpaceID c), (''PANAUDIA_CERT'', ac_CertFile c), (''PANAUDIA_KEY'', ac_KeyFile c),
     (''PANAUDIA_TICKET_KEY'', case ac_TicketKey c of None \<Rightarrow> [] | Some k \<Rightarrow> EncodeToString k),
     (''PANAUDIA_ALLOW_UNTICKETED'', FormatBool (ac_AllowUnticketed c)), (''PANAUDIA_ORDER'', Itoa (ac_Order c)),
     (''PANAUDIA_MAX_ENTITIES'', Itoa (ac_MaxEntities c)), (''PANAUDIA_WORKERS'', Itoa (ac_Workers c)), (''PANAUDIA_REVERB'', ac_Reverb c),
     (''PANAUDIA_STATS_SEC'', Itoa (ac_StatsSec c)), (''PANAUDIA_LOG_LEVEL'', ToLower (levelString (ac_LogLevel c))),
     (''PANAUDIA_LOG_FORMAT'', ac_LogFormat c), (''PANAUDIA_LOG_SINK'', ac_LogSink c), (''PANAUDIA_LOG_PROJECT'', ac_LogProject c),
     (''PANAUDIA_MIXER_GONUM'', FormatBool (ac_MixerGonum c)), (''PANAUDIA_ARRIVAL_RECORD_DIR'', ac_ArrivalRecordDir c)]"

text \<open>The lines of the printout: name, value, source.\<close>

definition logEffective :: "Environ \<Rightarrow> string set \<Rightarrow> appConfig \<Rightarrow> (string \<times> string \<times> string) list" where
  "logEffective env fromEnv c = map (\<lambda>name. let v = Getenv (effective c) name in (name, if v = [] then ''(unset)'' else v, provenance env name fromEnv)) configVars"

section \<open>What an accepted configuration is\<close>

lemma need_Inr: "need x name f = Inr c \<longleftrightarrow> (\<exists>v. x = Some v \<and> f v = Inr c)"
  by (simp add: need_def split: option.split)

lemma check_Inr: "check ok name r = Inr c \<longleftrightarrow> ok \<and> r = Inr c"
  by (simp add: check_def)

text \<open>The configuration is what each variable says, or its default; and the checks hold of it.\<close>

definition configFrom :: "Environ \<Rightarrow> appConfig \<Rightarrow> bool" where
  "configFrom env cfg \<longleftrightarrow> ac_Host cfg = Getenv env ''PANAUDIA_HOST'' \<and> envInt env ''PANAUDIA_PORT'' 4443 = Some (ac_Port cfg) \<and>
     envInt env ''PANAUDIA_HTTP_PORT'' 0 = Some (ac_HTTPPort cfg) \<and> ac_SpaceID cfg = envOr env ''PANAUDIA_SPACE'' ''main'' \<and>
     ac_CertFile cfg = Getenv env ''PANAUDIA_CERT'' \<and> ac_KeyFile cfg = Getenv env ''PANAUDIA_KEY'' \<and>
     envInt env ''PANAUDIA_ORDER'' 3 = Some (ac_Order cfg) \<and> envInt env ''PANAUDIA_MAX_ENTITIES'' 64 = Some (ac_MaxEntities cfg) \<and>
     envInt env ''PANAUDIA_WORKERS'' 16 = Some (ac_Workers cfg) \<and> ac_Reverb cfg = envOr env ''PANAUDIA_REVERB'' ''medium-room'' \<and>
     envInt env ''PANAUDIA_STATS_SEC'' 60 = Some (ac_StatsSec cfg) \<and> envParsed parseLevel env ''PANAUDIA_LOG_LEVEL'' 0 = Some (ac_LogLevel cfg) \<and>
     ac_LogFormat cfg = envLower env ''PANAUDIA_LOG_FORMAT'' ''text'' \<and> ac_LogSink cfg = envLower env ''PANAUDIA_LOG_SINK'' ''stderr'' \<and>
     ac_LogProject cfg = Getenv env ''PANAUDIA_LOG_PROJECT'' \<and> envParsed ParseBool env ''PANAUDIA_MIXER_GONUM'' False = Some (ac_MixerGonum cfg) \<and>
     ac_ArrivalRecordDir cfg = Getenv env ''PANAUDIA_ARRIVAL_RECORD_DIR'' \<and> envParsed ticketKey env ''PANAUDIA_TICKET_KEY'' None = Some (ac_TicketKey cfg) \<and>
     envParsed ParseBool env ''PANAUDIA_ALLOW_UNTICKETED'' False = Some (ac_AllowUnticketed cfg)"

definition configSound :: "appConfig \<Rightarrow> bool" where
  "configSound cfg \<longleftrightarrow> 0 \<le> ac_HTTPPort cfg \<and> ac_HTTPPort cfg \<le> 65535 \<and> (ac_CertFile cfg = [] \<longleftrightarrow> ac_KeyFile cfg = []) \<and> 1 \<le> ac_StatsSec cfg \<and>
     reverbPresets (ac_Reverb cfg) \<noteq> None \<and> ac_LogFormat cfg \<in> {''text'', ''json''} \<and> ac_LogSink cfg \<in> {''stderr'', ''cloud-logging''} \<and>
     (ac_AllowUnticketed cfg \<longleftrightarrow> ac_TicketKey cfg = None)"

lemma loadConfig_accepts: "loadConfig env = Inr cfg \<Longrightarrow> configFrom env cfg \<and> configSound cfg"
  unfolding loadConfig_def Let_def need_Inr check_Inr
  by (elim exE conjE, drule Inr_inject, hypsubst, simp add: configFrom_def configSound_def defaultConfig_def DefaultConfig_def not_less, blast)

lemma loadConfig_complete:
  assumes "configFrom env cfg" "configSound cfg"
  shows "loadConfig env = Inr cfg"
proof -
  have f: "Getenv env ''PANAUDIA_HOST'' = ac_Host cfg" "envInt env ''PANAUDIA_PORT'' 4443 = Some (ac_Port cfg)"
     "envInt env ''PANAUDIA_HTTP_PORT'' 0 = Some (ac_HTTPPort cfg)" "envOr env ''PANAUDIA_SPACE'' ''main'' = ac_SpaceID cfg"
     "Getenv env ''PANAUDIA_CERT'' = ac_CertFile cfg" "Getenv env ''PANAUDIA_KEY'' = ac_KeyFile cfg"
     "envInt env ''PANAUDIA_ORDER'' 3 = Some (ac_Order cfg)" "envInt env ''PANAUDIA_MAX_ENTITIES'' 64 = Some (ac_MaxEntities cfg)"
     "envInt env ''PANAUDIA_WORKERS'' 16 = Some (ac_Workers cfg)" "envOr env ''PANAUDIA_REVERB'' ''medium-room'' = ac_Reverb cfg"
     "envInt env ''PANAUDIA_STATS_SEC'' 60 = Some (ac_StatsSec cfg)" "envParsed parseLevel env ''PANAUDIA_LOG_LEVEL'' 0 = Some (ac_LogLevel cfg)"
     "envLower env ''PANAUDIA_LOG_FORMAT'' ''text'' = ac_LogFormat cfg" "envLower env ''PANAUDIA_LOG_SINK'' ''stderr'' = ac_LogSink cfg"
     "Getenv env ''PANAUDIA_LOG_PROJECT'' = ac_LogProject cfg" "envParsed ParseBool env ''PANAUDIA_MIXER_GONUM'' False = Some (ac_MixerGonum cfg)"
     "Getenv env ''PANAUDIA_ARRIVAL_RECORD_DIR'' = ac_ArrivalRecordDir cfg" "envParsed ticketKey env ''PANAUDIA_TICKET_KEY'' None = Some (ac_TicketKey cfg)"
     "envParsed ParseBool env ''PANAUDIA_ALLOW_UNTICKETED'' False = Some (ac_AllowUnticketed cfg)"
    using assms(1) unfolding configFrom_def by (elim conjE, assumption | (elim conjE, simp only:))+
  show ?thesis using assms(2)
    unfolding loadConfig_def Let_def need_Inr check_Inr defaultConfig_def DefaultConfig_def configSound_def
    by (elim conjE, simp add: f, cases "ac_TicketKey cfg", simp_all)
qed

section \<open>The printout\<close>

lemma effective_env [simp]:
  "Getenv (effective c) ''PANAUDIA_HOST'' = ac_Host c" "Getenv (effective c) ''PANAUDIA_PORT'' = Itoa (ac_Port c)"
  "Getenv (effective c) ''PANAUDIA_HTTP_PORT'' = Itoa (ac_HTTPPort c)" "Getenv (effective c) ''PANAUDIA_SPACE'' = ac_SpaceID c"
  "Getenv (effective c) ''PANAUDIA_CERT'' = ac_CertFile c" "Getenv (effective c) ''PANAUDIA_KEY'' = ac_KeyFile c"
  "Getenv (effective c) ''PANAUDIA_TICKET_KEY'' = (case ac_TicketKey c of None \<Rightarrow> [] | Some k \<Rightarrow> EncodeToString k)"
  "Getenv (effective c) ''PANAUDIA_ALLOW_UNTICKETED'' = FormatBool (ac_AllowUnticketed c)" "Getenv (effective c) ''PANAUDIA_ORDER'' = Itoa (ac_Order c)"
  "Getenv (effective c) ''PANAUDIA_MAX_ENTITIES'' = Itoa (ac_MaxEntities c)" "Getenv (effective c) ''PANAUDIA_WORKERS'' = Itoa (ac_Workers c)"
  "Getenv (effective c) ''PANAUDIA_REVERB'' = ac_Reverb c" "Getenv (effective c) ''PANAUDIA_STATS_SEC'' = Itoa (ac_StatsSec c)"
  "Getenv (effective c) ''PANAUDIA_LOG_LEVEL'' = ToLower (levelString (ac_LogLevel c))" "Getenv (effective c) ''PANAUDIA_LOG_FORMAT'' = ac_LogFormat c"
  "Getenv (effective c) ''PANAUDIA_LOG_SINK'' = ac_LogSink c" "Getenv (effective c) ''PANAUDIA_LOG_PROJECT'' = ac_LogProject c"
  "Getenv (effective c) ''PANAUDIA_MIXER_GONUM'' = FormatBool (ac_MixerGonum c)" "Getenv (effective c) ''PANAUDIA_ARRIVAL_RECORD_DIR'' = ac_ArrivalRecordDir c"
  by (simp_all add: Getenv_def effective_def)

lemma envInt_in: "envInt env name d = Some n \<Longrightarrow> inInt d \<Longrightarrow> inInt n"
  using Atoi_inInt by (auto simp: envInt_def Let_def split: if_splits)

lemma envInt_printed: "Getenv env name = Itoa n \<Longrightarrow> inInt n \<Longrightarrow> envInt env name d = Some n"
  by (simp add: envInt_def Itoa_nonempty Itoa_roundtrip)

lemma envParsed_printed: "Getenv env name = v \<Longrightarrow> v \<noteq> [] \<Longrightarrow> parse v = Some x \<Longrightarrow> envParsed parse env name d = Some x"
  by (simp add: envParsed_def)

lemma ticketKey_printed: "length k = 32 \<Longrightarrow> EncodeToString k \<noteq> [] \<and> ticketKey (EncodeToString k) = Some (Some k)"
  using base64_roundtrip[of k] by (cases k rule: EncodeToString.cases) (auto simp: ticketKey_def Let_def)

lemma ticketKey_ok: "ticketKey v = Some x \<longleftrightarrow> (\<exists>k. x = Some k \<and> length k = 32 \<and> DecodeString v = Some k)"
  by (auto simp: ticketKey_def split: option.splits if_splits)

lemma lower_fixed: "ToLower ''text'' = ''text''" "ToLower ''json'' = ''json''" "ToLower ''stderr'' = ''stderr''" "ToLower ''cloud-logging'' = ''cloud-logging''"
  by code_simp+

lemma accepted_values:
  assumes "configFrom env cfg" "configSound cfg"
  shows "inInt (ac_Port cfg)" "inInt (ac_HTTPPort cfg)" "inInt (ac_Order cfg)" "inInt (ac_MaxEntities cfg)" "inInt (ac_Workers cfg)" "inInt (ac_StatsSec cfg)"
    "inInt (ac_LogLevel cfg)" "ac_SpaceID cfg \<noteq> []" "ac_Reverb cfg \<noteq> []" "ToLower (ac_LogFormat cfg) = ac_LogFormat cfg" "ToLower (ac_LogSink cfg) = ac_LogSink cfg"
    "ac_LogFormat cfg \<noteq> []" "ac_LogSink cfg \<noteq> []" "ac_TicketKey cfg = Some k \<Longrightarrow> length k = 32"
proof -
  note f = assms[unfolded configFrom_def configSound_def]
  have d: "inInt 4443" "inInt 0" "inInt 3" "inInt 64" "inInt 16" "inInt 60" by (simp_all add: inInt_def)
  show "inInt (ac_Port cfg)" "inInt (ac_HTTPPort cfg)" "inInt (ac_Order cfg)" "inInt (ac_MaxEntities cfg)" "inInt (ac_Workers cfg)" "inInt (ac_StatsSec cfg)"
    using f d envInt_in by blast+
  have "envParsed parseLevel env ''PANAUDIA_LOG_LEVEL'' 0 = Some (ac_LogLevel cfg)" using f by blast
  then show "inInt (ac_LogLevel cfg)" using parseLevel_inInt d(2) by (auto simp: envParsed_def Let_def split: if_splits)
  have "ac_SpaceID cfg = envOr env ''PANAUDIA_SPACE'' ''main''" "reverbPresets (ac_Reverb cfg) \<noteq> None" using f by blast+
  then show "ac_SpaceID cfg \<noteq> []" "ac_Reverb cfg \<noteq> []" by (auto simp: envOr_def Let_def reverbPresets_def)
  have "ac_LogFormat cfg = ''text'' \<or> ac_LogFormat cfg = ''json''" "ac_LogSink cfg = ''stderr'' \<or> ac_LogSink cfg = ''cloud-logging''" using f by blast+
  then show "ToLower (ac_LogFormat cfg) = ac_LogFormat cfg" "ToLower (ac_LogSink cfg) = ac_LogSink cfg" "ac_LogFormat cfg \<noteq> []" "ac_LogSink cfg \<noteq> []" using lower_fixed by auto
  have "envParsed ticketKey env ''PANAUDIA_TICKET_KEY'' None = Some (ac_TicketKey cfg)" using f by blast
  then show "ac_TicketKey cfg = Some k \<Longrightarrow> length k = 32" by (auto simp: envParsed_def Let_def ticketKey_ok split: if_splits)
qed

lemma printed_config:
  assumes "configFrom env cfg" "configSound cfg"
  shows "configFrom (effective cfg) cfg"
proof -
  note v = accepted_values[OF assms]
  have "envParsed ticketKey (effective cfg) ''PANAUDIA_TICKET_KEY'' None = Some (ac_TicketKey cfg)"
  proof (cases "ac_TicketKey cfg")
    case (Some k)
    then show ?thesis using ticketKey_printed[OF v(14)[OF Some]] by (simp add: envParsed_def)
  qed (simp add: envParsed_def)
  then show ?thesis unfolding configFrom_def using v level_roundtrip[OF v(7)] level_nonempty
    by (simp add: envInt_printed envParsed_printed envOr_def envLower_def)
qed

section \<open>Properties\<close>

text \<open>C39. A space is never open by accident. A configuration the server starts with is open exactly when it has no ticket key; it is
  open only when the variable for it was set to a true value and no key was given, and a key is the 32 bytes the
  variable encodes. With neither variable set, loading fails, although the comment on the configuration type says that an unset key
  means an open space. The other checks hold too: the port of the status page, certificate and key
  together or neither, a known reverb and known log settings.\<close>

theorem never_open_by_accident:
  "(loadConfig env = Inr cfg \<longrightarrow> configSound cfg \<and> (ac_AllowUnticketed cfg \<longrightarrow> ParseBool (Getenv env ''PANAUDIA_ALLOW_UNTICKETED'') = Some True \<and> Getenv env ''PANAUDIA_TICKET_KEY'' = []) \<and>
      (\<forall>k. ac_TicketKey cfg = Some k \<longrightarrow> length k = 32 \<and> DecodeString (Getenv env ''PANAUDIA_TICKET_KEY'') = Some k)) \<and>
   (Getenv env ''PANAUDIA_TICKET_KEY'' = [] \<and> Getenv env ''PANAUDIA_ALLOW_UNTICKETED'' = [] \<longrightarrow> (\<exists>e. loadConfig env = Inl e))"
proof -
  have a: "configSound c \<and> (ac_AllowUnticketed c \<longrightarrow> ParseBool (Getenv env ''PANAUDIA_ALLOW_UNTICKETED'') = Some True \<and> Getenv env ''PANAUDIA_TICKET_KEY'' = []) \<and>
      (\<forall>k. ac_TicketKey c = Some k \<longrightarrow> length k = 32 \<and> DecodeString (Getenv env ''PANAUDIA_TICKET_KEY'') = Some k)" if "loadConfig env = Inr c" for c
  proof -
    have c: "configFrom env c" "configSound c" using loadConfig_accepts[OF that] by blast+
    have "envParsed ticketKey env ''PANAUDIA_TICKET_KEY'' None = Some (ac_TicketKey c)" "envParsed ParseBool env ''PANAUDIA_ALLOW_UNTICKETED'' False = Some (ac_AllowUnticketed c)"
      "ac_AllowUnticketed c \<longleftrightarrow> ac_TicketKey c = None" using c unfolding configFrom_def configSound_def by blast+
    then show ?thesis using c(2) by (auto simp: envParsed_def Let_def ticketKey_ok split: if_splits)
  qed
  moreover have "\<exists>e. loadConfig env = Inl e" if e: "Getenv env ''PANAUDIA_TICKET_KEY'' = []" "Getenv env ''PANAUDIA_ALLOW_UNTICKETED'' = []"
  proof (cases "loadConfig env")
    case (Inr c)
    then have "configFrom env c" "configSound c" using loadConfig_accepts by blast+
    then have "envParsed ticketKey env ''PANAUDIA_TICKET_KEY'' None = Some (ac_TicketKey c)" "envParsed ParseBool env ''PANAUDIA_ALLOW_UNTICKETED'' False = Some (ac_AllowUnticketed c)"
      "ac_AllowUnticketed c \<longleftrightarrow> ac_TicketKey c = None" unfolding configFrom_def configSound_def by blast+
    then show ?thesis using e by (simp add: envParsed_def)
  qed blast
  ultimately show ?thesis by blast
qed

lemma open_space_config: "loadConfig [''PANAUDIA_ALLOW_UNTICKETED'' \<mapsto> ''true''] = Inr defaultConfig"
  by (rule loadConfig_complete) (simp_all add: configFrom_def configSound_def Getenv_def envInt_def envOr_def envLower_def envParsed_def ParseBool_def
      defaultConfig_def DefaultConfig_def reverbPresets_def)

theorem never_open_by_accident_witness:
  "configSound defaultConfig \<and> ac_AllowUnticketed defaultConfig \<and> (\<exists>e. loadConfig Map.empty = Inl e)"
  using never_open_by_accident[of "[''PANAUDIA_ALLOW_UNTICKETED'' \<mapsto> ''true'']" defaultConfig] never_open_by_accident[of Map.empty] open_space_config
  by (simp add: Getenv_def defaultConfig_def)

text \<open>The variables a reader of the printout would set: those with a value, and not those marked as unset.\<close>

definition printedEnv :: "(string \<times> string \<times> string) list \<Rightarrow> Environ" where
  "printedEnv lines = map_of (map (\<lambda>(name, v, _). (name, v)) (filter (\<lambda>(_, v, _). v \<noteq> ''(unset)'') lines))"

lemma printed_lines:
  "Getenv (printedEnv (map (\<lambda>n. (n, if f n = [] then ''(unset)'' else f n, g n)) ns)) x = (if x \<in> set ns \<and> f x \<noteq> ''(unset)'' then f x else [])"
proof (induction ns)
  case (Cons n ns)
  then show ?case by (cases "f n = []"; cases "f n = ''(unset)''") (auto simp: printedEnv_def Getenv_def)
qed (simp add: printedEnv_def Getenv_def)

lemma literal_lines:
  "Getenv (map_of (map (\<lambda>(name, v, _). (name, v)) (map (\<lambda>n. (n, f n, g n)) ns))) x = (if x \<in> set ns then f x else [])"
  by (induction ns) (auto simp: Getenv_def)

lemma printed_line: "name \<in> set configVars \<Longrightarrow> v = Getenv (effective c) name \<Longrightarrow> v \<noteq> [] \<Longrightarrow> (name, v, provenance env name fromEnv) \<in> set (logEffective env fromEnv c)"
  by (auto simp: logEffective_def Let_def)

lemma effective_dom: "x \<notin> set configVars \<Longrightarrow> Getenv (effective c) x = []"
  by (simp add: configVars_def effective_def Getenv_def)

lemma printed_env:
  assumes "\<forall>name. Getenv (effective c) name \<noteq> ''(unset)''"
  shows "Getenv (printedEnv (logEffective env fromEnv c)) = Getenv (effective c)"
  using assms effective_dom[of _ c] by (auto simp: fun_eq_iff logEffective_def Let_def printed_lines)

lemma configFrom_cong: "Getenv env = Getenv env' \<Longrightarrow> configFrom env c = configFrom env' c"
  by (simp add: configFrom_def envInt_def envOr_def envLower_def envParsed_def)

text \<open>C40. What the server prints at start is what it runs with. For every configuration it accepts in which no value is literally \<open>(unset)\<close>,
  setting the variables the lines of the printout give a value, leaving those marked \<open>(unset)\<close> unset, and loading again gives the same configuration:
  numbers, truth values, log levels with offsets and the ticket key in base 64 all
  read back as they were printed. The marker itself is not a value: setting every variable to what is printed, markers included, does not
  load for an open space, whose ticket key is marked \<open>(unset)\<close>.\<close>

theorem printed_config_reloads:
  assumes "loadConfig env = Inr cfg" "\<forall>name. Getenv (effective cfg) name \<noteq> ''(unset)''"
  shows "loadConfig (printedEnv (logEffective env' fromEnv cfg)) = Inr cfg \<and>
    (ac_TicketKey cfg = None \<longrightarrow> (\<exists>e. loadConfig (map_of (map (\<lambda>(name, v, _). (name, v)) (logEffective env' fromEnv cfg))) = Inl e))"
proof (intro conjI impI)
  have c: "configFrom env cfg" "configSound cfg" using loadConfig_accepts[OF assms(1)] by blast+
  have "configFrom (printedEnv (logEffective env' fromEnv cfg)) cfg" using printed_config[OF c] configFrom_cong[OF printed_env[OF assms(2)]] by simp
  then show "loadConfig (printedEnv (logEffective env' fromEnv cfg)) = Inr cfg" using c(2) by (rule loadConfig_complete)
next
  assume k: "ac_TicketKey cfg = None"
  let ?e = "map_of (map (\<lambda>(name, v, _). (name, v)) (logEffective env' fromEnv cfg))"
  have "ticketKey ''(unset)'' = None" by code_simp
  moreover have "Getenv ?e ''PANAUDIA_TICKET_KEY'' = ''(unset)''"
    unfolding logEffective_def Let_def literal_lines using k by (simp add: configVars_def)
  ultimately have "envParsed ticketKey ?e ''PANAUDIA_TICKET_KEY'' None = None" by (simp add: envParsed_def)
  then have "\<not> configFrom ?e c" for c by (simp add: configFrom_def)
  then show "\<exists>e. loadConfig ?e = Inl e" using loadConfig_accepts[of ?e] by (cases "loadConfig ?e") blast+
qed

theorem printed_config_reloads_witness:
  "loadConfig (printedEnv (logEffective [''PANAUDIA_ALLOW_UNTICKETED'' \<mapsto> ''true''] {''PANAUDIA_ALLOW_UNTICKETED''} defaultConfig)) = Inr defaultConfig \<and>
   (''PANAUDIA_REVERB'', ''medium-room'', ''default'') \<in> set (logEffective [''PANAUDIA_ALLOW_UNTICKETED'' \<mapsto> ''true''] {''PANAUDIA_ALLOW_UNTICKETED''} defaultConfig)"
proof -
  have p: "ToLower (levelString 0) = ''info''" "Atoi ''(unset)'' = None" by code_simp+
  then have q: "inInt n \<Longrightarrow> Itoa n \<noteq> ''(unset)''" for n using Itoa_roundtrip[of n] by auto
  have g: "Getenv (map_of xs) name \<noteq> v" if "v \<notin> snd ` set xs" "v \<noteq> []" for xs name and v :: string
    using that map_of_SomeD[of xs name v] by (force simp: Getenv_def split: option.splits)
  have "\<forall>name. Getenv (effective defaultConfig) name \<noteq> ''(unset)''" unfolding effective_def using q[of 4443] q[of 0] q[of 3] q[of 64] q[of 16] q[of 60]
    by (intro allI g) (simp_all add: defaultConfig_def DefaultConfig_def p FormatBool_def inInt_def)
  moreover have "(''PANAUDIA_REVERB'', ''medium-room'', ''default'') \<in> set (logEffective [''PANAUDIA_ALLOW_UNTICKETED'' \<mapsto> ''true''] {''PANAUDIA_ALLOW_UNTICKETED''} defaultConfig)"
    using printed_line[of "''PANAUDIA_REVERB''" _ defaultConfig "[''PANAUDIA_ALLOW_UNTICKETED'' \<mapsto> ''true'']" "{''PANAUDIA_ALLOW_UNTICKETED''}"]
    by (simp add: configVars_def provenance_def Getenv_def[of "[_ \<mapsto> _]"] defaultConfig_def p)
  ultimately show ?thesis using printed_config_reloads[OF open_space_config] by blast
qed

text \<open>The source the printout names is not always where the value came from: a variable set to the empty string counts as set by the
  environment although the default applies, and it keeps the file's value out.\<close>

lemma empty_variable_provenance:
  assumes "env = [''PANAUDIA_PORT'' \<mapsto> [], ''PANAUDIA_ALLOW_UNTICKETED'' \<mapsto> ''true'']" "file ''.env'' = Variables [''PANAUDIA_PORT'' \<mapsto> ''5000'']"
  shows "\<exists>env'. loadDotEnv file env = Inr (env', ''.env'') \<and> provenance env' ''PANAUDIA_PORT'' (snapshotEnv env) = ''env'' \<and> envInt env' ''PANAUDIA_PORT'' 4443 = Some 4443"
  using assms by (simp add: loadDotEnv_def Getenv_def provenance_def snapshotEnv_def configVars_def envInt_def)

end
