(* ===== verification/Spec2Isabelle.thy ===== *)
theory Spec2Isabelle
  imports Jitter_Pacing Pose_Progress Spherical_Harmonics Render_Parallel Egress Backend_Poses Mixer_Races Server_Clock Server_Config
begin

text \<open>
  Verification of the LASA spatial audio engine and of the server layer that drives it.

  \<^bold>\<open>The program.\<close> A server keeps a map of connected entities. Each entity may send audio (a source) and may
  receive audio (a binaural sink and any number of ambisonic sinks). A packet that arrives for a source is decoded and
  written into the source's jitter buffer; poses travel beside it in a ring. Every 5 ms the render loop runs a tick: it
  applies the queued changes of the control plane, reads one block from every source and delays and packs it (in), encodes for every
  listener the peers it hears into ambisonics, with distance, directivity, extent, near-field and reverb (across), and hands the result to the
  sinks, which decode to two ears with a filter set loaded from a file, compress, limit and encode (out). Control calls, packets
  and ticks come from different goroutines; they meet in the registry under a lock, in the change queue, in the jitter buffer's
  atomic positions and in version-locked pose cells.

  \<^bold>\<open>Arithmetic.\<close> \<open>Go_Float\<close> models \<^verbatim>\<open>float64\<close> and \<^verbatim>\<open>float32\<close> as rationals rounded to the nearest, ties to even, at 53 and 24 bits of precision, with the
  lemmas on error, monotonicity and exactness that the numeric bounds rest on. \<open>Go_Math\<close> collects the \<^verbatim>\<open>math\<close> functions
  Go does not specify to the last bit; they are a record of functions and the theorems name what they need of them.
  \<open>Lasa_Prelude\<close> has Go's integer division, slices, \<^verbatim>\<open>copy\<close> and loops, and the collections of simplification rules. An index out of
  range, a nil dereference or a failed \<^verbatim>\<open>make\<close> is \<open>None\<close>, an error value is \<open>Inl\<close>, so that a
  theorem with \<open>Some\<close> in its conclusion says that the code does not panic.

  \<^bold>\<open>Jitter buffer\<close> (\<^verbatim>\<open>src/engine/buffers/jitter_buffer.go\<close>, \<^verbatim>\<open>jitter_stream_pos.go\<close>). \<open>Jitter_Control\<close>: the estimate of a window, the ranks, the four
  controllers behind \<^verbatim>\<open>Decide\<close> and the contract they share (locale \<open>servo\<close>, interpreted for each of them and for the dispatch).
  \<open>Jitter_Ring\<close>: the sample ring with its splices, and the contract of a ring that holds the tail of the stream written
  to it (locale \<open>frame_ring\<close>, extended by \<open>uniform_ring\<close>). \<open>Jitter_Buffer\<close>: configuration, construction, \<^verbatim>\<open>Write\<close>, \<^verbatim>\<open>Read\<close> with sensing, placement,
  valves and playing, and the observers' views. \<open>Jitter_Safety\<close>: the invariant. \<open>Jitter_Stream\<close>: runs, the interpretation of the ring
  contract, what \<^verbatim>\<open>Read\<close> returns in terms of the stream, the bounds of the placement. \<open>Jitter_Pacing\<close>: how often audio is
  spliced and what an outage does to the estimate.

  \<^bold>\<open>Poses\<close> (\<^verbatim>\<open>src/engine/engine/pose.go\<close>). \<open>Pose_Store\<close>: interpolation, the ring of accepted poses (again a \<open>frame_ring\<close>), the slot. \<open>Pose_Seqlock\<close>: the version
  protocol of a cell as a step relation over a writer and a reader at the grain of one atomic word
  (locale \<open>packed\<close>, interpreted for the slot and for the ring entry): no reader returns a torn pose; \<open>Pose_Progress\<close>: a reader the
  writer leaves alone returns.

  \<^bold>\<open>Encoder\<close> (\<^verbatim>\<open>src/engine/ambisonic\<close>, \<^verbatim>\<open>src/engine/common\<close>). \<open>Spherical_Harmonics\<close>: the three evaluators and that they agree. \<open>Pair_Laws\<close>: geometry, distance, reverb
  split, extent, directivity. \<open>Delay_Pack\<close>: interaural delays, the input ring, fractional reads, packing and both ways to mix.
  \<open>Near_Field\<close>: the compensation filters. \<open>Reverb\<close> and \<open>Reverb_Stability\<close>: the reverb, and that in \<^verbatim>\<open>float32\<close> arithmetic it stays bounded.
  \<open>Encoder_Policy\<close>: the encoder's state, construction and setters, and whom a listener hears. \<open>Encoder_Mix\<close>: the pass over the peers.
  \<open>Encoder_Safety\<close>: its invariant, that the pass never leaves its buffers, and what slots and gaps do to its memory.

  \<^bold>\<open>Engine\<close> (\<^verbatim>\<open>src/engine/engine\<close>, \<^verbatim>\<open>src/engine/inout\<close>). \<open>Channels\<close> (\<^verbatim>\<open>channels.go\<close>, \<^verbatim>\<open>params.go\<close>): channels, personal mutes and solos, the resolution of a
  pair. \<open>Sources\<close> (\<^verbatim>\<open>source.go\<close>, \<^verbatim>\<open>group.go\<close>, \<^verbatim>\<open>decoder.go\<close>, \<^verbatim>\<open>plc.go\<close>): packets, loss concealment, raw audio, lockstep groups. \<open>Mixer_Control\<close>
  (\<^verbatim>\<open>mixer.go\<close>, \<^verbatim>\<open>ambisink.go\<close>): the registry, the change queue, entities and slots, closing; \<open>Mixer_Safety\<close> shows that no call panics
  when calls are serialised, and that the audio side refines the registry; \<open>Mixer_Sinks\<close> accounts for the release of C resources and for the ambisonic sinks a
  removal loses. The registry section of adding and removing a source is a definition of its own (\<open>AddSource_locked\<close>, \<open>RemoveSource_locked\<close>), and
  \<open>Mixer_Races\<close> shows what happens when another call queues its change first. \<open>Render\<close> (\<^verbatim>\<open>render.go\<close>, \<^verbatim>\<open>sink.go\<close>):
  the tick. \<open>Render_Safety\<close> and \<open>Render_Tick\<close>: its invariant, and that it completes; \<open>Render_Run\<close>: all runs of calls, packets and ticks
  (\<open>reach\<close>); \<open>Render_Laws\<close>: who hears whom and what reaches the sinks; \<open>Render_Poses\<close>: what keeps the poses. \<open>Render_Schedule\<close>: jobs on
  different workers commute (locale \<open>worker_queues\<close> and, for jobs that write what they own, \<open>local_jobs\<close> with a sublocale
  between them; interpreted for the three phases); \<open>Render_Parallel\<close>: so the result of a tick does not depend on the schedule.

  \<^bold>\<open>Filter sets and egress.\<close> \<open>Hrtf_Set\<close> (\<^verbatim>\<open>src/engine/hrtf/pahrtf.go\<close>, \<^verbatim>\<open>binaural/convolver_decoder.go\<close>): the container's header, manifest, block
  table, banks and delays. \<open>Egress\<close> (\<^verbatim>\<open>src/engine/inout/dynamics.go\<close>, \<^verbatim>\<open>f32codec.go\<close>, \<^verbatim>\<open>encoder.go\<close>, \<^verbatim>\<open>rawf32_output.go\<close>): compressor and limiter, bytes of
  samples, the sinks' encoders.

  \<^bold>\<open>Server\<close> (\<^verbatim>\<open>src/server/backend.go\<close>, \<^verbatim>\<open>wiring.go\<close>). \<open>Backend\<close>: the map of entities, joining and leaving, sinks, ingress, and the consumer of profile
  state. \<open>Backend_Safety\<close>: its runs are runs of the mixer, and the map of connected entities is the engine's. \<open>Backend_Poses\<close>: presence and sinks
  show the same pose in runs whose calls do not overlap, and what a pose does that arrives while a sink is being attached (seeding a sink and putting it on the
  fan-out list, storing a pose and fanning it out are separate definitions). \<open>Server_Clock\<close> (\<^verbatim>\<open>src/engine/timing/ticker.go\<close>, \<^verbatim>\<open>src/server/clock.go\<close>): the pacing of the ticks and the timestamps of frames, and that they
  are one clock. \<open>Server_Config\<close> (\<^verbatim>\<open>src/server/config.go\<close>): the environment, the checks at start and the printout; \<open>Go_Text\<close> has the parsing and printing of
  Go's library that it uses.

  This theory composes them: a filter set the loader accepts as aligned by the Woodworth model starts a mixer, and every run of the server on that mixer keeps
  rendering; any other alignment makes the start panic.

  \<^bold>\<open>Bounds and fuel.\<close> Loops of the code are structural recursion or \<^verbatim>\<open>for\<close> loops over a given count; the Euclidean loop has a
  termination proof. \<open>Run\<close> takes the number of ticks it makes before it is cancelled. The retry loop of the pose cells has no bound of its
  own in the code and is a step relation. Integers are mathematical where the invariants bound them, and wrap at 64 bits where they may
  overflow (offsets of a filter file) and at their width where the code relies on it (sequence numbers, bytes of samples).

  \<^bold>\<open>Parameters.\<close> Whether \<^verbatim>\<open>NewConvolverSet\<close> builds a convolver is a field of the environment of \<open>New\<close> (\<open>ev_convolver\<close>), which this theory sets to what \<open>Hrtf_Set\<close> computes from the
  loaded set. The matrix product behind \<^verbatim>\<open>gemm\<close>, the generated near-field table, libopus (decoder, encoder, multistream), the convolver
  in C, \<^verbatim>\<open>json.Unmarshal\<close>, the readings of the clock, the reader of \<^verbatim>\<open>.env\<close> files, the parser of state operations, the profile defaults and the presence slot of the transport library are
  arguments of the definitions that use them. What is assumed of them is in the hypotheses (\<open>envOk\<close>, \<open>delayModel\<close>, the
  laws on \<open>Math\<close> and \<open>Codec\<close>, \<open>honest\<close>), and every theorem that has such a hypothesis is applied to a concrete instance.

  \<^bold>\<open>Not modelled.\<close> Infinities, NaN, the sign of zero, subnormal numbers and overflow of floats, and the fusion of a product and a sum that Go permits on
  some machines. Data races below the grain of a job, an atomic word or a locked section, such as a writer that laps the
  reader of a jitter buffer. A run is a sequence of whole calls: what overlapping calls add to it is shown for the two pairs of calls above and for the version-locked cells, not in general.
  Rows of the pair record and the slices of a ring are total functions, used where the invariants keep the indices in range. The depth of the change queue and the counters of timing. The order in which Go iterates over
  a map of ambisonic sinks is taken to be the order of attachment. The offline laboratory (\<^verbatim>\<open>src/engine/jitterlab\<close>), the bindings to C, the
  node types of an earlier system in \<^verbatim>\<open>src/engine/common/types.go\<close>, and the flags, TLS, transport and logging of the server process hold none of the
  engine's logic.
\<close>

section \<open>From the filter file to the rendered tick\<close>

text \<open>What an accepted filter set gives the server: a delay model for its encoders and a bank for its order.\<close>

lemma accepted_environment:
  assumes "Load unmarshal data = Some (Inr s)" "mf_FilterType (hs_Manifest s) = FilterTypeEarAligned" "ev_bilateral env = InstallDelayModel s bl"
  shows "delayModel env cfg"
  using accepted_delay_model[OF assms(1,2), of bl "encCfg cfg"] assms(3) by (auto simp: delayModel_def)

lemma New_accepts: "configOk cfg \<Longrightarrow> banks (cf_Order cfg) \<Longrightarrow> ev_convolver env (cf_Order cfg) \<Longrightarrow> \<exists>m. New env banks cfg = Inr m"
  by (auto simp: New_def configOk_def Let_def)

lemma accepted_convolver:
  assumes "Load unmarshal data = Some (Inr s)" "mf_FilterType (hs_Manifest s) = FilterTypeEarAligned" "i \<in> set (mf_Orders (hs_Manifest s))"
  shows "(\<exists>taps. NewConvolverSet s i = Inr taps) \<longleftrightarrow> al_Method (mf_Alignment (hs_Manifest s)) = ''woodworth''"
  using accepted_bank[OF assms(1,3)] assms(2) by (auto simp: NewConvolverSet_def bankOk_def)

text \<open>C3. The whole path holds together. Take any filter set the loader accepts as ear-aligned, with its alignment installed and the
  convolver built from it, an order the set lists and a sound configuration. If the set is aligned by the Woodworth model, the mixer starts,
  and after any run of the server on it
  (joins, departures, sinks, state operations, packets, losses, lockstep frames, ticks), the next tick completes, under
  any scheduling of the workers, and leaves the audio side playing, for each connected entity, the source its record holds, and no
  other source. If it is aligned in another way, which the loader also accepts, starting the mixer panics.\<close>

theorem accepted_set_serves:
  fixes sh :: "'d Shell"
  assumes "Load unmarshal data = Some (Inr s)" "mf_FilterType (hs_Manifest s) = FilterTypeEarAligned" "ev_bilateral env = InstallDelayModel s bl" "envOk env"
    "configOk cfg" "cf_Order cfg \<in> set (mf_Orders (hs_Manifest s))" "cd_new (sh_codec sh) 1 \<noteq> None" "\<And>ph js. sameQueues js (sched ph js)"
    "\<And>i. ev_convolver env i \<longleftrightarrow> (\<exists>taps. NewConvolverSet s i = Inr taps)"
  shows "(al_Method (mf_Alignment (hs_Manifest s)) = ''woodworth'' \<longrightarrow> (\<exists>m. New env (\<lambda>i. Bank s i \<noteq> None) cfg = Inr m \<and>
    (\<forall>ops b. bk_exec sh ops (newBackend m sc) = Some b \<longrightarrow> (\<exists>m'. ProcessUnder sched (bk_mixer b) = Some m' \<and>
       (\<forall>x. Option.bind (mx_ents m' x) (\<lambda>e. map_option sr_handle (ent_src e)) = Option.bind (bk_entities b x) (\<lambda>r. map_option er_src (bk_recs b r))))))) \<and>
    (al_Method (mf_Alignment (hs_Manifest s)) \<noteq> ''woodworth'' \<longrightarrow> (New env (\<lambda>i. Bank s i \<noteq> None) cfg :: string + 'd Mixer) = Inl ''panic in NewConvolverSet'')"
proof (intro conjI impI)
  assume w: "al_Method (mf_Alignment (hs_Manifest s)) = ''woodworth''"
  have dm: "delayModel env cfg" by (rule accepted_environment[OF assms(1-3)])
  have "Bank s (cf_Order cfg) \<noteq> None" "ev_convolver env (cf_Order cfg)" using accepted_bank[OF assms(1,6)] accepted_convolver[OF assms(1,2,6)] assms(9) w by auto
  then obtain m :: "'d Mixer" where m: "New env (\<lambda>i. Bank s i \<noteq> None) cfg = Inr m" using New_accepts[OF assms(5), of "\<lambda>i. Bank s i \<noteq> None" env] by auto
  have "\<exists>m'. ProcessUnder sched (bk_mixer b) = Some m' \<and>
      (\<forall>x. Option.bind (mx_ents m' x) (\<lambda>e. map_option sr_handle (ent_src e)) = Option.bind (bk_entities b x) (\<lambda>r. map_option er_src (bk_recs b r)))"
    if b: "bk_exec sh ops (newBackend m sc) = Some b" for ops b
  proof -
    have i: "bkInv (sh_codec sh) (sh_multistream sh) env (\<lambda>i. Bank s i \<noteq> None) cfg sc b" by (rule bk_exec_inv[OF assms(7) dm assms(4) newBackend_inv[OF m dm] b])
    then have r: "reach (sh_codec sh) (sh_multistream sh) env (\<lambda>i. Bank s i \<noteq> None) cfg (bk_mixer b)" "\<not> mx_stopped (bk_mixer b)" by (simp_all add: bkInv_def)
    show ?thesis using tick_plays_connected[OF i dm assms(4)] scheduled_tick[OF r(1) dm assms(4) r(2) assms(8)] by auto
  qed
  then show "\<exists>m. New env (\<lambda>i. Bank s i \<noteq> None) cfg = Inr m \<and>
    (\<forall>ops b. bk_exec sh ops (newBackend m sc) = Some b \<longrightarrow> (\<exists>m'. ProcessUnder sched (bk_mixer b) = Some m' \<and>
       (\<forall>x. Option.bind (mx_ents m' x) (\<lambda>e. map_option sr_handle (ent_src e)) = Option.bind (bk_entities b x) (\<lambda>r. map_option er_src (bk_recs b r)))))"
    using m by blast
next
  assume w: "al_Method (mf_Alignment (hs_Manifest s)) \<noteq> ''woodworth''"
  then have "Bank s (cf_Order cfg) \<noteq> None" "\<not> ev_convolver env (cf_Order cfg)" using accepted_bank[OF assms(1,6)] accepted_convolver[OF assms(1,2,6)] assms(9) by auto
  then show "(New env (\<lambda>i. Bank s i \<noteq> None) cfg :: string + 'd Mixer) = Inl ''panic in NewConvolverSet''" using assms(5) by (auto simp: New_def configOk_def)
qed

definition demo_file_env :: Env where
  "demo_file_env = demo_env \<lparr> ev_bilateral := InstallDelayModel demo_set demo_bilateral, ev_convolver := (\<lambda>i. \<not> isl (NewConvolverSet demo_set i)) \<rparr>"

theorem accepted_set_serves_witness:
  "\<exists>(m :: unit Mixer) b m' e ref h. New demo_file_env (\<lambda>i. Bank demo_set i \<noteq> None) (DefaultConfig \<lparr> cf_Order := 2, cf_MaxEntities := 4 \<rparr>) = Inr m \<and>
     bk_exec demo_shell [BJoin ''c'' (demo_entity ''a'')] (newBackend m SourceCodecOpus) = Some b \<and> bk_recs b 0 = Some (newRec ''c'' (demo_entity ''a'') h) \<and>
     ProcessUnder lastFirst (bk_mixer b) = Some m' \<and> mx_ents m' ''a'' = Some e \<and> ent_src e = Some ref \<and> sr_handle ref = h"
proof -
  let ?cfg = "DefaultConfig \<lparr> cf_Order := 2, cf_MaxEntities := 4 \<rparr>"
  have e: "envOk demo_file_env" using demo_envOk by (simp add: envOk_def demo_file_env_def)
  have v: "ev_convolver demo_file_env i \<longleftrightarrow> (\<exists>taps. NewConvolverSet demo_set i = Inr taps)" for i
    by (cases "NewConvolverSet demo_set i") (simp_all add: demo_file_env_def)
  have t: "mf_FilterType (hs_Manifest demo_set) = FilterTypeEarAligned" "2 \<in> set (mf_Orders (hs_Manifest demo_set))" "al_Method (mf_Alignment (hs_Manifest demo_set)) = ''woodworth''"
    by (simp_all add: demo_set_manifest demo_manifest_def)
  have c: "configOk ?cfg" "cf_Order ?cfg \<in> set (mf_Orders (hs_Manifest demo_set))" "ev_bilateral demo_file_env = InstallDelayModel demo_set demo_bilateral"
    using t(2) by (simp_all add: configOk_def DefaultConfig_def demo_file_env_def)
  obtain m :: "unit Mixer" where m: "New demo_file_env (\<lambda>i. Bank demo_set i \<noteq> None) ?cfg = Inr m"
    and r: "\<forall>ops b. bk_exec demo_shell ops (newBackend m SourceCodecOpus) = Some b \<longrightarrow> (\<exists>m'. ProcessUnder lastFirst (bk_mixer b) = Some m' \<and>
       (\<forall>x. Option.bind (mx_ents m' x) (\<lambda>e. map_option sr_handle (ent_src e)) = Option.bind (bk_entities b x) (\<lambda>r. map_option er_src (bk_recs b r))))"
    using accepted_set_serves[where sched = lastFirst and sc = SourceCodecOpus, OF demo_load t(1) c(3) e c(1,2) demo_shell_codec(1) lastFirst_queues v] t(3) by blast
  have f: "\<not> mx_closed m" "mx_entityCount m = 0" "mx_reg m = Map.empty" "0 < cf_MaxEntities (mx_cfg m)"
    using m by (auto simp: New_def Let_def split: if_splits)
  obtain b h where b: "bk_exec demo_shell [BJoin ''c'' (demo_entity ''a'')] (newBackend m SourceCodecOpus) = Some b" "bk_entities b ''a'' = Some 0"
    "bk_recs b 0 = Some (newRec ''c'' (demo_entity ''a'') h)" using fresh_joined[OF f] by blast
  obtain m' where m': "ProcessUnder lastFirst (bk_mixer b) = Some m'"
    "Option.bind (mx_ents m' ''a'') (\<lambda>e. map_option sr_handle (ent_src e)) = Option.bind (bk_entities b ''a'') (\<lambda>r. map_option er_src (bk_recs b r))"
    using r[rule_format, OF b(1)] by blast
  then obtain en ref where "mx_ents m' ''a'' = Some en" "ent_src en = Some ref" "sr_handle ref = h" using b(2,3) by (auto simp: bind_eq_Some_conv newRec_def)
  then show ?thesis using m b(1,3) m'(1) by blast
qed

end
